(* ===== verification/Prelude.thy ===== *)
theory Prelude
  imports
    Main
    "HOL-Library.Word"
    "HOL-Library.Char_ord"
    "HOL-Library.List_Lexorder"
    "HOL-Library.Product_Lexorder"
begin

text \<open>
  What every component of the model shares: the parts of Rust and of its standard library that
  the sources use.

  \<^item> \<open>Result<T, E>\<close> is \<open>'e + 't\<close> with \<open>Inl\<close> for \<open>Err\<close>. A statement followed by the question
    mark operator is \<open>and_then\<close>, a loop that returns early on an error is \<open>try_fold\<close> (or
    \<open>for_each\<close> when the loop carries no state).
  \<^item> \<open>u64\<close> and \<open>u32\<close> are words of that width; \<open>checked_add\<close> is \<open>None\<close> on overflow. Lengths
    and byte counts (\<open>usize\<close>) are \<open>nat\<close>, and their checked additions carry the bound \<open>2 ^ 64\<close>.
  \<^item> A \<open>String\<close> is the list of its UTF-8 bytes, so \<open>length\<close> is \<open>str::len\<close> and the order of the
    library (\<open>List_Lexorder\<close> over \<open>Char_ord\<close>) is the byte order \<open>str\<close> is compared by;
    \<open>str_chars\<close> decodes the code points that \<open>str::chars\<close> yields.
  \<^item> A \<open>BTreeMap\<close> is an association list with strictly increasing keys, so that iterating it
    means reading the list; the locale \<open>ordered_map\<close> is what the components use of it.
\<close>

section \<open>Fallible steps\<close>

named_theorems ok_iff \<open>when a fallible step succeeds\<close>

definition and_then :: "'e + 'a \<Rightarrow> ('a \<Rightarrow> 'e + 'b) \<Rightarrow> 'e + 'b" where
  "and_then m f = (case m of Inl e \<Rightarrow> Inl e | Inr x \<Rightarrow> f x)"

definition map_err :: "('e \<Rightarrow> 'f) \<Rightarrow> 'e + 'a \<Rightarrow> 'f + 'a" where
  "map_err g m = (case m of Inl e \<Rightarrow> Inl (g e) | Inr x \<Rightarrow> Inr x)"

definition ok_or :: "'e \<Rightarrow> 'a option \<Rightarrow> 'e + 'a" where
  "ok_or e m = (case m of None \<Rightarrow> Inl e | Some x \<Rightarrow> Inr x)"

fun try_fold :: "('s \<Rightarrow> 'a \<Rightarrow> 'e + 's) \<Rightarrow> 's \<Rightarrow> 'a list \<Rightarrow> 'e + 's" where
  "try_fold f s [] = Inr s"
| "try_fold f s (x # xs) = and_then (f s x) (\<lambda>s'. try_fold f s' xs)"

fun for_each :: "('a \<Rightarrow> 'e + unit) \<Rightarrow> 'a list \<Rightarrow> 'e + unit" where
  "for_each f [] = Inr ()"
| "for_each f (x # xs) = and_then (f x) (\<lambda>_. for_each f xs)"

definition is_ok :: "'e + 'a \<Rightarrow> bool" where
  "is_ok m = (case m of Inl _ \<Rightarrow> False | Inr _ \<Rightarrow> True)"

lemma and_then_simps [simp]:
  "and_then (Inr x) f = f x"
  "and_then (Inl e) f = Inl e"
  by (simp_all add: and_then_def)

lemma map_err_simps [simp]:
  "map_err g (Inr x) = Inr x"
  "map_err g (Inl e) = Inl (g e)"
  by (simp_all add: map_err_def)

lemma ok_or_simps [simp]:
  "ok_or e (Some x) = Inr x"
  "ok_or e None = Inl e"
  by (simp_all add: ok_or_def)

lemma is_ok_simps [simp]:
  "is_ok (Inr x)"
  "\<not> is_ok (Inl e)"
  by (simp_all add: is_ok_def)

lemma is_ok_iff: "is_ok m \<longleftrightarrow> (\<exists>x. m = Inr x)"
  by (cases m) simp_all

lemma and_then_eq_Inr [ok_iff]: "and_then m f = Inr y \<longleftrightarrow> (\<exists>x. m = Inr x \<and> f x = Inr y)"
  by (cases m) simp_all

lemma map_err_eq_Inr [ok_iff]: "map_err g m = Inr y \<longleftrightarrow> m = Inr y"
  by (cases m) simp_all

lemma ok_or_eq_Inr [ok_iff]: "ok_or e m = Inr y \<longleftrightarrow> m = Some y"
  by (cases m) simp_all

lemma if_Inl_eq_Inr [ok_iff]:
  "(if b then Inl e else m) = Inr y \<longleftrightarrow> \<not> b \<and> m = Inr y"
  "(if b then m else Inl e) = Inr y \<longleftrightarrow> b \<and> m = Inr y"
  by simp_all

lemma and_then_assoc: "and_then (and_then m f) g = and_then m (\<lambda>x. and_then (f x) g)"
  by (cases m) simp_all

lemma and_then_cong [fundef_cong]:
  "m = m' \<Longrightarrow> (\<And>x. m' = Inr x \<Longrightarrow> f x = f' x) \<Longrightarrow> and_then m f = and_then m' f'"
  by (cases m') simp_all

lemma try_fold_append:
  "try_fold f s (xs @ ys) = and_then (try_fold f s xs) (\<lambda>s'. try_fold f s' ys)"
  by (induction xs arbitrary: s) (simp_all add: and_then_assoc)

lemma try_fold_snoc:
  "try_fold f s (xs @ [x]) = and_then (try_fold f s xs) (\<lambda>s'. f s' x)"
proof -
  have "and_then (f s' x) Inr = f s' x" for s'
    by (cases "f s' x") simp_all
  then show ?thesis by (simp add: try_fold_append)
qed

text \<open>An invariant of a loop that returns early: kept by every step, it holds of the result.\<close>

lemma try_fold_invariant:
  assumes "try_fold f s xs = Inr s'" and "P s"
    and "\<And>s x s'. x \<in> set xs \<Longrightarrow> P s \<Longrightarrow> f s x = Inr s' \<Longrightarrow> P s'"
  shows "P s'"
  using assms by (induction xs arbitrary: s) (auto simp: and_then_eq_Inr)

text \<open>The same with the processed prefix in the invariant, by adding elements at the end.\<close>

lemma try_fold_prefix_induct [consumes 1, case_names Nil snoc]:
  assumes "try_fold f s xs = Inr s'"
    and "P [] s"
    and "\<And>xs x t t'. try_fold f s xs = Inr t \<Longrightarrow> P xs t \<Longrightarrow> f t x = Inr t' \<Longrightarrow> P (xs @ [x]) t'"
  shows "P xs s'"
  using assms(1)
proof (induction xs arbitrary: s' rule: rev_induct)
  case Nil
  with assms(2) show ?case by simp
next
  case (snoc x xs)
  from snoc.prems obtain t where t: "try_fold f s xs = Inr t" "f t x = Inr s'"
    by (auto simp: try_fold_snoc and_then_eq_Inr)
  with snoc.IH assms(3) show ?case by blast
qed

lemma for_each_ok [ok_iff]: "for_each f xs = Inr u \<longleftrightarrow> (\<forall>x\<in>set xs. f x = Inr ())"
  by (induction xs) (auto simp: and_then_eq_Inr)

section \<open>Machine integers\<close>

type_synonym u64 = "64 word"
type_synonym u32 = "32 word"
type_synonym usize = nat

definition checked_add :: "'a::len word \<Rightarrow> 'a word \<Rightarrow> 'a word option" where
  "checked_add a b = (if unat a + unat b < 2 ^ LENGTH('a) then Some (a + b) else None)"

definition usize_checked_add :: "usize \<Rightarrow> usize \<Rightarrow> usize option" where
  "usize_checked_add a b = (if a + b < 2 ^ 64 then Some (a + b) else None)"

definition usize_checked_sub :: "usize \<Rightarrow> usize \<Rightarrow> usize option" where
  "usize_checked_sub a b = (if b \<le> a then Some (a - b) else None)"

definition u64_of_usize :: "usize \<Rightarrow> u64 option" where
  "u64_of_usize n = (if n < 2 ^ 64 then Some (of_nat n) else None)"

lemma checked_add_Some [ok_iff]:
  "checked_add a b = Some c \<longleftrightarrow> unat c = unat a + unat b" for a b c :: "'a::len word"
proof -
  have "unat (a + b) = unat a + unat b" if "unat a + unat b < 2 ^ LENGTH('a)"
    using that by (simp add: unat_word_ariths)
  moreover have "unat c < 2 ^ LENGTH('a)" by (rule unsigned_less)
  ultimately show ?thesis
    unfolding checked_add_def word_unat_eq_iff [of _ c] option.inject
    by (cases "unat a + unat b < 2 ^ LENGTH('a)") (auto simp: word_unat_eq_iff simp del: unsigned_less)
qed

lemma checked_add_le: "checked_add a b = Some c \<Longrightarrow> a \<le> c"
  by (simp add: checked_add_Some word_le_nat_alt)

lemma checked_add_less: "checked_add a b = Some c \<Longrightarrow> b \<noteq> 0 \<Longrightarrow> a < c"
  by (simp add: checked_add_Some word_less_nat_alt unat_gt_0)

lemma u64_of_usize_Some [ok_iff]: "u64_of_usize n = Some w \<longleftrightarrow> unat w = n"
proof -
  have "unat w < 2 ^ 64" using unsigned_less [of w, where 'a = nat] by simp
  then show ?thesis
    by (auto simp: u64_of_usize_def unat_of_nat take_bit_nat_eq_self)
qed

lemma find_append_new: "\<forall>x\<in>set xs. \<not> P x \<Longrightarrow> find P (xs @ ys) = find P ys"
  by (induction xs) simp_all

lemma find_append_Some: "find P xs = Some x \<Longrightarrow> find P (xs @ ys) = Some x"
  by (induction xs) (auto split: if_splits)

lemma unat_of_nat_u64: "n < 2 ^ 64 \<Longrightarrow> unat (of_nat n :: u64) = n"
  by (simp add: unat_of_nat take_bit_nat_eq_self)

text \<open>
  The number the next record of a log of \<open>n\<close> records gets, computed with checks from the length
  and as the successor of the number expected by a replay.
\<close>

lemma next_sequence:
  assumes "Suc (Suc n) < 2 ^ 64"
  shows "Option.bind (u64_of_usize n) (\<lambda>n. checked_add n 1) = Some (of_nat (Suc n))"
    and "unat (e :: u64) = Suc n \<Longrightarrow> e = of_nat (Suc n)"
    and "checked_add (of_nat (Suc n) :: u64) 1 = Some (of_nat (Suc n) + 1)"
    and "unat (of_nat (Suc n) :: u64) = Suc n"
proof -
  show number: "unat (of_nat (Suc n) :: u64) = Suc n"
    using assms by (intro unat_of_nat_u64) simp
  then show "unat (e :: u64) = Suc n \<Longrightarrow> e = of_nat (Suc n)"
    by (intro unsigned_word_eqI [where 'a = nat]) simp
  show "checked_add (of_nat (Suc n) :: u64) 1 = Some (of_nat (Suc n) + 1)"
    using assms number unfolding checked_add_def by simp
  show "Option.bind (u64_of_usize n) (\<lambda>n. checked_add n 1) = Some (of_nat (Suc n))"
    using assms by (simp add: u64_of_usize_def checked_add_def unat_of_nat_u64)
qed

lemma next_number_Some:
  "Option.bind (u64_of_usize n) (\<lambda>n. checked_add n 1) = Some sq \<longleftrightarrow> unat sq = Suc n"
proof -
  have "unat sq < 2 ^ 64" using unsigned_less [of sq, where 'a = nat] by simp
  then show ?thesis
    by (auto simp: bind_eq_Some_conv u64_of_usize_Some checked_add_Some unat_of_nat_u64
        intro!: exI [of _ "of_nat n"])
qed

section \<open>Strings\<close>

type_synonym bytes = string

text \<open>\<open>str::chars\<close>: the code points of a UTF-8 byte sequence.\<close>

fun utf8_chars :: "nat list \<Rightarrow> nat list" where
  "utf8_chars [] = []"
| "utf8_chars (b # bs) =
     (if b < 128 then b # utf8_chars bs
      else if b < 224 then
        (case bs of
           c1 # r \<Rightarrow> ((b - 192) * 64 + (c1 - 128)) # utf8_chars r
         | _ \<Rightarrow> [])
      else if b < 240 then
        (case bs of
           c1 # c2 # r \<Rightarrow> ((b - 224) * 4096 + (c1 - 128) * 64 + (c2 - 128)) # utf8_chars r
         | _ \<Rightarrow> [])
      else
        (case bs of
           c1 # c2 # c3 # r \<Rightarrow>
             ((b - 240) * 262144 + (c1 - 128) * 4096 + (c2 - 128) * 64 + (c3 - 128))
               # utf8_chars r
         | _ \<Rightarrow> []))"

definition str_bytes :: "string \<Rightarrow> nat list" where
  "str_bytes s = map of_char s"

definition str_chars :: "string \<Rightarrow> nat list" where
  "str_chars s = utf8_chars (str_bytes s)"

text \<open>\<open>char::is_control\<close>: the code points of category Cc.\<close>

definition is_control :: "nat \<Rightarrow> bool" where
  "is_control c \<longleftrightarrow> c < 32 \<or> (127 \<le> c \<and> c < 160)"

text \<open>\<open>char::is_whitespace\<close>: the code points with the property White\_Space.\<close>

definition is_whitespace :: "nat \<Rightarrow> bool" where
  "is_whitespace c \<longleftrightarrow>
     (9 \<le> c \<and> c \<le> 13) \<or> c = 32 \<or> c = 133 \<or> c = 160 \<or> c = 5760 \<or>
     (8192 \<le> c \<and> c \<le> 8202) \<or> c = 8232 \<or> c = 8233 \<or> c = 8239 \<or> c = 8287 \<or> c = 12288"

text \<open>\<open>s.trim().is_empty()\<close> and \<open>s.chars().any(char::is_control)\<close>.\<close>

definition trim_is_empty :: "string \<Rightarrow> bool" where
  "trim_is_empty s \<longleftrightarrow> list_all is_whitespace (str_chars s)"

definition has_control :: "string \<Rightarrow> bool" where
  "has_control s \<longleftrightarrow> list_ex is_control (str_chars s)"

definition is_ascii_digit :: "nat \<Rightarrow> bool" where
  "is_ascii_digit c \<longleftrightarrow> 48 \<le> c \<and> c \<le> 57"

definition is_ascii_lowercase :: "nat \<Rightarrow> bool" where
  "is_ascii_lowercase c \<longleftrightarrow> 97 \<le> c \<and> c \<le> 122"

definition is_ascii_uppercase :: "nat \<Rightarrow> bool" where
  "is_ascii_uppercase c \<longleftrightarrow> 65 \<le> c \<and> c \<le> 90"

definition is_ascii_alphanumeric :: "nat \<Rightarrow> bool" where
  "is_ascii_alphanumeric c \<longleftrightarrow> is_ascii_digit c \<or> is_ascii_lowercase c \<or> is_ascii_uppercase c"

lemma trim_is_empty_Nil [simp]: "trim_is_empty []"
  by (simp add: trim_is_empty_def str_chars_def str_bytes_def)

text \<open>\<open>format!("{byte:02x}")\<close> over the bytes of a digest.\<close>

definition hex_digit :: "nat \<Rightarrow> char" where
  "hex_digit n = char_of (if n < 10 then 48 + n else 87 + n)"

definition hex_byte :: "char \<Rightarrow> string" where
  "hex_byte c = [hex_digit (of_char c div 16), hex_digit (of_char c mod 16)]"

definition lower_hex :: "bytes \<Rightarrow> string" where
  "lower_hex bs = concat (map hex_byte bs)"

definition is_lower_hex_byte :: "nat \<Rightarrow> bool" where
  "is_lower_hex_byte c \<longleftrightarrow> is_ascii_digit c \<or> (97 \<le> c \<and> c \<le> 102)"

lemma length_lower_hex [simp]: "length (lower_hex bs) = 2 * length bs"
  by (induction bs) (simp_all add: lower_hex_def hex_byte_def)

lemma hex_digit_is_lower_hex: "n < 16 \<Longrightarrow> is_lower_hex_byte (of_char (hex_digit n))"
  by (auto simp: hex_digit_def is_lower_hex_byte_def is_ascii_digit_def)

lemma lower_hex_is_lower_hex: "list_all is_lower_hex_byte (str_bytes (lower_hex bs))"
proof (induction bs)
  case Nil
  then show ?case by (simp add: lower_hex_def str_bytes_def)
next
  case (Cons b bs)
  have "(of_char b :: nat) div 16 < 16"
    using nat_of_char_less_256 [of b] by linarith
  with Cons show ?case
    by (simp add: lower_hex_def str_bytes_def hex_byte_def hex_digit_is_lower_hex)
qed

lemma hex_digit_inj: "hex_digit m = hex_digit n \<Longrightarrow> m < 16 \<Longrightarrow> n < 16 \<Longrightarrow> m = n"
proof -
  assume "hex_digit m = hex_digit n" "m < 16" "n < 16"
  then have "(of_char (hex_digit m) :: nat) = of_char (hex_digit n)" "m < 16" "n < 16" by simp_all
  then show "m = n" by (auto simp: hex_digit_def split: if_splits)
qed

lemma lower_hex_inj: "lower_hex a = lower_hex b \<Longrightarrow> a = b"
proof (induction a arbitrary: b)
  case Nil
  then show ?case by (cases b) (simp_all add: lower_hex_def hex_byte_def)
next
  case (Cons x a)
  then obtain y c where b: "b = y # c" by (cases b) (simp_all add: lower_hex_def hex_byte_def)
  have small: "(of_char z :: nat) div 16 < 16" for z
    using nat_of_char_less_256 [of z] by linarith
  from Cons.prems b have "(of_char x :: nat) div 16 = of_char y div 16" "(of_char x :: nat) mod 16 = of_char y mod 16"
    using hex_digit_inj [OF _ small small] hex_digit_inj [of "of_char x mod 16" "of_char y mod 16"]
    by (simp_all add: lower_hex_def hex_byte_def)
  then have "(of_char x :: nat) = of_char y" by (metis div_mult_mod_eq)
  with Cons b show ?case by (simp add: lower_hex_def hex_byte_def)
qed

text \<open>What the simplifier needs to classify the characters of a literal.\<close>

lemmas string_eval = trim_is_empty_def has_control_def str_chars_def str_bytes_def is_control_def
  is_whitespace_def is_ascii_digit_def is_ascii_lowercase_def is_lower_hex_byte_def
  is_ascii_alphanumeric_def is_ascii_uppercase_def

section \<open>Ordered maps\<close>

text \<open>
  The interface of \<open>BTreeMap\<close>: \<open>get\<close>, \<open>insert\<close> and the entries in key order. The client lemmas
  say how a value stored under one key leaves the others alone and that an insertion never
  loses an entry.
\<close>

locale ordered_map =
  fixes entries :: "'m \<Rightarrow> ('k::linorder \<times> 'v) list"
    and get :: "'m \<Rightarrow> 'k \<Rightarrow> 'v option"
    and put :: "'k \<Rightarrow> 'v \<Rightarrow> 'm \<Rightarrow> 'm"
    and empty :: "'m"
    and invar :: "'m \<Rightarrow> bool"
  assumes invar_empty: "invar empty"
    and invar_put: "invar m \<Longrightarrow> invar (put k v m)"
    and entries_empty: "entries empty = []"
    and entries_sorted: "invar m \<Longrightarrow> sorted_wrt (<) (map fst (entries m))"
    and get_entries: "invar m \<Longrightarrow> get m k = map_of (entries m) k"
    and get_put: "invar m \<Longrightarrow> get (put k v m) k' = (if k' = k then Some v else get m k')"
begin

lemma distinct_keys: "invar m \<Longrightarrow> distinct (map fst (entries m))"
  using entries_sorted strict_sorted_iff by blast

lemma get_Some_iff: "invar m \<Longrightarrow> get m k = Some v \<longleftrightarrow> (k, v) \<in> set (entries m)"
  by (simp add: get_entries map_of_eq_Some_iff distinct_keys)

lemma get_None_iff: "invar m \<Longrightarrow> get m k = None \<longleftrightarrow> k \<notin> fst ` set (entries m)"
  by (simp add: get_entries map_of_eq_None_iff)

lemma keys_put: "invar m \<Longrightarrow> fst ` set (entries (put k v m)) = insert k (fst ` set (entries m))"
proof -
  assume m: "invar m"
  have "x \<in> fst ` set (entries (put k v m)) \<longleftrightarrow> x \<in> insert k (fst ` set (entries m))" for x
    using get_None_iff [OF invar_put [OF m], of k v x] get_None_iff [OF m, of x] get_put [OF m]
    by (cases "x = k") auto
  then show ?thesis by blast
qed

lemma length_put:
  assumes "invar m"
  shows "length (entries (put k v m))
    = (if get m k = None then Suc (length (entries m)) else length (entries m))"
proof -
  have len: "length (entries m') = card (fst ` set (entries m'))" if "invar m'" for m'
    using distinct_card [OF distinct_keys [OF that]] by simp
  show ?thesis
    using get_None_iff [OF assms, of k] len [OF assms] len [OF invar_put [OF assms]]
    by (simp add: keys_put [OF assms] insert_absorb)
qed

end

type_synonym ('k, 'v) btree_map = "('k \<times> 'v) list"

definition bm_get :: "('k, 'v) btree_map \<Rightarrow> 'k \<Rightarrow> 'v option" where
  "bm_get m k = map_of m k"

fun bm_insert :: "'k::linorder \<Rightarrow> 'v \<Rightarrow> ('k, 'v) btree_map \<Rightarrow> ('k, 'v) btree_map" where
  "bm_insert k v [] = [(k, v)]"
| "bm_insert k v ((k', v') # m) =
     (if k < k' then (k, v) # (k', v') # m
      else if k = k' then (k, v) # m
      else (k', v') # bm_insert k v m)"

definition bm_contains :: "('k, 'v) btree_map \<Rightarrow> 'k \<Rightarrow> bool" where
  "bm_contains m k \<longleftrightarrow> bm_get m k \<noteq> None"

definition bm_values :: "('k, 'v) btree_map \<Rightarrow> 'v list" where
  "bm_values m = map snd m"

definition bm_keys :: "('k, 'v) btree_map \<Rightarrow> 'k list" where
  "bm_keys m = map fst m"

definition bm_wf :: "('k::linorder, 'v) btree_map \<Rightarrow> bool" where
  "bm_wf m \<longleftrightarrow> sorted_wrt (<) (map fst m)"

lemma fst_set_bm_insert: "fst ` set (bm_insert k v m) = insert k (fst ` set m)"
  by (induction k v m rule: bm_insert.induct) (simp_all add: insert_commute)

lemma bm_wf_insert: "bm_wf m \<Longrightarrow> bm_wf (bm_insert k v m)"
proof (induction m)
  case Nil
  then show ?case by (simp add: bm_wf_def)
next
  case (Cons p m)
  obtain k' v' where p: "p = (k', v')" by force
  from Cons.prems have less: "\<forall>x\<in>fst ` set m. k' < x" and m: "bm_wf m"
    by (auto simp: bm_wf_def p)
  consider "k < k'" | "k = k'" | "k' < k" by fastforce
  then show ?case
  proof cases
    case 3
    with less Cons.IH [OF m] show ?thesis
      using fst_set_bm_insert [of k v m] by (auto simp: bm_wf_def p)
  qed (use less m in \<open>auto simp: bm_wf_def p\<close>)
qed

lemma bm_get_insert: "bm_get (bm_insert k v m) k' = (if k' = k then Some v else bm_get m k')"
  unfolding bm_get_def by (induction m) auto

interpretation bm: ordered_map "\<lambda>m. m" bm_get bm_insert "[]" bm_wf
  by unfold_locales (simp_all add: bm_wf_insert bm_get_insert, simp_all add: bm_wf_def bm_get_def)

text \<open>Changing values in place (\<open>get_mut\<close>) keeps the keys, and so the order.\<close>

definition bm_update :: "'k \<Rightarrow> ('v \<Rightarrow> 'v) \<Rightarrow> ('k, 'v) btree_map \<Rightarrow> ('k, 'v) btree_map" where
  "bm_update k f m = map (\<lambda>(k', v). (k', if k' = k then f v else v)) m"

lemma bm_keys_update [simp]: "bm_keys (bm_update k f m) = bm_keys m"
  by (simp add: bm_keys_def bm_update_def split_def)

lemma bm_wf_update [simp]: "bm_wf (bm_update k f m) = bm_wf m"
  using bm_keys_update [of k f m] by (simp add: bm_wf_def bm_keys_def)

lemma bm_get_update:
  "bm_get (bm_update k f m) k' = (if k' = k then map_option f (bm_get m k) else bm_get m k')"
  unfolding bm_get_def bm_update_def by (induction m) auto

lemma bm_contains_update [simp]: "bm_contains (bm_update k f m) k' = bm_contains m k'"
  by (simp add: bm_contains_def bm_get_update)

lemma bm_get_value: "bm_get m k = Some v \<Longrightarrow> v \<in> set (bm_values m)"
  by (force simp: bm_get_def bm_values_def dest: map_of_SomeD)

lemma bm_value_get:
  "bm_wf m \<Longrightarrow> v \<in> set (bm_values m) \<longleftrightarrow> (\<exists>k. bm_get m k = Some v)"
  by (force simp: bm.get_Some_iff bm_values_def)

text \<open>Removing entries (\<open>retain\<close>), and storing a value that is already there.\<close>

lemma bm_wf_filter: "bm_wf m \<Longrightarrow> bm_wf (filter P m)"
  unfolding bm_wf_def by (induction m) auto

lemma bm_get_filter:
  "bm_wf m \<Longrightarrow> bm_get (filter P m) k = Some v \<longleftrightarrow> bm_get m k = Some v \<and> P (k, v)"
  by (simp add: bm.get_Some_iff bm_wf_filter)

lemma bm_insert_same: "bm_wf m \<Longrightarrow> bm_get m k = Some v \<Longrightarrow> bm_insert k v m = m"
  unfolding bm_wf_def bm_get_def by (induction m) (force dest: map_of_SomeD)+

text \<open>A property of every entry of a map.\<close>

definition bm_all :: "('k \<Rightarrow> 'v \<Rightarrow> bool) \<Rightarrow> ('k, 'v) btree_map \<Rightarrow> bool" where
  "bm_all P m \<longleftrightarrow> (\<forall>k v. bm_get m k = Some v \<longrightarrow> P k v)"

lemma bm_allI: "(\<And>k v. bm_get m k = Some v \<Longrightarrow> P k v) \<Longrightarrow> bm_all P m"
  by (simp add: bm_all_def)

lemma bm_allD: "bm_all P m \<Longrightarrow> bm_get m k = Some v \<Longrightarrow> P k v"
  by (simp add: bm_all_def)

lemma bm_all_Nil [simp]: "bm_all P []"
  by (simp add: bm_all_def bm_get_def)

lemma bm_all_mono: "bm_all P m \<Longrightarrow> (\<And>k v. bm_get m k = Some v \<Longrightarrow> P k v \<Longrightarrow> Q k v) \<Longrightarrow> bm_all Q m"
  by (simp add: bm_all_def)

lemma bm_all_insert: "bm_all P m \<Longrightarrow> P k v \<Longrightarrow> bm_all P (bm_insert k v m)"
  by (simp add: bm_all_def bm_get_insert)

lemma bm_all_filter: "bm_wf m \<Longrightarrow> bm_all P m \<Longrightarrow> bm_all P (filter Q m)"
  by (simp add: bm_all_def bm_get_filter)

lemma bm_all_update: "bm_all P m \<Longrightarrow> (\<And>v. bm_get m k = Some v \<Longrightarrow> P k v \<Longrightarrow> P k (f v)) \<Longrightarrow> bm_all P (bm_update k f m)"
  by (auto simp: bm_all_def bm_get_update)

section \<open>Maps that correspond entry by entry\<close>

definition bm_rel :: "('v \<Rightarrow> 'w \<Rightarrow> bool) \<Rightarrow> ('k, 'v) btree_map \<Rightarrow> ('k, 'w) btree_map \<Rightarrow> bool" where
  "bm_rel R m n \<longleftrightarrow> list_all2 (\<lambda>(k, v) (k', w). k = k' \<and> R v w) m n"

lemma bm_rel_Nil [simp]: "bm_rel R [] []"
  by (simp add: bm_rel_def)

lemma bm_rel_length: "bm_rel R m n \<Longrightarrow> length m = length n"
  unfolding bm_rel_def by (rule list_all2_lengthD)

lemma bm_rel_get: "bm_rel R m n \<Longrightarrow> rel_option R (bm_get m k) (bm_get n k)"
  unfolding bm_rel_def bm_get_def by (induction rule: list_all2_induct) auto

lemma bm_rel_contains: "bm_rel R m n \<Longrightarrow> bm_contains m k = bm_contains n k"
  using bm_rel_get [of R m n k] by (auto simp: bm_contains_def rel_option_iff split: option.splits)

lemma bm_rel_insert: "bm_rel R m n \<Longrightarrow> R v w \<Longrightarrow> bm_rel R (bm_insert k v m) (bm_insert k w n)"
  unfolding bm_rel_def by (induction rule: list_all2_induct) auto

lemma bm_rel_filter:
  assumes "bm_rel R m n" and "\<And>k v w. R v w \<Longrightarrow> P (k, v) = Q (k, w)"
  shows "bm_rel R (filter P m) (filter Q n)"
  using assms(1) unfolding bm_rel_def
  by (induction rule: list_all2_induct) (auto simp: assms(2))

lemma bm_rel_update:
  assumes "bm_rel R m n" and "\<And>v w. R v w \<Longrightarrow> bm_get n k = Some w \<Longrightarrow> R (f v) (g w)" and "bm_wf n"
  shows "bm_rel R (bm_update k f m) (bm_update k g n)"
proof -
  have "bm_get n k' = Some w" if "(k', w) \<in> set n" for k' w using that assms(3) by (simp add: bm.get_Some_iff)
  then have "list_all2 (\<lambda>(k, v) (k', w). k = k' \<and> R v w \<and> bm_get n k' = Some w) m n"
    using assms(1) unfolding bm_rel_def
    by (simp add: list_all2_conv_all_nth split_def)
  then show ?thesis
    unfolding bm_rel_def bm_update_def
    by (simp add: list_all2_map1 list_all2_map2) (erule list_all2_mono, use assms(2) in auto)
qed

end
