(* ===== verification/Errors.thy ===== *)
theory Errors
  imports Prelude
begin

text \<open>
  \<open>HarnessError\<close> of \<^verbatim>\<open>kernel/types.rs\<close>. The variants the modelled code raises keep the
  source's names. A variant that carries a formatted message carries here the cause that
  selects the message: one constructor per \<open>Err(...)\<close> of the component, with the identity the
  message prints where it prints one. The label of the offending field (``Workflow wait'',
  ``Human Handoff claim'') is presentation only and is not kept.
\<close>

text \<open>Causes shared by the durable aggregates: a malformed field, a size bound.\<close>

datatype field_fault =
    Bad_identity
  | Bad_idempotency_key
  | Bad_text
  | Text_has_control
  | Bad_digest
  | Zero_time
  | Bad_actor
  | Bad_authority
  | Bad_tenant_text
  | Bad_capability_text
  | Bad_lease_duration
  | Bad_attempt
  | Bad_input_shape
  | Empty_encoding
  | Cannot_encode
  | Too_large
  | Zero_revision
  | Bad_scan_time
  | Bad_page_limit

text \<open>What the replay of a history rejects whatever the aggregate.\<close>

datatype log_fault =
    Transition_count
  | Sequence_overflow
  | Sequence_not_contiguous
  | Time_not_monotonic
  | Digest_differs
  | Reserve_consumed
  | Duplicate_commands
  | Creation_not_first
  | Projection_differs

datatype config_fault =
    Bad_portable_coordinate
  | Bad_tenant
  | Bad_binding_digest_or_revision
  | Binding_not_encodable
  | Binding_too_large
  | Bad_poll_interval

datatype capability_fault =
    Bad_capability_name
  | Bad_model_id
  | Duplicate_task_capability
  | Too_many_task_capabilities
  | Bad_origin_id
  | Provider_panicked
  | Registry_count_overflow
  | Registry_full

datatype approval_fault =
    Bad_actor_field
  | Legacy_actor
  | Ap_schema_or_revision
  | Ap_identity
  | Ap_reason
  | Ap_no_description
  | Ap_json_shape
  | Ap_too_large
  | Ap_encode
  | Ap_tenant
  | Ap_authority
  | Ap_requester_differs
  | Ap_legacy_pending
  | Ap_equal_identities
  | Ap_timestamp
  | Ap_page_limit
  | Ap_missing string
  | Ap_reused string
  | Ap_terminal string
  | Ap_own_request string
  | Ap_revision_overflow
  | Ap_turn_full
  | Ap_disappeared
  | Ap_orphaned string
  | Ap_stored_revision
  | Ap_indexes
  | Ap_parse

text \<open>Workflow: rejected commands, inconsistent histories, exhausted capacity, store faults.\<close>

datatype workflow_command_fault =
    Time_backwards
  | Command_reused string
  | Expiration_not_later
  | Due_not_later
  | Retry_attempt_zero
  | Signal_committed string
  | Not_waiting_for_signal
  | Signal_mismatch
  | Signal_too_late
  | No_current_wait
  | Wake_mismatch
  | No_due_boundary
  | Wait_not_due
  | Migration_needs_wait
  | Migration_incompatible
  | Wait_committed string
  | Must_be_running
  | Terminal_run

datatype workflow_history_fault =
    Wait_not_after_running
  | Duplicate_waits
  | Duplicate_signals
  | Signal_not_after_wait
  | Signal_differs
  | Signal_crossed_timeout
  | Due_not_after_wait
  | Due_differs
  | Migration_no_boundary
  | Migration_not_monotonic
  | Completion_not_after_running
  | Settlement_not_after_nonterminal
  | Zero_expiration
  | Zero_due
  | Zero_retry

datatype capacity_fault =
    Too_many_transitions
  | Only_transition_reserve
  | Aggregate_too_large
  | Only_byte_reserve

datatype store_fault =
    Exists_differently string
  | Missing string
  | Revision_overflow
  | Graph_not_in_boundary string
  | Graph_gone string
  | Tasks_incomplete
  | Subject_missing
  | Index_dangling
  | Key_bound_differently
  | Unknown_status_filter
  | Sql_out_of_range
  | Sql_text_too_large
  | Sql_row_count
  | Unsupported_schema int
  | Stored_number_invalid
  | Not_decodable
  | Stored_projection_differs
  | Store_partial
  | Store_malformed
  | Store_invalid_rows
  | Sql_constraint

datatype workflow_fault =
    W_field field_fault
  | W_command workflow_command_fault
  | W_log log_fault
  | W_history workflow_history_fault
  | W_capacity capacity_fault
  | W_store store_fault

text \<open>Human Handoff.\<close>

datatype handoff_history_fault =
    Claim_not_after_queued
  | Duplicate_claims
  | Renewal_not_after_claimed
  | Renewal_differs
  | Renewal_does_not_extend
  | Owner_not_after_claimed
  | Owner_differs
  | Expiration_not_after_claimed
  | Expiration_differs
  | Cancellation_not_after_nonterminal

datatype handoff_fault =
    H_field field_fault
  | H_log log_fault
  | H_capacity capacity_fault
  | H_store store_fault
  | H_time_backwards
  | H_command_reused string
  | H_not_queued
  | H_claim_committed string
  | H_not_claimed
  | H_owner_mismatch
  | H_claim_expired
  | H_renewal_not_longer
  | H_nothing_to_expire
  | H_expire_mismatch
  | H_not_expired
  | H_terminal
  | H_lease_overflow
  | H_history handoff_history_fault

text \<open>Effects, and the pages a consumer checks.\<close>

datatype page_fault =
    Page_exceeds_limit
  | Page_continuation
  | Page_projection
  | Page_not_ordered
  | Page_count_overflow

datatype governor_fault =
    G_authority
  | G_name
  | G_policy_id_too_long
  | G_rate_limit
  | G_window
  | G_failure_threshold
  | G_open_duration
  | G_probe_lease
  | G_retention
  | G_retention_too_short
  | G_encode
  | G_too_large
  | G_admissions_full
  | G_lanes_full
  | G_clock_backwards
  | G_probe_overflow
  | G_retry_overflow
  | G_counter_overflow
  | G_epoch_overflow
  | G_circuit_overflow
  | G_retention_overflow
  | G_rebound
  | G_policy_rebound
  | G_denied
  | G_before_admission
  | G_settled_differently
  | G_missing_admission
  | G_missing_lane
  | G_lane_counters
  | G_partial_probe
  | G_lane_deadline
  | G_digest
  | G_policy_digest
  | G_admission_timing
  | G_retry_precedes
  | G_decode
  | G_row_differs
  | G_bad_settlement
  | G_sql_time
  | G_row_count
  | G_store

text \<open>Faults of the executor and the reconciler, which share their shape.\<close>

datatype worker_fault =
    X_registry_full
  | X_name
  | X_api_version
  | X_operation_count
  | X_descriptor_too_large
  | X_descriptor_encoding
  | X_scan_limit
  | X_concurrency
  | X_policy_timeout
  | X_governor_timeout
  | X_governor_retry
  | X_execution_timeout
  | X_lease_duration
  | X_lease_overflow
  | X_lease_budget
  | X_authority
  | X_clock
  | X_scan_state
  | X_encode_identity

datatype effect_fault =
    E_field field_fault
  | E_worker worker_fault
  | E_governor governor_fault
  | E_store store_fault
  | E_too_many_transitions
  | E_time_backwards
  | E_command_reused string
  | E_not_pending
  | E_not_eligible
  | E_lease_committed string
  | E_not_claimed
  | E_owner_mismatch
  | E_lease_expired
  | E_renewal_not_longer
  | E_nothing_to_expire
  | E_expire_mismatch
  | E_not_expired
  | E_not_unknown
  | E_reconcile_mismatch
  | E_not_cancellable
  | E_attempt_overflow
  | E_lease_overflow
  | E_retry_too_early
  | E_receipt_in_future
  | E_input_digest_differs
  | E_tenant_differs
  | E_log log_fault
  | E_no_creation
  | E_history string
  | E_page page_fault

text \<open>Task Graphs.\<close>

datatype binding_fault =
    Attempt_zero
  | Binding_invalid
  | Binding_needs_running
  | Binding_differs_from_lease
  | Duplicate_binding_lease

datatype artifact_fault =
    Too_many_artifacts
  | Foreign_producer string
  | Duplicate_artifact string
  | Bad_uri string
  | Bad_media_type string
  | Bad_content_digest string

datatype integrity_fault =
    Key_differs string string
  | Lease_attempt_differs string
  | Binding_without_task string
  | Binding_exceeds_attempts string
  | Duplicate_evidence
  | Unbound_attempt string
  | Running_without_binding string
  | Running_binding_differs
  | Message_not_contiguous
  | Duplicate_message string
  | Message_without_task
  | Next_sequence_differs

datatype orchestration_fault =
    O_too_many_tasks
  | O_duplicate_task string
  | O_self_dependency string
  | O_missing_dependency string string
  | O_cycle string
  | O_task_disappeared string
  | O_too_many_dependencies string
  | O_bad_task_id
  | O_bad_text
  | O_bad_claim_request
  | O_expiration_overflow
  | O_attempts_exhausted string
  | O_attempt_overflow string
  | O_governed_retry
  | O_heartbeat
  | O_no_task string
  | O_not_running string
  | O_stale_lease string
  | O_lease_expired string
  | O_already_terminal string
  | O_too_many_messages
  | O_message_endpoints
  | O_bad_message
  | O_sequence_overflow
  | O_page_limit
  | O_charge_overflow
  | O_charge_too_large
  | O_charge_inconsistent
  | O_encode
  | O_too_many_bindings
  | O_duplicate_mutation string
  | O_binding binding_fault
  | O_binding_tenant string u32
  | O_artifact artifact_fault
  | O_integrity integrity_fault
  | O_store store_fault
  | O_bad_graph_id
  | O_snapshot_too_large

text \<open>What the Temporal Driver rejects of a request and of a scanned page.\<close>

datatype temporal_fault =
    Tp_authority
  | Tp_zero_time
  | Tp_scan_limit
  | Tp_identity
  | Tp_cursor_without_source
  | Tp_counts_exceed
  | Tp_continuation_count
  | Tp_partial_has_more
  | Tp_not_advanced
  | Tp_tenant
  | Tp_not_eligible
  | Tp_not_ordered
  | Tp_beyond_page
  | Tp_encode
  | Tp_cursor_time
  | Tp_agent_loop_page

text \<open>What the State module rejects of live waits, their events and the scans for due ones.\<close>

datatype due_fault =
    Due_identity
  | Due_tenant
  | Due_tenant_differs
  | Due_zero_time
  | Due_scan_limit
  | Due_cursor_later
  | Due_not_reached
  | Due_digest
  | Due_phase_revision
  | Due_transition
  | Due_stream_fences
  | Due_denial_unscheduled
  | Due_not_scheduled
  | Due_phase_unsupported
  | Due_counts
  | Due_cursor_count
  | Due_partial_has_more
  | Due_not_ordered
  | Due_cursor_not_last
  | Due_row_exists
  | Due_item_kind
  | Due_coordinates
  | Due_phase
  | Due_fence_differs
  | Due_bypasses_wait
  | Due_no_row
  | Due_domain
  | Due_field_too_large

datatype state_fault =
    St_due due_fault
  | St_index_without_row
  | St_index_differs
  | St_no_stream_version
  | St_no_recovery_fence
  | St_version_overflow
  | St_recovery_overflow
  | St_bad_id
  | St_event_limit
  | St_terminal_reserve
  | St_recovery_limit
  | St_position_corrupt
  | St_event_reused string
  | St_recovery_mismatch u64 u64
  | St_thread_exists string
  | St_no_thread string
  | St_sequence_overflow

datatype skill_fault =
    S_not_trusted string
  | S_trust_store_full
  | S_validity_window
  | S_key_invalid string
  | S_key_weak string
  | S_revocation_time
  | S_revocation_differs string
  | S_not_valid_yet string
  | S_expired string
  | S_revoked string
  | S_signature_length
  | S_bad_signature
  | S_receipt_length
  | S_bad_receipt
  | S_receipt_required string
  | S_no_receipt
  | S_receipt_encoding
  | S_entry_id
  | S_integration_time
  | S_integration_future
  | S_api_version
  | S_text_empty
  | S_text_too_long
  | S_estimated_tokens
  | S_too_many_dependencies
  | S_too_many_tools
  | S_dependencies_unsorted
  | S_too_many_resources
  | S_resource_too_long string
  | S_resource_path string
  | S_digest_shape
  | S_digest_mismatch
  | S_envelope
  | S_byte_overflow
  | S_package_too_large
  | S_digest_encoding
  | S_canonical_too_large
  | S_needs_signature
  | S_needs_external
  | S_registry_overflow
  | S_registry_too_large
  | S_not_registered
  | S_disappeared
  | S_cycle
  | S_missing_tool string
  | S_token_overflow
  | S_over_budget
  | S_no_live_trust
  | S_foreign_trust
  | S_no_resource string

datatype harness_error =
    InvalidConfiguration config_fault
  | InvalidCapability capability_fault
  | DuplicateCapability string
  | Approval approval_fault
  | ApprovalConflict string u64 u64
  | Orchestration orchestration_fault
  | OrchestrationConflict string u64 u64
  | Workflow workflow_fault
  | WorkflowConflict string u64 u64
  | HumanHandoff handoff_fault
  | HumanHandoffConflict string u64 u64
  | Effect effect_fault
  | EffectConflict string u64 u64
  | Temporal temporal_fault
  | State state_fault
  | StateConflict string u64 u64
  | Skill skill_fault

type_synonym 'a result = "harness_error + 'a"

end
