(* ===== verification/Kernel.thy ===== *)
theory Kernel
  imports Errors
begin

text \<open>
  The kernel's shared values: names and coordinates (\<^verbatim>\<open>kernel/registry.rs\<close>), the actor and
  the authority a caller acts under, and the execution binding of a governed attempt
  (\<^verbatim>\<open>kernel/types.rs\<close>). Every durable aggregate validates these before it changes state. The
  lemmas of \<open>ok_iff\<close> say exactly which values each validator accepts.
\<close>

section \<open>Names and coordinates\<close>

definition validate_capability_name :: "string \<Rightarrow> unit result" where
  "validate_capability_name name =
     (let valid = name \<noteq> [] \<and> length name \<le> 64 \<and>
        list_all (\<lambda>c. is_ascii_lowercase c \<or> is_ascii_digit c \<or> c = 95 \<or> c = 45 \<or> c = 46)
          (str_chars name)
      in if valid then Inr () else Inl (InvalidCapability Bad_capability_name))"

definition validate_model_id :: "string \<Rightarrow> unit result" where
  "validate_model_id i =
     (let valid = i \<noteq> [] \<and> length i \<le> 128 \<and>
        list_all (\<lambda>b. is_ascii_alphanumeric b \<or> b = 46 \<or> b = 95 \<or> b = 45 \<or> b = 47 \<or> b = 58)
          (str_bytes i)
      in if valid then Inr () else Inl (InvalidCapability Bad_model_id))"

definition validate_portable_coordinate :: "string \<Rightarrow> unit result" where
  "validate_portable_coordinate value =
     (let valid = value \<noteq> [] \<and> length value \<le> 128 \<and>
        list_all (\<lambda>b. is_ascii_alphanumeric b \<or> b = 46 \<or> b = 95 \<or> b = 45 \<or> b = 47 \<or> b = 58 \<or> b = 43)
          (str_bytes value)
      in if \<not> valid then Inl (InvalidConfiguration Bad_portable_coordinate) else Inr ())"

definition is_lower_sha256 :: "string \<Rightarrow> bool" where
  "is_lower_sha256 value \<longleftrightarrow> length value = 64 \<and> list_all is_lower_hex_byte (str_bytes value)"

lemma lower_hex_is_lower_sha256: "length bs = 32 \<Longrightarrow> is_lower_sha256 (lower_hex bs)"
  by (simp add: is_lower_sha256_def lower_hex_is_lower_hex)

definition valid_capability_name :: "string \<Rightarrow> bool" where
  "valid_capability_name name \<longleftrightarrow> is_ok (validate_capability_name name)"

lemma validate_capability_name_ok [ok_iff]:
  "validate_capability_name name = Inr u \<longleftrightarrow> valid_capability_name name"
  by (simp add: valid_capability_name_def validate_capability_name_def Let_def)

section \<open>The trust origin of a registered capability\<close>

definition MAX_CAPABILITY_ORIGIN_ID_BYTES :: nat where "MAX_CAPABILITY_ORIGIN_ID_BYTES = 256"

datatype capability_origin = BuiltIn | TrustedExtension string | External string

fun origin_id :: "capability_origin \<Rightarrow> string option" where
  "origin_id BuiltIn = None"
| "origin_id (TrustedExtension i) = Some i"
| "origin_id (External i) = Some i"

definition validate_capability_origin :: "capability_origin \<Rightarrow> unit result" where
  "validate_capability_origin origin =
     (case origin_id origin of
        None \<Rightarrow> Inr ()
      | Some i \<Rightarrow>
          if trim_is_empty i \<or> length i > MAX_CAPABILITY_ORIGIN_ID_BYTES \<or> has_control i
          then Inl (InvalidCapability Bad_origin_id) else Inr ())"

text \<open>\<open>None\<close> stands for a provider that panics.\<close>

definition capture_capability_metadata :: "'a option \<Rightarrow> 'a result" where
  "capture_capability_metadata provided = ok_or (InvalidCapability Provider_panicked) provided"

definition MAX_CAPABILITY_REGISTRY_ENTRIES :: usize where "MAX_CAPABILITY_REGISTRY_ENTRIES = 4096"

definition validate_registry_growth :: "usize \<Rightarrow> usize \<Rightarrow> unit result" where
  "validate_registry_growth current additional =
     and_then (ok_or (InvalidCapability Registry_count_overflow) (usize_checked_add current additional)) (\<lambda>n.
     if n > MAX_CAPABILITY_REGISTRY_ENTRIES then Inl (InvalidCapability Registry_full) else Inr ())"

lemma validate_registry_growth_ok [ok_iff]:
  "validate_registry_growth current additional = Inr u \<longleftrightarrow> current + additional \<le> MAX_CAPABILITY_REGISTRY_ENTRIES"
  by (auto simp: validate_registry_growth_def ok_iff usize_checked_add_def MAX_CAPABILITY_REGISTRY_ENTRIES_def split: if_splits)

section \<open>Actors and authority\<close>

datatype actor_identity =
    LocalProcess
  | Authenticated string string
  | UnattributedLegacy

definition validate_actor_identity :: "string \<Rightarrow> approval_fault + unit" where
  "validate_actor_identity value =
     (if trim_is_empty value \<or> length value > 256 \<or> has_control value
      then Inl Bad_actor_field else Inr ())"

fun validate_shape_message :: "actor_identity \<Rightarrow> approval_fault + unit" where
  "validate_shape_message LocalProcess = Inr ()"
| "validate_shape_message UnattributedLegacy = Inr ()"
| "validate_shape_message (Authenticated authority subject) =
     and_then (validate_actor_identity authority) (\<lambda>_. validate_actor_identity subject)"

definition validate_shape :: "actor_identity \<Rightarrow> unit result" where
  "validate_shape actor = map_err Approval (validate_shape_message actor)"

definition validate_current_message :: "actor_identity \<Rightarrow> approval_fault + unit" where
  "validate_current_message actor =
     and_then (validate_shape_message actor) (\<lambda>_.
       if actor = UnattributedLegacy then Inl Legacy_actor else Inr ())"

definition actor_validate_current :: "actor_identity \<Rightarrow> unit result" where
  "actor_validate_current actor = map_err Approval (validate_current_message actor)"

record authority_context =
  actor :: actor_identity
  tenant_id :: "string option"

definition validate_tenant_id :: "string \<Rightarrow> unit result" where
  "validate_tenant_id value =
     (if value = [] \<or> length value > 128 \<or>
        \<not> list_all (\<lambda>b. is_ascii_alphanumeric b \<or> b = 46 \<or> b = 95 \<or> b = 45 \<or> b = 58)
            (str_bytes value)
      then Inl (InvalidConfiguration Bad_tenant) else Inr ())"

definition authority_validate_current :: "authority_context \<Rightarrow> unit result" where
  "authority_validate_current ctx =
     and_then (actor_validate_current (actor ctx)) (\<lambda>_.
       case tenant_id ctx of None \<Rightarrow> Inr () | Some t \<Rightarrow> validate_tenant_id t)"

definition authority_new :: "actor_identity \<Rightarrow> string option \<Rightarrow> authority_context result" where
  "authority_new a t =
     (let context = \<lparr>actor = a, tenant_id = t\<rparr>
      in and_then (authority_validate_current context) (\<lambda>_. Inr context))"

definition local_process :: authority_context where
  "local_process = \<lparr>actor = LocalProcess, tenant_id = None\<rparr>"

text \<open>The authorities every governed operation accepts, and what each of them guarantees.\<close>

definition valid_actor_shape :: "actor_identity \<Rightarrow> bool" where
  "valid_actor_shape a \<longleftrightarrow> is_ok (validate_shape_message a)"

definition valid_tenant :: "string option \<Rightarrow> bool" where
  "valid_tenant t \<longleftrightarrow> (case t of None \<Rightarrow> True | Some v \<Rightarrow> is_ok (validate_tenant_id v))"

definition valid_authority :: "authority_context \<Rightarrow> bool" where
  "valid_authority ctx \<longleftrightarrow>
     valid_actor_shape (actor ctx) \<and> actor ctx \<noteq> UnattributedLegacy \<and> valid_tenant (tenant_id ctx)"

lemma validate_shape_ok [ok_iff]: "validate_shape a = Inr u \<longleftrightarrow> valid_actor_shape a"
  by (simp add: validate_shape_def valid_actor_shape_def is_ok_iff map_err_eq_Inr)

lemma actor_validate_current_ok [ok_iff]:
  "actor_validate_current a = Inr u \<longleftrightarrow> valid_actor_shape a \<and> a \<noteq> UnattributedLegacy"
  by (auto simp: actor_validate_current_def validate_current_message_def valid_actor_shape_def
      is_ok_iff ok_iff)

lemma validate_tenant_id_ok [ok_iff]: "validate_tenant_id t = Inr u \<longleftrightarrow> valid_tenant (Some t)"
  by (simp add: valid_tenant_def is_ok_iff)

lemma valid_tenant_None [simp]: "valid_tenant None"
  by (simp add: valid_tenant_def)

lemma authority_validate_current_ok [ok_iff]:
  "authority_validate_current ctx = Inr u \<longleftrightarrow> valid_authority ctx"
  by (auto simp: authority_validate_current_def valid_authority_def ok_iff split: option.splits)

lemma authority_local_process [simp]:
  "authority_validate_current local_process = Inr ()" "actor local_process = LocalProcess"
  "tenant_id local_process = None"
  by (simp_all add: authority_validate_current_def actor_validate_current_def
      validate_current_message_def local_process_def)

lemma valid_authority_local_process [simp]: "valid_authority local_process"
  by (simp add: valid_authority_def local_process_def valid_actor_shape_def valid_tenant_def)

text \<open>
  \<open>tenant_storage_key\<close> of every coordinator: the empty string stands for ``no tenant''. It cannot
  collide with a tenant, because a valid tenant is never empty.
\<close>

definition tenant_storage_key :: "string option \<Rightarrow> string" where
  "tenant_storage_key t = (case t of None \<Rightarrow> [] | Some v \<Rightarrow> v)"

lemma tenant_storage_key_inj:
  "valid_tenant s \<Longrightarrow> valid_tenant t \<Longrightarrow> tenant_storage_key s = tenant_storage_key t \<Longrightarrow> s = t"
  by (auto simp: tenant_storage_key_def valid_tenant_def validate_tenant_id_def
      split: option.splits if_splits)

section \<open>Execution bindings\<close>

record execution_binding =
  issuer :: string
  binding_name :: string
  binding_version :: string
  configuration_sha256 :: string
  environment_sha256 :: string
  binding_revision :: u64
  binding_tenant :: "string option"

text \<open>\<open>serde_json::to_vec\<close> of a binding is a parameter: \<open>None\<close> where it reports an error.\<close>

definition binding_validate :: "(execution_binding \<Rightarrow> bytes option) \<Rightarrow> execution_binding \<Rightarrow> unit result"
where
  "binding_validate enc b =
     and_then (validate_capability_name (issuer b)) (\<lambda>_.
     and_then (validate_portable_coordinate (binding_name b)) (\<lambda>_.
     and_then (validate_portable_coordinate (binding_version b)) (\<lambda>_.
     if \<not> is_lower_sha256 (configuration_sha256 b) \<or> \<not> is_lower_sha256 (environment_sha256 b) \<or>
        binding_revision b = 0
     then Inl (InvalidConfiguration Bad_binding_digest_or_revision)
     else and_then (authority_new LocalProcess (binding_tenant b)) (\<lambda>_.
     case enc b of
       None \<Rightarrow> Inl (InvalidConfiguration Binding_not_encodable)
     | Some encoded \<Rightarrow>
         if length encoded > 2048 then Inl (InvalidConfiguration Binding_too_large) else Inr ()))))"

end
