(* ===== verification/Revision_Store.thy ===== *)
theory Revision_Store
  imports Kernel
begin

text \<open>
  What the coordinators of Workflow Runs, Human Handoffs, Effects and Task Graphs have in common.
  Each keeps, behind one lock, a \<open>BTreeMap\<close> from a storage key (the tenant, or the empty string,
  and the identity) to a revisioned snapshot. A call holds the lock from its first read to its
  last write, so concurrent callers are sequences of calls: the step relation of a store.

  \<^item> \<open>revision_store\<close> is the contract of optimistic concurrency: a step never loses a snapshot and
    either keeps it or moves it to the next revision. Its clients get that revisions identify
    contents, that a revision once passed never returns, and that of the writers who observed
    one revision at most one succeeds.
  \<^item> \<open>journal_store\<close> is the contract of the stores of event-sourced aggregates. It gives the first
    one (\<open>sublocale\<close>) and the fact the page validators rely on: the revision of a snapshot is
    the number of transitions of its aggregate. As aggregates bound their histories, a revision
    can never overflow.
  \<^item> The section on scans shows that the range query of a due scan reads exactly the keys of one
    tenant after the cursor, in order.
\<close>

section \<open>Stores and keys\<close>

type_synonym storage_key = "string \<times> string"
type_synonym 'a store = "(storage_key, 'a) btree_map"

definition store_key :: "string \<Rightarrow> string option \<Rightarrow> storage_key" where
  "store_key i tenant = (tenant_storage_key tenant, i)"

lemma store_key_inj:
  "valid_tenant s \<Longrightarrow> valid_tenant t \<Longrightarrow> store_key i s = store_key j t \<longleftrightarrow> i = j \<and> s = t"
  using tenant_storage_key_inj by (auto simp: store_key_def)

text \<open>A property of all entries of a store.\<close>

definition store_all :: "(storage_key \<Rightarrow> 'a \<Rightarrow> bool) \<Rightarrow> 'a store \<Rightarrow> bool" where
  "store_all P m \<longleftrightarrow> (\<forall>k a. bm_get m k = Some a \<longrightarrow> P k a)"

lemma store_allI: "(\<And>k a. bm_get m k = Some a \<Longrightarrow> P k a) \<Longrightarrow> store_all P m"
  unfolding store_all_def by blast

lemma store_allD: "store_all P m \<Longrightarrow> bm_get m k = Some a \<Longrightarrow> P k a"
  unfolding store_all_def by blast

lemma store_all_Nil [simp]: "store_all P []"
  by (simp add: store_all_def bm_get_def)

lemma store_all_insert: "store_all P m \<Longrightarrow> P k a \<Longrightarrow> store_all P (bm_insert k a m)"
  by (rule store_allI) (auto simp: bm_get_insert dest: store_allD split: if_splits)

lemma store_all_mono: "store_all P m \<Longrightarrow> (\<And>k a. P k a \<Longrightarrow> Q k a) \<Longrightarrow> store_all Q m"
  by (rule store_allI) (blast dest: store_allD)

lemma next_revision: "unat r = Suc (unat a) \<Longrightarrow> r = a + 1" for a r :: u64
  using checked_add_Some [of a 1 r] by (simp add: checked_add_def split: if_splits)

section \<open>Optimistic concurrency\<close>

locale revision_store =
  fixes lookup :: "'s \<Rightarrow> 'k \<Rightarrow> 'a option"
    and revision :: "'a \<Rightarrow> u64"
    and store_step :: "'s \<Rightarrow> 's \<Rightarrow> bool"
    and commits :: "'s \<Rightarrow> 'k \<Rightarrow> u64 \<Rightarrow> 's \<Rightarrow> bool"
  assumes step_keeps: "store_step s s' \<Longrightarrow> lookup s k = Some a \<Longrightarrow>
      \<exists>a'. lookup s' k = Some a' \<and> (a' = a \<or> unat (revision a') = Suc (unat (revision a)))"
    and commit_step: "commits s k r s' \<Longrightarrow> store_step s s'"
    and commit_moves: "commits s k r s' \<Longrightarrow>
      \<exists>a a'. lookup s k = Some a \<and> revision a = r \<and> lookup s' k = Some a' \<and>
        unat (revision a') = Suc (unat r)"
begin

lemma steps_keep:
  assumes "store_step\<^sup>*\<^sup>* s s'" and "lookup s k = Some a"
  shows "\<exists>a'. lookup s' k = Some a' \<and> (a' = a \<or> revision a < revision a')"
  using assms(1)
proof (induction rule: rtranclp_induct)
  case base
  with assms(2) show ?case by blast
next
  case (step t u)
  then obtain b where b: "lookup t k = Some b" "b = a \<or> revision a < revision b" by blast
  from step_keeps [OF step.hyps(2) b(1)] obtain c where
    "lookup u k = Some c" "c = b \<or> revision b < revision c"
    by (auto simp: word_less_nat_alt)
  with b show ?case by (metis order.strict_trans)
qed

text \<open>A revision read again means that nothing was written in between.\<close>

lemma same_revision_same_content:
  assumes "store_step\<^sup>*\<^sup>* s s'" "lookup s k = Some a" "lookup s' k = Some a'" "revision a' = revision a"
  shows "a' = a"
  using steps_keep [OF assms(1,2)] assms(3,4) by auto

text \<open>Of the writers who observed one revision at most one commits.\<close>

lemma one_writer:
  assumes "commits s k r t" and "store_step\<^sup>*\<^sup>* t u"
  shows "\<not> commits u k r v"
proof
  assume "commits u k r v"
  then obtain b where b: "lookup u k = Some b" "revision b = r" by (auto dest: commit_moves)
  from commit_moves [OF assms(1)] obtain a where a: "lookup t k = Some a" "unat (revision a) = Suc (unat r)"
    by blast
  with steps_keep [OF assms(2) a(1)] b show False by (auto simp: word_less_nat_alt)
qed

end

text \<open>
  Stores of event-sourced aggregates: an entry is born with one transition and grows by one
  transition per revision. What holds of newborn entries and is kept by growth holds of every
  entry of a store built by the operations.
\<close>

locale journal_store =
  fixes lookup :: "'s \<Rightarrow> 'k \<Rightarrow> 'a option"
    and revision :: "'a \<Rightarrow> u64"
    and store_step :: "'s \<Rightarrow> 's \<Rightarrow> bool"
    and commits :: "'s \<Rightarrow> 'k \<Rightarrow> u64 \<Rightarrow> 's \<Rightarrow> bool"
    and journal :: "'a \<Rightarrow> nat"
    and initial :: 's
    and born :: "'k \<Rightarrow> 'a \<Rightarrow> bool"
    and grows :: "'a \<Rightarrow> 'a \<Rightarrow> bool"
  assumes initial_empty: "lookup initial k = None"
    and step_entry: "store_step s s' \<Longrightarrow> lookup s' k = lookup s k \<or>
      (\<exists>a'. lookup s k = None \<and> lookup s' k = Some a' \<and> born k a') \<or>
      (\<exists>a a'. lookup s k = Some a \<and> lookup s' k = Some a' \<and> grows a a')"
    and born_first: "born k a \<Longrightarrow> revision a = 1 \<and> journal a = 1"
    and grows_next: "grows a a' \<Longrightarrow> unat (revision a') = Suc (unat (revision a)) \<and> journal a' = Suc (journal a)"
    and commit_is_step: "commits s k r s' \<Longrightarrow> store_step s s'"
    and commit_grows: "commits s k r s' \<Longrightarrow>
      \<exists>a a'. lookup s k = Some a \<and> revision a = r \<and> lookup s' k = Some a' \<and> grows a a'"
begin

lemma entry_invariant:
  assumes "store_step\<^sup>*\<^sup>* initial s" and "lookup s k = Some a"
    and "\<And>a. born k a \<Longrightarrow> P a" and "\<And>a a'. P a \<Longrightarrow> grows a a' \<Longrightarrow> P a'"
  shows "P a"
  using assms(1,2)
proof (induction arbitrary: a rule: rtranclp_induct)
  case base
  then show ?case by (simp add: initial_empty)
next
  case (step t u)
  from step_entry [OF step.hyps(2), of k] step.prems step.IH assms(3,4) show ?case by fastforce
qed

lemma entry_evolves:
  assumes "store_step\<^sup>*\<^sup>* s s'" and "lookup s k = Some a"
    and "Q a a" and "\<And>b c. Q a b \<Longrightarrow> grows b c \<Longrightarrow> Q a c"
  shows "\<exists>a'. lookup s' k = Some a' \<and> Q a a'"
  using assms(1)
proof (induction rule: rtranclp_induct)
  case base
  with assms(2,3) show ?case by blast
next
  case (step t u)
  then obtain b where "lookup t k = Some b" "Q a b" by blast
  with step_entry [OF step.hyps(2), of k] assms(4) show ?case by fastforce
qed

lemma revision_counts:
  assumes "store_step\<^sup>*\<^sup>* initial s" and "lookup s k = Some a"
  shows "unat (revision a) = journal a"
  using assms by (rule entry_invariant) (auto dest: born_first grows_next)

end

sublocale journal_store \<subseteq> revision_store
proof
  show "\<exists>a'. lookup s' k = Some a' \<and> (a' = a \<or> unat (revision a') = Suc (unat (revision a)))"
    if "store_step s s'" "lookup s k = Some a" for s s' k a
    using step_entry [OF that(1), of k] that(2) grows_next by fastforce
  show "store_step s s'" if "commits s k r s'" for s k r s'
    using that by (rule commit_is_step)
  show "\<exists>a a'. lookup s k = Some a \<and> revision a = r \<and> lookup s' k = Some a' \<and>
      unat (revision a') = Suc (unat r)" if "commits s k r s'" for s k r s'
    using commit_grows [OF that] grows_next by blast
qed

section \<open>Range scans\<close>

text \<open>\<open>BTreeMap::range(start..)\<close>.\<close>

definition bm_range_from :: "'k::linorder \<Rightarrow> ('k, 'v) btree_map \<Rightarrow> ('k, 'v) btree_map" where
  "bm_range_from start m = dropWhile (\<lambda>(k, _). k < start) m"

definition usize_saturating_add :: "usize \<Rightarrow> usize \<Rightarrow> usize" where
  "usize_saturating_add a b = min (a + b) (2 ^ 64 - 1)"

definition is_none_or :: "'a option \<Rightarrow> ('a \<Rightarrow> bool) \<Rightarrow> bool" where
  "is_none_or x p = (case x of None \<Rightarrow> True | Some a \<Rightarrow> p a)"

lemma is_none_or_simps [simp]: "is_none_or None p" "is_none_or (Some a) p = p a"
  by (simp_all add: is_none_or_def)

lemma takeWhile_eq_filter:
  "sorted_wrt (\<lambda>x y. P y \<longrightarrow> P x) xs \<Longrightarrow> takeWhile P xs = filter P xs"
  by (induction xs) (auto simp: filter_empty_conv)

lemma dropWhile_eq_filter:
  "sorted_wrt (\<lambda>x y. P y \<longrightarrow> P x) xs \<Longrightarrow> dropWhile P xs = filter (\<lambda>x. \<not> P x) xs"
  by (induction xs) (auto intro!: sym [OF filter_True])

lemma bm_range_from_eq: "bm_wf m \<Longrightarrow> bm_range_from start m = filter (\<lambda>(k, _). start \<le> k) m"
  unfolding bm_range_from_def bm_wf_def sorted_wrt_map
  by (subst dropWhile_eq_filter) (auto simp: not_less split_def elim: sorted_wrt_mono_rel [rotated])

text \<open>The entries of a tenant after a cursor, and the query of the coordinators for them.\<close>

definition tenant_after :: "string \<Rightarrow> string option \<Rightarrow> 'a store \<Rightarrow> (storage_key \<times> 'a) list" where
  "tenant_after tenant after m = filter (\<lambda>((t, i), _). t = tenant \<and> is_none_or after (\<lambda>a. a < i)) m"

lemma range_scan:
  assumes wf: "bm_wf m"
  shows "filter (\<lambda>((_, i), _). is_none_or after (\<lambda>a. a < i))
      (takeWhile (\<lambda>((t, _), _). t = tenant)
        (bm_range_from (tenant, case after of None \<Rightarrow> [] | Some a \<Rightarrow> a) m))
    = tenant_after tenant after m"
proof -
  let ?start = "(tenant, case after of None \<Rightarrow> [] | Some a \<Rightarrow> a)"
  let ?xs = "filter (\<lambda>(k, _). ?start \<le> k) m"
  from wf have "sorted_wrt (\<lambda>x y. fst x < fst y) m" by (simp add: bm_wf_def sorted_wrt_map)
  then have "sorted_wrt (\<lambda>x y. fst x < fst y) ?xs" by (rule sorted_wrt_filter)
  then have "sorted_wrt (\<lambda>x y. fst (fst y) = tenant \<longrightarrow> fst (fst x) = tenant) ?xs"
    by (rule sorted_wrt_mono_rel [rotated]) (auto simp: less_prod_def less_eq_prod_def)
  then have "takeWhile (\<lambda>((t, _), _). t = tenant) ?xs = filter (\<lambda>((t, _), _). t = tenant) ?xs"
    by (intro takeWhile_eq_filter) (simp add: split_def)
  then show ?thesis
    by (auto simp: bm_range_from_eq [OF wf] tenant_after_def filter_filter is_none_or_def
        less_eq_prod_def split: option.splits intro!: filter_cong)
qed

lemma tenant_after_sorted:
  "bm_wf m \<Longrightarrow> sorted_wrt (<) (map (snd \<circ> fst) (tenant_after tenant after m))"
proof -
  assume "bm_wf m"
  then have "sorted_wrt (\<lambda>x y. fst x < fst y) m" by (simp add: bm_wf_def sorted_wrt_map)
  then have "sorted_wrt (\<lambda>x y. fst x < fst y) (tenant_after tenant after m)"
    unfolding tenant_after_def by (rule sorted_wrt_filter)
  then show ?thesis
    unfolding sorted_wrt_map
    by (rule sorted_wrt_mono_rel [rotated]) (auto simp: tenant_after_def less_prod_def)
qed

text \<open>
  A page of a list in a strict order: what comes after the last element of the first \<open>n\<close> is the
  rest of the list. So a cursor that is the last element of a page resumes exactly behind it.
\<close>

lemma page_cut:
  assumes sorted: "sorted_wrt R xs" and asym: "\<And>x y. R x y \<Longrightarrow> \<not> R y x" and n: "0 < n" "xs \<noteq> []"
  shows "filter (R (last (take n xs))) xs = drop n xs"
proof -
  let ?b = "butlast (take n xs)" and ?l = "last (take n xs)"
  have take: "take n xs = ?b @ [?l]" using n by (intro append_butlast_last_id [symmetric]) auto
  have split: "xs = ?b @ ?l # drop n xs"
    using append_take_drop_id [of n xs] take by (metis append.assoc append_Cons append_Nil)
  have "sorted_wrt R (?b @ ?l # drop n xs)" using sorted split by simp
  then have order: "\<forall>x\<in>set ?b. R x ?l" "\<forall>x\<in>set (drop n xs). R ?l x"
    by (simp_all add: sorted_wrt_append)
  have "filter (R ?l) (?b @ ?l # drop n xs) = drop n xs"
    using order asym [of ?l ?l] asym [of _ ?l] by (auto simp: filter_empty_conv)
  with split show ?thesis by simp
qed

lemma tenant_after_resume:
  assumes wf: "bm_wf m" and n: "0 < n" and xs: "tenant_after tenant after m \<noteq> []"
    and lst: "i = snd (fst (last (take n (tenant_after tenant after m))))"
  shows "tenant_after tenant (Some i) m = drop n (tenant_after tenant after m)"
    and "is_none_or after (\<lambda>a. a < i)"
proof -
  let ?xs = "tenant_after tenant after m"
  have "last (take n ?xs) \<in> set (take n ?xs)" using n xs by (intro last_in_set) auto
  then have "last (take n ?xs) \<in> set ?xs" by (rule in_set_takeD)
  then show after: "is_none_or after (\<lambda>a. a < i)"
    unfolding lst by (auto simp: tenant_after_def)
  have "tenant_after tenant (Some i) m = filter (\<lambda>x. i < snd (fst x)) ?xs"
    using after by (auto simp: tenant_after_def is_none_or_def split: option.splits
        intro!: filter_cong)
  also have "\<dots> = drop n ?xs"
    unfolding lst
    by (rule page_cut [where R = "\<lambda>x y. snd (fst x) < snd (fst y)"])
      (use tenant_after_sorted [OF wf] n xs in \<open>auto simp: sorted_wrt_map\<close>)
  finally show "tenant_after tenant (Some i) m = drop n ?xs" .
qed

lemma tenant_after_insert_other:
  "tenant \<noteq> fst k \<Longrightarrow> tenant_after tenant after (bm_insert k v m) = tenant_after tenant after m"
  by (induction k v m rule: bm_insert.induct) (auto simp: tenant_after_def)

lemma saturating_Suc: "n < 2 ^ 64 - 1 \<Longrightarrow> usize_saturating_add n 1 = Suc n"
  by (simp add: usize_saturating_add_def)

lemma fetch_one_more:
  "take n (take (Suc n) xs) = take n xs" "n < length (take (Suc n) xs) \<longleftrightarrow> n < length xs"
  by (simp_all add: min_def)

lemma tenant_after_entry:
  "bm_wf m \<Longrightarrow> e \<in> set (tenant_after tenant after m) \<Longrightarrow>
   bm_get m (fst e) = Some (snd e) \<and> fst (fst e) = tenant \<and> is_none_or after (\<lambda>a. a < snd (fst e))"
  by (auto simp: tenant_after_def bm.get_Some_iff)

end
