(* ===== verification/Json.thy ===== *)
theory Json
  imports Kernel
begin

text \<open>
  \<^verbatim>\<open>json.rs\<close>: the bounds every aggregate puts on JSON values and on serialised sizes.

  \<open>serde_json\<close> itself is not part of the sources. A serialiser is a parameter: the buffers it
  hands to a writer, in order, and whether it finishes without an error of its own.
  \<open>serde_json::to_writer\<close> stops at the first buffer the writer refuses; \<open>serde_json::to_vec\<close>
  collects the buffers. The locale \<open>bounded_writer\<close> is the contract of the three byte-bounded
  writers; each of them is an interpretation.
\<close>

section \<open>The shape of a value\<close>

datatype json =
    Null
  | Bool bool
  | Number string
  | String string
  | Array "json list"
  | Object "(string \<times> json) list"

datatype bounded_json_error = LimitExceeded | CannotEncode

definition MAX_JSON_DEPTH :: nat where "MAX_JSON_DEPTH = 64"
definition MAX_JSON_NODES :: nat where "MAX_JSON_NODES = 65536"

definition validate_children :: "usize \<Rightarrow> usize \<Rightarrow> usize \<Rightarrow> usize \<Rightarrow> bounded_json_error + unit" where
  "validate_children visited pending depth children =
     (if (children > 0 \<and> depth \<ge> MAX_JSON_DEPTH) \<or> children > MAX_JSON_NODES - visited - pending
      then Inl LimitExceeded else Inr ())"

fun json_children :: "json \<Rightarrow> json list option" where
  "json_children (Array values) = Some values"
| "json_children (Object values) = Some (map snd values)"
| "json_children _ = None"

fun json_nodes :: "json \<Rightarrow> nat" where
  "json_nodes (Array vs) = Suc (sum_list (map json_nodes vs))"
| "json_nodes (Object kvs) = Suc (sum_list (map (\<lambda>kv. json_nodes (snd kv)) kvs))"
| "json_nodes _ = 1"

fun json_depth :: "json \<Rightarrow> nat" where
  "json_depth (Array vs) = Max (insert 0 ((\<lambda>v. Suc (json_depth v)) ` set vs))"
| "json_depth (Object kvs) = Max (insert 0 ((\<lambda>kv. Suc (json_depth (snd kv))) ` set kvs))"
| "json_depth _ = 0"

lemma json_nodes_children:
  "json_nodes v = Suc (case json_children v of None \<Rightarrow> 0 | Some vs \<Rightarrow> sum_list (map json_nodes vs))"
  by (cases v) (simp_all add: comp_def)

lemma json_nodes_None: "json_children v = None \<Longrightarrow> json_nodes v = 1"
  and json_nodes_Some: "json_children v = Some vs \<Longrightarrow> json_nodes v = Suc (sum_list (map json_nodes vs))"
  by (simp_all add: json_nodes_children)

lemma json_depth_children:
  "d + json_depth v \<le> n \<longleftrightarrow>
     d \<le> n \<and> (case json_children v of None \<Rightarrow> True
              | Some vs \<Rightarrow> \<forall>w\<in>set vs. Suc d + json_depth w \<le> n)"
proof -
  have Max_le: "d + Max (insert 0 (f ` set xs)) \<le> n \<longleftrightarrow> d \<le> n \<and> (\<forall>x\<in>set xs. d + f x \<le> n)"
    for f :: "'a \<Rightarrow> nat" and xs
  proof (cases "d \<le> n")
    case True
    then have "d + Max (insert 0 (f ` set xs)) \<le> n \<longleftrightarrow> Max (insert 0 (f ` set xs)) \<le> n - d"
      by linarith
    also have "\<dots> \<longleftrightarrow> (\<forall>x\<in>set xs. f x \<le> n - d)" by simp
    finally show ?thesis using True by (auto simp: le_diff_conv2 add.commute)
  qed simp
  show ?thesis by (cases v) (simp_all add: Max_le)
qed

text \<open>
  \<open>validate_value_shape\<close>. The vector \<open>pending\<close> is used as a stack, its last element first; the
  list here starts with that element. \<open>saturating_add\<close> on the depth never saturates, because
  the depth has just been compared with \<open>MAX_JSON_DEPTH\<close>.
\<close>

function shape_loop :: "(json \<times> usize) list \<Rightarrow> usize \<Rightarrow> bounded_json_error + unit" where
  "shape_loop [] visited = Inr ()"
| "shape_loop ((value, depth) # pending) visited =
     and_then (ok_or LimitExceeded (usize_checked_add visited 1)) (\<lambda>visited'.
       if depth > MAX_JSON_DEPTH \<or> visited' > MAX_JSON_NODES then Inl LimitExceeded
       else
         (case json_children value of
            Some values \<Rightarrow>
              and_then (validate_children visited' (length pending) depth (length values)) (\<lambda>_.
                shape_loop (rev (map (\<lambda>child. (child, min (depth + 1) (2 ^ 64 - 1))) values) @ pending)
                  visited')
          | None \<Rightarrow> shape_loop pending visited'))"
  by pat_completeness auto
termination
  by (relation "measure (\<lambda>(pending, _). sum_list (map (json_nodes \<circ> fst) pending))")
    (auto simp: json_nodes_None json_nodes_Some comp_def simp flip: rev_map)

definition validate_value_shape :: "json \<Rightarrow> bounded_json_error + unit" where
  "validate_value_shape value = shape_loop [(value, 0)] 0"

text \<open>
  The loop accepts exactly the stacks whose values stay within the depth bound and whose nodes,
  with the ones visited already, stay within the node bound. The bound kept by the early exit
  (discovered nodes, visited or pending) is what makes the two agree.
\<close>

definition stack_fits :: "(json \<times> usize) list \<Rightarrow> usize \<Rightarrow> bool" where
  "stack_fits pending visited \<longleftrightarrow>
     (\<forall>(v, d)\<in>set pending. d + json_depth v \<le> MAX_JSON_DEPTH) \<and>
     visited + sum_list (map (json_nodes \<circ> fst) pending) \<le> MAX_JSON_NODES"

lemma stack_fits_depth:
  "stack_fits pending visited \<Longrightarrow> (v, d) \<in> set pending \<Longrightarrow> d + json_depth v \<le> MAX_JSON_DEPTH"
  by (auto simp: stack_fits_def)

lemma sum_nodes_ge_length: "length pending \<le> sum_list (map (json_nodes \<circ> fst) pending)"
  by (induction pending) (auto simp: json_nodes_children)

lemma stack_fits_Cons:
  "stack_fits ((v, d) # pending) visited \<longleftrightarrow>
     d \<le> MAX_JSON_DEPTH \<and>
     (case json_children v of
        None \<Rightarrow> stack_fits pending (Suc visited)
      | Some vs \<Rightarrow> stack_fits (rev (map (\<lambda>c. (c, Suc d)) vs) @ pending) (Suc visited))"
proof (cases "json_children v")
  case None
  then show ?thesis
    using json_depth_children [of d v MAX_JSON_DEPTH]
    by (simp add: stack_fits_def json_nodes_children [of v])
next
  case (Some vs)
  have "sum_list (map (json_nodes \<circ> fst) (rev (map (\<lambda>c. (c, Suc d)) vs))) = sum_list (map json_nodes vs)"
    by (simp add: comp_def flip: rev_map)
  with Some show ?thesis
    using json_depth_children [of d v MAX_JSON_DEPTH]
    by (simp add: stack_fits_def json_nodes_children [of v] ball_Un add.assoc conj_assoc)
qed

lemma shape_loop_eq:
  "visited + length pending \<le> MAX_JSON_NODES \<Longrightarrow>
   shape_loop pending visited = (if stack_fits pending visited then Inr () else Inl LimitExceeded)"
proof (induction pending visited rule: shape_loop.induct)
  case (1 visited)
  then show ?case by (simp add: stack_fits_def)
next
  case (2 v d pending visited)
  let ?vis = "Suc visited"
  from "2.prems" have small: "usize_checked_add visited (Suc 0) = Some ?vis" and le: "?vis \<le> MAX_JSON_NODES"
    by (simp_all add: usize_checked_add_def MAX_JSON_NODES_def)
  show ?case
  proof (cases "d > MAX_JSON_DEPTH")
    case True
    then show ?thesis by (simp add: small stack_fits_Cons)
  next
    case d: False
    then have sat: "min (d + 1) (2 ^ 64 - 1) = Suc d" by (simp add: MAX_JSON_DEPTH_def)
    show ?thesis
    proof (cases "json_children v")
      case None
      with "2.IH"(1) [of ?vis] "2.prems" d le show ?thesis
        by (simp add: small stack_fits_Cons)
    next
      case (Some vs)
      let ?next = "rev (map (\<lambda>c. (c, Suc d)) vs) @ pending"
      show ?thesis
      proof (cases "validate_children ?vis (length pending) d (length vs)")
        case (Inl e)
        have "\<not> stack_fits ?next ?vis"
        proof (cases "vs \<noteq> [] \<and> d \<ge> MAX_JSON_DEPTH")
          case True
          then have "(hd vs, Suc d) \<in> set ?next" "MAX_JSON_DEPTH < Suc d" by auto
          then show ?thesis by (meson add_leD1 linorder_not_less stack_fits_depth)
        next
          case False
          with Inl have "?vis + length ?next > MAX_JSON_NODES"
            by (auto simp: validate_children_def split: if_splits)
          with sum_nodes_ge_length [of ?next] show ?thesis
            unfolding stack_fits_def by linarith
        qed
        moreover from Inl have "e = LimitExceeded"
          by (auto simp: validate_children_def split: if_splits)
        ultimately show ?thesis
          using Inl Some d le by (simp add: small stack_fits_Cons)
      next
        case (Inr u)
        then have "?vis + length ?next \<le> MAX_JSON_NODES"
          using le "2.prems" by (auto simp: validate_children_def split: if_splits)
        with "2.IH"(2) [of ?vis vs u] Inr Some d le sat show ?thesis
          by (simp add: small stack_fits_Cons)
      qed
    qed
  qed
qed

lemma validate_value_shape_eq:
  "validate_value_shape v =
     (if json_depth v \<le> MAX_JSON_DEPTH \<and> json_nodes v \<le> MAX_JSON_NODES
      then Inr () else Inl LimitExceeded)"
  using shape_loop_eq [of 0 "[(v, 0)]"]
  by (simp add: validate_value_shape_def stack_fits_def MAX_JSON_NODES_def del: shape_loop.simps)

section \<open>Bounded serialisation\<close>

type_synonym 'a serializer = "'a \<Rightarrow> bytes list \<times> bool"

fun write_all :: "('w \<Rightarrow> bytes \<Rightarrow> 'w \<times> bool) \<Rightarrow> 'w \<Rightarrow> bytes list \<Rightarrow> 'w \<times> bool" where
  "write_all wr w [] = (w, True)"
| "write_all wr w (b # bs) =
     (let (w', accepted) = wr w b in if accepted then write_all wr w' bs else (w', False))"

definition to_writer ::
  "'a serializer \<Rightarrow> ('w \<Rightarrow> bytes \<Rightarrow> 'w \<times> bool) \<Rightarrow> 'w \<Rightarrow> 'a \<Rightarrow> 'w \<times> bool" where
  "to_writer ser wr w v =
     (let (w', accepted) = write_all wr w (fst (ser v)) in (w', accepted \<and> snd (ser v)))"

definition to_vec :: "'a serializer \<Rightarrow> 'a \<Rightarrow> bytes option" where
  "to_vec ser v = (if snd (ser v) then Some (concat (fst (ser v))) else None)"

text \<open>The three writers of the module, each with its \<open>write\<close>.\<close>

record counting_writer =
  cw_bytes :: usize
  cw_maximum :: usize
  cw_exceeded :: bool

definition counting_write :: "counting_writer \<Rightarrow> bytes \<Rightarrow> counting_writer \<times> bool" where
  "counting_write w buffer =
     (case usize_checked_add (cw_bytes w) (length buffer) of
        None \<Rightarrow> (w\<lparr>cw_exceeded := True\<rparr>, False)
      | Some nxt \<Rightarrow>
          if nxt > cw_maximum w then (w\<lparr>cw_exceeded := True\<rparr>, False)
          else (w\<lparr>cw_bytes := nxt\<rparr>, True))"

record digest_writer =
  dw_hasher :: bytes
  dw_bytes :: usize
  dw_maximum :: usize
  dw_exceeded :: bool

definition digest_write :: "digest_writer \<Rightarrow> bytes \<Rightarrow> digest_writer \<times> bool" where
  "digest_write w buffer =
     (case usize_checked_add (dw_bytes w) (length buffer) of
        None \<Rightarrow> (w\<lparr>dw_exceeded := True\<rparr>, False)
      | Some nxt \<Rightarrow>
          if nxt > dw_maximum w then (w\<lparr>dw_exceeded := True\<rparr>, False)
          else (w\<lparr>dw_hasher := dw_hasher w @ buffer, dw_bytes := nxt\<rparr>, True))"

record bounded_vec_writer =
  vw_bytes :: bytes
  vw_maximum :: usize
  vw_exceeded :: bool

definition vec_write :: "bounded_vec_writer \<Rightarrow> bytes \<Rightarrow> bounded_vec_writer \<times> bool" where
  "vec_write w buffer =
     (if (case usize_checked_add (length (vw_bytes w)) (length buffer) of
            None \<Rightarrow> True | Some n \<Rightarrow> n > vw_maximum w)
      then (w\<lparr>vw_exceeded := True\<rparr>, False)
      else (w\<lparr>vw_bytes := vw_bytes w @ buffer\<rparr>, True))"

definition bounded_serialized_size :: "'a serializer \<Rightarrow> 'a \<Rightarrow> usize \<Rightarrow> bounded_json_error + usize"
where
  "bounded_serialized_size ser v maximum =
     (let writer = \<lparr>cw_bytes = 0, cw_maximum = maximum, cw_exceeded = False\<rparr>;
          (w, finished) = to_writer ser counting_write writer v
      in if finished then Inr (cw_bytes w)
         else if cw_exceeded w then Inl LimitExceeded else Inl CannotEncode)"

definition to_bounded_json_vec :: "'a serializer \<Rightarrow> 'a \<Rightarrow> usize \<Rightarrow> bounded_json_error + bytes" where
  "to_bounded_json_vec ser v maximum =
     (let writer = \<lparr>vw_bytes = [], vw_maximum = maximum, vw_exceeded = False\<rparr>;
          (w, finished) = to_writer ser vec_write writer v
      in if finished then Inr (vw_bytes w)
         else if vw_exceeded w then Inl LimitExceeded else Inl CannotEncode)"

text \<open>The digest of the accumulated bytes; the table \<open>HEX\<close> spells what \<open>lower_hex\<close> spells.\<close>

definition bounded_serialized_sha256 ::
  "(bytes \<Rightarrow> bytes) \<Rightarrow> 'a serializer \<Rightarrow> 'a \<Rightarrow> usize \<Rightarrow> bounded_json_error + string" where
  "bounded_serialized_sha256 sha256 ser v maximum =
     (let writer = \<lparr>dw_hasher = [], dw_bytes = 0, dw_maximum = maximum, dw_exceeded = False\<rparr>;
          (w, finished) = to_writer ser digest_write writer v
      in if finished then Inr (lower_hex (sha256 (dw_hasher w)))
         else if dw_exceeded w then Inl LimitExceeded else Inl CannotEncode)"

text \<open>
  The contract of a bounded writer: it accepts a buffer exactly when the total stays within the
  maximum, it then holds what it was given, and a refusal raises its flag.
\<close>

locale bounded_writer =
  fixes wr :: "'w \<Rightarrow> bytes \<Rightarrow> 'w \<times> bool"
    and holds :: "'w \<Rightarrow> bytes \<Rightarrow> bool"
    and maximum :: "'w \<Rightarrow> usize"
    and exceeded :: "'w \<Rightarrow> bool"
  assumes accept: "holds w b \<Longrightarrow> length b + length c \<le> maximum w \<Longrightarrow> maximum w < 2 ^ 64 \<Longrightarrow>
      \<exists>w'. wr w c = (w', True) \<and> holds w' (b @ c) \<and> maximum w' = maximum w \<and> exceeded w' = exceeded w"
    and refuse: "holds w b \<Longrightarrow> \<not> length b + length c \<le> maximum w \<Longrightarrow>
      \<exists>w'. wr w c = (w', False) \<and> exceeded w'"
begin

lemma write_all_accepts:
  "holds w b \<Longrightarrow> maximum w < 2 ^ 64 \<Longrightarrow> length b + length (concat bs) \<le> maximum w \<Longrightarrow>
   \<exists>w'. write_all wr w bs = (w', True) \<and> holds w' (b @ concat bs) \<and> exceeded w' = exceeded w"
proof (induction bs arbitrary: w b)
  case (Cons c bs)
  from Cons.prems have "length b + length c \<le> maximum w" by simp
  from accept [OF Cons.prems(1) this Cons.prems(2)] obtain w' where w':
    "wr w c = (w', True)" "holds w' (b @ c)" "maximum w' = maximum w" "exceeded w' = exceeded w"
    by blast
  with Cons.IH [OF w'(2)] Cons.prems show ?case by (simp add: w'(1))
qed simp

lemma write_all_refuses:
  "holds w b \<Longrightarrow> maximum w < 2 ^ 64 \<Longrightarrow> \<not> length b + length (concat bs) \<le> maximum w \<Longrightarrow>
   length b \<le> maximum w \<Longrightarrow> \<exists>w'. write_all wr w bs = (w', False) \<and> exceeded w'"
proof (induction bs arbitrary: w b)
  case (Cons c bs)
  show ?case
  proof (cases "length b + length c \<le> maximum w")
    case True
    from accept [OF Cons.prems(1) this Cons.prems(2)] obtain w' where w':
      "wr w c = (w', True)" "holds w' (b @ c)" "maximum w' = maximum w"
      by blast
    with Cons.IH [OF w'(2)] Cons.prems True show ?thesis by (simp add: w'(1))
  next
    case False
    with refuse [OF Cons.prems(1)] show ?thesis by fastforce
  qed
qed simp

text \<open>
  A fresh writer run by \<open>to_writer\<close>: too many bytes raise the flag, otherwise the outcome is the
  serialiser's own, and the writer then holds the bytes \<open>to_vec\<close> returns.
\<close>

lemma to_writer_cases:
  assumes "holds w []" and "maximum w < 2 ^ 64" and "\<not> exceeded w"
  obtains (fits) w' b where "to_vec ser v = Some b" "length b \<le> maximum w"
      "to_writer ser wr w v = (w', True)" "holds w' b"
  | (fails) w' where "to_vec ser v = None" "length (concat (fst (ser v))) \<le> maximum w"
      "to_writer ser wr w v = (w', False)" "\<not> exceeded w'"
  | (too_long) w' where "length (concat (fst (ser v))) > maximum w"
      "to_writer ser wr w v = (w', False)" "exceeded w'"
proof (cases "length (concat (fst (ser v))) \<le> maximum w")
  case True
  with write_all_accepts [OF assms(1,2), of "fst (ser v)"] assms(3) obtain w' where
    "write_all wr w (fst (ser v)) = (w', True)" "holds w' (concat (fst (ser v)))" "\<not> exceeded w'"
    by auto
  with True that(1,2) show ?thesis by (cases "snd (ser v)") (auto simp: to_writer_def to_vec_def)
next
  case False
  with write_all_refuses [OF assms(1,2), of "fst (ser v)"] that(3) show ?thesis
    by (auto simp: to_writer_def)
qed

end

interpretation counting: bounded_writer counting_write "\<lambda>w b. cw_bytes w = length b" cw_maximum cw_exceeded
  by unfold_locales (auto simp: counting_write_def usize_checked_add_def)

interpretation digesting: bounded_writer digest_write
  "\<lambda>w b. dw_hasher w = b \<and> dw_bytes w = length b" dw_maximum dw_exceeded
  by unfold_locales (auto simp: digest_write_def usize_checked_add_def)

interpretation collecting: bounded_writer vec_write "\<lambda>w b. vw_bytes w = b" vw_maximum vw_exceeded
  by unfold_locales (auto simp: vec_write_def usize_checked_add_def)

lemma bounded_serialized_size_ok [ok_iff]:
  assumes "maximum < 2 ^ 64"
  shows "bounded_serialized_size ser v maximum = Inr n \<longleftrightarrow>
    (\<exists>b. to_vec ser v = Some b \<and> length b = n \<and> n \<le> maximum)"
  using assms
  by (rule_tac counting.to_writer_cases [of "\<lparr>cw_bytes = 0, cw_maximum = maximum, cw_exceeded = False\<rparr>"
        ser v])
    (auto simp: bounded_serialized_size_def to_vec_def split: if_splits)

lemma to_bounded_json_vec_ok [ok_iff]:
  assumes "maximum < 2 ^ 64"
  shows "to_bounded_json_vec ser v maximum = Inr b \<longleftrightarrow> to_vec ser v = Some b \<and> length b \<le> maximum"
  using assms
  by (rule_tac collecting.to_writer_cases [of "\<lparr>vw_bytes = [], vw_maximum = maximum, vw_exceeded = False\<rparr>"
        ser v])
    (auto simp: to_bounded_json_vec_def to_vec_def split: if_splits)

section \<open>Properties\<close>

text \<open>
  equivalence. The iterative shape check, with its explicit stack and its early refusal of
  wide values, accepts exactly the values that are at most 64 levels deep and have at most 65,536
  nodes; it neither rejects a value within both limits nor lets one beyond them pass.
\<close>

theorem json_shape_check_exact:
  "validate_value_shape v = Inr () \<longleftrightarrow> json_depth v \<le> MAX_JSON_DEPTH \<and> json_nodes v \<le> MAX_JSON_NODES"
  by (simp add: validate_value_shape_eq)

text \<open>
  equivalence. The three bounded encoders agree with encoding the value completely and
  measuring it afterwards: within the limit they return its length, its bytes and the digest of its
  bytes; beyond the limit each reports that the limit is exceeded, however the serialiser cuts its
  output into writes.
\<close>

theorem bounded_encoders_exact:
  assumes "maximum < 2 ^ 64" and "to_vec ser v = Some b"
  shows "bounded_serialized_size ser v maximum = (if length b \<le> maximum then Inr (length b) else Inl LimitExceeded) \<and>
    to_bounded_json_vec ser v maximum = (if length b \<le> maximum then Inr b else Inl LimitExceeded) \<and>
    bounded_serialized_sha256 sha256 ser v maximum =
      (if length b \<le> maximum then Inr (lower_hex (sha256 b)) else Inl LimitExceeded)"
proof (intro conjI)
  have b: "concat (fst (ser v)) = b" using assms(2) by (auto simp: to_vec_def split: if_splits)
  show "bounded_serialized_size ser v maximum = (if length b \<le> maximum then Inr (length b) else Inl LimitExceeded)"
    by (rule counting.to_writer_cases [of "\<lparr>cw_bytes = 0, cw_maximum = maximum, cw_exceeded = False\<rparr>" ser v])
      (use assms b in \<open>auto simp: bounded_serialized_size_def\<close>)
  show "to_bounded_json_vec ser v maximum = (if length b \<le> maximum then Inr b else Inl LimitExceeded)"
    by (rule collecting.to_writer_cases [of "\<lparr>vw_bytes = [], vw_maximum = maximum, vw_exceeded = False\<rparr>" ser v])
      (use assms b in \<open>auto simp: to_bounded_json_vec_def\<close>)
  show "bounded_serialized_sha256 sha256 ser v maximum =
      (if length b \<le> maximum then Inr (lower_hex (sha256 b)) else Inl LimitExceeded)"
    by (rule digesting.to_writer_cases
        [of "\<lparr>dw_hasher = [], dw_bytes = 0, dw_maximum = maximum, dw_exceeded = False\<rparr>" ser v])
      (use assms b in \<open>auto simp: bounded_serialized_sha256_def\<close>)
qed

theorem bounded_encoders_exact_witness:
  "to_bounded_json_vec (\<lambda>s. ([''{'', s, ''}''], True)) ''x'' 2 = Inl LimitExceeded \<and>
   to_bounded_json_vec (\<lambda>s. ([''{'', s, ''}''], True)) ''x'' 3 = Inr ''{x}''"
  using bounded_encoders_exact [of 2 "\<lambda>s. ([''{'', s, ''}''], True)" "''x''" "''{x}''"]
    bounded_encoders_exact [of 3 "\<lambda>s. ([''{'', s, ''}''], True)" "''x''" "''{x}''"]
  by (simp add: to_vec_def)

end
