(* ===== verification/Approval.thy ===== *)
theory Approval
  imports Revision_Store Json
begin

text \<open>
  The Approval Inbox (\<^verbatim>\<open>approval/mod.rs\<close>): requests of a running Turn for a side effect, settled once
  by somebody else or orphaned with their Turn. Modelled are the records and their validator, the memory
  inbox, the polling handler in front of an inbox, and the conversion of stored rows. Each reading of the clock
  is an argument; the encoders and the parser of records are parameters. An operation that can fail after it
  changed some records returns the inbox beside its result.
\<close>

section \<open>Limits\<close>

definition APPROVAL_INBOX_SCHEMA_VERSION :: u32 where "APPROVAL_INBOX_SCHEMA_VERSION = 3"
definition MAX_APPROVAL_RECORD_BYTES :: nat where "MAX_APPROVAL_RECORD_BYTES = 525312"
definition MAX_APPROVAL_REASON_BYTES :: nat where "MAX_APPROVAL_REASON_BYTES = 4096"
definition APPROVAL_TERMINAL_RECORD_RESERVE_BYTES :: nat where
  "APPROVAL_TERMINAL_RECORD_RESERVE_BYTES = MAX_APPROVAL_REASON_BYTES + 1024"
definition MAX_APPROVAL_PAGE :: nat where "MAX_APPROVAL_PAGE = 16"
definition MAX_APPROVALS_PER_TURN :: nat where "MAX_APPROVALS_PER_TURN = 256"
definition MIN_POLL_INTERVAL :: nat where "MIN_POLL_INTERVAL = 10"
definition MAX_POLL_INTERVAL :: nat where "MAX_POLL_INTERVAL = 60000"

lemmas approval_limits = MAX_APPROVAL_RECORD_BYTES_def MAX_APPROVAL_REASON_BYTES_def
  APPROVAL_TERMINAL_RECORD_RESERVE_BYTES_def MAX_APPROVAL_PAGE_def MAX_APPROVALS_PER_TURN_def

section \<open>Requests and records\<close>

datatype risk_level = Low | Medium | High | Critical

record tool_descriptor =
  tde_name :: string
  tde_description :: string
  tde_input_schema :: json

record tool_authorization =
  au_thread_id :: string
  au_turn_id :: string
  au_call_id :: string
  au_descriptor :: tool_descriptor
  au_origin :: capability_origin
  au_input :: json

record approval_request =
  aq_id :: string
  aq_requested_by :: actor_identity
  aq_authorization :: tool_authorization
  aq_reason :: string
  aq_risk :: risk_level

datatype approval_decision = Approve | Deny string

datatype approval_record_status =
    ApPending
  | ApSettled approval_decision actor_identity
  | ApOrphaned string

record approval_record =
  apr_schema_version :: u32
  apr_request :: approval_request
  apr_tenant_id :: "string option"
  apr_status :: approval_record_status
  apr_revision :: u64
  apr_requested_at_ms :: u64
  apr_settled_at_ms :: "u64 option"

type_synonym approval_inbox = "(string, approval_record) btree_map"

record approval_env =
  ae_request :: "approval_request serializer"
  ae_record :: "approval_record serializer"
  ae_parse :: "string \<Rightarrow> approval_record option"

fun is_pending :: "approval_record_status \<Rightarrow> bool" where
  "is_pending ApPending = True"
| "is_pending _ = False"

fun ap_status_name :: "approval_record_status \<Rightarrow> string" where
  "ap_status_name ApPending = ''pending''"
| "ap_status_name (ApSettled _ _) = ''settled''"
| "ap_status_name (ApOrphaned _) = ''orphaned''"

section \<open>Validation\<close>

definition ap_validate_identity :: "string \<Rightarrow> unit result" where
  "ap_validate_identity value =
     (if value = [] \<or> length value > 256 \<or> has_control value then Inl (Approval Ap_identity) else Inr ())"

definition ap_validate_reason :: "string \<Rightarrow> unit result" where
  "ap_validate_reason reason =
     (if trim_is_empty reason \<or> length reason > MAX_APPROVAL_REASON_BYTES \<or> has_control reason
      then Inl (Approval Ap_reason) else Inr ())"

fun validate_decision :: "approval_decision \<Rightarrow> unit result" where
  "validate_decision (Deny reason) = ap_validate_reason reason"
| "validate_decision Approve = Inr ()"

fun approval_json_error :: "bounded_json_error \<Rightarrow> harness_error" where
  "approval_json_error LimitExceeded = Approval Ap_too_large"
| "approval_json_error CannotEncode = Approval Ap_encode"

definition ap_validate_authority :: "authority_context \<Rightarrow> unit result" where
  "ap_validate_authority authority = map_err (\<lambda>_. Approval Ap_authority) (authority_validate_current authority)"

definition ap_validate_request :: "approval_env \<Rightarrow> approval_request \<Rightarrow> unit result" where
  "ap_validate_request env request =
     (let authorization = aq_authorization request in
     and_then (ap_validate_identity (aq_id request)) (\<lambda>_.
     and_then (validate_shape (aq_requested_by request)) (\<lambda>_.
     and_then (ap_validate_identity (au_thread_id authorization)) (\<lambda>_.
     and_then (ap_validate_identity (au_turn_id authorization)) (\<lambda>_.
     and_then (ap_validate_identity (au_call_id authorization)) (\<lambda>_.
     and_then (validate_capability_name (tde_name (au_descriptor authorization))) (\<lambda>_.
     and_then (ap_validate_reason (aq_reason request)) (\<lambda>_.
     if trim_is_empty (tde_description (au_descriptor authorization)) then Inl (Approval Ap_no_description)
     else
     and_then (for_each (\<lambda>value. map_err (\<lambda>_. Approval Ap_json_shape) (validate_value_shape value))
       [tde_input_schema (au_descriptor authorization), au_input authorization]) (\<lambda>_.
     and_then (map_err approval_json_error
       (bounded_serialized_size (ae_request env) request MAX_APPROVAL_RECORD_BYTES)) (\<lambda>_.
     Inr ()))))))))))"

definition validate_current_request :: "approval_env \<Rightarrow> approval_request \<Rightarrow> unit result" where
  "validate_current_request env request =
     and_then (ap_validate_request env request) (\<lambda>_. actor_validate_current (aq_requested_by request))"

definition validate_submission_authority :: "approval_request \<Rightarrow> authority_context \<Rightarrow> unit result" where
  "validate_submission_authority request authority =
     and_then (ap_validate_authority authority) (\<lambda>_.
     if aq_requested_by request \<noteq> actor authority then Inl (Approval Ap_requester_differs) else Inr ())"

definition validate_record_status :: "approval_record \<Rightarrow> unit result" where
  "validate_record_status r =
     (case (apr_status r, apr_settled_at_ms r) of
        (ApPending, None) \<Rightarrow> Inr ()
      | (ApSettled decision decided_by, Some _) \<Rightarrow>
          and_then (validate_decision decision) (\<lambda>_.
          and_then (validate_shape decided_by) (\<lambda>_.
          if aq_requested_by (apr_request r) = decided_by \<and> decided_by \<noteq> UnattributedLegacy
          then Inl (Approval Ap_equal_identities) else Inr ()))
      | (ApOrphaned reason, Some _) \<Rightarrow> ap_validate_reason reason
      | _ \<Rightarrow> Inl (Approval Ap_timestamp))"

definition validate_record :: "approval_env \<Rightarrow> approval_record \<Rightarrow> unit result" where
  "validate_record env r =
     (if apr_schema_version r \<noteq> APPROVAL_INBOX_SCHEMA_VERSION \<or> apr_revision r = 0
      then Inl (Approval Ap_schema_or_revision)
      else
      and_then (ap_validate_request env (apr_request r)) (\<lambda>_.
      and_then (case apr_tenant_id r of
          None \<Rightarrow> Inr ()
        | Some t \<Rightarrow> map_err (\<lambda>_. Approval Ap_tenant) (validate_tenant_id t)) (\<lambda>_.
      if aq_requested_by (apr_request r) = UnattributedLegacy \<and> is_pending (apr_status r)
      then Inl (Approval Ap_legacy_pending)
      else
      and_then (validate_record_status r) (\<lambda>_.
      let maximum_bytes = (if is_pending (apr_status r)
            then MAX_APPROVAL_RECORD_BYTES - APPROVAL_TERMINAL_RECORD_RESERVE_BYTES
            else MAX_APPROVAL_RECORD_BYTES) in
      and_then (map_err approval_json_error (bounded_serialized_size (ae_record env) r maximum_bytes)) (\<lambda>_.
      Inr ())))))"

definition ap_validate_page :: "usize \<Rightarrow> unit result" where
  "ap_validate_page limit =
     (if \<not> (1 \<le> limit \<and> limit \<le> MAX_APPROVAL_PAGE) then Inl (Approval Ap_page_limit) else Inr ())"

section \<open>Transitions of a record\<close>

definition new_record :: "u64 \<Rightarrow> approval_request \<Rightarrow> string option \<Rightarrow> approval_record" where
  "new_record now request tenant = \<lparr>apr_schema_version = APPROVAL_INBOX_SCHEMA_VERSION, apr_request = request,
     apr_tenant_id = tenant, apr_status = ApPending, apr_revision = 1, apr_requested_at_ms = now,
     apr_settled_at_ms = None\<rparr>"

definition matching_request :: "approval_record \<Rightarrow> approval_request \<Rightarrow> string option \<Rightarrow> approval_record result" where
  "matching_request existing request tenant =
     (if apr_request existing = request \<and> apr_tenant_id existing = tenant then Inr existing
      else Inl (Approval (Ap_reused (aq_id request))))"

definition settle_record ::
  "approval_env \<Rightarrow> u64 \<Rightarrow> approval_record \<Rightarrow> u64 \<Rightarrow> approval_decision \<Rightarrow> actor_identity \<Rightarrow> approval_record result" where
  "settle_record env now r expected_revision decision decided_by =
     (if apr_revision r \<noteq> expected_revision
      then Inl (ApprovalConflict (aq_id (apr_request r)) expected_revision (apr_revision r))
      else if \<not> is_pending (apr_status r) then Inl (Approval (Ap_terminal (aq_id (apr_request r))))
      else
      and_then (actor_validate_current decided_by) (\<lambda>_.
      if aq_requested_by (apr_request r) = decided_by then Inl (Approval (Ap_own_request (aq_id (apr_request r))))
      else
      and_then (ok_or (Approval Ap_revision_overflow) (checked_add (apr_revision r) 1)) (\<lambda>revision.
      let candidate = r\<lparr>apr_revision := revision, apr_status := ApSettled decision decided_by,
            apr_settled_at_ms := Some now\<rparr> in
      and_then (validate_record env candidate) (\<lambda>_. Inr candidate))))"

definition orphan_record :: "approval_env \<Rightarrow> u64 \<Rightarrow> string \<Rightarrow> approval_record \<Rightarrow> approval_record result" where
  "orphan_record env now reason r =
     (if \<not> is_pending (apr_status r) then Inr r
      else
      and_then (ok_or (Approval Ap_revision_overflow) (checked_add (apr_revision r) 1)) (\<lambda>revision.
      let candidate = r\<lparr>apr_revision := revision, apr_status := ApOrphaned reason, apr_settled_at_ms := Some now\<rparr> in
      and_then (validate_record env candidate) (\<lambda>_. Inr candidate)))"

definition same_turn :: "approval_record \<Rightarrow> string option \<Rightarrow> string \<Rightarrow> string \<Rightarrow> bool" where
  "same_turn r tenant thread_id turn_id \<longleftrightarrow> apr_tenant_id r = tenant \<and>
     au_thread_id (aq_authorization (apr_request r)) = thread_id \<and>
     au_turn_id (aq_authorization (apr_request r)) = turn_id"

definition enforce_turn_capacity :: "approval_record list \<Rightarrow> approval_request \<Rightarrow> string option \<Rightarrow> unit result" where
  "enforce_turn_capacity records request tenant =
     (if length (filter (\<lambda>r. same_turn r tenant (au_thread_id (aq_authorization request))
            (au_turn_id (aq_authorization request))) records) \<ge> MAX_APPROVALS_PER_TURN
      then Inl (Approval Ap_turn_full) else Inr ())"

section \<open>The memory inbox\<close>

definition submit_as ::
  "approval_env \<Rightarrow> approval_inbox \<Rightarrow> u64 \<Rightarrow> approval_request \<Rightarrow> authority_context \<Rightarrow>
   (approval_inbox \<times> approval_record) result" where
  "submit_as env records now request authority =
     and_then (validate_current_request env request) (\<lambda>_.
     and_then (validate_submission_authority request authority) (\<lambda>_.
     case bm_get records (aq_id request) of
       Some existing \<Rightarrow>
         and_then (matching_request existing request (tenant_id authority)) (\<lambda>r. Inr (records, r))
     | None \<Rightarrow>
         and_then (enforce_turn_capacity (bm_values records) request (tenant_id authority)) (\<lambda>_.
         let r = new_record now request (tenant_id authority) in
         and_then (validate_record env r) (\<lambda>_.
         Inr (bm_insert (aq_id (apr_request r)) r records, r)))))"

definition filter_tenant :: "string option \<Rightarrow> approval_record option \<Rightarrow> approval_record option" where
  "filter_tenant tenant found = Option.bind found (\<lambda>r. if apr_tenant_id r = tenant then Some r else None)"

definition get_as :: "approval_inbox \<Rightarrow> string \<Rightarrow> authority_context \<Rightarrow> approval_record option result" where
  "get_as records approval_id authority =
     and_then (ap_validate_identity approval_id) (\<lambda>_.
     and_then (ap_validate_authority authority) (\<lambda>_.
     Inr (filter_tenant (tenant_id authority) (bm_get records approval_id))))"

text \<open>The bounded selection of the oldest records; \<open>binary_search_by\<close> finds the place in an ordered list.\<close>

definition pending_key :: "approval_record \<Rightarrow> u64 \<times> string" where
  "pending_key r = (apr_requested_at_ms r, aq_id (apr_request r))"

definition select_pending :: "usize \<Rightarrow> approval_record list \<Rightarrow> approval_record \<Rightarrow> approval_record list" where
  "select_pending limit selected r =
     (let position = length (takeWhile (\<lambda>existing. pending_key existing < pending_key r) selected) in
      if position < limit
      then let selected = take position selected @ r # drop position selected in
        if length selected > limit then butlast selected else selected
      else selected)"

definition pending_as :: "approval_inbox \<Rightarrow> usize \<Rightarrow> authority_context \<Rightarrow> approval_record list result" where
  "pending_as records limit authority =
     and_then (ap_validate_page limit) (\<lambda>_.
     and_then (ap_validate_authority authority) (\<lambda>_.
     Inr (fold (\<lambda>r selected. select_pending limit selected r)
       (filter (\<lambda>r. apr_tenant_id r = tenant_id authority \<and> is_pending (apr_status r)) (bm_values records)) [])))"

definition settle_as ::
  "approval_env \<Rightarrow> approval_inbox \<Rightarrow> u64 \<Rightarrow> string \<Rightarrow> u64 \<Rightarrow> approval_decision \<Rightarrow> authority_context \<Rightarrow>
   (approval_inbox \<times> approval_record) result" where
  "settle_as env records now approval_id expected_revision decision authority =
     and_then (ap_validate_identity approval_id) (\<lambda>_.
     and_then (validate_decision decision) (\<lambda>_.
     and_then (ap_validate_authority authority) (\<lambda>_.
     and_then (ok_or (Approval (Ap_missing approval_id))
       (filter_tenant (tenant_id authority) (bm_get records approval_id))) (\<lambda>r.
     and_then (settle_record env now r expected_revision decision (actor authority)) (\<lambda>settled.
     Inr (bm_insert approval_id settled records, settled))))))"

text \<open>
  The loop of \<open>orphan_turn_as\<close> changes the records in place, so a record that cannot be orphaned ends it with
  those before it changed. \<open>clock\<close> gives the time of each change.
\<close>

fun orphan_loop ::
  "approval_env \<Rightarrow> (string \<Rightarrow> u64) \<Rightarrow> string \<Rightarrow> (approval_record \<Rightarrow> bool) \<Rightarrow> approval_inbox \<Rightarrow> usize \<Rightarrow>
   approval_inbox \<times> usize result" where
  "orphan_loop env clock reason chosen [] changed = ([], Inr changed)"
| "orphan_loop env clock reason chosen ((i, r) # records) changed =
     (if chosen r
      then case orphan_record env (clock i) reason r of
          Inl e \<Rightarrow> ((i, r) # records, Inl e)
        | Inr r' \<Rightarrow>
            let (rest, res) = orphan_loop env clock reason chosen records (usize_saturating_add changed 1)
            in ((i, r') # rest, res)
      else let (rest, res) = orphan_loop env clock reason chosen records changed in ((i, r) # rest, res))"

definition orphan_turn_as ::
  "approval_env \<Rightarrow> approval_inbox \<Rightarrow> (string \<Rightarrow> u64) \<Rightarrow> string \<Rightarrow> string \<Rightarrow> string \<Rightarrow> authority_context \<Rightarrow>
   approval_inbox \<times> usize result" where
  "orphan_turn_as env records clock thread_id turn_id reason authority =
     (case and_then (ap_validate_identity thread_id) (\<lambda>_.
           and_then (ap_validate_identity turn_id) (\<lambda>_.
           and_then (ap_validate_reason reason) (\<lambda>_. ap_validate_authority authority))) of
        Inl e \<Rightarrow> (records, Inl e)
      | Inr _ \<Rightarrow> orphan_loop env clock reason
          (\<lambda>r. same_turn r (tenant_id authority) thread_id turn_id \<and> is_pending (apr_status r)) records 0)"

text \<open>The unscoped operations of the trait.\<close>

definition ap_submit ::
  "approval_env \<Rightarrow> approval_inbox \<Rightarrow> u64 \<Rightarrow> approval_request \<Rightarrow> (approval_inbox \<times> approval_record) result" where
  "ap_submit env records now request =
     and_then (authority_new (aq_requested_by request) None) (\<lambda>authority. submit_as env records now request authority)"

definition ap_get :: "approval_inbox \<Rightarrow> string \<Rightarrow> approval_record option result" where
  "ap_get records approval_id = get_as records approval_id local_process"

definition ap_pending :: "approval_inbox \<Rightarrow> usize \<Rightarrow> approval_record list result" where
  "ap_pending records limit = pending_as records limit local_process"

definition ap_settle ::
  "approval_env \<Rightarrow> approval_inbox \<Rightarrow> u64 \<Rightarrow> string \<Rightarrow> u64 \<Rightarrow> approval_decision \<Rightarrow> actor_identity \<Rightarrow>
   (approval_inbox \<times> approval_record) result" where
  "ap_settle env records now approval_id expected_revision decision decided_by =
     and_then (authority_new decided_by None) (\<lambda>authority.
     settle_as env records now approval_id expected_revision decision authority)"

definition orphan_turn ::
  "approval_env \<Rightarrow> approval_inbox \<Rightarrow> (string \<Rightarrow> u64) \<Rightarrow> string \<Rightarrow> string \<Rightarrow> string \<Rightarrow> approval_inbox \<times> usize result" where
  "orphan_turn env records clock thread_id turn_id reason =
     orphan_turn_as env records clock thread_id turn_id reason local_process"

section \<open>The polling handler\<close>

definition handler_new :: "usize \<Rightarrow> usize result" where
  "handler_new poll_interval =
     (if \<not> (MIN_POLL_INTERVAL \<le> poll_interval \<and> poll_interval \<le> MAX_POLL_INTERVAL)
      then Inl (InvalidConfiguration Bad_poll_interval) else Inr poll_interval)"

text \<open>
  The loop of \<open>decide_as\<close> polls until the record is terminal. \<open>later\<close> are the states of the inbox at the successive
  polls; the loop has not returned when they are used up (\<open>None\<close>).
\<close>

fun decide_loop ::
  "authority_context \<Rightarrow> approval_record \<Rightarrow> approval_inbox list \<Rightarrow> approval_decision result option" where
  "decide_loop authority r later =
     (case apr_status r of
        ApSettled decision _ \<Rightarrow> Some (Inr decision)
      | ApOrphaned reason \<Rightarrow> Some (Inl (Approval (Ap_orphaned reason)))
      | ApPending \<Rightarrow>
          (case later of
             [] \<Rightarrow> None
           | records # later' \<Rightarrow>
               (case and_then (get_as records (aq_id (apr_request r)) authority) (ok_or (Approval Ap_disappeared)) of
                  Inl e \<Rightarrow> Some (Inl e)
                | Inr r' \<Rightarrow> decide_loop authority r' later')))"

definition decide_as ::
  "approval_env \<Rightarrow> approval_inbox \<Rightarrow> u64 \<Rightarrow> approval_request \<Rightarrow> authority_context \<Rightarrow> approval_inbox list \<Rightarrow>
   approval_inbox \<times> approval_decision result option" where
  "decide_as env records now request authority later =
     (case submit_as env records now request authority of
        Inl e \<Rightarrow> (records, Some (Inl e))
      | Inr (records', r) \<Rightarrow> (records', decide_loop authority r later))"

definition abandon_turn_as ::
  "approval_env \<Rightarrow> approval_inbox \<Rightarrow> (string \<Rightarrow> u64) \<Rightarrow> string \<Rightarrow> string \<Rightarrow> string \<Rightarrow> authority_context \<Rightarrow>
   approval_inbox \<times> unit result" where
  "abandon_turn_as env records clock thread_id turn_id reason authority =
     (let (records', res) = orphan_turn_as env records clock thread_id turn_id reason authority
      in (records', and_then res (\<lambda>_. Inr ())))"

section \<open>Stored rows\<close>

definition decode_record :: "approval_env \<Rightarrow> string \<Rightarrow> approval_record result" where
  "decode_record env encoded =
     (if length encoded > MAX_APPROVAL_RECORD_BYTES then Inl (Approval Ap_too_large)
      else
      and_then (ok_or (Approval Ap_parse) (ae_parse env encoded)) (\<lambda>r.
      and_then (validate_record env r) (\<lambda>_. Inr r)))"

definition encode_record :: "approval_env \<Rightarrow> approval_record \<Rightarrow> string result" where
  "encode_record env r =
     and_then (validate_record env r) (\<lambda>_.
     map_err approval_json_error (to_bounded_json_vec (ae_record env) r MAX_APPROVAL_RECORD_BYTES))"

definition to_sql_u64 :: "u64 \<Rightarrow> int result" where
  "to_sql_u64 value = (if uint value < 2 ^ 63 then Inr (uint value) else Inl (Approval Ap_stored_revision))"

type_synonym indexed_record = "string \<times> int \<times> string option \<times> string \<times> string \<times> string"

definition decode_indexed_record :: "approval_env \<Rightarrow> indexed_record \<Rightarrow> approval_record result" where
  "decode_indexed_record env = (\<lambda>(status, revision, tenant, thread_id, turn_id, encoded).
     and_then (decode_record env encoded) (\<lambda>r.
     if revision < 0 then Inl (Approval Ap_stored_revision)
     else if status \<noteq> ap_status_name (apr_status r) \<or> revision \<noteq> uint (apr_revision r) \<or> tenant \<noteq> apr_tenant_id r \<or>
             thread_id \<noteq> au_thread_id (aq_authorization (apr_request r)) \<or>
             turn_id \<noteq> au_turn_id (aq_authorization (apr_request r))
     then Inl (Approval Ap_indexes)
     else Inr r))"

section \<open>Steps\<close>

text \<open>
  One call of the memory inbox, which holds its lock for the whole call. A call that orphans a Turn may change records
  even when it fails.
\<close>

inductive inbox_step :: "approval_env \<Rightarrow> approval_inbox \<Rightarrow> approval_inbox \<Rightarrow> bool" for env where
  request_submitted: "submit_as env records now request authority = Inr (records', r) \<Longrightarrow> inbox_step env records records'"
| request_settled: "settle_as env records now approval_id revision decision authority = Inr (records', r) \<Longrightarrow>
    inbox_step env records records'"
| turn_orphaned: "orphan_turn_as env records clock thread_id turn_id reason authority = (records', res) \<Longrightarrow>
    inbox_step env records records'"

definition inbox_commits :: "approval_env \<Rightarrow> approval_inbox \<Rightarrow> string \<Rightarrow> u64 \<Rightarrow> approval_inbox \<Rightarrow> bool" where
  "inbox_commits env records approval_id revision records' \<longleftrightarrow>
     (\<exists>now decision authority r. settle_as env records now approval_id revision decision authority = Inr (records', r))"

definition approval_born :: "approval_env \<Rightarrow> string \<Rightarrow> approval_record \<Rightarrow> bool" where
  "approval_born env i r \<longleftrightarrow> (\<exists>request authority now. i = aq_id request \<and> valid_authority authority \<and>
     aq_requested_by request = actor authority \<and> r = new_record now request (tenant_id authority) \<and>
     validate_record env r = Inr ())"

definition approval_grows :: "approval_env \<Rightarrow> approval_record \<Rightarrow> approval_record \<Rightarrow> bool" where
  "approval_grows env r r' \<longleftrightarrow> (\<exists>revision status now. is_pending (apr_status r) \<and> \<not> is_pending status \<and>
     unat revision = Suc (unat (apr_revision r)) \<and>
     r' = r\<lparr>apr_revision := revision, apr_status := status, apr_settled_at_ms := Some now\<rparr> \<and>
     validate_record env r' = Inr () \<and>
     (\<forall>d a. status = ApSettled d a \<longrightarrow> a \<noteq> aq_requested_by (apr_request r) \<and> valid_actor_shape a \<and> a \<noteq> UnattributedLegacy))"

lemma approval_growsI:
  "is_pending (apr_status r) \<Longrightarrow> \<not> is_pending status \<Longrightarrow> unat revision = Suc (unat (apr_revision r)) \<Longrightarrow>
   validate_record env (r\<lparr>apr_revision := revision, apr_status := status, apr_settled_at_ms := Some now\<rparr>) = Inr () \<Longrightarrow>
   (\<And>d a. status = ApSettled d a \<Longrightarrow> a \<noteq> aq_requested_by (apr_request r) \<and> valid_actor_shape a \<and> a \<noteq> UnattributedLegacy) \<Longrightarrow>
   approval_grows env r (r\<lparr>apr_revision := revision, apr_status := status, apr_settled_at_ms := Some now\<rparr>)"
  unfolding approval_grows_def by blast

lemma ap_validate_authority_ok [ok_iff]: "ap_validate_authority authority = Inr u \<longleftrightarrow> valid_authority authority"
  by (simp add: ap_validate_authority_def map_err_eq_Inr authority_validate_current_ok)

lemma ap_authority_accepted [simp]: "valid_authority authority \<Longrightarrow> ap_validate_authority authority = Inr ()"
  by (simp add: ap_validate_authority_ok)

lemma filter_tenant_simps [simp]: "filter_tenant t None = None"
  "filter_tenant t (Some r) = (if apr_tenant_id r = t then Some r else None)"
  by (simp_all add: filter_tenant_def)

lemma matching_request_ok [ok_iff]:
  "matching_request existing request tenant = Inr r \<longleftrightarrow>
     r = existing \<and> apr_request existing = request \<and> apr_tenant_id existing = tenant"
  by (auto simp: matching_request_def)

lemma filter_tenant_Some [simp]:
  "filter_tenant tenant found = Some r \<longleftrightarrow> found = Some r \<and> apr_tenant_id r = tenant"
  by (cases found) (auto simp: filter_tenant_def)

lemma submit_as_okE:
  assumes "submit_as env records now request authority = Inr (records', r)"
  obtains (known) "bm_get records (aq_id request) = Some r" "records' = records" "apr_request r = request"
      "apr_tenant_id r = tenant_id authority" "valid_authority authority" "aq_requested_by request = actor authority"
  | (fresh) "bm_get records (aq_id request) = None" "r = new_record now request (tenant_id authority)"
      "records' = bm_insert (aq_id request) r records" "valid_authority authority"
      "aq_requested_by request = actor authority" "validate_record env r = Inr ()"
      "enforce_turn_capacity (bm_values records) request (tenant_id authority) = Inr ()"
  using assms
  by (auto simp: submit_as_def ok_iff validate_submission_authority_def Let_def new_record_def split: option.splits if_splits)

lemma settle_record_grows:
  assumes "settle_record env now r expected decision decided_by = Inr r'"
  shows "approval_grows env r r'" and "apr_revision r = expected" and "apr_status r' = ApSettled decision decided_by"
proof -
  from assms obtain revision where facts: "apr_revision r = expected" "is_pending (apr_status r)"
    "valid_actor_shape decided_by" "decided_by \<noteq> UnattributedLegacy" "aq_requested_by (apr_request r) \<noteq> decided_by"
    "unat revision = Suc (unat (apr_revision r))"
    "r' = r\<lparr>apr_revision := revision, apr_status := ApSettled decision decided_by, apr_settled_at_ms := Some now\<rparr>"
    "validate_record env r' = Inr ()"
    by (auto simp: settle_record_def ok_iff checked_add_Some Let_def split: if_splits)
  then show "apr_revision r = expected" "apr_status r' = ApSettled decision decided_by" by simp_all
  show "approval_grows env r r'" unfolding facts(7) by (rule approval_growsI) (use facts in auto)
qed

lemma orphan_record_grows:
  assumes "orphan_record env now reason r = Inr r'" and "is_pending (apr_status r)"
  shows "approval_grows env r r'" and "apr_status r' = ApOrphaned reason"
proof -
  from assms obtain revision where facts: "unat revision = Suc (unat (apr_revision r))"
    "r' = r\<lparr>apr_revision := revision, apr_status := ApOrphaned reason, apr_settled_at_ms := Some now\<rparr>"
    "validate_record env r' = Inr ()"
    by (auto simp: orphan_record_def ok_iff checked_add_Some Let_def split: if_splits)
  then show "apr_status r' = ApOrphaned reason" by simp
  show "approval_grows env r r'" unfolding facts(2) by (rule approval_growsI) (use facts assms(2) in auto)
qed

text \<open>What the loop over the records leaves: each record as it was, or orphaned.\<close>

definition orphaned_or_same ::
  "approval_env \<Rightarrow> string \<Rightarrow> (approval_record \<Rightarrow> bool) \<Rightarrow> approval_record \<Rightarrow> approval_record \<Rightarrow> bool" where
  "orphaned_or_same env reason chosen r r' \<longleftrightarrow>
     r' = r \<or> chosen r \<and> approval_grows env r r' \<and> apr_status r' = ApOrphaned reason"

lemma orphan_loop_records:
  assumes "orphan_loop env clock reason chosen records changed = (records', res)"
    and "\<And>r. chosen r \<Longrightarrow> is_pending (apr_status r)"
  shows "list_all2 (\<lambda>e e'. fst e' = fst e \<and> orphaned_or_same env reason chosen (snd e) (snd e')) records records'"
  using assms(1)
proof (induction records arbitrary: changed records' res)
  case (Cons e records)
  let ?R = "\<lambda>e e'. fst e' = fst e \<and> orphaned_or_same env reason chosen (snd e) (snd e')"
  obtain i r where e: "e = (i, r)" by (rule prod.exhaust)
  have same: "list_all2 ?R xs xs" for xs by (rule list_all2_refl) (simp add: orphaned_or_same_def)
  have rest: "list_all2 ?R records (fst (orphan_loop env clock reason chosen records n))" for n
    by (rule Cons.IH [OF prod.collapse [symmetric]])
  show ?case
  proof (cases "chosen r")
    case True
    then have "orphaned_or_same env reason chosen r r'" if "orphan_record env (clock i) reason r = Inr r'" for r'
      using orphan_record_grows [OF that assms(2)] by (simp add: orphaned_or_same_def)
    with Cons.prems True rest same show ?thesis by (auto simp: e Let_def split_def split: sum.splits)
  next
    case False
    with Cons.prems rest show ?thesis by (auto simp: e Let_def split_def orphaned_or_same_def)
  qed
qed simp

lemma list_all2_map_of:
  assumes "list_all2 (\<lambda>e e'. fst e' = fst e \<and> Q (snd e) (snd e')) xs ys"
  shows "rel_option Q (map_of xs k) (map_of ys k)"
  using assms by (induction xs ys rule: list_all2_induct) auto

lemma orphan_turn_records:
  assumes "orphan_turn_as env records clock thread_id turn_id reason authority = (records', res)"
  shows "list_all2 (\<lambda>e e'. fst e' = fst e \<and> orphaned_or_same env reason
    (\<lambda>r. same_turn r (tenant_id authority) thread_id turn_id \<and> is_pending (apr_status r)) (snd e) (snd e')) records records'"
proof (cases "and_then (ap_validate_identity thread_id) (\<lambda>_. and_then (ap_validate_identity turn_id) (\<lambda>_.
    and_then (ap_validate_reason reason) (\<lambda>_. ap_validate_authority authority)))")
  case (Inl e)
  with assms show ?thesis by (auto simp: orphan_turn_as_def orphaned_or_same_def intro: list_all2_refl)
next
  case (Inr u)
  with assms show ?thesis by (intro orphan_loop_records) (auto simp: orphan_turn_as_def)
qed

lemma orphan_turn_entry:
  assumes "orphan_turn_as env records clock thread_id turn_id reason authority = (records', res)"
  shows "rel_option (orphaned_or_same env reason (\<lambda>r. same_turn r (tenant_id authority) thread_id turn_id \<and> is_pending (apr_status r)))
      (bm_get records k) (bm_get records' k)"
    and "map fst records' = map fst records"
  using orphan_turn_records [OF assms]
  by (auto simp: bm_get_def list_all2_map_of list_all2_conv_all_nth intro: nth_equalityI)

lemma settle_as_okE:
  assumes "settle_as env records now approval_id expected decision authority = Inr (records', r')"
  obtains r where "bm_get records approval_id = Some r" "apr_tenant_id r = tenant_id authority"
    "settle_record env now r expected decision (actor authority) = Inr r'" "records' = bm_insert approval_id r' records"
    "valid_authority authority"
  using assms by (auto simp: settle_as_def ok_iff)

interpretation inbox: journal_store bm_get apr_revision "inbox_step env" "inbox_commits env"
  "\<lambda>r. if is_pending (apr_status r) then 1 else 2" "[]" "approval_born env" "approval_grows env" for env
proof
  show "bm_get [] k = None" for k by (simp add: bm_get_def)
  show "bm_get s' k = bm_get s k \<or> (\<exists>a'. bm_get s k = None \<and> bm_get s' k = Some a' \<and> approval_born env k a') \<or>
      (\<exists>a a'. bm_get s k = Some a \<and> bm_get s' k = Some a' \<and> approval_grows env a a')"
    if "inbox_step env s s'" for s s' k
    using that
  proof cases
    case (request_submitted now request authority r)
    then show ?thesis
      by (cases rule: submit_as_okE) (auto simp: bm_get_insert approval_born_def)
  next
    case (request_settled now approval_id revision decision authority r)
    then show ?thesis
      by (cases rule: settle_as_okE) (auto simp: bm_get_insert dest: settle_record_grows(1))
  next
    case (turn_orphaned clock thread_id turn_id reason authority res)
    from orphan_turn_entry(1) [OF this, of k] show ?thesis
      by (cases "bm_get s k"; cases "bm_get s' k") (auto simp: orphaned_or_same_def)
  qed
  show "apr_revision a = 1 \<and> (if is_pending (apr_status a) then 1 else 2) = 1" if "approval_born env k a" for k a
    using that by (auto simp: approval_born_def new_record_def)
  show "unat (apr_revision a') = Suc (unat (apr_revision a)) \<and>
      (if is_pending (apr_status a') then 1 else 2) = Suc (if is_pending (apr_status a) then 1 else 2)"
    if "approval_grows env a a'" for a a'
    using that by (auto simp: approval_grows_def)
  show "inbox_step env s s'" if "inbox_commits env s k r s'" for s k r s'
    using that by (auto simp: inbox_commits_def intro: inbox_step.intros)
  show "\<exists>a a'. bm_get s k = Some a \<and> apr_revision a = r \<and> bm_get s' k = Some a' \<and> approval_grows env a a'"
    if "inbox_commits env s k r s'" for s k r s'
    using that unfolding inbox_commits_def
    by (auto elim!: settle_as_okE simp: bm_get_insert dest: settle_record_grows)
qed

lemma inbox_wf: "(inbox_step env)\<^sup>*\<^sup>* [] records \<Longrightarrow> bm_wf records"
proof (induction rule: rtranclp_induct)
  case base
  show ?case by (rule bm.invar_empty)
next
  case (step t u)
  from step.hyps(2) show ?case
  proof cases
    case (request_submitted now request authority r)
    then show ?thesis using step.IH by (cases rule: submit_as_okE) (simp_all add: bm_wf_insert)
  next
    case (request_settled now approval_id revision decision authority r)
    then show ?thesis using step.IH by (cases rule: settle_as_okE) (simp add: bm_wf_insert)
  next
    case (turn_orphaned clock thread_id turn_id reason authority res)
    from orphan_turn_entry(2) [OF this] step.IH show ?thesis by (simp add: bm_wf_def)
  qed
qed

text \<open>What holds of every record of an inbox that was built by its operations.\<close>

definition approval_entry_ok :: "approval_env \<Rightarrow> string \<Rightarrow> approval_record \<Rightarrow> bool" where
  "approval_entry_ok env i r \<longleftrightarrow> aq_id (apr_request r) = i \<and> validate_record env r = Inr () \<and>
     valid_tenant (apr_tenant_id r) \<and> aq_requested_by (apr_request r) \<noteq> UnattributedLegacy \<and>
     apr_revision r = (if is_pending (apr_status r) then 1 else 2) \<and>
     (\<forall>d a. apr_status r = ApSettled d a \<longrightarrow> a \<noteq> aq_requested_by (apr_request r) \<and> valid_actor_shape a \<and> a \<noteq> UnattributedLegacy)"

lemma inbox_entries:
  assumes "(inbox_step env)\<^sup>*\<^sup>* [] records" and "bm_get records i = Some r"
  shows "approval_entry_ok env i r"
  using assms
proof (rule inbox.entry_invariant)
  show "approval_entry_ok env i r" if "approval_born env i r" for r
    using that by (auto simp: approval_born_def approval_entry_ok_def new_record_def valid_authority_def)
  show "approval_entry_ok env i r'" if ok: "approval_entry_ok env i r" and grows: "approval_grows env r r'" for r r'
  proof -
    from grows obtain revision status now where r': "is_pending (apr_status r)" "\<not> is_pending status"
      "unat revision = Suc (unat (apr_revision r))"
      "r' = r\<lparr>apr_revision := revision, apr_status := status, apr_settled_at_ms := Some now\<rparr>"
      "validate_record env r' = Inr ()"
      "\<forall>d a. status = ApSettled d a \<longrightarrow> a \<noteq> aq_requested_by (apr_request r) \<and> valid_actor_shape a \<and> a \<noteq> UnattributedLegacy"
      unfolding approval_grows_def by blast
    from next_revision [OF r'(3)] ok r'(1) have "revision = 2" by (simp add: approval_entry_ok_def)
    with ok r' show ?thesis unfolding approval_entry_ok_def by auto
  qed
qed

lemma terminal_final:
  assumes "(inbox_step env)\<^sup>*\<^sup>* s s'" and "bm_get s i = Some r" and "\<not> is_pending (apr_status r)"
  shows "bm_get s' i = Some r"
  using inbox.entry_evolves [OF assms(1,2), of "\<lambda>a b. b = a"] assms(3) by (auto simp: approval_grows_def)

section \<open>Bounded selection\<close>

text \<open>
  \<open>pending_as\<close> keeps at most \<open>limit\<close> records while it reads. The reference is to sort all records and take the
  first: the two agree because cutting a sorted list at the limit commutes with inserting.
\<close>

lemma take_insert_position:
  assumes "sorted_wrt (<) (map f xs)" and "f x \<notin> f ` set xs" and "position = length (takeWhile (\<lambda>y. f y < f x) xs)"
  shows "take position xs @ x # drop position xs = insort_key f x xs"
  using assms
proof (induction xs arbitrary: position)
  case (Cons y ys)
  then show ?case by (cases "f y < f x") (auto simp: not_less le_less)
qed simp

lemma insort_key_strict:
  "sorted_wrt (<) (map f xs) \<Longrightarrow> f x \<notin> f ` set xs \<Longrightarrow> sorted_wrt (<) (map f (insort_key f x xs))"
  by (induction xs) (auto simp: set_insort_key)

lemma take_insort_key:
  "sorted_wrt (<) (map f xs) \<Longrightarrow> f x \<notin> f ` set xs \<Longrightarrow>
   take n (insort_key f x (take n xs)) = take n (insort_key f x xs)"
proof (induction xs arbitrary: n)
  case (Cons y ys)
  then show ?case by (cases n) (auto simp: take_Cons' min_def)
qed simp

lemma select_pending_eq:
  assumes sorted: "sorted_wrt (<) (map pending_key xs)" and fresh: "pending_key r \<notin> pending_key ` set xs"
  shows "select_pending limit (take limit xs) r = take limit (insort_key pending_key r xs)"
proof -
  let ?s = "take limit xs" and ?p = "length (takeWhile (\<lambda>e. pending_key e < pending_key r) (take limit xs))"
  have s: "sorted_wrt (<) (map pending_key ?s)" "pending_key r \<notin> pending_key ` set ?s"
    using sorted fresh by (auto simp: take_map [symmetric] intro: sorted_wrt_take dest: in_set_takeD)
  note ins = take_insert_position [OF s refl]
  have len: "length (insort_key pending_key r ?s) = Suc (length ?s)" by simp
  show ?thesis
  proof (cases "?p < limit")
    case True
    then have "select_pending limit ?s r = take limit (insort_key pending_key r ?s)"
      unfolding select_pending_def Let_def ins using len
      by (auto simp: butlast_conv_take min_def less_Suc_eq_le simp del: length_insort dest: le_antisym)
    then show ?thesis using take_insort_key [OF sorted fresh] by simp
  next
    case False
    have "?p \<le> length ?s" "length ?s \<le> limit" by (rule length_takeWhile_le) simp
    with False have full: "?p = limit" "length ?s = limit" by linarith+
    with ins have "insort_key pending_key r ?s = ?s @ [r]" by simp
    then have "take limit (insort_key pending_key r ?s) = ?s" using full(2) by simp
    with False show ?thesis using take_insort_key [OF sorted fresh, of limit] by (simp add: select_pending_def)
  qed
qed

lemma select_pending_fold:
  assumes "distinct (map pending_key (rs @ xs))" and "sorted_wrt (<) (map pending_key xs)"
  shows "fold (\<lambda>r selected. select_pending limit selected r) rs (take limit xs) =
    take limit (fold (insort_key pending_key) rs xs)"
  using assms
proof (induction rs arbitrary: xs)
  case (Cons r rs)
  then have fresh: "pending_key r \<notin> pending_key ` set xs" by auto
  have "fold (\<lambda>r selected. select_pending limit selected r) rs (take limit (insort_key pending_key r xs)) =
      take limit (fold (insort_key pending_key) rs (insort_key pending_key r xs))"
    by (rule Cons.IH) (use Cons.prems fresh in \<open>auto simp: insort_key_strict set_insort_key distinct_insort_key\<close>)
  with Cons.prems fresh show ?case by (simp add: select_pending_eq)
qed simp

lemma inbox_keys_distinct:
  assumes "(inbox_step env)\<^sup>*\<^sup>* [] records"
  shows "distinct (map pending_key (bm_values records))"
proof -
  have wf: "bm_wf records" by (rule inbox_wf [OF assms])
  have "aq_id (apr_request (snd e)) = fst e" if "e \<in> set records" for e
  proof -
    from that have "bm_get records (fst e) = Some (snd e)" by (simp add: bm.get_Some_iff [OF wf])
    from inbox_entries [OF assms this] show ?thesis by (simp add: approval_entry_ok_def)
  qed
  then have "map (snd \<circ> pending_key) (bm_values records) = map fst records"
    by (simp add: bm_values_def pending_key_def)
  moreover have "distinct (map fst records)" using wf by (simp add: bm_wf_def strict_sorted_iff)
  ultimately have "distinct (map snd (map pending_key (bm_values records)))" by simp
  then show ?thesis using distinct_map by blast
qed

section \<open>Turns\<close>

definition turn_records :: "approval_inbox \<Rightarrow> string option \<Rightarrow> string \<Rightarrow> string \<Rightarrow> approval_record list" where
  "turn_records records tenant thread_id turn_id = filter (\<lambda>r. same_turn r tenant thread_id turn_id) (bm_values records)"

lemma bm_values_insert_new:
  "bm_get m k = None \<Longrightarrow> length (filter P (bm_values (bm_insert k v m))) = length (filter P (bm_values m)) + (if P v then 1 else 0)"
  by (induction k v m rule: bm_insert.induct) (auto simp: bm_values_def bm_get_def split: if_splits)

lemma bm_values_insert_known:
  "bm_get m k = Some v \<Longrightarrow> bm_wf m \<Longrightarrow> P v' = P v \<Longrightarrow>
   length (filter P (bm_values (bm_insert k v' m))) = length (filter P (bm_values m))"
proof (induction m)
  case (Cons e m)
  have "bm_get m k = None" if "k < fst e"
    using that Cons.prems(2) by (auto simp: bm_get_def bm_wf_def map_of_eq_None_iff)
  with Cons show ?case by (cases e) (auto simp: bm_get_def bm_wf_def bm_values_def split: if_splits)
qed (simp add: bm_get_def)

lemma grows_same_turn: "approval_grows env r r' \<Longrightarrow> same_turn r' tenant thread_id turn_id = same_turn r tenant thread_id turn_id"
  by (auto simp: approval_grows_def same_turn_def)

lemma turn_capacity:
  "(inbox_step env)\<^sup>*\<^sup>* [] records \<Longrightarrow> length (turn_records records tenant thread_id turn_id) \<le> MAX_APPROVALS_PER_TURN"
proof (induction rule: rtranclp_induct)
  case base
  show ?case by (simp add: turn_records_def bm_values_def)
next
  case (step s s')
  note wf = inbox_wf [OF step.hyps(1)]
  from step.hyps(2) show ?case
  proof cases
    case (request_submitted now request authority r)
    then show ?thesis
    proof (cases rule: submit_as_okE)
      case fresh
      from fresh(7) have "length (turn_records s (tenant_id authority) (au_thread_id (aq_authorization request))
          (au_turn_id (aq_authorization request))) < MAX_APPROVALS_PER_TURN"
        by (simp add: enforce_turn_capacity_def turn_records_def split: if_splits)
      with step.IH fresh(1-3) show ?thesis
        by (auto simp: turn_records_def bm_values_insert_new same_turn_def new_record_def)
    qed (use step.IH in simp)
  next
    case (request_settled now approval_id revision decision authority r')
    then show ?thesis
    proof (cases rule: settle_as_okE)
      case (1 r)
      then show ?thesis
        using step.IH grows_same_turn [OF settle_record_grows(1) [OF 1(3)]]
        by (simp add: turn_records_def bm_values_insert_known [OF 1(1) wf])
    qed
  next
    case (turn_orphaned clock th tu reason authority res)
    have "list_all2 (\<lambda>e e'. same_turn (snd e) tenant thread_id turn_id = same_turn (snd e') tenant thread_id turn_id) s s'"
      using orphan_turn_records [OF turn_orphaned]
      by (rule list_all2_mono) (auto simp: orphaned_or_same_def dest: grows_same_turn)
    then have "length (turn_records s tenant thread_id turn_id) = length (turn_records s' tenant thread_id turn_id)"
      unfolding turn_records_def bm_values_def by (induction s s' rule: list_all2_induct) auto
    with step.IH show ?thesis by simp
  qed
qed

section \<open>Orphaning a Turn\<close>

lemma validate_record_ok:
  "validate_record env r = Inr u \<longleftrightarrow> apr_schema_version r = APPROVAL_INBOX_SCHEMA_VERSION \<and> apr_revision r \<noteq> 0 \<and>
     ap_validate_request env (apr_request r) = Inr () \<and> valid_tenant (apr_tenant_id r) \<and>
     \<not> (aq_requested_by (apr_request r) = UnattributedLegacy \<and> is_pending (apr_status r)) \<and>
     validate_record_status r = Inr () \<and>
     (\<exists>b. to_vec (ae_record env) r = Some b \<and> length b \<le> (if is_pending (apr_status r)
        then MAX_APPROVAL_RECORD_BYTES - APPROVAL_TERMINAL_RECORD_RESERVE_BYTES else MAX_APPROVAL_RECORD_BYTES))"
proof -
  have size: "map_err approval_json_error (bounded_serialized_size (ae_record env) r m) = Inr n \<longleftrightarrow>
      (\<exists>b. to_vec (ae_record env) r = Some b \<and> length b = n \<and> n \<le> m)" if "m < 2 ^ 64" for m n
    using that by (simp add: map_err_eq_Inr bounded_serialized_size_ok)
  have tenant: "(case apr_tenant_id r of None \<Rightarrow> Inr () | Some t \<Rightarrow> map_err (\<lambda>_. Approval Ap_tenant) (validate_tenant_id t)) = Inr () \<longleftrightarrow>
      valid_tenant (apr_tenant_id r)"
    by (cases "apr_tenant_id r") (simp_all add: map_err_eq_Inr validate_tenant_id_ok)
  show ?thesis
    unfolding validate_record_def Let_def
    by (auto simp: and_then_eq_Inr tenant size approval_limits)
qed

text \<open>
  The reserve of a pending record holds the terminal form: what the code relies on of the encoder. It is so when the
  encoded reason is not longer than the reason itself by more than the rest of the reserve.
\<close>

definition reserve_covers :: "approval_env \<Rightarrow> string \<Rightarrow> bool" where
  "reserve_covers env reason \<longleftrightarrow> (\<forall>r b revision now. apr_status r = ApPending \<longrightarrow> to_vec (ae_record env) r = Some b \<longrightarrow>
     (\<exists>b'. to_vec (ae_record env) (r\<lparr>apr_revision := revision, apr_status := ApOrphaned reason, apr_settled_at_ms := Some now\<rparr>) = Some b' \<and>
       length b' \<le> length b + APPROVAL_TERMINAL_RECORD_RESERVE_BYTES))"

definition orphaned_form :: "string \<Rightarrow> u64 \<Rightarrow> approval_record \<Rightarrow> approval_record" where
  "orphaned_form reason now r = r\<lparr>apr_revision := 2, apr_status := ApOrphaned reason, apr_settled_at_ms := Some now\<rparr>"

lemma orphan_record_total:
  assumes ok: "approval_entry_ok env i r" and pending: "is_pending (apr_status r)"
    and reason: "ap_validate_reason reason = Inr ()" and covers: "reserve_covers env reason"
  shows "orphan_record env now reason r = Inr (orphaned_form reason now r)"
proof -
  from pending have status: "apr_status r = ApPending" by (cases "apr_status r") auto
  from ok pending have valid: "validate_record env r = Inr ()" "apr_revision r = 1" by (simp_all add: approval_entry_ok_def)
  from valid(1) obtain b where b: "to_vec (ae_record env) r = Some b"
    "length b \<le> MAX_APPROVAL_RECORD_BYTES - APPROVAL_TERMINAL_RECORD_RESERVE_BYTES"
    using pending by (auto simp: validate_record_ok)
  from covers status b(1) obtain b' where b': "to_vec (ae_record env) (orphaned_form reason now r) = Some b'"
    "length b' \<le> length b + APPROVAL_TERMINAL_RECORD_RESERVE_BYTES"
    unfolding reserve_covers_def orphaned_form_def by blast
  have "validate_record env (orphaned_form reason now r) = Inr ()"
    unfolding validate_record_ok
    using valid b b' reason pending
    by (auto simp: validate_record_ok orphaned_form_def validate_record_status_def approval_limits)
  then show ?thesis
    using pending valid(2) by (simp add: orphan_record_def orphaned_form_def checked_add_def Let_def)
qed

lemma orphan_loop_total:
  assumes "\<And>i r. (i, r) \<in> set records \<Longrightarrow> chosen r \<Longrightarrow> orphan_record env (clock i) reason r = Inr (g i r)"
    and "changed + length (filter chosen (bm_values records)) < 2 ^ 64"
  shows "orphan_loop env clock reason chosen records changed =
    (map (\<lambda>(i, r). (i, if chosen r then g i r else r)) records, Inr (changed + length (filter chosen (bm_values records))))"
  using assms
proof (induction records arbitrary: changed)
  case (Cons e records)
  obtain i r where e: "e = (i, r)" by (rule prod.exhaust)
  have IH: "orphan_loop env clock reason chosen records n = (map (\<lambda>(i, r). (i, if chosen r then g i r else r)) records,
      Inr (n + length (filter chosen (bm_values records))))" if "n + length (filter chosen (bm_values records)) < 2 ^ 64" for n
    by (rule Cons.IH) (use Cons.prems that in auto)
  show ?case
  proof (cases "chosen r")
    case True
    with Cons.prems(2) have small: "Suc changed + length (filter chosen (bm_values records)) < 2 ^ 64"
      by (simp add: e bm_values_def)
    then have "usize_saturating_add changed 1 = Suc changed" by (simp add: usize_saturating_add_def)
    with True Cons.prems(1) [of i r] IH [OF small] show ?thesis by (simp add: e bm_values_def)
  next
    case False
    with Cons.prems(2) IH [of changed] show ?thesis by (simp add: e bm_values_def)
  qed
qed (simp add: bm_values_def)

section \<open>Polling\<close>

declare decide_loop.simps [simp del]

lemma decide_loop_cases [simp]:
  "apr_status r = ApSettled decision who \<Longrightarrow> decide_loop authority r later = Some (Inr decision)"
  "apr_status r = ApOrphaned reason \<Longrightarrow> decide_loop authority r later = Some (Inl (Approval (Ap_orphaned reason)))"
  "apr_status r = ApPending \<Longrightarrow> decide_loop authority r [] = None"
  "apr_status r = ApPending \<Longrightarrow> decide_loop authority r (records # later') =
     (case and_then (get_as records (aq_id (apr_request r)) authority) (ok_or (Approval Ap_disappeared)) of
        Inl e \<Rightarrow> Some (Inl e) | Inr r' \<Rightarrow> decide_loop authority r' later')"
  by (simp_all add: decide_loop.simps [of authority r])

lemma decide_loop_settled:
  assumes "decide_loop authority r later = Some (Inr d)" and "bm_get records i = Some r" and "aq_id (apr_request r) = i"
    and "apr_tenant_id r = tenant_id authority"
    and "\<And>s r'. s \<in> set later \<Longrightarrow> bm_get s i = Some r' \<Longrightarrow> aq_id (apr_request r') = i"
  shows "\<exists>s\<in>insert records (set later). \<exists>r' a. bm_get s i = Some r' \<and> apr_tenant_id r' = tenant_id authority \<and>
    apr_status r' = ApSettled d a"
  using assms
proof (induction later arbitrary: r records)
  case Nil
  then show ?case by (cases "apr_status r") auto
next
  case (Cons s later)
  show ?case
  proof (cases "apr_status r")
    case ApPending
    with Cons.prems(1,3) obtain r' where r': "bm_get s i = Some r'" "apr_tenant_id r' = tenant_id authority"
      "decide_loop authority r' later = Some (Inr d)"
      by (auto simp: get_as_def ok_iff split: sum.splits)
    have "\<exists>s'\<in>insert s (set later). \<exists>r' a. bm_get s' i = Some r' \<and> apr_tenant_id r' = tenant_id authority \<and>
        apr_status r' = ApSettled d a"
      by (rule Cons.IH [OF r'(3,1) _ r'(2)]) (use Cons.prems(5) r'(1) in auto)
    then show ?thesis by auto
  qed (use Cons.prems in auto)
qed

lemma decide_loop_returns:
  assumes "s \<in> set later" and "bm_get s i = Some r'" and "\<not> is_pending (apr_status r')" and "aq_id (apr_request r) = i"
    and "\<And>s r'. s \<in> set later \<Longrightarrow> bm_get s i = Some r' \<Longrightarrow> aq_id (apr_request r') = i"
  shows "decide_loop authority r later \<noteq> None"
  using assms
proof (induction later arbitrary: r)
  case (Cons t later)
  show ?case
  proof (cases "and_then (get_as t i authority) (ok_or (Approval Ap_disappeared))")
    case (Inl e)
    with Cons.prems(4) show ?thesis by (cases "apr_status r") auto
  next
    case (Inr q)
    then have q: "bm_get t i = Some q" by (auto simp: get_as_def ok_iff)
    have "decide_loop authority q later \<noteq> None"
    proof (cases "s = t")
      case True
      with q Cons.prems(2,3) show ?thesis by (cases "apr_status q") auto
    next
      case False
      with Cons.prems q show ?thesis by (intro Cons.IH) auto
    qed
    with Inr Cons.prems(4) show ?thesis by (cases "apr_status r") auto
  qed
qed simp

lemma request_kept:
  assumes "(inbox_step env)\<^sup>*\<^sup>* s s'" and "bm_get s i = Some r"
  shows "\<exists>r'. bm_get s' i = Some r' \<and> apr_request r' = apr_request r \<and> apr_tenant_id r' = apr_tenant_id r"
proof (rule inbox.entry_evolves [OF assms, where Q = "\<lambda>a b. apr_request b = apr_request a \<and> apr_tenant_id b = apr_tenant_id a"])
  fix b c
  assume "apr_request b = apr_request r \<and> apr_tenant_id b = apr_tenant_id r" "approval_grows env b c"
  then show "apr_request c = apr_request r \<and> apr_tenant_id c = apr_tenant_id r"
    unfolding approval_grows_def by (elim exE conjE) simp
qed simp

section \<open>A concrete inbox\<close>

definition demo_approval_env :: approval_env where
  "demo_approval_env = \<lparr>ae_request = (\<lambda>q. ([aq_id q], True)), ae_record = (\<lambda>r. ([ap_status_name (apr_status r)], True)),
     ae_parse = (\<lambda>s. None)\<rparr>"

definition demo_ask :: approval_request where
  "demo_ask = \<lparr>aq_id = ''ask'', aq_requested_by = LocalProcess, aq_authorization = \<lparr>au_thread_id = ''t'', au_turn_id = ''u'',
     au_call_id = ''call'', au_descriptor = \<lparr>tde_name = ''tool'', tde_description = ''does'', tde_input_schema = Null\<rparr>,
     au_origin = BuiltIn, au_input = Null\<rparr>, aq_reason = ''why'', aq_risk = Low\<rparr>"

definition demo_settler :: authority_context where
  "demo_settler = \<lparr>actor = Authenticated ''org'' ''ann'', tenant_id = None\<rparr>"

definition demo_asked :: approval_record where "demo_asked = new_record 5 demo_ask None"

definition demo_approved :: approval_record where
  "demo_approved = demo_asked\<lparr>apr_revision := 2, apr_status := ApSettled Approve (Authenticated ''org'' ''ann''),
     apr_settled_at_ms := Some 6\<rparr>"

definition demo_inbox :: "approval_record \<Rightarrow> approval_inbox" where "demo_inbox r = [(''ask'', r)]"

lemma demo_to_vec [simp]: "to_vec (ae_record demo_approval_env) r = Some (ap_status_name (apr_status r))"
  by (simp add: demo_approval_env_def to_vec_def)

lemma demo_ask_valid: "ap_validate_request demo_approval_env demo_ask = Inr ()"
proof -
  have "map_err approval_json_error (bounded_serialized_size (ae_request demo_approval_env) demo_ask MAX_APPROVAL_RECORD_BYTES) = Inr 3"
    by (simp add: map_err_eq_Inr bounded_serialized_size_ok approval_limits) (simp add: demo_approval_env_def to_vec_def demo_ask_def)
  moreover have "validate_value_shape Null = Inr ()" by (simp add: validate_value_shape_eq MAX_JSON_DEPTH_def MAX_JSON_NODES_def)
  ultimately show ?thesis
    by (simp add: ap_validate_request_def demo_ask_def ap_validate_identity_def ap_validate_reason_def string_eval
        validate_capability_name_def validate_shape_def approval_limits)
qed

lemma demo_asked_valid: "validate_record demo_approval_env demo_asked = Inr ()"
  by (simp add: validate_record_ok demo_asked_def new_record_def demo_ask_valid APPROVAL_INBOX_SCHEMA_VERSION_def
      validate_record_status_def approval_limits) (simp add: demo_ask_def)

lemma demo_approved_valid: "validate_record demo_approval_env demo_approved = Inr ()"
  by (simp add: validate_record_ok demo_approved_def demo_asked_def new_record_def demo_ask_valid
      APPROVAL_INBOX_SCHEMA_VERSION_def validate_record_status_def approval_limits validate_shape_def
      validate_actor_identity_def string_eval) (simp add: demo_ask_def)

lemma demo_settler_valid [simp]: "valid_authority demo_settler" "actor demo_settler = Authenticated ''org'' ''ann''"
  "tenant_id demo_settler = None"
  by (simp_all add: demo_settler_def valid_authority_def valid_actor_shape_def validate_actor_identity_def string_eval)

lemma parser_irrelevant [simp]: "validate_record (env\<lparr>ae_parse := p\<rparr>) r = validate_record env r"
proof -
  obtain f g h where "env = \<lparr>ae_request = f, ae_record = g, ae_parse = h\<rparr>" by (cases env)
  then show ?thesis
    by (simp only: validate_record_def ap_validate_request_def approval_env.update_convs approval_env.select_convs)
qed

lemma demo_submitted: "submit_as demo_approval_env [] 5 demo_ask local_process = Inr (demo_inbox demo_asked, demo_asked)"
proof -
  have "validate_current_request demo_approval_env demo_ask = Inr ()"
    by (simp add: validate_current_request_def demo_ask_valid) (simp add: demo_ask_def actor_validate_current_ok valid_actor_shape_def)
  then show ?thesis
    using demo_asked_valid
    by (simp add: submit_as_def validate_submission_authority_def ap_validate_authority_def demo_asked_def demo_inbox_def bm_get_def
        enforce_turn_capacity_def bm_values_def approval_limits Let_def) (simp add: demo_ask_def new_record_def)
qed

lemma demo_settled: "settle_as demo_approval_env (demo_inbox demo_asked) 6 ''ask'' 1 Approve demo_settler =
  Inr (demo_inbox demo_approved, demo_approved)"
proof -
  have "settle_record demo_approval_env 6 demo_asked 1 Approve (Authenticated ''org'' ''ann'') = Inr demo_approved"
    using demo_approved_valid
    by (simp add: settle_record_def demo_approved_def demo_asked_def new_record_def demo_ask_def checked_add_def Let_def
        actor_validate_current_def validate_current_message_def validate_actor_identity_def string_eval)
  then show ?thesis
    by (simp add: settle_as_def ap_validate_identity_def string_eval demo_inbox_def bm_get_def)
      (simp add: demo_asked_def new_record_def)
qed

lemma demo_inbox_reachable:
  "(inbox_step demo_approval_env)\<^sup>*\<^sup>* [] (demo_inbox demo_asked)"
  "(inbox_step demo_approval_env)\<^sup>*\<^sup>* (demo_inbox demo_asked) (demo_inbox demo_approved)"
  by (rule r_into_rtranclp, rule request_submitted [OF demo_submitted])
    (rule r_into_rtranclp, rule request_settled [OF demo_settled])

section \<open>Properties\<close>

text \<open>
  C32: A settlement is final. Once a request was settled, every later read of its tenant returns exactly this record, and no
  later call settles it again, whoever calls with whatever revision and decision: of the competing settlers one wins, and
  abandoning the Turn afterwards does not undo it.
\<close>

theorem approval_settlement_final:
  assumes settled: "settle_as env s now approval_id revision decision authority = Inr (s1, r)"
    and later: "(inbox_step env)\<^sup>*\<^sup>* s1 s2"
    and reader: "valid_authority reader" "tenant_id reader = tenant_id authority"
  shows "apr_status r = ApSettled decision (actor authority) \<and> get_as s2 approval_id reader = Inr (Some r) \<and>
    (\<nexists>t r'. settle_as env s2 now' approval_id revision' decision' authority' = Inr (t, r'))"
proof -
  from settled obtain r0 where r0: "bm_get s approval_id = Some r0" "apr_tenant_id r0 = tenant_id authority"
    "settle_record env now r0 revision decision (actor authority) = Inr r" "s1 = bm_insert approval_id r s"
    by (rule settle_as_okE)
  note grown = settle_record_grows [OF r0(3)]
  have final: "bm_get s2 approval_id = Some r"
    using later by (rule terminal_final) (simp_all add: r0(4) bm_get_insert grown(3))
  have "ap_validate_identity approval_id = Inr ()" using settled by (simp add: settle_as_def and_then_eq_Inr)
  moreover have "apr_tenant_id r = tenant_id authority" using grown(1) r0(2) by (auto simp: approval_grows_def)
  ultimately have "get_as s2 approval_id reader = Inr (Some r)"
    using reader final by (simp add: get_as_def)
  moreover have False if "settle_as env s2 now' approval_id revision' decision' authority' = Inr (t, r')" for t r'
    using that by (rule settle_as_okE) (use final grown(3) in \<open>auto simp: settle_record_def split: if_splits\<close>)
  ultimately show ?thesis using grown(3) by blast
qed

theorem approval_settlement_final_witness:
  "get_as (demo_inbox demo_approved) ''ask'' local_process = Inr (Some demo_approved)"
  using approval_settlement_final [OF demo_settled rtranclp.rtrancl_refl, of local_process] by simp

text \<open>
  C31: Nobody approves his own request. In every inbox built by the operations a record is valid and stored under its own identity,
  a pending one has revision 1 and a terminal one revision 2, a settled one was settled by an attributed actor other
  than its requester, and a Turn of a tenant has at most 256 records.
\<close>

theorem approval_inbox_invariant:
  assumes reach: "(inbox_step env)\<^sup>*\<^sup>* [] records" and stored: "bm_get records i = Some r"
  shows "aq_id (apr_request r) = i \<and> validate_record env r = Inr () \<and>
    apr_revision r = (if is_pending (apr_status r) then 1 else 2) \<and>
    (case apr_status r of ApSettled d a \<Rightarrow> a \<noteq> aq_requested_by (apr_request r) \<and> a \<noteq> UnattributedLegacy | _ \<Rightarrow> True) \<and>
    length (turn_records records tenant thread_id turn_id) \<le> 256"
  using inbox_entries [OF assms] turn_capacity [OF reach, of tenant thread_id turn_id]
  by (auto simp: approval_entry_ok_def approval_limits split: approval_record_status.splits)

theorem approval_inbox_invariant_witness:
  "apr_revision demo_approved = 2 \<and> validate_record demo_approval_env demo_approved = Inr ()"
proof -
  have reach: "(inbox_step demo_approval_env)\<^sup>*\<^sup>* [] (demo_inbox demo_approved)"
    using demo_inbox_reachable by (rule rtranclp_trans)
  have "bm_get (demo_inbox demo_approved) ''ask'' = Some demo_approved" by (simp add: demo_inbox_def bm_get_def)
  from approval_inbox_invariant [OF reach this] show ?thesis by (simp add: demo_approved_def)
qed

text \<open>
  The bounded selection of pending requests is the sorted one. \<open>pending_as\<close> never holds more than \<open>limit\<close> records, and returns
  what sorting all pending records of the tenant by age and identity and taking the first \<open>limit\<close> returns.
\<close>

theorem approval_pending_exact:
  assumes reach: "(inbox_step env)\<^sup>*\<^sup>* [] records" and authority: "valid_authority authority"
    and limit: "0 < limit" "limit \<le> MAX_APPROVAL_PAGE"
  shows "pending_as records limit authority = Inr (take limit (sort_key pending_key
    (filter (\<lambda>r. apr_tenant_id r = tenant_id authority \<and> is_pending (apr_status r)) (bm_values records))))"
proof -
  let ?rs = "filter (\<lambda>r. apr_tenant_id r = tenant_id authority \<and> is_pending (apr_status r)) (bm_values records)"
  have distinct: "distinct (map pending_key ?rs)"
    using inbox_keys_distinct [OF reach] by (simp add: distinct_map_filter)
  then have "fold (\<lambda>r selected. select_pending limit selected r) ?rs [] = take limit (fold (insort_key pending_key) ?rs [])"
    using select_pending_fold [of ?rs "[]" limit] by simp
  moreover have "inj_on pending_key (set ?rs)" using distinct by (simp only: distinct_map)
  ultimately have "fold (\<lambda>r selected. select_pending limit selected r) ?rs [] = take limit (sort_key pending_key ?rs)"
    by (simp only: sort_key_conv_fold)
  with authority limit show ?thesis
    by (simp add: pending_as_def ap_validate_page_def)
qed

theorem approval_pending_exact_witness:
  "pending_as (demo_inbox demo_asked) 1 local_process = Inr [demo_asked]"
  using approval_pending_exact [OF demo_inbox_reachable(1), of local_process 1]
  by (simp add: approval_limits demo_inbox_def bm_values_def demo_asked_def new_record_def)

text \<open>
  C33: The polling handler reports only real decisions. When \<open>decide_as\<close> returns a decision, some state of the inbox it saw
  holds its request, under its tenant, settled with this decision by somebody other than the requester; so a Tool call never
  proceeds on an approval nobody gave. And the loop ends: once one of the states it polls has the request settled or
  orphaned, it returns.
\<close>

theorem approval_decision_authentic:
  assumes reach: "(inbox_step env)\<^sup>*\<^sup>* [] records" and decide: "decide_as env records now request authority later = (records', answer)"
    and polls: "\<forall>s\<in>set later. (inbox_step env)\<^sup>*\<^sup>* records' s"
  shows "(\<forall>d. answer = Some (Inr d) \<longrightarrow> (\<exists>s\<in>insert records' (set later). \<exists>r a. bm_get s (aq_id request) = Some r \<and>
      apr_request r = request \<and> apr_tenant_id r = tenant_id authority \<and> apr_status r = ApSettled d a \<and>
      a \<noteq> actor authority \<and> a \<noteq> UnattributedLegacy)) \<and>
    ((\<exists>s\<in>set later. \<exists>r. bm_get s (aq_id request) = Some r \<and> \<not> is_pending (apr_status r)) \<longrightarrow> answer \<noteq> None)"
proof (cases "submit_as env records now request authority")
  case (Inl e)
  with decide show ?thesis by (auto simp: decide_as_def)
next
  case (Inr p)
  then obtain r where sub: "submit_as env records now request authority = Inr (records', r)"
    and answer: "answer = decide_loop authority r later"
    using decide by (auto simp: decide_as_def split: prod.splits)
  have stored: "bm_get records' (aq_id request) = Some r \<and> apr_request r = request \<and> apr_tenant_id r = tenant_id authority \<and>
      aq_requested_by request = actor authority"
    using sub by (rule submit_as_okE) (auto simp: bm_get_insert new_record_def)
  have "inbox_step env records records'" using sub by (rule request_submitted)
  with reach have reach': "(inbox_step env)\<^sup>*\<^sup>* [] records'" by simp
  have seen: "(inbox_step env)\<^sup>*\<^sup>* [] s \<and> (\<exists>r'. bm_get s (aq_id request) = Some r' \<and> apr_request r' = request)"
    if "s \<in> insert records' (set later)" for s
    using that polls reach' stored request_kept [of env records' s "aq_id request" r] by (auto intro: rtranclp_trans)
  have ids: "aq_id (apr_request r') = aq_id request" if "s \<in> set later" "bm_get s (aq_id request) = Some r'" for s r'
    using seen [of s] that by auto
  have "\<exists>s\<in>insert records' (set later). \<exists>r a. bm_get s (aq_id request) = Some r \<and>
      apr_request r = request \<and> apr_tenant_id r = tenant_id authority \<and> apr_status r = ApSettled d a \<and>
      a \<noteq> actor authority \<and> a \<noteq> UnattributedLegacy" if d: "answer = Some (Inr d)" for d
  proof -
    have "\<exists>s\<in>insert records' (set later). \<exists>r' a. bm_get s (aq_id request) = Some r' \<and> apr_tenant_id r' = tenant_id authority \<and>
        apr_status r' = ApSettled d a"
      using d stored ids unfolding answer by (intro decide_loop_settled) auto
    then obtain s r' a where s: "s \<in> insert records' (set later)" "bm_get s (aq_id request) = Some r'"
      "apr_tenant_id r' = tenant_id authority" "apr_status r' = ApSettled d a" by blast
    from seen [OF s(1)] s(2) have "(inbox_step env)\<^sup>*\<^sup>* [] s" and same: "apr_request r' = request" by auto
    then have "approval_entry_ok env (aq_id request) r'" using s(2) by (intro inbox_entries)
    then have "a \<noteq> actor authority \<and> a \<noteq> UnattributedLegacy" using s(4) same stored by (simp add: approval_entry_ok_def)
    with s same show ?thesis by blast
  qed
  moreover have "answer \<noteq> None" if "s \<in> set later" "bm_get s (aq_id request) = Some q" "\<not> is_pending (apr_status q)" for s q
    unfolding answer by (rule decide_loop_returns [OF that]) (use stored ids in auto)
  ultimately show ?thesis by blast
qed

theorem approval_decision_authentic_witness:
  "\<exists>answer. snd (decide_as demo_approval_env [] 5 demo_ask local_process [demo_inbox demo_approved]) = Some answer"
proof -
  have "decide_as demo_approval_env [] 5 demo_ask local_process [demo_inbox demo_approved] =
      (demo_inbox demo_asked, decide_loop local_process demo_asked [demo_inbox demo_approved])"
    by (simp add: decide_as_def demo_submitted)
  from approval_decision_authentic [OF rtranclp.rtrancl_refl this] demo_inbox_reachable(2)
  have "decide_loop local_process demo_asked [demo_inbox demo_approved] \<noteq> None"
    by (simp add: demo_inbox_def bm_get_def demo_ask_def demo_approved_def)
  then show ?thesis by (simp add: decide_as_def demo_submitted)
qed

text \<open>
  An abandoned Turn can always be orphaned. When the reserve of a pending record covers the encoded reason, \<open>orphan_turn_as\<close>
  succeeds, orphans every pending record of the Turn and tenant at revision 2, reports their number, and leaves every other
  record as it was.
\<close>

theorem approval_turn_orphaned:
  assumes reach: "(inbox_step env)\<^sup>*\<^sup>* [] records" and authority: "valid_authority authority"
    and request: "ap_validate_identity thread_id = Inr ()" "ap_validate_identity turn_id = Inr ()" "ap_validate_reason reason = Inr ()"
    and covers: "reserve_covers env reason"
  defines "chosen \<equiv> \<lambda>r. same_turn r (tenant_id authority) thread_id turn_id \<and> is_pending (apr_status r)"
  shows "orphan_turn_as env records clock thread_id turn_id reason authority =
    (map (\<lambda>(i, r). (i, if chosen r then orphaned_form reason (clock i) r else r)) records,
     Inr (length (filter chosen (bm_values records))))"
proof -
  have wf: "bm_wf records" by (rule inbox_wf [OF reach])
  have each: "orphan_record env (clock i) reason r = Inr (orphaned_form reason (clock i) r)"
    if "(i, r) \<in> set records" "chosen r" for i r
  proof (rule orphan_record_total [OF _ _ request(3) covers])
    from that(1) have "bm_get records i = Some r" by (simp add: bm.get_Some_iff [OF wf])
    then show "approval_entry_ok env i r" by (rule inbox_entries [OF reach])
    show "is_pending (apr_status r)" using that(2) by (simp add: chosen_def)
  qed
  have "length (filter chosen (bm_values records)) \<le> length (turn_records records (tenant_id authority) thread_id turn_id)"
    unfolding turn_records_def chosen_def filter_filter [symmetric] by (rule length_filter_le)
  with turn_capacity [OF reach, of "tenant_id authority" thread_id turn_id]
  have "0 + length (filter chosen (bm_values records)) < 2 ^ 64" by (simp add: approval_limits)
  from orphan_loop_total [where g = "\<lambda>i. orphaned_form reason (clock i)", OF each this] authority request show ?thesis
    by (simp add: orphan_turn_as_def chosen_def [symmetric])
qed

theorem approval_turn_orphaned_witness:
  "orphan_turn_as demo_approval_env (demo_inbox demo_asked) (\<lambda>_. 9) ''t'' ''u'' ''gone'' local_process =
    (demo_inbox (orphaned_form ''gone'' 9 demo_asked), Inr 1)"
proof -
  have "reserve_covers demo_approval_env ''gone''" by (simp add: reserve_covers_def approval_limits)
  moreover have "ap_validate_identity ''t'' = Inr ()" "ap_validate_identity ''u'' = Inr ()" "ap_validate_reason ''gone'' = Inr ()"
    by (simp_all add: ap_validate_identity_def ap_validate_reason_def string_eval approval_limits)
  moreover have "same_turn demo_asked None ''t'' ''u'' \<and> is_pending (apr_status demo_asked)"
    by (simp add: same_turn_def demo_asked_def new_record_def demo_ask_def)
  ultimately show ?thesis
    using approval_turn_orphaned [OF demo_inbox_reachable(1), of local_process "''t''" "''u''" "''gone''" "\<lambda>_. 9"]
    by (simp add: demo_inbox_def bm_values_def)
qed

text \<open>
  A stored row is read back as it was written, or refused. A record that fits its limits is encoded, and decoding the row with the columns
  of the record returns it, when the parser inverts the encoder on it; a row in which a column differs from the record in its body is refused.
\<close>

theorem approval_row_roundtrip:
  assumes valid: "validate_record env r = Inr ()"
    and parser: "\<And>b. to_vec (ae_record env) r = Some b \<Longrightarrow> ae_parse env b = Some r"
  defines "thread_id \<equiv> au_thread_id (aq_authorization (apr_request r))" and "turn_id \<equiv> au_turn_id (aq_authorization (apr_request r))"
  shows "\<exists>b. encode_record env r = Inr b \<and>
    decode_indexed_record env (ap_status_name (apr_status r), uint (apr_revision r), apr_tenant_id r, thread_id, turn_id, b) = Inr r \<and>
    (\<forall>status revision tenant th tu. (status, revision, tenant, th, tu) \<noteq>
        (ap_status_name (apr_status r), uint (apr_revision r), apr_tenant_id r, thread_id, turn_id) \<longrightarrow>
      (\<exists>e. decode_indexed_record env (status, revision, tenant, th, tu, b) = Inl e))"
proof -
  from valid obtain b where b: "to_vec (ae_record env) r = Some b" "length b \<le> MAX_APPROVAL_RECORD_BYTES"
    by (auto simp: validate_record_ok split: if_splits)
  have "to_bounded_json_vec (ae_record env) r MAX_APPROVAL_RECORD_BYTES = Inr b"
    using b by (simp add: to_bounded_json_vec_ok approval_limits)
  then have "encode_record env r = Inr b" by (simp add: encode_record_def valid)
  moreover have "decode_record env b = Inr r" using b parser [OF b(1)] valid by (simp add: decode_record_def)
  ultimately show ?thesis
    by (intro exI [of _ b]) (auto simp: decode_indexed_record_def thread_id_def turn_id_def)
qed

theorem approval_row_roundtrip_witness:
  "\<exists>b. encode_record (demo_approval_env\<lparr>ae_parse := \<lambda>_. Some demo_asked\<rparr>) demo_asked = Inr b \<and>
    decode_indexed_record (demo_approval_env\<lparr>ae_parse := \<lambda>_. Some demo_asked\<rparr>) (''pending'', 1, None, ''t'', ''u'', b) = Inr demo_asked"
proof -
  let ?env = "demo_approval_env\<lparr>ae_parse := \<lambda>_. Some demo_asked\<rparr>"
  have "validate_record ?env demo_asked = Inr ()"
    using demo_asked_valid by simp
  moreover have "ae_parse ?env b = Some demo_asked" for b by simp
  ultimately show ?thesis
    using approval_row_roundtrip [of ?env demo_asked] by (auto simp: demo_asked_def new_record_def demo_ask_def)
qed

end
