(* ===== verification/Wait_Due.thy ===== *)
theory Wait_Due
  imports Approval "HOL-Library.Option_ord"
begin

text \<open>
  Live waits of the agent loop: \<^verbatim>\<open>state/wait_due.rs\<close> and the part of the memory Event Store
  (\<^verbatim>\<open>state/mod.rs\<close>) that keeps them. A Turn that waits for an approval has one live row per Thread;
  the events of its life cycle change the row by a pure reducer, and rows with a due time are
  indexed for the bounded scan of the Temporal Driver. Of the events and the items in them the
  model keeps the fields the reducer reads; the event kinds it does not look at are one
  constructor apart from the creation of a Thread.
\<close>

section \<open>Data\<close>

definition MAX_AGENT_LOOP_DUE_SCAN_LIMIT :: nat where "MAX_AGENT_LOOP_DUE_SCAN_LIMIT = 256"
definition MAX_STATE_IDENTITY_BYTES :: nat where "MAX_STATE_IDENTITY_BYTES = 256"
definition TIMEOUT_COMMAND_DOMAIN :: string where
  "TIMEOUT_COMMAND_DOMAIN = ''y-harness.agent-loop.wait-timeout-command.v1''"
definition DENIAL_COMMAND_DOMAIN :: string where
  "DENIAL_COMMAND_DOMAIN = ''y-harness.agent-loop.wait-denial-maintenance-command.v1''"

datatype due_phase = DpWaiting | DpReadyAllow | DpReadyDeny

fun dp_as_wire :: "due_phase \<Rightarrow> string" where
  "dp_as_wire DpWaiting = ''waiting''"
| "dp_as_wire DpReadyAllow = ''ready_allow''"
| "dp_as_wire DpReadyDeny = ''ready_deny''"

fun dp_as_sql :: "due_phase \<Rightarrow> int" where
  "dp_as_sql DpWaiting = 1"
| "dp_as_sql DpReadyAllow = 2"
| "dp_as_sql DpReadyDeny = 3"

definition due_err :: "due_fault \<Rightarrow> harness_error" where
  "due_err f = State (St_due f)"

definition dp_from_sql :: "int \<Rightarrow> due_phase result" where
  "dp_from_sql value = (if value = 1 then Inr DpWaiting else if value = 2 then Inr DpReadyAllow
     else if value = 3 then Inr DpReadyDeny else Inl (due_err Due_phase_unsupported))"

record wait_projection =
  wp_phase :: due_phase
  wp_tenant_id :: "string option"
  wp_thread_id :: string
  wp_turn_id :: string
  wp_wait_id :: string
  wp_revision :: u64
  wp_due_at_ms :: "u64 option"
  wp_approval_id :: string
  wp_envelope_sha256 :: string
  wp_wait_started_event_id :: string
  wp_current_transition_event_id :: string
  wp_resume_command_id :: "string option"

record due_cursor =
  dcu_due_at_ms :: u64
  dcu_thread_id :: string
  dcu_turn_id :: string
  dcu_wait_id :: string

text \<open>The derived order of cursors and of index keys is the lexicographic one of their fields.\<close>

type_synonym cursor_key = "u64 \<times> string \<times> string \<times> string"
type_synonym due_index_key = "string option \<times> cursor_key"

definition cursor_key :: "due_cursor \<Rightarrow> cursor_key" where
  "cursor_key c = (dcu_due_at_ms c, dcu_thread_id c, dcu_turn_id c, dcu_wait_id c)"

record due_wait_row =
  dw_phase :: due_phase
  dw_tenant_id :: "string option"
  dw_thread_id :: string
  dw_turn_id :: string
  dw_wait_id :: string
  dw_revision :: u64
  dw_due_at_ms :: u64
  dw_envelope_sha256 :: string
  dw_wait_started_event_id :: string
  dw_current_transition_event_id :: string
  dw_expected_stream_version :: u64
  dw_expected_stream_recovery_bytes :: u64

record due_wait_page =
  dp_due :: "due_wait_row list"
  dp_next_cursor :: "due_cursor option"
  dp_has_more :: bool
  dp_scanned :: usize

section \<open>Events\<close>

record approval_settlement =
  as_request :: approval_request
  as_tenant_id :: "string option"
  as_decision :: approval_decision

record turn_wait_envelope =
  we_wait_id :: string
  we_revision :: u64
  we_thread_id :: string
  we_turn_id :: string
  we_tenant_id :: "string option"
  we_expires_at_ms :: "u64 option"
  we_request :: approval_request
  we_envelope_sha256 :: string

record resume_evidence =
  re_wait_id :: string
  re_previous_revision :: u64
  re_revision :: u64
  re_command_id :: string
  re_settlement :: approval_settlement
  re_accepted_at_ms :: u64

record claim_evidence =
  ce_wait_id :: string
  ce_previous_revision :: u64
  ce_revision :: u64
  ce_resume_command_id :: string

record closure_evidence =
  ve_wait_id :: string
  ve_previous_revision :: u64
  ve_revision :: u64

record denial_evidence =
  ne_wait_id :: string
  ne_previous_revision :: u64
  ne_revision :: u64
  ne_settlement :: approval_settlement

datatype item_kind =
    IkWaitStarted turn_wait_envelope
  | IkResumeAccepted resume_evidence
  | IkReadyClaimed claim_evidence
  | IkWaitClosed closure_evidence
  | IkWaitDenied denial_evidence
  | IkOther

datatype state_event =
    WaitStarted string item_kind
  | AcceptResume string item_kind
  | ClaimReady string item_kind
  | WaitClosed string item_kind
  | DenyWait string item_kind
  | TurnFinished string
  | TurnCompleted string
  | ThreadCreated
  | OtherEvent

record stored_event =
  se_sequence :: u64
  se_event_id :: string
  se_thread_id :: string
  se_recorded_at_ms :: u64
  se_event :: state_event

datatype projection_change = Unchanged | Upsert wait_projection | Delete wait_projection

section \<open>Validation\<close>

definition st_validate_identity :: "string \<Rightarrow> unit result" where
  "st_validate_identity value =
     (if value = [] \<or> length value > MAX_STATE_IDENTITY_BYTES \<or> has_control value
      then Inl (due_err Due_identity) else Inr ())"

definition due_validate_tenant :: "string option \<Rightarrow> unit result" where
  "due_validate_tenant tenant =
     (case tenant of None \<Rightarrow> Inr () | Some t \<Rightarrow> map_err (\<lambda>_. due_err Due_tenant) (validate_tenant_id t))"

definition validate_scan_limit :: "usize \<Rightarrow> unit result" where
  "validate_scan_limit scan_limit =
     (if \<not> (1 \<le> scan_limit \<and> scan_limit \<le> MAX_AGENT_LOOP_DUE_SCAN_LIMIT)
      then Inl (due_err Due_scan_limit) else Inr ())"

definition cursor_validate :: "due_cursor \<Rightarrow> unit result" where
  "cursor_validate c =
     (if dcu_due_at_ms c = 0 then Inl (due_err Due_zero_time)
      else
      and_then (st_validate_identity (dcu_thread_id c)) (\<lambda>_.
      and_then (st_validate_identity (dcu_turn_id c)) (\<lambda>_.
      st_validate_identity (dcu_wait_id c))))"

definition phase_consistent :: "due_phase \<Rightarrow> u64 \<Rightarrow> string option \<Rightarrow> string \<Rightarrow> string \<Rightarrow> bool" where
  "phase_consistent phase revision resume current started \<longleftrightarrow>
     (case phase of
        DpWaiting \<Rightarrow> revision = 1 \<and> resume = None \<and> current = started
      | _ \<Rightarrow> revision \<ge> 2 \<and> resume \<noteq> None \<and> current \<noteq> started)"

definition projection_validate :: "wait_projection \<Rightarrow> unit result" where
  "projection_validate p =
     and_then (st_validate_identity (wp_thread_id p)) (\<lambda>_.
     and_then (st_validate_identity (wp_turn_id p)) (\<lambda>_.
     and_then (st_validate_identity (wp_wait_id p)) (\<lambda>_.
     and_then (st_validate_identity (wp_approval_id p)) (\<lambda>_.
     and_then (st_validate_identity (wp_wait_started_event_id p)) (\<lambda>_.
     and_then (st_validate_identity (wp_current_transition_event_id p)) (\<lambda>_.
     and_then (case wp_resume_command_id p of None \<Rightarrow> Inr () | Some c \<Rightarrow> st_validate_identity c) (\<lambda>_.
     and_then (due_validate_tenant (wp_tenant_id p)) (\<lambda>_.
     if wp_due_at_ms p = Some 0 \<or> \<not> is_lower_sha256 (wp_envelope_sha256 p) then Inl (due_err Due_digest)
     else if \<not> phase_consistent (wp_phase p) (wp_revision p) (wp_resume_command_id p)
                (wp_current_transition_event_id p) (wp_wait_started_event_id p)
     then Inl (due_err Due_phase_revision)
     else if wp_phase p = DpReadyDeny \<and> wp_due_at_ms p = None then Inl (due_err Due_denial_unscheduled)
     else Inr ()))))))))"

definition due_index_key :: "wait_projection \<Rightarrow> due_index_key option" where
  "due_index_key p = map_option (\<lambda>due_at_ms.
     (wp_tenant_id p, due_at_ms, wp_thread_id p, wp_turn_id p, wp_wait_id p)) (wp_due_at_ms p)"

definition row_cursor :: "due_wait_row \<Rightarrow> due_cursor" where
  "row_cursor d = \<lparr>dcu_due_at_ms = dw_due_at_ms d, dcu_thread_id = dw_thread_id d,
     dcu_turn_id = dw_turn_id d, dcu_wait_id = dw_wait_id d\<rparr>"

definition row_validate :: "due_wait_row \<Rightarrow> u64 \<Rightarrow> string option \<Rightarrow> unit result" where
  "row_validate d at_ms expected_tenant_id =
     (if at_ms = 0 \<or> dw_due_at_ms d = 0 \<or> dw_due_at_ms d > at_ms then Inl (due_err Due_not_reached)
      else
      and_then (st_validate_identity (dw_thread_id d)) (\<lambda>_.
      and_then (st_validate_identity (dw_turn_id d)) (\<lambda>_.
      and_then (st_validate_identity (dw_wait_id d)) (\<lambda>_.
      and_then (due_validate_tenant (dw_tenant_id d)) (\<lambda>_.
      if dw_tenant_id d \<noteq> expected_tenant_id then Inl (due_err Due_tenant_differs)
      else if \<not> (case dw_phase d of DpWaiting \<Rightarrow> dw_revision d = 1 | _ \<Rightarrow> dw_revision d \<ge> 2)
      then Inl (due_err Due_phase_revision)
      else if \<not> is_lower_sha256 (dw_envelope_sha256 d) then Inl (due_err Due_digest)
      else
      and_then (st_validate_identity (dw_wait_started_event_id d)) (\<lambda>_.
      and_then (st_validate_identity (dw_current_transition_event_id d)) (\<lambda>_.
      if \<not> (case dw_phase d of
               DpWaiting \<Rightarrow> dw_current_transition_event_id d = dw_wait_started_event_id d
             | _ \<Rightarrow> dw_current_transition_event_id d \<noteq> dw_wait_started_event_id d)
      then Inl (due_err Due_transition)
      else if dw_expected_stream_version d = 0 \<or> dw_expected_stream_recovery_bytes d = 0
      then Inl (due_err Due_stream_fences)
      else Inr ())))))))"

definition projection_due_wait :: "wait_projection \<Rightarrow> u64 \<Rightarrow> u64 \<Rightarrow> due_wait_row result" where
  "projection_due_wait p expected_stream_version expected_stream_recovery_bytes =
     and_then (ok_or (due_err Due_not_scheduled) (wp_due_at_ms p)) (\<lambda>due_at_ms.
     let due = \<lparr>dw_phase = wp_phase p, dw_tenant_id = wp_tenant_id p, dw_thread_id = wp_thread_id p,
           dw_turn_id = wp_turn_id p, dw_wait_id = wp_wait_id p, dw_revision = wp_revision p,
           dw_due_at_ms = due_at_ms, dw_envelope_sha256 = wp_envelope_sha256 p,
           dw_wait_started_event_id = wp_wait_started_event_id p,
           dw_current_transition_event_id = wp_current_transition_event_id p,
           dw_expected_stream_version = expected_stream_version,
           dw_expected_stream_recovery_bytes = expected_stream_recovery_bytes\<rparr> in
     and_then (row_validate due due_at_ms (wp_tenant_id p)) (\<lambda>_. Inr due))"

section \<open>The reducer\<close>

definition require_current :: "wait_projection option \<Rightarrow> string \<Rightarrow> string \<Rightarrow> wait_projection result" where
  "require_current current thread_id turn_id =
     and_then (ok_or (due_err Due_no_row) current) (\<lambda>row.
     if wp_thread_id row \<noteq> thread_id \<or> wp_turn_id row \<noteq> turn_id then Inl (due_err Due_coordinates)
     else and_then (projection_validate row) (\<lambda>_. Inr row))"

definition settlement_matches_projection ::
  "approval_settlement \<Rightarrow> wait_projection \<Rightarrow> string option \<Rightarrow> bool" where
  "settlement_matches_projection settlement p source_thread_id \<longleftrightarrow>
     aq_id (as_request settlement) = wp_approval_id p \<and> as_tenant_id settlement = wp_tenant_id p \<and>
     au_thread_id (aq_authorization (as_request settlement)) = (case source_thread_id of None \<Rightarrow> wp_thread_id p | Some t \<Rightarrow> t) \<and>
     au_turn_id (aq_authorization (as_request settlement)) = wp_turn_id p"

definition wait_started ::
  "stored_event \<Rightarrow> wait_projection option \<Rightarrow> string option \<Rightarrow> string \<Rightarrow> item_kind \<Rightarrow> projection_change result" where
  "wait_started stored current source_thread_id turn_id transition =
     (if current \<noteq> None then Inl (due_err Due_row_exists)
      else
        (case transition of
           IkWaitStarted envelope \<Rightarrow>
             if (case source_thread_id of None \<Rightarrow> se_thread_id stored | Some t \<Rightarrow> t) \<noteq> we_thread_id envelope \<or>
                turn_id \<noteq> we_turn_id envelope
             then Inl (due_err Due_coordinates)
             else Inr (Upsert \<lparr>wp_phase = DpWaiting, wp_tenant_id = we_tenant_id envelope,
               wp_thread_id = se_thread_id stored, wp_turn_id = turn_id, wp_wait_id = we_wait_id envelope,
               wp_revision = we_revision envelope, wp_due_at_ms = we_expires_at_ms envelope,
               wp_approval_id = aq_id (we_request envelope), wp_envelope_sha256 = we_envelope_sha256 envelope,
               wp_wait_started_event_id = se_event_id stored,
               wp_current_transition_event_id = se_event_id stored, wp_resume_command_id = None\<rparr>)
         | _ \<Rightarrow> Inl (due_err Due_item_kind)))"

definition accept_resume ::
  "stored_event \<Rightarrow> wait_projection option \<Rightarrow> string option \<Rightarrow> string \<Rightarrow> item_kind \<Rightarrow> projection_change result" where
  "accept_resume stored current source_thread_id turn_id transition =
     and_then (require_current current (se_thread_id stored) turn_id) (\<lambda>previous.
     if wp_phase previous \<noteq> DpWaiting then Inl (due_err Due_phase)
     else
       (case transition of
          IkResumeAccepted evidence \<Rightarrow>
            if re_wait_id evidence \<noteq> wp_wait_id previous \<or>
               re_previous_revision evidence \<noteq> wp_revision previous \<or>
               checked_add (wp_revision previous) 1 \<noteq> Some (re_revision evidence) \<or>
               \<not> settlement_matches_projection (re_settlement evidence) previous source_thread_id
            then Inl (due_err Due_fence_differs)
            else
              let (phase, due_at_ms) = (case as_decision (re_settlement evidence) of
                    Approve \<Rightarrow> (DpReadyAllow, wp_due_at_ms previous)
                  | Deny _ \<Rightarrow> (DpReadyDeny, Some (re_accepted_at_ms evidence)))
              in Inr (Upsert (previous\<lparr>wp_phase := phase, wp_revision := re_revision evidence,
                   wp_due_at_ms := due_at_ms, wp_current_transition_event_id := se_event_id stored,
                   wp_resume_command_id := Some (re_command_id evidence)\<rparr>))
        | _ \<Rightarrow> Inl (due_err Due_item_kind)))"

definition claim_ready ::
  "stored_event \<Rightarrow> wait_projection option \<Rightarrow> string \<Rightarrow> item_kind \<Rightarrow> projection_change result" where
  "claim_ready stored current turn_id transition =
     and_then (require_current current (se_thread_id stored) turn_id) (\<lambda>previous.
     case transition of
       IkReadyClaimed evidence \<Rightarrow>
         if wp_phase previous \<noteq> DpReadyAllow \<or> ce_wait_id evidence \<noteq> wp_wait_id previous \<or>
            ce_previous_revision evidence \<noteq> wp_revision previous \<or>
            checked_add (wp_revision previous) 1 \<noteq> Some (ce_revision evidence) \<or>
            wp_resume_command_id previous \<noteq> Some (ce_resume_command_id evidence)
         then Inl (due_err Due_fence_differs)
         else Inr (Delete previous)
     | _ \<Rightarrow> Inl (due_err Due_item_kind))"

definition wait_closed ::
  "stored_event \<Rightarrow> wait_projection option \<Rightarrow> string \<Rightarrow> item_kind \<Rightarrow> projection_change result" where
  "wait_closed stored current turn_id transition =
     and_then (require_current current (se_thread_id stored) turn_id) (\<lambda>previous.
     case transition of
       IkWaitClosed evidence \<Rightarrow>
         if wp_phase previous \<notin> {DpWaiting, DpReadyAllow} \<or> ve_wait_id evidence \<noteq> wp_wait_id previous \<or>
            ve_previous_revision evidence \<noteq> wp_revision previous \<or>
            checked_add (wp_revision previous) 1 \<noteq> Some (ve_revision evidence)
         then Inl (due_err Due_fence_differs)
         else Inr (Delete previous)
     | _ \<Rightarrow> Inl (due_err Due_item_kind))"

definition deny_wait ::
  "stored_event \<Rightarrow> wait_projection option \<Rightarrow> string option \<Rightarrow> string \<Rightarrow> item_kind \<Rightarrow> projection_change result" where
  "deny_wait stored current source_thread_id turn_id transition =
     and_then (require_current current (se_thread_id stored) turn_id) (\<lambda>previous.
     case transition of
       IkWaitDenied evidence \<Rightarrow>
         if wp_phase previous \<notin> {DpWaiting, DpReadyDeny} \<or> ne_wait_id evidence \<noteq> wp_wait_id previous \<or>
            ne_previous_revision evidence \<noteq> wp_revision previous \<or>
            checked_add (wp_revision previous) 1 \<noteq> Some (ne_revision evidence) \<or>
            \<not> settlement_matches_projection (ne_settlement evidence) previous source_thread_id \<or>
            \<not> (case as_decision (ne_settlement evidence) of Deny _ \<Rightarrow> True | Approve \<Rightarrow> False)
         then Inl (due_err Due_fence_differs)
         else Inr (Delete previous)
     | _ \<Rightarrow> Inl (due_err Due_item_kind))"

definition turn_ended :: "wait_projection option \<Rightarrow> string \<Rightarrow> projection_change result" where
  "turn_ended current turn_id =
     (if (case current of None \<Rightarrow> False | Some row \<Rightarrow> wp_turn_id row = turn_id)
      then Inl (due_err Due_bypasses_wait) else Inr Unchanged)"

definition projection_change_inner ::
  "stored_event \<Rightarrow> wait_projection option \<Rightarrow> string option \<Rightarrow> projection_change result" where
  "projection_change_inner stored current source_thread_id =
     and_then
       (case se_event stored of
          WaitStarted turn_id transition \<Rightarrow> wait_started stored current source_thread_id turn_id transition
        | AcceptResume turn_id transition \<Rightarrow> accept_resume stored current source_thread_id turn_id transition
        | ClaimReady turn_id transition \<Rightarrow> claim_ready stored current turn_id transition
        | WaitClosed turn_id transition \<Rightarrow> wait_closed stored current turn_id transition
        | DenyWait turn_id transition \<Rightarrow> deny_wait stored current source_thread_id turn_id transition
        | TurnFinished turn_id \<Rightarrow> turn_ended current turn_id
        | TurnCompleted turn_id \<Rightarrow> turn_ended current turn_id
        | _ \<Rightarrow> Inr Unchanged) (\<lambda>change.
     and_then (case change of Upsert row \<Rightarrow> projection_validate row | _ \<Rightarrow> Inr ()) (\<lambda>_.
     Inr change))"

definition projection_change :: "stored_event \<Rightarrow> wait_projection option \<Rightarrow> projection_change result" where
  "projection_change stored current = projection_change_inner stored current None"

definition projection_change_for_materialized_replay ::
  "stored_event \<Rightarrow> wait_projection option \<Rightarrow> string option \<Rightarrow> projection_change result" where
  "projection_change_for_materialized_replay stored current source_thread_id =
     projection_change_inner stored current source_thread_id"

section \<open>Pages\<close>

text \<open>The loop over the rows carries the cursor of the previous row.\<close>

definition page_row :: "u64 \<Rightarrow> string option \<Rightarrow> due_cursor option \<Rightarrow> due_wait_row \<Rightarrow> due_cursor option result" where
  "page_row at_ms expected_tenant_id previous due =
     and_then (row_validate due at_ms expected_tenant_id) (\<lambda>_.
     let cursor = row_cursor due in
     if (case previous of None \<Rightarrow> False | Some prior \<Rightarrow> cursor_key cursor \<le> cursor_key prior)
     then Inl (due_err Due_not_ordered)
     else Inr (Some cursor))"

definition page_validate ::
  "due_wait_page \<Rightarrow> u64 \<Rightarrow> due_cursor option \<Rightarrow> usize \<Rightarrow> string option \<Rightarrow> unit result" where
  "page_validate page at_ms after scan_limit expected_tenant_id =
     and_then (validate_scan_limit scan_limit) (\<lambda>_.
     and_then (case after of None \<Rightarrow> Inr () | Some c \<Rightarrow> cursor_validate c) (\<lambda>_.
     if dp_scanned page \<noteq> length (dp_due page) \<or> dp_scanned page > scan_limit then Inl (due_err Due_counts)
     else if (dp_scanned page = 0) \<noteq> (dp_next_cursor page = None) then Inl (due_err Due_cursor_count)
     else if dp_has_more page \<and> dp_scanned page \<noteq> scan_limit then Inl (due_err Due_partial_has_more)
     else
     and_then (try_fold (page_row at_ms expected_tenant_id) after (dp_due page)) (\<lambda>_.
     let last_returned = (if dp_due page = [] then None else Some (row_cursor (last (dp_due page)))) in
     if dp_next_cursor page \<noteq> last_returned then Inl (due_err Due_cursor_not_last) else Inr ())))"

definition validate_due_scan_request ::
  "u64 \<Rightarrow> due_cursor option \<Rightarrow> usize \<Rightarrow> string option \<Rightarrow> unit result" where
  "validate_due_scan_request at_ms after scan_limit tenant =
     (if at_ms = 0 then Inl (due_err Due_zero_time)
      else
      and_then (validate_scan_limit scan_limit) (\<lambda>_.
      and_then (case after of
          None \<Rightarrow> Inr ()
        | Some c \<Rightarrow> and_then (cursor_validate c) (\<lambda>_.
            if dcu_due_at_ms c > at_ms then Inl (due_err Due_cursor_later) else Inr ())) (\<lambda>_.
      due_validate_tenant tenant)))"

section \<open>Maintenance commands\<close>

text \<open>\<open>to_be_bytes\<close> of a 64-bit number: eight bytes, the most significant first.\<close>

fun be_bytes :: "nat \<Rightarrow> nat \<Rightarrow> bytes" where
  "be_bytes 0 n = []"
| "be_bytes (Suc k) n = be_bytes k (n div 256) @ [char_of (n mod 256)]"

definition u64_be :: "u64 \<Rightarrow> bytes" where
  "u64_be w = be_bytes 8 (unat w)"

text \<open>\<open>hash_component\<close> feeds the hasher; the model collects what the hasher is fed.\<close>

definition hash_component :: "bytes \<Rightarrow> bytes \<Rightarrow> bytes \<Rightarrow> bytes result" where
  "hash_component fed field_type value =
     and_then (ok_or (due_err Due_field_too_large) (u64_of_usize (length field_type))) (\<lambda>field_len.
     and_then (ok_or (due_err Due_field_too_large) (u64_of_usize (length value))) (\<lambda>value_len.
     Inr (fed @ u64_be field_len @ field_type @ u64_be value_len @ value)))"

definition hash_components :: "bytes \<Rightarrow> (bytes \<times> bytes) list \<Rightarrow> bytes result" where
  "hash_components fed components = try_fold (\<lambda>fed (field, value). hash_component fed field value) fed components"

definition due_components :: "string \<Rightarrow> due_wait_row \<Rightarrow> (bytes \<times> bytes) list" where
  "due_components domain due =
     [(''domain'', domain), (''phase'', dp_as_wire (dw_phase due))] @
     (case dw_tenant_id due of
        Some tenant \<Rightarrow> [(''tenant.presence'', ''some''), (''tenant.value'', tenant)]
      | None \<Rightarrow> [(''tenant.presence'', ''none'')]) @
     [(''thread'', dw_thread_id due), (''turn'', dw_turn_id due), (''wait'', dw_wait_id due),
      (''revision.u64be'', u64_be (dw_revision due)), (''due_at_ms.u64be'', u64_be (dw_due_at_ms due)),
      (''envelope.sha256'', dw_envelope_sha256 due), (''wait_started.event'', dw_wait_started_event_id due),
      (''current_transition.event'', dw_current_transition_event_id due)]"

definition maintenance_command_digest ::
  "(bytes \<Rightarrow> bytes) \<Rightarrow> string \<Rightarrow> due_wait_row \<Rightarrow> string result" where
  "maintenance_command_digest sha256 domain due =
     (if domain = [] \<or> length domain > MAX_STATE_IDENTITY_BYTES \<or> \<not> list_all (\<lambda>c. of_char c < (128 :: nat)) domain
      then Inl (due_err Due_domain)
      else and_then (hash_components [] (due_components domain due)) (\<lambda>fed. Inr (lower_hex (sha256 fed))))"

definition deterministic_timeout_command_id :: "(bytes \<Rightarrow> bytes) \<Rightarrow> due_wait_row \<Rightarrow> string result" where
  "deterministic_timeout_command_id sha256 due =
     (if dw_phase due = DpReadyDeny then Inl (due_err Due_phase)
      else
      and_then (row_validate due (dw_due_at_ms due) (dw_tenant_id due)) (\<lambda>_.
      and_then (maintenance_command_digest sha256 TIMEOUT_COMMAND_DOMAIN due) (\<lambda>digest.
      Inr (''agent-loop-timeout-'' @ digest))))"

definition deterministic_denial_command_id :: "(bytes \<Rightarrow> bytes) \<Rightarrow> due_wait_row \<Rightarrow> string result" where
  "deterministic_denial_command_id sha256 due =
     (if dw_phase due \<noteq> DpReadyDeny then Inl (due_err Due_phase)
      else
      and_then (row_validate due (dw_due_at_ms due) (dw_tenant_id due)) (\<lambda>_.
      and_then (maintenance_command_digest sha256 DENIAL_COMMAND_DOMAIN due) (\<lambda>digest.
      Inr (''agent-loop-denial-'' @ digest))))"

definition agent_loop_due_command_id :: "(bytes \<Rightarrow> bytes) \<Rightarrow> due_wait_row \<Rightarrow> string result" where
  "agent_loop_due_command_id sha256 due =
     (case dw_phase due of
        DpReadyDeny \<Rightarrow> deterministic_denial_command_id sha256 due
      | _ \<Rightarrow> deterministic_timeout_command_id sha256 due)"

section \<open>What the checks accept\<close>

lemma due_validate_tenant_ok [ok_iff]: "due_validate_tenant t = Inr u \<longleftrightarrow> valid_tenant t"
  by (cases t) (simp_all add: due_validate_tenant_def map_err_eq_Inr validate_tenant_id_ok)

lemma projection_validate_ok:
  "projection_validate p = Inr u \<longleftrightarrow>
     st_validate_identity (wp_thread_id p) = Inr () \<and> st_validate_identity (wp_turn_id p) = Inr () \<and>
     st_validate_identity (wp_wait_id p) = Inr () \<and> st_validate_identity (wp_approval_id p) = Inr () \<and>
     st_validate_identity (wp_wait_started_event_id p) = Inr () \<and>
     st_validate_identity (wp_current_transition_event_id p) = Inr () \<and>
     (\<forall>c. wp_resume_command_id p = Some c \<longrightarrow> st_validate_identity c = Inr ()) \<and>
     valid_tenant (wp_tenant_id p) \<and> wp_due_at_ms p \<noteq> Some 0 \<and> is_lower_sha256 (wp_envelope_sha256 p) \<and>
     phase_consistent (wp_phase p) (wp_revision p) (wp_resume_command_id p)
       (wp_current_transition_event_id p) (wp_wait_started_event_id p) \<and>
     (wp_phase p = DpReadyDeny \<longrightarrow> wp_due_at_ms p \<noteq> None)"
  unfolding projection_validate_def if_Inl_eq_Inr and_then_eq_Inr due_validate_tenant_ok
  by (cases "wp_resume_command_id p") auto

lemma row_validate_ok:
  "row_validate d at_ms tenant = Inr u \<longleftrightarrow>
     dw_due_at_ms d \<noteq> 0 \<and> dw_due_at_ms d \<le> at_ms \<and> st_validate_identity (dw_thread_id d) = Inr () \<and>
     st_validate_identity (dw_turn_id d) = Inr () \<and> st_validate_identity (dw_wait_id d) = Inr () \<and>
     valid_tenant (dw_tenant_id d) \<and> dw_tenant_id d = tenant \<and>
     (case dw_phase d of DpWaiting \<Rightarrow> dw_revision d = 1 | _ \<Rightarrow> dw_revision d \<ge> 2) \<and>
     is_lower_sha256 (dw_envelope_sha256 d) \<and>
     st_validate_identity (dw_wait_started_event_id d) = Inr () \<and>
     st_validate_identity (dw_current_transition_event_id d) = Inr () \<and>
     (case dw_phase d of
        DpWaiting \<Rightarrow> dw_current_transition_event_id d = dw_wait_started_event_id d
      | _ \<Rightarrow> dw_current_transition_event_id d \<noteq> dw_wait_started_event_id d) \<and>
     dw_expected_stream_version d \<noteq> 0 \<and> dw_expected_stream_recovery_bytes d \<noteq> 0"
  unfolding row_validate_def if_Inl_eq_Inr and_then_eq_Inr due_validate_tenant_ok
  by (simp only: de_Morgan_disj not_not not_less ex_simps simp_thms unit_eq conj_assoc) (auto simp: le_less)

text \<open>A valid row with a due time gives a valid due wait: the two validators agree.\<close>

lemma projection_due_wait_total:
  assumes "projection_validate p = Inr ()" and "due_index_key p = Some (tenant, key)" and "v \<noteq> 0" "b \<noteq> 0"
  obtains row where "projection_due_wait p v b = Inr row" "cursor_key (row_cursor row) = key"
    "\<And>at_ms. fst key \<le> at_ms \<Longrightarrow> row_validate row at_ms tenant = Inr ()"
    "dw_thread_id row = wp_thread_id p" "dw_due_at_ms row = fst key"
proof -
  from assms(2) obtain d where d: "wp_due_at_ms p = Some d"
    and key: "tenant = wp_tenant_id p" "key = (d, wp_thread_id p, wp_turn_id p, wp_wait_id p)"
    by (auto simp: due_index_key_def)
  from assms d have "row_validate \<lparr>dw_phase = wp_phase p, dw_tenant_id = wp_tenant_id p, dw_thread_id = wp_thread_id p,
      dw_turn_id = wp_turn_id p, dw_wait_id = wp_wait_id p, dw_revision = wp_revision p, dw_due_at_ms = d,
      dw_envelope_sha256 = wp_envelope_sha256 p, dw_wait_started_event_id = wp_wait_started_event_id p,
      dw_current_transition_event_id = wp_current_transition_event_id p, dw_expected_stream_version = v,
      dw_expected_stream_recovery_bytes = b\<rparr> at_ms tenant = Inr ()" if "d \<le> at_ms" for at_ms
    using that
    by (auto simp: key row_validate_ok projection_validate_ok phase_consistent_def split: due_phase.splits)
  with d key show thesis
    by (intro that) (auto simp: projection_due_wait_def row_cursor_def cursor_key_def)
qed

lemma page_row_ok:
  "page_row at_ms tenant previous d = Inr c \<longleftrightarrow>
     row_validate d at_ms tenant = Inr () \<and> c = Some (row_cursor d) \<and>
     (\<forall>prior. previous = Some prior \<longrightarrow> cursor_key prior < cursor_key (row_cursor d))"
  by (auto simp: page_row_def ok_iff Let_def split: option.splits)

lemma page_rows_ok:
  assumes "sorted_wrt (\<lambda>x y. cursor_key (row_cursor x) < cursor_key (row_cursor y)) rows"
    and "\<And>d. d \<in> set rows \<Longrightarrow> row_validate d at_ms tenant = Inr ()"
    and "\<And>d c. d \<in> set rows \<Longrightarrow> after = Some c \<Longrightarrow> cursor_key c < cursor_key (row_cursor d)"
  shows "\<exists>c. try_fold (page_row at_ms tenant) after rows = Inr c"
  using assms
proof (induction rows arbitrary: after)
  case (Cons d rows)
  then have "page_row at_ms tenant after d = Inr (Some (row_cursor d))" by (simp add: page_row_ok)
  moreover have "\<exists>c. try_fold (page_row at_ms tenant) (Some (row_cursor d)) rows = Inr c"
    by (rule Cons.IH) (use Cons.prems in auto)
  ultimately show ?case by simp
qed simp

section \<open>The life cycle of a wait\<close>

text \<open>
  The phases a live row may go through, by event. An accepted denial has one way out: the denial.
\<close>

inductive wait_moves :: "state_event \<Rightarrow> due_phase option \<Rightarrow> due_phase option \<Rightarrow> bool" where
  move_started: "wait_moves (WaitStarted turn (IkWaitStarted env)) None (Some DpWaiting)"
| move_approved: "as_decision (re_settlement ev) = Approve \<Longrightarrow>
    wait_moves (AcceptResume turn (IkResumeAccepted ev)) (Some DpWaiting) (Some DpReadyAllow)"
| move_denied: "as_decision (re_settlement ev) = Deny reason \<Longrightarrow>
    wait_moves (AcceptResume turn (IkResumeAccepted ev)) (Some DpWaiting) (Some DpReadyDeny)"
| move_claimed: "wait_moves (ClaimReady turn (IkReadyClaimed ev2)) (Some DpReadyAllow) None"
| move_closed: "phase \<in> {DpWaiting, DpReadyAllow} \<Longrightarrow>
    wait_moves (WaitClosed turn (IkWaitClosed ev3)) (Some phase) None"
| move_refused: "phase \<in> {DpWaiting, DpReadyDeny} \<Longrightarrow> as_decision (ne_settlement ev4) = Deny reason \<Longrightarrow>
    wait_moves (DenyWait turn (IkWaitDenied ev4)) (Some phase) None"

inductive_simps wait_moves_from_denied: "wait_moves event (Some DpReadyDeny) next"

definition same_wait :: "wait_projection \<Rightarrow> wait_projection \<Rightarrow> bool" where
  "same_wait p q \<longleftrightarrow> wp_tenant_id p = wp_tenant_id q \<and> wp_thread_id p = wp_thread_id q \<and>
     wp_turn_id p = wp_turn_id q \<and> wp_wait_id p = wp_wait_id q \<and> wp_approval_id p = wp_approval_id q \<and>
     wp_envelope_sha256 p = wp_envelope_sha256 q \<and> wp_wait_started_event_id p = wp_wait_started_event_id q"

lemma require_current_ok [ok_iff]:
  "require_current current thread turn = Inr row \<longleftrightarrow>
     current = Some row \<and> wp_thread_id row = thread \<and> wp_turn_id row = turn \<and> projection_validate row = Inr ()"
  by (auto simp: require_current_def ok_iff)

lemma reducer_ok:
  "wait_started stored current source turn item = Inr change \<longleftrightarrow> current = None \<and>
     (\<exists>env. item = IkWaitStarted env \<and> turn = we_turn_id env \<and>
       we_thread_id env = (case source of None \<Rightarrow> se_thread_id stored | Some t \<Rightarrow> t) \<and>
       change = Upsert \<lparr>wp_phase = DpWaiting, wp_tenant_id = we_tenant_id env,
         wp_thread_id = se_thread_id stored, wp_turn_id = turn, wp_wait_id = we_wait_id env,
         wp_revision = we_revision env, wp_due_at_ms = we_expires_at_ms env,
         wp_approval_id = aq_id (we_request env), wp_envelope_sha256 = we_envelope_sha256 env,
         wp_wait_started_event_id = se_event_id stored,
         wp_current_transition_event_id = se_event_id stored, wp_resume_command_id = None\<rparr>)"
  "accept_resume stored current source turn item = Inr change \<longleftrightarrow>
     (\<exists>row ev. require_current current (se_thread_id stored) turn = Inr row \<and> item = IkResumeAccepted ev \<and>
       wp_phase row = DpWaiting \<and> re_wait_id ev = wp_wait_id row \<and> re_previous_revision ev = wp_revision row \<and>
       unat (re_revision ev) = Suc (unat (wp_revision row)) \<and>
       settlement_matches_projection (re_settlement ev) row source \<and>
       change = Upsert (row\<lparr>wp_phase := case as_decision (re_settlement ev) of Approve \<Rightarrow> DpReadyAllow | Deny _ \<Rightarrow> DpReadyDeny,
         wp_revision := re_revision ev,
         wp_due_at_ms := case as_decision (re_settlement ev) of Approve \<Rightarrow> wp_due_at_ms row | Deny _ \<Rightarrow> Some (re_accepted_at_ms ev),
         wp_current_transition_event_id := se_event_id stored, wp_resume_command_id := Some (re_command_id ev)\<rparr>))"
  "claim_ready stored current turn item = Inr change \<longleftrightarrow>
     (\<exists>row ev. require_current current (se_thread_id stored) turn = Inr row \<and> item = IkReadyClaimed ev \<and>
       wp_phase row = DpReadyAllow \<and> ce_wait_id ev = wp_wait_id row \<and> ce_previous_revision ev = wp_revision row \<and>
       unat (ce_revision ev) = Suc (unat (wp_revision row)) \<and>
       wp_resume_command_id row = Some (ce_resume_command_id ev) \<and> change = Delete row)"
  "wait_closed stored current turn item = Inr change \<longleftrightarrow>
     (\<exists>row ev. require_current current (se_thread_id stored) turn = Inr row \<and> item = IkWaitClosed ev \<and>
       wp_phase row \<in> {DpWaiting, DpReadyAllow} \<and> ve_wait_id ev = wp_wait_id row \<and>
       ve_previous_revision ev = wp_revision row \<and>
       unat (ve_revision ev) = Suc (unat (wp_revision row)) \<and> change = Delete row)"
  "deny_wait stored current source turn item = Inr change \<longleftrightarrow>
     (\<exists>row ev reason. require_current current (se_thread_id stored) turn = Inr row \<and> item = IkWaitDenied ev \<and>
       wp_phase row \<in> {DpWaiting, DpReadyDeny} \<and> ne_wait_id ev = wp_wait_id row \<and>
       ne_previous_revision ev = wp_revision row \<and> unat (ne_revision ev) = Suc (unat (wp_revision row)) \<and>
       settlement_matches_projection (ne_settlement ev) row source \<and>
       as_decision (ne_settlement ev) = Deny reason \<and> change = Delete row)"
  by (cases item; auto simp: wait_started_def accept_resume_def claim_ready_def wait_closed_def deny_wait_def
      and_then_eq_Inr Let_def checked_add_Some split: if_splits approval_decision.splits option.splits)+

lemma projection_change_Upsert:
  assumes "projection_change_inner stored current source = Inr (Upsert row)"
  shows "projection_validate row = Inr ()" "wp_thread_id row = se_thread_id stored"
    "wait_moves (se_event stored) (map_option wp_phase current) (Some (wp_phase row))"
    "current = Some previous \<Longrightarrow> same_wait previous row \<and> unat (wp_revision row) = Suc (unat (wp_revision previous))"
  using assms
  by (cases "se_event stored"; auto simp: projection_change_inner_def reducer_ok ok_iff turn_ended_def same_wait_def
      split: approval_decision.splits intro: wait_moves.intros)+

lemma projection_change_Delete:
  assumes "projection_change_inner stored current source = Inr (Delete row)"
  shows "current = Some row" "wp_thread_id row = se_thread_id stored"
    "wait_moves (se_event stored) (Some (wp_phase row)) None"
  using assms
  by (cases "se_event stored"; auto simp: projection_change_inner_def reducer_ok ok_iff turn_ended_def
      intro: wait_moves.intros)+

section \<open>The bytes behind a command identity\<close>

lemma length_be_bytes [simp]: "length (be_bytes k n) = k"
  by (induction k n rule: be_bytes.induct) simp_all

lemma be_bytes_inj: "be_bytes k m = be_bytes k n \<Longrightarrow> m < 256 ^ k \<Longrightarrow> n < 256 ^ k \<Longrightarrow> m = n"
proof (induction k m arbitrary: n rule: be_bytes.induct)
  case (2 k m)
  have bound: "i div 256 < 256 ^ k" if "i < 256 ^ Suc k" for i :: nat
    using that by (simp add: less_mult_imp_div_less mult.commute)
  from 2 bound have "m div 256 = n div 256" by simp
  moreover have "char_of (m mod 256) = (char_of (n mod 256) :: char)" using 2 by simp
  from arg_cong [where f = "of_char :: char \<Rightarrow> nat", OF this] have "m mod 256 = n mod 256" by simp
  ultimately show ?case by (metis div_mult_mod_eq)
qed simp

lemma u64_be_inj [simp]: "u64_be v = u64_be w \<longleftrightarrow> v = w"
proof -
  have "unat x < 256 ^ 8" for x :: u64 using unsigned_less [of x, where ?'a = nat] by simp
  then show ?thesis using be_bytes_inj [of 8 "unat v" "unat w"] by (auto simp: u64_be_def word_unat_eq_iff)
qed

lemma length_u64_be [simp]: "length (u64_be w) = 8"
  by (simp add: u64_be_def)

definition framed :: "bytes \<times> bytes \<Rightarrow> bytes" where
  "framed c = be_bytes 8 (length (fst c)) @ fst c @ be_bytes 8 (length (snd c)) @ snd c"

lemma hash_components_ok:
  "hash_components fed cs = Inr bs \<longleftrightarrow>
     bs = fed @ concat (map framed cs) \<and> (\<forall>(f, v)\<in>set cs. length f < 2 ^ 64 \<and> length v < 2 ^ 64)"
proof (induction cs arbitrary: fed)
  case Nil
  show ?case by (auto simp: hash_components_def)
next
  case (Cons c cs)
  obtain f v where c: "c = (f, v)" by force
  have "hash_components fed (c # cs) = and_then (hash_component fed f v) (\<lambda>fed. hash_components fed cs)"
    by (simp add: hash_components_def c)
  moreover have "hash_component fed f v = Inr x \<longleftrightarrow>
      x = fed @ framed c \<and> length f < 2 ^ 64 \<and> length v < 2 ^ 64" for x
    by (auto simp: hash_component_def framed_def c u64_be_def u64_of_usize_def and_then_eq_Inr
        ok_or_eq_Inr unat_of_nat_u64)
  ultimately show ?case using Cons.IH by (auto simp: and_then_eq_Inr c)
qed

text \<open>Framing with lengths is unambiguous: equal bytes come from equal lists of components.\<close>

lemma framed_append_inj:
  assumes "framed (f, v) @ r = framed (f', v') @ r'"
    and "length f < 2 ^ 64" "length v < 2 ^ 64" "length f' < 2 ^ 64" "length v' < 2 ^ 64"
  shows "f = f' \<and> v = v' \<and> r = r'"
proof -
  from assms(1) have "be_bytes 8 (length f) = be_bytes 8 (length f')"
    and rest: "f @ be_bytes 8 (length v) @ v @ r = f' @ be_bytes 8 (length v') @ v' @ r'"
    by (simp_all add: framed_def)
  then have "length f = length f'" using be_bytes_inj assms(2,4) by (auto simp: power_mult [symmetric])
  with rest have f: "f = f'" and "be_bytes 8 (length v) = be_bytes 8 (length v')" and vr: "v @ r = v' @ r'"
    by simp_all
  then have "length v = length v'" using be_bytes_inj assms(3,5) by auto
  with vr f show ?thesis by simp
qed

lemma framing_injective:
  assumes "concat (map framed cs) = concat (map framed cs')"
    and "\<forall>(f, v)\<in>set cs. length f < 2 ^ 64 \<and> length v < 2 ^ 64"
    and "\<forall>(f, v)\<in>set cs'. length f < 2 ^ 64 \<and> length v < 2 ^ 64"
  shows "cs = cs'"
  using assms
proof (induction cs arbitrary: cs')
  case Nil
  have "framed c \<noteq> []" for c by (simp add: framed_def length_0_conv [symmetric] del: length_0_conv)
  with Nil show ?case by (cases cs') auto
next
  case (Cons c cs)
  obtain f v where c: "c = (f, v)" by force
  have "framed c \<noteq> []" by (simp add: framed_def length_0_conv [symmetric] del: length_0_conv)
  with Cons.prems(1) obtain c' cs'' where cs': "cs' = c' # cs''" by (cases cs') auto
  obtain f' v' where c': "c' = (f', v')" by force
  from framed_append_inj [of f v "concat (map framed cs)" f' v' "concat (map framed cs'')"] Cons.prems
  have "f = f' \<and> v = v' \<and> concat (map framed cs) = concat (map framed cs'')"
    by (simp add: c c' cs')
  with Cons c c' cs' show ?case by simp
qed

lemma dp_as_wire_inj [simp]: "dp_as_wire p = dp_as_wire q \<longleftrightarrow> p = q"
  by (cases p; cases q) simp_all

definition same_fence :: "due_wait_row \<Rightarrow> due_wait_row \<Rightarrow> bool" where
  "same_fence d e \<longleftrightarrow> dw_phase d = dw_phase e \<and> dw_tenant_id d = dw_tenant_id e \<and>
     dw_thread_id d = dw_thread_id e \<and> dw_turn_id d = dw_turn_id e \<and> dw_wait_id d = dw_wait_id e \<and>
     dw_revision d = dw_revision e \<and> dw_due_at_ms d = dw_due_at_ms e \<and>
     dw_envelope_sha256 d = dw_envelope_sha256 e \<and>
     dw_wait_started_event_id d = dw_wait_started_event_id e \<and>
     dw_current_transition_event_id d = dw_current_transition_event_id e"

lemma due_components_inj: "due_components domain d = due_components domain' e \<longleftrightarrow> domain = domain' \<and> same_fence d e"
  by (cases "dw_tenant_id d"; cases "dw_tenant_id e") (auto simp: due_components_def same_fence_def)

text \<open>The bytes that are hashed for a due wait, and the identity made of them.\<close>

definition fence_domain :: "due_wait_row \<Rightarrow> string" where
  "fence_domain d = (if dw_phase d = DpReadyDeny then DENIAL_COMMAND_DOMAIN else TIMEOUT_COMMAND_DOMAIN)"

definition fence_bytes :: "due_wait_row \<Rightarrow> bytes" where
  "fence_bytes d = concat (map framed (due_components (fence_domain d) d))"

lemma due_command_id_ok:
  assumes "agent_loop_due_command_id sha256 d = Inr i"
  shows "i = (if dw_phase d = DpReadyDeny then ''agent-loop-denial-'' else ''agent-loop-timeout-'') @ lower_hex (sha256 (fence_bytes d))"
    and "\<forall>(f, v)\<in>set (due_components (fence_domain d) d). length f < 2 ^ 64 \<and> length v < 2 ^ 64"
  using assms
  by (cases "dw_phase d"; auto simp: agent_loop_due_command_id_def deterministic_timeout_command_id_def
      deterministic_denial_command_id_def maintenance_command_digest_def and_then_eq_Inr hash_components_ok
      fence_domain_def fence_bytes_def split: if_splits)+

lemma same_fence_bytes: "same_fence d e \<Longrightarrow> dw_phase d = dw_phase e \<and> fence_bytes d = fence_bytes e"
  using due_components_inj [of "fence_domain d" d "fence_domain e" e]
  by (simp add: fence_bytes_def) (simp add: same_fence_def fence_domain_def)

section \<open>A concrete wait\<close>

definition demo_wait_request :: approval_request where "demo_wait_request = demo_ask\<lparr>aq_id := ''a''\<rparr>"

lemma demo_wait_request [simp]: "aq_id demo_wait_request = ''a''"
  "au_thread_id (aq_authorization demo_wait_request) = ''t''" "au_turn_id (aq_authorization demo_wait_request) = ''u''"
  by (simp_all add: demo_wait_request_def demo_ask_def)

definition demo_envelope :: turn_wait_envelope where
  "demo_envelope = \<lparr>we_wait_id = ''w'', we_revision = 1, we_thread_id = ''t'', we_turn_id = ''u'',
     we_tenant_id = None, we_expires_at_ms = Some 9,
     we_request = demo_wait_request,
     we_envelope_sha256 = replicate 64 CHR ''a''\<rparr>"

definition demo_started :: stored_event where
  "demo_started = \<lparr>se_sequence = 2, se_event_id = ''e2'', se_thread_id = ''t'', se_recorded_at_ms = 5,
     se_event = WaitStarted ''u'' (IkWaitStarted demo_envelope)\<rparr>"

definition demo_row :: wait_projection where
  "demo_row = \<lparr>wp_phase = DpWaiting, wp_tenant_id = None, wp_thread_id = ''t'', wp_turn_id = ''u'',
     wp_wait_id = ''w'', wp_revision = 1, wp_due_at_ms = Some 9, wp_approval_id = ''a'',
     wp_envelope_sha256 = replicate 64 CHR ''a'', wp_wait_started_event_id = ''e2'',
     wp_current_transition_event_id = ''e2'', wp_resume_command_id = None\<rparr>"

definition demo_resume :: resume_evidence where
  "demo_resume = \<lparr>re_wait_id = ''w'', re_previous_revision = 1, re_revision = 2, re_command_id = ''c'',
     re_settlement = \<lparr>as_request = demo_wait_request,
       as_tenant_id = None, as_decision = Deny ''no''\<rparr>, re_accepted_at_ms = 7\<rparr>"

definition demo_denied :: stored_event where
  "demo_denied = \<lparr>se_sequence = 3, se_event_id = ''e3'', se_thread_id = ''t'', se_recorded_at_ms = 7,
     se_event = AcceptResume ''u'' (IkResumeAccepted demo_resume)\<rparr>"

definition demo_denied_row :: wait_projection where
  "demo_denied_row = demo_row\<lparr>wp_phase := DpReadyDeny, wp_revision := 2, wp_due_at_ms := Some 7,
     wp_current_transition_event_id := ''e3'', wp_resume_command_id := Some ''c''\<rparr>"

lemmas demo_wait_defs = demo_envelope_def demo_started_def demo_row_def demo_resume_def demo_denied_def demo_denied_row_def

lemma demo_wait_fields [simp]:
  "st_validate_identity ''t'' = Inr ()" "st_validate_identity ''u'' = Inr ()" "st_validate_identity ''w'' = Inr ()"
  "st_validate_identity ''a'' = Inr ()" "st_validate_identity ''c'' = Inr ()" "st_validate_identity ''e1'' = Inr ()"
  "st_validate_identity ''e2'' = Inr ()" "st_validate_identity ''e3'' = Inr ()" "due_validate_tenant None = Inr ()"
  "is_lower_sha256 (replicate 64 CHR ''a'')"
  by (simp_all add: st_validate_identity_def string_eval MAX_STATE_IDENTITY_BYTES_def due_validate_tenant_def
      is_lower_sha256_def list_all_length is_lower_hex_byte_def str_bytes_def)

lemma demo_row_valid: "projection_validate demo_row = Inr ()" "projection_validate demo_denied_row = Inr ()"
  by (simp_all add: projection_validate_def phase_consistent_def demo_row_def demo_denied_row_def)

lemma demo_wait_started: "projection_change demo_started None = Inr (Upsert demo_row)"
  by (simp add: projection_change_def projection_change_inner_def wait_started_def demo_started_def demo_envelope_def
      flip: demo_row_def add: demo_row_valid)

lemma demo_wait_denied: "projection_change demo_denied (Some demo_row) = Inr (Upsert demo_denied_row)"
proof -
  have "accept_resume demo_denied (Some demo_row) None ''u'' (IkResumeAccepted demo_resume) = Inr (Upsert demo_denied_row)"
    using demo_row_valid(1)
    by (simp add: accept_resume_def require_current_def demo_wait_defs settlement_matches_projection_def checked_add_def)
  then show ?thesis
    by (simp add: projection_change_def projection_change_inner_def demo_denied_def demo_row_valid)
qed

section \<open>Properties\<close>

text \<open>
  C24: The reducer moves a live wait along its life cycle. Every accepted event leaves the row as it is, or
  is the one event its phase allows: a wait starts once, is approved or denied once, an approved one
  is claimed or closed, and an accepted denial can only be finished by a denial, never by a
  timeout or a claim. A row that is kept is valid, belongs to the Thread of the event, keeps its
  coordinates and moves to the next revision; a deleted row is the current one.
\<close>

theorem wait_reducer_lifecycle:
  assumes "projection_change_inner stored current source = Inr change"
  shows "case change of
      Unchanged \<Rightarrow> True
    | Upsert row \<Rightarrow> projection_validate row = Inr () \<and> wp_thread_id row = se_thread_id stored \<and>
        wait_moves (se_event stored) (map_option wp_phase current) (Some (wp_phase row)) \<and>
        (\<forall>previous. current = Some previous \<longrightarrow>
          same_wait previous row \<and> unat (wp_revision row) = Suc (unat (wp_revision previous)))
    | Delete row \<Rightarrow> current = Some row \<and> wp_thread_id row = se_thread_id stored \<and>
        wait_moves (se_event stored) (Some (wp_phase row)) None"
proof (cases change)
  case (Upsert row)
  with projection_change_Upsert [OF assms [unfolded Upsert]] show ?thesis by simp
next
  case (Delete row)
  with projection_change_Delete [OF assms [unfolded Delete]] show ?thesis by simp
qed simp

theorem wait_reducer_lifecycle_witness:
  "projection_change_inner demo_denied (Some demo_row) None = Inr (Upsert demo_denied_row) \<and>
   wait_moves (se_event demo_denied) (Some DpWaiting) (Some DpReadyDeny)"
proof -
  have change: "projection_change_inner demo_denied (Some demo_row) None = Inr (Upsert demo_denied_row)"
    using demo_wait_denied by (simp add: projection_change_def)
  from wait_reducer_lifecycle [OF change] change show ?thesis by (simp add: demo_row_def demo_denied_row_def)
qed

text \<open>
  C25: The identity of a maintenance command names its fence. When SHA-256 does not confuse the two byte strings
  that are hashed for two due waits, the waits get the same command identity exactly when they
  agree on phase, tenant, Thread, Turn, wait, revision, due time, envelope and events: the
  length-framed bytes determine every field, and a timeout and a denial never share an identity.
\<close>

theorem wait_command_identity_binds:
  assumes "agent_loop_due_command_id sha256 d = Inr i" and "agent_loop_due_command_id sha256 e = Inr j"
    and no_collision: "sha256 (fence_bytes d) = sha256 (fence_bytes e) \<Longrightarrow> fence_bytes d = fence_bytes e"
  shows "i = j \<longleftrightarrow> same_fence d e"
proof
  note d = due_command_id_ok [OF assms(1)] and e = due_command_id_ok [OF assms(2)]
  show "i = j" if "same_fence d e"
    using same_fence_bytes [OF that] d(1) e(1) by simp
  assume "i = j"
  with d(1) e(1) have "lower_hex (sha256 (fence_bytes d)) = lower_hex (sha256 (fence_bytes e))"
    by (auto split: if_splits)
  then have "fence_bytes d = fence_bytes e" using no_collision lower_hex_inj by blast
  with framing_injective [OF _ d(2) e(2)] show "same_fence d e"
    by (simp add: fence_bytes_def due_components_inj)
qed

definition demo_due :: "string \<Rightarrow> due_wait_row" where
  "demo_due turn = \<lparr>dw_phase = DpWaiting, dw_tenant_id = None, dw_thread_id = ''t'', dw_turn_id = turn,
     dw_wait_id = ''w'', dw_revision = 1, dw_due_at_ms = 9, dw_envelope_sha256 = replicate 64 CHR ''a'',
     dw_wait_started_event_id = ''e2'', dw_current_transition_event_id = ''e2'',
     dw_expected_stream_version = 2, dw_expected_stream_recovery_bytes = 5\<rparr>"

text \<open>A hash of 32 bytes that tells one row from the others.\<close>

definition demo_due_sha256 :: "bytes \<Rightarrow> bytes" where
  "demo_due_sha256 b = replicate 32 (if b = fence_bytes (demo_due ''u'') then CHR ''a'' else CHR ''b'')"

lemma demo_due_command:
  assumes "st_validate_identity turn = Inr ()" and "length turn < 2 ^ 64"
  shows "\<exists>i. agent_loop_due_command_id sha256 (demo_due turn) = Inr i"
proof -
  have "hash_components [] (due_components TIMEOUT_COMMAND_DOMAIN (demo_due turn))
      = Inr (concat (map framed (due_components TIMEOUT_COMMAND_DOMAIN (demo_due turn))))"
    using assms(2) by (simp add: hash_components_ok due_components_def demo_due_def TIMEOUT_COMMAND_DOMAIN_def)
  then have "\<exists>digest. maintenance_command_digest sha256 TIMEOUT_COMMAND_DOMAIN (demo_due turn) = Inr digest"
    by (simp add: maintenance_command_digest_def) (simp add: TIMEOUT_COMMAND_DOMAIN_def MAX_STATE_IDENTITY_BYTES_def)
  moreover have "row_validate (demo_due turn) (dw_due_at_ms (demo_due turn)) (dw_tenant_id (demo_due turn)) = Inr ()"
    using assms(1) by (simp add: row_validate_def demo_due_def)
  moreover have "dw_phase (demo_due turn) = DpWaiting" by (simp add: demo_due_def)
  ultimately show ?thesis by (auto simp: agent_loop_due_command_id_def deterministic_timeout_command_id_def)
qed

theorem wait_command_identity_binds_witness:
  "\<exists>i j. agent_loop_due_command_id demo_due_sha256 (demo_due ''u'') = Inr i \<and>
     agent_loop_due_command_id demo_due_sha256 (demo_due ''t'') = Inr j \<and> i \<noteq> j"
proof -
  obtain i j where ids: "agent_loop_due_command_id demo_due_sha256 (demo_due ''u'') = Inr i"
    "agent_loop_due_command_id demo_due_sha256 (demo_due ''t'') = Inr j"
    using demo_due_command [of "''u''" demo_due_sha256] demo_due_command [of "''t''" demo_due_sha256] by auto
  have "demo_due_sha256 (fence_bytes (demo_due ''u'')) = demo_due_sha256 b \<Longrightarrow> fence_bytes (demo_due ''u'') = b" for b
    by (simp add: demo_due_sha256_def split: if_splits)
  from wait_command_identity_binds [OF ids this] have "i = j \<longleftrightarrow> same_fence (demo_due ''u'') (demo_due ''t'')" by blast
  then have "i \<noteq> j" by (simp add: same_fence_def demo_due_def)
  with ids show ?thesis by blast
qed

end
