(* ===== verification/Event_Store.thy ===== *)
theory Event_Store
  imports Wait_Due Revision_Store
begin

text \<open>
  The memory Event Store of \<^verbatim>\<open>state/mod.rs\<close>: a global journal with one stream per Thread, the
  optimistic checks of an append, the live waits of \<open>Wait_Due\<close> with their due index, and the bounded
  scan for due waits. The content of an event is checked and encoded by functions that depend on
  every kind of item; here they are the parameter \<open>content\<close>, which refuses an event or gives
  the size of its encoding. Names, lineages, tenants and snapshots of streams are left out.
\<close>

section \<open>Data\<close>

definition STATE_EVENT_RECOVERY_OVERHEAD_BYTES :: u64 where "STATE_EVENT_RECOVERY_OVERHEAD_BYTES = 512"
definition STATE_THREAD_RECOVERY_BYTE_LIMIT :: u64 where "STATE_THREAD_RECOVERY_BYTE_LIMIT = 67108864"
definition STATE_TERMINAL_RECOVERY_BYTE_RESERVE :: u64 where "STATE_TERMINAL_RECOVERY_BYTE_RESERVE = 1048576"
definition STATE_THREAD_EVENT_LIMIT :: u64 where "STATE_THREAD_EVENT_LIMIT = 1000000"
definition STATE_TERMINAL_EVENT_RESERVE :: u64 where "STATE_TERMINAL_EVENT_RESERVE = 1"

record pending_event =
  pe_event_id :: string
  pe_thread_id :: string
  pe_expected_stream_version :: u64
  pe_expected_stream_recovery_bytes :: u64
  pe_recorded_at_ms :: u64
  pe_event :: state_event

text \<open>A \<open>BTreeSet\<close> is the strictly increasing list of its elements.\<close>

record memory_store =
  ms_events :: "stored_event list"
  ms_event_positions :: "(string, usize) btree_map"
  ms_stream_versions :: "(string, u64) btree_map"
  ms_stream_recovery_bytes :: "(string, u64) btree_map"
  ms_agent_loop_waits :: "(string, wait_projection) btree_map"
  ms_agent_loop_due :: "due_index_key list"

definition memory_store_empty :: memory_store where
  "memory_store_empty = \<lparr>ms_events = [], ms_event_positions = [], ms_stream_versions = [],
     ms_stream_recovery_bytes = [], ms_agent_loop_waits = [], ms_agent_loop_due = []\<rparr>"

datatype append_disposition = AppendApplied | AppendDuplicate

definition bm_remove :: "'k \<Rightarrow> ('k, 'v) btree_map \<Rightarrow> ('k, 'v) btree_map" where
  "bm_remove k m = filter (\<lambda>(k', _). k' \<noteq> k) m"

definition bm_get_or :: "'v \<Rightarrow> ('k, 'v) btree_map \<Rightarrow> 'k \<Rightarrow> 'v" where
  "bm_get_or d m k = (case bm_get m k of None \<Rightarrow> d | Some v \<Rightarrow> v)"

section \<open>Appending\<close>

definition validate_state_id :: "string \<Rightarrow> unit result" where
  "validate_state_id value =
     (if value = [] \<or> length value > 256 \<or> has_control value then Inl (State St_bad_id) else Inr ())"

fun is_settlement :: "state_event \<Rightarrow> bool" where
  "is_settlement (TurnFinished _) = True"
| "is_settlement (TurnCompleted _) = True"
| "is_settlement (WaitClosed _ _) = True"
| "is_settlement (DenyWait _ _) = True"
| "is_settlement _ = False"

definition encoded_recovery_bytes :: "(state_event \<Rightarrow> u64 result) \<Rightarrow> state_event \<Rightarrow> u64 result" where
  "encoded_recovery_bytes content event =
     and_then (content event) (\<lambda>encoded_bytes.
     ok_or (State St_recovery_overflow) (checked_add encoded_bytes STATE_EVENT_RECOVERY_OVERHEAD_BYTES))"

definition validate_pending_event :: "(state_event \<Rightarrow> u64 result) \<Rightarrow> pending_event \<Rightarrow> u64 result" where
  "validate_pending_event content pending =
     and_then (validate_state_id (pe_event_id pending)) (\<lambda>_.
     and_then (validate_state_id (pe_thread_id pending)) (\<lambda>_.
     if pe_expected_stream_version pending \<ge> STATE_THREAD_EVENT_LIMIT then Inl (State St_event_limit)
     else if pe_expected_stream_version pending \<ge> STATE_THREAD_EVENT_LIMIT - STATE_TERMINAL_EVENT_RESERVE \<and>
             \<not> is_settlement (pe_event pending)
     then Inl (State St_terminal_reserve)
     else
     and_then (encoded_recovery_bytes content (pe_event pending)) (\<lambda>recovery_bytes.
     and_then (ok_or (State St_recovery_overflow)
       (checked_add (pe_expected_stream_recovery_bytes pending) recovery_bytes)) (\<lambda>next_recovery_bytes.
     let limit = (if is_settlement (pe_event pending) then STATE_THREAD_RECOVERY_BYTE_LIMIT
           else STATE_THREAD_RECOVERY_BYTE_LIMIT - STATE_TERMINAL_RECOVERY_BYTE_RESERVE) in
     if next_recovery_bytes > limit then Inl (State St_recovery_limit)
     else Inr recovery_bytes))))"

definition matching_existing :: "stored_event \<Rightarrow> pending_event \<Rightarrow> stored_event result" where
  "matching_existing existing pending =
     (if se_thread_id existing = pe_thread_id pending \<and>
         se_recorded_at_ms existing = pe_recorded_at_ms pending \<and> se_event existing = pe_event pending
      then Inr existing else Inl (State (St_event_reused (pe_event_id pending))))"

definition validate_stream_version :: "u64 \<Rightarrow> pending_event \<Rightarrow> unit result" where
  "validate_stream_version actual pending =
     (if actual = pe_expected_stream_version pending then Inr ()
      else Inl (StateConflict (pe_thread_id pending) (pe_expected_stream_version pending) actual))"

definition validate_stream_recovery_bytes :: "u64 \<Rightarrow> pending_event \<Rightarrow> unit result" where
  "validate_stream_recovery_bytes actual pending =
     (if actual = pe_expected_stream_recovery_bytes pending then Inr ()
      else Inl (State (St_recovery_mismatch (pe_expected_stream_recovery_bytes pending) actual)))"

definition validate_thread_existence :: "bool \<Rightarrow> pending_event \<Rightarrow> unit result" where
  "validate_thread_existence thread_exists pending =
     (if pe_event pending = ThreadCreated
      then if thread_exists then Inl (State (St_thread_exists (pe_thread_id pending))) else Inr ()
      else if thread_exists then Inr () else Inl (State (St_no_thread (pe_thread_id pending))))"

fun due_remove :: "due_index_key option \<Rightarrow> due_index_key list \<Rightarrow> due_index_key list" where
  "due_remove None due = due"
| "due_remove (Some key) due = filter (\<lambda>k. k \<noteq> key) due"

fun due_insert :: "due_index_key option \<Rightarrow> due_index_key list \<Rightarrow> due_index_key list" where
  "due_insert None due = due"
| "due_insert (Some key) due = insort_insert key due"

fun apply_memory_wait_projection :: "memory_store \<Rightarrow> projection_change \<Rightarrow> memory_store" where
  "apply_memory_wait_projection data Unchanged = data"
| "apply_memory_wait_projection data (Upsert nxt) =
     data\<lparr>ms_agent_loop_due := due_insert (due_index_key nxt)
            (due_remove (Option.bind (bm_get (ms_agent_loop_waits data) (wp_thread_id nxt)) due_index_key)
              (ms_agent_loop_due data)),
          ms_agent_loop_waits := bm_insert (wp_thread_id nxt) nxt (ms_agent_loop_waits data)\<rparr>"
| "apply_memory_wait_projection data (Delete previous) =
     data\<lparr>ms_agent_loop_due := due_remove (due_index_key previous) (ms_agent_loop_due data),
          ms_agent_loop_waits := bm_remove (wp_thread_id previous) (ms_agent_loop_waits data)\<rparr>"

definition append_classified ::
  "(state_event \<Rightarrow> u64 result) \<Rightarrow> memory_store \<Rightarrow> pending_event \<Rightarrow>
   (memory_store \<times> stored_event \<times> append_disposition) result" where
  "append_classified content data pending =
     and_then (validate_pending_event content pending) (\<lambda>recovery_bytes.
     case bm_get (ms_event_positions data) (pe_event_id pending) of
       Some position \<Rightarrow>
         if position < length (ms_events data)
         then and_then (matching_existing (ms_events data ! position) pending) (\<lambda>stored.
           Inr (data, stored, AppendDuplicate))
         else Inl (State St_position_corrupt)
     | None \<Rightarrow>
         let thread_id = pe_thread_id pending;
             actual_stream_version = bm_get_or 0 (ms_stream_versions data) thread_id in
         and_then (validate_stream_version actual_stream_version pending) (\<lambda>_.
         let actual_recovery_bytes = bm_get_or 0 (ms_stream_recovery_bytes data) thread_id in
         and_then (validate_stream_recovery_bytes actual_recovery_bytes pending) (\<lambda>_.
         and_then (validate_thread_existence (actual_stream_version > 0) pending) (\<lambda>_.
         and_then (ok_or (State St_version_overflow) (checked_add actual_stream_version 1)) (\<lambda>next_stream_version.
         and_then (ok_or (State St_recovery_overflow) (checked_add actual_recovery_bytes recovery_bytes))
           (\<lambda>next_recovery_bytes.
         and_then (ok_or (State St_sequence_overflow)
           (Option.bind (u64_of_usize (length (ms_events data))) (\<lambda>n. checked_add n 1))) (\<lambda>next_sequence.
         let stored = \<lparr>se_sequence = next_sequence, se_event_id = pe_event_id pending,
               se_thread_id = thread_id, se_recorded_at_ms = pe_recorded_at_ms pending,
               se_event = pe_event pending\<rparr> in
         and_then (projection_change stored (bm_get (ms_agent_loop_waits data) thread_id)) (\<lambda>wait_change.
         let data = apply_memory_wait_projection data wait_change in
         Inr (data\<lparr>ms_stream_versions := bm_insert thread_id next_stream_version (ms_stream_versions data),
                ms_stream_recovery_bytes := bm_insert thread_id next_recovery_bytes (ms_stream_recovery_bytes data),
                ms_event_positions := bm_insert (pe_event_id pending) (length (ms_events data))
                  (ms_event_positions data),
                ms_events := ms_events data @ [stored]\<rparr>, stored, AppendApplied)))))))))"

section \<open>The due scan\<close>

fun scan_rows ::
  "memory_store \<Rightarrow> string option \<Rightarrow> u64 \<Rightarrow> usize \<Rightarrow> due_index_key list \<Rightarrow> due_wait_row list \<Rightarrow>
   due_wait_row list result" where
  "scan_rows data tenant at_ms scan_limit [] due = Inr due"
| "scan_rows data tenant at_ms scan_limit ((key_tenant, due_at_ms, thread_id, coordinates) # keys) due =
     (if key_tenant \<noteq> tenant \<or> due_at_ms > at_ms then Inr due
      else
      and_then (ok_or (State St_index_without_row) (bm_get (ms_agent_loop_waits data) thread_id)) (\<lambda>projection.
      if due_index_key projection \<noteq> Some (key_tenant, due_at_ms, thread_id, coordinates)
      then Inl (State St_index_differs)
      else
      and_then (ok_or (State St_no_stream_version) (bm_get (ms_stream_versions data) thread_id)) (\<lambda>stream_version.
      and_then (ok_or (State St_no_recovery_fence) (bm_get (ms_stream_recovery_bytes data) thread_id))
        (\<lambda>recovery_bytes.
      and_then (projection_due_wait projection stream_version recovery_bytes) (\<lambda>row.
      let due = due @ [row] in
      if length due > scan_limit then Inr due
      else scan_rows data tenant at_ms scan_limit keys due)))))"

definition after_start :: "string option \<Rightarrow> due_cursor option \<Rightarrow> due_index_key \<Rightarrow> bool" where
  "after_start tenant after key =
     (case after of
        Some c \<Rightarrow> (tenant, cursor_key c) < key
      | None \<Rightarrow> (tenant, 0, [], [], []) \<le> key)"

definition scan_due_agent_loop_waits ::
  "memory_store \<Rightarrow> string option \<Rightarrow> u64 \<Rightarrow> due_cursor option \<Rightarrow> usize \<Rightarrow> due_wait_page result" where
  "scan_due_agent_loop_waits data tenant at_ms after scan_limit =
     and_then (validate_due_scan_request at_ms after scan_limit tenant) (\<lambda>_.
     and_then (scan_rows data tenant at_ms scan_limit
       (filter (after_start tenant after) (ms_agent_loop_due data)) []) (\<lambda>due.
     let has_more = length due > scan_limit;
         due = (if has_more then butlast due else due);
         next_cursor = (if due = [] then None else Some (row_cursor (last due)));
         page = \<lparr>dp_due = due, dp_next_cursor = next_cursor, dp_has_more = has_more, dp_scanned = length due\<rparr> in
     and_then (page_validate page at_ms after scan_limit tenant) (\<lambda>_. Inr page)))"

section \<open>Steps\<close>

inductive event_store_step :: "(state_event \<Rightarrow> u64 result) \<Rightarrow> memory_store \<Rightarrow> memory_store \<Rightarrow> bool" for content where
  event_appended: "append_classified content data pending = Inr (data', stored, disposition) \<Longrightarrow>
    event_store_step content data data'"

definition stored_of :: "memory_store \<Rightarrow> pending_event \<Rightarrow> stored_event" where
  "stored_of data pending = \<lparr>se_sequence = of_nat (Suc (length (ms_events data))), se_event_id = pe_event_id pending,
     se_thread_id = pe_thread_id pending, se_recorded_at_ms = pe_recorded_at_ms pending, se_event = pe_event pending\<rparr>"

definition journalled :: "memory_store \<Rightarrow> pending_event \<Rightarrow> u64 \<Rightarrow> u64 \<Rightarrow> memory_store \<Rightarrow> memory_store" where
  "journalled old pending version recovery data =
     data\<lparr>ms_stream_versions := bm_insert (pe_thread_id pending) version (ms_stream_versions old),
       ms_stream_recovery_bytes := bm_insert (pe_thread_id pending) recovery (ms_stream_recovery_bytes old),
       ms_event_positions := bm_insert (pe_event_id pending) (length (ms_events old)) (ms_event_positions old),
       ms_events := ms_events old @ [stored_of old pending]\<rparr>"

lemma apply_wait_frame [simp]:
  "ms_events (apply_memory_wait_projection data change) = ms_events data"
  "ms_event_positions (apply_memory_wait_projection data change) = ms_event_positions data"
  "ms_stream_versions (apply_memory_wait_projection data change) = ms_stream_versions data"
  "ms_stream_recovery_bytes (apply_memory_wait_projection data change) = ms_stream_recovery_bytes data"
  by (cases change; simp)+

lemma validate_thread_existence_ok:
  "validate_thread_existence known pending = Inr u \<longleftrightarrow> (pe_event pending = ThreadCreated \<longleftrightarrow> \<not> known)"
  by (simp add: validate_thread_existence_def)

lemma append_classified_okE:
  assumes "append_classified content data pending = Inr (data', stored, disposition)"
  obtains
    (known) position where "disposition = AppendDuplicate" "data' = data"
      "bm_get (ms_event_positions data) (pe_event_id pending) = Some position"
      "position < length (ms_events data)" "stored = ms_events data ! position"
      "se_thread_id stored = pe_thread_id pending" "se_recorded_at_ms stored = pe_recorded_at_ms pending"
      "se_event stored = pe_event pending"
  | (appended) bytes version recovery change where "disposition = AppendApplied"
      "bm_get (ms_event_positions data) (pe_event_id pending) = None"
      "validate_pending_event content pending = Inr bytes"
      "bm_get_or 0 (ms_stream_versions data) (pe_thread_id pending) = pe_expected_stream_version pending"
      "bm_get_or 0 (ms_stream_recovery_bytes data) (pe_thread_id pending) = pe_expected_stream_recovery_bytes pending"
      "pe_event pending = ThreadCreated \<longleftrightarrow> pe_expected_stream_version pending = 0"
      "unat version = Suc (unat (pe_expected_stream_version pending))"
      "unat recovery = unat (pe_expected_stream_recovery_bytes pending) + unat bytes"
      "Suc (length (ms_events data)) < 2 ^ 64"
      "stored = stored_of data pending"
      "projection_change stored (bm_get (ms_agent_loop_waits data) (pe_thread_id pending)) = Inr change"
      "data' = journalled data pending version recovery (apply_memory_wait_projection data change)"
proof (cases "bm_get (ms_event_positions data) (pe_event_id pending)")
  case (Some position)
  with assms known show ?thesis
    by (auto simp: append_classified_def matching_existing_def and_then_eq_Inr split: if_splits)
next
  case None
  from assms None obtain bytes version recovery sq change where facts:
    "validate_pending_event content pending = Inr bytes"
    "bm_get_or 0 (ms_stream_versions data) (pe_thread_id pending) = pe_expected_stream_version pending"
    "bm_get_or 0 (ms_stream_recovery_bytes data) (pe_thread_id pending) = pe_expected_stream_recovery_bytes pending"
    "pe_event pending = ThreadCreated \<longleftrightarrow> pe_expected_stream_version pending = 0"
    "unat version = Suc (unat (pe_expected_stream_version pending))"
    "unat recovery = unat (pe_expected_stream_recovery_bytes pending) + unat bytes"
    and sq: "unat sq = Suc (length (ms_events data))"
    and rest: "stored = \<lparr>se_sequence = sq, se_event_id = pe_event_id pending, se_thread_id = pe_thread_id pending,
        se_recorded_at_ms = pe_recorded_at_ms pending, se_event = pe_event pending\<rparr>"
      "projection_change stored (bm_get (ms_agent_loop_waits data) (pe_thread_id pending)) = Inr change"
      "disposition = AppendApplied"
      "data' = (apply_memory_wait_projection data change)\<lparr>
          ms_stream_versions := bm_insert (pe_thread_id pending) version (ms_stream_versions data),
          ms_stream_recovery_bytes := bm_insert (pe_thread_id pending) recovery (ms_stream_recovery_bytes data),
          ms_event_positions := bm_insert (pe_event_id pending) (length (ms_events data)) (ms_event_positions data),
          ms_events := ms_events data @ [stored]\<rparr>"
    by (auto simp: append_classified_def Let_def ok_iff validate_stream_version_def next_number_Some word_gt_0
        validate_stream_recovery_bytes_def validate_thread_existence_ok split: if_splits)
  have bound: "Suc (length (ms_events data)) < 2 ^ 64" using sq unsigned_less [of sq, where ?'a = nat] by simp
  have "sq = of_nat (Suc (length (ms_events data)))"
    using sq unat_of_nat_u64 [OF bound] by (metis word_unat_eq_iff)
  with rest have "stored = stored_of data pending" by (simp add: stored_of_def)
  with facts rest bound None show ?thesis
    by (intro appended [of bytes version recovery change]) (simp_all add: journalled_def)
qed

section \<open>The journal\<close>

definition stream :: "memory_store \<Rightarrow> string \<Rightarrow> stored_event list" where
  "stream data thread = filter (\<lambda>e. se_thread_id e = thread) (ms_events data)"

definition positions_ok :: "memory_store \<Rightarrow> bool" where
  "positions_ok data \<longleftrightarrow> (\<forall>i p. bm_get (ms_event_positions data) i = Some p \<longleftrightarrow>
     p < length (ms_events data) \<and> se_event_id (ms_events data ! p) = i)"

definition sequences_ok :: "memory_store \<Rightarrow> bool" where
  "sequences_ok data \<longleftrightarrow> (\<forall>p < length (ms_events data). unat (se_sequence (ms_events data ! p)) = Suc p)"

definition stream_ok :: "memory_store \<Rightarrow> string \<Rightarrow> bool" where
  "stream_ok data thread \<longleftrightarrow>
     unat (bm_get_or 0 (ms_stream_versions data) thread) = length (stream data thread) \<and>
     (bm_get (ms_stream_versions data) thread = None \<longleftrightarrow> stream data thread = []) \<and>
     (stream data thread \<noteq> [] \<longrightarrow>
       (\<exists>b. bm_get (ms_stream_recovery_bytes data) thread = Some b \<and> b \<noteq> 0 \<and> b \<le> STATE_THREAD_RECOVERY_BYTE_LIMIT) \<and>
       se_event (hd (stream data thread)) = ThreadCreated) \<and>
     ThreadCreated \<notin> set (map se_event (tl (stream data thread))) \<and>
     length (stream data thread) \<le> 1000000"

lemma bm_get_or_insert: "bm_get_or d (bm_insert k v m) k' = (if k' = k then v else bm_get_or d m k')"
  by (simp add: bm_get_or_def bm_get_insert)

lemma journalled_sel [simp]:
  "ms_events (journalled old pending v r data) = ms_events old @ [stored_of old pending]"
  "ms_event_positions (journalled old pending v r data) =
     bm_insert (pe_event_id pending) (length (ms_events old)) (ms_event_positions old)"
  "ms_stream_versions (journalled old pending v r data) = bm_insert (pe_thread_id pending) v (ms_stream_versions old)"
  "ms_stream_recovery_bytes (journalled old pending v r data) =
     bm_insert (pe_thread_id pending) r (ms_stream_recovery_bytes old)"
  "ms_agent_loop_waits (journalled old pending v r data) = ms_agent_loop_waits data"
  "ms_agent_loop_due (journalled old pending v r data) = ms_agent_loop_due data"
  by (simp_all add: journalled_def)

lemma stored_of_sel [simp]:
  "se_event_id (stored_of data pending) = pe_event_id pending"
  "se_thread_id (stored_of data pending) = pe_thread_id pending"
  "se_event (stored_of data pending) = pe_event pending"
  "se_recorded_at_ms (stored_of data pending) = pe_recorded_at_ms pending"
  by (simp_all add: stored_of_def)

lemma stream_journalled:
  "stream (journalled old pending v r data) thread =
     (if thread = pe_thread_id pending then stream old thread @ [stored_of old pending] else stream old thread)"
  by (simp add: stream_def)

lemma reserve_below:
  "n \<le> STATE_THREAD_RECOVERY_BYTE_LIMIT - STATE_TERMINAL_RECOVERY_BYTE_RESERVE \<Longrightarrow> n \<le> STATE_THREAD_RECOVERY_BYTE_LIMIT"
  by (simp add: STATE_THREAD_RECOVERY_BYTE_LIMIT_def STATE_TERMINAL_RECOVERY_BYTE_RESERVE_def word_le_nat_alt)

lemma validate_pending_event_ok:
  assumes "validate_pending_event content pending = Inr bytes"
  shows "bytes \<noteq> 0" "pe_expected_stream_version pending < STATE_THREAD_EVENT_LIMIT"
    "unat (pe_expected_stream_recovery_bytes pending) + unat bytes \<le> unat STATE_THREAD_RECOVERY_BYTE_LIMIT"
proof -
  from assms obtain n where limits: "pe_expected_stream_version pending < STATE_THREAD_EVENT_LIMIT"
      "unat n = unat (pe_expected_stream_recovery_bytes pending) + unat bytes"
    and charge: "encoded_recovery_bytes content (pe_event pending) = Inr bytes"
    and le: "n \<le> STATE_THREAD_RECOVERY_BYTE_LIMIT"
    by (auto simp: validate_pending_event_def ok_iff Let_def not_le not_less intro: reserve_below split: if_splits)
  from charge show "bytes \<noteq> 0"
    by (auto simp: encoded_recovery_bytes_def ok_iff STATE_EVENT_RECOVERY_OVERHEAD_BYTES_def)
  show "pe_expected_stream_version pending < STATE_THREAD_EVENT_LIMIT" by (rule limits(1))
  show "unat (pe_expected_stream_recovery_bytes pending) + unat bytes \<le> unat STATE_THREAD_RECOVERY_BYTE_LIMIT"
    using le limits(2) by (simp add: word_le_nat_alt)
qed

lemma positions_ok_appended:
  assumes "positions_ok old" and "bm_get (ms_event_positions old) (pe_event_id pending) = None"
  shows "positions_ok (journalled old pending v r data)"
  unfolding positions_ok_def
proof (intro allI)
  fix i p
  have fresh: "se_event_id (ms_events old ! q) \<noteq> pe_event_id pending" if "q < length (ms_events old)" for q
    using assms that unfolding positions_ok_def by (metis option.distinct(1))
  show "bm_get (ms_event_positions (journalled old pending v r data)) i = Some p \<longleftrightarrow>
      p < length (ms_events (journalled old pending v r data)) \<and>
      se_event_id (ms_events (journalled old pending v r data) ! p) = i"
    using assms fresh unfolding positions_ok_def
    by (auto simp: bm_get_insert nth_append less_Suc_eq)
qed

lemma sequences_ok_appended:
  "sequences_ok old \<Longrightarrow> Suc (length (ms_events old)) < 2 ^ 64 \<Longrightarrow> sequences_ok (journalled old pending v r data)"
  using unat_of_nat_u64 [of "Suc (length (ms_events old))"]
  by (auto simp: sequences_ok_def nth_append less_Suc_eq stored_of_def)

lemma stream_ok_appended:
  assumes "stream_ok old thread" and "stream_ok old (pe_thread_id pending)"
    and "validate_pending_event content pending = Inr bytes"
    and "bm_get_or 0 (ms_stream_versions old) (pe_thread_id pending) = pe_expected_stream_version pending"
    and "pe_event pending = ThreadCreated \<longleftrightarrow> pe_expected_stream_version pending = 0"
    and "unat v = Suc (unat (pe_expected_stream_version pending))"
    and "unat r = unat (pe_expected_stream_recovery_bytes pending) + unat bytes"
  shows "stream_ok (journalled old pending v r data) thread"
proof (cases "thread = pe_thread_id pending")
  case True
  note bounds = validate_pending_event_ok [OF assms(3)]
  have len: "unat (pe_expected_stream_version pending) = length (stream old thread)"
    using assms(1,4) True by (simp add: stream_ok_def)
  then have first: "pe_event pending = ThreadCreated \<longleftrightarrow> stream old thread = []"
    using assms(5) by (metis length_0_conv unat_eq_zero)
  have "r \<noteq> 0" "r \<le> STATE_THREAD_RECOVERY_BYTE_LIMIT"
    using bounds(1,3) assms(7) by (auto simp: word_le_nat_alt unat_eq_zero)
  moreover have "length (stream old thread) < 1000000"
    using bounds(2) len by (simp add: word_less_nat_alt STATE_THREAD_EVENT_LIMIT_def)
  ultimately show ?thesis
    using assms(1,6) first len True
    by (cases "stream old thread")
      (auto simp: stream_ok_def stream_journalled bm_get_insert bm_get_or_insert)
qed (use assms(1) in \<open>simp add: stream_ok_def stream_journalled bm_get_insert bm_get_or_insert\<close>)

section \<open>Live waits and their index\<close>

lemma set_due_remove [simp]: "set (due_remove k due) = set due - set_option k"
  by (cases k) auto

lemma set_due_insert [simp]: "set (due_insert k due) = set due \<union> set_option k"
  by (cases k) (auto simp: set_insort_insert)

lemma due_order_kept:
  "sorted due \<Longrightarrow> distinct due \<Longrightarrow> sorted (due_remove k due) \<and> distinct (due_remove k due)"
  "sorted due \<Longrightarrow> distinct due \<Longrightarrow> sorted (due_insert k due) \<and> distinct (due_insert k due)"
  by (cases k; simp add: sorted_wrt_filter sorted_insort_insert distinct_insort_insert)+

lemma bm_get_remove: "bm_get (bm_remove k m) k' = (if k' = k then None else bm_get m k')"
  unfolding bm_get_def bm_remove_def by (induction m) auto

definition row_ok :: "string \<Rightarrow> wait_projection \<Rightarrow> bool" where
  "row_ok thread row \<longleftrightarrow> wp_thread_id row = thread \<and> projection_validate row = Inr ()"

definition row_keys :: "(string, wait_projection) btree_map \<Rightarrow> string \<Rightarrow> due_index_key set" where
  "row_keys waits thread = set_option (Option.bind (bm_get waits thread) due_index_key)"

definition waits_ok :: "memory_store \<Rightarrow> bool" where
  "waits_ok data \<longleftrightarrow> sorted (ms_agent_loop_due data) \<and> distinct (ms_agent_loop_due data) \<and>
     (\<forall>thread row. bm_get (ms_agent_loop_waits data) thread = Some row \<longrightarrow> row_ok thread row) \<and>
     set (ms_agent_loop_due data) = (\<Union>thread. row_keys (ms_agent_loop_waits data) thread)"

lemma row_keys_thread:
  "(\<And>row. bm_get waits t = Some row \<Longrightarrow> wp_thread_id row = t) \<Longrightarrow> key \<in> row_keys waits t \<Longrightarrow>
   fst (snd (snd key)) = t"
  by (auto simp: row_keys_def due_index_key_def Option.bind_eq_Some_conv)

lemma index_updated:
  assumes rows: "\<And>t row. bm_get waits t = Some row \<Longrightarrow> wp_thread_id row = t"
    and kept: "\<And>t. t \<noteq> thread \<Longrightarrow> bm_get waits' t = bm_get waits t"
  shows "(\<Union>t. row_keys waits' t) = (\<Union>t. row_keys waits t) - row_keys waits thread \<union> row_keys waits' thread"
proof -
  have same: "row_keys waits' t = row_keys waits t" if "t \<noteq> thread" for t
    using kept [OF that] by (simp add: row_keys_def)
  have apart: "row_keys waits t \<inter> row_keys waits thread = {}" if "t \<noteq> thread" for t
    using row_keys_thread [of waits t] row_keys_thread [of waits thread] rows that by blast
  have "(\<Union>t. row_keys waits' t) = (\<Union>t\<in>UNIV - {thread}. row_keys waits' t) \<union> row_keys waits' thread"
    by fast
  also have "(\<Union>t\<in>UNIV - {thread}. row_keys waits' t) = (\<Union>t\<in>UNIV - {thread}. row_keys waits t)"
    by (rule SUP_cong [OF refl]) (simp add: same)
  also have "\<dots> = (\<Union>t. row_keys waits t) - row_keys waits thread"
    using apart by fast
  finally show ?thesis .
qed

lemma waits_ok_changed:
  assumes ok: "waits_ok data" and thread: "thread = se_thread_id stored"
    and change: "projection_change stored (bm_get (ms_agent_loop_waits data) thread) = Inr change"
  shows "waits_ok (apply_memory_wait_projection data change)"
proof (cases change)
  case (Upsert row)
  let ?waits = "ms_agent_loop_waits data"
  from change Upsert have row: "projection_validate row = Inr ()" "wp_thread_id row = thread"
    using projection_change_Upsert(1,2) thread by (simp_all add: projection_change_def)
  have "(\<Union>t. row_keys (bm_insert thread row ?waits) t) =
      (\<Union>t. row_keys ?waits t) - row_keys ?waits thread \<union> row_keys (bm_insert thread row ?waits) thread"
    by (rule index_updated) (use ok in \<open>auto simp: waits_ok_def row_ok_def bm_get_insert\<close>)
  then show ?thesis
    using ok row by (simp add: waits_ok_def Upsert due_order_kept bm_get_insert row_ok_def row_keys_def)
next
  case (Delete row)
  let ?waits = "ms_agent_loop_waits data"
  from change Delete have row: "bm_get ?waits thread = Some row" "wp_thread_id row = thread"
    using projection_change_Delete(1,2) thread by (simp_all add: projection_change_def)
  have "(\<Union>t. row_keys (bm_remove thread ?waits) t) =
      (\<Union>t. row_keys ?waits t) - row_keys ?waits thread \<union> row_keys (bm_remove thread ?waits) thread"
    by (rule index_updated) (use ok in \<open>auto simp: waits_ok_def row_ok_def bm_get_remove\<close>)
  then show ?thesis
    using ok row by (simp add: waits_ok_def Delete due_order_kept bm_get_remove row_keys_def)
qed (use ok in simp)

definition event_store_inv :: "memory_store \<Rightarrow> bool" where
  "event_store_inv data \<longleftrightarrow> positions_ok data \<and> sequences_ok data \<and> (\<forall>thread. stream_ok data thread) \<and>
     waits_ok data \<and>
     (\<forall>thread. bm_get (ms_agent_loop_waits data) thread \<noteq> None \<longrightarrow> bm_get (ms_stream_versions data) thread \<noteq> None)"

lemma event_store_inv_appended:
  assumes inv: "event_store_inv data" and append: "append_classified content data pending = Inr (data', stored, disposition)"
  shows "event_store_inv data'"
  using append
proof (cases rule: append_classified_okE)
  case known
  with inv show ?thesis by simp
next
  case (appended bytes version recovery change)
  let ?thread = "pe_thread_id pending"
  have changed: "waits_ok (apply_memory_wait_projection data change)"
    by (rule waits_ok_changed) (use inv appended in \<open>simp_all add: event_store_inv_def\<close>)
  then have waits: "waits_ok data'" by (simp add: appended waits_ok_def)
  have "bm_get (ms_agent_loop_waits (apply_memory_wait_projection data change)) t = bm_get (ms_agent_loop_waits data) t"
    if "t \<noteq> ?thread" for t
    using that appended(10,11) projection_change_Upsert(2) projection_change_Delete(2)
    by (cases change) (auto simp: projection_change_def bm_get_insert bm_get_remove)
  then have streams: "bm_get (ms_stream_versions data') t \<noteq> None" if "bm_get (ms_agent_loop_waits data') t \<noteq> None" for t
    using that inv unfolding event_store_inv_def appended(12)
    by (cases "t = ?thread") (auto simp: bm_get_insert)
  have "positions_ok data'" "sequences_ok data'"
    using inv appended positions_ok_appended sequences_ok_appended by (simp_all add: event_store_inv_def)
  moreover have "stream_ok data' t" for t
    unfolding appended(12)
    by (rule stream_ok_appended [OF _ _ appended(3,4,6,7,8)]) (use inv in \<open>simp_all add: event_store_inv_def\<close>)
  ultimately show ?thesis using waits streams unfolding event_store_inv_def by blast
qed

lemma event_store_inv_reachable:
  "(event_store_step content)\<^sup>*\<^sup>* memory_store_empty data \<Longrightarrow> event_store_inv data"
proof (induction rule: rtranclp_induct)
  case base
  show ?case
    by (simp add: event_store_inv_def positions_ok_def sequences_ok_def stream_ok_def waits_ok_def row_keys_def
        stream_def memory_store_empty_def bm_get_def bm_get_or_def)
next
  case (step t u)
  from step.hyps(2) step.IH show ?case by cases (rule event_store_inv_appended)
qed

section \<open>Recovery charges and live waits follow the journal\<close>












section \<open>What a scan returns\<close>

text \<open>The index keys of a tenant that are due at a time behind a cursor, in index order.\<close>

definition due_keys :: "memory_store \<Rightarrow> string option \<Rightarrow> u64 \<Rightarrow> due_cursor option \<Rightarrow> due_index_key list" where
  "due_keys data tenant at_ms after = filter (\<lambda>key. fst key = tenant \<and> fst (snd key) \<le> at_ms \<and>
     is_none_or after (\<lambda>c. cursor_key c < snd key)) (ms_agent_loop_due data)"

definition row_for :: "memory_store \<Rightarrow> due_index_key \<Rightarrow> due_wait_row \<Rightarrow> bool" where
  "row_for data key d \<longleftrightarrow> (\<exists>row version recovery. bm_get (ms_agent_loop_waits data) (fst (snd (snd key))) = Some row \<and>
     due_index_key row = Some key \<and>
     bm_get (ms_stream_versions data) (fst (snd (snd key))) = Some version \<and>
     bm_get (ms_stream_recovery_bytes data) (fst (snd (snd key))) = Some recovery \<and>
     projection_due_wait row version recovery = Inr d \<and>
     cursor_key (row_cursor d) = snd key \<and>
     (\<forall>at_ms. fst (snd key) \<le> at_ms \<longrightarrow> row_validate d at_ms (fst key) = Inr ()))"

lemma row_for_total:
  assumes inv: "event_store_inv data" and key: "key \<in> set (ms_agent_loop_due data)"
  shows "\<exists>d. row_for data key d"
proof -
  let ?thread = "fst (snd (snd key))"
  from inv key obtain t where "key \<in> row_keys (ms_agent_loop_waits data) t"
    by (auto simp: event_store_inv_def waits_ok_def)
  moreover from this have "t = ?thread"
    using inv row_keys_thread [of "ms_agent_loop_waits data" t key]
    by (auto simp: event_store_inv_def waits_ok_def row_ok_def)
  ultimately obtain row where row: "bm_get (ms_agent_loop_waits data) ?thread = Some row" "due_index_key row = Some key"
    by (auto simp: row_keys_def Option.bind_eq_Some_conv)
  then have valid: "projection_validate row = Inr ()" and "bm_get (ms_stream_versions data) ?thread \<noteq> None"
    using inv by (auto simp: event_store_inv_def waits_ok_def row_ok_def)
  then obtain version where version: "bm_get (ms_stream_versions data) ?thread = Some version" by blast
  from inv have "stream_ok data ?thread" by (simp add: event_store_inv_def)
  with version obtain recovery where recovery: "bm_get (ms_stream_recovery_bytes data) ?thread = Some recovery" "recovery \<noteq> 0"
    and "unat version \<noteq> 0"
    by (auto simp: stream_ok_def bm_get_or_def)
  then have "version \<noteq> 0" by auto
  obtain tenant k where split: "key = (tenant, k)" by (rule prod.exhaust)
  from projection_due_wait_total [OF valid, of tenant k version recovery] row(2) \<open>version \<noteq> 0\<close> recovery(2)
  obtain d where "projection_due_wait row version recovery = Inr d" "cursor_key (row_cursor d) = k"
    "\<And>at_ms. fst k \<le> at_ms \<Longrightarrow> row_validate d at_ms tenant = Inr ()"
    unfolding split by metis
  with row version recovery(1) show ?thesis unfolding row_for_def split by auto
qed

lemma scan_rows_eq:
  assumes inv: "event_store_inv data" and keys: "set keys \<subseteq> set (ms_agent_loop_due data)" and "length acc \<le> limit"
  shows "\<exists>rows. scan_rows data tenant at_ms limit keys acc = Inr (acc @ rows) \<and>
    list_all2 (row_for data)
      (take (Suc limit - length acc) (takeWhile (\<lambda>key. fst key = tenant \<and> fst (snd key) \<le> at_ms) keys)) rows"
  using keys \<open>length acc \<le> limit\<close>
proof (induction keys arbitrary: acc)
  case (Cons key keys)
  obtain kt d t cs where key: "key = (kt, d, t, cs)" by (metis prod.collapse)
  show ?case
  proof (cases "kt = tenant \<and> d \<le> at_ms")
    case False
    then show ?thesis by (auto simp: key not_le)
  next
    case True
    from row_for_total [OF inv, of key] Cons.prems obtain x where x: "row_for data key x" by auto
    then have unfold: "scan_rows data tenant at_ms limit (key # keys) acc =
        (if length (acc @ [x]) > limit then Inr (acc @ [x]) else scan_rows data tenant at_ms limit keys (acc @ [x]))"
      using True by (auto simp: key row_for_def not_less Let_def)
    show ?thesis
    proof (cases "length acc = limit")
      case True
      with unfold x \<open>kt = tenant \<and> d \<le> at_ms\<close> show ?thesis by (simp add: key)
    next
      case False
      with Cons.prems Cons.IH [of "acc @ [x]"] obtain rows where
        "scan_rows data tenant at_ms limit keys (acc @ [x]) = Inr ((acc @ [x]) @ rows)"
        "list_all2 (row_for data) (take (Suc limit - length (acc @ [x]))
           (takeWhile (\<lambda>key. fst key = tenant \<and> fst (snd key) \<le> at_ms) keys)) rows"
        by auto
      with unfold x True False Cons.prems show ?thesis
        by (intro exI [of _ "x # rows"]) (auto simp: key Suc_diff_le)
    qed
  qed
qed simp

lemma due_keys_scan:
  assumes "event_store_inv data"
  shows "takeWhile (\<lambda>key. fst key = tenant \<and> fst (snd key) \<le> at_ms)
      (filter (after_start tenant after) (ms_agent_loop_due data)) = due_keys data tenant at_ms after"
proof -
  let ?xs = "filter (after_start tenant after) (ms_agent_loop_due data)"
  from assms have "sorted_wrt (\<le>) ?xs"
    by (intro sorted_wrt_filter) (simp add: event_store_inv_def waits_ok_def)
  then have "sorted_wrt (\<lambda>x y. fst y = tenant \<and> fst (snd y) \<le> at_ms \<longrightarrow> fst x = tenant \<and> fst (snd x) \<le> at_ms) ?xs"
    by (rule sorted_wrt_mono_rel [rotated])
      (auto simp: after_start_def less_eq_prod_def less_prod_def split: option.splits)
  then have "takeWhile (\<lambda>key. fst key = tenant \<and> fst (snd key) \<le> at_ms) ?xs =
      filter (\<lambda>key. fst key = tenant \<and> fst (snd key) \<le> at_ms) ?xs"
    by (rule takeWhile_eq_filter)
  also have "\<dots> = due_keys data tenant at_ms after"
    unfolding due_keys_def filter_filter
    by (intro filter_cong refl)
      (auto simp: after_start_def is_none_or_def less_eq_prod_def less_prod_def split: option.splits)
  finally show ?thesis .
qed

lemma due_keys_sorted:
  assumes "event_store_inv data"
  shows "sorted_wrt (\<lambda>x y. snd x < snd y) (due_keys data tenant at_ms after)"
proof -
  from assms have "sorted_wrt (<) (ms_agent_loop_due data)"
    by (simp add: event_store_inv_def waits_ok_def strict_sorted_iff)
  then have "sorted_wrt (<) (due_keys data tenant at_ms after)"
    unfolding due_keys_def by (rule sorted_wrt_filter)
  then show ?thesis
    by (rule sorted_wrt_mono_rel [rotated]) (auto simp: due_keys_def less_prod_def)
qed

lemma rows_for_keys:
  "list_all2 (row_for data) keys rows \<Longrightarrow> map snd keys = map (\<lambda>d. cursor_key (row_cursor d)) rows"
  by (induction rule: list_all2_induct) (auto simp: row_for_def)

lemma due_key_iff:
  assumes "event_store_inv data"
  shows "(tenant, key) \<in> set (due_keys data tenant at_ms after) \<longleftrightarrow>
    (\<exists>thread row. bm_get (ms_agent_loop_waits data) thread = Some row \<and> due_index_key row = Some (tenant, key)) \<and>
    fst key \<le> at_ms \<and> is_none_or after (\<lambda>c. cursor_key c < key)"
proof -
  from assms have "set (ms_agent_loop_due data) = (\<Union>thread. row_keys (ms_agent_loop_waits data) thread)"
    by (simp add: event_store_inv_def waits_ok_def)
  then show ?thesis by (auto simp: due_keys_def row_keys_def Option.bind_eq_Some_conv)
qed

lemma scan_page_accepted:
  assumes inv: "event_store_inv data" and request: "validate_due_scan_request at_ms after limit tenant = Inr ()"
    and rows: "list_all2 (row_for data) (take limit (due_keys data tenant at_ms after)) rows"
    and full: "has_more \<Longrightarrow> length rows = limit"
  shows "page_validate \<lparr>dp_due = rows, dp_next_cursor = (if rows = [] then None else Some (row_cursor (last rows))),
      dp_has_more = has_more, dp_scanned = length rows\<rparr> at_ms after limit tenant = Inr ()"
proof -
  let ?keys = "take limit (due_keys data tenant at_ms after)"
  have cursors: "map (\<lambda>d. cursor_key (row_cursor d)) rows = map snd ?keys" using rows_for_keys [OF rows] by simp
  have "sorted_wrt (<) (map snd ?keys)"
    using sorted_wrt_take [OF due_keys_sorted [OF inv]] by (simp add: sorted_wrt_map)
  then have sorted: "sorted_wrt (\<lambda>x y. cursor_key (row_cursor x) < cursor_key (row_cursor y)) rows"
    by (simp add: cursors [symmetric] sorted_wrt_map)
  have entry: "\<exists>key\<in>set (due_keys data tenant at_ms after). row_for data key d" if "d \<in> set rows" for d
  proof -
    from that obtain i where i: "i < length rows" "d = rows ! i" by (auto simp: in_set_conv_nth)
    then have "i < length ?keys" "row_for data (?keys ! i) d"
      using list_all2_lengthD [OF rows] list_all2_nthD2 [OF rows i(1)] by simp_all
    then show ?thesis by (blast intro: nth_mem in_set_takeD)
  qed
  have "\<exists>c. try_fold (page_row at_ms tenant) after rows = Inr c"
  proof (rule page_rows_ok [OF sorted])
    show "row_validate d at_ms tenant = Inr ()" if "d \<in> set rows" for d
      using entry [OF that] by (auto simp: due_keys_def row_for_def)
    show "cursor_key c < cursor_key (row_cursor d)" if "d \<in> set rows" "after = Some c" for d c
      using entry [OF that(1)] that(2) by (auto simp: due_keys_def row_for_def)
  qed
  moreover have "length rows \<le> limit" using list_all2_lengthD [OF rows] by simp
  moreover have "validate_scan_limit limit = Inr ()" "\<And>c. after = Some c \<Longrightarrow> cursor_validate c = Inr ()"
    using request by (auto simp: validate_due_scan_request_def ok_iff)
  ultimately show ?thesis using full by (cases after) (auto simp: page_validate_def)
qed

section \<open>A concrete store\<close>

definition demo_content :: "state_event \<Rightarrow> u64 result" where
  "demo_content event = Inr 100"

definition demo_create_thread :: pending_event where
  "demo_create_thread = \<lparr>pe_event_id = ''e1'', pe_thread_id = ''t'', pe_expected_stream_version = 0,
     pe_expected_stream_recovery_bytes = 0, pe_recorded_at_ms = 4, pe_event = ThreadCreated\<rparr>"

definition demo_start_wait :: pending_event where
  "demo_start_wait = \<lparr>pe_event_id = ''e2'', pe_thread_id = ''t'', pe_expected_stream_version = 1,
     pe_expected_stream_recovery_bytes = 612, pe_recorded_at_ms = 5,
     pe_event = WaitStarted ''u'' (IkWaitStarted demo_envelope)\<rparr>"

definition demo_created_event :: stored_event where
  "demo_created_event = \<lparr>se_sequence = 1, se_event_id = ''e1'', se_thread_id = ''t'', se_recorded_at_ms = 4,
     se_event = ThreadCreated\<rparr>"

definition demo_journal1 :: memory_store where
  "demo_journal1 = \<lparr>ms_events = [demo_created_event], ms_event_positions = [(''e1'', 0)],
     ms_stream_versions = [(''t'', 1)], ms_stream_recovery_bytes = [(''t'', 612)],
     ms_agent_loop_waits = [], ms_agent_loop_due = []\<rparr>"

definition demo_journal2 :: memory_store where
  "demo_journal2 = \<lparr>ms_events = [demo_created_event, demo_started],
     ms_event_positions = [(''e1'', 0), (''e2'', 1)],
     ms_stream_versions = [(''t'', 2)], ms_stream_recovery_bytes = [(''t'', 1224)],
     ms_agent_loop_waits = [(''t'', demo_row)], ms_agent_loop_due = [(None, 9, ''t'', ''u'', ''w'')]\<rparr>"

lemmas event_store_eval = append_classified_def validate_pending_event_def encoded_recovery_bytes_def demo_content_def
  validate_state_id_def string_eval STATE_THREAD_EVENT_LIMIT_def STATE_TERMINAL_EVENT_RESERVE_def
  STATE_EVENT_RECOVERY_OVERHEAD_BYTES_def STATE_THREAD_RECOVERY_BYTE_LIMIT_def
  STATE_TERMINAL_RECOVERY_BYTE_RESERVE_def checked_add_def u64_of_usize_def bm_get_def bm_get_or_def
  validate_stream_version_def validate_stream_recovery_bytes_def validate_thread_existence_def Let_def

lemma demo_journal_created:
  "append_classified demo_content memory_store_empty demo_create_thread = Inr (demo_journal1, demo_created_event, AppendApplied)"
  by (simp add: event_store_eval demo_create_thread_def memory_store_empty_def demo_journal1_def demo_created_event_def
      projection_change_def projection_change_inner_def)

lemma demo_journal_waiting:
  "append_classified demo_content demo_journal1 demo_start_wait = Inr (demo_journal2, demo_started, AppendApplied)"
proof -
  have "\<lparr>se_sequence = 2, se_event_id = ''e2'', se_thread_id = ''t'', se_recorded_at_ms = 5,
      se_event = WaitStarted ''u'' (IkWaitStarted demo_envelope)\<rparr> = demo_started"
    by (simp add: demo_started_def)
  with demo_wait_started show ?thesis
    by (simp add: event_store_eval demo_start_wait_def demo_journal1_def)
      (simp add: demo_journal2_def demo_row_def due_index_key_def bm_get_def insort_insert_key_def word_le_nat_alt)
qed

lemma demo_journal_reachable:
  "(event_store_step demo_content)\<^sup>*\<^sup>* memory_store_empty demo_journal2"
proof -
  have "(event_store_step demo_content)\<^sup>*\<^sup>* memory_store_empty demo_journal1"
    by (rule r_into_rtranclp) (rule event_appended [OF demo_journal_created])
  then show ?thesis by (rule rtranclp.rtrancl_into_rtrancl) (rule event_appended [OF demo_journal_waiting])
qed

section \<open>Properties\<close>

text \<open>
  A scan for due waits never fails on a store built by appends and is exact. The keys of the page are
  the first \<open>limit\<close> live waits of the tenant that are due at the given time behind the cursor, in
  index order; the errors for a corrupt index and the store's own check of the page are never
  reached; and the continuation is reported exactly when more due waits exist.
\<close>

theorem event_store_scan_exact:
  assumes reach: "(event_store_step content)\<^sup>*\<^sup>* memory_store_empty data"
    and request: "validate_due_scan_request at_ms after limit tenant = Inr ()"
  defines "keys \<equiv> due_keys data tenant at_ms after"
  shows "(\<exists>page. scan_due_agent_loop_waits data tenant at_ms after limit = Inr page \<and>
      map (\<lambda>d. cursor_key (row_cursor d)) (dp_due page) = take limit (map snd keys) \<and>
      (dp_has_more page \<longleftrightarrow> limit < length keys) \<and>
      dp_next_cursor page = (if keys = [] then None else Some (row_cursor (last (dp_due page))))) \<and>
    sorted_wrt (\<lambda>x y. snd x < snd y) keys \<and>
    ((tenant, key) \<in> set keys \<longleftrightarrow>
      (\<exists>thread row. bm_get (ms_agent_loop_waits data) thread = Some row \<and> due_index_key row = Some (tenant, key)) \<and>
      fst key \<le> at_ms \<and> is_none_or after (\<lambda>c. cursor_key c < key))"
proof (intro conjI)
  note inv = event_store_inv_reachable [OF reach]
  show "sorted_wrt (\<lambda>x y. snd x < snd y) keys" unfolding keys_def by (rule due_keys_sorted [OF inv])
  show "(tenant, key) \<in> set keys \<longleftrightarrow>
      (\<exists>thread row. bm_get (ms_agent_loop_waits data) thread = Some row \<and> due_index_key row = Some (tenant, key)) \<and>
      fst key \<le> at_ms \<and> is_none_or after (\<lambda>c. cursor_key c < key)"
    unfolding keys_def by (rule due_key_iff [OF inv])
  from request have limit: "0 < limit" by (auto simp: validate_due_scan_request_def validate_scan_limit_def ok_iff)
  obtain rows where scan: "scan_rows data tenant at_ms limit
      (filter (after_start tenant after) (ms_agent_loop_due data)) [] = Inr rows"
    and all: "list_all2 (row_for data) (take (Suc limit) keys) rows"
    using scan_rows_eq [OF inv, of "filter (after_start tenant after) (ms_agent_loop_due data)" "[]" limit tenant at_ms]
    unfolding due_keys_scan [OF inv] keys_def by auto
  have len: "length rows = min (length keys) (Suc limit)" using list_all2_lengthD [OF all] by simp
  then have more: "length rows > limit \<longleftrightarrow> limit < length keys" by auto
  have cut: "(if length rows > limit then butlast rows else rows) = take limit rows"
    using len by (auto simp: butlast_conv_take)
  have listed: "list_all2 (row_for data) (take limit keys) (take limit rows)"
    using list_all2_takeI [OF all, of limit] by simp
  let ?page = "\<lparr>dp_due = take limit rows, dp_next_cursor =
      (if take limit rows = [] then None else Some (row_cursor (last (take limit rows)))),
    dp_has_more = limit < length rows, dp_scanned = length (take limit rows)\<rparr>"
  have accepted: "page_validate ?page at_ms after limit tenant = Inr ()"
    by (rule scan_page_accepted [OF inv request]) (use listed in \<open>simp_all add: keys_def\<close>)
  have "scan_due_agent_loop_waits data tenant at_ms after limit = Inr ?page"
    unfolding scan_due_agent_loop_waits_def request and_then_simps scan Let_def cut accepted ..
  moreover have "map (\<lambda>d. cursor_key (row_cursor d)) (take limit rows) = take limit (map snd keys)"
    using rows_for_keys [OF listed] by (simp add: take_map)
  moreover have "take limit rows = [] \<longleftrightarrow> keys = []" using len limit by (cases keys) auto
  ultimately show "\<exists>page. scan_due_agent_loop_waits data tenant at_ms after limit = Inr page \<and>
      map (\<lambda>d. cursor_key (row_cursor d)) (dp_due page) = take limit (map snd keys) \<and>
      (dp_has_more page \<longleftrightarrow> limit < length keys) \<and>
      dp_next_cursor page = (if keys = [] then None else Some (row_cursor (last (dp_due page))))"
    using more by auto
qed

theorem event_store_scan_exact_witness:
  "validate_due_scan_request 9 None 4 None = Inr () \<and>
   (\<exists>page. scan_due_agent_loop_waits demo_journal2 None 9 None 4 = Inr page \<and>
      map (\<lambda>d. cursor_key (row_cursor d)) (dp_due page) = [(9, ''t'', ''u'', ''w'')])"
proof -
  have request: "validate_due_scan_request 9 None 4 None = Inr ()"
    by (simp add: validate_due_scan_request_def validate_scan_limit_def MAX_AGENT_LOOP_DUE_SCAN_LIMIT_def)
  have "due_keys demo_journal2 None 9 None = [(None, 9, ''t'', ''u'', ''w'')]"
    by (simp add: due_keys_def demo_journal2_def)
  with event_store_scan_exact [OF demo_journal_reachable request, of "(9, ''t'', ''u'', ''w'')"] request show ?thesis
    by auto
qed



text \<open>
  A retried append is idempotent. After an event was appended, the same pending event sent again at any
  later time, whatever was appended in between, returns the stored event as a duplicate and changes
  nothing; the same identity with other content is refused.
\<close>

theorem event_store_append_idempotent:
  assumes reach: "(event_store_step content)\<^sup>*\<^sup>* memory_store_empty data"
    and first: "append_classified content data pending = Inr (data1, stored, disposition)"
    and later: "(event_store_step content)\<^sup>*\<^sup>* data1 data2"
    and again: "validate_pending_event content pending' = Inr bytes" "pe_event_id pending' = pe_event_id pending"
  shows "append_classified content data2 pending' =
    (if pe_thread_id pending' = pe_thread_id pending \<and> pe_recorded_at_ms pending' = pe_recorded_at_ms pending \<and>
        pe_event pending' = pe_event pending
     then Inr (data2, stored, AppendDuplicate)
     else Inl (State (St_event_reused (pe_event_id pending))))"
proof -
  have stored: "stored \<in> set (ms_events data1) \<and> se_event_id stored = pe_event_id pending \<and>
      se_thread_id stored = pe_thread_id pending \<and> se_recorded_at_ms stored = pe_recorded_at_ms pending \<and>
      se_event stored = pe_event pending"
    using first
  proof (cases rule: append_classified_okE)
    case (known position)
    with event_store_inv_reachable [OF reach] show ?thesis
      by (auto simp: event_store_inv_def positions_ok_def)
  qed simp
  from later have "set (ms_events data1) \<subseteq> set (ms_events data2)"
  proof (induction rule: rtranclp_induct)
    case (step t u)
    from step.hyps(2) have "set (ms_events t) \<subseteq> set (ms_events u)"
      by cases (auto elim!: append_classified_okE)
    with step.IH show ?case by blast
  qed simp
  with stored obtain p where p: "p < length (ms_events data2)" "ms_events data2 ! p = stored"
    by (metis in_set_conv_nth subsetD)
  have "(event_store_step content)\<^sup>*\<^sup>* memory_store_empty data2"
    using rtranclp_trans [OF rtranclp.rtrancl_into_rtrancl [where r = "event_store_step content", OF reach event_appended [OF first]] later] .
  from event_store_inv_reachable [OF this] p stored have "bm_get (ms_event_positions data2) (pe_event_id pending) = Some p"
    by (simp add: event_store_inv_def positions_ok_def)
  with p stored again show ?thesis
    by (auto simp: append_classified_def matching_existing_def)
qed

theorem event_store_append_idempotent_witness:
  "append_classified demo_content demo_journal2 demo_create_thread = Inr (demo_journal2, demo_created_event, AppendDuplicate)"
proof -
  have valid: "validate_pending_event demo_content demo_create_thread = Inr 612"
    by (simp add: event_store_eval demo_create_thread_def)
  have later: "(event_store_step demo_content)\<^sup>*\<^sup>* demo_journal1 demo_journal2"
    by (rule r_into_rtranclp) (rule event_appended [OF demo_journal_waiting])
  from event_store_append_idempotent [OF rtranclp.rtrancl_refl demo_journal_created later valid refl] show ?thesis by simp
qed

end
