(* ===== verification/Event_Log.thy ===== *)
theory Event_Log
  imports Json
begin

text \<open>
  The three durable aggregates of the program (Workflow Run, Human Handoff, Effect) are
  event-sourced: each keeps its whole transition history, and \<open>validate\<close> replays it with a loop
  that checks an envelope (contiguous sequence numbers, fresh command identities, monotone
  times) around the transition of its own kind. The locale \<open>replay_log\<close> is that envelope; the
  aggregates interpret it on their replay steps. \<open>settlement_reserve\<close> extends it with the
  capacity rule of Workflows and Handoffs: beyond a limit only settling transitions are
  accepted, and they are scarce enough that an unsettled aggregate always has room for one more.
\<close>

locale replay_log =
  fixes step :: "'s \<Rightarrow> 't \<Rightarrow> 'e + 's"
    and start :: 's
    and seq_of :: "'t \<Rightarrow> u64"
    and cid_of :: "'t \<Rightarrow> string"
    and time_of :: "'t \<Rightarrow> u64"
    and seen :: "'s \<Rightarrow> string set"
    and previous :: "'s \<Rightarrow> u64"
    and count :: "'s \<Rightarrow> nat"
    and inv :: "'s \<Rightarrow> bool"
  assumes inv_start: "inv start"
    and inv_step: "inv s \<Longrightarrow> step s t = Inr s' \<Longrightarrow> inv s'"
    and start_seen: "seen start = {}"
    and start_previous: "previous start = 0"
    and start_count: "count start = 0"
    and step_seq: "inv s \<Longrightarrow> step s t = Inr s' \<Longrightarrow>
      unat (seq_of t) = Suc (count s) \<and> count s' = Suc (count s)"
    and step_seen: "step s t = Inr s' \<Longrightarrow> cid_of t \<notin> seen s \<and> seen s' = insert (cid_of t) (seen s)"
    and step_previous: "step s t = Inr s' \<Longrightarrow> previous s \<le> time_of t \<and> previous s' = time_of t"
begin

lemma replay_seen: "try_fold step start ts = Inr s \<Longrightarrow> seen s = cid_of ` set ts"
  by (induction rule: try_fold_prefix_induct) (auto simp: start_seen dest: step_seen)

lemma replay_distinct: "try_fold step start ts = Inr s \<Longrightarrow> distinct (map cid_of ts)"
proof (induction rule: try_fold_prefix_induct)
  case (snoc ts t s s')
  then show ?case using replay_seen [OF snoc.hyps(1)] step_seen [OF snoc.hyps(2)] by simp
qed simp

lemma replay_inv: "try_fold step start ts = Inr s \<Longrightarrow> inv s"
  by (induction rule: try_fold_prefix_induct) (auto intro: inv_start inv_step)

lemma replay_count: "try_fold step start ts = Inr s \<Longrightarrow> count s = length ts"
proof (induction rule: try_fold_prefix_induct)
  case (snoc ts t s s')
  from step_seq [OF replay_inv [OF snoc.hyps(1)] snoc.hyps(2)] snoc.IH show ?case by simp
qed (simp add: start_count)

lemma replay_sequence:
  "try_fold step start ts = Inr s \<Longrightarrow> map (unat \<circ> seq_of) ts = [1..<Suc (length ts)]"
proof (induction rule: try_fold_prefix_induct)
  case (snoc ts t s s')
  from step_seq [OF replay_inv [OF snoc.hyps(1)] snoc.hyps(2)] replay_count [OF snoc.hyps(1)] snoc.IH
  show ?case by simp
qed simp

lemma replay_previous:
  "try_fold step start ts = Inr s \<Longrightarrow> previous s = (if ts = [] then 0 else time_of (last ts))"
  by (induction rule: try_fold_prefix_induct) (auto simp: start_previous dest: step_previous)

lemma replay_times_bound: "try_fold step start ts = Inr s \<Longrightarrow> \<forall>t\<in>set ts. time_of t \<le> previous s"
  by (induction rule: try_fold_prefix_induct) (fastforce dest: step_previous)+

lemma replay_times: "try_fold step start ts = Inr s \<Longrightarrow> sorted (map time_of ts)"
proof (induction rule: try_fold_prefix_induct)
  case (snoc ts t s s')
  then show ?case
    using replay_times_bound [OF snoc.hyps(1)] step_previous [OF snoc.hyps(2)]
    by (fastforce simp: sorted_append)
qed simp

text \<open>Every prefix of a replayable history is replayable: history is only ever extended.\<close>

lemma replay_prefix:
  assumes "try_fold step start (ts @ us) = Inr s"
  shows "\<exists>s0. try_fold step start ts = Inr s0"
  using assms by (auto simp: try_fold_append and_then_eq_Inr)

end

locale settlement_reserve =
  replay_log step start seq_of cid_of time_of seen previous count inv
  for step :: "'s \<Rightarrow> 't \<Rightarrow> 'e + 's" and start seq_of cid_of time_of seen previous count inv +
  fixes is_work :: "'t \<Rightarrow> bool"
    and budget :: "'s \<Rightarrow> nat"
    and limit :: nat
    and reserve :: nat
  assumes budget_bound: "budget s \<le> reserve"
    and work_limit: "step s t = Inr s' \<Longrightarrow> is_work t \<Longrightarrow> unat (seq_of t) \<le> limit"
    and settle_spends: "step s t = Inr s' \<Longrightarrow> \<not> is_work t \<Longrightarrow> budget s' < budget s"
begin

lemma reserve_suffices:
  "try_fold step start ts = Inr s \<Longrightarrow> limit \<le> length ts \<Longrightarrow> length ts + budget s \<le> limit + reserve"
proof (induction rule: try_fold_prefix_induct)
  case Nil
  then show ?case using budget_bound [of start] by simp
next
  case (snoc ts t s s')
  show ?case
  proof (cases "limit \<le> length ts")
    case True
    have "unat (seq_of t) = Suc (length ts)"
      using replay_sequence [of "ts @ [t]" s'] snoc.hyps by (simp add: try_fold_snoc)
    with True work_limit [OF snoc.hyps(2)] have "\<not> is_work t" by auto
    from settle_spends [OF snoc.hyps(2) this] snoc.IH [OF True] show ?thesis by simp
  next
    case False
    with snoc.prems budget_bound [of s'] show ?thesis by simp
  qed
qed

text \<open>An aggregate that can still be settled has not used its last slot.\<close>

corollary unsettled_has_room:
  "try_fold step start ts = Inr s \<Longrightarrow> 0 < budget s \<Longrightarrow> length ts < limit + reserve"
  using reserve_suffices [of ts s] budget_bound [of s] by (cases "limit \<le> length ts") simp_all

end

end
