(* ===== verification/Workflow.thy ===== *)
theory Workflow
  imports Event_Log
begin

text \<open>
  \<^verbatim>\<open>workflow/mod.rs\<close>: the durable Workflow Run. A Run keeps the projection of its state and
  the immutable transitions it came from; \<open>workflow_apply\<close> is the whole command handler,
  \<open>workflow_validate\<close> the replay that every load and every mutation performs.

  The version of a definition is a \<open>semver::Version\<close>, of which the code uses only the total
  order: it is the type variable \<open>'v::linorder\<close>. Serialisation and SHA-256 are parameters, the
  record \<open>workflow_env\<close>.
\<close>

section \<open>Data\<close>

definition MAX_WORKFLOW_WORK_TRANSITIONS :: nat where "MAX_WORKFLOW_WORK_TRANSITIONS = 4096"
definition WORKFLOW_SETTLEMENT_TRANSITION_RESERVE :: nat where
  "WORKFLOW_SETTLEMENT_TRANSITION_RESERVE = 2"
definition MAX_WORKFLOW_TRANSITIONS :: nat where
  "MAX_WORKFLOW_TRANSITIONS = MAX_WORKFLOW_WORK_TRANSITIONS + WORKFLOW_SETTLEMENT_TRANSITION_RESERVE"
definition MAX_WORKFLOW_WORK_JSON_BYTES :: nat where "MAX_WORKFLOW_WORK_JSON_BYTES = 16777216"
definition MAX_WORKFLOW_COMMAND_JSON_BYTES :: nat where "MAX_WORKFLOW_COMMAND_JSON_BYTES = 131072"
definition MAX_WORKFLOW_TEXT_BYTES :: nat where "MAX_WORKFLOW_TEXT_BYTES = 65536"
definition MAX_WORKFLOW_IDEMPOTENCY_BYTES :: nat where "MAX_WORKFLOW_IDEMPOTENCY_BYTES = 256"
definition MAX_WORKFLOW_JSON_BYTES :: nat where
  "MAX_WORKFLOW_JSON_BYTES =
     MAX_WORKFLOW_WORK_JSON_BYTES + (MAX_WORKFLOW_COMMAND_JSON_BYTES * 2 + 16384)"

lemmas workflow_limits = MAX_WORKFLOW_WORK_TRANSITIONS_def WORKFLOW_SETTLEMENT_TRANSITION_RESERVE_def
  MAX_WORKFLOW_TRANSITIONS_def

datatype capacity_class = Work | Settlement

record 'v workflow_definition =
  wd_name :: string
  wd_version :: 'v
  wd_content_sha256 :: string

record 'v workflow_create_request =
  cr_command_id :: string
  cr_definition :: "'v workflow_definition"
  cr_task_graph_id :: string

datatype workflow_wait =
    WwSignal (ww_id: string) string string "u64 option"
  | WwTimer (ww_id: string) u64
  | WwRetry (ww_id: string) string u32 u64 string

datatype workflow_status =
    WsRunning
  | WsWaiting workflow_wait
  | WsCompleted string
  | WsFailed string
  | WsCancelled string

fun ws_is_terminal :: "workflow_status \<Rightarrow> bool" where
  "ws_is_terminal (WsCompleted _) = True"
| "ws_is_terminal (WsFailed _) = True"
| "ws_is_terminal (WsCancelled _) = True"
| "ws_is_terminal _ = False"

datatype 'v workflow_command_kind =
    WcWaitForSignal string string string "u64 option"
  | WcWaitUntil string u64
  | WcScheduleRetry string string u32 u64 string
  | WcDeliverSignal string string string string string
  | WcWakeDue string
  | WcMigrateDefinition "'v workflow_definition"
  | WcComplete string
  | WcFail string
  | WcCancel string

record 'v workflow_command =
  wc_id :: string
  wc_kind :: "'v workflow_command_kind"

fun command_capacity_class :: "'v workflow_command_kind \<Rightarrow> capacity_class" where
  "command_capacity_class (WcDeliverSignal _ _ _ _ _) = Settlement"
| "command_capacity_class (WcWakeDue _) = Settlement"
| "command_capacity_class (WcComplete _) = Settlement"
| "command_capacity_class (WcFail _) = Settlement"
| "command_capacity_class (WcCancel _) = Settlement"
| "command_capacity_class _ = Work"

datatype workflow_wake_reason = SignalTimeout | TimerDue | RetryDue

datatype 'v workflow_transition_kind =
    WtCreated "'v workflow_definition" string
  | WtWaitStarted workflow_wait
  | WtSignalDelivered string string string string string
  | WtWaitDue string workflow_wake_reason
  | WtDefinitionMigrated "'v workflow_definition" "'v workflow_definition"
  | WtCompleted string
  | WtFailed string
  | WtCancelled string

fun transition_capacity_class :: "'v workflow_transition_kind \<Rightarrow> capacity_class" where
  "transition_capacity_class (WtSignalDelivered _ _ _ _ _) = Settlement"
| "transition_capacity_class (WtWaitDue _ _) = Settlement"
| "transition_capacity_class (WtCompleted _) = Settlement"
| "transition_capacity_class (WtFailed _) = Settlement"
| "transition_capacity_class (WtCancelled _) = Settlement"
| "transition_capacity_class _ = Work"

record 'v workflow_transition =
  wt_sequence :: u64
  wt_command_id :: string
  wt_command_sha256 :: string
  wt_applied_at_ms :: u64
  wt_actor :: actor_identity
  wt_kind :: "'v workflow_transition_kind"

datatype workflow_apply_outcome = Applied | Duplicate

record 'v workflow_run =
  wr_definition :: "'v workflow_definition"
  wr_task_graph_id :: string
  wr_status :: workflow_status
  wr_transitions :: "'v workflow_transition list"
  wr_charge :: usize

text \<open>What is serialised of a Run: \<open>materialization_charge_bytes\<close> is skipped.\<close>

record 'v workflow_run_wire =
  ww_definition :: "'v workflow_definition"
  ww_task_graph_id :: string
  ww_status :: workflow_status
  ww_transitions :: "'v workflow_transition list"

definition run_wire :: "'v workflow_run \<Rightarrow> 'v workflow_run_wire" where
  "run_wire run = \<lparr>ww_definition = wr_definition run, ww_task_graph_id = wr_task_graph_id run,
     ww_status = wr_status run, ww_transitions = wr_transitions run\<rparr>"

record 'v workflow_env =
  env_create :: "'v workflow_create_request serializer"
  env_command :: "'v workflow_command serializer"
  env_run :: "'v workflow_run_wire serializer"
  env_sha256 :: "bytes \<Rightarrow> bytes"

section \<open>Field validators\<close>

definition wf_err :: "field_fault \<Rightarrow> harness_error" where
  "wf_err f = Workflow (W_field f)"

definition wf_validate_identity :: "string \<Rightarrow> unit result" where
  "wf_validate_identity value =
     (if trim_is_empty value \<or> length value > MAX_WORKFLOW_IDEMPOTENCY_BYTES \<or> has_control value
      then Inl (wf_err Bad_identity) else Inr ())"

definition wf_validate_idempotency_key :: "string \<Rightarrow> unit result" where
  "wf_validate_idempotency_key value =
     (if trim_is_empty value \<or> length value > MAX_WORKFLOW_IDEMPOTENCY_BYTES \<or> has_control value
      then Inl (wf_err Bad_idempotency_key) else Inr ())"

definition wf_validate_text :: "string \<Rightarrow> unit result" where
  "wf_validate_text value =
     (if trim_is_empty value \<or> length value > MAX_WORKFLOW_TEXT_BYTES \<or>
         list_ex (\<lambda>c. is_control c \<and> c \<notin> {10, 13, 9}) (str_chars value)
      then Inl (wf_err Bad_text) else Inr ())"

definition wf_validate_digest :: "string \<Rightarrow> unit result" where
  "wf_validate_digest value =
     (if length value \<noteq> 64 \<or> \<not> list_all is_lower_hex_byte (str_bytes value)
      then Inl (wf_err Bad_digest) else Inr ())"

definition wf_validate_application_time :: "u64 \<Rightarrow> unit result" where
  "wf_validate_application_time value = (if value = 0 then Inl (wf_err Zero_time) else Inr ())"

definition wf_validate_definition :: "'v workflow_definition \<Rightarrow> unit result" where
  "wf_validate_definition d =
     and_then (validate_capability_name (wd_name d)) (\<lambda>_. wf_validate_digest (wd_content_sha256 d))"

fun wf_validate_wait :: "workflow_wait \<Rightarrow> unit result" where
  "wf_validate_wait (WwSignal i name source expires_at_ms) =
     and_then (wf_validate_identity i) (\<lambda>_.
     and_then (validate_capability_name name) (\<lambda>_.
     and_then (validate_capability_name source) (\<lambda>_.
     if expires_at_ms = Some 0 then Inl (Workflow (W_history Zero_expiration)) else Inr ())))"
| "wf_validate_wait (WwTimer i due_at_ms) =
     and_then (wf_validate_identity i) (\<lambda>_.
     if due_at_ms = 0 then Inl (Workflow (W_history Zero_due)) else Inr ())"
| "wf_validate_wait (WwRetry i activity attempt due_at_ms idempotency_key) =
     and_then (wf_validate_identity i) (\<lambda>_.
     and_then (validate_capability_name activity) (\<lambda>_.
     and_then (wf_validate_idempotency_key idempotency_key) (\<lambda>_.
     if attempt = 0 \<or> due_at_ms = 0 then Inl (Workflow (W_history Zero_retry)) else Inr ())))"

definition command_digest :: "(bytes \<Rightarrow> bytes) \<Rightarrow> 'a serializer \<Rightarrow> 'a \<Rightarrow> string result" where
  "command_digest sha256 ser v =
     (case to_vec ser v of
        None \<Rightarrow> Inl (wf_err Cannot_encode)
      | Some encoded \<Rightarrow>
          if length encoded > MAX_WORKFLOW_COMMAND_JSON_BYTES then Inl (wf_err Too_large)
          else Inr (lower_hex (sha256 encoded)))"

definition wf_validate_create_request :: "'v workflow_create_request \<Rightarrow> unit result" where
  "wf_validate_create_request request =
     and_then (wf_validate_identity (cr_command_id request)) (\<lambda>_.
     and_then (wf_validate_definition (cr_definition request)) (\<lambda>_.
     wf_validate_identity (cr_task_graph_id request)))"

definition wf_validate_command :: "'v workflow_env \<Rightarrow> 'v workflow_command \<Rightarrow> unit result" where
  "wf_validate_command env command =
     and_then (wf_validate_identity (wc_id command)) (\<lambda>_.
     and_then (command_digest (env_sha256 env) (env_command env) command) (\<lambda>_. Inr ()))"

definition wf_validate_transition_capacity :: "usize \<Rightarrow> capacity_class \<Rightarrow> unit result" where
  "wf_validate_transition_capacity current_transitions cls =
     (if current_transitions \<ge> MAX_WORKFLOW_TRANSITIONS
      then Inl (Workflow (W_capacity Too_many_transitions))
      else if cls = Work \<and> current_transitions \<ge> MAX_WORKFLOW_WORK_TRANSITIONS
      then Inl (Workflow (W_capacity Only_transition_reserve))
      else Inr ())"

definition wf_validate_materialization_capacity :: "usize \<Rightarrow> capacity_class \<Rightarrow> unit result" where
  "wf_validate_materialization_capacity encoded_bytes cls =
     (if encoded_bytes > MAX_WORKFLOW_JSON_BYTES
      then Inl (Workflow (W_capacity Aggregate_too_large))
      else if cls = Work \<and> encoded_bytes > MAX_WORKFLOW_WORK_JSON_BYTES
      then Inl (Workflow (W_capacity Only_byte_reserve))
      else Inr ())"

definition wf_encoded_size_for :: "'v workflow_env \<Rightarrow> 'v workflow_run \<Rightarrow> capacity_class \<Rightarrow> usize result"
where
  "wf_encoded_size_for env run cls =
     (case to_vec (env_run env) (run_wire run) of
        None \<Rightarrow> Inl (wf_err Cannot_encode)
      | Some encoded \<Rightarrow>
          and_then (wf_validate_materialization_capacity (length encoded) cls) (\<lambda>_.
            Inr (length encoded)))"

definition wf_encoded_size :: "'v workflow_env \<Rightarrow> 'v workflow_run \<Rightarrow> usize result" where
  "wf_encoded_size env run = wf_encoded_size_for env run Settlement"

section \<open>Replaying the history\<close>

fun due_reason :: "workflow_wait \<Rightarrow> u64 \<Rightarrow> workflow_wake_reason result" where
  "due_reason (WwSignal _ _ _ (Some expires_at_ms)) now =
     (if now \<ge> expires_at_ms then Inr SignalTimeout else Inl (Workflow (W_command Wait_not_due)))"
| "due_reason (WwTimer _ due_at_ms) now =
     (if now \<ge> due_at_ms then Inr TimerDue else Inl (Workflow (W_command Wait_not_due)))"
| "due_reason (WwRetry _ _ _ due_at_ms _) now =
     (if now \<ge> due_at_ms then Inr RetryDue else Inl (Workflow (W_command Wait_not_due)))"
| "due_reason (WwSignal _ _ _ None) now = Inl (Workflow (W_command No_due_boundary))"

text \<open>
  \<open>transition_digest\<close> rebuilds the command a transition records; creation rebuilds the request.
\<close>

fun transition_command_kind :: "'v workflow_transition_kind \<Rightarrow> 'v workflow_command_kind option" where
  "transition_command_kind (WtCreated _ _) = None"
| "transition_command_kind (WtWaitStarted (WwSignal i name source expires)) =
     Some (WcWaitForSignal i name source expires)"
| "transition_command_kind (WtWaitStarted (WwTimer i due)) = Some (WcWaitUntil i due)"
| "transition_command_kind (WtWaitStarted (WwRetry i activity attempt due key)) =
     Some (WcScheduleRetry i activity attempt due key)"
| "transition_command_kind (WtSignalDelivered wait_id signal_id name source key) =
     Some (WcDeliverSignal wait_id signal_id name source key)"
| "transition_command_kind (WtWaitDue wait_id _) = Some (WcWakeDue wait_id)"
| "transition_command_kind (WtDefinitionMigrated _ to) = Some (WcMigrateDefinition to)"
| "transition_command_kind (WtCompleted summary) = Some (WcComplete summary)"
| "transition_command_kind (WtFailed reason) = Some (WcFail reason)"
| "transition_command_kind (WtCancelled reason) = Some (WcCancel reason)"

definition transition_digest :: "'v workflow_env \<Rightarrow> 'v workflow_transition \<Rightarrow> string result" where
  "transition_digest env t =
     (case wt_kind t of
        WtCreated d g \<Rightarrow>
          command_digest (env_sha256 env) (env_create env)
            \<lparr>cr_command_id = wt_command_id t, cr_definition = d, cr_task_graph_id = g\<rparr>
      | kind \<Rightarrow>
          command_digest (env_sha256 env) (env_command env)
            \<lparr>wc_id = wt_command_id t, wc_kind = the (transition_command_kind kind)\<rparr>)"

text \<open>The variables of the loop in \<open>validate\<close>.\<close>

record 'v workflow_replay =
  expected_sequence :: u64
  command_ids :: "string set"
  wait_ids :: "string set"
  signal_ids :: "string set"
  projected_definition :: "'v workflow_definition option"
  projected_status :: "workflow_status option"
  projected_task_graph :: "string option"
  previous_applied_at_ms :: u64

definition replay_start :: "'v workflow_replay" where
  "replay_start = \<lparr>expected_sequence = 1, command_ids = {}, wait_ids = {}, signal_ids = {},
     projected_definition = None, projected_status = None, projected_task_graph = None,
     previous_applied_at_ms = 0\<rparr>"

text \<open>The checks every transition passes before its kind is looked at.\<close>

definition replay_envelope ::
  "'v workflow_env \<Rightarrow> 'v workflow_replay \<Rightarrow> 'v workflow_transition \<Rightarrow> 'v workflow_replay result" where
  "replay_envelope env rp t =
     (if wt_sequence t \<noteq> expected_sequence rp then Inl (Workflow (W_log Sequence_not_contiguous))
      else
     and_then (ok_or (Workflow (W_log Sequence_overflow)) (checked_add (expected_sequence rp) 1))
       (\<lambda>next_sequence.
     and_then (wf_validate_identity (wt_command_id t)) (\<lambda>_.
     and_then (wf_validate_digest (wt_command_sha256 t)) (\<lambda>_.
     and_then (wf_validate_application_time (wt_applied_at_ms t)) (\<lambda>_.
     if wt_applied_at_ms t < previous_applied_at_ms rp
     then Inl (Workflow (W_log Time_not_monotonic))
     else
     and_then (map_err (\<lambda>_. wf_err Bad_actor) (validate_shape (wt_actor t))) (\<lambda>_.
     and_then (transition_digest env t) (\<lambda>digest.
     if wt_command_sha256 t \<noteq> digest then Inl (Workflow (W_log Digest_differs))
     else if unat (wt_sequence t) > MAX_WORKFLOW_WORK_TRANSITIONS \<and>
             transition_capacity_class (wt_kind t) = Work
     then Inl (Workflow (W_log Reserve_consumed))
     else if wt_command_id t \<in> command_ids rp
     then Inl (Workflow (W_log Duplicate_commands))
     else Inr (rp\<lparr>expected_sequence := next_sequence,
                  previous_applied_at_ms := wt_applied_at_ms t,
                  command_ids := insert (wt_command_id t) (command_ids rp)\<rparr>))))))))"

text \<open>The match on the transition kind; \<open>rp\<close> has passed \<open>replay_envelope\<close>.\<close>

definition replay_kind ::
  "'v::linorder workflow_replay \<Rightarrow> 'v workflow_transition \<Rightarrow> 'v workflow_replay result" where
  "replay_kind rp t =
     (case wt_kind t of
        WtCreated d g \<Rightarrow>
          if wt_sequence t = 1 then
            and_then (wf_validate_definition d) (\<lambda>_.
            and_then (wf_validate_identity g) (\<lambda>_.
            Inr (rp\<lparr>projected_definition := Some d, projected_task_graph := Some g,
                    projected_status := Some WsRunning\<rparr>)))
          else Inl (Workflow (W_log Creation_not_first))
      | WtWaitStarted wait \<Rightarrow>
          if projected_status rp \<noteq> Some WsRunning
          then Inl (Workflow (W_history Wait_not_after_running))
          else and_then (wf_validate_wait wait) (\<lambda>_.
            if ww_id wait \<in> wait_ids rp then Inl (Workflow (W_history Duplicate_waits))
            else Inr (rp\<lparr>wait_ids := insert (ww_id wait) (wait_ids rp),
                         projected_status := Some (WsWaiting wait)\<rparr>))
      | WtSignalDelivered wait_id signal_id name source key \<Rightarrow>
          and_then (wf_validate_identity signal_id) (\<lambda>_.
          and_then (validate_capability_name name) (\<lambda>_.
          and_then (validate_capability_name source) (\<lambda>_.
          and_then (wf_validate_idempotency_key key) (\<lambda>_.
          if signal_id \<in> signal_ids rp then Inl (Workflow (W_history Duplicate_signals))
          else
            (case projected_status rp of
               Some (WsWaiting (WwSignal i expected_name expected_source expires)) \<Rightarrow>
                 if i \<noteq> wait_id \<or> expected_name \<noteq> name \<or> expected_source \<noteq> source
                 then Inl (Workflow (W_history Signal_differs))
                 else if (case expires of None \<Rightarrow> False | Some e \<Rightarrow> wt_applied_at_ms t \<ge> e)
                 then Inl (Workflow (W_history Signal_crossed_timeout))
                 else Inr (rp\<lparr>signal_ids := insert signal_id (signal_ids rp),
                              projected_status := Some WsRunning\<rparr>)
             | _ \<Rightarrow> Inl (Workflow (W_history Signal_not_after_wait)))))))
      | WtWaitDue wait_id reason \<Rightarrow>
          (case projected_status rp of
             Some (WsWaiting wait) \<Rightarrow>
               if ww_id wait \<noteq> wait_id then Inl (Workflow (W_history Due_differs))
               else and_then (due_reason wait (wt_applied_at_ms t)) (\<lambda>r.
                 if r \<noteq> reason then Inl (Workflow (W_history Due_differs))
                 else Inr (rp\<lparr>projected_status := Some WsRunning\<rparr>))
           | _ \<Rightarrow> Inl (Workflow (W_history Due_not_after_wait)))
      | WtDefinitionMigrated from to \<Rightarrow>
          if \<not> (case projected_status rp of Some (WsWaiting _) \<Rightarrow> True | _ \<Rightarrow> False) \<or>
             projected_definition rp \<noteq> Some from
          then Inl (Workflow (W_history Migration_no_boundary))
          else and_then (wf_validate_definition to) (\<lambda>_.
            if wd_name to \<noteq> wd_name from \<or> wd_version to \<le> wd_version from \<or>
               wd_content_sha256 to = wd_content_sha256 from
            then Inl (Workflow (W_history Migration_not_monotonic))
            else Inr (rp\<lparr>projected_definition := Some to\<rparr>))
      | WtCompleted summary \<Rightarrow>
          if projected_status rp \<noteq> Some WsRunning
          then Inl (Workflow (W_history Completion_not_after_running))
          else and_then (wf_validate_text summary) (\<lambda>_.
            Inr (rp\<lparr>projected_status := Some (WsCompleted summary)\<rparr>))
      | WtFailed reason \<Rightarrow>
          if (case projected_status rp of None \<Rightarrow> True | Some st \<Rightarrow> ws_is_terminal st)
          then Inl (Workflow (W_history Settlement_not_after_nonterminal))
          else and_then (wf_validate_text reason) (\<lambda>_.
            Inr (rp\<lparr>projected_status := Some (WsFailed reason)\<rparr>))
      | WtCancelled reason \<Rightarrow>
          if (case projected_status rp of None \<Rightarrow> True | Some st \<Rightarrow> ws_is_terminal st)
          then Inl (Workflow (W_history Settlement_not_after_nonterminal))
          else and_then (wf_validate_text reason) (\<lambda>_.
            Inr (rp\<lparr>projected_status := Some (WsCancelled reason)\<rparr>)))"

definition replay_transition ::
  "'v::linorder workflow_env \<Rightarrow> 'v workflow_replay \<Rightarrow> 'v workflow_transition \<Rightarrow>
   'v workflow_replay result" where
  "replay_transition env rp t = and_then (replay_envelope env rp t) (\<lambda>rp'. replay_kind rp' t)"

definition workflow_validate :: "'v::linorder workflow_env \<Rightarrow> 'v workflow_run \<Rightarrow> unit result" where
  "workflow_validate env run =
     and_then (wf_validate_definition (wr_definition run)) (\<lambda>_.
     and_then (wf_validate_identity (wr_task_graph_id run)) (\<lambda>_.
     if wr_transitions run = [] \<or> length (wr_transitions run) > MAX_WORKFLOW_TRANSITIONS
     then Inl (Workflow (W_log Transition_count))
     else
     and_then (try_fold (replay_transition env) replay_start (wr_transitions run)) (\<lambda>rp.
     if projected_definition rp \<noteq> Some (wr_definition run) \<or>
        projected_task_graph rp \<noteq> Some (wr_task_graph_id run) \<or>
        projected_status rp \<noteq> Some (wr_status run)
     then Inl (Workflow (W_log Projection_differs))
     else Inr ())))"

section \<open>Commands\<close>

definition require_running :: "'v workflow_run \<Rightarrow> unit result" where
  "require_running run =
     (if wr_status run = WsRunning then Inr () else Inl (Workflow (W_command Must_be_running)))"

definition require_nonterminal :: "'v workflow_run \<Rightarrow> unit result" where
  "require_nonterminal run =
     (if ws_is_terminal (wr_status run) then Inl (Workflow (W_command Terminal_run)) else Inr ())"

fun starts_wait :: "'v workflow_transition_kind \<Rightarrow> string \<Rightarrow> bool" where
  "starts_wait (WtWaitStarted wait) i \<longleftrightarrow> ww_id wait = i"
| "starts_wait _ i \<longleftrightarrow> False"

fun delivers_signal :: "'v workflow_transition_kind \<Rightarrow> string \<Rightarrow> bool" where
  "delivers_signal (WtSignalDelivered _ s _ _ _) i \<longleftrightarrow> s = i"
| "delivers_signal _ i \<longleftrightarrow> False"

definition ensure_new_wait_id :: "'v workflow_run \<Rightarrow> string \<Rightarrow> unit result" where
  "ensure_new_wait_id run wait_id =
     and_then (wf_validate_identity wait_id) (\<lambda>_.
     if list_ex (\<lambda>t. starts_wait (wt_kind t) wait_id) (wr_transitions run)
     then Inl (Workflow (W_command (Wait_committed wait_id))) else Inr ())"

definition start_wait ::
  "'v workflow_run \<Rightarrow> workflow_wait \<Rightarrow> ('v workflow_run \<times> 'v workflow_transition_kind) result" where
  "start_wait run wait =
     and_then (ensure_new_wait_id run (ww_id wait)) (\<lambda>_.
     Inr (run\<lparr>wr_status := WsWaiting wait\<rparr>, WtWaitStarted wait))"

fun apply_kind ::
  "'v::linorder workflow_run \<Rightarrow> 'v workflow_command_kind \<Rightarrow> u64 \<Rightarrow>
   ('v workflow_run \<times> 'v workflow_transition_kind) result" where
  "apply_kind run (WcWaitForSignal wait_id name source expires_at_ms) now =
     and_then (require_running run) (\<lambda>_.
     if (case expires_at_ms of None \<Rightarrow> False | Some expires \<Rightarrow> expires \<le> now)
     then Inl (Workflow (W_command Expiration_not_later))
     else
     and_then (validate_capability_name name) (\<lambda>_.
     and_then (validate_capability_name source) (\<lambda>_.
     start_wait run (WwSignal wait_id name source expires_at_ms))))"
| "apply_kind run (WcWaitUntil wait_id due_at_ms) now =
     and_then (require_running run) (\<lambda>_.
     if due_at_ms \<le> now then Inl (Workflow (W_command Due_not_later))
     else start_wait run (WwTimer wait_id due_at_ms))"
| "apply_kind run (WcScheduleRetry wait_id activity attempt due_at_ms idempotency_key) now =
     and_then (require_running run) (\<lambda>_.
     and_then (validate_capability_name activity) (\<lambda>_.
     and_then (wf_validate_idempotency_key idempotency_key) (\<lambda>_.
     if attempt = 0 then Inl (Workflow (W_command Retry_attempt_zero))
     else if due_at_ms \<le> now then Inl (Workflow (W_command Due_not_later))
     else start_wait run (WwRetry wait_id activity attempt due_at_ms idempotency_key))))"
| "apply_kind run (WcDeliverSignal wait_id signal_id name source idempotency_key) now =
     and_then (validate_capability_name name) (\<lambda>_.
     and_then (validate_capability_name source) (\<lambda>_.
     and_then (wf_validate_idempotency_key idempotency_key) (\<lambda>_.
     and_then (wf_validate_identity signal_id) (\<lambda>_.
     if list_ex (\<lambda>t. delivers_signal (wt_kind t) signal_id) (wr_transitions run)
     then Inl (Workflow (W_command (Signal_committed signal_id)))
     else
       (case wr_status run of
          WsWaiting (WwSignal i expected_name expected_source expires_at_ms) \<Rightarrow>
            if i \<noteq> wait_id \<or> expected_name \<noteq> name \<or> expected_source \<noteq> source
            then Inl (Workflow (W_command Signal_mismatch))
            else if (case expires_at_ms of None \<Rightarrow> False | Some expires \<Rightarrow> now \<ge> expires)
            then Inl (Workflow (W_command Signal_too_late))
            else Inr (run\<lparr>wr_status := WsRunning\<rparr>,
                      WtSignalDelivered wait_id signal_id name source idempotency_key)
        | _ \<Rightarrow> Inl (Workflow (W_command Not_waiting_for_signal)))))))"
| "apply_kind run (WcWakeDue wait_id) now =
     (case wr_status run of
        WsWaiting wait \<Rightarrow>
          if ww_id wait \<noteq> wait_id then Inl (Workflow (W_command Wake_mismatch))
          else and_then (due_reason wait now) (\<lambda>reason.
            Inr (run\<lparr>wr_status := WsRunning\<rparr>, WtWaitDue wait_id reason))
      | _ \<Rightarrow> Inl (Workflow (W_command No_current_wait)))"
| "apply_kind run (WcMigrateDefinition d) now =
     (if \<not> (case wr_status run of WsWaiting _ \<Rightarrow> True | _ \<Rightarrow> False)
      then Inl (Workflow (W_command Migration_needs_wait))
      else and_then (wf_validate_definition d) (\<lambda>_.
        if wd_name d \<noteq> wd_name (wr_definition run) \<or>
           wd_version d \<le> wd_version (wr_definition run) \<or>
           wd_content_sha256 d = wd_content_sha256 (wr_definition run)
        then Inl (Workflow (W_command Migration_incompatible))
        else Inr (run\<lparr>wr_definition := d\<rparr>, WtDefinitionMigrated (wr_definition run) d)))"
| "apply_kind run (WcComplete summary) now =
     and_then (require_running run) (\<lambda>_.
     and_then (wf_validate_text summary) (\<lambda>_.
     Inr (run\<lparr>wr_status := WsCompleted summary\<rparr>, WtCompleted summary)))"
| "apply_kind run (WcFail reason) now =
     and_then (require_nonterminal run) (\<lambda>_.
     and_then (wf_validate_text reason) (\<lambda>_.
     Inr (run\<lparr>wr_status := WsFailed reason\<rparr>, WtFailed reason)))"
| "apply_kind run (WcCancel reason) now =
     and_then (require_nonterminal run) (\<lambda>_.
     and_then (wf_validate_text reason) (\<lambda>_.
     Inr (run\<lparr>wr_status := WsCancelled reason\<rparr>, WtCancelled reason)))"

definition recognizes_command :: "'v workflow_env \<Rightarrow> 'v workflow_run \<Rightarrow> 'v workflow_command \<Rightarrow> bool result"
where
  "recognizes_command env run command =
     and_then (wf_validate_command env command) (\<lambda>_.
     and_then (command_digest (env_sha256 env) (env_command env) command) (\<lambda>digest.
     case find (\<lambda>t. wt_command_id t = wc_id command) (wr_transitions run) of
       None \<Rightarrow> Inr False
     | Some existing \<Rightarrow>
         if wt_command_sha256 existing = digest then Inr True
         else Inl (Workflow (W_command (Command_reused (wc_id command))))))"

definition workflow_apply ::
  "'v::linorder workflow_env \<Rightarrow> 'v workflow_run \<Rightarrow> 'v workflow_command \<Rightarrow> u64 \<Rightarrow> authority_context \<Rightarrow>
   ('v workflow_run \<times> workflow_apply_outcome) result" where
  "workflow_apply env run command applied_at_ms authority =
     and_then (recognizes_command env run command) (\<lambda>known.
     if known then Inr (run, Duplicate)
     else
     and_then (wf_validate_application_time applied_at_ms) (\<lambda>_.
     and_then (authority_validate_current authority) (\<lambda>_.
     and_then (command_digest (env_sha256 env) (env_command env) command) (\<lambda>digest.
     let cls = command_capacity_class (wc_kind command) in
     and_then (wf_validate_transition_capacity (length (wr_transitions run)) cls) (\<lambda>_.
     if wr_transitions run \<noteq> [] \<and> applied_at_ms < wt_applied_at_ms (last (wr_transitions run))
     then Inl (Workflow (W_command Time_backwards))
     else
     and_then (apply_kind run (wc_kind command) applied_at_ms) (\<lambda>(nxt, kind).
     and_then (ok_or (Workflow (W_log Sequence_overflow))
       (Option.bind (u64_of_usize (length (wr_transitions nxt))) (\<lambda>n. checked_add n 1))) (\<lambda>sequence.
     let nxt = nxt\<lparr>wr_transitions := wr_transitions nxt @
           [\<lparr>wt_sequence = sequence, wt_command_id = wc_id command, wt_command_sha256 = digest,
             wt_applied_at_ms = applied_at_ms, wt_actor = actor authority, wt_kind = kind\<rparr>]\<rparr> in
     and_then (workflow_validate env nxt) (\<lambda>_.
     and_then (wf_encoded_size_for env nxt cls) (\<lambda>charge.
     Inr (nxt\<lparr>wr_charge := charge\<rparr>, Applied))))))))))"

definition workflow_new ::
  "'v::linorder workflow_env \<Rightarrow> 'v workflow_create_request \<Rightarrow> u64 \<Rightarrow> authority_context \<Rightarrow>
   'v workflow_run result" where
  "workflow_new env request applied_at_ms authority =
     and_then (wf_validate_create_request request) (\<lambda>_.
     and_then (wf_validate_application_time applied_at_ms) (\<lambda>_.
     and_then (authority_validate_current authority) (\<lambda>_.
     and_then (command_digest (env_sha256 env) (env_create env) request) (\<lambda>digest.
     let transition = \<lparr>wt_sequence = 1, wt_command_id = cr_command_id request,
           wt_command_sha256 = digest, wt_applied_at_ms = applied_at_ms, wt_actor = actor authority,
           wt_kind = WtCreated (cr_definition request) (cr_task_graph_id request)\<rparr>;
         run = \<lparr>wr_definition = cr_definition request, wr_task_graph_id = cr_task_graph_id request,
           wr_status = WsRunning, wr_transitions = [transition], wr_charge = 0\<rparr> in
     and_then (workflow_validate env run) (\<lambda>_.
     and_then (wf_encoded_size env run) (\<lambda>charge.
     Inr (run\<lparr>wr_charge := charge\<rparr>)))))))"

definition create_matches ::
  "'v workflow_env \<Rightarrow> 'v workflow_run \<Rightarrow> 'v workflow_create_request \<Rightarrow> bool result" where
  "create_matches env run request =
     and_then (command_digest (env_sha256 env) (env_create env) request) (\<lambda>digest.
     Inr (case wr_transitions run of
            [] \<Rightarrow> False
          | t # _ \<Rightarrow> wt_command_id t = cr_command_id request \<and> wt_command_sha256 t = digest))"

text \<open>\<open>Deserialize for WorkflowRun\<close>: the projection read back is replayed before it is used.\<close>

definition workflow_from_wire :: "'v::linorder workflow_env \<Rightarrow> 'v workflow_run_wire \<Rightarrow> 'v workflow_run result"
where
  "workflow_from_wire env wire =
     (let run = \<lparr>wr_definition = ww_definition wire, wr_task_graph_id = ww_task_graph_id wire,
        wr_status = ww_status wire, wr_transitions = ww_transitions wire, wr_charge = 0\<rparr> in
      and_then (workflow_validate env run) (\<lambda>_.
      and_then (wf_encoded_size env run) (\<lambda>charge.
      Inr (run\<lparr>wr_charge := charge\<rparr>))))"

section \<open>The history as a log\<close>

lemma replay_kind_frame:
  assumes "replay_kind rp t = Inr rp'"
  shows "expected_sequence rp' = expected_sequence rp" "command_ids rp' = command_ids rp"
    "previous_applied_at_ms rp' = previous_applied_at_ms rp"
    "wait_ids rp' = wait_ids rp \<union> Collect (starts_wait (wt_kind t))"
    "signal_ids rp' = signal_ids rp \<union> Collect (delivers_signal (wt_kind t))"
  using assms
  by (auto simp: replay_kind_def ok_iff split: workflow_transition_kind.splits option.splits
      workflow_status.splits workflow_wait.splits if_splits)

lemma replay_envelope_ok:
  "replay_envelope env rp t = Inr rp' \<longleftrightarrow>
     wt_sequence t = expected_sequence rp \<and>
     wf_validate_identity (wt_command_id t) = Inr () \<and>
     wf_validate_digest (wt_command_sha256 t) = Inr () \<and>
     wt_applied_at_ms t \<noteq> 0 \<and> previous_applied_at_ms rp \<le> wt_applied_at_ms t \<and>
     valid_actor_shape (wt_actor t) \<and>
     transition_digest env t = Inr (wt_command_sha256 t) \<and>
     (transition_capacity_class (wt_kind t) = Work \<longrightarrow>
        unat (wt_sequence t) \<le> MAX_WORKFLOW_WORK_TRANSITIONS) \<and>
     wt_command_id t \<notin> command_ids rp \<and>
     (\<exists>n. checked_add (expected_sequence rp) 1 = Some n \<and>
       rp' = rp\<lparr>expected_sequence := n, previous_applied_at_ms := wt_applied_at_ms t,
               command_ids := insert (wt_command_id t) (command_ids rp)\<rparr>)"
  unfolding replay_envelope_def
  by (auto simp: and_then_eq_Inr map_err_eq_Inr ok_or_eq_Inr validate_shape_ok
      wf_validate_application_time_def not_less split: if_splits)

lemma replay_transition_ok:
  "replay_transition env rp t = Inr rp' \<longleftrightarrow>
     (\<exists>rp1. replay_envelope env rp t = Inr rp1 \<and> replay_kind rp1 t = Inr rp')"
  by (simp add: replay_transition_def ok_iff)

interpretation wf_log: replay_log "replay_transition env" replay_start wt_sequence wt_command_id
  wt_applied_at_ms command_ids previous_applied_at_ms "\<lambda>rp. unat (expected_sequence rp) - 1"
  "\<lambda>rp. expected_sequence rp \<noteq> 0"
  for env :: "'v::linorder workflow_env"
proof
  fix s s' :: "'v workflow_replay" and t
  assume "replay_transition env s t = Inr s'"
  then obtain rp1 where env: "replay_envelope env s t = Inr rp1" and kind: "replay_kind rp1 t = Inr s'"
    by (auto simp: replay_transition_ok)
  then obtain n where n: "checked_add (expected_sequence s) 1 = Some n" and
    rp1: "rp1 = s\<lparr>expected_sequence := n, previous_applied_at_ms := wt_applied_at_ms t,
               command_ids := insert (wt_command_id t) (command_ids s)\<rparr>"
    by (auto simp: replay_envelope_ok)
  note frame = replay_kind_frame [OF kind, unfolded rp1, simplified]
  have nx: "unat (expected_sequence s') = unat (expected_sequence s) + 1"
    using n frame(1) by (simp add: checked_add_Some)
  show "expected_sequence s \<noteq> 0 \<Longrightarrow> expected_sequence s' \<noteq> 0"
    using nx by auto
  show "expected_sequence s \<noteq> 0 \<Longrightarrow>
    unat (wt_sequence t) = Suc (unat (expected_sequence s) - 1) \<and>
    unat (expected_sequence s') - 1 = Suc (unat (expected_sequence s) - 1)"
    using nx env by (simp add: replay_envelope_ok unat_gt_0)
  show "wt_command_id t \<notin> command_ids s \<and> command_ids s' = insert (wt_command_id t) (command_ids s)"
    using env frame by (simp add: replay_envelope_ok)
  show "previous_applied_at_ms s \<le> wt_applied_at_ms t \<and> previous_applied_at_ms s' = wt_applied_at_ms t"
    using env frame by (simp add: replay_envelope_ok)
qed (simp_all add: replay_start_def)

text \<open>
  Settling transitions are scarce: a wait can be resumed once, and the Run settled once. The
  budget is the number of settling transitions that can still follow.
\<close>

fun status_budget :: "workflow_status \<Rightarrow> nat" where
  "status_budget (WsWaiting _) = 2"
| "status_budget WsRunning = 1"
| "status_budget _ = 0"

definition replay_budget :: "'v workflow_replay \<Rightarrow> nat" where
  "replay_budget rp = (case projected_status rp of None \<Rightarrow> 0 | Some st \<Rightarrow> status_budget st)"

lemma status_budget_pos: "0 < status_budget st \<longleftrightarrow> \<not> ws_is_terminal st"
  by (cases st) simp_all

lemma replay_kind_settles:
  assumes "replay_kind rp t = Inr rp'" and "transition_capacity_class (wt_kind t) \<noteq> Work"
  shows "replay_budget rp' < replay_budget rp"
  using assms
  by (auto simp: replay_kind_def replay_budget_def ok_iff status_budget_pos
      split: workflow_transition_kind.splits option.splits workflow_status.splits
      workflow_wait.splits if_splits)

interpretation wf_reserve: settlement_reserve "replay_transition env" replay_start wt_sequence
  wt_command_id wt_applied_at_ms command_ids previous_applied_at_ms
  "\<lambda>rp. unat (expected_sequence rp) - 1" "\<lambda>rp. expected_sequence rp \<noteq> 0"
  "\<lambda>t. transition_capacity_class (wt_kind t) = Work" replay_budget
  MAX_WORKFLOW_WORK_TRANSITIONS WORKFLOW_SETTLEMENT_TRANSITION_RESERVE
  for env :: "'v::linorder workflow_env"
proof unfold_locales
  fix s s' :: "'v workflow_replay" and t
  have "status_budget st \<le> 2" for st by (cases st) simp_all
  then show "replay_budget s \<le> WORKFLOW_SETTLEMENT_TRANSITION_RESERVE"
    by (simp add: replay_budget_def WORKFLOW_SETTLEMENT_TRANSITION_RESERVE_def split: option.splits)
  assume step: "replay_transition env s t = Inr s'"
  then show "transition_capacity_class (wt_kind t) = Work \<Longrightarrow>
      unat (wt_sequence t) \<le> MAX_WORKFLOW_WORK_TRANSITIONS"
    by (auto simp: replay_transition_ok replay_envelope_ok)
  from step show "transition_capacity_class (wt_kind t) \<noteq> Work \<Longrightarrow> replay_budget s' < replay_budget s"
    by (fastforce simp: replay_transition_ok replay_envelope_ok replay_budget_def
        dest: replay_kind_settles)
qed

lemma replay_ids:
  assumes "try_fold (replay_transition env) replay_start ts = Inr rp"
  shows "wait_ids rp = {i. \<exists>t\<in>set ts. starts_wait (wt_kind t) i}"
    and "signal_ids rp = {i. \<exists>t\<in>set ts. delivers_signal (wt_kind t) i}"
  using assms
proof (induction rule: try_fold_prefix_induct)
  case (snoc ts t rp rp')
  {
    case 1
    from snoc show ?case
      by (auto simp: replay_transition_ok replay_envelope_ok replay_kind_frame)
  next
    case 2
    from snoc show ?case
      by (auto simp: replay_transition_ok replay_envelope_ok replay_kind_frame)
  }
qed (simp_all add: replay_start_def)

section \<open>Commands and the transitions they record\<close>

lemma apply_kind_frame:
  assumes "apply_kind run kind now = Inr (run', tk)"
  shows "wr_transitions run' = wr_transitions run" "wr_task_graph_id run' = wr_task_graph_id run"
    "transition_command_kind tk = Some kind"
    "transition_capacity_class tk = command_capacity_class kind"
  using assms
  by (cases kind; auto simp: ok_iff start_wait_def split: if_splits workflow_status.splits
      workflow_wait.splits)+

lemma apply_kind_replays:
  assumes "apply_kind run kind now = Inr (run', tk)"
    and "projected_definition rp = Some (wr_definition run)"
    and "projected_status rp = Some (wr_status run)"
    and "wait_ids rp = {i. \<exists>t\<in>set (wr_transitions run). starts_wait (wt_kind t) i}"
    and "signal_ids rp = {i. \<exists>t\<in>set (wr_transitions run). delivers_signal (wt_kind t) i}"
    and "now \<noteq> 0"
  shows "\<exists>rp'. replay_kind rp \<lparr>wt_sequence = sq, wt_command_id = ci, wt_command_sha256 = h,
      wt_applied_at_ms = now, wt_actor = a, wt_kind = tk\<rparr> = Inr rp' \<and>
    projected_definition rp' = Some (wr_definition run') \<and>
    projected_status rp' = Some (wr_status run') \<and>
    projected_task_graph rp' = projected_task_graph rp"
proof -
  note guards = start_wait_def ensure_new_wait_id_def require_running_def require_nonterminal_def
  show ?thesis
    using assms
    by (cases kind)
      (auto simp: ok_iff replay_kind_def guards list_ex_iff
        split: if_splits workflow_status.splits workflow_wait.splits option.splits)
qed

lemma apply_kind_definition:
  "apply_kind run kind now = Inr (run', tk) \<Longrightarrow> wf_validate_definition (wr_definition run) = Inr () \<Longrightarrow>
   wf_validate_definition (wr_definition run') = Inr ()"
  by (cases kind) (auto simp: ok_iff start_wait_def split: if_splits workflow_status.splits workflow_wait.splits)

lemma workflow_validate_ok:
  "workflow_validate env run = Inr u \<longleftrightarrow>
     wf_validate_definition (wr_definition run) = Inr () \<and>
     wf_validate_identity (wr_task_graph_id run) = Inr () \<and>
     wr_transitions run \<noteq> [] \<and> length (wr_transitions run) \<le> MAX_WORKFLOW_TRANSITIONS \<and>
     (\<exists>rp. try_fold (replay_transition env) replay_start (wr_transitions run) = Inr rp \<and>
       projected_definition rp = Some (wr_definition run) \<and>
       projected_task_graph rp = Some (wr_task_graph_id run) \<and>
       projected_status rp = Some (wr_status run))"
  unfolding workflow_validate_def by (auto simp: ok_iff split: if_splits)

lemma command_digest_ok:
  "command_digest sha ser v = Inr d \<longleftrightarrow>
     (\<exists>b. to_vec ser v = Some b \<and> length b \<le> MAX_WORKFLOW_COMMAND_JSON_BYTES \<and> d = lower_hex (sha b))"
  by (auto simp: command_digest_def split: option.splits)

lemma command_digest_valid:
  "command_digest sha ser v = Inr d \<Longrightarrow> (\<And>b. length (sha b) = 32) \<Longrightarrow> wf_validate_digest d = Inr ()"
  using lower_hex_is_lower_sha256
  by (fastforce simp: command_digest_ok wf_validate_digest_def is_lower_sha256_def)

lemma recognizes_command_False:
  "recognizes_command env run command = Inr False \<longleftrightarrow>
     wf_validate_command env command = Inr () \<and>
     (\<forall>t\<in>set (wr_transitions run). wt_command_id t \<noteq> wc_id command)"
  by (auto simp: recognizes_command_def wf_validate_command_def ok_iff find_None_iff
      split: option.splits if_splits)

lemma workflow_command_eta [simp]: "\<lparr>wc_id = wc_id c, wc_kind = wc_kind c\<rparr> = c"
  by simp

lemma transition_digest_command:
  "transition_command_kind (wt_kind t) = Some kind \<Longrightarrow>
   transition_digest env t =
     command_digest (env_sha256 env) (env_command env) \<lparr>wc_id = wt_command_id t, wc_kind = kind\<rparr>"
  by (cases "wt_kind t") (simp_all add: transition_digest_def)

text \<open>The transition a command commits, and the Run with it.\<close>

definition commit ::
  "'v workflow_run \<Rightarrow> 'v workflow_command \<Rightarrow> string \<Rightarrow> u64 \<Rightarrow> authority_context \<Rightarrow>
   'v workflow_transition_kind \<Rightarrow> 'v workflow_run" where
  "commit nxt command digest now authority kind =
     nxt\<lparr>wr_transitions := wr_transitions nxt @
       [\<lparr>wt_sequence = of_nat (Suc (length (wr_transitions nxt))), wt_command_id = wc_id command,
         wt_command_sha256 = digest, wt_applied_at_ms = now, wt_actor = actor authority,
         wt_kind = kind\<rparr>]\<rparr>"

lemma commit_revalidates:
  assumes valid: "workflow_validate env run = Inr ()"
    and sha: "\<And>b. length (env_sha256 env b) = 32"
    and new: "recognizes_command env run command = Inr False"
    and time: "now \<noteq> 0"
    and authority: "valid_authority authority"
    and digest: "command_digest (env_sha256 env) (env_command env) command = Inr digest"
    and capacity: "wf_validate_transition_capacity (length (wr_transitions run))
      (command_capacity_class (wc_kind command)) = Inr ()"
    and mono: "\<not> now < wt_applied_at_ms (last (wr_transitions run))"
    and kind: "apply_kind run (wc_kind command) now = Inr (nxt, tk)"
  shows "workflow_validate env (commit nxt command digest now authority tk) = Inr ()"
proof -
  let ?ts = "wr_transitions run"
  define seq :: u64 where "seq = of_nat (Suc (length ?ts))"
  let ?t = "\<lparr>wt_sequence = seq, wt_command_id = wc_id command, wt_command_sha256 = digest,
    wt_applied_at_ms = now, wt_actor = actor authority, wt_kind = tk\<rparr>"
  note frame = apply_kind_frame [OF kind]
  from valid obtain rp where rp: "try_fold (replay_transition env) replay_start ?ts = Inr rp"
    and proj: "projected_definition rp = Some (wr_definition run)"
      "projected_task_graph rp = Some (wr_task_graph_id run)"
      "projected_status rp = Some (wr_status run)"
    and ts: "?ts \<noteq> []" and def: "wf_validate_definition (wr_definition run) = Inr ()"
    and gid: "wf_validate_identity (wr_task_graph_id run) = Inr ()"
    by (auto simp: workflow_validate_ok)
  from capacity have len: "length ?ts < MAX_WORKFLOW_TRANSITIONS"
    and work: "command_capacity_class (wc_kind command) = Work \<longrightarrow> length ?ts < MAX_WORKFLOW_WORK_TRANSITIONS"
    by (auto simp: wf_validate_transition_capacity_def split: if_splits)
  then have small: "Suc (Suc (length ?ts)) < 2 ^ 64" by (simp add: workflow_limits)
  have seq: "unat seq = Suc (length ?ts)"
    using small unfolding seq_def by (intro unat_of_nat_u64) simp
  moreover have "unat (expected_sequence rp) = Suc (length ?ts)"
    using wf_log.replay_count [OF rp] wf_log.replay_inv [OF rp] unat_gt_0 [of "expected_sequence rp"]
    by linarith
  ultimately have expected: "seq = expected_sequence rp"
    by (intro unsigned_word_eqI [where 'a = nat]) simp
  define rp1 where "rp1 = rp\<lparr>expected_sequence := seq + 1, previous_applied_at_ms := now,
    command_ids := insert (wc_id command) (command_ids rp)\<rparr>"
  have "checked_add seq 1 = Some (seq + 1)"
    using small seq by (simp add: checked_add_def)
  moreover have "transition_digest env ?t = Inr digest"
    using digest frame(3) by (simp add: transition_digest_command)
  moreover have "previous_applied_at_ms rp \<le> now"
    using wf_log.replay_previous [OF rp] mono ts by simp
  moreover have "wc_id command \<notin> command_ids rp"
    using new wf_log.replay_seen [OF rp] by (auto simp: recognizes_command_False)
  moreover have "wf_validate_identity (wc_id command) = Inr ()"
    using new by (simp add: recognizes_command_False wf_validate_command_def ok_iff)
  ultimately have env: "replay_envelope env rp ?t = Inr rp1"
    using command_digest_valid [OF digest sha] authority time work seq frame(4)
    by (auto simp: replay_envelope_ok rp1_def valid_authority_def expected [symmetric])
  obtain rp' where "replay_kind rp1 ?t = Inr rp'"
    "projected_definition rp' = Some (wr_definition nxt)"
    "projected_status rp' = Some (wr_status nxt)"
    "projected_task_graph rp' = Some (wr_task_graph_id run)"
    using apply_kind_replays [OF kind, of rp1 seq "wc_id command" digest "actor authority"]
      proj replay_ids [OF rp] time by (auto simp: rp1_def)
  with rp env def gid len show ?thesis
    using apply_kind_definition [OF kind def]
    by (auto simp: workflow_validate_ok commit_def frame(1,2) try_fold_snoc replay_transition_ok
        ok_iff simp del: of_nat_Suc simp flip: seq_def)
qed

text \<open>
  The handler without the replay of the whole history, and with the sequence number written
  out. It is the specification of \<open>workflow_apply\<close> on valid Runs.
\<close>

definition workflow_apply_once ::
  "'v::linorder workflow_env \<Rightarrow> 'v workflow_run \<Rightarrow> 'v workflow_command \<Rightarrow> u64 \<Rightarrow> authority_context \<Rightarrow>
   ('v workflow_run \<times> workflow_apply_outcome) result" where
  "workflow_apply_once env run command now authority =
     and_then (recognizes_command env run command) (\<lambda>known.
     if known then Inr (run, Duplicate)
     else
     and_then (wf_validate_application_time now) (\<lambda>_.
     and_then (authority_validate_current authority) (\<lambda>_.
     and_then (command_digest (env_sha256 env) (env_command env) command) (\<lambda>digest.
     and_then (wf_validate_transition_capacity (length (wr_transitions run))
       (command_capacity_class (wc_kind command))) (\<lambda>_.
     if now < wt_applied_at_ms (last (wr_transitions run))
     then Inl (Workflow (W_command Time_backwards))
     else
     and_then (apply_kind run (wc_kind command) now) (\<lambda>(nxt, kind).
     let run' = commit nxt command digest now authority kind in
     and_then (wf_encoded_size_for env run' (command_capacity_class (wc_kind command))) (\<lambda>charge.
     Inr (run'\<lparr>wr_charge := charge\<rparr>, Applied))))))))"

lemma commit_sequence:
  assumes "length ts < MAX_WORKFLOW_TRANSITIONS"
  shows "Option.bind (u64_of_usize (length ts)) (\<lambda>n. checked_add n 1) = Some (of_nat (Suc (length ts)))"
proof -
  from assms have "Suc (length ts) < 2 ^ 64" by (simp add: workflow_limits)
  then show ?thesis
    by (simp add: u64_of_usize_def checked_add_def unat_of_nat_u64)
qed

lemma workflow_apply_eq_once:
  assumes valid: "workflow_validate env run = Inr ()"
    and sha: "\<And>b. length (env_sha256 env b) = 32"
  shows "workflow_apply env run command now authority = workflow_apply_once env run command now authority"
proof (cases "recognizes_command env run command = Inr False")
  case False
  then show ?thesis
    by (cases "recognizes_command env run command") (simp_all add: workflow_apply_def workflow_apply_once_def)
next
  case new: True
  from valid have ts: "wr_transitions run \<noteq> []" by (simp add: workflow_validate_ok)
  show ?thesis
    unfolding workflow_apply_def workflow_apply_once_def new and_then_simps if_False Let_def
  proof (intro and_then_cong refl, goal_cases)
    case (1 _ _ digest)
    show ?case
    proof (cases "now < wt_applied_at_ms (last (wr_transitions run))")
      case False
      note revalidates = commit_revalidates [OF valid sha new _ _ "1"(3) _ False]
      have ok: "workflow_validate env (commit nxt command digest now authority kind) = Inr ()"
        if "apply_kind run (wc_kind command) now = Inr (nxt, kind)" for nxt kind
        using revalidates [OF _ _ _ that] "1" 
        by (simp add: authority_validate_current_ok wf_validate_application_time_def split: if_splits)
      have len: "length (wr_transitions run) < MAX_WORKFLOW_TRANSITIONS"
        using "1"(4) by (auto simp: wf_validate_transition_capacity_def split: if_splits)
      have sequence: "Option.bind (u64_of_usize (length (wr_transitions nxt))) (\<lambda>n. checked_add n 1)
          = Some (of_nat (Suc (length (wr_transitions nxt))))"
        if "apply_kind run (wc_kind command) now = Inr (nxt, kind)" for nxt kind
        using commit_sequence [OF len] apply_kind_frame(1) [OF that] by simp
      show ?thesis
        using False ok sequence
        by (cases "apply_kind run (wc_kind command) now") (auto simp: commit_def simp del: of_nat_Suc)
    qed (simp add: ts)
  qed
qed

lemma workflow_apply_AppliedE:
  assumes "workflow_apply env run command now authority = Inr (run', Applied)"
  obtains digest nxt kind charge where
    "recognizes_command env run command = Inr False" "now \<noteq> 0" "valid_authority authority"
    "command_digest (env_sha256 env) (env_command env) command = Inr digest"
    "apply_kind run (wc_kind command) now = Inr (nxt, kind)"
    "workflow_validate env (commit nxt command digest now authority kind) = Inr ()"
    "wf_encoded_size_for env (commit nxt command digest now authority kind)
       (command_capacity_class (wc_kind command)) = Inr charge"
    "run' = (commit nxt command digest now authority kind)\<lparr>wr_charge := charge\<rparr>"
proof -
  from assms obtain digest nxt kind sq charge where facts:
    "recognizes_command env run command = Inr False" "now \<noteq> 0" "valid_authority authority"
    "command_digest (env_sha256 env) (env_command env) command = Inr digest"
    "apply_kind run (wc_kind command) now = Inr (nxt, kind)"
    and sq: "Option.bind (u64_of_usize (length (wr_transitions nxt))) (\<lambda>n. checked_add n 1) = Some sq"
    and run': "workflow_validate env (nxt\<lparr>wr_transitions := wr_transitions nxt @
          [\<lparr>wt_sequence = sq, wt_command_id = wc_id command, wt_command_sha256 = digest,
            wt_applied_at_ms = now, wt_actor = actor authority, wt_kind = kind\<rparr>]\<rparr>) = Inr ()"
      "wf_encoded_size_for env (nxt\<lparr>wr_transitions := wr_transitions nxt @
          [\<lparr>wt_sequence = sq, wt_command_id = wc_id command, wt_command_sha256 = digest,
            wt_applied_at_ms = now, wt_actor = actor authority, wt_kind = kind\<rparr>]\<rparr>)
        (command_capacity_class (wc_kind command)) = Inr charge"
      "run' = nxt\<lparr>wr_transitions := wr_transitions nxt @
          [\<lparr>wt_sequence = sq, wt_command_id = wc_id command, wt_command_sha256 = digest,
            wt_applied_at_ms = now, wt_actor = actor authority, wt_kind = kind\<rparr>],
          wr_charge := charge\<rparr>"
    by (auto simp: workflow_apply_def and_then_eq_Inr ok_or_eq_Inr authority_validate_current_ok
        wf_validate_application_time_def Let_def split: if_splits)
  from sq have "unat sq = Suc (length (wr_transitions nxt))"
    by (auto simp: bind_eq_Some_conv u64_of_usize_Some checked_add_Some)
  then have "sq = of_nat (Suc (length (wr_transitions nxt)))"
    by (metis of_nat_unat ucast_id)
  with facts run' show thesis
    by (intro that [of digest nxt kind charge]) (simp_all add: commit_def del: of_nat_Suc)
qed

text \<open>Every Run the program holds was created and then changed only by commands.\<close>

inductive workflow_reachable :: "'v::linorder workflow_env \<Rightarrow> 'v workflow_run \<Rightarrow> bool"
  for env where
  created: "workflow_new env request now authority = Inr run \<Longrightarrow> workflow_reachable env run"
| applied: "workflow_reachable env run \<Longrightarrow>
    workflow_apply env run command now authority = Inr (run', outcome) \<Longrightarrow>
    workflow_reachable env run'"

lemma workflow_apply_Duplicate:
  "workflow_apply env run command now authority = Inr (run', Duplicate) \<longleftrightarrow>
     recognizes_command env run command = Inr True \<and> run' = run"
  by (auto simp: workflow_apply_def ok_iff Let_def split: if_splits)

lemma workflow_validate_charge [simp]:
  "workflow_validate env (run\<lparr>wr_charge := c\<rparr>) = workflow_validate env run"
  by (simp add: workflow_validate_def)

lemma run_wire_charge [simp]: "run_wire (run\<lparr>wr_charge := c\<rparr>) = run_wire run"
  by (simp add: run_wire_def)

lemma encoded_size_settlement:
  "wf_encoded_size_for env run cls = Inr n \<Longrightarrow> wf_encoded_size_for env run Settlement = Inr n"
  by (auto simp: wf_encoded_size_for_def wf_validate_materialization_capacity_def ok_iff
      split: option.splits if_splits)

lemma encoded_size_charge [simp]:
  "wf_encoded_size_for env (run\<lparr>wr_charge := c\<rparr>) cls = wf_encoded_size_for env run cls"
  by (simp add: wf_encoded_size_for_def)

text \<open>The invariant of a stored Run: it replays, and its charge is its encoded size.\<close>

definition workflow_inv :: "'v::linorder workflow_env \<Rightarrow> 'v workflow_run \<Rightarrow> bool" where
  "workflow_inv env run \<longleftrightarrow>
     workflow_validate env run = Inr () \<and> wf_encoded_size env run = Inr (wr_charge run)"

lemma workflow_apply_inv:
  "workflow_inv env run \<Longrightarrow> workflow_apply env run command now authority = Inr (run', outcome) \<Longrightarrow>
   workflow_inv env run'"
  by (cases outcome)
    (auto simp: workflow_inv_def workflow_apply_Duplicate wf_encoded_size_def
      elim!: workflow_apply_AppliedE dest: encoded_size_settlement)

lemma workflow_new_inv: "workflow_new env request now authority = Inr run \<Longrightarrow> workflow_inv env run"
  by (auto simp: workflow_new_def workflow_inv_def ok_iff wf_encoded_size_def Let_def
      workflow_validate_def wf_encoded_size_for_def run_wire_def)

lemma reachable_inv: "workflow_reachable env run \<Longrightarrow> workflow_inv env run"
  by (induction rule: workflow_reachable.induct) (blast intro: workflow_new_inv workflow_apply_inv)+

lemma commit_fields [simp]:
  "wr_status (commit nxt command digest now authority kind) = wr_status nxt"
  "wr_definition (commit nxt command digest now authority kind) = wr_definition nxt"
  "wr_task_graph_id (commit nxt command digest now authority kind) = wr_task_graph_id nxt"
  by (simp_all add: commit_def)

lemma apply_kind_terminal:
  "ws_is_terminal (wr_status run) \<Longrightarrow> \<exists>e. apply_kind run kind now = Inl e"
  by (cases kind; cases "wr_status run")
    (auto simp: and_then_def require_running_def require_nonterminal_def split: sum.splits)

lemma recognizes_committed:
  assumes "recognizes_command env run command = Inr False"
    and "command_digest (env_sha256 env) (env_command env) command = Inr digest"
    and "wr_transitions run' = wr_transitions run @ [t]"
    and "wt_command_id t = wc_id command" "wt_command_sha256 t = digest"
  shows "recognizes_command env run' command = Inr True"
proof -
  have "find (\<lambda>t. wt_command_id t = wc_id command) (wr_transitions run') = Some t"
    using assms by (simp add: recognizes_command_False find_append_new)
  moreover have "wf_validate_command env command = Inr ()"
    using assms(1) by (simp add: recognizes_command_False)
  ultimately show ?thesis
    using assms(2,4,5) by (simp add: recognizes_command_def)
qed

text \<open>The abstract lifecycle: phases, and the fences that have been used for waits.\<close>

datatype phase = Active | Suspended string | Settled

inductive lifecycle :: "phase \<times> string set \<Rightarrow> phase \<times> string set \<Rightarrow> bool" where
  suspend: "w \<notin> used \<Longrightarrow> lifecycle (Active, used) (Suspended w, insert w used)"
| resume: "lifecycle (Suspended w, used) (Active, used)"
| migrate: "lifecycle (Suspended w, used) (Suspended w, used)"
| settle: "p \<noteq> Settled \<Longrightarrow> lifecycle (p, used) (Settled, used)"

inductive_cases from_settled: "lifecycle (Settled, used) s"

fun status_phase :: "workflow_status \<Rightarrow> phase" where
  "status_phase WsRunning = Active"
| "status_phase (WsWaiting wait) = Suspended (ww_id wait)"
| "status_phase _ = Settled"

definition abs_run :: "'v workflow_run \<Rightarrow> phase \<times> string set" where
  "abs_run run = (status_phase (wr_status run),
     {i. \<exists>t\<in>set (wr_transitions run). starts_wait (wt_kind t) i})"

lemma status_phase_settled: "status_phase st = Settled \<longleftrightarrow> ws_is_terminal st"
  by (cases st) simp_all

lemma Collect_starts_wait [simp]:
  "Collect (starts_wait (WtWaitStarted wait)) = {ww_id wait}"
  "transition_capacity_class tk = Settlement \<Longrightarrow> Collect (starts_wait tk) = {}"
  "Collect (starts_wait (WtDefinitionMigrated a b)) = {}"
  by (auto) (cases tk; simp)

lemma apply_kind_lifecycle:
  assumes "apply_kind run kind now = Inr (run', tk)"
  shows "lifecycle (abs_run run)
    (status_phase (wr_status run'), snd (abs_run run) \<union> Collect (starts_wait tk))"
  using assms
  by (cases kind)
    (auto simp: abs_run_def ok_iff start_wait_def ensure_new_wait_id_def require_running_def
      require_nonterminal_def list_ex_iff status_phase_settled
      split: if_splits workflow_status.splits workflow_wait.splits
      intro: lifecycle.resume lifecycle.migrate intro!: lifecycle.settle lifecycle.suspend)

lemma valid_replay:
  assumes "workflow_validate env run = Inr u"
  obtains rp where "try_fold (replay_transition env) replay_start (wr_transitions run) = Inr rp"
    "projected_status rp = Some (wr_status run)" "wr_transitions run \<noteq> []"
  using assms by (auto simp: workflow_validate_ok)

lemma committed_run:
  assumes "workflow_apply env run command now authority = Inr (run', Applied)"
  obtains nxt kind t where "apply_kind run (wc_kind command) now = Inr (nxt, kind)"
    "wr_transitions run' = wr_transitions run @ [t]" "wt_kind t = kind"
    "wr_status run' = wr_status nxt" "wr_definition run' = wr_definition nxt"
    "wt_command_id t = wc_id command" "wt_applied_at_ms t = now"
    "recognizes_command env run command = Inr False"
    "command_digest (env_sha256 env) (env_command env) command = Inr (wt_command_sha256 t)"
proof -
  from assms obtain digest nxt kind charge where facts:
    "recognizes_command env run command = Inr False"
    "command_digest (env_sha256 env) (env_command env) command = Inr digest"
    "apply_kind run (wc_kind command) now = Inr (nxt, kind)"
    "run' = (commit nxt command digest now authority kind)\<lparr>wr_charge := charge\<rparr>"
    by (rule workflow_apply_AppliedE)
  show thesis
    using facts(1,2) apply_kind_frame(1) [OF facts(3)]
    by (intro that [OF facts(3), of "last (wr_transitions run')"])
      (simp_all add: facts(4) commit_def del: of_nat_Suc)
qed

lemma apply_extends:
  "workflow_apply env run command now authority = Inr (run', outcome) \<Longrightarrow>
   \<exists>ts. wr_transitions run' = wr_transitions run @ ts"
  by (cases outcome) (auto simp: workflow_apply_Duplicate elim: committed_run)

lemma unterminated_has_room:
  assumes "workflow_validate env run = Inr u" and "\<not> ws_is_terminal (wr_status run)"
  shows "length (wr_transitions run) < MAX_WORKFLOW_TRANSITIONS"
  using assms wf_reserve.unsettled_has_room [of env "wr_transitions run"]
  by (auto simp: replay_budget_def status_budget_pos MAX_WORKFLOW_TRANSITIONS_def elim!: valid_replay)

section \<open>The byte reserve\<close>

text \<open>
  What the settlement reserve of bytes is computed from: a new Run is encoded within the bytes for
  work, a transition that resumes the Run adds its envelope, and a transition that settles it adds
  its text twice, once as the status and once as evidence. These are sizes of the encoding
  of single transitions; serialisers are parameters.
\<close>

definition settlement_growth :: "workflow_status \<Rightarrow> nat" where
  "settlement_growth st = (if ws_is_terminal st then 2 * MAX_WORKFLOW_COMMAND_JSON_BYTES else 0) + 8192"

definition settlement_bytes_covered :: "'v::linorder workflow_env \<Rightarrow> bool" where
  "settlement_bytes_covered env \<longleftrightarrow>
     (\<forall>request now authority run. workflow_new env request now authority = Inr run \<longrightarrow>
        wr_charge run \<le> MAX_WORKFLOW_WORK_JSON_BYTES) \<and>
     (\<forall>run b command digest now authority nxt kind.
        workflow_reachable env run \<longrightarrow> to_vec (env_run env) (run_wire run) = Some b \<longrightarrow>
        wf_validate_command env command = Inr () \<longrightarrow>
        command_digest (env_sha256 env) (env_command env) command = Inr digest \<longrightarrow> valid_authority authority \<longrightarrow>
        command_capacity_class (wc_kind command) = Settlement \<longrightarrow>
        apply_kind run (wc_kind command) now = Inr (nxt, kind) \<longrightarrow>
        (\<exists>b'. to_vec (env_run env) (run_wire (commit nxt command digest now authority kind)) = Some b' \<and>
          length b' \<le> length b + settlement_growth (wr_status nxt)))"

text \<open>The bytes that the settling transitions still to come may need.\<close>

fun byte_budget :: "workflow_status \<Rightarrow> nat" where
  "byte_budget (WsWaiting _) = 2 * MAX_WORKFLOW_COMMAND_JSON_BYTES + 16384"
| "byte_budget WsRunning = 2 * MAX_WORKFLOW_COMMAND_JSON_BYTES + 8192"
| "byte_budget _ = 0"

lemma byte_budget_reserve: "MAX_WORKFLOW_WORK_JSON_BYTES + byte_budget st \<le> MAX_WORKFLOW_JSON_BYTES"
  by (cases st) (simp_all add: MAX_WORKFLOW_JSON_BYTES_def)

lemma apply_kind_resumes:
  assumes "apply_kind run kind now = Inr (nxt, tk)" and "command_capacity_class kind = Settlement"
    and "\<not> ws_is_terminal (wr_status nxt)"
  shows "wr_status nxt = WsRunning" "\<exists>wait. wr_status run = WsWaiting wait"
  using assms
  by (cases kind; auto simp: ok_iff split: if_splits workflow_status.splits workflow_wait.splits)+

lemma encoded_size_for_Inr:
  "wf_encoded_size_for env run cls = Inr n \<longleftrightarrow> (\<exists>b. to_vec (env_run env) (run_wire run) = Some b \<and> n = length b \<and>
     n \<le> MAX_WORKFLOW_JSON_BYTES \<and> (cls = Work \<longrightarrow> n \<le> MAX_WORKFLOW_WORK_JSON_BYTES))"
  by (auto simp: wf_encoded_size_for_def wf_validate_materialization_capacity_def ok_iff split: option.splits if_splits)

lemma reachable_encoding:
  assumes "workflow_reachable env run"
  obtains b where "to_vec (env_run env) (run_wire run) = Some b" "length b = wr_charge run"
  using reachable_inv [OF assms] by (auto simp: workflow_inv_def wf_encoded_size_def encoded_size_for_Inr)

lemma reachable_byte_budget:
  assumes bytes: "settlement_bytes_covered env" and "workflow_reachable env run"
  shows "wr_charge run + byte_budget (wr_status run) \<le> MAX_WORKFLOW_JSON_BYTES"
  using assms(2)
proof (induction rule: workflow_reachable.induct)
  case (created request now authority run)
  then have "wr_charge run \<le> MAX_WORKFLOW_WORK_JSON_BYTES" using bytes by (auto simp: settlement_bytes_covered_def)
  with byte_budget_reserve [of "wr_status run"] show ?case by linarith
next
  case (applied run command now authority run' outcome)
  show ?case
  proof (cases outcome)
    case Applied
    from applied.hyps(2) [unfolded this] obtain digest nxt kind charge where f:
      "recognizes_command env run command = Inr False" "valid_authority authority"
      "command_digest (env_sha256 env) (env_command env) command = Inr digest"
      "apply_kind run (wc_kind command) now = Inr (nxt, kind)"
      "wf_encoded_size_for env (commit nxt command digest now authority kind) (command_capacity_class (wc_kind command)) = Inr charge"
      "run' = (commit nxt command digest now authority kind)\<lparr>wr_charge := charge\<rparr>"
      by (rule workflow_apply_AppliedE)
    have status: "wr_status run' = wr_status nxt" "wr_charge run' = charge" by (simp_all add: f(6))
    show ?thesis
    proof (cases "command_capacity_class (wc_kind command)")
      case Work
      with f(5) have "charge \<le> MAX_WORKFLOW_WORK_JSON_BYTES" by (auto simp: encoded_size_for_Inr)
      with byte_budget_reserve [of "wr_status nxt"] show ?thesis by (simp add: status)
    next
      case Settlement
      show ?thesis
      proof (cases "ws_is_terminal (wr_status nxt)")
        case True
        then have "byte_budget (wr_status nxt) = 0" by (cases "wr_status nxt") simp_all
        with f(5) show ?thesis by (auto simp: status encoded_size_for_Inr)
      next
        case False
        from apply_kind_resumes [OF f(4) Settlement False] obtain wait where
          resumed: "wr_status nxt = WsRunning" "wr_status run = WsWaiting wait" by blast
        from reachable_encoding [OF applied.hyps(1)] obtain b where
          b: "to_vec (env_run env) (run_wire run) = Some b" "length b = wr_charge run" by blast
        have "charge \<le> length b + settlement_growth (wr_status nxt)"
          using bytes applied.hyps(1) b(1) f Settlement
          by (fastforce simp: settlement_bytes_covered_def recognizes_command_False encoded_size_for_Inr)
        with applied.IH resumed b(2) show ?thesis by (simp add: status settlement_growth_def)
      qed
    qed
  qed (use applied in \<open>auto simp: workflow_apply_Duplicate\<close>)
qed

lemma settlement_encodes:
  assumes bytes: "settlement_bytes_covered env" and reachable: "workflow_reachable env run"
    and open_run: "\<not> ws_is_terminal (wr_status run)" and new: "recognizes_command env run command = Inr False"
    and digest: "command_digest (env_sha256 env) (env_command env) command = Inr digest" and authority: "valid_authority authority"
    and settles: "command_capacity_class (wc_kind command) = Settlement" "apply_kind run (wc_kind command) now = Inr (nxt, kind)"
  shows "\<exists>n. wf_encoded_size_for env (commit nxt command digest now authority kind) Settlement = Inr n"
proof -
  obtain b where b: "to_vec (env_run env) (run_wire run) = Some b" "length b = wr_charge run"
    using reachable by (rule reachable_encoding)
  from new have "wf_validate_command env command = Inr ()" by (simp add: recognizes_command_False)
  with bytes reachable b(1) digest authority settles obtain b' where
    b': "to_vec (env_run env) (run_wire (commit nxt command digest now authority kind)) = Some b'"
      "length b' \<le> length b + settlement_growth (wr_status nxt)"
    unfolding settlement_bytes_covered_def by blast
  have "settlement_growth st \<le> byte_budget (wr_status run)" for st
    using open_run by (cases "wr_status run") (simp_all add: settlement_growth_def)
  with reachable_byte_budget [OF bytes reachable] b(2) b'(2) have "length b' \<le> MAX_WORKFLOW_JSON_BYTES"
    by (metis add_le_mono1 add.commute le_trans)
  with b'(1) show ?thesis by (auto simp: encoded_size_for_Inr)
qed

lemma replay_ids_once:
  assumes "try_fold (replay_transition env) replay_start ts = Inr rp"
  shows "length (filter (\<lambda>t. starts_wait (wt_kind t) i) ts) \<le> 1"
    and "length (filter (\<lambda>t. delivers_signal (wt_kind t) i) ts) \<le> 1"
  using assms
proof (induction rule: try_fold_prefix_induct)
  case (snoc ts t rp rp')
  note ids = replay_ids [OF snoc.hyps(1)]
  from snoc.hyps(2) obtain rp1 where "replay_envelope env rp t = Inr rp1" "replay_kind rp1 t = Inr rp'"
    by (auto simp: replay_transition_ok)
  then have rp1: "wait_ids rp1 = wait_ids rp" "signal_ids rp1 = signal_ids rp" "replay_kind rp1 t = Inr rp'"
    by (auto simp: replay_envelope_ok)
  {
    case 1
    have "starts_wait (wt_kind t) i \<Longrightarrow> i \<notin> wait_ids rp1"
      using rp1(3) by (cases "wt_kind t") (auto simp: replay_kind_def ok_iff split: if_splits)
    with snoc.IH(1) rp1(1) ids(1) show ?case by (auto simp: filter_empty_conv)
  next
    case 2
    have "delivers_signal (wt_kind t) i \<Longrightarrow> i \<notin> signal_ids rp1"
      using rp1(3) by (cases "wt_kind t") (auto simp: replay_kind_def ok_iff split: if_splits)
    with snoc.IH(2) rp1(2) ids(2) show ?case by (auto simp: filter_empty_conv)
  }
qed simp_all

section \<open>A concrete Run\<close>

text \<open>An environment and a Run with one timer, on which the properties are instantiated.\<close>

definition demo_sha256 :: "bytes \<Rightarrow> bytes" where
  "demo_sha256 b = take 32 (b @ replicate 32 CHR 0x00)"

definition demo_env :: "nat workflow_env" where
  "demo_env = \<lparr>env_create = (\<lambda>r. ([cr_command_id r], True)), env_command = (\<lambda>c. ([wc_id c], True)),
     env_run = (\<lambda>w. ([''run''], True)), env_sha256 = demo_sha256\<rparr>"

definition demo_definition :: "nat \<Rightarrow> nat workflow_definition" where
  "demo_definition n = \<lparr>wd_name = ''demo'', wd_version = n,
     wd_content_sha256 = lower_hex (demo_sha256 (replicate n CHR ''v''))\<rparr>"

definition demo_request :: "nat workflow_create_request" where
  "demo_request = \<lparr>cr_command_id = ''create'', cr_definition = demo_definition 1, cr_task_graph_id = ''graph''\<rparr>"

definition demo_transition ::
  "u64 \<Rightarrow> string \<Rightarrow> u64 \<Rightarrow> nat workflow_transition_kind \<Rightarrow> nat workflow_transition" where
  "demo_transition n i now kind = \<lparr>wt_sequence = n, wt_command_id = i,
     wt_command_sha256 = lower_hex (demo_sha256 i), wt_applied_at_ms = now,
     wt_actor = LocalProcess, wt_kind = kind\<rparr>"

definition demo_run :: "nat workflow_run" where
  "demo_run = \<lparr>wr_definition = demo_definition 1, wr_task_graph_id = ''graph'', wr_status = WsRunning,
     wr_transitions = [demo_transition 1 ''create'' 5 (WtCreated (demo_definition 1) ''graph'')],
     wr_charge = 3\<rparr>"

definition demo_wait :: "nat workflow_command" where
  "demo_wait = \<lparr>wc_id = ''wait'', wc_kind = WcWaitForSignal ''w'' ''demo'' ''demo'' (Some 9)\<rparr>"

definition demo_waiting :: "nat workflow_run" where
  "demo_waiting = demo_run\<lparr>wr_status := WsWaiting (WwSignal ''w'' ''demo'' ''demo'' (Some 9)),
     wr_transitions := wr_transitions demo_run @
       [demo_transition 2 ''wait'' 6 (WtWaitStarted (WwSignal ''w'' ''demo'' ''demo'' (Some 9)))]\<rparr>"

definition demo_signal :: "nat workflow_command" where
  "demo_signal = \<lparr>wc_id = ''signal'', wc_kind = WcDeliverSignal ''w'' ''s'' ''demo'' ''demo'' ''key''\<rparr>"

definition demo_cancel :: "nat workflow_command" where
  "demo_cancel = \<lparr>wc_id = ''cancel'', wc_kind = WcCancel ''stop''\<rparr>"

definition demo_cancelled :: "nat workflow_run" where
  "demo_cancelled = demo_run\<lparr>wr_status := WsCancelled ''stop'',
     wr_transitions := wr_transitions demo_run @ [demo_transition 2 ''cancel'' 6 (WtCancelled ''stop'')]\<rparr>"

lemma length_demo_sha256 [simp]: "length (demo_sha256 b) = 32"
  by (simp add: demo_sha256_def)

lemma demo_env_sha256 [simp]: "env_sha256 demo_env = demo_sha256"
  by (simp add: demo_env_def)

lemma demo_digest [simp]: "wf_validate_digest (lower_hex (demo_sha256 b)) = Inr ()"
  using lower_hex_is_lower_hex by (simp add: wf_validate_digest_def)

lemma demo_fields [simp]:
  "wf_validate_identity ''create'' = Inr ()" "wf_validate_identity ''graph'' = Inr ()"
  "wf_validate_identity ''w'' = Inr ()" "wf_validate_identity ''wait'' = Inr ()"
  "wf_validate_identity ''s'' = Inr ()" "wf_validate_identity ''signal'' = Inr ()"
  "wf_validate_identity ''cancel'' = Inr ()" "wf_validate_idempotency_key ''key'' = Inr ()"
  "wf_validate_text ''stop'' = Inr ()" "validate_capability_name ''demo'' = Inr ()"
  by (simp_all add: wf_validate_identity_def wf_validate_idempotency_key_def wf_validate_text_def
      validate_capability_name_def string_eval MAX_WORKFLOW_IDEMPOTENCY_BYTES_def MAX_WORKFLOW_TEXT_BYTES_def)

lemma demo_definition_ok [simp]: "wf_validate_definition (demo_definition n) = Inr ()"
  by (simp add: wf_validate_definition_def demo_definition_def)

lemma demo_command_digest [simp]:
  "length (wc_id c) < 32 \<Longrightarrow>
   command_digest demo_sha256 (env_command demo_env) c = Inr (lower_hex (demo_sha256 (wc_id c)))"
  "length (cr_command_id q) < 32 \<Longrightarrow>
   command_digest demo_sha256 (env_create demo_env) q = Inr (lower_hex (demo_sha256 (cr_command_id q)))"
  by (simp_all add: command_digest_def to_vec_def demo_env_def MAX_WORKFLOW_COMMAND_JSON_BYTES_def)

lemma demo_size [simp]: "wf_encoded_size_for demo_env run cls = Inr 3"
  by (simp add: wf_encoded_size_for_def to_vec_def demo_env_def wf_validate_materialization_capacity_def
      MAX_WORKFLOW_JSON_BYTES_def MAX_WORKFLOW_WORK_JSON_BYTES_def)

lemmas demo_defs = demo_run_def demo_transition_def demo_request_def demo_wait_def demo_waiting_def
  demo_signal_def demo_cancel_def demo_cancelled_def

lemmas workflow_eval = workflow_limits wf_validate_application_time_def workflow_validate_def
  replay_transition_def replay_envelope_def replay_start_def replay_kind_def transition_digest_def
  checked_add_def validate_shape_def wf_validate_command_def recognizes_command_def u64_of_usize_def
  workflow_new_def workflow_apply_def wf_validate_create_request_def wf_encoded_size_def
  wf_validate_transition_capacity_def require_running_def require_nonterminal_def start_wait_def
  ensure_new_wait_id_def

lemma demo_new: "workflow_new demo_env demo_request 5 local_process = Inr demo_run"
  by (simp add: demo_defs workflow_eval)

lemma demo_wait_applied:
  "workflow_apply demo_env demo_run demo_wait 6 local_process = Inr (demo_waiting, Applied)"
  by (simp add: demo_defs workflow_eval)

lemma demo_cancel_applied:
  "workflow_apply demo_env demo_run demo_cancel 6 local_process = Inr (demo_cancelled, Applied)"
  by (simp add: demo_defs workflow_eval)
lemma demo_reachable: "workflow_reachable demo_env demo_run" "workflow_reachable demo_env demo_waiting"
proof -
  show run: "workflow_reachable demo_env demo_run" using demo_new by (rule workflow_reachable.created)
  show "workflow_reachable demo_env demo_waiting"
    using run demo_wait_applied by (rule workflow_reachable.applied)
qed

lemma demo_bytes_covered: "settlement_bytes_covered demo_env"
proof -
  have bytes: "to_vec (env_run demo_env) w = Some ''run''" for w by (simp add: demo_env_def to_vec_def)
  have "wr_charge run = 3" if "workflow_new demo_env request now authority = Inr run" for request now authority run
    using that by (auto simp: workflow_new_def ok_iff Let_def wf_encoded_size_def)
  then show ?thesis by (auto simp: settlement_bytes_covered_def bytes MAX_WORKFLOW_WORK_JSON_BYTES_def)
qed

section \<open>Properties\<close>

text \<open>
  C34: On every Run the program can hold, \<open>workflow_apply\<close>, which re-validates the whole extended
  history, equals the handler that checks only the command against the last state: the replay
  inside a mutation can never be the reason a command is rejected. SHA-256 is a parameter, of which
  only the output length is used.
\<close>

theorem workflow_apply_replay_redundant:
  assumes "workflow_reachable env run" and "\<And>b. length (env_sha256 env b) = 32"
  shows "workflow_apply env run command now authority = workflow_apply_once env run command now authority"
  using reachable_inv [OF assms(1)] assms(2) by (intro workflow_apply_eq_once) (simp_all add: workflow_inv_def)

theorem workflow_apply_replay_redundant_witness:
  "workflow_apply demo_env demo_run demo_wait 6 local_process =
     workflow_apply_once demo_env demo_run demo_wait 6 local_process"
  using workflow_apply_replay_redundant [of demo_env demo_run, OF demo_reachable(1)] by simp

text \<open>
  Applying a command that already succeeded changes nothing: whatever the time and the authority
  of the second call, the Run is returned as it is with the outcome Duplicate.
\<close>

theorem workflow_apply_idempotent:
  assumes "workflow_apply env run command now authority = Inr (run', outcome)"
  shows "workflow_apply env run' command now' authority' = Inr (run', Duplicate)"
proof (cases outcome)
  case Applied
  with assms show ?thesis
    by (auto elim!: committed_run simp: workflow_apply_Duplicate intro: recognizes_committed)
qed (use assms in \<open>auto simp: workflow_apply_Duplicate\<close>)

theorem workflow_apply_idempotent_witness:
  "workflow_apply demo_env demo_waiting demo_wait 8 local_process = Inr (demo_waiting, Duplicate)"
  using workflow_apply_idempotent [OF demo_wait_applied] .

text \<open>
  A Completed, Failed or Cancelled Run is final: the only calls that do not fail are repetitions
  of committed commands, and they leave it unchanged.
\<close>

theorem workflow_terminal_absorbing:
  assumes "ws_is_terminal (wr_status run)"
    and "workflow_apply env run command now authority = Inr (run', outcome)"
  shows "run' = run \<and> outcome = Duplicate"
  using assms apply_kind_terminal [of run "wc_kind command" now]
  by (cases outcome) (auto simp: workflow_apply_Duplicate elim!: committed_run)

theorem workflow_terminal_absorbing_witness:
  "ws_is_terminal (wr_status demo_cancelled) \<and>
   workflow_apply demo_env demo_cancelled demo_cancel 8 local_process = Inr (demo_cancelled, Duplicate)"
proof -
  have settled: "ws_is_terminal (wr_status demo_cancelled)" by (simp add: demo_defs)
  moreover obtain r where "workflow_apply demo_env demo_cancelled demo_cancel 8 local_process = Inr r"
    by (simp add: demo_defs workflow_eval)
  ultimately show ?thesis
    using workflow_terminal_absorbing [OF settled, of demo_env demo_cancel 8 local_process] by (cases r) simp
qed

text \<open>
  C4: Every applied command is one step of the abstract lifecycle: suspend under a fence that was
  never used before, resume, migrate while suspended, or settle once; a settled lifecycle has no step.
\<close>

theorem workflow_refines_lifecycle:
  assumes "workflow_apply env run command now authority = Inr (run', Applied)"
  shows "lifecycle (abs_run run) (abs_run run')"
  using assms
proof (rule committed_run)
  fix nxt kind t
  assume "apply_kind run (wc_kind command) now = Inr (nxt, kind)"
    and "wr_transitions run' = wr_transitions run @ [t]" "wt_kind t = kind" "wr_status run' = wr_status nxt"
  moreover from this have "abs_run run' =
      (status_phase (wr_status nxt), snd (abs_run run) \<union> Collect (starts_wait kind))"
    by (auto simp: abs_run_def)
  ultimately show ?thesis by (simp add: apply_kind_lifecycle)
qed

theorem workflow_refines_lifecycle_witness:
  "lifecycle (Active, {}) (Suspended ''w'', {''w''})"
  using workflow_refines_lifecycle [OF demo_wait_applied] by (simp add: abs_run_def demo_defs)

text \<open>
  C40: A Run that is not terminal can always be cancelled, even when it has used all 4096 work
  transitions and all bytes for work: both halves of the settlement reserve have room left, however many commands came before. The
  hypotheses are a fresh, well-formed command, a current authority, a clock that did not go back, a
  hash of 32 bytes, and the sizes of single encodings on which the byte reserve is computed
  (\<open>settlement_bytes_covered\<close>): a new Run is within the bytes for work, resuming adds
  at most 8 KiB, and settling at most twice the command and 8 KiB.
\<close>

theorem workflow_can_always_be_cancelled:
  assumes reachable: "workflow_reachable env run" and open_run: "\<not> ws_is_terminal (wr_status run)"
    and sha: "\<And>b. length (env_sha256 env b) = 32"
    and new: "recognizes_command env run command = Inr False"
    and kind: "wc_kind command = WcCancel reason" "wf_validate_text reason = Inr ()"
    and time: "now \<noteq> 0" "wt_applied_at_ms (last (wr_transitions run)) \<le> now"
    and authority: "valid_authority authority"
    and bytes: "settlement_bytes_covered env"
  shows "\<exists>run'. workflow_apply env run command now authority = Inr (run', Applied) \<and>
    wr_status run' = WsCancelled reason"
proof -
  from reachable have valid: "workflow_validate env run = Inr ()"
    using reachable_inv workflow_inv_def by blast
  from new obtain digest where digest: "command_digest (env_sha256 env) (env_command env) command = Inr digest"
    by (auto simp: recognizes_command_False wf_validate_command_def ok_iff)
  have capacity: "wf_validate_transition_capacity (length (wr_transitions run)) Settlement = Inr ()"
    using unterminated_has_room [OF valid open_run] by (simp add: wf_validate_transition_capacity_def)
  have cancels: "apply_kind run (wc_kind command) now = Inr (run\<lparr>wr_status := WsCancelled reason\<rparr>, WtCancelled reason)"
    using kind open_run by (simp add: require_nonterminal_def)
  from settlement_encodes [OF bytes reachable open_run new digest authority _ cancels] obtain n where
    "wf_encoded_size_for env (commit (run\<lparr>wr_status := WsCancelled reason\<rparr>) command digest now authority (WtCancelled reason))
      Settlement = Inr n" by (auto simp: kind)
  moreover have "authority_validate_current authority = Inr ()" "\<not> now < wt_applied_at_ms (last (wr_transitions run))"
    using authority time by (simp_all add: authority_validate_current_ok not_less)
  ultimately show ?thesis
    unfolding workflow_apply_eq_once [OF valid sha]
    using cancels
    by (auto simp: workflow_apply_once_def new digest capacity kind time wf_validate_application_time_def Let_def)
qed

theorem workflow_can_always_be_cancelled_witness:
  "\<exists>run'. workflow_apply demo_env demo_waiting demo_cancel 8 local_process = Inr (run', Applied) \<and>
     wr_status run' = WsCancelled ''stop''"
proof (rule workflow_can_always_be_cancelled [OF demo_reachable(2)])
  show "recognizes_command demo_env demo_waiting demo_cancel = Inr False"
    by (simp add: demo_defs workflow_eval)
  show "settlement_bytes_covered demo_env"
    by (rule demo_bytes_covered)
qed (simp_all add: demo_defs)

text \<open>
  Every Run the program can hold is read back from its serialised form as the same Run: replaying
  the stored history succeeds, and the recomputed charge is the stored one.
\<close>

theorem workflow_wire_roundtrip:
  assumes "workflow_reachable env run"
  shows "workflow_from_wire env (run_wire run) = Inr run"
  using reachable_inv [OF assms]
  by (cases run) (auto simp: workflow_from_wire_def run_wire_def workflow_inv_def workflow_validate_def
      wf_encoded_size_def wf_encoded_size_for_def Let_def)

theorem workflow_wire_roundtrip_witness:
  "workflow_from_wire demo_env (run_wire demo_waiting) = Inr demo_waiting"
  using workflow_wire_roundtrip [OF demo_reachable(2)] .

text \<open>
  At one instant a waiting Run can be resumed by its signal or by its timeout, never by both: if
  a signal can be delivered now, no wake command is accepted now.
\<close>

theorem workflow_signal_or_timeout:
  assumes "workflow_apply env run \<lparr>wc_id = a, wc_kind = WcDeliverSignal w s name source key\<rparr> now p = Inr (run1, Applied)"
  shows "workflow_apply env run \<lparr>wc_id = b, wc_kind = WcWakeDue w'\<rparr> now q \<noteq> Inr (run2, Applied)"
  using assms
  by (auto simp: ok_iff split: workflow_status.splits workflow_wait.splits if_splits option.splits
      elim!: committed_run)

theorem workflow_signal_or_timeout_witness:
  "\<not> (\<exists>run2. workflow_apply demo_env demo_waiting \<lparr>wc_id = ''wake'', wc_kind = WcWakeDue ''w''\<rparr> 7 local_process
     = Inr (run2, Applied))"
proof -
  obtain run1 where "workflow_apply demo_env demo_waiting demo_signal 7 local_process = Inr (run1, Applied)"
    by (simp add: demo_defs workflow_eval)
  from workflow_signal_or_timeout [OF this [unfolded demo_signal_def]] show ?thesis by blast
qed

text \<open>
  In every Run the program can hold, sequence numbers are 1, 2, 3 and so on, times never
  decrease, no command identity occurs twice, no wait is started twice and no signal delivered twice.
\<close>

theorem workflow_history_wellformed:
  assumes "workflow_reachable env run"
  shows "map (unat \<circ> wt_sequence) (wr_transitions run) = [1..<Suc (length (wr_transitions run))] \<and>
    sorted (map wt_applied_at_ms (wr_transitions run)) \<and>
    distinct (map wt_command_id (wr_transitions run)) \<and>
    (\<forall>i. length (filter (\<lambda>t. starts_wait (wt_kind t) i) (wr_transitions run)) \<le> 1) \<and>
    (\<forall>i. length (filter (\<lambda>t. delivers_signal (wt_kind t) i) (wr_transitions run)) \<le> 1)"
proof -
  from reachable_inv [OF assms] obtain rp where
    "try_fold (replay_transition env) replay_start (wr_transitions run) = Inr rp"
    by (auto simp: workflow_inv_def elim: valid_replay)
  from wf_log.replay_sequence [OF this] wf_log.replay_times [OF this] wf_log.replay_distinct [OF this]
    replay_ids_once [OF this]
  show ?thesis by blast
qed

theorem workflow_history_wellformed_witness:
  "map (unat \<circ> wt_sequence) (wr_transitions demo_waiting) = [1, 2] \<and>
   distinct (map wt_command_id (wr_transitions demo_waiting))"
  using workflow_history_wellformed [OF demo_reachable(2)] by (simp add: demo_defs)

text \<open>
  No command changes the name of the definition; the definition changes only while the Run waits,
  to a strictly larger version, and the wait is kept.
\<close>

theorem workflow_migration_monotone:
  assumes "workflow_apply env run command now authority = Inr (run', outcome)"
  shows "wd_name (wr_definition run') = wd_name (wr_definition run) \<and>
    (wr_definition run' = wr_definition run \<or>
     wd_version (wr_definition run) < wd_version (wr_definition run') \<and>
     (\<exists>wait. wr_status run = WsWaiting wait \<and> wr_status run' = WsWaiting wait))"
proof (cases outcome)
  case Applied
  from assms [unfolded this] show ?thesis
    by (rule committed_run; cases "wc_kind command")
      (auto simp: ok_iff start_wait_def split: if_splits workflow_status.splits workflow_wait.splits)
qed (use assms in \<open>auto simp: workflow_apply_Duplicate\<close>)

theorem workflow_migration_monotone_witness:
  "wd_name (wr_definition demo_waiting) = ''demo'' \<and> wr_definition demo_waiting = wr_definition demo_run"
  using workflow_migration_monotone [OF demo_wait_applied] by (simp add: demo_defs demo_definition_def)

end
