(* ===== verification/Workflow_Store.thy ===== *)
theory Workflow_Store
  imports Workflow Revision_Store
begin

text \<open>
  The Workflow coordinator of \<^verbatim>\<open>workflow/coordinator.rs\<close>: revisioned snapshots of Runs, the
  in-memory store with its four operations, the unscoped wrappers of the trait, and the paged
  scan for due waits. The environment of a Run (serialisation and hashing) is the one of
  \<open>Workflow\<close>. A call that fails returns before the only write, so the store of a failed call
  is the store before it.
\<close>

section \<open>Snapshots, results and pages\<close>

definition MAX_WORKFLOW_SCAN_PAGE :: nat where "MAX_WORKFLOW_SCAN_PAGE = 256"

record 'v workflow_run_snapshot =
  wrs_id :: string
  wrs_tenant_id :: "string option"
  wrs_revision :: u64
  wrs_run :: "'v workflow_run"

record 'v workflow_command_result =
  wcr_snapshot :: "'v workflow_run_snapshot"
  wcr_outcome :: workflow_apply_outcome

record workflow_due_wait =
  wdw_run_id :: string
  wdw_tenant_id :: "string option"
  wdw_revision :: u64
  wdw_wait_id :: string
  wdw_due_at_ms :: u64

record workflow_due_scan_page =
  wsp_due :: "workflow_due_wait list"
  wsp_next_after_run_id :: "string option"
  wsp_has_more :: bool
  wsp_scanned :: usize

type_synonym 'v workflow_store = "'v workflow_run_snapshot store"

section \<open>Guards\<close>

definition validate_run_access :: "string \<Rightarrow> authority_context \<Rightarrow> unit result" where
  "validate_run_access run_id authority =
     and_then (authority_validate_current authority) (\<lambda>_. wf_validate_identity run_id)"

definition wf_validate_due_scan ::
  "u64 \<Rightarrow> string option \<Rightarrow> usize \<Rightarrow> authority_context \<Rightarrow> unit result" where
  "wf_validate_due_scan at_ms after_run_id scan_limit authority =
     and_then (authority_validate_current authority) (\<lambda>_.
     if at_ms = 0 then Inl (wf_err Bad_scan_time)
     else
     and_then (case after_run_id of None \<Rightarrow> Inr () | Some run_id \<Rightarrow> wf_validate_identity run_id) (\<lambda>_.
     if \<not> (1 \<le> scan_limit \<and> scan_limit \<le> MAX_WORKFLOW_SCAN_PAGE) then Inl (wf_err Bad_page_limit)
     else Inr ()))"

definition wf_validate_expected_revision :: "u64 \<Rightarrow> unit result" where
  "wf_validate_expected_revision revision = (if revision = 0 then Inl (wf_err Zero_revision) else Inr ())"

definition missing_run :: "string \<Rightarrow> harness_error" where
  "missing_run run_id = Workflow (W_store (Missing run_id))"

section \<open>Due scans\<close>

fun due_wait :: "workflow_status \<Rightarrow> (string \<times> u64) option" where
  "due_wait (WsWaiting (WwSignal i _ _ (Some due_at_ms))) = Some (i, due_at_ms)"
| "due_wait (WsWaiting (WwTimer i due_at_ms)) = Some (i, due_at_ms)"
| "due_wait (WsWaiting (WwRetry i _ _ due_at_ms _)) = Some (i, due_at_ms)"
| "due_wait _ = None"

definition due_of_snapshot :: "u64 \<Rightarrow> 'v workflow_run_snapshot \<Rightarrow> workflow_due_wait list" where
  "due_of_snapshot at_ms snapshot =
     (case due_wait (wr_status (wrs_run snapshot)) of
        None \<Rightarrow> []
      | Some (wait_id, due_at_ms) \<Rightarrow>
          if due_at_ms \<le> at_ms
          then [\<lparr>wdw_run_id = wrs_id snapshot, wdw_tenant_id = wrs_tenant_id snapshot,
                 wdw_revision = wrs_revision snapshot, wdw_wait_id = wait_id,
                 wdw_due_at_ms = due_at_ms\<rparr>]
          else [])"

definition wf_page_from_scan ::
  "'v workflow_run_snapshot list \<Rightarrow> usize \<Rightarrow> u64 \<Rightarrow> workflow_due_scan_page" where
  "wf_page_from_scan visited scan_limit at_ms =
     (let has_more = length visited > scan_limit;
          visited = take scan_limit visited
      in \<lparr>wsp_due = concat (map (due_of_snapshot at_ms) visited),
          wsp_next_after_run_id = (if visited = [] then None else Some (wrs_id (last visited))),
          wsp_has_more = has_more,
          wsp_scanned = length visited\<rparr>)"

section \<open>Operations\<close>

definition wf_create_as ::
  "'v::linorder workflow_env \<Rightarrow> 'v workflow_store \<Rightarrow> string \<Rightarrow> 'v workflow_create_request \<Rightarrow> u64 \<Rightarrow>
   authority_context \<Rightarrow> ('v workflow_store \<times> 'v workflow_run_snapshot) result" where
  "wf_create_as env runs run_id request applied_at_ms authority =
     and_then (validate_run_access run_id authority) (\<lambda>_.
     let key = store_key run_id (tenant_id authority) in
     case bm_get runs key of
       Some existing \<Rightarrow>
         and_then (create_matches env (wrs_run existing) request) (\<lambda>same.
         if same then Inr (runs, existing)
         else Inl (Workflow (W_store (Exists_differently run_id))))
     | None \<Rightarrow>
         and_then (workflow_new env request applied_at_ms authority) (\<lambda>run.
         let snapshot = \<lparr>wrs_id = run_id, wrs_tenant_id = tenant_id authority, wrs_revision = 1,
               wrs_run = run\<rparr>
         in Inr (bm_insert key snapshot runs, snapshot)))"

definition wf_load_as ::
  "'v workflow_store \<Rightarrow> string \<Rightarrow> authority_context \<Rightarrow> 'v workflow_run_snapshot option result" where
  "wf_load_as runs run_id authority =
     and_then (validate_run_access run_id authority) (\<lambda>_.
     Inr (bm_get runs (store_key run_id (tenant_id authority))))"

definition wf_scan_due_as ::
  "'v workflow_store \<Rightarrow> u64 \<Rightarrow> string option \<Rightarrow> usize \<Rightarrow> authority_context \<Rightarrow>
   workflow_due_scan_page result" where
  "wf_scan_due_as runs at_ms after_run_id scan_limit authority =
     and_then (wf_validate_due_scan at_ms after_run_id scan_limit authority) (\<lambda>_.
     let tenant = tenant_storage_key (tenant_id authority);
         range_start = (tenant, case after_run_id of None \<Rightarrow> [] | Some after \<Rightarrow> after);
         visited = map snd (take (usize_saturating_add scan_limit 1)
           (filter (\<lambda>((_, run_id), _). is_none_or after_run_id (\<lambda>after. after < run_id))
             (takeWhile (\<lambda>((stored_tenant, _), _). stored_tenant = tenant)
               (bm_range_from range_start runs))))
     in Inr (wf_page_from_scan visited scan_limit at_ms))"

definition wf_apply_as ::
  "'v::linorder workflow_env \<Rightarrow> 'v workflow_store \<Rightarrow> string \<Rightarrow> u64 \<Rightarrow> 'v workflow_command \<Rightarrow> u64 \<Rightarrow>
   authority_context \<Rightarrow> ('v workflow_store \<times> 'v workflow_command_result) result" where
  "wf_apply_as env runs run_id expected_revision command applied_at_ms authority =
     and_then (validate_run_access run_id authority) (\<lambda>_.
     and_then (wf_validate_expected_revision expected_revision) (\<lambda>_.
     let key = store_key run_id (tenant_id authority) in
     and_then (ok_or (missing_run run_id) (bm_get runs key)) (\<lambda>current.
     and_then (recognizes_command env (wrs_run current) command) (\<lambda>known.
     if known then Inr (runs, \<lparr>wcr_snapshot = current, wcr_outcome = Duplicate\<rparr>)
     else if wrs_revision current \<noteq> expected_revision
     then Inl (WorkflowConflict run_id expected_revision (wrs_revision current))
     else
     and_then (workflow_apply env (wrs_run current) command applied_at_ms authority) (\<lambda>(run, outcome).
     and_then (ok_or (Workflow (W_store Revision_overflow)) (checked_add (wrs_revision current) 1)) (\<lambda>revision.
     let saved = \<lparr>wrs_id = wrs_id current, wrs_tenant_id = wrs_tenant_id current,
           wrs_revision = revision, wrs_run = run\<rparr>
     in Inr (bm_insert key saved runs, \<lparr>wcr_snapshot = saved, wcr_outcome = outcome\<rparr>)))))))"

text \<open>The unscoped operations of the trait act under the authority of the local process.\<close>

definition wf_create ::
  "'v::linorder workflow_env \<Rightarrow> 'v workflow_store \<Rightarrow> string \<Rightarrow> 'v workflow_create_request \<Rightarrow> u64 \<Rightarrow>
   ('v workflow_store \<times> 'v workflow_run_snapshot) result" where
  "wf_create env runs run_id request applied_at_ms =
     wf_create_as env runs run_id request applied_at_ms local_process"

definition wf_load :: "'v workflow_store \<Rightarrow> string \<Rightarrow> 'v workflow_run_snapshot option result" where
  "wf_load runs run_id = wf_load_as runs run_id local_process"

definition wf_scan_due ::
  "'v workflow_store \<Rightarrow> u64 \<Rightarrow> string option \<Rightarrow> usize \<Rightarrow> workflow_due_scan_page result" where
  "wf_scan_due runs at_ms after_run_id scan_limit =
     wf_scan_due_as runs at_ms after_run_id scan_limit local_process"

definition wf_apply ::
  "'v::linorder workflow_env \<Rightarrow> 'v workflow_store \<Rightarrow> string \<Rightarrow> u64 \<Rightarrow> 'v workflow_command \<Rightarrow> u64 \<Rightarrow>
   ('v workflow_store \<times> 'v workflow_command_result) result" where
  "wf_apply env runs run_id expected_revision command applied_at_ms =
     wf_apply_as env runs run_id expected_revision command applied_at_ms local_process"

text \<open>A store changes by creations and commands only.\<close>

inductive workflow_store_step ::
  "'v::linorder workflow_env \<Rightarrow> 'v workflow_store \<Rightarrow> 'v workflow_store \<Rightarrow> bool" for env where
  store_created: "wf_create_as env runs run_id request now authority = Inr (runs', snapshot) \<Longrightarrow>
    workflow_store_step env runs runs'"
| store_applied: "wf_apply_as env runs run_id revision command now authority = Inr (runs', res) \<Longrightarrow>
    workflow_store_step env runs runs'"

definition workflow_commits ::
  "'v::linorder workflow_env \<Rightarrow> 'v workflow_store \<Rightarrow> storage_key \<Rightarrow> u64 \<Rightarrow> 'v workflow_store \<Rightarrow> bool" where
  "workflow_commits env runs key revision runs' \<longleftrightarrow>
     (\<exists>run_id command now authority res.
        wf_apply_as env runs run_id revision command now authority = Inr (runs', res) \<and>
        wcr_outcome res = Applied \<and> key = store_key run_id (tenant_id authority))"

section \<open>What the operations do\<close>

lemma validate_run_access_ok [ok_iff]:
  "validate_run_access run_id authority = Inr u \<longleftrightarrow>
     valid_authority authority \<and> wf_validate_identity run_id = Inr ()"
  by (auto simp: validate_run_access_def ok_iff)

lemma wf_create_as_ok:
  "wf_create_as env runs run_id request now authority = Inr (runs', snap) \<longleftrightarrow>
     valid_authority authority \<and> wf_validate_identity run_id = Inr () \<and>
     (bm_get runs (store_key run_id (tenant_id authority)) = Some snap \<and> runs' = runs \<and>
        create_matches env (wrs_run snap) request = Inr True
      \<or> bm_get runs (store_key run_id (tenant_id authority)) = None \<and>
        (\<exists>run. workflow_new env request now authority = Inr run \<and>
          snap = \<lparr>wrs_id = run_id, wrs_tenant_id = tenant_id authority, wrs_revision = 1, wrs_run = run\<rparr> \<and>
          runs' = bm_insert (store_key run_id (tenant_id authority)) snap runs))"
  by (auto simp: wf_create_as_def ok_iff Let_def split: option.splits if_splits)

lemma workflow_apply_new:
  "workflow_apply env run command now authority = Inr (run', outcome) \<Longrightarrow>
   recognizes_command env run command = Inr False \<Longrightarrow> outcome = Applied"
  by (cases outcome) (simp_all add: workflow_apply_Duplicate)

lemma snapshot_written [simp]:
  "\<lparr>wrs_id = wrs_id x, wrs_tenant_id = wrs_tenant_id x, wrs_revision = r, wrs_run = run\<rparr>
   = x\<lparr>wrs_revision := r, wrs_run := run\<rparr>"
  by simp

lemma wf_apply_as_okE:
  assumes "wf_apply_as env runs run_id r command now authority = Inr (runs', res)"
  obtains
    (known) current where "valid_authority authority" "wf_validate_identity run_id = Inr ()"
      "bm_get runs (store_key run_id (tenant_id authority)) = Some current"
      "recognizes_command env (wrs_run current) command = Inr True"
      "runs' = runs" "res = \<lparr>wcr_snapshot = current, wcr_outcome = Duplicate\<rparr>"
  | (written) current run revision where "valid_authority authority" "wf_validate_identity run_id = Inr ()"
      "bm_get runs (store_key run_id (tenant_id authority)) = Some current"
      "recognizes_command env (wrs_run current) command = Inr False" "wrs_revision current = r"
      "workflow_apply env (wrs_run current) command now authority = Inr (run, Applied)"
      "unat revision = Suc (unat r)"
      "runs' = bm_insert (store_key run_id (tenant_id authority))
        (current\<lparr>wrs_revision := revision, wrs_run := run\<rparr>) runs"
      "res = \<lparr>wcr_snapshot = current\<lparr>wrs_revision := revision, wrs_run := run\<rparr>, wcr_outcome = Applied\<rparr>"
proof -
  from assms obtain current is_known where common: "valid_authority authority"
      "wf_validate_identity run_id = Inr ()"
      "bm_get runs (store_key run_id (tenant_id authority)) = Some current"
      "recognizes_command env (wrs_run current) command = Inr is_known"
    by (auto simp: wf_apply_as_def ok_iff Let_def)
  show thesis
  proof (cases is_known)
    case True
    with assms common show ?thesis by (intro known) (auto simp: wf_apply_as_def ok_iff Let_def)
  next
    case False
    with assms common obtain run outcome revision where
      app: "workflow_apply env (wrs_run current) command now authority = Inr (run, outcome)"
      and rest: "wrs_revision current = r" "unat revision = Suc (unat r)"
        "runs' = bm_insert (store_key run_id (tenant_id authority))
          (current\<lparr>wrs_revision := revision, wrs_run := run\<rparr>) runs"
        "res = \<lparr>wcr_snapshot = current\<lparr>wrs_revision := revision, wrs_run := run\<rparr>, wcr_outcome = outcome\<rparr>"
      by (auto simp: wf_apply_as_def ok_iff Let_def split: if_splits)
    have "outcome = Applied" using app common False by (auto intro: workflow_apply_new)
    with app rest common False show ?thesis by (intro written [of current run revision]) simp_all
  qed
qed

section \<open>The store as a revision store\<close>

lemma workflow_new_transitions:
  "workflow_new env request now authority = Inr run \<Longrightarrow>
   length (wr_transitions run) = 1 \<and> wr_status run = WsRunning"
  by (auto simp: workflow_new_def ok_iff Let_def)

text \<open>How one step changes one entry.\<close>

lemma workflow_step_entry:
  assumes "workflow_store_step env runs runs'"
  obtains (same) "bm_get runs' k = bm_get runs k"
  | (born) run_id authority request now run where "k = store_key run_id (tenant_id authority)"
      "valid_authority authority" "wf_validate_identity run_id = Inr ()"
      "bm_get runs k = None" "workflow_new env request now authority = Inr run"
      "bm_get runs' k = Some \<lparr>wrs_id = run_id, wrs_tenant_id = tenant_id authority,
        wrs_revision = 1, wrs_run = run\<rparr>"
  | (grown) current command now authority run revision where "bm_get runs k = Some current"
      "workflow_apply env (wrs_run current) command now authority = Inr (run, Applied)"
      "unat revision = Suc (unat (wrs_revision current))"
      "bm_get runs' k = Some (current\<lparr>wrs_revision := revision, wrs_run := run\<rparr>)"
  using assms
proof cases
  case (store_created run_id request now authority snapshot)
  then show ?thesis
    using same born [of run_id authority]
    by (cases "k = store_key run_id (tenant_id authority)") (auto simp: wf_create_as_ok bm_get_insert)
next
  case (store_applied run_id r command now authority res)
  then show ?thesis
  proof (cases rule: wf_apply_as_okE)
    case known
    with same show ?thesis by simp
  next
    case (written current run revision)
    with same grown [of current command now authority run revision] show ?thesis
      by (cases "k = store_key run_id (tenant_id authority)") (simp_all add: bm_get_insert)
  qed
qed

lemma applied_appends:
  "workflow_apply env run command now authority = Inr (run', Applied) \<Longrightarrow>
   length (wr_transitions run') = Suc (length (wr_transitions run))"
  by (auto elim: committed_run)

definition workflow_born :: "'v::linorder workflow_env \<Rightarrow> storage_key \<Rightarrow> 'v workflow_run_snapshot \<Rightarrow> bool" where
  "workflow_born env k s \<longleftrightarrow> (\<exists>run_id authority request now.
     k = store_key run_id (tenant_id authority) \<and> valid_authority authority \<and>
     wf_validate_identity run_id = Inr () \<and> workflow_new env request now authority = Inr (wrs_run s) \<and>
     wrs_id s = run_id \<and> wrs_tenant_id s = tenant_id authority \<and> wrs_revision s = 1)"

definition workflow_grows ::
  "'v::linorder workflow_env \<Rightarrow> 'v workflow_run_snapshot \<Rightarrow> 'v workflow_run_snapshot \<Rightarrow> bool" where
  "workflow_grows env s s' \<longleftrightarrow> (\<exists>command now authority run revision.
     workflow_apply env (wrs_run s) command now authority = Inr (run, Applied) \<and>
     unat revision = Suc (unat (wrs_revision s)) \<and> s' = s\<lparr>wrs_revision := revision, wrs_run := run\<rparr>)"

lemma workflow_growsI:
  "workflow_apply env (wrs_run s) command now authority = Inr (run, Applied) \<Longrightarrow> unat revision = Suc (unat (wrs_revision s)) \<Longrightarrow>
   workflow_grows env s (s\<lparr>wrs_revision := revision, wrs_run := run\<rparr>)"
  unfolding workflow_grows_def by blast

interpretation wstore: journal_store bm_get wrs_revision "workflow_store_step env" "workflow_commits env"
  "\<lambda>s. length (wr_transitions (wrs_run s))" "[]" "workflow_born env" "workflow_grows env" for env
proof
  show "bm_get [] k = None" for k by (simp add: bm_get_def)
  show "bm_get s' k = bm_get s k \<or> (\<exists>a'. bm_get s k = None \<and> bm_get s' k = Some a' \<and> workflow_born env k a') \<or>
      (\<exists>a a'. bm_get s k = Some a \<and> bm_get s' k = Some a' \<and> workflow_grows env a a')"
    if "workflow_store_step env s s'" for s s' k
    using that by (cases rule: workflow_step_entry [of _ _ _ k])
      (auto simp: workflow_born_def intro: workflow_growsI)
  show "wrs_revision a = 1 \<and> length (wr_transitions (wrs_run a)) = 1" if "workflow_born env k a" for k a
    using that by (auto simp: workflow_born_def dest: workflow_new_transitions)
  show "unat (wrs_revision a') = Suc (unat (wrs_revision a)) \<and>
      length (wr_transitions (wrs_run a')) = Suc (length (wr_transitions (wrs_run a)))"
    if "workflow_grows env a a'" for a a'
    using that by (auto simp: workflow_grows_def dest: applied_appends)
  show "workflow_store_step env s s'" if "workflow_commits env s k r s'" for s k r s'
    using that by (auto simp: workflow_commits_def intro: store_applied)
  show "\<exists>a a'. bm_get s k = Some a \<and> wrs_revision a = r \<and>
      bm_get s' k = Some a' \<and> workflow_grows env a a'" if "workflow_commits env s k r s'" for s k r s'
    using that unfolding workflow_commits_def
    by (auto simp: bm_get_insert intro: workflow_growsI elim!: wf_apply_as_okE)
qed

text \<open>What holds of every entry of a store that was built by the operations.\<close>

definition workflow_entry_ok :: "'v::linorder workflow_env \<Rightarrow> storage_key \<Rightarrow> 'v workflow_run_snapshot \<Rightarrow> bool" where
  "workflow_entry_ok env k s \<longleftrightarrow>
     k = store_key (wrs_id s) (wrs_tenant_id s) \<and> valid_tenant (wrs_tenant_id s) \<and>
     wf_validate_identity (wrs_id s) = Inr () \<and> workflow_inv env (wrs_run s) \<and>
     unat (wrs_revision s) = length (wr_transitions (wrs_run s))"

lemma workflow_store_entries:
  assumes "(workflow_store_step env)\<^sup>*\<^sup>* [] runs" and "bm_get runs k = Some s"
  shows "workflow_entry_ok env k s"
  using assms
proof (rule wstore.entry_invariant)
  show "workflow_entry_ok env k s" if "workflow_born env k s" for s
    using that wstore.born_first [OF that]
    by (auto simp: workflow_born_def workflow_entry_ok_def valid_authority_def intro: workflow_new_inv)
  show "workflow_entry_ok env k s'" if "workflow_entry_ok env k s" "workflow_grows env s s'" for s s'
    using that wstore.grows_next [OF that(2)] workflow_apply_inv
    by (fastforce simp: workflow_grows_def workflow_entry_ok_def)
qed

lemma workflow_store_wf: "(workflow_store_step env)\<^sup>*\<^sup>* [] runs \<Longrightarrow> bm_wf runs"
proof (induction rule: rtranclp_induct)
  case base
  then show ?case by (rule bm.invar_empty)
next
  case (step t u)
  from step.hyps(2) step.IH show ?case
    by cases (auto simp: wf_create_as_ok bm_wf_insert elim!: wf_apply_as_okE)
qed

section \<open>Scans, retries and tenants\<close>

lemma wf_validate_due_scan_ok:
  "wf_validate_due_scan at_ms after limit authority = Inr u \<longleftrightarrow>
     valid_authority authority \<and> at_ms \<noteq> 0 \<and> 0 < limit \<and> limit \<le> MAX_WORKFLOW_SCAN_PAGE \<and>
     (case after of None \<Rightarrow> True | Some i \<Rightarrow> wf_validate_identity i = Inr ())"
  by (auto simp: wf_validate_due_scan_def ok_iff split: option.splits)

lemma wf_scan_due_as_eq:
  assumes "bm_wf runs"
  shows "wf_scan_due_as runs at_ms after limit authority =
    and_then (wf_validate_due_scan at_ms after limit authority) (\<lambda>_.
      Inr (wf_page_from_scan (map snd (tenant_after (tenant_storage_key (tenant_id authority)) after runs))
        limit at_ms))"
proof (cases "wf_validate_due_scan at_ms after limit authority")
  case (Inr u)
  then have "limit < 2 ^ 64 - 1" by (simp add: wf_validate_due_scan_ok MAX_WORKFLOW_SCAN_PAGE_def)
  then show ?thesis
    unfolding wf_scan_due_as_def Inr Let_def range_scan [OF assms] wf_page_from_scan_def
      saturating_Suc [OF \<open>limit < 2 ^ 64 - 1\<close>] take_map [symmetric] fetch_one_more
    by simp
qed (simp add: wf_scan_due_as_def)

lemma recognizes_prefix:
  assumes "recognizes_command env run command = Inr True"
    and "wr_transitions run' = wr_transitions run @ ts"
  shows "recognizes_command env run' command = Inr True"
  using assms find_append_Some [of _ "wr_transitions run"]
  by (auto simp: recognizes_command_def ok_iff split: option.splits if_splits)

lemma workflow_steps_extend:
  assumes "(workflow_store_step env)\<^sup>*\<^sup>* runs runs'" and "bm_get runs k = Some s"
  shows "\<exists>s'. bm_get runs' k = Some s' \<and> wrs_revision s \<le> wrs_revision s' \<and>
    (\<exists>ts. wr_transitions (wrs_run s') = wr_transitions (wrs_run s) @ ts)"
  using assms
proof (rule wstore.entry_evolves)
  show "wrs_revision s \<le> wrs_revision c \<and> (\<exists>ts. wr_transitions (wrs_run c) = wr_transitions (wrs_run s) @ ts)"
    if "wrs_revision s \<le> wrs_revision b \<and> (\<exists>ts. wr_transitions (wrs_run b) = wr_transitions (wrs_run s) @ ts)"
      "workflow_grows env b c" for b c
    using that apply_extends by (fastforce simp: workflow_grows_def word_le_nat_alt)
qed simp

lemma committed_is_recognized:
  assumes "wf_apply_as env runs run_id r command now authority = Inr (runs', res)"
  shows "bm_get runs' (store_key run_id (tenant_id authority)) = Some (wcr_snapshot res) \<and>
    recognizes_command env (wrs_run (wcr_snapshot res)) command = Inr True"
  using assms
proof (cases rule: wf_apply_as_okE)
  case known
  then show ?thesis by simp
next
  case (written current run revision)
  from written(6) obtain nxt kind t where
    "wr_transitions run = wr_transitions (wrs_run current) @ [t]" "wt_command_id t = wc_id command"
    "recognizes_command env (wrs_run current) command = Inr False"
    "command_digest (env_sha256 env) (env_command env) command = Inr (wt_command_sha256 t)"
    by (rule committed_run)
  from recognizes_committed [OF this(3,4,1,2) refl] written(8,9) show ?thesis
    by (simp add: bm_get_insert)
qed

lemma workflow_revision_bounds:
  assumes "(workflow_store_step env)\<^sup>*\<^sup>* [] runs" and "bm_get runs k = Some s"
  shows "0 < unat (wrs_revision s)" and "unat (wrs_revision s) \<le> 4098"
  using workflow_store_entries [OF assms]
  by (simp_all add: workflow_entry_ok_def workflow_inv_def workflow_validate_ok workflow_limits)

section \<open>A concrete store\<close>

definition demo_snapshot :: "u64 \<Rightarrow> nat workflow_run \<Rightarrow> nat workflow_run_snapshot" where
  "demo_snapshot n run = \<lparr>wrs_id = ''r'', wrs_tenant_id = None, wrs_revision = n, wrs_run = run\<rparr>"

definition demo_store :: "u64 \<Rightarrow> nat workflow_run \<Rightarrow> nat workflow_store" where
  "demo_store n run = [(([], ''r''), demo_snapshot n run)]"

definition demo_tenant :: "string \<Rightarrow> authority_context" where
  "demo_tenant t = \<lparr>actor = LocalProcess, tenant_id = Some t\<rparr>"

lemmas demo_store_defs = demo_store_def demo_snapshot_def

lemma demo_run_id [simp]: "wf_validate_identity ''r'' = Inr ()"
  by (simp add: wf_validate_identity_def string_eval MAX_WORKFLOW_IDEMPOTENCY_BYTES_def)

lemma demo_tenant_valid [simp]: "valid_authority (demo_tenant ''t'')" "valid_tenant (Some ''t'')"
  by (simp_all add: demo_tenant_def valid_authority_def valid_tenant_def validate_tenant_id_def string_eval
      valid_actor_shape_def)

lemmas workflow_store_eval = wf_create_as_def wf_apply_as_def validate_run_access_def store_key_def
  tenant_storage_key_def wf_validate_expected_revision_def bm_get_def Let_def

lemma demo_store_created:
  "wf_create_as demo_env [] ''r'' demo_request 5 local_process = Inr (demo_store 1 demo_run, demo_snapshot 1 demo_run)"
  by (simp add: workflow_store_eval demo_new demo_store_defs)

lemma demo_wait_new: "recognizes_command demo_env demo_run demo_wait = Inr False"
  using demo_wait_applied by (auto elim: workflow_apply_AppliedE)

lemma demo_store_applied:
  "wf_apply_as demo_env (demo_store 1 demo_run) ''r'' 1 demo_wait 6 local_process =
     Inr (demo_store 2 demo_waiting, \<lparr>wcr_snapshot = demo_snapshot 2 demo_waiting, wcr_outcome = Applied\<rparr>)"
  by (simp add: workflow_store_eval demo_store_defs demo_wait_new demo_wait_applied checked_add_def)

lemma demo_store_reachable:
  "(workflow_store_step demo_env)\<^sup>*\<^sup>* [] (demo_store 1 demo_run)"
  "(workflow_store_step demo_env)\<^sup>*\<^sup>* [] (demo_store 2 demo_waiting)"
proof -
  show one: "(workflow_store_step demo_env)\<^sup>*\<^sup>* [] (demo_store 1 demo_run)"
    using demo_store_created by (intro r_into_rtranclp store_created)
  show "(workflow_store_step demo_env)\<^sup>*\<^sup>* [] (demo_store 2 demo_waiting)"
    using one by (rule rtranclp.rtrancl_into_rtrancl) (rule store_applied [OF demo_store_applied])
qed

section \<open>Properties\<close>

text \<open>
  C20: Of the commands sent with the revision a caller observed, at most one is committed: once one
  of them was applied, a call with the same expected revision, whatever its command and however
  many calls of other callers come in between, is never applied. It fails or reports a duplicate.
\<close>

theorem workflow_one_writer:
  assumes "wf_apply_as env runs run_id r command now authority = Inr (runs1, res)"
    and "wcr_outcome res = Applied"
    and "(workflow_store_step env)\<^sup>*\<^sup>* runs1 runs2"
    and "tenant_id authority' = tenant_id authority"
    and "wf_apply_as env runs2 run_id r command' now' authority' = Inr (runs3, res')"
  shows "wcr_outcome res' = Duplicate \<and> runs3 = runs2"
proof -
  have "workflow_commits env runs (store_key run_id (tenant_id authority)) r runs1"
    unfolding workflow_commits_def using assms(1,2) by blast
  from wstore.one_writer [OF this assms(3)] assms(4,5) have "wcr_outcome res' \<noteq> Applied"
    unfolding workflow_commits_def by metis
  with assms(5) show ?thesis by (auto elim!: wf_apply_as_okE)
qed

theorem workflow_one_writer_witness:
  "(\<exists>runs3 res'. wf_apply_as demo_env (demo_store 2 demo_waiting) ''r'' 1 demo_wait 7 local_process = Inr (runs3, res') \<and>
     wcr_outcome res' = Duplicate \<and> runs3 = demo_store 2 demo_waiting) \<and>
   (\<nexists>command now runs3 s. wf_apply_as demo_env (demo_store 2 demo_waiting) ''r'' 1 command now local_process =
     Inr (runs3, \<lparr>wcr_snapshot = s, wcr_outcome = Applied\<rparr>))"
proof
  have "recognizes_command demo_env demo_waiting demo_wait = Inr True"
    using committed_is_recognized [OF demo_store_applied] by (simp add: demo_snapshot_def)
  then obtain runs3 res' where again: "wf_apply_as demo_env (demo_store 2 demo_waiting) ''r'' 1 demo_wait 7 local_process =
      Inr (runs3, res')"
    by (simp add: workflow_store_eval demo_store_defs)
  note later = workflow_one_writer [OF demo_store_applied _ rtranclp.rtrancl_refl refl]
  show "\<exists>runs3 res'. wf_apply_as demo_env (demo_store 2 demo_waiting) ''r'' 1 demo_wait 7 local_process = Inr (runs3, res') \<and>
      wcr_outcome res' = Duplicate \<and> runs3 = demo_store 2 demo_waiting"
    using again later [OF _ again] by simp
  show "\<nexists>command now runs3 s. wf_apply_as demo_env (demo_store 2 demo_waiting) ''r'' 1 command now local_process =
      Inr (runs3, \<lparr>wcr_snapshot = s, wcr_outcome = Applied\<rparr>)"
    using later by fastforce
qed

text \<open>
  A caller that lost the reply can repeat its command. Once a command was applied, sending it
  again with the revision it was first sent with, at any later state of the store, at any time
  and by any valid caller of the tenant, reports a duplicate together with the current snapshot,
  whose revision is at least the one first reported, and leaves the store as it is.
\<close>

theorem workflow_retry_after_lost_reply:
  assumes "wf_apply_as env runs run_id r command now authority = Inr (runs1, res)"
    and "(workflow_store_step env)\<^sup>*\<^sup>* runs1 runs2"
    and "valid_authority authority'" "tenant_id authority' = tenant_id authority"
  shows "\<exists>current. wf_apply_as env runs2 run_id r command now' authority' =
      Inr (runs2, \<lparr>wcr_snapshot = current, wcr_outcome = Duplicate\<rparr>) \<and>
      bm_get runs2 (store_key run_id (tenant_id authority)) = Some current \<and>
      wrs_revision (wcr_snapshot res) \<le> wrs_revision current"
proof -
  have guards: "wf_validate_identity run_id = Inr ()" "r \<noteq> 0"
    using assms(1) by (auto simp: wf_apply_as_def ok_iff wf_validate_expected_revision_def)
  note committed = committed_is_recognized [OF assms(1)]
  from workflow_steps_extend [OF assms(2) conjunct1 [OF committed]] obtain current ts where
    current: "bm_get runs2 (store_key run_id (tenant_id authority)) = Some current"
      "wrs_revision (wcr_snapshot res) \<le> wrs_revision current"
    and ts: "wr_transitions (wrs_run current) = wr_transitions (wrs_run (wcr_snapshot res)) @ ts"
    by blast
  from recognizes_prefix [OF conjunct2 [OF committed] ts] current guards assms(4)
    authority_validate_current_ok [THEN iffD2, OF assms(3)]
  have "wf_apply_as env runs2 run_id r command now' authority' =
      Inr (runs2, \<lparr>wcr_snapshot = current, wcr_outcome = Duplicate\<rparr>)"
    by (simp add: wf_apply_as_def validate_run_access_def wf_validate_expected_revision_def)
  with current show ?thesis by blast
qed

theorem workflow_retry_after_lost_reply_witness:
  "\<exists>current. wf_apply_as demo_env (demo_store 2 demo_waiting) ''r'' 1 demo_wait 7 local_process =
      Inr (demo_store 2 demo_waiting, \<lparr>wcr_snapshot = current, wcr_outcome = Duplicate\<rparr>) \<and>
      bm_get (demo_store 2 demo_waiting) (store_key ''r'' (tenant_id local_process)) = Some current \<and>
      wrs_revision (wcr_snapshot \<lparr>wcr_snapshot = demo_snapshot 2 demo_waiting, wcr_outcome = Applied\<rparr>)
        \<le> wrs_revision current"
  by (rule workflow_retry_after_lost_reply [OF demo_store_applied rtranclp.rtrancl_refl]) simp_all

text \<open>
  In every store built by the operations, an entry is filed under its own tenant and
  identity, its Run replays and carries its exact encoded size, and its revision is the number of
  transitions of the Run: as histories are bounded, the revision counter cannot overflow.
\<close>

theorem workflow_store_invariant:
  assumes "(workflow_store_step env)\<^sup>*\<^sup>* [] runs" and "bm_get runs k = Some s"
  shows "k = store_key (wrs_id s) (wrs_tenant_id s) \<and> workflow_validate env (wrs_run s) = Inr () \<and>
    wf_encoded_size env (wrs_run s) = Inr (wr_charge (wrs_run s)) \<and>
    unat (wrs_revision s) = length (wr_transitions (wrs_run s)) \<and>
    0 < wrs_revision s \<and> wrs_revision s \<le> 4098"
  using workflow_store_entries [OF assms] workflow_revision_bounds [OF assms]
  by (simp add: workflow_entry_ok_def workflow_inv_def word_less_nat_alt word_le_nat_alt)

theorem workflow_store_invariant_witness:
  "(([], ''r'') :: storage_key) = store_key ''r'' None \<and> workflow_validate demo_env demo_waiting = Inr () \<and>
   wf_encoded_size demo_env demo_waiting = Inr 3 \<and> unat (2 :: u64) = length (wr_transitions demo_waiting) \<and>
   0 < (2 :: u64) \<and> 2 \<le> (4098 :: u64)"
  using workflow_store_invariant [OF demo_store_reachable(2), of "([], ''r'')" "demo_snapshot 2 demo_waiting"]
  by (simp add: demo_store_defs bm_get_def demo_defs)

text \<open>
  Tenants do not observe each other. Whatever a caller of one tenant creates or applies, loads
  and due scans under an authority of another tenant return what they returned before, and a load
  returns snapshots of the caller's own tenant only.
\<close>

theorem workflow_store_isolated:
  assumes reach: "(workflow_store_step env)\<^sup>*\<^sup>* [] runs"
    and other: "valid_authority other" "tenant_id other \<noteq> tenant_id authority"
    and change: "wf_create_as env runs run_id request now authority = Inr (runs', snapshot) \<or>
      wf_apply_as env runs run_id r command now authority = Inr (runs', res)"
  shows "(wf_load_as runs' j other = wf_load_as runs j other) \<and>
    (wf_scan_due_as runs' at_ms after limit other = wf_scan_due_as runs at_ms after limit other) \<and>
    (wf_load_as runs j other = Inr (Some s) \<longrightarrow> wrs_tenant_id s = tenant_id other \<and> wrs_id s = j)"
proof (rule conjI [OF _ conjI]; (intro impI)?)
  let ?k = "store_key run_id (tenant_id authority)"
  from change have written: "runs' = runs \<or> (\<exists>s. runs' = bm_insert ?k s runs)"
    and valid: "valid_authority authority"
    by (auto simp: wf_create_as_ok elim!: wf_apply_as_okE)
  from change reach have reach': "(workflow_store_step env)\<^sup>*\<^sup>* [] runs'"
    by (auto intro: rtranclp.rtrancl_into_rtrancl store_created store_applied)
  from other valid have tenants: "tenant_storage_key (tenant_id other) \<noteq> tenant_storage_key (tenant_id authority)"
    using tenant_storage_key_inj by (auto simp: valid_authority_def)
  then have keys: "store_key j (tenant_id other) \<noteq> ?k" for j by (simp add: store_key_def)
  show "wf_load_as runs' j other = wf_load_as runs j other"
    using written keys by (auto simp: wf_load_as_def bm_get_insert)
  have "tenant_after (tenant_storage_key (tenant_id other)) after runs' =
      tenant_after (tenant_storage_key (tenant_id other)) after runs"
    using written tenants tenant_after_insert_other by (auto simp: store_key_def)
  then show "wf_scan_due_as runs' at_ms after limit other = wf_scan_due_as runs at_ms after limit other"
    by (simp add: wf_scan_due_as_eq workflow_store_wf [OF reach] workflow_store_wf [OF reach'])
  show "wrs_tenant_id s = tenant_id other \<and> wrs_id s = j"
    if "wf_load_as runs j other = Inr (Some s)"
  proof -
    from that have "bm_get runs (store_key j (tenant_id other)) = Some s"
      by (auto simp: wf_load_as_def ok_iff)
    from workflow_store_entries [OF reach this] other show ?thesis
      by (auto simp: workflow_entry_ok_def store_key_inj valid_authority_def)
  qed
qed

theorem workflow_store_isolated_witness:
  "wf_load_as (demo_store 2 demo_waiting) ''r'' (demo_tenant ''t'') =
     wf_load_as (demo_store 1 demo_run) ''r'' (demo_tenant ''t'') \<and>
   wf_scan_due_as (demo_store 2 demo_waiting) 10 None 4 (demo_tenant ''t'') =
     wf_scan_due_as (demo_store 1 demo_run) 10 None 4 (demo_tenant ''t'')"
  using workflow_store_isolated [OF demo_store_reachable(1) demo_tenant_valid(1) _ disjI2 [OF demo_store_applied]]
  by (simp add: demo_tenant_def)

text \<open>
  How \<open>apply_as\<close> fails and when it cannot. An unknown Run, a zero revision and a new command
  with a stale revision are answered by their own errors, the last one with the revision the
  caller has to reload. A new command with the current revision is answered as the Run itself
  answers it: rejected with the Run's error, or committed at the next revision, never lost to an
  overflow of the counter.
\<close>

theorem workflow_store_apply_errors:
  assumes reach: "(workflow_store_step env)\<^sup>*\<^sup>* [] runs"
    and access: "valid_authority authority" "wf_validate_identity run_id = Inr ()"
    and key: "k = store_key run_id (tenant_id authority)"
  shows "(wf_apply_as env runs run_id 0 command now authority = Inl (Workflow (W_field Zero_revision))) \<and>
    (r \<noteq> 0 \<longrightarrow> bm_get runs k = None \<longrightarrow>
      wf_apply_as env runs run_id r command now authority = Inl (Workflow (W_store (Missing run_id)))) \<and>
    (r \<noteq> 0 \<longrightarrow> bm_get runs k = Some s \<longrightarrow> recognizes_command env (wrs_run s) command = Inr False \<longrightarrow>
      wrs_revision s \<noteq> r \<longrightarrow>
      wf_apply_as env runs run_id r command now authority = Inl (WorkflowConflict run_id r (wrs_revision s))) \<and>
    (bm_get runs k = Some s \<longrightarrow> recognizes_command env (wrs_run s) command = Inr False \<longrightarrow>
      wf_apply_as env runs run_id (wrs_revision s) command now authority =
        map_sum id (\<lambda>(run, _). let s' = s\<lparr>wrs_revision := wrs_revision s + 1, wrs_run := run\<rparr> in
          (bm_insert k s' runs, \<lparr>wcr_snapshot = s', wcr_outcome = Applied\<rparr>))
          (workflow_apply env (wrs_run s) command now authority))"
proof (rule conjI [OF _ conjI [OF _ conjI]]; (intro impI)?)
  from access(1) have "authority_validate_current authority = Inr ()"
    by (simp add: authority_validate_current_ok)
  note guards = validate_run_access_def this wf_validate_expected_revision_def
  show "wf_apply_as env runs run_id 0 command now authority = Inl (Workflow (W_field Zero_revision))"
    using access by (simp add: wf_apply_as_def guards wf_err_def)
  show "wf_apply_as env runs run_id r command now authority = Inl (Workflow (W_store (Missing run_id)))"
    if "r \<noteq> 0" "bm_get runs k = None"
    using access that key by (simp add: wf_apply_as_def guards missing_run_def)
  show "wf_apply_as env runs run_id r command now authority = Inl (WorkflowConflict run_id r (wrs_revision s))"
    if "r \<noteq> 0" "bm_get runs k = Some s" "recognizes_command env (wrs_run s) command = Inr False"
      "wrs_revision s \<noteq> r"
    using access that key by (simp add: wf_apply_as_def guards)
  show "wf_apply_as env runs run_id (wrs_revision s) command now authority =
        map_sum id (\<lambda>(run, _). let s' = s\<lparr>wrs_revision := wrs_revision s + 1, wrs_run := run\<rparr> in
          (bm_insert k s' runs, \<lparr>wcr_snapshot = s', wcr_outcome = Applied\<rparr>))
          (workflow_apply env (wrs_run s) command now authority)"
    if s: "bm_get runs k = Some s" and new: "recognizes_command env (wrs_run s) command = Inr False"
  proof -
    have bounds: "0 < unat (wrs_revision s)" "unat (wrs_revision s) \<le> 4098"
      using workflow_revision_bounds [OF reach s] by simp_all
    then have nonzero: "wrs_revision s \<noteq> 0" by auto
    from bounds have step: "checked_add (wrs_revision s) 1 = Some (wrs_revision s + 1)"
      by (simp add: checked_add_def)
    show ?thesis
    proof (cases "workflow_apply env (wrs_run s) command now authority")
      case (Inl e)
      with s new access key nonzero show ?thesis by (simp add: wf_apply_as_def guards)
    next
      case (Inr p)
      moreover obtain run outcome where "p = (run, outcome)" by force
      ultimately show ?thesis
        using s new access key nonzero step workflow_apply_new [of env "wrs_run s" command now authority run outcome]
        by (simp add: wf_apply_as_def guards Let_def)
    qed
  qed
qed

theorem workflow_store_apply_errors_witness:
  "wf_apply_as demo_env (demo_store 1 demo_run) ''r'' 0 demo_wait 6 local_process
     = Inl (Workflow (W_field Zero_revision)) \<and>
   wf_apply_as demo_env (demo_store 1 demo_run) ''w'' 1 demo_wait 6 local_process
     = Inl (Workflow (W_store (Missing ''w''))) \<and>
   wf_apply_as demo_env (demo_store 1 demo_run) ''r'' 7 demo_wait 6 local_process
     = Inl (WorkflowConflict ''r'' 7 1) \<and>
   wf_apply_as demo_env (demo_store 1 demo_run) ''r'' 1 demo_wait 6 local_process =
     Inr (demo_store 2 demo_waiting, \<lparr>wcr_snapshot = demo_snapshot 2 demo_waiting, wcr_outcome = Applied\<rparr>)"
proof -
  note errors = workflow_store_apply_errors [OF demo_store_reachable(1) valid_authority_local_process _ refl]
  have get: "bm_get (demo_store 1 demo_run) ([], ''r'') = Some (demo_snapshot 1 demo_run)"
    "bm_get (demo_store 1 demo_run) ([], ''w'') = None"
    by (simp_all add: demo_store_def bm_get_def)
  show ?thesis
    using errors [of "''r''" demo_wait 6 7 "demo_snapshot 1 demo_run"]
      errors [of "''w''" demo_wait 6 1 "demo_snapshot 1 demo_run"] demo_wait_new demo_wait_applied get
    by (simp add: store_key_def tenant_storage_key_def demo_store_defs Let_def)
qed

text \<open>
  A due scan visits exactly the first \<open>scan_limit\<close> Runs of the caller's tenant after the cursor, in
  identity order, and reports exactly those of them whose wait is due. Its continuation resumes
  behind the last visited Run, so chained pages skip nothing and repeat nothing.
\<close>

theorem workflow_scan_exact:
  assumes reach: "(workflow_store_step env)\<^sup>*\<^sup>* [] runs"
    and scan: "wf_scan_due_as runs at_ms after limit authority = Inr page"
  defines "rest \<equiv> tenant_after (tenant_storage_key (tenant_id authority)) after runs"
  shows "(wsp_scanned page = min limit (length rest)) \<and>
    (wsp_has_more page \<longleftrightarrow> limit < length rest) \<and>
    (wsp_due page = concat (map (due_of_snapshot at_ms \<circ> snd) (take limit rest))) \<and>
    (wsp_has_more page \<longrightarrow> (\<exists>i. wsp_next_after_run_id page = Some i \<and> is_none_or after (\<lambda>a. a < i) \<and>
      tenant_after (tenant_storage_key (tenant_id authority)) (Some i) runs = drop limit rest))"
proof (rule conjI [OF _ conjI [OF _ conjI]]; (intro impI)?)
  note wf = workflow_store_wf [OF reach]
  from scan have limit: "0 < limit" and page: "page = wf_page_from_scan (map snd rest) limit at_ms"
    by (auto simp: wf_scan_due_as_eq [OF wf] ok_iff wf_validate_due_scan_ok rest_def)
  show "wsp_scanned page = min limit (length rest)" "wsp_has_more page \<longleftrightarrow> limit < length rest"
    "wsp_due page = concat (map (due_of_snapshot at_ms \<circ> snd) (take limit rest))"
    by (simp_all add: page wf_page_from_scan_def Let_def take_map)
  show "\<exists>i. wsp_next_after_run_id page = Some i \<and> is_none_or after (\<lambda>a. a < i) \<and>
      tenant_after (tenant_storage_key (tenant_id authority)) (Some i) runs = drop limit rest"
    if "wsp_has_more page"
  proof -
    from that limit have ne: "rest \<noteq> []" by (auto simp: page wf_page_from_scan_def Let_def)
    let ?e = "last (take limit rest)"
    have mem: "?e \<in> set rest" using ne limit by (intro in_set_takeD [OF last_in_set]) simp
    then have "workflow_entry_ok env (fst ?e) (snd ?e)" "fst (fst ?e) = tenant_storage_key (tenant_id authority)"
      using tenant_after_entry [OF wf] workflow_store_entries [OF reach] unfolding rest_def by blast+
    then have id: "wrs_id (snd ?e) = snd (fst ?e)"
      by (metis workflow_entry_ok_def store_key_def snd_conv)
    have "wsp_next_after_run_id page = Some (snd (fst ?e))"
      using ne limit id by (simp add: page wf_page_from_scan_def Let_def take_map last_map)
    with tenant_after_resume [OF wf limit ne [unfolded rest_def] refl] show ?thesis
      unfolding rest_def by blast
  qed
qed

theorem workflow_scan_exact_witness:
  "wf_scan_due_as (demo_store 2 demo_waiting) 10 None 4 local_process =
     Inr \<lparr>wsp_due = [\<lparr>wdw_run_id = ''r'', wdw_tenant_id = None, wdw_revision = 2, wdw_wait_id = ''w'',
       wdw_due_at_ms = 9\<rparr>], wsp_next_after_run_id = Some ''r'', wsp_has_more = False, wsp_scanned = 1\<rparr> \<and>
   wsp_scanned \<lparr>wsp_due = [\<lparr>wdw_run_id = ''r'', wdw_tenant_id = None, wdw_revision = 2, wdw_wait_id = ''w'',
       wdw_due_at_ms = 9\<rparr>], wsp_next_after_run_id = Some ''r'', wsp_has_more = False, wsp_scanned = 1\<rparr> =
     min 4 (length (tenant_after [] None (demo_store 2 demo_waiting)))"
proof -
  have scan: "wf_scan_due_as (demo_store 2 demo_waiting) 10 None 4 local_process =
     Inr \<lparr>wsp_due = [\<lparr>wdw_run_id = ''r'', wdw_tenant_id = None, wdw_revision = 2, wdw_wait_id = ''w'',
       wdw_due_at_ms = 9\<rparr>], wsp_next_after_run_id = Some ''r'', wsp_has_more = False, wsp_scanned = 1\<rparr>"
    by (simp add: wf_scan_due_as_def wf_validate_due_scan_def MAX_WORKFLOW_SCAN_PAGE_def
        tenant_storage_key_def bm_range_from_def demo_store_defs usize_saturating_add_def
        wf_page_from_scan_def due_of_snapshot_def demo_waiting_def Let_def)
  from conjunct1 [OF workflow_scan_exact [OF demo_store_reachable(2) scan]] scan show ?thesis
    by (simp add: tenant_storage_key_def)
qed

end
