(* ===== verification/Leases.thy ===== *)
theory Leases
  imports Errors
begin

text \<open>
  Task leases, Human Handoff claims and Effect leases are the same device: a state holds at most
  one lease, and every operation on it first runs a check that the caller presents the fence of
  the current lease, is its holder, and is in time. The locale is the contract of that check; its
  lemmas are why two workers can never both act on one resource.
\<close>

locale lease_fence =
  fixes check :: "'s \<Rightarrow> 'f \<Rightarrow> 'o \<Rightarrow> u64 \<Rightarrow> 'e + 'l"
    and held :: "'s \<Rightarrow> 'l option"
    and fence :: "'l \<Rightarrow> 'f"
    and holder :: "'l \<Rightarrow> 'o"
    and expires :: "'l \<Rightarrow> u64"
  assumes check_iff: "check s f p now = Inr l \<longleftrightarrow>
    held s = Some l \<and> fence l = f \<and> holder l = p \<and> now < expires l"
begin

text \<open>Two callers that pass the check on one state are one caller, with one fence.\<close>

lemma exclusive:
  "check s f p now = Inr l \<Longrightarrow> check s f' p' now' = Inr l' \<Longrightarrow> f = f' \<and> p = p' \<and> l = l'"
  by (auto simp: check_iff)

text \<open>Whoever holds an old fence is rejected once another one is current.\<close>

lemma stale: "held s = Some l \<Longrightarrow> fence l \<noteq> f \<Longrightarrow> \<exists>e. check s f p now = Inl e"
  by (cases "check s f p now") (auto simp: check_iff)

lemma late: "held s = Some l \<Longrightarrow> expires l \<le> now \<Longrightarrow> \<exists>e. check s f p now = Inl e"
  by (cases "check s f p now") (auto simp: check_iff)

lemma unheld: "held s = None \<Longrightarrow> \<exists>e. check s f p now = Inl e"
  by (cases "check s f p now") (auto simp: check_iff)

text \<open>The check is monotone in time: passing it now means every earlier call passed.\<close>

lemma earlier: "check s f p now = Inr l \<Longrightarrow> past \<le> now \<Longrightarrow> check s f p past = Inr l"
  by (auto simp: check_iff)

end

end
