(* ===== verification/Task_Graph.thy ===== *)
theory Task_Graph
  imports Kernel Leases
begin

text \<open>
  \<^verbatim>\<open>orchestration/mod.rs\<close>: the Task Graph, a dependency DAG of Tasks with fenced leases, ordered
  messages and immutable attempt bindings. Every mutation of Tasks goes through
  \<open>apply_task_mutations\<close>, which checks the whole batch and its byte charge before it changes
  anything.

  Encoded sizes come from \<open>serde_json::to_vec\<close>, and \<open>TaskLeaseId::generate\<close> and
  \<open>TaskMessageId::generate\<close> draw random identifiers: both are parameters, the encoders in the
  record \<open>graph_env\<close>, the identifiers as arguments of the operations that draw them.
\<close>

section \<open>Data\<close>

definition MAX_TASKS :: nat where "MAX_TASKS = 10000"
definition MAX_CLAIMS_PER_BATCH :: nat where "MAX_CLAIMS_PER_BATCH = 64"
definition MAX_TASK_CAPABILITIES :: nat where "MAX_TASK_CAPABILITIES = 64"
definition MAX_DEPENDENCIES_PER_TASK :: nat where "MAX_DEPENDENCIES_PER_TASK = 1024"
definition MAX_ARTIFACTS_PER_COMPLETION :: nat where "MAX_ARTIFACTS_PER_COMPLETION = 1024"
definition MAX_MESSAGES :: nat where "MAX_MESSAGES = 100000"
definition MAX_TASK_ATTEMPT_BINDINGS :: nat where "MAX_TASK_ATTEMPT_BINDINGS = 100000"
definition MAX_MESSAGE_PAGE_ITEMS :: nat where "MAX_MESSAGE_PAGE_ITEMS = 256"
definition MAX_MESSAGE_PAGE_BYTES :: nat where "MAX_MESSAGE_PAGE_BYTES = 2097152"
definition MAX_TASK_GRAPH_JSON_BYTES :: nat where "MAX_TASK_GRAPH_JSON_BYTES = 67108864"
definition TASK_GRAPH_BASE_CHARGE_BYTES :: nat where "TASK_GRAPH_BASE_CHARGE_BYTES = 1024"
definition ACTIVE_TASK_TERMINAL_RESERVE_BYTES :: nat where
  "ACTIVE_TASK_TERMINAL_RESERVE_BYTES = 1024"
definition MAX_TASK_TEXT_BYTES :: nat where "MAX_TASK_TEXT_BYTES = 65536"
definition MAX_MESSAGE_BYTES :: nat where "MAX_MESSAGE_BYTES = 65536"
definition MAX_URI_BYTES :: nat where "MAX_URI_BYTES = 4096"

datatype workspace_mode = WsNone | WsIsolated | WsSharedReadOnly

text \<open>A \<open>BTreeSet<String>\<close> that is iterated is the increasing list of its elements.\<close>

type_synonym string_set = "string list"

type_synonym task_capability_set = string_set

record task_definition =
  td_id :: string
  td_description :: string
  td_dependencies :: string_set
  td_priority :: int
  td_workspace :: workspace_mode
  td_required_capabilities :: task_capability_set

record task_lease =
  tl_id :: string
  tl_owner :: string
  tl_attempt :: u32
  tl_expires_at_ms :: u64

record task_attempt_binding =
  ta_task_id :: string
  ta_lease_id :: string
  ta_attempt :: u32
  ta_claimed_by :: string
  ta_claimed_at_ms :: u64
  ta_execution_binding :: execution_binding

record task_artifact =
  ar_id :: string
  ar_producer :: string
  ar_uri :: string
  ar_content_sha256 :: string
  ar_media_type :: string
  ar_size_bytes :: u64

record task_completion =
  tc_summary :: string
  tc_artifacts :: "task_artifact list"

datatype task_status =
    TsPending
  | TsRunning task_lease
  | TsCompleted task_completion
  | TsFailed string
  | TsCancelled string
  | TsBlocked string

record task_record =
  tr_definition :: task_definition
  tr_status :: task_status
  tr_attempts :: u32

record task_claim =
  cl_task :: task_definition
  cl_lease :: task_lease
  cl_execution_binding :: "execution_binding option"

record task_message =
  tm_id :: string
  tm_sequence :: u64
  tm_from :: string
  tm_to :: string
  tm_body :: string
  tm_created_at_ms :: u64

record task_message_page =
  pg_messages :: "task_message list"
  pg_next_after_sequence :: "u64 option"
  pg_has_more :: bool

record task_graph =
  tg_tasks :: "(string, task_record) btree_map"
  tg_messages :: "task_message list"
  tg_attempt_bindings :: "task_attempt_binding list"
  tg_next_message_sequence :: u64
  tg_charge :: usize

record task_graph_wire =
  gw_tasks :: "(string, task_record) btree_map"
  gw_messages :: "task_message list"
  gw_attempt_bindings :: "task_attempt_binding list"
  gw_next_message_sequence :: u64

record task_mutation =
  mu_id :: string
  mu_status :: task_status
  mu_attempts :: u32
  mu_attempt_binding :: "task_attempt_binding option"

text \<open>\<open>ge_task\<close> encodes the pair of a Task identity and its \<open>TaskRecordView\<close>.\<close>

record graph_env =
  ge_task :: "string \<times> task_definition \<times> task_status \<times> u32 \<Rightarrow> bytes option"
  ge_message :: "task_message \<Rightarrow> bytes option"
  ge_binding :: "task_attempt_binding \<Rightarrow> bytes option"
  ge_execution_binding :: "execution_binding \<Rightarrow> bytes option"

fun ts_is_terminal :: "task_status \<Rightarrow> bool" where
  "ts_is_terminal (TsCompleted _) = True"
| "ts_is_terminal (TsFailed _) = True"
| "ts_is_terminal (TsCancelled _) = True"
| "ts_is_terminal (TsBlocked _) = True"
| "ts_is_terminal _ = False"

fun ts_is_completed :: "task_status \<Rightarrow> bool" where
  "ts_is_completed (TsCompleted _) = True"
| "ts_is_completed _ = False"

fun ts_is_failed :: "task_status \<Rightarrow> bool" where
  "ts_is_failed (TsFailed _) = True"
| "ts_is_failed (TsCancelled _) = True"
| "ts_is_failed (TsBlocked _) = True"
| "ts_is_failed _ = False"

definition orch :: "orchestration_fault \<Rightarrow> harness_error" where
  "orch f = Orchestration f"

section \<open>Capability sets\<close>

definition capset_validate :: "task_capability_set \<Rightarrow> unit result" where
  "capset_validate cs =
     (if length cs > MAX_TASK_CAPABILITIES then Inl (InvalidCapability Too_many_task_capabilities)
      else for_each validate_capability_name cs)"

definition capset_insert :: "task_capability_set \<Rightarrow> string \<Rightarrow> task_capability_set result" where
  "capset_insert cs c =
     (if c \<in> set cs then Inl (InvalidCapability Duplicate_task_capability) else Inr (insort c cs))"

definition capset_new :: "string list \<Rightarrow> task_capability_set result" where
  "capset_new capabilities =
     and_then (try_fold capset_insert [] capabilities) (\<lambda>cs.
     and_then (capset_validate cs) (\<lambda>_. Inr cs))"

definition capset_satisfies :: "task_capability_set \<Rightarrow> task_capability_set \<Rightarrow> bool" where
  "capset_satisfies worker requirements \<longleftrightarrow> list_all (\<lambda>c. c \<in> set worker) requirements"

section \<open>Validators\<close>

definition validate_task_id :: "string \<Rightarrow> unit result" where
  "validate_task_id task_id =
     (if task_id = [] \<or> length task_id > 256 \<or> has_control task_id
      then Inl (orch O_bad_task_id) else Inr ())"

definition validate_task_text :: "string \<Rightarrow> unit result" where
  "validate_task_text value =
     (if trim_is_empty value \<or> length value > MAX_TASK_TEXT_BYTES
      then Inl (orch O_bad_text) else Inr ())"

definition validate_task_definition :: "task_definition \<Rightarrow> unit result" where
  "validate_task_definition d =
     and_then (validate_task_id (td_id d)) (\<lambda>_.
     and_then (capset_validate (td_required_capabilities d)) (\<lambda>_.
     if length (td_dependencies d) > MAX_DEPENDENCIES_PER_TASK
     then Inl (orch (O_too_many_dependencies (td_id d)))
     else
     and_then (for_each validate_task_id (td_dependencies d)) (\<lambda>_.
     validate_task_text (td_description d))))"

definition validate_artifact :: "string \<Rightarrow> string set \<Rightarrow> task_artifact \<Rightarrow> string set result" where
  "validate_artifact task_id artifact_ids a =
     (if ar_producer a \<noteq> task_id then Inl (orch (O_artifact (Foreign_producer (ar_id a))))
      else if ar_id a \<in> artifact_ids then Inl (orch (O_artifact (Duplicate_artifact (ar_id a))))
      else if trim_is_empty (ar_uri a) \<or> length (ar_uri a) > MAX_URI_BYTES
      then Inl (orch (O_artifact (Bad_uri (ar_id a))))
      else if trim_is_empty (ar_media_type a) \<or> length (ar_media_type a) > 255
      then Inl (orch (O_artifact (Bad_media_type (ar_id a))))
      else if length (ar_content_sha256 a) \<noteq> 64 \<or>
              \<not> list_all is_lower_hex_byte (str_bytes (ar_content_sha256 a))
      then Inl (orch (O_artifact (Bad_content_digest (ar_id a))))
      else Inr (insert (ar_id a) artifact_ids))"

definition validate_completion :: "string \<Rightarrow> task_completion \<Rightarrow> unit result" where
  "validate_completion task_id completion =
     and_then (validate_task_text (tc_summary completion)) (\<lambda>_.
     if length (tc_artifacts completion) > MAX_ARTIFACTS_PER_COMPLETION
     then Inl (orch (O_artifact Too_many_artifacts))
     else
     and_then (try_fold (validate_artifact task_id) {} (tc_artifacts completion)) (\<lambda>_. Inr ()))"

definition validate_attempt_binding :: "graph_env \<Rightarrow> task_attempt_binding \<Rightarrow> unit result" where
  "validate_attempt_binding env evidence =
     and_then (validate_task_id (ta_task_id evidence)) (\<lambda>_.
     and_then (validate_capability_name (ta_claimed_by evidence)) (\<lambda>_.
     if ta_attempt evidence = 0 then Inl (orch (O_binding Attempt_zero))
     else map_err (\<lambda>_. orch (O_binding Binding_invalid))
       (binding_validate (ge_execution_binding env) (ta_execution_binding evidence))))"

section \<open>Byte charges\<close>

definition checked_graph_charge_add :: "usize \<Rightarrow> usize \<Rightarrow> usize result" where
  "checked_graph_charge_add left right = ok_or (orch O_charge_overflow) (usize_checked_add left right)"

definition validate_graph_charge :: "usize \<Rightarrow> unit result" where
  "validate_graph_charge charge =
     (if charge > MAX_TASK_GRAPH_JSON_BYTES then Inl (orch O_charge_too_large) else Inr ())"

definition task_materialization_charge_parts ::
  "graph_env \<Rightarrow> string \<Rightarrow> task_definition \<Rightarrow> task_status \<Rightarrow> u32 \<Rightarrow> usize result" where
  "task_materialization_charge_parts env task_id d status attempts =
     and_then (ok_or (orch O_encode) (ge_task env (task_id, d, status, attempts))) (\<lambda>encoded.
     let reserve = (case status of TsPending \<Rightarrow> 1 | TsRunning _ \<Rightarrow> 1 | _ \<Rightarrow> 0)
       * ACTIVE_TASK_TERMINAL_RESERVE_BYTES in
     ok_or (orch O_charge_overflow) (usize_checked_add (length encoded) reserve))"

definition task_materialization_charge :: "graph_env \<Rightarrow> string \<Rightarrow> task_record \<Rightarrow> usize result" where
  "task_materialization_charge env task_id record =
     task_materialization_charge_parts env task_id (tr_definition record) (tr_status record)
       (tr_attempts record)"

definition message_materialization_charge :: "graph_env \<Rightarrow> task_message \<Rightarrow> usize result" where
  "message_materialization_charge env message =
     and_then (ok_or (orch O_encode) (ge_message env message)) (\<lambda>encoded.
     ok_or (orch O_charge_overflow) (usize_checked_add (length encoded) 1))"

definition attempt_binding_materialization_charge :: "graph_env \<Rightarrow> task_attempt_binding \<Rightarrow> usize result" where
  "attempt_binding_materialization_charge env evidence =
     and_then (ok_or (orch O_encode) (ge_binding env evidence)) (\<lambda>encoded.
     ok_or (orch O_charge_overflow) (usize_checked_add (length encoded) 1))"

definition calculate_materialization_charge :: "graph_env \<Rightarrow> task_graph \<Rightarrow> usize result" where
  "calculate_materialization_charge env g =
     and_then (try_fold (\<lambda>total (task_id, record).
         and_then (task_materialization_charge env task_id record) (checked_graph_charge_add total))
       TASK_GRAPH_BASE_CHARGE_BYTES (tg_tasks g)) (\<lambda>total.
     and_then (try_fold (\<lambda>total message.
         and_then (message_materialization_charge env message) (checked_graph_charge_add total))
       total (tg_messages g)) (\<lambda>total.
     and_then (try_fold (\<lambda>total evidence.
         and_then (attempt_binding_materialization_charge env evidence) (checked_graph_charge_add total))
       total (tg_attempt_bindings g)) (\<lambda>total.
     and_then (validate_graph_charge total) (\<lambda>_. Inr total))))"

section \<open>Construction\<close>

text \<open>
  \<open>validate_acyclic\<close>: the depth-first search of the source. A successful \<open>visit\<close> removes from
  \<open>visiting\<close> exactly what it added, so here the set is passed down and only \<open>visited\<close> is
  returned; a failing visit ends the whole search.
\<close>

function (sequential) visit ::
    "(string, task_record) btree_map \<Rightarrow> string set \<Rightarrow> string set \<Rightarrow> string \<Rightarrow> string set result"
  and visit_dependencies ::
    "(string, task_record) btree_map \<Rightarrow> string set \<Rightarrow> string set \<Rightarrow> string list \<Rightarrow> string set result"
where
  "visit tasks visiting visited i =
     (if i \<in> visited then Inr visited
      else if i \<in> visiting then Inl (orch (O_cycle i))
      else
        (case bm_get tasks i of
           None \<Rightarrow> Inl (orch (O_task_disappeared i))
         | Some record \<Rightarrow>
             and_then (visit_dependencies tasks (insert i visiting) visited
               (td_dependencies (tr_definition record))) (\<lambda>visited'.
             Inr (insert i visited'))))"
| "visit_dependencies tasks visiting visited [] = Inr visited"
| "visit_dependencies tasks visiting visited (d # ds) =
     and_then (visit tasks visiting visited d) (\<lambda>visited'.
     visit_dependencies tasks visiting visited' ds)"
  by pat_completeness auto
termination
proof (relation "measures [\<lambda>x. case x of
      Inl (tasks, visiting, _, _) \<Rightarrow> card (set (bm_keys tasks) - visiting)
    | Inr (tasks, visiting, _, _) \<Rightarrow> card (set (bm_keys tasks) - visiting),
    \<lambda>x. case x of Inl _ \<Rightarrow> 0 | Inr (_, _, _, ds) \<Rightarrow> Suc (length ds)]", goal_cases)
  case (2 tasks visiting visited i r)
  then have "i \<in> set (bm_keys tasks) - visiting"
    by (force simp: bm_get_def bm_keys_def dest: map_of_SomeD)
  then have "card (set (bm_keys tasks) - insert i visiting) < card (set (bm_keys tasks) - visiting)"
    by (intro psubset_card_mono) auto
  then show ?case by simp
qed simp_all

definition validate_acyclic :: "(string, task_record) btree_map \<Rightarrow> unit result" where
  "validate_acyclic tasks =
     and_then (try_fold (visit tasks {}) {} (bm_keys tasks)) (\<lambda>_. Inr ())"

definition insert_definition ::
  "(string, task_record) btree_map \<Rightarrow> task_definition \<Rightarrow> (string, task_record) btree_map result" where
  "insert_definition tasks d =
     and_then (validate_task_definition d) (\<lambda>_.
     if bm_contains tasks (td_id d) then Inl (orch (O_duplicate_task (td_id d)))
     else Inr (bm_insert (td_id d)
       \<lparr>tr_definition = d, tr_status = TsPending, tr_attempts = 0\<rparr> tasks))"

definition validate_dependencies ::
  "(string, task_record) btree_map \<Rightarrow> task_record \<Rightarrow> unit result" where
  "validate_dependencies tasks record =
     for_each (\<lambda>dependency.
       if dependency = td_id (tr_definition record)
       then Inl (orch (O_self_dependency (td_id (tr_definition record))))
       else if \<not> bm_contains tasks dependency
       then Inl (orch (O_missing_dependency (td_id (tr_definition record)) dependency))
       else Inr ()) (td_dependencies (tr_definition record))"

definition task_graph_new :: "graph_env \<Rightarrow> task_definition list \<Rightarrow> task_graph result" where
  "task_graph_new env definitions =
     (if length definitions > MAX_TASKS then Inl (orch O_too_many_tasks)
      else
     and_then (try_fold insert_definition [] definitions) (\<lambda>tasks.
     and_then (for_each (validate_dependencies tasks) (bm_values tasks)) (\<lambda>_.
     and_then (validate_acyclic tasks) (\<lambda>_.
     let graph = \<lparr>tg_tasks = tasks, tg_messages = [], tg_attempt_bindings = [],
       tg_next_message_sequence = 1, tg_charge = 0\<rparr> in
     and_then (calculate_materialization_charge env graph) (\<lambda>charge.
     Inr (graph\<lparr>tg_charge := charge\<rparr>))))))"

definition task_graph_from_wire :: "graph_env \<Rightarrow> task_graph_wire \<Rightarrow> task_graph result" where
  "task_graph_from_wire env wire =
     (let graph = \<lparr>tg_tasks = gw_tasks wire, tg_messages = gw_messages wire,
        tg_attempt_bindings = gw_attempt_bindings wire,
        tg_next_message_sequence = gw_next_message_sequence wire, tg_charge = 0\<rparr> in
      and_then (calculate_materialization_charge env graph) (\<lambda>charge.
      Inr (graph\<lparr>tg_charge := charge\<rparr>)))"

definition execution_binding_for_lease :: "task_graph \<Rightarrow> string \<Rightarrow> execution_binding option" where
  "execution_binding_for_lease g lease_id =
     map_option ta_execution_binding (find (\<lambda>evidence. ta_lease_id evidence = lease_id) (tg_attempt_bindings g))"

definition remaining_materialization_bytes :: "task_graph \<Rightarrow> usize" where
  "remaining_materialization_bytes g = MAX_TASK_GRAPH_JSON_BYTES - tg_charge g"

definition graph_is_terminal :: "task_graph \<Rightarrow> bool" where
  "graph_is_terminal g \<longleftrightarrow> list_all (\<lambda>record. ts_is_terminal (tr_status record)) (bm_values (tg_tasks g))"

section \<open>Mutations\<close>

text \<open>One step of the checking loop: the identities seen, the bound leases, the running charge.\<close>

definition check_mutation ::
  "graph_env \<Rightarrow> task_graph \<Rightarrow> string set \<times> string set \<times> usize \<Rightarrow> task_mutation \<Rightarrow>
   (string set \<times> string set \<times> usize) result" where
  "check_mutation env g = (\<lambda>(seen, lease_ids, charge) m.
     if mu_id m \<in> seen then Inl (orch (O_duplicate_mutation (mu_id m)))
     else
     and_then (ok_or (orch (O_no_task (mu_id m))) (bm_get (tg_tasks g) (mu_id m))) (\<lambda>current.
     and_then (task_materialization_charge env (mu_id m) current) (\<lambda>current_charge.
     and_then (task_materialization_charge_parts env (mu_id m) (tr_definition current) (mu_status m)
       (mu_attempts m)) (\<lambda>candidate_charge.
     and_then (ok_or (orch O_charge_inconsistent) (usize_checked_sub charge current_charge)) (\<lambda>charge.
     and_then (checked_graph_charge_add charge candidate_charge) (\<lambda>charge.
     case mu_attempt_binding m of
       None \<Rightarrow> Inr (insert (mu_id m) seen, lease_ids, charge)
     | Some evidence \<Rightarrow>
         and_then (validate_attempt_binding env evidence) (\<lambda>_.
         case mu_status m of
           TsRunning lease \<Rightarrow>
             if ta_task_id evidence \<noteq> mu_id m \<or> ta_lease_id evidence \<noteq> tl_id lease \<or>
                ta_attempt evidence \<noteq> mu_attempts m \<or> ta_attempt evidence \<noteq> tl_attempt lease \<or>
                ta_claimed_by evidence \<noteq> tl_owner lease
             then Inl (orch (O_binding Binding_differs_from_lease))
             else if ta_lease_id evidence \<in> lease_ids
             then Inl (orch (O_binding Duplicate_binding_lease))
             else
             and_then (attempt_binding_materialization_charge env evidence) (\<lambda>c.
             and_then (checked_graph_charge_add charge c) (\<lambda>charge.
             Inr (insert (mu_id m) seen, insert (ta_lease_id evidence) lease_ids, charge)))
         | _ \<Rightarrow> Inl (orch (O_binding Binding_needs_running)))))))))"

definition commit_mutation :: "task_graph \<Rightarrow> task_mutation \<Rightarrow> task_graph" where
  "commit_mutation g m =
     g\<lparr>tg_tasks := bm_update (mu_id m)
         (\<lambda>record. record\<lparr>tr_status := mu_status m, tr_attempts := mu_attempts m\<rparr>) (tg_tasks g),
       tg_attempt_bindings := tg_attempt_bindings g @
         (case mu_attempt_binding m of None \<Rightarrow> [] | Some evidence \<Rightarrow> [evidence])\<rparr>"

definition apply_task_mutations :: "graph_env \<Rightarrow> task_graph \<Rightarrow> task_mutation list \<Rightarrow> task_graph result" where
  "apply_task_mutations env g mutations =
     (let appended = length (filter (\<lambda>m. mu_attempt_binding m \<noteq> None) mutations) in
      if (case usize_checked_add (length (tg_attempt_bindings g)) appended of
            None \<Rightarrow> True | Some count \<Rightarrow> count > MAX_TASK_ATTEMPT_BINDINGS)
      then Inl (orch O_too_many_bindings)
      else
      and_then (try_fold (check_mutation env g)
        ({}, ta_lease_id ` set (tg_attempt_bindings g), tg_charge g) mutations) (\<lambda>(_, _, charge).
      and_then (validate_graph_charge charge) (\<lambda>_.
      Inr ((foldl commit_mutation g mutations)\<lparr>tg_charge := charge\<rparr>))))"

text \<open>The \<open>loop\<close> of \<open>blocked_mutations\<close>; \<open>failed\<close> grows until nothing new is blocked.\<close>

definition blocked_reason :: "string \<Rightarrow> string" where
  "blocked_reason dependency = ''dependency '' @ dependency @ '' did not complete''"

definition newly_blocked :: "task_graph \<Rightarrow> string set \<Rightarrow> string set \<Rightarrow> task_mutation list" where
  "newly_blocked g pending_overrides failed =
     concat (map (\<lambda>record.
       if td_id (tr_definition record) \<notin> failed \<and>
          (tr_status record = TsPending \<or> td_id (tr_definition record) \<in> pending_overrides)
       then (case find (\<lambda>dependency. dependency \<in> failed) (td_dependencies (tr_definition record)) of
               None \<Rightarrow> []
             | Some dependency \<Rightarrow>
                 [\<lparr>mu_id = td_id (tr_definition record), mu_status = TsBlocked (blocked_reason dependency),
                   mu_attempts = tr_attempts record, mu_attempt_binding = None\<rparr>])
       else []) (bm_values (tg_tasks g)))"

lemma newly_blocked_ids:
  "i \<in> mu_id ` set (newly_blocked g overrides failed) \<Longrightarrow>
   i \<in> (\<lambda>r. td_id (tr_definition r)) ` set (bm_values (tg_tasks g)) - failed"
  by (auto simp: newly_blocked_def split: if_splits option.splits)

function blocked_loop ::
  "task_graph \<Rightarrow> string set \<Rightarrow> string set \<Rightarrow> task_mutation list \<Rightarrow> task_mutation list" where
  "blocked_loop g pending_overrides failed mutations =
     (let new = newly_blocked g pending_overrides failed in
      if new = [] then mutations
      else blocked_loop g pending_overrides (failed \<union> mu_id ` set new) (mutations @ new))"
  by pat_completeness auto
termination
proof (relation "measure (\<lambda>(g, _, failed, _).
    card ((\<lambda>r. td_id (tr_definition r)) ` set (bm_values (tg_tasks g)) - failed))", simp, goal_cases)
  case (1 g overrides failed mutations new)
  let ?ids = "(\<lambda>r. td_id (tr_definition r)) ` set (bm_values (tg_tasks g))"
  from 1 obtain m where "m \<in> set new" by (meson list.set_sel(1))
  with 1 newly_blocked_ids have "mu_id m \<in> ?ids - failed" by blast
  with \<open>m \<in> set new\<close> have "?ids - (failed \<union> mu_id ` set new) \<subset> ?ids - failed" by blast
  then show ?case by (simp add: psubset_card_mono)
qed

definition blocked_mutations :: "task_graph \<Rightarrow> string set \<Rightarrow> string option \<Rightarrow> task_mutation list" where
  "blocked_mutations g pending_overrides additional_failed =
     (let failed = (\<lambda>r. td_id (tr_definition r)) `
        set (filter (\<lambda>r. ts_is_failed (tr_status r)) (bm_values (tg_tasks g))) in
      blocked_loop g pending_overrides
        (case additional_failed of None \<Rightarrow> failed | Some task_id \<Rightarrow> insert task_id failed) [])"

section \<open>Leases\<close>

definition current_lease ::
  "(string, task_record) btree_map \<Rightarrow> string \<Rightarrow> string \<Rightarrow> u64 \<Rightarrow> task_lease result" where
  "current_lease tasks task_id lease_id now_ms =
     and_then (ok_or (orch (O_no_task task_id)) (bm_get tasks task_id)) (\<lambda>record.
     case tr_status record of
       TsRunning lease \<Rightarrow>
         if tl_id lease \<noteq> lease_id then Inl (orch (O_stale_lease task_id))
         else if tl_expires_at_ms lease \<le> now_ms then Inl (orch (O_lease_expired task_id))
         else Inr lease
     | _ \<Rightarrow> Inl (orch (O_not_running task_id)))"

definition dependencies_completed :: "task_graph \<Rightarrow> task_record \<Rightarrow> bool" where
  "dependencies_completed g record \<longleftrightarrow>
     list_all (\<lambda>dependency. case bm_get (tg_tasks g) dependency of
         None \<Rightarrow> False
       | Some d \<Rightarrow> ts_is_completed (tr_status d)) (td_dependencies (tr_definition record))"

definition lease_expired :: "u64 \<Rightarrow> task_status \<Rightarrow> bool" where
  "lease_expired now_ms status \<longleftrightarrow>
     (case status of TsRunning lease \<Rightarrow> tl_expires_at_ms lease \<le> now_ms | _ \<Rightarrow> False)"

text \<open>\<open>sort_by\<close>: larger priorities first, then the identity.\<close>

definition claim_order :: "(int \<times> string) list \<Rightarrow> (int \<times> string) list" where
  "claim_order = sort_key (\<lambda>(priority, i). (- priority, i))"

definition claim_key :: "task_record \<Rightarrow> int \<times> string" where
  "claim_key record = (td_priority (tr_definition record), td_id (tr_definition record))"

definition ready_matching :: "task_graph \<Rightarrow> task_capability_set option \<Rightarrow> string list" where
  "ready_matching g worker_capabilities =
     map snd (claim_order (map claim_key (filter (\<lambda>record.
       tr_status record = TsPending \<and> dependencies_completed g record \<and>
       (case worker_capabilities of
          None \<Rightarrow> True
        | Some capabilities \<Rightarrow>
            capset_satisfies capabilities (td_required_capabilities (tr_definition record))))
       (bm_values (tg_tasks g)))))"

definition graph_ready :: "task_graph \<Rightarrow> string list" where
  "graph_ready g = ready_matching g None"

definition ready_for :: "task_graph \<Rightarrow> task_capability_set \<Rightarrow> string list" where
  "ready_for g worker_capabilities = ready_matching g (Some worker_capabilities)"

text \<open>The check that no Task claimable after maintenance has exhausted its attempt counter.\<close>

definition check_attempts ::
  "task_graph \<Rightarrow> u64 \<Rightarrow> task_capability_set \<Rightarrow> task_record \<Rightarrow> unit result" where
  "check_attempts g now_ms worker_capabilities record =
     (if (tr_status record = TsPending \<or> lease_expired now_ms (tr_status record)) \<and>
         capset_satisfies worker_capabilities (td_required_capabilities (tr_definition record)) \<and>
         dependencies_completed g record \<and> tr_attempts record = - 1
      then Inl (orch (O_attempts_exhausted (td_id (tr_definition record)))) else Inr ())"

definition expired_tasks :: "task_graph \<Rightarrow> u64 \<Rightarrow> string list" where
  "expired_tasks g now_ms =
     sort (remdups (map (\<lambda>r. td_id (tr_definition r))
       (filter (\<lambda>r. lease_expired now_ms (tr_status r)) (bm_values (tg_tasks g)))))"

definition claimable_tasks ::
  "task_graph \<Rightarrow> string set \<Rightarrow> string list \<Rightarrow> task_capability_set \<Rightarrow> usize \<Rightarrow> (int \<times> string) list" where
  "claimable_tasks g blocked_ids expired worker_capabilities maximum =
     take maximum (claim_order (map claim_key (filter (\<lambda>record.
       td_id (tr_definition record) \<notin> blocked_ids \<and>
       (tr_status record = TsPending \<or> td_id (tr_definition record) \<in> set expired) \<and>
       capset_satisfies worker_capabilities (td_required_capabilities (tr_definition record)) \<and>
       dependencies_completed g record) (bm_values (tg_tasks g)))))"

definition requeue_mutation :: "task_graph \<Rightarrow> task_mutation list \<Rightarrow> string \<Rightarrow> task_mutation list result" where
  "requeue_mutation g mutations task_id =
     and_then (ok_or (orch (O_task_disappeared task_id)) (bm_get (tg_tasks g) task_id)) (\<lambda>record.
     Inr (mutations @ [\<lparr>mu_id = task_id, mu_status = TsPending, mu_attempts = tr_attempts record,
       mu_attempt_binding = None\<rparr>]))"

text \<open>One claim: \<open>generate\<close> yields the identifier of the lease drawn for the claim of that rank.\<close>

definition claim_task ::
  "task_graph \<Rightarrow> string \<Rightarrow> u64 \<Rightarrow> u64 \<Rightarrow> execution_binding option \<Rightarrow> (nat \<Rightarrow> string) \<Rightarrow>
   task_mutation list \<times> task_claim list \<Rightarrow> string \<Rightarrow> (task_mutation list \<times> task_claim list) result" where
  "claim_task g owner now_ms expires_at_ms execution_binding generate = (\<lambda>(mutations, claims) task_id.
     and_then (ok_or (orch (O_task_disappeared task_id)) (bm_get (tg_tasks g) task_id)) (\<lambda>record.
     and_then (ok_or (orch (O_attempt_overflow task_id)) (checked_add (tr_attempts record) 1)) (\<lambda>attempts.
     let lease = \<lparr>tl_id = generate (length claims), tl_owner = owner, tl_attempt = attempts,
           tl_expires_at_ms = expires_at_ms\<rparr>;
         attempt_binding = map_option (\<lambda>b. \<lparr>ta_task_id = task_id, ta_lease_id = tl_id lease,
           ta_attempt = attempts, ta_claimed_by = owner, ta_claimed_at_ms = now_ms,
           ta_execution_binding = b\<rparr>) execution_binding in
     Inr (mutations @ [\<lparr>mu_id = task_id, mu_status = TsRunning lease, mu_attempts = attempts,
            mu_attempt_binding = attempt_binding\<rparr>],
          claims @ [\<lparr>cl_task = tr_definition record, cl_lease = lease,
            cl_execution_binding = execution_binding\<rparr>]))))"

definition claim_ready_governed ::
  "graph_env \<Rightarrow> task_graph \<Rightarrow> string \<Rightarrow> u64 \<Rightarrow> u64 \<Rightarrow> usize \<Rightarrow> execution_binding option \<Rightarrow>
   task_capability_set \<Rightarrow> (nat \<Rightarrow> string) \<Rightarrow> (task_graph \<times> task_claim list \<times> bool) result" where
  "claim_ready_governed env g owner now_ms lease_duration_ms maximum execution_binding
     worker_capabilities generate =
     and_then (validate_capability_name owner) (\<lambda>_.
     and_then (capset_validate worker_capabilities) (\<lambda>_.
     and_then (case execution_binding of
         None \<Rightarrow> Inr ()
       | Some b \<Rightarrow> binding_validate (ge_execution_binding env) b) (\<lambda>_.
     if lease_duration_ms = 0 \<or> \<not> (1 \<le> maximum \<and> maximum \<le> MAX_CLAIMS_PER_BATCH)
     then Inl (orch O_bad_claim_request)
     else
     and_then (ok_or (orch O_expiration_overflow) (checked_add now_ms lease_duration_ms)) (\<lambda>expires_at_ms.
     and_then (for_each (check_attempts g now_ms worker_capabilities) (bm_values (tg_tasks g))) (\<lambda>_.
     let expired = expired_tasks g now_ms;
         blocked = blocked_mutations g (set expired) None;
         blocked_ids = mu_id ` set blocked;
         ready = claimable_tasks g blocked_ids expired worker_capabilities maximum in
     if execution_binding = None \<and> list_ex (\<lambda>(_, task_id).
          list_ex (\<lambda>evidence. ta_task_id evidence = task_id) (tg_attempt_bindings g)) ready
     then Inl (orch O_governed_retry)
     else
     let selected = snd ` set ready in
     and_then (try_fold (requeue_mutation g) blocked
       (filter (\<lambda>i. i \<notin> selected \<and> i \<notin> blocked_ids) expired)) (\<lambda>mutations.
     and_then (try_fold (claim_task g owner now_ms expires_at_ms execution_binding generate)
       (mutations, []) (map snd ready)) (\<lambda>(mutations, claims).
     and_then (apply_task_mutations env g mutations) (\<lambda>g'.
     Inr (g', claims, mutations \<noteq> [])))))))))"

definition claim_ready_with_binding_and_capabilities ::
  "graph_env \<Rightarrow> task_graph \<Rightarrow> string \<Rightarrow> u64 \<Rightarrow> u64 \<Rightarrow> usize \<Rightarrow> execution_binding option \<Rightarrow>
   task_capability_set \<Rightarrow> (nat \<Rightarrow> string) \<Rightarrow> (task_graph \<times> task_claim list) result" where
  "claim_ready_with_binding_and_capabilities env g owner now_ms lease_duration_ms maximum execution_binding
     worker_capabilities generate =
     and_then (claim_ready_governed env g owner now_ms lease_duration_ms maximum execution_binding
       worker_capabilities generate) (\<lambda>(g', claims, _). Inr (g', claims))"

definition claim_ready ::
  "graph_env \<Rightarrow> task_graph \<Rightarrow> string \<Rightarrow> u64 \<Rightarrow> u64 \<Rightarrow> usize \<Rightarrow> (nat \<Rightarrow> string) \<Rightarrow>
   (task_graph \<times> task_claim list) result" where
  "claim_ready env g owner now_ms lease_duration_ms maximum generate =
     claim_ready_with_binding_and_capabilities env g owner now_ms lease_duration_ms maximum None [] generate"

definition claim_ready_with_capabilities ::
  "graph_env \<Rightarrow> task_graph \<Rightarrow> string \<Rightarrow> u64 \<Rightarrow> u64 \<Rightarrow> usize \<Rightarrow> task_capability_set \<Rightarrow>
   (nat \<Rightarrow> string) \<Rightarrow> (task_graph \<times> task_claim list) result" where
  "claim_ready_with_capabilities env g owner now_ms lease_duration_ms maximum worker_capabilities generate =
     claim_ready_with_binding_and_capabilities env g owner now_ms lease_duration_ms maximum None
       worker_capabilities generate"

definition claim_ready_with_binding ::
  "graph_env \<Rightarrow> task_graph \<Rightarrow> string \<Rightarrow> u64 \<Rightarrow> u64 \<Rightarrow> usize \<Rightarrow> execution_binding option \<Rightarrow>
   (nat \<Rightarrow> string) \<Rightarrow> (task_graph \<times> task_claim list) result" where
  "claim_ready_with_binding env g owner now_ms lease_duration_ms maximum execution_binding generate =
     claim_ready_with_binding_and_capabilities env g owner now_ms lease_duration_ms maximum execution_binding
       [] generate"

definition heartbeat ::
  "graph_env \<Rightarrow> task_graph \<Rightarrow> string \<Rightarrow> string \<Rightarrow> u64 \<Rightarrow> u64 \<Rightarrow> task_graph result" where
  "heartbeat env g task_id lease_id now_ms expires_at_ms =
     and_then (current_lease (tg_tasks g) task_id lease_id now_ms) (\<lambda>lease.
     if expires_at_ms \<le> now_ms \<or> expires_at_ms \<le> tl_expires_at_ms lease
     then Inl (orch O_heartbeat)
     else
     and_then (ok_or (orch (O_no_task task_id)) (bm_get (tg_tasks g) task_id)) (\<lambda>record.
     apply_task_mutations env g
       [\<lparr>mu_id = task_id, mu_status = TsRunning (lease\<lparr>tl_expires_at_ms := expires_at_ms\<rparr>),
         mu_attempts = tr_attempts record, mu_attempt_binding = None\<rparr>]))"

definition complete ::
  "graph_env \<Rightarrow> task_graph \<Rightarrow> string \<Rightarrow> string \<Rightarrow> u64 \<Rightarrow> task_completion \<Rightarrow> task_graph result" where
  "complete env g task_id lease_id now_ms completion =
     and_then (validate_completion task_id completion) (\<lambda>_.
     and_then (current_lease (tg_tasks g) task_id lease_id now_ms) (\<lambda>_.
     and_then (ok_or (orch (O_no_task task_id)) (bm_get (tg_tasks g) task_id)) (\<lambda>record.
     apply_task_mutations env g
       [\<lparr>mu_id = task_id, mu_status = TsCompleted completion,
         mu_attempts = tr_attempts record, mu_attempt_binding = None\<rparr>])))"

definition fail ::
  "graph_env \<Rightarrow> task_graph \<Rightarrow> string \<Rightarrow> string \<Rightarrow> u64 \<Rightarrow> string \<Rightarrow> task_graph result" where
  "fail env g task_id lease_id now_ms reason =
     and_then (validate_task_text reason) (\<lambda>_.
     and_then (current_lease (tg_tasks g) task_id lease_id now_ms) (\<lambda>_.
     and_then (ok_or (orch (O_no_task task_id)) (bm_get (tg_tasks g) task_id)) (\<lambda>record.
     apply_task_mutations env g
       (\<lparr>mu_id = task_id, mu_status = TsFailed reason, mu_attempts = tr_attempts record,
         mu_attempt_binding = None\<rparr> # blocked_mutations g {} (Some task_id)))))"

definition cancel :: "graph_env \<Rightarrow> task_graph \<Rightarrow> string \<Rightarrow> string \<Rightarrow> task_graph result" where
  "cancel env g task_id reason =
     and_then (validate_task_text reason) (\<lambda>_.
     and_then (ok_or (orch (O_no_task task_id)) (bm_get (tg_tasks g) task_id)) (\<lambda>record.
     if ts_is_terminal (tr_status record) then Inl (orch (O_already_terminal task_id))
     else apply_task_mutations env g
       (\<lparr>mu_id = task_id, mu_status = TsCancelled reason, mu_attempts = tr_attempts record,
         mu_attempt_binding = None\<rparr> # blocked_mutations g {} (Some task_id))))"

definition release_expired :: "graph_env \<Rightarrow> task_graph \<Rightarrow> u64 \<Rightarrow> (task_graph \<times> string list) result" where
  "release_expired env g now_ms =
     (let mutations = map (\<lambda>record. \<lparr>mu_id = td_id (tr_definition record), mu_status = TsPending,
            mu_attempts = tr_attempts record, mu_attempt_binding = None\<rparr>)
          (filter (\<lambda>record. lease_expired now_ms (tr_status record)) (bm_values (tg_tasks g))) in
      and_then (apply_task_mutations env g mutations) (\<lambda>g'. Inr (g', map mu_id mutations)))"

section \<open>Messages\<close>

definition send_message ::
  "graph_env \<Rightarrow> task_graph \<Rightarrow> string \<Rightarrow> string \<Rightarrow> string \<Rightarrow> u64 \<Rightarrow> string \<Rightarrow> (task_graph \<times> task_message) result"
where
  "send_message env g from_id to_id body created_at_ms generated =
     (if length (tg_messages g) \<ge> MAX_MESSAGES then Inl (orch O_too_many_messages)
      else if \<not> bm_contains (tg_tasks g) from_id \<or> \<not> bm_contains (tg_tasks g) to_id
      then Inl (orch O_message_endpoints)
      else if trim_is_empty body \<or> length body > MAX_MESSAGE_BYTES then Inl (orch O_bad_message)
      else
      and_then (ok_or (orch O_sequence_overflow) (checked_add (tg_next_message_sequence g) 1)) (\<lambda>next_sequence.
      let message = \<lparr>tm_id = generated, tm_sequence = tg_next_message_sequence g, tm_from = from_id,
            tm_to = to_id, tm_body = body, tm_created_at_ms = created_at_ms\<rparr> in
      and_then (message_materialization_charge env message) (\<lambda>c.
      and_then (checked_graph_charge_add (tg_charge g) c) (\<lambda>next_charge.
      and_then (validate_graph_charge next_charge) (\<lambda>_.
      Inr (g\<lparr>tg_next_message_sequence := next_sequence, tg_messages := tg_messages g @ [message],
             tg_charge := next_charge\<rparr>, message))))))"

definition messages_for :: "task_graph \<Rightarrow> string \<Rightarrow> task_message list" where
  "messages_for g task_id = filter (\<lambda>m. tm_to m = task_id) (tg_messages g)"

text \<open>The loop of \<open>messages_page_for\<close> over the matching messages; the flag is \<open>has_more\<close>.\<close>

fun fill_page ::
  "graph_env \<Rightarrow> usize \<Rightarrow> task_message list \<Rightarrow> usize \<Rightarrow> task_message list \<Rightarrow> (task_message list \<times> bool) result"
where
  "fill_page env limit page bytes [] = Inr (page, False)"
| "fill_page env limit page bytes (m # ms) =
     and_then (message_materialization_charge env m) (\<lambda>c.
     and_then (checked_graph_charge_add bytes c) (\<lambda>next_bytes.
     if length page = limit \<or> next_bytes > MAX_MESSAGE_PAGE_BYTES then Inr (page, True)
     else fill_page env limit (page @ [m]) next_bytes ms))"

definition messages_page_for ::
  "graph_env \<Rightarrow> task_graph \<Rightarrow> string \<Rightarrow> u64 \<Rightarrow> usize \<Rightarrow> task_message_page result" where
  "messages_page_for env g task_id after_sequence limit =
     (if \<not> bm_contains (tg_tasks g) task_id then Inl (orch (O_no_task task_id))
      else if \<not> (1 \<le> limit \<and> limit \<le> MAX_MESSAGE_PAGE_ITEMS) then Inl (orch O_page_limit)
      else
      and_then (fill_page env limit [] 0
        (filter (\<lambda>m. tm_to m = task_id \<and> tm_sequence m > after_sequence) (tg_messages g)))
        (\<lambda>(messages, has_more).
      Inr \<lparr>pg_messages = messages,
           pg_next_after_sequence = (if messages = [] then None else Some (tm_sequence (last messages))),
           pg_has_more = has_more\<rparr>))"

section \<open>Integrity of a stored graph\<close>

definition validate_execution_binding_tenant :: "task_graph \<Rightarrow> string option \<Rightarrow> unit result" where
  "validate_execution_binding_tenant g tenant =
     (case find (\<lambda>evidence. binding_tenant (ta_execution_binding evidence) \<noteq> tenant) (tg_attempt_bindings g) of
        Some evidence \<Rightarrow> Inl (orch (O_binding_tenant (ta_task_id evidence) (ta_attempt evidence)))
      | None \<Rightarrow> Inr ())"

definition validate_status :: "task_record \<Rightarrow> unit result" where
  "validate_status record =
     (case tr_status record of
        TsPending \<Rightarrow> Inr ()
      | TsRunning lease \<Rightarrow>
          and_then (validate_capability_name (tl_owner lease)) (\<lambda>_.
          if tr_attempts record = 0 \<or> tl_attempt lease \<noteq> tr_attempts record
          then Inl (orch (O_integrity (Lease_attempt_differs (td_id (tr_definition record))))) else Inr ())
      | TsCompleted completion \<Rightarrow> validate_completion (td_id (tr_definition record)) completion
      | TsFailed reason \<Rightarrow> validate_task_text reason
      | TsCancelled reason \<Rightarrow> validate_task_text reason
      | TsBlocked reason \<Rightarrow> validate_task_text reason)"

text \<open>The loop over the evidence: the lease identities and the attempts bound per Task so far.\<close>

definition validate_evidence ::
  "graph_env \<Rightarrow> task_graph \<Rightarrow> string set \<times> (string \<times> u32) set \<Rightarrow> task_attempt_binding \<Rightarrow>
   (string set \<times> (string \<times> u32) set) result" where
  "validate_evidence env g = (\<lambda>(lease_ids, attempts) evidence.
     and_then (validate_attempt_binding env evidence) (\<lambda>_.
     and_then (ok_or (orch (O_integrity (Binding_without_task (ta_task_id evidence))))
       (bm_get (tg_tasks g) (ta_task_id evidence))) (\<lambda>record.
     if ta_attempt evidence = 0 \<or> ta_attempt evidence > tr_attempts record
     then Inl (orch (O_integrity (Binding_exceeds_attempts (ta_task_id evidence))))
     else if ta_lease_id evidence \<in> lease_ids \<or> (ta_task_id evidence, ta_attempt evidence) \<in> attempts
     then Inl (orch (O_integrity Duplicate_evidence))
     else Inr (insert (ta_lease_id evidence) lease_ids,
               insert (ta_task_id evidence, ta_attempt evidence) attempts))))"

definition bound_attempts :: "task_graph \<Rightarrow> string \<Rightarrow> u32 list" where
  "bound_attempts g task_id =
     map ta_attempt (filter (\<lambda>evidence. ta_task_id evidence = task_id) (tg_attempt_bindings g))"

text \<open>
  Governed mode: from its first bound attempt on, every attempt of a Task is bound, and a running
  Task has the binding of its current lease.
\<close>

definition validate_governed :: "task_graph \<Rightarrow> task_record \<Rightarrow> unit result" where
  "validate_governed g record =
     (let i = td_id (tr_definition record); bound = bound_attempts g i in
      if bound = [] then Inr ()
      else if list_ex (\<lambda>attempt. of_nat attempt \<notin> set bound)
        [unat (Min (set bound))..<Suc (unat (tr_attempts record))]
      then Inl (orch (O_integrity (Unbound_attempt i)))
      else
        (case tr_status record of
           TsRunning lease \<Rightarrow>
             and_then (ok_or (orch (O_integrity (Running_without_binding i)))
               (find (\<lambda>evidence. ta_lease_id evidence = tl_id lease) (tg_attempt_bindings g))) (\<lambda>evidence.
             if ta_task_id evidence \<noteq> i \<or> ta_attempt evidence \<noteq> tl_attempt lease \<or>
                ta_claimed_by evidence \<noteq> tl_owner lease
             then Inl (orch (O_integrity Running_binding_differs)) else Inr ())
         | _ \<Rightarrow> Inr ()))"

definition validate_message ::
  "task_graph \<Rightarrow> nat \<times> string set \<Rightarrow> task_message \<Rightarrow> (nat \<times> string set) result" where
  "validate_message g = (\<lambda>(index, message_ids) message.
     and_then (ok_or (orch O_sequence_overflow)
       (Option.bind (u64_of_usize index) (\<lambda>n. checked_add n 1))) (\<lambda>expected.
     if tm_sequence message \<noteq> expected then Inl (orch (O_integrity Message_not_contiguous))
     else if tm_id message \<in> message_ids then Inl (orch (O_integrity (Duplicate_message (tm_id message))))
     else if \<not> bm_contains (tg_tasks g) (tm_from message) \<or> \<not> bm_contains (tg_tasks g) (tm_to message)
     then Inl (orch (O_integrity Message_without_task))
     else if trim_is_empty (tm_body message) \<or> length (tm_body message) > MAX_MESSAGE_BYTES
     then Inl (orch O_bad_message)
     else Inr (Suc index, insert (tm_id message) message_ids)))"

definition validate_integrity :: "graph_env \<Rightarrow> task_graph \<Rightarrow> unit result" where
  "validate_integrity env g =
     (if length (tg_tasks g) > MAX_TASKS then Inl (orch O_too_many_tasks)
      else
      and_then (for_each (\<lambda>(i, record).
          if i \<noteq> td_id (tr_definition record)
          then Inl (orch (O_integrity (Key_differs i (td_id (tr_definition record))))) else Inr ())
        (tg_tasks g)) (\<lambda>_.
      and_then (task_graph_new env (map tr_definition (bm_values (tg_tasks g)))) (\<lambda>_.
      and_then (for_each validate_status (bm_values (tg_tasks g))) (\<lambda>_.
      if length (tg_attempt_bindings g) > MAX_TASK_ATTEMPT_BINDINGS then Inl (orch O_too_many_bindings)
      else
      and_then (try_fold (validate_evidence env g) ({}, {}) (tg_attempt_bindings g)) (\<lambda>_.
      and_then (for_each (validate_governed g) (bm_values (tg_tasks g))) (\<lambda>_.
      if length (tg_messages g) > MAX_MESSAGES then Inl (orch O_too_many_messages)
      else
      and_then (try_fold (validate_message g) (0, {}) (tg_messages g)) (\<lambda>_.
      and_then (ok_or (orch O_sequence_overflow)
        (Option.bind (u64_of_usize (length (tg_messages g))) (\<lambda>n. checked_add n 1))) (\<lambda>expected_next.
      if tg_next_message_sequence g \<noteq> expected_next then Inl (orch (O_integrity Next_sequence_differs))
      else
      and_then (calculate_materialization_charge env g) (\<lambda>calculated.
      if calculated \<noteq> tg_charge g then Inl (orch O_charge_inconsistent) else Inr ())))))))))"

section \<open>The search finds every cycle, and only cycles\<close>

text \<open>\<open>(d, i)\<close> is in the relation when Task \<open>i\<close> names \<open>d\<close> as a dependency.\<close>

definition depends :: "(string, task_record) btree_map \<Rightarrow> (string \<times> string) set" where
  "depends tasks = {(d, i). \<exists>r. bm_get tasks i = Some r \<and> d \<in> set (td_dependencies (tr_definition r))}"

lemma dependsI: "bm_get tasks i = Some r \<Longrightarrow> d \<in> set (td_dependencies (tr_definition r)) \<Longrightarrow> (d, i) \<in> depends tasks"
  by (auto simp: depends_def)

lemma visit_accessible:
  shows "visit tasks visiting visited i = Inr visited' \<Longrightarrow> visited \<subseteq> Wellfounded.acc (depends tasks) \<Longrightarrow>
      insert i visited \<subseteq> visited' \<and> visited' \<subseteq> Wellfounded.acc (depends tasks)"
    and "visit_dependencies tasks visiting visited ds = Inr visited' \<Longrightarrow>
      visited \<subseteq> Wellfounded.acc (depends tasks) \<Longrightarrow>
      set ds \<union> visited \<subseteq> visited' \<and> visited' \<subseteq> Wellfounded.acc (depends tasks)"
proof (induction tasks visiting visited i and tasks visiting visited ds arbitrary: visited' and visited'
    rule: visit_visit_dependencies.induct)
  case (1 tasks visiting visited i)
  show ?case
  proof (cases "i \<in> visited")
    case False
    with "1.prems" obtain r w where r: "bm_get tasks i = Some r" and ni: "i \<notin> visiting"
      and w: "visit_dependencies tasks (insert i visiting) visited (td_dependencies (tr_definition r)) = Inr w"
      and v: "visited' = insert i w"
      by (auto simp: and_then_eq_Inr split: if_splits option.splits)
    have deps: "set (td_dependencies (tr_definition r)) \<union> visited \<subseteq> w" "w \<subseteq> Wellfounded.acc (depends tasks)"
      using "1.IH" [OF False ni r w "1.prems"(2)] by auto
    have "i \<in> Wellfounded.acc (depends tasks)"
      by (rule accI) (use deps r in \<open>auto simp: depends_def\<close>)
    with deps v show ?thesis by auto
  qed (use 1 in auto)
next
  case (3 tasks visiting visited d ds)
  from "3.prems" obtain w where w: "visit tasks visiting visited d = Inr w"
    and rest: "visit_dependencies tasks visiting w ds = Inr visited'"
    by (auto simp: and_then_eq_Inr)
  from "3.IH"(1) [OF w "3.prems"(2)] "3.IH"(2) [OF w rest] show ?case by auto
qed auto

lemma visit_finds_no_cycle:
  assumes closed: "\<forall>d i. (d, i) \<in> depends tasks \<longrightarrow> bm_contains tasks d"
    and acyclic: "acyclic (depends tasks)"
  shows "bm_contains tasks i \<Longrightarrow> \<forall>v\<in>visiting. (i, v) \<in> (depends tasks)\<^sup>+ \<Longrightarrow>
      \<exists>visited'. visit tasks visiting visited i = Inr visited'"
    and "\<forall>d\<in>set ds. bm_contains tasks d \<Longrightarrow> \<forall>d\<in>set ds. \<forall>v\<in>visiting. (d, v) \<in> (depends tasks)\<^sup>+ \<Longrightarrow>
      \<exists>visited'. visit_dependencies tasks visiting visited ds = Inr visited'"
  using assms
proof (induction tasks visiting visited i and tasks visiting visited ds
    rule: visit_visit_dependencies.induct)
  case (1 tasks visiting visited i)
  have ni: "i \<notin> visiting"
    using "1.prems" by (auto simp: acyclic_def)
  from "1.prems"(1) obtain r where r: "bm_get tasks i = Some r" by (auto simp: bm_contains_def)
  show ?case
  proof (cases "i \<in> visited")
    case False
    have "\<exists>w. visit_dependencies tasks (insert i visiting) visited (td_dependencies (tr_definition r)) = Inr w"
    proof (rule "1.IH" [OF False ni r])
      show "\<forall>d\<in>set (td_dependencies (tr_definition r)). bm_contains tasks d"
        using "1.prems"(3) dependsI [OF r] by blast
      show "\<forall>d\<in>set (td_dependencies (tr_definition r)). \<forall>v\<in>insert i visiting. (d, v) \<in> (depends tasks)\<^sup>+"
        using "1.prems"(2) dependsI [OF r] by (auto intro: trancl_into_trancl2)
    qed (use "1.prems" in auto)
    with False ni r show ?thesis by auto
  qed simp
next
  case (3 tasks visiting visited d ds)
  obtain w where w: "visit tasks visiting visited d = Inr w"
    using "3.IH"(1) "3.prems" by auto
  with "3.IH"(2) [OF w] "3.prems" show ?case by auto
qed auto

lemma acc_all_acyclic:
  assumes "\<And>i. i \<in> snd ` R \<Longrightarrow> i \<in> Wellfounded.acc R"
  shows "acyclic R"
proof -
  have "i \<in> Wellfounded.acc R" for i
  proof (cases "i \<in> snd ` R")
    case False
    then show ?thesis by (metis accI image_eqI snd_conv)
  qed (rule assms)
  then have "wf R" using acc_wfI by blast
  then show ?thesis by (rule wf_acyclic)
qed

lemma validate_acyclic_iff:
  assumes closed: "\<forall>d i. (d, i) \<in> depends tasks \<longrightarrow> bm_contains tasks d"
  shows "validate_acyclic tasks = Inr () \<longleftrightarrow> acyclic (depends tasks)"
proof
  assume "validate_acyclic tasks = Inr ()"
  then obtain visited where fold: "try_fold (visit tasks {}) {} (bm_keys tasks) = Inr visited"
    by (auto simp: validate_acyclic_def and_then_eq_Inr)
  then have "set (bm_keys tasks) \<subseteq> visited \<and> visited \<subseteq> Wellfounded.acc (depends tasks)"
  proof (induction rule: try_fold_prefix_induct)
    case (snoc xs x v v')
    from visit_accessible(1) [OF snoc.hyps(2)] snoc.IH show ?case by auto
  qed simp
  moreover have "snd ` depends tasks \<subseteq> set (bm_keys tasks)"
    by (force simp: depends_def bm_get_def bm_keys_def dest: map_of_SomeD)
  ultimately show "acyclic (depends tasks)" by (intro acc_all_acyclic) blast
next
  assume acyclic: "acyclic (depends tasks)"
  have "\<exists>v. try_fold (visit tasks {}) v0 is = Inr v" if "\<forall>i\<in>set is. bm_contains tasks i" for v0 "is"
    using that
  proof (induction "is" arbitrary: v0)
    case (Cons i "is")
    obtain w where "visit tasks {} v0 i = Inr w"
      using visit_finds_no_cycle(1) [OF closed acyclic, of i "{}"] Cons.prems by auto
    with Cons.IH [of w] Cons.prems show ?case by simp
  qed simp
  moreover have "\<forall>i\<in>set (bm_keys tasks). bm_contains tasks i"
    by (auto simp: bm_contains_def bm_get_def bm_keys_def map_of_eq_None_iff)
  ultimately show "validate_acyclic tasks = Inr ()"
    by (auto simp: validate_acyclic_def and_then_eq_Inr)
qed

section \<open>What a batch of mutations changes\<close>

fun mutate :: "task_mutation option \<Rightarrow> task_record \<Rightarrow> task_record" where
  "mutate None r = r"
| "mutate (Some m) r = r\<lparr>tr_status := mu_status m, tr_attempts := mu_attempts m\<rparr>"

definition mutation_of :: "task_mutation list \<Rightarrow> string \<Rightarrow> task_mutation option" where
  "mutation_of ms i = find (\<lambda>m. mu_id m = i) ms"

lemma foldl_commit_frame:
  "tg_messages (foldl commit_mutation g ms) = tg_messages g"
  "tg_next_message_sequence (foldl commit_mutation g ms) = tg_next_message_sequence g"
  "tg_charge (foldl commit_mutation g ms) = tg_charge g"
  "bm_keys (tg_tasks (foldl commit_mutation g ms)) = bm_keys (tg_tasks g)"
  "tg_attempt_bindings (foldl commit_mutation g ms) =
     tg_attempt_bindings g @ concat (map (\<lambda>m. case mu_attempt_binding m of None \<Rightarrow> [] | Some e \<Rightarrow> [e]) ms)"
  by (induction ms arbitrary: g) (simp_all add: commit_mutation_def)

lemma foldl_commit_get:
  "distinct (map mu_id ms) \<Longrightarrow>
   bm_get (tg_tasks (foldl commit_mutation g ms)) i = map_option (mutate (mutation_of ms i)) (bm_get (tg_tasks g) i)"
proof (induction ms arbitrary: g)
  case Nil
  then show ?case by (cases "bm_get (tg_tasks g) i") (simp_all add: mutation_of_def)
next
  case (Cons m ms)
  have "mutation_of ms (mu_id m) = None"
    using Cons.prems by (simp add: mutation_of_def find_None_iff) (metis image_eqI)
  with Cons show ?case
    by (cases "bm_get (tg_tasks g) i")
      (auto simp: commit_mutation_def bm_get_update mutation_of_def)
qed

text \<open>The evidence of a mutation agrees with the lease it records.\<close>

definition binding_matches :: "graph_env \<Rightarrow> task_mutation \<Rightarrow> task_attempt_binding \<Rightarrow> bool" where
  "binding_matches env m e \<longleftrightarrow> validate_attempt_binding env e = Inr () \<and>
     (\<exists>lease. mu_status m = TsRunning lease \<and> ta_task_id e = mu_id m \<and> ta_lease_id e = tl_id lease \<and>
       ta_attempt e = mu_attempts m \<and> tl_attempt lease = mu_attempts m \<and> ta_claimed_by e = tl_owner lease)"

lemma graph_charge_add_ok: "checked_graph_charge_add a b = Inr c \<longleftrightarrow> c = a + b \<and> a + b < 2 ^ 64"
  by (auto simp: checked_graph_charge_add_def usize_checked_add_def)

lemma check_mutation_ok:
  "check_mutation env g (seen, ids, c) m = Inr (seen', ids', c') \<longleftrightarrow>
     mu_id m \<notin> seen \<and> seen' = insert (mu_id m) seen \<and>
     (\<exists>r old new. bm_get (tg_tasks g) (mu_id m) = Some r \<and>
       task_materialization_charge env (mu_id m) r = Inr old \<and>
       task_materialization_charge_parts env (mu_id m) (tr_definition r) (mu_status m) (mu_attempts m) = Inr new \<and>
       old \<le> c \<and> c - old + new < 2 ^ 64 \<and>
       (case mu_attempt_binding m of
          None \<Rightarrow> ids' = ids \<and> c' = c - old + new
        | Some e \<Rightarrow> binding_matches env m e \<and> ta_lease_id e \<notin> ids \<and> ids' = insert (ta_lease_id e) ids \<and>
            (\<exists>b. attempt_binding_materialization_charge env e = Inr b \<and> c' = c - old + new + b \<and>
              c - old + new + b < 2 ^ 64)))"
proof (cases "mu_attempt_binding m")
  case None
  then show ?thesis
    by (auto simp: check_mutation_def and_then_eq_Inr ok_or_eq_Inr usize_checked_sub_def graph_charge_add_ok)
next
  case (Some e)
  then show ?thesis
    by (cases "mu_status m")
      (auto simp: check_mutation_def and_then_eq_Inr ok_or_eq_Inr usize_checked_sub_def graph_charge_add_ok
        binding_matches_def)
qed

lemma check_mutation_seen:
  assumes "try_fold (check_mutation env g) ({}, ids, c) ms = Inr (seen, ids', c')"
  shows "seen = mu_id ` set ms \<and> distinct (map mu_id ms) \<and> (\<forall>m\<in>set ms. bm_contains (tg_tasks g) (mu_id m))"
proof -
  have "fst s' = mu_id ` set ms \<and> distinct (map mu_id ms) \<and> (\<forall>m\<in>set ms. bm_contains (tg_tasks g) (mu_id m))"
    if "try_fold (check_mutation env g) ({}, ids, c) ms = Inr s'" for s'
    using that
  proof (induction rule: try_fold_prefix_induct)
    case (snoc ms m s s')
    then show ?case
      by (cases s; cases s') (auto simp: check_mutation_ok bm_contains_def)
  qed simp
  from this [OF assms] show ?thesis by simp
qed

lemma apply_task_mutations_ok:
  assumes "apply_task_mutations env g ms = Inr g'"
  shows "distinct (map mu_id ms)" "\<forall>m\<in>set ms. bm_contains (tg_tasks g) (mu_id m)"
    "bm_get (tg_tasks g') i = map_option (mutate (mutation_of ms i)) (bm_get (tg_tasks g) i)"
    "tg_messages g' = tg_messages g" "tg_next_message_sequence g' = tg_next_message_sequence g"
    "bm_keys (tg_tasks g') = bm_keys (tg_tasks g)"
    "tg_attempt_bindings g' =
     tg_attempt_bindings g @ concat (map (\<lambda>m. case mu_attempt_binding m of None \<Rightarrow> [] | Some e \<Rightarrow> [e]) ms)"
proof -
  from assms obtain seen ids' charge where
    fold: "try_fold (check_mutation env g) ({}, ta_lease_id ` set (tg_attempt_bindings g), tg_charge g) ms
      = Inr (seen, ids', charge)"
    and g': "g' = (foldl commit_mutation g ms)\<lparr>tg_charge := charge\<rparr>"
    by (auto simp: apply_task_mutations_def Let_def and_then_eq_Inr split: if_splits)
  from check_mutation_seen [OF fold] show dist: "distinct (map mu_id ms)"
    and "\<forall>m\<in>set ms. bm_contains (tg_tasks g) (mu_id m)" by auto
  from dist show "bm_get (tg_tasks g') i = map_option (mutate (mutation_of ms i)) (bm_get (tg_tasks g) i)"
    by (simp add: g' foldl_commit_get)
  show "tg_messages g' = tg_messages g" "tg_next_message_sequence g' = tg_next_message_sequence g"
    "bm_keys (tg_tasks g') = bm_keys (tg_tasks g)"
    "tg_attempt_bindings g' =
     tg_attempt_bindings g @ concat (map (\<lambda>m. case mu_attempt_binding m of None \<Rightarrow> [] | Some e \<Rightarrow> [e]) ms)"
    by (simp_all add: g' foldl_commit_frame)
qed

section \<open>Tasks under their own identity\<close>

text \<open>What \<open>TaskGraph::new\<close> builds and \<open>validate_integrity\<close> checks: every record under its identity.\<close>

definition keyed :: "task_graph \<Rightarrow> bool" where
  "keyed g \<longleftrightarrow> bm_wf (tg_tasks g) \<and> (\<forall>(i, r)\<in>set (tg_tasks g). td_id (tr_definition r) = i)"

lemma keyed_get_id: "keyed g \<Longrightarrow> bm_get (tg_tasks g) i = Some r \<Longrightarrow> td_id (tr_definition r) = i"
  by (auto simp: keyed_def bm.get_Some_iff)

lemma keyed_get:
  assumes "keyed g"
  shows "r \<in> set (bm_values (tg_tasks g)) \<longleftrightarrow> bm_get (tg_tasks g) (td_id (tr_definition r)) = Some r"
proof
  assume "r \<in> set (bm_values (tg_tasks g))"
  then obtain i where "bm_get (tg_tasks g) i = Some r"
    using assms bm_value_get [of "tg_tasks g" r] by (auto simp: keyed_def)
  with keyed_get_id [OF assms] show "bm_get (tg_tasks g) (td_id (tr_definition r)) = Some r" by simp
qed (rule bm_get_value)

lemma apply_task_mutations_keyed:
  assumes "apply_task_mutations env g ms = Inr g'" and "keyed g"
  shows "keyed g'"
proof -
  have wf: "bm_wf (tg_tasks g')"
    using assms apply_task_mutations_ok(6) [OF assms(1)] by (simp add: keyed_def bm_wf_def bm_keys_def)
  have def: "tr_definition (mutate m r) = tr_definition r" for m r by (cases m) simp_all
  have "td_id (tr_definition r) = i" if "bm_get (tg_tasks g') i = Some r" for i r
    using that assms(2) apply_task_mutations_ok(3) [OF assms(1), of i] by (auto simp: def dest: keyed_get_id)
  with wf show ?thesis by (auto simp: keyed_def bm.get_Some_iff [symmetric])
qed

lemma mutation_of_Some: "mutation_of ms i = Some m \<Longrightarrow> m \<in> set ms \<and> mu_id m = i"
  by (auto simp: mutation_of_def find_Some_iff)

lemma mutation_of_member:
  "distinct (map mu_id ms) \<Longrightarrow> m \<in> set ms \<Longrightarrow> mutation_of ms (mu_id m) = Some m"
  by (induction ms) (auto simp: mutation_of_def)

lemma mutation_of_None: "i \<notin> mu_id ` set ms \<Longrightarrow> mutation_of ms i = None"
  by (auto simp: mutation_of_def find_None_iff)

section \<open>Blocked dependents\<close>

lemma newly_blocked_member:
  assumes "m \<in> set (newly_blocked g overrides failed)"
  obtains r d where "r \<in> set (bm_values (tg_tasks g))" "mu_id m = td_id (tr_definition r)"
    "mu_id m \<notin> failed" "tr_status r = TsPending \<or> mu_id m \<in> overrides"
    "d \<in> set (td_dependencies (tr_definition r))" "d \<in> failed"
    "mu_status m = TsBlocked (blocked_reason d)" "mu_attempts m = tr_attempts r"
    "mu_attempt_binding m = None"
proof -
  let ?find = "\<lambda>r. find (\<lambda>dependency. dependency \<in> failed) (td_dependencies (tr_definition r))"
  from assms have "\<exists>r\<in>set (bm_values (tg_tasks g)).
      m \<in> set (if td_id (tr_definition r) \<notin> failed \<and> (tr_status r = TsPending \<or> td_id (tr_definition r) \<in> overrides)
       then (case ?find r of None \<Rightarrow> [] | Some d \<Rightarrow>
         [\<lparr>mu_id = td_id (tr_definition r), mu_status = TsBlocked (blocked_reason d),
           mu_attempts = tr_attempts r, mu_attempt_binding = None\<rparr>])
       else [])"
    by (simp only: newly_blocked_def set_concat set_map UN_iff bex_simps)
  then obtain r where r: "r \<in> set (bm_values (tg_tasks g))"
    and m: "m \<in> set (if td_id (tr_definition r) \<notin> failed \<and> (tr_status r = TsPending \<or> td_id (tr_definition r) \<in> overrides)
       then (case ?find r of None \<Rightarrow> [] | Some d \<Rightarrow>
         [\<lparr>mu_id = td_id (tr_definition r), mu_status = TsBlocked (blocked_reason d),
           mu_attempts = tr_attempts r, mu_attempt_binding = None\<rparr>])
       else [])" ..
  have c: "td_id (tr_definition r) \<notin> failed \<and> (tr_status r = TsPending \<or> td_id (tr_definition r) \<in> overrides)"
    using m by (simp only: list.set empty_iff simp_thms split: if_splits)
  with m obtain d where d: "?find r = Some d" by (cases "?find r") simp_all
  with m c have m: "m = \<lparr>mu_id = td_id (tr_definition r), mu_status = TsBlocked (blocked_reason d),
      mu_attempts = tr_attempts r, mu_attempt_binding = None\<rparr>" by simp
  from d have "d \<in> set (td_dependencies (tr_definition r))" "d \<in> failed"
    by (auto simp: find_Some_iff)
  with r c m show thesis using that [of r d] by simp
qed

lemma newly_blocked_complete:
  assumes "r \<in> set (bm_values (tg_tasks g))" "td_id (tr_definition r) \<notin> failed"
    "tr_status r = TsPending \<or> td_id (tr_definition r) \<in> overrides"
    "d \<in> set (td_dependencies (tr_definition r))" "d \<in> failed"
  shows "td_id (tr_definition r) \<in> mu_id ` set (newly_blocked g overrides failed)"
proof -
  obtain d' where "find (\<lambda>dependency. dependency \<in> failed) (td_dependencies (tr_definition r)) = Some d'"
    using assms(4,5) by (cases "find (\<lambda>dependency. dependency \<in> failed) (td_dependencies (tr_definition r))")
      (auto simp: find_None_iff)
  with assms(1-3) show ?thesis by (force simp: newly_blocked_def image_iff)
qed

text \<open>
  The Tasks that can never run: those that failed, and every waiting Task with a dependency that
  can never run.
\<close>

inductive_set doomed :: "task_graph \<Rightarrow> string set \<Rightarrow> string set \<Rightarrow> string set"
  for g overrides failed where
  base: "i \<in> failed \<Longrightarrow> i \<in> doomed g overrides failed"
| step: "r \<in> set (bm_values (tg_tasks g)) \<Longrightarrow>
    tr_status r = TsPending \<or> td_id (tr_definition r) \<in> overrides \<Longrightarrow>
    d \<in> set (td_dependencies (tr_definition r)) \<Longrightarrow> d \<in> doomed g overrides failed \<Longrightarrow>
    td_id (tr_definition r) \<in> doomed g overrides failed"

lemma doomed_grow:
  assumes "F \<subseteq> doomed g overrides failed"
  shows "doomed g overrides (failed \<union> F) = doomed g overrides failed"
proof (intro set_eqI iffI)
  fix i
  show "i \<in> doomed g overrides (failed \<union> F) \<Longrightarrow> i \<in> doomed g overrides failed"
    by (induction rule: doomed.induct) (use assms in \<open>auto intro: doomed.intros\<close>)
  show "i \<in> doomed g overrides failed \<Longrightarrow> i \<in> doomed g overrides (failed \<union> F)"
    by (induction rule: doomed.induct) (auto intro: doomed.intros)
qed

lemma newly_blocked_doomed: "mu_id ` set (newly_blocked g overrides failed) \<subseteq> doomed g overrides failed"
  by (auto elim!: newly_blocked_member intro: doomed.step [OF _ _ _ doomed.base])

lemma doomed_closed:
  assumes "newly_blocked g overrides failed = []"
  shows "doomed g overrides failed = failed"
proof
  show "doomed g overrides failed \<subseteq> failed"
  proof
    fix i
    assume "i \<in> doomed g overrides failed"
    then show "i \<in> failed"
    proof (induction rule: doomed.induct)
      case (step r d)
      then show ?case using newly_blocked_complete [of r g failed overrides d] assms by auto
    qed
  qed
qed (auto intro: doomed.base)

lemma blocked_loop_rec:
  "newly_blocked g overrides failed = [] \<Longrightarrow> blocked_loop g overrides failed ms = ms"
  "newly_blocked g overrides failed \<noteq> [] \<Longrightarrow> blocked_loop g overrides failed ms =
     blocked_loop g overrides (failed \<union> mu_id ` set (newly_blocked g overrides failed))
       (ms @ newly_blocked g overrides failed)"
  by (subst blocked_loop.simps, simp add: Let_def)+

declare blocked_loop.simps [simp del]

lemma blocked_loop_ids:
  "mu_id ` set (blocked_loop g overrides failed ms) = mu_id ` set ms \<union> (doomed g overrides failed - failed)"
proof (induction g overrides failed ms rule: blocked_loop.induct)
  case (1 g overrides failed ms)
  let ?new = "newly_blocked g overrides failed"
  show ?case
  proof (cases "?new = []")
    case True
    then show ?thesis by (simp add: doomed_closed blocked_loop_rec)
  next
    case False
    have "mu_id ` set ?new \<inter> failed = {}" using newly_blocked_ids by blast
    with 1 [OF refl False] False newly_blocked_doomed [of g overrides failed]
      doomed_grow [of "mu_id ` set ?new" g overrides failed]
    show ?thesis by (auto simp: image_Un blocked_loop_rec)
  qed
qed

lemma blocked_loop_induct:
  assumes "m \<in> set (blocked_loop g overrides failed ms)" and "\<And>m. m \<in> set ms \<Longrightarrow> P m"
    and "\<And>F m. m \<in> set (newly_blocked g overrides F) \<Longrightarrow> failed \<subseteq> F \<Longrightarrow> P m"
  shows "P m"
  using assms
proof (induction g overrides failed ms rule: blocked_loop.induct)
  case (1 g overrides failed ms)
  let ?new = "newly_blocked g overrides failed"
  show ?case
  proof (cases "?new = []")
    case False
    show ?thesis
      by (rule 1(1) [OF refl False])
        (use 1(2-) False in \<open>auto simp: blocked_loop_rec\<close>)
  qed (use 1 in \<open>auto simp: blocked_loop_rec\<close>)
qed

lemma distinct_concat_map:
  assumes "distinct (map k xs)" and "\<And>x. x \<in> set xs \<Longrightarrow> map f (h x) = [] \<or> map f (h x) = [k x]"
  shows "distinct (map f (concat (map h xs)))"
  using assms
proof (induction xs)
  case (Cons x xs)
  have sub: "set (map f (h y)) \<subseteq> {k y}" if "y \<in> set (x # xs)" for y
    using Cons.prems(2) [OF that] by auto
  then have "set (map f (concat (map h xs))) \<subseteq> k ` set xs" by auto
  moreover have "distinct (map f (h x))" using Cons.prems(2) [of x] by auto
  moreover have "distinct (map f (concat (map h xs)))" using Cons by simp
  moreover have "set (map f (h x)) \<inter> k ` set xs = {}" using sub [of x] Cons.prems(1) by auto
  ultimately show ?case by (simp only: list.map concat.simps map_append distinct_append) blast
qed simp

lemma newly_blocked_distinct: "keyed g \<Longrightarrow> distinct (map mu_id (newly_blocked g overrides failed))"
  unfolding newly_blocked_def
proof (rule distinct_concat_map [where k = "\<lambda>r. td_id (tr_definition r)"])
  assume "keyed g"
  moreover from this have "map (\<lambda>r. td_id (tr_definition r)) (bm_values (tg_tasks g)) = map fst (tg_tasks g)"
    by (auto simp: keyed_def bm_values_def)
  ultimately show "distinct (map (\<lambda>r. td_id (tr_definition r)) (bm_values (tg_tasks g)))"
    using bm.distinct_keys [of "tg_tasks g"] by (simp add: keyed_def)
qed (auto split: option.splits)

lemma blocked_loop_distinct:
  "keyed g \<Longrightarrow> distinct (map mu_id ms) \<Longrightarrow> mu_id ` set ms \<subseteq> failed \<Longrightarrow>
   distinct (map mu_id (blocked_loop g overrides failed ms))"
proof (induction g overrides failed ms rule: blocked_loop.induct)
  case (1 g overrides failed ms)
  let ?new = "newly_blocked g overrides failed"
  have "mu_id ` set ms \<inter> mu_id ` set ?new = {}"
    using newly_blocked_ids [of _ g overrides failed] "1.prems"(3) by blast
  with "1.prems" have "distinct (map mu_id (ms @ ?new))"
    using newly_blocked_distinct [of g overrides failed] by simp
  with 1 show ?case
    by (cases "?new = []") (auto simp: blocked_loop_rec)
qed

end
