(* ===== verification/Task_Steps.thy ===== *)
theory Task_Steps
  imports Task_Graph
begin

text \<open>
  The operations of the Task Graph as steps: when each succeeds, which Tasks it may change and how
  (\<open>task_move\<close>), what a claim selects, what a failure blocks, and how messages are paged.
  \<open>graph_step\<close> collects the operations of \<^verbatim>\<open>orchestration/mod.rs\<close>; its message rule assumes that the
  random message identifier is new, which is what \<open>TaskMessageId::generate\<close> is relied on for.
\<close>


section \<open>Leases are fences\<close>

definition task_held :: "(string, task_record) btree_map \<times> string \<Rightarrow> task_lease option" where
  "task_held = (\<lambda>(tasks, i). case bm_get tasks i of
     None \<Rightarrow> None
   | Some r \<Rightarrow> (case tr_status r of TsRunning l \<Rightarrow> Some l | _ \<Rightarrow> None))"

lemma task_held_iff:
  "task_held (tasks, i) = Some l \<longleftrightarrow> (\<exists>r. bm_get tasks i = Some r \<and> tr_status r = TsRunning l)"
  by (auto simp: task_held_def split: option.splits task_status.splits)

lemma current_lease_ok:
  "current_lease tasks i f now = Inr l \<longleftrightarrow>
     task_held (tasks, i) = Some l \<and> tl_id l = f \<and> now < tl_expires_at_ms l"
proof (cases "bm_get tasks i")
  case (Some r)
  then show ?thesis
    by (cases "tr_status r") (auto simp: current_lease_def task_held_def not_le)
qed (simp add: current_lease_def task_held_def)

interpretation task_fence: lease_fence
  "\<lambda>s f (_ :: unit) now. current_lease (fst s) (snd s) f now" task_held tl_id "\<lambda>_. ()" tl_expires_at_ms
  by unfold_locales (simp add: current_lease_ok)

section \<open>The life of one Task\<close>

text \<open>
  The moves a Task may make at time \<open>now\<close> in graph \<open>g\<close>. A Task is claimed when it waits, or when
  its last lease has run out, and only after its dependencies; each claim is a new attempt with a
  new lease. Only a live lease is extended or settled.
\<close>

inductive task_move :: "task_graph \<Rightarrow> u64 \<Rightarrow> task_record \<Rightarrow> task_record \<Rightarrow> bool" for g now where
  claim: "tr_status r = TsPending \<or> lease_expired now (tr_status r) \<Longrightarrow> dependencies_completed g r \<Longrightarrow>
    checked_add (tr_attempts r) 1 = Some (tl_attempt l) \<Longrightarrow> now < tl_expires_at_ms l \<Longrightarrow>
    validate_capability_name (tl_owner l) = Inr () \<Longrightarrow>
    task_move g now r (r\<lparr>tr_status := TsRunning l, tr_attempts := tl_attempt l\<rparr>)"
| heartbeat: "tr_status r = TsRunning l \<Longrightarrow> now < tl_expires_at_ms l \<Longrightarrow> tl_expires_at_ms l < t \<Longrightarrow>
    task_move g now r (r\<lparr>tr_status := TsRunning (l\<lparr>tl_expires_at_ms := t\<rparr>)\<rparr>)"
| complete: "tr_status r = TsRunning l \<Longrightarrow> now < tl_expires_at_ms l \<Longrightarrow>
    validate_completion (td_id (tr_definition r)) c = Inr () \<Longrightarrow>
    task_move g now r (r\<lparr>tr_status := TsCompleted c\<rparr>)"
| fail: "tr_status r = TsRunning l \<Longrightarrow> now < tl_expires_at_ms l \<Longrightarrow> validate_task_text reason = Inr () \<Longrightarrow>
    task_move g now r (r\<lparr>tr_status := TsFailed reason\<rparr>)"
| cancel: "\<not> ts_is_terminal (tr_status r) \<Longrightarrow> validate_task_text reason = Inr () \<Longrightarrow>
    task_move g now r (r\<lparr>tr_status := TsCancelled reason\<rparr>)"
| release: "lease_expired now (tr_status r) \<Longrightarrow> task_move g now r (r\<lparr>tr_status := TsPending\<rparr>)"
| block: "tr_status r = TsPending \<or> lease_expired now (tr_status r) \<Longrightarrow>
    d \<in> set (td_dependencies (tr_definition r)) \<Longrightarrow>
    task_move g now r (r\<lparr>tr_status := TsBlocked (blocked_reason d)\<rparr>)"

lemma task_move_definition: "task_move g now r r' \<Longrightarrow> tr_definition r' = tr_definition r"
  by (induction rule: task_move.induct) simp_all

lemma lease_expired_not_terminal: "lease_expired now s \<Longrightarrow> \<not> ts_is_terminal s"
  by (cases s) (simp_all add: lease_expired_def)

lemma task_move_not_terminal: "task_move g now r r' \<Longrightarrow> \<not> ts_is_terminal (tr_status r)"
  by (induction rule: task_move.induct) (auto dest: lease_expired_not_terminal)

lemma task_move_attempts: "task_move g now r r' \<Longrightarrow> tr_attempts r \<le> tr_attempts r'"
  by (induction rule: task_move.induct) (auto dest: checked_add_le)

text \<open>
  What every operation asks of \<open>apply_task_mutations\<close>: moves of existing Tasks, with evidence only
  for new attempts, and no unbound attempt of a Task that already has evidence.
\<close>

definition legal :: "u64 \<Rightarrow> task_graph \<Rightarrow> task_mutation \<Rightarrow> bool" where
  "legal now g m \<longleftrightarrow> (\<exists>r. bm_get (tg_tasks g) (mu_id m) = Some r \<and> task_move g now r (mutate (Some m) r) \<and>
     (if mu_attempts m = tr_attempts r then mu_attempt_binding m = None
      else mu_attempt_binding m = None \<longrightarrow> bound_attempts g (mu_id m) = []))"

lemma blocked_legal:
  assumes "keyed g" and "m \<in> set (blocked_mutations g overrides extra)"
    and "\<And>i r. bm_get (tg_tasks g) i = Some r \<Longrightarrow> i \<in> overrides \<Longrightarrow> lease_expired now (tr_status r)"
  shows "legal now g m"
proof -
  have "legal now g m'" if m': "m' \<in> set (newly_blocked g overrides F)" for F m'
    using m'
  proof (rule newly_blocked_member)
    fix r d
    assume a: "r \<in> set (bm_values (tg_tasks g))" "mu_id m' = td_id (tr_definition r)"
      "tr_status r = TsPending \<or> mu_id m' \<in> overrides" "d \<in> set (td_dependencies (tr_definition r))"
      "mu_status m' = TsBlocked (blocked_reason d)" "mu_attempts m' = tr_attempts r"
      "mu_attempt_binding m' = None"
    then have r: "bm_get (tg_tasks g) (mu_id m') = Some r" using keyed_get [OF assms(1), of r] by simp
    with a assms(3) have "tr_status r = TsPending \<or> lease_expired now (tr_status r)" by blast
    from task_move.block [OF this a(4), of g] r a show ?thesis by (simp add: legal_def)
  qed
  with assms(2) show ?thesis
    by (auto simp: blocked_mutations_def Let_def elim: blocked_loop_induct [where P = "legal now g"])
qed

section \<open>When an operation succeeds\<close>

definition settled :: "task_record \<Rightarrow> string \<Rightarrow> task_status \<Rightarrow> task_mutation" where
  "settled r i s = \<lparr>mu_id = i, mu_status = s, mu_attempts = tr_attempts r, mu_attempt_binding = None\<rparr>"

lemma heartbeat_ok:
  "heartbeat env g i f now t = Inr g' \<longleftrightarrow>
     (\<exists>r l. bm_get (tg_tasks g) i = Some r \<and> tr_status r = TsRunning l \<and> tl_id l = f \<and>
       now < tl_expires_at_ms l \<and> tl_expires_at_ms l < t \<and>
       apply_task_mutations env g [settled r i (TsRunning (l\<lparr>tl_expires_at_ms := t\<rparr>))] = Inr g')"
  by (auto simp: heartbeat_def and_then_eq_Inr ok_or_eq_Inr current_lease_ok task_held_iff settled_def not_le)

lemma complete_ok:
  "complete env g i f now c = Inr g' \<longleftrightarrow> validate_completion i c = Inr () \<and>
     (\<exists>r l. bm_get (tg_tasks g) i = Some r \<and> tr_status r = TsRunning l \<and> tl_id l = f \<and>
       now < tl_expires_at_ms l \<and> apply_task_mutations env g [settled r i (TsCompleted c)] = Inr g')"
  by (auto simp: complete_def and_then_eq_Inr ok_or_eq_Inr current_lease_ok task_held_iff settled_def)

lemma fail_ok:
  "fail env g i f now reason = Inr g' \<longleftrightarrow> validate_task_text reason = Inr () \<and>
     (\<exists>r l. bm_get (tg_tasks g) i = Some r \<and> tr_status r = TsRunning l \<and> tl_id l = f \<and>
       now < tl_expires_at_ms l \<and>
       apply_task_mutations env g (settled r i (TsFailed reason) # blocked_mutations g {} (Some i)) = Inr g')"
  by (auto simp: fail_def and_then_eq_Inr ok_or_eq_Inr current_lease_ok task_held_iff settled_def)

lemma cancel_ok:
  "cancel env g i reason = Inr g' \<longleftrightarrow> validate_task_text reason = Inr () \<and>
     (\<exists>r. bm_get (tg_tasks g) i = Some r \<and> \<not> ts_is_terminal (tr_status r) \<and>
       apply_task_mutations env g (settled r i (TsCancelled reason) # blocked_mutations g {} (Some i)) = Inr g')"
  by (auto simp: cancel_def and_then_eq_Inr ok_or_eq_Inr settled_def)

lemma release_expired_ok:
  "release_expired env g now = Inr (g', is) \<longleftrightarrow>
     (let rs = filter (\<lambda>r. lease_expired now (tr_status r)) (bm_values (tg_tasks g)) in
      is = map (\<lambda>r. td_id (tr_definition r)) rs \<and>
      apply_task_mutations env g (map (\<lambda>r. settled r (td_id (tr_definition r)) TsPending) rs) = Inr g')"
  by (auto simp: release_expired_def Let_def and_then_eq_Inr settled_def comp_def)

lemma settled_legal:
  "bm_get (tg_tasks g) i = Some r \<Longrightarrow> task_move g now r (r\<lparr>tr_status := s\<rparr>) \<Longrightarrow> legal now g (settled r i s)"
  by (simp add: legal_def settled_def)

lemma heartbeat_legal:
  assumes "bm_get (tg_tasks g) i = Some r" "tr_status r = TsRunning l" "now < tl_expires_at_ms l"
    "tl_expires_at_ms l < t"
  shows "legal now g (settled r i (TsRunning (l\<lparr>tl_expires_at_ms := t\<rparr>)))"
  by (rule settled_legal) (use assms task_move.heartbeat in auto)

lemma complete_legal:
  assumes "keyed g" "bm_get (tg_tasks g) i = Some r" "tr_status r = TsRunning l" "now < tl_expires_at_ms l"
    "validate_completion i c = Inr ()"
  shows "legal now g (settled r i (TsCompleted c))"
  by (rule settled_legal [OF assms(2)], rule task_move.complete) (use assms keyed_get_id in auto)

lemma release_legal:
  assumes "keyed g" "bm_get (tg_tasks g) i = Some r" "lease_expired now (tr_status r)"
  shows "legal now g (settled r i TsPending)"
  by (rule settled_legal) (use assms task_move.release in auto)

lemma fail_legal:
  assumes "bm_get (tg_tasks g) i = Some r" "tr_status r = TsRunning l" "now < tl_expires_at_ms l"
    "validate_task_text reason = Inr ()"
  shows "legal now g (settled r i (TsFailed reason))"
  by (rule settled_legal) (use assms task_move.fail in auto)

lemma cancel_legal:
  assumes "bm_get (tg_tasks g) i = Some r" "\<not> ts_is_terminal (tr_status r)" "validate_task_text reason = Inr ()"
  shows "legal now g (settled r i (TsCancelled reason))"
  by (rule settled_legal) (use assms task_move.cancel in auto)

text \<open>The mutations and claims of \<open>claim_ready_governed\<close>.\<close>

lemma expired_tasks_iff:
  "keyed g \<Longrightarrow> i \<in> set (expired_tasks g now) \<longleftrightarrow>
     (\<exists>r. bm_get (tg_tasks g) i = Some r \<and> lease_expired now (tr_status r))"
  by (force simp: expired_tasks_def keyed_get dest: keyed_get_id)

lemma requeue_ok:
  assumes "try_fold (requeue_mutation g) ms is = Inr ms'"
  shows "ms' = ms @ map (\<lambda>i. settled (the (bm_get (tg_tasks g) i)) i TsPending) is \<and>
    (\<forall>i\<in>set is. bm_contains (tg_tasks g) i)"
  using assms
  by (induction rule: try_fold_prefix_induct)
    (auto simp: requeue_mutation_def and_then_eq_Inr ok_or_eq_Inr settled_def bm_contains_def)

definition claim_lease :: "task_graph \<Rightarrow> string \<Rightarrow> u64 \<Rightarrow> string \<Rightarrow> string \<Rightarrow> task_lease" where
  "claim_lease g owner expires_at_ms lease_id i =
     \<lparr>tl_id = lease_id, tl_owner = owner, tl_attempt = tr_attempts (the (bm_get (tg_tasks g) i)) + 1,
      tl_expires_at_ms = expires_at_ms\<rparr>"

definition claim_mutation ::
  "task_graph \<Rightarrow> string \<Rightarrow> u64 \<Rightarrow> u64 \<Rightarrow> execution_binding option \<Rightarrow> string \<Rightarrow> string \<Rightarrow> task_mutation" where
  "claim_mutation g owner now_ms expires_at_ms execution_binding lease_id i =
     (let lease = claim_lease g owner expires_at_ms lease_id i in
      \<lparr>mu_id = i, mu_status = TsRunning lease, mu_attempts = tl_attempt lease,
       mu_attempt_binding = map_option (\<lambda>b. \<lparr>ta_task_id = i, ta_lease_id = tl_id lease,
         ta_attempt = tl_attempt lease, ta_claimed_by = owner, ta_claimed_at_ms = now_ms,
         ta_execution_binding = b\<rparr>) execution_binding\<rparr>)"

definition claim_of ::
  "task_graph \<Rightarrow> string \<Rightarrow> u64 \<Rightarrow> execution_binding option \<Rightarrow> string \<Rightarrow> string \<Rightarrow> task_claim" where
  "claim_of g owner expires_at_ms execution_binding lease_id i =
     \<lparr>cl_task = tr_definition (the (bm_get (tg_tasks g) i)),
      cl_lease = claim_lease g owner expires_at_ms lease_id i, cl_execution_binding = execution_binding\<rparr>"

lemma claim_tasks_ok:
  assumes "try_fold (claim_task g owner now e b generate) (ms, []) is = Inr (ms', claims)"
  shows "ms' = ms @ map2 (claim_mutation g owner now e b) (map generate [0..<length is]) is"
    and "claims = map2 (claim_of g owner e b) (map generate [0..<length is]) is"
    and "\<forall>i\<in>set is. \<exists>r. bm_get (tg_tasks g) i = Some r \<and>
      checked_add (tr_attempts r) 1 = Some (tr_attempts r + 1)"
proof -
  have "fst s = ms @ map2 (claim_mutation g owner now e b) (map generate [0..<length is]) is \<and>
      snd s = map2 (claim_of g owner e b) (map generate [0..<length is]) is \<and>
      (\<forall>i\<in>set is. \<exists>r. bm_get (tg_tasks g) i = Some r \<and>
        checked_add (tr_attempts r) 1 = Some (tr_attempts r + 1))"
    if "try_fold (claim_task g owner now e b generate) (ms, []) is = Inr s" for s
    using that
  proof (induction rule: try_fold_prefix_induct)
    case (snoc "is" i s s')
    have add: "a = c + 1" if "checked_add c 1 = Some a" for a c :: u32
      using that by (auto simp: checked_add_def split: if_splits)
    from snoc show ?case
      by (cases s; cases s')
        (auto simp: claim_task_def and_then_eq_Inr ok_or_eq_Inr claim_mutation_def claim_of_def claim_lease_def
          Let_def dest: add)
  qed simp
  from this [OF assms] show
    "ms' = ms @ map2 (claim_mutation g owner now e b) (map generate [0..<length is]) is"
    "claims = map2 (claim_of g owner e b) (map generate [0..<length is]) is"
    "\<forall>i\<in>set is. \<exists>r. bm_get (tg_tasks g) i = Some r \<and>
      checked_add (tr_attempts r) 1 = Some (tr_attempts r + 1)" by simp_all
qed

lemma claimable_member:
  assumes "keyed g" "i \<in> snd ` set (claimable_tasks g blocked expired worker maximum)"
  obtains r where "bm_get (tg_tasks g) i = Some r" "i \<notin> blocked" "tr_status r = TsPending \<or> i \<in> set expired"
    "capset_satisfies worker (td_required_capabilities (tr_definition r))" "dependencies_completed g r"
proof -
  from assms(2) obtain p where "(p, i) \<in> set (claimable_tasks g blocked expired worker maximum)" by auto
  then obtain r where "r \<in> set (bm_values (tg_tasks g))" "i = td_id (tr_definition r)" "i \<notin> blocked"
    "tr_status r = TsPending \<or> i \<in> set expired" "dependencies_completed g r"
    "capset_satisfies worker (td_required_capabilities (tr_definition r))"
    by (auto simp: claimable_tasks_def claim_order_def claim_key_def dest!: in_set_takeD)
  with keyed_get [OF assms(1), of r] show thesis by (intro that [of r]) simp_all
qed

lemma list_ex_bound_attempts:
  "list_ex (\<lambda>e. ta_task_id e = i) (tg_attempt_bindings g) \<longleftrightarrow> bound_attempts g i \<noteq> []"
  by (auto simp: list_ex_iff bound_attempts_def filter_empty_conv)

definition claim_mutations ::
  "task_graph \<Rightarrow> string \<Rightarrow> u64 \<Rightarrow> u64 \<Rightarrow> execution_binding option \<Rightarrow> (nat \<Rightarrow> string) \<Rightarrow> string list \<Rightarrow>
   string list \<Rightarrow> task_mutation list" where
  "claim_mutations g owner now_ms expires_at_ms b generate requeued ready =
     blocked_mutations g (set (expired_tasks g now_ms)) None @
     map (\<lambda>i. settled (the (bm_get (tg_tasks g) i)) i TsPending) requeued @
     map2 (claim_mutation g owner now_ms expires_at_ms b) (map generate [0..<length ready]) ready"

definition claim_selection :: "task_graph \<Rightarrow> u64 \<Rightarrow> task_capability_set \<Rightarrow> usize \<Rightarrow> string list" where
  "claim_selection g now_ms worker maximum =
     map snd (claimable_tasks g (mu_id ` set (blocked_mutations g (set (expired_tasks g now_ms)) None))
       (expired_tasks g now_ms) worker maximum)"

definition claim_requeued :: "task_graph \<Rightarrow> u64 \<Rightarrow> task_capability_set \<Rightarrow> usize \<Rightarrow> string list" where
  "claim_requeued g now_ms worker maximum =
     filter (\<lambda>i. i \<notin> set (claim_selection g now_ms worker maximum) \<and>
       i \<notin> mu_id ` set (blocked_mutations g (set (expired_tasks g now_ms)) None)) (expired_tasks g now_ms)"

lemma claim_ready_governed_ok:
  assumes "claim_ready_governed env g owner now duration maximum b worker generate = Inr (g', claims, changed)"
  obtains e where "validate_capability_name owner = Inr ()" "duration \<noteq> 0" "1 \<le> maximum"
    "maximum \<le> MAX_CLAIMS_PER_BATCH" "checked_add now duration = Some e"
    "b = None \<Longrightarrow> \<forall>i\<in>set (claim_selection g now worker maximum). bound_attempts g i = []"
    "\<forall>i\<in>set (claim_selection g now worker maximum). \<exists>r. bm_get (tg_tasks g) i = Some r \<and>
      checked_add (tr_attempts r) 1 = Some (tr_attempts r + 1)"
    "apply_task_mutations env g (claim_mutations g owner now e b generate
      (claim_requeued g now worker maximum) (claim_selection g now worker maximum)) = Inr g'"
    "claims = map2 (claim_of g owner e b)
      (map generate [0..<length (claim_selection g now worker maximum)]) (claim_selection g now worker maximum)"
proof -
  define expired where "expired = expired_tasks g now"
  define blocked where "blocked = blocked_mutations g (set expired) None"
  define ready where "ready = claimable_tasks g (mu_id ` set blocked) expired worker maximum"
  have sel: "map snd ready = claim_selection g now worker maximum"
    by (simp add: ready_def blocked_def expired_def claim_selection_def)
  have req: "filter (\<lambda>i. i \<notin> snd ` set ready \<and> i \<notin> mu_id ` set blocked) expired =
      claim_requeued g now worker maximum"
    by (simp add: claim_requeued_def sel [symmetric] blocked_def expired_def)
  from assms obtain e ms ms' where *: "validate_capability_name owner = Inr ()" "duration \<noteq> 0" "1 \<le> maximum"
    "maximum \<le> MAX_CLAIMS_PER_BATCH" "checked_add now duration = Some e"
    and gov: "\<not> (b = None \<and> list_ex (\<lambda>(_, i). list_ex (\<lambda>e. ta_task_id e = i) (tg_attempt_bindings g)) ready)"
    and ms: "try_fold (requeue_mutation g) blocked (claim_requeued g now worker maximum) = Inr ms"
    and ms': "try_fold (claim_task g owner now e b generate) (ms, []) (map snd ready) = Inr (ms', claims)"
    and app: "apply_task_mutations env g ms' = Inr g'"
    unfolding claim_ready_governed_def Let_def expired_def [symmetric] blocked_def [symmetric]
      ready_def [symmetric] req
    by (auto simp: and_then_eq_Inr ok_or_eq_Inr simp del: de_Morgan_conj split: if_splits)
  from gov have "b = None \<Longrightarrow> \<forall>i\<in>set (claim_selection g now worker maximum). bound_attempts g i = []"
    by (auto simp: sel [symmetric] list_ex_bound_attempts) (auto simp: list_ex_iff)
  moreover from requeue_ok [OF ms] claim_tasks_ok [OF ms'] app have
    "apply_task_mutations env g (claim_mutations g owner now e b generate
      (claim_requeued g now worker maximum) (claim_selection g now worker maximum)) = Inr g'"
    by (simp add: claim_mutations_def sel [symmetric] blocked_def expired_def)
  ultimately show thesis
    using that [OF *] claim_tasks_ok [OF ms'] unfolding sel by blast
qed

lemma claim_mutation_legal:
  assumes "keyed g" "bm_get (tg_tasks g) i = Some r" "tr_status r = TsPending \<or> lease_expired now (tr_status r)"
    "dependencies_completed g r" "checked_add (tr_attempts r) 1 = Some (tr_attempts r + 1)" "now < e"
    "validate_capability_name owner = Inr ()" "b = None \<Longrightarrow> bound_attempts g i = []"
  shows "legal now g (claim_mutation g owner now e b f i)"
proof -
  have "task_move g now r (r\<lparr>tr_status := TsRunning (claim_lease g owner e f i),
      tr_attempts := tl_attempt (claim_lease g owner e f i)\<rparr>)"
    by (rule task_move.claim) (use assms in \<open>simp_all add: claim_lease_def\<close>)
  moreover have "tr_attempts r + 1 \<noteq> tr_attempts r" by simp
  ultimately show ?thesis
    using assms by (cases b) (auto simp: legal_def claim_mutation_def claim_lease_def Let_def)
qed

lemma claim_mutations_legal:
  assumes "keyed g" and "validate_capability_name owner = Inr ()" and "now < e"
    and "b = None \<Longrightarrow> \<forall>i\<in>set (claim_selection g now worker maximum). bound_attempts g i = []"
    and "\<forall>i\<in>set (claim_selection g now worker maximum). \<exists>r. bm_get (tg_tasks g) i = Some r \<and>
      checked_add (tr_attempts r) 1 = Some (tr_attempts r + 1)"
    and m: "m \<in> set (claim_mutations g owner now e b generate
      (claim_requeued g now worker maximum) (claim_selection g now worker maximum))"
  shows "legal now g m"
proof -
  let ?ready = "claim_selection g now worker maximum"
  from m consider (blocked) "m \<in> set (blocked_mutations g (set (expired_tasks g now)) None)"
    | (requeued) i where "m = settled (the (bm_get (tg_tasks g) i)) i TsPending" "i \<in> set (expired_tasks g now)"
    | (claimed) i f where "m = claim_mutation g owner now e b f i" "i \<in> set ?ready"
    by (fastforce simp: claim_mutations_def claim_requeued_def dest: set_zip_rightD)
  then show ?thesis
  proof cases
    case blocked
    with assms(1) show ?thesis by (rule blocked_legal) (use expired_tasks_iff [OF assms(1)] in auto)
  next
    case requeued
    with expired_tasks_iff [OF assms(1)] release_legal [OF assms(1)] show ?thesis by auto
  next
    case claimed
    then obtain r where r: "bm_get (tg_tasks g) i = Some r"
      "tr_status r = TsPending \<or> i \<in> set (expired_tasks g now)" "dependencies_completed g r"
      unfolding claim_selection_def set_map by (elim claimable_member [OF assms(1)])
    with expired_tasks_iff [OF assms(1)] have "tr_status r = TsPending \<or> lease_expired now (tr_status r)" by auto
    with r claimed assms show ?thesis
      unfolding claimed(1) by (intro claim_mutation_legal) auto
  qed
qed

section \<open>The operations as steps\<close>

inductive graph_step :: "graph_env \<Rightarrow> u64 \<Rightarrow> task_graph \<Rightarrow> task_graph \<Rightarrow> bool" for env now where
  claim: "claim_ready_governed env g owner now duration maximum b worker generate = Inr (g', claims, changed) \<Longrightarrow>
    graph_step env now g g'"
| heartbeat: "heartbeat env g i f now t = Inr g' \<Longrightarrow> graph_step env now g g'"
| complete: "complete env g i f now c = Inr g' \<Longrightarrow> graph_step env now g g'"
| fail: "fail env g i f now reason = Inr g' \<Longrightarrow> graph_step env now g g'"
| cancel: "cancel env g i reason = Inr g' \<Longrightarrow> graph_step env now g g'"
| release: "release_expired env g now = Inr (g', is) \<Longrightarrow> graph_step env now g g'"
| message: "send_message env g from_id to_id body now new_id = Inr (g', message) \<Longrightarrow>
    new_id \<notin> tm_id ` set (tg_messages g) \<Longrightarrow> graph_step env now g g'"

lemma graph_step_mutates:
  assumes "graph_step env now g g'" and "keyed g"
  shows "(\<exists>ms. apply_task_mutations env g ms = Inr g' \<and> (\<forall>m\<in>set ms. legal now g m)) \<or>
    (\<exists>from_id to_id body new_id message. send_message env g from_id to_id body now new_id = Inr (g', message) \<and>
      new_id \<notin> tm_id ` set (tg_messages g))"
  using assms
proof (induction rule: graph_step.induct)
  case (claim g owner duration maximum b worker generate g' claims changed)
  from claim(1) show ?case
  proof (rule claim_ready_governed_ok)
    fix e
    assume a: "validate_capability_name owner = Inr ()" "duration \<noteq> 0" "checked_add now duration = Some e"
      "b = None \<Longrightarrow> \<forall>i\<in>set (claim_selection g now worker maximum). bound_attempts g i = []"
      "\<forall>i\<in>set (claim_selection g now worker maximum). \<exists>r. bm_get (tg_tasks g) i = Some r \<and>
        checked_add (tr_attempts r) 1 = Some (tr_attempts r + 1)"
      "apply_task_mutations env g (claim_mutations g owner now e b generate
        (claim_requeued g now worker maximum) (claim_selection g now worker maximum)) = Inr g'"
    then have "now < e" using checked_add_less by blast
    with a claim(2) claim_mutations_legal show ?thesis by blast
  qed
next
  case (heartbeat g i f t g')
  then show ?case unfolding heartbeat_ok by (metis heartbeat_legal list.set(1,2) insert_iff empty_iff)
next
  case (complete g i f c g')
  then show ?case unfolding complete_ok by (metis complete_legal list.set(1,2) insert_iff empty_iff)
next
  case (fail g i f reason g')
  then show ?case unfolding fail_ok
    by (metis fail_legal blocked_legal [where overrides = "{}"] empty_iff list.set_intros set_ConsD)
next
  case (cancel g i reason g')
  then show ?case unfolding cancel_ok
    by (metis cancel_legal blocked_legal [where overrides = "{}"] empty_iff set_ConsD)
next
  case (release g g' "is")
  have legal: "legal now g (settled r (td_id (tr_definition r)) TsPending)"
    if "r \<in> set (bm_values (tg_tasks g))" "lease_expired now (tr_status r)" for r
    using that release(2) keyed_get [OF release(2), of r] by (intro release_legal) auto
  from release(1) have app: "apply_task_mutations env g
      (map (\<lambda>r. settled r (td_id (tr_definition r)) TsPending)
        (filter (\<lambda>r. lease_expired now (tr_status r)) (bm_values (tg_tasks g)))) = Inr g'"
    by (simp add: release_expired_ok Let_def)
  show ?case by (intro disjI1 exI conjI, rule app) (auto intro: legal)
qed blast

lemma validate_graph_charge_ok: "validate_graph_charge c = Inr u \<longleftrightarrow> c \<le> MAX_TASK_GRAPH_JSON_BYTES"
  by (simp add: validate_graph_charge_def)

lemma graph_charge_limit: "c \<le> MAX_TASK_GRAPH_JSON_BYTES \<Longrightarrow> c < 2 ^ 64"
  by (simp add: MAX_TASK_GRAPH_JSON_BYTES_def)

lemma send_message_ok:
  "send_message env g from_id to_id body now new_id = Inr (g', m) \<longleftrightarrow>
     length (tg_messages g) < MAX_MESSAGES \<and> bm_contains (tg_tasks g) from_id \<and> bm_contains (tg_tasks g) to_id \<and>
     \<not> trim_is_empty body \<and> length body \<le> MAX_MESSAGE_BYTES \<and>
     m = \<lparr>tm_id = new_id, tm_sequence = tg_next_message_sequence g, tm_from = from_id, tm_to = to_id,
       tm_body = body, tm_created_at_ms = now\<rparr> \<and>
     (\<exists>n c. checked_add (tg_next_message_sequence g) 1 = Some n \<and> message_materialization_charge env m = Inr c \<and>
       tg_charge g + c \<le> MAX_TASK_GRAPH_JSON_BYTES \<and>
       g' = g\<lparr>tg_next_message_sequence := n, tg_messages := tg_messages g @ [m], tg_charge := tg_charge g + c\<rparr>)"
  unfolding send_message_def Let_def
  by (auto simp: and_then_eq_Inr ok_or_eq_Inr graph_charge_add_ok validate_graph_charge_ok not_less not_le)
    (simp add: MAX_TASK_GRAPH_JSON_BYTES_def)

lemma graph_step_keyed: "graph_step env now g g' \<Longrightarrow> keyed g \<Longrightarrow> keyed g'"
proof (drule (1) graph_step_mutates, elim disjE exE conjE, goal_cases)
  case 2
  then show ?case by (auto simp: send_message_ok keyed_def)
qed (blast intro: apply_task_mutations_keyed)

lemma graph_step_moves:
  assumes "graph_step env now g g'" and "keyed g" and "bm_get (tg_tasks g) i = Some r"
  obtains r' where "bm_get (tg_tasks g') i = Some r'" and "r' = r \<or> task_move g now r r'"
  using graph_step_mutates [OF assms(1,2)]
proof
  assume "\<exists>ms. apply_task_mutations env g ms = Inr g' \<and> (\<forall>m\<in>set ms. legal now g m)"
  then obtain ms where app: "apply_task_mutations env g ms = Inr g'" and legal: "\<forall>m\<in>set ms. legal now g m"
    by blast
  have "mutate (mutation_of ms i) r = r \<or> task_move g now r (mutate (mutation_of ms i) r)"
  proof (cases "mutation_of ms i")
    case (Some m)
    with legal mutation_of_Some [OF Some] assms(3) show ?thesis by (auto simp: legal_def)
  qed simp
  with apply_task_mutations_ok(3) [OF app, of i] assms(3) show thesis by (auto intro: that)
qed (use assms(3) in \<open>auto simp: send_message_ok intro: that\<close>)

lemma graph_step_new_task: "graph_step env now g g' \<Longrightarrow> keyed g \<Longrightarrow> bm_keys (tg_tasks g') = bm_keys (tg_tasks g)"
proof (drule (1) graph_step_mutates, elim disjE exE conjE, goal_cases)
  case 2
  then show ?case by (auto simp: send_message_ok)
qed (blast dest: apply_task_mutations_ok(6))

text \<open>Any sequence of operations at any times.\<close>

definition graph_run :: "graph_env \<Rightarrow> task_graph \<Rightarrow> task_graph \<Rightarrow> bool" where
  "graph_run env = (\<lambda>g g'. \<exists>now. graph_step env now g g')\<^sup>*\<^sup>*"

lemma graph_run_induct [consumes 1, case_names refl step]:
  assumes "graph_run env g g'" and "P g"
    and "\<And>g1 now g2. graph_run env g g1 \<Longrightarrow> P g1 \<Longrightarrow> graph_step env now g1 g2 \<Longrightarrow> P g2"
  shows "P g'"
  using assms(1) unfolding graph_run_def
  by (induction rule: rtranclp_induct) (use assms(2,3) in \<open>auto simp: graph_run_def\<close>)

lemma graph_run_refl: "graph_run env g g"
  by (simp add: graph_run_def)

lemma graph_run_step: "graph_run env g g1 \<Longrightarrow> graph_step env now g1 g2 \<Longrightarrow> graph_run env g g2"
  unfolding graph_run_def by (rule rtranclp.rtrancl_into_rtrancl) blast+

lemma graph_run_keyed: "graph_run env g g' \<Longrightarrow> keyed g \<Longrightarrow> keyed g'"
  by (induction rule: graph_run_induct) (auto intro: graph_step_keyed)

lemma graph_run_terminal:
  assumes "graph_run env g g'" and "keyed g" and "bm_get (tg_tasks g) i = Some r" and "ts_is_terminal (tr_status r)"
  shows "bm_get (tg_tasks g') i = Some r"
  using assms(1)
proof (induction rule: graph_run_induct)
  case (step g1 now g2)
  with graph_run_keyed assms(2) have "keyed g1" by blast
  from graph_step_moves [OF step.hyps(2) this step.IH] show ?case
    using assms(4) task_move_not_terminal by metis
qed (rule assms(3))

text \<open>Once a Task is terminal no lease operation on it is accepted.\<close>

lemma terminal_rejects:
  assumes "bm_get (tg_tasks g) i = Some r" and "ts_is_terminal (tr_status r)"
  shows "\<exists>e. heartbeat env g i f now t = Inl e" "\<exists>e. complete env g i f now c = Inl e"
    "\<exists>e. fail env g i f now reason = Inl e" "\<exists>e. cancel env g i reason = Inl e"
proof -
  have err: "\<exists>e. y = Inl e" if "\<And>x. y \<noteq> Inr x" for y :: "task_graph result"
    using that by (cases y) auto
  show "\<exists>e. heartbeat env g i f now t = Inl e" "\<exists>e. complete env g i f now c = Inl e"
    "\<exists>e. fail env g i f now reason = Inl e" "\<exists>e. cancel env g i reason = Inl e"
    by (rule err; use assms in \<open>auto simp: heartbeat_ok complete_ok fail_ok cancel_ok\<close>)+
qed

section \<open>Blocked dependents\<close>

definition failed_tasks :: "task_graph \<Rightarrow> string set" where
  "failed_tasks g = {i. \<exists>r. bm_get (tg_tasks g) i = Some r \<and> ts_is_failed (tr_status r)}"

lemma failed_tasks_values:
  "keyed g \<Longrightarrow> (\<lambda>r. td_id (tr_definition r)) ` set (filter (\<lambda>r. ts_is_failed (tr_status r)) (bm_values (tg_tasks g)))
     = failed_tasks g"
  by (force simp: failed_tasks_def keyed_get dest: keyed_get_id)

lemma blocked_mutations_ids:
  assumes "keyed g"
  shows "mu_id ` set (blocked_mutations g overrides (Some i)) =
    doomed g overrides (insert i (failed_tasks g)) - insert i (failed_tasks g)"
  unfolding blocked_mutations_def Let_def failed_tasks_values [OF assms] option.case blocked_loop_ids by simp

lemma blocked_mutations_status:
  assumes "m \<in> set (blocked_mutations g overrides extra)"
  shows "\<exists>r d. r \<in> set (bm_values (tg_tasks g)) \<and> d \<in> set (td_dependencies (tr_definition r)) \<and>
    m = settled r (td_id (tr_definition r)) (TsBlocked (blocked_reason d))"
  using assms unfolding blocked_mutations_def Let_def
proof (rule blocked_loop_induct)
  fix F m
  assume "m \<in> set (newly_blocked g overrides F)"
  then show "\<exists>r d. r \<in> set (bm_values (tg_tasks g)) \<and> d \<in> set (td_dependencies (tr_definition r)) \<and>
      m = settled r (td_id (tr_definition r)) (TsBlocked (blocked_reason d))"
  proof (rule newly_blocked_member)
    fix r d
    assume "r \<in> set (bm_values (tg_tasks g))" "mu_id m = td_id (tr_definition r)"
      "d \<in> set (td_dependencies (tr_definition r))" "mu_status m = TsBlocked (blocked_reason d)"
      "mu_attempts m = tr_attempts r" "mu_attempt_binding m = None"
    then show ?thesis by (cases m) (auto simp: settled_def)
  qed
qed simp

text \<open>After a settlement by \<open>fail\<close> or \<open>cancel\<close>: which Tasks have changed, and to what.\<close>

lemma settle_blocks:
  assumes "keyed g" and app: "apply_task_mutations env g
      (settled r i s # blocked_mutations g {} (Some i)) = Inr g'"
    and "bm_get (tg_tasks g) j = Some q" and "j \<noteq> i" and "\<not> ts_is_failed (tr_status q)"
  shows "j \<in> doomed g {} (insert i (failed_tasks g)) \<Longrightarrow> \<exists>d\<in>set (td_dependencies (tr_definition q)).
      bm_get (tg_tasks g') j = Some (q\<lparr>tr_status := TsBlocked (blocked_reason d)\<rparr>)"
    and "j \<notin> doomed g {} (insert i (failed_tasks g)) \<Longrightarrow> bm_get (tg_tasks g') j = Some q"
proof -
  let ?ms = "blocked_mutations g {} (Some i)"
  have get: "bm_get (tg_tasks g') j = Some (mutate (mutation_of ?ms j) q)"
    using apply_task_mutations_ok(3) [OF app, of j] assms(3,4) by (simp add: mutation_of_def settled_def)
  have nf: "j \<notin> insert i (failed_tasks g)" using assms(3-5) by (auto simp: failed_tasks_def)
  show "\<exists>d\<in>set (td_dependencies (tr_definition q)).
      bm_get (tg_tasks g') j = Some (q\<lparr>tr_status := TsBlocked (blocked_reason d)\<rparr>)"
    if "j \<in> doomed g {} (insert i (failed_tasks g))"
  proof -
    from that nf have "j \<in> mu_id ` set ?ms" by (simp add: blocked_mutations_ids [OF assms(1)])
    then obtain m where m: "m \<in> set ?ms" "mu_id m = j" by auto
    have "distinct (map mu_id ?ms)" using apply_task_mutations_ok(1) [OF app] by simp
    from mutation_of_member [OF this m(1)] m(2) have "mutation_of ?ms j = Some m" by simp
    moreover from blocked_mutations_status [OF m(1)] m(2) keyed_get [OF assms(1)] assms(3) obtain d where
      "d \<in> set (td_dependencies (tr_definition q))" "m = settled q j (TsBlocked (blocked_reason d))"
      by (auto simp: settled_def)
    ultimately show ?thesis using get by (auto simp: settled_def)
  qed
  show "bm_get (tg_tasks g') j = Some q" if "j \<notin> doomed g {} (insert i (failed_tasks g))"
    using that get mutation_of_None [of j ?ms] by (simp add: blocked_mutations_ids [OF assms(1)])
qed

section \<open>Which Tasks a claim selects\<close>

text \<open>Waiting or expired, after its dependencies, within the worker's capabilities.\<close>

definition eligible :: "task_graph \<Rightarrow> u64 \<Rightarrow> task_capability_set \<Rightarrow> task_record \<Rightarrow> bool" where
  "eligible g now worker r \<longleftrightarrow> (tr_status r = TsPending \<or> lease_expired now (tr_status r)) \<and>
     dependencies_completed g r \<and> capset_satisfies worker (td_required_capabilities (tr_definition r))"

lemma doomed_not_completed:
  assumes "keyed g" and "i \<in> doomed g (set (expired_tasks g now)) (failed_tasks g)" and "bm_get (tg_tasks g) i = Some r"
  shows "\<not> ts_is_completed (tr_status r)"
  using assms(2,3)
proof (induction rule: doomed.induct)
  case (base i)
  then show ?case by (cases "tr_status r") (auto simp: failed_tasks_def)
next
  case (step q d)
  with keyed_get [OF assms(1), of q] have "q = r" by simp
  with step expired_tasks_iff [OF assms(1)] show ?case by (cases "tr_status r") (auto simp: lease_expired_def)
qed

lemma eligible_not_blocked:
  assumes "keyed g" and "bm_get (tg_tasks g) i = Some r" and "eligible g now worker r"
  shows "i \<notin> mu_id ` set (blocked_mutations g (set (expired_tasks g now)) None)"
proof
  assume "i \<in> mu_id ` set (blocked_mutations g (set (expired_tasks g now)) None)"
  then have "i \<in> doomed g (set (expired_tasks g now)) (failed_tasks g)" "i \<notin> failed_tasks g"
    unfolding blocked_mutations_def Let_def failed_tasks_values [OF assms(1)] option.case blocked_loop_ids by auto
  then obtain q d where "q \<in> set (bm_values (tg_tasks g))" "td_id (tr_definition q) = i"
    and d: "d \<in> set (td_dependencies (tr_definition q))" "d \<in> doomed g (set (expired_tasks g now)) (failed_tasks g)"
    by (auto elim: doomed.cases)
  with keyed_get [OF assms(1), of q] assms(2) have "q = r" by simp
  with assms(3) d(1) obtain p where "bm_get (tg_tasks g) d = Some p" "ts_is_completed (tr_status p)"
    by (auto simp: eligible_def dependencies_completed_def list_all_iff split: option.splits)
  with doomed_not_completed [OF assms(1) d(2)] show False by blast
qed

definition claim_key_of :: "task_definition \<Rightarrow> int \<times> string" where
  "claim_key_of d = (td_priority d, td_id d)"

definition eligible_order :: "task_graph \<Rightarrow> u64 \<Rightarrow> task_capability_set \<Rightarrow> (int \<times> string) list" where
  "eligible_order g now worker =
     claim_order (map claim_key (filter (eligible g now worker) (bm_values (tg_tasks g))))"

lemma claimable_eligible:
  assumes "keyed g"
  shows "claimable_tasks g (mu_id ` set (blocked_mutations g (set (expired_tasks g now)) None))
      (expired_tasks g now) worker maximum = take maximum (eligible_order g now worker)"
proof -
  have "(td_id (tr_definition r) \<notin> mu_id ` set (blocked_mutations g (set (expired_tasks g now)) None) \<and>
      (tr_status r = TsPending \<or> td_id (tr_definition r) \<in> set (expired_tasks g now)) \<and>
      capset_satisfies worker (td_required_capabilities (tr_definition r)) \<and> dependencies_completed g r)
      \<longleftrightarrow> eligible g now worker r" if "r \<in> set (bm_values (tg_tasks g))" for r
  proof -
    from that have get: "bm_get (tg_tasks g) (td_id (tr_definition r)) = Some r"
      using keyed_get [OF assms, of r] by simp
    show ?thesis
      unfolding eligible_def expired_tasks_iff [OF assms] get
      using eligible_not_blocked [OF assms get, unfolded eligible_def] by blast
  qed
  then show ?thesis
    unfolding claimable_tasks_def eligible_order_def by (simp cong: filter_cong)
qed

lemma map_snd_claim_order:
  assumes "keyed g"
  shows "distinct (map snd (eligible_order g now worker))"
    and "set (eligible_order g now worker) =
      {claim_key r | r. bm_get (tg_tasks g) (td_id (tr_definition r)) = Some r \<and> eligible g now worker r}"
    and "sorted (map (\<lambda>(p, i). (- p, i)) (eligible_order g now worker))"
proof -
  have "map (\<lambda>r. td_id (tr_definition r)) (bm_values (tg_tasks g)) = map fst (tg_tasks g)"
    using assms by (auto simp: keyed_def bm_values_def)
  then have "distinct (map (\<lambda>r. td_id (tr_definition r)) (bm_values (tg_tasks g)))"
    using assms bm.distinct_keys [of "tg_tasks g"] by (simp add: keyed_def)
  then have "distinct (map snd (map claim_key (filter (eligible g now worker) (bm_values (tg_tasks g)))))"
    by (simp add: claim_key_def comp_def distinct_map_filter)
  then have "distinct (map snd (claim_order (map claim_key (filter (eligible g now worker) (bm_values (tg_tasks g))))))"
    unfolding claim_order_def distinct_map [of snd] by (simp only: distinct_sort set_sort)
  then show "distinct (map snd (eligible_order g now worker))" by (simp add: eligible_order_def)
  show "set (eligible_order g now worker) =
      {claim_key r | r. bm_get (tg_tasks g) (td_id (tr_definition r)) = Some r \<and> eligible g now worker r}"
    by (auto simp: eligible_order_def claim_order_def keyed_get [OF assms])
  show "sorted (map (\<lambda>(p, i). (- p, i)) (eligible_order g now worker))"
    by (simp add: eligible_order_def claim_order_def)
qed

text \<open>The claims handed out, and what the graph records of them.\<close>

lemma claim_recorded:
  assumes ok: "claim_ready_governed env g owner now duration maximum b worker generate = Inr (g', claims, changed)"
    and "keyed g" and c: "c \<in> set claims"
  shows "\<exists>r. bm_get (tg_tasks g) (td_id (cl_task c)) = Some r \<and> cl_task c = tr_definition r \<and>
    eligible g now worker r \<and> tl_owner (cl_lease c) = owner \<and> cl_execution_binding c = b \<and>
    unat (tl_attempt (cl_lease c)) = Suc (unat (tr_attempts r)) \<and>
    unat (tl_expires_at_ms (cl_lease c)) = unat now + unat duration \<and>
    bm_get (tg_tasks g') (td_id (cl_task c)) =
      Some (r\<lparr>tr_status := TsRunning (cl_lease c), tr_attempts := tl_attempt (cl_lease c)\<rparr>)"
  using ok
proof (rule claim_ready_governed_ok)
  fix e
  let ?sel = "claim_selection g now worker maximum"
  assume e: "checked_add now duration = Some e"
    and attempts: "\<forall>i\<in>set ?sel. \<exists>r. bm_get (tg_tasks g) i = Some r \<and>
      checked_add (tr_attempts r) 1 = Some (tr_attempts r + 1)"
    and app: "apply_task_mutations env g
      (claim_mutations g owner now e b generate (claim_requeued g now worker maximum) ?sel) = Inr g'"
    and claims: "claims = map2 (claim_of g owner e b) (map generate [0..<length ?sel]) ?sel"
  from c claims obtain f i where fi: "(f, i) \<in> set (zip (map generate [0..<length ?sel]) ?sel)"
    and c_def: "c = claim_of g owner e b f i" by auto
  then have i: "i \<in> set ?sel" by (blast dest: set_zip_rightD)
  with attempts obtain r where r: "bm_get (tg_tasks g) i = Some r"
    "checked_add (tr_attempts r) 1 = Some (tr_attempts r + 1)" by blast
  with keyed_get_id [OF assms(2)] have id: "td_id (tr_definition r) = i" by blast
  from i have "i \<in> snd ` set (eligible_order g now worker)"
    unfolding claim_selection_def claimable_eligible [OF assms(2)] by (auto dest: in_set_takeD)
  then have el: "eligible g now worker r"
    using r(1) by (auto simp: map_snd_claim_order(2) [OF assms(2)] claim_key_def)
  let ?m = "claim_mutation g owner now e b f i"
  have "?m \<in> set (claim_mutations g owner now e b generate (claim_requeued g now worker maximum) ?sel)"
    using fi by (force simp: claim_mutations_def)
  from mutation_of_member [OF apply_task_mutations_ok(1) [OF app] this]
  have "bm_get (tg_tasks g') i = Some (mutate (Some ?m) r)"
    using apply_task_mutations_ok(3) [OF app, of i] r(1) by (simp add: claim_mutation_def Let_def)
  with r e id el show ?thesis
    unfolding c_def by (auto simp: claim_of_def claim_lease_def claim_mutation_def Let_def checked_add_Some)
qed

lemma map_map2_snd:
  "length xs = length ys \<Longrightarrow> (\<And>x y. h (f x y) = k y) \<Longrightarrow> map h (map2 f xs ys) = map k ys"
  by (induction xs ys rule: list_induct2) simp_all

lemma claim_tasks_selected:
  assumes ok: "claim_ready_governed env g owner now duration maximum b worker generate = Inr (g', claims, changed)"
    and "keyed g"
  shows "map (\<lambda>c. claim_key_of (cl_task c)) claims = take maximum (eligible_order g now worker)"
  using ok
proof (rule claim_ready_governed_ok)
  fix e
  let ?sel = "claim_selection g now worker maximum"
  assume claims: "claims = map2 (claim_of g owner e b) (map generate [0..<length ?sel]) ?sel"
  have key: "claim_key_of (tr_definition (the (bm_get (tg_tasks g) (snd k)))) = k"
    if "k \<in> set (eligible_order g now worker)" for k
    using that by (auto simp: map_snd_claim_order(2) [OF assms(2)] claim_key_def claim_key_of_def)
  have "map (\<lambda>c. claim_key_of (cl_task c)) claims =
      map (\<lambda>i. claim_key_of (tr_definition (the (bm_get (tg_tasks g) i)))) ?sel"
    unfolding claims by (rule map_map2_snd) (simp_all add: claim_of_def)
  also have "\<dots> = map (\<lambda>k. k) (take maximum (eligible_order g now worker))"
    unfolding claim_selection_def claimable_eligible [OF assms(2)] map_map comp_def
    by (rule map_cong) (auto dest: in_set_takeD key)
  finally show ?thesis by simp
qed

text \<open>Higher priority first, then the smaller identity: the order of the claims, and of the claims before the rest.\<close>

fun key_before :: "int \<times> string \<Rightarrow> int \<times> string \<Rightarrow> bool" where
  "key_before (p, i) (q, j) \<longleftrightarrow> q < p \<or> p = q \<and> i < j"

lemma eligible_order_strict: "keyed g \<Longrightarrow> sorted_wrt key_before (eligible_order g now worker)"
proof -
  assume "keyed g"
  note order = map_snd_claim_order [OF this, of now worker]
  have "sorted_wrt (\<lambda>x y. snd x \<noteq> snd y \<and> (- fst x, snd x) \<le> (- fst y, snd y)) (eligible_order g now worker)"
    using order(1,3) by (simp add: sorted_wrt_map distinct_conv_nth sorted_wrt_iff_nth_less split_def)
  then show ?thesis by (rule sorted_wrt_mono_rel [rotated]) (auto simp: less_eq_prod_def)
qed

lemma take_before_rest:
  assumes "sorted_wrt R xs" and "x \<in> set xs" and "x \<notin> set (take n xs)"
  shows "length (take n xs) = n \<and> (\<forall>y\<in>set (take n xs). R y x)"
proof -
  have "x \<in> set (drop n xs)" using assms(2,3) by (metis Un_iff append_take_drop_id set_append)
  moreover from this have "n < length xs" by (cases "n < length xs") auto
  ultimately show ?thesis
    using assms(1) sorted_wrt_append [of R "take n xs" "drop n xs"] by simp
qed

lemma claim_priority:
  assumes claims: "map (\<lambda>c. claim_key_of (cl_task c)) claims = take maximum (eligible_order g now worker)" and "keyed g"
  shows "length claims \<le> maximum"
    and "sorted_wrt (\<lambda>c c'. key_before (claim_key_of (cl_task c)) (claim_key_of (cl_task c'))) claims"
    and "r \<in> set (bm_values (tg_tasks g)) \<Longrightarrow> eligible g now worker r \<Longrightarrow>
      \<forall>c\<in>set claims. claim_key_of (cl_task c) \<noteq> claim_key r \<Longrightarrow>
      length claims = maximum \<and> (\<forall>c\<in>set claims. key_before (claim_key_of (cl_task c)) (claim_key r))"
proof -
  note strict = eligible_order_strict [OF assms(2), of now worker]
  have len: "length claims = length (take maximum (eligible_order g now worker))" using claims by (metis length_map)
  then show "length claims \<le> maximum" by simp
  from strict have "sorted_wrt key_before (map (\<lambda>c. claim_key_of (cl_task c)) claims)"
    unfolding claims by (rule sorted_wrt_take)
  then show "sorted_wrt (\<lambda>c c'. key_before (claim_key_of (cl_task c)) (claim_key_of (cl_task c'))) claims"
    by (simp add: sorted_wrt_map)
  assume r: "r \<in> set (bm_values (tg_tasks g))" "eligible g now worker r"
    and other: "\<forall>c\<in>set claims. claim_key_of (cl_task c) \<noteq> claim_key r"
  have listed: "claim_key r \<in> set (eligible_order g now worker)"
    using r by (auto simp: eligible_order_def claim_order_def)
  have keys: "set (take maximum (eligible_order g now worker)) = (\<lambda>c. claim_key_of (cl_task c)) ` set claims"
    using claims by (metis list.set_map)
  have "claim_key r \<notin> set (take maximum (eligible_order g now worker))" using other unfolding keys by auto
  from take_before_rest [OF strict listed this] show
    "length claims = maximum \<and> (\<forall>c\<in>set claims. key_before (claim_key_of (cl_task c)) (claim_key r))"
    unfolding keys len by simp
qed

text \<open>Without an expired lease the eligible Tasks are the ones \<open>ready_for\<close> announces.\<close>

lemma eligible_ready:
  assumes "\<forall>r\<in>set (bm_values (tg_tasks g)). \<not> lease_expired now (tr_status r)"
  shows "map snd (eligible_order g now worker) = ready_for g worker"
proof -
  have "filter (eligible g now worker) (bm_values (tg_tasks g)) = filter (\<lambda>r. tr_status r = TsPending \<and>
      dependencies_completed g r \<and> capset_satisfies worker (td_required_capabilities (tr_definition r)))
      (bm_values (tg_tasks g))"
    using assms by (auto simp: eligible_def intro: filter_cong)
  then show ?thesis by (simp add: eligible_order_def ready_for_def ready_matching_def)
qed

lemma claims_ready:
  assumes "map (\<lambda>c. claim_key_of (cl_task c)) claims = take maximum (eligible_order g now worker)"
    and "\<forall>r\<in>set (bm_values (tg_tasks g)). \<not> lease_expired now (tr_status r)"
  shows "map (\<lambda>c. td_id (cl_task c)) claims = take maximum (ready_for g worker)"
proof -
  have "map (\<lambda>c. td_id (cl_task c)) claims = map snd (map (\<lambda>c. claim_key_of (cl_task c)) claims)"
    by (simp add: claim_key_of_def comp_def)
  with assms(1) eligible_ready [OF assms(2), of worker, symmetric] show ?thesis by (simp add: take_map)
qed

section \<open>Message pages\<close>

lemma fill_page_take:
  assumes "fill_page env limit page bytes ms = Inr (page', rest_left)" and "length page \<le> limit"
  shows "\<exists>k\<le>length ms. page' = page @ take k ms \<and> (rest_left \<longleftrightarrow> k < length ms) \<and> length page' \<le> limit"
  using assms
proof (induction env limit page bytes ms rule: fill_page.induct)
  case (2 env limit page bytes m ms)
  from "2.prems" obtain c n where c: "message_materialization_charge env m = Inr c"
    "checked_graph_charge_add bytes c = Inr n"
    by (auto simp: and_then_eq_Inr)
  show ?case
  proof (cases "length page = limit \<or> n > MAX_MESSAGE_PAGE_BYTES")
    case True
    with "2.prems" c have "page' = page \<and> rest_left" by auto
    with "2.prems"(2) show ?thesis by (intro exI [of _ 0]) simp
  next
    case False
    with "2.prems" c have "fill_page env limit (page @ [m]) n ms = Inr (page', rest_left)" by simp
    from "2.IH" [OF c False this] False "2.prems"(2) obtain k where
      "k \<le> length ms" "page' = (page @ [m]) @ take k ms" "rest_left \<longleftrightarrow> k < length ms" "length page' \<le> limit" by auto
    then show ?thesis by (intro exI [of _ "Suc k"]) simp
  qed
qed auto

lemma fill_page_progress:
  assumes "fill_page env limit [] 0 (m # ms) = Inr (page, rest_left)" and "1 \<le> limit"
    and "message_materialization_charge env m = Inr c" and "c \<le> MAX_MESSAGE_PAGE_BYTES"
  shows "page \<noteq> []"
proof -
  from assms have "fill_page env limit [m] c ms = Inr (page, rest_left)"
    by (auto simp: and_then_eq_Inr graph_charge_add_ok)
  from fill_page_take [OF this] assms(2) show ?thesis by auto
qed

lemma filter_after_take:
  fixes key :: "'a \<Rightarrow> 'b::linorder"
  assumes "sorted_wrt (<) (map key xs)" and "0 < k" and "k \<le> length xs"
  shows "filter (\<lambda>x. key (xs ! (k - 1)) < key x) xs = drop k xs"
proof -
  have nth: "key (xs ! i) < key (xs ! j) \<longleftrightarrow> i < j" if "i < length xs" "j < length xs" for i j
    using that assms(1) by (cases i j rule: linorder_cases) (auto simp: sorted_wrt_iff_nth_less dest: less_asym)
  have "filter (\<lambda>x. key (xs ! (k - 1)) < key x) (take k xs) = []"
    using assms nth by (auto simp: filter_empty_conv in_set_conv_nth)
  moreover have "filter (\<lambda>x. key (xs ! (k - 1)) < key x) (drop k xs) = drop k xs"
    using assms nth [of "k - 1"] by (auto simp: filter_id_conv in_set_conv_nth)
  ultimately show ?thesis
    using filter_append [of _ "take k xs" "drop k xs"] by (metis append_Nil append_take_drop_id)
qed

section \<open>A concrete graph\<close>

definition demo_graph_env :: graph_env where
  "demo_graph_env = \<lparr>ge_task = (\<lambda>(i, _, _, _). Some i), ge_message = (\<lambda>m. Some (tm_body m)),
     ge_binding = (\<lambda>e. Some (ta_lease_id e)), ge_execution_binding = (\<lambda>b. Some (issuer b))\<rparr>"

definition demo_definition :: "string \<Rightarrow> string list \<Rightarrow> task_definition" where
  "demo_definition i ds = \<lparr>td_id = i, td_description = ''do it'', td_dependencies = ds, td_priority = 0,
     td_workspace = WsNone, td_required_capabilities = []\<rparr>"

definition demo_task :: "string \<Rightarrow> string list \<Rightarrow> task_status \<Rightarrow> u32 \<Rightarrow> task_record" where
  "demo_task i ds s n = \<lparr>tr_definition = demo_definition i ds, tr_status = s, tr_attempts = n\<rparr>"

definition demo_lease :: task_lease where
  "demo_lease = \<lparr>tl_id = ''l0'', tl_owner = ''worker'', tl_attempt = 1, tl_expires_at_ms = 15\<rparr>"

definition demo_graph_of :: "task_status \<Rightarrow> u32 \<Rightarrow> task_status \<Rightarrow> task_status \<Rightarrow> usize \<Rightarrow> task_graph" where
  "demo_graph_of s n t u charge = \<lparr>tg_tasks = [(''a'', demo_task ''a'' [] s n), (''b'', demo_task ''b'' [''a''] t 0),
       (''c'', demo_task ''c'' [''b''] u 0)],
     tg_messages = [], tg_attempt_bindings = [], tg_next_message_sequence = 1, tg_charge = charge\<rparr>"

definition demo_pending :: task_graph where
  "demo_pending = demo_graph_of TsPending 0 TsPending TsPending 4099"

definition demo_running :: task_graph where
  "demo_running = demo_graph_of (TsRunning demo_lease) 1 TsPending TsPending 4099"

definition demo_failed :: task_graph where
  "demo_failed = demo_graph_of (TsFailed ''boom'') 1 (TsBlocked (blocked_reason ''a''))
     (TsBlocked (blocked_reason ''b'')) 1027"

definition demo_completion :: task_completion where
  "demo_completion = \<lparr>tc_summary = ''ok'', tc_artifacts = []\<rparr>"

definition demo_done :: task_graph where
  "demo_done = demo_graph_of (TsCompleted demo_completion) 1 TsPending TsPending 3075"

lemmas demo_graph_defs = demo_graph_env_def demo_definition_def demo_task_def demo_lease_def demo_graph_of_def
  demo_pending_def demo_running_def demo_failed_def demo_completion_def demo_done_def

lemmas graph_charge_eval = task_materialization_charge_parts_def task_materialization_charge_def
  message_materialization_charge_def attempt_binding_materialization_charge_def checked_graph_charge_add_def
  usize_checked_add_def usize_checked_sub_def validate_graph_charge_def calculate_materialization_charge_def
  MAX_TASK_GRAPH_JSON_BYTES_def TASK_GRAPH_BASE_CHARGE_BYTES_def ACTIVE_TASK_TERMINAL_RESERVE_BYTES_def

lemmas graph_mutation_eval = apply_task_mutations_def check_mutation_def commit_mutation_def bm_update_def bm_get_def
  bm_values_def bm_contains_def bm_keys_def MAX_TASK_ATTEMPT_BINDINGS_def

lemma demo_keyed: "keyed (demo_graph_of s n t u c)"
  by (simp add: keyed_def bm_wf_def demo_graph_defs)

lemma demo_graphs_keyed: "keyed demo_pending" "keyed demo_running" "keyed demo_failed" "keyed demo_done"
  by (simp_all add: demo_pending_def demo_running_def demo_failed_def demo_done_def demo_keyed)

lemma demo_get:
  "bm_get (tg_tasks (demo_graph_of s n t u c)) ''a'' = Some (demo_task ''a'' [] s n)"
  "bm_get (tg_tasks (demo_graph_of s n t u c)) ''b'' = Some (demo_task ''b'' [''a''] t 0)"
  "bm_get (tg_tasks (demo_graph_of s n t u c)) ''c'' = Some (demo_task ''c'' [''b''] u 0)"
  by (simp_all add: demo_graph_of_def bm_get_def)

lemmas demo_gets = demo_get [of TsPending 0 TsPending TsPending 4099, folded demo_pending_def]
  demo_get [of "TsRunning demo_lease" 1 TsPending TsPending 4099, folded demo_running_def]
  demo_get [of "TsCompleted demo_completion" 1 TsPending TsPending 3075, folded demo_done_def]
  demo_get [of "TsFailed ''boom''" 1 "TsBlocked (blocked_reason ''a'')" "TsBlocked (blocked_reason ''b'')" 1027,
    folded demo_failed_def]

lemma demo_held: "task_held (tg_tasks demo_running, ''a'') = Some demo_lease"
  by (simp add: task_held_iff demo_gets demo_task_def)

lemma demo_claimed:
  "claim_ready_governed demo_graph_env demo_pending ''worker'' 10 5 1 None [] (\<lambda>_. ''l0'') =
     Inr (demo_running, [\<lparr>cl_task = demo_definition ''a'' [], cl_lease = demo_lease, cl_execution_binding = None\<rparr>], True)"
  by (simp add: claim_ready_governed_def demo_graph_defs graph_mutation_eval graph_charge_eval string_eval
      validate_capability_name_def capset_validate_def capset_satisfies_def checked_add_def
      check_attempts_def lease_expired_def expired_tasks_def blocked_mutations_def blocked_loop_rec newly_blocked_def
      claimable_tasks_def claim_order_def claim_key_def claim_task_def dependencies_completed_def
      MAX_CLAIMS_PER_BATCH_def MAX_TASK_CAPABILITIES_def Let_def)

lemma demo_fails: "fail demo_graph_env demo_running ''a'' ''l0'' 11 ''boom'' = Inr demo_failed"
  by (simp add: fail_def current_lease_def validate_task_text_def MAX_TASK_TEXT_BYTES_def demo_graph_defs
      graph_mutation_eval graph_charge_eval string_eval blocked_mutations_def blocked_loop_rec newly_blocked_def)

lemma demo_completes: "complete demo_graph_env demo_running ''a'' ''l0'' 11 demo_completion = Inr demo_done"
  by (simp add: complete_def validate_completion_def current_lease_def validate_task_text_def
      MAX_TASK_TEXT_BYTES_def MAX_ARTIFACTS_PER_COMPLETION_def demo_graph_defs
      graph_mutation_eval graph_charge_eval string_eval)

definition demo_message :: "u64 \<Rightarrow> string \<Rightarrow> task_message" where
  "demo_message n body = \<lparr>tm_id = body, tm_sequence = n, tm_from = ''a'', tm_to = ''b'', tm_body = body,
     tm_created_at_ms = 9\<rparr>"

definition demo_mail :: task_graph where
  "demo_mail = demo_pending\<lparr>tg_messages := [demo_message 1 ''m'', demo_message 2 ''n'', demo_message 3 ''o''],
     tg_next_message_sequence := 4, tg_charge := 4105\<rparr>"

lemma demo_step_claim: "graph_step demo_graph_env 10 demo_pending demo_running"
  using demo_claimed by (rule graph_step.claim)

lemma demo_step_fail: "graph_step demo_graph_env 11 demo_running demo_failed"
  using demo_fails by (rule graph_step.fail)

lemma demo_step_done: "graph_step demo_graph_env 11 demo_running demo_done"
  using demo_completes by (rule graph_step.complete)

section \<open>Properties\<close>

text \<open>
  C2: refinement. Every successful operation on a Task Graph (claim, heartbeat, complete, fail,
  cancel, release of expired leases, message) leaves each Task alone or moves it by one step of
  the Task life cycle: claimed only when it waits or its lease has run out and all its
  dependencies are completed, with the attempt counter raised by one; extended, completed or
  failed only under a live lease; never changed once terminal. Its definition never changes.
\<close>

theorem task_graph_refines_lifecycle:
  assumes "graph_step env now g g'" and "keyed g" and "bm_get (tg_tasks g) i = Some r"
  shows "\<exists>r'. bm_get (tg_tasks g') i = Some r' \<and> tr_definition r' = tr_definition r \<and>
    tr_attempts r \<le> tr_attempts r' \<and> (r' = r \<or> task_move g now r r')"
  using assms by (elim graph_step_moves) (auto dest: task_move_definition task_move_attempts)

theorem task_graph_refines_lifecycle_witness:
  "\<exists>r'. bm_get (tg_tasks demo_running) ''a'' = Some r' \<and> tr_definition r' = demo_definition ''a'' [] \<and>
    0 \<le> tr_attempts r' \<and> (r' = demo_task ''a'' [] TsPending 0 \<or>
      task_move demo_pending 10 (demo_task ''a'' [] TsPending 0) r')"
  using task_graph_refines_lifecycle [OF demo_step_claim demo_graphs_keyed(1) demo_gets(1)]
  by (simp add: demo_task_def)

text \<open>
  C35: safety. A terminal Task is final: whatever sequence of operations runs at whatever times, its
  record is exactly what it was, and no heartbeat, completion, failure or cancellation of it is
  accepted any more; so a Task is settled at most once.
\<close>

theorem task_terminal_absorbing:
  assumes "graph_run env g g'" and "keyed g" and "bm_get (tg_tasks g) i = Some r" and "ts_is_terminal (tr_status r)"
  shows "bm_get (tg_tasks g') i = Some r \<and> (\<exists>e. heartbeat env g' i f now t = Inl e) \<and>
    (\<exists>e. complete env g' i f now c = Inl e) \<and> (\<exists>e. fail env g' i f now reason = Inl e) \<and>
    (\<exists>e. cancel env g' i reason = Inl e)"
  using graph_run_terminal [OF assms] terminal_rejects [OF graph_run_terminal [OF assms] assms(4)] by blast

theorem task_terminal_absorbing_witness:
  "bm_get (tg_tasks demo_done) ''a'' = Some (demo_task ''a'' [] (TsCompleted demo_completion) 1) \<and>
    (\<exists>e. heartbeat demo_graph_env demo_done ''a'' ''l0'' 12 20 = Inl e) \<and>
    (\<exists>e. complete demo_graph_env demo_done ''a'' ''l0'' 12 demo_completion = Inl e) \<and>
    (\<exists>e. fail demo_graph_env demo_done ''a'' ''l0'' 12 ''boom'' = Inl e) \<and>
    (\<exists>e. cancel demo_graph_env demo_done ''a'' ''boom'' = Inl e)"
proof -
  have "graph_run demo_graph_env demo_done demo_done" by (simp add: graph_run_def)
  then show ?thesis
    by (rule task_terminal_absorbing) (simp_all add: demo_graphs_keyed demo_gets demo_task_def)
qed

text \<open>
  safety. A live lease cannot be taken away: an operation at a time before its expiry leaves
  the Task with the same lease identity, owner and attempt, at most extended, or makes it
  terminal. No other worker's claim or expiry sweep touches it.
\<close>

theorem task_live_lease_kept:
  assumes "graph_step env now g g'" and "keyed g" and "task_held (tg_tasks g, i) = Some l"
    and "now < tl_expires_at_ms l"
  shows "(\<exists>l'. task_held (tg_tasks g', i) = Some l' \<and> tl_id l' = tl_id l \<and> tl_owner l' = tl_owner l \<and>
      tl_attempt l' = tl_attempt l \<and> tl_expires_at_ms l \<le> tl_expires_at_ms l') \<or>
    (\<exists>r'. bm_get (tg_tasks g') i = Some r' \<and> ts_is_terminal (tr_status r'))"
proof -
  from assms(3) obtain r where r: "bm_get (tg_tasks g) i = Some r" "tr_status r = TsRunning l"
    by (auto simp: task_held_iff)
  have "(\<exists>l'. tr_status r' = TsRunning l' \<and> tl_id l' = tl_id l \<and> tl_owner l' = tl_owner l \<and>
      tl_attempt l' = tl_attempt l \<and> tl_expires_at_ms l \<le> tl_expires_at_ms l') \<or> ts_is_terminal (tr_status r')"
    if "r' = r \<or> task_move g now r r'" for r'
    using that r(2) assms(4) by (auto simp: lease_expired_def elim!: task_move.cases)
  with graph_step_moves [OF assms(1,2) r(1)] show ?thesis by (metis task_held_iff)
qed

theorem task_live_lease_kept_witness:
  "(\<exists>l'. task_held (tg_tasks demo_failed, ''a'') = Some l' \<and> tl_id l' = ''l0'' \<and> tl_owner l' = ''worker'' \<and>
      tl_attempt l' = 1 \<and> 15 \<le> tl_expires_at_ms l') \<or>
    (\<exists>r'. bm_get (tg_tasks demo_failed) ''a'' = Some r' \<and> ts_is_terminal (tr_status r'))"
  using task_live_lease_kept [OF demo_step_fail demo_graphs_keyed(2) demo_held] by (simp add: demo_lease_def)

text \<open>
  safety. Leases are fences: while a Task is held under one lease, a heartbeat, completion or
  failure that presents another lease identity, or arrives at or after the expiry, is rejected;
  whoever was superseded by a later claim can no longer settle the Task.
\<close>

theorem task_stale_lease_rejected:
  assumes "task_held (tg_tasks g, i) = Some l" and "tl_id l \<noteq> f \<or> tl_expires_at_ms l \<le> now"
  shows "(\<exists>e. heartbeat env g i f now t = Inl e) \<and> (\<exists>e. complete env g i f now c = Inl e) \<and>
    (\<exists>e. fail env g i f now reason = Inl e)"
proof -
  have rejected: "\<exists>e. current_lease (tg_tasks g) i f now = Inl e"
    using assms task_fence.stale [of "(tg_tasks g, i)"] task_fence.late [of "(tg_tasks g, i)"] by auto
  have err: "\<exists>e. y = Inl e" if "\<And>x. y \<noteq> Inr x" for y :: "task_graph result"
    using that by (cases y) auto
  from rejected show ?thesis
    by (intro conjI; intro err) (auto simp: heartbeat_def complete_def fail_def and_then_eq_Inr)
qed

theorem task_stale_lease_rejected_witness:
  "(\<exists>e. heartbeat demo_graph_env demo_running ''a'' ''old'' 11 20 = Inl e) \<and>
   (\<exists>e. complete demo_graph_env demo_running ''a'' ''old'' 11 demo_completion = Inl e) \<and>
   (\<exists>e. fail demo_graph_env demo_running ''a'' ''old'' 11 ''boom'' = Inl e)"
  using task_stale_lease_rejected [OF demo_held, of "''old''" 11] by (simp add: demo_lease_def)

text \<open>
  C36: functional. A failed or cancelled Task blocks exactly what can never run any more: after the
  operation a waiting Task is blocked, naming one of its own dependencies, precisely when some
  chain of waiting Tasks leads from it to a Task that failed; every other Task keeps its record.
\<close>

theorem task_failure_blocks_exactly:
  assumes "keyed g" and "fail env g i f now reason = Inr g' \<or> cancel env g i reason = Inr g'"
    and "bm_get (tg_tasks g) j = Some q" and "j \<noteq> i" and "\<not> ts_is_failed (tr_status q)"
  shows "if j \<in> doomed g {} (insert i (failed_tasks g))
    then \<exists>d\<in>set (td_dependencies (tr_definition q)).
      bm_get (tg_tasks g') j = Some (q\<lparr>tr_status := TsBlocked (blocked_reason d)\<rparr>)
    else bm_get (tg_tasks g') j = Some q"
proof -
  from assms(2) obtain r s where app: "apply_task_mutations env g
      (settled r i s # blocked_mutations g {} (Some i)) = Inr g'"
    by (auto simp: fail_ok cancel_ok)
  from settle_blocks [OF assms(1) app assms(3-5)] show ?thesis by simp
qed

theorem task_failure_blocks_exactly_witness:
  "\<exists>d\<in>{''b''}. bm_get (tg_tasks demo_failed) ''c'' = Some (demo_task ''c'' [''b''] (TsBlocked (blocked_reason d)) 0)"
proof -
  have v: "demo_task ''b'' [''a''] TsPending 0 \<in> set (bm_values (tg_tasks demo_running))"
    "demo_task ''c'' [''b''] TsPending 0 \<in> set (bm_values (tg_tasks demo_running))"
    using bm_get_value [OF demo_gets(5)] bm_get_value [OF demo_gets(6)] .
  have "''b'' \<in> doomed demo_running {} (insert ''a'' (failed_tasks demo_running))"
    using doomed.step [OF v(1) _ _ doomed.base] by (simp add: demo_task_def demo_definition_def)
  with doomed.step [OF v(2)] have "''c'' \<in> doomed demo_running {} (insert ''a'' (failed_tasks demo_running))"
    by (simp add: demo_task_def demo_definition_def)
  with task_failure_blocks_exactly [OF demo_graphs_keyed(2) disjI1 [OF demo_fails] demo_gets(6)] show ?thesis
    by (simp add: demo_task_def demo_definition_def)
qed

text \<open>
  C37: functional. What a claim hands out: at most the requested number of Tasks, ordered by decreasing
  priority and then by identity. Each claimed Task was eligible (waiting or with an expired lease,
  its dependencies completed, its required capabilities offered), and the claim is recorded as its running lease, held by the
  caller, for the next attempt, expiring exactly the lease duration after now, without wrap-around. An
  eligible Task is passed over only when the requested number was reached, and then every claimed Task has
  a higher priority, or the same and a smaller identity. When no lease has
  expired the claimed Tasks are the first of the list that \<open>ready_for\<close> announces.
\<close>

theorem task_claim_correct:
  assumes "claim_ready_governed env g owner now duration maximum b worker generate = Inr (g', claims, changed)"
    and "keyed g"
  shows "length claims \<le> maximum \<and>
    sorted_wrt (\<lambda>c c'. td_priority (cl_task c) > td_priority (cl_task c') \<or>
      td_priority (cl_task c) = td_priority (cl_task c') \<and> td_id (cl_task c) < td_id (cl_task c')) claims \<and>
    (\<forall>r\<in>set (bm_values (tg_tasks g)). eligible g now worker r \<longrightarrow>
      (\<exists>c\<in>set claims. cl_task c = tr_definition r) \<or>
      length claims = maximum \<and> (\<forall>c\<in>set claims. td_priority (cl_task c) > td_priority (tr_definition r) \<or>
        td_priority (cl_task c) = td_priority (tr_definition r) \<and> td_id (cl_task c) < td_id (tr_definition r))) \<and>
    (\<forall>c\<in>set claims. \<exists>r. bm_get (tg_tasks g) (td_id (cl_task c)) = Some r \<and> cl_task c = tr_definition r \<and>
      eligible g now worker r \<and> tl_owner (cl_lease c) = owner \<and> cl_execution_binding c = b \<and>
      unat (tl_attempt (cl_lease c)) = Suc (unat (tr_attempts r)) \<and>
      unat (tl_expires_at_ms (cl_lease c)) = unat now + unat duration \<and>
      bm_get (tg_tasks g') (td_id (cl_task c)) =
        Some (r\<lparr>tr_status := TsRunning (cl_lease c), tr_attempts := tl_attempt (cl_lease c)\<rparr>)) \<and>
    ((\<forall>r\<in>set (bm_values (tg_tasks g)). \<not> lease_expired now (tr_status r)) \<longrightarrow>
      map (\<lambda>c. td_id (cl_task c)) claims = take maximum (ready_for g worker))"
proof -
  note selected = claim_tasks_selected [OF assms]
  note priority = claim_priority [OF selected assms(2), unfolded claim_key_of_def key_before.simps]
  have "(\<exists>c\<in>set claims. cl_task c = tr_definition r) \<or>
      length claims = maximum \<and> (\<forall>c\<in>set claims. td_priority (tr_definition r) < td_priority (cl_task c) \<or>
        td_priority (cl_task c) = td_priority (tr_definition r) \<and> td_id (cl_task c) < td_id (tr_definition r))"
    if r: "r \<in> set (bm_values (tg_tasks g))" "eligible g now worker r" for r
  proof (cases "\<exists>c\<in>set claims. (td_priority (cl_task c), td_id (cl_task c)) = claim_key r")
    case True
    then obtain c where c: "c \<in> set claims" "td_id (cl_task c) = td_id (tr_definition r)" by (auto simp: claim_key_def)
    with claim_recorded [OF assms c(1)] keyed_get [OF assms(2), of r] r(1) show ?thesis by auto
  next
    case False
    then show ?thesis using priority(3) [OF r] by (simp add: claim_key_def)
  qed
  with priority(1,2) claim_recorded [OF assms] claims_ready [OF selected] show ?thesis by blast
qed

definition demo_urgent :: task_record where
  "demo_urgent = \<lparr>tr_definition = (demo_definition ''z'' [])\<lparr>td_priority := 2\<rparr>, tr_status = TsPending, tr_attempts = 0\<rparr>"

definition demo_two :: "task_record \<Rightarrow> task_graph" where
  "demo_two r = \<lparr>tg_tasks = [(''a'', demo_task ''a'' [] TsPending 0), (''z'', r)],
     tg_messages = [], tg_attempt_bindings = [], tg_next_message_sequence = 1, tg_charge = 3074\<rparr>"

theorem task_claim_correct_witness:
  "\<exists>g' c changed. claim_ready_governed demo_graph_env (demo_two demo_urgent) ''worker'' 10 5 1 None [] (\<lambda>_. ''l0'') =
      Inr (g', [c], changed) \<and> td_priority (cl_task c) = 2 \<and>
    bm_get (tg_tasks g') ''z'' = Some (demo_urgent\<lparr>tr_status := TsRunning (cl_lease c), tr_attempts := 1\<rparr>) \<and>
    (td_priority (cl_task c) > td_priority (demo_definition ''a'' []) \<or>
      td_priority (cl_task c) = td_priority (demo_definition ''a'' []) \<and> td_id (cl_task c) < ''a'')"
proof -
  let ?c = "\<lparr>cl_task = tr_definition demo_urgent, cl_lease = demo_lease, cl_execution_binding = None\<rparr>"
  let ?g = "demo_two (demo_urgent\<lparr>tr_status := TsRunning demo_lease, tr_attempts := 1\<rparr>)"
  have claimed: "claim_ready_governed demo_graph_env (demo_two demo_urgent) ''worker'' 10 5 1 None [] (\<lambda>_. ''l0'') =
      Inr (?g, [?c], True)"
    by (simp add: claim_ready_governed_def demo_graph_defs graph_mutation_eval graph_charge_eval string_eval
        demo_two_def demo_urgent_def
        validate_capability_name_def capset_validate_def capset_satisfies_def checked_add_def
        check_attempts_def lease_expired_def expired_tasks_def blocked_mutations_def blocked_loop_rec newly_blocked_def
        claimable_tasks_def claim_order_def claim_key_def claim_task_def dependencies_completed_def
        MAX_CLAIMS_PER_BATCH_def MAX_TASK_CAPABILITIES_def Let_def)
  have keyed: "keyed (demo_two demo_urgent)"
    by (simp add: keyed_def bm_wf_def demo_two_def demo_urgent_def demo_task_def demo_definition_def)
  note claim = task_claim_correct [OF claimed keyed]
  have a: "demo_task ''a'' [] TsPending 0 \<in> set (bm_values (tg_tasks (demo_two demo_urgent)))"
    "eligible (demo_two demo_urgent) 10 [] (demo_task ''a'' [] TsPending 0)"
    by (simp_all add: demo_two_def bm_values_def eligible_def demo_task_def demo_definition_def dependencies_completed_def
        capset_satisfies_def)
  have "\<not> (\<exists>c\<in>set [?c]. cl_task c = tr_definition (demo_task ''a'' [] TsPending 0))"
    by (simp add: demo_urgent_def demo_task_def demo_definition_def)
  with claim a have "td_priority (cl_task ?c) > td_priority (demo_definition ''a'' []) \<or>
      td_priority (cl_task ?c) = td_priority (demo_definition ''a'' []) \<and> td_id (cl_task ?c) < ''a''"
    by (fastforce simp: demo_task_def demo_definition_def)
  moreover have "bm_get (tg_tasks ?g) ''z'' = Some (demo_urgent\<lparr>tr_status := TsRunning demo_lease, tr_attempts := 1\<rparr>)"
    by (simp add: demo_two_def bm_get_def)
  ultimately show ?thesis
    using claimed by (intro exI [of _ ?g] exI [of _ ?c] exI [of _ True]) (simp add: demo_urgent_def)
qed

text \<open>
  functional. Reading messages by cursor loses nothing and repeats nothing: in a graph whose
  messages are in increasing sequence, a page is a prefix, no longer than the limit, of the Task's
  messages after the cursor; what is left are exactly the Task's messages after the returned
  cursor, and there are some exactly when \<open>has_more\<close> is set; and a page is empty only at the end
  when every message fits a page.
\<close>

theorem task_message_page_complete:
  assumes "messages_page_for env g i after limit = Inr page"
    and "sorted_wrt (<) (map tm_sequence (tg_messages g))"
    and "\<forall>m\<in>set (tg_messages g). \<exists>c\<le>MAX_MESSAGE_PAGE_BYTES. message_materialization_charge env m = Inr c"
  shows "let matching = filter (\<lambda>m. tm_to m = i \<and> after < tm_sequence m) (tg_messages g);
      cursor = (case pg_next_after_sequence page of None \<Rightarrow> after | Some s \<Rightarrow> s);
      rest = filter (\<lambda>m. tm_to m = i \<and> cursor < tm_sequence m) (tg_messages g) in
    matching = pg_messages page @ rest \<and> (pg_has_more page \<longleftrightarrow> rest \<noteq> []) \<and>
    length (pg_messages page) \<le> limit \<and> (pg_messages page = [] \<longrightarrow> matching = [])"
proof -
  let ?ms = "filter (\<lambda>m. tm_to m = i \<and> after < tm_sequence m) (tg_messages g)"
  from assms(1) obtain page' left where limit: "1 \<le> limit" and fill: "fill_page env limit [] 0 ?ms = Inr (page', left)"
    and page: "page = \<lparr>pg_messages = page', pg_next_after_sequence =
      (if page' = [] then None else Some (tm_sequence (last page'))), pg_has_more = left\<rparr>"
    by (auto simp: messages_page_for_def and_then_eq_Inr split: if_splits)
  from fill_page_take [OF fill] obtain k where k: "k \<le> length ?ms" "page' = take k ?ms"
    "left \<longleftrightarrow> k < length ?ms" "length page' \<le> limit" by auto
  have sorted: "sorted_wrt (<) (map tm_sequence ?ms)"
    using assms(2) by (simp add: sorted_wrt_map sorted_wrt_filter)
  show ?thesis
  proof (cases "k = 0")
    case True
    have "?ms = []"
    proof (rule ccontr)
      assume "?ms \<noteq> []"
      then obtain m ms where ms: "?ms = m # ms" by (cases ?ms) auto
      then have "m \<in> set (tg_messages g)" by (metis filter_is_subset list.set_intros(1) subsetD)
      with assms(3) obtain c where "message_materialization_charge env m = Inr c" "c \<le> MAX_MESSAGE_PAGE_BYTES" by blast
      from fill_page_progress [OF fill [unfolded ms] limit this] k(2) True show False by simp
    qed
    with k page show ?thesis by (simp add: Let_def)
  next
    case False
    have len: "length page' = k" using k(1,2) by simp
    with False have "page' \<noteq> []" by auto
    moreover from last_conv_nth [OF this] len False have "last page' = ?ms ! (k - 1)" by (simp add: k(2))
    moreover have "filter (\<lambda>m. tm_to m = i \<and> tm_sequence (?ms ! (k - 1)) < tm_sequence m) (tg_messages g) = drop k ?ms"
    proof -
      have "after < tm_sequence (?ms ! (k - 1))"
        using nth_mem [of "k - 1" ?ms] False k(1) by auto
      then have "filter (\<lambda>m. tm_to m = i \<and> tm_sequence (?ms ! (k - 1)) < tm_sequence m) (tg_messages g) =
          filter (\<lambda>m. tm_sequence (?ms ! (k - 1)) < tm_sequence m) ?ms"
        by (auto intro: filter_cong)
      with filter_after_take [OF sorted] False k(1) show ?thesis by simp
    qed
    moreover have "?ms = page' @ drop k ?ms" "left \<longleftrightarrow> drop k ?ms \<noteq> []" using k by auto
    ultimately show ?thesis using k(4) page by (simp only: Let_def) simp
  qed
qed

theorem task_message_page_complete_witness:
  "messages_page_for demo_graph_env demo_mail ''b'' 0 2 = Inr \<lparr>pg_messages = [demo_message 1 ''m'', demo_message 2 ''n''],
     pg_next_after_sequence = Some 2, pg_has_more = True\<rparr> \<and>
   filter (\<lambda>m. tm_to m = ''b'' \<and> 0 < tm_sequence m) (tg_messages demo_mail) =
     [demo_message 1 ''m'', demo_message 2 ''n''] @
     filter (\<lambda>m. tm_to m = ''b'' \<and> 2 < tm_sequence m) (tg_messages demo_mail)"
proof -
  have page: "messages_page_for demo_graph_env demo_mail ''b'' 0 2 =
      Inr \<lparr>pg_messages = [demo_message 1 ''m'', demo_message 2 ''n''], pg_next_after_sequence = Some 2, pg_has_more = True\<rparr>"
    by (simp add: messages_page_for_def demo_mail_def demo_message_def MAX_MESSAGE_PAGE_ITEMS_def
        MAX_MESSAGE_PAGE_BYTES_def demo_graph_defs graph_charge_eval bm_contains_def bm_get_def)
  have "sorted_wrt (<) (map tm_sequence (tg_messages demo_mail))"
    by (simp add: demo_mail_def demo_message_def)
  moreover have "\<forall>m\<in>set (tg_messages demo_mail).
      \<exists>c\<le>MAX_MESSAGE_PAGE_BYTES. message_materialization_charge demo_graph_env m = Inr c"
    by (simp add: demo_mail_def demo_message_def MAX_MESSAGE_PAGE_BYTES_def demo_graph_env_def graph_charge_eval)
  ultimately show ?thesis using page task_message_page_complete [OF page] by (simp add: Let_def)
qed

end
