(* ===== verification/Task_Integrity.thy ===== *)
theory Task_Integrity
  imports Task_Steps
begin

text \<open>
  \<open>validate_integrity\<close> of the Task Graph as an invariant. The loops of the validator are first
  turned into predicates on the whole graph; then every batch of legal mutations keeps them, so
  that a graph built by \<open>TaskGraph::new\<close> passes the validator after any sequence of operations.
  The byte charge is shown to be the sum it stands for, which also gives that storing and reading
  a graph returns it, and that the terminal reserve always leaves room to cancel.
\<close>


section \<open>Byte charges as sums\<close>

definition charge_or_0 :: "usize result \<Rightarrow> usize" where
  "charge_or_0 x = (case x of Inl _ \<Rightarrow> 0 | Inr c \<Rightarrow> c)"

lemma charge_or_0_Inr [simp]: "charge_or_0 (Inr c) = c"
  by (simp add: charge_or_0_def)

lemma charge_fold_ok:
  "try_fold (\<lambda>total x. and_then (ch x) (checked_graph_charge_add total)) t xs = Inr c \<longleftrightarrow>
     (\<forall>x\<in>set xs. is_ok (ch x)) \<and> c = t + sum_list (map (\<lambda>x. charge_or_0 (ch x)) xs) \<and> (xs = [] \<or> c < 2 ^ 64)"
proof (induction xs arbitrary: t)
  case (Cons x xs)
  show ?case
  proof (cases "ch x")
    case (Inr d)
    then show ?thesis using Cons [of "t + d"]
      by (auto simp: and_then_eq_Inr graph_charge_add_ok)
  qed simp
qed auto

definition task_charge :: "graph_env \<Rightarrow> string \<times> task_record \<Rightarrow> usize result" where
  "task_charge env = (\<lambda>(i, r). task_materialization_charge env i r)"

definition total_charge :: "graph_env \<Rightarrow> task_graph \<Rightarrow> usize" where
  "total_charge env g = TASK_GRAPH_BASE_CHARGE_BYTES +
     sum_list (map (\<lambda>x. charge_or_0 (task_charge env x)) (tg_tasks g)) +
     sum_list (map (\<lambda>m. charge_or_0 (message_materialization_charge env m)) (tg_messages g)) +
     sum_list (map (\<lambda>e. charge_or_0 (attempt_binding_materialization_charge env e)) (tg_attempt_bindings g))"

definition encodable :: "graph_env \<Rightarrow> task_graph \<Rightarrow> bool" where
  "encodable env g \<longleftrightarrow> (\<forall>x\<in>set (tg_tasks g). is_ok (task_charge env x)) \<and>
     (\<forall>m\<in>set (tg_messages g). is_ok (message_materialization_charge env m)) \<and>
     (\<forall>e\<in>set (tg_attempt_bindings g). is_ok (attempt_binding_materialization_charge env e))"

lemma calculate_charge_ok:
  "calculate_materialization_charge env g = Inr c \<longleftrightarrow>
     encodable env g \<and> c = total_charge env g \<and> c \<le> MAX_TASK_GRAPH_JSON_BYTES"
proof -
  have f: "(\<lambda>total (i, r). and_then (task_materialization_charge env i r) (checked_graph_charge_add total)) =
      (\<lambda>total x. and_then (task_charge env x) (checked_graph_charge_add total))"
    by (auto simp: task_charge_def fun_eq_iff)
  show ?thesis
    unfolding calculate_materialization_charge_def f and_then_eq_Inr charge_fold_ok validate_graph_charge_ok
    by (auto simp: encodable_def total_charge_def MAX_TASK_GRAPH_JSON_BYTES_def)
qed

lemma sum_update:
  fixes h :: "_ \<Rightarrow> nat"
  assumes "bm_wf m" and "bm_get m k = Some v"
  shows "sum_list (map h (bm_update k f m)) + h (k, v) = sum_list (map h m) + h (k, f v)"
  using assms
proof (induction m)
  case (Cons x m)
  obtain k' v' where x: "x = (k', v')" by (cases x)
  have wf: "bm_wf m" using Cons.prems(1) by (simp add: bm_wf_def)
  show ?case
  proof (cases "k' = k")
    case True
    then have "k \<notin> fst ` set m" using Cons.prems(1) by (auto simp: bm_wf_def x)
    then have "bm_update k f m = m" by (force simp: bm_update_def intro!: map_idI)
    with True Cons.prems(2) show ?thesis by (simp add: x bm_update_def bm_get_def)
  next
    case False
    with Cons.IH [OF wf] Cons.prems(2) show ?thesis by (simp add: x bm_update_def bm_get_def)
  qed
qed (simp add: bm_get_def)

text \<open>One mutation changes the sum by the difference the checking loop computes.\<close>

lemma commit_mutation_charge:
  assumes "bm_wf (tg_tasks g)" and "bm_get (tg_tasks g) (mu_id m) = Some r"
    and "task_materialization_charge env (mu_id m) r = Inr old"
    and "task_materialization_charge_parts env (mu_id m) (tr_definition r) (mu_status m) (mu_attempts m) = Inr new"
    and "case mu_attempt_binding m of None \<Rightarrow> b = 0 | Some e \<Rightarrow> attempt_binding_materialization_charge env e = Inr b"
  shows "total_charge env (commit_mutation g m) + old = total_charge env g + new + b"
    and "encodable env g \<Longrightarrow> encodable env (commit_mutation g m)"
proof -
  let ?f = "\<lambda>record. record\<lparr>tr_status := mu_status m, tr_attempts := mu_attempts m\<rparr>"
  have new: "task_charge env (mu_id m, ?f r) = Inr new" and old: "task_charge env (mu_id m, r) = Inr old"
    using assms(3,4) by (simp_all add: task_charge_def task_materialization_charge_def)
  note sum = sum_update [OF assms(1,2), of "\<lambda>x. charge_or_0 (task_charge env x)" ?f, unfolded new old]
  show "total_charge env (commit_mutation g m) + old = total_charge env g + new + b"
    using sum assms(5) by (cases "mu_attempt_binding m") (auto simp: total_charge_def commit_mutation_def)
  assume en: "encodable env g"
  have "is_ok (task_charge env x)" if "x \<in> set (bm_update (mu_id m) ?f (tg_tasks g))" for x
  proof (cases "fst x = mu_id m")
    case True
    have "bm_get (bm_update (mu_id m) ?f (tg_tasks g)) (fst x) = Some (snd x)"
      using that bm.get_Some_iff [of "bm_update (mu_id m) ?f (tg_tasks g)"] assms(1) by simp
    with True assms(2) have "snd x = ?f r" by (simp add: bm_get_update)
    with True new show ?thesis by (metis is_ok_simps(1) prod.collapse)
  next
    case False
    with that have "x \<in> set (tg_tasks g)" by (auto simp: bm_update_def)
    with en show ?thesis by (simp add: encodable_def)
  qed
  with en assms(5) show "encodable env (commit_mutation g m)"
    by (cases "mu_attempt_binding m") (auto simp: encodable_def commit_mutation_def)
qed

text \<open>After the whole batch the recomputed charge is the one the loop arrived at.\<close>

lemma mutations_charge:
  assumes "apply_task_mutations env g ms = Inr g'" and "keyed g"
    and "tg_charge g = total_charge env g" and "encodable env g"
  shows "tg_charge g' = total_charge env g'" and "encodable env g'" and "tg_charge g' \<le> MAX_TASK_GRAPH_JSON_BYTES"
proof -
  from assms obtain seen ids' charge where
    fold: "try_fold (check_mutation env g) ({}, ta_lease_id ` set (tg_attempt_bindings g), tg_charge g) ms
      = Inr (seen, ids', charge)"
    and g': "g' = (foldl commit_mutation g ms)\<lparr>tg_charge := charge\<rparr>"
    and limit: "charge \<le> MAX_TASK_GRAPH_JSON_BYTES"
    by (auto simp: apply_task_mutations_def Let_def and_then_eq_Inr validate_graph_charge_ok split: if_splits)
  have "fst s = mu_id ` set ms \<and> distinct (map mu_id ms) \<and> snd (snd s) = total_charge env (foldl commit_mutation g ms) \<and>
      encodable env (foldl commit_mutation g ms)"
    if "try_fold (check_mutation env g) ({}, ta_lease_id ` set (tg_attempt_bindings g), tg_charge g) ms = Inr s" for s
    using that
  proof (induction rule: try_fold_prefix_induct)
    case (snoc ms m s s')
    obtain seen ids c seen' ids' c' where s: "s = (seen, ids, c)" "s' = (seen', ids', c')" by (cases s; cases s')
    from snoc.hyps(2) obtain r old new b where step: "mu_id m \<notin> seen" "seen' = insert (mu_id m) seen"
      "bm_get (tg_tasks g) (mu_id m) = Some r"
      "task_materialization_charge env (mu_id m) r = Inr old"
      "task_materialization_charge_parts env (mu_id m) (tr_definition r) (mu_status m) (mu_attempts m) = Inr new"
      "case mu_attempt_binding m of None \<Rightarrow> b = 0 | Some e \<Rightarrow> attempt_binding_materialization_charge env e = Inr b"
      "old \<le> c" "c' = c - old + new + b"
      unfolding s check_mutation_ok by (cases "mu_attempt_binding m") auto
    let ?g = "foldl commit_mutation g ms"
    have "mutation_of ms (mu_id m) = None" using step(1) snoc.IH s by (intro mutation_of_None) auto
    with step(3) snoc.IH have get: "bm_get (tg_tasks ?g) (mu_id m) = Some r" by (simp add: foldl_commit_get)
    have wf: "bm_wf (tg_tasks ?g)"
      using assms(2) foldl_commit_frame(4) [of g ms] by (simp add: keyed_def bm_wf_def bm_keys_def)
    from commit_mutation_charge [OF wf get step(4-6)] snoc.IH step(1,2,7,8) s show ?case by auto
  qed (use assms in auto)
  from this [OF fold] g' limit show "tg_charge g' = total_charge env g'" "encodable env g'"
    "tg_charge g' \<le> MAX_TASK_GRAPH_JSON_BYTES"
    by (auto simp: total_charge_def encodable_def)
qed

section \<open>The loops of \<open>validate_integrity\<close> as predicates\<close>

definition evidence_sound :: "graph_env \<Rightarrow> task_graph \<Rightarrow> task_attempt_binding \<Rightarrow> bool" where
  "evidence_sound env g e \<longleftrightarrow> validate_attempt_binding env e = Inr () \<and> ta_attempt e \<noteq> 0 \<and>
     (\<exists>r. bm_get (tg_tasks g) (ta_task_id e) = Some r \<and> ta_attempt e \<le> tr_attempts r)"

definition attempt_key :: "task_attempt_binding \<Rightarrow> string \<times> u32" where
  "attempt_key e = (ta_task_id e, ta_attempt e)"

lemma validate_evidence_ok:
  "validate_evidence env g (L, A) e = Inr s \<longleftrightarrow> evidence_sound env g e \<and> ta_lease_id e \<notin> L \<and> attempt_key e \<notin> A \<and>
     s = (insert (ta_lease_id e) L, insert (attempt_key e) A)"
  by (auto simp: validate_evidence_def evidence_sound_def attempt_key_def and_then_eq_Inr ok_or_eq_Inr not_less)

lemma evidence_fold_ok:
  "is_ok (try_fold (validate_evidence env g) (L, A) es) \<longleftrightarrow> (\<forall>e\<in>set es. evidence_sound env g e) \<and>
     distinct (map ta_lease_id es) \<and> distinct (map attempt_key es) \<and>
     ta_lease_id ` set es \<inter> L = {} \<and> attempt_key ` set es \<inter> A = {}"
proof (induction es arbitrary: L A)
  case (Cons e es)
  show ?case
  proof (cases "evidence_sound env g e \<and> ta_lease_id e \<notin> L \<and> attempt_key e \<notin> A")
    case True
    then have "validate_evidence env g (L, A) e = Inr (insert (ta_lease_id e) L, insert (attempt_key e) A)"
      by (simp add: validate_evidence_ok)
    with True Cons show ?thesis by auto
  next
    case False
    then have "\<not> is_ok (validate_evidence env g (L, A) e)" by (auto simp: is_ok_iff validate_evidence_ok)
    with False show ?thesis by (cases "validate_evidence env g (L, A) e") auto
  qed
qed simp

definition message_sound :: "task_graph \<Rightarrow> task_message \<Rightarrow> bool" where
  "message_sound g m \<longleftrightarrow> bm_contains (tg_tasks g) (tm_from m) \<and> bm_contains (tg_tasks g) (tm_to m) \<and>
     \<not> trim_is_empty (tm_body m) \<and> length (tm_body m) \<le> MAX_MESSAGE_BYTES"

lemma validate_message_ok:
  "validate_message g (n, ids) m = Inr s \<longleftrightarrow> unat (tm_sequence m) = Suc n \<and> tm_id m \<notin> ids \<and> message_sound g m \<and>
     s = (Suc n, insert (tm_id m) ids)"
  by (auto simp: validate_message_def message_sound_def and_then_eq_Inr ok_or_eq_Inr next_number_Some not_less)

lemma message_fold_ok:
  "is_ok (try_fold (validate_message g) (n, ids) ms) \<longleftrightarrow> (\<forall>m\<in>set ms. message_sound g m) \<and>
     map (\<lambda>m. unat (tm_sequence m)) ms = [Suc n..<Suc (n + length ms)] \<and>
     distinct (map tm_id ms) \<and> tm_id ` set ms \<inter> ids = {}"
proof (induction ms arbitrary: n ids)
  case (Cons m ms)
  show ?case
  proof (cases "unat (tm_sequence m) = Suc n \<and> tm_id m \<notin> ids \<and> message_sound g m")
    case True
    then have "validate_message g (n, ids) m = Inr (Suc n, insert (tm_id m) ids)" by (simp add: validate_message_ok)
    with True Cons show ?thesis by (auto simp: upt_conv_Cons simp del: upt_Suc)
  next
    case False
    then have "\<not> is_ok (validate_message g (n, ids) m)" by (auto simp: is_ok_iff validate_message_ok)
    with False show ?thesis
      by (cases "validate_message g (n, ids) m") (auto simp: upt_conv_Cons simp del: upt_Suc)
  qed
qed simp

definition running_bound :: "task_graph \<Rightarrow> task_record \<Rightarrow> bool" where
  "running_bound g r \<longleftrightarrow> (\<forall>l. tr_status r = TsRunning l \<longrightarrow> (\<exists>e\<in>set (tg_attempt_bindings g).
     ta_lease_id e = tl_id l \<and> ta_task_id e = td_id (tr_definition r) \<and> ta_attempt e = tl_attempt l \<and>
     ta_claimed_by e = tl_owner l))"

definition governed_sound :: "task_graph \<Rightarrow> task_record \<Rightarrow> bool" where
  "governed_sound g r \<longleftrightarrow> (let bound = set (bound_attempts g (td_id (tr_definition r))) in
     bound \<noteq> {} \<longrightarrow> {Min bound..tr_attempts r} \<subseteq> bound \<and> running_bound g r)"

lemma find_distinct:
  "distinct (map k xs) \<Longrightarrow> find (\<lambda>x. k x = y) xs = Some x \<longleftrightarrow> x \<in> set xs \<and> k x = y"
  by (induction xs) auto

lemma word_interval:
  fixes a b :: u32
  shows "(\<forall>n\<in>{unat a..unat b}. of_nat n \<in> S) \<longleftrightarrow> {a..b} \<subseteq> S"
proof -
  have "of_nat ` {unat a..unat b} = {a..b}"
  proof (intro set_eqI iffI)
    fix x assume "x \<in> (of_nat ` {unat a..unat b} :: u32 set)"
    then obtain n where n: "x = of_nat n" "unat a \<le> n" "n \<le> unat b" by auto
    moreover have "unat b < 2 ^ 32" using unsigned_less [of b, where 'a = nat] by simp
    ultimately have "unat x = n" by (simp add: unat_of_nat take_bit_nat_eq_self)
    with n show "x \<in> {a..b}" by (simp add: word_le_nat_alt)
  next
    fix x assume "x \<in> {a..b}"
    then show "x \<in> of_nat ` {unat a..unat b}"
      by (intro image_eqI [of _ _ "unat x"]) (simp_all add: word_le_nat_alt)
  qed
  then show ?thesis by (metis image_subset_iff)
qed

lemma validate_governed_ok:
  assumes "distinct (map ta_lease_id (tg_attempt_bindings g))"
  shows "validate_governed g r = Inr () \<longleftrightarrow> governed_sound g r"
proof -
  let ?bound = "bound_attempts g (td_id (tr_definition r))"
  have gaps: "\<not> list_ex (\<lambda>a. of_nat a \<notin> set ?bound) [unat (Min (set ?bound))..<Suc (unat (tr_attempts r))] \<longleftrightarrow>
      {Min (set ?bound)..tr_attempts r} \<subseteq> set ?bound"
    unfolding word_interval [symmetric] by (auto simp: list_ex_iff simp del: upt_Suc)
  show ?thesis
  proof (cases "?bound = []")
    case False
    then show ?thesis
      unfolding validate_governed_def Let_def governed_sound_def running_bound_def gaps [symmetric]
      by (cases "tr_status r")
        (auto simp: and_then_eq_Inr ok_or_eq_Inr find_distinct [OF assms] simp del: upt_Suc split: if_splits)
  qed (simp add: validate_governed_def governed_sound_def)
qed

text \<open>What a graph that passes \<open>validate_integrity\<close> satisfies, part by part.\<close>


definition definitions_sound :: "graph_env \<Rightarrow> task_graph \<Rightarrow> bool" where
  "definitions_sound env g \<longleftrightarrow> length (tg_tasks g) \<le> MAX_TASKS \<and>
     (\<forall>(i, r)\<in>set (tg_tasks g). td_id (tr_definition r) = i) \<and>
     is_ok (task_graph_new env (map tr_definition (bm_values (tg_tasks g))))"

definition evidence_all_sound :: "graph_env \<Rightarrow> task_graph \<Rightarrow> bool" where
  "evidence_all_sound env g \<longleftrightarrow> length (tg_attempt_bindings g) \<le> MAX_TASK_ATTEMPT_BINDINGS \<and>
     (\<forall>e\<in>set (tg_attempt_bindings g). evidence_sound env g e) \<and>
     distinct (map ta_lease_id (tg_attempt_bindings g)) \<and> distinct (map attempt_key (tg_attempt_bindings g)) \<and>
     (\<forall>r\<in>set (bm_values (tg_tasks g)). governed_sound g r)"

definition messages_sound :: "task_graph \<Rightarrow> bool" where
  "messages_sound g \<longleftrightarrow> length (tg_messages g) \<le> MAX_MESSAGES \<and> (\<forall>m\<in>set (tg_messages g). message_sound g m) \<and>
     map (\<lambda>m. unat (tm_sequence m)) (tg_messages g) = [1..<Suc (length (tg_messages g))] \<and>
     distinct (map tm_id (tg_messages g)) \<and> unat (tg_next_message_sequence g) = Suc (length (tg_messages g))"

definition charge_sound :: "graph_env \<Rightarrow> task_graph \<Rightarrow> bool" where
  "charge_sound env g \<longleftrightarrow> encodable env g \<and> tg_charge g = total_charge env g \<and>
     tg_charge g \<le> MAX_TASK_GRAPH_JSON_BYTES"

lemma is_ok_iff_unit: "is_ok m \<longleftrightarrow> m = Inr ()"
  by (cases m) simp_all

lemma validate_integrity_ok:
  "validate_integrity env g = Inr () \<longleftrightarrow> definitions_sound env g \<and>
     (\<forall>r\<in>set (bm_values (tg_tasks g)). validate_status r = Inr ()) \<and> evidence_all_sound env g \<and>
     messages_sound g \<and> charge_sound env g"
proof -
  have ev: "(\<exists>s. try_fold (validate_evidence env g) ({}, {}) (tg_attempt_bindings g) = Inr s) \<longleftrightarrow>
      (\<forall>e\<in>set (tg_attempt_bindings g). evidence_sound env g e) \<and>
      distinct (map ta_lease_id (tg_attempt_bindings g)) \<and> distinct (map attempt_key (tg_attempt_bindings g))"
    using evidence_fold_ok [of env g "{}" "{}"] by (simp add: is_ok_iff)
  have ms: "(\<exists>s. try_fold (validate_message g) (0, {}) (tg_messages g) = Inr s) \<longleftrightarrow>
      (\<forall>m\<in>set (tg_messages g). message_sound g m) \<and>
      map (\<lambda>m. unat (tm_sequence m)) (tg_messages g) = [1..<Suc (length (tg_messages g))] \<and>
      distinct (map tm_id (tg_messages g))"
    using message_fold_ok [of g 0 "{}"] by (simp add: is_ok_iff)
  have key: "(\<forall>x\<in>set (tg_tasks g). (case x of (i, r) \<Rightarrow> if i \<noteq> td_id (tr_definition r)
      then Inl (orch (O_integrity (Key_differs i (td_id (tr_definition r))))) else Inr ()) = Inr ()) \<longleftrightarrow>
      (\<forall>(i, r)\<in>set (tg_tasks g). td_id (tr_definition r) = i)"
    by (intro ball_cong) (auto split: if_splits)
  have "validate_integrity env g = Inr () \<longleftrightarrow> definitions_sound env g \<and>
     (\<forall>r\<in>set (bm_values (tg_tasks g)). validate_status r = Inr ()) \<and>
     length (tg_attempt_bindings g) \<le> MAX_TASK_ATTEMPT_BINDINGS \<and>
     (\<exists>s. try_fold (validate_evidence env g) ({}, {}) (tg_attempt_bindings g) = Inr s) \<and>
     (\<forall>r\<in>set (bm_values (tg_tasks g)). validate_governed g r = Inr ()) \<and>
     length (tg_messages g) \<le> MAX_MESSAGES \<and>
     (\<exists>s. try_fold (validate_message g) (0, {}) (tg_messages g) = Inr s) \<and>
     unat (tg_next_message_sequence g) = Suc (length (tg_messages g)) \<and>
     calculate_materialization_charge env g = Inr (tg_charge g)"
    unfolding validate_integrity_def if_Inl_eq_Inr and_then_eq_Inr for_each_ok key ok_or_eq_Inr next_number_Some
      definitions_sound_def is_ok_iff not_less
    by auto
  also have "\<dots> \<longleftrightarrow> definitions_sound env g \<and>
     (\<forall>r\<in>set (bm_values (tg_tasks g)). validate_status r = Inr ()) \<and> evidence_all_sound env g \<and>
     messages_sound g \<and> charge_sound env g"
    unfolding ev ms calculate_charge_ok evidence_all_sound_def messages_sound_def charge_sound_def
    using validate_governed_ok by blast
  finally show ?thesis .
qed

section \<open>Mutations keep the integrity\<close>

lemma integrity_keyed: "bm_wf (tg_tasks g) \<Longrightarrow> definitions_sound env g \<Longrightarrow> keyed g"
  by (auto simp: keyed_def definitions_sound_def)

lemma commit_definitions:
  "map (\<lambda>(i, r). (i, tr_definition r)) (tg_tasks (foldl commit_mutation g ms)) =
     map (\<lambda>(i, r). (i, tr_definition r)) (tg_tasks g)"
  by (induction ms arbitrary: g) (auto simp: commit_mutation_def bm_update_def)

lemma mutations_definitions:
  assumes "apply_task_mutations env g ms = Inr g'"
  shows "definitions_sound env g' = definitions_sound env g"
proof -
  from assms obtain charge where g': "g' = (foldl commit_mutation g ms)\<lparr>tg_charge := charge\<rparr>"
    by (auto simp: apply_task_mutations_def Let_def and_then_eq_Inr split: if_splits)
  have eq: "map (\<lambda>(i, r). (i, tr_definition r)) (tg_tasks g') = map (\<lambda>(i, r). (i, tr_definition r)) (tg_tasks g)"
    by (simp add: g' commit_definitions)
  have "map tr_definition (bm_values t) = map snd (map (\<lambda>(i, r). (i, tr_definition r)) t)" for t :: "(string, task_record) btree_map"
    by (simp add: bm_values_def split_def comp_def)
  moreover have "(\<forall>(i, r)\<in>set t. td_id (tr_definition r) = i) \<longleftrightarrow>
      (\<forall>(i, d)\<in>set (map (\<lambda>(i, r). (i, tr_definition r)) t). td_id d = i)" for t :: "(string, task_record) btree_map"
    by auto
  moreover from eq have "length (tg_tasks g') = length (tg_tasks g)" by (rule map_eq_imp_length_eq)
  ultimately show ?thesis unfolding definitions_sound_def by (simp only: eq)
qed

lemma insert_definitions_valid:
  assumes "try_fold insert_definition tasks ds = Inr tasks'" and "d \<in> set ds"
  shows "validate_task_definition d = Inr ()"
  using assms
proof (induction ds arbitrary: tasks)
  case (Cons x ds)
  then show ?case by (cases "validate_task_definition x") (auto simp: and_then_eq_Inr insert_definition_def)
qed simp

lemma definitions_sound_valid:
  assumes "definitions_sound env g" and "r \<in> set (bm_values (tg_tasks g))"
  shows "validate_task_definition (tr_definition r) = Inr ()"
proof -
  from assms(1) obtain tasks where
    "try_fold insert_definition [] (map tr_definition (bm_values (tg_tasks g))) = Inr tasks"
    by (auto simp: definitions_sound_def is_ok_iff task_graph_new_def and_then_eq_Inr Let_def split: if_splits)
  from insert_definitions_valid [OF this] assms(2) show ?thesis by simp
qed

lemma blocked_reason_valid:
  assumes "validate_task_definition d = Inr ()" and "i \<in> set (td_dependencies d)"
  shows "validate_task_text (blocked_reason i) = Inr ()"
proof -
  from assms have "length i \<le> 256"
    by (auto simp: validate_task_definition_def and_then_eq_Inr for_each_ok validate_task_id_def split: if_splits)
  moreover have "\<not> trim_is_empty (blocked_reason i)"
    by (simp add: blocked_reason_def string_eval)
  ultimately show ?thesis
    by (simp add: validate_task_text_def blocked_reason_def MAX_TASK_TEXT_BYTES_def)
qed

lemma task_move_status:
  assumes "task_move g now r r'" and "validate_status r = Inr ()" and "validate_task_definition (tr_definition r) = Inr ()"
  shows "validate_status r' = Inr ()"
  using assms
proof (induction rule: task_move.induct)
  case (claim r l)
  then have "unat (tl_attempt l) = Suc (unat (tr_attempts r))" by (simp add: checked_add_Some)
  then have "tl_attempt l \<noteq> 0" by auto
  with claim show ?case by (simp add: validate_status_def)
next
  case (block r d)
  then show ?case by (simp add: validate_status_def blocked_reason_valid)
qed (auto simp: validate_status_def and_then_eq_Inr split: if_splits)

lemma mutations_statuses:
  assumes "apply_task_mutations env g ms = Inr g'" and "\<forall>m\<in>set ms. legal now g m" and "keyed g"
    and "definitions_sound env g" and "\<forall>r\<in>set (bm_values (tg_tasks g)). validate_status r = Inr ()"
  shows "\<forall>r\<in>set (bm_values (tg_tasks g')). validate_status r = Inr ()"
proof
  fix r'
  assume "r' \<in> set (bm_values (tg_tasks g'))"
  then obtain i where "bm_get (tg_tasks g') i = Some r'"
    using keyed_get apply_task_mutations_keyed [OF assms(1,3)] by blast
  then obtain r where r: "bm_get (tg_tasks g) i = Some r" "r' = mutate (mutation_of ms i) r"
    using apply_task_mutations_ok(3) [OF assms(1), of i] by auto
  then have old: "r \<in> set (bm_values (tg_tasks g))" using bm_get_value by fast
  show "validate_status r' = Inr ()"
  proof (cases "mutation_of ms i")
    case (Some m)
    with assms(2) mutation_of_Some [OF Some] r have "task_move g now r r'" by (auto simp: legal_def)
    with task_move_status assms(4,5) old definitions_sound_valid show ?thesis by blast
  qed (use r old assms(5) in simp)
qed

definition evidence_of :: "task_mutation list \<Rightarrow> task_attempt_binding list" where
  "evidence_of ms = concat (map (\<lambda>m. case mu_attempt_binding m of None \<Rightarrow> [] | Some e \<Rightarrow> [e]) ms)"

lemma evidence_of_member: "e \<in> set (evidence_of ms) \<longleftrightarrow> (\<exists>m\<in>set ms. mu_attempt_binding m = Some e)"
  by (induction ms) (auto simp: evidence_of_def split: option.splits)

lemma length_evidence_of: "length (evidence_of ms) = length (filter (\<lambda>m. mu_attempt_binding m \<noteq> None) ms)"
  by (induction ms) (auto simp: evidence_of_def split: option.splits)

lemma evidence_of_snoc [simp]: "evidence_of [] = []"
  "evidence_of (ms @ [m]) = evidence_of ms @ (case mu_attempt_binding m of None \<Rightarrow> [] | Some e \<Rightarrow> [e])"
  by (simp_all add: evidence_of_def)

lemmas mutations_append_evidence = apply_task_mutations_ok(7) [folded evidence_of_def]

lemma mutations_evidence:
  assumes "apply_task_mutations env g ms = Inr g'"
  shows "length (tg_attempt_bindings g') \<le> MAX_TASK_ATTEMPT_BINDINGS"
    and "\<forall>m\<in>set ms. \<forall>e. mu_attempt_binding m = Some e \<longrightarrow> binding_matches env m e"
    and "distinct (map ta_lease_id (tg_attempt_bindings g)) \<Longrightarrow> distinct (map ta_lease_id (tg_attempt_bindings g'))"
proof -
  let ?L = "ta_lease_id ` set (tg_attempt_bindings g)"
  from assms obtain s where fold: "try_fold (check_mutation env g) ({}, ?L, tg_charge g) ms = Inr s"
    and count: "length (tg_attempt_bindings g) + length (evidence_of ms) \<le> MAX_TASK_ATTEMPT_BINDINGS"
    by (auto simp: apply_task_mutations_def Let_def and_then_eq_Inr usize_checked_add_def length_evidence_of
        split: if_splits)
  note g' = mutations_append_evidence [OF assms]
  from count show "length (tg_attempt_bindings g') \<le> MAX_TASK_ATTEMPT_BINDINGS" by (simp add: g')
  have inv: "fst (snd s) = ?L \<union> ta_lease_id ` set (evidence_of ms) \<and>
      (\<forall>m\<in>set ms. \<forall>e. mu_attempt_binding m = Some e \<longrightarrow> binding_matches env m e) \<and>
      distinct (map ta_lease_id (evidence_of ms)) \<and> ta_lease_id ` set (evidence_of ms) \<inter> ?L = {}"
    using fold
  proof (induction rule: try_fold_prefix_induct)
    case (snoc ms m s s')
    obtain seen ids c seen' ids' c' where s: "s = (seen, ids, c)" "s' = (seen', ids', c')" by (cases s; cases s')
    show ?case
    proof (cases "mu_attempt_binding m")
      case None
      with snoc.hyps(2) snoc.IH show ?thesis unfolding s check_mutation_ok by auto
    next
      case (Some e)
      with snoc.hyps(2) have "binding_matches env m e" "ta_lease_id e \<notin> ids" "ids' = insert (ta_lease_id e) ids"
        unfolding s check_mutation_ok by auto
      with Some snoc.IH show ?thesis unfolding s by auto
    qed
  qed simp
  then show "\<forall>m\<in>set ms. \<forall>e. mu_attempt_binding m = Some e \<longrightarrow> binding_matches env m e" by blast
  from inv show "distinct (map ta_lease_id (tg_attempt_bindings g'))"
    if "distinct (map ta_lease_id (tg_attempt_bindings g))"
    using that by (auto simp: g')
qed

text \<open>What a legal batch does to one Task and its evidence.\<close>

lemma legal_evidence:
  assumes "apply_task_mutations env g ms = Inr g'" and "\<forall>m\<in>set ms. legal now g m"
    and "m \<in> set ms" and "mu_attempt_binding m = Some e"
  obtains r where "bm_get (tg_tasks g) (ta_task_id e) = Some r" "tr_attempts r < ta_attempt e"
    "bm_get (tg_tasks g') (ta_task_id e) = Some (mutate (Some m) r)" "mu_id m = ta_task_id e"
    "ta_attempt e = mu_attempts m"
proof -
  have match: "ta_task_id e = mu_id m" "ta_attempt e = mu_attempts m"
    using mutations_evidence(2) [OF assms(1)] assms(3,4) by (auto simp: binding_matches_def)
  from assms(2,3) have "legal now g m" by blast
  then obtain r where r: "bm_get (tg_tasks g) (mu_id m) = Some r"
    "task_move g now r (mutate (Some m) r)" "mu_attempts m \<noteq> tr_attempts r"
    using assms(4) unfolding legal_def by (metis option.distinct(1))
  with task_move_attempts [OF r(2)] have more: "tr_attempts r < mu_attempts m" by simp
  have "mutation_of ms (mu_id m) = Some m"
    using mutation_of_member [OF apply_task_mutations_ok(1) [OF assms(1)] assms(3)] .
  then have get: "bm_get (tg_tasks g') (mu_id m) = Some (mutate (Some m) r)"
    using apply_task_mutations_ok(3) [OF assms(1), of "mu_id m"] r(1) by simp
  show thesis by (rule that [of r]) (simp_all only: match r(1) more get)
qed

lemma evidence_sound_mono:
  assumes "apply_task_mutations env g ms = Inr g'" and "\<forall>m\<in>set ms. legal now g m" and "evidence_sound env g e"
  shows "evidence_sound env g' e"
proof -
  from assms(3) obtain r where r: "bm_get (tg_tasks g) (ta_task_id e) = Some r" "ta_attempt e \<le> tr_attempts r"
    by (auto simp: evidence_sound_def)
  have "tr_attempts r \<le> tr_attempts (mutate (mutation_of ms (ta_task_id e)) r)"
  proof (cases "mutation_of ms (ta_task_id e)")
    case (Some m)
    with assms(2) mutation_of_Some [OF Some] r(1) have "task_move g now r (mutate (Some m) r)"
      by (auto simp: legal_def)
    from task_move_attempts [OF this] Some show ?thesis by simp
  qed simp
  with r assms(3) apply_task_mutations_ok(3) [OF assms(1), of "ta_task_id e"] show ?thesis
    by (auto simp: evidence_sound_def)
qed

lemma new_evidence_sound:
  assumes "apply_task_mutations env g ms = Inr g'" and "\<forall>m\<in>set ms. legal now g m" and "e \<in> set (evidence_of ms)"
  shows "evidence_sound env g' e"
proof -
  from assms(3) obtain m where m: "m \<in> set ms" "mu_attempt_binding m = Some e" by (auto simp: evidence_of_member)
  from legal_evidence [OF assms(1,2) m] obtain r where
    "tr_attempts r < ta_attempt e" "bm_get (tg_tasks g') (ta_task_id e) = Some (mutate (Some m) r)"
    "ta_attempt e = mu_attempts m" .
  moreover have "validate_attempt_binding env e = Inr ()"
    using mutations_evidence(2) [OF assms(1)] m by (auto simp: binding_matches_def)
  ultimately show ?thesis by (auto simp: evidence_sound_def)
qed

lemma distinct_evidence_of:
  assumes "distinct (map mu_id ms)" and "\<And>m e. m \<in> set ms \<Longrightarrow> mu_attempt_binding m = Some e \<Longrightarrow> ta_task_id e = mu_id m"
  shows "distinct (map attempt_key (evidence_of ms))"
proof -
  have "distinct (map ta_task_id (evidence_of ms))"
    unfolding evidence_of_def using assms(1) by (rule distinct_concat_map) (use assms(2) in \<open>auto split: option.splits\<close>)
  moreover have "map ta_task_id (evidence_of ms) = map fst (map attempt_key (evidence_of ms))"
    by (simp add: attempt_key_def)
  ultimately show ?thesis by (metis distinct_map)
qed

lemma mutations_attempt_keys:
  assumes "apply_task_mutations env g ms = Inr g'" and "\<forall>m\<in>set ms. legal now g m"
    and "\<forall>e\<in>set (tg_attempt_bindings g). evidence_sound env g e" and "distinct (map attempt_key (tg_attempt_bindings g))"
  shows "distinct (map attempt_key (tg_attempt_bindings g'))"
proof -
  have "distinct (map attempt_key (evidence_of ms))"
    using apply_task_mutations_ok(1) [OF assms(1)] mutations_evidence(2) [OF assms(1)]
    by (intro distinct_evidence_of) (auto simp: binding_matches_def)
  moreover have "attempt_key e \<noteq> attempt_key e'"
    if "e \<in> set (tg_attempt_bindings g)" "e' \<in> set (evidence_of ms)" for e e'
  proof
    assume eq: "attempt_key e = attempt_key e'"
    from that(2) obtain m where m: "m \<in> set ms" "mu_attempt_binding m = Some e'" by (auto simp: evidence_of_member)
    from legal_evidence [OF assms(1,2) m] obtain r where
      "bm_get (tg_tasks g) (ta_task_id e') = Some r" "tr_attempts r < ta_attempt e'" .
    with eq that(1) assms(3) show False by (auto simp: attempt_key_def evidence_sound_def)
  qed
  then have "attempt_key ` set (tg_attempt_bindings g) \<inter> attempt_key ` set (evidence_of ms) = {}" by blast
  ultimately show ?thesis
    using assms(4) mutations_append_evidence [OF assms(1)] by simp
qed

lemma set_bound_attempts:
  "set (bound_attempts g i) = {ta_attempt e | e. e \<in> set (tg_attempt_bindings g) \<and> ta_task_id e = i}"
  by (auto simp: bound_attempts_def)

lemma running_bound_append:
  "running_bound g r \<Longrightarrow> set (tg_attempt_bindings g) \<subseteq> set (tg_attempt_bindings g') \<Longrightarrow> running_bound g' r"
  unfolding running_bound_def by blast

lemma governed_same:
  assumes "governed_sound g r" and "set (tg_attempt_bindings g) \<subseteq> set (tg_attempt_bindings g')"
    and "set (bound_attempts g' (td_id (tr_definition r))) = set (bound_attempts g (td_id (tr_definition r)))"
    and "tr_definition r' = tr_definition r" and "tr_attempts r' = tr_attempts r"
    and "running_bound g r \<Longrightarrow> running_bound g r'"
  shows "governed_sound g' r'"
  using assms running_bound_append by (auto simp: governed_sound_def Let_def)

lemma interval_extend:
  fixes S :: "u32 set"
  assumes "finite S" and "\<forall>x\<in>S. x \<le> a" and "S \<noteq> {} \<Longrightarrow> {Min S..a} \<subseteq> S" and "unat b = Suc (unat a)"
  shows "{Min (insert b S)..b} \<subseteq> insert b S"
proof (cases "S = {}")
  case False
  have le: "x \<le> a \<longleftrightarrow> x < b" for x using assms(4) by (simp add: word_le_nat_alt word_less_nat_alt less_Suc_eq_le)
  have "Min S \<le> a" using assms(1,2) False by simp
  then have "Min (insert b S) = Min S" using assms(1) False le by (simp add: Min_insert min_absorb2 less_imp_le del: Min_eq_iff eq_Min_iff)
  with assms(3) [OF False] le show ?thesis by (auto simp: less_le)
qed auto

text \<open>The attempts bound to a Task after a batch: those before, and that of its own mutation.\<close>

lemma mutations_bound_attempts:
  assumes app: "apply_task_mutations env g ms = Inr g'"
  shows "set (bound_attempts g' i) = set (bound_attempts g i) \<union>
    (case mutation_of ms i of None \<Rightarrow> {} | Some m \<Rightarrow>
      (case mu_attempt_binding m of None \<Rightarrow> {} | Some e \<Rightarrow> {ta_attempt e}))"
proof -
  have "e \<in> set (evidence_of ms) \<and> ta_task_id e = i \<longleftrightarrow>
      (\<exists>m. mutation_of ms i = Some m \<and> mu_attempt_binding m = Some e)" for e
  proof
    assume e: "e \<in> set (evidence_of ms) \<and> ta_task_id e = i"
    then obtain m where m: "m \<in> set ms" "mu_attempt_binding m = Some e" by (auto simp: evidence_of_member)
    with mutations_evidence(2) [OF app] have "binding_matches env m e" by blast
    with e have "mu_id m = i" by (auto simp: binding_matches_def)
    with mutation_of_member [OF apply_task_mutations_ok(1) [OF app] m(1)] m(2)
    show "\<exists>m. mutation_of ms i = Some m \<and> mu_attempt_binding m = Some e" by auto
  next
    assume "\<exists>m. mutation_of ms i = Some m \<and> mu_attempt_binding m = Some e"
    then obtain m where m: "m \<in> set ms" "mu_id m = i" "mu_attempt_binding m = Some e"
      using mutation_of_Some by blast
    with mutations_evidence(2) [OF app] have "binding_matches env m e" by blast
    with m show "e \<in> set (evidence_of ms) \<and> ta_task_id e = i"
      by (auto simp: binding_matches_def evidence_of_member)
  qed
  then have "{ta_attempt e | e. e \<in> set (evidence_of ms) \<and> ta_task_id e = i} =
      {ta_attempt e | e m. mutation_of ms i = Some m \<and> mu_attempt_binding m = Some e}" by auto
  moreover have "set (bound_attempts g' i) = set (bound_attempts g i) \<union>
      {ta_attempt e | e. e \<in> set (evidence_of ms) \<and> ta_task_id e = i}"
    unfolding set_bound_attempts mutations_append_evidence [OF app] by auto
  ultimately show ?thesis by (auto split: option.splits)
qed

text \<open>A Task that keeps its attempt counter keeps its lease identity.\<close>

lemma task_move_same_attempts:
  assumes "task_move g now r r'" and "tr_attempts r' = tr_attempts r" and "running_bound g r"
  shows "running_bound g r'"
  using assms by (cases rule: task_move.cases) (auto simp: running_bound_def checked_add_Some)

lemma task_move_next_attempt:
  "task_move g now r r' \<Longrightarrow> tr_attempts r' \<noteq> tr_attempts r \<Longrightarrow> unat (tr_attempts r') = Suc (unat (tr_attempts r))"
  by (induction rule: task_move.induct) (auto simp: checked_add_Some)

lemma governed_extend:
  assumes "binding_matches env m e" and "mu_id m = td_id (tr_definition r)" and "e \<in> set (tg_attempt_bindings g')"
    and set: "set (bound_attempts g' (mu_id m)) = insert (ta_attempt e) (set (bound_attempts g (mu_id m)))"
    and "unat (mu_attempts m) = Suc (unat (tr_attempts r))"
    and "\<forall>x\<in>set (bound_attempts g (mu_id m)). x \<le> tr_attempts r" and "governed_sound g r"
  shows "governed_sound g' (mutate (Some m) r)"
proof -
  from assms(1) obtain l where l: "mu_status m = TsRunning l" "ta_task_id e = mu_id m" "ta_lease_id e = tl_id l"
    "ta_attempt e = mu_attempts m" "tl_attempt l = mu_attempts m" "ta_claimed_by e = tl_owner l"
    by (auto simp: binding_matches_def)
  have "{Min (insert (mu_attempts m) (set (bound_attempts g (mu_id m))))..mu_attempts m} \<subseteq>
      insert (mu_attempts m) (set (bound_attempts g (mu_id m)))"
    using assms(2,5,6,7) by (intro interval_extend) (auto simp: governed_sound_def Let_def)
  moreover have "running_bound g' (mutate (Some m) r)"
    using l assms(2,3) by (auto simp: running_bound_def)
  ultimately show ?thesis
    using assms(2) set l(4) by (simp add: governed_sound_def Let_def)
qed

lemma mutations_governed:
  assumes app: "apply_task_mutations env g ms = Inr g'" and legal: "\<forall>m\<in>set ms. legal now g m" and "keyed g"
    and ev: "\<forall>e\<in>set (tg_attempt_bindings g). evidence_sound env g e"
    and r: "bm_get (tg_tasks g) i = Some r" and old: "governed_sound g r"
  shows "governed_sound g' (mutate (mutation_of ms i) r)"
proof (cases "mutation_of ms i")
  case None
  have "td_id (tr_definition r) = i" using keyed_get_id [OF assms(3) r] .
  with None mutations_bound_attempts [OF app, of i] show ?thesis
    by (intro governed_same [OF old]) (auto simp: mutations_append_evidence [OF app])
next
  case (Some m)
  have id: "td_id (tr_definition r) = i" using keyed_get_id [OF assms(3) r] .
  from Some have m: "m \<in> set ms" "mu_id m = i" using mutation_of_Some by blast+
  with legal have "legal now g m" by blast
  with r m have move: "task_move g now r (mutate (Some m) r)" "if mu_attempts m = tr_attempts r then
      mu_attempt_binding m = None else mu_attempt_binding m = None \<longrightarrow> bound_attempts g i = []"
    by (auto simp: legal_def)
  show ?thesis
  proof (cases "mu_attempt_binding m")
    case None
    with Some mutations_bound_attempts [OF app, of i]
    have same: "set (bound_attempts g' i) = set (bound_attempts g i)" by simp
    show ?thesis
    proof (cases "mu_attempts m = tr_attempts r")
      case True
      with task_move_same_attempts [OF move(1)] same show ?thesis
        unfolding Some by (intro governed_same [OF old]) (auto simp: mutations_append_evidence [OF app] id)
    qed (use move(2) None same id in \<open>simp add: governed_sound_def Some\<close>)
  next
    case b: (Some e)
    have e: "e \<in> set (tg_attempt_bindings g')"
      using m(1) b by (auto simp: mutations_append_evidence [OF app] evidence_of_member)
    have le: "\<forall>x\<in>set (bound_attempts g (mu_id m)). x \<le> tr_attempts r"
      using ev r m(2) by (auto simp: set_bound_attempts evidence_sound_def)
    have bm: "binding_matches env m e" using mutations_evidence(2) [OF app] m(1) b by blast
    have "unat (mu_attempts m) = Suc (unat (tr_attempts r))"
      using task_move_next_attempt [OF move(1)] move(2) b by (auto split: if_splits)
    from governed_extend [OF bm _ e _ this le old] show ?thesis
      unfolding Some using mutations_bound_attempts [OF app, of i] Some b id m(2) by simp
  qed
qed

lemma mutations_integrity:
  assumes app: "apply_task_mutations env g ms = Inr g'" and legal: "\<forall>m\<in>set ms. legal now g m"
    and wf: "bm_wf (tg_tasks g)" and "validate_integrity env g = Inr ()"
  shows "validate_integrity env g' = Inr ()"
proof -
  from assms(4) have parts: "definitions_sound env g" "\<forall>r\<in>set (bm_values (tg_tasks g)). validate_status r = Inr ()"
    "evidence_all_sound env g" "messages_sound g" "charge_sound env g"
    by (simp_all add: validate_integrity_ok)
  have keyed: "keyed g" using integrity_keyed [OF wf parts(1)] .
  have gov: "governed_sound g' r'" if "r' \<in> set (bm_values (tg_tasks g'))" for r'
  proof -
    have "keyed g'" using apply_task_mutations_keyed [OF app keyed] .
    with that have "bm_get (tg_tasks g') (td_id (tr_definition r')) = Some r'" using keyed_get by blast
    then obtain r i where r: "bm_get (tg_tasks g) i = Some r" "r' = mutate (mutation_of ms i) r"
      using apply_task_mutations_ok(3) [OF app, of "td_id (tr_definition r')"] by auto
    then have "governed_sound g r" using parts(3) bm_get_value by (fastforce simp: evidence_all_sound_def)
    with mutations_governed [OF app legal keyed _ r(1)] parts(3) r(2) show ?thesis
      by (auto simp: evidence_all_sound_def)
  qed
  have "evidence_sound env g' e" if "e \<in> set (tg_attempt_bindings g')" for e
    using that parts(3) evidence_sound_mono [OF app legal] new_evidence_sound [OF app legal]
    unfolding mutations_append_evidence [OF app] evidence_all_sound_def by auto
  then have "evidence_all_sound env g'"
    using parts(3) gov mutations_evidence(1,3) [OF app] mutations_attempt_keys [OF app legal]
    unfolding evidence_all_sound_def by blast
  moreover have "bm_contains (tg_tasks g') i = bm_contains (tg_tasks g) i" for i
    using apply_task_mutations_ok(3) [OF app, of i] by (simp add: bm_contains_def)
  then have "messages_sound g'"
    using parts(4) by (simp add: messages_sound_def message_sound_def apply_task_mutations_ok(4,5) [OF app])
  moreover have "charge_sound env g'"
    using mutations_charge [OF app keyed] parts(5) by (simp add: charge_sound_def)
  ultimately show ?thesis
    unfolding validate_integrity_ok using mutations_definitions [OF app] parts(1)
      mutations_statuses [OF app legal keyed parts(1,2)] by simp
qed

lemma send_message_integrity:
  assumes "send_message env g from_id to_id body now new_id = Inr (g', m)"
    and "new_id \<notin> tm_id ` set (tg_messages g)" and "validate_integrity env g = Inr ()"
  shows "validate_integrity env g' = Inr ()"
proof -
  from assms(1) obtain n c where step: "length (tg_messages g) < MAX_MESSAGES" "bm_contains (tg_tasks g) from_id"
    "bm_contains (tg_tasks g) to_id" "\<not> trim_is_empty body" "length body \<le> MAX_MESSAGE_BYTES"
    and m: "m = \<lparr>tm_id = new_id, tm_sequence = tg_next_message_sequence g, tm_from = from_id, tm_to = to_id,
       tm_body = body, tm_created_at_ms = now\<rparr>"
    and c: "checked_add (tg_next_message_sequence g) 1 = Some n" "message_materialization_charge env m = Inr c"
      "tg_charge g + c \<le> MAX_TASK_GRAPH_JSON_BYTES"
    and g': "g' = g\<lparr>tg_next_message_sequence := n, tg_messages := tg_messages g @ [m], tg_charge := tg_charge g + c\<rparr>"
    unfolding send_message_ok by blast
  from assms(3) have parts: "definitions_sound env g" "\<forall>r\<in>set (bm_values (tg_tasks g)). validate_status r = Inr ()"
    "evidence_all_sound env g" "messages_sound g" "charge_sound env g"
    by (simp_all add: validate_integrity_ok)
  have "definitions_sound env g'" using parts(1) by (simp add: definitions_sound_def g')
  moreover have "evidence_all_sound env g'" using parts(3)
    by (simp add: evidence_all_sound_def g' evidence_sound_def governed_sound_def running_bound_def bound_attempts_def)
  moreover have "messages_sound g'"
    using parts(4) step assms(2) c(1) m
    by (auto simp: messages_sound_def message_sound_def g' checked_add_Some)
  moreover have "charge_sound env g'"
    using parts(5) c by (auto simp: charge_sound_def g' encodable_def total_charge_def)
  ultimately show ?thesis unfolding validate_integrity_ok using parts(2) by (simp add: g')
qed

lemma graph_step_integrity:
  assumes "graph_step env now g g'" and "bm_wf (tg_tasks g)" and "validate_integrity env g = Inr ()"
  shows "validate_integrity env g' = Inr () \<and> bm_wf (tg_tasks g')"
proof -
  have keyed: "keyed g" using assms(2,3) integrity_keyed by (auto simp: validate_integrity_ok)
  have "validate_integrity env g' = Inr ()"
    using graph_step_mutates [OF assms(1) keyed] mutations_integrity [OF _ _ assms(2,3)]
      send_message_integrity [OF _ _ assms(3)] by blast
  with graph_step_keyed [OF assms(1) keyed] show ?thesis by (simp add: keyed_def)
qed

section \<open>Construction\<close>

lemma option_ext: "(\<And>r. x = Some r \<longleftrightarrow> y = Some r) \<Longrightarrow> x = y"
  by (metis not_None_eq)

lemma bm_ext:
  assumes "bm_wf m" "bm_wf n" and "\<And>k. bm_get m k = bm_get n k"
  shows "m = n"
proof -
  have keys: "map fst t = sorted_list_of_set (dom (bm_get t))" if "bm_wf t" for t :: "('a::linorder, 'b) btree_map"
  proof -
    have "bm_get t = map_of t" by (simp add: fun_eq_iff bm_get_def)
    then have "dom (bm_get t) = set (map fst t)" by (simp add: dom_map_of_conv_image_fst)
    moreover from that have "sorted (map fst t)" "distinct (map fst t)" by (simp_all add: bm_wf_def strict_sorted_iff)
    ultimately show ?thesis by (metis sorted_list_of_set.idem_if_sorted_distinct)
  qed
  have entries: "t = map (\<lambda>k. (k, the (bm_get t k))) (map fst t)" if "bm_wf t" for t :: "('a::linorder, 'b) btree_map"
  proof -
    have "(fst x, the (bm_get t (fst x))) = x" if "x \<in> set t" for x
      using that bm.get_Some_iff [OF \<open>bm_wf t\<close>, of "fst x" "snd x"] by simp
    then show ?thesis by (simp add: map_idI)
  qed
  have "bm_get m = bm_get n" using assms(3) by auto
  then show ?thesis using entries [OF assms(1)] entries [OF assms(2)] keys [OF assms(1)] keys [OF assms(2)] by simp
qed

definition initial :: "task_definition \<Rightarrow> task_record" where
  "initial d = \<lparr>tr_definition = d, tr_status = TsPending, tr_attempts = 0\<rparr>"

lemma insert_definition_ok:
  "insert_definition tasks d = Inr tasks' \<longleftrightarrow> validate_task_definition d = Inr () \<and>
     \<not> bm_contains tasks (td_id d) \<and> tasks' = bm_insert (td_id d) (initial d) tasks"
  by (auto simp: insert_definition_def and_then_eq_Inr initial_def)

lemma insert_definitions_ok:
  "is_ok (try_fold insert_definition tasks ds) \<longleftrightarrow> (\<forall>d\<in>set ds. validate_task_definition d = Inr ()) \<and>
     distinct (map td_id ds) \<and> (\<forall>d\<in>set ds. \<not> bm_contains tasks (td_id d))"
proof (induction ds arbitrary: tasks)
  case (Cons d ds)
  show ?case
  proof (cases "insert_definition tasks d")
    case (Inl e)
    then have "\<not> (validate_task_definition d = Inr () \<and> \<not> bm_contains tasks (td_id d))"
      using insert_definition_ok [of tasks d] by auto
    with Inl show ?thesis by auto
  next
    case (Inr tasks')
    then have "validate_task_definition d = Inr ()" "\<not> bm_contains tasks (td_id d)"
      "bm_contains tasks' i \<longleftrightarrow> i = td_id d \<or> bm_contains tasks i" for i
      by (auto simp: insert_definition_ok bm_contains_def bm_get_insert)
    with Inr Cons [of tasks'] show ?thesis by (auto simp: image_iff)
  qed
qed simp

lemma insert_definitions_get:
  assumes "try_fold insert_definition [] ds = Inr tasks"
  shows "bm_wf tasks" and "bm_get tasks i = Some r \<longleftrightarrow> (\<exists>d\<in>set ds. td_id d = i \<and> r = initial d)"
proof -
  have "bm_wf tasks \<and> (\<forall>i r. bm_get tasks i = Some r \<longleftrightarrow> (\<exists>d\<in>set ds. td_id d = i \<and> r = initial d))"
    using assms
  proof (induction rule: try_fold_prefix_induct)
    case (snoc ds d tasks tasks')
    then show ?case
      by (auto simp: insert_definition_ok bm_contains_def bm_wf_insert bm_get_insert split: if_splits)
  qed (simp add: bm_wf_def bm_get_def)
  then show "bm_wf tasks" and "bm_get tasks i = Some r \<longleftrightarrow> (\<exists>d\<in>set ds. td_id d = i \<and> r = initial d)" by blast+
qed

text \<open>Inserting the definitions of a fresh graph in key order rebuilds the same map.\<close>

lemma insert_definitions_again:
  assumes "try_fold insert_definition [] ds = Inr tasks"
  shows "try_fold insert_definition [] (map tr_definition (bm_values tasks)) = Inr tasks"
proof -
  note wf = insert_definitions_get(1) [OF assms]
  note get = insert_definitions_get(2) [OF assms]
  have records: "r \<in> set (bm_values tasks) \<longleftrightarrow> (\<exists>d\<in>set ds. r = initial d)" for r
    using bm_value_get [OF wf, of r] get by blast
  have valid: "validate_task_definition d = Inr ()" if "d \<in> set ds" for d
    using insert_definitions_valid [OF assms that] .
  have "(i, r) \<in> set tasks \<Longrightarrow> td_id (tr_definition r) = i" for i r
    using bm.get_Some_iff [OF wf, of i r] get by (auto simp: initial_def)
  then have "map (\<lambda>r. td_id (tr_definition r)) (bm_values tasks) = map fst tasks" by (auto simp: bm_values_def)
  with bm.distinct_keys [OF wf] have "distinct (map td_id (map tr_definition (bm_values tasks)))"
    by (simp add: comp_def)
  moreover have "\<forall>d\<in>set (map tr_definition (bm_values tasks)). validate_task_definition d = Inr ()"
    using valid by (auto simp: records initial_def)
  ultimately have "is_ok (try_fold insert_definition [] (map tr_definition (bm_values tasks)))"
    by (simp add: insert_definitions_ok bm_contains_def bm_get_def)
  then obtain tasks' where tasks': "try_fold insert_definition [] (map tr_definition (bm_values tasks)) = Inr tasks'"
    by (auto simp: is_ok_iff)
  have "set (bm_values tasks) = initial ` set ds" using records by blast
  then have same: "set (map tr_definition (bm_values tasks)) = set ds" by (simp add: image_image initial_def)
  have "bm_get tasks' i = bm_get tasks i" for i
  proof -
    have "bm_get tasks' i = Some r \<longleftrightarrow> bm_get tasks i = Some r" for r
      using insert_definitions_get(2) [OF tasks', of i r] get [of i r] unfolding same by blast
    then show ?thesis by (rule option_ext)
  qed
  with bm_ext [OF insert_definitions_get(1) [OF tasks'] wf] tasks' show ?thesis by blast
qed

lemma task_graph_new_ok:
  "task_graph_new env ds = Inr g \<longleftrightarrow> length ds \<le> MAX_TASKS \<and>
     (\<exists>tasks charge. try_fold insert_definition [] ds = Inr tasks \<and>
       (\<forall>r\<in>set (bm_values tasks). validate_dependencies tasks r = Inr ()) \<and> validate_acyclic tasks = Inr () \<and>
       g = \<lparr>tg_tasks = tasks, tg_messages = [], tg_attempt_bindings = [], tg_next_message_sequence = 1,
         tg_charge = charge\<rparr> \<and>
       calculate_materialization_charge env g = Inr charge)"
  unfolding task_graph_new_def Let_def if_Inl_eq_Inr and_then_eq_Inr for_each_ok not_less
  by (auto simp: calculate_materialization_charge_def)

lemma task_graph_new_integrity:
  assumes "task_graph_new env ds = Inr g"
  shows "bm_wf (tg_tasks g)" and "validate_integrity env g = Inr ()"
proof -
  from assms obtain tasks charge where len: "length ds \<le> MAX_TASKS"
    and ins: "try_fold insert_definition [] ds = Inr tasks"
    and deps: "\<forall>r\<in>set (bm_values tasks). validate_dependencies tasks r = Inr ()" "validate_acyclic tasks = Inr ()"
    and g: "g = \<lparr>tg_tasks = tasks, tg_messages = [], tg_attempt_bindings = [], tg_next_message_sequence = 1,
         tg_charge = charge\<rparr>" and charge: "calculate_materialization_charge env g = Inr charge"
    unfolding task_graph_new_ok by blast
  note wf = insert_definitions_get(1) [OF ins]
  note get = insert_definitions_get(2) [OF ins]
  show "bm_wf (tg_tasks g)" using wf by (simp add: g)
  have "set (map fst tasks) \<subseteq> td_id ` set ds"
    using get bm.get_Some_iff [OF wf] by fastforce
  then have "card (set (map fst tasks)) \<le> card (td_id ` set ds)" by (intro card_mono) auto
  also have "\<dots> \<le> length ds" using card_image_le [of "set ds" td_id] card_length [of ds] by simp
  finally have "length tasks \<le> MAX_TASKS"
    using len distinct_card [OF bm.distinct_keys [OF wf]] by simp
  moreover have "length (map tr_definition (bm_values tasks)) = length tasks" by (simp add: bm_values_def)
  ultimately have "task_graph_new env (map tr_definition (bm_values tasks)) = Inr g"
    unfolding task_graph_new_ok using insert_definitions_again [OF ins] deps g charge by auto
  moreover have init: "r = initial (tr_definition r) \<and> td_id (tr_definition r) = i" if "(i, r) \<in> set tasks" for i r
    using that get [of i r] bm.get_Some_iff [OF wf, of i r] by (auto simp: initial_def)
  ultimately have "definitions_sound env g"
    using \<open>length tasks \<le> MAX_TASKS\<close> by (auto simp: definitions_sound_def g)
  moreover have "validate_status r = Inr ()" if "r \<in> set (bm_values tasks)" for r
  proof -
    from that obtain i where "(i, r) \<in> set tasks" by (auto simp: bm_values_def)
    from init [OF this] have "tr_status r = TsPending" by (metis initial_def task_record.select_convs(2))
    then show ?thesis by (simp add: validate_status_def)
  qed
  ultimately show "validate_integrity env g = Inr ()"
    using charge by (auto simp: validate_integrity_ok calculate_charge_ok charge_sound_def evidence_all_sound_def
        messages_sound_def governed_sound_def bound_attempts_def g)
qed

section \<open>The terminal reserve\<close>

text \<open>
  Every active Task is charged \<open>ACTIVE_TASK_TERMINAL_RESERVE_BYTES\<close> more than its encoding. The
  reserve is large enough for a status when the encoding with that status is at most that much
  longer.
\<close>

definition reserve_covers :: "graph_env \<Rightarrow> string \<Rightarrow> task_record \<Rightarrow> task_status \<Rightarrow> bool" where
  "reserve_covers env i r s \<longleftrightarrow> ts_is_terminal s \<and> (\<exists>old new.
     ge_task env (i, tr_definition r, tr_status r, tr_attempts r) = Some old \<and>
     ge_task env (i, tr_definition r, s, tr_attempts r) = Some new \<and>
     length new \<le> length old + ACTIVE_TASK_TERMINAL_RESERVE_BYTES)"

lemma reserve_covers_charge:
  assumes "reserve_covers env i r s" and "\<not> ts_is_terminal (tr_status r)"
    and "task_materialization_charge env i r = Inr old"
  shows "\<exists>new\<le>old. task_materialization_charge_parts env i (tr_definition r) s (tr_attempts r) = Inr new"
proof -
  from assms(1) obtain b0 b where enc: "ge_task env (i, tr_definition r, tr_status r, tr_attempts r) = Some b0"
    "ge_task env (i, tr_definition r, s, tr_attempts r) = Some b" "length b \<le> length b0 + ACTIVE_TASK_TERMINAL_RESERVE_BYTES"
    and s: "ts_is_terminal s" by (auto simp: reserve_covers_def)
  have "old = length b0 + ACTIVE_TASK_TERMINAL_RESERVE_BYTES \<and> old < 2 ^ 64"
    using assms(2,3) enc(1) by (cases "tr_status r") (auto simp: task_materialization_charge_def
        task_materialization_charge_parts_def ok_or_eq_Inr usize_checked_add_def split: if_splits)
  with enc s show ?thesis
    by (cases s) (auto simp: task_materialization_charge_parts_def usize_checked_add_def)
qed

lemma task_charge_le_total:
  assumes "bm_get (tg_tasks g) i = Some r" and "task_materialization_charge env i r = Inr c"
  shows "c \<le> total_charge env g"
proof -
  have "(i, r) \<in> set (tg_tasks g)" using assms(1) by (auto simp: bm_get_def dest: map_of_SomeD)
  then have "charge_or_0 (task_charge env (i, r)) \<le>
      sum_list (map (\<lambda>x. charge_or_0 (task_charge env x)) (tg_tasks g))"
    by (intro member_le_sum_list) auto
  with assms(2) show ?thesis by (simp add: total_charge_def task_charge_def)
qed

text \<open>A mutation without evidence whose charge is at most the one it replaces.\<close>

definition shrinks :: "graph_env \<Rightarrow> task_graph \<Rightarrow> task_mutation \<Rightarrow> bool" where
  "shrinks env g m \<longleftrightarrow> mu_attempt_binding m = None \<and> (\<exists>r old new. bm_get (tg_tasks g) (mu_id m) = Some r \<and>
     task_materialization_charge env (mu_id m) r = Inr old \<and> new \<le> old \<and>
     task_materialization_charge_parts env (mu_id m) (tr_definition r) (mu_status m) (mu_attempts m) = Inr new)"

lemma mutations_fit:
  assumes "keyed g" and "total_charge env g < 2 ^ 64" and "distinct (map mu_id ms)"
    and "\<forall>m\<in>set ms. shrinks env g m"
  shows "\<exists>ids c. try_fold (check_mutation env g) ({}, L, total_charge env g) ms = Inr (mu_id ` set ms, ids, c) \<and>
    c = total_charge env (foldl commit_mutation g ms) \<and> c \<le> total_charge env g"
  using assms(3,4)
proof (induction ms rule: rev_induct)
  case (snoc m ms)
  then obtain ids c where fold: "try_fold (check_mutation env g) ({}, L, total_charge env g) ms =
      Inr (mu_id ` set ms, ids, c)" and c: "c = total_charge env (foldl commit_mutation g ms)" "c \<le> total_charge env g"
    by auto
  let ?g = "foldl commit_mutation g ms"
  from snoc.prems obtain r old new where m: "mu_attempt_binding m = None" "bm_get (tg_tasks g) (mu_id m) = Some r"
    "task_materialization_charge env (mu_id m) r = Inr old" "new \<le> old"
    "task_materialization_charge_parts env (mu_id m) (tr_definition r) (mu_status m) (mu_attempts m) = Inr new"
    by (auto simp: shrinks_def)
  have fresh: "mu_id m \<notin> mu_id ` set ms" using snoc.prems(1) by simp
  have get: "bm_get (tg_tasks ?g) (mu_id m) = Some r"
    using m(2) snoc.prems(1) mutation_of_None [OF fresh] by (simp add: foldl_commit_get)
  have wf: "bm_wf (tg_tasks ?g)"
    using assms(1) foldl_commit_frame(4) [of g ms] by (simp add: keyed_def bm_wf_def bm_keys_def)
  have le: "old \<le> c" using task_charge_le_total [OF get m(3)] c(1) by simp
  have step: "check_mutation env g (mu_id ` set ms, ids, c) m =
      Inr (insert (mu_id m) (mu_id ` set ms), ids, c - old + new)"
    using m fresh le c(2) assms(2) unfolding check_mutation_ok by auto
  have "total_charge env (commit_mutation ?g m) + old = total_charge env ?g + new"
    using commit_mutation_charge(1) [OF wf get m(3,5), of 0] m(1) by simp
  with fold step c le m(4) show ?case by (auto simp: try_fold_snoc)
qed simp

lemma apply_mutations_fit:
  assumes "keyed g" and "charge_sound env g" and "length (tg_attempt_bindings g) \<le> MAX_TASK_ATTEMPT_BINDINGS"
    and "distinct (map mu_id ms)" and "\<forall>m\<in>set ms. shrinks env g m"
  shows "\<exists>g'. apply_task_mutations env g ms = Inr g'"
proof -
  have total: "tg_charge g = total_charge env g" "total_charge env g \<le> MAX_TASK_GRAPH_JSON_BYTES"
    using assms(2) by (simp_all add: charge_sound_def)
  from mutations_fit [OF assms(1) graph_charge_limit [OF total(2)] assms(4,5)] obtain ids c where
    "try_fold (check_mutation env g) ({}, ta_lease_id ` set (tg_attempt_bindings g), tg_charge g) ms =
      Inr (mu_id ` set ms, ids, c)" "c \<le> total_charge env g"
    unfolding total(1) by blast
  moreover from this total(2) have "c \<le> MAX_TASK_GRAPH_JSON_BYTES" by simp
  moreover have "filter (\<lambda>m. mu_attempt_binding m \<noteq> None) ms = []" using assms(5) by (auto simp: filter_empty_conv shrinks_def)
  ultimately show ?thesis
    using assms(3) by (simp add: apply_task_mutations_def usize_checked_add_def validate_graph_charge_def
        MAX_TASK_ATTEMPT_BINDINGS_def)
qed

lemma blocked_mutations_distinct: "keyed g \<Longrightarrow> distinct (map mu_id (blocked_mutations g overrides extra))"
  unfolding blocked_mutations_def Let_def by (rule blocked_loop_distinct) simp_all

text \<open>The reserve covers the cancellation of any active Task, and the blocking of its dependents.\<close>

definition cancellation_reserved :: "graph_env \<Rightarrow> task_graph \<Rightarrow> string \<Rightarrow> bool" where
  "cancellation_reserved env g reason \<longleftrightarrow>
     (\<forall>j q. bm_get (tg_tasks g) j = Some q \<and> \<not> ts_is_terminal (tr_status q) \<longrightarrow>
       reserve_covers env j q (TsCancelled reason) \<and>
       (\<forall>d\<in>set (td_dependencies (tr_definition q)). reserve_covers env j q (TsBlocked (blocked_reason d))))"

lemma reserve_covers_shrinks:
  assumes "charge_sound env g" and q: "bm_get (tg_tasks g) j = Some q" "\<not> ts_is_terminal (tr_status q)"
    "reserve_covers env j q s"
  shows "shrinks env g (settled q j s)"
proof -
  from q(1) have "(j, q) \<in> set (tg_tasks g)" by (auto simp: bm_get_def dest: map_of_SomeD)
  with assms(1) obtain old where old: "task_materialization_charge env j q = Inr old"
    by (auto simp: charge_sound_def encodable_def task_charge_def is_ok_iff)
  with reserve_covers_charge [OF q(3,2) old] q(1) show ?thesis by (auto simp: shrinks_def settled_def)
qed

lemma cancel_fits:
  assumes "keyed g" and "charge_sound env g" and "length (tg_attempt_bindings g) \<le> MAX_TASK_ATTEMPT_BINDINGS"
    and "bm_get (tg_tasks g) i = Some r" and "\<not> ts_is_terminal (tr_status r)"
    and "cancellation_reserved env g reason"
  shows "\<exists>g'. apply_task_mutations env g (settled r i (TsCancelled reason) # blocked_mutations g {} (Some i)) = Inr g'"
proof (rule apply_mutations_fit [OF assms(1-3)])
  let ?blocked = "blocked_mutations g {} (Some i)"
  show "distinct (map mu_id (settled r i (TsCancelled reason) # ?blocked))"
    using blocked_mutations_distinct [OF assms(1)] blocked_mutations_ids [OF assms(1), of "{}" i]
    by (auto simp: settled_def)
  have "shrinks env g (settled r i (TsCancelled reason))"
    using reserve_covers_shrinks [OF assms(2,4,5)] assms(4-6) by (auto simp: cancellation_reserved_def)
  moreover have "shrinks env g m" if m: "m \<in> set ?blocked" for m
  proof -
    from blocked_mutations_status [OF m] obtain q d where q: "q \<in> set (bm_values (tg_tasks g))"
      "d \<in> set (td_dependencies (tr_definition q))" "m = settled q (td_id (tr_definition q)) (TsBlocked (blocked_reason d))"
      by blast
    have get: "bm_get (tg_tasks g) (td_id (tr_definition q)) = Some q" using q(1) keyed_get [OF assms(1)] by simp
    have "legal 0 g m" using blocked_legal [OF assms(1) m] by simp
    with get q(3) have "\<not> ts_is_terminal (tr_status q)"
      by (auto simp: legal_def settled_def dest: task_move_not_terminal)
    with reserve_covers_shrinks [OF assms(2) get] assms(6) get q(2,3) show ?thesis
      by (auto simp: cancellation_reserved_def)
  qed
  ultimately show "\<forall>m\<in>set (settled r i (TsCancelled reason) # ?blocked). shrinks env g m" by simp
qed

section \<open>Storage\<close>

text \<open>The derived \<open>Serialize\<close>: the charge is not stored but recomputed.\<close>

definition task_graph_to_wire :: "task_graph \<Rightarrow> task_graph_wire" where
  "task_graph_to_wire g = \<lparr>gw_tasks = tg_tasks g, gw_messages = tg_messages g,
     gw_attempt_bindings = tg_attempt_bindings g, gw_next_message_sequence = tg_next_message_sequence g\<rparr>"

section \<open>Properties\<close>

lemma demo_pending_new:
  "task_graph_new demo_graph_env [demo_definition ''b'' [''a''], demo_definition ''c'' [''b''], demo_definition ''a'' []]
     = Inr demo_pending"
  by (simp add: task_graph_new_def insert_definition_def validate_task_definition_def validate_task_id_def
      validate_task_text_def capset_validate_def validate_dependencies_def validate_acyclic_def
      demo_graph_defs graph_charge_eval string_eval bm_contains_def bm_get_def bm_values_def bm_keys_def
      MAX_TASKS_def MAX_TASK_CAPABILITIES_def MAX_DEPENDENCIES_PER_TASK_def MAX_TASK_TEXT_BYTES_def Let_def)

text \<open>
  C1: invariant. Every graph that \<open>TaskGraph::new\<close> builds, and every graph reached from it by any
  sequence of successful operations at any times, passes \<open>validate_integrity\<close>: its dependencies
  are closed and acyclic, statuses and leases agree with the attempt counters, the evidence of a
  governed Task has no gap and covers its running lease, message sequence numbers are contiguous,
  and the stored byte charge equals the recomputed one and is within the limit. The identity that
  \<open>TaskMessageId::generate\<close> gives a message is an argument, and the step that sends it assumes that the
  graph does not hold it yet.
\<close>

theorem task_graph_integrity_invariant:
  assumes "task_graph_new env definitions = Inr g" and "graph_run env g g'"
  shows "validate_integrity env g' = Inr ()"
proof -
  from assms(2) have "validate_integrity env g' = Inr () \<and> bm_wf (tg_tasks g')"
    by (induction rule: graph_run_induct)
      (use task_graph_new_integrity [OF assms(1)] graph_step_integrity in auto)
  then show ?thesis ..
qed

theorem task_graph_integrity_invariant_witness:
  "validate_integrity demo_graph_env demo_failed = Inr ()"
proof -
  have "graph_run demo_graph_env demo_pending demo_failed"
    using graph_run_refl demo_step_claim demo_step_fail by (blast intro: graph_run_step)
  with task_graph_integrity_invariant [OF demo_pending_new] show ?thesis by blast
qed

text \<open>
  C38: equivalence. The cycle check is exact: on a set of definitions whose dependencies are all
  present, the depth-first search of \<open>validate_acyclic\<close> succeeds if and only if the dependency
  relation has no cycle.
\<close>

theorem task_graph_cycle_check_exact:
  assumes "try_fold insert_definition [] definitions = Inr tasks"
    and "for_each (validate_dependencies tasks) (bm_values tasks) = Inr ()"
  shows "validate_acyclic tasks = Inr () \<longleftrightarrow>
    acyclic {(dependency, td_id d) | dependency d. d \<in> set definitions \<and> dependency \<in> set (td_dependencies d)}"
proof -
  have "depends tasks =
      {(dependency, td_id d) | dependency d. d \<in> set definitions \<and> dependency \<in> set (td_dependencies d)}"
    unfolding depends_def insert_definitions_get(2) [OF assms(1)] by (auto simp: initial_def)
  moreover have "\<forall>d i. (d, i) \<in> depends tasks \<longrightarrow> bm_contains tasks d"
    using assms(2) bm_get_value
    by (fastforce simp: depends_def for_each_ok validate_dependencies_def split: if_splits)
  ultimately show ?thesis using validate_acyclic_iff by metis
qed

theorem task_graph_cycle_check_exact_witness:
  "validate_acyclic (tg_tasks demo_pending) = Inr () \<longleftrightarrow>
    acyclic {(dependency, td_id d) | dependency d.
      d \<in> {demo_definition ''a'' [], demo_definition ''b'' [''a''], demo_definition ''c'' [''b'']} \<and>
      dependency \<in> set (td_dependencies d)}"
  using task_graph_cycle_check_exact [of "[demo_definition ''a'' [], demo_definition ''b'' [''a''],
      demo_definition ''c'' [''b'']]" "tg_tasks demo_pending"]
  by (simp add: insert_definition_def validate_task_definition_def validate_task_id_def
      validate_task_text_def capset_validate_def validate_dependencies_def
      demo_graph_defs string_eval bm_contains_def bm_get_def bm_values_def
      MAX_TASK_CAPABILITIES_def MAX_DEPENDENCIES_PER_TASK_def MAX_TASK_TEXT_BYTES_def)

text \<open>
  liveness. Cancellation is always possible: in a graph that passes \<open>validate_integrity\<close>,
  however close to its byte limit, an active Task can be cancelled together with the blocking of
  its dependents, as long as the terminal reserve covers the cancellation and blocking reasons.
\<close>

theorem task_can_always_be_cancelled:
  assumes "bm_wf (tg_tasks g)" and "validate_integrity env g = Inr ()"
    and "bm_get (tg_tasks g) i = Some r" and "\<not> ts_is_terminal (tr_status r)" and "validate_task_text reason = Inr ()"
    and "cancellation_reserved env g reason"
  shows "\<exists>g'. cancel env g i reason = Inr g' \<and>
    bm_get (tg_tasks g') i = Some (r\<lparr>tr_status := TsCancelled reason\<rparr>) \<and> validate_integrity env g' = Inr ()"
proof -
  from assms(2) have parts: "definitions_sound env g" "evidence_all_sound env g" "charge_sound env g"
    by (simp_all add: validate_integrity_ok)
  from cancel_fits [OF integrity_keyed [OF assms(1) parts(1)] parts(3) _ assms(3,4,6)] parts(2) obtain g' where
    app: "apply_task_mutations env g (settled r i (TsCancelled reason) # blocked_mutations g {} (Some i)) = Inr g'"
    by (auto simp: evidence_all_sound_def)
  then have ok: "cancel env g i reason = Inr g'" using assms(3-5) by (auto simp: cancel_ok)
  moreover have "validate_integrity env g' = Inr ()"
    using graph_step_integrity [OF graph_step.cancel [OF ok] assms(1,2)] by blast
  moreover have "bm_get (tg_tasks g') i = Some (r\<lparr>tr_status := TsCancelled reason\<rparr>)"
    using apply_task_mutations_ok(3) [OF app, of i] assms(3) by (simp add: mutation_of_def settled_def)
  ultimately show ?thesis by blast
qed

theorem task_can_always_be_cancelled_witness:
  "\<exists>g'. cancel demo_graph_env demo_pending ''b'' ''stop'' = Inr g' \<and>
    bm_get (tg_tasks g') ''b'' = Some ((demo_task ''b'' [''a''] TsPending 0)\<lparr>tr_status := TsCancelled ''stop''\<rparr>) \<and>
    validate_integrity demo_graph_env g' = Inr ()"
proof (rule task_can_always_be_cancelled [OF task_graph_new_integrity [OF demo_pending_new] demo_gets(2)])
  show "validate_task_text ''stop'' = Inr ()"
    by (simp add: validate_task_text_def MAX_TASK_TEXT_BYTES_def string_eval)
  show "cancellation_reserved demo_graph_env demo_pending ''stop''"
    by (simp add: cancellation_reserved_def reserve_covers_def demo_graph_env_def)
qed (simp add: demo_task_def)

text \<open>
  roundtrip. A graph that passes \<open>validate_integrity\<close> survives storage unchanged: reading back
  what was written recomputes exactly the byte charge it had.
\<close>

theorem task_graph_wire_roundtrip:
  assumes "validate_integrity env g = Inr ()"
  shows "task_graph_from_wire env (task_graph_to_wire g) = Inr g"
proof -
  have "calculate_materialization_charge env (g\<lparr>tg_charge := 0\<rparr>) = Inr (tg_charge g)"
    using assms
    by (simp add: validate_integrity_ok charge_sound_def calculate_charge_ok encodable_def total_charge_def)
  then show ?thesis
    by (cases g) (simp add: task_graph_from_wire_def task_graph_to_wire_def)
qed

theorem task_graph_wire_roundtrip_witness:
  "task_graph_from_wire demo_graph_env (task_graph_to_wire demo_pending) = Inr demo_pending"
  using task_graph_new_integrity(2) [OF demo_pending_new] by (rule task_graph_wire_roundtrip)

end
