(* ===== verification/Graph_Store.thy ===== *)
theory Graph_Store
  imports Task_Integrity Revision_Store
begin

text \<open>
  The Task coordinator of \<^verbatim>\<open>orchestration/coordinator.rs\<close>: revisioned Task Graph snapshots behind
  compare-and-swap. Here the caller mutates its own copy of a graph and offers it back with the
  revision it loaded; the store accepts it when nobody was faster. \<open>store_env\<close> adds to the
  encoders of the graph the encoder of the whole graph, whose output the store bounds.
\<close>

section \<open>Snapshots and guards\<close>

record task_graph_snapshot =
  tgs_id :: string
  tgs_tenant_id :: "string option"
  tgs_revision :: u64
  tgs_graph :: task_graph

record graph_store_env =
  gse_graph :: graph_env
  gse_to_vec :: "task_graph_wire \<Rightarrow> bytes option"

type_synonym graph_store = "task_graph_snapshot store"

definition validate_graph_id :: "string \<Rightarrow> unit result" where
  "validate_graph_id graph_id =
     (if graph_id = [] \<or> length graph_id > 256 \<or> has_control graph_id
      then Inl (orch O_bad_graph_id) else Inr ())"

definition validate_graph :: "graph_store_env \<Rightarrow> task_graph \<Rightarrow> string option \<Rightarrow> unit result" where
  "validate_graph env g tenant =
     and_then (validate_integrity (gse_graph env) g) (\<lambda>_.
     and_then (validate_execution_binding_tenant g tenant) (\<lambda>_.
     and_then (ok_or (orch O_encode) (gse_to_vec env (task_graph_to_wire g))) (\<lambda>bytes.
     if length bytes > MAX_TASK_GRAPH_JSON_BYTES then Inl (orch O_snapshot_too_large) else Inr ())))"

definition graph_does_not_exist :: "string \<Rightarrow> harness_error" where
  "graph_does_not_exist graph_id = orch (O_store (Missing graph_id))"

section \<open>Operations\<close>

definition tg_create_as ::
  "graph_store_env \<Rightarrow> graph_store \<Rightarrow> string \<Rightarrow> task_graph \<Rightarrow> authority_context \<Rightarrow>
   (graph_store \<times> task_graph_snapshot) result" where
  "tg_create_as env graphs graph_id g authority =
     and_then (authority_validate_current authority) (\<lambda>_.
     and_then (validate_graph_id graph_id) (\<lambda>_.
     and_then (validate_graph env g (tenant_id authority)) (\<lambda>_.
     let key = store_key graph_id (tenant_id authority) in
     if bm_contains graphs key then Inl (orch (O_store (Exists_differently graph_id)))
     else
       let snapshot = \<lparr>tgs_id = graph_id, tgs_tenant_id = tenant_id authority, tgs_revision = 1,
             tgs_graph = g\<rparr>
       in Inr (bm_insert key snapshot graphs, snapshot))))"

definition tg_load_as ::
  "graph_store \<Rightarrow> string \<Rightarrow> authority_context \<Rightarrow> task_graph_snapshot option result" where
  "tg_load_as graphs graph_id authority =
     and_then (authority_validate_current authority) (\<lambda>_.
     and_then (validate_graph_id graph_id) (\<lambda>_.
     Inr (bm_get graphs (store_key graph_id (tenant_id authority)))))"

definition compare_and_swap_as ::
  "graph_store_env \<Rightarrow> graph_store \<Rightarrow> task_graph_snapshot \<Rightarrow> authority_context \<Rightarrow>
   (graph_store \<times> task_graph_snapshot) result" where
  "compare_and_swap_as env graphs snapshot authority =
     and_then (authority_validate_current authority) (\<lambda>_.
     and_then (validate_graph_id (tgs_id snapshot)) (\<lambda>_.
     and_then (validate_graph env (tgs_graph snapshot) (tenant_id authority)) (\<lambda>_.
     if tgs_tenant_id snapshot \<noteq> tenant_id authority then Inl (graph_does_not_exist (tgs_id snapshot))
     else
     let key = store_key (tgs_id snapshot) (tenant_id authority) in
     and_then (ok_or (graph_does_not_exist (tgs_id snapshot)) (bm_get graphs key)) (\<lambda>current.
     if tgs_revision current \<noteq> tgs_revision snapshot
     then Inl (OrchestrationConflict (tgs_id snapshot) (tgs_revision snapshot) (tgs_revision current))
     else
     and_then (ok_or (orch (O_store Revision_overflow)) (checked_add (tgs_revision snapshot) 1)) (\<lambda>next_revision.
     let saved = \<lparr>tgs_id = tgs_id snapshot, tgs_tenant_id = tgs_tenant_id snapshot,
           tgs_revision = next_revision, tgs_graph = tgs_graph snapshot\<rparr>
     in Inr (bm_insert key saved graphs, saved))))))"

text \<open>The unscoped operations of the trait.\<close>

definition tg_create ::
  "graph_store_env \<Rightarrow> graph_store \<Rightarrow> string \<Rightarrow> task_graph \<Rightarrow> (graph_store \<times> task_graph_snapshot) result" where
  "tg_create env graphs graph_id g = tg_create_as env graphs graph_id g local_process"

definition tg_load :: "graph_store \<Rightarrow> string \<Rightarrow> task_graph_snapshot option result" where
  "tg_load graphs graph_id = tg_load_as graphs graph_id local_process"

definition compare_and_swap ::
  "graph_store_env \<Rightarrow> graph_store \<Rightarrow> task_graph_snapshot \<Rightarrow> (graph_store \<times> task_graph_snapshot) result" where
  "compare_and_swap env graphs snapshot = compare_and_swap_as env graphs snapshot local_process"

inductive graph_store_step :: "graph_store_env \<Rightarrow> graph_store \<Rightarrow> graph_store \<Rightarrow> bool" for env where
  graph_created: "tg_create_as env graphs graph_id g authority = Inr (graphs', snapshot) \<Longrightarrow>
    graph_store_step env graphs graphs'"
| graph_swapped: "compare_and_swap_as env graphs offered authority = Inr (graphs', snapshot) \<Longrightarrow>
    graph_store_step env graphs graphs'"

definition graph_commits ::
  "graph_store_env \<Rightarrow> graph_store \<Rightarrow> storage_key \<Rightarrow> u64 \<Rightarrow> graph_store \<Rightarrow> bool" where
  "graph_commits env graphs key revision graphs' \<longleftrightarrow>
     (\<exists>offered authority saved. compare_and_swap_as env graphs offered authority = Inr (graphs', saved) \<and>
        tgs_revision offered = revision \<and> key = store_key (tgs_id offered) (tenant_id authority))"

section \<open>What the operations do\<close>

lemma tg_create_as_ok:
  "tg_create_as env graphs graph_id g authority = Inr (graphs', snap) \<longleftrightarrow>
     valid_authority authority \<and> validate_graph_id graph_id = Inr () \<and>
     validate_graph env g (tenant_id authority) = Inr () \<and>
     bm_get graphs (store_key graph_id (tenant_id authority)) = None \<and>
     snap = \<lparr>tgs_id = graph_id, tgs_tenant_id = tenant_id authority, tgs_revision = 1, tgs_graph = g\<rparr> \<and>
     graphs' = bm_insert (store_key graph_id (tenant_id authority)) snap graphs"
  by (auto simp: tg_create_as_def ok_iff bm_contains_def Let_def)

lemma graph_snapshot_written [simp]:
  "\<lparr>tgs_id = tgs_id x, tgs_tenant_id = tgs_tenant_id x, tgs_revision = r, tgs_graph = tgs_graph x\<rparr>
   = x\<lparr>tgs_revision := r\<rparr>"
  by simp

lemma compare_and_swap_as_ok:
  "compare_and_swap_as env graphs offered authority = Inr (graphs', saved) \<longleftrightarrow>
     valid_authority authority \<and> validate_graph_id (tgs_id offered) = Inr () \<and>
     validate_graph env (tgs_graph offered) (tenant_id authority) = Inr () \<and>
     tgs_tenant_id offered = tenant_id authority \<and>
     (\<exists>current. bm_get graphs (store_key (tgs_id offered) (tenant_id authority)) = Some current \<and>
        tgs_revision current = tgs_revision offered) \<and>
     (\<exists>revision. unat revision = Suc (unat (tgs_revision offered)) \<and>
        saved = offered\<lparr>tgs_revision := revision\<rparr>) \<and>
     graphs' = bm_insert (store_key (tgs_id offered) (tenant_id authority)) saved graphs"
  by (auto simp: compare_and_swap_as_def ok_iff Let_def)

interpretation gstore: revision_store bm_get tgs_revision "graph_store_step env" "graph_commits env" for env
proof
  show "\<exists>a'. bm_get s' k = Some a' \<and> (a' = a \<or> unat (tgs_revision a') = Suc (unat (tgs_revision a)))"
    if "graph_store_step env s s'" "bm_get s k = Some a" for s s' k a
    using that(1) by cases (use that(2) in \<open>auto simp: tg_create_as_ok compare_and_swap_as_ok bm_get_insert\<close>)
  show "graph_store_step env s s'" if "graph_commits env s k r s'" for s k r s'
    using that by (auto simp: graph_commits_def intro: graph_swapped)
  show "\<exists>a a'. bm_get s k = Some a \<and> tgs_revision a = r \<and> bm_get s' k = Some a' \<and>
      unat (tgs_revision a') = Suc (unat r)" if "graph_commits env s k r s'" for s k r s'
    using that by (auto simp: graph_commits_def compare_and_swap_as_ok bm_get_insert)
qed

text \<open>Every stored graph was accepted by \<open>validate_graph\<close> under the tenant it is filed under.\<close>

definition graph_entry_ok :: "graph_store_env \<Rightarrow> storage_key \<Rightarrow> task_graph_snapshot \<Rightarrow> bool" where
  "graph_entry_ok env k s \<longleftrightarrow>
     k = store_key (tgs_id s) (tgs_tenant_id s) \<and> valid_tenant (tgs_tenant_id s) \<and>
     validate_graph_id (tgs_id s) = Inr () \<and> validate_graph env (tgs_graph s) (tgs_tenant_id s) = Inr () \<and>
     0 < tgs_revision s"

lemma graph_store_entries:
  assumes "(graph_store_step env)\<^sup>*\<^sup>* [] graphs" and "bm_get graphs k = Some s"
  shows "graph_entry_ok env k s"
  using assms
proof (induction arbitrary: k s rule: rtranclp_induct)
  case base
  then show ?case by (simp add: bm_get_def)
next
  case (step t u)
  from step.hyps(2) show ?case
    by cases (use step.prems step.IH [of k s] in \<open>auto simp: tg_create_as_ok compare_and_swap_as_ok
      bm_get_insert graph_entry_ok_def valid_authority_def word_less_nat_alt split: if_splits\<close>)
qed

lemma graph_store_wf: "(graph_store_step env)\<^sup>*\<^sup>* [] graphs \<Longrightarrow> bm_wf graphs"
proof (induction rule: rtranclp_induct)
  case base
  then show ?case by (rule bm.invar_empty)
next
  case (step t u)
  from step.hyps(2) step.IH show ?case
    by cases (auto simp: tg_create_as_ok compare_and_swap_as_ok bm_wf_insert)
qed

section \<open>A concrete store\<close>

definition demo_one :: "task_status \<Rightarrow> u32 \<Rightarrow> usize \<Rightarrow> task_graph" where
  "demo_one s n charge = \<lparr>tg_tasks = [(''a'', demo_task ''a'' [] s n)], tg_messages = [],
     tg_attempt_bindings = [], tg_next_message_sequence = 1, tg_charge = charge\<rparr>"

definition one_pending :: task_graph where "one_pending = demo_one TsPending 0 2049"
definition one_running :: task_graph where "one_running = demo_one (TsRunning demo_lease) 1 2049"
definition one_done :: task_graph where "one_done = demo_one (TsCompleted demo_completion) 1 1025"

lemmas one_defs = demo_one_def one_pending_def one_running_def one_done_def

definition demo_genv :: graph_store_env where
  "demo_genv = \<lparr>gse_graph = demo_graph_env, gse_to_vec = (\<lambda>_. Some ''graph'')\<rparr>"

lemma demo_genv_graph [simp]: "gse_graph demo_genv = demo_graph_env"
  by (simp add: demo_genv_def)

lemma one_new: "task_graph_new demo_graph_env [demo_definition ''a'' []] = Inr one_pending"
  by (simp add: task_graph_new_def insert_definition_def validate_task_definition_def validate_task_id_def
      validate_task_text_def capset_validate_def validate_dependencies_def validate_acyclic_def one_defs
      demo_graph_defs graph_charge_eval string_eval bm_contains_def bm_get_def bm_values_def bm_keys_def
      MAX_TASKS_def MAX_TASK_CAPABILITIES_def MAX_DEPENDENCIES_PER_TASK_def MAX_TASK_TEXT_BYTES_def Let_def)

lemma one_claimed:
  "claim_ready_governed demo_graph_env one_pending ''worker'' 10 5 1 None [] (\<lambda>_. ''l0'') =
     Inr (one_running, [\<lparr>cl_task = demo_definition ''a'' [], cl_lease = demo_lease, cl_execution_binding = None\<rparr>], True)"
  by (simp add: claim_ready_governed_def demo_graph_defs one_defs graph_mutation_eval graph_charge_eval string_eval
      validate_capability_name_def capset_validate_def capset_satisfies_def checked_add_def
      check_attempts_def lease_expired_def expired_tasks_def blocked_mutations_def blocked_loop_rec newly_blocked_def
      claimable_tasks_def claim_order_def claim_key_def claim_task_def dependencies_completed_def
      MAX_CLAIMS_PER_BATCH_def MAX_TASK_CAPABILITIES_def Let_def)

lemma one_completes: "complete demo_graph_env one_running ''a'' ''l0'' 11 demo_completion = Inr one_done"
  by (simp add: complete_def validate_completion_def current_lease_def validate_task_text_def
      MAX_TASK_TEXT_BYTES_def MAX_ARTIFACTS_PER_COMPLETION_def demo_graph_defs one_defs
      graph_mutation_eval graph_charge_eval string_eval)

lemma one_run: "graph_run demo_graph_env one_pending one_done"
  using graph_run_refl graph_step.claim [OF one_claimed] graph_step.complete [OF one_completes]
  by (blast intro: graph_run_step)

lemma one_integrity: "validate_integrity demo_graph_env one_pending = Inr ()"
    "validate_integrity demo_graph_env one_done = Inr ()"
proof -
  show pending: "validate_integrity demo_graph_env one_pending = Inr ()"
    using task_graph_new_integrity(2) [OF one_new] .
  note wf = task_graph_new_integrity(1) [OF one_new]
  from graph_step_integrity [OF graph_step.claim [OF one_claimed] wf pending]
  have "validate_integrity demo_graph_env one_running = Inr ()" "bm_wf (tg_tasks one_running)" by simp_all
  with graph_step_integrity [OF graph_step.complete [OF one_completes]]
  show "validate_integrity demo_graph_env one_done = Inr ()" by blast
qed

definition one_snapshot :: "u64 \<Rightarrow> task_graph \<Rightarrow> task_graph_snapshot" where
  "one_snapshot n g = \<lparr>tgs_id = ''graph'', tgs_tenant_id = None, tgs_revision = n, tgs_graph = g\<rparr>"

definition one_store :: "u64 \<Rightarrow> task_graph \<Rightarrow> graph_store" where
  "one_store n g = [(([], ''graph''), one_snapshot n g)]"

lemma one_valid: "validate_graph demo_genv one_pending None = Inr ()" "validate_graph demo_genv one_done None = Inr ()"
  by (simp_all add: validate_graph_def one_integrity validate_execution_binding_tenant_def demo_genv_def
      MAX_TASK_GRAPH_JSON_BYTES_def) (simp_all add: one_defs)

lemma demo_graph_id [simp]: "validate_graph_id ''graph'' = Inr ()"
  by (simp add: validate_graph_id_def string_eval)

lemmas graph_store_eval = store_key_def tenant_storage_key_def bm_get_def bm_contains_def one_store_def
  one_snapshot_def

lemma one_created:
  "tg_create_as demo_genv [] ''graph'' one_pending local_process = Inr (one_store 1 one_pending, one_snapshot 1 one_pending)"
  by (simp add: tg_create_as_def one_valid graph_store_eval Let_def)

lemma one_loaded: "tg_load_as (one_store n g) ''graph'' local_process = Inr (Some (one_snapshot n g))"
  by (simp add: tg_load_as_def graph_store_eval)

lemma one_swapped:
  "compare_and_swap_as demo_genv (one_store 1 one_pending) (one_snapshot 1 one_pending\<lparr>tgs_graph := one_done\<rparr>) local_process
     = Inr (one_store 2 one_done, one_snapshot 2 one_done)"
  by (simp add: compare_and_swap_as_def one_valid graph_store_eval checked_add_def Let_def)

section \<open>Properties\<close>

text \<open>
  A read-modify-write of a Task Graph is atomic. When a caller loaded a snapshot, mutated its
  copy, and its compare-and-swap succeeds after any calls of other callers, then the stored
  snapshot was still exactly the loaded one, the store now holds the mutated graph at the next
  revision, and every other snapshot offered on the same loaded revision is refused from then on.
\<close>

theorem graph_update_atomic:
  assumes "tg_load_as graphs graph_id authority = Inr (Some loaded)"
    and reach: "(graph_store_step env)\<^sup>*\<^sup>* [] graphs" "(graph_store_step env)\<^sup>*\<^sup>* graphs graphs1"
    and swap: "compare_and_swap_as env graphs1 (loaded\<lparr>tgs_graph := g\<rparr>) authority = Inr (graphs2, saved)"
    and later: "(graph_store_step env)\<^sup>*\<^sup>* graphs2 graphs3" "tgs_id offered = graph_id"
      "tgs_revision offered = tgs_revision loaded"
  shows "(bm_get graphs1 (store_key graph_id (tenant_id authority)) = Some loaded) \<and>
    (bm_get graphs2 (store_key graph_id (tenant_id authority)) =
      Some (loaded\<lparr>tgs_graph := g, tgs_revision := tgs_revision loaded + 1\<rparr>)) \<and>
    (\<nexists>r. compare_and_swap_as env graphs3 offered authority = Inr r)"
proof (rule conjI [OF _ conjI]; (intro impI)?)
  let ?k = "store_key graph_id (tenant_id authority)"
  from assms(1) have load: "bm_get graphs ?k = Some loaded" "valid_authority authority"
    by (auto simp: tg_load_as_def ok_iff)
  with graph_store_entries [OF reach(1)] have id: "tgs_id loaded = graph_id"
    by (auto simp: graph_entry_ok_def store_key_def)
  from swap id obtain current r where current: "bm_get graphs1 ?k = Some current"
      "tgs_revision current = tgs_revision loaded" and r: "unat r = Suc (unat (tgs_revision loaded))"
    and graphs2: "graphs2 = bm_insert ?k (loaded\<lparr>tgs_graph := g, tgs_revision := r\<rparr>) graphs1"
    by (auto simp: compare_and_swap_as_ok)
  with next_revision [OF r] show "bm_get graphs2 ?k = Some (loaded\<lparr>tgs_graph := g, tgs_revision := tgs_revision loaded + 1\<rparr>)"
    by (simp add: bm_get_insert)
  show "bm_get graphs1 ?k = Some loaded"
    using gstore.same_revision_same_content [OF reach(2) load(1) current] current(1) by simp
  have "graph_commits env graphs1 ?k (tgs_revision loaded) graphs2"
    unfolding graph_commits_def using swap id by force
  from gstore.one_writer [OF this later(1)] later(2,3)
  show "\<nexists>r. compare_and_swap_as env graphs3 offered authority = Inr r"
    unfolding graph_commits_def by (metis surj_pair)
qed

theorem graph_update_atomic_witness:
  "bm_get (one_store 1 one_pending) (store_key ''graph'' (tenant_id local_process)) = Some (one_snapshot 1 one_pending) \<and>
   bm_get (one_store 2 one_done) (store_key ''graph'' (tenant_id local_process)) =
     Some (one_snapshot 1 one_pending\<lparr>tgs_graph := one_done, tgs_revision := tgs_revision (one_snapshot 1 one_pending) + 1\<rparr>) \<and>
   (\<nexists>r. compare_and_swap_as demo_genv (one_store 2 one_done) (one_snapshot 1 one_running) local_process = Inr r)"
  using graph_update_atomic [OF one_loaded r_into_rtranclp [where r = "graph_store_step demo_genv", OF graph_created [OF one_created]]
      rtranclp.rtrancl_refl one_swapped rtranclp.rtrancl_refl, of "one_snapshot 1 one_running"]
  by (simp add: one_snapshot_def)

end
