(* ===== verification/Workflow_Engine.thy ===== *)
theory Workflow_Engine
  imports Workflow_Store Graph_Store
begin

text \<open>
  \<open>WorkflowEngine\<close> of \<^verbatim>\<open>workflow/engine.rs\<close>: the service above a Workflow coordinator and a Task
  coordinator. It makes two promises that neither coordinator can make alone: a Run links a Task
  Graph of its own tenant, and a Run completes only when every Task of that graph is completed.

  An engine call is not atomic: it loads the Run, loads the graph, and then applies the command,
  and other callers act in between. \<open>completion_guard\<close> is the part before the last call; the step
  relation \<open>engine_step\<close> lets a call pass its guard in one state (\<open>permits\<close>) and apply its
  command in a later one, and lets workers hold snapshots of graphs they loaded earlier
  (\<open>handles\<close>) and offer their mutated copies at any later time.
\<close>

section \<open>The service\<close>

definition all_completed :: "task_graph \<Rightarrow> bool" where
  "all_completed g \<longleftrightarrow> list_all (\<lambda>record. ts_is_completed (tr_status record)) (bm_values (tg_tasks g))"

definition we_create_as ::
  "'v::linorder workflow_env \<Rightarrow> 'v workflow_store \<Rightarrow> graph_store \<Rightarrow> string \<Rightarrow> 'v workflow_create_request \<Rightarrow>
   u64 \<Rightarrow> authority_context \<Rightarrow> ('v workflow_store \<times> 'v workflow_run_snapshot) result" where
  "we_create_as env runs graphs run_id request applied_at_ms authority =
     and_then (tg_load_as graphs (cr_task_graph_id request) authority) (\<lambda>found.
     if found = None then Inl (Workflow (W_store (Graph_not_in_boundary (cr_task_graph_id request))))
     else wf_create_as env runs run_id request applied_at_ms authority)"

definition we_load_as ::
  "'v workflow_store \<Rightarrow> string \<Rightarrow> authority_context \<Rightarrow> 'v workflow_run_snapshot option result" where
  "we_load_as runs run_id authority = wf_load_as runs run_id authority"

definition we_scan_due_as ::
  "'v workflow_store \<Rightarrow> u64 \<Rightarrow> string option \<Rightarrow> usize \<Rightarrow> authority_context \<Rightarrow> workflow_due_scan_page result"
where
  "we_scan_due_as runs at_ms after_run_id scan_limit authority =
     wf_scan_due_as runs at_ms after_run_id scan_limit authority"

fun is_complete :: "'v workflow_command_kind \<Rightarrow> bool" where
  "is_complete (WcComplete _) = True"
| "is_complete _ = False"

definition completion_guard ::
  "'v workflow_env \<Rightarrow> 'v workflow_store \<Rightarrow> graph_store \<Rightarrow> string \<Rightarrow> 'v workflow_command \<Rightarrow> authority_context \<Rightarrow>
   unit result" where
  "completion_guard env runs graphs run_id command authority =
     (if \<not> is_complete (wc_kind command) then Inr ()
      else
      and_then (wf_load_as runs run_id authority) (\<lambda>found.
      and_then (ok_or (missing_run run_id) found) (\<lambda>run.
      and_then (recognizes_command env (wrs_run run) command) (\<lambda>known.
      if known then Inr ()
      else
      let graph_id = wr_task_graph_id (wrs_run run) in
      and_then (tg_load_as graphs graph_id authority) (\<lambda>found.
      and_then (ok_or (Workflow (W_store (Graph_gone graph_id))) found) (\<lambda>graph.
      if \<not> all_completed (tgs_graph graph) then Inl (Workflow (W_store Tasks_incomplete))
      else Inr ()))))))"

definition we_apply_as ::
  "'v::linorder workflow_env \<Rightarrow> 'v workflow_store \<Rightarrow> graph_store \<Rightarrow> string \<Rightarrow> u64 \<Rightarrow> 'v workflow_command \<Rightarrow>
   u64 \<Rightarrow> authority_context \<Rightarrow> ('v workflow_store \<times> 'v workflow_command_result) result" where
  "we_apply_as env runs graphs run_id expected_revision command applied_at_ms authority =
     and_then (completion_guard env runs graphs run_id command authority) (\<lambda>_.
     wf_apply_as env runs run_id expected_revision command applied_at_ms authority)"

text \<open>The unscoped wrappers.\<close>

definition we_create ::
  "'v::linorder workflow_env \<Rightarrow> 'v workflow_store \<Rightarrow> graph_store \<Rightarrow> string \<Rightarrow> 'v workflow_create_request \<Rightarrow>
   u64 \<Rightarrow> ('v workflow_store \<times> 'v workflow_run_snapshot) result" where
  "we_create env runs graphs run_id request applied_at_ms =
     we_create_as env runs graphs run_id request applied_at_ms local_process"

definition we_load :: "'v workflow_store \<Rightarrow> string \<Rightarrow> 'v workflow_run_snapshot option result" where
  "we_load runs run_id = we_load_as runs run_id local_process"

definition we_scan_due ::
  "'v workflow_store \<Rightarrow> u64 \<Rightarrow> string option \<Rightarrow> usize \<Rightarrow> workflow_due_scan_page result" where
  "we_scan_due runs at_ms after_run_id scan_limit =
     we_scan_due_as runs at_ms after_run_id scan_limit local_process"

definition we_apply ::
  "'v::linorder workflow_env \<Rightarrow> 'v workflow_store \<Rightarrow> graph_store \<Rightarrow> string \<Rightarrow> u64 \<Rightarrow> 'v workflow_command \<Rightarrow>
   u64 \<Rightarrow> ('v workflow_store \<times> 'v workflow_command_result) result" where
  "we_apply env runs graphs run_id expected_revision command applied_at_ms =
     we_apply_as env runs graphs run_id expected_revision command applied_at_ms local_process"

section \<open>Concurrent callers\<close>

record 'v engine_state =
  es_runs :: "'v workflow_store"
  es_graphs :: graph_store
  es_permits :: "(string \<times> string option \<times> 'v workflow_command) set"
  es_links :: "(string option \<times> 'v workflow_create_request) set"
  es_handles :: "task_graph_snapshot set"

definition engine_start :: "'v engine_state" where
  "engine_start = \<lparr>es_runs = [], es_graphs = [], es_permits = {}, es_links = {}, es_handles = {}\<rparr>"

inductive engine_step ::
  "'v::linorder workflow_env \<Rightarrow> graph_store_env \<Rightarrow> 'v engine_state \<Rightarrow> 'v engine_state \<Rightarrow> bool"
  for env genv where
  graph_checked: "tg_load_as (es_graphs s) (cr_task_graph_id request) authority = Inr (Some h) \<Longrightarrow>
    engine_step env genv s (s\<lparr>es_links := insert (tenant_id authority, request) (es_links s)\<rparr>)"
| run_created: "(tenant_id authority, request) \<in> es_links s \<Longrightarrow>
    wf_create_as env (es_runs s) run_id request now authority = Inr (runs, snapshot) \<Longrightarrow>
    engine_step env genv s (s\<lparr>es_runs := runs\<rparr>)"
| guard_passed: "completion_guard env (es_runs s) (es_graphs s) run_id command authority = Inr () \<Longrightarrow>
    engine_step env genv s (s\<lparr>es_permits := insert (run_id, tenant_id authority, command) (es_permits s)\<rparr>)"
| run_applied: "(run_id, tenant_id authority, command) \<in> es_permits s \<Longrightarrow>
    wf_apply_as env (es_runs s) run_id r command now authority = Inr (runs, res) \<Longrightarrow>
    engine_step env genv s (s\<lparr>es_runs := runs\<rparr>)"
| graph_registered: "task_graph_new (gse_graph genv) definitions = Inr g \<Longrightarrow>
    tg_create_as genv (es_graphs s) graph_id g authority = Inr (graphs, h) \<Longrightarrow>
    engine_step env genv s (s\<lparr>es_graphs := graphs\<rparr>)"
| graph_fetched: "tg_load_as (es_graphs s) graph_id authority = Inr (Some h) \<Longrightarrow>
    engine_step env genv s (s\<lparr>es_handles := insert h (es_handles s)\<rparr>)"
| graph_worked: "h \<in> es_handles s \<Longrightarrow> graph_run (gse_graph genv) (tgs_graph h) g \<Longrightarrow>
    compare_and_swap_as genv (es_graphs s) (h\<lparr>tgs_graph := g\<rparr>) authority = Inr (graphs, saved) \<Longrightarrow>
    engine_step env genv s (s\<lparr>es_graphs := graphs, es_handles := insert saved (es_handles s)\<rparr>)"

text \<open>The calls as the engine makes them, in one go, are sequences of these steps.\<close>

lemma we_create_steps:
  assumes "we_create_as env (es_runs s) (es_graphs s) run_id request now authority = Inr (runs, snapshot)"
  shows "(engine_step env genv)\<^sup>*\<^sup>* s
    (s\<lparr>es_links := insert (tenant_id authority, request) (es_links s), es_runs := runs\<rparr>)"
proof -
  let ?t = "s\<lparr>es_links := insert (tenant_id authority, request) (es_links s)\<rparr>"
  from assms have "engine_step env genv s ?t"
    by (auto simp: we_create_as_def ok_iff intro: graph_checked)
  moreover have "engine_step env genv ?t (?t\<lparr>es_runs := runs\<rparr>)"
    using assms by (intro run_created [where authority = authority]) (auto simp: we_create_as_def ok_iff)
  ultimately show ?thesis by (intro converse_rtranclp_into_rtranclp [OF _ r_into_rtranclp])
qed

lemma we_apply_steps:
  assumes "we_apply_as env (es_runs s) (es_graphs s) run_id r command now authority = Inr (runs, res)"
  shows "(engine_step env genv)\<^sup>*\<^sup>* s
    (s\<lparr>es_permits := insert (run_id, tenant_id authority, command) (es_permits s), es_runs := runs\<rparr>)"
proof -
  let ?t = "s\<lparr>es_permits := insert (run_id, tenant_id authority, command) (es_permits s)\<rparr>"
  from assms have "engine_step env genv s ?t"
    by (auto simp: we_apply_as_def ok_iff intro: guard_passed)
  moreover have "engine_step env genv ?t (?t\<lparr>es_runs := runs\<rparr>)"
    using assms by (intro run_applied [where authority = authority]) (auto simp: we_apply_as_def ok_iff)
  ultimately show ?thesis by (intro converse_rtranclp_into_rtranclp [OF _ r_into_rtranclp])
qed

section \<open>What concurrent steps keep\<close>

text \<open>Completed graphs stay completed under the operations of the graph.\<close>

lemma all_completed_iff:
  "keyed g \<Longrightarrow> all_completed g \<longleftrightarrow> (\<forall>i r. bm_get (tg_tasks g) i = Some r \<longrightarrow> ts_is_completed (tr_status r))"
  by (auto simp: all_completed_def list_all_iff keyed_def bm_value_get)

lemma completed_terminal: "ts_is_completed st \<Longrightarrow> ts_is_terminal st"
  by (cases st) simp_all

lemma graph_run_keys: "graph_run env g g' \<Longrightarrow> keyed g \<Longrightarrow> bm_keys (tg_tasks g') = bm_keys (tg_tasks g)"
  by (induction rule: graph_run_induct) (auto simp: graph_step_new_task graph_run_keyed)

lemma bm_get_None_keys: "bm_get m k = None \<longleftrightarrow> k \<notin> set (bm_keys m)"
  by (simp add: bm_get_def bm_keys_def map_of_eq_None_iff)

lemma graph_run_all_completed:
  assumes run: "graph_run env g g'" and keyed: "keyed g" and all: "all_completed g"
  shows "all_completed g'"
proof -
  have "ts_is_completed (tr_status r')" if r': "bm_get (tg_tasks g') i = Some r'" for i r'
  proof -
    from r' graph_run_keys [OF run keyed] obtain r where r: "bm_get (tg_tasks g) i = Some r"
      by (metis bm_get_None_keys not_Some_eq option.distinct(1))
    with all keyed have "ts_is_completed (tr_status r)" by (auto simp: all_completed_iff)
    with graph_run_terminal [OF run keyed r completed_terminal] r' show ?thesis by simp
  qed
  then show ?thesis using graph_run_keyed [OF run keyed] by (simp add: all_completed_iff)
qed

text \<open>How the two stores evolve: nothing is lost, and what is completed stays completed.\<close>

definition graphs_evolve :: "graph_store \<Rightarrow> graph_store \<Rightarrow> bool" where
  "graphs_evolve graphs graphs' \<longleftrightarrow> (\<forall>k G. bm_get graphs k = Some G \<longrightarrow>
     (\<exists>G'. bm_get graphs' k = Some G' \<and> (G' = G \<or> tgs_revision G < tgs_revision G') \<and>
        (all_completed (tgs_graph G) \<longrightarrow> all_completed (tgs_graph G'))))"

definition runs_evolve :: "'v workflow_env \<Rightarrow> 'v workflow_store \<Rightarrow> 'v workflow_store \<Rightarrow> bool" where
  "runs_evolve env runs runs' \<longleftrightarrow> (\<forall>k R. bm_get runs k = Some R \<longrightarrow>
     (\<exists>R'. bm_get runs' k = Some R' \<and> wr_task_graph_id (wrs_run R') = wr_task_graph_id (wrs_run R) \<and>
        (\<forall>command. recognizes_command env (wrs_run R) command = Inr True \<longrightarrow>
           recognizes_command env (wrs_run R') command = Inr True)))"

lemma graphs_evolve_refl [simp]: "graphs_evolve graphs graphs"
  by (simp add: graphs_evolve_def)

lemma runs_evolve_refl [simp]: "runs_evolve env runs runs"
  by (simp add: runs_evolve_def)

lemma applied_keeps_link:
  "workflow_apply env run command now authority = Inr (run', Applied) \<Longrightarrow>
   wr_task_graph_id run' = wr_task_graph_id run"
  by (auto elim!: workflow_apply_AppliedE dest: apply_kind_frame(2))

lemma store_step_runs_evolve: "workflow_store_step env runs runs' \<Longrightarrow> runs_evolve env runs runs'"
  unfolding runs_evolve_def
proof (intro allI impI)
  fix k R assume step: "workflow_store_step env runs runs'" and R: "bm_get runs k = Some R"
  from step show "\<exists>R'. bm_get runs' k = Some R' \<and> wr_task_graph_id (wrs_run R') = wr_task_graph_id (wrs_run R) \<and>
      (\<forall>command. recognizes_command env (wrs_run R) command = Inr True \<longrightarrow>
         recognizes_command env (wrs_run R') command = Inr True)"
  proof (cases rule: workflow_step_entry [of _ _ _ k])
    case (grown current command now authority run revision)
    from grown(2) obtain ts where "wr_transitions run = wr_transitions (wrs_run current) @ ts"
      using apply_extends by blast
    with grown R applied_keeps_link [OF grown(2)] recognizes_prefix show ?thesis by fastforce
  qed (use R in auto)
qed

definition handle_ok :: "graph_store \<Rightarrow> task_graph_snapshot \<Rightarrow> bool" where
  "handle_ok graphs h \<longleftrightarrow> keyed (tgs_graph h) \<and>
     (\<exists>G. bm_get graphs (store_key (tgs_id h) (tgs_tenant_id h)) = Some G \<and>
        (G = h \<or> tgs_revision h < tgs_revision G))"

definition graph_done :: "graph_store \<Rightarrow> string \<Rightarrow> string \<Rightarrow> bool" where
  "graph_done graphs tenant graph_id \<longleftrightarrow>
     (\<exists>G. bm_get graphs (tenant, graph_id) = Some G \<and> all_completed (tgs_graph G))"

definition permit_ok ::
  "'v workflow_env \<Rightarrow> 'v workflow_store \<Rightarrow> graph_store \<Rightarrow> string \<times> string option \<times> 'v workflow_command \<Rightarrow> bool" where
  "permit_ok env runs graphs = (\<lambda>(run_id, tenant, command). is_complete (wc_kind command) \<longrightarrow>
     (\<exists>R. bm_get runs (store_key run_id tenant) = Some R \<and>
        (recognizes_command env (wrs_run R) command = Inr True \<or>
         graph_done graphs (tenant_storage_key tenant) (wr_task_graph_id (wrs_run R)))))"

definition linked :: "graph_store \<Rightarrow> string \<times> string \<Rightarrow> 'v workflow_run \<Rightarrow> bool" where
  "linked graphs k run \<longleftrightarrow> bm_get graphs (fst k, wr_task_graph_id run) \<noteq> None \<and>
     (\<forall>summary. wr_status run = WsCompleted summary \<longrightarrow> graph_done graphs (fst k) (wr_task_graph_id run))"

definition link_ok :: "graph_store \<Rightarrow> string option \<times> 'v workflow_create_request \<Rightarrow> bool" where
  "link_ok graphs l \<longleftrightarrow> bm_get graphs (store_key (cr_task_graph_id (snd l)) (fst l)) \<noteq> None"

definition runs_linked :: "graph_store \<Rightarrow> 'v workflow_store \<Rightarrow> bool" where
  "runs_linked graphs runs \<longleftrightarrow> store_all (\<lambda>k R. linked graphs k (wrs_run R)) runs"

definition engine_inv :: "'v::linorder workflow_env \<Rightarrow> graph_store_env \<Rightarrow> 'v engine_state \<Rightarrow> bool" where
  "engine_inv env genv s \<longleftrightarrow>
     (graph_store_step genv)\<^sup>*\<^sup>* [] (es_graphs s) \<and>
     store_all (\<lambda>_ G. keyed (tgs_graph G)) (es_graphs s) \<and>
     (\<forall>h\<in>es_handles s. handle_ok (es_graphs s) h) \<and>
     (\<forall>l\<in>es_links s. link_ok (es_graphs s) l) \<and>
     (\<forall>p\<in>es_permits s. permit_ok env (es_runs s) (es_graphs s) p) \<and>
     runs_linked (es_graphs s) (es_runs s)"

lemma evolve_keeps:
  assumes "graphs_evolve graphs graphs'"
  shows "handle_ok graphs h \<Longrightarrow> handle_ok graphs' h"
    and "link_ok graphs l \<Longrightarrow> link_ok graphs' l"
    and "graph_done graphs t i \<Longrightarrow> graph_done graphs' t i"
    and "runs_linked graphs runs \<Longrightarrow> runs_linked graphs' runs"
proof -
  show "handle_ok graphs' h" if "handle_ok graphs h"
  proof -
    from that obtain G where G: "bm_get graphs (store_key (tgs_id h) (tgs_tenant_id h)) = Some G"
      "G = h \<or> tgs_revision h < tgs_revision G" and keyed: "keyed (tgs_graph h)"
      by (auto simp: handle_ok_def)
    from assms G(1) obtain G' where "bm_get graphs' (store_key (tgs_id h) (tgs_tenant_id h)) = Some G'"
      "G' = G \<or> tgs_revision G < tgs_revision G'"
      unfolding graphs_evolve_def by blast
    with G(2) keyed show ?thesis by (auto simp: handle_ok_def intro: order.strict_trans)
  qed
  have found: "bm_get graphs' k \<noteq> None" if "bm_get graphs k \<noteq> None" for k
    using that assms unfolding graphs_evolve_def by fastforce
  show finished: "graph_done graphs' t i" if "graph_done graphs t i" for t i
    using that assms unfolding graph_done_def graphs_evolve_def by blast
  show "link_ok graphs' l" if "link_ok graphs l"
    using that found unfolding link_ok_def by blast
  show "runs_linked graphs' runs" if "runs_linked graphs runs"
    using that unfolding runs_linked_def
  proof (rule store_all_mono)
    show "linked graphs' k (wrs_run R)" if "linked graphs k (wrs_run R)" for k R
      using that found finished unfolding linked_def by blast
  qed
qed

lemma evolve_keeps_permit:
  assumes "graphs_evolve graphs graphs'" "runs_evolve env runs runs'" "permit_ok env runs graphs p"
  shows "permit_ok env runs' graphs' p"
proof -
  obtain i t c where p: "p = (i, t, c)" by (cases p)
  show ?thesis
    using assms(2,3) evolve_keeps(3) [OF assms(1)] unfolding p permit_ok_def runs_evolve_def prod.case by metis
qed
lemma worked_from_current:
  assumes handle: "handle_ok graphs h"
    and swap: "compare_and_swap_as genv graphs (h\<lparr>tgs_graph := g\<rparr>) authority = Inr (graphs', saved)"
  shows "bm_get graphs (store_key (tgs_id h) (tgs_tenant_id h)) = Some h"
  using assms by (auto simp: handle_ok_def compare_and_swap_as_ok)

lemma worked_evolves:
  assumes handle: "handle_ok graphs h" and run: "graph_run (gse_graph genv) (tgs_graph h) g"
    and swap: "compare_and_swap_as genv graphs (h\<lparr>tgs_graph := g\<rparr>) authority = Inr (graphs', saved)"
  shows "graphs_evolve graphs graphs'" and "handle_ok graphs' saved" and "keyed g"
proof -
  note current = worked_from_current [OF handle swap]
  from swap obtain r where saved: "saved = h\<lparr>tgs_graph := g, tgs_revision := r\<rparr>"
      "unat r = Suc (unat (tgs_revision h))" "tgs_tenant_id h = tenant_id authority"
    and graphs': "graphs' = bm_insert (store_key (tgs_id h) (tenant_id authority)) saved graphs"
    by (auto simp: compare_and_swap_as_ok)
  from handle have keyed: "keyed (tgs_graph h)" by (simp add: handle_ok_def)
  show "keyed g" using graph_run_keyed [OF run keyed] .
  with saved graphs' show "handle_ok graphs' saved" by (simp add: handle_ok_def bm_get_insert)
  show "graphs_evolve graphs graphs'"
    using current saved graphs' graph_run_all_completed [OF run keyed]
    by (auto simp: graphs_evolve_def bm_get_insert word_less_nat_alt)
qed

lemma created_evolves:
  "tg_create_as genv graphs graph_id g authority = Inr (graphs', h) \<Longrightarrow> graphs_evolve graphs graphs'"
  by (auto simp: tg_create_as_ok graphs_evolve_def bm_get_insert)

text \<open>Only the command \<open>Complete\<close> completes a Run.\<close>

lemma completed_by_complete:
  assumes "workflow_apply env run command now authority = Inr (run', Applied)"
    and "wr_status run' = WsCompleted summary"
  shows "is_complete (wc_kind command)"
proof -
  from assms obtain nxt tk where "apply_kind run (wc_kind command) now = Inr (nxt, tk)"
    "wr_status nxt = WsCompleted summary"
    by (auto elim!: workflow_apply_AppliedE)
  then show ?thesis
    by (cases "wc_kind command")
      (auto simp: ok_iff start_wait_def require_nonterminal_def split: if_splits workflow_status.splits workflow_wait.splits)
qed

lemma applied_linked:
  assumes permit: "permit_ok env runs graphs (run_id, tenant_id authority, command)"
    and links: "runs_linked graphs runs"
    and app: "wf_apply_as env runs run_id r command now authority = Inr (runs', res)"
  shows "runs_linked graphs runs'"
  using app
proof (cases rule: wf_apply_as_okE)
  case known
  with links show ?thesis by simp
next
  case (written current run revision)
  let ?k = "store_key run_id (tenant_id authority)"
  note link = applied_keeps_link [OF written(6)]
  have cur: "linked graphs ?k (wrs_run current)"
    using links written(3) unfolding runs_linked_def by (rule store_allD)
  have "graph_done graphs (fst ?k) (wr_task_graph_id run)" if "wr_status run = WsCompleted summary" for summary
    using permit completed_by_complete [OF written(6) that] written(3,4) link
    by (auto simp: permit_ok_def store_key_def)
  with cur link have "linked graphs ?k run" by (simp add: linked_def)
  with links show ?thesis unfolding runs_linked_def written(8) by (auto intro: store_all_insert)
qed

lemma created_linked:
  assumes link: "link_ok graphs (tenant_id authority, request)" and links: "runs_linked graphs runs"
    and create: "wf_create_as env runs run_id request now authority = Inr (runs', snapshot)"
  shows "runs_linked graphs runs'"
proof -
  have new: "wr_status run = WsRunning \<and> wr_task_graph_id run = cr_task_graph_id request"
    if "workflow_new env request now authority = Inr run" for run
    using that by (auto simp: workflow_new_def ok_iff Let_def)
  from create consider "runs' = runs" | run where "workflow_new env request now authority = Inr run"
    "runs' = bm_insert (store_key run_id (tenant_id authority)) \<lparr>wrs_id = run_id,
       wrs_tenant_id = tenant_id authority, wrs_revision = 1, wrs_run = run\<rparr> runs"
    by (auto simp: wf_create_as_ok)
  then show ?thesis
  proof cases
    case 1
    with links show ?thesis by simp
  next
    case (2 run)
    with new link have "linked graphs (store_key run_id (tenant_id authority)) run"
      by (auto simp: linked_def link_ok_def store_key_def)
    with links show ?thesis unfolding runs_linked_def 2(2) by (auto intro: store_all_insert)
  qed
qed

lemma guard_permits:
  assumes "completion_guard env runs graphs run_id command authority = Inr u"
  shows "permit_ok env runs graphs (run_id, tenant_id authority, command)"
  using assms
  by (auto simp: completion_guard_def permit_ok_def ok_iff wf_load_as_def tg_load_as_def graph_done_def
      store_key_def Let_def split: if_splits)
lemma engine_start_inv: "engine_inv env genv engine_start"
  by (simp add: engine_inv_def engine_start_def runs_linked_def)

lemma engine_inv_graphs:
  assumes inv: "engine_inv env genv s" and evolve: "graphs_evolve (es_graphs s) graphs"
    and step: "graph_store_step genv (es_graphs s) graphs"
    and keyed: "store_all (\<lambda>_ G. keyed (tgs_graph G)) graphs" and handles: "\<forall>h\<in>hs. handle_ok graphs h"
  shows "engine_inv env genv (s\<lparr>es_graphs := graphs, es_handles := hs\<rparr>)"
  using inv keyed handles step
  by (auto simp: engine_inv_def intro: evolve_keeps(2,4) [OF evolve]
      evolve_keeps_permit [OF evolve runs_evolve_refl] rtranclp.rtrancl_into_rtrancl)

lemma engine_inv_runs:
  assumes "engine_inv env genv s" and "workflow_store_step env (es_runs s) runs"
    and "runs_linked (es_graphs s) runs"
  shows "engine_inv env genv (s\<lparr>es_runs := runs\<rparr>)"
  using assms evolve_keeps_permit [OF graphs_evolve_refl store_step_runs_evolve [OF assms(2)]]
  by (simp add: engine_inv_def)

lemma engine_step_inv:
  assumes inv: "engine_inv env genv s" and step: "engine_step env genv s t"
  shows "engine_inv env genv t"
proof -
  note parts = inv [unfolded engine_inv_def]
  from step show ?thesis
  proof cases
    case (graph_checked request authority h)
    with parts show ?thesis by (auto simp: engine_inv_def tg_load_as_def ok_iff link_ok_def)
  next
    case (run_created authority request run_id now rs snapshot)
    with parts have "link_ok (es_graphs s) (tenant_id authority, request)" by blast
    with created_linked [OF this _ run_created(3)] parts show ?thesis
      unfolding run_created(1) by (intro engine_inv_runs [OF inv store_created [OF run_created(3)]]) blast
  next
    case (guard_passed run_id command authority)
    with parts guard_permits [OF guard_passed(2)] show ?thesis by (simp add: engine_inv_def)
  next
    case (run_applied run_id authority command r now rs res)
    with parts have "permit_ok env (es_runs s) (es_graphs s) (run_id, tenant_id authority, command)" by blast
    with applied_linked [OF this _ run_applied(3)] parts show ?thesis
      unfolding run_applied(1) by (intro engine_inv_runs [OF inv store_applied [OF run_applied(3)]]) blast
  next
    case (graph_registered definitions g graph_id authority gs h)
    note evolves = created_evolves [OF graph_registered(3)]
    from task_graph_new_integrity [OF graph_registered(2)] have "keyed g"
      by (auto simp: validate_integrity_ok intro: integrity_keyed)
    with parts graph_registered(3) have "store_all (\<lambda>_ G. keyed (tgs_graph G)) gs"
      by (auto simp: tg_create_as_ok intro: store_all_insert)
    from engine_inv_graphs [OF inv evolves graph_created [OF graph_registered(3)] this, of "es_handles s"]
    show ?thesis using parts evolve_keeps(1) [OF evolves] graph_registered(1) by (cases s) auto
  next
    case (graph_fetched graph_id authority h)
    then have get: "bm_get (es_graphs s) (store_key graph_id (tenant_id authority)) = Some h"
      by (auto simp: tg_load_as_def ok_iff)
    have "graph_entry_ok genv (store_key graph_id (tenant_id authority)) h" "keyed (tgs_graph h)"
      using parts graph_store_entries [OF _ get] store_allD [OF _ get] by blast+
    with get have "handle_ok (es_graphs s) h" by (auto simp: handle_ok_def graph_entry_ok_def)
    with parts graph_fetched(1) show ?thesis by (simp add: engine_inv_def)
  next
    case (graph_worked h g authority gs saved)
    from graph_worked(2) parts have handle: "handle_ok (es_graphs s) h" by blast
    note evolves = worked_evolves [OF handle graph_worked(3,4)]
    from graph_worked(4) evolves(3) parts have "store_all (\<lambda>_ G. keyed (tgs_graph G)) gs"
      by (auto simp: compare_and_swap_as_ok intro!: store_all_insert)
    moreover have "\<forall>h\<in>insert saved (es_handles s). handle_ok gs h"
      using evolves(2) evolve_keeps(1) [OF evolves(1)] parts by blast
    ultimately show ?thesis
      unfolding graph_worked(1) by (rule engine_inv_graphs [OF inv evolves(1) graph_swapped [OF graph_worked(4)]])
  qed
qed

lemma engine_reachable_inv:
  "(engine_step env genv)\<^sup>*\<^sup>* engine_start s \<Longrightarrow> engine_inv env genv s"
  by (induction rule: rtranclp_induct) (auto intro: engine_start_inv engine_step_inv)

section \<open>A concrete history\<close>

definition demo_complete :: "nat workflow_command" where
  "demo_complete = \<lparr>wc_id = ''done'', wc_kind = WcComplete ''stop''\<rparr>"

definition demo_completed :: "nat workflow_run" where
  "demo_completed = demo_run\<lparr>wr_status := WsCompleted ''stop'',
     wr_transitions := wr_transitions demo_run @ [demo_transition 2 ''done'' 6 (WtCompleted ''stop'')]\<rparr>"

lemma demo_complete_applied:
  "workflow_apply demo_env demo_run demo_complete 6 local_process = Inr (demo_completed, Applied)"
proof -
  have "wf_validate_identity ''done'' = Inr ()"
    by (simp add: wf_validate_identity_def string_eval MAX_WORKFLOW_IDEMPOTENCY_BYTES_def)
  then show ?thesis by (simp add: demo_defs demo_complete_def demo_completed_def workflow_eval)
qed

lemma demo_complete_new: "recognizes_command demo_env demo_run demo_complete = Inr False"
  using demo_complete_applied by (auto elim: workflow_apply_AppliedE)

lemma demo_run_graph [simp]: "wr_task_graph_id demo_run = ''graph''" "cr_task_graph_id demo_request = ''graph''"
  by (simp_all add: demo_defs)

lemma demo_guard:
  "completion_guard demo_env (demo_store 1 demo_run) (one_store 2 one_done) ''r'' demo_complete local_process = Inr ()"
  "completion_guard demo_env (demo_store 1 demo_run) (one_store 1 one_pending) ''r'' demo_complete local_process
     = Inl (Workflow (W_store Tasks_incomplete))"
  by (simp_all add: completion_guard_def demo_complete_new wf_load_as_def validate_run_access_def one_loaded
      store_key_def tenant_storage_key_def bm_get_def demo_store_defs all_completed_def one_defs one_snapshot_def
      bm_values_def demo_task_def Let_def) (simp_all add: demo_complete_def)

lemma demo_complete_stored:
  "wf_apply_as demo_env (demo_store 1 demo_run) ''r'' 1 demo_complete 6 local_process =
     Inr (demo_store 2 demo_completed, \<lparr>wcr_snapshot = demo_snapshot 2 demo_completed, wcr_outcome = Applied\<rparr>)"
  by (simp add: workflow_store_eval demo_store_defs demo_complete_new demo_complete_applied checked_add_def)

definition demo_engine :: "nat workflow_store \<Rightarrow> graph_store \<Rightarrow> nat engine_state" where
  "demo_engine runs graphs = \<lparr>es_runs = runs, es_graphs = graphs,
     es_permits = {(''r'', None, demo_complete)}, es_links = {(None, demo_request)},
     es_handles = {one_snapshot 1 one_pending, one_snapshot 2 one_done}\<rparr>"

lemma demo_engine_reachable:
  "(engine_step demo_env demo_genv)\<^sup>*\<^sup>* engine_start (demo_engine (demo_store 2 demo_completed) (one_store 2 one_done))"
proof -
  let ?step = "engine_step demo_env demo_genv" and ?start = "engine_start :: nat engine_state"
  let ?s1 = "?start\<lparr>es_graphs := one_store 1 one_pending\<rparr>"
  let ?s2 = "?s1\<lparr>es_handles := insert (one_snapshot 1 one_pending) (es_handles ?s1)\<rparr>"
  let ?s3 = "?s2\<lparr>es_graphs := one_store 2 one_done,
    es_handles := insert (one_snapshot 2 one_done) (es_handles ?s2)\<rparr>"
  let ?s4 = "?s3\<lparr>es_links := insert (tenant_id local_process, demo_request) (es_links ?s3)\<rparr>"
  let ?s5 = "?s4\<lparr>es_runs := demo_store 1 demo_run\<rparr>"
  let ?s6 = "?s5\<lparr>es_permits := insert (''r'', tenant_id local_process, demo_complete) (es_permits ?s5)\<rparr>"
  let ?s7 = "?s6\<lparr>es_runs := demo_store 2 demo_completed\<rparr>"
  note start = engine_start_def
  have new: "task_graph_new (gse_graph demo_genv) [demo_definition ''a'' []] = Inr one_pending"
    by (simp add: one_new)
  have create: "tg_create_as demo_genv (es_graphs ?start) ''graph'' one_pending local_process =
      Inr (one_store 1 one_pending, one_snapshot 1 one_pending)" by (simp add: start one_created)
  have fetch: "tg_load_as (es_graphs ?s1) ''graph'' local_process = Inr (Some (one_snapshot 1 one_pending))"
    by (simp add: one_loaded)
  have run: "graph_run (gse_graph demo_genv) (tgs_graph (one_snapshot 1 one_pending)) one_done"
    by (simp add: one_snapshot_def one_run)
  have swap: "compare_and_swap_as demo_genv (es_graphs ?s2) (one_snapshot 1 one_pending\<lparr>tgs_graph := one_done\<rparr>)
      local_process = Inr (one_store 2 one_done, one_snapshot 2 one_done)" by (simp add: one_swapped)
  have check: "tg_load_as (es_graphs ?s3) (cr_task_graph_id demo_request) local_process =
      Inr (Some (one_snapshot 2 one_done))" by (simp add: one_loaded)
  have made: "wf_create_as demo_env (es_runs ?s4) ''r'' demo_request 5 local_process =
      Inr (demo_store 1 demo_run, demo_snapshot 1 demo_run)" by (simp add: start demo_store_created)
  have guard: "completion_guard demo_env (es_runs ?s5) (es_graphs ?s5) ''r'' demo_complete local_process = Inr ()"
    by (simp add: demo_guard)
  have commit: "wf_apply_as demo_env (es_runs ?s6) ''r'' 1 demo_complete 6 local_process =
      Inr (demo_store 2 demo_completed, \<lparr>wcr_snapshot = demo_snapshot 2 demo_completed, wcr_outcome = Applied\<rparr>)"
    by (simp add: demo_complete_stored)
  have "?step\<^sup>*\<^sup>* ?start ?s1" by (rule r_into_rtranclp [where r = ?step, OF graph_registered [OF new create]])
  moreover have "?step ?s1 ?s2" by (rule graph_fetched [OF fetch])
  moreover have "?step ?s2 ?s3" by (rule graph_worked [OF _ run swap]) simp
  moreover have "?step ?s3 ?s4" by (rule graph_checked [OF check])
  moreover have "?step ?s4 ?s5" by (rule run_created [OF _ made]) simp
  moreover have "?step ?s5 ?s6" by (rule guard_passed [OF guard])
  moreover have "?step ?s6 ?s7" by (rule run_applied [OF _ commit]) simp
  ultimately have "?step\<^sup>*\<^sup>* ?start ?s7" by (meson rtranclp.rtrancl_into_rtrancl)
  moreover have "?s7 = demo_engine (demo_store 2 demo_completed) (one_store 2 one_done)"
    by (simp add: demo_engine_def start insert_commute)
  ultimately show ?thesis by simp
qed

section \<open>Properties\<close>

text \<open>
  C5: A Workflow Run is completed only when the work it stands for is done. In every state that
  concurrent engine calls and workers can reach, a completed Run links a Task Graph of its own
  tenant in which every Task is completed, although the engine checks the graph in one call
  and completes the Run in a later one. A Run in any other state links a graph that exists.
\<close>

theorem engine_completion_sound:
  assumes "(engine_step env genv)\<^sup>*\<^sup>* engine_start s" and "bm_get (es_runs s) k = Some R"
  shows "\<exists>G. bm_get (es_graphs s) (fst k, wr_task_graph_id (wrs_run R)) = Some G \<and>
    ((\<exists>summary. wr_status (wrs_run R) = WsCompleted summary) \<longrightarrow>
      (\<forall>i r. bm_get (tg_tasks (tgs_graph G)) i = Some r \<longrightarrow> ts_is_completed (tr_status r)))"
proof -
  from engine_reachable_inv [OF assms(1)] have inv: "runs_linked (es_graphs s) (es_runs s)"
    "store_all (\<lambda>_ G. keyed (tgs_graph G)) (es_graphs s)" by (simp_all add: engine_inv_def)
  from inv(1) assms(2) have link: "linked (es_graphs s) k (wrs_run R)"
    unfolding runs_linked_def by (rule store_allD)
  then obtain G where G: "bm_get (es_graphs s) (fst k, wr_task_graph_id (wrs_run R)) = Some G"
    by (auto simp: linked_def)
  from store_allD [OF inv(2) G] link G show ?thesis
    by (auto simp: linked_def graph_done_def all_completed_iff)
qed

theorem engine_completion_sound_witness:
  "\<exists>G. bm_get (one_store 2 one_done) ([], ''graph'') = Some G \<and>
    \<not> (\<exists>i r. bm_get (tg_tasks (tgs_graph G)) i = Some r \<and> \<not> ts_is_completed (tr_status r))"
  using engine_completion_sound [OF demo_engine_reachable, of "([], ''r'')" "demo_snapshot 2 demo_completed"]
  by (auto simp: demo_engine_def demo_store_def demo_snapshot_def demo_completed_def bm_get_def)

text \<open>
  What the engine refuses. Creation fails when the caller's tenant has no such graph, whatever
  other tenants have; a new completion fails when the graph is gone or some Task is not
  completed. Neither reaches the Workflow coordinator.
\<close>

theorem engine_refuses:
  assumes "valid_authority authority"
  shows "(validate_graph_id (cr_task_graph_id request) = Inr () \<longrightarrow>
      bm_get graphs (store_key (cr_task_graph_id request) (tenant_id authority)) = None \<longrightarrow>
      we_create_as env runs graphs run_id request now authority =
        Inl (Workflow (W_store (Graph_not_in_boundary (cr_task_graph_id request))))) \<and>
    (wc_kind command = WcComplete summary \<longrightarrow> wf_validate_identity run_id = Inr () \<longrightarrow>
      bm_get runs (store_key run_id (tenant_id authority)) = Some R \<longrightarrow>
      recognizes_command env (wrs_run R) command = Inr False \<longrightarrow>
      validate_graph_id (wr_task_graph_id (wrs_run R)) = Inr () \<longrightarrow>
      we_apply_as env runs graphs run_id r command now authority =
        (case bm_get graphs (store_key (wr_task_graph_id (wrs_run R)) (tenant_id authority)) of
           None \<Rightarrow> Inl (Workflow (W_store (Graph_gone (wr_task_graph_id (wrs_run R)))))
         | Some G \<Rightarrow>
             if \<exists>record\<in>set (bm_values (tg_tasks (tgs_graph G))). \<not> ts_is_completed (tr_status record)
             then Inl (Workflow (W_store Tasks_incomplete))
             else wf_apply_as env runs run_id r command now authority))"
proof (rule conjI; (intro impI)?)
  from assms have "authority_validate_current authority = Inr ()" by (simp add: authority_validate_current_ok)
  note guards = this tg_load_as_def wf_load_as_def validate_run_access_def
  show "we_create_as env runs graphs run_id request now authority =
        Inl (Workflow (W_store (Graph_not_in_boundary (cr_task_graph_id request))))"
    if "validate_graph_id (cr_task_graph_id request) = Inr ()"
      "bm_get graphs (store_key (cr_task_graph_id request) (tenant_id authority)) = None"
    using that by (simp add: we_create_as_def guards)
  show "we_apply_as env runs graphs run_id r command now authority =
        (case bm_get graphs (store_key (wr_task_graph_id (wrs_run R)) (tenant_id authority)) of
           None \<Rightarrow> Inl (Workflow (W_store (Graph_gone (wr_task_graph_id (wrs_run R)))))
         | Some G \<Rightarrow>
             if \<exists>record\<in>set (bm_values (tg_tasks (tgs_graph G))). \<not> ts_is_completed (tr_status record)
             then Inl (Workflow (W_store Tasks_incomplete))
             else wf_apply_as env runs run_id r command now authority)"
    if "wc_kind command = WcComplete summary" "wf_validate_identity run_id = Inr ()"
      "bm_get runs (store_key run_id (tenant_id authority)) = Some R"
      "recognizes_command env (wrs_run R) command = Inr False"
      "validate_graph_id (wr_task_graph_id (wrs_run R)) = Inr ()"
    using that
    by (auto simp: we_apply_as_def completion_guard_def guards Let_def all_completed_def list_all_iff
        split: option.splits)
qed

theorem engine_refuses_witness:
  "we_create_as demo_env [] [] ''r'' demo_request 5 local_process =
     Inl (Workflow (W_store (Graph_not_in_boundary ''graph''))) \<and>
   we_apply_as demo_env (demo_store 1 demo_run) [] ''r'' 1 demo_complete 6 local_process =
     Inl (Workflow (W_store (Graph_gone ''graph''))) \<and>
   we_apply_as demo_env (demo_store 1 demo_run) (one_store 1 one_pending) ''r'' 1 demo_complete 6 local_process =
     Inl (Workflow (W_store Tasks_incomplete))"
proof -
  have get: "bm_get (demo_store 1 demo_run) (store_key ''r'' None) = Some (demo_snapshot 1 demo_run)"
    by (simp add: demo_store_def store_key_def tenant_storage_key_def bm_get_def)
  note refuses = engine_refuses [OF valid_authority_local_process]
  show ?thesis
    using conjunct1 [OF refuses [of demo_request "[]" demo_env "[]" "''r''" 5]]
      conjunct2 [OF refuses [of demo_request "[]" demo_env "demo_store 1 demo_run" "''r''" 6 demo_complete "''stop''"
        "demo_snapshot 1 demo_run" 1]]
      conjunct2 [OF refuses [of demo_request "one_store 1 one_pending" demo_env "demo_store 1 demo_run" "''r''" 6
        demo_complete "''stop''" "demo_snapshot 1 demo_run" 1]] get demo_complete_new
    by (simp add: demo_complete_def demo_snapshot_def one_store_def one_snapshot_def one_defs demo_task_def bm_values_def
        store_key_def tenant_storage_key_def bm_get_def)
qed

end
