(* ===== verification/Handoff.thy ===== *)
theory Handoff
  imports Event_Log Leases
begin

text \<open>
  \<^verbatim>\<open>human_handoff/mod.rs\<close>: the transfer of ownership from automation to a person. A case is
  queued, claimed by one actor under a finite lease, renewed, released or expired back to the
  queue, and finally resolved by its owner or cancelled. Like a Workflow Run it carries its whole
  history; unlike there, every command digest binds the actor who issued the command.

  The serialisers of the attributed requests and commands, of the bare command and of the
  aggregate are parameters (\<open>handoff_env\<close>), and so is SHA-256.
\<close>

section \<open>Data\<close>

definition MAX_HANDOFF_WORK_TRANSITIONS :: nat where "MAX_HANDOFF_WORK_TRANSITIONS = 4096"
definition HANDOFF_SETTLEMENT_TRANSITION_RESERVE :: nat where
  "HANDOFF_SETTLEMENT_TRANSITION_RESERVE = 2"
definition MAX_HANDOFF_TRANSITIONS :: nat where
  "MAX_HANDOFF_TRANSITIONS = MAX_HANDOFF_WORK_TRANSITIONS + HANDOFF_SETTLEMENT_TRANSITION_RESERVE"
definition MAX_HANDOFF_WORK_JSON_BYTES :: nat where "MAX_HANDOFF_WORK_JSON_BYTES = 16777216"
definition MAX_HANDOFF_COMMAND_JSON_BYTES :: nat where "MAX_HANDOFF_COMMAND_JSON_BYTES = 131072"
definition MAX_HANDOFF_TEXT_BYTES :: nat where "MAX_HANDOFF_TEXT_BYTES = 65536"
definition MAX_HANDOFF_IDENTITY_BYTES :: nat where "MAX_HANDOFF_IDENTITY_BYTES = 256"
definition MIN_HANDOFF_LEASE_MS :: u64 where "MIN_HANDOFF_LEASE_MS = 1000"
definition MAX_HANDOFF_LEASE_MS :: u64 where "MAX_HANDOFF_LEASE_MS = 604800000"
definition MAX_HANDOFF_JSON_BYTES :: nat where
  "MAX_HANDOFF_JSON_BYTES =
     MAX_HANDOFF_WORK_JSON_BYTES + (MAX_HANDOFF_COMMAND_JSON_BYTES * 2 + 16384)"

lemmas handoff_limits = MAX_HANDOFF_WORK_TRANSITIONS_def HANDOFF_SETTLEMENT_TRANSITION_RESERVE_def
  MAX_HANDOFF_TRANSITIONS_def

datatype handoff_capacity_class = HWork | HSettlement

datatype handoff_subject = HsThread string | HsWorkflowRun string

record handoff_create_request =
  hq_command_id :: string
  hq_subject :: handoff_subject
  hq_queue :: string
  hq_reason_code :: string
  hq_priority :: "8 word"

record handoff_claim =
  hc_id :: string
  hc_owner :: actor_identity
  hc_claimed_at_ms :: u64
  hc_expires_at_ms :: u64

datatype handoff_status =
    HsQueued
  | HsClaimed handoff_claim
  | HsResolved string string
  | HsCancelled string

fun hs_is_terminal :: "handoff_status \<Rightarrow> bool" where
  "hs_is_terminal (HsResolved _ _) = True"
| "hs_is_terminal (HsCancelled _) = True"
| "hs_is_terminal _ = False"

datatype handoff_command_kind =
    HcClaim string u64
  | HcRenewClaim string u64
  | HcReleaseClaim string string
  | HcExpireClaim string
  | HcResolve string string string
  | HcCancel string

record handoff_command =
  hcmd_id :: string
  hcmd_kind :: handoff_command_kind

fun handoff_command_class :: "handoff_command_kind \<Rightarrow> handoff_capacity_class" where
  "handoff_command_class (HcReleaseClaim _ _) = HSettlement"
| "handoff_command_class (HcExpireClaim _) = HSettlement"
| "handoff_command_class (HcResolve _ _ _) = HSettlement"
| "handoff_command_class (HcCancel _) = HSettlement"
| "handoff_command_class (HcClaim _ _) = HWork"
| "handoff_command_class (HcRenewClaim _ _) = HWork"

datatype handoff_apply_outcome = HApplied | HDuplicate

datatype handoff_transition_kind =
    HtCreated handoff_subject string string "8 word"
  | HtClaimed string u64
  | HtClaimRenewed string u64 u64
  | HtClaimReleased string string
  | HtClaimExpired string
  | HtResolved string string string
  | HtCancelled string

fun handoff_transition_class :: "handoff_transition_kind \<Rightarrow> handoff_capacity_class" where
  "handoff_transition_class (HtClaimReleased _ _) = HSettlement"
| "handoff_transition_class (HtClaimExpired _) = HSettlement"
| "handoff_transition_class (HtResolved _ _ _) = HSettlement"
| "handoff_transition_class (HtCancelled _) = HSettlement"
| "handoff_transition_class _ = HWork"

record handoff_transition =
  ht_sequence :: u64
  ht_command_id :: string
  ht_command_sha256 :: string
  ht_applied_at_ms :: u64
  ht_actor :: actor_identity
  ht_kind :: handoff_transition_kind

record human_handoff =
  hh_subject :: handoff_subject
  hh_queue :: string
  hh_reason_code :: string
  hh_priority :: "8 word"
  hh_requested_at_ms :: u64
  hh_status :: handoff_status
  hh_transitions :: "handoff_transition list"
  hh_charge :: usize

record handoff_wire =
  hw_subject :: handoff_subject
  hw_queue :: string
  hw_reason_code :: string
  hw_priority :: "8 word"
  hw_requested_at_ms :: u64
  hw_status :: handoff_status
  hw_transitions :: "handoff_transition list"

definition handoff_to_wire :: "human_handoff \<Rightarrow> handoff_wire" where
  "handoff_to_wire h = \<lparr>hw_subject = hh_subject h, hw_queue = hh_queue h,
     hw_reason_code = hh_reason_code h, hw_priority = hh_priority h,
     hw_requested_at_ms = hh_requested_at_ms h, hw_status = hh_status h,
     hw_transitions = hh_transitions h\<rparr>"

text \<open>A pair of an actor and a command is the source's \<open>AttributedCommand\<close>.\<close>

record handoff_env =
  he_create :: "(actor_identity \<times> handoff_create_request) serializer"
  he_attributed :: "(actor_identity \<times> handoff_command) serializer"
  he_command :: "handoff_command serializer"
  he_handoff :: "handoff_wire serializer"
  he_sha256 :: "bytes \<Rightarrow> bytes"

section \<open>Field validators\<close>

definition hh_err :: "field_fault \<Rightarrow> harness_error" where
  "hh_err f = HumanHandoff (H_field f)"

fun hh_bounded_error :: "bounded_json_error \<Rightarrow> harness_error" where
  "hh_bounded_error LimitExceeded = hh_err Too_large"
| "hh_bounded_error CannotEncode = hh_err Cannot_encode"

definition hh_validate_identity :: "string \<Rightarrow> unit result" where
  "hh_validate_identity value =
     (if trim_is_empty value \<or> length value > MAX_HANDOFF_IDENTITY_BYTES \<or> has_control value
      then Inl (hh_err Bad_identity) else Inr ())"

definition hh_validate_text :: "string \<Rightarrow> unit result" where
  "hh_validate_text value =
     (if trim_is_empty value \<or> length value > MAX_HANDOFF_TEXT_BYTES then Inl (hh_err Bad_text)
      else if has_control value then Inl (hh_err Text_has_control) else Inr ())"

definition hh_validate_actor :: "actor_identity \<Rightarrow> unit result" where
  "hh_validate_actor a =
     and_then (map_err (\<lambda>_. hh_err Bad_actor) (validate_shape a)) (\<lambda>_.
     if a = UnattributedLegacy then Inl (hh_err Bad_actor) else Inr ())"

definition hh_validate_digest :: "string \<Rightarrow> unit result" where
  "hh_validate_digest value =
     (if length value \<noteq> 64 \<or> \<not> list_all is_lower_hex_byte (str_bytes value)
      then Inl (hh_err Bad_digest) else Inr ())"

definition hh_validate_application_time :: "u64 \<Rightarrow> unit result" where
  "hh_validate_application_time value = (if value = 0 then Inl (hh_err Zero_time) else Inr ())"

fun hh_validate_subject :: "handoff_subject \<Rightarrow> unit result" where
  "hh_validate_subject (HsThread thread_id) = hh_validate_identity thread_id"
| "hh_validate_subject (HsWorkflowRun run_id) = hh_validate_identity run_id"

definition hh_validate_lease_duration :: "u64 \<Rightarrow> unit result" where
  "hh_validate_lease_duration d =
     (if \<not> (MIN_HANDOFF_LEASE_MS \<le> d \<and> d \<le> MAX_HANDOFF_LEASE_MS)
      then Inl (hh_err Bad_lease_duration) else Inr ())"

definition hh_lease_expiration :: "u64 \<Rightarrow> u64 \<Rightarrow> u64 result" where
  "hh_lease_expiration applied_at_ms d =
     ok_or (HumanHandoff H_lease_overflow) (checked_add applied_at_ms d)"

definition hh_validate_create_request :: "handoff_create_request \<Rightarrow> unit result" where
  "hh_validate_create_request request =
     and_then (hh_validate_identity (hq_command_id request)) (\<lambda>_.
     and_then (hh_validate_subject (hq_subject request)) (\<lambda>_.
     and_then (validate_capability_name (hq_queue request)) (\<lambda>_.
     validate_capability_name (hq_reason_code request))))"

definition hh_validate_command :: "handoff_env \<Rightarrow> handoff_command \<Rightarrow> unit result" where
  "hh_validate_command env command =
     and_then (hh_validate_identity (hcmd_id command)) (\<lambda>_.
     and_then (map_err hh_bounded_error
       (bounded_serialized_size (he_command env) command MAX_HANDOFF_COMMAND_JSON_BYTES)) (\<lambda>_.
     Inr ()))"

definition attributed_digest ::
  "(bytes \<Rightarrow> bytes) \<Rightarrow> (actor_identity \<times> 'a) serializer \<Rightarrow> actor_identity \<Rightarrow> 'a \<Rightarrow> string result" where
  "attributed_digest sha256 ser a command =
     and_then (hh_validate_actor a) (\<lambda>_.
     and_then (map_err hh_bounded_error
       (bounded_serialized_size ser (a, command) MAX_HANDOFF_COMMAND_JSON_BYTES)) (\<lambda>size.
     if size = 0 then Inl (hh_err Empty_encoding)
     else and_then (ok_or (hh_err Cannot_encode) (to_vec ser (a, command))) (\<lambda>encoded.
       Inr (lower_hex (sha256 encoded)))))"

definition hh_validate_transition_capacity :: "usize \<Rightarrow> handoff_capacity_class \<Rightarrow> unit result" where
  "hh_validate_transition_capacity current_transitions cls =
     (if current_transitions \<ge> MAX_HANDOFF_TRANSITIONS
      then Inl (HumanHandoff (H_capacity Too_many_transitions))
      else if cls = HWork \<and> current_transitions \<ge> MAX_HANDOFF_WORK_TRANSITIONS
      then Inl (HumanHandoff (H_capacity Only_transition_reserve))
      else Inr ())"

definition hh_validate_materialization_capacity :: "usize \<Rightarrow> handoff_capacity_class \<Rightarrow> unit result"
where
  "hh_validate_materialization_capacity encoded_bytes cls =
     (if encoded_bytes > MAX_HANDOFF_JSON_BYTES
      then Inl (HumanHandoff (H_capacity Aggregate_too_large))
      else if cls = HWork \<and> encoded_bytes > MAX_HANDOFF_WORK_JSON_BYTES
      then Inl (HumanHandoff (H_capacity Only_byte_reserve))
      else Inr ())"

definition hh_encoded_size_for ::
  "handoff_env \<Rightarrow> human_handoff \<Rightarrow> handoff_capacity_class \<Rightarrow> usize result" where
  "hh_encoded_size_for env h cls =
     and_then (map_err hh_bounded_error
       (bounded_serialized_size (he_handoff env) (handoff_to_wire h) MAX_HANDOFF_JSON_BYTES)) (\<lambda>size.
     and_then (hh_validate_materialization_capacity size cls) (\<lambda>_. Inr size))"

definition hh_encoded_size :: "handoff_env \<Rightarrow> human_handoff \<Rightarrow> usize result" where
  "hh_encoded_size env h = hh_encoded_size_for env h HSettlement"

section \<open>Ownership\<close>

text \<open>
  The fence of every operation on a claim: the caller names the current claim, is its owner, and
  the lease has not expired. \<open>active_owned_claim_mut\<close> of the source is the same check.
\<close>

definition active_owned_claim ::
  "handoff_status \<Rightarrow> string \<Rightarrow> actor_identity \<Rightarrow> u64 \<Rightarrow> handoff_claim result" where
  "active_owned_claim status claim_id a now =
     (case status of
        HsClaimed claim \<Rightarrow>
          if hc_id claim \<noteq> claim_id \<or> hc_owner claim \<noteq> a then Inl (HumanHandoff H_owner_mismatch)
          else if now \<ge> hc_expires_at_ms claim then Inl (HumanHandoff H_claim_expired)
          else Inr claim
      | _ \<Rightarrow> Inl (HumanHandoff H_not_claimed))"

definition validate_projected_owner ::
  "handoff_status option \<Rightarrow> string \<Rightarrow> actor_identity \<Rightarrow> u64 \<Rightarrow> unit result" where
  "validate_projected_owner status claim_id a now =
     (case status of
        Some (HsClaimed claim) \<Rightarrow>
          if hc_id claim \<noteq> claim_id \<or> hc_owner claim \<noteq> a \<or> now \<ge> hc_expires_at_ms claim
          then Inl (HumanHandoff (H_history Owner_differs)) else Inr ()
      | _ \<Rightarrow> Inl (HumanHandoff (H_history Owner_not_after_claimed)))"

section \<open>Replaying the history\<close>

fun handoff_transition_command :: "handoff_transition_kind \<Rightarrow> handoff_command_kind option" where
  "handoff_transition_command (HtCreated _ _ _ _) = None"
| "handoff_transition_command (HtClaimed claim_id d) = Some (HcClaim claim_id d)"
| "handoff_transition_command (HtClaimRenewed claim_id d _) = Some (HcRenewClaim claim_id d)"
| "handoff_transition_command (HtClaimReleased claim_id reason) = Some (HcReleaseClaim claim_id reason)"
| "handoff_transition_command (HtClaimExpired claim_id) = Some (HcExpireClaim claim_id)"
| "handoff_transition_command (HtResolved claim_id outcome summary) =
     Some (HcResolve claim_id outcome summary)"
| "handoff_transition_command (HtCancelled reason) = Some (HcCancel reason)"

definition handoff_transition_digest :: "handoff_env \<Rightarrow> handoff_transition \<Rightarrow> string result" where
  "handoff_transition_digest env t =
     (case ht_kind t of
        HtCreated subject queue reason_code priority \<Rightarrow>
          attributed_digest (he_sha256 env) (he_create env) (ht_actor t)
            \<lparr>hq_command_id = ht_command_id t, hq_subject = subject, hq_queue = queue,
             hq_reason_code = reason_code, hq_priority = priority\<rparr>
      | kind \<Rightarrow>
          attributed_digest (he_sha256 env) (he_attributed env) (ht_actor t)
            \<lparr>hcmd_id = ht_command_id t, hcmd_kind = the (handoff_transition_command kind)\<rparr>)"

record handoff_replay =
  hp_expected_sequence :: u64
  hp_command_ids :: "string set"
  hp_claim_ids :: "string set"
  hp_subject :: "handoff_subject option"
  hp_queue :: "string option"
  hp_reason :: "string option"
  hp_priority :: "8 word option"
  hp_requested_at :: "u64 option"
  hp_status :: "handoff_status option"
  hp_previous_applied_at_ms :: u64

definition handoff_replay_start :: handoff_replay where
  "handoff_replay_start = \<lparr>hp_expected_sequence = 1, hp_command_ids = {}, hp_claim_ids = {},
     hp_subject = None, hp_queue = None, hp_reason = None, hp_priority = None,
     hp_requested_at = None, hp_status = None, hp_previous_applied_at_ms = 0\<rparr>"

definition handoff_replay_envelope ::
  "handoff_env \<Rightarrow> handoff_replay \<Rightarrow> handoff_transition \<Rightarrow> handoff_replay result" where
  "handoff_replay_envelope env rp t =
     (if ht_sequence t \<noteq> hp_expected_sequence rp
      then Inl (HumanHandoff (H_log Sequence_not_contiguous))
      else
     and_then (ok_or (HumanHandoff (H_log Sequence_overflow))
       (checked_add (hp_expected_sequence rp) 1)) (\<lambda>next_sequence.
     and_then (hh_validate_identity (ht_command_id t)) (\<lambda>_.
     and_then (hh_validate_digest (ht_command_sha256 t)) (\<lambda>_.
     and_then (hh_validate_application_time (ht_applied_at_ms t)) (\<lambda>_.
     if ht_applied_at_ms t < hp_previous_applied_at_ms rp
     then Inl (HumanHandoff (H_log Time_not_monotonic))
     else
     and_then (hh_validate_actor (ht_actor t)) (\<lambda>_.
     and_then (handoff_transition_digest env t) (\<lambda>digest.
     if ht_command_sha256 t \<noteq> digest then Inl (HumanHandoff (H_log Digest_differs))
     else if unat (ht_sequence t) > MAX_HANDOFF_WORK_TRANSITIONS \<and>
             handoff_transition_class (ht_kind t) = HWork
     then Inl (HumanHandoff (H_log Reserve_consumed))
     else if ht_command_id t \<in> hp_command_ids rp
     then Inl (HumanHandoff (H_log Duplicate_commands))
     else Inr (rp\<lparr>hp_expected_sequence := next_sequence,
                  hp_previous_applied_at_ms := ht_applied_at_ms t,
                  hp_command_ids := insert (ht_command_id t) (hp_command_ids rp)\<rparr>))))))))"

definition handoff_replay_kind ::
  "handoff_replay \<Rightarrow> handoff_transition \<Rightarrow> handoff_replay result" where
  "handoff_replay_kind rp t =
     (case ht_kind t of
        HtCreated subject queue reason_code priority \<Rightarrow>
          if ht_sequence t = 1 then
            and_then (hh_validate_subject subject) (\<lambda>_.
            and_then (validate_capability_name queue) (\<lambda>_.
            and_then (validate_capability_name reason_code) (\<lambda>_.
            Inr (rp\<lparr>hp_subject := Some subject, hp_queue := Some queue, hp_reason := Some reason_code,
                    hp_priority := Some priority, hp_requested_at := Some (ht_applied_at_ms t),
                    hp_status := Some HsQueued\<rparr>))))
          else Inl (HumanHandoff (H_log Creation_not_first))
      | HtClaimed claim_id d \<Rightarrow>
          if hp_status rp \<noteq> Some HsQueued
          then Inl (HumanHandoff (H_history Claim_not_after_queued))
          else
          and_then (hh_validate_identity claim_id) (\<lambda>_.
          and_then (hh_validate_lease_duration d) (\<lambda>_.
          if claim_id \<in> hp_claim_ids rp then Inl (HumanHandoff (H_history Duplicate_claims))
          else and_then (hh_lease_expiration (ht_applied_at_ms t) d) (\<lambda>expires.
            Inr (rp\<lparr>hp_claim_ids := insert claim_id (hp_claim_ids rp),
                    hp_status := Some (HsClaimed \<lparr>hc_id = claim_id, hc_owner = ht_actor t,
                      hc_claimed_at_ms = ht_applied_at_ms t, hc_expires_at_ms = expires\<rparr>)\<rparr>))))
      | HtClaimRenewed claim_id d previous_expires_at_ms \<Rightarrow>
          and_then (hh_validate_lease_duration d) (\<lambda>_.
          case hp_status rp of
            Some (HsClaimed claim) \<Rightarrow>
              if hc_id claim \<noteq> claim_id \<or> hc_owner claim \<noteq> ht_actor t \<or>
                 hc_expires_at_ms claim \<noteq> previous_expires_at_ms \<or>
                 ht_applied_at_ms t \<ge> hc_expires_at_ms claim
              then Inl (HumanHandoff (H_history Renewal_differs))
              else and_then (hh_lease_expiration (ht_applied_at_ms t) d) (\<lambda>expires.
                if expires \<le> hc_expires_at_ms claim
                then Inl (HumanHandoff (H_history Renewal_does_not_extend))
                else Inr (rp\<lparr>hp_status := Some (HsClaimed (claim\<lparr>hc_expires_at_ms := expires\<rparr>))\<rparr>))
          | _ \<Rightarrow> Inl (HumanHandoff (H_history Renewal_not_after_claimed)))
      | HtClaimReleased claim_id reason_code \<Rightarrow>
          and_then (validate_capability_name reason_code) (\<lambda>_.
          and_then (validate_projected_owner (hp_status rp) claim_id (ht_actor t) (ht_applied_at_ms t))
            (\<lambda>_. Inr (rp\<lparr>hp_status := Some HsQueued\<rparr>)))
      | HtClaimExpired claim_id \<Rightarrow>
          (case hp_status rp of
             Some (HsClaimed claim) \<Rightarrow>
               if hc_id claim \<noteq> claim_id \<or> ht_applied_at_ms t < hc_expires_at_ms claim
               then Inl (HumanHandoff (H_history Expiration_differs))
               else Inr (rp\<lparr>hp_status := Some HsQueued\<rparr>)
           | _ \<Rightarrow> Inl (HumanHandoff (H_history Expiration_not_after_claimed)))
      | HtResolved claim_id outcome_code summary \<Rightarrow>
          and_then (validate_capability_name outcome_code) (\<lambda>_.
          and_then (hh_validate_text summary) (\<lambda>_.
          and_then (validate_projected_owner (hp_status rp) claim_id (ht_actor t) (ht_applied_at_ms t))
            (\<lambda>_. Inr (rp\<lparr>hp_status := Some (HsResolved outcome_code summary)\<rparr>))))
      | HtCancelled reason_code \<Rightarrow>
          if (case hp_status rp of None \<Rightarrow> True | Some st \<Rightarrow> hs_is_terminal st)
          then Inl (HumanHandoff (H_history Cancellation_not_after_nonterminal))
          else and_then (validate_capability_name reason_code) (\<lambda>_.
            Inr (rp\<lparr>hp_status := Some (HsCancelled reason_code)\<rparr>)))"

definition handoff_replay_transition ::
  "handoff_env \<Rightarrow> handoff_replay \<Rightarrow> handoff_transition \<Rightarrow> handoff_replay result" where
  "handoff_replay_transition env rp t =
     and_then (handoff_replay_envelope env rp t) (\<lambda>rp'. handoff_replay_kind rp' t)"

definition handoff_validate :: "handoff_env \<Rightarrow> human_handoff \<Rightarrow> unit result" where
  "handoff_validate env h =
     and_then (hh_validate_subject (hh_subject h)) (\<lambda>_.
     and_then (validate_capability_name (hh_queue h)) (\<lambda>_.
     and_then (validate_capability_name (hh_reason_code h)) (\<lambda>_.
     and_then (hh_validate_application_time (hh_requested_at_ms h)) (\<lambda>_.
     if hh_transitions h = [] \<or> length (hh_transitions h) > MAX_HANDOFF_TRANSITIONS
     then Inl (HumanHandoff (H_log Transition_count))
     else
     and_then (try_fold (handoff_replay_transition env) handoff_replay_start (hh_transitions h)) (\<lambda>rp.
     if hp_subject rp \<noteq> Some (hh_subject h) \<or> hp_queue rp \<noteq> Some (hh_queue h) \<or>
        hp_reason rp \<noteq> Some (hh_reason_code h) \<or> hp_priority rp \<noteq> Some (hh_priority h) \<or>
        hp_requested_at rp \<noteq> Some (hh_requested_at_ms h) \<or> hp_status rp \<noteq> Some (hh_status h)
     then Inl (HumanHandoff (H_log Projection_differs))
     else Inr ())))))"

section \<open>Commands\<close>

fun claims :: "handoff_transition_kind \<Rightarrow> string \<Rightarrow> bool" where
  "claims (HtClaimed existing _) i \<longleftrightarrow> existing = i"
| "claims _ i \<longleftrightarrow> False"

definition validate_new_claim_id :: "handoff_transition list \<Rightarrow> string \<Rightarrow> unit result" where
  "validate_new_claim_id transitions claim_id =
     and_then (hh_validate_identity claim_id) (\<lambda>_.
     if list_ex (\<lambda>t. claims (ht_kind t) claim_id) transitions
     then Inl (HumanHandoff (H_claim_committed claim_id)) else Inr ())"

fun handoff_apply_kind ::
  "human_handoff \<Rightarrow> handoff_command_kind \<Rightarrow> u64 \<Rightarrow> actor_identity \<Rightarrow>
   (human_handoff \<times> handoff_transition_kind) result" where
  "handoff_apply_kind h (HcClaim claim_id d) now a =
     (if hh_status h \<noteq> HsQueued then Inl (HumanHandoff H_not_queued)
      else
     and_then (validate_new_claim_id (hh_transitions h) claim_id) (\<lambda>_.
     and_then (hh_validate_lease_duration d) (\<lambda>_.
     and_then (hh_lease_expiration now d) (\<lambda>expires.
     Inr (h\<lparr>hh_status := HsClaimed \<lparr>hc_id = claim_id, hc_owner = a, hc_claimed_at_ms = now,
              hc_expires_at_ms = expires\<rparr>\<rparr>, HtClaimed claim_id d)))))"
| "handoff_apply_kind h (HcRenewClaim claim_id d) now a =
     and_then (hh_validate_lease_duration d) (\<lambda>_.
     and_then (active_owned_claim (hh_status h) claim_id a now) (\<lambda>claim.
     and_then (hh_lease_expiration now d) (\<lambda>expires.
     if expires \<le> hc_expires_at_ms claim then Inl (HumanHandoff H_renewal_not_longer)
     else Inr (h\<lparr>hh_status := HsClaimed (claim\<lparr>hc_expires_at_ms := expires\<rparr>)\<rparr>,
               HtClaimRenewed claim_id d (hc_expires_at_ms claim)))))"
| "handoff_apply_kind h (HcReleaseClaim claim_id reason_code) now a =
     and_then (validate_capability_name reason_code) (\<lambda>_.
     and_then (active_owned_claim (hh_status h) claim_id a now) (\<lambda>_.
     Inr (h\<lparr>hh_status := HsQueued\<rparr>, HtClaimReleased claim_id reason_code)))"
| "handoff_apply_kind h (HcExpireClaim claim_id) now a =
     (case hh_status h of
        HsClaimed claim \<Rightarrow>
          if hc_id claim \<noteq> claim_id then Inl (HumanHandoff H_expire_mismatch)
          else if now < hc_expires_at_ms claim then Inl (HumanHandoff H_not_expired)
          else Inr (h\<lparr>hh_status := HsQueued\<rparr>, HtClaimExpired claim_id)
      | _ \<Rightarrow> Inl (HumanHandoff H_nothing_to_expire))"
| "handoff_apply_kind h (HcResolve claim_id outcome_code summary) now a =
     and_then (validate_capability_name outcome_code) (\<lambda>_.
     and_then (hh_validate_text summary) (\<lambda>_.
     and_then (active_owned_claim (hh_status h) claim_id a now) (\<lambda>_.
     Inr (h\<lparr>hh_status := HsResolved outcome_code summary\<rparr>,
          HtResolved claim_id outcome_code summary))))"
| "handoff_apply_kind h (HcCancel reason_code) now a =
     (if hs_is_terminal (hh_status h) then Inl (HumanHandoff H_terminal)
      else and_then (validate_capability_name reason_code) (\<lambda>_.
        Inr (h\<lparr>hh_status := HsCancelled reason_code\<rparr>, HtCancelled reason_code)))"

definition handoff_recognizes_command ::
  "handoff_env \<Rightarrow> human_handoff \<Rightarrow> handoff_command \<Rightarrow> actor_identity \<Rightarrow> bool result" where
  "handoff_recognizes_command env h command a =
     and_then (hh_validate_command env command) (\<lambda>_.
     and_then (hh_validate_actor a) (\<lambda>_.
     and_then (attributed_digest (he_sha256 env) (he_attributed env) a command) (\<lambda>digest.
     case find (\<lambda>t. ht_command_id t = hcmd_id command) (hh_transitions h) of
       None \<Rightarrow> Inr False
     | Some existing \<Rightarrow>
         if ht_command_sha256 existing = digest then Inr True
         else Inl (HumanHandoff (H_command_reused (hcmd_id command))))))"

definition handoff_apply ::
  "handoff_env \<Rightarrow> human_handoff \<Rightarrow> handoff_command \<Rightarrow> u64 \<Rightarrow> authority_context \<Rightarrow>
   (human_handoff \<times> handoff_apply_outcome) result" where
  "handoff_apply env h command applied_at_ms authority =
     and_then (handoff_recognizes_command env h command (actor authority)) (\<lambda>known.
     if known then Inr (h, HDuplicate)
     else
     and_then (hh_validate_application_time applied_at_ms) (\<lambda>_.
     and_then (authority_validate_current authority) (\<lambda>_.
     let cls = handoff_command_class (hcmd_kind command) in
     and_then (hh_validate_transition_capacity (length (hh_transitions h)) cls) (\<lambda>_.
     if hh_transitions h \<noteq> [] \<and> applied_at_ms < ht_applied_at_ms (last (hh_transitions h))
     then Inl (HumanHandoff H_time_backwards)
     else
     and_then (attributed_digest (he_sha256 env) (he_attributed env) (actor authority) command) (\<lambda>digest.
     and_then (handoff_apply_kind h (hcmd_kind command) applied_at_ms (actor authority)) (\<lambda>(nxt, kind).
     and_then (ok_or (HumanHandoff (H_log Sequence_overflow))
       (Option.bind (u64_of_usize (length (hh_transitions nxt))) (\<lambda>n. checked_add n 1))) (\<lambda>sequence.
     let nxt = nxt\<lparr>hh_transitions := hh_transitions nxt @
           [\<lparr>ht_sequence = sequence, ht_command_id = hcmd_id command, ht_command_sha256 = digest,
             ht_applied_at_ms = applied_at_ms, ht_actor = actor authority, ht_kind = kind\<rparr>]\<rparr> in
     and_then (handoff_validate env nxt) (\<lambda>_.
     and_then (hh_encoded_size_for env nxt cls) (\<lambda>charge.
     Inr (nxt\<lparr>hh_charge := charge\<rparr>, HApplied))))))))))"

definition handoff_new ::
  "handoff_env \<Rightarrow> handoff_create_request \<Rightarrow> u64 \<Rightarrow> authority_context \<Rightarrow> human_handoff result" where
  "handoff_new env request applied_at_ms authority =
     and_then (hh_validate_create_request request) (\<lambda>_.
     and_then (hh_validate_application_time applied_at_ms) (\<lambda>_.
     and_then (authority_validate_current authority) (\<lambda>_.
     and_then (attributed_digest (he_sha256 env) (he_create env) (actor authority) request) (\<lambda>digest.
     let transition = \<lparr>ht_sequence = 1, ht_command_id = hq_command_id request,
           ht_command_sha256 = digest, ht_applied_at_ms = applied_at_ms, ht_actor = actor authority,
           ht_kind = HtCreated (hq_subject request) (hq_queue request) (hq_reason_code request)
             (hq_priority request)\<rparr>;
         handoff = \<lparr>hh_subject = hq_subject request, hh_queue = hq_queue request,
           hh_reason_code = hq_reason_code request, hh_priority = hq_priority request,
           hh_requested_at_ms = applied_at_ms, hh_status = HsQueued,
           hh_transitions = [transition], hh_charge = 0\<rparr> in
     and_then (handoff_validate env handoff) (\<lambda>_.
     and_then (hh_encoded_size env handoff) (\<lambda>charge.
     Inr (handoff\<lparr>hh_charge := charge\<rparr>)))))))"

definition handoff_create_matches ::
  "handoff_env \<Rightarrow> human_handoff \<Rightarrow> handoff_create_request \<Rightarrow> actor_identity \<Rightarrow> bool result" where
  "handoff_create_matches env h request a =
     and_then (attributed_digest (he_sha256 env) (he_create env) a request) (\<lambda>digest.
     Inr (case hh_transitions h of
            [] \<Rightarrow> False
          | t # _ \<Rightarrow> ht_command_id t = hq_command_id request \<and> ht_command_sha256 t = digest))"

definition handoff_from_wire :: "handoff_env \<Rightarrow> handoff_wire \<Rightarrow> human_handoff result" where
  "handoff_from_wire env wire =
     (let handoff = \<lparr>hh_subject = hw_subject wire, hh_queue = hw_queue wire,
        hh_reason_code = hw_reason_code wire, hh_priority = hw_priority wire,
        hh_requested_at_ms = hw_requested_at_ms wire, hh_status = hw_status wire,
        hh_transitions = hw_transitions wire, hh_charge = 0\<rparr> in
      and_then (handoff_validate env handoff) (\<lambda>_.
      and_then (hh_encoded_size env handoff) (\<lambda>charge.
      Inr (handoff\<lparr>hh_charge := charge\<rparr>))))"

section \<open>Ownership is exclusive\<close>

fun held_claim :: "handoff_status \<Rightarrow> handoff_claim option" where
  "held_claim (HsClaimed claim) = Some claim"
| "held_claim _ = None"

interpretation handoff_fence: lease_fence active_owned_claim held_claim hc_id hc_owner hc_expires_at_ms
proof
  fix s f p now l
  show "active_owned_claim s f p now = Inr l \<longleftrightarrow>
      held_claim s = Some l \<and> hc_id l = f \<and> hc_owner l = p \<and> now < hc_expires_at_ms l"
    by (cases s) (auto simp: active_owned_claim_def)
qed

lemma active_owned_claim_ok:
  "active_owned_claim st i a now = Inr claim \<longleftrightarrow>
     st = HsClaimed claim \<and> hc_id claim = i \<and> hc_owner claim = a \<and> now < hc_expires_at_ms claim"
  by (cases st) (auto simp: active_owned_claim_def)

lemma validate_projected_owner_ok:
  "validate_projected_owner (Some st) i a now = Inr u \<longleftrightarrow>
     (\<exists>claim. active_owned_claim st i a now = Inr claim)"
  by (cases st) (auto simp: validate_projected_owner_def active_owned_claim_def)

section \<open>The history as a log\<close>

lemma hh_validate_actor_ok:
  "hh_validate_actor a = Inr u \<longleftrightarrow> valid_actor_shape a \<and> a \<noteq> UnattributedLegacy"
  by (auto simp: hh_validate_actor_def and_then_eq_Inr map_err_eq_Inr validate_shape_ok)

lemma handoff_replay_kind_frame:
  assumes "handoff_replay_kind rp t = Inr rp'"
  shows "hp_expected_sequence rp' = hp_expected_sequence rp" "hp_command_ids rp' = hp_command_ids rp"
    "hp_previous_applied_at_ms rp' = hp_previous_applied_at_ms rp"
    "hp_claim_ids rp' = hp_claim_ids rp \<union> Collect (claims (ht_kind t))"
  using assms
  by (auto simp: handoff_replay_kind_def ok_iff split: handoff_transition_kind.splits option.splits
      handoff_status.splits if_splits)

lemma handoff_replay_envelope_ok:
  "handoff_replay_envelope env rp t = Inr rp' \<longleftrightarrow>
     ht_sequence t = hp_expected_sequence rp \<and>
     hh_validate_identity (ht_command_id t) = Inr () \<and>
     hh_validate_digest (ht_command_sha256 t) = Inr () \<and>
     ht_applied_at_ms t \<noteq> 0 \<and> hp_previous_applied_at_ms rp \<le> ht_applied_at_ms t \<and>
     hh_validate_actor (ht_actor t) = Inr () \<and>
     handoff_transition_digest env t = Inr (ht_command_sha256 t) \<and>
     (handoff_transition_class (ht_kind t) = HWork \<longrightarrow>
        unat (ht_sequence t) \<le> MAX_HANDOFF_WORK_TRANSITIONS) \<and>
     ht_command_id t \<notin> hp_command_ids rp \<and>
     (\<exists>n. checked_add (hp_expected_sequence rp) 1 = Some n \<and>
       rp' = rp\<lparr>hp_expected_sequence := n, hp_previous_applied_at_ms := ht_applied_at_ms t,
               hp_command_ids := insert (ht_command_id t) (hp_command_ids rp)\<rparr>)"
  unfolding handoff_replay_envelope_def
  by (auto simp: and_then_eq_Inr ok_or_eq_Inr hh_validate_application_time_def not_less split: if_splits)

lemma handoff_replay_transition_ok:
  "handoff_replay_transition env rp t = Inr rp' \<longleftrightarrow>
     (\<exists>rp1. handoff_replay_envelope env rp t = Inr rp1 \<and> handoff_replay_kind rp1 t = Inr rp')"
  by (simp add: handoff_replay_transition_def ok_iff)

interpretation hh_log: replay_log "handoff_replay_transition env" handoff_replay_start ht_sequence
  ht_command_id ht_applied_at_ms hp_command_ids hp_previous_applied_at_ms
  "\<lambda>rp. unat (hp_expected_sequence rp) - 1" "\<lambda>rp. hp_expected_sequence rp \<noteq> 0"
  for env
proof
  fix s s' :: handoff_replay and t
  assume "handoff_replay_transition env s t = Inr s'"
  then obtain rp1 where env: "handoff_replay_envelope env s t = Inr rp1"
    and kind: "handoff_replay_kind rp1 t = Inr s'"
    by (auto simp: handoff_replay_transition_ok)
  note frame = handoff_replay_kind_frame [OF kind]
  from env have nx: "unat (hp_expected_sequence s') = unat (hp_expected_sequence s) + 1"
    using frame(1) by (auto simp: handoff_replay_envelope_ok checked_add_Some)
  show "hp_expected_sequence s \<noteq> 0 \<Longrightarrow> hp_expected_sequence s' \<noteq> 0"
    using nx by auto
  show "hp_expected_sequence s \<noteq> 0 \<Longrightarrow>
    unat (ht_sequence t) = Suc (unat (hp_expected_sequence s) - 1) \<and>
    unat (hp_expected_sequence s') - 1 = Suc (unat (hp_expected_sequence s) - 1)"
    using nx env by (simp add: handoff_replay_envelope_ok unat_gt_0)
  show "ht_command_id t \<notin> hp_command_ids s \<and>
      hp_command_ids s' = insert (ht_command_id t) (hp_command_ids s)"
    using env frame by (auto simp: handoff_replay_envelope_ok)
  show "hp_previous_applied_at_ms s \<le> ht_applied_at_ms t \<and> hp_previous_applied_at_ms s' = ht_applied_at_ms t"
    using env frame by (auto simp: handoff_replay_envelope_ok)
qed (simp_all add: handoff_replay_start_def)

fun handoff_budget :: "handoff_status \<Rightarrow> nat" where
  "handoff_budget (HsClaimed _) = 2"
| "handoff_budget HsQueued = 1"
| "handoff_budget _ = 0"

definition handoff_replay_budget :: "handoff_replay \<Rightarrow> nat" where
  "handoff_replay_budget rp = (case hp_status rp of None \<Rightarrow> 0 | Some st \<Rightarrow> handoff_budget st)"

lemma handoff_budget_pos: "0 < handoff_budget st \<longleftrightarrow> \<not> hs_is_terminal st"
  by (cases st) simp_all

lemma handoff_replay_kind_settles:
  assumes "handoff_replay_kind rp t = Inr rp'" and "handoff_transition_class (ht_kind t) \<noteq> HWork"
  shows "handoff_replay_budget rp' < handoff_replay_budget rp"
  using assms
  by (auto simp: handoff_replay_kind_def handoff_replay_budget_def ok_iff handoff_budget_pos
      validate_projected_owner_def
      split: handoff_transition_kind.splits option.splits handoff_status.splits if_splits)

interpretation hh_reserve: settlement_reserve "handoff_replay_transition env" handoff_replay_start
  ht_sequence ht_command_id ht_applied_at_ms hp_command_ids hp_previous_applied_at_ms
  "\<lambda>rp. unat (hp_expected_sequence rp) - 1" "\<lambda>rp. hp_expected_sequence rp \<noteq> 0"
  "\<lambda>t. handoff_transition_class (ht_kind t) = HWork" handoff_replay_budget
  MAX_HANDOFF_WORK_TRANSITIONS HANDOFF_SETTLEMENT_TRANSITION_RESERVE
  for env
proof unfold_locales
  fix s s' :: handoff_replay and t
  have "handoff_budget st \<le> 2" for st by (cases st) simp_all
  then show "handoff_replay_budget s \<le> HANDOFF_SETTLEMENT_TRANSITION_RESERVE"
    by (simp add: handoff_replay_budget_def HANDOFF_SETTLEMENT_TRANSITION_RESERVE_def split: option.splits)
  assume step: "handoff_replay_transition env s t = Inr s'"
  then show "handoff_transition_class (ht_kind t) = HWork \<Longrightarrow>
      unat (ht_sequence t) \<le> MAX_HANDOFF_WORK_TRANSITIONS"
    by (auto simp: handoff_replay_transition_ok handoff_replay_envelope_ok)
  from step show "handoff_transition_class (ht_kind t) \<noteq> HWork \<Longrightarrow>
      handoff_replay_budget s' < handoff_replay_budget s"
    by (fastforce simp: handoff_replay_transition_ok handoff_replay_envelope_ok handoff_replay_budget_def
        dest: handoff_replay_kind_settles)
qed

lemma handoff_replay_ids:
  assumes "try_fold (handoff_replay_transition env) handoff_replay_start ts = Inr rp"
  shows "hp_claim_ids rp = {i. \<exists>t\<in>set ts. claims (ht_kind t) i}"
  using assms
proof (induction rule: try_fold_prefix_induct)
  case (snoc ts t rp rp')
  then show ?case
    by (auto simp: handoff_replay_transition_ok handoff_replay_envelope_ok handoff_replay_kind_frame)
qed (simp add: handoff_replay_start_def)

section \<open>Commands and the transitions they record\<close>

lemma handoff_apply_kind_frame:
  assumes "handoff_apply_kind h kind now a = Inr (h', tk)"
  shows "hh_transitions h' = hh_transitions h" "h' = h\<lparr>hh_status := hh_status h'\<rparr>"
    "handoff_transition_command tk = Some kind"
    "handoff_transition_class tk = handoff_command_class kind"
  using assms
  by (cases kind; auto simp: ok_iff split: if_splits handoff_status.splits)+

lemma handoff_apply_kind_replays:
  assumes "handoff_apply_kind h kind now a = Inr (h', tk)"
    and "hp_status rp = Some (hh_status h)"
    and "hp_claim_ids rp = {i. \<exists>t\<in>set (hh_transitions h). claims (ht_kind t) i}"
  shows "\<exists>rp'. handoff_replay_kind rp \<lparr>ht_sequence = sq, ht_command_id = ci, ht_command_sha256 = d,
      ht_applied_at_ms = now, ht_actor = a, ht_kind = tk\<rparr> = Inr rp' \<and>
    hp_status rp' = Some (hh_status h') \<and> hp_subject rp' = hp_subject rp \<and>
    hp_queue rp' = hp_queue rp \<and> hp_reason rp' = hp_reason rp \<and> hp_priority rp' = hp_priority rp \<and>
    hp_requested_at rp' = hp_requested_at rp"
proof -
  note guards = validate_new_claim_id_def active_owned_claim_ok validate_projected_owner_ok list_ex_iff
  show ?thesis
    using assms
    by (cases kind)
      (auto simp: ok_iff handoff_replay_kind_def guards split: if_splits handoff_status.splits)
qed

lemma handoff_validate_ok:
  "handoff_validate env h = Inr u \<longleftrightarrow>
     hh_validate_subject (hh_subject h) = Inr () \<and>
     validate_capability_name (hh_queue h) = Inr () \<and>
     validate_capability_name (hh_reason_code h) = Inr () \<and> hh_requested_at_ms h \<noteq> 0 \<and>
     hh_transitions h \<noteq> [] \<and> length (hh_transitions h) \<le> MAX_HANDOFF_TRANSITIONS \<and>
     (\<exists>rp. try_fold (handoff_replay_transition env) handoff_replay_start (hh_transitions h) = Inr rp \<and>
       hp_subject rp = Some (hh_subject h) \<and> hp_queue rp = Some (hh_queue h) \<and>
       hp_reason rp = Some (hh_reason_code h) \<and> hp_priority rp = Some (hh_priority h) \<and>
       hp_requested_at rp = Some (hh_requested_at_ms h) \<and> hp_status rp = Some (hh_status h))"
  unfolding handoff_validate_def hh_validate_application_time_def
  by (auto simp: and_then_eq_Inr split: if_splits)

lemma attributed_digest_valid:
  assumes "attributed_digest sha ser a c = Inr d" and "\<And>b. length (sha b) = 32"
  shows "hh_validate_digest d = Inr ()"
  using assms lower_hex_is_lower_sha256
  by (fastforce simp: attributed_digest_def and_then_eq_Inr hh_validate_digest_def is_lower_sha256_def
      split: if_splits)

lemma handoff_recognizes_False:
  "handoff_recognizes_command env h command a = Inr False \<longleftrightarrow>
     hh_validate_command env command = Inr () \<and> hh_validate_actor a = Inr () \<and>
     (\<exists>d. attributed_digest (he_sha256 env) (he_attributed env) a command = Inr d) \<and>
     (\<forall>t\<in>set (hh_transitions h). ht_command_id t \<noteq> hcmd_id command)"
  by (auto simp: handoff_recognizes_command_def and_then_eq_Inr find_None_iff
      split: option.splits if_splits)

lemma handoff_command_eta [simp]: "\<lparr>hcmd_id = hcmd_id c, hcmd_kind = hcmd_kind c\<rparr> = c"
  by simp

lemma handoff_transition_digest_command:
  "handoff_transition_command (ht_kind t) = Some kind \<Longrightarrow>
   handoff_transition_digest env t =
     attributed_digest (he_sha256 env) (he_attributed env) (ht_actor t)
       \<lparr>hcmd_id = ht_command_id t, hcmd_kind = kind\<rparr>"
  by (cases "ht_kind t") (simp_all add: handoff_transition_digest_def)

definition handoff_commit ::
  "human_handoff \<Rightarrow> handoff_command \<Rightarrow> string \<Rightarrow> u64 \<Rightarrow> actor_identity \<Rightarrow> handoff_transition_kind \<Rightarrow>
   human_handoff" where
  "handoff_commit nxt command digest now a kind =
     nxt\<lparr>hh_transitions := hh_transitions nxt @
       [\<lparr>ht_sequence = of_nat (Suc (length (hh_transitions nxt))), ht_command_id = hcmd_id command,
         ht_command_sha256 = digest, ht_applied_at_ms = now, ht_actor = a, ht_kind = kind\<rparr>]\<rparr>"

lemma handoff_commit_revalidates:
  assumes valid: "handoff_validate env h = Inr ()"
    and sha: "\<And>b. length (he_sha256 env b) = 32"
    and new: "handoff_recognizes_command env h command a = Inr False"
    and time: "now \<noteq> 0"
    and digest: "attributed_digest (he_sha256 env) (he_attributed env) a command = Inr digest"
    and capacity: "hh_validate_transition_capacity (length (hh_transitions h))
      (handoff_command_class (hcmd_kind command)) = Inr ()"
    and mono: "\<not> now < ht_applied_at_ms (last (hh_transitions h))"
    and kind: "handoff_apply_kind h (hcmd_kind command) now a = Inr (nxt, tk)"
  shows "handoff_validate env (handoff_commit nxt command digest now a tk) = Inr ()"
proof -
  let ?ts = "hh_transitions h"
  define seq :: u64 where "seq = of_nat (Suc (length ?ts))"
  let ?t = "\<lparr>ht_sequence = seq, ht_command_id = hcmd_id command, ht_command_sha256 = digest,
    ht_applied_at_ms = now, ht_actor = a, ht_kind = tk\<rparr>"
  note frame = handoff_apply_kind_frame [OF kind]
  from valid obtain rp where rp: "try_fold (handoff_replay_transition env) handoff_replay_start ?ts = Inr rp"
    and status: "hp_status rp = Some (hh_status h)" and ts: "?ts \<noteq> []"
    by (auto simp: handoff_validate_ok)
  from capacity have len: "length ?ts < MAX_HANDOFF_TRANSITIONS"
    and work: "handoff_command_class (hcmd_kind command) = HWork \<longrightarrow> length ?ts < MAX_HANDOFF_WORK_TRANSITIONS"
    by (auto simp: hh_validate_transition_capacity_def split: if_splits)
  then have "Suc (Suc (length ?ts)) < 2 ^ 64" by (simp add: handoff_limits)
  note seq = next_sequence [OF this, folded seq_def]
  have "unat (hp_expected_sequence rp) = Suc (length ?ts)"
    using hh_log.replay_count [OF rp] hh_log.replay_inv [OF rp] unat_gt_0 [of "hp_expected_sequence rp"]
    by linarith
  then have expected: "hp_expected_sequence rp = seq" by (rule seq(2))
  define rp1 where "rp1 = rp\<lparr>hp_expected_sequence := seq + 1, hp_previous_applied_at_ms := now,
    hp_command_ids := insert (hcmd_id command) (hp_command_ids rp)\<rparr>"
  have "handoff_transition_digest env ?t = Inr digest"
    using digest frame(3) by (simp add: handoff_transition_digest_command)
  moreover have "hp_previous_applied_at_ms rp \<le> now"
    using hh_log.replay_previous [OF rp] mono ts by simp
  moreover have "hcmd_id command \<notin> hp_command_ids rp"
    using new hh_log.replay_seen [OF rp] by (auto simp: handoff_recognizes_False)
  moreover have "hh_validate_identity (hcmd_id command) = Inr ()" "hh_validate_actor a = Inr ()"
    using new by (simp_all add: handoff_recognizes_False hh_validate_command_def and_then_eq_Inr)
  ultimately have env: "handoff_replay_envelope env rp ?t = Inr rp1"
    using attributed_digest_valid [OF digest sha] time work seq(3,4) frame(4)
    by (auto simp: handoff_replay_envelope_ok rp1_def expected)
  obtain rp' where "handoff_replay_kind rp1 ?t = Inr rp'" "hp_status rp' = Some (hh_status nxt)"
    "hp_subject rp' = hp_subject rp" "hp_queue rp' = hp_queue rp" "hp_reason rp' = hp_reason rp"
    "hp_priority rp' = hp_priority rp" "hp_requested_at rp' = hp_requested_at rp"
    using handoff_apply_kind_replays [OF kind, of rp1 seq "hcmd_id command" digest]
      status handoff_replay_ids [OF rp] by (auto simp: rp1_def)
  moreover have "hh_subject nxt = hh_subject h \<and> hh_queue nxt = hh_queue h \<and>
      hh_reason_code nxt = hh_reason_code h \<and> hh_priority nxt = hh_priority h \<and>
      hh_requested_at_ms nxt = hh_requested_at_ms h"
    by (subst (1 2 3 4 5) frame(2)) simp
  ultimately show ?thesis
    using valid rp env len
    by (auto simp: handoff_validate_ok handoff_commit_def frame(1) try_fold_snoc
        handoff_replay_transition_ok and_then_eq_Inr simp del: of_nat_Suc simp flip: seq_def)
qed

text \<open>The handler without the replay of the whole history: the specification of \<open>handoff_apply\<close>.\<close>

definition handoff_apply_once ::
  "handoff_env \<Rightarrow> human_handoff \<Rightarrow> handoff_command \<Rightarrow> u64 \<Rightarrow> authority_context \<Rightarrow>
   (human_handoff \<times> handoff_apply_outcome) result" where
  "handoff_apply_once env h command now authority =
     and_then (handoff_recognizes_command env h command (actor authority)) (\<lambda>known.
     if known then Inr (h, HDuplicate)
     else
     and_then (hh_validate_application_time now) (\<lambda>_.
     and_then (authority_validate_current authority) (\<lambda>_.
     and_then (hh_validate_transition_capacity (length (hh_transitions h))
       (handoff_command_class (hcmd_kind command))) (\<lambda>_.
     if now < ht_applied_at_ms (last (hh_transitions h)) then Inl (HumanHandoff H_time_backwards)
     else
     and_then (attributed_digest (he_sha256 env) (he_attributed env) (actor authority) command) (\<lambda>digest.
     and_then (handoff_apply_kind h (hcmd_kind command) now (actor authority)) (\<lambda>(nxt, kind).
     let h' = handoff_commit nxt command digest now (actor authority) kind in
     and_then (hh_encoded_size_for env h' (handoff_command_class (hcmd_kind command))) (\<lambda>charge.
     Inr (h'\<lparr>hh_charge := charge\<rparr>, HApplied))))))))"

lemma handoff_apply_eq_once:
  assumes valid: "handoff_validate env h = Inr ()"
    and sha: "\<And>b. length (he_sha256 env b) = 32"
  shows "handoff_apply env h command now authority = handoff_apply_once env h command now authority"
proof (cases "handoff_recognizes_command env h command (actor authority) = Inr False")
  case False
  then show ?thesis
    by (cases "handoff_recognizes_command env h command (actor authority)")
      (simp_all add: handoff_apply_def handoff_apply_once_def)
next
  case new: True
  from valid have ts: "hh_transitions h \<noteq> []" by (simp add: handoff_validate_ok)
  show ?thesis
    unfolding handoff_apply_def handoff_apply_once_def new and_then_simps if_False Let_def
  proof (intro and_then_cong refl if_cong, goal_cases)
    case (2 _ _ _ digest r)
    obtain nxt kind where r: "r = (nxt, kind)" by (cases r)
    from "2" have len: "length (hh_transitions h) < MAX_HANDOFF_TRANSITIONS" and "now \<noteq> 0"
      and mono: "\<not> now < ht_applied_at_ms (last (hh_transitions h))"
      and kind: "handoff_apply_kind h (hcmd_kind command) now (actor authority) = Inr (nxt, kind)"
      by (auto simp: hh_validate_transition_capacity_def hh_validate_application_time_def r split: if_splits)
    then have small: "Suc (Suc (length (hh_transitions h))) < 2 ^ 64" by (simp add: handoff_limits)
    have "handoff_validate env (handoff_commit nxt command digest now (actor authority) kind) = Inr ()"
      using handoff_commit_revalidates [OF valid sha new \<open>now \<noteq> 0\<close> _ _ mono kind] "2" by simp
    with next_sequence(1) [OF small] handoff_apply_kind_frame(1) [OF kind] show ?case
      by (simp add: r handoff_commit_def del: of_nat_Suc)
  qed (use ts in simp)
qed

lemma handoff_apply_Duplicate:
  "handoff_apply env h command now authority = Inr (h', HDuplicate) \<longleftrightarrow>
     handoff_recognizes_command env h command (actor authority) = Inr True \<and> h' = h"
  by (auto simp: handoff_apply_def and_then_eq_Inr Let_def split: if_splits)

lemma handoff_apply_AppliedE:
  assumes "handoff_apply env h command now authority = Inr (h', HApplied)"
  obtains t nxt kind where
    "handoff_recognizes_command env h command (actor authority) = Inr False"
    "attributed_digest (he_sha256 env) (he_attributed env) (actor authority) command
       = Inr (ht_command_sha256 t)"
    "handoff_apply_kind h (hcmd_kind command) now (actor authority) = Inr (nxt, kind)"
    "ht_kind t = kind" "ht_command_id t = hcmd_id command" "ht_applied_at_ms t = now" "ht_actor t = actor authority"
    "hh_transitions h' = hh_transitions h @ [t]" "hh_status h' = hh_status nxt"
    "handoff_validate env h' = Inr ()"
    "hh_encoded_size_for env h' (handoff_command_class (hcmd_kind command)) = Inr (hh_charge h')"
proof -
  from assms obtain digest nxt kind sq charge where facts:
    "handoff_recognizes_command env h command (actor authority) = Inr False"
    "attributed_digest (he_sha256 env) (he_attributed env) (actor authority) command = Inr digest"
    "handoff_apply_kind h (hcmd_kind command) now (actor authority) = Inr (nxt, kind)"
    and run': "handoff_validate env (nxt\<lparr>hh_transitions := hh_transitions nxt @
          [\<lparr>ht_sequence = sq, ht_command_id = hcmd_id command, ht_command_sha256 = digest,
            ht_applied_at_ms = now, ht_actor = actor authority, ht_kind = kind\<rparr>]\<rparr>) = Inr ()"
      "hh_encoded_size_for env (nxt\<lparr>hh_transitions := hh_transitions nxt @
          [\<lparr>ht_sequence = sq, ht_command_id = hcmd_id command, ht_command_sha256 = digest,
            ht_applied_at_ms = now, ht_actor = actor authority, ht_kind = kind\<rparr>]\<rparr>)
        (handoff_command_class (hcmd_kind command)) = Inr charge"
      "h' = nxt\<lparr>hh_transitions := hh_transitions nxt @
          [\<lparr>ht_sequence = sq, ht_command_id = hcmd_id command, ht_command_sha256 = digest,
            ht_applied_at_ms = now, ht_actor = actor authority, ht_kind = kind\<rparr>],
          hh_charge := charge\<rparr>"
    by (auto simp: handoff_apply_def and_then_eq_Inr ok_or_eq_Inr Let_def split: if_splits)
  moreover have "handoff_validate env (x\<lparr>hh_charge := c\<rparr>) = handoff_validate env x"
    "hh_encoded_size_for env (x\<lparr>hh_charge := c\<rparr>) cls = hh_encoded_size_for env x cls" for x c cls
    by (simp_all add: handoff_validate_def hh_encoded_size_for_def handoff_to_wire_def)
  ultimately show thesis
    using handoff_apply_kind_frame(1) [OF facts(3)]
    by (intro that [of "last (hh_transitions h')" nxt kind]) simp_all
qed

inductive handoff_reachable :: "handoff_env \<Rightarrow> human_handoff \<Rightarrow> bool" for env where
  created: "handoff_new env request now authority = Inr h \<Longrightarrow> handoff_reachable env h"
| applied: "handoff_reachable env h \<Longrightarrow>
    handoff_apply env h command now authority = Inr (h', outcome) \<Longrightarrow> handoff_reachable env h'"

definition handoff_inv :: "handoff_env \<Rightarrow> human_handoff \<Rightarrow> bool" where
  "handoff_inv env h \<longleftrightarrow> handoff_validate env h = Inr () \<and> hh_encoded_size env h = Inr (hh_charge h)"

lemma handoff_size_settlement:
  "hh_encoded_size_for env h cls = Inr n \<Longrightarrow> hh_encoded_size env h = Inr n"
  by (auto simp: hh_encoded_size_def hh_encoded_size_for_def hh_validate_materialization_capacity_def
      and_then_eq_Inr split: if_splits)

lemma handoff_apply_inv:
  "handoff_inv env h \<Longrightarrow> handoff_apply env h command now authority = Inr (h', outcome) \<Longrightarrow>
   handoff_inv env h'"
  by (cases outcome)
    (auto simp: handoff_inv_def handoff_apply_Duplicate elim!: handoff_apply_AppliedE
      dest: handoff_size_settlement)

lemma handoff_new_inv: "handoff_new env request now authority = Inr h \<Longrightarrow> handoff_inv env h"
  by (auto simp: handoff_new_def handoff_inv_def ok_iff Let_def hh_encoded_size_def
      handoff_validate_def hh_encoded_size_for_def handoff_to_wire_def)

lemma handoff_reachable_inv: "handoff_reachable env h \<Longrightarrow> handoff_inv env h"
  by (induction rule: handoff_reachable.induct) (blast intro: handoff_new_inv handoff_apply_inv)+

lemma handoff_apply_kind_terminal:
  "hs_is_terminal (hh_status h) \<Longrightarrow> \<exists>e. handoff_apply_kind h kind now a = Inl e"
  by (cases "handoff_apply_kind h kind now a"; cases kind)
    (auto simp: and_then_eq_Inr active_owned_claim_ok split: if_splits handoff_status.splits)

lemma handoff_recognizes_committed:
  assumes "handoff_recognizes_command env h command a = Inr False"
    and "attributed_digest (he_sha256 env) (he_attributed env) a command = Inr (ht_command_sha256 t)"
    and "hh_transitions h' = hh_transitions h @ [t]" and "ht_command_id t = hcmd_id command"
  shows "handoff_recognizes_command env h' command a = Inr True"
proof -
  have "find (\<lambda>t. ht_command_id t = hcmd_id command) (hh_transitions h') = Some t"
    using assms by (simp add: handoff_recognizes_False find_append_new)
  moreover have "hh_validate_command env command = Inr ()" "hh_validate_actor a = Inr ()"
    using assms(1) by (simp_all add: handoff_recognizes_False)
  ultimately show ?thesis
    using assms(2) by (simp add: handoff_recognizes_command_def)
qed

lemma handoff_unsettled_has_room:
  assumes "handoff_validate env h = Inr u" and "\<not> hs_is_terminal (hh_status h)"
  shows "length (hh_transitions h) < MAX_HANDOFF_TRANSITIONS"
  using assms hh_reserve.unsettled_has_room [of env "hh_transitions h"]
  by (auto simp: handoff_replay_budget_def handoff_budget_pos MAX_HANDOFF_TRANSITIONS_def
      handoff_validate_ok)

definition used_claims :: "human_handoff \<Rightarrow> string set" where
  "used_claims h = {i. \<exists>t\<in>set (hh_transitions h). claims (ht_kind t) i}"

definition current_fence :: "human_handoff \<Rightarrow> string option" where
  "current_fence h = map_option hc_id (held_claim (hh_status h))"

definition handoff_step :: "handoff_env \<Rightarrow> human_handoff \<Rightarrow> human_handoff \<Rightarrow> bool" where
  "handoff_step env h h' \<longleftrightarrow>
     (\<exists>command now authority outcome. handoff_apply env h command now authority = Inr (h', outcome))"

lemma handoff_stepI: "handoff_apply env h command now authority = Inr (h', outcome) \<Longrightarrow> handoff_step env h h'"
  unfolding handoff_step_def by (intro exI)

lemma handoff_apply_fence:
  assumes "handoff_apply env h command now authority = Inr (h', outcome)"
  shows "used_claims h \<subseteq> used_claims h'"
    and "current_fence h' = Some c \<Longrightarrow> current_fence h = Some c \<or> c \<in> used_claims h' - used_claims h"
proof -
  have "used_claims h \<subseteq> used_claims h' \<and>
    (current_fence h' = Some c \<longrightarrow> current_fence h = Some c \<or> c \<in> used_claims h' - used_claims h)" for c
  proof (cases outcome)
    case HApplied
    from assms [unfolded this] obtain t nxt kind where
      kind: "handoff_apply_kind h (hcmd_kind command) now (actor authority) = Inr (nxt, kind)"
      and tk: "ht_kind t = kind"
      and ts: "hh_transitions h' = hh_transitions h @ [t]" and st: "hh_status h' = hh_status nxt"
      by (rule handoff_apply_AppliedE)
    have "used_claims h' = used_claims h \<union> Collect (claims kind)"
      by (auto simp: used_claims_def ts tk)
    with kind st show ?thesis
      by (cases "hcmd_kind command")
        (auto simp: used_claims_def current_fence_def and_then_eq_Inr validate_new_claim_id_def
          active_owned_claim_ok list_ex_iff split: if_splits handoff_status.splits)
  qed (use assms in \<open>auto simp: handoff_apply_Duplicate\<close>)
  then show "used_claims h \<subseteq> used_claims h'"
    and "current_fence h' = Some c \<Longrightarrow> current_fence h = Some c \<or> c \<in> used_claims h' - used_claims h"
    by blast+
qed

text \<open>What every lease of a reachable case satisfies.\<close>

definition lease_in_bounds :: "human_handoff \<Rightarrow> bool" where
  "lease_in_bounds h \<longleftrightarrow>
     (case hh_status h of
        HsClaimed claim \<Rightarrow>
          unat (hc_claimed_at_ms claim) + 1000 \<le> unat (hc_expires_at_ms claim) \<and>
          unat (hc_expires_at_ms claim) \<le> unat (ht_applied_at_ms (last (hh_transitions h))) + 604800000 \<and>
          hc_claimed_at_ms claim \<le> ht_applied_at_ms (last (hh_transitions h))
      | _ \<Rightarrow> True)"

lemma lease_expiration_ok:
  "hh_validate_lease_duration d = Inr () \<Longrightarrow> hh_lease_expiration now d = Inr e \<Longrightarrow>
   unat now + 1000 \<le> unat e \<and> unat e \<le> unat now + 604800000"
  by (auto simp: hh_validate_lease_duration_def hh_lease_expiration_def ok_or_eq_Inr checked_add_Some
      MIN_HANDOFF_LEASE_MS_def MAX_HANDOFF_LEASE_MS_def word_le_nat_alt split: if_splits)

lemma handoff_validate_times:
  "handoff_validate env h = Inr u \<Longrightarrow> sorted (map ht_applied_at_ms (hh_transitions h))"
  by (auto simp: handoff_validate_ok dest: hh_log.replay_times)

lemma handoff_reachable_lease_bounds:
  "handoff_reachable env h \<Longrightarrow> lease_in_bounds h"
proof (induction rule: handoff_reachable.induct)
  case (created request now authority h)
  then show ?case by (auto simp: handoff_new_def and_then_eq_Inr Let_def lease_in_bounds_def)
next
  case (applied h command now authority h' outcome)
  show ?case
  proof (cases outcome)
    case HApplied
    from applied.hyps(2) [unfolded this] obtain t nxt kind where
      kind: "handoff_apply_kind h (hcmd_kind command) now (actor authority) = Inr (nxt, kind)"
      and tk: "ht_kind t = kind"
      and t: "ht_applied_at_ms t = now" "hh_transitions h' = hh_transitions h @ [t]"
      and st: "hh_status h' = hh_status nxt" and valid: "handoff_validate env h' = Inr ()"
      by (rule handoff_apply_AppliedE)
    have "hh_transitions h \<noteq> []"
      using handoff_reachable_inv [OF applied.hyps(1)] by (auto simp: handoff_inv_def handoff_validate_ok)
    with handoff_validate_times [OF valid] t have now: "ht_applied_at_ms (last (hh_transitions h)) \<le> now"
      by (simp add: sorted_append)
    show ?thesis
      using kind tk applied.IH now
      by (cases "hcmd_kind command")
        (auto simp: lease_in_bounds_def st t and_then_eq_Inr active_owned_claim_ok word_le_nat_alt
          dest!: lease_expiration_ok split: if_splits handoff_status.splits)
  qed (use applied in \<open>auto simp: handoff_apply_Duplicate\<close>)
qed

fun owner_operation :: "handoff_command_kind \<Rightarrow> string option" where
  "owner_operation (HcRenewClaim c _) = Some c"
| "owner_operation (HcReleaseClaim c _) = Some c"
| "owner_operation (HcResolve c _ _) = Some c"
| "owner_operation _ = None"

lemma owner_operation_check:
  assumes "handoff_apply env h command now authority = Inr (h', HApplied)"
    and "owner_operation (hcmd_kind command) = Some c"
  obtains claim where "active_owned_claim (hh_status h) c (actor authority) now = Inr claim"
  using assms(1)
  by (rule handoff_apply_AppliedE) (use assms(2) in \<open>cases "hcmd_kind command"; auto simp: and_then_eq_Inr\<close>)

section \<open>A concrete case\<close>

definition demo_handoff_sha256 :: "bytes \<Rightarrow> bytes" where
  "demo_handoff_sha256 b = take 32 (b @ replicate 32 CHR 0x00)"

lemma length_demo_handoff_sha256 [simp]: "length (demo_handoff_sha256 b) = 32"
  by (simp add: demo_handoff_sha256_def)

definition demo_handoff_env :: handoff_env where
  "demo_handoff_env = \<lparr>he_create = (\<lambda>(a, q). ([hq_command_id q], True)),
     he_attributed = (\<lambda>(a, c). ([if a = LocalProcess then CHR ''L'' # hcmd_id c else ''other''], True)),
     he_command = (\<lambda>c. ([hcmd_id c], True)), he_handoff = (\<lambda>w. ([''case''], True)),
     he_sha256 = demo_handoff_sha256\<rparr>"

definition demo_create :: handoff_create_request where
  "demo_create = \<lparr>hq_command_id = ''create'', hq_subject = HsThread ''thread'', hq_queue = ''queue'',
     hq_reason_code = ''reason'', hq_priority = 1\<rparr>"

definition demo_event :: "u64 \<Rightarrow> string \<Rightarrow> bytes \<Rightarrow> u64 \<Rightarrow> handoff_transition_kind \<Rightarrow> handoff_transition" where
  "demo_event n i b now kind = \<lparr>ht_sequence = n, ht_command_id = i,
     ht_command_sha256 = lower_hex (demo_handoff_sha256 b), ht_applied_at_ms = now,
     ht_actor = LocalProcess, ht_kind = kind\<rparr>"

definition demo_queued :: human_handoff where
  "demo_queued = \<lparr>hh_subject = HsThread ''thread'', hh_queue = ''queue'', hh_reason_code = ''reason'',
     hh_priority = 1, hh_requested_at_ms = 5, hh_status = HsQueued,
     hh_transitions = [demo_event 1 ''create'' ''create'' 5 (HtCreated (HsThread ''thread'') ''queue'' ''reason'' 1)],
     hh_charge = 4\<rparr>"

definition demo_claim :: handoff_command where
  "demo_claim = \<lparr>hcmd_id = ''claim'', hcmd_kind = HcClaim ''c1'' 2000\<rparr>"

definition demo_claimed :: human_handoff where
  "demo_claimed = demo_queued\<lparr>
     hh_status := HsClaimed \<lparr>hc_id = ''c1'', hc_owner = LocalProcess, hc_claimed_at_ms = 6, hc_expires_at_ms = 2006\<rparr>,
     hh_transitions := hh_transitions demo_queued @ [demo_event 2 ''claim'' ''Lclaim'' 6 (HtClaimed ''c1'' 2000)]\<rparr>"

definition demo_release :: handoff_command where
  "demo_release = \<lparr>hcmd_id = ''release'', hcmd_kind = HcReleaseClaim ''c1'' ''reason''\<rparr>"

definition demo_released :: human_handoff where
  "demo_released = demo_claimed\<lparr>hh_status := HsQueued,
     hh_transitions := hh_transitions demo_claimed @
       [demo_event 3 ''release'' ''Lrelease'' 7 (HtClaimReleased ''c1'' ''reason'')]\<rparr>"

definition demo_stop :: handoff_command where
  "demo_stop = \<lparr>hcmd_id = ''stop'', hcmd_kind = HcCancel ''reason''\<rparr>"

definition demo_stopped :: human_handoff where
  "demo_stopped = demo_claimed\<lparr>hh_status := HsCancelled ''reason'',
     hh_transitions := hh_transitions demo_claimed @ [demo_event 3 ''stop'' ''Lstop'' 7 (HtCancelled ''reason'')]\<rparr>"

definition demo_again :: handoff_command where
  "demo_again = \<lparr>hcmd_id = ''again'', hcmd_kind = HcClaim ''c2'' 2000\<rparr>"

definition demo_reclaimed :: human_handoff where
  "demo_reclaimed = demo_released\<lparr>
     hh_status := HsClaimed \<lparr>hc_id = ''c2'', hc_owner = LocalProcess, hc_claimed_at_ms = 8, hc_expires_at_ms = 2008\<rparr>,
     hh_transitions := hh_transitions demo_released @ [demo_event 4 ''again'' ''Lagain'' 8 (HtClaimed ''c2'' 2000)]\<rparr>"

lemmas demo_handoff_defs = demo_again_def demo_reclaimed_def demo_create_def demo_event_def demo_queued_def demo_claim_def demo_claimed_def
  demo_release_def demo_released_def demo_stop_def demo_stopped_def

lemma demo_handoff_digest [simp]: "hh_validate_digest (lower_hex (demo_handoff_sha256 b)) = Inr ()"
  using lower_hex_is_lower_hex by (simp add: hh_validate_digest_def)

lemma demo_handoff_env_sha256 [simp]: "he_sha256 demo_handoff_env = demo_handoff_sha256"
  by (simp add: demo_handoff_env_def)

lemma demo_handoff_fields [simp]:
  "hh_validate_identity ''create'' = Inr ()" "hh_validate_identity ''thread'' = Inr ()"
  "hh_validate_identity ''claim'' = Inr ()" "hh_validate_identity ''c1'' = Inr ()"
  "hh_validate_identity ''release'' = Inr ()" "hh_validate_identity ''stop'' = Inr ()"
  "hh_validate_identity ''again'' = Inr ()" "hh_validate_identity ''c2'' = Inr ()"
  "validate_capability_name ''queue'' = Inr ()" "validate_capability_name ''reason'' = Inr ()"
  "hh_validate_lease_duration 2000 = Inr ()" "hh_validate_actor LocalProcess = Inr ()"
  by (simp_all add: hh_validate_identity_def validate_capability_name_def string_eval
      hh_validate_lease_duration_def hh_validate_actor_def validate_shape_def
      MAX_HANDOFF_IDENTITY_BYTES_def MIN_HANDOFF_LEASE_MS_def MAX_HANDOFF_LEASE_MS_def)

lemmas handoff_size_eval = bounded_serialized_size_def to_writer_def counting_write_def
  usize_checked_add_def to_vec_def MAX_HANDOFF_COMMAND_JSON_BYTES_def MAX_HANDOFF_JSON_BYTES_def
  MAX_HANDOFF_WORK_JSON_BYTES_def

lemma demo_attributed_digest [simp]:
  "length (hcmd_id c) < 32 \<Longrightarrow>
   attributed_digest demo_handoff_sha256 (he_attributed demo_handoff_env) LocalProcess c =
     Inr (lower_hex (demo_handoff_sha256 (CHR ''L'' # hcmd_id c)))"
  "hq_command_id q \<noteq> [] \<Longrightarrow> length (hq_command_id q) < 32 \<Longrightarrow>
   attributed_digest demo_handoff_sha256 (he_create demo_handoff_env) LocalProcess q =
     Inr (lower_hex (demo_handoff_sha256 (hq_command_id q)))"
  "length (hcmd_id c) < 32 \<Longrightarrow> hh_validate_identity (hcmd_id c) = Inr () \<Longrightarrow>
   hh_validate_command demo_handoff_env c = Inr ()"
  by (simp_all add: attributed_digest_def demo_handoff_env_def handoff_size_eval hh_validate_command_def)

lemma demo_handoff_size [simp]: "hh_encoded_size_for demo_handoff_env h cls = Inr 4"
  by (simp add: hh_encoded_size_for_def demo_handoff_env_def handoff_size_eval
      hh_validate_materialization_capacity_def)

lemmas handoff_eval = handoff_limits hh_validate_application_time_def handoff_validate_def
  handoff_replay_transition_def handoff_replay_envelope_def handoff_replay_start_def
  handoff_replay_kind_def handoff_transition_digest_def checked_add_def u64_of_usize_def
  handoff_recognizes_command_def handoff_new_def handoff_apply_def hh_validate_create_request_def
  hh_encoded_size_def hh_validate_transition_capacity_def validate_new_claim_id_def
  active_owned_claim_def validate_projected_owner_def hh_lease_expiration_def

lemma demo_handoff_new: "handoff_new demo_handoff_env demo_create 5 local_process = Inr demo_queued"
  by (simp add: demo_handoff_defs handoff_eval)

lemma demo_claim_applied:
  "handoff_apply demo_handoff_env demo_queued demo_claim 6 local_process = Inr (demo_claimed, HApplied)"
  by (simp add: demo_handoff_defs handoff_eval)

lemma demo_release_applied:
  "handoff_apply demo_handoff_env demo_claimed demo_release 7 local_process = Inr (demo_released, HApplied)"
  by (simp add: demo_handoff_defs handoff_eval)

lemma demo_again_applied:
  "handoff_apply demo_handoff_env demo_released demo_again 8 local_process = Inr (demo_reclaimed, HApplied)"
  by (simp add: demo_handoff_defs handoff_eval)

lemma demo_stop_applied:
  "handoff_apply demo_handoff_env demo_claimed demo_stop 7 local_process = Inr (demo_stopped, HApplied)"
  by (simp add: demo_handoff_defs handoff_eval)

lemma demo_handoff_reachable:
  "handoff_reachable demo_handoff_env demo_queued" "handoff_reachable demo_handoff_env demo_claimed"
proof -
  show queued: "handoff_reachable demo_handoff_env demo_queued"
    using demo_handoff_new by (rule handoff_reachable.created)
  show "handoff_reachable demo_handoff_env demo_claimed"
    using queued demo_claim_applied by (rule handoff_reachable.applied)
qed

section \<open>Properties\<close>

text \<open>
  On every case the program can hold, \<open>handoff_apply\<close> equals the handler that does not replay the
  history: re-validation inside a mutation is never the reason a command is rejected.
\<close>

theorem handoff_apply_replay_redundant:
  assumes "handoff_reachable env h" and "\<And>b. length (he_sha256 env b) = 32"
  shows "handoff_apply env h command now authority = handoff_apply_once env h command now authority"
  using handoff_reachable_inv [OF assms(1)] assms(2)
  by (intro handoff_apply_eq_once) (simp_all add: handoff_inv_def)

theorem handoff_apply_replay_redundant_witness:
  "handoff_apply demo_handoff_env demo_queued demo_claim 6 local_process =
     handoff_apply_once demo_handoff_env demo_queued demo_claim 6 local_process"
  using handoff_apply_replay_redundant [OF demo_handoff_reachable(1)] by simp

text \<open>
  Ownership is exclusive: if two owner operations (renew, release, resolve) are both accepted on
  the same state, at whatever times, they name the same claim and come from the same actor, who is
  the recorded owner and acts before the lease expires.
\<close>

theorem handoff_owner_exclusive:
  assumes "handoff_apply env h command now authority = Inr (h1, HApplied)"
    and "owner_operation (hcmd_kind command) = Some c"
    and "handoff_apply env h command' now' authority' = Inr (h2, HApplied)"
    and "owner_operation (hcmd_kind command') = Some c'"
  shows "c' = c \<and> actor authority' = actor authority \<and>
    (\<exists>claim. hh_status h = HsClaimed claim \<and> hc_id claim = c \<and> hc_owner claim = actor authority \<and>
       now < hc_expires_at_ms claim)"
proof -
  from assms(1,2) obtain claim where one: "active_owned_claim (hh_status h) c (actor authority) now = Inr claim"
    by (rule owner_operation_check)
  from assms(3,4) obtain claim' where "active_owned_claim (hh_status h) c' (actor authority') now' = Inr claim'"
    by (rule owner_operation_check)
  from handoff_fence.exclusive [OF one this] one show ?thesis
    by (auto simp: active_owned_claim_ok)
qed

theorem handoff_owner_exclusive_witness:
  "\<exists>claim. hh_status demo_claimed = HsClaimed claim \<and> hc_id claim = ''c1'' \<and>
     hc_owner claim = LocalProcess \<and> 7 < hc_expires_at_ms claim"
  using handoff_owner_exclusive [OF demo_release_applied _ demo_release_applied]
  by (simp add: demo_handoff_defs)

text \<open>
  C39: A claim identity is spent for ever: once it has been used and is no longer current, no sequence of
  commands makes it current again, so an operator holding an old fence can never act on the case.
\<close>

theorem handoff_stale_fence:
  assumes "(handoff_step env)\<^sup>*\<^sup>* h h'" and "c \<in> used_claims h" and "current_fence h \<noteq> Some c"
  shows "current_fence h' \<noteq> Some c"
proof -
  from assms(1) have "c \<in> used_claims h' \<and> current_fence h' \<noteq> Some c"
  proof (induction rule: rtranclp_induct)
    case (step y z)
    from step.hyps(2) obtain command now authority outcome where
      "handoff_apply env y command now authority = Inr (z, outcome)"
      by (auto simp: handoff_step_def)
    from handoff_apply_fence(1) [OF this] handoff_apply_fence(2) [OF this, of c] step.IH show ?case by blast
  qed (use assms in simp)
  then show ?thesis ..
qed

theorem handoff_stale_fence_witness: "current_fence demo_reclaimed \<noteq> Some ''c1''"
proof -
  have "(handoff_step demo_handoff_env)\<^sup>*\<^sup>* demo_released demo_reclaimed"
    by (rule r_into_rtranclp) (rule handoff_stepI [OF demo_again_applied])
  moreover have "''c1'' \<in> used_claims demo_released" "current_fence demo_released \<noteq> Some ''c1''"
    by (simp_all add: used_claims_def current_fence_def demo_handoff_defs)
  ultimately show ?thesis by (rule handoff_stale_fence)
qed

text \<open>
  A command repeated by the same actor after it succeeded, at any later call, returns the outcome
  Duplicate and leaves the case as it is.
\<close>

theorem handoff_apply_idempotent:
  assumes "handoff_apply env h command now authority = Inr (h', outcome)"
    and "actor authority' = actor authority"
  shows "handoff_apply env h' command now' authority' = Inr (h', HDuplicate)"
proof (cases outcome)
  case HApplied
  with assms show ?thesis
    by (auto elim!: handoff_apply_AppliedE simp: handoff_apply_Duplicate intro: handoff_recognizes_committed)
qed (use assms in \<open>auto simp: handoff_apply_Duplicate\<close>)

theorem handoff_apply_idempotent_witness:
  "handoff_apply demo_handoff_env demo_claimed demo_claim 9 local_process = Inr (demo_claimed, HDuplicate)"
  using handoff_apply_idempotent [OF demo_claim_applied] by simp

text \<open>
  A committed command identity is bound to its actor: when the digest separates the two actors, the same command presented by another actor is rejected, never taken for a duplicate.
\<close>

theorem handoff_command_bound_to_actor:
  assumes "handoff_apply env h command now authority = Inr (h', HApplied)"
    and separates: "\<And>x y. to_vec (he_attributed env) (actor authority, command) = Some x \<Longrightarrow>
      to_vec (he_attributed env) (actor authority', command) = Some y \<Longrightarrow>
      he_sha256 env x \<noteq> he_sha256 env y"
  shows "\<exists>e. handoff_apply env h' command now' authority' = Inl e"
proof -
  from assms(1) obtain t where t: "handoff_recognizes_command env h command (actor authority) = Inr False"
    "attributed_digest (he_sha256 env) (he_attributed env) (actor authority) command = Inr (ht_command_sha256 t)"
    "ht_command_id t = hcmd_id command" "hh_transitions h' = hh_transitions h @ [t]"
    by (rule handoff_apply_AppliedE)
  have found: "find (\<lambda>t. ht_command_id t = hcmd_id command) (hh_transitions h') = Some t"
    using t by (simp add: handoff_recognizes_False find_append_new)
  have "\<not> (\<exists>known. handoff_recognizes_command env h' command (actor authority') = Inr known)"
    using t(2) separates
    by (auto simp: handoff_recognizes_command_def attributed_digest_def and_then_eq_Inr ok_or_eq_Inr found
        split: if_splits) (metis lower_hex_inj)
  then show ?thesis
    by (cases "handoff_recognizes_command env h' command (actor authority')") (simp_all add: handoff_apply_def)
qed

theorem handoff_command_bound_to_actor_witness:
  "\<exists>e. handoff_apply demo_handoff_env demo_claimed demo_claim 9 (local_process\<lparr>actor := Authenticated ''a'' ''b''\<rparr>)
     = Inl e"
  by (rule handoff_command_bound_to_actor [OF demo_claim_applied])
    (auto simp: demo_handoff_env_def to_vec_def demo_claim_def demo_handoff_sha256_def)

text \<open>
  A case that is neither resolved nor cancelled can always be cancelled, even when it has used all
  4096 work transitions. The hypotheses are a fresh, well-formed command, a current authority, a
  clock that did not go back, and an encoding of the cancelled case within the limit.
\<close>

theorem handoff_can_always_be_cancelled:
  assumes reachable: "handoff_reachable env h" and open_case: "\<not> hs_is_terminal (hh_status h)"
    and sha: "\<And>b. length (he_sha256 env b) = 32"
    and new: "handoff_recognizes_command env h command (actor authority) = Inr False"
    and kind: "hcmd_kind command = HcCancel reason" "validate_capability_name reason = Inr ()"
    and time: "now \<noteq> 0" "ht_applied_at_ms (last (hh_transitions h)) \<le> now"
    and authority: "valid_authority authority"
    and fits: "\<And>digest. attributed_digest (he_sha256 env) (he_attributed env) (actor authority) command = Inr digest \<Longrightarrow>
      \<exists>b. to_vec (he_handoff env) (handoff_to_wire (handoff_commit (h\<lparr>hh_status := HsCancelled reason\<rparr>) command digest now
        (actor authority) (HtCancelled reason))) = Some b \<and> length b \<le> MAX_HANDOFF_JSON_BYTES"
  shows "\<exists>h'. handoff_apply env h command now authority = Inr (h', HApplied) \<and>
    hh_status h' = HsCancelled reason"
proof -
  from reachable have valid: "handoff_validate env h = Inr ()"
    using handoff_reachable_inv handoff_inv_def by blast
  from new obtain digest where
    digest: "attributed_digest (he_sha256 env) (he_attributed env) (actor authority) command = Inr digest"
    by (auto simp: handoff_recognizes_False)
  have capacity: "hh_validate_transition_capacity (length (hh_transitions h)) HSettlement = Inr ()"
    using handoff_unsettled_has_room [OF valid open_case] by (simp add: hh_validate_transition_capacity_def)
  let ?x = "handoff_commit (h\<lparr>hh_status := HsCancelled reason\<rparr>) command digest now (actor authority) (HtCancelled reason)"
  have size: "\<exists>n. hh_encoded_size_for env ?x HSettlement = Inr n"
  proof -
    have "\<exists>n. bounded_serialized_size (he_handoff env) (handoff_to_wire ?x) MAX_HANDOFF_JSON_BYTES = Inr n \<and>
        n \<le> MAX_HANDOFF_JSON_BYTES"
      using fits [OF digest]
      by (subst bounded_serialized_size_ok) (auto simp: MAX_HANDOFF_JSON_BYTES_def
          MAX_HANDOFF_WORK_JSON_BYTES_def MAX_HANDOFF_COMMAND_JSON_BYTES_def)
    then show ?thesis
      by (auto simp: hh_encoded_size_for_def hh_validate_materialization_capacity_def)
  qed
  have ok: "authority_validate_current authority = Inr ()" "\<not> now < ht_applied_at_ms (last (hh_transitions h))"
    using authority time by (simp_all add: authority_validate_current_ok not_less)
  show ?thesis
    unfolding handoff_apply_eq_once [OF valid sha]
    using size
    by (auto simp: handoff_apply_once_def new digest capacity kind time ok
        hh_validate_application_time_def open_case Let_def handoff_commit_def)
qed

theorem handoff_can_always_be_cancelled_witness:
  "\<exists>h'. handoff_apply demo_handoff_env demo_claimed demo_stop 8 local_process = Inr (h', HApplied) \<and>
     hh_status h' = HsCancelled ''reason''"
proof (rule handoff_can_always_be_cancelled [OF demo_handoff_reachable(2)])
  show "handoff_recognizes_command demo_handoff_env demo_claimed demo_stop (actor local_process) = Inr False"
    by (simp add: demo_handoff_defs handoff_eval)
qed (simp_all add: demo_handoff_defs demo_handoff_env_def handoff_size_eval)

text \<open>
  Every case the program can hold is read back from its serialised form as the same case.
\<close>

theorem handoff_wire_roundtrip:
  assumes "handoff_reachable env h"
  shows "handoff_from_wire env (handoff_to_wire h) = Inr h"
  using handoff_reachable_inv [OF assms]
  by (cases h) (auto simp: handoff_from_wire_def handoff_to_wire_def handoff_inv_def handoff_validate_def
      hh_encoded_size_def hh_encoded_size_for_def Let_def)

theorem handoff_wire_roundtrip_witness:
  "handoff_from_wire demo_handoff_env (handoff_to_wire demo_claimed) = Inr demo_claimed"
  using handoff_wire_roundtrip [OF demo_handoff_reachable(2)] .

text \<open>
  A Resolved or Cancelled case is final: only repetitions of committed commands succeed, and they
  change nothing.
\<close>

theorem handoff_terminal_absorbing:
  assumes "hs_is_terminal (hh_status h)"
    and "handoff_apply env h command now authority = Inr (h', outcome)"
  shows "h' = h \<and> outcome = HDuplicate"
  using assms handoff_apply_kind_terminal [of h "hcmd_kind command" now "actor authority"]
  by (cases outcome) (auto simp: handoff_apply_Duplicate elim!: handoff_apply_AppliedE)

theorem handoff_terminal_absorbing_witness:
  "handoff_apply demo_handoff_env demo_stopped demo_stop 9 local_process = Inr (demo_stopped, HDuplicate)"
proof -
  have settled: "hs_is_terminal (hh_status demo_stopped)" by (simp add: demo_handoff_defs)
  obtain r where r: "handoff_apply demo_handoff_env demo_stopped demo_stop 9 local_process = Inr r"
    by (simp add: demo_handoff_defs handoff_eval)
  then show ?thesis
    using handoff_terminal_absorbing [OF settled, of demo_handoff_env demo_stop 9 local_process]
    by (cases r) simp
qed

text \<open>
  At one instant a claimed case can be acted on by its owner or expired by the queue worker, never
  both.
\<close>

theorem handoff_expiry_excludes_owner:
  assumes "handoff_apply env h command now authority = Inr (h1, HApplied)"
    and "owner_operation (hcmd_kind command) = Some c"
    and "hcmd_kind command' = HcExpireClaim c'"
  shows "handoff_apply env h command' now authority' \<noteq> Inr (h2, HApplied)"
proof
  assume expired: "handoff_apply env h command' now authority' = Inr (h2, HApplied)"
  from assms(1,2) obtain claim where "active_owned_claim (hh_status h) c (actor authority) now = Inr claim"
    by (rule owner_operation_check)
  with expired assms(3) show False
    by (auto simp: active_owned_claim_ok split: if_splits elim!: handoff_apply_AppliedE)
qed

theorem handoff_expiry_excludes_owner_witness:
  "\<not> (\<exists>h2. handoff_apply demo_handoff_env demo_claimed \<lparr>hcmd_id = ''x'', hcmd_kind = HcExpireClaim ''c1''\<rparr> 7
     local_process = Inr (h2, HApplied))"
  using handoff_expiry_excludes_owner [OF demo_release_applied, of "''c1''"] by (simp add: demo_handoff_defs)

text \<open>
  Every lease of a case the program can hold lasts at least one second from its claim and at most
  seven days past the last transition, computed without wrap-around.
\<close>

theorem handoff_lease_bounds:
  assumes "handoff_reachable env h"
  shows "lease_in_bounds h"
  using handoff_reachable_lease_bounds [OF assms] .

theorem handoff_lease_bounds_witness: "lease_in_bounds demo_claimed"
  using handoff_lease_bounds [OF demo_handoff_reachable(2)] .

end
