(* ===== verification/Handoff_Store.thy ===== *)
theory Handoff_Store
  imports Handoff Revision_Store
begin

text \<open>
  The Human Handoff coordinator of \<^verbatim>\<open>human_handoff/coordinator.rs\<close> and the engine above it
  (\<^verbatim>\<open>human_handoff/engine.rs\<close>): revisioned snapshots of cases, the work queue in priority order with
  its cursor, and the paged scan for expired claims. The trusted subject resolver of the
  engine is a parameter.
\<close>

section \<open>Snapshots, results and pages\<close>

definition MAX_HANDOFF_PAGE :: nat where "MAX_HANDOFF_PAGE = 256"

record handoff_cursor =
  hcu_priority :: "8 word"
  hcu_requested_at_ms :: u64
  hcu_handoff_id :: string

record handoff_snapshot =
  hsn_id :: string
  hsn_tenant_id :: "string option"
  hsn_revision :: u64
  hsn_handoff :: human_handoff

record handoff_page =
  hpg_handoffs :: "handoff_snapshot list"
  hpg_next_cursor :: "handoff_cursor option"
  hpg_has_more :: bool

record handoff_command_result =
  hcr_snapshot :: handoff_snapshot
  hcr_outcome :: handoff_apply_outcome

record handoff_due_claim =
  hdc_handoff_id :: string
  hdc_tenant_id :: "string option"
  hdc_revision :: u64
  hdc_claim_id :: string
  hdc_expires_at_ms :: u64

record handoff_due_scan_page =
  hdp_due :: "handoff_due_claim list"
  hdp_next_after_handoff_id :: "string option"
  hdp_has_more :: bool
  hdp_scanned :: usize

type_synonym handoff_store = "handoff_snapshot store"

section \<open>Guards\<close>

definition hh_validate_access :: "string \<Rightarrow> authority_context \<Rightarrow> unit result" where
  "hh_validate_access handoff_id authority =
     and_then (authority_validate_current authority) (\<lambda>_. hh_validate_identity handoff_id)"

text \<open>\<open>i64::try_from\<close> of an unsigned time: the range of an SQLite integer.\<close>

definition fits_i64 :: "u64 \<Rightarrow> bool" where
  "fits_i64 v \<longleftrightarrow> unat v < 2 ^ 63"

definition hh_validate_list ::
  "string \<Rightarrow> handoff_cursor option \<Rightarrow> usize \<Rightarrow> authority_context \<Rightarrow> unit result" where
  "hh_validate_list queue after limit authority =
     and_then (authority_validate_current authority) (\<lambda>_.
     and_then (hh_validate_application_time
       (case after of None \<Rightarrow> 1 | Some cursor \<Rightarrow> hcu_requested_at_ms cursor)) (\<lambda>_.
     and_then (validate_capability_name queue) (\<lambda>_.
     and_then (case after of
         None \<Rightarrow> Inr ()
       | Some cursor \<Rightarrow>
           and_then (hh_validate_identity (hcu_handoff_id cursor)) (\<lambda>_.
           if fits_i64 (hcu_requested_at_ms cursor) then Inr ()
           else Inl (HumanHandoff (H_store Sql_out_of_range)))) (\<lambda>_.
     if \<not> (1 \<le> limit \<and> limit \<le> MAX_HANDOFF_PAGE) then Inl (hh_err Bad_page_limit) else Inr ()))))"

definition hh_validate_due_scan ::
  "u64 \<Rightarrow> string option \<Rightarrow> usize \<Rightarrow> authority_context \<Rightarrow> unit result" where
  "hh_validate_due_scan at_ms after_handoff_id scan_limit authority =
     and_then (authority_validate_current authority) (\<lambda>_.
     and_then (hh_validate_application_time at_ms) (\<lambda>_.
     and_then (case after_handoff_id of None \<Rightarrow> Inr () | Some i \<Rightarrow> hh_validate_identity i) (\<lambda>_.
     if \<not> (1 \<le> scan_limit \<and> scan_limit \<le> MAX_HANDOFF_PAGE) then Inl (hh_err Bad_page_limit) else Inr ())))"

definition hh_validate_expected_revision :: "u64 \<Rightarrow> unit result" where
  "hh_validate_expected_revision revision = (if revision = 0 then Inl (hh_err Zero_revision) else Inr ())"

definition missing_handoff :: "string \<Rightarrow> harness_error" where
  "missing_handoff handoff_id = HumanHandoff (H_store (Missing handoff_id))"

section \<open>Pages\<close>

definition due_claim_of :: "u64 \<Rightarrow> handoff_snapshot \<Rightarrow> handoff_due_claim option" where
  "due_claim_of at_ms snapshot =
     (case hh_status (hsn_handoff snapshot) of
        HsClaimed claim \<Rightarrow>
          if hc_expires_at_ms claim \<le> at_ms
          then Some \<lparr>hdc_handoff_id = hsn_id snapshot, hdc_tenant_id = hsn_tenant_id snapshot,
                 hdc_revision = hsn_revision snapshot, hdc_claim_id = hc_id claim,
                 hdc_expires_at_ms = hc_expires_at_ms claim\<rparr>
          else None
      | _ \<Rightarrow> None)"

definition due_page_from_scan ::
  "handoff_snapshot list \<Rightarrow> usize \<Rightarrow> u64 \<Rightarrow> handoff_due_scan_page" where
  "due_page_from_scan visited scan_limit at_ms =
     (let has_more = length visited > scan_limit;
          visited = take scan_limit visited
      in \<lparr>hdp_due = List.map_filter (due_claim_of at_ms) visited,
          hdp_next_after_handoff_id = (if visited = [] then None else Some (hsn_id (last visited))),
          hdp_has_more = has_more,
          hdp_scanned = length visited\<rparr>)"

definition cursor_of :: "handoff_snapshot \<Rightarrow> handoff_cursor" where
  "cursor_of snapshot = \<lparr>hcu_priority = hh_priority (hsn_handoff snapshot),
     hcu_requested_at_ms = hh_requested_at_ms (hsn_handoff snapshot), hcu_handoff_id = hsn_id snapshot\<rparr>"

definition page_from_candidates :: "handoff_snapshot list \<Rightarrow> usize \<Rightarrow> handoff_page" where
  "page_from_candidates candidates limit =
     (let has_more = length candidates > limit;
          candidates = take limit candidates
      in \<lparr>hpg_handoffs = candidates,
          hpg_next_cursor = (if candidates = [] then None else Some (cursor_of (last candidates))),
          hpg_has_more = has_more\<rparr>)"

definition comes_after :: "handoff_snapshot \<Rightarrow> handoff_cursor \<Rightarrow> bool" where
  "comes_after snapshot cursor \<longleftrightarrow>
     hh_priority (hsn_handoff snapshot) < hcu_priority cursor \<or>
     hh_priority (hsn_handoff snapshot) = hcu_priority cursor \<and>
       (hh_requested_at_ms (hsn_handoff snapshot) > hcu_requested_at_ms cursor \<or>
        hh_requested_at_ms (hsn_handoff snapshot) = hcu_requested_at_ms cursor \<and>
          hsn_id snapshot > hcu_handoff_id cursor)"

text \<open>
  \<open>queue_order\<close> compares the priorities in reverse, then the times, then the identities: the
  lexicographic order of these keys. \<open>sort_by\<close> is a stable sort.
\<close>

definition queue_key :: "handoff_snapshot \<Rightarrow> int \<times> u64 \<times> string" where
  "queue_key snapshot = (- uint (hh_priority (hsn_handoff snapshot)),
     hh_requested_at_ms (hsn_handoff snapshot), hsn_id snapshot)"

section \<open>Operations\<close>

definition hh_create_as ::
  "handoff_env \<Rightarrow> handoff_store \<Rightarrow> string \<Rightarrow> handoff_create_request \<Rightarrow> u64 \<Rightarrow> authority_context \<Rightarrow>
   (handoff_store \<times> handoff_snapshot) result" where
  "hh_create_as env handoffs handoff_id request applied_at_ms authority =
     and_then (hh_validate_access handoff_id authority) (\<lambda>_.
     let key = store_key handoff_id (tenant_id authority) in
     case bm_get handoffs key of
       Some existing \<Rightarrow>
         and_then (handoff_create_matches env (hsn_handoff existing) request (actor authority)) (\<lambda>same.
         if same then Inr (handoffs, existing)
         else Inl (HumanHandoff (H_store (Exists_differently handoff_id))))
     | None \<Rightarrow>
         and_then (handoff_new env request applied_at_ms authority) (\<lambda>handoff.
         let snapshot = \<lparr>hsn_id = handoff_id, hsn_tenant_id = tenant_id authority, hsn_revision = 1,
               hsn_handoff = handoff\<rparr>
         in Inr (bm_insert key snapshot handoffs, snapshot)))"

definition hh_load_as ::
  "handoff_store \<Rightarrow> string \<Rightarrow> authority_context \<Rightarrow> handoff_snapshot option result" where
  "hh_load_as handoffs handoff_id authority =
     and_then (hh_validate_access handoff_id authority) (\<lambda>_.
     Inr (bm_get handoffs (store_key handoff_id (tenant_id authority))))"

definition list_queued_as ::
  "handoff_store \<Rightarrow> string \<Rightarrow> handoff_cursor option \<Rightarrow> usize \<Rightarrow> authority_context \<Rightarrow> handoff_page result" where
  "list_queued_as handoffs queue after limit authority =
     and_then (hh_validate_list queue after limit authority) (\<lambda>_.
     let tenant = tenant_storage_key (tenant_id authority);
         candidates = filter (\<lambda>snapshot.
             tenant_storage_key (hsn_tenant_id snapshot) = tenant \<and>
             hh_queue (hsn_handoff snapshot) = queue \<and>
             hh_status (hsn_handoff snapshot) = HsQueued \<and>
             is_none_or after (comes_after snapshot)) (bm_values handoffs)
     in Inr (page_from_candidates (sort_key queue_key candidates) limit))"

definition hh_scan_due_as ::
  "handoff_store \<Rightarrow> u64 \<Rightarrow> string option \<Rightarrow> usize \<Rightarrow> authority_context \<Rightarrow> handoff_due_scan_page result" where
  "hh_scan_due_as handoffs at_ms after_handoff_id scan_limit authority =
     and_then (hh_validate_due_scan at_ms after_handoff_id scan_limit authority) (\<lambda>_.
     let tenant = tenant_storage_key (tenant_id authority);
         range_start = (tenant, case after_handoff_id of None \<Rightarrow> [] | Some after \<Rightarrow> after);
         visited = map snd (take (usize_saturating_add scan_limit 1)
           (filter (\<lambda>((_, handoff_id), _). is_none_or after_handoff_id (\<lambda>after. after < handoff_id))
             (takeWhile (\<lambda>((stored_tenant, _), _). stored_tenant = tenant)
               (bm_range_from range_start handoffs))))
     in Inr (due_page_from_scan visited scan_limit at_ms))"

definition hh_apply_as ::
  "handoff_env \<Rightarrow> handoff_store \<Rightarrow> string \<Rightarrow> u64 \<Rightarrow> handoff_command \<Rightarrow> u64 \<Rightarrow> authority_context \<Rightarrow>
   (handoff_store \<times> handoff_command_result) result" where
  "hh_apply_as env handoffs handoff_id expected_revision command applied_at_ms authority =
     and_then (hh_validate_access handoff_id authority) (\<lambda>_.
     and_then (hh_validate_expected_revision expected_revision) (\<lambda>_.
     let key = store_key handoff_id (tenant_id authority) in
     and_then (ok_or (missing_handoff handoff_id) (bm_get handoffs key)) (\<lambda>current.
     and_then (handoff_recognizes_command env (hsn_handoff current) command (actor authority)) (\<lambda>known.
     if known then Inr (handoffs, \<lparr>hcr_snapshot = current, hcr_outcome = HDuplicate\<rparr>)
     else if hsn_revision current \<noteq> expected_revision
     then Inl (HumanHandoffConflict handoff_id expected_revision (hsn_revision current))
     else
     and_then (handoff_apply env (hsn_handoff current) command applied_at_ms authority) (\<lambda>(handoff, outcome).
     and_then (ok_or (HumanHandoff (H_store Revision_overflow)) (checked_add (hsn_revision current) 1)) (\<lambda>revision.
     let saved = \<lparr>hsn_id = hsn_id current, hsn_tenant_id = hsn_tenant_id current,
           hsn_revision = revision, hsn_handoff = handoff\<rparr>
     in Inr (bm_insert key saved handoffs, \<lparr>hcr_snapshot = saved, hcr_outcome = outcome\<rparr>)))))))"

text \<open>The unscoped operations of the trait.\<close>

definition hh_create ::
  "handoff_env \<Rightarrow> handoff_store \<Rightarrow> string \<Rightarrow> handoff_create_request \<Rightarrow> u64 \<Rightarrow>
   (handoff_store \<times> handoff_snapshot) result" where
  "hh_create env handoffs handoff_id request applied_at_ms =
     hh_create_as env handoffs handoff_id request applied_at_ms local_process"

definition hh_load :: "handoff_store \<Rightarrow> string \<Rightarrow> handoff_snapshot option result" where
  "hh_load handoffs handoff_id = hh_load_as handoffs handoff_id local_process"

definition list_queued ::
  "handoff_store \<Rightarrow> string \<Rightarrow> handoff_cursor option \<Rightarrow> usize \<Rightarrow> handoff_page result" where
  "list_queued handoffs queue after limit = list_queued_as handoffs queue after limit local_process"

definition hh_scan_due ::
  "handoff_store \<Rightarrow> u64 \<Rightarrow> string option \<Rightarrow> usize \<Rightarrow> handoff_due_scan_page result" where
  "hh_scan_due handoffs at_ms after_handoff_id scan_limit =
     hh_scan_due_as handoffs at_ms after_handoff_id scan_limit local_process"

definition hh_apply ::
  "handoff_env \<Rightarrow> handoff_store \<Rightarrow> string \<Rightarrow> u64 \<Rightarrow> handoff_command \<Rightarrow> u64 \<Rightarrow>
   (handoff_store \<times> handoff_command_result) result" where
  "hh_apply env handoffs handoff_id expected_revision command applied_at_ms =
     hh_apply_as env handoffs handoff_id expected_revision command applied_at_ms local_process"

section \<open>The engine\<close>

text \<open>\<open>subject_exists\<close> is the resolver: an error, or whether the subject exists for the authority.\<close>

definition he_create_as ::
  "(handoff_subject \<Rightarrow> authority_context \<Rightarrow> bool result) \<Rightarrow> handoff_env \<Rightarrow> handoff_store \<Rightarrow> string \<Rightarrow>
   handoff_create_request \<Rightarrow> u64 \<Rightarrow> authority_context \<Rightarrow> (handoff_store \<times> handoff_snapshot) result" where
  "he_create_as subject_exists env handoffs handoff_id request applied_at_ms authority =
     and_then (subject_exists (hq_subject request) authority) (\<lambda>found.
     if \<not> found then Inl (HumanHandoff (H_store Subject_missing))
     else hh_create_as env handoffs handoff_id request applied_at_ms authority)"

definition he_load_as :: "handoff_store \<Rightarrow> string \<Rightarrow> authority_context \<Rightarrow> handoff_snapshot option result" where
  "he_load_as handoffs handoff_id authority = hh_load_as handoffs handoff_id authority"

definition he_list_queued_as ::
  "handoff_store \<Rightarrow> string \<Rightarrow> handoff_cursor option \<Rightarrow> usize \<Rightarrow> authority_context \<Rightarrow> handoff_page result" where
  "he_list_queued_as handoffs queue after limit authority = list_queued_as handoffs queue after limit authority"

definition he_scan_due_as ::
  "handoff_store \<Rightarrow> u64 \<Rightarrow> string option \<Rightarrow> usize \<Rightarrow> authority_context \<Rightarrow> handoff_due_scan_page result" where
  "he_scan_due_as handoffs at_ms after_handoff_id scan_limit authority =
     hh_scan_due_as handoffs at_ms after_handoff_id scan_limit authority"

definition he_apply_as ::
  "handoff_env \<Rightarrow> handoff_store \<Rightarrow> string \<Rightarrow> u64 \<Rightarrow> handoff_command \<Rightarrow> u64 \<Rightarrow> authority_context \<Rightarrow>
   (handoff_store \<times> handoff_command_result) result" where
  "he_apply_as env handoffs handoff_id expected_revision command applied_at_ms authority =
     hh_apply_as env handoffs handoff_id expected_revision command applied_at_ms authority"

definition he_create ::
  "(handoff_subject \<Rightarrow> authority_context \<Rightarrow> bool result) \<Rightarrow> handoff_env \<Rightarrow> handoff_store \<Rightarrow> string \<Rightarrow>
   handoff_create_request \<Rightarrow> u64 \<Rightarrow> (handoff_store \<times> handoff_snapshot) result" where
  "he_create subject_exists env handoffs handoff_id request applied_at_ms =
     he_create_as subject_exists env handoffs handoff_id request applied_at_ms local_process"

definition he_apply ::
  "handoff_env \<Rightarrow> handoff_store \<Rightarrow> string \<Rightarrow> u64 \<Rightarrow> handoff_command \<Rightarrow> u64 \<Rightarrow>
   (handoff_store \<times> handoff_command_result) result" where
  "he_apply env handoffs handoff_id expected_revision command applied_at_ms =
     he_apply_as env handoffs handoff_id expected_revision command applied_at_ms local_process"

inductive handoff_store_step :: "handoff_env \<Rightarrow> handoff_store \<Rightarrow> handoff_store \<Rightarrow> bool" for env where
  case_created: "hh_create_as env handoffs handoff_id request now authority = Inr (handoffs', snapshot) \<Longrightarrow>
    handoff_store_step env handoffs handoffs'"
| case_applied: "hh_apply_as env handoffs handoff_id revision command now authority = Inr (handoffs', res) \<Longrightarrow>
    handoff_store_step env handoffs handoffs'"

definition handoff_commits ::
  "handoff_env \<Rightarrow> handoff_store \<Rightarrow> storage_key \<Rightarrow> u64 \<Rightarrow> handoff_store \<Rightarrow> bool" where
  "handoff_commits env handoffs key revision handoffs' \<longleftrightarrow>
     (\<exists>handoff_id command now authority res.
        hh_apply_as env handoffs handoff_id revision command now authority = Inr (handoffs', res) \<and>
        hcr_outcome res = HApplied \<and> key = store_key handoff_id (tenant_id authority))"

section \<open>What the operations do\<close>

lemma hh_validate_access_ok [ok_iff]:
  "hh_validate_access handoff_id authority = Inr u \<longleftrightarrow>
     valid_authority authority \<and> hh_validate_identity handoff_id = Inr ()"
  by (auto simp: hh_validate_access_def ok_iff)

lemma hh_create_as_ok:
  "hh_create_as env handoffs handoff_id request now authority = Inr (handoffs', snap) \<longleftrightarrow>
     valid_authority authority \<and> hh_validate_identity handoff_id = Inr () \<and>
     (bm_get handoffs (store_key handoff_id (tenant_id authority)) = Some snap \<and> handoffs' = handoffs \<and>
        handoff_create_matches env (hsn_handoff snap) request (actor authority) = Inr True
      \<or> bm_get handoffs (store_key handoff_id (tenant_id authority)) = None \<and>
        (\<exists>h. handoff_new env request now authority = Inr h \<and>
          snap = \<lparr>hsn_id = handoff_id, hsn_tenant_id = tenant_id authority, hsn_revision = 1, hsn_handoff = h\<rparr> \<and>
          handoffs' = bm_insert (store_key handoff_id (tenant_id authority)) snap handoffs))"
  by (auto simp: hh_create_as_def ok_iff Let_def split: option.splits if_splits)

lemma handoff_apply_new:
  "handoff_apply env h command now authority = Inr (h', outcome) \<Longrightarrow>
   handoff_recognizes_command env h command (actor authority) = Inr False \<Longrightarrow> outcome = HApplied"
  by (cases outcome) (simp_all add: handoff_apply_Duplicate)

lemma handoff_snapshot_written [simp]:
  "\<lparr>hsn_id = hsn_id x, hsn_tenant_id = hsn_tenant_id x, hsn_revision = r, hsn_handoff = h\<rparr>
   = x\<lparr>hsn_revision := r, hsn_handoff := h\<rparr>"
  by simp

lemma hh_apply_as_okE:
  assumes "hh_apply_as env handoffs handoff_id r command now authority = Inr (handoffs', res)"
  obtains
    (known) current where "valid_authority authority" "hh_validate_identity handoff_id = Inr ()"
      "bm_get handoffs (store_key handoff_id (tenant_id authority)) = Some current"
      "handoff_recognizes_command env (hsn_handoff current) command (actor authority) = Inr True"
      "handoffs' = handoffs" "res = \<lparr>hcr_snapshot = current, hcr_outcome = HDuplicate\<rparr>"
  | (written) current h revision where "valid_authority authority" "hh_validate_identity handoff_id = Inr ()"
      "bm_get handoffs (store_key handoff_id (tenant_id authority)) = Some current"
      "handoff_recognizes_command env (hsn_handoff current) command (actor authority) = Inr False"
      "hsn_revision current = r"
      "handoff_apply env (hsn_handoff current) command now authority = Inr (h, HApplied)"
      "unat revision = Suc (unat r)"
      "handoffs' = bm_insert (store_key handoff_id (tenant_id authority))
        (current\<lparr>hsn_revision := revision, hsn_handoff := h\<rparr>) handoffs"
      "res = \<lparr>hcr_snapshot = current\<lparr>hsn_revision := revision, hsn_handoff := h\<rparr>, hcr_outcome = HApplied\<rparr>"
proof -
  from assms obtain current is_known where common: "valid_authority authority"
      "hh_validate_identity handoff_id = Inr ()"
      "bm_get handoffs (store_key handoff_id (tenant_id authority)) = Some current"
      "handoff_recognizes_command env (hsn_handoff current) command (actor authority) = Inr is_known"
    by (auto simp: hh_apply_as_def ok_iff Let_def)
  show thesis
  proof (cases is_known)
    case True
    with assms common show ?thesis by (intro known) (auto simp: hh_apply_as_def ok_iff Let_def)
  next
    case False
    with assms common obtain h outcome revision where
      app: "handoff_apply env (hsn_handoff current) command now authority = Inr (h, outcome)"
      and rest: "hsn_revision current = r" "unat revision = Suc (unat r)"
        "handoffs' = bm_insert (store_key handoff_id (tenant_id authority))
          (current\<lparr>hsn_revision := revision, hsn_handoff := h\<rparr>) handoffs"
        "res = \<lparr>hcr_snapshot = current\<lparr>hsn_revision := revision, hsn_handoff := h\<rparr>, hcr_outcome = outcome\<rparr>"
      by (auto simp: hh_apply_as_def ok_iff Let_def split: if_splits)
    have "outcome = HApplied" using app common False by (auto intro: handoff_apply_new)
    with app rest common False show ?thesis by (intro written [of current h revision]) simp_all
  qed
qed

lemma handoff_new_transitions:
  "handoff_new env request now authority = Inr h \<Longrightarrow> length (hh_transitions h) = 1"
  by (auto simp: handoff_new_def ok_iff Let_def)

lemma handoff_step_entry:
  assumes "handoff_store_step env handoffs handoffs'"
  obtains (same) "bm_get handoffs' k = bm_get handoffs k"
  | (born) handoff_id authority request now h where "k = store_key handoff_id (tenant_id authority)"
      "valid_authority authority" "hh_validate_identity handoff_id = Inr ()"
      "bm_get handoffs k = None" "handoff_new env request now authority = Inr h"
      "bm_get handoffs' k = Some \<lparr>hsn_id = handoff_id, hsn_tenant_id = tenant_id authority,
        hsn_revision = 1, hsn_handoff = h\<rparr>"
  | (grown) current command now authority h revision where "bm_get handoffs k = Some current"
      "handoff_apply env (hsn_handoff current) command now authority = Inr (h, HApplied)"
      "unat revision = Suc (unat (hsn_revision current))"
      "bm_get handoffs' k = Some (current\<lparr>hsn_revision := revision, hsn_handoff := h\<rparr>)"
  using assms
proof cases
  case (case_created handoff_id request now authority snapshot)
  then show ?thesis
    using same born [of handoff_id authority]
    by (cases "k = store_key handoff_id (tenant_id authority)") (auto simp: hh_create_as_ok bm_get_insert)
next
  case (case_applied handoff_id r command now authority res)
  then show ?thesis
  proof (cases rule: hh_apply_as_okE)
    case known
    with same show ?thesis by simp
  next
    case (written current h revision)
    with same grown [of current command now authority h revision] show ?thesis
      by (cases "k = store_key handoff_id (tenant_id authority)") (simp_all add: bm_get_insert)
  qed
qed

lemma handoff_applied_appends:
  "handoff_apply env h command now authority = Inr (h', HApplied) \<Longrightarrow>
   length (hh_transitions h') = Suc (length (hh_transitions h))"
  by (auto elim: handoff_apply_AppliedE)

definition handoff_born :: "handoff_env \<Rightarrow> storage_key \<Rightarrow> handoff_snapshot \<Rightarrow> bool" where
  "handoff_born env k s \<longleftrightarrow> (\<exists>handoff_id authority request now.
     k = store_key handoff_id (tenant_id authority) \<and> valid_authority authority \<and>
     hh_validate_identity handoff_id = Inr () \<and> handoff_new env request now authority = Inr (hsn_handoff s) \<and>
     hsn_id s = handoff_id \<and> hsn_tenant_id s = tenant_id authority \<and> hsn_revision s = 1)"

definition handoff_grows :: "handoff_env \<Rightarrow> handoff_snapshot \<Rightarrow> handoff_snapshot \<Rightarrow> bool" where
  "handoff_grows env s s' \<longleftrightarrow> (\<exists>command now authority h revision.
     handoff_apply env (hsn_handoff s) command now authority = Inr (h, HApplied) \<and>
     unat revision = Suc (unat (hsn_revision s)) \<and> s' = s\<lparr>hsn_revision := revision, hsn_handoff := h\<rparr>)"

lemma handoff_growsI:
  "handoff_apply env (hsn_handoff s) command now authority = Inr (h, HApplied) \<Longrightarrow> unat revision = Suc (unat (hsn_revision s)) \<Longrightarrow>
   handoff_grows env s (s\<lparr>hsn_revision := revision, hsn_handoff := h\<rparr>)"
  unfolding handoff_grows_def by blast

interpretation hstore: journal_store bm_get hsn_revision "handoff_store_step env" "handoff_commits env"
  "\<lambda>s. length (hh_transitions (hsn_handoff s))" "[]" "handoff_born env" "handoff_grows env" for env
proof
  show "bm_get [] k = None" for k by (simp add: bm_get_def)
  show "bm_get s' k = bm_get s k \<or> (\<exists>a'. bm_get s k = None \<and> bm_get s' k = Some a' \<and> handoff_born env k a') \<or>
      (\<exists>a a'. bm_get s k = Some a \<and> bm_get s' k = Some a' \<and> handoff_grows env a a')"
    if "handoff_store_step env s s'" for s s' k
    using that by (cases rule: handoff_step_entry [of _ _ _ k])
      (auto simp: handoff_born_def intro: handoff_growsI)
  show "hsn_revision a = 1 \<and> length (hh_transitions (hsn_handoff a)) = 1" if "handoff_born env k a" for k a
    using that by (auto simp: handoff_born_def dest: handoff_new_transitions)
  show "unat (hsn_revision a') = Suc (unat (hsn_revision a)) \<and>
      length (hh_transitions (hsn_handoff a')) = Suc (length (hh_transitions (hsn_handoff a)))"
    if "handoff_grows env a a'" for a a'
    using that by (auto simp: handoff_grows_def dest: handoff_applied_appends)
  show "handoff_store_step env s s'" if "handoff_commits env s k r s'" for s k r s'
    using that by (auto simp: handoff_commits_def intro: case_applied)
  show "\<exists>a a'. bm_get s k = Some a \<and> hsn_revision a = r \<and>
      bm_get s' k = Some a' \<and> handoff_grows env a a'" if "handoff_commits env s k r s'" for s k r s'
    using that unfolding handoff_commits_def
    by (auto simp: bm_get_insert intro: handoff_growsI elim!: hh_apply_as_okE)
qed

definition handoff_entry_ok :: "handoff_env \<Rightarrow> storage_key \<Rightarrow> handoff_snapshot \<Rightarrow> bool" where
  "handoff_entry_ok env k s \<longleftrightarrow>
     k = store_key (hsn_id s) (hsn_tenant_id s) \<and> valid_tenant (hsn_tenant_id s) \<and>
     hh_validate_identity (hsn_id s) = Inr () \<and> handoff_inv env (hsn_handoff s) \<and>
     unat (hsn_revision s) = length (hh_transitions (hsn_handoff s))"

lemma handoff_store_entries:
  assumes "(handoff_store_step env)\<^sup>*\<^sup>* [] handoffs" and "bm_get handoffs k = Some s"
  shows "handoff_entry_ok env k s"
  using assms
proof (rule hstore.entry_invariant)
  show "handoff_entry_ok env k s" if "handoff_born env k s" for s
    using that hstore.born_first [OF that]
    by (auto simp: handoff_born_def handoff_entry_ok_def valid_authority_def intro: handoff_new_inv)
  show "handoff_entry_ok env k s'" if "handoff_entry_ok env k s" "handoff_grows env s s'" for s s'
    using that hstore.grows_next [OF that(2)] handoff_apply_inv
    by (fastforce simp: handoff_grows_def handoff_entry_ok_def)
qed

lemma handoff_store_wf: "(handoff_store_step env)\<^sup>*\<^sup>* [] handoffs \<Longrightarrow> bm_wf handoffs"
proof (induction rule: rtranclp_induct)
  case base
  then show ?case by (rule bm.invar_empty)
next
  case (step t u)
  from step.hyps(2) step.IH show ?case
    by cases (auto simp: hh_create_as_ok bm_wf_insert elim!: hh_apply_as_okE)
qed

lemma handoff_recognizes_prefix:
  assumes "handoff_recognizes_command env h command a = Inr True"
    and "hh_transitions h' = hh_transitions h @ ts"
  shows "handoff_recognizes_command env h' command a = Inr True"
  using assms find_append_Some [of _ "hh_transitions h"]
  by (auto simp: handoff_recognizes_command_def ok_iff split: option.splits if_splits)

lemma handoff_apply_extends:
  "handoff_apply env h command now authority = Inr (h', HApplied) \<Longrightarrow>
   \<exists>ts. hh_transitions h' = hh_transitions h @ ts"
  by (auto elim: handoff_apply_AppliedE)

lemma handoff_steps_extend:
  assumes "(handoff_store_step env)\<^sup>*\<^sup>* handoffs handoffs'" and "bm_get handoffs k = Some s"
  shows "\<exists>s'. bm_get handoffs' k = Some s' \<and> hsn_revision s \<le> hsn_revision s' \<and>
    (\<exists>ts. hh_transitions (hsn_handoff s') = hh_transitions (hsn_handoff s) @ ts)"
  using assms
proof (rule hstore.entry_evolves)
  show "hsn_revision s \<le> hsn_revision c \<and> (\<exists>ts. hh_transitions (hsn_handoff c) = hh_transitions (hsn_handoff s) @ ts)"
    if "hsn_revision s \<le> hsn_revision b \<and> (\<exists>ts. hh_transitions (hsn_handoff b) = hh_transitions (hsn_handoff s) @ ts)"
      "handoff_grows env b c" for b c
    using that handoff_apply_extends by (fastforce simp: handoff_grows_def word_le_nat_alt)
qed simp

lemma handoff_committed_is_recognized:
  assumes "hh_apply_as env handoffs handoff_id r command now authority = Inr (handoffs', res)"
  shows "bm_get handoffs' (store_key handoff_id (tenant_id authority)) = Some (hcr_snapshot res) \<and>
    handoff_recognizes_command env (hsn_handoff (hcr_snapshot res)) command (actor authority) = Inr True"
  using assms
proof (cases rule: hh_apply_as_okE)
  case known
  then show ?thesis by simp
next
  case (written current h revision)
  from written(6) obtain t where
    "hh_transitions h = hh_transitions (hsn_handoff current) @ [t]" "ht_command_id t = hcmd_id command"
    "attributed_digest (he_sha256 env) (he_attributed env) (actor authority) command = Inr (ht_command_sha256 t)"
    by (rule handoff_apply_AppliedE)
  from handoff_recognizes_committed [OF written(4) this(3,1,2)] written(8,9) show ?thesis
    by (simp add: bm_get_insert)
qed

section \<open>The queue\<close>

text \<open>The cases of a queue that wait behind a cursor, in the order they are to be taken.\<close>

definition waiting_cases ::
  "handoff_store \<Rightarrow> string option \<Rightarrow> string \<Rightarrow> handoff_cursor option \<Rightarrow> handoff_snapshot list" where
  "waiting_cases handoffs tenant queue after = sort_key queue_key
     (filter (\<lambda>s. hsn_tenant_id s = tenant \<and> hh_queue (hsn_handoff s) = queue \<and>
        hh_status (hsn_handoff s) = HsQueued \<and> is_none_or after (comes_after s)) (bm_values handoffs))"

lemma comes_after_iff: "comes_after s (cursor_of l) \<longleftrightarrow> queue_key l < queue_key s"
proof -
  have "p < q \<longleftrightarrow> uint p < uint q" "p = q \<longleftrightarrow> uint p = uint q" for p q :: "8 word"
    by (simp_all add: word_less_def word_uint_eq_iff)
  then show ?thesis
    unfolding comes_after_def cursor_of_def queue_key_def handoff_cursor.select_convs
    by (auto simp: le_less)
qed

lemma handoff_values_entry:
  assumes "(handoff_store_step env)\<^sup>*\<^sup>* [] handoffs" and "s \<in> set (bm_values handoffs)"
  shows "handoff_entry_ok env (store_key (hsn_id s) (hsn_tenant_id s)) s"
    and "bm_get handoffs (store_key (hsn_id s) (hsn_tenant_id s)) = Some s"
proof -
  from assms obtain k where k: "bm_get handoffs k = Some s"
    using bm_value_get [OF handoff_store_wf [OF assms(1)]] by blast
  from handoff_store_entries [OF assms(1) k] have "handoff_entry_ok env k s" "k = store_key (hsn_id s) (hsn_tenant_id s)"
    by (simp_all add: handoff_entry_ok_def)
  with k show "handoff_entry_ok env (store_key (hsn_id s) (hsn_tenant_id s)) s"
    "bm_get handoffs (store_key (hsn_id s) (hsn_tenant_id s)) = Some s" by simp_all
qed

lemma bm_values_distinct:
  assumes "bm_wf m" and "\<And>k l v. bm_get m k = Some v \<Longrightarrow> bm_get m l = Some v \<Longrightarrow> k = l"
  shows "distinct (bm_values m)"
  unfolding bm_values_def distinct_map
proof
  show "distinct m" using bm.distinct_keys [OF assms(1)] distinct_map by blast
  show "inj_on snd (set m)"
    using assms(2) bm.get_Some_iff [OF assms(1)] by (auto intro!: inj_onI)
qed

lemma waiting_cases_sorted:
  assumes reach: "(handoff_store_step env)\<^sup>*\<^sup>* [] handoffs"
  shows "sorted_wrt (\<lambda>x y. queue_key x < queue_key y) (waiting_cases handoffs tenant queue after)"
proof -
  let ?xs = "filter (\<lambda>s. hsn_tenant_id s = tenant \<and> hh_queue (hsn_handoff s) = queue \<and>
        hh_status (hsn_handoff s) = HsQueued \<and> is_none_or after (comes_after s)) (bm_values handoffs)"
  have "distinct (bm_values handoffs)"
    using handoff_store_wf [OF reach]
    by (rule bm_values_distinct) (metis handoff_store_entries [OF reach] handoff_entry_ok_def)
  moreover have "inj_on queue_key (set ?xs)"
  proof (rule inj_onI)
    fix x y assume mem: "x \<in> set ?xs" "y \<in> set ?xs" and key: "queue_key x = queue_key y"
    have x: "x \<in> set (bm_values handoffs)" and y: "y \<in> set (bm_values handoffs)"
      and tenants: "hsn_tenant_id x = hsn_tenant_id y"
      using mem by simp_all
    have same: "store_key (hsn_id x) (hsn_tenant_id x) = store_key (hsn_id y) (hsn_tenant_id y)"
      unfolding tenants using key by (simp add: queue_key_def)
    show "x = y"
      using handoff_values_entry(2) [OF reach x] handoff_values_entry(2) [OF reach y]
      unfolding same option.inject by (metis option.inject)
  qed
  ultimately have "distinct (map queue_key (sort_key queue_key ?xs))" by (simp add: distinct_map)
  then have "sorted_wrt (<) (map queue_key (sort_key queue_key ?xs))" by (simp add: strict_sorted_iff)
  then show ?thesis by (simp add: waiting_cases_def sorted_wrt_map)
qed

lemma waiting_cases_resume:
  assumes reach: "(handoff_store_step env)\<^sup>*\<^sup>* [] handoffs" and n: "0 < n"
    and ne: "waiting_cases handoffs tenant queue after \<noteq> []"
    and lst: "l = last (take n (waiting_cases handoffs tenant queue after))"
  shows "waiting_cases handoffs tenant queue (Some (cursor_of l)) =
    drop n (waiting_cases handoffs tenant queue after)"
proof -
  let ?w = "waiting_cases handoffs tenant queue after"
  have "l \<in> set ?w" unfolding lst using n ne by (intro in_set_takeD [OF last_in_set]) simp
  then have l: "is_none_or after (comes_after l)" by (simp add: waiting_cases_def)
  have mono: "is_none_or after (comes_after s)" if "comes_after s (cursor_of l)" for s
    using l that
    by (cases after) (auto simp: comes_after_def cursor_of_def)
  have "waiting_cases handoffs tenant queue (Some (cursor_of l)) = filter (\<lambda>s. comes_after s (cursor_of l)) ?w"
    unfolding waiting_cases_def filter_sort filter_filter
    by (intro arg_cong [where f = "sort_key queue_key"] filter_cong refl) (auto dest: mono)
  also have "\<dots> = drop n ?w"
    unfolding comes_after_iff lst
    by (rule page_cut [where R = "\<lambda>x y. queue_key x < queue_key y"])
      (use waiting_cases_sorted [OF reach] n ne in auto)
  finally show ?thesis .
qed

lemma list_queued_as_eq:
  assumes reach: "(handoff_store_step env)\<^sup>*\<^sup>* [] handoffs"
  shows "list_queued_as handoffs queue after limit authority =
    and_then (hh_validate_list queue after limit authority) (\<lambda>_.
      Inr (page_from_candidates (waiting_cases handoffs (tenant_id authority) queue after) limit))"
proof (cases "hh_validate_list queue after limit authority")
  case (Inr u)
  then have "valid_tenant (tenant_id authority)"
    by (auto simp: hh_validate_list_def ok_iff valid_authority_def)
  then have "tenant_storage_key (hsn_tenant_id s) = tenant_storage_key (tenant_id authority) \<longleftrightarrow>
      hsn_tenant_id s = tenant_id authority" if "s \<in> set (bm_values handoffs)" for s
    using handoff_values_entry(1) [OF reach that] tenant_storage_key_inj
    by (auto simp: handoff_entry_ok_def)
  then show ?thesis
    unfolding list_queued_as_def Inr and_then_simps Let_def waiting_cases_def
    by (intro arg_cong [where f = Inr] arg_cong2 [where f = page_from_candidates]
        arg_cong [where f = "sort_key queue_key"] filter_cong) auto
qed (simp add: list_queued_as_def)
lemma handoff_revision_bounds:
  assumes "(handoff_store_step env)\<^sup>*\<^sup>* [] handoffs" and "bm_get handoffs k = Some s"
  shows "0 < unat (hsn_revision s)" and "unat (hsn_revision s) \<le> 4098"
  using handoff_store_entries [OF assms]
  by (simp_all add: handoff_entry_ok_def handoff_inv_def handoff_validate_ok handoff_limits)

lemma hh_validate_due_scan_ok:
  "hh_validate_due_scan at_ms after limit authority = Inr u \<longleftrightarrow>
     valid_authority authority \<and> at_ms \<noteq> 0 \<and> 0 < limit \<and> limit \<le> MAX_HANDOFF_PAGE \<and>
     (case after of None \<Rightarrow> True | Some i \<Rightarrow> hh_validate_identity i = Inr ())"
  by (auto simp: hh_validate_due_scan_def ok_iff hh_validate_application_time_def split: option.splits)

lemma hh_scan_due_as_eq:
  assumes "bm_wf handoffs"
  shows "hh_scan_due_as handoffs at_ms after limit authority =
    and_then (hh_validate_due_scan at_ms after limit authority) (\<lambda>_.
      Inr (due_page_from_scan (map snd (tenant_after (tenant_storage_key (tenant_id authority)) after handoffs))
        limit at_ms))"
proof (cases "hh_validate_due_scan at_ms after limit authority")
  case (Inr u)
  then have "limit < 2 ^ 64 - 1" by (simp add: hh_validate_due_scan_ok MAX_HANDOFF_PAGE_def)
  then show ?thesis
    unfolding hh_scan_due_as_def Inr Let_def range_scan [OF assms] due_page_from_scan_def
      saturating_Suc [OF \<open>limit < 2 ^ 64 - 1\<close>] take_map [symmetric] fetch_one_more
    by simp
qed (simp add: hh_scan_due_as_def)

section \<open>A concrete store\<close>

definition demo_case :: "u64 \<Rightarrow> human_handoff \<Rightarrow> handoff_snapshot" where
  "demo_case n h = \<lparr>hsn_id = ''h'', hsn_tenant_id = None, hsn_revision = n, hsn_handoff = h\<rparr>"

definition demo_cases :: "u64 \<Rightarrow> human_handoff \<Rightarrow> handoff_store" where
  "demo_cases n h = [(([], ''h''), demo_case n h)]"

lemmas handoff_store_eval = hh_create_as_def hh_apply_as_def hh_validate_access_def store_key_def
  tenant_storage_key_def hh_validate_expected_revision_def bm_get_def Let_def demo_cases_def demo_case_def

lemma demo_case_id [simp]: "hh_validate_identity ''h'' = Inr ()"
  by (simp add: hh_validate_identity_def string_eval MAX_HANDOFF_IDENTITY_BYTES_def)

lemma demo_case_created:
  "hh_create_as demo_handoff_env [] ''h'' demo_create 5 local_process =
     Inr (demo_cases 1 demo_queued, demo_case 1 demo_queued)"
  by (simp add: handoff_store_eval demo_handoff_new)

lemma demo_claim_new: "handoff_recognizes_command demo_handoff_env demo_queued demo_claim LocalProcess = Inr False"
  using demo_claim_applied by (auto elim: handoff_apply_AppliedE)

lemma demo_case_claimed:
  "hh_apply_as demo_handoff_env (demo_cases 1 demo_queued) ''h'' 1 demo_claim 6 local_process =
     Inr (demo_cases 2 demo_claimed, \<lparr>hcr_snapshot = demo_case 2 demo_claimed, hcr_outcome = HApplied\<rparr>)"
  by (simp add: handoff_store_eval demo_claim_new demo_claim_applied checked_add_def)

lemma demo_cases_reachable:
  "(handoff_store_step demo_handoff_env)\<^sup>*\<^sup>* [] (demo_cases 1 demo_queued)"
  "(handoff_store_step demo_handoff_env)\<^sup>*\<^sup>* [] (demo_cases 2 demo_claimed)"
proof -
  show one: "(handoff_store_step demo_handoff_env)\<^sup>*\<^sup>* [] (demo_cases 1 demo_queued)"
    using demo_case_created by (intro r_into_rtranclp case_created)
  show "(handoff_store_step demo_handoff_env)\<^sup>*\<^sup>* [] (demo_cases 2 demo_claimed)"
    using one by (rule rtranclp.rtrancl_into_rtrancl) (rule case_applied [OF demo_case_claimed])
qed

section \<open>Properties\<close>

text \<open>
  The work queue. A page lists the first \<open>limit\<close> queued cases of the caller's tenant and queue
  behind the cursor, the most urgent first, within a priority the longest waiting first, and
  nothing else; the order is strict, so it is the same for every caller. Its cursor resumes
  exactly behind the last listed case: chained pages skip nothing and repeat nothing.
\<close>

theorem handoff_queue_exact:
  assumes reach: "(handoff_store_step env)\<^sup>*\<^sup>* [] handoffs"
    and page: "list_queued_as handoffs queue after limit authority = Inr page"
  defines "waiting \<equiv> waiting_cases handoffs (tenant_id authority) queue after"
  shows "(hpg_handoffs page = take limit waiting) \<and>
    (hpg_has_more page \<longleftrightarrow> limit < length waiting) \<and>
    (sorted_wrt (\<lambda>x y. queue_key x < queue_key y) waiting) \<and>
    (s \<in> set waiting \<longleftrightarrow> bm_get handoffs (store_key (hsn_id s) (hsn_tenant_id s)) = Some s \<and>
      hsn_tenant_id s = tenant_id authority \<and> hh_queue (hsn_handoff s) = queue \<and>
      hh_status (hsn_handoff s) = HsQueued \<and> is_none_or after (comes_after s)) \<and>
    (hpg_has_more page \<longrightarrow> (\<exists>cursor. hpg_next_cursor page = Some cursor \<and>
      waiting_cases handoffs (tenant_id authority) queue (Some cursor) = drop limit waiting))"
proof (rule conjI [OF _ conjI [OF _ conjI [OF _ conjI]]]; (intro impI)?)
  from page have limit: "0 < limit" and eq: "page = page_from_candidates waiting limit"
    by (auto simp: list_queued_as_eq [OF reach] ok_iff hh_validate_list_def waiting_def)
  show "hpg_handoffs page = take limit waiting" "hpg_has_more page \<longleftrightarrow> limit < length waiting"
    by (simp_all add: eq page_from_candidates_def Let_def)
  show "sorted_wrt (\<lambda>x y. queue_key x < queue_key y) waiting"
    unfolding waiting_def by (rule waiting_cases_sorted [OF reach])
  show "s \<in> set waiting \<longleftrightarrow> bm_get handoffs (store_key (hsn_id s) (hsn_tenant_id s)) = Some s \<and>
      hsn_tenant_id s = tenant_id authority \<and> hh_queue (hsn_handoff s) = queue \<and>
      hh_status (hsn_handoff s) = HsQueued \<and> is_none_or after (comes_after s)"
    using handoff_values_entry(2) [OF reach, of s]
      bm_get_value [of handoffs "store_key (hsn_id s) (hsn_tenant_id s)" s]
    by (auto simp: waiting_def waiting_cases_def)
  show "\<exists>cursor. hpg_next_cursor page = Some cursor \<and>
      waiting_cases handoffs (tenant_id authority) queue (Some cursor) = drop limit waiting"
    if "hpg_has_more page"
  proof -
    from that limit have ne: "waiting \<noteq> []" by (auto simp: eq page_from_candidates_def Let_def)
    then have "hpg_next_cursor page = Some (cursor_of (last (take limit waiting)))"
      using limit by (simp add: eq page_from_candidates_def Let_def)
    with waiting_cases_resume [OF reach limit ne [unfolded waiting_def] refl] show ?thesis
      unfolding waiting_def by blast
  qed
qed

theorem handoff_queue_exact_witness:
  "list_queued_as (demo_cases 1 demo_queued) ''queue'' None 2 local_process =
     Inr \<lparr>hpg_handoffs = [demo_case 1 demo_queued], hpg_next_cursor = Some (cursor_of (demo_case 1 demo_queued)),
       hpg_has_more = False\<rparr> \<and>
   [demo_case 1 demo_queued] = take 2 (waiting_cases (demo_cases 1 demo_queued) None ''queue'' None)"
proof -
  have list: "list_queued_as (demo_cases 1 demo_queued) ''queue'' None 2 local_process =
     Inr \<lparr>hpg_handoffs = [demo_case 1 demo_queued], hpg_next_cursor = Some (cursor_of (demo_case 1 demo_queued)),
       hpg_has_more = False\<rparr>"
    by (simp add: list_queued_as_def hh_validate_list_def hh_validate_application_time_def MAX_HANDOFF_PAGE_def
        page_from_candidates_def bm_values_def handoff_store_eval demo_handoff_defs validate_capability_name_def string_eval)
  from conjunct1 [OF handoff_queue_exact [OF demo_cases_reachable(1) list]] list show ?thesis by simp
qed

text \<open>
  The contract of the Handoff store under concurrency. After a command was applied with some
  observed revision, no other command sent with that revision is ever applied, so of two people
  who claim a case they both saw queued one loses; the same person may repeat the command after
  a lost reply and gets the current case reported as a duplicate; and the revision of
  every case is the number of its transitions, between 1 and 4,098.
\<close>

theorem handoff_store_contract:
  assumes reach: "(handoff_store_step env)\<^sup>*\<^sup>* [] handoffs"
    and first: "hh_apply_as env handoffs handoff_id r command now authority = Inr (handoffs1, res)"
      "hcr_outcome res = HApplied"
    and later: "(handoff_store_step env)\<^sup>*\<^sup>* handoffs1 handoffs2"
    and caller: "valid_authority authority'" "tenant_id authority' = tenant_id authority"
  shows "(hh_apply_as env handoffs2 handoff_id r command' now' authority' = Inr (handoffs3, res') \<longrightarrow>
      hcr_outcome res' = HDuplicate \<and> handoffs3 = handoffs2) \<and>
    (actor authority' = actor authority \<longrightarrow>
      (\<exists>current. hh_apply_as env handoffs2 handoff_id r command now' authority' =
        Inr (handoffs2, \<lparr>hcr_snapshot = current, hcr_outcome = HDuplicate\<rparr>) \<and>
        hsn_revision (hcr_snapshot res) \<le> hsn_revision current)) \<and>
    (bm_get handoffs2 k = Some s \<longrightarrow>
      unat (hsn_revision s) = length (hh_transitions (hsn_handoff s)) \<and> 0 < hsn_revision s \<and> hsn_revision s \<le> 4098)"
proof (rule conjI [OF _ conjI]; (intro impI)?)
  let ?k = "store_key handoff_id (tenant_id authority)"
  show "hcr_outcome res' = HDuplicate \<and> handoffs3 = handoffs2"
    if again: "hh_apply_as env handoffs2 handoff_id r command' now' authority' = Inr (handoffs3, res')"
  proof -
    have "handoff_commits env handoffs ?k r handoffs1" unfolding handoff_commits_def using first by blast
    from hstore.one_writer [OF this later] again caller(2) have "hcr_outcome res' \<noteq> HApplied"
      unfolding handoff_commits_def by metis
    with again show ?thesis by (auto elim!: hh_apply_as_okE)
  qed
  show "\<exists>current. hh_apply_as env handoffs2 handoff_id r command now' authority' =
        Inr (handoffs2, \<lparr>hcr_snapshot = current, hcr_outcome = HDuplicate\<rparr>) \<and>
        hsn_revision (hcr_snapshot res) \<le> hsn_revision current"
    if actor: "actor authority' = actor authority"
  proof -
    have guards: "hh_validate_identity handoff_id = Inr ()" "r \<noteq> 0"
      using first(1) by (auto simp: hh_apply_as_def ok_iff hh_validate_expected_revision_def)
    note committed = handoff_committed_is_recognized [OF first(1)]
    from handoff_steps_extend [OF later conjunct1 [OF committed]] obtain current ts where
      current: "bm_get handoffs2 ?k = Some current" "hsn_revision (hcr_snapshot res) \<le> hsn_revision current"
      and ts: "hh_transitions (hsn_handoff current) = hh_transitions (hsn_handoff (hcr_snapshot res)) @ ts"
      by blast
    from handoff_recognizes_prefix [OF conjunct2 [OF committed] ts] current guards actor caller(2)
      authority_validate_current_ok [THEN iffD2, OF caller(1)]
    have "hh_apply_as env handoffs2 handoff_id r command now' authority' =
        Inr (handoffs2, \<lparr>hcr_snapshot = current, hcr_outcome = HDuplicate\<rparr>)"
      by (simp add: hh_apply_as_def hh_validate_access_def hh_validate_expected_revision_def)
    with current(2) show ?thesis by blast
  qed
  have reach2: "(handoff_store_step env)\<^sup>*\<^sup>* [] handoffs2"
    using rtranclp_trans [OF rtranclp.rtrancl_into_rtrancl [where r = "handoff_store_step env", OF reach case_applied [OF first(1)]] later] .
  show "unat (hsn_revision s) = length (hh_transitions (hsn_handoff s)) \<and> 0 < hsn_revision s \<and> hsn_revision s \<le> 4098"
    if "bm_get handoffs2 k = Some s"
    using hstore.revision_counts [OF reach2 that] handoff_revision_bounds [OF reach2 that]
    by (simp add: word_less_nat_alt word_le_nat_alt)
qed

theorem handoff_store_contract_witness:
  "(\<exists>current. hh_apply_as demo_handoff_env (demo_cases 2 demo_claimed) ''h'' 1 demo_claim 9 local_process =
      Inr (demo_cases 2 demo_claimed, \<lparr>hcr_snapshot = current, hcr_outcome = HDuplicate\<rparr>) \<and>
      hsn_revision (demo_case 2 demo_claimed) \<le> hsn_revision current) \<and>
   unat (2 :: u64) = length (hh_transitions demo_claimed)"
proof -
  note contract = handoff_store_contract [OF demo_cases_reachable(1) demo_case_claimed _ rtranclp.rtrancl_refl
      valid_authority_local_process refl]
  have "bm_get (demo_cases 2 demo_claimed) ([], ''h'') = Some (demo_case 2 demo_claimed)"
    by (simp add: demo_cases_def bm_get_def)
  with contract show ?thesis by (fastforce simp: demo_case_def)
qed

end
