(* ===== verification/Effect.thy ===== *)
theory Effect
  imports Event_Log Leases
begin

text \<open>
  \<^verbatim>\<open>effect/mod.rs\<close>: the ledger of external side effects. An Effect is recorded before any worker
  may run it; a worker claims one numbered attempt under a finite lease; a lease that runs out
  makes the attempt Unknown, and only an explicit reconciliation leaves that state. The command
  digests bind the actor and the tenant.

  The JSON input is a value of \<open>json\<close>; serialisers and SHA-256 are parameters (\<open>effect_env\<close>).
\<close>

section \<open>Data\<close>

definition MAX_EFFECT_TRANSITIONS :: nat where "MAX_EFFECT_TRANSITIONS = 4096"
definition MAX_EFFECT_JSON_BYTES :: nat where "MAX_EFFECT_JSON_BYTES = 16777216"
definition MAX_EFFECT_COMMAND_JSON_BYTES :: nat where "MAX_EFFECT_COMMAND_JSON_BYTES = 131072"
definition MAX_EFFECT_INPUT_BYTES :: nat where "MAX_EFFECT_INPUT_BYTES = 131072"
definition MAX_EFFECT_IDENTITY_BYTES :: nat where "MAX_EFFECT_IDENTITY_BYTES = 256"
definition MIN_EFFECT_LEASE_MS :: u64 where "MIN_EFFECT_LEASE_MS = 1000"
definition MAX_EFFECT_LEASE_MS :: u64 where "MAX_EFFECT_LEASE_MS = 604800000"
definition MAX_EFFECT_ATTEMPTS :: u32 where "MAX_EFFECT_ATTEMPTS = 1000000"

record effect_operation =
  eo_capability :: string
  eo_operation :: string

record effect_create_request =
  eq_command_id :: string
  eq_operation :: effect_operation
  eq_idempotency_key :: string
  eq_input :: json
  eq_not_before_ms :: u64

record effect_receipt =
  er_source :: string
  er_external_id :: string
  er_observed_at_ms :: u64
  er_response_sha256 :: string

record effect_lease =
  el_id :: string
  el_owner :: actor_identity
  el_attempt :: u32
  el_claimed_at_ms :: u64
  el_expires_at_ms :: u64

datatype effect_status =
    EsPending u32 u64
  | EsClaimed effect_lease
  | EsUnknown u32 string string
  | EsApplied u32 effect_receipt
  | EsRejected u32 string
  | EsCancelled string

fun es_is_terminal :: "effect_status \<Rightarrow> bool" where
  "es_is_terminal (EsApplied _ _) = True"
| "es_is_terminal (EsRejected _ _) = True"
| "es_is_terminal (EsCancelled _) = True"
| "es_is_terminal _ = False"

datatype effect_command_kind =
    EcClaim string u64
  | EcRenewLease string u64
  | EcRecordApplied string effect_receipt
  | EcRecordNotApplied string string "u64 option"
  | EcRecordUnknown string string
  | EcExpireLease string
  | EcReconcileApplied string u32 effect_receipt
  | EcReconcileNotApplied string u32 string "u64 option"
  | EcCancel string

record effect_command =
  ec_id :: string
  ec_kind :: effect_command_kind

datatype effect_apply_outcome = EApplied | EDuplicate

datatype effect_transition_kind =
    EtCreated "string option" effect_operation string json string u64
  | EtClaimed string u32 u64
  | EtLeaseRenewed string u64 u64
  | EtApplied string u32 effect_receipt bool
  | EtNotApplied string u32 string "u64 option" bool
  | EtBecameUnknown string u32 string bool
  | EtCancelled string

record effect_transition =
  et_sequence :: u64
  et_command_id :: string
  et_command_sha256 :: string
  et_applied_at_ms :: u64
  et_actor :: actor_identity
  et_kind :: effect_transition_kind

record effect =
  ef_tenant_id :: "string option"
  ef_operation :: effect_operation
  ef_idempotency_key :: string
  ef_input :: json
  ef_input_sha256 :: string
  ef_created_at_ms :: u64
  ef_status :: effect_status
  ef_transitions :: "effect_transition list"
  ef_charge :: usize

record effect_wire =
  ew_tenant_id :: "string option"
  ew_operation :: effect_operation
  ew_idempotency_key :: string
  ew_input :: json
  ew_input_sha256 :: string
  ew_created_at_ms :: u64
  ew_status :: effect_status
  ew_transitions :: "effect_transition list"

definition effect_to_wire :: "effect \<Rightarrow> effect_wire" where
  "effect_to_wire e = \<lparr>ew_tenant_id = ef_tenant_id e, ew_operation = ef_operation e,
     ew_idempotency_key = ef_idempotency_key e, ew_input = ef_input e,
     ew_input_sha256 = ef_input_sha256 e, ew_created_at_ms = ef_created_at_ms e,
     ew_status = ef_status e, ew_transitions = ef_transitions e\<rparr>"

text \<open>A triple of actor, tenant and command is the source's \<open>AttributedCommand\<close>.\<close>

record effect_env =
  ee_create :: "(actor_identity \<times> string option \<times> effect_create_request) serializer"
  ee_attributed :: "(actor_identity \<times> string option \<times> effect_command) serializer"
  ee_command :: "effect_command serializer"
  ee_value :: "json serializer"
  ee_effect :: "effect_wire serializer"
  ee_sha256 :: "bytes \<Rightarrow> bytes"

section \<open>Field validators\<close>

definition ef_err :: "field_fault \<Rightarrow> harness_error" where
  "ef_err f = Effect (E_field f)"

fun ef_bounded_error :: "bounded_json_error \<Rightarrow> harness_error" where
  "ef_bounded_error LimitExceeded = ef_err Too_large"
| "ef_bounded_error CannotEncode = ef_err Cannot_encode"

definition ef_validate_identity :: "string \<Rightarrow> unit result" where
  "ef_validate_identity value =
     (if trim_is_empty value \<or> length value > MAX_EFFECT_IDENTITY_BYTES \<or> has_control value
      then Inl (ef_err Bad_identity) else Inr ())"

definition ef_validate_actor :: "actor_identity \<Rightarrow> unit result" where
  "ef_validate_actor a = map_err (\<lambda>_. ef_err Bad_actor) (actor_validate_current a)"

definition ef_validate_tenant :: "string option \<Rightarrow> unit result" where
  "ef_validate_tenant t =
     map_err (\<lambda>_. ef_err Bad_tenant_text) (case t of None \<Rightarrow> Inr () | Some v \<Rightarrow> validate_tenant_id v)"

definition ef_validate_authority :: "authority_context \<Rightarrow> unit result" where
  "ef_validate_authority authority =
     map_err (\<lambda>_. ef_err Bad_authority) (authority_validate_current authority)"

definition ef_validate_digest :: "string \<Rightarrow> unit result" where
  "ef_validate_digest value =
     (if length value \<noteq> 64 \<or> \<not> list_all is_lower_hex_byte (str_bytes value)
      then Inl (ef_err Bad_digest) else Inr ())"

definition ef_validate_application_time :: "u64 \<Rightarrow> unit result" where
  "ef_validate_application_time value = (if value = 0 then Inl (ef_err Zero_time) else Inr ())"

definition ef_validate_operation :: "effect_operation \<Rightarrow> unit result" where
  "ef_validate_operation operation =
     and_then (map_err (\<lambda>_. ef_err Bad_capability_text) (validate_capability_name (eo_capability operation)))
       (\<lambda>_. map_err (\<lambda>_. ef_err Bad_capability_text) (validate_capability_name (eo_operation operation)))"

definition ef_validate_input :: "effect_env \<Rightarrow> json \<Rightarrow> unit result" where
  "ef_validate_input env input =
     and_then (map_err (\<lambda>_. ef_err Bad_input_shape) (validate_value_shape input)) (\<lambda>_.
     and_then (map_err ef_bounded_error (bounded_serialized_size (ee_value env) input MAX_EFFECT_INPUT_BYTES))
       (\<lambda>size. if size = 0 then Inl (ef_err Empty_encoding) else Inr ()))"

definition ef_lower_sha256 :: "effect_env \<Rightarrow> bytes \<Rightarrow> string" where
  "ef_lower_sha256 env b = lower_hex (ee_sha256 env b)"

definition value_sha256 :: "effect_env \<Rightarrow> json \<Rightarrow> string result" where
  "value_sha256 env v =
     and_then (ef_validate_input env v) (\<lambda>_.
     and_then (ok_or (ef_err Cannot_encode) (to_vec (ee_value env) v)) (\<lambda>encoded.
     Inr (ef_lower_sha256 env encoded)))"

definition ef_attributed_digest ::
  "effect_env \<Rightarrow> (actor_identity \<times> string option \<times> 'a) serializer \<Rightarrow> actor_identity \<Rightarrow> string option \<Rightarrow> 'a \<Rightarrow>
   string result" where
  "ef_attributed_digest env ser a tenant command =
     and_then (ef_validate_actor a) (\<lambda>_.
     and_then (ef_validate_tenant tenant) (\<lambda>_.
     and_then (map_err ef_bounded_error
       (bounded_serialized_size ser (a, tenant, command) MAX_EFFECT_COMMAND_JSON_BYTES)) (\<lambda>size.
     if size = 0 then Inl (ef_err Empty_encoding)
     else and_then (ok_or (ef_err Cannot_encode) (to_vec ser (a, tenant, command))) (\<lambda>encoded.
       Inr (ef_lower_sha256 env encoded)))))"

definition ef_validate_create_request :: "effect_env \<Rightarrow> effect_create_request \<Rightarrow> unit result" where
  "ef_validate_create_request env request =
     and_then (ef_validate_identity (eq_command_id request)) (\<lambda>_.
     and_then (ef_validate_operation (eq_operation request)) (\<lambda>_.
     and_then (ef_validate_identity (eq_idempotency_key request)) (\<lambda>_.
     and_then (ef_validate_input env (eq_input request)) (\<lambda>_.
     ef_validate_application_time (eq_not_before_ms request)))))"

definition ef_validate_command :: "effect_env \<Rightarrow> effect_command \<Rightarrow> unit result" where
  "ef_validate_command env command =
     and_then (ef_validate_identity (ec_id command)) (\<lambda>_.
     and_then (map_err ef_bounded_error
       (bounded_serialized_size (ee_command env) command MAX_EFFECT_COMMAND_JSON_BYTES)) (\<lambda>_.
     Inr ()))"

definition ef_validate_receipt :: "effect_receipt \<Rightarrow> u64 \<Rightarrow> unit result" where
  "ef_validate_receipt receipt applied_at_ms =
     and_then (map_err (\<lambda>_. ef_err Bad_capability_text) (validate_capability_name (er_source receipt))) (\<lambda>_.
     and_then (ef_validate_identity (er_external_id receipt)) (\<lambda>_.
     and_then (ef_validate_application_time (er_observed_at_ms receipt)) (\<lambda>_.
     if er_observed_at_ms receipt > applied_at_ms then Inl (Effect E_receipt_in_future)
     else ef_validate_digest (er_response_sha256 receipt))))"

definition ef_validate_lease_duration :: "u64 \<Rightarrow> unit result" where
  "ef_validate_lease_duration d =
     (if \<not> (MIN_EFFECT_LEASE_MS \<le> d \<and> d \<le> MAX_EFFECT_LEASE_MS)
      then Inl (ef_err Bad_lease_duration) else Inr ())"

definition ef_lease_expiration :: "u64 \<Rightarrow> u64 \<Rightarrow> u64 result" where
  "ef_lease_expiration applied_at_ms d =
     ok_or (Effect E_lease_overflow) (checked_add applied_at_ms d)"

definition ef_validate_attempt :: "u32 \<Rightarrow> unit result" where
  "ef_validate_attempt attempt =
     (if attempt = 0 \<or> attempt > MAX_EFFECT_ATTEMPTS then Inl (ef_err Bad_attempt) else Inr ())"

definition ef_validate_retry_time :: "u64 option \<Rightarrow> u64 \<Rightarrow> unit result" where
  "ef_validate_retry_time value applied_at_ms =
     (if (case value of None \<Rightarrow> False | Some retry_at_ms \<Rightarrow> retry_at_ms < applied_at_ms)
      then Inl (Effect E_retry_too_early)
      else (case value of None \<Rightarrow> Inr () | Some v \<Rightarrow> ef_validate_application_time v))"

definition ef_encoded_size :: "effect_env \<Rightarrow> effect \<Rightarrow> usize result" where
  "ef_encoded_size env e =
     map_err ef_bounded_error (bounded_serialized_size (ee_effect env) (effect_to_wire e) MAX_EFFECT_JSON_BYTES)"

section \<open>Leases and attempts\<close>

text \<open>
  \<open>settled_not_applied\<close>: a retry gets the next attempt number, bounded; without a retry time the
  Effect is rejected for good. \<open>active_owned_lease_mut\<close> is the same check as \<open>active_owned_lease\<close>.
\<close>

definition settled_not_applied :: "u32 \<Rightarrow> string \<Rightarrow> u64 option \<Rightarrow> effect_status result" where
  "settled_not_applied attempt reason_code retry_at_ms =
     (case retry_at_ms of
        Some not_before_ms \<Rightarrow>
          and_then (ok_or (Effect E_attempt_overflow)
            (case checked_add attempt 1 of
               Some n \<Rightarrow> if n \<le> MAX_EFFECT_ATTEMPTS then Some n else None
             | None \<Rightarrow> None)) (\<lambda>next_attempt. Inr (EsPending next_attempt not_before_ms))
      | None \<Rightarrow> Inr (EsRejected attempt reason_code))"

definition active_owned_lease ::
  "effect_status \<Rightarrow> string \<Rightarrow> actor_identity \<Rightarrow> u64 \<Rightarrow> effect_lease result" where
  "active_owned_lease status lease_id a now =
     (case status of
        EsClaimed lease \<Rightarrow>
          if el_id lease \<noteq> lease_id \<or> el_owner lease \<noteq> a then Inl (Effect E_owner_mismatch)
          else if now \<ge> el_expires_at_ms lease then Inl (Effect E_lease_expired)
          else Inr lease
      | _ \<Rightarrow> Inl (Effect E_not_claimed))"

definition active_projected_lease ::
  "effect_status \<Rightarrow> string \<Rightarrow> actor_identity \<Rightarrow> u64 \<Rightarrow> effect_lease result" where
  "active_projected_lease status lease_id a now =
     map_err (\<lambda>_. Effect (E_history ''invalid lease evidence'')) (active_owned_lease status lease_id a now)"

definition validate_unknown :: "effect_status \<Rightarrow> string \<Rightarrow> u32 \<Rightarrow> unit result" where
  "validate_unknown status lease_id attempt =
     (case status of
        EsUnknown current_attempt current_lease _ \<Rightarrow>
          if current_attempt \<noteq> attempt \<or> current_lease \<noteq> lease_id
          then Inl (Effect E_reconcile_mismatch) else Inr ()
      | _ \<Rightarrow> Inl (Effect E_not_unknown))"

section \<open>Replaying the history\<close>

fun ef_transition_command_kind :: "effect_transition_kind \<Rightarrow> effect_command_kind result" where
  "ef_transition_command_kind (EtClaimed lease_id _ d) = Inr (EcClaim lease_id d)"
| "ef_transition_command_kind (EtLeaseRenewed lease_id d _) = Inr (EcRenewLease lease_id d)"
| "ef_transition_command_kind (EtApplied lease_id attempt receipt reconciled) =
     Inr (if reconciled then EcReconcileApplied lease_id attempt receipt
          else EcRecordApplied lease_id receipt)"
| "ef_transition_command_kind (EtNotApplied lease_id attempt reason_code retry_at_ms reconciled) =
     Inr (if reconciled then EcReconcileNotApplied lease_id attempt reason_code retry_at_ms
          else EcRecordNotApplied lease_id reason_code retry_at_ms)"
| "ef_transition_command_kind (EtBecameUnknown lease_id _ reason_code expired) =
     Inr (if expired then EcExpireLease lease_id else EcRecordUnknown lease_id reason_code)"
| "ef_transition_command_kind (EtCancelled reason_code) = Inr (EcCancel reason_code)"
| "ef_transition_command_kind (EtCreated _ _ _ _ _ _) =
     Inl (Effect (E_history ''cannot reconstruct creation as an Effect command''))"

definition ef_transition_digest :: "effect_env \<Rightarrow> effect_transition \<Rightarrow> string option \<Rightarrow> string result" where
  "ef_transition_digest env t tenant =
     (case et_kind t of
        EtCreated created_tenant operation key input _ not_before_ms \<Rightarrow>
          if created_tenant \<noteq> tenant then Inl (Effect E_tenant_differs)
          else ef_attributed_digest env (ee_create env) (et_actor t) tenant
            \<lparr>eq_command_id = et_command_id t, eq_operation = operation, eq_idempotency_key = key,
             eq_input = input, eq_not_before_ms = not_before_ms\<rparr>
      | kind \<Rightarrow>
          and_then (ef_transition_command_kind kind) (\<lambda>k.
          ef_attributed_digest env (ee_attributed env) (et_actor t) tenant
            \<lparr>ec_id = et_command_id t, ec_kind = k\<rparr>))"

record effect_projection =
  ep_tenant_id :: "string option"
  ep_operation :: effect_operation
  ep_idempotency_key :: string
  ep_input :: json
  ep_input_sha256 :: string
  ep_created_at_ms :: u64
  ep_status :: effect_status

abbreviation invalid_history :: "string \<Rightarrow> 'a result" where
  "invalid_history message \<equiv> Inl (Effect (E_history message))"

text \<open>
  \<open>apply_projected_kind\<close> works on the projected status and the set of used lease identities; the
  creation is handled by its caller, and the source's \<open>unreachable!()\<close> is the last equation.
\<close>

fun apply_projected_kind ::
  "effect_status \<Rightarrow> string set \<Rightarrow> effect_transition \<Rightarrow> effect_transition_kind \<Rightarrow>
   (effect_status \<times> string set) result" where
  "apply_projected_kind status lease_ids t (EtClaimed lease_id attempt d) =
     (case status of
        EsPending next_attempt not_before_ms \<Rightarrow>
          if et_applied_at_ms t < not_before_ms \<or> attempt \<noteq> next_attempt
          then invalid_history ''claim differs from pending attempt or eligibility''
          else
          and_then (ef_validate_identity lease_id) (\<lambda>_.
          and_then (ef_validate_lease_duration d) (\<lambda>_.
          if lease_id \<in> lease_ids then invalid_history ''lease identity was reused''
          else and_then (ef_lease_expiration (et_applied_at_ms t) d) (\<lambda>expires.
            Inr (EsClaimed \<lparr>el_id = lease_id, el_owner = et_actor t, el_attempt = attempt,
                   el_claimed_at_ms = et_applied_at_ms t, el_expires_at_ms = expires\<rparr>,
                 insert lease_id lease_ids))))
      | _ \<Rightarrow> invalid_history ''claim does not follow pending state'')"
| "apply_projected_kind status lease_ids t (EtLeaseRenewed lease_id d previous_expires_at_ms) =
     and_then (ef_validate_lease_duration d) (\<lambda>_.
     and_then (active_projected_lease status lease_id (et_actor t) (et_applied_at_ms t)) (\<lambda>lease.
     if el_expires_at_ms lease \<noteq> previous_expires_at_ms
     then invalid_history ''renewal prior expiration differs from current lease''
     else and_then (ef_lease_expiration (et_applied_at_ms t) d) (\<lambda>nxt.
       if nxt \<le> el_expires_at_ms lease
       then invalid_history ''renewal does not extend the current lease''
       else Inr (EsClaimed (lease\<lparr>el_expires_at_ms := nxt\<rparr>), lease_ids))))"
| "apply_projected_kind status lease_ids t (EtApplied lease_id attempt receipt reconciled) =
     and_then (ef_validate_receipt receipt (et_applied_at_ms t)) (\<lambda>_.
     and_then
       (if reconciled then validate_unknown status lease_id attempt
        else and_then (active_projected_lease status lease_id (et_actor t) (et_applied_at_ms t)) (\<lambda>lease.
          if el_attempt lease \<noteq> attempt
          then invalid_history ''applied attempt differs from active lease'' else Inr ())) (\<lambda>_.
     Inr (EsApplied attempt receipt, lease_ids)))"
| "apply_projected_kind status lease_ids t (EtNotApplied lease_id attempt reason_code retry_at_ms reconciled) =
     and_then (validate_capability_name reason_code) (\<lambda>_.
     and_then (ef_validate_retry_time retry_at_ms (et_applied_at_ms t)) (\<lambda>_.
     and_then
       (if reconciled then validate_unknown status lease_id attempt
        else and_then (active_projected_lease status lease_id (et_actor t) (et_applied_at_ms t)) (\<lambda>lease.
          if el_attempt lease \<noteq> attempt
          then invalid_history ''not-applied attempt differs from active lease'' else Inr ())) (\<lambda>_.
     and_then (settled_not_applied attempt reason_code retry_at_ms) (\<lambda>st.
     Inr (st, lease_ids)))))"
| "apply_projected_kind status lease_ids t (EtBecameUnknown lease_id attempt reason_code expired) =
     and_then (validate_capability_name reason_code) (\<lambda>_.
     case status of
       EsClaimed lease \<Rightarrow>
         if el_id lease \<noteq> lease_id \<or> el_attempt lease \<noteq> attempt
         then invalid_history ''unknown transition differs from active lease''
         else if expired \<and> (reason_code \<noteq> ''lease.expired'' \<or> et_applied_at_ms t < el_expires_at_ms lease)
         then invalid_history ''lease-expiration evidence is inconsistent''
         else if \<not> expired \<and> (el_owner lease \<noteq> et_actor t \<or> et_applied_at_ms t \<ge> el_expires_at_ms lease)
         then invalid_history ''worker uncertainty report is not actively leased''
         else Inr (EsUnknown attempt lease_id reason_code, lease_ids)
     | _ \<Rightarrow> invalid_history ''unknown transition does not follow claimed state'')"
| "apply_projected_kind status lease_ids t (EtCancelled reason_code) =
     and_then (validate_capability_name reason_code) (\<lambda>_.
     if \<not> (case status of EsPending n _ \<Rightarrow> n = 1 | _ \<Rightarrow> False)
     then invalid_history ''cancellation follows a claimed attempt''
     else Inr (EsCancelled reason_code, lease_ids))"
| "apply_projected_kind status lease_ids t (EtCreated _ _ _ _ _ _) = invalid_history ''unreachable''"

definition apply_projection_transition ::
  "effect_env \<Rightarrow> effect_projection option \<Rightarrow> string set \<Rightarrow> effect_transition \<Rightarrow>
   (effect_projection option \<times> string set) result" where
  "apply_projection_transition env projection lease_ids t =
     (case et_kind t of
        EtCreated tenant operation key input input_sha256 not_before_ms \<Rightarrow>
          if projection \<noteq> None \<or> et_sequence t \<noteq> 1
          then Inl (Effect (E_log Creation_not_first))
          else
          and_then (ef_validate_operation operation) (\<lambda>_.
          and_then (ef_validate_tenant tenant) (\<lambda>_.
          and_then (ef_validate_identity key) (\<lambda>_.
          and_then (ef_validate_input env input) (\<lambda>_.
          and_then (ef_validate_digest input_sha256) (\<lambda>_.
          and_then (value_sha256 env input) (\<lambda>digest.
          if digest \<noteq> input_sha256 then Inl (Effect E_input_digest_differs)
          else and_then (ef_validate_application_time not_before_ms) (\<lambda>_.
            Inr (Some \<lparr>ep_tenant_id = tenant, ep_operation = operation, ep_idempotency_key = key,
                   ep_input = input, ep_input_sha256 = input_sha256,
                   ep_created_at_ms = et_applied_at_ms t, ep_status = EsPending 1 not_before_ms\<rparr>,
                 lease_ids))))))))
      | kind \<Rightarrow>
          (case projection of
             None \<Rightarrow> invalid_history ''transition precedes creation''
           | Some p \<Rightarrow>
               and_then (apply_projected_kind (ep_status p) lease_ids t kind) (\<lambda>(st, ids).
               Inr (Some (p\<lparr>ep_status := st\<rparr>), ids))))"

record effect_replay =
  erp_projection :: "effect_projection option"
  erp_command_ids :: "string set"
  erp_lease_ids :: "string set"
  erp_previous_time :: u64

definition effect_replay_start :: effect_replay where
  "effect_replay_start = \<lparr>erp_projection = None, erp_command_ids = {}, erp_lease_ids = {},
     erp_previous_time = 0\<rparr>"

definition effect_replay_envelope ::
  "effect_env \<Rightarrow> string option \<Rightarrow> effect_replay \<Rightarrow> effect_transition \<Rightarrow> effect_replay result" where
  "effect_replay_envelope env tenant rp t =
     and_then (ok_or (Effect (E_log Sequence_overflow))
       (Option.bind (u64_of_usize (card (erp_command_ids rp))) (\<lambda>n. checked_add n 1))) (\<lambda>expected_sequence.
     if et_sequence t \<noteq> expected_sequence then Inl (Effect (E_log Sequence_not_contiguous))
     else
     and_then (ef_validate_identity (et_command_id t)) (\<lambda>_.
     and_then (ef_validate_digest (et_command_sha256 t)) (\<lambda>_.
     and_then (ef_validate_application_time (et_applied_at_ms t)) (\<lambda>_.
     if et_applied_at_ms t < erp_previous_time rp then Inl (Effect (E_log Time_not_monotonic))
     else
     and_then (ef_validate_actor (et_actor t)) (\<lambda>_.
     and_then (ef_transition_digest env t tenant) (\<lambda>digest.
     if et_command_sha256 t \<noteq> digest then Inl (Effect (E_log Digest_differs))
     else if et_command_id t \<in> erp_command_ids rp then Inl (Effect (E_log Duplicate_commands))
     else Inr (rp\<lparr>erp_previous_time := et_applied_at_ms t,
                  erp_command_ids := insert (et_command_id t) (erp_command_ids rp)\<rparr>)))))))"

definition effect_replay_transition ::
  "effect_env \<Rightarrow> string option \<Rightarrow> effect_replay \<Rightarrow> effect_transition \<Rightarrow> effect_replay result" where
  "effect_replay_transition env tenant rp t =
     and_then (effect_replay_envelope env tenant rp t) (\<lambda>rp'.
     and_then (apply_projection_transition env (erp_projection rp') (erp_lease_ids rp') t) (\<lambda>(p, ids).
     Inr (rp'\<lparr>erp_projection := p, erp_lease_ids := ids\<rparr>)))"

definition effect_validate :: "effect_env \<Rightarrow> effect \<Rightarrow> unit result" where
  "effect_validate env e =
     and_then (ef_validate_tenant (ef_tenant_id e)) (\<lambda>_.
     and_then (ef_validate_operation (ef_operation e)) (\<lambda>_.
     and_then (ef_validate_identity (ef_idempotency_key e)) (\<lambda>_.
     and_then (ef_validate_input env (ef_input e)) (\<lambda>_.
     and_then (ef_validate_digest (ef_input_sha256 e)) (\<lambda>_.
     and_then (value_sha256 env (ef_input e)) (\<lambda>digest.
     if digest \<noteq> ef_input_sha256 e then Inl (Effect E_input_digest_differs)
     else
     and_then (ef_validate_application_time (ef_created_at_ms e)) (\<lambda>_.
     if ef_transitions e = [] \<or> length (ef_transitions e) > MAX_EFFECT_TRANSITIONS
     then Inl (Effect (E_log Transition_count))
     else
     and_then (try_fold (effect_replay_transition env (ef_tenant_id e)) effect_replay_start
       (ef_transitions e)) (\<lambda>rp.
     and_then (ok_or (Effect E_no_creation) (erp_projection rp)) (\<lambda>p.
     if ep_tenant_id p \<noteq> ef_tenant_id e \<or> ep_operation p \<noteq> ef_operation e \<or>
        ep_idempotency_key p \<noteq> ef_idempotency_key e \<or> ep_input p \<noteq> ef_input e \<or>
        ep_input_sha256 p \<noteq> ef_input_sha256 e \<or> ep_created_at_ms p \<noteq> ef_created_at_ms e \<or>
        ep_status p \<noteq> ef_status e
     then Inl (Effect (E_log Projection_differs))
     else Inr ())))))))))"

section \<open>Commands\<close>

fun claims_lease :: "effect_transition_kind \<Rightarrow> string \<Rightarrow> bool" where
  "claims_lease (EtClaimed existing _ _) i \<longleftrightarrow> existing = i"
| "claims_lease _ i \<longleftrightarrow> False"

definition validate_new_lease_id :: "effect_transition list \<Rightarrow> string \<Rightarrow> unit result" where
  "validate_new_lease_id transitions lease_id =
     and_then (ef_validate_identity lease_id) (\<lambda>_.
     if list_ex (\<lambda>t. claims_lease (et_kind t) lease_id) transitions
     then Inl (Effect (E_lease_committed lease_id)) else Inr ())"

fun effect_apply_kind ::
  "effect \<Rightarrow> effect_command_kind \<Rightarrow> u64 \<Rightarrow> actor_identity \<Rightarrow> (effect \<times> effect_transition_kind) result" where
  "effect_apply_kind e (EcClaim lease_id d) now a =
     (case ef_status e of
        EsPending next_attempt not_before_ms \<Rightarrow>
          if now < not_before_ms then Inl (Effect E_not_eligible)
          else
          and_then (validate_new_lease_id (ef_transitions e) lease_id) (\<lambda>_.
          and_then (ef_validate_lease_duration d) (\<lambda>_.
          and_then (ef_validate_attempt next_attempt) (\<lambda>_.
          and_then (ef_lease_expiration now d) (\<lambda>expires.
          Inr (e\<lparr>ef_status := EsClaimed \<lparr>el_id = lease_id, el_owner = a, el_attempt = next_attempt,
                   el_claimed_at_ms = now, el_expires_at_ms = expires\<rparr>\<rparr>,
               EtClaimed lease_id next_attempt d)))))
      | _ \<Rightarrow> Inl (Effect E_not_pending))"
| "effect_apply_kind e (EcRenewLease lease_id d) now a =
     and_then (ef_validate_lease_duration d) (\<lambda>_.
     and_then (active_owned_lease (ef_status e) lease_id a now) (\<lambda>lease.
     and_then (ef_lease_expiration now d) (\<lambda>expires.
     if expires \<le> el_expires_at_ms lease then Inl (Effect E_renewal_not_longer)
     else Inr (e\<lparr>ef_status := EsClaimed (lease\<lparr>el_expires_at_ms := expires\<rparr>)\<rparr>,
               EtLeaseRenewed lease_id d (el_expires_at_ms lease)))))"
| "effect_apply_kind e (EcRecordApplied lease_id receipt) now a =
     and_then (ef_validate_receipt receipt now) (\<lambda>_.
     and_then (active_owned_lease (ef_status e) lease_id a now) (\<lambda>lease.
     Inr (e\<lparr>ef_status := EsApplied (el_attempt lease) receipt\<rparr>,
          EtApplied lease_id (el_attempt lease) receipt False)))"
| "effect_apply_kind e (EcRecordNotApplied lease_id reason_code retry_at_ms) now a =
     and_then (validate_capability_name reason_code) (\<lambda>_.
     and_then (ef_validate_retry_time retry_at_ms now) (\<lambda>_.
     and_then (active_owned_lease (ef_status e) lease_id a now) (\<lambda>lease.
     and_then (settled_not_applied (el_attempt lease) reason_code retry_at_ms) (\<lambda>st.
     Inr (e\<lparr>ef_status := st\<rparr>,
          EtNotApplied lease_id (el_attempt lease) reason_code retry_at_ms False)))))"
| "effect_apply_kind e (EcRecordUnknown lease_id reason_code) now a =
     and_then (validate_capability_name reason_code) (\<lambda>_.
     and_then (active_owned_lease (ef_status e) lease_id a now) (\<lambda>lease.
     Inr (e\<lparr>ef_status := EsUnknown (el_attempt lease) lease_id reason_code\<rparr>,
          EtBecameUnknown lease_id (el_attempt lease) reason_code False)))"
| "effect_apply_kind e (EcExpireLease lease_id) now a =
     (case ef_status e of
        EsClaimed lease \<Rightarrow>
          if el_id lease \<noteq> lease_id then Inl (Effect E_expire_mismatch)
          else if now < el_expires_at_ms lease then Inl (Effect E_not_expired)
          else Inr (e\<lparr>ef_status := EsUnknown (el_attempt lease) lease_id ''lease.expired''\<rparr>,
                    EtBecameUnknown lease_id (el_attempt lease) ''lease.expired'' True)
      | _ \<Rightarrow> Inl (Effect E_nothing_to_expire))"
| "effect_apply_kind e (EcReconcileApplied lease_id attempt receipt) now a =
     and_then (ef_validate_receipt receipt now) (\<lambda>_.
     and_then (validate_unknown (ef_status e) lease_id attempt) (\<lambda>_.
     Inr (e\<lparr>ef_status := EsApplied attempt receipt\<rparr>, EtApplied lease_id attempt receipt True)))"
| "effect_apply_kind e (EcReconcileNotApplied lease_id attempt reason_code retry_at_ms) now a =
     and_then (validate_capability_name reason_code) (\<lambda>_.
     and_then (ef_validate_retry_time retry_at_ms now) (\<lambda>_.
     and_then (validate_unknown (ef_status e) lease_id attempt) (\<lambda>_.
     and_then (settled_not_applied attempt reason_code retry_at_ms) (\<lambda>st.
     Inr (e\<lparr>ef_status := st\<rparr>, EtNotApplied lease_id attempt reason_code retry_at_ms True)))))"
| "effect_apply_kind e (EcCancel reason_code) now a =
     and_then (validate_capability_name reason_code) (\<lambda>_.
     if \<not> (case ef_status e of EsPending n _ \<Rightarrow> n = 1 | _ \<Rightarrow> False)
     then Inl (Effect E_not_cancellable)
     else Inr (e\<lparr>ef_status := EsCancelled reason_code\<rparr>, EtCancelled reason_code))"

text \<open>A command of another tenant is not recognised here; \<open>effect_validate\<close> rejects it later.\<close>

definition effect_recognizes_command ::
  "effect_env \<Rightarrow> effect \<Rightarrow> effect_command \<Rightarrow> authority_context \<Rightarrow> bool result" where
  "effect_recognizes_command env e command authority =
     and_then (ef_validate_command env command) (\<lambda>_.
     and_then (ef_validate_authority authority) (\<lambda>_.
     if ef_tenant_id e \<noteq> tenant_id authority then Inr False
     else
     and_then (ef_attributed_digest env (ee_attributed env) (actor authority) (tenant_id authority) command)
       (\<lambda>digest.
     case find (\<lambda>t. et_command_id t = ec_id command) (ef_transitions e) of
       None \<Rightarrow> Inr False
     | Some existing \<Rightarrow>
         if et_command_sha256 existing = digest then Inr True
         else Inl (Effect (E_command_reused (ec_id command))))))"

definition effect_apply ::
  "effect_env \<Rightarrow> effect \<Rightarrow> effect_command \<Rightarrow> u64 \<Rightarrow> authority_context \<Rightarrow>
   (effect \<times> effect_apply_outcome) result" where
  "effect_apply env e command applied_at_ms authority =
     and_then (effect_recognizes_command env e command authority) (\<lambda>known.
     if known then Inr (e, EDuplicate)
     else
     and_then (ef_validate_application_time applied_at_ms) (\<lambda>_.
     and_then (ef_validate_authority authority) (\<lambda>_.
     if length (ef_transitions e) \<ge> MAX_EFFECT_TRANSITIONS then Inl (Effect E_too_many_transitions)
     else if ef_transitions e \<noteq> [] \<and> applied_at_ms < et_applied_at_ms (last (ef_transitions e))
     then Inl (Effect E_time_backwards)
     else
     and_then (ef_attributed_digest env (ee_attributed env) (actor authority) (tenant_id authority) command)
       (\<lambda>digest.
     and_then (effect_apply_kind e (ec_kind command) applied_at_ms (actor authority)) (\<lambda>(nxt, kind).
     and_then (ok_or (Effect (E_log Sequence_overflow))
       (Option.bind (u64_of_usize (length (ef_transitions nxt))) (\<lambda>n. checked_add n 1))) (\<lambda>sequence.
     let nxt = nxt\<lparr>ef_transitions := ef_transitions nxt @
           [\<lparr>et_sequence = sequence, et_command_id = ec_id command, et_command_sha256 = digest,
             et_applied_at_ms = applied_at_ms, et_actor = actor authority, et_kind = kind\<rparr>]\<rparr> in
     and_then (effect_validate env nxt) (\<lambda>_.
     and_then (ef_encoded_size env nxt) (\<lambda>charge.
     Inr (nxt\<lparr>ef_charge := charge\<rparr>, EApplied)))))))))"

definition effect_new ::
  "effect_env \<Rightarrow> effect_create_request \<Rightarrow> u64 \<Rightarrow> authority_context \<Rightarrow> effect result" where
  "effect_new env request applied_at_ms authority =
     and_then (ef_validate_create_request env request) (\<lambda>_.
     and_then (ef_validate_application_time applied_at_ms) (\<lambda>_.
     and_then (ef_validate_authority authority) (\<lambda>_.
     and_then (value_sha256 env (eq_input request)) (\<lambda>input_sha256.
     and_then (ef_attributed_digest env (ee_create env) (actor authority) (tenant_id authority) request)
       (\<lambda>command_sha256.
     let transition = \<lparr>et_sequence = 1, et_command_id = eq_command_id request,
           et_command_sha256 = command_sha256, et_applied_at_ms = applied_at_ms,
           et_actor = actor authority,
           et_kind = EtCreated (tenant_id authority) (eq_operation request) (eq_idempotency_key request)
             (eq_input request) input_sha256 (eq_not_before_ms request)\<rparr>;
         effect = \<lparr>ef_tenant_id = tenant_id authority, ef_operation = eq_operation request,
           ef_idempotency_key = eq_idempotency_key request, ef_input = eq_input request,
           ef_input_sha256 = input_sha256, ef_created_at_ms = applied_at_ms,
           ef_status = EsPending 1 (eq_not_before_ms request), ef_transitions = [transition],
           ef_charge = 0\<rparr> in
     and_then (effect_validate env effect) (\<lambda>_.
     and_then (ef_encoded_size env effect) (\<lambda>charge.
     Inr (effect\<lparr>ef_charge := charge\<rparr>))))))))"

definition effect_create_matches ::
  "effect_env \<Rightarrow> effect \<Rightarrow> effect_create_request \<Rightarrow> authority_context \<Rightarrow> bool result" where
  "effect_create_matches env e request authority =
     and_then (ef_validate_authority authority) (\<lambda>_.
     if ef_tenant_id e \<noteq> tenant_id authority then Inr False
     else
     and_then (ef_attributed_digest env (ee_create env) (actor authority) (tenant_id authority) request)
       (\<lambda>digest.
     Inr (case ef_transitions e of
            [] \<Rightarrow> False
          | t # _ \<Rightarrow> et_command_id t = eq_command_id request \<and> et_command_sha256 t = digest)))"

definition effect_from_wire :: "effect_env \<Rightarrow> effect_wire \<Rightarrow> effect result" where
  "effect_from_wire env wire =
     (let effect = \<lparr>ef_tenant_id = ew_tenant_id wire, ef_operation = ew_operation wire,
        ef_idempotency_key = ew_idempotency_key wire, ef_input = ew_input wire,
        ef_input_sha256 = ew_input_sha256 wire, ef_created_at_ms = ew_created_at_ms wire,
        ef_status = ew_status wire, ef_transitions = ew_transitions wire, ef_charge = 0\<rparr> in
      and_then (effect_validate env effect) (\<lambda>_.
      and_then (ef_encoded_size env effect) (\<lambda>charge.
      Inr (effect\<lparr>ef_charge := charge\<rparr>))))"

section \<open>Ownership is exclusive\<close>

fun held_lease :: "effect_status \<Rightarrow> effect_lease option" where
  "held_lease (EsClaimed lease) = Some lease"
| "held_lease _ = None"

interpretation effect_fence: lease_fence active_owned_lease held_lease el_id el_owner el_expires_at_ms
proof
  fix s f p now l
  show "active_owned_lease s f p now = Inr l \<longleftrightarrow>
      held_lease s = Some l \<and> el_id l = f \<and> el_owner l = p \<and> now < el_expires_at_ms l"
    by (cases s) (auto simp: active_owned_lease_def)
qed

lemma active_owned_lease_ok:
  "active_owned_lease st i a now = Inr lease \<longleftrightarrow>
     st = EsClaimed lease \<and> el_id lease = i \<and> el_owner lease = a \<and> now < el_expires_at_ms lease"
  by (cases st) (auto simp: active_owned_lease_def)

lemma active_projected_lease_ok:
  "active_projected_lease st i a now = Inr lease \<longleftrightarrow> active_owned_lease st i a now = Inr lease"
  by (simp add: active_projected_lease_def map_err_eq_Inr)

lemma validate_unknown_ok:
  "validate_unknown st i n = Inr u \<longleftrightarrow> (\<exists>r. st = EsUnknown n i r)"
  by (cases st) (auto simp: validate_unknown_def)

lemma settled_not_applied_ok:
  "settled_not_applied n r retry = Inr st \<longleftrightarrow>
     (case retry of
        None \<Rightarrow> st = EsRejected n r
      | Some at \<Rightarrow> \<exists>m. st = EsPending m at \<and> unat m = unat n + 1 \<and> m \<le> MAX_EFFECT_ATTEMPTS)"
proof -
  have nxt: "unat m = unat n + 1 \<longleftrightarrow> checked_add n 1 = Some m" for m
    by (simp add: checked_add_Some)
  show ?thesis
    unfolding nxt
    by (cases "checked_add n 1") (auto simp: settled_not_applied_def split: option.splits)
qed

section \<open>The history as a log\<close>

lemma ef_validate_actor_ok:
  "ef_validate_actor a = Inr u \<longleftrightarrow> valid_actor_shape a \<and> a \<noteq> UnattributedLegacy"
  by (simp add: ef_validate_actor_def map_err_eq_Inr actor_validate_current_ok)

lemma ef_validate_authority_ok: "ef_validate_authority c = Inr u \<longleftrightarrow> valid_authority c"
  by (simp add: ef_validate_authority_def map_err_eq_Inr authority_validate_current_ok)

lemma effect_replay_envelope_ok:
  "effect_replay_envelope env tenant rp t = Inr rp' \<longleftrightarrow>
     unat (et_sequence t) = Suc (card (erp_command_ids rp)) \<and>
     ef_validate_identity (et_command_id t) = Inr () \<and>
     ef_validate_digest (et_command_sha256 t) = Inr () \<and>
     et_applied_at_ms t \<noteq> 0 \<and> erp_previous_time rp \<le> et_applied_at_ms t \<and>
     ef_validate_actor (et_actor t) = Inr () \<and>
     ef_transition_digest env t tenant = Inr (et_command_sha256 t) \<and>
     et_command_id t \<notin> erp_command_ids rp \<and>
     rp' = rp\<lparr>erp_previous_time := et_applied_at_ms t,
              erp_command_ids := insert (et_command_id t) (erp_command_ids rp)\<rparr>"
  unfolding effect_replay_envelope_def
  by (auto simp: and_then_eq_Inr ok_or_eq_Inr next_number_Some ef_validate_application_time_def not_less
      split: if_splits intro: unsigned_word_eqI [where 'a = nat])

lemma effect_replay_transition_ok:
  "effect_replay_transition env tenant rp t = Inr rp' \<longleftrightarrow>
     (\<exists>rp1 p ids. effect_replay_envelope env tenant rp t = Inr rp1 \<and>
       apply_projection_transition env (erp_projection rp1) (erp_lease_ids rp1) t = Inr (p, ids) \<and>
       rp' = rp1\<lparr>erp_projection := p, erp_lease_ids := ids\<rparr>)"
  by (auto simp: effect_replay_transition_def and_then_eq_Inr)

interpretation ef_log: replay_log "effect_replay_transition env tenant" effect_replay_start et_sequence
  et_command_id et_applied_at_ms erp_command_ids erp_previous_time "\<lambda>rp. card (erp_command_ids rp)"
  "\<lambda>rp. finite (erp_command_ids rp)"
  for env tenant
  by unfold_locales
    (auto simp: effect_replay_start_def effect_replay_transition_ok effect_replay_envelope_ok)

lemma apply_projected_kind_leases:
  "apply_projected_kind st ids t kind = Inr (st', ids') \<Longrightarrow> ids' = ids \<union> Collect (claims_lease kind)"
  by (cases kind) (auto simp: and_then_eq_Inr split: effect_status.splits if_splits)

lemma apply_projection_leases:
  "apply_projection_transition env p ids t = Inr (p', ids') \<Longrightarrow>
   ids' = ids \<union> Collect (claims_lease (et_kind t))"
  by (cases "et_kind t")
    (auto simp: apply_projection_transition_def and_then_eq_Inr split: option.splits if_splits
      simp del: apply_projected_kind.simps dest!: apply_projected_kind_leases)

lemma effect_replay_ids:
  assumes "try_fold (effect_replay_transition env tenant) effect_replay_start ts = Inr rp"
  shows "erp_lease_ids rp = {i. \<exists>t\<in>set ts. claims_lease (et_kind t) i}"
  using assms
proof (induction rule: try_fold_prefix_induct)
  case (snoc ts t rp rp')
  then show ?case
    by (auto simp: effect_replay_transition_ok effect_replay_envelope_ok dest!: apply_projection_leases)
qed (simp add: effect_replay_start_def)

section \<open>Commands and the transitions they record\<close>

lemma effect_apply_kind_frame:
  assumes "effect_apply_kind e kind now a = Inr (e', tk)"
  shows "ef_transitions e' = ef_transitions e" "e' = e\<lparr>ef_status := ef_status e'\<rparr>"
    "ef_transition_command_kind tk = Inr kind"
  using assms
  by (cases kind; auto simp: and_then_eq_Inr split: if_splits effect_status.splits)+

lemma lease_expired_name [simp]: "validate_capability_name ''lease.expired'' = Inr ()"
  by (simp add: validate_capability_name_def string_eval)

lemma effect_apply_kind_replays:
  assumes "effect_apply_kind e kind now a = Inr (e', tk)"
    and "ids = {i. \<exists>t\<in>set (ef_transitions e). claims_lease (et_kind t) i}"
    and "et_applied_at_ms t = now" "et_actor t = a"
  shows "\<exists>ids'. apply_projected_kind (ef_status e) ids t tk = Inr (ef_status e', ids')"
proof -
  note guards = validate_new_lease_id_def active_owned_lease_ok active_projected_lease_ok
    validate_unknown_ok list_ex_iff and_then_eq_Inr
  show ?thesis
    using assms by (cases kind) (auto simp: guards split: if_splits effect_status.splits)
qed

lemma effect_validate_ok:
  "effect_validate env e = Inr u \<longleftrightarrow>
     ef_validate_tenant (ef_tenant_id e) = Inr () \<and> ef_validate_operation (ef_operation e) = Inr () \<and>
     ef_validate_identity (ef_idempotency_key e) = Inr () \<and> ef_validate_input env (ef_input e) = Inr () \<and>
     ef_validate_digest (ef_input_sha256 e) = Inr () \<and>
     value_sha256 env (ef_input e) = Inr (ef_input_sha256 e) \<and> ef_created_at_ms e \<noteq> 0 \<and>
     ef_transitions e \<noteq> [] \<and> length (ef_transitions e) \<le> MAX_EFFECT_TRANSITIONS \<and>
     (\<exists>rp p. try_fold (effect_replay_transition env (ef_tenant_id e)) effect_replay_start
         (ef_transitions e) = Inr rp \<and> erp_projection rp = Some p \<and>
       ep_tenant_id p = ef_tenant_id e \<and> ep_operation p = ef_operation e \<and>
       ep_idempotency_key p = ef_idempotency_key e \<and> ep_input p = ef_input e \<and>
       ep_input_sha256 p = ef_input_sha256 e \<and> ep_created_at_ms p = ef_created_at_ms e \<and>
       ep_status p = ef_status e)"
  unfolding effect_validate_def ef_validate_application_time_def
  by (auto simp: and_then_eq_Inr ok_or_eq_Inr split: if_splits)

lemma ef_attributed_digest_valid:
  assumes "ef_attributed_digest env ser a tn c = Inr d" and "\<And>b. length (ee_sha256 env b) = 32"
  shows "ef_validate_digest d = Inr ()"
  using assms lower_hex_is_lower_sha256
  by (fastforce simp: ef_attributed_digest_def and_then_eq_Inr ef_validate_digest_def ef_lower_sha256_def
      is_lower_sha256_def split: if_splits)

lemma effect_command_eta [simp]: "\<lparr>ec_id = ec_id c, ec_kind = ec_kind c\<rparr> = c"
  by simp

lemma ef_transition_digest_command:
  "ef_transition_command_kind (et_kind t) = Inr kind \<Longrightarrow>
   ef_transition_digest env t tn =
     ef_attributed_digest env (ee_attributed env) (et_actor t) tn \<lparr>ec_id = et_command_id t, ec_kind = kind\<rparr>"
  by (cases "et_kind t") (auto simp: ef_transition_digest_def)

lemma effect_recognizes_False:
  "effect_recognizes_command env e command authority = Inr False \<longleftrightarrow>
     ef_validate_command env command = Inr () \<and> valid_authority authority \<and>
     (ef_tenant_id e = tenant_id authority \<longrightarrow>
       (\<exists>d. ef_attributed_digest env (ee_attributed env) (actor authority) (tenant_id authority) command = Inr d) \<and>
       (\<forall>t\<in>set (ef_transitions e). et_command_id t \<noteq> ec_id command))"
  by (auto simp: effect_recognizes_command_def and_then_eq_Inr find_None_iff ef_validate_authority_ok
      split: option.splits if_splits)

definition effect_commit ::
  "effect \<Rightarrow> effect_command \<Rightarrow> string \<Rightarrow> u64 \<Rightarrow> actor_identity \<Rightarrow> effect_transition_kind \<Rightarrow> effect" where
  "effect_commit nxt command digest now a kind =
     nxt\<lparr>ef_transitions := ef_transitions nxt @
       [\<lparr>et_sequence = of_nat (Suc (length (ef_transitions nxt))), et_command_id = ec_id command,
         et_command_sha256 = digest, et_applied_at_ms = now, et_actor = a, et_kind = kind\<rparr>]\<rparr>"

lemma apply_projection_command:
  assumes "ef_transition_command_kind (et_kind t) = Inr kind"
    and "apply_projected_kind (ep_status p) ids t (et_kind t) = Inr (st, ids')"
  shows "apply_projection_transition env (Some p) ids t = Inr (Some (p\<lparr>ep_status := st\<rparr>), ids')"
  using assms by (cases "et_kind t") (simp_all add: apply_projection_transition_def)

lemma effect_commit_revalidates:
  assumes valid: "effect_validate env e = Inr ()"
    and sha: "\<And>b. length (ee_sha256 env b) = 32"
    and tenant: "ef_tenant_id e = tenant_id authority"
    and new: "effect_recognizes_command env e command authority = Inr False"
    and time: "now \<noteq> 0"
    and digest: "ef_attributed_digest env (ee_attributed env) (actor authority) (tenant_id authority) command
      = Inr digest"
    and len: "length (ef_transitions e) < MAX_EFFECT_TRANSITIONS"
    and mono: "\<not> now < et_applied_at_ms (last (ef_transitions e))"
    and kind: "effect_apply_kind e (ec_kind command) now (actor authority) = Inr (nxt, tk)"
  shows "effect_validate env (effect_commit nxt command digest now (actor authority) tk) = Inr ()"
proof -
  let ?ts = "ef_transitions e"
  define seq :: u64 where "seq = of_nat (Suc (length ?ts))"
  let ?t = "\<lparr>et_sequence = seq, et_command_id = ec_id command, et_command_sha256 = digest,
    et_applied_at_ms = now, et_actor = actor authority, et_kind = tk\<rparr>"
  note frame = effect_apply_kind_frame [OF kind]
  from valid obtain rp p where
    rp: "try_fold (effect_replay_transition env (ef_tenant_id e)) effect_replay_start ?ts = Inr rp"
    and p: "erp_projection rp = Some p" "ep_status p = ef_status e" and ts: "?ts \<noteq> []"
    and fields: "ep_tenant_id p = ef_tenant_id e" "ep_operation p = ef_operation e"
      "ep_idempotency_key p = ef_idempotency_key e" "ep_input p = ef_input e"
      "ep_input_sha256 p = ef_input_sha256 e" "ep_created_at_ms p = ef_created_at_ms e"
    by (auto simp: effect_validate_ok)
  from len have "Suc (Suc (length ?ts)) < 2 ^ 64" by (simp add: MAX_EFFECT_TRANSITIONS_def)
  note seq = next_sequence [OF this, folded seq_def]
  define rp1 where "rp1 = rp\<lparr>erp_previous_time := now,
    erp_command_ids := insert (ec_id command) (erp_command_ids rp)\<rparr>"
  have "ef_transition_digest env ?t (ef_tenant_id e) = Inr digest"
    using digest frame(3) tenant by (simp add: ef_transition_digest_command)
  moreover have "erp_previous_time rp \<le> now"
    using ef_log.replay_previous [OF rp] mono ts by simp
  moreover have "ec_id command \<notin> erp_command_ids rp"
    using new ef_log.replay_seen [OF rp] tenant by (auto simp: effect_recognizes_False)
  moreover have "ef_validate_identity (ec_id command) = Inr ()" "ef_validate_actor (actor authority) = Inr ()"
    using new by (simp_all add: effect_recognizes_False ef_validate_command_def and_then_eq_Inr
        ef_validate_actor_ok valid_authority_def)
  ultimately have env: "effect_replay_envelope env (ef_tenant_id e) rp ?t = Inr rp1"
    using ef_attributed_digest_valid [OF digest sha] time seq(4) ef_log.replay_count [OF rp]
    by (simp add: effect_replay_envelope_ok rp1_def)
  obtain ids where "apply_projected_kind (ef_status e) (erp_lease_ids rp) ?t tk = Inr (ef_status nxt, ids)"
    using effect_apply_kind_replays [OF kind effect_replay_ids [OF rp], of ?t] by auto
  then have "apply_projection_transition env (erp_projection rp1) (erp_lease_ids rp1) ?t =
      Inr (Some (p\<lparr>ep_status := ef_status nxt\<rparr>), ids)"
    using apply_projection_command [of ?t "ec_kind command" p] frame(3) p by (simp add: rp1_def)
  with env rp have "try_fold (effect_replay_transition env (ef_tenant_id e)) effect_replay_start (?ts @ [?t]) =
      Inr (rp1\<lparr>erp_projection := Some (p\<lparr>ep_status := ef_status nxt\<rparr>), erp_lease_ids := ids\<rparr>)"
    by (auto simp: try_fold_snoc and_then_eq_Inr effect_replay_transition_ok)
  moreover have "ef_tenant_id nxt = ef_tenant_id e" "ef_operation nxt = ef_operation e"
      "ef_idempotency_key nxt = ef_idempotency_key e" "ef_input nxt = ef_input e"
      "ef_input_sha256 nxt = ef_input_sha256 e" "ef_created_at_ms nxt = ef_created_at_ms e"
    by (subst frame(2), simp)+
  ultimately show ?thesis
    using valid len fields
    by (simp add: effect_validate_ok effect_commit_def frame(1) del: of_nat_Suc flip: seq_def)
qed

text \<open>The handler without the replay of the whole history, for a caller of the Effect's tenant.\<close>

definition effect_apply_once ::
  "effect_env \<Rightarrow> effect \<Rightarrow> effect_command \<Rightarrow> u64 \<Rightarrow> authority_context \<Rightarrow>
   (effect \<times> effect_apply_outcome) result" where
  "effect_apply_once env e command now authority =
     and_then (effect_recognizes_command env e command authority) (\<lambda>known.
     if known then Inr (e, EDuplicate)
     else
     and_then (ef_validate_application_time now) (\<lambda>_.
     if length (ef_transitions e) \<ge> MAX_EFFECT_TRANSITIONS then Inl (Effect E_too_many_transitions)
     else if now < et_applied_at_ms (last (ef_transitions e)) then Inl (Effect E_time_backwards)
     else
     and_then (ef_attributed_digest env (ee_attributed env) (actor authority) (tenant_id authority) command)
       (\<lambda>digest.
     and_then (effect_apply_kind e (ec_kind command) now (actor authority)) (\<lambda>(nxt, kind).
     let e' = effect_commit nxt command digest now (actor authority) kind in
     and_then (ef_encoded_size env e') (\<lambda>charge.
     Inr (e'\<lparr>ef_charge := charge\<rparr>, EApplied))))))"

lemma effect_apply_eq_once:
  assumes valid: "effect_validate env e = Inr ()"
    and sha: "\<And>b. length (ee_sha256 env b) = 32"
    and tenant: "ef_tenant_id e = tenant_id authority"
  shows "effect_apply env e command now authority = effect_apply_once env e command now authority"
proof (cases "effect_recognizes_command env e command authority = Inr False")
  case False
  then show ?thesis
    by (cases "effect_recognizes_command env e command authority")
      (simp_all add: effect_apply_def effect_apply_once_def)
next
  case new: True
  then have current: "ef_validate_authority authority = Inr ()"
    by (simp add: effect_recognizes_False ef_validate_authority_ok)
  from valid have ts: "ef_transitions e \<noteq> []" by (simp add: effect_validate_ok)
  show ?thesis
    unfolding effect_apply_def effect_apply_once_def new current and_then_simps if_False Let_def
  proof (intro and_then_cong refl if_cong, goal_cases)
    case (2 _ digest r)
    obtain nxt kind where r: "r = (nxt, kind)" by (cases r)
    from "2" have len: "length (ef_transitions e) < MAX_EFFECT_TRANSITIONS" and "now \<noteq> 0"
      and mono: "\<not> now < et_applied_at_ms (last (ef_transitions e))"
      and kind: "effect_apply_kind e (ec_kind command) now (actor authority) = Inr (nxt, kind)"
      by (auto simp: ef_validate_application_time_def r split: if_splits)
    then have small: "Suc (Suc (length (ef_transitions e))) < 2 ^ 64"
      by (simp add: MAX_EFFECT_TRANSITIONS_def)
    have "effect_validate env (effect_commit nxt command digest now (actor authority) kind) = Inr ()"
      using effect_commit_revalidates [OF valid sha tenant new \<open>now \<noteq> 0\<close> _ len mono kind] "2" by simp
    with next_sequence(1) [OF small] effect_apply_kind_frame(1) [OF kind] show ?case
      by (simp add: r effect_commit_def del: of_nat_Suc)
  qed (use ts in simp)
qed

lemma effect_apply_Duplicate:
  "effect_apply env e command now authority = Inr (e', EDuplicate) \<longleftrightarrow>
     effect_recognizes_command env e command authority = Inr True \<and> e' = e"
  by (auto simp: effect_apply_def and_then_eq_Inr Let_def split: if_splits)

lemma effect_apply_AppliedE:
  assumes "effect_apply env e command now authority = Inr (e', EApplied)"
  obtains t nxt kind where
    "effect_recognizes_command env e command authority = Inr False"
    "ef_attributed_digest env (ee_attributed env) (actor authority) (tenant_id authority) command
       = Inr (et_command_sha256 t)"
    "effect_apply_kind e (ec_kind command) now (actor authority) = Inr (nxt, kind)"
    "et_kind t = kind" "et_command_id t = ec_id command" "et_applied_at_ms t = now"
    "et_actor t = actor authority" "ef_transitions e' = ef_transitions e @ [t]"
    "ef_status e' = ef_status nxt" "ef_tenant_id e' = ef_tenant_id e"
    "effect_validate env e' = Inr ()" "ef_encoded_size env e' = Inr (ef_charge e')"
proof -
  from assms obtain digest nxt kind sq charge where facts:
    "effect_recognizes_command env e command authority = Inr False"
    "ef_attributed_digest env (ee_attributed env) (actor authority) (tenant_id authority) command = Inr digest"
    "effect_apply_kind e (ec_kind command) now (actor authority) = Inr (nxt, kind)"
    and run': "effect_validate env (nxt\<lparr>ef_transitions := ef_transitions nxt @
          [\<lparr>et_sequence = sq, et_command_id = ec_id command, et_command_sha256 = digest,
            et_applied_at_ms = now, et_actor = actor authority, et_kind = kind\<rparr>]\<rparr>) = Inr ()"
      "ef_encoded_size env (nxt\<lparr>ef_transitions := ef_transitions nxt @
          [\<lparr>et_sequence = sq, et_command_id = ec_id command, et_command_sha256 = digest,
            et_applied_at_ms = now, et_actor = actor authority, et_kind = kind\<rparr>]\<rparr>) = Inr charge"
      "e' = nxt\<lparr>ef_transitions := ef_transitions nxt @
          [\<lparr>et_sequence = sq, et_command_id = ec_id command, et_command_sha256 = digest,
            et_applied_at_ms = now, et_actor = actor authority, et_kind = kind\<rparr>],
          ef_charge := charge\<rparr>"
    by (auto simp: effect_apply_def and_then_eq_Inr ok_or_eq_Inr Let_def split: if_splits)
  moreover have "effect_validate env (x\<lparr>ef_charge := c\<rparr>) = Inr () \<longleftrightarrow> effect_validate env x = Inr ()"
    "ef_encoded_size env (x\<lparr>ef_charge := c\<rparr>) = ef_encoded_size env x" for x c
    by (simp_all add: effect_validate_ok ef_encoded_size_def effect_to_wire_def)
  moreover have "ef_tenant_id nxt = ef_tenant_id e"
    by (subst effect_apply_kind_frame(2) [OF facts(3)]) simp
  ultimately show thesis
    using effect_apply_kind_frame(1) [OF facts(3)]
    by (intro that [of "last (ef_transitions e')" nxt kind]) simp_all
qed

inductive effect_reachable :: "effect_env \<Rightarrow> effect \<Rightarrow> bool" for env where
  created: "effect_new env request now authority = Inr e \<Longrightarrow> effect_reachable env e"
| applied: "effect_reachable env e \<Longrightarrow>
    effect_apply env e command now authority = Inr (e', outcome) \<Longrightarrow> effect_reachable env e'"

definition effect_inv :: "effect_env \<Rightarrow> effect \<Rightarrow> bool" where
  "effect_inv env e \<longleftrightarrow> effect_validate env e = Inr () \<and> ef_encoded_size env e = Inr (ef_charge e)"

lemma effect_apply_inv:
  "effect_inv env e \<Longrightarrow> effect_apply env e command now authority = Inr (e', outcome) \<Longrightarrow>
   effect_inv env e'"
  by (cases outcome) (auto simp: effect_inv_def effect_apply_Duplicate elim!: effect_apply_AppliedE)

lemma effect_new_inv: "effect_new env request now authority = Inr e \<Longrightarrow> effect_inv env e"
  by (auto simp: effect_new_def effect_inv_def and_then_eq_Inr Let_def effect_validate_ok
      ef_encoded_size_def effect_to_wire_def)

lemma effect_reachable_inv: "effect_reachable env e \<Longrightarrow> effect_inv env e"
  by (induction rule: effect_reachable.induct) (blast intro: effect_new_inv effect_apply_inv)+

lemma effect_recognizes_committed:
  assumes "effect_recognizes_command env e command authority = Inr False"
    and "ef_attributed_digest env (ee_attributed env) (actor authority) (tenant_id authority) command
      = Inr (et_command_sha256 t)"
    and "ef_tenant_id e = tenant_id authority" "ef_tenant_id e' = ef_tenant_id e"
    and "ef_transitions e' = ef_transitions e @ [t]" and "et_command_id t = ec_id command"
  shows "effect_recognizes_command env e' command authority = Inr True"
proof -
  have "find (\<lambda>t. et_command_id t = ec_id command) (ef_transitions e') = Some t"
    using assms by (simp add: effect_recognizes_False find_append_new)
  moreover have "ef_validate_command env command = Inr ()" "ef_validate_authority authority = Inr ()"
    using assms(1) by (simp_all add: effect_recognizes_False ef_validate_authority_ok)
  ultimately show ?thesis
    using assms by (simp add: effect_recognizes_command_def)
qed

lemma effect_apply_kind_terminal:
  "es_is_terminal (ef_status e) \<Longrightarrow> \<exists>x. effect_apply_kind e kind now a = Inl x"
  by (cases "effect_apply_kind e kind now a"; cases kind)
    (auto simp: and_then_eq_Inr active_owned_lease_ok validate_unknown_ok
      split: if_splits effect_status.splits)

section \<open>The attempt protocol\<close>

text \<open>
  The abstract protocol of one side effect. A state counts the attempts made so far and carries what
  the next step depends on: when a new attempt is due, who holds the running attempt under which
  lease and until when, which lease a lost attempt had. Every step is labelled with the action that
  causes it, the time and the actor. Only an authoritative word that the attempt did not apply, from
  the holder in time or from a reconciliation of the lost attempt, leads back to a state in which a
  new attempt may start; the end of a lease never does.
\<close>

datatype attempt_state =
    Idle nat u64
  | Attempting nat string actor_identity u64
  | Lost nat string
  | Succeeded nat effect_receipt
  | Refused nat string
  | Withdrawn string

datatype verdict =
    Did_apply effect_receipt
  | Did_not_apply string "u64 option"
  | Cannot_tell string

datatype attempt_action =
    Start string u64
  | Renew string u64
  | Report string verdict
  | Expire string
  | Reconcile string nat verdict
  | Withdraw string

fun settled_as :: "nat \<Rightarrow> string \<Rightarrow> verdict \<Rightarrow> attempt_state" where
  "settled_as n l (Did_apply receipt) = Succeeded n receipt"
| "settled_as n l (Did_not_apply _ (Some due)) = Idle n due"
| "settled_as n l (Did_not_apply reason None) = Refused n reason"
| "settled_as n l (Cannot_tell _) = Lost n l"

fun due_no_earlier :: "u64 \<Rightarrow> verdict \<Rightarrow> bool" where
  "due_no_earlier now (Did_not_apply _ (Some due)) \<longleftrightarrow> now \<le> due"
| "due_no_earlier now _ \<longleftrightarrow> True"

fun authoritative :: "verdict \<Rightarrow> bool" where
  "authoritative (Cannot_tell _) \<longleftrightarrow> False"
| "authoritative _ \<longleftrightarrow> True"

inductive attempt_step ::
  "u64 \<Rightarrow> actor_identity \<Rightarrow> attempt_action \<Rightarrow> attempt_state \<Rightarrow> attempt_state \<Rightarrow> bool" where
  start: "due \<le> now \<Longrightarrow> unat until = unat now + unat d \<Longrightarrow>
    attempt_step now a (Start l d) (Idle n due) (Attempting (Suc n) l a until)"
| renew: "now < until \<Longrightarrow> until < later \<Longrightarrow> unat later = unat now + unat d \<Longrightarrow>
    attempt_step now a (Renew l d) (Attempting n l a until) (Attempting n l a later)"
| report: "now < until \<Longrightarrow> due_no_earlier now v \<Longrightarrow>
    attempt_step now a (Report l v) (Attempting n l a until) (settled_as n l v)"
| expire: "until \<le> now \<Longrightarrow>
    attempt_step now a (Expire l) (Attempting n l owner until) (Lost n l)"
| reconcile: "authoritative v \<Longrightarrow> due_no_earlier now v \<Longrightarrow>
    attempt_step now a (Reconcile l n v) (Lost n l) (settled_as n l v)"
| withdraw: "attempt_step now a (Withdraw reason) (Idle 0 due) (Withdrawn reason)"

inductive_simps attempt_step_simps:
  "attempt_step now a (Start l d) s s'"
  "attempt_step now a (Renew l d) s s'"
  "attempt_step now a (Report l v) s s'"
  "attempt_step now a (Expire l) s s'"
  "attempt_step now a (Reconcile l n v) s s'"
  "attempt_step now a (Withdraw reason) s s'"

inductive_cases to_idle: "attempt_step now a act s (Idle n due)"

fun abs_status :: "effect_status \<Rightarrow> attempt_state" where
  "abs_status (EsPending next_attempt not_before_ms) = Idle (unat next_attempt - 1) not_before_ms"
| "abs_status (EsClaimed lease) =
     Attempting (unat (el_attempt lease)) (el_id lease) (el_owner lease) (el_expires_at_ms lease)"
| "abs_status (EsUnknown attempt lease_id _) = Lost (unat attempt) lease_id"
| "abs_status (EsApplied attempt receipt) = Succeeded (unat attempt) receipt"
| "abs_status (EsRejected attempt reason_code) = Refused (unat attempt) reason_code"
| "abs_status (EsCancelled reason_code) = Withdrawn reason_code"

fun abs_action :: "effect_command_kind \<Rightarrow> attempt_action" where
  "abs_action (EcClaim lease_id d) = Start lease_id d"
| "abs_action (EcRenewLease lease_id d) = Renew lease_id d"
| "abs_action (EcRecordApplied lease_id receipt) = Report lease_id (Did_apply receipt)"
| "abs_action (EcRecordNotApplied lease_id reason_code retry) =
     Report lease_id (Did_not_apply reason_code retry)"
| "abs_action (EcRecordUnknown lease_id reason_code) = Report lease_id (Cannot_tell reason_code)"
| "abs_action (EcExpireLease lease_id) = Expire lease_id"
| "abs_action (EcReconcileApplied lease_id attempt receipt) =
     Reconcile lease_id (unat attempt) (Did_apply receipt)"
| "abs_action (EcReconcileNotApplied lease_id attempt reason_code retry) =
     Reconcile lease_id (unat attempt) (Did_not_apply reason_code retry)"
| "abs_action (EcCancel reason_code) = Withdraw reason_code"

text \<open>A new attempt becomes possible only on an authoritative word that the last one did not apply.\<close>

lemma idle_only_when_not_applied:
  assumes "attempt_step now a act s (Idle n due)"
  shows "\<exists>reason l. act = Report l (Did_not_apply reason (Some due)) \<and>
      (\<exists>until. s = Attempting n l a until \<and> now < until) \<or>
    act = Reconcile l n (Did_not_apply reason (Some due)) \<and> s = Lost n l"
proof -
  have settled: "\<exists>reason. v = Did_not_apply reason (Some due) \<and> n = k" if "Idle n due = settled_as k l v" for k l v
    using that by (cases "(k, l, v)" rule: settled_as.cases) simp_all
  from assms show ?thesis
    by (cases rule: to_idle) (auto dest!: settled)
qed

lemma claim_counts_attempt: "ef_validate_attempt n = Inr () \<Longrightarrow> unat n = Suc (unat n - 1)"
  by (simp add: ef_validate_attempt_def unat_gt_0 split: if_splits)

lemma settled_not_applied_abs:
  assumes "settled_not_applied n r retry = Inr st"
  shows "abs_status st = settled_as (unat n) l (Did_not_apply r retry)"
  using assms by (cases retry) (auto simp: settled_not_applied_ok)

lemma retry_time_due: "ef_validate_retry_time retry now = Inr () \<Longrightarrow> due_no_earlier now (Did_not_apply r retry)"
  by (cases retry) (auto simp: ef_validate_retry_time_def split: if_splits)

lemma lease_expiration_unat: "ef_lease_expiration now d = Inr until \<Longrightarrow> unat until = unat now + unat d"
  by (auto simp: ef_lease_expiration_def checked_add_Some ok_or_eq_Inr)

lemma effect_apply_kind_protocol:
  assumes "effect_apply_kind e kind now a = Inr (e', tk)"
  shows "attempt_step now a (abs_action kind) (abs_status (ef_status e)) (abs_status (ef_status e'))"
proof -
  note guards = and_then_eq_Inr active_owned_lease_ok validate_unknown_ok
  show ?thesis
  proof (cases kind)
    case (EcClaim lease_id d)
    with assms show ?thesis
      by (auto simp: guards attempt_step_simps not_less split: if_splits effect_status.splits
          intro: claim_counts_attempt [simplified] lease_expiration_unat)
  qed (use assms in \<open>auto simp: guards attempt_step_simps not_less not_le
      split: if_splits effect_status.splits
      dest: lease_expiration_unat retry_time_due settled_not_applied_abs\<close>)
qed

lemma effect_apply_kind_pending:
  assumes "effect_apply_kind e kind now a = Inr (e', tk)" and "ef_status e' = EsPending n due"
  shows "\<exists>l reason. kind = EcRecordNotApplied l reason (Some due) \<or>
    (\<exists>k. kind = EcReconcileNotApplied l k reason (Some due) \<and> unat n = unat k + 1 \<and>
      abs_status (ef_status e) = Lost (unat k) l)"
proof -
  have settled: "retry = Some due \<and> unat n = unat k + 1"
    if "settled_not_applied k r retry = Inr (EsPending n due)" for k r retry
    using that by (cases retry) (simp_all add: settled_not_applied_ok)
  from assms show ?thesis
    by (cases kind) (auto simp: and_then_eq_Inr active_owned_lease_ok validate_unknown_ok
        split: if_splits effect_status.splits dest!: settled)
qed

fun claim_attempt :: "effect_transition_kind \<Rightarrow> nat list" where
  "claim_attempt (EtClaimed _ attempt _) = [unat attempt]"
| "claim_attempt _ = []"

fun attempts_made :: "effect_status \<Rightarrow> nat" where
  "attempts_made (EsPending next_attempt _) = unat next_attempt - 1"
| "attempts_made (EsClaimed lease) = unat (el_attempt lease)"
| "attempts_made (EsUnknown attempt _ _) = unat attempt"
| "attempts_made (EsApplied attempt _) = unat attempt"
| "attempts_made (EsRejected attempt _) = unat attempt"
| "attempts_made (EsCancelled _) = 0"

lemma effect_apply_kind_attempts:
  assumes "effect_apply_kind e kind now a = Inr (e', tk)"
  shows "[1..<Suc (attempts_made (ef_status e'))] =
    [1..<Suc (attempts_made (ef_status e))] @ claim_attempt tk"
proof -
  note guards = and_then_eq_Inr active_owned_lease_ok validate_unknown_ok settled_not_applied_ok
  have claim: "[1..<Suc (unat n)] = [1..<Suc (unat n - 1)] @ [unat n]" if "ef_validate_attempt n = Inr ()" for n
    using claim_counts_attempt [OF that] by (metis One_nat_def le_add1 plus_1_eq_Suc upt_Suc_append)
  show ?thesis
    using assms claim
    by (cases kind) (auto simp: guards simp del: upt_Suc split: if_splits effect_status.splits option.splits)
qed

lemma effect_attempts_in_order:
  "effect_reachable env e \<Longrightarrow>
   concat (map (claim_attempt \<circ> et_kind) (ef_transitions e)) = [1..<Suc (attempts_made (ef_status e))]"
proof (induction rule: effect_reachable.induct)
  case (created request now authority e)
  then show ?case by (auto simp: effect_new_def and_then_eq_Inr Let_def)
next
  case (applied e command now authority e' outcome)
  show ?case
  proof (cases outcome)
    case EApplied
    from applied.hyps(2) [unfolded this] obtain t nxt kind where
      "effect_apply_kind e (ec_kind command) now (actor authority) = Inr (nxt, kind)"
      "et_kind t = kind" "ef_transitions e' = ef_transitions e @ [t]" "ef_status e' = ef_status nxt"
      by (rule effect_apply_AppliedE)
    with applied.IH effect_apply_kind_attempts show ?thesis by fastforce
  qed (use applied in \<open>auto simp: effect_apply_Duplicate\<close>)
qed

fun lease_operation :: "effect_command_kind \<Rightarrow> string option" where
  "lease_operation (EcRenewLease i _) = Some i"
| "lease_operation (EcRecordApplied i _) = Some i"
| "lease_operation (EcRecordNotApplied i _ _) = Some i"
| "lease_operation (EcRecordUnknown i _) = Some i"
| "lease_operation _ = None"

lemma lease_operation_check:
  assumes "effect_apply env e command now authority = Inr (e', EApplied)"
    and "lease_operation (ec_kind command) = Some i"
  obtains lease where "active_owned_lease (ef_status e) i (actor authority) now = Inr lease"
  using assms(1)
  by (rule effect_apply_AppliedE) (use assms(2) in \<open>cases "ec_kind command"; auto simp: and_then_eq_Inr\<close>)

section \<open>A concrete Effect\<close>

definition demo_effect_sha256 :: "bytes \<Rightarrow> bytes" where
  "demo_effect_sha256 b = take 32 (b @ replicate 32 CHR 0x00)"

definition demo_effect_env :: effect_env where
  "demo_effect_env = \<lparr>ee_create = (\<lambda>(a, tn, q). ([eq_command_id q], True)),
     ee_attributed = (\<lambda>(a, tn, c). ([(if tn = None then CHR ''N'' else CHR ''S'') # ec_id c], True)),
     ee_command = (\<lambda>c. ([ec_id c], True)), ee_value = (\<lambda>v. ([''null''], True)),
     ee_effect = (\<lambda>w. ([''effect''], True)), ee_sha256 = demo_effect_sha256\<rparr>"

definition demo_operation :: effect_operation where
  "demo_operation = \<lparr>eo_capability = ''mail'', eo_operation = ''send''\<rparr>"

definition demo_effect_request :: effect_create_request where
  "demo_effect_request = \<lparr>eq_command_id = ''create'', eq_operation = demo_operation,
     eq_idempotency_key = ''key'', eq_input = Null, eq_not_before_ms = 5\<rparr>"

definition demo_effect_event :: "u64 \<Rightarrow> string \<Rightarrow> bytes \<Rightarrow> u64 \<Rightarrow> effect_transition_kind \<Rightarrow> effect_transition" where
  "demo_effect_event n i b now kind = \<lparr>et_sequence = n, et_command_id = i,
     et_command_sha256 = lower_hex (demo_effect_sha256 b), et_applied_at_ms = now,
     et_actor = LocalProcess, et_kind = kind\<rparr>"

definition demo_pending :: effect where
  "demo_pending = \<lparr>ef_tenant_id = None, ef_operation = demo_operation, ef_idempotency_key = ''key'',
     ef_input = Null, ef_input_sha256 = lower_hex (demo_effect_sha256 ''null''), ef_created_at_ms = 5,
     ef_status = EsPending 1 5,
     ef_transitions = [demo_effect_event 1 ''create'' ''create'' 5
       (EtCreated None demo_operation ''key'' Null (lower_hex (demo_effect_sha256 ''null'')) 5)],
     ef_charge = 6\<rparr>"

definition demo_take :: effect_command where
  "demo_take = \<lparr>ec_id = ''take'', ec_kind = EcClaim ''l1'' 2000\<rparr>"

definition demo_taken :: effect where
  "demo_taken = demo_pending\<lparr>
     ef_status := EsClaimed \<lparr>el_id = ''l1'', el_owner = LocalProcess, el_attempt = 1,
       el_claimed_at_ms = 6, el_expires_at_ms = 2006\<rparr>,
     ef_transitions := ef_transitions demo_pending @ [demo_effect_event 2 ''take'' ''Ntake'' 6 (EtClaimed ''l1'' 1 2000)]\<rparr>"

definition demo_expire :: effect_command where
  "demo_expire = \<lparr>ec_id = ''expire'', ec_kind = EcExpireLease ''l1''\<rparr>"

definition demo_unknown :: effect where
  "demo_unknown = demo_taken\<lparr>ef_status := EsUnknown 1 ''l1'' ''lease.expired'',
     ef_transitions := ef_transitions demo_taken @
       [demo_effect_event 3 ''expire'' ''Nexpire'' 2006 (EtBecameUnknown ''l1'' 1 ''lease.expired'' True)]\<rparr>"

definition demo_report :: effect_command where
  "demo_report = \<lparr>ec_id = ''report'', ec_kind = EcRecordUnknown ''l1'' ''reason''\<rparr>"

definition demo_reported :: effect where
  "demo_reported = demo_taken\<lparr>ef_status := EsUnknown 1 ''l1'' ''reason'',
     ef_transitions := ef_transitions demo_taken @
       [demo_effect_event 3 ''report'' ''Nreport'' 7 (EtBecameUnknown ''l1'' 1 ''reason'' False)]\<rparr>"

definition demo_reconcile :: effect_command where
  "demo_reconcile = \<lparr>ec_id = ''settle'', ec_kind = EcReconcileNotApplied ''l1'' 1 ''reason'' (Some 3000)\<rparr>"

definition demo_retryable :: effect where
  "demo_retryable = demo_unknown\<lparr>ef_status := EsPending 2 3000,
     ef_transitions := ef_transitions demo_unknown @
       [demo_effect_event 4 ''settle'' ''Nsettle'' 2500 (EtNotApplied ''l1'' 1 ''reason'' (Some 3000) True)]\<rparr>"

lemmas demo_effect_defs = demo_operation_def demo_effect_request_def demo_effect_event_def demo_pending_def
  demo_take_def demo_taken_def demo_expire_def demo_unknown_def demo_report_def demo_reported_def
  demo_reconcile_def demo_retryable_def

lemma demo_effect_sha [simp]:
  "length (demo_effect_sha256 b) = 32" "ee_sha256 demo_effect_env = demo_effect_sha256"
  "ef_lower_sha256 demo_effect_env b = lower_hex (demo_effect_sha256 b)"
  by (simp_all add: demo_effect_sha256_def demo_effect_env_def ef_lower_sha256_def)

lemma demo_effect_digest [simp]: "ef_validate_digest (lower_hex (demo_effect_sha256 b)) = Inr ()"
  using lower_hex_is_lower_hex by (simp add: ef_validate_digest_def)

lemma demo_effect_fields [simp]:
  "ef_validate_identity ''create'' = Inr ()" "ef_validate_identity ''key'' = Inr ()"
  "ef_validate_identity ''take'' = Inr ()" "ef_validate_identity ''l1'' = Inr ()"
  "ef_validate_identity ''expire'' = Inr ()" "ef_validate_identity ''report'' = Inr ()"
  "ef_validate_identity ''settle'' = Inr ()"
  "validate_capability_name ''mail'' = Inr ()" "validate_capability_name ''send'' = Inr ()"
  "validate_capability_name ''reason'' = Inr ()" "ef_validate_lease_duration 2000 = Inr ()"
  "ef_validate_actor LocalProcess = Inr ()" "ef_validate_authority local_process = Inr ()"
  "ef_validate_attempt 1 = Inr ()" "ef_validate_tenant None = Inr ()"
  by (simp_all add: ef_validate_identity_def validate_capability_name_def string_eval
      ef_validate_lease_duration_def ef_validate_authority_def ef_validate_attempt_def
      ef_validate_tenant_def ef_validate_actor_def actor_validate_current_def
      validate_current_message_def MAX_EFFECT_IDENTITY_BYTES_def MIN_EFFECT_LEASE_MS_def
      MAX_EFFECT_LEASE_MS_def MAX_EFFECT_ATTEMPTS_def)

lemmas effect_size_eval = bounded_serialized_size_def to_writer_def counting_write_def
  usize_checked_add_def to_vec_def MAX_EFFECT_COMMAND_JSON_BYTES_def MAX_EFFECT_JSON_BYTES_def
  MAX_EFFECT_INPUT_BYTES_def

lemma demo_effect_encodings [simp]:
  "length (ec_id c) < 1024 \<Longrightarrow>
   ef_attributed_digest demo_effect_env (ee_attributed demo_effect_env) LocalProcess None c =
     Inr (lower_hex (demo_effect_sha256 (CHR ''N'' # ec_id c)))"
  "eq_command_id q \<noteq> [] \<Longrightarrow> length (eq_command_id q) < 32 \<Longrightarrow>
   ef_attributed_digest demo_effect_env (ee_create demo_effect_env) LocalProcess None q =
     Inr (lower_hex (demo_effect_sha256 (eq_command_id q)))"
  "length (ec_id c) < 1024 \<Longrightarrow> ef_validate_identity (ec_id c) = Inr () \<Longrightarrow>
   ef_validate_command demo_effect_env c = Inr ()"
  "ef_encoded_size demo_effect_env e = Inr 6"
  by (simp_all add: ef_attributed_digest_def demo_effect_env_def effect_size_eval ef_validate_command_def
      ef_encoded_size_def ef_lower_sha256_def)

lemma demo_effect_input [simp]:
  "ef_validate_input demo_effect_env Null = Inr ()"
  "value_sha256 demo_effect_env Null = Inr (lower_hex (demo_effect_sha256 ''null''))"
proof -
  show input: "ef_validate_input demo_effect_env Null = Inr ()"
    by (simp add: ef_validate_input_def validate_value_shape_eq MAX_JSON_DEPTH_def MAX_JSON_NODES_def
        demo_effect_env_def effect_size_eval)
  then show "value_sha256 demo_effect_env Null = Inr (lower_hex (demo_effect_sha256 ''null''))"
    by (simp add: value_sha256_def) (simp add: demo_effect_env_def to_vec_def)
qed

lemmas effect_eval = MAX_EFFECT_TRANSITIONS_def ef_validate_application_time_def effect_validate_def
  effect_replay_transition_def effect_replay_envelope_def effect_replay_start_def
  apply_projection_transition_def ef_transition_digest_def checked_add_def u64_of_usize_def
  effect_recognizes_command_def effect_new_def effect_apply_def ef_validate_create_request_def
  ef_validate_operation_def validate_new_lease_id_def active_owned_lease_def ef_lease_expiration_def
  ef_validate_retry_time_def validate_unknown_def settled_not_applied_def MAX_EFFECT_ATTEMPTS_def

lemma demo_effect_new: "effect_new demo_effect_env demo_effect_request 5 local_process = Inr demo_pending"
  by (simp add: demo_effect_defs effect_eval)

lemma demo_take_applied:
  "effect_apply demo_effect_env demo_pending demo_take 6 local_process = Inr (demo_taken, EApplied)"
  by (simp add: demo_effect_defs effect_eval)

lemma demo_expire_applied:
  "effect_apply demo_effect_env demo_taken demo_expire 2006 local_process = Inr (demo_unknown, EApplied)"
  by (simp add: demo_effect_defs effect_eval)

lemma demo_report_applied:
  "effect_apply demo_effect_env demo_taken demo_report 7 local_process = Inr (demo_reported, EApplied)"
  by (simp add: demo_effect_defs effect_eval)

lemma demo_reconcile_applied:
  "effect_apply demo_effect_env demo_unknown demo_reconcile 2500 local_process = Inr (demo_retryable, EApplied)"
  by (simp add: demo_effect_defs effect_eval)

lemma demo_effect_reachable:
  "effect_reachable demo_effect_env demo_pending" "effect_reachable demo_effect_env demo_taken"
proof -
  show pending: "effect_reachable demo_effect_env demo_pending"
    using demo_effect_new by (rule effect_reachable.created)
  show "effect_reachable demo_effect_env demo_taken"
    using pending demo_take_applied by (rule effect_reachable.applied)
qed

section \<open>Properties\<close>

text \<open>
  C3: Every applied command is the step of the labelled attempt protocol that its kind names, at the
  call's time and by the call's actor, and every other successful call leaves the Effect as it is. So
  an attempt starts only when it is due, is the next number and lasts for the requested duration; only
  its holder renews it or reports on it, and only in time; a lease that ran out makes the attempt
  lost and never pending; a lost attempt is left only by an authoritative reconciliation that names
  its lease and number; and an Effect becomes pending again only on an authoritative word that the
  last attempt did not apply.
\<close>

theorem effect_refines_attempt_protocol:
  assumes "effect_apply env e command now authority = Inr (e', outcome)"
  shows "(if outcome = EApplied
      then attempt_step now (actor authority) (abs_action (ec_kind command))
        (abs_status (ef_status e)) (abs_status (ef_status e'))
      else e' = e) \<and>
    (\<forall>n due. outcome = EApplied \<and> ef_status e' = EsPending n due \<longrightarrow>
      (\<exists>l reason. ec_kind command = EcRecordNotApplied l reason (Some due) \<or>
        (\<exists>k. ec_kind command = EcReconcileNotApplied l k reason (Some due) \<and> unat n = unat k + 1 \<and>
          abs_status (ef_status e) = Lost (unat k) l)))"
proof (cases outcome)
  case EApplied
  with assms obtain nxt kind where kind:
    "effect_apply_kind e (ec_kind command) now (actor authority) = Inr (nxt, kind)"
    "ef_status e' = ef_status nxt"
    by (auto elim!: effect_apply_AppliedE)
  from kind have step: "attempt_step now (actor authority) (abs_action (ec_kind command))
      (abs_status (ef_status e)) (abs_status (ef_status e'))"
    by (simp add: effect_apply_kind_protocol)
  with EApplied kind show ?thesis
    by (auto dest: effect_apply_kind_pending)
qed (use assms in \<open>auto simp: effect_apply_Duplicate\<close>)

theorem effect_refines_attempt_protocol_witness:
  "attempt_step 2006 LocalProcess (Expire ''l1'') (Attempting 1 ''l1'' LocalProcess 2006) (Lost 1 ''l1'') \<and>
   attempt_step 2500 LocalProcess (Reconcile ''l1'' 1 (Did_not_apply ''reason'' (Some 3000)))
     (Lost 1 ''l1'') (Idle 1 3000)"
  using effect_refines_attempt_protocol [OF demo_expire_applied]
    effect_refines_attempt_protocol [OF demo_reconcile_applied]
  by (simp add: demo_effect_defs)

text \<open>
  An Unknown attempt is never made retryable implicitly: the only commands that change an Unknown
  Effect are reconciliations that name its exact lease and attempt, and they end applied, rejected,
  or pending with the next attempt at the time the reconciliation names.
\<close>

theorem effect_unknown_needs_reconciliation:
  assumes "ef_status e = EsUnknown attempt lease_id reason"
    and "effect_apply env e command now authority = Inr (e', EApplied)"
  shows "(\<exists>receipt. ec_kind command = EcReconcileApplied lease_id attempt receipt \<and>
      ef_status e' = EsApplied attempt receipt) \<or>
    (\<exists>r. ec_kind command = EcReconcileNotApplied lease_id attempt r None \<and>
      ef_status e' = EsRejected attempt r) \<or>
    (\<exists>r at. ec_kind command = EcReconcileNotApplied lease_id attempt r (Some at) \<and>
      ef_status e' = EsPending (attempt + 1) at)"
proof -
  have step: "m = n + 1" if "unat m = unat n + 1" for m n :: u32
    using that by (metis checked_add_Some checked_add_def option.distinct(1) option.inject unsigned_1)
  from assms(2) obtain nxt kind where
    "effect_apply_kind e (ec_kind command) now (actor authority) = Inr (nxt, kind)"
    "ef_status e' = ef_status nxt" by (rule effect_apply_AppliedE)
  with assms(1) step show ?thesis
    by (cases "ec_kind command")
      (auto simp: and_then_eq_Inr active_owned_lease_ok validate_unknown_ok settled_not_applied_ok
        split: if_splits option.splits)
qed

theorem effect_unknown_needs_reconciliation_witness:
  "ef_status demo_retryable = EsPending 2 3000"
proof -
  have "ef_status demo_unknown = EsUnknown 1 ''l1'' ''lease.expired''" by (simp add: demo_effect_defs)
  from effect_unknown_needs_reconciliation [OF this demo_reconcile_applied] show ?thesis
    by (auto simp: demo_effect_defs)
qed

text \<open>
  Expiring a lease is possible only at or after its boundary and with its exact identity, and always
  leads to Unknown, never back to Pending.
\<close>

theorem effect_expiry_is_unknown:
  assumes "effect_apply env e command now authority = Inr (e', EApplied)"
    and "ec_kind command = EcExpireLease lease_id"
  shows "\<exists>lease. ef_status e = EsClaimed lease \<and> el_id lease = lease_id \<and> el_expires_at_ms lease \<le> now \<and>
    ef_status e' = EsUnknown (el_attempt lease) lease_id ''lease.expired''"
  using assms
  by (auto elim!: effect_apply_AppliedE split: effect_status.splits if_splits)

theorem effect_expiry_is_unknown_witness:
  "ef_status demo_unknown = EsUnknown 1 ''l1'' ''lease.expired''"
  using effect_expiry_is_unknown [OF demo_expire_applied, of "''l1''"] by (auto simp: demo_effect_defs)

text \<open>
  In every Effect the program can hold, the claims in its history carry the attempt numbers 1, 2, 3
  and so on, without gaps or repetitions, up to the number of attempts its status records.
\<close>

theorem effect_attempts_sequential:
  assumes "effect_reachable env e"
  shows "concat (map (claim_attempt \<circ> et_kind) (ef_transitions e)) =
    [1..<Suc (attempts_made (ef_status e))]"
  using effect_attempts_in_order [OF assms] .

theorem effect_attempts_sequential_witness:
  "concat (map (claim_attempt \<circ> et_kind) (ef_transitions demo_taken)) = [1]"
  using effect_attempts_sequential [OF demo_effect_reachable(2)] by (simp add: demo_effect_defs)

text \<open>
  A caller of another tenant can neither change an Effect nor have a command taken for a duplicate:
  when the digest separates the two tenants, every command is rejected. The rejection comes from
  the digest check of the replay, because \<open>recognizes_command\<close> answers no instead of failing.
\<close>

theorem effect_tenant_isolation:
  assumes "ef_tenant_id e \<noteq> tenant_id authority"
    and separates: "\<And>x y. to_vec (ee_attributed env) (actor authority, ef_tenant_id e, command) = Some x \<Longrightarrow>
      to_vec (ee_attributed env) (actor authority, tenant_id authority, command) = Some y \<Longrightarrow>
      ee_sha256 env x \<noteq> ee_sha256 env y"
  shows "\<exists>x. effect_apply env e command now authority = Inl x"
proof (rule ccontr)
  assume "\<not> ?thesis"
  then obtain e' outcome where ok: "effect_apply env e command now authority = Inr (e', outcome)"
    by (cases "effect_apply env e command now authority") auto
  have "effect_recognizes_command env e command authority \<noteq> Inr True"
    using assms(1) by (auto simp: effect_recognizes_command_def and_then_eq_Inr)
  with ok have "outcome = EApplied" by (cases outcome) (auto simp: effect_apply_Duplicate)
  with ok obtain t nxt kind where
    digest: "ef_attributed_digest env (ee_attributed env) (actor authority) (tenant_id authority) command
       = Inr (et_command_sha256 t)"
    and kind: "effect_apply_kind e (ec_kind command) now (actor authority) = Inr (nxt, kind)"
    and t: "et_kind t = kind" "et_command_id t = ec_id command" "et_actor t = actor authority"
    and e': "ef_transitions e' = ef_transitions e @ [t]" "ef_tenant_id e' = ef_tenant_id e"
    and valid: "effect_validate env e' = Inr ()"
    by (auto elim: effect_apply_AppliedE)
  from valid e' have "ef_transition_digest env t (ef_tenant_id e) = Inr (et_command_sha256 t)"
    by (auto simp: effect_validate_ok try_fold_snoc and_then_eq_Inr effect_replay_transition_ok
        effect_replay_envelope_ok)
  with digest effect_apply_kind_frame(3) [OF kind] t separates show False
    by (auto simp: ef_transition_digest_command ef_attributed_digest_def and_then_eq_Inr ok_or_eq_Inr
        ef_lower_sha256_def split: if_splits) (metis lower_hex_inj)
qed

theorem effect_tenant_isolation_witness:
  "\<exists>x. effect_apply demo_effect_env demo_pending demo_take 6 (local_process\<lparr>tenant_id := Some ''t''\<rparr>) = Inl x"
  by (rule effect_tenant_isolation)
    (auto simp: demo_effect_defs demo_effect_env_def to_vec_def demo_effect_sha256_def)

text \<open>
  Execution is fenced: two lease operations (renew, record applied, not applied or unknown) accepted
  on the same state name the same lease and come from the same worker.
\<close>

theorem effect_owner_exclusive:
  assumes "effect_apply env e command now authority = Inr (e1, EApplied)"
    and "lease_operation (ec_kind command) = Some i"
    and "effect_apply env e command' now' authority' = Inr (e2, EApplied)"
    and "lease_operation (ec_kind command') = Some i'"
  shows "i' = i \<and> actor authority' = actor authority"
proof -
  from assms(1,2) obtain lease where one: "active_owned_lease (ef_status e) i (actor authority) now = Inr lease"
    by (rule lease_operation_check)
  from assms(3,4) obtain lease' where "active_owned_lease (ef_status e) i' (actor authority') now' = Inr lease'"
    by (rule lease_operation_check)
  from effect_fence.exclusive [OF one this] show ?thesis by auto
qed

theorem effect_owner_exclusive_witness:
  "\<not> (\<exists>e2. effect_apply demo_effect_env demo_taken \<lparr>ec_id = ''x'', ec_kind = EcRecordUnknown ''l2'' ''reason''\<rparr> 8
     local_process = Inr (e2, EApplied))"
proof
  assume "\<exists>e2. effect_apply demo_effect_env demo_taken \<lparr>ec_id = ''x'', ec_kind = EcRecordUnknown ''l2'' ''reason''\<rparr> 8
    local_process = Inr (e2, EApplied)"
  then obtain e2 where other: "effect_apply demo_effect_env demo_taken
    \<lparr>ec_id = ''x'', ec_kind = EcRecordUnknown ''l2'' ''reason''\<rparr> 8 local_process = Inr (e2, EApplied)" ..
  have "lease_operation (ec_kind demo_report) = Some ''l1''" by (simp add: demo_report_def)
  from effect_owner_exclusive [OF demo_report_applied this other, of "''l2''"] show False by simp
qed

text \<open>
  For a caller of the Effect's tenant, \<open>effect_apply\<close> equals the handler that does not replay the
  history.
\<close>

theorem effect_apply_replay_redundant:
  assumes "effect_reachable env e" and "\<And>b. length (ee_sha256 env b) = 32"
    and "ef_tenant_id e = tenant_id authority"
  shows "effect_apply env e command now authority = effect_apply_once env e command now authority"
  using effect_reachable_inv [OF assms(1)] assms(2,3)
  by (intro effect_apply_eq_once) (simp_all add: effect_inv_def)

theorem effect_apply_replay_redundant_witness:
  "effect_apply demo_effect_env demo_pending demo_take 6 local_process =
     effect_apply_once demo_effect_env demo_pending demo_take 6 local_process"
  by (rule effect_apply_replay_redundant [OF demo_effect_reachable(1)]) (simp_all add: demo_effect_defs)

text \<open>
  A command repeated by the same authority after it succeeded returns Duplicate and changes nothing.
\<close>

theorem effect_apply_idempotent:
  assumes "effect_apply env e command now authority = Inr (e', outcome)"
    and "ef_tenant_id e = tenant_id authority"
  shows "effect_apply env e' command now' authority = Inr (e', EDuplicate)"
proof (cases outcome)
  case EApplied
  with assms show ?thesis
    by (auto elim!: effect_apply_AppliedE simp: effect_apply_Duplicate intro: effect_recognizes_committed)
qed (use assms in \<open>auto simp: effect_apply_Duplicate\<close>)

theorem effect_apply_idempotent_witness:
  "effect_apply demo_effect_env demo_taken demo_take 9 local_process = Inr (demo_taken, EDuplicate)"
  by (rule effect_apply_idempotent [OF demo_take_applied]) (simp add: demo_effect_defs)

text \<open>
  Every Effect the program can hold is read back from its serialised form as the same Effect.
\<close>

theorem effect_wire_roundtrip:
  assumes "effect_reachable env e"
  shows "effect_from_wire env (effect_to_wire e) = Inr e"
proof -
  define e0 where "e0 = e\<lparr>ef_charge := 0\<rparr>"
  have "effect_from_wire env (effect_to_wire e) =
      and_then (effect_validate env e0) (\<lambda>_. and_then (ef_encoded_size env e0) (\<lambda>c. Inr (e0\<lparr>ef_charge := c\<rparr>)))"
    by (cases e) (simp add: e0_def effect_from_wire_def effect_to_wire_def Let_def)
  moreover have "effect_validate env e0 = Inr ()" "ef_encoded_size env e0 = Inr (ef_charge e)"
    using effect_reachable_inv [OF assms]
    by (simp_all add: e0_def effect_inv_def effect_validate_ok ef_encoded_size_def effect_to_wire_def)
  ultimately show ?thesis by (simp add: e0_def)
qed

theorem effect_wire_roundtrip_witness:
  "effect_from_wire demo_effect_env (effect_to_wire demo_taken) = Inr demo_taken"
  using effect_wire_roundtrip [OF demo_effect_reachable(2)] .

text \<open>
  Unlike Workflow Runs and Handoffs, an Effect has no settlement reserve: with 4096 transitions no
  command is applied any more, so a claimed Effect that reached the limit by renewals can neither be
  settled nor expired.
\<close>

theorem effect_full_is_stuck:
  assumes "MAX_EFFECT_TRANSITIONS \<le> length (ef_transitions e)"
  shows "effect_apply env e command now authority \<noteq> Inr (e', EApplied)"
  using assms by (auto simp: effect_apply_def and_then_eq_Inr split: if_splits)

theorem effect_full_is_stuck_witness:
  "\<not> (\<exists>e'. effect_apply demo_effect_env
     (demo_taken\<lparr>ef_transitions := replicate 4096 (hd (ef_transitions demo_taken))\<rparr>) demo_expire 2006 local_process
     = Inr (e', EApplied))"
  by (simp add: effect_full_is_stuck MAX_EFFECT_TRANSITIONS_def)

end
