(* ===== verification/Effect_Store.thy ===== *)
theory Effect_Store
  imports Effect Revision_Store
begin

text \<open>
  The Effect ledger of \<^verbatim>\<open>effect/coordinator.rs\<close>, the engine above it (\<^verbatim>\<open>effect/engine.rs\<close>, which
  passes every call on) and the check that consumers run on the pages of any ledger
  (\<^verbatim>\<open>effect/page.rs\<close>). Beside the revisioned snapshots the ledger keeps an index from the tenant,
  the capability, the operation and the idempotency key to the Effect that owns them.
\<close>

section \<open>Snapshots, results and pages\<close>

definition MAX_EFFECT_PAGE :: nat where "MAX_EFFECT_PAGE = 256"

record effect_snapshot =
  esn_id :: string
  esn_tenant_id :: "string option"
  esn_revision :: u64
  esn_effect :: effect

record effect_page =
  epg_effects :: "effect_snapshot list"
  epg_next_cursor :: "string option"
  epg_has_more :: bool

record effect_command_result =
  ecr_snapshot :: effect_snapshot
  ecr_outcome :: effect_apply_outcome

record effect_due_lease =
  edl_effect_id :: string
  edl_tenant_id :: "string option"
  edl_revision :: u64
  edl_lease_id :: string
  edl_attempt :: u32
  edl_expires_at_ms :: u64

record effect_due_scan_page =
  edp_due :: "effect_due_lease list"
  edp_next_after_effect_id :: "string option"
  edp_has_more :: bool
  edp_scanned :: usize

type_synonym effect_coordinate = "string \<times> string \<times> string \<times> string"

record effect_state =
  mes_effects :: "effect_snapshot store"
  mes_idempotency :: "(effect_coordinate, string) btree_map"

definition effect_state_empty :: effect_state where
  "effect_state_empty = \<lparr>mes_effects = [], mes_idempotency = []\<rparr>"

section \<open>Guards\<close>

definition ef_validate_access :: "string \<Rightarrow> authority_context \<Rightarrow> unit result" where
  "ef_validate_access effect_id authority =
     and_then (ef_validate_authority authority) (\<lambda>_. ef_validate_identity effect_id)"

definition ef_validate_status_filter :: "string \<Rightarrow> unit result" where
  "ef_validate_status_filter status =
     (if status \<in> {''pending'', ''claimed'', ''unknown'', ''applied'', ''rejected'', ''cancelled''}
      then Inr () else Inl (Effect (E_store Unknown_status_filter)))"

definition ef_validate_list ::
  "string option \<Rightarrow> string option \<Rightarrow> usize \<Rightarrow> authority_context \<Rightarrow> unit result" where
  "ef_validate_list status after limit authority =
     and_then (ef_validate_authority authority) (\<lambda>_.
     and_then (case status of None \<Rightarrow> Inr () | Some s \<Rightarrow> ef_validate_status_filter s) (\<lambda>_.
     and_then (case after of None \<Rightarrow> Inr () | Some i \<Rightarrow> ef_validate_identity i) (\<lambda>_.
     if \<not> (1 \<le> limit \<and> limit \<le> MAX_EFFECT_PAGE) then Inl (ef_err Bad_page_limit) else Inr ())))"

definition ef_validate_due_scan ::
  "u64 \<Rightarrow> string option \<Rightarrow> usize \<Rightarrow> authority_context \<Rightarrow> unit result" where
  "ef_validate_due_scan at_ms after_effect_id scan_limit authority =
     and_then (ef_validate_authority authority) (\<lambda>_.
     and_then (ef_validate_application_time at_ms) (\<lambda>_.
     and_then (case after_effect_id of None \<Rightarrow> Inr () | Some i \<Rightarrow> ef_validate_identity i) (\<lambda>_.
     if \<not> (1 \<le> scan_limit \<and> scan_limit \<le> MAX_EFFECT_PAGE) then Inl (ef_err Bad_page_limit) else Inr ())))"

definition ef_validate_expected_revision :: "u64 \<Rightarrow> unit result" where
  "ef_validate_expected_revision revision = (if revision = 0 then Inl (ef_err Zero_revision) else Inr ())"

definition missing_effect :: "string \<Rightarrow> harness_error" where
  "missing_effect effect_id = Effect (E_store (Missing effect_id))"

definition idempotency_coordinate :: "string \<Rightarrow> effect_create_request \<Rightarrow> effect_coordinate" where
  "idempotency_coordinate tenant request =
     (tenant, eo_capability (eq_operation request), eo_operation (eq_operation request),
      eq_idempotency_key request)"

fun es_status_name :: "effect_status \<Rightarrow> string" where
  "es_status_name (EsPending _ _) = ''pending''"
| "es_status_name (EsClaimed _) = ''claimed''"
| "es_status_name (EsUnknown _ _ _) = ''unknown''"
| "es_status_name (EsApplied _ _) = ''applied''"
| "es_status_name (EsRejected _ _) = ''rejected''"
| "es_status_name (EsCancelled _) = ''cancelled''"

section \<open>Pages\<close>

definition ef_page_from_candidates :: "effect_snapshot list \<Rightarrow> usize \<Rightarrow> effect_page" where
  "ef_page_from_candidates candidates limit =
     (let has_more = length candidates > limit;
          candidates = take limit candidates
      in \<lparr>epg_effects = candidates,
          epg_next_cursor = (if candidates = [] then None else Some (esn_id (last candidates))),
          epg_has_more = has_more\<rparr>)"

definition due_lease_of :: "u64 \<Rightarrow> effect_snapshot \<Rightarrow> effect_due_lease option" where
  "due_lease_of at_ms snapshot =
     (case ef_status (esn_effect snapshot) of
        EsClaimed lease \<Rightarrow>
          if el_expires_at_ms lease \<le> at_ms
          then Some \<lparr>edl_effect_id = esn_id snapshot, edl_tenant_id = esn_tenant_id snapshot,
                 edl_revision = esn_revision snapshot, edl_lease_id = el_id lease,
                 edl_attempt = el_attempt lease, edl_expires_at_ms = el_expires_at_ms lease\<rparr>
          else None
      | _ \<Rightarrow> None)"

definition ef_due_page_from_scan ::
  "effect_snapshot list \<Rightarrow> usize \<Rightarrow> u64 \<Rightarrow> effect_due_scan_page" where
  "ef_due_page_from_scan visited scan_limit at_ms =
     (let has_more = length visited > scan_limit;
          visited = take scan_limit visited
      in \<lparr>edp_due = List.map_filter (due_lease_of at_ms) visited,
          edp_next_after_effect_id = (if visited = [] then None else Some (esn_id (last visited))),
          edp_has_more = has_more,
          edp_scanned = length visited\<rparr>)"

section \<open>Operations\<close>

definition ef_create_as ::
  "effect_env \<Rightarrow> effect_state \<Rightarrow> string \<Rightarrow> effect_create_request \<Rightarrow> u64 \<Rightarrow> authority_context \<Rightarrow>
   (effect_state \<times> effect_snapshot) result" where
  "ef_create_as env state effect_id request applied_at_ms authority =
     and_then (ef_validate_access effect_id authority) (\<lambda>_.
     and_then (effect_new env request applied_at_ms authority) (\<lambda>proposed.
     let tenant = tenant_storage_key (tenant_id authority);
         identity = (tenant, effect_id);
         idempotency = idempotency_coordinate tenant request in
     case bm_get (mes_effects state) identity of
       Some existing \<Rightarrow>
         and_then (effect_create_matches env (esn_effect existing) request authority) (\<lambda>same.
         if same then Inr (state, existing)
         else Inl (Effect (E_store (Exists_differently effect_id))))
     | None \<Rightarrow>
         (case bm_get (mes_idempotency state) idempotency of
            Some existing_id \<Rightarrow>
              and_then (ok_or (Effect (E_store Index_dangling)) (bm_get (mes_effects state) (tenant, existing_id)))
                (\<lambda>existing.
              and_then (effect_create_matches env (esn_effect existing) request authority) (\<lambda>same.
              if same then Inr (state, existing)
              else Inl (Effect (E_store Key_bound_differently))))
          | None \<Rightarrow>
              let snapshot = \<lparr>esn_id = effect_id, esn_tenant_id = tenant_id authority, esn_revision = 1,
                    esn_effect = proposed\<rparr>
              in Inr (state\<lparr>mes_idempotency := bm_insert idempotency effect_id (mes_idempotency state),
                    mes_effects := bm_insert identity snapshot (mes_effects state)\<rparr>, snapshot))))"

definition ef_load_as :: "effect_state \<Rightarrow> string \<Rightarrow> authority_context \<Rightarrow> effect_snapshot option result" where
  "ef_load_as state effect_id authority =
     and_then (ef_validate_access effect_id authority) (\<lambda>_.
     Inr (bm_get (mes_effects state) (tenant_storage_key (tenant_id authority), effect_id)))"

definition ef_list_as ::
  "effect_state \<Rightarrow> string option \<Rightarrow> string option \<Rightarrow> usize \<Rightarrow> authority_context \<Rightarrow> effect_page result" where
  "ef_list_as state status after limit authority =
     and_then (ef_validate_list status after limit authority) (\<lambda>_.
     let tenant = tenant_storage_key (tenant_id authority);
         candidates = take (usize_saturating_add limit 1) (map snd
           (filter (\<lambda>((candidate_tenant, i), snapshot).
               candidate_tenant = tenant \<and> is_none_or after (\<lambda>a. a < i) \<and>
               is_none_or status (\<lambda>s. es_status_name (ef_status (esn_effect snapshot)) = s))
             (mes_effects state)))
     in Inr (ef_page_from_candidates candidates limit))"

definition ef_scan_due_as ::
  "effect_state \<Rightarrow> u64 \<Rightarrow> string option \<Rightarrow> usize \<Rightarrow> authority_context \<Rightarrow> effect_due_scan_page result" where
  "ef_scan_due_as state at_ms after_effect_id scan_limit authority =
     and_then (ef_validate_due_scan at_ms after_effect_id scan_limit authority) (\<lambda>_.
     let tenant = tenant_storage_key (tenant_id authority);
         visited = take (usize_saturating_add scan_limit 1) (map snd
           (filter (\<lambda>((candidate_tenant, i), _).
               candidate_tenant = tenant \<and> is_none_or after_effect_id (\<lambda>a. a < i)) (mes_effects state)))
     in Inr (ef_due_page_from_scan visited scan_limit at_ms))"

definition ef_apply_as ::
  "effect_env \<Rightarrow> effect_state \<Rightarrow> string \<Rightarrow> u64 \<Rightarrow> effect_command \<Rightarrow> u64 \<Rightarrow> authority_context \<Rightarrow>
   (effect_state \<times> effect_command_result) result" where
  "ef_apply_as env state effect_id expected_revision command applied_at_ms authority =
     and_then (ef_validate_access effect_id authority) (\<lambda>_.
     and_then (ef_validate_expected_revision expected_revision) (\<lambda>_.
     let key = (tenant_storage_key (tenant_id authority), effect_id) in
     and_then (ok_or (missing_effect effect_id) (bm_get (mes_effects state) key)) (\<lambda>current.
     and_then (effect_recognizes_command env (esn_effect current) command authority) (\<lambda>known.
     if known then Inr (state, \<lparr>ecr_snapshot = current, ecr_outcome = EDuplicate\<rparr>)
     else if esn_revision current \<noteq> expected_revision
     then Inl (EffectConflict effect_id expected_revision (esn_revision current))
     else
     and_then (effect_apply env (esn_effect current) command applied_at_ms authority) (\<lambda>(effect, outcome).
     and_then (ok_or (Effect (E_store Revision_overflow)) (checked_add (esn_revision current) 1)) (\<lambda>revision.
     let snapshot = \<lparr>esn_id = effect_id, esn_tenant_id = esn_tenant_id current,
           esn_revision = revision, esn_effect = effect\<rparr>
     in Inr (state\<lparr>mes_effects := bm_insert key snapshot (mes_effects state)\<rparr>,
             \<lparr>ecr_snapshot = snapshot, ecr_outcome = outcome\<rparr>)))))))"

text \<open>The unscoped operations of the trait, which the engine has too.\<close>

definition ef_create ::
  "effect_env \<Rightarrow> effect_state \<Rightarrow> string \<Rightarrow> effect_create_request \<Rightarrow> u64 \<Rightarrow> (effect_state \<times> effect_snapshot) result" where
  "ef_create env state effect_id request applied_at_ms =
     ef_create_as env state effect_id request applied_at_ms local_process"

definition ef_load :: "effect_state \<Rightarrow> string \<Rightarrow> effect_snapshot option result" where
  "ef_load state effect_id = ef_load_as state effect_id local_process"

definition ef_list :: "effect_state \<Rightarrow> string option \<Rightarrow> string option \<Rightarrow> usize \<Rightarrow> effect_page result" where
  "ef_list state status after limit = ef_list_as state status after limit local_process"

definition ef_scan_due :: "effect_state \<Rightarrow> u64 \<Rightarrow> string option \<Rightarrow> usize \<Rightarrow> effect_due_scan_page result" where
  "ef_scan_due state at_ms after_effect_id scan_limit =
     ef_scan_due_as state at_ms after_effect_id scan_limit local_process"

definition ef_apply ::
  "effect_env \<Rightarrow> effect_state \<Rightarrow> string \<Rightarrow> u64 \<Rightarrow> effect_command \<Rightarrow> u64 \<Rightarrow>
   (effect_state \<times> effect_command_result) result" where
  "ef_apply env state effect_id expected_revision command applied_at_ms =
     ef_apply_as env state effect_id expected_revision command applied_at_ms local_process"

section \<open>The page check of the consumers\<close>

datatype effect_page_state = PsPending | PsUnknown

fun ps_name :: "effect_page_state \<Rightarrow> string" where
  "ps_name PsPending = ''pending''"
| "ps_name PsUnknown = ''unknown''"

fun ps_matches :: "effect_page_state \<Rightarrow> effect_status \<Rightarrow> bool" where
  "ps_matches PsPending (EsPending _ _) = True"
| "ps_matches PsUnknown (EsUnknown _ _ _) = True"
| "ps_matches _ _ = False"

text \<open>The loop over the page: the identity before the current one is carried along.\<close>

definition validate_page_item ::
  "effect_env \<Rightarrow> authority_context \<Rightarrow> effect_page_state \<Rightarrow> string option \<Rightarrow> effect_snapshot \<Rightarrow>
   string option result" where
  "validate_page_item env authority expected_state previous snapshot =
     and_then (effect_validate env (esn_effect snapshot)) (\<lambda>_.
     and_then (ok_or (Effect (E_page Page_count_overflow))
       (u64_of_usize (length (ef_transitions (esn_effect snapshot))))) (\<lambda>transition_count.
     if esn_tenant_id snapshot \<noteq> tenant_id authority \<or>
        ef_tenant_id (esn_effect snapshot) \<noteq> tenant_id authority \<or>
        esn_revision snapshot \<noteq> transition_count \<or>
        \<not> ps_matches expected_state (ef_status (esn_effect snapshot))
     then Inl (Effect (E_page Page_projection))
     else if (case previous of None \<Rightarrow> False | Some prior \<Rightarrow> esn_id snapshot \<le> prior)
     then Inl (Effect (E_page Page_not_ordered))
     else Inr (Some (esn_id snapshot))))"

definition validate_effect_page ::
  "effect_env \<Rightarrow> effect_page \<Rightarrow> string option \<Rightarrow> usize \<Rightarrow> authority_context \<Rightarrow> effect_page_state \<Rightarrow>
   unit result" where
  "validate_effect_page env page after limit authority expected_state =
     (if length (epg_effects page) > limit then Inl (Effect (E_page Page_exceeds_limit))
      else
      let expected_cursor = (if epg_effects page = [] then None else Some (esn_id (last (epg_effects page)))) in
      if epg_next_cursor page \<noteq> expected_cursor \<or> epg_has_more page \<and> length (epg_effects page) \<noteq> limit
      then Inl (Effect (E_page Page_continuation))
      else
      and_then (try_fold (validate_page_item env authority expected_state) after (epg_effects page)) (\<lambda>_. Inr ()))"

inductive effect_store_step :: "effect_env \<Rightarrow> effect_state \<Rightarrow> effect_state \<Rightarrow> bool" for env where
  effect_created: "ef_create_as env state effect_id request now authority = Inr (state', snapshot) \<Longrightarrow>
    effect_store_step env state state'"
| effect_changed: "ef_apply_as env state effect_id revision command now authority = Inr (state', res) \<Longrightarrow>
    effect_store_step env state state'"

definition effect_commits ::
  "effect_env \<Rightarrow> effect_state \<Rightarrow> storage_key \<Rightarrow> u64 \<Rightarrow> effect_state \<Rightarrow> bool" where
  "effect_commits env state key revision state' \<longleftrightarrow>
     (\<exists>effect_id command now authority res.
        ef_apply_as env state effect_id revision command now authority = Inr (state', res) \<and>
        ecr_outcome res = EApplied \<and> key = (tenant_storage_key (tenant_id authority), effect_id))"

section \<open>What the operations do\<close>

lemma ef_validate_access_ok [ok_iff]:
  "ef_validate_access effect_id authority = Inr u \<longleftrightarrow>
     valid_authority authority \<and> ef_validate_identity effect_id = Inr ()"
  by (auto simp: ef_validate_access_def ok_iff ef_validate_authority_ok)

definition fresh_effect :: "string \<Rightarrow> string option \<Rightarrow> effect \<Rightarrow> effect_snapshot" where
  "fresh_effect effect_id tenant e =
     \<lparr>esn_id = effect_id, esn_tenant_id = tenant, esn_revision = 1, esn_effect = e\<rparr>"

lemma fresh_effect_sel [simp]:
  "esn_id (fresh_effect i tn e) = i" "esn_tenant_id (fresh_effect i tn e) = tn"
  "esn_revision (fresh_effect i tn e) = 1" "esn_effect (fresh_effect i tn e) = e"
  by (simp_all add: fresh_effect_def)

lemma ef_create_as_okE:
  assumes "ef_create_as env state effect_id request now authority = Inr (state', snap)"
  obtains
    (known) i where "valid_authority authority" "ef_validate_identity effect_id = Inr ()"
      "bm_get (mes_effects state) (store_key i (tenant_id authority)) = Some snap"
      "effect_create_matches env (esn_effect snap) request authority = Inr True" "state' = state"
  | (fresh) e where "valid_authority authority" "ef_validate_identity effect_id = Inr ()"
      "effect_new env request now authority = Inr e"
      "bm_get (mes_effects state) (store_key effect_id (tenant_id authority)) = None"
      "bm_get (mes_idempotency state)
        (idempotency_coordinate (tenant_storage_key (tenant_id authority)) request) = None"
      "snap = fresh_effect effect_id (tenant_id authority) e"
      "state' = state\<lparr>
        mes_idempotency := bm_insert (idempotency_coordinate (tenant_storage_key (tenant_id authority)) request)
          effect_id (mes_idempotency state),
        mes_effects := bm_insert (store_key effect_id (tenant_id authority)) snap (mes_effects state)\<rparr>"
proof (cases "bm_get (mes_effects state) (store_key effect_id (tenant_id authority))")
  case None
  with assms known fresh show ?thesis
    by (cases "bm_get (mes_idempotency state)
        (idempotency_coordinate (tenant_storage_key (tenant_id authority)) request)")
      (auto simp: ef_create_as_def ok_iff Let_def store_key_def fresh_effect_def split: if_splits)
next
  case (Some existing)
  with assms known [of effect_id] show ?thesis
    by (auto simp: ef_create_as_def ok_iff Let_def store_key_def split: if_splits)
qed

lemma effect_apply_new:
  "effect_apply env e command now authority = Inr (e', outcome) \<Longrightarrow>
   effect_recognizes_command env e command authority = Inr False \<Longrightarrow> outcome = EApplied"
  by (cases outcome) (simp_all add: effect_apply_Duplicate)

definition grown_effect :: "string \<Rightarrow> effect_snapshot \<Rightarrow> u64 \<Rightarrow> effect \<Rightarrow> effect_snapshot" where
  "grown_effect effect_id s revision e =
     \<lparr>esn_id = effect_id, esn_tenant_id = esn_tenant_id s, esn_revision = revision, esn_effect = e\<rparr>"

lemma grown_effect_sel [simp]:
  "esn_id (grown_effect i s r e) = i" "esn_tenant_id (grown_effect i s r e) = esn_tenant_id s"
  "esn_revision (grown_effect i s r e) = r" "esn_effect (grown_effect i s r e) = e"
  by (simp_all add: grown_effect_def)

lemma ef_apply_as_okE:
  assumes "ef_apply_as env state effect_id r command now authority = Inr (state', res)"
  obtains
    (known) current where "valid_authority authority" "ef_validate_identity effect_id = Inr ()"
      "bm_get (mes_effects state) (store_key effect_id (tenant_id authority)) = Some current"
      "effect_recognizes_command env (esn_effect current) command authority = Inr True"
      "state' = state" "res = \<lparr>ecr_snapshot = current, ecr_outcome = EDuplicate\<rparr>"
  | (written) current e revision where "valid_authority authority" "ef_validate_identity effect_id = Inr ()"
      "bm_get (mes_effects state) (store_key effect_id (tenant_id authority)) = Some current"
      "effect_recognizes_command env (esn_effect current) command authority = Inr False"
      "esn_revision current = r"
      "effect_apply env (esn_effect current) command now authority = Inr (e, EApplied)"
      "unat revision = Suc (unat r)"
      "state' = state\<lparr>mes_effects := bm_insert (store_key effect_id (tenant_id authority))
        (grown_effect effect_id current revision e) (mes_effects state)\<rparr>"
      "res = \<lparr>ecr_snapshot = grown_effect effect_id current revision e, ecr_outcome = EApplied\<rparr>"
proof -
  from assms obtain current is_known where common: "valid_authority authority"
      "ef_validate_identity effect_id = Inr ()"
      "bm_get (mes_effects state) (store_key effect_id (tenant_id authority)) = Some current"
      "effect_recognizes_command env (esn_effect current) command authority = Inr is_known"
    by (auto simp: ef_apply_as_def ok_iff Let_def store_key_def)
  show thesis
  proof (cases is_known)
    case True
    with assms common show ?thesis
      by (intro known) (auto simp: ef_apply_as_def ok_iff Let_def store_key_def)
  next
    case False
    with assms common obtain e outcome revision where
      app: "effect_apply env (esn_effect current) command now authority = Inr (e, outcome)"
      and rest: "esn_revision current = r" "unat revision = Suc (unat r)"
        "state' = state\<lparr>mes_effects := bm_insert (store_key effect_id (tenant_id authority))
          (grown_effect effect_id current revision e) (mes_effects state)\<rparr>"
        "res = \<lparr>ecr_snapshot = grown_effect effect_id current revision e, ecr_outcome = outcome\<rparr>"
      by (auto simp: ef_apply_as_def ok_iff Let_def store_key_def grown_effect_def split: if_splits)
    have "outcome = EApplied" using app common False by (auto intro: effect_apply_new)
    with app rest common False show ?thesis by (intro written [of current e revision]) simp_all
  qed
qed

definition effect_born :: "effect_env \<Rightarrow> storage_key \<Rightarrow> effect_snapshot \<Rightarrow> bool" where
  "effect_born env k s \<longleftrightarrow> (\<exists>effect_id authority request now e.
     k = store_key effect_id (tenant_id authority) \<and> valid_authority authority \<and>
     ef_validate_identity effect_id = Inr () \<and> effect_new env request now authority = Inr e \<and>
     s = fresh_effect effect_id (tenant_id authority) e)"

definition effect_grows :: "effect_env \<Rightarrow> effect_snapshot \<Rightarrow> effect_snapshot \<Rightarrow> bool" where
  "effect_grows env s s' \<longleftrightarrow> (\<exists>effect_id command now authority e revision.
     effect_apply env (esn_effect s) command now authority = Inr (e, EApplied) \<and>
     unat revision = Suc (unat (esn_revision s)) \<and> s' = grown_effect effect_id s revision e)"

lemma effect_growsI:
  "effect_apply env (esn_effect s) command now authority = Inr (e, EApplied) \<Longrightarrow>
   unat revision = Suc (unat (esn_revision s)) \<Longrightarrow> effect_grows env s (grown_effect effect_id s revision e)"
  unfolding effect_grows_def by blast

lemma effect_step_entry:
  assumes "effect_store_step env state state'"
  obtains (same) "bm_get (mes_effects state') k = bm_get (mes_effects state) k"
  | (born) s where "bm_get (mes_effects state) k = None" "bm_get (mes_effects state') k = Some s"
      "effect_born env k s"
  | (grown) current s where "bm_get (mes_effects state) k = Some current"
      "bm_get (mes_effects state') k = Some s" "effect_grows env current s" "esn_id s = snd k"
  using assms
proof cases
  case (effect_created effect_id request now authority snapshot)
  then show ?thesis
  proof (cases rule: ef_create_as_okE)
    case known
    with same show ?thesis by simp
  next
    case (fresh e)
    then have "effect_born env (store_key effect_id (tenant_id authority)) snapshot"
      unfolding effect_born_def by blast
    with fresh same born show ?thesis
      by (cases "k = store_key effect_id (tenant_id authority)") (simp_all add: bm_get_insert)
  qed
next
  case (effect_changed effect_id r command now authority res)
  then show ?thesis
  proof (cases rule: ef_apply_as_okE)
    case known
    with same show ?thesis by simp
  next
    case (written current e revision)
    with effect_growsI [OF written(6), of revision effect_id] same grown show ?thesis
      by (cases "k = store_key effect_id (tenant_id authority)") (simp_all add: bm_get_insert store_key_def)
  qed
qed

lemma effect_new_journal:
  assumes "effect_new env request now authority = Inr e"
  shows "length (ef_transitions e) = 1" "ef_tenant_id e = tenant_id authority"
    "ef_operation e = eq_operation request" "ef_idempotency_key e = eq_idempotency_key request"
  using assms by (auto simp: effect_new_def ok_iff Let_def)

text \<open>What an applied command leaves as it was.\<close>

lemma effect_applied_frame:
  assumes "effect_apply env e command now authority = Inr (e', EApplied)"
  shows "\<exists>t. ef_transitions e' = ef_transitions e @ [t]" "ef_tenant_id e' = ef_tenant_id e"
    "ef_operation e' = ef_operation e" "ef_idempotency_key e' = ef_idempotency_key e"
proof -
  from assms obtain nxt kind t charge where
    kind: "effect_apply_kind e (ec_kind command) now (actor authority) = Inr (nxt, kind)"
    and e': "e' = nxt\<lparr>ef_transitions := ef_transitions nxt @ [t], ef_charge := charge\<rparr>"
    by (auto simp: effect_apply_def ok_iff Let_def split: if_splits)
  from effect_apply_kind_frame(2) [OF kind] obtain st where nxt: "nxt = e\<lparr>ef_status := st\<rparr>" by blast
  show "\<exists>t. ef_transitions e' = ef_transitions e @ [t]" "ef_tenant_id e' = ef_tenant_id e"
    "ef_operation e' = ef_operation e" "ef_idempotency_key e' = ef_idempotency_key e"
    by (simp_all add: e' nxt)
qed

interpretation estore: journal_store "\<lambda>state. bm_get (mes_effects state)" esn_revision "effect_store_step env"
  "effect_commits env" "\<lambda>s. length (ef_transitions (esn_effect s))" effect_state_empty
  "effect_born env" "effect_grows env" for env
proof
  show "bm_get (mes_effects effect_state_empty) k = None" for k
    by (simp add: bm_get_def effect_state_empty_def)
  show "bm_get (mes_effects s') k = bm_get (mes_effects s) k \<or>
      (\<exists>a'. bm_get (mes_effects s) k = None \<and> bm_get (mes_effects s') k = Some a' \<and> effect_born env k a') \<or>
      (\<exists>a a'. bm_get (mes_effects s) k = Some a \<and> bm_get (mes_effects s') k = Some a' \<and> effect_grows env a a')"
    if "effect_store_step env s s'" for s s' k
    using that by (cases rule: effect_step_entry [of _ _ _ k]) auto
  show "esn_revision a = 1 \<and> length (ef_transitions (esn_effect a)) = 1" if "effect_born env k a" for k a
    using that by (auto simp: effect_born_def dest: effect_new_journal)
  show "unat (esn_revision a') = Suc (unat (esn_revision a)) \<and>
      length (ef_transitions (esn_effect a')) = Suc (length (ef_transitions (esn_effect a)))"
    if "effect_grows env a a'" for a a'
    using that by (auto simp: effect_grows_def dest: effect_applied_frame(1))
  show "effect_store_step env s s'" if "effect_commits env s k r s'" for s k r s'
    using that by (auto simp: effect_commits_def intro: effect_changed)
  show "\<exists>a a'. bm_get (mes_effects s) k = Some a \<and> esn_revision a = r \<and>
      bm_get (mes_effects s') k = Some a' \<and> effect_grows env a a'" if "effect_commits env s k r s'" for s k r s'
    using that unfolding effect_commits_def
    by (auto simp: bm_get_insert store_key_def intro: effect_growsI elim!: ef_apply_as_okE)
qed

definition effect_entry_ok :: "effect_env \<Rightarrow> storage_key \<Rightarrow> effect_snapshot \<Rightarrow> bool" where
  "effect_entry_ok env k s \<longleftrightarrow>
     fst k = tenant_storage_key (esn_tenant_id s) \<and> valid_tenant (esn_tenant_id s) \<and>
     ef_validate_identity (snd k) = Inr () \<and> effect_inv env (esn_effect s) \<and>
     ef_tenant_id (esn_effect s) = esn_tenant_id s \<and>
     unat (esn_revision s) = length (ef_transitions (esn_effect s))"

lemma effect_store_entries:
  assumes "(effect_store_step env)\<^sup>*\<^sup>* effect_state_empty state" and "bm_get (mes_effects state) k = Some s"
  shows "effect_entry_ok env k s"
  using assms
proof (rule estore.entry_invariant)
  show "effect_entry_ok env k s" if "effect_born env k s" for s
    using that estore.born_first [OF that] effect_new_journal(2)
    by (auto simp: effect_born_def effect_entry_ok_def valid_authority_def store_key_def intro: effect_new_inv)
  show "effect_entry_ok env k s'" if "effect_entry_ok env k s" "effect_grows env s s'" for s s'
    using that estore.grows_next [OF that(2)] effect_apply_inv effect_applied_frame(2)
    by (fastforce simp: effect_grows_def effect_entry_ok_def)
qed

lemma effect_store_ids:
  assumes "(effect_store_step env)\<^sup>*\<^sup>* effect_state_empty state" and "bm_get (mes_effects state) k = Some s"
  shows "esn_id s = snd k"
  using assms
proof (induction arbitrary: s rule: rtranclp_induct)
  case base
  then show ?case by (simp add: effect_state_empty_def bm_get_def)
next
  case (step t u)
  from step.hyps(2) show ?case
    by (cases rule: effect_step_entry [of _ _ _ k])
      (use step.IH step.prems in \<open>auto simp: effect_born_def store_key_def\<close>)
qed

lemma effect_store_wf:
  "(effect_store_step env)\<^sup>*\<^sup>* effect_state_empty state \<Longrightarrow> bm_wf (mes_effects state)"
proof (induction rule: rtranclp_induct)
  case base
  show ?case unfolding effect_state_empty_def effect_state.simps by (rule bm.invar_empty)
next
  case (step t u)
  from step.hyps(2) step.IH show ?case
    by cases (auto simp: bm_wf_insert elim!: ef_create_as_okE ef_apply_as_okE)
qed

section \<open>The idempotency index\<close>

definition coordinate_of :: "storage_key \<Rightarrow> effect_snapshot \<Rightarrow> effect_coordinate" where
  "coordinate_of k s = (fst k, eo_capability (ef_operation (esn_effect s)),
     eo_operation (ef_operation (esn_effect s)), ef_idempotency_key (esn_effect s))"

text \<open>The index names an Effect for a coordinate exactly when that Effect has the coordinate.\<close>

definition index_exact :: "effect_state \<Rightarrow> bool" where
  "index_exact state \<longleftrightarrow> (\<forall>c i. bm_get (mes_idempotency state) c = Some i \<longleftrightarrow>
     (\<exists>s. bm_get (mes_effects state) (fst c, i) = Some s \<and> coordinate_of (fst c, i) s = c))"

lemma index_exactI:
  "(\<And>c i. bm_get (mes_idempotency state) c = Some i \<longleftrightarrow>
     (\<exists>s. bm_get (mes_effects state) (fst c, i) = Some s \<and> coordinate_of (fst c, i) s = c)) \<Longrightarrow>
   index_exact state"
  unfolding index_exact_def by blast

lemma index_exactD:
  "index_exact state \<Longrightarrow> bm_get (mes_idempotency state) c = Some i \<longleftrightarrow>
     (\<exists>s. bm_get (mes_effects state) (fst c, i) = Some s \<and> coordinate_of (fst c, i) s = c)"
  unfolding index_exact_def by blast

lemma coordinate_tenant [simp]: "fst (coordinate_of k s) = fst k"
  by (simp add: coordinate_of_def)

lemma coordinate_fresh:
  "effect_new env request now authority = Inr e \<Longrightarrow>
   coordinate_of k (fresh_effect effect_id tn e) = idempotency_coordinate (fst k) request"
  by (simp add: coordinate_of_def idempotency_coordinate_def effect_new_journal)

lemma coordinate_grown:
  "effect_apply env (esn_effect s) command now authority = Inr (e, EApplied) \<Longrightarrow>
   coordinate_of k (grown_effect effect_id s revision e) = coordinate_of k s"
  by (simp add: coordinate_of_def effect_applied_frame)

lemma index_exact_fresh:
  assumes exact: "index_exact state" and free: "bm_get (mes_effects state) k = None"
    and new: "bm_get (mes_idempotency state) (coordinate_of k s) = None"
  shows "index_exact (state\<lparr>mes_idempotency := bm_insert (coordinate_of k s) (snd k) (mes_idempotency state),
    mes_effects := bm_insert k s (mes_effects state)\<rparr>)"
proof (rule index_exactI)
  fix c i
  show "bm_get (mes_idempotency (state\<lparr>mes_idempotency := bm_insert (coordinate_of k s) (snd k) (mes_idempotency state),
      mes_effects := bm_insert k s (mes_effects state)\<rparr>)) c = Some i \<longleftrightarrow>
    (\<exists>s'. bm_get (mes_effects (state\<lparr>mes_idempotency := bm_insert (coordinate_of k s) (snd k) (mes_idempotency state),
      mes_effects := bm_insert k s (mes_effects state)\<rparr>)) (fst c, i) = Some s' \<and> coordinate_of (fst c, i) s' = c)"
  proof (cases "c = coordinate_of k s")
    case True
    have "(fst k, i) = k \<longleftrightarrow> i = snd k" by (cases k) auto
    with True index_exactD [OF exact, of c i] new show ?thesis
      by (cases "i = snd k") (auto simp: bm_get_insert)
  next
    case False
    with index_exactD [OF exact, of c i] free show ?thesis
      by (cases "(fst c, i) = k") (auto simp: bm_get_insert)
  qed
qed

lemma index_exact_grown:
  assumes exact: "index_exact state" and entry: "bm_get (mes_effects state) k = Some s"
    and coord: "coordinate_of k s' = coordinate_of k s"
  shows "index_exact (state\<lparr>mes_effects := bm_insert k s' (mes_effects state)\<rparr>)"
proof (rule index_exactI)
  fix c i
  show "bm_get (mes_idempotency (state\<lparr>mes_effects := bm_insert k s' (mes_effects state)\<rparr>)) c = Some i \<longleftrightarrow>
    (\<exists>a. bm_get (mes_effects (state\<lparr>mes_effects := bm_insert k s' (mes_effects state)\<rparr>)) (fst c, i) = Some a \<and>
      coordinate_of (fst c, i) a = c)"
    using index_exactD [OF exact, of c i] entry coord
    by (cases "(fst c, i) = k") (auto simp: bm_get_insert)
qed

lemma index_exact_reachable:
  "(effect_store_step env)\<^sup>*\<^sup>* effect_state_empty state \<Longrightarrow> index_exact state"
proof (induction rule: rtranclp_induct)
  case base
  show ?case by (rule index_exactI) (simp add: effect_state_empty_def bm_get_def)
next
  case (step t u)
  from step.hyps(2) show ?case
  proof cases
    case (effect_created effect_id request now authority snapshot)
    then show ?thesis
    proof (cases rule: ef_create_as_okE)
      case known
      with step.IH show ?thesis by simp
    next
      case (fresh e)
      let ?k = "store_key effect_id (tenant_id authority)"
      have "idempotency_coordinate (tenant_storage_key (tenant_id authority)) request = coordinate_of ?k snapshot"
        using coordinate_fresh [OF fresh(3), of ?k] fresh(6) by (simp add: store_key_def)
      with index_exact_fresh [OF step.IH fresh(4), of snapshot] fresh show ?thesis by (simp add: store_key_def)
    qed
  next
    case (effect_changed effect_id r command now authority res)
    then show ?thesis
    proof (cases rule: ef_apply_as_okE)
      case known
      with step.IH show ?thesis by simp
    next
      case (written current e revision)
      with index_exact_grown [OF step.IH written(3) coordinate_grown [OF written(6)]] show ?thesis by simp
    qed
  qed
qed

section \<open>Histories only grow\<close>

lemma effect_recognizes_prefix:
  assumes "effect_recognizes_command env e command authority = Inr True"
    and "ef_transitions e' = ef_transitions e @ ts" and "ef_tenant_id e' = ef_tenant_id e"
    and "actor authority' = actor authority" "tenant_id authority' = tenant_id authority" "valid_authority authority'"
  shows "effect_recognizes_command env e' command authority' = Inr True"
proof -
  have "ef_validate_authority authority' = Inr ()" using assms(6) by (simp add: ef_validate_authority_ok)
  with assms find_append_Some [of _ "ef_transitions e"] show ?thesis
    by (auto simp: effect_recognizes_command_def ok_iff split: option.splits if_splits)
qed

definition effect_evolves :: "effect_snapshot \<Rightarrow> effect_snapshot \<Rightarrow> bool" where
  "effect_evolves s s' \<longleftrightarrow> esn_revision s \<le> esn_revision s' \<and> esn_tenant_id s' = esn_tenant_id s \<and>
     ef_tenant_id (esn_effect s') = ef_tenant_id (esn_effect s) \<and>
     ef_operation (esn_effect s') = ef_operation (esn_effect s) \<and>
     ef_idempotency_key (esn_effect s') = ef_idempotency_key (esn_effect s) \<and>
     (\<exists>ts. ef_transitions (esn_effect s') = ef_transitions (esn_effect s) @ ts)"

lemma effect_evolves_grown:
  assumes "effect_evolves s b" and "effect_apply env (esn_effect b) command now authority = Inr (e, EApplied)"
    and "unat revision = Suc (unat (esn_revision b))"
  shows "effect_evolves s (grown_effect i b revision e)"
  using assms(1,3) effect_applied_frame [OF assms(2)]
  by (auto simp: effect_evolves_def word_le_nat_alt)

lemma effect_steps_extend:
  assumes "(effect_store_step env)\<^sup>*\<^sup>* state state'" and "bm_get (mes_effects state) k = Some s"
  shows "\<exists>s'. bm_get (mes_effects state') k = Some s' \<and> effect_evolves s s'"
  using assms
proof (rule estore.entry_evolves)
  show "effect_evolves s c" if "effect_evolves s b" "effect_grows env b c" for b c
    using that by (auto simp: effect_grows_def intro: effect_evolves_grown)
qed (simp add: effect_evolves_def)

lemma effect_committed_is_recognized:
  assumes "ef_apply_as env state effect_id r command now authority = Inr (state', res)"
    and tenant: "\<And>s. bm_get (mes_effects state) (store_key effect_id (tenant_id authority)) = Some s \<Longrightarrow>
      ef_tenant_id (esn_effect s) = tenant_id authority"
  shows "bm_get (mes_effects state') (store_key effect_id (tenant_id authority)) = Some (ecr_snapshot res) \<and>
    effect_recognizes_command env (esn_effect (ecr_snapshot res)) command authority = Inr True"
  using assms(1)
proof (cases rule: ef_apply_as_okE)
  case known
  then show ?thesis by simp
next
  case (written current e revision)
  from written(6) obtain t where
    "ef_attributed_digest env (ee_attributed env) (actor authority) (tenant_id authority) command
       = Inr (et_command_sha256 t)" "ef_tenant_id e = ef_tenant_id (esn_effect current)"
    "ef_transitions e = ef_transitions (esn_effect current) @ [t]" "et_command_id t = ec_id command"
    by (rule effect_apply_AppliedE)
  from effect_recognizes_committed [OF written(4) this(1) tenant [OF written(3)] this(2,3,4)] written(8,9)
  show ?thesis by (simp add: bm_get_insert)
qed

lemma effect_entry_tenant:
  assumes "(effect_store_step env)\<^sup>*\<^sup>* effect_state_empty state"
    and "bm_get (mes_effects state) (store_key i tenant) = Some s" and "valid_tenant tenant"
  shows "esn_tenant_id s = tenant" "ef_tenant_id (esn_effect s) = tenant" "esn_id s = i"
  using effect_store_entries [OF assms(1,2)] effect_store_ids [OF assms(1,2)] assms(3) tenant_storage_key_inj
  by (auto simp: effect_entry_ok_def store_key_def)

lemma create_matches_prefix:
  assumes "effect_new env request now authority = Inr e"
    and "ef_transitions e' = ef_transitions e @ ts" and "ef_tenant_id e' = ef_tenant_id e"
    and "actor authority' = actor authority" "tenant_id authority' = tenant_id authority" "valid_authority authority'"
  shows "effect_create_matches env e' request authority' = Inr True"
proof -
  have "ef_validate_authority authority' = Inr ()" using assms(6) by (simp add: ef_validate_authority_ok)
  with assms show ?thesis
    by (auto simp: effect_new_def effect_create_matches_def ok_iff Let_def)
qed

section \<open>Pages\<close>

definition listed_effects ::
  "effect_state \<Rightarrow> string option \<Rightarrow> string option \<Rightarrow> string option \<Rightarrow> effect_snapshot list" where
  "listed_effects state tenant status after = filter
     (\<lambda>s. is_none_or status (\<lambda>name. es_status_name (ef_status (esn_effect s)) = name))
     (map snd (tenant_after (tenant_storage_key tenant) after (mes_effects state)))"

lemma ef_validate_list_ok:
  "ef_validate_list status after limit authority = Inr u \<longleftrightarrow> valid_authority authority \<and>
     (case status of None \<Rightarrow> True | Some s \<Rightarrow> ef_validate_status_filter s = Inr ()) \<and>
     (case after of None \<Rightarrow> True | Some i \<Rightarrow> ef_validate_identity i = Inr ()) \<and>
     0 < limit \<and> limit \<le> MAX_EFFECT_PAGE"
  by (auto simp: ef_validate_list_def ok_iff ef_validate_authority_ok split: option.splits)

lemma ef_list_as_eq:
  "ef_list_as state status after limit authority = and_then (ef_validate_list status after limit authority) (\<lambda>_.
     Inr (ef_page_from_candidates (listed_effects state (tenant_id authority) status after) limit))"
proof (cases "ef_validate_list status after limit authority")
  case (Inr u)
  then have limit: "limit < 2 ^ 64 - 1" by (simp add: ef_validate_list_ok MAX_EFFECT_PAGE_def)
  have "map snd (filter (\<lambda>((t, i), s). t = tenant_storage_key (tenant_id authority) \<and> is_none_or after (\<lambda>a. a < i) \<and>
        is_none_or status (\<lambda>name. es_status_name (ef_status (esn_effect s)) = name)) (mes_effects state))
    = listed_effects state (tenant_id authority) status after"
    unfolding listed_effects_def tenant_after_def filter_map filter_filter
    by (intro arg_cong [where f = "map snd"] filter_cong) auto
  then show ?thesis
    unfolding ef_list_as_def Inr Let_def saturating_Suc [OF limit] ef_page_from_candidates_def fetch_one_more
    by simp
qed (simp add: ef_list_as_def)

lemma ef_validate_due_scan_ok:
  "ef_validate_due_scan at_ms after limit authority = Inr u \<longleftrightarrow>
     valid_authority authority \<and> at_ms \<noteq> 0 \<and> 0 < limit \<and> limit \<le> MAX_EFFECT_PAGE \<and>
     (case after of None \<Rightarrow> True | Some i \<Rightarrow> ef_validate_identity i = Inr ())"
  by (auto simp: ef_validate_due_scan_def ok_iff ef_validate_application_time_def ef_validate_authority_ok
      split: option.splits)

lemma ef_scan_due_as_eq:
  "ef_scan_due_as state at_ms after limit authority =
    and_then (ef_validate_due_scan at_ms after limit authority) (\<lambda>_.
      Inr (ef_due_page_from_scan
        (map snd (tenant_after (tenant_storage_key (tenant_id authority)) after (mes_effects state))) limit at_ms))"
proof (cases "ef_validate_due_scan at_ms after limit authority")
  case (Inr u)
  then have "limit < 2 ^ 64 - 1" by (simp add: ef_validate_due_scan_ok MAX_EFFECT_PAGE_def)
  then show ?thesis
    unfolding ef_scan_due_as_def Inr Let_def ef_due_page_from_scan_def
      saturating_Suc [OF \<open>limit < 2 ^ 64 - 1\<close>] fetch_one_more tenant_after_def
    by simp
qed (simp add: ef_scan_due_as_def)

lemma tenant_values_sorted:
  assumes "(effect_store_step env)\<^sup>*\<^sup>* effect_state_empty state"
  shows "sorted_wrt (\<lambda>x y. esn_id x < esn_id y) (map snd (tenant_after tenant after (mes_effects state)))"
proof -
  have ids: "esn_id (snd e) = snd (fst e)" if "e \<in> set (tenant_after tenant after (mes_effects state))" for e
    using tenant_after_entry [OF effect_store_wf [OF assms] that] effect_store_ids [OF assms] by blast
  have "sorted_wrt (\<lambda>x y. snd (fst x) < snd (fst y)) (tenant_after tenant after (mes_effects state))"
    using tenant_after_sorted [OF effect_store_wf [OF assms], of tenant after] by (simp add: sorted_wrt_map)
  then show ?thesis
    unfolding sorted_wrt_map by (rule sorted_wrt_mono_rel [rotated]) (simp add: ids)
qed

lemma listed_effects_entry:
  assumes reach: "(effect_store_step env)\<^sup>*\<^sup>* effect_state_empty state" and "valid_tenant tenant"
    and "s \<in> set (listed_effects state tenant status after)"
  shows "bm_get (mes_effects state) (store_key (esn_id s) tenant) = Some s"
    "is_none_or after (\<lambda>a. a < esn_id s)" "is_none_or status (\<lambda>n. es_status_name (ef_status (esn_effect s)) = n)"
proof -
  from assms(3) obtain e where e: "e \<in> set (tenant_after (tenant_storage_key tenant) after (mes_effects state))"
    "s = snd e" "is_none_or status (\<lambda>n. es_status_name (ef_status (esn_effect s)) = n)"
    by (auto simp: listed_effects_def)
  have entry: "bm_get (mes_effects state) (fst e) = Some s" "fst (fst e) = tenant_storage_key tenant"
    "is_none_or after (\<lambda>a. a < snd (fst e))"
    using tenant_after_entry [OF effect_store_wf [OF reach] e(1)] e(2) by simp_all
  have id: "snd (fst e) = esn_id s" using effect_store_ids [OF reach entry(1)] by simp
  then have key: "fst e = store_key (esn_id s) tenant" using entry(2) by (simp add: store_key_def prod_eq_iff)
  show "bm_get (mes_effects state) (store_key (esn_id s) tenant) = Some s" using entry(1) unfolding key .
  show "is_none_or after (\<lambda>a. a < esn_id s)" using entry(3) unfolding id .
  show "is_none_or status (\<lambda>n. es_status_name (ef_status (esn_effect s)) = n)" by (rule e(3))
qed

lemma validate_page_item_ok:
  "validate_page_item env authority st previous s = Inr p \<longleftrightarrow>
     effect_validate env (esn_effect s) = Inr () \<and> unat (esn_revision s) = length (ef_transitions (esn_effect s)) \<and>
     esn_tenant_id s = tenant_id authority \<and> ef_tenant_id (esn_effect s) = tenant_id authority \<and>
     ps_matches st (ef_status (esn_effect s)) \<and> is_none_or previous (\<lambda>a. a < esn_id s) \<and> p = Some (esn_id s)"
  by (auto simp: validate_page_item_def ok_iff is_none_or_def not_le split: if_splits option.splits)

lemma page_items_ok:
  assumes "sorted_wrt (\<lambda>x y. esn_id x < esn_id y) xs"
    and "\<And>s. s \<in> set xs \<Longrightarrow> is_none_or after (\<lambda>a. a < esn_id s)"
    and "\<And>s. s \<in> set xs \<Longrightarrow> validate_page_item env authority st None s = Inr (Some (esn_id s))"
  shows "\<exists>p. try_fold (validate_page_item env authority st) after xs = Inr p"
  using assms
proof (induction xs arbitrary: after)
  case (Cons x xs)
  then have "validate_page_item env authority st after x = Inr (Some (esn_id x))"
    by (simp add: validate_page_item_ok)
  with Cons show ?case by simp
qed simp

lemma ps_matches_name: "ps_matches st s \<longleftrightarrow> es_status_name s = ps_name st"
  by (cases st; cases s) simp_all

section \<open>A concrete ledger\<close>

definition demo_entry :: "u64 \<Rightarrow> effect \<Rightarrow> effect_snapshot" where
  "demo_entry n e = \<lparr>esn_id = ''e'', esn_tenant_id = None, esn_revision = n, esn_effect = e\<rparr>"

definition demo_ledger :: "u64 \<Rightarrow> effect \<Rightarrow> effect_state" where
  "demo_ledger n e = \<lparr>mes_effects = [(([], ''e''), demo_entry n e)],
     mes_idempotency = [(([], ''mail'', ''send'', ''key''), ''e'')]\<rparr>"

lemmas effect_store_eval = ef_create_as_def ef_apply_as_def ef_validate_access_def store_key_def
  tenant_storage_key_def ef_validate_expected_revision_def bm_get_def Let_def demo_ledger_def demo_entry_def
  effect_state_empty_def idempotency_coordinate_def

lemma demo_entry_id [simp]: "ef_validate_identity ''e'' = Inr ()" "ef_validate_identity ''f'' = Inr ()"
  by (simp_all add: ef_validate_identity_def string_eval MAX_EFFECT_IDENTITY_BYTES_def)

lemma demo_ledger_created:
  "ef_create_as demo_effect_env effect_state_empty ''e'' demo_effect_request 5 local_process =
     Inr (demo_ledger 1 demo_pending, demo_entry 1 demo_pending)"
  by (simp add: effect_store_eval demo_effect_new) (simp add: demo_effect_defs)

lemma demo_take_new: "effect_recognizes_command demo_effect_env demo_pending demo_take local_process = Inr False"
  using demo_take_applied by (auto elim: effect_apply_AppliedE)

lemma demo_ledger_taken:
  "ef_apply_as demo_effect_env (demo_ledger 1 demo_pending) ''e'' 1 demo_take 6 local_process =
     Inr (demo_ledger 2 demo_taken, \<lparr>ecr_snapshot = demo_entry 2 demo_taken, ecr_outcome = EApplied\<rparr>)"
  by (simp add: effect_store_eval demo_take_new demo_take_applied checked_add_def)

lemma demo_ledger_reachable:
  "(effect_store_step demo_effect_env)\<^sup>*\<^sup>* effect_state_empty (demo_ledger 1 demo_pending)"
  "(effect_store_step demo_effect_env)\<^sup>*\<^sup>* effect_state_empty (demo_ledger 2 demo_taken)"
proof -
  show one: "(effect_store_step demo_effect_env)\<^sup>*\<^sup>* effect_state_empty (demo_ledger 1 demo_pending)"
    by (rule r_into_rtranclp) (rule effect_created [OF demo_ledger_created])
  show "(effect_store_step demo_effect_env)\<^sup>*\<^sup>* effect_state_empty (demo_ledger 2 demo_taken)"
    using one by (rule rtranclp.rtrancl_into_rtrancl) (rule effect_changed [OF demo_ledger_taken])
qed

section \<open>Properties\<close>

text \<open>
  C6: An external effect is requested once. After a call stored a new Effect, the same request of the same
  actor and tenant, at any later time and under the same or any unused identity, stores nothing and
  returns that Effect in its current state: the retry after a lost reply never creates a second
  Effect.
\<close>

theorem effect_create_once:
  assumes reach: "(effect_store_step env)\<^sup>*\<^sup>* effect_state_empty state"
    and first: "ef_create_as env state effect_id request now authority = Inr (state1, snapshot)" "state1 \<noteq> state"
    and later: "(effect_store_step env)\<^sup>*\<^sup>* state1 state2"
    and caller: "actor authority' = actor authority" "tenant_id authority' = tenant_id authority"
    and request: "effect_new env request now' authority' = Inr proposed" "ef_validate_identity effect_id' = Inr ()"
    and unused: "effect_id' \<noteq> effect_id \<Longrightarrow> ef_load_as state2 effect_id' authority' = Inr None"
  shows "\<exists>current. ef_create_as env state2 effect_id' request now' authority' = Inr (state2, current) \<and>
    esn_id current = effect_id \<and> effect_evolves snapshot current"
  using first(1)
proof (cases rule: ef_create_as_okE)
  case known
  with first(2) show ?thesis by simp
next
  case (fresh e)
  let ?k = "store_key effect_id (tenant_id authority)"
  have valid: "valid_authority authority'" using request(1) by (auto simp: effect_new_def ok_iff ef_validate_authority_ok)
  have reach2: "(effect_store_step env)\<^sup>*\<^sup>* effect_state_empty state2"
    using rtranclp_trans [OF rtranclp.rtrancl_into_rtrancl [where r = "effect_store_step env", OF reach effect_created [OF first(1)]] later] .
  have "bm_get (mes_effects state1) ?k = Some snapshot" using fresh by (simp add: bm_get_insert)
  from effect_steps_extend [OF later this] obtain current where
    current: "bm_get (mes_effects state2) ?k = Some current" "effect_evolves snapshot current" by blast
  then obtain ts where "ef_transitions (esn_effect current) = ef_transitions e @ ts"
    "ef_tenant_id (esn_effect current) = ef_tenant_id e"
    unfolding effect_evolves_def fresh(6) fresh_effect_sel by blast
  from create_matches_prefix [OF fresh(3) this caller valid]
  have same: "effect_create_matches env (esn_effect current) request authority' = Inr True" .
  have "coordinate_of ?k current = idempotency_coordinate (tenant_storage_key (tenant_id authority)) request"
    using coordinate_fresh [OF fresh(3), of ?k effect_id "tenant_id authority"] current(2) fresh(6)
    by (simp add: coordinate_of_def effect_evolves_def store_key_def)
  with index_exactD [OF index_exact_reachable [OF reach2]] current(1)
  have index: "bm_get (mes_idempotency state2) (idempotency_coordinate (tenant_storage_key (tenant_id authority)) request)
      = Some effect_id"
    by (auto simp: store_key_def idempotency_coordinate_def)
  have access: "ef_validate_access effect_id' authority' = Inr ()" using valid request(2) by (simp add: ok_iff)
  have "ef_create_as env state2 effect_id' request now' authority' = Inr (state2, current)"
    using same index current(1) request(1) access unused caller(2)
    by (cases "effect_id' = effect_id") (simp_all add: ef_create_as_def ef_load_as_def Let_def store_key_def)
  moreover have "esn_id current = effect_id"
    using effect_store_ids [OF reach2 current(1)] by (simp add: store_key_def)
  ultimately show ?thesis using current(2) by blast
qed

theorem effect_create_once_witness:
  "ef_load_as (demo_ledger 2 demo_taken) ''f'' local_process = Inr None \<and>
   (\<exists>current. ef_create_as demo_effect_env (demo_ledger 2 demo_taken) ''f'' demo_effect_request 5 local_process =
      Inr (demo_ledger 2 demo_taken, current) \<and> esn_id current = ''e'' \<and> effect_evolves (demo_entry 1 demo_pending) current)"
proof -
  have unused: "ef_load_as (demo_ledger 2 demo_taken) ''f'' local_process = Inr None"
    by (simp add: ef_load_as_def effect_store_eval)
  have stored: "demo_ledger 1 demo_pending \<noteq> effect_state_empty"
    by (simp add: demo_ledger_def effect_state_empty_def)
  have later: "(effect_store_step demo_effect_env)\<^sup>*\<^sup>* (demo_ledger 1 demo_pending) (demo_ledger 2 demo_taken)"
    by (rule r_into_rtranclp) (rule effect_changed [OF demo_ledger_taken])
  from effect_create_once [OF rtranclp.rtrancl_refl demo_ledger_created stored later refl refl demo_effect_new demo_entry_id(2) unused]
    unused show ?thesis by blast
qed

text \<open>
  C7: At most one Effect exists per tenant, capability, operation and idempotency key. In every reachable
  ledger two Effects of a tenant that agree on these are the same; a create request whose
  coordinate is taken stores nothing, whatever identity it proposes; and the index names an
  Effect for a coordinate exactly when the ledger holds it with that coordinate, so the lookup
  behind the index never fails.
\<close>

theorem effect_idempotency_unique:
  assumes reach: "(effect_store_step env)\<^sup>*\<^sup>* effect_state_empty state"
    and entry: "bm_get (mes_effects state) (tenant, i) = Some a"
  shows "(bm_get (mes_effects state) (tenant, j) = Some b \<longrightarrow>
      ef_operation (esn_effect b) = ef_operation (esn_effect a) \<longrightarrow>
      ef_idempotency_key (esn_effect b) = ef_idempotency_key (esn_effect a) \<longrightarrow> j = i) \<and>
    (ef_create_as env state effect_id request now authority = Inr (state', snapshot) \<longrightarrow>
      tenant_storage_key (tenant_id authority) = tenant \<longrightarrow>
      eq_operation request = ef_operation (esn_effect a) \<longrightarrow>
      eq_idempotency_key request = ef_idempotency_key (esn_effect a) \<longrightarrow> state' = state) \<and>
    (bm_get (mes_idempotency state) c = Some k \<longleftrightarrow>
      (\<exists>s. bm_get (mes_effects state) (fst c, k) = Some s \<and> coordinate_of (fst c, k) s = c))"
proof (rule conjI [OF _ conjI]; (intro impI)?)
  have index: "bm_get (mes_idempotency state) (coordinate_of (t, k) c) = Some k"
    if "bm_get (mes_effects state) (t, k) = Some c" for t k c
    using index_exactD [OF index_exact_reachable [OF reach], of "coordinate_of (t, k) c" k] that by simp
  show "j = i" if "bm_get (mes_effects state) (tenant, j) = Some b"
    "ef_operation (esn_effect b) = ef_operation (esn_effect a)"
    "ef_idempotency_key (esn_effect b) = ef_idempotency_key (esn_effect a)"
    using index [OF entry] index [OF that(1)] that(2,3) by (simp add: coordinate_of_def)
  show "state' = state" if create: "ef_create_as env state effect_id request now authority = Inr (state', snapshot)"
    and taken: "tenant_storage_key (tenant_id authority) = tenant" "eq_operation request = ef_operation (esn_effect a)"
      "eq_idempotency_key request = ef_idempotency_key (esn_effect a)"
    using create
  proof (cases rule: ef_create_as_okE)
    case (fresh e)
    with index [OF entry] taken show ?thesis by (simp add: coordinate_of_def idempotency_coordinate_def)
  qed simp
  show "bm_get (mes_idempotency state) c = Some k \<longleftrightarrow>
      (\<exists>s. bm_get (mes_effects state) (fst c, k) = Some s \<and> coordinate_of (fst c, k) s = c)"
    by (rule index_exactD [OF index_exact_reachable [OF reach]])
qed

theorem effect_idempotency_unique_witness:
  "bm_get (mes_effects (demo_ledger 2 demo_taken)) ([], ''e'') = Some (demo_entry 2 demo_taken) \<and>
   ef_create_as demo_effect_env (demo_ledger 2 demo_taken) ''f'' demo_effect_request 5 local_process
     = Inr (demo_ledger 2 demo_taken, demo_entry 2 demo_taken)"
proof -
  have entry: "bm_get (mes_effects (demo_ledger 2 demo_taken)) ([], ''e'') = Some (demo_entry 2 demo_taken)"
    by (simp add: demo_ledger_def bm_get_def)
  have create: "\<exists>state'. ef_create_as demo_effect_env (demo_ledger 2 demo_taken) ''f'' demo_effect_request 5 local_process
      = Inr (state', demo_entry 2 demo_taken)"
    by (simp add: effect_store_eval demo_effect_new effect_create_matches_def) (simp add: demo_effect_defs)
  then obtain state' where create: "ef_create_as demo_effect_env (demo_ledger 2 demo_taken) ''f'' demo_effect_request 5 local_process
      = Inr (state', demo_entry 2 demo_taken)" ..
  have "state' = demo_ledger 2 demo_taken"
    using effect_idempotency_unique [OF demo_ledger_reachable(2) entry] create
    by (simp add: tenant_storage_key_def demo_entry_def demo_effect_defs)
  with entry create show ?thesis by simp
qed

text \<open>
  The pages of the ledger pass the check of their consumers. A page of pending or unknown Effects
  listed from a reachable ledger is the first \<open>limit\<close> such Effects of the caller's tenant behind
  the cursor, in the order of their identities, and the check the executor and the reconciler run on
  every page (valid Effects, tenant, revision equal to the number of transitions, expected status,
  increasing identities, consistent continuation) accepts it.
\<close>

theorem effect_pages_validate:
  assumes reach: "(effect_store_step env)\<^sup>*\<^sup>* effect_state_empty state"
    and page: "ef_list_as state (Some (ps_name st)) after limit authority = Inr page"
  shows "(validate_effect_page env page after limit authority st = Inr ()) \<and>
    (epg_effects page = take limit (listed_effects state (tenant_id authority) (Some (ps_name st)) after))"
proof (rule conjI; (intro impI)?)
  let ?xs = "listed_effects state (tenant_id authority) (Some (ps_name st)) after"
  from page have valid: "valid_tenant (tenant_id authority)" and eq: "page = ef_page_from_candidates ?xs limit"
    by (auto simp: ef_list_as_eq ok_iff ef_validate_list_ok valid_authority_def)
  show effects: "epg_effects page = take limit ?xs" by (simp add: eq ef_page_from_candidates_def Let_def)
  have "sorted_wrt (\<lambda>x y. esn_id x < esn_id y) ?xs"
    unfolding listed_effects_def by (intro sorted_wrt_filter tenant_values_sorted [OF reach])
  then have sorted: "sorted_wrt (\<lambda>x y. esn_id x < esn_id y) (take limit ?xs)" by (rule sorted_wrt_take)
  have item: "validate_page_item env authority st None s = Inr (Some (esn_id s)) \<and> is_none_or after (\<lambda>a. a < esn_id s)"
    if "s \<in> set (take limit ?xs)" for s
  proof -
    note entry = listed_effects_entry [OF reach valid in_set_takeD [OF that]]
    from effect_store_entries [OF reach entry(1)] effect_entry_tenant(1,2) [OF reach entry(1) valid] entry(2,3)
    show ?thesis by (simp add: validate_page_item_ok effect_entry_ok_def effect_inv_def ps_matches_name)
  qed
  have "\<exists>p. try_fold (validate_page_item env authority st) after (take limit ?xs) = Inr p"
    by (rule page_items_ok [OF sorted]) (use item in blast)+
  then show "validate_effect_page env page after limit authority st = Inr ()"
    by (auto simp: validate_effect_page_def eq ef_page_from_candidates_def Let_def)
qed

theorem effect_pages_validate_witness:
  "ef_list_as (demo_ledger 1 demo_pending) (Some (ps_name PsPending)) None 3 local_process =
     Inr \<lparr>epg_effects = [demo_entry 1 demo_pending], epg_next_cursor = Some ''e'', epg_has_more = False\<rparr> \<and>
   validate_effect_page demo_effect_env
     \<lparr>epg_effects = [demo_entry 1 demo_pending], epg_next_cursor = Some ''e'', epg_has_more = False\<rparr>
     None 3 local_process PsPending = Inr ()"
proof -
  have list: "ef_list_as (demo_ledger 1 demo_pending) (Some (ps_name PsPending)) None 3 local_process =
     Inr \<lparr>epg_effects = [demo_entry 1 demo_pending], epg_next_cursor = Some ''e'', epg_has_more = False\<rparr>"
    by (simp add: ef_list_as_def ef_validate_list_def ef_validate_status_filter_def MAX_EFFECT_PAGE_def
        ef_page_from_candidates_def usize_saturating_add_def effect_store_eval demo_pending_def)
  from conjunct1 [OF effect_pages_validate [OF demo_ledger_reachable(1) list]] list show ?thesis by simp
qed

text \<open>
  The contract of the ledger under concurrency. After a command was applied with some observed
  revision no other command sent with that revision is ever applied, so of two executors that claim
  the same pending Effect one loses; the caller that lost its reply may repeat the command and gets
  the current Effect reported as a duplicate; and the revision of every Effect is the number of
  its transitions, between 1 and 4,096.
\<close>

theorem effect_store_contract:
  assumes reach: "(effect_store_step env)\<^sup>*\<^sup>* effect_state_empty state"
    and first: "ef_apply_as env state effect_id r command now authority = Inr (state1, res)" "ecr_outcome res = EApplied"
    and later: "(effect_store_step env)\<^sup>*\<^sup>* state1 state2"
    and caller: "valid_authority authority'" "tenant_id authority' = tenant_id authority"
  shows "(ef_apply_as env state2 effect_id r command' now' authority' = Inr (state3, res') \<longrightarrow>
      ecr_outcome res' = EDuplicate \<and> state3 = state2) \<and>
    (actor authority' = actor authority \<longrightarrow>
      (\<exists>current. ef_apply_as env state2 effect_id r command now' authority' =
        Inr (state2, \<lparr>ecr_snapshot = current, ecr_outcome = EDuplicate\<rparr>) \<and> effect_evolves (ecr_snapshot res) current)) \<and>
    (bm_get (mes_effects state2) k = Some s \<longrightarrow>
      unat (esn_revision s) = length (ef_transitions (esn_effect s)) \<and> 0 < esn_revision s \<and> esn_revision s \<le> 4096)"
proof (rule conjI [OF _ conjI]; (intro impI)?)
  let ?k = "store_key effect_id (tenant_id authority)"
  show "ecr_outcome res' = EDuplicate \<and> state3 = state2"
    if again: "ef_apply_as env state2 effect_id r command' now' authority' = Inr (state3, res')"
  proof -
    have "effect_commits env state ?k r state1" unfolding effect_commits_def store_key_def using first by blast
    from estore.one_writer [OF this later] again caller(2) have "ecr_outcome res' \<noteq> EApplied"
      unfolding effect_commits_def store_key_def by metis
    with again show ?thesis by (auto elim!: ef_apply_as_okE)
  qed
  have valid: "valid_tenant (tenant_id authority)" using caller by (simp add: valid_authority_def)
  show "\<exists>current. ef_apply_as env state2 effect_id r command now' authority' =
        Inr (state2, \<lparr>ecr_snapshot = current, ecr_outcome = EDuplicate\<rparr>) \<and> effect_evolves (ecr_snapshot res) current"
    if actor: "actor authority' = actor authority"
  proof -
    have guards: "ef_validate_access effect_id authority' = Inr ()" "r \<noteq> 0"
      using first(1) caller(1) by (auto simp: ef_apply_as_def ok_iff ef_validate_expected_revision_def)
    have "ef_tenant_id (esn_effect s) = tenant_id authority" if "bm_get (mes_effects state) ?k = Some s" for s
      using effect_entry_tenant(2) [OF reach that valid] .
    note committed = effect_committed_is_recognized [OF first(1) this]
    from effect_steps_extend [OF later conjunct1 [OF committed]] obtain current where
      current: "bm_get (mes_effects state2) ?k = Some current" "effect_evolves (ecr_snapshot res) current" by blast
    then obtain ts where "ef_transitions (esn_effect current) = ef_transitions (esn_effect (ecr_snapshot res)) @ ts"
      "ef_tenant_id (esn_effect current) = ef_tenant_id (esn_effect (ecr_snapshot res))"
      unfolding effect_evolves_def by blast
    from effect_recognizes_prefix [OF conjunct2 [OF committed] this actor caller(2,1)] current guards caller(2)
    have "ef_apply_as env state2 effect_id r command now' authority' =
        Inr (state2, \<lparr>ecr_snapshot = current, ecr_outcome = EDuplicate\<rparr>)"
      by (simp add: ef_apply_as_def ef_validate_expected_revision_def store_key_def)
    with current(2) show ?thesis by blast
  qed
  have reach2: "(effect_store_step env)\<^sup>*\<^sup>* effect_state_empty state2"
    using rtranclp_trans [OF rtranclp.rtrancl_into_rtrancl [where r = "effect_store_step env", OF reach effect_changed [OF first(1)]] later] .
  show "unat (esn_revision s) = length (ef_transitions (esn_effect s)) \<and> 0 < esn_revision s \<and> esn_revision s \<le> 4096"
    if "bm_get (mes_effects state2) k = Some s"
    using effect_store_entries [OF reach2 that]
    by (auto simp: word_less_nat_alt word_le_nat_alt effect_entry_ok_def effect_inv_def effect_validate_ok MAX_EFFECT_TRANSITIONS_def)
qed

theorem effect_store_contract_witness:
  "(\<exists>current. ef_apply_as demo_effect_env (demo_ledger 2 demo_taken) ''e'' 1 demo_take 9 local_process =
      Inr (demo_ledger 2 demo_taken, \<lparr>ecr_snapshot = current, ecr_outcome = EDuplicate\<rparr>) \<and>
      effect_evolves (demo_entry 2 demo_taken) current) \<and>
   unat (2 :: u64) = length (ef_transitions demo_taken)"
proof -
  note contract = effect_store_contract [OF demo_ledger_reachable(1) demo_ledger_taken _ rtranclp.rtrancl_refl
      valid_authority_local_process refl]
  have "bm_get (mes_effects (demo_ledger 2 demo_taken)) ([], ''e'') = Some (demo_entry 2 demo_taken)"
    by (simp add: demo_ledger_def bm_get_def)
  with contract show ?thesis by (fastforce simp: demo_entry_def)
qed

end
