(* ===== verification/Temporal.thy ===== *)
theory Temporal
  imports Workflow_Engine Handoff_Store Effect_Store Wait_Due
begin

text \<open>
  The Temporal Driver (\<^verbatim>\<open>temporal/mod.rs\<close>): one bounded tick scans the due Workflow waits, the expired
  Human Handoff claims and the expired Effect leases of a tenant, checks every page, computes every
  command identity, and only then sends the fenced commands. A tick is modelled as the two phases
  the code has: a plan, which reads, and the attempts, which write; other callers may act between
  them. The model is the driver without a State Engine, so its page of agent loop waits is the empty one.
  The encoder of the command identity and SHA-256 are parameters.
\<close>

section \<open>Requests and reports\<close>

definition MAX_TEMPORAL_SCAN_LIMIT :: nat where "MAX_TEMPORAL_SCAN_LIMIT = 256"
definition MAX_TEMPORAL_IDENTITY_BYTES :: nat where "MAX_TEMPORAL_IDENTITY_BYTES = 256"

record temporal_tick_cursor =
  tc_workflow_after_run_id :: "string option"
  tc_handoff_after_handoff_id :: "string option"
  tc_effect_after_effect_id :: "string option"
  tc_agent_loop_wait_after :: "due_cursor option"

record temporal_tick_request =
  tq_at_ms :: u64
  tq_scan_limit :: usize
  tq_cursor :: temporal_tick_cursor

record temporal_scan_progress =
  tsp_scanned :: usize
  tsp_due :: usize
  tsp_has_more :: bool

datatype temporal_target =
    WorkflowWait string u64 string u64
  | HumanHandoffClaim string u64 string u64
  | EffectLease string u64 string u32 u64
  | AgentLoopWait due_phase string string string u64 u64 u64

datatype temporal_attempt_outcome =
    TaApplied
  | TaDuplicate
  | TaFenced u64
  | TaStreamFenced u64
  | TaFailed

record temporal_attempt =
  ta_target :: temporal_target
  ta_command_id :: string
  ta_outcome :: temporal_attempt_outcome

record temporal_tick_report =
  trp_at_ms :: u64
  trp_workflows :: temporal_scan_progress
  trp_human_handoffs :: temporal_scan_progress
  trp_effects :: temporal_scan_progress
  trp_agent_loop_waits :: temporal_scan_progress
  trp_next_cursor :: temporal_tick_cursor
  trp_attempts :: "temporal_attempt list"

text \<open>The engines of a driver, each with the stores behind it; the Workflow Engine reads Task Graphs too.\<close>

record 'v temporal_driver =
  td_workflows :: "('v workflow_store \<times> graph_store) option"
  td_human_handoffs :: "handoff_store option"
  td_effects :: "effect_state option"

record 'v temporal_env =
  te_workflow :: "'v workflow_env"
  te_handoff :: handoff_env
  te_effect :: effect_env
  te_identity :: "(string \<times> actor_identity \<times> string \<times> string) serializer"
  te_sha256 :: "bytes \<Rightarrow> bytes"

section \<open>Checks of the request\<close>

definition validate_temporal_identity :: "string \<Rightarrow> unit result" where
  "validate_temporal_identity value =
     (if trim_is_empty value \<or> length value > MAX_TEMPORAL_IDENTITY_BYTES \<or> has_control value
      then Inl (Temporal Tp_identity) else Inr ())"

definition validate_agent_loop_wait_cursor :: "due_cursor \<Rightarrow> unit result" where
  "validate_agent_loop_wait_cursor cursor =
     (if dcu_due_at_ms cursor = 0 then Inl (Temporal Tp_cursor_time)
      else
      and_then (validate_temporal_identity (dcu_thread_id cursor)) (\<lambda>_.
      and_then (validate_temporal_identity (dcu_turn_id cursor)) (\<lambda>_.
      validate_temporal_identity (dcu_wait_id cursor))))"

definition check_opt :: "('a \<Rightarrow> unit result) \<Rightarrow> 'a option \<Rightarrow> unit result" where
  "check_opt f x = (case x of None \<Rightarrow> Inr () | Some a \<Rightarrow> f a)"

definition tp_validate_request :: "temporal_tick_request \<Rightarrow> authority_context \<Rightarrow> unit result" where
  "tp_validate_request request authority =
     and_then (map_err (\<lambda>_. Temporal Tp_authority) (authority_validate_current authority)) (\<lambda>_.
     if tq_at_ms request = 0 then Inl (Temporal Tp_zero_time)
     else if \<not> (1 \<le> tq_scan_limit request \<and> tq_scan_limit request \<le> MAX_TEMPORAL_SCAN_LIMIT)
     then Inl (Temporal Tp_scan_limit)
     else
     let cursor = tq_cursor request in
     and_then (check_opt validate_temporal_identity (tc_workflow_after_run_id cursor)) (\<lambda>_.
     and_then (check_opt validate_temporal_identity (tc_handoff_after_handoff_id cursor)) (\<lambda>_.
     and_then (check_opt validate_temporal_identity (tc_effect_after_effect_id cursor)) (\<lambda>_.
     check_opt validate_agent_loop_wait_cursor (tc_agent_loop_wait_after cursor)))))"

definition validate_installed_cursors :: "'v temporal_driver \<Rightarrow> temporal_tick_cursor \<Rightarrow> unit result" where
  "validate_installed_cursors driver cursor =
     (if td_workflows driver = None \<and> tc_workflow_after_run_id cursor \<noteq> None \<or>
         td_human_handoffs driver = None \<and> tc_handoff_after_handoff_id cursor \<noteq> None \<or>
         td_effects driver = None \<and> tc_effect_after_effect_id cursor \<noteq> None \<or>
         tc_agent_loop_wait_after cursor \<noteq> None
      then Inl (Temporal Tp_cursor_without_source) else Inr ())"

section \<open>Checks of the pages\<close>

definition validate_scan_progress :: "usize \<Rightarrow> usize \<Rightarrow> bool \<Rightarrow> bool \<Rightarrow> usize \<Rightarrow> unit result" where
  "validate_scan_progress scanned due has_more has_continuation scan_limit =
     (if scanned > scan_limit \<or> due > scanned then Inl (Temporal Tp_counts_exceed)
      else if scanned = 0 \<and> has_continuation \<or> scanned \<noteq> 0 \<and> \<not> has_continuation
      then Inl (Temporal Tp_continuation_count)
      else if has_more \<and> scanned \<noteq> scan_limit then Inl (Temporal Tp_partial_has_more)
      else Inr ())"

definition validate_continuation :: "string option \<Rightarrow> string option \<Rightarrow> unit result" where
  "validate_continuation after continuation = check_opt (\<lambda>nxt.
     and_then (validate_temporal_identity nxt) (\<lambda>_.
     if (case after of None \<Rightarrow> False | Some a \<Rightarrow> nxt \<le> a) then Inl (Temporal Tp_not_advanced)
     else Inr ())) continuation"

text \<open>The order checks at the end of the three loop bodies, which carry the previous identity.\<close>

definition validate_due_order :: "string option \<Rightarrow> string option \<Rightarrow> string \<Rightarrow> string option result" where
  "validate_due_order continuation previous i =
     (if (case previous of None \<Rightarrow> False | Some prior \<Rightarrow> i \<le> prior) then Inl (Temporal Tp_not_ordered)
      else if is_none_or continuation (\<lambda>nxt. i > nxt) then Inl (Temporal Tp_beyond_page)
      else Inr (Some i))"

definition validate_workflow_due ::
  "workflow_due_scan_page \<Rightarrow> temporal_tick_request \<Rightarrow> authority_context \<Rightarrow> string option \<Rightarrow> workflow_due_wait \<Rightarrow>
   string option result" where
  "validate_workflow_due page request authority previous due =
     and_then (validate_temporal_identity (wdw_run_id due)) (\<lambda>_.
     and_then (validate_temporal_identity (wdw_wait_id due)) (\<lambda>_.
     if wdw_tenant_id due \<noteq> tenant_id authority then Inl (Temporal Tp_tenant)
     else if wdw_revision due = 0 \<or> wdw_due_at_ms due = 0 \<or> wdw_due_at_ms due > tq_at_ms request
     then Inl (Temporal Tp_not_eligible)
     else validate_due_order (wsp_next_after_run_id page) previous (wdw_run_id due)))"

definition validate_workflow_scan_page ::
  "workflow_due_scan_page \<Rightarrow> temporal_tick_request \<Rightarrow> authority_context \<Rightarrow> unit result" where
  "validate_workflow_scan_page page request authority =
     and_then (validate_scan_progress (wsp_scanned page) (length (wsp_due page)) (wsp_has_more page)
       (wsp_next_after_run_id page \<noteq> None) (tq_scan_limit request)) (\<lambda>_.
     and_then (validate_continuation (tc_workflow_after_run_id (tq_cursor request)) (wsp_next_after_run_id page)) (\<lambda>_.
     and_then (try_fold (validate_workflow_due page request authority)
       (tc_workflow_after_run_id (tq_cursor request)) (wsp_due page)) (\<lambda>_. Inr ())))"

definition validate_handoff_due ::
  "handoff_due_scan_page \<Rightarrow> temporal_tick_request \<Rightarrow> authority_context \<Rightarrow> string option \<Rightarrow> handoff_due_claim \<Rightarrow>
   string option result" where
  "validate_handoff_due page request authority previous due =
     and_then (validate_temporal_identity (hdc_handoff_id due)) (\<lambda>_.
     and_then (validate_temporal_identity (hdc_claim_id due)) (\<lambda>_.
     if hdc_tenant_id due \<noteq> tenant_id authority then Inl (Temporal Tp_tenant)
     else if hdc_revision due = 0 \<or> hdc_expires_at_ms due = 0 \<or> hdc_expires_at_ms due > tq_at_ms request
     then Inl (Temporal Tp_not_eligible)
     else validate_due_order (hdp_next_after_handoff_id page) previous (hdc_handoff_id due)))"

definition validate_handoff_scan_page ::
  "handoff_due_scan_page \<Rightarrow> temporal_tick_request \<Rightarrow> authority_context \<Rightarrow> unit result" where
  "validate_handoff_scan_page page request authority =
     and_then (validate_scan_progress (hdp_scanned page) (length (hdp_due page)) (hdp_has_more page)
       (hdp_next_after_handoff_id page \<noteq> None) (tq_scan_limit request)) (\<lambda>_.
     and_then (validate_continuation (tc_handoff_after_handoff_id (tq_cursor request)) (hdp_next_after_handoff_id page)) (\<lambda>_.
     and_then (try_fold (validate_handoff_due page request authority)
       (tc_handoff_after_handoff_id (tq_cursor request)) (hdp_due page)) (\<lambda>_. Inr ())))"

definition validate_effect_due ::
  "effect_due_scan_page \<Rightarrow> temporal_tick_request \<Rightarrow> authority_context \<Rightarrow> string option \<Rightarrow> effect_due_lease \<Rightarrow>
   string option result" where
  "validate_effect_due page request authority previous due =
     and_then (validate_temporal_identity (edl_effect_id due)) (\<lambda>_.
     and_then (validate_temporal_identity (edl_lease_id due)) (\<lambda>_.
     if edl_tenant_id due \<noteq> tenant_id authority then Inl (Temporal Tp_tenant)
     else if edl_revision due = 0 \<or> edl_attempt due = 0 \<or> edl_expires_at_ms due = 0 \<or>
             edl_expires_at_ms due > tq_at_ms request
     then Inl (Temporal Tp_not_eligible)
     else validate_due_order (edp_next_after_effect_id page) previous (edl_effect_id due)))"

definition validate_effect_scan_page ::
  "effect_due_scan_page \<Rightarrow> temporal_tick_request \<Rightarrow> authority_context \<Rightarrow> unit result" where
  "validate_effect_scan_page page request authority =
     and_then (validate_scan_progress (edp_scanned page) (length (edp_due page)) (edp_has_more page)
       (edp_next_after_effect_id page \<noteq> None) (tq_scan_limit request)) (\<lambda>_.
     and_then (validate_continuation (tc_effect_after_effect_id (tq_cursor request)) (edp_next_after_effect_id page)) (\<lambda>_.
     and_then (try_fold (validate_effect_due page request authority)
       (tc_effect_after_effect_id (tq_cursor request)) (edp_due page)) (\<lambda>_. Inr ())))"

definition validate_agent_loop_wait_scan_page ::
  "due_wait_page \<Rightarrow> temporal_tick_request \<Rightarrow> authority_context \<Rightarrow> unit result" where
  "validate_agent_loop_wait_scan_page page request authority =
     map_err (\<lambda>_. Temporal Tp_agent_loop_page) (page_validate page (tq_at_ms request)
       (tc_agent_loop_wait_after (tq_cursor request)) (tq_scan_limit request) (tenant_id authority))"

section \<open>The plan of a tick\<close>

definition temporal_command_id ::
  "'v temporal_env \<Rightarrow> string \<Rightarrow> actor_identity \<Rightarrow> string \<Rightarrow> string \<Rightarrow> string result" where
  "temporal_command_id env kind a aggregate_id fence_id =
     and_then (ok_or (Temporal Tp_encode) (to_vec (te_identity env) (kind, a, aggregate_id, fence_id))) (\<lambda>encoded.
     Inr (''temporal-'' @ kind @ ''-'' @ lower_hex (te_sha256 env encoded)))"

definition empty_workflow_page :: workflow_due_scan_page where
  "empty_workflow_page = \<lparr>wsp_due = [], wsp_next_after_run_id = None, wsp_has_more = False, wsp_scanned = 0\<rparr>"

definition empty_handoff_page :: handoff_due_scan_page where
  "empty_handoff_page = \<lparr>hdp_due = [], hdp_next_after_handoff_id = None, hdp_has_more = False, hdp_scanned = 0\<rparr>"

definition empty_effect_page :: effect_due_scan_page where
  "empty_effect_page = \<lparr>edp_due = [], edp_next_after_effect_id = None, edp_has_more = False, edp_scanned = 0\<rparr>"

definition empty_agent_loop_wait_page :: due_wait_page where
  "empty_agent_loop_wait_page = \<lparr>dp_due = [], dp_next_cursor = None, dp_has_more = False, dp_scanned = 0\<rparr>"

text \<open>\<open>collect\<close> of an iterator of results.\<close>

fun try_map :: "('a \<Rightarrow> 'e + 'b) \<Rightarrow> 'a list \<Rightarrow> 'e + 'b list" where
  "try_map f [] = Inr []"
| "try_map f (x # xs) = and_then (f x) (\<lambda>y. and_then (try_map f xs) (\<lambda>ys. Inr (y # ys)))"

definition workflow_wake ::
  "'v temporal_env \<Rightarrow> authority_context \<Rightarrow> workflow_due_wait \<Rightarrow> (workflow_due_wait \<times> string \<times> 'v workflow_command) result"
where
  "workflow_wake env authority due =
     and_then (temporal_command_id env ''workflow-wake'' (actor authority) (wdw_run_id due) (wdw_wait_id due)) (\<lambda>i.
     Inr (due, i, \<lparr>wc_id = i, wc_kind = WcWakeDue (wdw_wait_id due)\<rparr>))"

definition handoff_expire ::
  "'v temporal_env \<Rightarrow> authority_context \<Rightarrow> handoff_due_claim \<Rightarrow> (handoff_due_claim \<times> string \<times> handoff_command) result"
where
  "handoff_expire env authority due =
     and_then (temporal_command_id env ''handoff-expire'' (actor authority) (hdc_handoff_id due) (hdc_claim_id due)) (\<lambda>i.
     Inr (due, i, \<lparr>hcmd_id = i, hcmd_kind = HcExpireClaim (hdc_claim_id due)\<rparr>))"

definition effect_expire ::
  "'v temporal_env \<Rightarrow> authority_context \<Rightarrow> effect_due_lease \<Rightarrow> (effect_due_lease \<times> string \<times> effect_command) result"
where
  "effect_expire env authority due =
     and_then (temporal_command_id env ''effect-expire'' (actor authority) (edl_effect_id due) (edl_lease_id due)) (\<lambda>i.
     Inr (due, i, \<lparr>ec_id = i, ec_kind = EcExpireLease (edl_lease_id due)\<rparr>))"

record 'v temporal_plan =
  tpl_workflow_page :: workflow_due_scan_page
  tpl_handoff_page :: handoff_due_scan_page
  tpl_effect_page :: effect_due_scan_page
  tpl_agent_loop_wait_page :: due_wait_page
  tpl_workflow_commands :: "(workflow_due_wait \<times> string \<times> 'v workflow_command) list"
  tpl_handoff_commands :: "(handoff_due_claim \<times> string \<times> handoff_command) list"
  tpl_effect_commands :: "(effect_due_lease \<times> string \<times> effect_command) list"

definition tick_plan ::
  "'v temporal_env \<Rightarrow> 'v temporal_driver \<Rightarrow> temporal_tick_request \<Rightarrow> authority_context \<Rightarrow> 'v temporal_plan result" where
  "tick_plan env driver request authority =
     and_then (tp_validate_request request authority) (\<lambda>_.
     and_then (validate_installed_cursors driver (tq_cursor request)) (\<lambda>_.
     let at_ms = tq_at_ms request; cursor = tq_cursor request; limit = tq_scan_limit request in
     and_then (case td_workflows driver of
         Some (runs, _) \<Rightarrow> we_scan_due_as runs at_ms (tc_workflow_after_run_id cursor) limit authority
       | None \<Rightarrow> Inr empty_workflow_page) (\<lambda>workflow_page.
     and_then (case td_human_handoffs driver of
         Some handoffs \<Rightarrow> he_scan_due_as handoffs at_ms (tc_handoff_after_handoff_id cursor) limit authority
       | None \<Rightarrow> Inr empty_handoff_page) (\<lambda>handoff_page.
     and_then (case td_effects driver of
         Some effects \<Rightarrow> ef_scan_due_as effects at_ms (tc_effect_after_effect_id cursor) limit authority
       | None \<Rightarrow> Inr empty_effect_page) (\<lambda>effect_page.
     let agent_loop_wait_page = empty_agent_loop_wait_page in
     and_then (validate_workflow_scan_page workflow_page request authority) (\<lambda>_.
     and_then (validate_handoff_scan_page handoff_page request authority) (\<lambda>_.
     and_then (validate_effect_scan_page effect_page request authority) (\<lambda>_.
     and_then (validate_agent_loop_wait_scan_page agent_loop_wait_page request authority) (\<lambda>_.
     and_then (try_map (workflow_wake env authority) (wsp_due workflow_page)) (\<lambda>workflow_commands.
     and_then (try_map (handoff_expire env authority) (hdp_due handoff_page)) (\<lambda>handoff_commands.
     and_then (try_map (effect_expire env authority) (edp_due effect_page)) (\<lambda>effect_commands.
     Inr \<lparr>tpl_workflow_page = workflow_page, tpl_handoff_page = handoff_page, tpl_effect_page = effect_page,
       tpl_agent_loop_wait_page = agent_loop_wait_page, tpl_workflow_commands = workflow_commands,
       tpl_handoff_commands = handoff_commands, tpl_effect_commands = effect_commands\<rparr>))))))))))))"

section \<open>The attempts of a tick\<close>

fun workflow_target :: "workflow_due_wait \<Rightarrow> temporal_target" where
  "workflow_target due = WorkflowWait (wdw_run_id due) (wdw_revision due) (wdw_wait_id due) (wdw_due_at_ms due)"

fun handoff_target :: "handoff_due_claim \<Rightarrow> temporal_target" where
  "handoff_target due =
     HumanHandoffClaim (hdc_handoff_id due) (hdc_revision due) (hdc_claim_id due) (hdc_expires_at_ms due)"

fun effect_target :: "effect_due_lease \<Rightarrow> temporal_target" where
  "effect_target due =
     EffectLease (edl_effect_id due) (edl_revision due) (edl_lease_id due) (edl_attempt due) (edl_expires_at_ms due)"

text \<open>One attempt per command; an error settles the attempt and leaves the store.\<close>

definition workflow_attempt ::
  "'v::linorder temporal_env \<Rightarrow> graph_store \<Rightarrow> u64 \<Rightarrow> authority_context \<Rightarrow> 'v workflow_store \<Rightarrow>
   workflow_due_wait \<times> string \<times> 'v workflow_command \<Rightarrow> 'v workflow_store \<times> temporal_attempt" where
  "workflow_attempt env graphs at_ms authority runs = (\<lambda>(due, command_id, command).
     let (runs', outcome) =
       (case we_apply_as (te_workflow env) runs graphs (wdw_run_id due) (wdw_revision due) command at_ms authority of
          Inr (runs', result) \<Rightarrow> (runs', case wcr_outcome result of Applied \<Rightarrow> TaApplied | Duplicate \<Rightarrow> TaDuplicate)
        | Inl (WorkflowConflict _ _ actual) \<Rightarrow> (runs, TaFenced actual)
        | Inl _ \<Rightarrow> (runs, TaFailed))
     in (runs', \<lparr>ta_target = workflow_target due, ta_command_id = command_id, ta_outcome = outcome\<rparr>))"

definition handoff_attempt ::
  "'v temporal_env \<Rightarrow> u64 \<Rightarrow> authority_context \<Rightarrow> handoff_store \<Rightarrow>
   handoff_due_claim \<times> string \<times> handoff_command \<Rightarrow> handoff_store \<times> temporal_attempt" where
  "handoff_attempt env at_ms authority handoffs = (\<lambda>(due, command_id, command).
     let (handoffs', outcome) =
       (case he_apply_as (te_handoff env) handoffs (hdc_handoff_id due) (hdc_revision due) command at_ms authority of
          Inr (handoffs', result) \<Rightarrow>
            (handoffs', case hcr_outcome result of HApplied \<Rightarrow> TaApplied | HDuplicate \<Rightarrow> TaDuplicate)
        | Inl (HumanHandoffConflict _ _ actual) \<Rightarrow> (handoffs, TaFenced actual)
        | Inl _ \<Rightarrow> (handoffs, TaFailed))
     in (handoffs', \<lparr>ta_target = handoff_target due, ta_command_id = command_id, ta_outcome = outcome\<rparr>))"

definition effect_attempt ::
  "'v temporal_env \<Rightarrow> u64 \<Rightarrow> authority_context \<Rightarrow> effect_state \<Rightarrow>
   effect_due_lease \<times> string \<times> effect_command \<Rightarrow> effect_state \<times> temporal_attempt" where
  "effect_attempt env at_ms authority state = (\<lambda>(due, command_id, command).
     let (state', outcome) =
       (case ef_apply_as (te_effect env) state (edl_effect_id due) (edl_revision due) command at_ms authority of
          Inr (state', result) \<Rightarrow>
            (state', case ecr_outcome result of EApplied \<Rightarrow> TaApplied | EDuplicate \<Rightarrow> TaDuplicate)
        | Inl (EffectConflict _ _ actual) \<Rightarrow> (state, TaFenced actual)
        | Inl _ \<Rightarrow> (state, TaFailed))
     in (state', \<lparr>ta_target = effect_target due, ta_command_id = command_id, ta_outcome = outcome\<rparr>))"

fun run_attempts :: "('s \<Rightarrow> 'c \<Rightarrow> 's \<times> temporal_attempt) \<Rightarrow> 's \<Rightarrow> 'c list \<Rightarrow> 's \<times> temporal_attempt list" where
  "run_attempts f s [] = (s, [])"
| "run_attempts f s (c # cs) =
     (let (s', a) = f s c; (s'', as) = run_attempts f s' cs in (s'', a # as))"

definition progress :: "workflow_due_scan_page \<Rightarrow> temporal_scan_progress" where
  "progress page = \<lparr>tsp_scanned = wsp_scanned page, tsp_due = length (wsp_due page), tsp_has_more = wsp_has_more page\<rparr>"

definition handoff_progress :: "handoff_due_scan_page \<Rightarrow> temporal_scan_progress" where
  "handoff_progress page = \<lparr>tsp_scanned = hdp_scanned page, tsp_due = length (hdp_due page), tsp_has_more = hdp_has_more page\<rparr>"

definition effect_progress :: "effect_due_scan_page \<Rightarrow> temporal_scan_progress" where
  "effect_progress page = \<lparr>tsp_scanned = edp_scanned page, tsp_due = length (edp_due page), tsp_has_more = edp_has_more page\<rparr>"

definition agent_loop_wait_progress :: "due_wait_page \<Rightarrow> temporal_scan_progress" where
  "agent_loop_wait_progress page = \<lparr>tsp_scanned = dp_scanned page, tsp_due = length (dp_due page), tsp_has_more = dp_has_more page\<rparr>"

definition next_tick_cursor :: "'v temporal_plan \<Rightarrow> temporal_tick_cursor" where
  "next_tick_cursor plan = \<lparr>
     tc_workflow_after_run_id =
       (if wsp_has_more (tpl_workflow_page plan) then wsp_next_after_run_id (tpl_workflow_page plan) else None),
     tc_handoff_after_handoff_id =
       (if hdp_has_more (tpl_handoff_page plan) then hdp_next_after_handoff_id (tpl_handoff_page plan) else None),
     tc_effect_after_effect_id =
       (if edp_has_more (tpl_effect_page plan) then edp_next_after_effect_id (tpl_effect_page plan) else None),
     tc_agent_loop_wait_after =
       (if dp_has_more (tpl_agent_loop_wait_page plan) then dp_next_cursor (tpl_agent_loop_wait_page plan) else None)\<rparr>"

definition tick_attempts ::
  "'v::linorder temporal_env \<Rightarrow> 'v temporal_driver \<Rightarrow> temporal_tick_request \<Rightarrow> authority_context \<Rightarrow> 'v temporal_plan \<Rightarrow>
   'v temporal_driver \<times> temporal_tick_report" where
  "tick_attempts env driver request authority plan =
     (let at_ms = tq_at_ms request;
          (workflows, attempts1) =
            (case td_workflows driver of
               Some (runs, graphs) \<Rightarrow>
                 let (runs', attempts) = run_attempts (workflow_attempt env graphs at_ms authority) runs
                       (tpl_workflow_commands plan)
                 in (Some (runs', graphs), attempts)
             | None \<Rightarrow> (None, []));
          (handoffs, attempts2) =
            (case td_human_handoffs driver of
               Some handoffs \<Rightarrow>
                 let (handoffs', attempts) = run_attempts (handoff_attempt env at_ms authority) handoffs
                       (tpl_handoff_commands plan)
                 in (Some handoffs', attempts)
             | None \<Rightarrow> (None, []));
          (effects, attempts3) =
            (case td_effects driver of
               Some state \<Rightarrow>
                 let (state', attempts) = run_attempts (effect_attempt env at_ms authority) state
                       (tpl_effect_commands plan)
                 in (Some state', attempts)
             | None \<Rightarrow> (None, []))
      in (\<lparr>td_workflows = workflows, td_human_handoffs = handoffs, td_effects = effects\<rparr>,
          \<lparr>trp_at_ms = at_ms, trp_workflows = progress (tpl_workflow_page plan),
           trp_human_handoffs = handoff_progress (tpl_handoff_page plan),
           trp_effects = effect_progress (tpl_effect_page plan),
           trp_agent_loop_waits = agent_loop_wait_progress (tpl_agent_loop_wait_page plan),
           trp_next_cursor = next_tick_cursor plan,
           trp_attempts = attempts1 @ attempts2 @ attempts3\<rparr>))"

definition tick_as ::
  "'v::linorder temporal_env \<Rightarrow> 'v temporal_driver \<Rightarrow> temporal_tick_request \<Rightarrow> authority_context \<Rightarrow>
   ('v temporal_driver \<times> temporal_tick_report) result" where
  "tick_as env driver request authority =
     and_then (tick_plan env driver request authority) (\<lambda>plan.
     Inr (tick_attempts env driver request authority plan))"

definition tick ::
  "'v::linorder temporal_env \<Rightarrow> 'v temporal_driver \<Rightarrow> temporal_tick_request \<Rightarrow>
   ('v temporal_driver \<times> temporal_tick_report) result" where
  "tick env driver request = tick_as env driver request local_process"

section \<open>Fences of stored objects\<close>

text \<open>
  The identities and times a scan reads from the store pass the checks of the driver, because the
  state machines accepted them under the same bounds.
\<close>

lemma temporal_identity_eq:
  "wf_validate_identity i = Inr () \<longleftrightarrow> validate_temporal_identity i = Inr ()"
  "hh_validate_identity i = Inr () \<longleftrightarrow> validate_temporal_identity i = Inr ()"
  "ef_validate_identity i = Inr () \<longleftrightarrow> validate_temporal_identity i = Inr ()"
  by (simp_all add: wf_validate_identity_def hh_validate_identity_def ef_validate_identity_def
      validate_temporal_identity_def MAX_WORKFLOW_IDEMPOTENCY_BYTES_def MAX_HANDOFF_IDENTITY_BYTES_def
      MAX_EFFECT_IDENTITY_BYTES_def MAX_TEMPORAL_IDENTITY_BYTES_def)

fun wait_sound :: "workflow_status \<Rightarrow> bool" where
  "wait_sound st \<longleftrightarrow> (\<forall>i d. due_wait st = Some (i, d) \<longrightarrow> validate_temporal_identity i = Inr () \<and> d \<noteq> 0)"

fun claim_sound :: "handoff_status \<Rightarrow> bool" where
  "claim_sound (HsClaimed c) \<longleftrightarrow> validate_temporal_identity (hc_id c) = Inr () \<and> hc_expires_at_ms c \<noteq> 0"
| "claim_sound _ \<longleftrightarrow> True"

fun lease_sound :: "effect_status \<Rightarrow> bool" where
  "lease_sound (EsClaimed l) \<longleftrightarrow>
     validate_temporal_identity (el_id l) = Inr () \<and> el_expires_at_ms l \<noteq> 0 \<and> el_attempt l \<noteq> 0"
| "lease_sound _ \<longleftrightarrow> True"

lemma apply_kind_wait_sound:
  "apply_kind run kind now = Inr (run', tk) \<Longrightarrow> wait_sound (wr_status run) \<Longrightarrow> wait_sound (wr_status run')"
  by (cases kind)
    (auto simp: and_then_eq_Inr start_wait_def ensure_new_wait_id_def temporal_identity_eq
      split: if_splits option.splits workflow_status.splits workflow_wait.splits)

lemma longer_lease: "unat w = unat now + unat d \<Longrightarrow> 1000 \<le> d \<Longrightarrow> w \<noteq> 0" for d now w :: u64
  by (auto simp: word_le_nat_alt)

lemma handoff_apply_kind_claim_sound:
  "handoff_apply_kind h kind now a = Inr (h', tk) \<Longrightarrow> claim_sound (hh_status h) \<Longrightarrow> claim_sound (hh_status h')"
  by (cases kind)
    (auto simp: ok_iff validate_new_claim_id_def temporal_identity_eq hh_lease_expiration_def active_owned_claim_ok
      hh_validate_lease_duration_def MIN_HANDOFF_LEASE_MS_def not_less
      split: if_splits handoff_status.splits dest: longer_lease)

lemma effect_apply_kind_lease_sound:
  "effect_apply_kind e kind now a = Inr (e', tk) \<Longrightarrow> lease_sound (ef_status e) \<Longrightarrow> lease_sound (ef_status e')"
  by (cases kind)
    (auto simp: ok_iff validate_new_lease_id_def temporal_identity_eq ef_lease_expiration_def active_owned_lease_ok
      ef_validate_lease_duration_def MIN_EFFECT_LEASE_MS_def ef_validate_attempt_def settled_not_applied_def not_less
      split: if_splits effect_status.splits option.splits dest: longer_lease)

lemma workflow_new_status: "workflow_new env request now authority = Inr run \<Longrightarrow> wr_status run = WsRunning"
  by (auto simp: workflow_new_def ok_iff Let_def)

lemma handoff_new_status: "handoff_new env request now authority = Inr h \<Longrightarrow> hh_status h = HsQueued"
  by (auto simp: handoff_new_def ok_iff Let_def)

lemma workflow_fence_sound:
  assumes "(workflow_store_step env)\<^sup>*\<^sup>* [] runs" and "bm_get runs k = Some s"
  shows "wait_sound (wr_status (wrs_run s))"
  using assms
proof (rule wstore.entry_invariant)
  show "wait_sound (wr_status (wrs_run s))" if "workflow_born env k s" for s
    using that by (auto simp: workflow_born_def dest: workflow_new_status)
  show "wait_sound (wr_status (wrs_run s'))"
    if sound: "wait_sound (wr_status (wrs_run s))" and grows: "workflow_grows env s s'" for s s'
  proof -
    from grows obtain command now authority run revision where
      "workflow_apply env (wrs_run s) command now authority = Inr (run, Applied)" "wrs_run s' = run"
      by (auto simp: workflow_grows_def)
    with sound show ?thesis
      by (auto simp del: wait_sound.simps simp: commit_def elim!: workflow_apply_AppliedE dest: apply_kind_wait_sound)
  qed
qed

lemma handoff_fence_sound:
  assumes "(handoff_store_step env)\<^sup>*\<^sup>* [] handoffs" and "bm_get handoffs k = Some s"
  shows "claim_sound (hh_status (hsn_handoff s))"
  using assms
proof (rule hstore.entry_invariant)
  show "claim_sound (hh_status (hsn_handoff s))" if "handoff_born env k s" for s
    using that by (auto simp: handoff_born_def dest: handoff_new_status)
  show "claim_sound (hh_status (hsn_handoff s'))"
    if "claim_sound (hh_status (hsn_handoff s))" "handoff_grows env s s'" for s s'
    using that by (auto simp: handoff_grows_def elim!: handoff_apply_AppliedE dest: handoff_apply_kind_claim_sound)
qed

lemma effect_fence_sound:
  assumes "(effect_store_step env)\<^sup>*\<^sup>* effect_state_empty state" and "bm_get (mes_effects state) k = Some s"
  shows "lease_sound (ef_status (esn_effect s))"
  using assms
proof (rule estore.entry_invariant)
  show "lease_sound (ef_status (esn_effect s))" if "effect_born env k s" for s
    using that by (auto simp: effect_born_def effect_new_def ok_iff Let_def)
  show "lease_sound (ef_status (esn_effect s'))"
    if "lease_sound (ef_status (esn_effect s))" "effect_grows env s s'" for s s'
    using that by (auto simp: effect_grows_def elim!: effect_apply_AppliedE dest: effect_apply_kind_lease_sound)
qed

section \<open>Pages of due work\<close>

text \<open>
  The contract between a store and the page checks of the driver: every visited object gives at most
  one due fence, under its own identity. From a strictly ordered visit the client lemmas get
  the order and the bounds of the due list, and that the loop over it accepts.
\<close>

locale due_scan =
  fixes visited_id :: "'s \<Rightarrow> string"
    and fences :: "'s \<Rightarrow> 'd list"
    and fence_owner :: "'d \<Rightarrow> string"
  assumes at_most_one: "length (fences s) \<le> 1"
    and own_identity: "d \<in> set (fences s) \<Longrightarrow> fence_owner d = visited_id s"
begin

lemma due_count: "length (concat (map fences xs)) \<le> length xs"
proof (induction xs)
  case (Cons x xs)
  with at_most_one [of x] show ?case by simp
qed simp

lemma due_sorted:
  "sorted_wrt (\<lambda>x y. visited_id x < visited_id y) xs \<Longrightarrow>
   sorted_wrt (\<lambda>d e. fence_owner d < fence_owner e) (concat (map fences xs))"
proof (induction xs)
  case (Cons x xs)
  have "sorted_wrt (\<lambda>d e. fence_owner d < fence_owner e) (fences x)"
    using at_most_one [of x] by (cases "fences x") auto
  with Cons show ?case by (auto simp: sorted_wrt_append own_identity)
qed simp

lemma due_within:
  assumes "sorted_wrt (\<lambda>x y. visited_id x < visited_id y) xs" and "d \<in> set (concat (map fences xs))"
  shows "fence_owner d \<le> visited_id (last xs)"
proof -
  from assms(2) obtain x where x: "x \<in> set xs" "fence_owner d = visited_id x" by (auto dest: own_identity)
  then obtain ys where xs: "xs = ys @ [last xs]" by (metis append_butlast_last_id empty_iff list.set(1))
  with assms(1) have "\<forall>y\<in>set ys. visited_id y < visited_id (last xs)"
    by (metis sorted_wrt_append list.set_intros(1))
  moreover have "x \<in> set ys \<or> x = last xs" using x(1) xs by (metis Un_iff empty_iff insert_iff list.set set_append)
  ultimately show ?thesis using x(2) by auto
qed

text \<open>The loop over the due list, when the fields of every fence are in order.\<close>

lemma due_loop_accepts:
  assumes sorted: "sorted_wrt (\<lambda>x y. visited_id x < visited_id y) xs"
    and later: "\<And>x. x \<in> set xs \<Longrightarrow> is_none_or after (\<lambda>a. a < visited_id x)"
    and fields: "\<And>d previous. d \<in> set (concat (map fences xs)) \<Longrightarrow>
      check previous d = validate_due_order (Some (visited_id (last xs))) previous (fence_owner d)"
  shows "\<exists>p. try_fold check after (concat (map fences xs)) = Inr p"
proof -
  have loop: "\<exists>p. try_fold check previous ds = Inr p"
    if "sorted_wrt (\<lambda>d e. fence_owner d < fence_owner e) ds" "set ds \<subseteq> set (concat (map fences xs))"
      "\<And>d. d \<in> set ds \<Longrightarrow> is_none_or previous (\<lambda>a. a < fence_owner d)" for ds previous
    using that
  proof (induction ds arbitrary: previous)
    case (Cons d ds)
    from Cons.prems have "check previous d = Inr (Some (fence_owner d))"
      using fields [of d previous] due_within [OF sorted, of d]
      by (auto simp: validate_due_order_def is_none_or_def not_le split: option.splits)
    moreover have "\<exists>p. try_fold check (Some (fence_owner d)) ds = Inr p"
      by (rule Cons.IH) (use Cons.prems in auto)
    ultimately show ?case by simp
  qed simp
  show ?thesis
  proof (rule loop [OF due_sorted [OF sorted]])
    show "is_none_or after (\<lambda>a. a < fence_owner d)" if "d \<in> set (concat (map fences xs))" for d
      using that later own_identity by auto
  qed simp
qed

text \<open>The checks of a page that was cut from an ordered visit at the limit.\<close>

lemma page_accepted:
  assumes sorted: "sorted_wrt (\<lambda>x y. visited_id x < visited_id y) xs" and limit: "0 < n"
    and later: "\<forall>x\<in>set xs. is_none_or after (\<lambda>a. a < visited_id x)"
    and names: "\<forall>x\<in>set xs. validate_temporal_identity (visited_id x) = Inr ()"
    and fields: "\<forall>x\<in>set xs. \<forall>d\<in>set (fences x). \<forall>previous continuation.
      check continuation previous d = validate_due_order continuation previous (fence_owner d)"
    and page: "page = take n xs"
    and continuation: "continuation = (if page = [] then None else Some (visited_id (last page)))"
  shows "validate_scan_progress (length page) (length (concat (map fences page))) (n < length xs)
      (continuation \<noteq> None) n = Inr ()"
    and "validate_continuation after continuation = Inr ()"
    and "\<exists>p. try_fold (check continuation) after (concat (map fences page)) = Inr p"
proof -
  have sub: "set page \<subseteq> set xs" unfolding page by (rule set_take_subset)
  have order: "sorted_wrt (\<lambda>x y. visited_id x < visited_id y) page"
    using sorted unfolding page by (rule sorted_wrt_take)
  show "validate_scan_progress (length page) (length (concat (map fences page))) (n < length xs)
      (continuation \<noteq> None) n = Inr ()"
  proof -
    have "length page \<le> n" "n < length xs \<Longrightarrow> length page = n" by (auto simp: page)
    with due_count [of page] show ?thesis by (auto simp: validate_scan_progress_def continuation)
  qed
  have "last page \<in> set xs" if "page \<noteq> []" using that sub last_in_set by blast
  with later names show "validate_continuation after continuation = Inr ()"
    by (cases "page = []")
      (auto simp: validate_continuation_def check_opt_def continuation is_none_or_def not_le split: option.splits)
  show "\<exists>p. try_fold (check continuation) after (concat (map fences page)) = Inr p"
  proof (cases "page = []")
    case False
    then show ?thesis
      using sub later fields by (intro due_loop_accepts [OF order]) (auto simp: continuation)
  qed simp
qed

end

definition fences_of :: "('s \<Rightarrow> 'd option) \<Rightarrow> 's \<Rightarrow> 'd list" where
  "fences_of f s = (case f s of None \<Rightarrow> [] | Some d \<Rightarrow> [d])"

lemma map_filter_fences: "List.map_filter f xs = concat (map (fences_of f) xs)"
  by (induction xs) (simp_all add: fences_of_def split: option.splits)

interpretation wscan: due_scan wrs_id "due_of_snapshot at_ms" wdw_run_id for at_ms
  by unfold_locales (auto simp: due_of_snapshot_def split: option.splits if_splits)

interpretation hscan: due_scan hsn_id "fences_of (due_claim_of at_ms)" hdc_handoff_id for at_ms
  by unfold_locales (auto simp: fences_of_def due_claim_of_def split: option.splits if_splits handoff_status.splits)

interpretation escan: due_scan esn_id "fences_of (due_lease_of at_ms)" edl_effect_id for at_ms
  by unfold_locales (auto simp: fences_of_def due_lease_of_def split: option.splits if_splits effect_status.splits)

text \<open>The objects a scan visits are those of the tenant, in the order of their identities.\<close>

lemma visited_objects:
  assumes wf: "bm_wf m" and ids: "\<forall>k s. bm_get m k = Some s \<longrightarrow> id_of s = snd k"
  shows "sorted_wrt (\<lambda>x y. id_of x < id_of y) (map snd (tenant_after tenant after m))"
    and "s \<in> set (map snd (tenant_after tenant after m)) \<Longrightarrow>
      bm_get m (tenant, id_of s) = Some s \<and> is_none_or after (\<lambda>a. a < id_of s)"
proof -
  have entry: "id_of (snd e) = snd (fst e) \<and> bm_get m (fst e) = Some (snd e) \<and> fst (fst e) = tenant \<and>
      is_none_or after (\<lambda>a. a < snd (fst e))" if "e \<in> set (tenant_after tenant after m)" for e
    using tenant_after_entry [OF wf that] ids by blast
  have "sorted_wrt (\<lambda>x y. snd (fst x) < snd (fst y)) (tenant_after tenant after m)"
    using tenant_after_sorted [OF wf, of tenant after] by (simp add: sorted_wrt_map)
  then show "sorted_wrt (\<lambda>x y. id_of x < id_of y) (map snd (tenant_after tenant after m))"
    unfolding sorted_wrt_map by (rule sorted_wrt_mono_rel [rotated]) (simp add: entry)
  assume "s \<in> set (map snd (tenant_after tenant after m))"
  then obtain e where e: "e \<in> set (tenant_after tenant after m)" "s = snd e" by auto
  have "(tenant, id_of s) = fst e" unfolding e(2) using entry [OF e(1)] by (metis prod.collapse)
  with entry [OF e(1)] e(2) show "bm_get m (tenant, id_of s) = Some s \<and> is_none_or after (\<lambda>a. a < id_of s)"
    by auto
qed

lemma workflow_store_ids:
  "(workflow_store_step env)\<^sup>*\<^sup>* [] runs \<Longrightarrow> \<forall>k s. bm_get runs k = Some s \<longrightarrow> wrs_id s = snd k"
  by (auto simp: store_key_def workflow_entry_ok_def dest!: workflow_store_entries)

lemma handoff_store_ids:
  "(handoff_store_step env)\<^sup>*\<^sup>* [] handoffs \<Longrightarrow> \<forall>k s. bm_get handoffs k = Some s \<longrightarrow> hsn_id s = snd k"
  by (auto simp: store_key_def handoff_entry_ok_def dest!: handoff_store_entries)

section \<open>A tick always gets its plan\<close>

lemma tenant_of_entry:
  "(tenant_storage_key t', j) = store_key i t \<Longrightarrow> valid_tenant t \<Longrightarrow> valid_tenant t' \<Longrightarrow> t = t'"
  by (auto simp: store_key_def dest: tenant_storage_key_inj)

lemma workflow_page_accepted:
  fixes request authority runs
  defines "page \<equiv> wf_page_from_scan (map snd (tenant_after (tenant_storage_key (tenant_id authority))
    (tc_workflow_after_run_id (tq_cursor request)) runs)) (tq_scan_limit request) (tq_at_ms request)"
  assumes reach: "(workflow_store_step env)\<^sup>*\<^sup>* [] runs" and tenant: "valid_tenant (tenant_id authority)"
    and limit: "0 < tq_scan_limit request"
  shows "validate_workflow_scan_page page request authority = Inr ()"
proof -
  let ?xs = "map snd (tenant_after (tenant_storage_key (tenant_id authority))
    (tc_workflow_after_run_id (tq_cursor request)) runs)"
  let ?check = "\<lambda>continuation. validate_workflow_due (page\<lparr>wsp_next_after_run_id := continuation\<rparr>) request authority"
  note visited = visited_objects [where id_of = wrs_id, OF workflow_store_wf [OF reach] workflow_store_ids [OF reach]]
  have entry: "validate_temporal_identity (wrs_id x) = Inr () \<and> wrs_tenant_id x = tenant_id authority \<and>
      wrs_revision x \<noteq> 0 \<and> wait_sound (wr_status (wrs_run x)) \<and>
      is_none_or (tc_workflow_after_run_id (tq_cursor request)) (\<lambda>a. a < wrs_id x)" if "x \<in> set ?xs" for x
  proof -
    note stored = visited(2) [OF that, THEN conjunct1]
    have "workflow_entry_ok env (tenant_storage_key (tenant_id authority), wrs_id x) x"
      by (rule workflow_store_entries [OF reach stored])
    then have "wf_validate_identity (wrs_id x) = Inr ()" "wrs_tenant_id x = tenant_id authority"
      using tenant_of_entry [OF _ _ tenant] unfolding workflow_entry_ok_def by blast+
    then show ?thesis
      using workflow_revision_bounds(1) [OF reach stored] workflow_fence_sound [OF reach stored] visited(2) [OF that]
      by (auto simp: temporal_identity_eq(1) simp del: wait_sound.simps)
  qed
  have fields: "\<forall>x\<in>set ?xs. \<forall>d\<in>set (due_of_snapshot (tq_at_ms request) x). \<forall>previous continuation.
      ?check continuation previous d = validate_due_order continuation previous (wdw_run_id d)"
  proof (intro ballI allI)
    fix x d previous continuation
    assume "x \<in> set ?xs" and d: "d \<in> set (due_of_snapshot (tq_at_ms request) x)"
    with entry [OF this(1)] d show "?check continuation previous d = validate_due_order continuation previous (wdw_run_id d)"
      by (cases "due_wait (wr_status (wrs_run x))")
        (auto simp: validate_workflow_due_def due_of_snapshot_def not_less split: if_splits)
  qed
  have later: "\<forall>x\<in>set ?xs. is_none_or (tc_workflow_after_run_id (tq_cursor request)) (\<lambda>a. a < wrs_id x)"
    and names: "\<forall>x\<in>set ?xs. validate_temporal_identity (wrs_id x) = Inr ()"
    using entry by blast+
  let ?page = "take (tq_scan_limit request) ?xs"
  let ?continuation = "if ?page = [] then None else Some (wrs_id (last ?page))"
  have page: "wsp_due page = concat (map (due_of_snapshot (tq_at_ms request)) ?page)"
    "wsp_next_after_run_id page = ?continuation" "wsp_scanned page = length ?page"
    "wsp_has_more page \<longleftrightarrow> tq_scan_limit request < length ?xs"
    unfolding page_def by (simp_all add: wf_page_from_scan_def Let_def)
  have same: "validate_workflow_due page = validate_workflow_due (page\<lparr>wsp_next_after_run_id := ?continuation\<rparr>)"
    unfolding page(2) [symmetric] by (rule arg_cong [where f = validate_workflow_due]) (cases page; simp)
  note accepted = wscan.page_accepted [where check = ?check and n = "tq_scan_limit request" and
      after = "tc_workflow_after_run_id (tq_cursor request)" and page = ?page and continuation = ?continuation,
      OF visited(1) limit later names fields refl refl]
  show ?thesis
    unfolding validate_workflow_scan_page_def page same accepted(1,2) and_then_simps
    using accepted(3) by auto
qed

lemma handoff_page_accepted:
  fixes request authority handoffs
  defines "page \<equiv> due_page_from_scan (map snd (tenant_after (tenant_storage_key (tenant_id authority))
    (tc_handoff_after_handoff_id (tq_cursor request)) handoffs)) (tq_scan_limit request) (tq_at_ms request)"
  assumes reach: "(handoff_store_step env)\<^sup>*\<^sup>* [] handoffs" and tenant: "valid_tenant (tenant_id authority)"
    and limit: "0 < tq_scan_limit request"
  shows "validate_handoff_scan_page page request authority = Inr ()"
proof -
  let ?xs = "map snd (tenant_after (tenant_storage_key (tenant_id authority))
    (tc_handoff_after_handoff_id (tq_cursor request)) handoffs)"
  let ?check = "\<lambda>continuation. validate_handoff_due (page\<lparr>hdp_next_after_handoff_id := continuation\<rparr>) request authority"
  note visited = visited_objects [where id_of = hsn_id, OF handoff_store_wf [OF reach] handoff_store_ids [OF reach]]
  have entry: "validate_temporal_identity (hsn_id x) = Inr () \<and> hsn_tenant_id x = tenant_id authority \<and>
      hsn_revision x \<noteq> 0 \<and> claim_sound (hh_status (hsn_handoff x)) \<and>
      is_none_or (tc_handoff_after_handoff_id (tq_cursor request)) (\<lambda>a. a < hsn_id x)" if "x \<in> set ?xs" for x
  proof -
    note stored = visited(2) [OF that, THEN conjunct1]
    have "handoff_entry_ok env (tenant_storage_key (tenant_id authority), hsn_id x) x"
      by (rule handoff_store_entries [OF reach stored])
    then have "hh_validate_identity (hsn_id x) = Inr ()" "hsn_tenant_id x = tenant_id authority"
      using tenant_of_entry [OF _ _ tenant] unfolding handoff_entry_ok_def by blast+
    then show ?thesis
      using handoff_revision_bounds(1) [OF reach stored] handoff_fence_sound [OF reach stored] visited(2) [OF that]
      by (auto simp: temporal_identity_eq(2) simp del: claim_sound.simps)
  qed
  have fields: "\<forall>x\<in>set ?xs. \<forall>d\<in>set (fences_of (due_claim_of (tq_at_ms request)) x). \<forall>previous continuation.
      ?check continuation previous d = validate_due_order continuation previous (hdc_handoff_id d)"
  proof (intro ballI allI)
    fix x d previous continuation
    assume "x \<in> set ?xs" and d: "d \<in> set (fences_of (due_claim_of (tq_at_ms request)) x)"
    with entry [OF this(1)] d show "?check continuation previous d = validate_due_order continuation previous (hdc_handoff_id d)"
      by (cases "hh_status (hsn_handoff x)")
        (auto simp: validate_handoff_due_def fences_of_def due_claim_of_def not_less split: if_splits)
  qed
  have later: "\<forall>x\<in>set ?xs. is_none_or (tc_handoff_after_handoff_id (tq_cursor request)) (\<lambda>a. a < hsn_id x)"
    and names: "\<forall>x\<in>set ?xs. validate_temporal_identity (hsn_id x) = Inr ()"
    using entry by blast+
  let ?page = "take (tq_scan_limit request) ?xs"
  let ?continuation = "if ?page = [] then None else Some (hsn_id (last ?page))"
  have page: "hdp_due page = concat (map (fences_of (due_claim_of (tq_at_ms request))) ?page)"
    "hdp_next_after_handoff_id page = ?continuation" "hdp_scanned page = length ?page"
    "hdp_has_more page \<longleftrightarrow> tq_scan_limit request < length ?xs"
    unfolding page_def by (simp_all add: due_page_from_scan_def map_filter_fences Let_def)
  have same: "validate_handoff_due page = validate_handoff_due (page\<lparr>hdp_next_after_handoff_id := ?continuation\<rparr>)"
    unfolding page(2) [symmetric] by (rule arg_cong [where f = validate_handoff_due]) (cases page; simp)
  note accepted = hscan.page_accepted [where check = ?check and n = "tq_scan_limit request" and
      after = "tc_handoff_after_handoff_id (tq_cursor request)" and page = ?page and continuation = ?continuation,
      OF visited(1) limit later names fields refl refl]
  show ?thesis
    unfolding validate_handoff_scan_page_def page same accepted(1,2) and_then_simps
    using accepted(3) by auto
qed

lemma effect_store_all_ids:
  "(effect_store_step env)\<^sup>*\<^sup>* effect_state_empty state \<Longrightarrow>
   \<forall>k s. bm_get (mes_effects state) k = Some s \<longrightarrow> esn_id s = snd k"
  by (intro allI impI) (rule effect_store_ids)

lemma effect_page_accepted:
  fixes request authority state
  defines "page \<equiv> ef_due_page_from_scan (map snd (tenant_after (tenant_storage_key (tenant_id authority))
    (tc_effect_after_effect_id (tq_cursor request)) (mes_effects state))) (tq_scan_limit request) (tq_at_ms request)"
  assumes reach: "(effect_store_step env)\<^sup>*\<^sup>* effect_state_empty state" and tenant: "valid_tenant (tenant_id authority)"
    and limit: "0 < tq_scan_limit request"
  shows "validate_effect_scan_page page request authority = Inr ()"
proof -
  let ?xs = "map snd (tenant_after (tenant_storage_key (tenant_id authority))
    (tc_effect_after_effect_id (tq_cursor request)) (mes_effects state))"
  let ?check = "\<lambda>continuation. validate_effect_due (page\<lparr>edp_next_after_effect_id := continuation\<rparr>) request authority"
  note visited = visited_objects [where id_of = esn_id, OF effect_store_wf [OF reach] effect_store_all_ids [OF reach]]
  have entry: "validate_temporal_identity (esn_id x) = Inr () \<and> esn_tenant_id x = tenant_id authority \<and>
      esn_revision x \<noteq> 0 \<and> lease_sound (ef_status (esn_effect x)) \<and>
      is_none_or (tc_effect_after_effect_id (tq_cursor request)) (\<lambda>a. a < esn_id x)" if "x \<in> set ?xs" for x
  proof -
    note stored = visited(2) [OF that, THEN conjunct1]
    note entry = effect_store_entries [OF reach stored]
    have "ef_validate_identity (esn_id x) = Inr ()" using entry by (simp add: effect_entry_ok_def)
    moreover have "esn_tenant_id x = tenant_id authority"
      using entry tenant_storage_key_inj [OF tenant] by (auto simp: effect_entry_ok_def)
    moreover have "esn_revision x \<noteq> 0"
      using entry by (auto simp: effect_entry_ok_def effect_inv_def effect_validate_ok)
    ultimately show ?thesis
      using effect_fence_sound [OF reach stored] visited(2) [OF that] by (auto simp: temporal_identity_eq(3))
  qed
  have fields: "\<forall>x\<in>set ?xs. \<forall>d\<in>set (fences_of (due_lease_of (tq_at_ms request)) x). \<forall>previous continuation.
      ?check continuation previous d = validate_due_order continuation previous (edl_effect_id d)"
  proof (intro ballI allI)
    fix x d previous continuation
    assume "x \<in> set ?xs" and d: "d \<in> set (fences_of (due_lease_of (tq_at_ms request)) x)"
    with entry [OF this(1)] d show "?check continuation previous d = validate_due_order continuation previous (edl_effect_id d)"
      by (cases "ef_status (esn_effect x)")
        (auto simp: validate_effect_due_def fences_of_def due_lease_of_def not_less split: if_splits)
  qed
  have later: "\<forall>x\<in>set ?xs. is_none_or (tc_effect_after_effect_id (tq_cursor request)) (\<lambda>a. a < esn_id x)"
    and names: "\<forall>x\<in>set ?xs. validate_temporal_identity (esn_id x) = Inr ()"
    using entry by blast+
  let ?page = "take (tq_scan_limit request) ?xs"
  let ?continuation = "if ?page = [] then None else Some (esn_id (last ?page))"
  have page: "edp_due page = concat (map (fences_of (due_lease_of (tq_at_ms request))) ?page)"
    "edp_next_after_effect_id page = ?continuation" "edp_scanned page = length ?page"
    "edp_has_more page \<longleftrightarrow> tq_scan_limit request < length ?xs"
    unfolding page_def by (simp_all add: ef_due_page_from_scan_def map_filter_fences Let_def)
  have same: "validate_effect_due page = validate_effect_due (page\<lparr>edp_next_after_effect_id := ?continuation\<rparr>)"
    unfolding page(2) [symmetric] by (rule arg_cong [where f = validate_effect_due]) (cases page; simp)
  note accepted = escan.page_accepted [where check = ?check and n = "tq_scan_limit request" and
      after = "tc_effect_after_effect_id (tq_cursor request)" and page = ?page and continuation = ?continuation,
      OF visited(1) limit later names fields refl refl]
  show ?thesis
    unfolding validate_effect_scan_page_def page same accepted(1,2) and_then_simps
    using accepted(3) by auto
qed

text \<open>The request checks of the driver imply those of the three scans.\<close>

lemma tp_validate_request_ok:
  "tp_validate_request request authority = Inr u \<longleftrightarrow>
     valid_authority authority \<and> tq_at_ms request \<noteq> 0 \<and> 0 < tq_scan_limit request \<and>
     tq_scan_limit request \<le> MAX_TEMPORAL_SCAN_LIMIT \<and>
     check_opt validate_temporal_identity (tc_workflow_after_run_id (tq_cursor request)) = Inr () \<and>
     check_opt validate_temporal_identity (tc_handoff_after_handoff_id (tq_cursor request)) = Inr () \<and>
     check_opt validate_temporal_identity (tc_effect_after_effect_id (tq_cursor request)) = Inr () \<and>
     check_opt validate_agent_loop_wait_cursor (tc_agent_loop_wait_after (tq_cursor request)) = Inr ()"
  by (auto simp: tp_validate_request_def ok_iff Let_def)

lemma scan_requests_ok:
  assumes "tp_validate_request request authority = Inr ()"
  shows "wf_validate_due_scan (tq_at_ms request) (tc_workflow_after_run_id (tq_cursor request)) (tq_scan_limit request)
      authority = Inr ()"
    and "hh_validate_due_scan (tq_at_ms request) (tc_handoff_after_handoff_id (tq_cursor request)) (tq_scan_limit request)
      authority = Inr ()"
    and "ef_validate_due_scan (tq_at_ms request) (tc_effect_after_effect_id (tq_cursor request)) (tq_scan_limit request)
      authority = Inr ()"
  using assms
  by (auto simp: tp_validate_request_ok wf_validate_due_scan_ok hh_validate_due_scan_ok ef_validate_due_scan_ok
      MAX_TEMPORAL_SCAN_LIMIT_def MAX_WORKFLOW_SCAN_PAGE_def MAX_HANDOFF_PAGE_def MAX_EFFECT_PAGE_def
      check_opt_def temporal_identity_eq split: option.splits)

definition driver_reachable :: "'v::linorder temporal_env \<Rightarrow> 'v temporal_driver \<Rightarrow> bool" where
  "driver_reachable env driver \<longleftrightarrow>
     (case td_workflows driver of None \<Rightarrow> True
      | Some (runs, _) \<Rightarrow> (workflow_store_step (te_workflow env))\<^sup>*\<^sup>* [] runs) \<and>
     (case td_human_handoffs driver of None \<Rightarrow> True
      | Some handoffs \<Rightarrow> (handoff_store_step (te_handoff env))\<^sup>*\<^sup>* [] handoffs) \<and>
     (case td_effects driver of None \<Rightarrow> True
      | Some state \<Rightarrow> (effect_store_step (te_effect env))\<^sup>*\<^sup>* effect_state_empty state)"

text \<open>The pages a tick reads, one per engine.\<close>

definition workflow_page_of :: "'v temporal_driver \<Rightarrow> temporal_tick_request \<Rightarrow> authority_context \<Rightarrow> workflow_due_scan_page" where
  "workflow_page_of driver request authority =
     (case td_workflows driver of None \<Rightarrow> empty_workflow_page
      | Some (runs, _) \<Rightarrow> wf_page_from_scan (map snd (tenant_after (tenant_storage_key (tenant_id authority))
          (tc_workflow_after_run_id (tq_cursor request)) runs)) (tq_scan_limit request) (tq_at_ms request))"

definition handoff_page_of :: "'v temporal_driver \<Rightarrow> temporal_tick_request \<Rightarrow> authority_context \<Rightarrow> handoff_due_scan_page" where
  "handoff_page_of driver request authority =
     (case td_human_handoffs driver of None \<Rightarrow> empty_handoff_page
      | Some handoffs \<Rightarrow> due_page_from_scan (map snd (tenant_after (tenant_storage_key (tenant_id authority))
          (tc_handoff_after_handoff_id (tq_cursor request)) handoffs)) (tq_scan_limit request) (tq_at_ms request))"

definition effect_page_of :: "'v temporal_driver \<Rightarrow> temporal_tick_request \<Rightarrow> authority_context \<Rightarrow> effect_due_scan_page" where
  "effect_page_of driver request authority =
     (case td_effects driver of None \<Rightarrow> empty_effect_page
      | Some state \<Rightarrow> ef_due_page_from_scan (map snd (tenant_after (tenant_storage_key (tenant_id authority))
          (tc_effect_after_effect_id (tq_cursor request)) (mes_effects state))) (tq_scan_limit request) (tq_at_ms request))"

lemma empty_pages_accepted:
  assumes "0 < tq_scan_limit request"
  shows "validate_workflow_scan_page empty_workflow_page request authority = Inr ()"
    and "validate_handoff_scan_page empty_handoff_page request authority = Inr ()"
    and "validate_effect_scan_page empty_effect_page request authority = Inr ()"
  using assms
  by (simp_all add: validate_workflow_scan_page_def validate_handoff_scan_page_def validate_effect_scan_page_def
      empty_workflow_page_def empty_handoff_page_def empty_effect_page_def validate_scan_progress_def
      validate_continuation_def check_opt_def)

lemma empty_wait_page_accepted:
  assumes "tp_validate_request request authority = Inr ()"
    and "tc_agent_loop_wait_after (tq_cursor request) = None"
  shows "validate_agent_loop_wait_scan_page empty_agent_loop_wait_page request authority = Inr ()"
  using assms
  by (simp add: validate_agent_loop_wait_scan_page_def page_validate_def empty_agent_loop_wait_page_def
      validate_scan_limit_def tp_validate_request_ok MAX_TEMPORAL_SCAN_LIMIT_def MAX_AGENT_LOOP_DUE_SCAN_LIMIT_def)

lemma pages_scanned:
  assumes reach: "driver_reachable env driver" and request: "tp_validate_request request authority = Inr ()"
  shows "(case td_workflows driver of
         Some (runs, _) \<Rightarrow> we_scan_due_as runs (tq_at_ms request) (tc_workflow_after_run_id (tq_cursor request))
           (tq_scan_limit request) authority
       | None \<Rightarrow> Inr empty_workflow_page) = Inr (workflow_page_of driver request authority)"
    and "(case td_human_handoffs driver of
         Some handoffs \<Rightarrow> he_scan_due_as handoffs (tq_at_ms request) (tc_handoff_after_handoff_id (tq_cursor request))
           (tq_scan_limit request) authority
       | None \<Rightarrow> Inr empty_handoff_page) = Inr (handoff_page_of driver request authority)"
    and "(case td_effects driver of
         Some effects \<Rightarrow> ef_scan_due_as effects (tq_at_ms request) (tc_effect_after_effect_id (tq_cursor request))
           (tq_scan_limit request) authority
       | None \<Rightarrow> Inr empty_effect_page) = Inr (effect_page_of driver request authority)"
  using reach scan_requests_ok [OF request]
  by (auto simp: driver_reachable_def workflow_page_of_def handoff_page_of_def effect_page_of_def we_scan_due_as_def
      he_scan_due_as_def wf_scan_due_as_eq workflow_store_wf hh_scan_due_as_eq handoff_store_wf ef_scan_due_as_eq
      split: option.splits)

lemma pages_accepted:
  assumes reach: "driver_reachable env driver" and request: "tp_validate_request request authority = Inr ()"
  shows "validate_workflow_scan_page (workflow_page_of driver request authority) request authority = Inr ()"
    and "validate_handoff_scan_page (handoff_page_of driver request authority) request authority = Inr ()"
    and "validate_effect_scan_page (effect_page_of driver request authority) request authority = Inr ()"
proof -
  from request have ok: "valid_tenant (tenant_id authority)" "0 < tq_scan_limit request"
    by (simp_all add: tp_validate_request_ok valid_authority_def)
  show "validate_workflow_scan_page (workflow_page_of driver request authority) request authority = Inr ()"
    using reach ok by (auto simp: driver_reachable_def workflow_page_of_def empty_pages_accepted
        intro: workflow_page_accepted split: option.splits)
  show "validate_handoff_scan_page (handoff_page_of driver request authority) request authority = Inr ()"
    using reach ok by (auto simp: driver_reachable_def handoff_page_of_def empty_pages_accepted
        intro: handoff_page_accepted split: option.splits)
  show "validate_effect_scan_page (effect_page_of driver request authority) request authority = Inr ()"
    using reach ok by (auto simp: driver_reachable_def effect_page_of_def empty_pages_accepted
        intro: effect_page_accepted split: option.splits)
qed

lemma try_map_total:
  "(\<And>x. x \<in> set xs \<Longrightarrow> f x = Inr (g x)) \<Longrightarrow> try_map f xs = Inr (map g xs)"
  by (induction xs) auto

lemma try_map_fst:
  "try_map f xs = Inr ys \<Longrightarrow> (\<And>x y. f x = Inr y \<Longrightarrow> fst y = x) \<Longrightarrow> map fst ys = xs"
  by (induction xs arbitrary: ys) (auto simp: and_then_eq_Inr)

lemma try_map_ok: "(\<And>x. \<exists>y. f x = Inr y) \<Longrightarrow> \<exists>ys. try_map f xs = Inr ys"
proof (induction xs)
  case (Cons x xs)
  from Cons.prems obtain y where "f x = Inr y" by blast
  with Cons.IH [OF Cons.prems] show ?case by auto
qed simp

lemma run_attempts_targets:
  "(\<And>s c. ta_target (snd (f s c)) = target (fst c)) \<Longrightarrow>
   map ta_target (snd (run_attempts f s cs)) = map target (map fst cs)"
proof (induction cs arbitrary: s)
  case (Cons c cs)
  show ?case
    using Cons.prems [of s c] Cons.IH [OF Cons.prems, of "fst (f s c)"]
    by (simp add: Let_def split_def)
qed simp

lemma run_attempts_reach:
  "(\<And>s c. R\<^sup>*\<^sup>* s (fst (f s c))) \<Longrightarrow> R\<^sup>*\<^sup>* s (fst (run_attempts f s cs))"
proof (induction cs arbitrary: s)
  case (Cons c cs)
  have "R\<^sup>*\<^sup>* s (fst (f s c))" by (rule Cons.prems)
  also have "R\<^sup>*\<^sup>* (fst (f s c)) (fst (run_attempts f (fst (f s c)) cs))" by (rule Cons.IH [OF Cons.prems])
  finally show ?case by (simp add: Let_def split_def)
qed simp

lemma attempt_target:
  "ta_target (snd (workflow_attempt env graphs at_ms authority runs wc)) = workflow_target (fst wc)"
  "ta_target (snd (handoff_attempt env at_ms authority handoffs hc)) = handoff_target (fst hc)"
  "ta_target (snd (effect_attempt env at_ms authority state ec)) = effect_target (fst ec)"
  by (simp_all add: workflow_attempt_def handoff_attempt_def effect_attempt_def split_def Let_def)

lemma attempts_targets:
  "map ta_target (snd (run_attempts (workflow_attempt env graphs at_ms authority) runs ws)) = map workflow_target (map fst ws)"
  "map ta_target (snd (run_attempts (handoff_attempt env at_ms authority) handoffs hs)) = map handoff_target (map fst hs)"
  "map ta_target (snd (run_attempts (effect_attempt env at_ms authority) state es)) = map effect_target (map fst es)"
  by (rule run_attempts_targets, rule attempt_target)+

lemma workflow_attempt_cases:
  assumes "workflow_attempt env graphs at_ms authority runs (due, i, command) = (runs', a)"
  obtains (accepted) result where
      "wf_apply_as (te_workflow env) runs (wdw_run_id due) (wdw_revision due) command at_ms authority = Inr (runs', result)"
      "ta_outcome a = (case wcr_outcome result of Applied \<Rightarrow> TaApplied | Duplicate \<Rightarrow> TaDuplicate)"
  | (refused) e where
      "we_apply_as (te_workflow env) runs graphs (wdw_run_id due) (wdw_revision due) command at_ms authority = Inl e"
      "runs' = runs"
      "ta_outcome a = (case e of WorkflowConflict _ _ actual \<Rightarrow> TaFenced actual | _ \<Rightarrow> TaFailed)"
proof (cases "we_apply_as (te_workflow env) runs graphs (wdw_run_id due) (wdw_revision due) command at_ms authority")
  case (Inl e)
  with assms show ?thesis by (intro refused) (auto simp: workflow_attempt_def split: harness_error.splits)
next
  case (Inr r)
  with assms show ?thesis
    by (intro accepted [of "snd r"]) (auto simp: workflow_attempt_def we_apply_as_def ok_iff split_def)
qed

lemma handoff_attempt_cases:
  assumes "handoff_attempt env at_ms authority handoffs (due, i, command) = (handoffs', a)"
  obtains (accepted) result where
      "hh_apply_as (te_handoff env) handoffs (hdc_handoff_id due) (hdc_revision due) command at_ms authority = Inr (handoffs', result)"
      "ta_outcome a = (case hcr_outcome result of HApplied \<Rightarrow> TaApplied | HDuplicate \<Rightarrow> TaDuplicate)"
  | (refused) e where
      "hh_apply_as (te_handoff env) handoffs (hdc_handoff_id due) (hdc_revision due) command at_ms authority = Inl e"
      "handoffs' = handoffs"
      "ta_outcome a = (case e of HumanHandoffConflict _ _ actual \<Rightarrow> TaFenced actual | _ \<Rightarrow> TaFailed)"
proof (cases "hh_apply_as (te_handoff env) handoffs (hdc_handoff_id due) (hdc_revision due) command at_ms authority")
  case (Inl e)
  with assms show ?thesis by (intro refused) (auto simp: handoff_attempt_def he_apply_as_def split: harness_error.splits)
next
  case (Inr r)
  with assms show ?thesis
    by (intro accepted [of "snd r"]) (auto simp: handoff_attempt_def he_apply_as_def split_def)
qed

lemma effect_attempt_cases:
  assumes "effect_attempt env at_ms authority state (due, i, command) = (state', a)"
  obtains (accepted) result where
      "ef_apply_as (te_effect env) state (edl_effect_id due) (edl_revision due) command at_ms authority = Inr (state', result)"
      "ta_outcome a = (case ecr_outcome result of EApplied \<Rightarrow> TaApplied | EDuplicate \<Rightarrow> TaDuplicate)"
  | (refused) e where
      "ef_apply_as (te_effect env) state (edl_effect_id due) (edl_revision due) command at_ms authority = Inl e"
      "state' = state"
      "ta_outcome a = (case e of EffectConflict _ _ actual \<Rightarrow> TaFenced actual | _ \<Rightarrow> TaFailed)"
proof (cases "ef_apply_as (te_effect env) state (edl_effect_id due) (edl_revision due) command at_ms authority")
  case (Inl e)
  with assms show ?thesis by (intro refused) (auto simp: effect_attempt_def split: harness_error.splits)
next
  case (Inr r)
  with assms show ?thesis
    by (intro accepted [of "snd r"]) (auto simp: effect_attempt_def split_def)
qed

lemma attempt_reach:
  "(workflow_store_step (te_workflow env))\<^sup>*\<^sup>* runs (fst (workflow_attempt env graphs at_ms authority runs wc))"
  "(handoff_store_step (te_handoff env))\<^sup>*\<^sup>* handoffs (fst (handoff_attempt env at_ms authority handoffs hc))"
  "(effect_store_step (te_effect env))\<^sup>*\<^sup>* state (fst (effect_attempt env at_ms authority state ec))"
proof -
  obtain due i command runs' a where w: "wc = (due, i, command)"
    "workflow_attempt env graphs at_ms authority runs (due, i, command) = (runs', a)"
    by (metis prod.collapse)
  from w(2) show "(workflow_store_step (te_workflow env))\<^sup>*\<^sup>* runs (fst (workflow_attempt env graphs at_ms authority runs wc))"
    by (cases rule: workflow_attempt_cases) (auto simp: w intro: workflow_store_step.intros)
next
  obtain due i command handoffs' a where h: "hc = (due, i, command)"
    "handoff_attempt env at_ms authority handoffs (due, i, command) = (handoffs', a)"
    by (metis prod.collapse)
  from h(2) show "(handoff_store_step (te_handoff env))\<^sup>*\<^sup>* handoffs (fst (handoff_attempt env at_ms authority handoffs hc))"
    by (cases rule: handoff_attempt_cases) (auto simp: h intro: handoff_store_step.intros)
next
  obtain due i command state' a where e: "ec = (due, i, command)"
    "effect_attempt env at_ms authority state (due, i, command) = (state', a)"
    by (metis prod.collapse)
  from e(2) show "(effect_store_step (te_effect env))\<^sup>*\<^sup>* state (fst (effect_attempt env at_ms authority state ec))"
    by (cases rule: effect_attempt_cases) (auto simp: e intro: effect_store_step.intros)
qed

lemma wake_total:
  assumes "\<forall>x. to_vec (te_identity env) x \<noteq> None"
  shows "\<exists>y. workflow_wake env authority due = Inr y" "\<exists>y. handoff_expire env authority claim = Inr y"
    "\<exists>y. effect_expire env authority lease = Inr y"
proof -
  have i: "\<exists>i. temporal_command_id env kind a aggregate fence = Inr i" for kind a aggregate fence
    using assms by (auto simp: temporal_command_id_def ok_or_def split: option.splits)
  show "\<exists>y. workflow_wake env authority due = Inr y"
    using i [of "''workflow-wake''" "actor authority" "wdw_run_id due" "wdw_wait_id due"]
    by (auto simp: workflow_wake_def)
  show "\<exists>y. handoff_expire env authority claim = Inr y"
    using i [of "''handoff-expire''" "actor authority" "hdc_handoff_id claim" "hdc_claim_id claim"]
    by (auto simp: handoff_expire_def)
  show "\<exists>y. effect_expire env authority lease = Inr y"
    using i [of "''effect-expire''" "actor authority" "edl_effect_id lease" "edl_lease_id lease"]
    by (auto simp: effect_expire_def)
qed

lemma wake_subject:
  "workflow_wake env authority due = Inr wc \<Longrightarrow> fst wc = due"
  "handoff_expire env authority claim = Inr hc \<Longrightarrow> fst hc = claim"
  "effect_expire env authority lease = Inr ec \<Longrightarrow> fst ec = lease"
  by (auto simp: workflow_wake_def handoff_expire_def effect_expire_def and_then_eq_Inr)

lemma tick_plan_total:
  assumes reach: "driver_reachable env driver" and request: "tp_validate_request request authority = Inr ()"
    and installed: "validate_installed_cursors driver (tq_cursor request) = Inr ()"
    and encodes: "\<forall>x. to_vec (te_identity env) x \<noteq> None"
  obtains ws hs es where
    "map fst ws = wsp_due (workflow_page_of driver request authority)"
    "map fst hs = hdp_due (handoff_page_of driver request authority)"
    "map fst es = edp_due (effect_page_of driver request authority)"
    "tick_plan env driver request authority = Inr \<lparr>tpl_workflow_page = workflow_page_of driver request authority,
       tpl_handoff_page = handoff_page_of driver request authority,
       tpl_effect_page = effect_page_of driver request authority,
       tpl_agent_loop_wait_page = empty_agent_loop_wait_page, tpl_workflow_commands = ws,
       tpl_handoff_commands = hs, tpl_effect_commands = es\<rparr>"
proof -
  obtain ws where ws: "try_map (workflow_wake env authority) (wsp_due (workflow_page_of driver request authority)) = Inr ws"
    using try_map_ok [where f = "workflow_wake env authority", OF wake_total(1) [OF encodes]] by blast
  obtain hs where hs: "try_map (handoff_expire env authority) (hdp_due (handoff_page_of driver request authority)) = Inr hs"
    using try_map_ok [where f = "handoff_expire env authority", OF wake_total(2) [OF encodes]] by blast
  obtain es where es: "try_map (effect_expire env authority) (edp_due (effect_page_of driver request authority)) = Inr es"
    using try_map_ok [where f = "effect_expire env authority", OF wake_total(3) [OF encodes]] by blast
  from installed have "tc_agent_loop_wait_after (tq_cursor request) = None"
    by (simp add: validate_installed_cursors_def split: if_splits)
  note waits = empty_wait_page_accepted [OF request this]
  show thesis
  proof (rule that)
    show "map fst ws = wsp_due (workflow_page_of driver request authority)"
      "map fst hs = hdp_due (handoff_page_of driver request authority)"
      "map fst es = edp_due (effect_page_of driver request authority)"
      using try_map_fst [OF ws wake_subject(1)] try_map_fst [OF hs wake_subject(2)] try_map_fst [OF es wake_subject(3)]
      by auto
  qed (simp only: tick_plan_def request installed Let_def pages_scanned [OF reach request]
      pages_accepted [OF reach request] waits ws hs es and_then_simps)
qed

lemma tick_attempts_targets:
  assumes "tick_attempts env driver request authority plan = (driver', report)"
    and "td_workflows driver = None \<Longrightarrow> tpl_workflow_commands plan = []"
    and "td_human_handoffs driver = None \<Longrightarrow> tpl_handoff_commands plan = []"
    and "td_effects driver = None \<Longrightarrow> tpl_effect_commands plan = []"
  shows "map ta_target (trp_attempts report) =
      map workflow_target (map fst (tpl_workflow_commands plan)) @
      map handoff_target (map fst (tpl_handoff_commands plan)) @ map effect_target (map fst (tpl_effect_commands plan))"
  using assms by (auto simp: tick_attempts_def attempts_targets Let_def split_def split: option.splits)

lemma attempts_reach:
  "(workflow_store_step (te_workflow env))\<^sup>*\<^sup>* [] runs \<Longrightarrow>
   (workflow_store_step (te_workflow env))\<^sup>*\<^sup>* [] (fst (run_attempts (workflow_attempt env graphs at_ms authority) runs ws))"
  "(handoff_store_step (te_handoff env))\<^sup>*\<^sup>* [] handoffs \<Longrightarrow>
   (handoff_store_step (te_handoff env))\<^sup>*\<^sup>* [] (fst (run_attempts (handoff_attempt env at_ms authority) handoffs hs))"
  "(effect_store_step (te_effect env))\<^sup>*\<^sup>* effect_state_empty state \<Longrightarrow>
   (effect_store_step (te_effect env))\<^sup>*\<^sup>* effect_state_empty (fst (run_attempts (effect_attempt env at_ms authority) state es))"
  by (erule rtranclp_trans, rule run_attempts_reach, rule attempt_reach)+

lemma tick_attempts_reach:
  assumes "tick_attempts env driver request authority plan = (driver', report)" and "driver_reachable env driver"
  shows "driver_reachable env driver'"
proof -
  from assms(2) have "driver_reachable env (fst (tick_attempts env driver request authority plan))"
    by (auto simp: tick_attempts_def driver_reachable_def Let_def split_def attempts_reach split: option.splits)
  with assms(1) show ?thesis by simp
qed

lemma pages_of_nothing:
  "td_workflows driver = None \<Longrightarrow> wsp_due (workflow_page_of driver request authority) = []"
  "td_human_handoffs driver = None \<Longrightarrow> hdp_due (handoff_page_of driver request authority) = []"
  "td_effects driver = None \<Longrightarrow> edp_due (effect_page_of driver request authority) = []"
  by (simp_all add: workflow_page_of_def handoff_page_of_def effect_page_of_def
      empty_workflow_page_def empty_handoff_page_def empty_effect_page_def)

section \<open>What an attempt does\<close>

definition run_woken ::
  "authority_context \<Rightarrow> u64 \<Rightarrow> workflow_due_wait \<Rightarrow> 'v workflow_store \<Rightarrow> 'v workflow_store \<Rightarrow> bool" where
  "run_woken authority at_ms due runs runs' \<longleftrightarrow> (\<exists>s d run r.
     bm_get runs (store_key (wdw_run_id due) (tenant_id authority)) = Some s \<and> wrs_revision s = wdw_revision due \<and>
     due_wait (wr_status (wrs_run s)) = Some (wdw_wait_id due, d) \<and> d \<le> at_ms \<and>
     wr_status run = WsRunning \<and> unat r = Suc (unat (wdw_revision due)) \<and>
     runs' = bm_insert (store_key (wdw_run_id due) (tenant_id authority)) (s\<lparr>wrs_revision := r, wrs_run := run\<rparr>) runs)"

definition claim_expired ::
  "authority_context \<Rightarrow> u64 \<Rightarrow> handoff_due_claim \<Rightarrow> handoff_store \<Rightarrow> handoff_store \<Rightarrow> bool" where
  "claim_expired authority at_ms due handoffs handoffs' \<longleftrightarrow> (\<exists>s c h r.
     bm_get handoffs (store_key (hdc_handoff_id due) (tenant_id authority)) = Some s \<and> hsn_revision s = hdc_revision due \<and>
     hh_status (hsn_handoff s) = HsClaimed c \<and> hc_id c = hdc_claim_id due \<and> hc_expires_at_ms c \<le> at_ms \<and>
     hh_status h = HsQueued \<and> unat r = Suc (unat (hdc_revision due)) \<and>
     handoffs' = bm_insert (store_key (hdc_handoff_id due) (tenant_id authority))
       (s\<lparr>hsn_revision := r, hsn_handoff := h\<rparr>) handoffs)"

definition lease_expired ::
  "authority_context \<Rightarrow> u64 \<Rightarrow> effect_due_lease \<Rightarrow> effect_state \<Rightarrow> effect_state \<Rightarrow> bool" where
  "lease_expired authority at_ms due state state' \<longleftrightarrow> (\<exists>s l e r.
     bm_get (mes_effects state) (store_key (edl_effect_id due) (tenant_id authority)) = Some s \<and>
     esn_revision s = edl_revision due \<and> ef_status (esn_effect s) = EsClaimed l \<and> el_id l = edl_lease_id due \<and>
     el_expires_at_ms l \<le> at_ms \<and> ef_status e = EsUnknown (el_attempt l) (el_id l) ''lease.expired'' \<and>
     unat r = Suc (unat (edl_revision due)) \<and>
     state' = state\<lparr>mes_effects := bm_insert (store_key (edl_effect_id due) (tenant_id authority))
       (grown_effect (edl_effect_id due) s r e) (mes_effects state)\<rparr>)"

lemma due_reason_wait: "due_reason w now = Inr reason \<Longrightarrow> \<exists>d. due_wait (WsWaiting w) = Some (ww_id w, d) \<and> d \<le> now"
  by (induction w now rule: due_reason.induct) (auto split: if_splits option.splits)

lemma wake_attempt:
  assumes wc: "workflow_wake env authority due = Inr wc"
    and wa: "workflow_attempt env graphs at_ms authority runs wc = (runs', a)"
  shows "if ta_outcome a = TaApplied then run_woken authority at_ms due runs runs' else runs' = runs"
proof -
  from wc obtain i where wc': "wc = (due, i, \<lparr>wc_id = i, wc_kind = WcWakeDue (wdw_wait_id due)\<rparr>)"
    by (auto simp: workflow_wake_def and_then_eq_Inr)
  from wa [unfolded wc'] show ?thesis
  proof (cases rule: workflow_attempt_cases)
    case (accepted result)
    from accepted(1) show ?thesis
    proof (cases rule: wf_apply_as_okE)
      case (written current run revision)
      from written(6) obtain w reason where "wr_status (wrs_run current) = WsWaiting w" "ww_id w = wdw_wait_id due"
        "due_reason w at_ms = Inr reason" "wr_status run = WsRunning"
        by (auto elim!: workflow_apply_AppliedE simp: ok_iff split: workflow_status.splits if_splits)
      with due_reason_wait [OF this(3)] written accepted(2) show ?thesis unfolding run_woken_def by auto
    qed (use accepted(2) in simp)
  qed (auto split: harness_error.splits)
qed

lemma expire_claim_attempt:
  assumes hc: "handoff_expire env authority due = Inr hc"
    and ha: "handoff_attempt env at_ms authority handoffs hc = (handoffs', a)"
  shows "if ta_outcome a = TaApplied then claim_expired authority at_ms due handoffs handoffs' else handoffs' = handoffs"
proof -
  from hc obtain i where hc': "hc = (due, i, \<lparr>hcmd_id = i, hcmd_kind = HcExpireClaim (hdc_claim_id due)\<rparr>)"
    by (auto simp: handoff_expire_def and_then_eq_Inr)
  from ha [unfolded hc'] show ?thesis
  proof (cases rule: handoff_attempt_cases)
    case (accepted result)
    from accepted(1) show ?thesis
    proof (cases rule: hh_apply_as_okE)
      case (written current h revision)
      from written(6) obtain c where "hh_status (hsn_handoff current) = HsClaimed c" "hc_id c = hdc_claim_id due"
        "hc_expires_at_ms c \<le> at_ms" "hh_status h = HsQueued"
        by (auto elim!: handoff_apply_AppliedE simp: ok_iff split: handoff_status.splits if_splits)
      with written accepted(2) show ?thesis unfolding claim_expired_def by auto
    qed (use accepted(2) in simp)
  qed (auto split: harness_error.splits)
qed

lemma expire_lease_attempt:
  assumes ec: "effect_expire env authority due = Inr ec"
    and ea: "effect_attempt env at_ms authority state ec = (state', a)"
  shows "if ta_outcome a = TaApplied then lease_expired authority at_ms due state state' else state' = state"
proof -
  from ec obtain i where ec': "ec = (due, i, \<lparr>ec_id = i, ec_kind = EcExpireLease (edl_lease_id due)\<rparr>)"
    by (auto simp: effect_expire_def and_then_eq_Inr)
  from ea [unfolded ec'] show ?thesis
  proof (cases rule: effect_attempt_cases)
    case (accepted result)
    from accepted(1) show ?thesis
    proof (cases rule: ef_apply_as_okE)
      case (written current e revision)
      from written(6) obtain l where "ef_status (esn_effect current) = EsClaimed l" "el_id l = edl_lease_id due"
        "el_expires_at_ms l \<le> at_ms" "ef_status e = EsUnknown (el_attempt l) (el_id l) ''lease.expired''"
        by (auto elim!: effect_apply_AppliedE simp: ok_iff split: effect_status.splits if_splits)
      with written accepted(2) show ?thesis unfolding lease_expired_def by auto
    qed (use accepted(2) in simp)
  qed (auto split: harness_error.splits)
qed

lemma temporal_tick_lemma:
  assumes reach: "driver_reachable env driver" and request: "tp_validate_request request authority = Inr ()"
    and installed: "validate_installed_cursors driver (tq_cursor request) = Inr ()"
    and encodes: "\<forall>x. to_vec (te_identity env) x \<noteq> None"
  shows "\<exists>driver' report. tick_as env driver request authority = Inr (driver', report) \<and>
    driver_reachable env driver' \<and>
    map ta_target (trp_attempts report) = map workflow_target (wsp_due (workflow_page_of driver request authority)) @
      map handoff_target (hdp_due (handoff_page_of driver request authority)) @
      map effect_target (edp_due (effect_page_of driver request authority))"
proof -
  obtain ws hs es where plan:
    "map fst ws = wsp_due (workflow_page_of driver request authority)"
    "map fst hs = hdp_due (handoff_page_of driver request authority)"
    "map fst es = edp_due (effect_page_of driver request authority)"
    "tick_plan env driver request authority = Inr \<lparr>tpl_workflow_page = workflow_page_of driver request authority,
       tpl_handoff_page = handoff_page_of driver request authority,
       tpl_effect_page = effect_page_of driver request authority,
       tpl_agent_loop_wait_page = empty_agent_loop_wait_page, tpl_workflow_commands = ws,
       tpl_handoff_commands = hs, tpl_effect_commands = es\<rparr>" (is "_ = Inr ?plan")
    by (rule tick_plan_total [OF assms])
  obtain driver' report where tick: "tick_attempts env driver request authority ?plan = (driver', report)"
    by (rule prod.exhaust)
  have "ws = []" if "td_workflows driver = None" using pages_of_nothing(1) [OF that] plan(1) by simp
  moreover have "hs = []" if "td_human_handoffs driver = None" using pages_of_nothing(2) [OF that] plan(2) by simp
  moreover have "es = []" if "td_effects driver = None" using pages_of_nothing(3) [OF that] plan(3) by simp
  ultimately have "map ta_target (trp_attempts report) = map workflow_target (map fst ws) @
      map handoff_target (map fst hs) @ map effect_target (map fst es)"
    using tick_attempts_targets [OF tick] by simp
  moreover have "tick_as env driver request authority = Inr (driver', report)"
    unfolding tick_as_def plan(4) and_then_simps tick ..
  ultimately show ?thesis using tick_attempts_reach [OF tick reach] unfolding plan(1-3) by blast
qed

section \<open>Sweeps\<close>

text \<open>
  A sweep is a sequence of ticks in which every tick starts from the cursor the one before returned. The
  attempts of a tick never add or remove an object, so the cursor of a source cuts the objects of the tenant
  into those that were visited and those that were not.
\<close>

lemma bm_insert_keys: "bm_get m k \<noteq> None \<Longrightarrow> bm_wf m \<Longrightarrow> map fst (bm_insert k v m) = map fst m"
proof (induction m)
  case (Cons e m)
  have "bm_get m k = None" if "k < fst e"
    using that Cons.prems(2) by (auto simp: bm_get_def bm_wf_def map_of_eq_None_iff)
  with Cons show ?case by (cases e) (auto simp: bm_get_def bm_wf_def split: if_splits)
qed (simp add: bm_get_def)

definition ids_after :: "authority_context \<Rightarrow> string option \<Rightarrow> 'a store \<Rightarrow> string list" where
  "ids_after authority after m = map (snd \<circ> fst) (tenant_after (tenant_storage_key (tenant_id authority)) after m)"

lemma ids_after_eq: "ids_after authority after m = map snd (filter
    (\<lambda>(t, i). t = tenant_storage_key (tenant_id authority) \<and> is_none_or after (\<lambda>a. a < i)) (map fst m))"
  by (simp add: ids_after_def tenant_after_def filter_map o_def split_def)

lemma ids_after_keys: "map fst m' = map fst m \<Longrightarrow> ids_after authority after m' = ids_after authority after m"
  unfolding ids_after_eq by simp

definition workflow_ids :: "'v temporal_driver \<Rightarrow> authority_context \<Rightarrow> string option \<Rightarrow> string list" where
  "workflow_ids driver authority after =
     (case td_workflows driver of None \<Rightarrow> [] | Some (runs, _) \<Rightarrow> ids_after authority after runs)"

definition handoff_ids :: "'v temporal_driver \<Rightarrow> authority_context \<Rightarrow> string option \<Rightarrow> string list" where
  "handoff_ids driver authority after =
     (case td_human_handoffs driver of None \<Rightarrow> [] | Some handoffs \<Rightarrow> ids_after authority after handoffs)"

definition effect_ids :: "'v temporal_driver \<Rightarrow> authority_context \<Rightarrow> string option \<Rightarrow> string list" where
  "effect_ids driver authority after =
     (case td_effects driver of None \<Rightarrow> [] | Some state \<Rightarrow> ids_after authority after (mes_effects state))"

text \<open>Attempts keep the keys of the stores.\<close>

lemma workflow_attempt_keys:
  assumes "(workflow_store_step (te_workflow env))\<^sup>*\<^sup>* [] runs"
  shows "map fst (fst (workflow_attempt env graphs at_ms authority runs c)) = map fst runs"
proof -
  obtain due i command runs' a where c: "c = (due, i, command)"
    "workflow_attempt env graphs at_ms authority runs (due, i, command) = (runs', a)" by (metis prod.collapse)
  from c(2) have "map fst runs' = map fst runs"
    by (cases rule: workflow_attempt_cases)
      (auto elim!: wf_apply_as_okE simp: bm_insert_keys workflow_store_wf [OF assms])
  then show ?thesis by (simp add: c)
qed

lemma handoff_attempt_keys:
  assumes "(handoff_store_step (te_handoff env))\<^sup>*\<^sup>* [] handoffs"
  shows "map fst (fst (handoff_attempt env at_ms authority handoffs c)) = map fst handoffs"
proof -
  obtain due i command handoffs' a where c: "c = (due, i, command)"
    "handoff_attempt env at_ms authority handoffs (due, i, command) = (handoffs', a)" by (metis prod.collapse)
  from c(2) have "map fst handoffs' = map fst handoffs"
    by (cases rule: handoff_attempt_cases)
      (auto elim!: hh_apply_as_okE simp: bm_insert_keys handoff_store_wf [OF assms])
  then show ?thesis by (simp add: c)
qed

lemma effect_attempt_keys:
  assumes "(effect_store_step (te_effect env))\<^sup>*\<^sup>* effect_state_empty state"
  shows "map fst (mes_effects (fst (effect_attempt env at_ms authority state c))) = map fst (mes_effects state)"
proof -
  obtain due i command state' a where c: "c = (due, i, command)"
    "effect_attempt env at_ms authority state (due, i, command) = (state', a)" by (metis prod.collapse)
  from c(2) have "map fst (mes_effects state') = map fst (mes_effects state)"
    by (cases rule: effect_attempt_cases)
      (auto elim!: ef_apply_as_okE simp: bm_insert_keys effect_store_wf [OF assms])
  then show ?thesis by (simp add: c)
qed

lemma run_attempts_invariant:
  assumes reach: "R\<^sup>*\<^sup>* s0 s" and step: "\<And>s c. R\<^sup>*\<^sup>* s (fst (f s c))"
    and same: "\<And>s c. R\<^sup>*\<^sup>* s0 s \<Longrightarrow> obs (fst (f s c)) = obs s"
  shows "obs (fst (run_attempts f s cs)) = obs s"
  using reach
proof (induction cs arbitrary: s)
  case (Cons c cs)
  have "R\<^sup>*\<^sup>* s0 (fst (f s c))" using Cons.prems step [of s c] by simp
  from Cons.IH [OF this] same [OF Cons.prems] show ?case by (simp add: Let_def split_def)
qed simp

lemma tick_attempts_ids:
  assumes reach: "driver_reachable env driver"
    and tick: "tick_attempts env driver request authority plan = (driver', report)"
  shows "workflow_ids driver' = workflow_ids driver" "handoff_ids driver' = handoff_ids driver"
    "effect_ids driver' = effect_ids driver"
proof -
  have driver': "driver' = fst (tick_attempts env driver request authority plan)" using tick by simp
  show "workflow_ids driver' = workflow_ids driver"
    using reach
    by (auto simp: fun_eq_iff workflow_ids_def driver' tick_attempts_def driver_reachable_def Let_def split_def
        intro!: ids_after_keys run_attempts_invariant [where obs = "map fst", OF _ attempt_reach(1) workflow_attempt_keys]
        split: option.splits)
  show "handoff_ids driver' = handoff_ids driver"
    using reach
    by (auto simp: fun_eq_iff handoff_ids_def driver' tick_attempts_def driver_reachable_def Let_def split_def
        intro!: ids_after_keys run_attempts_invariant [where obs = "map fst", OF _ attempt_reach(2) handoff_attempt_keys]
        split: option.splits)
  show "effect_ids driver' = effect_ids driver"
    using reach
    by (auto simp: fun_eq_iff effect_ids_def driver' tick_attempts_def driver_reachable_def Let_def split_def
        intro!: ids_after_keys
          run_attempts_invariant [where obs = "\<lambda>s. map fst (mes_effects s)", OF _ attempt_reach(3) effect_attempt_keys]
        split: option.splits)
qed

text \<open>One tick of a sweep: what it visits, and where its cursor cuts.\<close>

definition cuts :: "usize \<Rightarrow> string list \<Rightarrow> (string option \<Rightarrow> string list) \<Rightarrow> temporal_scan_progress \<Rightarrow> string option \<Rightarrow> bool" where
  "cuts limit ids ids' scan nxt \<longleftrightarrow> tsp_scanned scan = min limit (length ids) \<and>
     (nxt = None \<longleftrightarrow> length ids \<le> limit) \<and> (limit < length ids \<longrightarrow> ids' nxt = drop limit ids)"

lemma source_cut:
  assumes wf: "bm_wf m" and ids: "\<forall>k s. bm_get m k = Some s \<longrightarrow> id_of s = snd k" and limit: "0 < n"
    and visited: "visited = map snd (tenant_after (tenant_storage_key (tenant_id authority)) after m)"
    and scan: "tsp_scanned scan = length (take n visited)"
    and nxt: "nxt = (if n < length visited then Some (id_of (last (take n visited))) else None)"
  shows "cuts n (ids_after authority after m) (\<lambda>after. ids_after authority after m) scan nxt"
proof -
  let ?xs = "tenant_after (tenant_storage_key (tenant_id authority)) after m"
  have "ids_after authority nxt m = drop n (ids_after authority after m)" if long: "n < length ?xs"
  proof -
    from long limit have ne: "?xs \<noteq> []" "take n ?xs \<noteq> []" by auto
    have "last (take n ?xs) \<in> set ?xs" using ne(2) by (meson in_set_takeD last_in_set)
    then have "id_of (snd (last (take n ?xs))) = snd (fst (last (take n ?xs)))"
      using tenant_after_entry [OF wf] ids by blast
    then have "nxt = Some (snd (fst (last (take n ?xs))))"
      using long ne(2) by (simp add: nxt visited take_map last_map)
    then show ?thesis
      using tenant_after_resume(1) [OF wf limit ne(1) refl] by (simp add: ids_after_def drop_map)
  qed
  then show ?thesis
    by (auto simp: cuts_def scan nxt visited ids_after_def min_def)
qed

lemma tick_plan_pages:
  assumes reach: "driver_reachable env driver" and plan: "tick_plan env driver request authority = Inr plan"
  shows "tp_validate_request request authority = Inr ()"
    "validate_installed_cursors driver (tq_cursor request) = Inr ()"
    "tpl_workflow_page plan = workflow_page_of driver request authority"
    "tpl_handoff_page plan = handoff_page_of driver request authority"
    "tpl_effect_page plan = effect_page_of driver request authority"
    "tpl_agent_loop_wait_page plan = empty_agent_loop_wait_page"
proof -
  from plan show request: "tp_validate_request request authority = Inr ()"
    unfolding tick_plan_def and_then_eq_Inr by auto
  from plan show "validate_installed_cursors driver (tq_cursor request) = Inr ()"
    unfolding tick_plan_def and_then_eq_Inr by auto
  show "tpl_workflow_page plan = workflow_page_of driver request authority"
    "tpl_handoff_page plan = handoff_page_of driver request authority"
    "tpl_effect_page plan = effect_page_of driver request authority"
    "tpl_agent_loop_wait_page plan = empty_agent_loop_wait_page"
    using plan unfolding tick_plan_def Let_def pages_scanned [OF reach request] and_then_simps
    by (auto simp: and_then_eq_Inr)
qed

lemma cuts_nothing: "0 < n \<Longrightarrow> cuts n [] ids' \<lparr>tsp_scanned = 0, tsp_due = 0, tsp_has_more = False\<rparr> None"
  by (simp add: cuts_def)

lemma tick_cuts:
  assumes reach: "driver_reachable env driver" and tick: "tick_as env driver request authority = Inr (driver', report)"
  shows "cuts (tq_scan_limit request) (workflow_ids driver authority (tc_workflow_after_run_id (tq_cursor request)))
      (workflow_ids driver' authority) (trp_workflows report) (tc_workflow_after_run_id (trp_next_cursor report))"
    and "cuts (tq_scan_limit request) (handoff_ids driver authority (tc_handoff_after_handoff_id (tq_cursor request)))
      (handoff_ids driver' authority) (trp_human_handoffs report) (tc_handoff_after_handoff_id (trp_next_cursor report))"
    and "cuts (tq_scan_limit request) (effect_ids driver authority (tc_effect_after_effect_id (tq_cursor request)))
      (effect_ids driver' authority) (trp_effects report) (tc_effect_after_effect_id (trp_next_cursor report))"
proof -
  from tick obtain plan where plan: "tick_plan env driver request authority = Inr plan"
    and attempts: "tick_attempts env driver request authority plan = (driver', report)"
    by (auto simp: tick_as_def and_then_eq_Inr)
  note pages = tick_plan_pages [OF reach plan]
  from pages(1) have limit: "0 < tq_scan_limit request" by (simp add: tp_validate_request_ok)
  have report: "trp_workflows report = progress (workflow_page_of driver request authority)"
    "trp_human_handoffs report = handoff_progress (handoff_page_of driver request authority)"
    "trp_effects report = effect_progress (effect_page_of driver request authority)"
    "trp_next_cursor report = next_tick_cursor plan"
    using attempts by (auto simp: tick_attempts_def Let_def split_def pages)
  note ids = tick_attempts_ids [OF reach attempts]
  show "cuts (tq_scan_limit request) (workflow_ids driver authority (tc_workflow_after_run_id (tq_cursor request)))
      (workflow_ids driver' authority) (trp_workflows report) (tc_workflow_after_run_id (trp_next_cursor report))"
  proof (cases "td_workflows driver")
    case (Some rg)
    then obtain runs graphs where runs: "td_workflows driver = Some (runs, graphs)" by (cases rg) auto
    with reach have step: "(workflow_store_step (te_workflow env))\<^sup>*\<^sup>* [] runs" by (simp add: driver_reachable_def)
    show ?thesis
      unfolding ids report workflow_ids_def runs option.case prod.case
      by (rule source_cut [OF workflow_store_wf [OF step] workflow_store_ids [OF step] limit refl])
        (use limit in \<open>auto simp: progress_def next_tick_cursor_def pages workflow_page_of_def runs wf_page_from_scan_def Let_def\<close>)
  qed (simp add: ids report workflow_ids_def next_tick_cursor_def pages workflow_page_of_def progress_def
      empty_workflow_page_def cuts_nothing limit)
  show "cuts (tq_scan_limit request) (handoff_ids driver authority (tc_handoff_after_handoff_id (tq_cursor request)))
      (handoff_ids driver' authority) (trp_human_handoffs report) (tc_handoff_after_handoff_id (trp_next_cursor report))"
  proof (cases "td_human_handoffs driver")
    case (Some handoffs)
    with reach have step: "(handoff_store_step (te_handoff env))\<^sup>*\<^sup>* [] handoffs" by (simp add: driver_reachable_def)
    show ?thesis
      unfolding ids report handoff_ids_def Some option.case
      by (rule source_cut [OF handoff_store_wf [OF step] handoff_store_ids [OF step] limit refl])
        (use limit in \<open>auto simp: handoff_progress_def next_tick_cursor_def pages handoff_page_of_def Some due_page_from_scan_def Let_def\<close>)
  qed (simp add: ids report handoff_ids_def next_tick_cursor_def pages handoff_page_of_def handoff_progress_def
      empty_handoff_page_def cuts_nothing limit)
  show "cuts (tq_scan_limit request) (effect_ids driver authority (tc_effect_after_effect_id (tq_cursor request)))
      (effect_ids driver' authority) (trp_effects report) (tc_effect_after_effect_id (trp_next_cursor report))"
  proof (cases "td_effects driver")
    case (Some state)
    with reach have step: "(effect_store_step (te_effect env))\<^sup>*\<^sup>* effect_state_empty state" by (simp add: driver_reachable_def)
    show ?thesis
      unfolding ids report effect_ids_def Some option.case
      by (rule source_cut [OF effect_store_wf [OF step] effect_store_all_ids [OF step] limit refl])
        (use limit in \<open>auto simp: effect_progress_def next_tick_cursor_def pages effect_page_of_def Some ef_due_page_from_scan_def Let_def\<close>)
  qed (simp add: ids report effect_ids_def next_tick_cursor_def pages effect_page_of_def effect_progress_def
      empty_effect_page_def cuts_nothing limit)
qed

text \<open>The cursor a tick returns is accepted by the next one.\<close>

lemma next_cursor_checked:
  "validate_continuation c nxt = Inr () \<Longrightarrow> check_opt validate_temporal_identity (if b then nxt else None) = Inr ()"
  by (auto simp: validate_continuation_def check_opt_def ok_iff split: option.splits)

lemma next_request_ok:
  assumes reach: "driver_reachable env driver" and tick: "tick_as env driver request authority = Inr (driver', report)"
    and time: "t \<noteq> 0"
  shows "tp_validate_request \<lparr>tq_at_ms = t, tq_scan_limit = tq_scan_limit request, tq_cursor = trp_next_cursor report\<rparr>
      authority = Inr ()"
    and "validate_installed_cursors driver' (trp_next_cursor report) = Inr ()"
proof -
  from tick obtain plan where plan: "tick_plan env driver request authority = Inr plan"
    and attempts: "tick_attempts env driver request authority plan = (driver', report)"
    by (auto simp: tick_as_def and_then_eq_Inr)
  note pages = tick_plan_pages [OF reach plan]
  have nxt: "trp_next_cursor report = next_tick_cursor plan"
    using attempts by (auto simp: tick_attempts_def Let_def split_def)
  have "validate_continuation (tc_workflow_after_run_id (tq_cursor request))
      (wsp_next_after_run_id (workflow_page_of driver request authority)) = Inr ()"
    "validate_continuation (tc_handoff_after_handoff_id (tq_cursor request))
      (hdp_next_after_handoff_id (handoff_page_of driver request authority)) = Inr ()"
    "validate_continuation (tc_effect_after_effect_id (tq_cursor request))
      (edp_next_after_effect_id (effect_page_of driver request authority)) = Inr ()"
    using pages_accepted [OF reach pages(1)]
    by (auto simp: validate_workflow_scan_page_def validate_handoff_scan_page_def validate_effect_scan_page_def
        and_then_eq_Inr)
  then show "tp_validate_request \<lparr>tq_at_ms = t, tq_scan_limit = tq_scan_limit request, tq_cursor = trp_next_cursor report\<rparr>
      authority = Inr ()"
    using pages(1) time
    by (simp add: tp_validate_request_ok nxt next_tick_cursor_def pages(3-6) empty_agent_loop_wait_page_def
        next_cursor_checked) (simp add: check_opt_def)
  have "td_workflows driver' = None \<longleftrightarrow> td_workflows driver = None"
    "td_human_handoffs driver' = None \<longleftrightarrow> td_human_handoffs driver = None"
    "td_effects driver' = None \<longleftrightarrow> td_effects driver = None"
    using attempts by (auto simp: tick_attempts_def Let_def split_def split: option.splits)
  then show "validate_installed_cursors driver' (trp_next_cursor report) = Inr ()"
    by (auto simp: validate_installed_cursors_def nxt next_tick_cursor_def pages workflow_page_of_def handoff_page_of_def
        effect_page_of_def empty_workflow_page_def empty_handoff_page_def empty_effect_page_def
        empty_agent_loop_wait_page_def)
qed

fun ticks ::
  "'v::linorder temporal_env \<Rightarrow> 'v temporal_driver \<Rightarrow> temporal_tick_cursor \<Rightarrow> usize \<Rightarrow> authority_context \<Rightarrow> u64 list \<Rightarrow>
   ('v temporal_driver \<times> temporal_tick_report list) result" where
  "ticks env driver cursor limit authority [] = Inr (driver, [])"
| "ticks env driver cursor limit authority (t # ts) =
     and_then (tick_as env driver \<lparr>tq_at_ms = t, tq_scan_limit = limit, tq_cursor = cursor\<rparr> authority) (\<lambda>(driver', report).
     and_then (ticks env driver' (trp_next_cursor report) limit authority ts) (\<lambda>(driver'', reports).
     Inr (driver'', report # reports)))"

definition sweeps :: "usize \<Rightarrow> nat \<Rightarrow> (usize \<times> string option) list \<Rightarrow> bool" where
  "sweeps limit n scans \<longleftrightarrow> (\<forall>k < length scans. k = 0 \<or> k * limit < n \<longrightarrow>
     fst (scans ! k) = min limit (n - k * limit) \<and> (snd (scans ! k) = None \<longleftrightarrow> n \<le> Suc k * limit))"

lemma sweeps_Cons:
  assumes cut: "cuts limit ids ids' scan nxt" and rest: "sweeps limit (length (ids' nxt)) scans"
  shows "sweeps limit (length ids) ((tsp_scanned scan, nxt) # scans)"
  unfolding sweeps_def
proof (intro allI impI)
  fix k
  assume k: "k < length ((tsp_scanned scan, nxt) # scans)" "k = 0 \<or> k * limit < length ids"
  show "fst (((tsp_scanned scan, nxt) # scans) ! k) = min limit (length ids - k * limit) \<and>
    (snd (((tsp_scanned scan, nxt) # scans) ! k) = None \<longleftrightarrow> length ids \<le> Suc k * limit)"
  proof (cases k)
    case 0
    then show ?thesis using cut by (simp add: cuts_def)
  next
    case (Suc j)
    with k have more_left: "limit < length ids" and j: "j = 0 \<or> j * limit < length ids - limit" by auto
    from cut more_left have "length (ids' nxt) = length ids - limit" by (simp add: cuts_def)
    moreover have "j < length scans" using k(1) Suc by simp
    ultimately have "fst (scans ! j) = min limit (length ids - limit - j * limit) \<and>
        (snd (scans ! j) = None \<longleftrightarrow> length ids - limit \<le> Suc j * limit)"
      using rest j unfolding sweeps_def by metis
    then show ?thesis using Suc more_left by auto
  qed
qed

lemma sweeps_Nil: "sweeps limit n []"
  by (simp add: sweeps_def)

lemma ticks_sweep:
  assumes "driver_reachable env driver" and "\<forall>x. to_vec (te_identity env) x \<noteq> None" and "\<forall>t\<in>set clock. t \<noteq> 0"
    and "\<And>t. t \<noteq> 0 \<Longrightarrow> tp_validate_request \<lparr>tq_at_ms = t, tq_scan_limit = limit, tq_cursor = cursor\<rparr> authority = Inr ()"
    and "validate_installed_cursors driver cursor = Inr ()"
  shows "\<exists>driver' reports. ticks env driver cursor limit authority clock = Inr (driver', reports) \<and>
    length reports = length clock \<and> driver_reachable env driver' \<and>
    sweeps limit (length (workflow_ids driver authority (tc_workflow_after_run_id cursor)))
      (map (\<lambda>r. (tsp_scanned (trp_workflows r), tc_workflow_after_run_id (trp_next_cursor r))) reports) \<and>
    sweeps limit (length (handoff_ids driver authority (tc_handoff_after_handoff_id cursor)))
      (map (\<lambda>r. (tsp_scanned (trp_human_handoffs r), tc_handoff_after_handoff_id (trp_next_cursor r))) reports) \<and>
    sweeps limit (length (effect_ids driver authority (tc_effect_after_effect_id cursor)))
      (map (\<lambda>r. (tsp_scanned (trp_effects r), tc_effect_after_effect_id (trp_next_cursor r))) reports)"
  using assms
proof (induction clock arbitrary: driver cursor)
  case (Cons t ts)
  let ?request = "\<lparr>tq_at_ms = t, tq_scan_limit = limit, tq_cursor = cursor\<rparr>"
  from Cons.prems(3) have t: "t \<noteq> 0" by simp
  have "validate_installed_cursors driver (tq_cursor ?request) = Inr ()" using Cons.prems(5) by simp
  from temporal_tick_lemma [OF Cons.prems(1) Cons.prems(4) [OF t] this Cons.prems(2)]
  obtain driver' report where tick: "tick_as env driver ?request authority = Inr (driver', report)"
    and reach: "driver_reachable env driver'" by blast
  note nxt = next_request_ok [OF Cons.prems(1) tick]
  from Cons.IH [OF reach Cons.prems(2) _ nxt(1) [simplified] nxt(2) [OF t]] Cons.prems(3)
  obtain driver'' reports where rest:
    "ticks env driver' (trp_next_cursor report) limit authority ts = Inr (driver'', reports)"
    "length reports = length ts" "driver_reachable env driver''"
    "sweeps limit (length (workflow_ids driver' authority (tc_workflow_after_run_id (trp_next_cursor report))))
      (map (\<lambda>r. (tsp_scanned (trp_workflows r), tc_workflow_after_run_id (trp_next_cursor r))) reports)"
    "sweeps limit (length (handoff_ids driver' authority (tc_handoff_after_handoff_id (trp_next_cursor report))))
      (map (\<lambda>r. (tsp_scanned (trp_human_handoffs r), tc_handoff_after_handoff_id (trp_next_cursor r))) reports)"
    "sweeps limit (length (effect_ids driver' authority (tc_effect_after_effect_id (trp_next_cursor report))))
      (map (\<lambda>r. (tsp_scanned (trp_effects r), tc_effect_after_effect_id (trp_next_cursor r))) reports)"
    by auto
  note cut = tick_cuts [OF Cons.prems(1) tick, simplified]
  show ?case
  proof (intro exI conjI)
    show "ticks env driver cursor limit authority (t # ts) = Inr (driver'', report # reports)"
      by (simp add: tick rest(1))
  qed (simp_all add: rest(2,3) sweeps_Cons [OF cut(1) rest(4)] sweeps_Cons [OF cut(2) rest(5)] sweeps_Cons [OF cut(3) rest(6)])
qed (simp add: sweeps_Nil)

section \<open>A concrete driver\<close>

definition demo_temporal_env :: "nat temporal_env" where
  "demo_temporal_env = \<lparr>te_workflow = demo_env, te_handoff = demo_handoff_env, te_effect = demo_effect_env,
     te_identity = (\<lambda>(kind, a, i, fence). ([kind, i, fence], True)), te_sha256 = (\<lambda>b. b)\<rparr>"

definition demo_driver :: "nat temporal_driver" where
  "demo_driver = \<lparr>td_workflows = Some (demo_store 2 demo_waiting, []), td_human_handoffs = Some (demo_cases 2 demo_claimed),
     td_effects = Some (demo_ledger 2 demo_taken)\<rparr>"

definition demo_start :: temporal_tick_cursor where
  "demo_start = \<lparr>tc_workflow_after_run_id = None, tc_handoff_after_handoff_id = None, tc_effect_after_effect_id = None,
     tc_agent_loop_wait_after = None\<rparr>"

definition demo_tick :: temporal_tick_request where
  "demo_tick = \<lparr>tq_at_ms = 3000, tq_scan_limit = 1, tq_cursor = demo_start\<rparr>"

lemma demo_driver_reachable: "driver_reachable demo_temporal_env demo_driver"
  using demo_store_reachable(2) demo_cases_reachable(2) demo_ledger_reachable(2)
  by (simp add: driver_reachable_def demo_driver_def demo_temporal_env_def)

lemma demo_identity_encodes: "\<forall>x. to_vec (te_identity demo_temporal_env) x \<noteq> None"
  by (simp add: demo_temporal_env_def to_vec_def)

lemma demo_request_ok:
  "tp_validate_request demo_tick local_process = Inr ()"
  "validate_installed_cursors demo_driver (tq_cursor demo_tick) = Inr ()"
  by (simp_all add: tp_validate_request_ok demo_tick_def demo_start_def check_opt_def MAX_TEMPORAL_SCAN_LIMIT_def
      validate_installed_cursors_def)

lemma demo_pages:
  "wsp_due (workflow_page_of demo_driver demo_tick local_process) =
     [\<lparr>wdw_run_id = ''r'', wdw_tenant_id = None, wdw_revision = 2, wdw_wait_id = ''w'', wdw_due_at_ms = 9\<rparr>]"
  "hdp_due (handoff_page_of demo_driver demo_tick local_process) =
     [\<lparr>hdc_handoff_id = ''h'', hdc_tenant_id = None, hdc_revision = 2, hdc_claim_id = ''c1'', hdc_expires_at_ms = 2006\<rparr>]"
  "edp_due (effect_page_of demo_driver demo_tick local_process) =
     [\<lparr>edl_effect_id = ''e'', edl_tenant_id = None, edl_revision = 2, edl_lease_id = ''l1'', edl_attempt = 1,
        edl_expires_at_ms = 2006\<rparr>]"
  by (simp_all add: workflow_page_of_def handoff_page_of_def effect_page_of_def demo_driver_def demo_tick_def demo_start_def
      wf_page_from_scan_def due_page_from_scan_def ef_due_page_from_scan_def tenant_after_def tenant_storage_key_def
      is_none_or_def demo_store_defs demo_cases_def demo_case_def demo_ledger_def demo_entry_def due_of_snapshot_def
      due_claim_of_def due_lease_of_def demo_waiting_def demo_claimed_def demo_taken_def Let_def word_le_nat_alt)

section \<open>Properties\<close>

text \<open>
  A tick always answers. On stores the engines built, a request with a current authority, a time, a
  limit in range and cursors of installed sources only gets its report: every page the stores give
  passes the checks of the driver, one attempt is made for each due wait, expired claim and
  expired lease of the pages, in this order, and the stores stay reachable. Only the encoder of
  the command identities is assumed to succeed.
\<close>

theorem temporal_tick_total:
  assumes reach: "driver_reachable env driver" and request: "tp_validate_request request authority = Inr ()"
    and installed: "validate_installed_cursors driver (tq_cursor request) = Inr ()"
    and encodes: "\<forall>x. to_vec (te_identity env) x \<noteq> None"
  shows "\<exists>driver' report. tick_as env driver request authority = Inr (driver', report) \<and>
    driver_reachable env driver' \<and>
    map ta_target (trp_attempts report) = map workflow_target (wsp_due (workflow_page_of driver request authority)) @
      map handoff_target (hdp_due (handoff_page_of driver request authority)) @
      map effect_target (edp_due (effect_page_of driver request authority))"
  using assms by (rule temporal_tick_lemma)

theorem temporal_tick_total_witness:
  "\<exists>driver' report. tick_as demo_temporal_env demo_driver demo_tick local_process = Inr (driver', report) \<and>
    map ta_target (trp_attempts report) = [WorkflowWait ''r'' 2 ''w'' 9, HumanHandoffClaim ''h'' 2 ''c1'' 2006,
      EffectLease ''e'' 2 ''l1'' 1 2006]"
  using temporal_tick_total [OF demo_driver_reachable demo_request_ok demo_identity_encodes] by (auto simp: demo_pages)

text \<open>
  C21: The attempts of a tick are fenced by what its scan observed, whatever happened to the stores since. An
  attempt that reports applied found the object at the observed revision, still in the observed wait or held under
  the observed claim or lease, and due by the time of the tick; it moves that object alone, by one
  revision: a waiting Run to running, a claimed Handoff back to the queue, a claimed Effect to unknown. Every
  other outcome leaves the store as it was.
\<close>

theorem temporal_attempts_fenced:
  assumes "workflow_wake env authority wait = Inr wc" and "workflow_attempt env graphs at_ms authority runs wc = (runs', wa)"
    and "handoff_expire env authority claim = Inr hc" and "handoff_attempt env at_ms authority handoffs hc = (handoffs', ha)"
    and "effect_expire env authority lease = Inr ec" and "effect_attempt env at_ms authority state ec = (state', ea)"
  shows "(if ta_outcome wa = TaApplied then run_woken authority at_ms wait runs runs' else runs' = runs) \<and>
    (if ta_outcome ha = TaApplied then claim_expired authority at_ms claim handoffs handoffs' else handoffs' = handoffs) \<and>
    (if ta_outcome ea = TaApplied then lease_expired authority at_ms lease state state' else state' = state)"
  using wake_attempt [OF assms(1,2)] expire_claim_attempt [OF assms(3,4)] expire_lease_attempt [OF assms(5,6)] by blast

theorem temporal_attempts_fenced_witness:
  "fst (workflow_attempt demo_temporal_env [] 3000 local_process (demo_store 2 demo_waiting)
      (\<lparr>wdw_run_id = ''r'', wdw_tenant_id = None, wdw_revision = 1, wdw_wait_id = ''w'', wdw_due_at_ms = 9\<rparr>,
       ''temporal-workflow-wake-'' @ lower_hex ''workflow-wakerw'',
       \<lparr>wc_id = ''temporal-workflow-wake-'' @ lower_hex ''workflow-wakerw'', wc_kind = WcWakeDue ''w''\<rparr>))
    = demo_store 2 demo_waiting"
proof -
  let ?wait = "\<lparr>wdw_run_id = ''r'', wdw_tenant_id = None, wdw_revision = 1, wdw_wait_id = ''w'', wdw_due_at_ms = 9\<rparr>"
  let ?i = "''temporal-workflow-wake-'' @ lower_hex ''workflow-wakerw''"
  let ?wc = "(?wait, ?i, \<lparr>wc_id = ?i, wc_kind = WcWakeDue ''w''\<rparr>)"
  let ?claim = "\<lparr>hdc_handoff_id = ''h'', hdc_tenant_id = None, hdc_revision = 1, hdc_claim_id = ''c1'', hdc_expires_at_ms = 2006\<rparr>"
  let ?lease = "\<lparr>edl_effect_id = ''e'', edl_tenant_id = None, edl_revision = 1, edl_lease_id = ''l1'', edl_attempt = 1,
    edl_expires_at_ms = 2006\<rparr>"
  have wc: "workflow_wake demo_temporal_env local_process ?wait = Inr ?wc"
    by (simp add: workflow_wake_def temporal_command_id_def demo_temporal_env_def to_vec_def)
  obtain hc where hc: "handoff_expire demo_temporal_env local_process ?claim = Inr hc"
    using wake_total(2) [OF demo_identity_encodes] by blast
  obtain ec where ec: "effect_expire demo_temporal_env local_process ?lease = Inr ec"
    using wake_total(3) [OF demo_identity_encodes] by blast
  have "\<not> run_woken local_process 3000 ?wait (demo_store 2 demo_waiting) runs'" for runs'
    by (simp add: run_woken_def demo_store_defs bm_get_def store_key_def tenant_storage_key_def)
  with temporal_attempts_fenced [OF wc surjective_pairing [of "workflow_attempt demo_temporal_env [] 3000 local_process (demo_store 2 demo_waiting) ?wc"]
      hc surjective_pairing [of "handoff_attempt demo_temporal_env 3000 local_process (demo_cases 2 demo_claimed) hc"]
      ec surjective_pairing [of "effect_attempt demo_temporal_env 3000 local_process (demo_ledger 2 demo_taken) ec"]]
  show ?thesis by metis
qed

text \<open>
  C22: Sweeps end and miss nothing. Ticks that continue from the cursor of the tick before always
  answer, and each source is visited page by page: in the \<open>k\<close>-th tick of a sweep the next \<open>limit\<close> objects of the
  tenant that are left are scanned, and the source's cursor is empty exactly when none is left behind them. So \<open>n\<close> objects
  take \<open>n / limit\<close> ticks, rounded up.
\<close>

theorem temporal_sweep_complete:
  assumes "driver_reachable env driver" and "valid_authority authority" and "0 < limit" and "limit \<le> MAX_TEMPORAL_SCAN_LIMIT"
    and "\<forall>t\<in>set clock. t \<noteq> 0" and "\<forall>x. to_vec (te_identity env) x \<noteq> None"
    and "start = \<lparr>tc_workflow_after_run_id = None, tc_handoff_after_handoff_id = None, tc_effect_after_effect_id = None,
      tc_agent_loop_wait_after = None\<rparr>"
  shows "\<exists>driver' reports. ticks env driver start limit authority clock = Inr (driver', reports) \<and>
    length reports = length clock \<and> driver_reachable env driver' \<and>
    sweeps limit (length (workflow_ids driver authority None))
      (map (\<lambda>r. (tsp_scanned (trp_workflows r), tc_workflow_after_run_id (trp_next_cursor r))) reports) \<and>
    sweeps limit (length (handoff_ids driver authority None))
      (map (\<lambda>r. (tsp_scanned (trp_human_handoffs r), tc_handoff_after_handoff_id (trp_next_cursor r))) reports) \<and>
    sweeps limit (length (effect_ids driver authority None))
      (map (\<lambda>r. (tsp_scanned (trp_effects r), tc_effect_after_effect_id (trp_next_cursor r))) reports)"
proof -
  have "tp_validate_request \<lparr>tq_at_ms = t, tq_scan_limit = limit, tq_cursor = start\<rparr> authority = Inr ()" if "t \<noteq> 0" for t
    using that assms(2-4) by (simp add: tp_validate_request_ok assms(7) check_opt_def)
  moreover have "validate_installed_cursors driver start = Inr ()" by (simp add: validate_installed_cursors_def assms(7))
  ultimately show ?thesis
    using ticks_sweep [OF assms(1,6,5), of limit start authority] by (simp add: assms(7))
qed

theorem temporal_sweep_complete_witness:
  "\<exists>driver' report. ticks demo_temporal_env demo_driver demo_start 1 local_process [3000] = Inr (driver', [report]) \<and>
    tsp_scanned (trp_workflows report) = 1 \<and> tc_workflow_after_run_id (trp_next_cursor report) = None"
proof -
  have n: "length (workflow_ids demo_driver local_process None) = 1"
    by (simp add: workflow_ids_def demo_driver_def ids_after_def tenant_after_def demo_store_defs tenant_storage_key_def
        is_none_or_def)
  obtain driver' reports where ticks: "ticks demo_temporal_env demo_driver demo_start 1 local_process [3000] = Inr (driver', reports)"
    "length reports = 1"
    "sweeps 1 1 (map (\<lambda>r. (tsp_scanned (trp_workflows r), tc_workflow_after_run_id (trp_next_cursor r))) reports)"
    using temporal_sweep_complete [OF demo_driver_reachable _ _ _ _ demo_identity_encodes demo_start_def, of local_process 1 "[3000]"]
    by (auto simp: n MAX_TEMPORAL_SCAN_LIMIT_def)
  then obtain report where "reports = [report]" by (cases reports) auto
  with ticks show ?thesis by (auto simp: sweeps_def)
qed

end
