(* ===== verification/Governor.thy ===== *)
theory Governor
  imports Effect
begin

text \<open>
  Admission control for external Effects: \<^verbatim>\<open>effect/governor.rs\<close>. A lane is a tenant with a capability,
  an operation and a policy. Each lane counts its dispatches in fixed windows and has a circuit
  breaker: consecutive failures open it, after a while one probe may pass, and the result of the
  probe closes it or opens it again. An admission is recorded under the identity of the Effect's lease, so that its
  repetition gets the same answer and its settlement counts once.

  The memory governor changes its lanes in place, so a call that fails late leaves what it
  already changed; \<open>decide\<close> and \<open>apply_settlement\<close> therefore return the lane beside the result.
  The encoder of policies and SHA-256 are parameters.
\<close>

section \<open>Data\<close>

definition MAX_POLICY_ID_BYTES :: nat where "MAX_POLICY_ID_BYTES = 128"
definition MAX_POLICY_JSON_BYTES :: nat where "MAX_POLICY_JSON_BYTES = 4096"
definition MAX_ADMISSIONS :: nat where "MAX_ADMISSIONS = 1000000"
definition MAX_LANES :: nat where "MAX_LANES = 1000000"
definition MAX_RATE_LIMIT :: u32 where "MAX_RATE_LIMIT = 1000000"
definition MAX_WINDOW_MS :: u64 where "MAX_WINDOW_MS = 86400000"
definition MAX_FAILURE_THRESHOLD :: u32 where "MAX_FAILURE_THRESHOLD = 1000000"
definition MAX_OPEN_DURATION_MS :: u64 where "MAX_OPEN_DURATION_MS = 604800000"
definition MAX_PROBE_LEASE_MS :: u64 where "MAX_PROBE_LEASE_MS = 86400000"
definition MIN_ADMISSION_RETENTION_MS :: u64 where "MIN_ADMISSION_RETENTION_MS = 604800000"
definition MAX_ADMISSION_RETENTION_MS :: u64 where "MAX_ADMISSION_RETENTION_MS = 31536000000"

lemmas governor_limits = MAX_POLICY_ID_BYTES_def MAX_POLICY_JSON_BYTES_def MAX_ADMISSIONS_def MAX_LANES_def
  MAX_RATE_LIMIT_def MAX_WINDOW_MS_def MAX_FAILURE_THRESHOLD_def MAX_OPEN_DURATION_MS_def MAX_PROBE_LEASE_MS_def
  MIN_ADMISSION_RETENTION_MS_def MAX_ADMISSION_RETENTION_MS_def

record governor_policy =
  gp_policy_id :: string
  gp_max_dispatches_per_window :: u32
  gp_window_ms :: u64
  gp_failure_threshold :: u32
  gp_open_duration_ms :: u64
  gp_probe_lease_ms :: u64
  gp_admission_retention_ms :: u64

record admission_request =
  gq_admission_id :: string
  gq_operation :: effect_operation
  gq_policy :: governor_policy
  gq_admitted_at_ms :: u64

datatype admission_decision = GdAllow | GdAllowProbe | GdRateLimited u64 | GdCircuitOpen u64

datatype dispatch_settlement = Healthy | AvailabilityFailure | Abandoned

record lane_state =
  ln_policy_sha256 :: string
  ln_last_observed_at_ms :: u64
  ln_window_started_at_ms :: u64
  ln_window_count :: u32
  ln_consecutive_failures :: u32
  ln_circuit_epoch :: u64
  ln_open_until_ms :: "u64 option"
  ln_probe_admission_id :: "string option"
  ln_probe_expires_at_ms :: "u64 option"

record admission_record =
  gr_operation :: effect_operation
  gr_policy :: governor_policy
  gr_policy_sha256 :: string
  gr_admitted_at_ms :: u64
  gr_expires_at_ms :: u64
  gr_circuit_epoch :: u64
  gr_decision :: admission_decision
  gr_settlement :: "dispatch_settlement option"

text \<open>Tenant, capability, operation and policy, in the order of the derived \<open>Ord\<close>.\<close>

type_synonym lane_key = "string \<times> string \<times> string \<times> string"

record governor_state =
  gs_lanes :: "(lane_key, lane_state) btree_map"
  gs_admissions :: "(string \<times> string, admission_record) btree_map"

record validated_admission =
  va_admission_id :: string
  va_operation :: effect_operation
  va_policy :: governor_policy
  va_policy_sha256 :: string
  va_admitted_at_ms :: u64
  va_lane :: lane_key

record governor_env =
  ge_policy :: "governor_policy \<Rightarrow> bytes option"
  ge_sha256 :: "bytes \<Rightarrow> bytes"

definition gov_err :: "governor_fault \<Rightarrow> harness_error" where
  "gov_err f = Effect (E_governor f)"

definition governor_new :: governor_state where
  "governor_new = \<lparr>gs_lanes = [], gs_admissions = []\<rparr>"

section \<open>Validation\<close>

definition policy_digest :: "governor_env \<Rightarrow> governor_policy \<Rightarrow> string result" where
  "policy_digest env policy =
     and_then (ok_or (gov_err G_encode) (ge_policy env policy)) (\<lambda>encoded.
     if length encoded > MAX_POLICY_JSON_BYTES then Inl (gov_err G_too_large)
     else Inr (lower_hex (ge_sha256 env encoded)))"

definition policy_validate :: "governor_env \<Rightarrow> governor_policy \<Rightarrow> unit result" where
  "policy_validate env p =
     and_then (map_err (\<lambda>_. gov_err G_name) (validate_capability_name (gp_policy_id p))) (\<lambda>_.
     if length (gp_policy_id p) > MAX_POLICY_ID_BYTES then Inl (gov_err G_policy_id_too_long)
     else if \<not> (1 \<le> gp_max_dispatches_per_window p \<and> gp_max_dispatches_per_window p \<le> MAX_RATE_LIMIT)
     then Inl (gov_err G_rate_limit)
     else if \<not> (1 \<le> gp_window_ms p \<and> gp_window_ms p \<le> MAX_WINDOW_MS) then Inl (gov_err G_window)
     else if \<not> (1 \<le> gp_failure_threshold p \<and> gp_failure_threshold p \<le> MAX_FAILURE_THRESHOLD)
     then Inl (gov_err G_failure_threshold)
     else if \<not> (1 \<le> gp_open_duration_ms p \<and> gp_open_duration_ms p \<le> MAX_OPEN_DURATION_MS)
     then Inl (gov_err G_open_duration)
     else if \<not> (1 \<le> gp_probe_lease_ms p \<and> gp_probe_lease_ms p \<le> MAX_PROBE_LEASE_MS)
     then Inl (gov_err G_probe_lease)
     else if \<not> (MIN_ADMISSION_RETENTION_MS \<le> gp_admission_retention_ms p \<and>
       gp_admission_retention_ms p \<le> MAX_ADMISSION_RETENTION_MS)
     then Inl (gov_err G_retention)
     else
     let minimum_retention = max (max (gp_window_ms p) (gp_open_duration_ms p)) (gp_probe_lease_ms p) in
     if gp_admission_retention_ms p < minimum_retention then Inl (gov_err G_retention_too_short)
     else and_then (policy_digest env p) (\<lambda>_. Inr ()))"

definition gov_validate_operation :: "effect_operation \<Rightarrow> unit result" where
  "gov_validate_operation operation =
     and_then (map_err (\<lambda>_. gov_err G_name) (validate_capability_name (eo_capability operation))) (\<lambda>_.
     map_err (\<lambda>_. gov_err G_name) (validate_capability_name (eo_operation operation)))"

definition tenant_key :: "authority_context \<Rightarrow> string" where
  "tenant_key authority = (case tenant_id authority of None \<Rightarrow> [] | Some t \<Rightarrow> t)"

definition gov_lane_key :: "effect_operation \<Rightarrow> governor_policy \<Rightarrow> string \<Rightarrow> lane_key" where
  "gov_lane_key operation policy tenant =
     (tenant, eo_capability operation, eo_operation operation, gp_policy_id policy)"

definition validated_new :: "governor_env \<Rightarrow> admission_request \<Rightarrow> authority_context \<Rightarrow> validated_admission result" where
  "validated_new env request authority =
     and_then (map_err (\<lambda>_. gov_err G_authority) (authority_validate_current authority)) (\<lambda>_.
     and_then (ef_validate_identity (gq_admission_id request)) (\<lambda>_.
     and_then (gov_validate_operation (gq_operation request)) (\<lambda>_.
     and_then (policy_validate env (gq_policy request)) (\<lambda>_.
     and_then (ef_validate_application_time (gq_admitted_at_ms request)) (\<lambda>_.
     and_then (policy_digest env (gq_policy request)) (\<lambda>digest.
     Inr \<lparr>va_admission_id = gq_admission_id request, va_operation = gq_operation request,
       va_policy = gq_policy request, va_policy_sha256 = digest, va_admitted_at_ms = gq_admitted_at_ms request,
       va_lane = gov_lane_key (gq_operation request) (gq_policy request) (tenant_key authority)\<rparr>))))))"

section \<open>Deciding and settling\<close>

definition fixed_window_start :: "u64 \<Rightarrow> u64 \<Rightarrow> u64" where
  "fixed_window_start now window = now - now mod window"

definition initial_lane :: "validated_admission \<Rightarrow> lane_state" where
  "initial_lane v =
     \<lparr>ln_policy_sha256 = va_policy_sha256 v, ln_last_observed_at_ms = va_admitted_at_ms v,
      ln_window_started_at_ms = fixed_window_start (va_admitted_at_ms v) (gp_window_ms (va_policy v)),
      ln_window_count = 0, ln_consecutive_failures = 0, ln_circuit_epoch = 1, ln_open_until_ms = None,
      ln_probe_admission_id = None, ln_probe_expires_at_ms = None\<rparr>"

text \<open>The circuit is open: deny until the time it opens for a probe, deny while a probe is out, or let one probe pass.\<close>

definition decide_open ::
  "lane_state \<Rightarrow> validated_admission \<Rightarrow> u64 \<Rightarrow> lane_state \<times> (admission_decision \<times> u64) result" where
  "decide_open lane v open_until =
     (let now = va_admitted_at_ms v in
      if open_until > now then (lane, Inr (GdCircuitOpen open_until, ln_circuit_epoch lane))
      else case ln_probe_expires_at_ms lane of
        Some probe_until \<Rightarrow> (lane, Inr (GdCircuitOpen probe_until, ln_circuit_epoch lane))
      | None \<Rightarrow>
          (case checked_add now (gp_probe_lease_ms (va_policy v)) of
             None \<Rightarrow> (lane, Inl (gov_err G_probe_overflow))
           | Some probe_until \<Rightarrow>
               (lane\<lparr>ln_probe_admission_id := Some (va_admission_id v), ln_probe_expires_at_ms := Some probe_until\<rparr>,
                Inr (GdAllowProbe, ln_circuit_epoch lane))))"

text \<open>The circuit is closed: count the dispatch in its window.\<close>

definition decide_closed :: "lane_state \<Rightarrow> validated_admission \<Rightarrow> lane_state \<times> (admission_decision \<times> u64) result" where
  "decide_closed lane0 v =
     (let now = va_admitted_at_ms v;
          window_started = fixed_window_start now (gp_window_ms (va_policy v));
          lane = (if ln_window_started_at_ms lane0 \<noteq> window_started
            then lane0\<lparr>ln_window_started_at_ms := window_started, ln_window_count := 0\<rparr> else lane0)
      in if ln_window_count lane \<ge> gp_max_dispatches_per_window (va_policy v)
      then (case checked_add window_started (gp_window_ms (va_policy v)) of
              None \<Rightarrow> (lane, Inl (gov_err G_retry_overflow))
            | Some retry_at_ms \<Rightarrow> (lane, Inr (GdRateLimited retry_at_ms, ln_circuit_epoch lane)))
      else (case checked_add (ln_window_count lane) 1 of
              None \<Rightarrow> (lane, Inl (gov_err G_counter_overflow))
            | Some count \<Rightarrow> (lane\<lparr>ln_window_count := count\<rparr>, Inr (GdAllow, ln_circuit_epoch lane))))"

definition observe :: "lane_state \<Rightarrow> u64 \<Rightarrow> lane_state" where
  "observe lane now =
     (let lane = lane\<lparr>ln_last_observed_at_ms := now\<rparr> in
      if (case ln_probe_expires_at_ms lane of None \<Rightarrow> False | Some deadline \<Rightarrow> deadline \<le> now)
      then lane\<lparr>ln_probe_admission_id := None, ln_probe_expires_at_ms := None\<rparr> else lane)"

definition decide :: "lane_state \<Rightarrow> validated_admission \<Rightarrow> lane_state \<times> (admission_decision \<times> u64) result" where
  "decide lane v =
     (let now = va_admitted_at_ms v in
      if now < ln_last_observed_at_ms lane then (lane, Inl (gov_err G_clock_backwards))
      else let lane = observe lane now in
        case ln_open_until_ms lane of
          Some open_until \<Rightarrow> decide_open lane v open_until
        | None \<Rightarrow> decide_closed lane v)"

text \<open>The circuit opens: a new epoch, and no probe before the duration has passed.\<close>

definition trip :: "lane_state \<Rightarrow> u64 \<Rightarrow> u64 \<Rightarrow> lane_state \<times> unit result" where
  "trip lane effective_at_ms duration =
     (case checked_add (ln_circuit_epoch lane) 1 of
        None \<Rightarrow> (lane, Inl (gov_err G_epoch_overflow))
      | Some epoch \<Rightarrow>
          let lane = lane\<lparr>ln_circuit_epoch := epoch\<rparr> in
          (case checked_add effective_at_ms duration of
             None \<Rightarrow> (lane, Inl (gov_err G_circuit_overflow))
           | Some until \<Rightarrow>
               (lane\<lparr>ln_open_until_ms := Some until, ln_probe_admission_id := None, ln_probe_expires_at_ms := None\<rparr>,
                Inr ())))"

definition settle_probe :: "lane_state \<Rightarrow> admission_record \<Rightarrow> dispatch_settlement \<Rightarrow> u64 \<Rightarrow> lane_state \<times> unit result" where
  "settle_probe lane r settlement effective_at_ms =
     (case settlement of
        Healthy \<Rightarrow>
          (lane\<lparr>ln_open_until_ms := None, ln_probe_admission_id := None, ln_probe_expires_at_ms := None,
             ln_consecutive_failures := 0\<rparr>, Inr ())
      | AvailabilityFailure \<Rightarrow>
          (case trip lane effective_at_ms (gp_open_duration_ms (gr_policy r)) of
             (lane, Inl e) \<Rightarrow> (lane, Inl e)
           | (lane, Inr u) \<Rightarrow> (lane\<lparr>ln_consecutive_failures := gp_failure_threshold (gr_policy r)\<rparr>, Inr ()))
      | Abandoned \<Rightarrow> (lane\<lparr>ln_probe_admission_id := None, ln_probe_expires_at_ms := None\<rparr>, Inr ()))"

definition settle_normal :: "lane_state \<Rightarrow> admission_record \<Rightarrow> dispatch_settlement \<Rightarrow> u64 \<Rightarrow> lane_state \<times> unit result" where
  "settle_normal lane r settlement effective_at_ms =
     (case settlement of
        Healthy \<Rightarrow> (lane\<lparr>ln_consecutive_failures := 0\<rparr>, Inr ())
      | AvailabilityFailure \<Rightarrow>
          (case checked_add (ln_consecutive_failures lane) 1 of
             None \<Rightarrow> (lane, Inl (gov_err G_counter_overflow))
           | Some failures \<Rightarrow>
               let lane = lane\<lparr>ln_consecutive_failures := failures\<rparr> in
               if failures \<ge> gp_failure_threshold (gr_policy r)
               then trip lane effective_at_ms (gp_open_duration_ms (gr_policy r))
               else (lane, Inr ()))
      | Abandoned \<Rightarrow> (lane, Inr ()))"

definition apply_settlement ::
  "lane_state \<Rightarrow> string \<Rightarrow> admission_record \<Rightarrow> dispatch_settlement \<Rightarrow> u64 \<Rightarrow> lane_state \<times> unit result" where
  "apply_settlement lane admission_id r settlement settled_at_ms =
     (if gr_circuit_epoch r \<noteq> ln_circuit_epoch lane then (lane, Inr ())
      else let probe = (gr_decision r = GdAllowProbe) in
      if probe \<and> ln_probe_admission_id lane \<noteq> Some admission_id then (lane, Inr ())
      else let effective_at_ms = max settled_at_ms (ln_last_observed_at_ms lane);
               lane = lane\<lparr>ln_last_observed_at_ms := effective_at_ms\<rparr>
      in if probe then settle_probe lane r settlement effective_at_ms
         else settle_normal lane r settlement effective_at_ms)"

definition gov_admission_record :: "validated_admission \<Rightarrow> u64 \<Rightarrow> admission_decision \<Rightarrow> admission_record result" where
  "gov_admission_record v circuit_epoch decision =
     and_then (ok_or (gov_err G_retention_overflow)
       (checked_add (va_admitted_at_ms v) (gp_admission_retention_ms (va_policy v)))) (\<lambda>expires_at_ms.
     Inr \<lparr>gr_operation = va_operation v, gr_policy = va_policy v, gr_policy_sha256 = va_policy_sha256 v,
       gr_admitted_at_ms = va_admitted_at_ms v, gr_expires_at_ms = expires_at_ms, gr_circuit_epoch = circuit_epoch,
       gr_decision = decision, gr_settlement = None\<rparr>)"

definition validate_duplicate :: "admission_record \<Rightarrow> validated_admission \<Rightarrow> unit result" where
  "validate_duplicate existing v =
     (if gr_operation existing \<noteq> va_operation v \<or> gp_policy_id (gr_policy existing) \<noteq> gp_policy_id (va_policy v) \<or>
         gr_policy_sha256 existing \<noteq> va_policy_sha256 v
      then Inl (gov_err G_rebound) else Inr ())"

definition validate_settlement_record :: "admission_record \<Rightarrow> dispatch_settlement \<Rightarrow> u64 \<Rightarrow> unit result" where
  "validate_settlement_record r settlement settled_at_ms =
     (if \<not> (gr_decision r = GdAllow \<or> gr_decision r = GdAllowProbe) then Inl (gov_err G_denied)
      else if settled_at_ms < gr_admitted_at_ms r then Inl (gov_err G_before_admission)
      else if (case gr_settlement r of None \<Rightarrow> False | Some existing \<Rightarrow> existing \<noteq> settlement)
      then Inl (gov_err G_settled_differently) else Inr ())"

definition validate_settlement :: "string \<Rightarrow> u64 \<Rightarrow> authority_context \<Rightarrow> unit result" where
  "validate_settlement admission_id settled_at_ms authority =
     and_then (map_err (\<lambda>_. gov_err G_authority) (authority_validate_current authority)) (\<lambda>_.
     and_then (ef_validate_identity admission_id) (\<lambda>_.
     ef_validate_application_time settled_at_ms))"

definition validate_lane_policy :: "lane_state \<Rightarrow> string \<Rightarrow> unit result" where
  "validate_lane_policy lane digest =
     (if ln_policy_sha256 lane = digest then Inr () else Inl (gov_err G_policy_rebound))"

section \<open>The memory governor\<close>

definition prune_memory :: "governor_state \<Rightarrow> u64 \<Rightarrow> governor_state" where
  "prune_memory s at_ms = s\<lparr>gs_admissions := filter (\<lambda>(_, r). gr_expires_at_ms r > at_ms) (gs_admissions s)\<rparr>"

definition admit_validated :: "governor_state \<Rightarrow> validated_admission \<Rightarrow> governor_state \<times> admission_decision result" where
  "admit_validated s0 v =
     (let s = prune_memory s0 (va_admitted_at_ms v);
          admission_key = (fst (va_lane v), va_admission_id v)
      in case bm_get (gs_admissions s) admission_key of
        Some existing \<Rightarrow> (s, and_then (validate_duplicate existing v) (\<lambda>_. Inr (gr_decision existing)))
      | None \<Rightarrow>
          if length (gs_admissions s) \<ge> MAX_ADMISSIONS then (s, Inl (gov_err G_admissions_full))
          else if \<not> bm_contains (gs_lanes s) (va_lane v) \<and> length (gs_lanes s) \<ge> MAX_LANES
          then (s, Inl (gov_err G_lanes_full))
          else
            let lane = (case bm_get (gs_lanes s) (va_lane v) of Some lane \<Rightarrow> lane | None \<Rightarrow> initial_lane v);
                put = (\<lambda>lane. s\<lparr>gs_lanes := bm_insert (va_lane v) lane (gs_lanes s)\<rparr>)
            in case validate_lane_policy lane (va_policy_sha256 v) of
              Inl e \<Rightarrow> (put lane, Inl e)
            | Inr _ \<Rightarrow>
                (case decide lane v of
                   (lane', Inl e) \<Rightarrow> (put lane', Inl e)
                 | (lane', Inr (decision, epoch)) \<Rightarrow>
                     (case gov_admission_record v epoch decision of
                        Inl e \<Rightarrow> (put lane', Inl e)
                      | Inr r \<Rightarrow> ((put lane')\<lparr>gs_admissions := bm_insert admission_key r (gs_admissions s)\<rparr>,
                                 Inr decision))))"

definition gov_admit_as ::
  "governor_env \<Rightarrow> governor_state \<Rightarrow> admission_request \<Rightarrow> authority_context \<Rightarrow>
   governor_state \<times> admission_decision result" where
  "gov_admit_as env s request authority =
     (case validated_new env request authority of
        Inl e \<Rightarrow> (s, Inl e)
      | Inr v \<Rightarrow> admit_validated s v)"

definition gov_settle_as ::
  "governor_state \<Rightarrow> string \<Rightarrow> dispatch_settlement \<Rightarrow> u64 \<Rightarrow> authority_context \<Rightarrow> governor_state \<times> unit result" where
  "gov_settle_as s admission_id settlement settled_at_ms authority =
     (case validate_settlement admission_id settled_at_ms authority of
        Inl e \<Rightarrow> (s, Inl e)
      | Inr _ \<Rightarrow>
          let tenant = tenant_key authority; key = (tenant, admission_id) in
          (case bm_get (gs_admissions s) key of
             None \<Rightarrow> (s, Inl (gov_err G_missing_admission))
           | Some r \<Rightarrow>
               (case validate_settlement_record r settlement settled_at_ms of
                  Inl e \<Rightarrow> (s, Inl e)
                | Inr _ \<Rightarrow>
                    if gr_settlement r \<noteq> None then (s, Inr ())
                    else let lane_key = gov_lane_key (gr_operation r) (gr_policy r) tenant in
                      (case bm_get (gs_lanes s) lane_key of
                         None \<Rightarrow> (s, Inl (gov_err G_missing_lane))
                       | Some lane \<Rightarrow>
                           (case apply_settlement lane admission_id r settlement settled_at_ms of
                              (lane', Inl e) \<Rightarrow> (s\<lparr>gs_lanes := bm_insert lane_key lane' (gs_lanes s)\<rparr>, Inl e)
                            | (lane', Inr _) \<Rightarrow>
                                (s\<lparr>gs_lanes := bm_insert lane_key lane' (gs_lanes s),
                                   gs_admissions := bm_update key (\<lambda>r. r\<lparr>gr_settlement := Some settlement\<rparr>)
                                     (gs_admissions s)\<rparr>, Inr ()))))))"

section \<open>Runs\<close>

datatype governor_call =
    AdmitCall admission_request authority_context
  | SettleCall string dispatch_settlement u64 authority_context

fun gov_call :: "governor_env \<Rightarrow> governor_state \<Rightarrow> governor_call \<Rightarrow> governor_state" where
  "gov_call env s (AdmitCall request authority) = fst (gov_admit_as env s request authority)"
| "gov_call env s (SettleCall admission_id settlement now authority) =
     fst (gov_settle_as s admission_id settlement now authority)"

text \<open>The admission a call records: none for a refused request or the repetition of a recorded one.\<close>

definition admission_key :: "validated_admission \<Rightarrow> string \<times> string" where
  "admission_key v = (fst (va_lane v), va_admission_id v)"

fun admitted :: "governor_env \<Rightarrow> governor_state \<Rightarrow> governor_call \<Rightarrow> (validated_admission \<times> admission_decision) list" where
  "admitted env s (AdmitCall request authority) =
     (case validated_new env request authority of
        Inl _ \<Rightarrow> []
      | Inr v \<Rightarrow>
          if bm_contains (gs_admissions (prune_memory s (va_admitted_at_ms v))) (admission_key v) then []
          else case admit_validated s v of (_, Inr d) \<Rightarrow> [(v, d)] | _ \<Rightarrow> [])"
| "admitted env s (SettleCall _ _ _ _) = []"

definition gov_exec ::
  "governor_env \<Rightarrow> governor_state \<Rightarrow> governor_call list \<Rightarrow>
   governor_state \<times> (validated_admission \<times> admission_decision) list" where
  "gov_exec env s calls = foldl (\<lambda>(s, log) c. (gov_call env s c, log @ admitted env s c)) (s, []) calls"

lemma gov_exec_Nil [simp]: "gov_exec env s [] = (s, [])"
  by (simp add: gov_exec_def)

lemma gov_exec_snoc:
  "gov_exec env s (calls @ [c]) =
     (gov_call env (fst (gov_exec env s calls)) c, snd (gov_exec env s calls) @ admitted env (fst (gov_exec env s calls)) c)"
  by (simp add: gov_exec_def split_def)

section \<open>What a call does\<close>

lemma prune_lanes [simp]: "gs_lanes (prune_memory s t) = gs_lanes s"
  by (simp add: prune_memory_def)

lemma prune_get:
  "bm_wf (gs_admissions s) \<Longrightarrow> bm_get (gs_admissions (prune_memory s t)) k = Some r \<longleftrightarrow>
     bm_get (gs_admissions s) k = Some r \<and> t < gr_expires_at_ms r"
  by (simp add: prune_memory_def bm_get_filter)

definition governor_wf :: "governor_state \<Rightarrow> bool" where
  "governor_wf s \<longleftrightarrow> bm_wf (gs_lanes s) \<and> bm_wf (gs_admissions s)"

lemma governor_wf_prune [simp]: "governor_wf s \<Longrightarrow> governor_wf (prune_memory s t)"
  by (simp add: governor_wf_def prune_memory_def bm_wf_filter)

definition lane_for :: "governor_state \<Rightarrow> validated_admission \<Rightarrow> lane_state" where
  "lane_for s v = (case bm_get (gs_lanes s) (va_lane v) of Some lane \<Rightarrow> lane | None \<Rightarrow> initial_lane v)"

definition put_lane :: "lane_key \<Rightarrow> lane_state \<Rightarrow> governor_state \<Rightarrow> governor_state" where
  "put_lane k lane s = s\<lparr>gs_lanes := bm_insert k lane (gs_lanes s)\<rparr>"

definition put_admission :: "string \<times> string \<Rightarrow> admission_record \<Rightarrow> governor_state \<Rightarrow> governor_state" where
  "put_admission k r s = s\<lparr>gs_admissions := bm_insert k r (gs_admissions s)\<rparr>"

lemma put_simps [simp]:
  "gs_admissions (put_lane k lane s) = gs_admissions s" "gs_lanes (put_admission a r s) = gs_lanes s"
  "gs_lanes (put_lane k lane s) = bm_insert k lane (gs_lanes s)"
  "gs_admissions (put_admission a r s) = bm_insert a r (gs_admissions s)"
  "governor_wf s \<Longrightarrow> governor_wf (put_lane k lane s)" "governor_wf s \<Longrightarrow> governor_wf (put_admission a r s)"
  by (simp_all add: put_lane_def put_admission_def governor_wf_def bm_wf_insert)

lemma admit_validated_cases:
  assumes "admit_validated s0 v = (s', res)" and wf: "governor_wf s0"
  obtains
    (repeated) s r where "s = prune_memory s0 (va_admitted_at_ms v)" "s' = s" "bm_get (gs_admissions s) (admission_key v) = Some r"
      "res = and_then (validate_duplicate r v) (\<lambda>_. Inr (gr_decision r))"
  | (refused) s e where "s = prune_memory s0 (va_admitted_at_ms v)" "s' = s" "\<not> bm_contains (gs_admissions s) (admission_key v)"
      "res = Inl e" "e \<noteq> gov_err G_clock_backwards"
  | (failed) s lane e where "s = prune_memory s0 (va_admitted_at_ms v)" "\<not> bm_contains (gs_admissions s) (admission_key v)"
      "ln_policy_sha256 (lane_for s v) = va_policy_sha256 v" "s' = put_lane (va_lane v) lane s" "res = Inl e"
      "fst (decide (lane_for s v) v) = lane" "bm_contains (gs_lanes s) (va_lane v) \<or> length (gs_lanes s) < MAX_LANES"
      "snd (decide (lane_for s v) v) = Inl e \<or>
        (\<exists>d epoch. snd (decide (lane_for s v) v) = Inr (d, epoch) \<and> gov_admission_record v epoch d = Inl e)"
  | (recorded) s lane d epoch r where "s = prune_memory s0 (va_admitted_at_ms v)"
      "\<not> bm_contains (gs_admissions s) (admission_key v)" "ln_policy_sha256 (lane_for s v) = va_policy_sha256 v"
      "s' = put_admission (admission_key v) r (put_lane (va_lane v) lane s)" "res = Inr d"
      "decide (lane_for s v) v = (lane, Inr (d, epoch))" "gov_admission_record v epoch d = Inr r"
      "length (gs_admissions s) < MAX_ADMISSIONS" "bm_contains (gs_lanes s) (va_lane v) \<or> length (gs_lanes s) < MAX_LANES"
proof -
  define s where "s = prune_memory s0 (va_admitted_at_ms v)"
  have wf_s: "bm_wf (gs_lanes s)" using wf by (simp add: s_def governor_wf_def)
  note eq = assms(1) [unfolded admit_validated_def, folded s_def, unfolded Let_def, folded lane_for_def put_lane_def
      admission_key_def]
  show thesis
  proof (cases "bm_get (gs_admissions s) (admission_key v)")
    case (Some r)
    with eq repeated [OF s_def _ Some] show thesis by simp
  next
    case None
    then have fresh: "\<not> bm_contains (gs_admissions s) (admission_key v)" by (simp add: bm_contains_def)
    show thesis
    proof (cases "length (gs_admissions s) \<ge> MAX_ADMISSIONS \<or>
        \<not> bm_contains (gs_lanes s) (va_lane v) \<and> length (gs_lanes s) \<ge> MAX_LANES")
      case True
      with eq None refused [OF s_def _ fresh] show thesis by (auto simp: gov_err_def split: if_splits)
    next
      case room: False
      show thesis
      proof (cases "validate_lane_policy (lane_for s v) (va_policy_sha256 v)")
        case (Inl e)
        then have "e \<noteq> gov_err G_clock_backwards" and "bm_get (gs_lanes s) (va_lane v) = Some (lane_for s v)"
          by (auto simp: gov_err_def validate_lane_policy_def lane_for_def initial_lane_def split: option.splits if_splits)
        moreover from this(2) have "put_lane (va_lane v) (lane_for s v) s = s" by (simp add: put_lane_def bm_insert_same [OF wf_s])
        ultimately show thesis using eq None room Inl refused [OF s_def _ fresh] by (auto simp: put_lane_def)
      next
        case (Inr u)
        then have digest: "ln_policy_sha256 (lane_for s v) = va_policy_sha256 v"
          by (simp add: validate_lane_policy_def split: if_splits)
        obtain lane dr where dec: "decide (lane_for s v) v = (lane, dr)" by force
        have lanes: "bm_contains (gs_lanes s) (va_lane v) \<or> length (gs_lanes s) < MAX_LANES" using room by auto
        show thesis
        proof (cases dr)
          case (Inl e)
          with eq None room Inr dec show thesis
            by (intro failed [OF s_def fresh digest _ _ _ lanes]) (auto simp: put_lane_def)
        next
          case (Inr de)
          obtain d epoch where de: "de = (d, epoch)" by force
          show thesis
          proof (cases "gov_admission_record v epoch d")
            case (Inl e)
            with eq None room \<open>validate_lane_policy _ _ = Inr u\<close> dec Inr de show thesis
              by (intro failed [OF s_def fresh digest _ _ _ lanes]) (auto simp: put_lane_def)
          next
            case (Inr r)
            with eq None room \<open>validate_lane_policy _ _ = Inr u\<close> dec \<open>dr = Inr de\<close> de show thesis
              by (intro recorded [OF s_def fresh digest _ _ _ Inr _ lanes]) (auto simp: put_lane_def put_admission_def)
          qed
        qed
      qed
    qed
  qed
qed

lemma gov_settle_cases:
  assumes "gov_settle_as s admission_id settlement now authority = (s', res)"
  obtains
    (unchanged) "s' = s"
  | (failed) r lane lane' e k where "k = gov_lane_key (gr_operation r) (gr_policy r) (tenant_key authority)"
      "bm_get (gs_admissions s) (tenant_key authority, admission_id) = Some r"
      "validate_settlement_record r settlement now = Inr ()" "gr_settlement r = None"
      "bm_get (gs_lanes s) k = Some lane"
      "apply_settlement lane admission_id r settlement now = (lane', Inl e)" "s' = put_lane k lane' s" "res = Inl e"
  | (settled) r lane lane' k where "k = gov_lane_key (gr_operation r) (gr_policy r) (tenant_key authority)"
      "bm_get (gs_admissions s) (tenant_key authority, admission_id) = Some r"
      "validate_settlement_record r settlement now = Inr ()" "gr_settlement r = None"
      "bm_get (gs_lanes s) k = Some lane"
      "apply_settlement lane admission_id r settlement now = (lane', Inr ())"
      "s' = (put_lane k lane' s)\<lparr>gs_admissions := bm_update (tenant_key authority, admission_id)
         (\<lambda>r. r\<lparr>gr_settlement := Some settlement\<rparr>) (gs_admissions s)\<rparr>" "res = Inr ()"
proof (cases "validate_settlement admission_id now authority")
  case (Inr u)
  note eq = assms [unfolded gov_settle_as_def Let_def Inr sum.case]
  show thesis
  proof (cases "bm_get (gs_admissions s) (tenant_key authority, admission_id)")
    case (Some r)
    define k where "k = gov_lane_key (gr_operation r) (gr_policy r) (tenant_key authority)"
    note eq = eq [unfolded Some option.case, folded k_def]
    show thesis
    proof (cases "validate_settlement_record r settlement now")
      case (Inr w)
      then have ok: "validate_settlement_record r settlement now = Inr ()" by simp
      note eq = eq [unfolded ok sum.case]
      show thesis
      proof (cases "gr_settlement r = None")
        case None: True
        note eq = eq [unfolded None, simplified]
        show thesis
        proof (cases "bm_get (gs_lanes s) k")
          case lane: (Some lane)
          obtain lane' ar where ap: "apply_settlement lane admission_id r settlement now = (lane', ar)" by force
          show thesis
          proof (cases ar)
            case (Inl e)
            with eq lane ap show thesis
              by (intro failed [OF k_def Some ok None lane]) (auto simp: put_lane_def)
          next
            case (Inr x)
            with eq lane ap show thesis
              by (intro settled [OF k_def Some ok None lane]) (auto simp: put_lane_def)
          qed
        qed (rule unchanged, use eq in simp)
      qed (rule unchanged, use eq in simp)
    qed (rule unchanged, use eq in simp)
  qed (rule unchanged, use eq in simp)
next
  case (Inl e)
  have "gov_settle_as s admission_id settlement now authority = (s, Inl e)" by (simp only: gov_settle_as_def Inl sum.case)
  with assms show thesis by (intro unchanged) simp
qed

section \<open>Lanes\<close>

definition lane_ok :: "lane_state \<Rightarrow> bool" where
  "lane_ok l \<longleftrightarrow> (ln_probe_admission_id l = None \<longleftrightarrow> ln_probe_expires_at_ms l = None) \<and>
     (ln_open_until_ms l = None \<longrightarrow> ln_probe_admission_id l = None) \<and>
     (\<forall>u. ln_open_until_ms l = Some u \<longrightarrow> ln_probe_admission_id l \<noteq> None \<longrightarrow> u \<le> ln_last_observed_at_ms l)"

text \<open>How a lane changes: time and epoch do not go back, the policy stays, and the circuit opens only with a new epoch.\<close>

definition lane_evolves :: "lane_state \<Rightarrow> lane_state \<Rightarrow> bool" where
  "lane_evolves l l' \<longleftrightarrow> ln_policy_sha256 l' = ln_policy_sha256 l \<and> ln_circuit_epoch l \<le> ln_circuit_epoch l' \<and>
     ln_last_observed_at_ms l \<le> ln_last_observed_at_ms l' \<and>
     (ln_open_until_ms l' \<noteq> None \<longrightarrow> ln_open_until_ms l \<noteq> None \<or> ln_circuit_epoch l < ln_circuit_epoch l')"

lemma lane_ok_initial [simp]: "lane_ok (initial_lane v)"
  by (simp add: lane_ok_def initial_lane_def)

lemma decide_frame:
  assumes "decide l v = (l', res)"
  shows "ln_policy_sha256 l' = ln_policy_sha256 l" "ln_circuit_epoch l' = ln_circuit_epoch l"
    "ln_open_until_ms l' = ln_open_until_ms l" "ln_consecutive_failures l' = ln_consecutive_failures l"
    "ln_last_observed_at_ms l \<le> ln_last_observed_at_ms l'"
    "is_ok res \<Longrightarrow> ln_last_observed_at_ms l' = va_admitted_at_ms v"
  using assms
  by (auto simp: decide_def decide_open_def decide_closed_def observe_def Let_def split: if_splits option.splits)

lemma decide_evolves: "decide l v = (l', res) \<Longrightarrow> lane_evolves l l'"
  using decide_frame [of l v l' res] by (simp add: lane_evolves_def)

lemma decide_lane_ok: "decide l v = (l', res) \<Longrightarrow> lane_ok l \<Longrightarrow> lane_ok l'"
  by (auto simp: lane_ok_def decide_def decide_open_def decide_closed_def observe_def Let_def
      split: if_splits option.splits)

lemma decide_result:
  assumes "decide l v = (l', Inr (d, epoch))"
  shows "epoch = ln_circuit_epoch l'" "d = GdAllow \<longleftrightarrow> ln_open_until_ms l = None \<and> (\<nexists>t. d = GdRateLimited t)"
    "d = GdAllowProbe \<Longrightarrow> ln_probe_admission_id l' = Some (va_admission_id v)"
  using assms
  by (auto simp: decide_def decide_open_def decide_closed_def observe_def Let_def split: if_splits option.splits)

text \<open>What every settlement keeps of a lane.\<close>

definition lane_kept :: "lane_state \<Rightarrow> lane_state \<Rightarrow> bool" where
  "lane_kept l l' \<longleftrightarrow> ln_window_started_at_ms l' = ln_window_started_at_ms l \<and> ln_window_count l' = ln_window_count l \<and>
     lane_evolves l l' \<and> (lane_ok l \<longrightarrow> lane_ok l')"

lemma lane_kept_refl [simp]: "lane_kept l l"
  by (simp add: lane_kept_def lane_evolves_def)

lemma lane_kept_trans: "lane_kept l m \<Longrightarrow> lane_kept m n \<Longrightarrow> lane_kept l n"
  by (auto simp: lane_kept_def lane_evolves_def)

lemma lane_kept_failures [simp]: "lane_kept l (l\<lparr>ln_consecutive_failures := n\<rparr>)"
  by (auto simp: lane_kept_def lane_evolves_def lane_ok_def)

lemma trip_kept: "trip l now duration = (l', res) \<Longrightarrow> lane_kept l l'"
  using checked_add_less [of "ln_circuit_epoch l" 1]
  by (auto simp: trip_def lane_kept_def lane_ok_def lane_evolves_def Let_def checked_add_le less_imp_le split: option.splits)

lemma settle_probe_kept: "settle_probe l r x now = (l', res) \<Longrightarrow> lane_kept l l'"
  by (cases x)
    (auto simp: settle_probe_def split: prod.splits sum.splits dest!: trip_kept intro: lane_kept_trans,
     auto simp: lane_kept_def lane_evolves_def lane_ok_def)

lemma settle_normal_kept: "settle_normal l r x now = (l', res) \<Longrightarrow> lane_kept l l'"
  by (cases x)
    (auto simp: settle_normal_def Let_def split: option.splits if_splits dest!: trip_kept intro: lane_kept_trans [OF lane_kept_failures])

definition ignores :: "lane_state \<Rightarrow> string \<Rightarrow> admission_record \<Rightarrow> bool" where
  "ignores l i r \<longleftrightarrow> gr_circuit_epoch r \<noteq> ln_circuit_epoch l \<or> gr_decision r = GdAllowProbe \<and> ln_probe_admission_id l \<noteq> Some i"

lemma apply_settlement_eq:
  "apply_settlement l i r x now =
     (if ignores l i r then (l, Inr ())
      else let t = max now (ln_last_observed_at_ms l); m = l\<lparr>ln_last_observed_at_ms := t\<rparr> in
        if gr_decision r = GdAllowProbe then settle_probe m r x t else settle_normal m r x t)"
  by (auto simp: apply_settlement_def ignores_def Let_def)

lemma apply_settlement_kept: "apply_settlement l i r x now = (l', res) \<Longrightarrow> lane_kept l l'"
proof -
  assume *: "apply_settlement l i r x now = (l', res)"
  let ?m = "l\<lparr>ln_last_observed_at_ms := max now (ln_last_observed_at_ms l)\<rparr>"
  have "lane_kept l ?m" by (auto simp: lane_kept_def lane_ok_def lane_evolves_def le_max_iff_disj)
  with * show ?thesis
    by (auto simp: apply_settlement_eq Let_def split: if_splits dest!: settle_probe_kept settle_normal_kept intro: lane_kept_trans)
qed

section \<open>The invariant of a governor\<close>

definition admission_ok :: "governor_state \<Rightarrow> string \<times> string \<Rightarrow> admission_record \<Rightarrow> bool" where
  "admission_ok s a r \<longleftrightarrow> (\<exists>l. bm_get (gs_lanes s) (gov_lane_key (gr_operation r) (gr_policy r) (fst a)) = Some l \<and>
     ln_policy_sha256 l = gr_policy_sha256 r \<and> gr_circuit_epoch r \<le> ln_circuit_epoch l \<and>
     (gr_decision r = GdAllow \<longrightarrow> ln_open_until_ms l \<noteq> None \<longrightarrow> gr_circuit_epoch r < ln_circuit_epoch l))"

definition governor_inv :: "governor_state \<Rightarrow> bool" where
  "governor_inv s \<longleftrightarrow> governor_wf s \<and> bm_all (\<lambda>_. lane_ok) (gs_lanes s) \<and> bm_all (admission_ok s) (gs_admissions s)"

lemma admission_ok_put_lane:
  assumes "admission_ok s a r" and "\<And>l0. bm_get (gs_lanes s) k = Some l0 \<Longrightarrow> lane_evolves l0 l"
  shows "admission_ok (put_lane k l s) a r"
  using assms by (auto simp: admission_ok_def bm_get_insert lane_evolves_def)

lemma admission_ok_lanes: "gs_lanes s = gs_lanes t \<Longrightarrow> admission_ok s = admission_ok t"
  by (simp add: admission_ok_def fun_eq_iff)

lemma governor_inv_put_lane:
  assumes "governor_inv s" and "lane_ok l" and "\<And>l0. bm_get (gs_lanes s) k = Some l0 \<Longrightarrow> lane_evolves l0 l"
  shows "governor_inv (put_lane k l s)"
  using assms unfolding governor_inv_def by (auto intro: bm_all_insert bm_all_mono admission_ok_put_lane)

lemma governor_inv_put_admission:
  assumes "governor_inv s" and "admission_ok s a r"
  shows "governor_inv (put_admission a r s)"
  using assms unfolding governor_inv_def
  by (simp add: bm_all_insert admission_ok_lanes [of "put_admission a r s" s])

lemma governor_inv_settlement:
  assumes "governor_inv s"
  shows "governor_inv (s\<lparr>gs_admissions := bm_update a (\<lambda>r. r\<lparr>gr_settlement := x\<rparr>) (gs_admissions s)\<rparr>)"
proof -
  let ?s = "s\<lparr>gs_admissions := bm_update a (\<lambda>r. r\<lparr>gr_settlement := x\<rparr>) (gs_admissions s)\<rparr>"
  have "bm_all (admission_ok s) (gs_admissions ?s)"
    using assms unfolding governor_inv_def by (auto intro!: bm_all_update simp: admission_ok_def)
  with assms show ?thesis
    by (simp add: governor_inv_def governor_wf_def admission_ok_lanes [of ?s s])
qed

lemma governor_inv_prune [simp]: "governor_inv s \<Longrightarrow> governor_inv (prune_memory s t)"
  using admission_ok_lanes [of "prune_memory s t" s]
  by (simp add: governor_inv_def) (simp add: governor_wf_def prune_memory_def bm_all_filter)

lemma lane_for_evolves:
  "decide (lane_for s v) v = (l, res) \<Longrightarrow> bm_get (gs_lanes s) (va_lane v) = Some l0 \<Longrightarrow> lane_evolves l0 l"
  by (simp add: lane_for_def decide_evolves)

lemma lane_for_ok: "governor_inv s \<Longrightarrow> lane_ok (lane_for s v)"
  by (auto simp: lane_for_def governor_inv_def split: option.split dest: bm_allD)

lemma validated_new_ok:
  assumes "validated_new env request authority = Inr v"
  shows "valid_authority authority" "policy_validate env (va_policy v) = Inr ()"
    "policy_digest env (va_policy v) = Inr (va_policy_sha256 v)" "va_admitted_at_ms v \<noteq> 0"
    "va_lane v = gov_lane_key (va_operation v) (va_policy v) (tenant_key authority)"
    "gov_validate_operation (va_operation v) = Inr ()" "ef_validate_identity (va_admission_id v) = Inr ()"
    "va_policy v = gq_policy request" "va_admission_id v = gq_admission_id request" "va_operation v = gq_operation request"
    "va_admitted_at_ms v = gq_admitted_at_ms request"
  using assms
  by (auto simp: validated_new_def and_then_eq_Inr map_err_eq_Inr authority_validate_current_ok ef_validate_application_time_def
      split: if_splits)

lemma record_of_admission:
  assumes "gov_admission_record v epoch d = Inr r"
  shows "gr_operation r = va_operation v" "gr_policy r = va_policy v" "gr_policy_sha256 r = va_policy_sha256 v"
    "gr_circuit_epoch r = epoch" "gr_decision r = d" "gr_settlement r = None" "gr_admitted_at_ms r = va_admitted_at_ms v"
    "unat (gr_expires_at_ms r) = unat (va_admitted_at_ms v) + unat (gp_admission_retention_ms (va_policy v))"
  using assms by (auto simp: gov_admission_record_def and_then_eq_Inr ok_or_eq_Inr checked_add_Some)

lemma admit_validated_inv:
  assumes inv: "governor_inv s0" and admit: "admit_validated s0 v = (s', res)"
    and lane: "va_lane v = gov_lane_key (va_operation v) (va_policy v) tenant"
  shows "governor_inv s'"
proof -
  have wf: "governor_wf s0" using inv by (simp add: governor_inv_def)
  from admit wf show ?thesis
  proof (cases rule: admit_validated_cases)
    case (failed s l e)
    then obtain dr where dec: "decide (lane_for s v) v = (l, dr)" by (metis prod.collapse)
    have "governor_inv s" using inv failed by simp
    with dec show ?thesis
      unfolding failed(4) by (intro governor_inv_put_lane decide_lane_ok [OF dec] lane_for_ok lane_for_evolves [OF dec])
  next
    case (recorded s l d epoch r)
    have "governor_inv s" using inv recorded by simp
    with recorded(6) have put: "governor_inv (put_lane (va_lane v) l s)"
      by (intro governor_inv_put_lane decide_lane_ok [OF recorded(6)] lane_for_ok lane_for_evolves [OF recorded(6)])
    note r = record_of_admission [OF recorded(7)]
    have "admission_ok (put_lane (va_lane v) l s) (admission_key v) r"
      using decide_frame [OF recorded(6)] decide_result [OF recorded(6)] recorded(3)
      by (simp add: admission_ok_def r lane admission_key_def gov_lane_key_def bm_get_insert)
    with put show ?thesis unfolding recorded(4) by (rule governor_inv_put_admission)
  qed (use inv in simp_all)
qed

lemma gov_settle_inv:
  assumes inv: "governor_inv s" and settle: "gov_settle_as s i x now authority = (s', res)"
  shows "governor_inv s'"
proof -
  have settled_lane: "governor_inv (put_lane k l' s)"
    if "bm_get (gs_lanes s) k = Some l" "apply_settlement l i r x now = (l', res)" for k l l' r res
  proof -
    have "lane_ok l" using inv that(1) by (auto simp: governor_inv_def dest: bm_allD)
    with inv that(1) apply_settlement_kept [OF that(2)] show ?thesis
      by (intro governor_inv_put_lane) (auto simp: lane_kept_def)
  qed
  from settle show ?thesis
  proof (cases rule: gov_settle_cases)
  case (failed r l l' e k)
  then show ?thesis using settled_lane by simp
next
  case (settled r l l' k)
  with settled_lane [OF settled(5,6)] show ?thesis
    using governor_inv_settlement [of "put_lane k l' s" "(tenant_key authority, i)" "Some x"] by simp
  qed (use inv in simp)
qed

lemma gov_call_inv: "governor_inv s \<Longrightarrow> governor_inv (gov_call env s c)"
proof (cases c)
  case (AdmitCall request authority)
  assume inv: "governor_inv s"
  show ?thesis
  proof (cases "validated_new env request authority")
    case (Inr v)
    obtain s' res where ad: "admit_validated s v = (s', res)" by force
    have "governor_inv s'" by (rule admit_validated_inv [OF inv ad validated_new_ok(5) [OF Inr]])
    then show ?thesis by (simp add: AdmitCall gov_admit_as_def Inr ad)
  qed (simp add: AdmitCall gov_admit_as_def inv)
next
  case (SettleCall i x now authority)
  assume "governor_inv s"
  then show ?thesis
    using gov_settle_inv [of s i x now authority] by (simp add: SettleCall split: prod.split) (metis prod.collapse)
qed

lemma governor_inv_new [simp]: "governor_inv governor_new"
  by (simp add: governor_inv_def governor_wf_def governor_new_def bm_wf_def bm_get_def)

lemma gov_exec_inv: "governor_inv s \<Longrightarrow> governor_inv (fst (gov_exec env s calls))"
  by (induction calls rule: rev_induct) (simp_all add: gov_exec_snoc gov_call_inv)

section \<open>The rate of a lane\<close>

lemma fixed_window_start_nat: "unat (fixed_window_start now window) = unat window * (unat now div unat window)"
proof -
  have "now mod window \<le> now" by (simp add: word_le_nat_alt unat_mod)
  then have "unat (fixed_window_start now window) = unat now - unat now mod unat window"
    by (simp only: fixed_window_start_def unat_sub unat_mod)
  then show ?thesis by (simp only: minus_mod_eq_mult_div)
qed

lemma fixed_window_start_mono:
  "s \<le> t \<Longrightarrow> fixed_window_start s window \<le> fixed_window_start t window"
  by (simp add: word_le_nat_alt fixed_window_start_nat div_le_mono)

definition allowed_in :: "governor_policy \<Rightarrow> lane_key \<Rightarrow> u64 \<Rightarrow> validated_admission \<times> admission_decision \<Rightarrow> bool" where
  "allowed_in p k w = (\<lambda>(v, d). va_lane v = k \<and> va_policy v = p \<and> d = GdAllow \<and>
     fixed_window_start (va_admitted_at_ms v) (gp_window_ms p) = w)"

definition allowed_count ::
  "governor_policy \<Rightarrow> lane_key \<Rightarrow> u64 \<Rightarrow> (validated_admission \<times> admission_decision) list \<Rightarrow> nat" where
  "allowed_count p k w log = length (filter (allowed_in p k w) log)"

lemma allowed_count_simps [simp]:
  "allowed_count p k w [] = 0"
  "allowed_count p k w (log @ log') = allowed_count p k w log + allowed_count p k w log'"
  "allowed_count p k w [e] = (if allowed_in p k w e then 1 else 0)"
  by (simp_all add: allowed_count_def)

text \<open>
  The log of admissions against the counters of a lane: the current window is counted, and no admission is
  from a later one.
\<close>

definition lane_rate ::
  "governor_policy \<Rightarrow> string \<Rightarrow> lane_key \<Rightarrow> lane_state \<Rightarrow> (validated_admission \<times> admission_decision) list \<Rightarrow> bool" where
  "lane_rate p digest k l log \<longleftrightarrow>
     (if ln_policy_sha256 l = digest then
        allowed_count p k (ln_window_started_at_ms l) log \<le> unat (ln_window_count l) \<and>
        ln_window_started_at_ms l \<le> fixed_window_start (ln_last_observed_at_ms l) (gp_window_ms p) \<and>
        (\<forall>w > ln_window_started_at_ms l. allowed_count p k w log = 0)
      else \<forall>w. allowed_count p k w log = 0)"

definition rate_inv ::
  "governor_policy \<Rightarrow> string \<Rightarrow> lane_key \<Rightarrow> governor_state \<Rightarrow> (validated_admission \<times> admission_decision) list \<Rightarrow> bool" where
  "rate_inv p digest k s log \<longleftrightarrow>
     (\<forall>w. allowed_count p k w log \<le> unat (gp_max_dispatches_per_window p)) \<and>
     (case bm_get (gs_lanes s) k of None \<Rightarrow> \<forall>w. allowed_count p k w log = 0 | Some l \<Rightarrow> lane_rate p digest k l log)"

lemma observe_simps [simp]:
  "ln_window_started_at_ms (observe l now) = ln_window_started_at_ms l" "ln_window_count (observe l now) = ln_window_count l"
  "ln_last_observed_at_ms (observe l now) = now" "ln_open_until_ms (observe l now) = ln_open_until_ms l"
  "ln_circuit_epoch (observe l now) = ln_circuit_epoch l"
  by (simp_all add: observe_def Let_def)

lemma decide_open_window:
  assumes "decide_open l v u = (l', res)"
  shows "ln_window_started_at_ms l' = ln_window_started_at_ms l" "ln_window_count l' = ln_window_count l"
    "ln_last_observed_at_ms l' = ln_last_observed_at_ms l" "res \<noteq> Inr (GdAllow, epoch)"
  using assms by (auto simp: decide_open_def Let_def split: if_splits option.splits)

lemma decide_closed_window:
  assumes "decide_closed l v = (l', res)"
  shows "ln_window_started_at_ms l' = fixed_window_start (va_admitted_at_ms v) (gp_window_ms (va_policy v))"
    "ln_last_observed_at_ms l' = ln_last_observed_at_ms l"
    "ln_window_started_at_ms l' = ln_window_started_at_ms l \<Longrightarrow> unat (ln_window_count l) \<le> unat (ln_window_count l')"
    "res = Inr (GdAllow, epoch) \<Longrightarrow>
       unat (ln_window_count l') = Suc (if ln_window_started_at_ms l' = ln_window_started_at_ms l then unat (ln_window_count l) else 0) \<and>
       ln_window_count l' \<le> gp_max_dispatches_per_window (va_policy v)"
  using assms
  by (auto simp: decide_closed_def Let_def checked_add_Some word_less_nat_alt word_le_nat_alt not_le
      split: if_splits option.splits)

lemma decide_window:
  assumes dec: "decide l v = (l', res)"
    and start: "ln_window_started_at_ms l \<le> fixed_window_start (ln_last_observed_at_ms l) (gp_window_ms (va_policy v))"
  shows "ln_window_started_at_ms l \<le> ln_window_started_at_ms l'"
    "ln_window_started_at_ms l' \<le> fixed_window_start (ln_last_observed_at_ms l') (gp_window_ms (va_policy v))"
    "ln_window_started_at_ms l' = ln_window_started_at_ms l \<Longrightarrow> unat (ln_window_count l) \<le> unat (ln_window_count l')"
    "res = Inr (GdAllow, epoch) \<Longrightarrow> ln_window_started_at_ms l' = fixed_window_start (va_admitted_at_ms v) (gp_window_ms (va_policy v)) \<and>
       unat (ln_window_count l') = Suc (if ln_window_started_at_ms l' = ln_window_started_at_ms l then unat (ln_window_count l) else 0) \<and>
       ln_window_count l' \<le> gp_max_dispatches_per_window (va_policy v)"
proof -
  let ?now = "va_admitted_at_ms v" and ?w = "gp_window_ms (va_policy v)"
  consider (behind) "?now < ln_last_observed_at_ms l" "l' = l" "\<not> is_ok res"
    | (opened) u where "decide_open (observe l ?now) v u = (l', res)" "ln_last_observed_at_ms l \<le> ?now"
    | (closed) "decide_closed (observe l ?now) v = (l', res)" "ln_last_observed_at_ms l \<le> ?now"
    using dec by (auto simp: decide_def Let_def not_less split: if_splits option.splits)
  then have "ln_window_started_at_ms l \<le> ln_window_started_at_ms l' \<and>
      ln_window_started_at_ms l' \<le> fixed_window_start (ln_last_observed_at_ms l') ?w \<and>
      (ln_window_started_at_ms l' = ln_window_started_at_ms l \<longrightarrow> unat (ln_window_count l) \<le> unat (ln_window_count l')) \<and>
      (res = Inr (GdAllow, epoch) \<longrightarrow> ln_window_started_at_ms l' = fixed_window_start ?now ?w \<and>
        unat (ln_window_count l') = Suc (if ln_window_started_at_ms l' = ln_window_started_at_ms l then unat (ln_window_count l) else 0) \<and>
        ln_window_count l' \<le> gp_max_dispatches_per_window (va_policy v))"
  proof cases
    case behind
    with start show ?thesis by auto
  next
    case opened
    have "ln_window_started_at_ms l \<le> fixed_window_start ?now ?w"
      using start fixed_window_start_mono [OF opened(2)] by (rule order_trans)
    with decide_open_window [OF opened(1)] show ?thesis by simp
  next
    case closed
    have "ln_window_started_at_ms l \<le> fixed_window_start ?now ?w"
      using start fixed_window_start_mono [OF closed(2)] by (rule order_trans)
    with decide_closed_window [OF closed(1)] show ?thesis by simp
  qed
  then show "ln_window_started_at_ms l \<le> ln_window_started_at_ms l'"
    "ln_window_started_at_ms l' \<le> fixed_window_start (ln_last_observed_at_ms l') ?w"
    "ln_window_started_at_ms l' = ln_window_started_at_ms l \<Longrightarrow> unat (ln_window_count l) \<le> unat (ln_window_count l')"
    "res = Inr (GdAllow, epoch) \<Longrightarrow> ln_window_started_at_ms l' = fixed_window_start ?now ?w \<and>
       unat (ln_window_count l') = Suc (if ln_window_started_at_ms l' = ln_window_started_at_ms l then unat (ln_window_count l) else 0) \<and>
       ln_window_count l' \<le> gp_max_dispatches_per_window (va_policy v)"
    by blast+
qed

lemma lane_rate_kept: "lane_rate p digest k l log \<Longrightarrow> lane_kept l l' \<Longrightarrow> lane_rate p digest k l' log"
  using fixed_window_start_mono [of "ln_last_observed_at_ms l" "ln_last_observed_at_ms l'" "gp_window_ms p"]
  by (auto simp: lane_rate_def lane_kept_def lane_evolves_def intro: order_trans)

text \<open>One decision in a lane: what it allows is counted.\<close>

lemma lane_rate_decide:
  assumes rate: "lane_rate p digest (va_lane v) l log" and dec: "decide l v = (l', res)"
    and max: "\<forall>w. allowed_count p (va_lane v) w log \<le> unat (gp_max_dispatches_per_window p)"
    and new: "new = [] \<or> (\<exists>d epoch. res = Inr (d, epoch) \<and> new = [(v, d)])"
    and policy: "ln_policy_sha256 l = digest \<longleftrightarrow> va_policy v = p"
  shows "lane_rate p digest (va_lane v) l' (log @ new) \<and>
    (\<forall>w. allowed_count p (va_lane v) w (log @ new) \<le> unat (gp_max_dispatches_per_window p))"
proof (cases "ln_policy_sha256 l = digest")
  case False
  with policy new have "allowed_count p (va_lane v) w new = 0" for w
    by (auto simp: allowed_in_def)
  with False rate max decide_frame(1) [OF dec] show ?thesis by (simp add: lane_rate_def)
next
  case True
  with policy have p: "va_policy v = p" by simp
  let ?k = "va_lane v" and ?b = "ln_window_started_at_ms l" and ?b' = "ln_window_started_at_ms l'"
  from rate True have now: "allowed_count p ?k ?b log \<le> unat (ln_window_count l)"
    and start: "?b \<le> fixed_window_start (ln_last_observed_at_ms l) (gp_window_ms (va_policy v))"
    and later: "\<And>w. w > ?b \<Longrightarrow> allowed_count p ?k w log = 0"
    by (simp_all add: lane_rate_def p)
  note w = decide_window [OF dec start, unfolded p]
  have current: "allowed_count p ?k ?b' log \<le> (if ?b' = ?b then unat (ln_window_count l) else 0)"
    using now later [of ?b'] w(1) by (auto simp: order_le_less)
  have "allowed_count p ?k ?b' (log @ new) \<le> unat (ln_window_count l') \<and>
      (\<forall>w. w \<noteq> ?b' \<longrightarrow> allowed_count p ?k w new = 0) \<and>
      allowed_count p ?k ?b' (log @ new) \<le> unat (gp_max_dispatches_per_window p)"
  proof (cases "\<exists>epoch. res = Inr (GdAllow, epoch) \<and> new = [(v, GdAllow)]")
    case allow: True
    then have "?b' = fixed_window_start (va_admitted_at_ms v) (gp_window_ms p) \<and>
        unat (ln_window_count l') = Suc (if ?b' = ?b then unat (ln_window_count l) else 0) \<and>
        ln_window_count l' \<le> gp_max_dispatches_per_window p" using w(4) by blast
    with allow current show ?thesis
      by (auto simp: allowed_in_def p word_le_nat_alt split: if_splits)
  next
    case False
    with new have "allowed_count p ?k w' new = 0" for w' by (auto simp: allowed_in_def split: if_splits)
    moreover have "allowed_count p ?k ?b' log \<le> unat (ln_window_count l')"
      using current w(3) by (auto split: if_splits)
    ultimately show ?thesis using max by simp
  qed
  moreover have "allowed_count p ?k w' log = 0" if "w' > ?b'" for w'
    using later [of w'] w(1) that by simp
  ultimately show ?thesis
    using max w(2) decide_frame(1) [OF dec] True by (auto simp: lane_rate_def p) (metis add.right_neutral)
qed

lemma lane_rate_initial:
  "\<forall>w. allowed_count p (va_lane v) w log = 0 \<Longrightarrow> (va_policy_sha256 v = digest \<Longrightarrow> va_policy v = p) \<Longrightarrow>
   lane_rate p digest (va_lane v) (initial_lane v) log"
  by (simp add: lane_rate_def initial_lane_def)

lemma rate_inv_other:
  assumes "rate_inv p digest k s log" and "bm_get (gs_lanes s') k = bm_get (gs_lanes s) k"
    and "new = [] \<or> (\<exists>v d. new = [(v, d)] \<and> va_lane v \<noteq> k)"
  shows "rate_inv p digest k s' (log @ new)"
proof -
  have "allowed_count p k w new = 0" for w using assms(3) by (auto simp: allowed_in_def)
  with assms(1,2) show ?thesis by (simp add: rate_inv_def lane_rate_def split: option.splits)
qed

lemma admitted_cases:
  assumes "admit_validated s v = (s', res)" and "validated_new env request authority = Inr v"
  shows "admitted env s (AdmitCall request authority) =
    (if bm_contains (gs_admissions (prune_memory s (va_admitted_at_ms v))) (admission_key v) then []
     else case res of Inl _ \<Rightarrow> [] | Inr d \<Rightarrow> [(v, d)])"
  using assms by (simp split: sum.splits)

lemma rate_inv_admit:
  assumes rate: "rate_inv p digest k s0 log" and wf: "governor_wf s0"
    and v: "validated_new env request authority = Inr v" and p: "policy_digest env p = Inr digest"
    and same: "policy_digest env (gq_policy request) = Inr digest \<longrightarrow> gq_policy request = p"
  shows "rate_inv p digest k (gov_call env s0 (AdmitCall request authority)) (log @ admitted env s0 (AdmitCall request authority))"
proof -
  obtain s' res where ad: "admit_validated s0 v = (s', res)" by force
  have call: "gov_call env s0 (AdmitCall request authority) = s'" by (simp add: gov_admit_as_def v ad)
  note new = admitted_cases [OF ad v]
  have policy: "va_policy_sha256 v = digest \<longleftrightarrow> va_policy v = p"
    using validated_new_ok [OF v] p same by auto
  have lane: "rate_inv p digest k s' (log @ new)"
    if s: "gs_lanes s = gs_lanes s0" and dec: "decide (lane_for s v) v = (l, dr)"
      and sha: "ln_policy_sha256 (lane_for s v) = va_policy_sha256 v" and s': "gs_lanes s' = bm_insert (va_lane v) l (gs_lanes s)"
      and new: "new = [] \<or> (\<exists>d epoch. dr = Inr (d, epoch) \<and> new = [(v, d)])" for s l dr new
  proof (cases "va_lane v = k")
    case True
    have "lane_rate p digest (va_lane v) (lane_for s v) log"
      using rate policy lane_rate_initial [of p v log digest] unfolding lane_for_def rate_inv_def s True
      by (auto split: option.splits)
    moreover have "\<forall>w. allowed_count p (va_lane v) w log \<le> unat (gp_max_dispatches_per_window p)"
      using rate True by (simp add: rate_inv_def)
    ultimately have "lane_rate p digest (va_lane v) l (log @ new) \<and>
        (\<forall>w. allowed_count p (va_lane v) w (log @ new) \<le> unat (gp_max_dispatches_per_window p))"
      using sha policy by (intro lane_rate_decide [OF _ dec _ new]) auto
    then show ?thesis unfolding rate_inv_def s' by (simp add: True bm_get_insert)
  next
    case False
    with rate new show ?thesis by (intro rate_inv_other [OF rate]) (auto simp: s' s bm_get_insert)
  qed
  from ad wf show ?thesis
  proof (cases rule: admit_validated_cases)
    case (repeated s r)
    then show ?thesis unfolding call new using rate_inv_other [OF rate, of s' "[]"] by (simp add: bm_contains_def)
  next
    case (refused s e)
    then show ?thesis unfolding call new using rate_inv_other [OF rate, of s' "[]"] by simp
  next
    case (failed s l e)
    then obtain dr where "decide (lane_for s v) v = (l, dr)" by (metis prod.collapse)
    with failed show ?thesis unfolding call new using lane [of s l dr "[]"] by simp
  next
    case (recorded s l d epoch r)
    then show ?thesis unfolding call new using lane [of s l "Inr (d, epoch)" "[(v, d)]"] by simp
  qed
qed

lemma rate_inv_settle:
  assumes rate: "rate_inv p digest k s log"
  shows "rate_inv p digest k (gov_call env s (SettleCall i x now authority)) log"
proof -
  obtain s' res where st: "gov_settle_as s i x now authority = (s', res)" by force
  have lane: "rate_inv p digest k s' log"
    if "bm_get (gs_lanes s) k0 = Some l" "apply_settlement l i r x now = (l', ar)" "gs_lanes s' = bm_insert k0 l' (gs_lanes s)"
    for k0 l l' r ar
    using rate that lane_rate_kept [OF _ apply_settlement_kept [OF that(2)], of p digest k log]
    by (auto simp: rate_inv_def bm_get_insert split: option.splits)
  from st have "rate_inv p digest k s' log"
    by (cases rule: gov_settle_cases) (use rate lane in \<open>auto simp: put_lane_def\<close>)
  then show ?thesis by (simp add: st)
qed

section \<open>The circuit\<close>

text \<open>
  A barrier \<open>b\<close> of a lane: it has reached \<open>b\<close> already, or its circuit is open until \<open>b\<close> without a probe, or the probe \<open>a\<close> is out
  until \<open>b\<close>.
\<close>

definition blocks :: "u64 \<Rightarrow> string option \<Rightarrow> lane_state \<Rightarrow> bool" where
  "blocks b a l \<longleftrightarrow> b \<le> ln_last_observed_at_ms l \<or>
     (\<exists>u. ln_open_until_ms l = Some u \<and> ln_probe_admission_id l = a \<and>
       (case a of None \<Rightarrow> u = b \<and> ln_probe_expires_at_ms l = None
        | Some _ \<Rightarrow> u \<le> ln_last_observed_at_ms l \<and> ln_probe_expires_at_ms l = Some b))"

lemma blocks_decide:
  assumes "blocks b a l" and "decide l v = (l', res)"
  shows "blocks b a l' \<and> (\<forall>d epoch. res = Inr (d, epoch) \<longrightarrow> va_admitted_at_ms v < b \<longrightarrow> (\<exists>t. d = GdCircuitOpen t))"
proof (cases "va_admitted_at_ms v < ln_last_observed_at_ms l")
  case True
  with assms show ?thesis by (auto simp: decide_def Let_def)
next
  case clock: False
  show ?thesis
  proof (cases "b \<le> va_admitted_at_ms v")
    case True
    moreover have "ln_last_observed_at_ms l' = va_admitted_at_ms v"
      using assms(2) clock
      by (auto simp: decide_def decide_open_def decide_closed_def observe_def Let_def split: if_splits option.splits)
    ultimately show ?thesis by (auto simp: blocks_def)
  next
    case before: False
    with clock assms(1) obtain u where "ln_open_until_ms l = Some u" "ln_probe_admission_id l = a"
      "case a of None \<Rightarrow> u = b \<and> ln_probe_expires_at_ms l = None
        | Some _ \<Rightarrow> u \<le> ln_last_observed_at_ms l \<and> ln_probe_expires_at_ms l = Some b"
      by (auto simp: blocks_def)
    with clock before assms(2) show ?thesis
      by (auto simp: blocks_def decide_def decide_open_def observe_def Let_def not_less split: if_splits option.splits)
  qed
qed

lemma blocks_settlement:
  assumes "blocks b a l" and "apply_settlement l i r x now = (l', res)" and "a \<noteq> Some i"
    and "gr_decision r = GdAllow \<or> gr_decision r = GdAllowProbe"
    and "gr_decision r = GdAllow \<Longrightarrow> ln_open_until_ms l \<noteq> None \<Longrightarrow> gr_circuit_epoch r < ln_circuit_epoch l"
  shows "blocks b a l'"
proof (cases "b \<le> ln_last_observed_at_ms l")
  case True
  with apply_settlement_kept [OF assms(2)] show ?thesis by (auto simp: blocks_def lane_kept_def lane_evolves_def)
next
  case False
  with assms(1,3-5) have "ignores l i r" by (auto simp: blocks_def ignores_def)
  with assms(1,2) show ?thesis by (simp add: apply_settlement_eq)
qed

definition lane_blocked :: "u64 \<Rightarrow> string option \<Rightarrow> lane_key \<Rightarrow> governor_state \<Rightarrow> bool" where
  "lane_blocked b a k s \<longleftrightarrow> (\<exists>l. bm_get (gs_lanes s) k = Some l \<and> blocks b a l)"

definition denied_before :: "u64 \<Rightarrow> lane_key \<Rightarrow> (validated_admission \<times> admission_decision) list \<Rightarrow> bool" where
  "denied_before b k log \<longleftrightarrow> (\<forall>(v, d)\<in>set log. va_lane v = k \<longrightarrow> va_admitted_at_ms v < b \<longrightarrow> (\<exists>t. d = GdCircuitOpen t))"

lemma lane_blocked_admit:
  assumes blocked: "lane_blocked b a k s0" and wf: "governor_wf s0" and v: "validated_new env request authority = Inr v"
  shows "lane_blocked b a k (gov_call env s0 (AdmitCall request authority)) \<and>
    denied_before b k (admitted env s0 (AdmitCall request authority))"
proof -
  obtain s' res where ad: "admit_validated s0 v = (s', res)" by force
  have call: "gov_call env s0 (AdmitCall request authority) = s'" by (simp add: gov_admit_as_def v ad)
  note new = admitted_cases [OF ad v]
  have lane: "lane_blocked b a k s' \<and> denied_before b k new"
    if s: "gs_lanes s = gs_lanes s0" and dec: "decide (lane_for s v) v = (l, dr)"
      and s': "gs_lanes s' = bm_insert (va_lane v) l (gs_lanes s)"
      and new: "new = [] \<or> (\<exists>d epoch. dr = Inr (d, epoch) \<and> new = [(v, d)])" for s l dr new
  proof (cases "va_lane v = k")
    case True
    with blocked s have "blocks b a (lane_for s v)" by (auto simp: lane_blocked_def lane_for_def)
    from blocks_decide [OF this dec] new show ?thesis
      by (auto simp: lane_blocked_def denied_before_def s' True bm_get_insert)
  next
    case False
    with blocked new show ?thesis by (auto simp: lane_blocked_def denied_before_def s' s bm_get_insert)
  qed
  have same: "lane_blocked b a k s'" if "gs_lanes s' = gs_lanes s0" using blocked that by (simp add: lane_blocked_def)
  from ad wf show ?thesis
  proof (cases rule: admit_validated_cases)
    case (repeated s r)
    then show ?thesis unfolding call new using same by (simp add: bm_contains_def denied_before_def)
  next
    case (refused s e)
    then show ?thesis unfolding call new using same by (simp add: denied_before_def)
  next
    case (failed s l e)
    then obtain dr where "decide (lane_for s v) v = (l, dr)" by (metis prod.collapse)
    with failed show ?thesis unfolding call new using lane [of s l dr "[]"] by simp
  next
    case (recorded s l d epoch r)
    then show ?thesis unfolding call new using lane [of s l "Inr (d, epoch)" "[(v, d)]"] by simp
  qed
qed

lemma lane_blocked_settle:
  assumes blocked: "lane_blocked b a k s" and inv: "governor_inv s"
    and other: "tenant_key authority = fst k \<longrightarrow> a \<noteq> Some i"
  shows "lane_blocked b a k (gov_call env s (SettleCall i x now authority))"
proof -
  obtain s' res where st: "gov_settle_as s i x now authority = (s', res)" by force
  have lane: "lane_blocked b a k s'"
    if k0: "k0 = gov_lane_key (gr_operation r) (gr_policy r) (tenant_key authority)"
      and r: "bm_get (gs_admissions s) (tenant_key authority, i) = Some r" "validate_settlement_record r x now = Inr ()"
      and l: "bm_get (gs_lanes s) k0 = Some l" "apply_settlement l i r x now = (l', ar)"
      and s': "gs_lanes s' = bm_insert k0 l' (gs_lanes s)" for k0 l l' r ar
  proof (cases "k = k0")
    case True
    have "admission_ok s (tenant_key authority, i) r" using inv r(1) by (auto simp: governor_inv_def dest: bm_allD)
    with k0 l(1) have "gr_decision r = GdAllow \<Longrightarrow> ln_open_until_ms l \<noteq> None \<Longrightarrow> gr_circuit_epoch r < ln_circuit_epoch l"
      by (auto simp: admission_ok_def)
    moreover have "blocks b a l" using blocked True l(1) by (simp add: lane_blocked_def)
    moreover have "a \<noteq> Some i" using other True k0 by (simp add: gov_lane_key_def)
    moreover have "gr_decision r = GdAllow \<or> gr_decision r = GdAllowProbe"
      using r(2) by (simp add: validate_settlement_record_def split: if_splits)
    ultimately have "blocks b a l'" by (intro blocks_settlement [OF _ l(2)]) auto
    then show ?thesis by (simp add: lane_blocked_def s' True bm_get_insert)
  next
    case False
    with blocked show ?thesis by (simp add: lane_blocked_def s' bm_get_insert)
  qed
  from st have "lane_blocked b a k s'"
  proof (cases rule: gov_settle_cases)
    case (failed r l l' e k0)
    then show ?thesis by (intro lane [OF failed(1-3,5,6)]) simp
  next
    case (settled r l l' k0)
    then show ?thesis by (intro lane [OF settled(1-3,5,6)]) simp
  qed (use blocked in simp)
  then show ?thesis by (simp add: st)
qed

lemma lane_blocked_run:
  assumes "lane_blocked b a k s" and "governor_inv s"
    and "\<forall>c\<in>set calls. \<forall>i x now authority. c = SettleCall i x now authority \<longrightarrow> tenant_key authority = fst k \<longrightarrow> a \<noteq> Some i"
  shows "lane_blocked b a k (fst (gov_exec env s calls)) \<and> denied_before b k (snd (gov_exec env s calls))"
  using assms(3)
proof (induction calls rule: rev_induct)
  case Nil
  show ?case using assms(1) by (simp add: denied_before_def)
next
  case (snoc c calls)
  let ?s = "fst (gov_exec env s calls)"
  have IH: "lane_blocked b a k ?s" "denied_before b k (snd (gov_exec env s calls))" using snoc by auto
  have inv: "governor_inv ?s" using assms(2) by (rule gov_exec_inv)
  have "lane_blocked b a k (gov_call env ?s c) \<and> denied_before b k (admitted env ?s c)"
  proof (cases c)
    case (AdmitCall request authority)
    show ?thesis
    proof (cases "validated_new env request authority")
      case (Inl e)
      then show ?thesis using IH(1) by (simp add: AdmitCall gov_admit_as_def denied_before_def)
    next
      case (Inr v)
      show ?thesis unfolding AdmitCall
        using lane_blocked_admit [OF IH(1) _ Inr] inv by (simp only: governor_inv_def)
    qed
  next
    case (SettleCall i x now authority)
    have "lane_blocked b a k (gov_call env ?s c)"
      unfolding SettleCall by (rule lane_blocked_settle [OF IH(1) inv]) (use snoc.prems SettleCall in auto)
    then show ?thesis by (simp add: SettleCall denied_before_def)
  qed
  with IH(2) show ?case by (auto simp: gov_exec_snoc denied_before_def)
qed

section \<open>Repetition\<close>

text \<open>A record that is not yet expired stays, and of its fields only an absent settlement can change.\<close>

definition record_kept :: "admission_record \<Rightarrow> admission_record \<Rightarrow> bool" where
  "record_kept r r' \<longleftrightarrow> r' = r \<or> gr_settlement r = None \<and> (\<exists>x. r' = r\<lparr>gr_settlement := x\<rparr>)"

lemma record_kept_refl [simp]: "record_kept r r"
  by (simp add: record_kept_def)

lemma record_kept_trans: "record_kept r r' \<Longrightarrow> record_kept r' r'' \<Longrightarrow> record_kept r r''"
  by (auto simp: record_kept_def)

lemma record_kept_same:
  assumes "record_kept r r'"
  shows "gr_operation r' = gr_operation r" "gr_policy r' = gr_policy r" "gr_policy_sha256 r' = gr_policy_sha256 r"
    "gr_decision r' = gr_decision r" "gr_expires_at_ms r' = gr_expires_at_ms r" "gr_admitted_at_ms r' = gr_admitted_at_ms r"
    "gr_settlement r \<noteq> None \<Longrightarrow> gr_settlement r' = gr_settlement r"
  using assms by (auto simp: record_kept_def)

fun admits_before :: "u64 \<Rightarrow> governor_call \<Rightarrow> bool" where
  "admits_before t (AdmitCall request _) \<longleftrightarrow> gq_admitted_at_ms request < t"
| "admits_before t (SettleCall _ _ _ _) \<longleftrightarrow> True"

lemma record_call:
  assumes stored: "bm_get (gs_admissions s) a = Some r" and wf: "governor_wf s" and time: "admits_before (gr_expires_at_ms r) c"
  shows "\<exists>r'. bm_get (gs_admissions (gov_call env s c)) a = Some r' \<and> record_kept r r'"
proof (cases c)
  case (AdmitCall request authority)
  show ?thesis
  proof (cases "validated_new env request authority")
    case (Inr v)
    obtain s' res where ad: "admit_validated s v = (s', res)" by force
    have pruned: "bm_get (gs_admissions (prune_memory s (va_admitted_at_ms v))) a = Some r"
      using stored wf time validated_new_ok(11) [OF Inr] by (simp add: prune_get governor_wf_def AdmitCall)
    from ad wf have "bm_get (gs_admissions s') a = Some r"
    proof (cases rule: admit_validated_cases)
      case (recorded t l d epoch q)
      with pruned show ?thesis by (auto simp: bm_get_insert bm_contains_def)
    qed (use pruned in auto)
    then show ?thesis by (simp add: AdmitCall gov_admit_as_def Inr ad)
  qed (use stored in \<open>simp add: AdmitCall gov_admit_as_def\<close>)
next
  case (SettleCall i x now authority)
  obtain s' res where st: "gov_settle_as s i x now authority = (s', res)" by force
  then have "\<exists>r'. bm_get (gs_admissions s') a = Some r' \<and> record_kept r r'"
  proof (cases rule: gov_settle_cases)
    case (settled q l l' k)
    then show ?thesis using stored by (auto simp: bm_get_update record_kept_def)
  qed (use stored in auto)
  then show ?thesis by (simp add: SettleCall st)
qed

lemma record_run:
  assumes "bm_get (gs_admissions s) a = Some r" and "governor_inv s" and "\<forall>c\<in>set calls. admits_before (gr_expires_at_ms r) c"
  shows "\<exists>r'. bm_get (gs_admissions (fst (gov_exec env s calls))) a = Some r' \<and> record_kept r r'"
  using assms(3)
proof (induction calls rule: rev_induct)
  case (snoc c calls)
  let ?s = "fst (gov_exec env s calls)"
  obtain r1 where r1: "bm_get (gs_admissions ?s) a = Some r1" "record_kept r r1" using snoc by auto
  have "governor_wf ?s" using gov_exec_inv [OF assms(2)] by (simp add: governor_inv_def)
  moreover have "admits_before (gr_expires_at_ms r1) c" using snoc.prems record_kept_same(5) [OF r1(2)] by simp
  ultimately obtain r2 where "bm_get (gs_admissions (gov_call env ?s c)) a = Some r2" "record_kept r1 r2"
    using record_call [OF r1(1)] by blast
  with r1(2) show ?case by (auto simp: gov_exec_snoc intro: record_kept_trans)
qed (use assms(1) in simp)

text \<open>What an accepted admission leaves in the store.\<close>

lemma admitted_record:
  assumes "gov_admit_as env s request authority = (s1, Inr d)" and "governor_wf s"
  shows "\<exists>v r. validated_new env request authority = Inr v \<and>
    bm_get (gs_admissions s1) (tenant_key authority, gq_admission_id request) = Some r \<and> gr_decision r = d \<and>
    gr_operation r = gq_operation request \<and> gp_policy_id (gr_policy r) = gp_policy_id (gq_policy request) \<and>
    gr_policy_sha256 r = va_policy_sha256 v"
proof (cases "validated_new env request authority")
  case (Inr v)
  note v = validated_new_ok [OF Inr]
  have key: "admission_key v = (tenant_key authority, gq_admission_id request)"
    by (simp add: admission_key_def v gov_lane_key_def)
  have ad: "admit_validated s v = (s1, Inr d)" using assms(1) by (simp add: gov_admit_as_def Inr)
  then show ?thesis using assms(2)
  proof (cases rule: admit_validated_cases)
    case (repeated t r)
    then show ?thesis
      using Inr key by (auto simp: and_then_eq_Inr validate_duplicate_def v split: if_splits)
  next
    case (recorded t l d' epoch r)
    then show ?thesis using Inr key record_of_admission [OF recorded(7)] by (auto simp: bm_get_insert v)
  qed simp_all
qed (use assms(1) in \<open>simp add: gov_admit_as_def\<close>)

section \<open>Failed calls\<close>

lemma policy_validate_ok:
  assumes "policy_validate env p = Inr ()"
  shows "0 < unat (gp_max_dispatches_per_window p)" "unat (gp_max_dispatches_per_window p) \<le> 1000000"
    "0 < unat (gp_window_ms p)" "0 < unat (gp_failure_threshold p)" "unat (gp_failure_threshold p) \<le> 1000000"
    "0 < unat (gp_open_duration_ms p)" "0 < unat (gp_probe_lease_ms p)"
    "unat (gp_window_ms p) \<le> unat (gp_admission_retention_ms p)"
    "unat (gp_open_duration_ms p) \<le> unat (gp_admission_retention_ms p)"
    "unat (gp_probe_lease_ms p) \<le> unat (gp_admission_retention_ms p)"
    "unat (gp_admission_retention_ms p) \<le> 31536000000"
  using assms
  by (auto simp: policy_validate_def and_then_eq_Inr governor_limits word_le_nat_alt not_less Let_def split: if_splits)

lemma checked_add_None: "checked_add a b = None \<longleftrightarrow> unat a + unat b \<ge> 2 ^ LENGTH('a)" for a b :: "'a::len word"
  by (auto simp: checked_add_def)

lemma decide_error:
  assumes "decide l v = (l', Inl e)" and "policy_validate env (va_policy v) = Inr ()"
    and "unat (va_admitted_at_ms v) + unat (gp_admission_retention_ms (va_policy v)) < 2 ^ 64"
  shows "l' = l" "e = gov_err G_clock_backwards" "va_admitted_at_ms v < ln_last_observed_at_ms l"
proof -
  note p = policy_validate_ok [OF assms(2)]
  have "checked_add (va_admitted_at_ms v) (gp_probe_lease_ms (va_policy v)) \<noteq> None"
    using assms(3) p(10) by (simp only: checked_add_None) simp
  moreover have "fixed_window_start (va_admitted_at_ms v) (gp_window_ms (va_policy v)) \<le> va_admitted_at_ms v"
    by (simp add: word_le_nat_alt fixed_window_start_nat)
  then have "checked_add (fixed_window_start (va_admitted_at_ms v) (gp_window_ms (va_policy v))) (gp_window_ms (va_policy v)) \<noteq> None"
    using assms(3) p(8) by (simp only: checked_add_None word_le_nat_alt) simp
  moreover have "c < gp_max_dispatches_per_window (va_policy v) \<Longrightarrow> checked_add c 1 = None \<Longrightarrow> False" for c
    using p(2) by (simp add: checked_add_None word_less_nat_alt)
  ultimately have "l' = l \<and> e = gov_err G_clock_backwards \<and> va_admitted_at_ms v < ln_last_observed_at_ms l"
    using assms(1)
    by (auto simp: decide_def decide_open_def decide_closed_def Let_def not_le split: if_splits option.splits)
  then show "l' = l" "e = gov_err G_clock_backwards" "va_admitted_at_ms v < ln_last_observed_at_ms l" by simp_all
qed

section \<open>The circuit breaker\<close>

text \<open>
  The breaker of a lane without its window: the epoch of the circuit, the latest time it saw, and the circuit, which counts
  consecutive failures, is open until a time, or waits for a probe. Every step is labelled with the request and its decision, or with
  the report on an admission: whether this was a probe, the epoch it was made in, and the evidence. A report changes nothing only
  when it belongs to another epoch or to a probe that is not the current one.
\<close>

datatype circuit = BClosed nat | BOpen u64 | BProbing u64 string u64

datatype breaker = Breaker nat u64 circuit

definition circuit_of :: "lane_state \<Rightarrow> circuit" where
  "circuit_of l =
     (case ln_open_until_ms l of
        None \<Rightarrow> BClosed (unat (ln_consecutive_failures l))
      | Some u \<Rightarrow> (case (ln_probe_admission_id l, ln_probe_expires_at_ms l) of
          (Some i, Some e) \<Rightarrow> BProbing u i e | _ \<Rightarrow> BOpen u))"

definition breaker_of :: "lane_state \<Rightarrow> breaker" where
  "breaker_of l = Breaker (unat (ln_circuit_epoch l)) (ln_last_observed_at_ms l) (circuit_of l)"

datatype breaker_event =
    Asked u64 string admission_decision
  | Reported u64 string bool nat dispatch_settlement

text \<open>What a report of the current epoch does to the circuit, which shows the time \<open>t\<close>.\<close>

inductive counts :: "governor_policy \<Rightarrow> u64 \<Rightarrow> string \<Rightarrow> bool \<Rightarrow> dispatch_settlement \<Rightarrow> circuit \<Rightarrow> nat \<Rightarrow> circuit \<Rightarrow> bool" for p t i where
  healthy: "counts p t i False Healthy (BClosed n) 0 (BClosed 0)"
| failure: "Suc n < unat (gp_failure_threshold p) \<Longrightarrow> counts p t i False AvailabilityFailure (BClosed n) 0 (BClosed (Suc n))"
| tripped: "unat (gp_failure_threshold p) \<le> Suc n \<Longrightarrow> unat u = unat t + unat (gp_open_duration_ms p) \<Longrightarrow>
    counts p t i False AvailabilityFailure (BClosed n) 1 (BOpen u)"
| neutral: "counts p t i False Abandoned (BClosed n) 0 (BClosed n)"
| probe_healthy: "counts p t i True Healthy (BProbing u i e) 0 (BClosed 0)"
| probe_failed: "unat u' = unat t + unat (gp_open_duration_ms p) \<Longrightarrow>
    counts p t i True AvailabilityFailure (BProbing u i e) 1 (BOpen u')"
| probe_abandoned: "counts p t i True Abandoned (BProbing u i e) 0 (BOpen u)"

inductive decides :: "governor_policy \<Rightarrow> u64 \<Rightarrow> string \<Rightarrow> admission_decision \<Rightarrow> circuit \<Rightarrow> circuit \<Rightarrow> bool" for p t i where
  passed: "d = GdAllow \<or> d = GdRateLimited t' \<Longrightarrow> decides p t i d (BClosed n) (BClosed n)"
| still_open: "t < u \<Longrightarrow> decides p t i (GdCircuitOpen u) (BOpen u) (BOpen u)"
| probe_out: "t < e \<Longrightarrow> decides p t i (GdCircuitOpen e) (BProbing u j e) (BProbing u j e)"
| probe: "u \<le> t \<Longrightarrow> unat e = unat t + unat (gp_probe_lease_ms p) \<Longrightarrow> decides p t i GdAllowProbe (BOpen u) (BProbing u i e)"
| probe_again: "e \<le> t \<Longrightarrow> unat e' = unat t + unat (gp_probe_lease_ms p) \<Longrightarrow>
    decides p t i GdAllowProbe (BProbing u j e) (BProbing u i e')"

inductive breaker_step :: "governor_policy \<Rightarrow> breaker_event \<Rightarrow> breaker \<Rightarrow> breaker \<Rightarrow> bool" for p where
  asked: "c \<le> t \<Longrightarrow> decides p t i d b b' \<Longrightarrow> breaker_step p (Asked t i d) (Breaker n c b) (Breaker n t b')"
| counted: "counts p (max t c) i prb x b k b' \<Longrightarrow>
    breaker_step p (Reported t i prb n x) (Breaker n c b) (Breaker (n + k) (max t c) b')"
| stale: "n \<noteq> m \<Longrightarrow> breaker_step p (Reported t i prb m x) (Breaker n c b) (Breaker n c b)"
| lost_probe: "(\<nexists>u e. b = BProbing u i e) \<Longrightarrow> breaker_step p (Reported t i True m x) (Breaker n c b) (Breaker n c b)"

lemma decide_breaker:
  assumes "decide l v = (l', Inr (d, epoch))" and "lane_ok l"
  shows "breaker_step (va_policy v) (Asked (va_admitted_at_ms v) (va_admission_id v) d) (breaker_of l) (breaker_of l')"
proof -
  have clock: "ln_last_observed_at_ms l \<le> va_admitted_at_ms v"
    using assms(1) by (auto simp: decide_def Let_def not_less split: if_splits)
  have "decides (va_policy v) (va_admitted_at_ms v) (va_admission_id v) d (circuit_of l) (circuit_of l')"
  proof (cases "ln_open_until_ms l")
    case None
    then show ?thesis
      using assms
      by (auto simp: decide_def decide_closed_def observe_def circuit_of_def Let_def
          split: if_splits option.splits intro!: passed)
  next
    case (Some u)
    with clock assms show ?thesis
      by (cases "ln_probe_admission_id l"; cases "ln_probe_expires_at_ms l")
        (auto simp: decide_def decide_open_def observe_def circuit_of_def lane_ok_def Let_def checked_add_Some not_less not_le
          split: if_splits option.splits intro: decides.intros)
  qed
  with clock decide_frame [OF assms(1)] show ?thesis by (simp add: breaker_of_def asked)
qed

lemma trip_breaker:
  assumes "trip l now duration = (l', Inr ())"
  shows "\<exists>u. circuit_of (l'\<lparr>ln_consecutive_failures := n\<rparr>) = BOpen u \<and> circuit_of l' = BOpen u \<and> unat u = unat now + unat duration"
    "unat (ln_circuit_epoch l') = unat (ln_circuit_epoch l) + 1" "ln_last_observed_at_ms l' = ln_last_observed_at_ms l"
  using assms by (auto simp: trip_def circuit_of_def Let_def checked_add_Some split: option.splits)

text \<open>A report that counts, for probes and for normal dispatches.\<close>

lemma settle_probe_breaker:
  assumes "settle_probe l r x t = (l', Inr ())" and "circuit_of l = BProbing u i e" and "ln_open_until_ms l = Some u"
  shows "\<exists>k. counts (gr_policy r) t i True x (circuit_of l) k (circuit_of l') \<and>
    unat (ln_circuit_epoch l') = unat (ln_circuit_epoch l) + k \<and> ln_last_observed_at_ms l' = ln_last_observed_at_ms l"
proof (cases x)
  case AvailabilityFailure
  with assms(1) obtain m where m: "trip l t (gp_open_duration_ms (gr_policy r)) = (m, Inr ())"
    "l' = m\<lparr>ln_consecutive_failures := gp_failure_threshold (gr_policy r)\<rparr>"
    by (auto simp: settle_probe_def split: prod.splits sum.splits)
  from trip_breaker(1) [OF m(1), of "gp_failure_threshold (gr_policy r)"] obtain w where
    "circuit_of l' = BOpen w" "unat w = unat t + unat (gp_open_duration_ms (gr_policy r))" by (auto simp: m(2))
  then show ?thesis
    using trip_breaker(2,3) [OF m(1)] probe_failed [of w t "gr_policy r" i u e] assms(2)
    by (auto simp: AvailabilityFailure m(2) intro!: exI [of _ 1])
qed (use assms in \<open>auto simp: settle_probe_def circuit_of_def split: option.splits intro!: exI [of _ 0] probe_healthy probe_abandoned\<close>)

lemma settle_normal_breaker:
  assumes "settle_normal l r x t = (l', Inr ())" and closed: "ln_open_until_ms l = None"
  shows "\<exists>k. counts (gr_policy r) t i False x (circuit_of l) k (circuit_of l') \<and>
    unat (ln_circuit_epoch l') = unat (ln_circuit_epoch l) + k \<and> ln_last_observed_at_ms l' = ln_last_observed_at_ms l"
proof (cases x)
  case AvailabilityFailure
  with assms(1) obtain n where n: "unat n = Suc (unat (ln_consecutive_failures l))"
    "(if n \<ge> gp_failure_threshold (gr_policy r)
      then trip (l\<lparr>ln_consecutive_failures := n\<rparr>) t (gp_open_duration_ms (gr_policy r))
      else (l\<lparr>ln_consecutive_failures := n\<rparr>, Inr ())) = (l', Inr ())"
    by (auto simp: settle_normal_def Let_def checked_add_Some split: option.splits)
  show ?thesis
  proof (cases "n \<ge> gp_failure_threshold (gr_policy r)")
    case True
    with n(2) have "trip (l\<lparr>ln_consecutive_failures := n\<rparr>) t (gp_open_duration_ms (gr_policy r)) = (l', Inr ())" by simp
    note trip = trip_breaker(1) [OF this, of n] trip_breaker(2,3) [OF this]
    from trip(1) obtain w where w: "circuit_of l' = BOpen w" "unat w = unat t + unat (gp_open_duration_ms (gr_policy r))" by blast
    have "unat (gp_failure_threshold (gr_policy r)) \<le> Suc (unat (ln_consecutive_failures l))"
      using True n(1) by (simp add: word_le_nat_alt)
    from tripped [OF this w(2), of i] show ?thesis
      using trip(2,3) w(1) closed by (intro exI [of _ 1]) (simp add: AvailabilityFailure circuit_of_def [of l])
  next
    case False
    with n closed show ?thesis
      by (auto simp: AvailabilityFailure circuit_of_def word_le_nat_alt not_le intro!: exI [of _ 0] failure)
  qed
qed (use assms in \<open>auto simp: settle_normal_def circuit_of_def intro!: exI [of _ 0] healthy neutral\<close>)

lemma settlement_breaker:
  assumes "apply_settlement l i r x now = (l', Inr ())" and "lane_ok l"
    and "gr_decision r = GdAllow \<Longrightarrow> ln_open_until_ms l \<noteq> None \<Longrightarrow> gr_circuit_epoch r < ln_circuit_epoch l"
    and "gr_decision r = GdAllow \<or> gr_decision r = GdAllowProbe"
  shows "breaker_step (gr_policy r) (Reported now i (gr_decision r = GdAllowProbe) (unat (gr_circuit_epoch r)) x)
    (breaker_of l) (breaker_of l')"
proof (cases "ignores l i r")
  case True
  with assms(1) have same: "l' = l" by (simp add: apply_settlement_eq)
  have "\<nexists>u e. circuit_of l = BProbing u i e" if "ln_probe_admission_id l \<noteq> Some i"
    using that by (auto simp: circuit_of_def split: option.splits)
  note lost = lost_probe [OF this]
  show ?thesis
  proof (cases "gr_circuit_epoch r = ln_circuit_epoch l")
    case False
    then have "unat (ln_circuit_epoch l) \<noteq> unat (gr_circuit_epoch r)" by (simp add: word_unat_eq_iff)
    then show ?thesis by (simp add: same breaker_of_def stale)
  qed (use True lost in \<open>simp add: same breaker_of_def ignores_def\<close>)
next
  case False
  let ?t = "max now (ln_last_observed_at_ms l)"
  let ?m = "l\<lparr>ln_last_observed_at_ms := ?t\<rparr>"
  have m: "circuit_of ?m = circuit_of l" by (simp add: circuit_of_def split: option.split)
  have epoch: "gr_circuit_epoch r = ln_circuit_epoch l" using False by (simp add: ignores_def)
  have "\<exists>k. counts (gr_policy r) ?t i (gr_decision r = GdAllowProbe) x (circuit_of ?m) k (circuit_of l') \<and>
    unat (ln_circuit_epoch l') = unat (ln_circuit_epoch ?m) + k \<and> ln_last_observed_at_ms l' = ln_last_observed_at_ms ?m"
  proof (cases "gr_decision r = GdAllowProbe")
    case True
    with False assms(2) obtain u e where b: "circuit_of ?m = BProbing u i e" "ln_open_until_ms ?m = Some u"
      by (auto simp: ignores_def lane_ok_def circuit_of_def split: option.splits)
    have "settle_probe ?m r x ?t = (l', Inr ())" using assms(1) False True by (simp add: apply_settlement_eq Let_def)
    from settle_probe_breaker [OF this b] True show ?thesis by simp
  next
    case normal: False
    with False assms(3,4) have closed: "ln_open_until_ms ?m = None" by (cases "ln_open_until_ms l") (auto simp: ignores_def)
    have "settle_normal ?m r x ?t = (l', Inr ())" using assms(1) False normal by (simp add: apply_settlement_eq Let_def)
    from settle_normal_breaker [OF this closed, of i] normal show ?thesis by simp
  qed
  then obtain k where "counts (gr_policy r) ?t i (gr_decision r = GdAllowProbe) x (circuit_of l) k (circuit_of l')"
    "unat (ln_circuit_epoch l') = unat (ln_circuit_epoch l) + k" "ln_last_observed_at_ms l' = ?t"
    by (auto simp: m)
  then show ?thesis by (simp add: breaker_of_def epoch counted)
qed

lemma gov_settle_ok:
  assumes "gov_settle_as s i x now authority = (s', Inr u)"
  obtains r where "bm_get (gs_admissions s) (tenant_key authority, i) = Some r"
    "validate_settlement_record r x now = Inr ()" "gr_settlement r = None \<or> s' = s"
  using assms
  by (auto simp: gov_settle_as_def Let_def split: sum.splits option.splits if_splits)

text \<open>The two calls of the governor as steps of the breaker of one lane.\<close>

lemma admit_call_breaker:
  assumes s: "s = fst (gov_exec env governor_new calls)" and lane: "bm_get (gs_lanes s) k = Some l"
    and call: "fst (gov_admit_as env s request authority) = s'" "is_ok (snd (gov_admit_as env s request authority))"
  shows "\<exists>l'. bm_get (gs_lanes s') k = Some l' \<and>
    (if k = gov_lane_key (gq_operation request) (gq_policy request) (tenant_key authority) \<and>
       bm_get (gs_admissions (prune_memory s (gq_admitted_at_ms request))) (tenant_key authority, gq_admission_id request) = None
     then \<exists>d r. snd (gov_admit_as env s request authority) = Inr d \<and>
       bm_get (gs_admissions s') (tenant_key authority, gq_admission_id request) = Some r \<and>
       gr_decision r = d \<and> gr_policy r = gq_policy request \<and> gr_circuit_epoch r = ln_circuit_epoch l' \<and>
       breaker_step (gq_policy request) (Asked (gq_admitted_at_ms request) (gq_admission_id request) d) (breaker_of l) (breaker_of l')
     else l' = l)"
proof -
  have inv: "governor_inv s" unfolding s by (rule gov_exec_inv) simp
  then have ok: "lane_ok l" and wf: "governor_wf s" using lane by (auto simp: governor_inv_def dest: bm_allD)
  from call(2) obtain v where nw: "validated_new env request authority = Inr v"
    by (cases "validated_new env request authority") (auto simp: gov_admit_as_def)
  note v = validated_new_ok [OF nw]
  have key: "admission_key v = (tenant_key authority, gq_admission_id request)"
    by (simp add: admission_key_def v gov_lane_key_def)
  obtain t res where ad: "admit_validated s v = (t, res)" by force
  have s': "s' = t" "snd (gov_admit_as env s request authority) = res"
    using call(1) by (simp_all add: gov_admit_as_def nw ad)
  from ad wf show ?thesis
  proof (cases rule: admit_validated_cases)
    case (repeated m r)
    then show ?thesis using lane s' by (simp add: key v)
  next
    case (recorded m l1 d epoch r)
    show ?thesis
    proof (cases "va_lane v = k")
      case True
      then have "lane_for m v = l" using lane by (simp add: lane_for_def recorded(1))
      with decide_breaker [of l v l1 d epoch] recorded(6) ok
      have "breaker_step (va_policy v) (Asked (va_admitted_at_ms v) (va_admission_id v) d) (breaker_of l) (breaker_of l1)" by simp
      moreover have "gr_circuit_epoch r = ln_circuit_epoch l1"
        using decide_result(1) [OF recorded(6)] record_of_admission(4) [OF recorded(7)] by simp
      moreover have "bm_get (gs_lanes s') k = Some l1" "bm_get (gs_admissions s') (admission_key v) = Some r"
        using recorded True s'(1) by (simp_all add: bm_get_insert)
      moreover have "bm_get (gs_admissions m) (admission_key v) = None" using recorded(2) by (simp add: bm_contains_def)
      ultimately show ?thesis
        using record_of_admission(2,5) [OF recorded(7)] v recorded(1,5) True s'(2) by (simp add: key)
    qed (use lane recorded s' v in \<open>auto simp: bm_get_insert\<close>)
  qed (use s' call(2) in auto)
qed

lemma settle_call_breaker:
  assumes s: "s = fst (gov_exec env governor_new calls)" and lane: "bm_get (gs_lanes s) k = Some l"
    and call: "fst (gov_settle_as s i x now authority) = s'" "is_ok (snd (gov_settle_as s i x now authority))"
  shows "\<exists>l'. bm_get (gs_lanes s') k = Some l' \<and>
    (\<exists>r. bm_get (gs_admissions s) (tenant_key authority, i) = Some r \<and>
      (if k = gov_lane_key (gr_operation r) (gr_policy r) (tenant_key authority) \<and> gr_settlement r = None
       then breaker_step (gr_policy r) (Reported now i (gr_decision r = GdAllowProbe) (unat (gr_circuit_epoch r)) x)
         (breaker_of l) (breaker_of l')
       else l' = l))"
proof -
  have inv: "governor_inv s" unfolding s by (rule gov_exec_inv) simp
  then have ok: "lane_ok l" using lane by (auto simp: governor_inv_def dest: bm_allD)
  from call obtain u where st: "gov_settle_as s i x now authority = (s', Inr u)"
    by (cases "gov_settle_as s i x now authority"; cases "snd (gov_settle_as s i x now authority)") auto
  obtain r where r: "bm_get (gs_admissions s) (tenant_key authority, i) = Some r"
    "validate_settlement_record r x now = Inr ()" "gr_settlement r = None \<or> s' = s"
    using st by (rule gov_settle_ok)
  let ?k = "gov_lane_key (gr_operation r) (gr_policy r) (tenant_key authority)"
  show ?thesis
  proof (cases "gr_settlement r = None")
    case None: True
    have ad: "admission_ok s (tenant_key authority, i) r" using inv r(1) by (auto simp: governor_inv_def dest: bm_allD)
    then obtain l0 where l0: "bm_get (gs_lanes s) ?k = Some l0"
      and epoch: "gr_decision r = GdAllow \<Longrightarrow> ln_open_until_ms l0 \<noteq> None \<Longrightarrow> gr_circuit_epoch r < ln_circuit_epoch l0"
      by (auto simp: admission_ok_def)
    have allowed: "gr_decision r = GdAllow \<or> gr_decision r = GdAllowProbe"
      using r(2) by (simp add: validate_settlement_record_def split: if_splits)
    obtain l1 where l1: "apply_settlement l0 i r x now = (l1, Inr ())" "bm_get (gs_lanes s') = (bm_get (gs_lanes s))(?k \<mapsto> l1)"
      using st r None l0 by (auto simp: gov_settle_as_def Let_def fun_eq_iff bm_get_insert split: sum.splits prod.splits)
    show ?thesis
    proof (cases "k = ?k")
      case True
      with lane l0 have "l0 = l" by simp
      with settlement_breaker [OF l1(1) _ epoch allowed] ok r(1) l1(2) True None show ?thesis by simp
    qed (use lane l1(2) r(1) in simp)
  qed (use lane r in auto)
qed

section \<open>The clock of a lane\<close>






section \<open>A concrete lane\<close>

definition demo_governor_env :: governor_env where
  "demo_governor_env = \<lparr>ge_policy = (\<lambda>p. Some (gp_policy_id p)), ge_sha256 = (\<lambda>b. replicate 32 CHR ''a'')\<rparr>"

definition demo_policy :: governor_policy where
  "demo_policy = \<lparr>gp_policy_id = ''p'', gp_max_dispatches_per_window = 1, gp_window_ms = 10, gp_failure_threshold = 1,
     gp_open_duration_ms = 20, gp_probe_lease_ms = 5, gp_admission_retention_ms = 604800000\<rparr>"

definition demo_admission :: "string \<Rightarrow> u64 \<Rightarrow> admission_request" where
  "demo_admission i t = \<lparr>gq_admission_id = i, gq_operation = \<lparr>eo_capability = ''c'', eo_operation = ''o''\<rparr>,
     gq_policy = demo_policy, gq_admitted_at_ms = t\<rparr>"

definition demo_lane_key :: lane_key where "demo_lane_key = ([], ''c'', ''o'', ''p'')"

definition demo_validated :: "string \<Rightarrow> u64 \<Rightarrow> validated_admission" where
  "demo_validated i t = \<lparr>va_admission_id = i, va_operation = \<lparr>eo_capability = ''c'', eo_operation = ''o''\<rparr>,
     va_policy = demo_policy, va_policy_sha256 = lower_hex (replicate 32 CHR ''a''), va_admitted_at_ms = t,
     va_lane = demo_lane_key\<rparr>"

lemma demo_policy_digest: "policy_digest demo_governor_env demo_policy = Inr (lower_hex (replicate 32 CHR ''a''))"
  by (simp add: policy_digest_def demo_governor_env_def demo_policy_def governor_limits)

lemma demo_policy_valid: "policy_validate demo_governor_env demo_policy = Inr ()"
  by (simp add: policy_validate_def demo_policy_digest)
    (simp add: demo_policy_def governor_limits validate_capability_name_def string_eval Let_def)

lemma demo_validated_new:
  "t \<noteq> 0 \<Longrightarrow> ef_validate_identity i = Inr () \<Longrightarrow>
   validated_new demo_governor_env (demo_admission i t) local_process = Inr (demo_validated i t)"
  by (simp add: validated_new_def demo_admission_def demo_policy_valid demo_policy_digest ef_validate_application_time_def)
    (simp add: gov_validate_operation_def validate_capability_name_def string_eval Let_def demo_validated_def
      gov_lane_key_def demo_lane_key_def tenant_key_def demo_policy_def)

definition demo_lane :: lane_state where
  "demo_lane = \<lparr>ln_policy_sha256 = lower_hex (replicate 32 CHR ''a''), ln_last_observed_at_ms = 15,
     ln_window_started_at_ms = 10, ln_window_count = 1, ln_consecutive_failures = 0, ln_circuit_epoch = 1,
     ln_open_until_ms = None, ln_probe_admission_id = None, ln_probe_expires_at_ms = None\<rparr>"

definition demo_record :: admission_record where
  "demo_record = \<lparr>gr_operation = \<lparr>eo_capability = ''c'', eo_operation = ''o''\<rparr>, gr_policy = demo_policy,
     gr_policy_sha256 = lower_hex (replicate 32 CHR ''a''), gr_admitted_at_ms = 15, gr_expires_at_ms = 604800015,
     gr_circuit_epoch = 1, gr_decision = GdAllow, gr_settlement = None\<rparr>"

definition demo_governor :: governor_state where
  "demo_governor = \<lparr>gs_lanes = [(demo_lane_key, demo_lane)], gs_admissions = [(([], ''i''), demo_record)]\<rparr>"

lemma demo_admitted:
  "gov_admit_as demo_governor_env governor_new (demo_admission ''i'' 15) local_process = (demo_governor, Inr GdAllow)"
proof -
  have "ef_validate_identity ''i'' = Inr ()" by (simp add: ef_validate_identity_def MAX_EFFECT_IDENTITY_BYTES_def string_eval)
  then have "validated_new demo_governor_env (demo_admission ''i'' 15) local_process = Inr (demo_validated ''i'' 15)"
    by (intro demo_validated_new) simp_all
  moreover have "decide (initial_lane (demo_validated ''i'' 15)) (demo_validated ''i'' 15) = (demo_lane, Inr (GdAllow, 1))"
    by (simp add: decide_def decide_closed_def observe_def initial_lane_def demo_validated_def demo_policy_def demo_lane_def
        fixed_window_start_def checked_add_def)
  moreover have "gov_admission_record (demo_validated ''i'' 15) 1 GdAllow = Inr demo_record"
    by (simp add: gov_admission_record_def demo_validated_def demo_policy_def demo_record_def checked_add_def)
  ultimately show ?thesis
    by (simp add: gov_admit_as_def admit_validated_def governor_new_def prune_memory_def bm_get_def bm_contains_def
        validate_lane_policy_def governor_limits Let_def demo_governor_def)
      (simp add: initial_lane_def demo_validated_def demo_lane_key_def)
qed

section \<open>Properties\<close>

text \<open>
  C27: A lane never exceeds its rate. However the calls of all tenants follow each other, the admissions that were newly
  allowed in one fixed window of a lane, probes apart, are at most \<open>max_dispatches_per_window\<close>, when no other policy that was
  used has the digest of the lane's policy.
\<close>

theorem governor_rate_bound:
  assumes "policy_digest env p = Inr digest"
    and "\<forall>request authority. AdmitCall request authority \<in> set calls \<longrightarrow> policy_digest env (gq_policy request) = Inr digest \<longrightarrow>
      gq_policy request = p"
  shows "allowed_count p k w (snd (gov_exec env governor_new calls)) \<le> unat (gp_max_dispatches_per_window p)"
proof -
  have "rate_inv p digest k (fst (gov_exec env governor_new calls)) (snd (gov_exec env governor_new calls))"
    using assms(2)
  proof (induction calls rule: rev_induct)
    case Nil
    show ?case by (simp add: rate_inv_def governor_new_def bm_get_def)
  next
    case (snoc c calls)
    let ?s = "fst (gov_exec env governor_new calls)"
    have IH: "rate_inv p digest k ?s (snd (gov_exec env governor_new calls))" using snoc by auto
    have wf: "governor_wf ?s" using gov_exec_inv [OF governor_inv_new] by (simp add: governor_inv_def)
    show ?case
    proof (cases c)
      case (AdmitCall request authority)
      show ?thesis
      proof (cases "validated_new env request authority")
        case (Inl e)
        with IH show ?thesis by (simp add: gov_exec_snoc AdmitCall gov_admit_as_def)
      next
        case (Inr v)
        have "policy_digest env (gq_policy request) = Inr digest \<longrightarrow> gq_policy request = p"
          using snoc.prems AdmitCall by auto
        from rate_inv_admit [OF IH wf Inr assms(1) this] show ?thesis
          unfolding gov_exec_snoc AdmitCall fst_conv snd_conv .
      qed
    next
      case (SettleCall i x now authority)
      with rate_inv_settle [OF IH] show ?thesis by (simp add: gov_exec_snoc)
    qed
  qed
  then show ?thesis by (simp add: rate_inv_def)
qed

theorem governor_rate_bound_witness:
  "allowed_count demo_policy demo_lane_key 10
     (snd (gov_exec demo_governor_env governor_new [AdmitCall (demo_admission ''i'' 15) local_process,
        AdmitCall (demo_admission ''j'' 16) local_process])) \<le> 1"
  using governor_rate_bound [OF demo_policy_digest, of "[AdmitCall (demo_admission ''i'' 15) local_process,
        AdmitCall (demo_admission ''j'' 16) local_process]" demo_lane_key 10]
  by (auto simp: demo_admission_def demo_policy_def)

text \<open>
  C28: While a circuit is open nothing passes. In every governor the operations built: once a lane is open until \<open>u\<close>, no later
  admission before \<open>u\<close> is allowed, whatever other settlements arrive; and once a probe is out until \<open>e\<close>, every other admission before
  \<open>e\<close> is denied until this probe is settled.
\<close>

theorem governor_circuit_blocks:
  assumes s: "s = fst (gov_exec env governor_new calls)" and lane: "bm_get (gs_lanes s) k = Some l"
    and later: "(s', log) = gov_exec env s calls'" and entry: "(v, d) \<in> set log" "va_lane v = k"
  shows "(\<forall>u. ln_open_until_ms l = Some u \<longrightarrow> va_admitted_at_ms v < u \<longrightarrow> (\<exists>t. d = GdCircuitOpen t)) \<and>
    (\<forall>i e. ln_probe_admission_id l = Some i \<longrightarrow> ln_probe_expires_at_ms l = Some e \<longrightarrow>
      (\<forall>x now authority. SettleCall i x now authority \<in> set calls' \<longrightarrow> tenant_key authority \<noteq> fst k) \<longrightarrow>
      va_admitted_at_ms v < e \<longrightarrow> (\<exists>t. d = GdCircuitOpen t))"
proof -
  have inv: "governor_inv s" unfolding s by (rule gov_exec_inv) simp
  then have ok: "lane_ok l" using lane by (auto simp: governor_inv_def dest: bm_allD)
  have denied: "\<exists>t. d = GdCircuitOpen t"
    if "blocks b a l" "va_admitted_at_ms v < b"
      "\<forall>c\<in>set calls'. \<forall>i x now authority. c = SettleCall i x now authority \<longrightarrow> tenant_key authority = fst k \<longrightarrow> a \<noteq> Some i" for b a
  proof -
    have "lane_blocked b a k s" using lane that(1) by (simp add: lane_blocked_def)
    from lane_blocked_run [OF this inv that(3), of env] entry that(2) show ?thesis
      unfolding later [symmetric] by (auto simp: denied_before_def)
  qed
  show ?thesis
  proof (intro conjI allI impI)
    fix u
    assume u: "ln_open_until_ms l = Some u" "va_admitted_at_ms v < u"
    have "blocks u None l" using ok u(1) by (cases "ln_probe_admission_id l") (auto simp: blocks_def lane_ok_def)
    then show "\<exists>t. d = GdCircuitOpen t" by (rule denied) (use u(2) in auto)
  next
    fix i e
    assume i: "ln_probe_admission_id l = Some i" "ln_probe_expires_at_ms l = Some e" "va_admitted_at_ms v < e"
      "\<forall>x now authority. SettleCall i x now authority \<in> set calls' \<longrightarrow> tenant_key authority \<noteq> fst k"
    have "blocks e (Some i) l" using ok i(1,2) by (cases "ln_open_until_ms l") (auto simp: blocks_def lane_ok_def)
    then show "\<exists>t. d = GdCircuitOpen t" by (rule denied) (use i in auto)
  qed
qed

definition demo_open_lane :: lane_state where
  "demo_open_lane = demo_lane\<lparr>ln_last_observed_at_ms := 16, ln_consecutive_failures := 1, ln_circuit_epoch := 2,
     ln_open_until_ms := Some 36\<rparr>"

definition demo_opened :: governor_state where
  "demo_opened = \<lparr>gs_lanes = [(demo_lane_key, demo_open_lane)],
     gs_admissions = [(([], ''i''), demo_record\<lparr>gr_settlement := Some AvailabilityFailure\<rparr>)]\<rparr>"

lemma demo_reported: "gov_settle_as demo_governor ''i'' AvailabilityFailure 16 local_process = (demo_opened, Inr ())"
proof -
  have "ef_validate_identity ''i'' = Inr ()" by (simp add: ef_validate_identity_def MAX_EFFECT_IDENTITY_BYTES_def string_eval)
  moreover have "apply_settlement demo_lane ''i'' demo_record AvailabilityFailure 16 = (demo_open_lane, Inr ())"
    by (simp add: apply_settlement_def settle_normal_def trip_def demo_lane_def demo_record_def demo_policy_def demo_open_lane_def
        checked_add_def)
  ultimately show ?thesis
    by (simp add: gov_settle_as_def validate_settlement_def ef_validate_application_time_def demo_governor_def bm_get_def
        validate_settlement_record_def demo_record_def gov_lane_key_def demo_policy_def tenant_key_def)
      (simp add: demo_lane_key_def demo_opened_def demo_record_def demo_policy_def bm_update_def)
qed

lemma demo_opened_run:
  "demo_opened = fst (gov_exec demo_governor_env governor_new
     [AdmitCall (demo_admission ''i'' 15) local_process, SettleCall ''i'' AvailabilityFailure 16 local_process])"
  by (simp add: gov_exec_def demo_admitted demo_reported)

lemma demo_denied:
  "gov_exec demo_governor_env demo_opened [AdmitCall (demo_admission ''j'' 17) local_process] =
     (demo_opened\<lparr>gs_lanes := [(demo_lane_key, demo_open_lane\<lparr>ln_last_observed_at_ms := 17\<rparr>)],
        gs_admissions := gs_admissions demo_opened @ [(([], ''j''), demo_record\<lparr>gr_admitted_at_ms := 17, gr_expires_at_ms := 604800017,
          gr_circuit_epoch := 2, gr_decision := GdCircuitOpen 36\<rparr>)]\<rparr>,
      [(demo_validated ''j'' 17, GdCircuitOpen 36)])"
proof -
  have "ef_validate_identity ''j'' = Inr ()" by (simp add: ef_validate_identity_def MAX_EFFECT_IDENTITY_BYTES_def string_eval)
  then have v: "validated_new demo_governor_env (demo_admission ''j'' 17) local_process = Inr (demo_validated ''j'' 17)"
    by (intro demo_validated_new) simp_all
  have "decide demo_open_lane (demo_validated ''j'' 17) =
      (demo_open_lane\<lparr>ln_last_observed_at_ms := 17\<rparr>, Inr (GdCircuitOpen 36, 2))"
    by (simp add: decide_def decide_open_def observe_def demo_open_lane_def demo_lane_def demo_validated_def)
  moreover have "gov_admission_record (demo_validated ''j'' 17) 2 (GdCircuitOpen 36) =
      Inr (demo_record\<lparr>gr_admitted_at_ms := 17, gr_expires_at_ms := 604800017, gr_circuit_epoch := 2, gr_decision := GdCircuitOpen 36\<rparr>)"
    by (simp add: gov_admission_record_def demo_validated_def demo_policy_def demo_record_def checked_add_def)
  moreover have "prune_memory demo_opened 17 = demo_opened"
    by (simp add: prune_memory_def demo_opened_def demo_record_def)
  moreover have "va_lane (demo_validated ''j'' 17) = demo_lane_key" "va_admission_id (demo_validated ''j'' 17) = ''j''"
    "va_admitted_at_ms (demo_validated ''j'' 17) = 17" "va_policy_sha256 (demo_validated ''j'' 17) = ln_policy_sha256 demo_open_lane"
    "fst demo_lane_key = []"
    by (simp_all add: demo_validated_def demo_open_lane_def demo_lane_def demo_lane_key_def)
  moreover have "gs_lanes demo_opened = [(demo_lane_key, demo_open_lane)]" by (simp add: demo_opened_def)
  moreover have "gs_admissions demo_opened = [(([], ''i''), demo_record\<lparr>gr_settlement := Some AvailabilityFailure\<rparr>)]"
    by (simp add: demo_opened_def)
  ultimately show ?thesis
    by (simp add: gov_exec_def gov_admit_as_def v admit_validated_def bm_get_def bm_contains_def governor_limits
        validate_lane_policy_def admission_key_def Let_def)
qed

theorem governor_circuit_blocks_witness:
  "\<exists>d t. snd (gov_exec demo_governor_env demo_opened [AdmitCall (demo_admission ''j'' 17) local_process]) =
     [(demo_validated ''j'' 17, d)] \<and> d = GdCircuitOpen t"
proof -
  have "bm_get (gs_lanes demo_opened) demo_lane_key = Some demo_open_lane" by (simp add: demo_opened_def bm_get_def)
  from governor_circuit_blocks [OF demo_opened_run this demo_denied [symmetric], of "demo_validated ''j'' 17" "GdCircuitOpen 36"]
  have "\<exists>t. GdCircuitOpen 36 = GdCircuitOpen t" by (simp add: demo_validated_def demo_open_lane_def)
  then show ?thesis by (simp add: demo_denied del: admission_decision.inject)
qed

text \<open>
  Retries are safe. The repetition of an accepted admission before its retention ends, by the same tenant and with the same
  operation and policy, gets the decision of the first one at whatever time it asks, and no counter or circuit of any lane changes,
  whatever was called in between.
\<close>

theorem governor_retry_same_decision:
  assumes s: "s = fst (gov_exec env governor_new calls)"
    and first: "gov_admit_as env s request authority = (s1, Inr d)"
    and stored: "bm_get (gs_admissions s1) (tenant_key authority, gq_admission_id request) = Some r"
    and between: "\<forall>c\<in>set calls'. admits_before (gr_expires_at_ms r) c" and s2: "s2 = fst (gov_exec env s1 calls')"
    and time: "0 < t" "t < gr_expires_at_ms r" and again: "valid_authority authority'" "tenant_id authority' = tenant_id authority"
  shows "\<exists>s3. gov_admit_as env s2 (request\<lparr>gq_admitted_at_ms := t\<rparr>) authority' = (s3, Inr d) \<and> gs_lanes s3 = gs_lanes s2"
proof -
  have inv: "governor_inv s" unfolding s by (rule gov_exec_inv) simp
  then have wf: "governor_wf s" by (simp add: governor_inv_def)
  from admitted_record [OF first wf] stored obtain v where v: "validated_new env request authority = Inr v" and
    r: "gr_decision r = d" "gr_operation r = gq_operation request" "gp_policy_id (gr_policy r) = gp_policy_id (gq_policy request)"
      "gr_policy_sha256 r = va_policy_sha256 v"
    by auto
  have key: "tenant_key authority' = tenant_key authority" using again(2) by (simp add: tenant_key_def)
  have v': "validated_new env (request\<lparr>gq_admitted_at_ms := t\<rparr>) authority' = Inr (v\<lparr>va_admitted_at_ms := t\<rparr>)"
    using v again(1) time(1) key
    by (auto simp: validated_new_def and_then_eq_Inr map_err_eq_Inr authority_validate_current_ok ef_validate_application_time_def
        split: if_splits)
  have "governor_inv s1" using gov_call_inv [OF inv, of env "AdmitCall request authority"] by (simp add: first)
  note run = record_run [OF stored this between, of env, folded s2] gov_exec_inv [OF this, of env calls', folded s2]
  from run(1) obtain r2 where r2: "bm_get (gs_admissions s2) (tenant_key authority, gq_admission_id request) = Some r2" "record_kept r r2"
    by blast
  note same = record_kept_same [OF r2(2)]
  have "bm_get (gs_admissions (prune_memory s2 t)) (tenant_key authority, gq_admission_id request) = Some r2"
    using r2(1) run(2) time(2) same(5) by (simp add: prune_get governor_inv_def governor_wf_def)
  moreover have "validate_duplicate r2 (v\<lparr>va_admitted_at_ms := t\<rparr>) = Inr ()"
    using r same validated_new_ok [OF v] by (simp add: validate_duplicate_def)
  moreover have "fst (va_lane v) = tenant_key authority" "va_admission_id v = gq_admission_id request"
    using validated_new_ok(5,9) [OF v] by (simp_all add: gov_lane_key_def)
  ultimately show ?thesis using r(1) same(4) by (simp add: gov_admit_as_def v' admit_validated_def)
qed

theorem governor_retry_same_decision_witness:
  "\<exists>s3. gov_admit_as demo_governor_env demo_opened (demo_admission ''i'' 40) local_process = (s3, Inr GdAllow) \<and>
     gs_lanes s3 = gs_lanes demo_opened"
proof -
  have stored: "bm_get (gs_admissions demo_governor) (tenant_key local_process, gq_admission_id (demo_admission ''i'' 15)) = Some demo_record"
    by (simp add: demo_governor_def bm_get_def tenant_key_def demo_admission_def)
  have "demo_opened = fst (gov_exec demo_governor_env demo_governor [SettleCall ''i'' AvailabilityFailure 16 local_process])"
    by (simp add: gov_exec_def demo_reported)
  moreover have "governor_new = fst (gov_exec demo_governor_env governor_new [])" by simp
  ultimately have "\<exists>s3. gov_admit_as demo_governor_env demo_opened (demo_admission ''i'' 15\<lparr>gq_admitted_at_ms := 40\<rparr>) local_process =
      (s3, Inr GdAllow) \<and> gs_lanes s3 = gs_lanes demo_opened"
    using governor_retry_same_decision [OF _ demo_admitted stored, of "[]" "[SettleCall ''i'' AvailabilityFailure 16 local_process]"
        demo_opened 40 local_process]
    by (simp add: demo_record_def)
  then show ?thesis by (simp add: demo_admission_def)
qed

text \<open>
  An admission is settled once. After a successful settlement, and as long as the admission is retained, its repetition
  succeeds without changing anything, and a report of anything else is refused without changing anything, so one dispatch never counts as two
  failures.
\<close>

theorem governor_settled_once:
  assumes s: "s = fst (gov_exec env governor_new calls)"
    and first: "gov_settle_as s admission_id x now authority = (s1, Inr ())"
    and stored: "bm_get (gs_admissions s) (tenant_key authority, admission_id) = Some r"
    and between: "\<forall>c\<in>set calls'. admits_before (gr_expires_at_ms r) c" and s2: "s2 = fst (gov_exec env s1 calls')"
    and again: "valid_authority authority'" "tenant_id authority' = tenant_id authority" "now' \<ge> gr_admitted_at_ms r" "now' \<noteq> 0"
  shows "gov_settle_as s2 admission_id x' now' authority' = (s2, if x' = x then Inr () else Inl (gov_err G_settled_differently))"
proof -
  have inv: "governor_inv s" unfolding s by (rule gov_exec_inv) simp
  have key: "tenant_key authority' = tenant_key authority" using again(2) by (simp add: tenant_key_def)
  obtain r1 where r1: "bm_get (gs_admissions s1) (tenant_key authority, admission_id) = Some r1" "record_kept r r1"
    using record_call [OF stored, of "SettleCall admission_id x now authority" env] inv by (auto simp: governor_inv_def first)
  have settled: "gr_settlement r1 = Some x" and allowed: "gr_decision r = GdAllow \<or> gr_decision r = GdAllowProbe"
    using first stored r1(1)
    by (auto simp: gov_settle_as_def validate_settlement_record_def Let_def bm_get_update split: sum.splits option.splits if_splits prod.splits)
  have inv1: "governor_inv s1" using gov_call_inv [OF inv, of env "SettleCall admission_id x now authority"] by (simp add: first)
  have "\<forall>c\<in>set calls'. admits_before (gr_expires_at_ms r1) c" using between record_kept_same(5) [OF r1(2)] by simp
  from record_run [OF r1(1) inv1 this, of env] obtain r2 where
    r2: "bm_get (gs_admissions s2) (tenant_key authority, admission_id) = Some r2" "record_kept r1 r2"
    unfolding s2 by blast
  have "validate_settlement admission_id now' authority' = Inr ()"
    using first again(1,4)
    by (auto simp: gov_settle_as_def validate_settlement_def and_then_eq_Inr map_err_eq_Inr authority_validate_current_ok
        ef_validate_application_time_def split: sum.splits)
  moreover have "gr_settlement r2 = Some x" "gr_decision r2 = gr_decision r" "gr_admitted_at_ms r2 = gr_admitted_at_ms r"
    using record_kept_same [OF r1(2)] record_kept_same [OF r2(2)] settled by simp_all
  ultimately show ?thesis
    using r2(1) allowed again(3) by (auto simp: gov_settle_as_def key validate_settlement_record_def)
qed

theorem governor_settled_once_witness:
  "gov_settle_as demo_opened ''i'' Healthy 18 local_process = (demo_opened, Inl (gov_err G_settled_differently))"
proof -
  have stored: "bm_get (gs_admissions demo_governor) (tenant_key local_process, ''i'') = Some demo_record"
    by (simp add: demo_governor_def bm_get_def tenant_key_def)
  have "demo_governor = fst (gov_exec demo_governor_env governor_new [AdmitCall (demo_admission ''i'' 15) local_process])"
    by (simp add: gov_exec_def demo_admitted)
  from governor_settled_once [OF this demo_reported stored, of "[]" demo_opened local_process 18 Healthy] show ?thesis
    by (simp add: demo_record_def)
qed

text \<open>
  C29: The lanes implement the circuit breaker. A successful call leaves every other lane as it was, and so does the repetition of a
  retained admission or of a settlement; a new admission and a first settlement move the breaker of their lane by the step of the
  abstract one that they are labelled with. So normal dispatches pass while it is closed, a probe passes only when the circuit has been
  open for its time and no other probe is out, every failure of the current epoch is counted, the circuit opens at the
  threshold of consecutive failures for exactly its duration, only the settlement of the current probe closes it, and only
  reports of another epoch or of another probe are ignored. The stored admission carries the decision, the policy and the epoch of
  the circuit.
\<close>

theorem governor_refines_breaker:
  assumes s: "s = fst (gov_exec env governor_new calls)" and lane: "bm_get (gs_lanes s) k = Some l"
    and call: "gov_call env s c = s'"
      "case c of AdmitCall request authority \<Rightarrow> is_ok (snd (gov_admit_as env s request authority))
       | SettleCall i x now authority \<Rightarrow> is_ok (snd (gov_settle_as s i x now authority))"
  shows "\<exists>l'. bm_get (gs_lanes s') k = Some l' \<and>
    (case c of
       AdmitCall request authority \<Rightarrow>
         if k = gov_lane_key (gq_operation request) (gq_policy request) (tenant_key authority) \<and>
           bm_get (gs_admissions (prune_memory s (gq_admitted_at_ms request))) (tenant_key authority, gq_admission_id request) = None
         then \<exists>d r. snd (gov_admit_as env s request authority) = Inr d \<and>
           bm_get (gs_admissions s') (tenant_key authority, gq_admission_id request) = Some r \<and>
           gr_decision r = d \<and> gr_policy r = gq_policy request \<and> gr_circuit_epoch r = ln_circuit_epoch l' \<and>
           breaker_step (gq_policy request) (Asked (gq_admitted_at_ms request) (gq_admission_id request) d) (breaker_of l) (breaker_of l')
         else l' = l
     | SettleCall i x now authority \<Rightarrow> \<exists>r. bm_get (gs_admissions s) (tenant_key authority, i) = Some r \<and>
         (if k = gov_lane_key (gr_operation r) (gr_policy r) (tenant_key authority) \<and> gr_settlement r = None
          then breaker_step (gr_policy r) (Reported now i (gr_decision r = GdAllowProbe) (unat (gr_circuit_epoch r)) x)
            (breaker_of l) (breaker_of l')
          else l' = l))"
proof (cases c)
  case (AdmitCall request authority)
  with call show ?thesis using admit_call_breaker [OF s lane, of request authority s'] by auto
next
  case (SettleCall i x now authority)
  with call show ?thesis using settle_call_breaker [OF s lane, of i x now authority s'] by auto
qed

theorem governor_refines_breaker_witness:
  "breaker_step demo_policy (Reported 16 ''i'' False 1 AvailabilityFailure) (breaker_of demo_lane)
     (breaker_of (the (bm_get (gs_lanes demo_opened) demo_lane_key)))"
proof -
  have s: "demo_governor = fst (gov_exec demo_governor_env governor_new [AdmitCall (demo_admission ''i'' 15) local_process])"
    by (simp add: gov_exec_def demo_admitted)
  have lane: "bm_get (gs_lanes demo_governor) demo_lane_key = Some demo_lane" by (simp add: demo_governor_def bm_get_def)
  have stored: "bm_get (gs_admissions demo_governor) ([], ''i'') = Some demo_record" by (simp add: demo_governor_def bm_get_def)
  have key: "gov_lane_key (gr_operation demo_record) (gr_policy demo_record) [] = demo_lane_key"
    by (simp add: demo_record_def gov_lane_key_def demo_lane_key_def demo_policy_def)
  from governor_refines_breaker [OF s lane, of "SettleCall ''i'' AvailabilityFailure 16 local_process" demo_opened] stored key
  show ?thesis by (auto simp: demo_reported tenant_key_def) (simp add: demo_record_def)
qed

text \<open>
  A refused admission costs nothing. When the time of the request plus the retention does not overflow, a failed \<open>admit_as\<close> leaves
  every lane as it was and removes at most expired admissions, and it fails because of the clock only when that
  clock is behind the lane's.
\<close>

theorem governor_refusal_keeps_lanes:
  assumes s: "s = fst (gov_exec env governor_new calls)" and refused: "gov_admit_as env s request authority = (s', Inl e)"
    and time: "unat (gq_admitted_at_ms request) + unat (gp_admission_retention_ms (gq_policy request)) < 2 ^ 64"
  shows "(s' = s \<or> s' = prune_memory s (gq_admitted_at_ms request)) \<and>
    (e = gov_err G_clock_backwards \<longrightarrow> (\<exists>l. bm_get (gs_lanes s)
       (gov_lane_key (gq_operation request) (gq_policy request) (tenant_key authority)) = Some l \<and>
       gq_admitted_at_ms request < ln_last_observed_at_ms l))"
proof (cases "validated_new env request authority")
  case (Inl f)
  have "f \<noteq> gov_err G_clock_backwards"
    using Inl
    by (auto simp: validated_new_def and_then_def map_err_def ok_or_def gov_err_def ef_validate_identity_def ef_err_def
        gov_validate_operation_def policy_validate_def policy_digest_def ef_validate_application_time_def Let_def
        split: sum.splits if_splits option.splits)
  with Inl refused show ?thesis by (simp add: gov_admit_as_def)
next
  case (Inr v)
  note v = validated_new_ok [OF Inr]
  have wf: "governor_wf s" unfolding s using gov_exec_inv [OF governor_inv_new] by (simp add: governor_inv_def)
  have ad: "admit_validated s v = (s', Inl e)" using refused by (simp add: gov_admit_as_def Inr)
  then show ?thesis using wf
  proof (cases rule: admit_validated_cases)
    case (repeated t r)
    then show ?thesis by (auto simp: v and_then_def validate_duplicate_def gov_err_def split: if_splits)
  next
    case (refused t f)
    then show ?thesis by (simp add: v)
  next
    case (failed t l f)
    have no_record: "gov_admission_record v epoch d \<noteq> Inl f" for epoch d
      using time by (auto simp: gov_admission_record_def v ok_or_def checked_add_def)
    with failed(5,6,8) have dec: "decide (lane_for t v) v = (l, Inl e)" by (metis prod.collapse sum.inject(1))
    have "unat (va_admitted_at_ms v) + unat (gp_admission_retention_ms (va_policy v)) < 2 ^ 64" using time by (simp add: v)
    note err = decide_error [OF dec v(2) this]
    have "bm_get (gs_lanes t) (va_lane v) \<noteq> None" using err(3) by (auto simp: lane_for_def initial_lane_def split: option.splits)
    then have stored: "bm_get (gs_lanes t) (va_lane v) = Some l" using err(1) by (auto simp: lane_for_def)
    have "bm_wf (gs_lanes t)" using wf failed(1) by (simp add: governor_wf_def)
    then have "put_lane (va_lane v) l t = t" using stored by (simp add: put_lane_def bm_insert_same)
    then have "s' = prune_memory s (gq_admitted_at_ms request)" using failed(1,4) by (simp add: v)
    moreover have "bm_get (gs_lanes s) (gov_lane_key (gq_operation request) (gq_policy request) (tenant_key authority)) = Some l \<and>
        gq_admitted_at_ms request < ln_last_observed_at_ms l"
      using stored failed(1) v(5,8,10,11) err(1,3) by simp
    ultimately show ?thesis by blast
  next
    case (recorded t l d epoch r)
    then show ?thesis by simp
  qed
qed

theorem governor_refusal_keeps_lanes_witness:
  "fst (gov_admit_as demo_governor_env demo_governor (demo_admission ''j'' 3) local_process) = prune_memory demo_governor 3"
proof -
  have s: "demo_governor = fst (gov_exec demo_governor_env governor_new [AdmitCall (demo_admission ''i'' 15) local_process])"
    by (simp add: gov_exec_def demo_admitted)
  have "ef_validate_identity ''j'' = Inr ()" by (simp add: ef_validate_identity_def MAX_EFFECT_IDENTITY_BYTES_def string_eval)
  then have "validated_new demo_governor_env (demo_admission ''j'' 3) local_process = Inr (demo_validated ''j'' 3)"
    by (intro demo_validated_new) simp_all
  moreover have "decide demo_lane (demo_validated ''j'' 3) = (demo_lane, Inl (gov_err G_clock_backwards))"
    by (simp add: decide_def demo_lane_def demo_validated_def)
  ultimately obtain s' where "gov_admit_as demo_governor_env demo_governor (demo_admission ''j'' 3) local_process =
      (s', Inl (gov_err G_clock_backwards))"
    by (simp add: gov_admit_as_def admit_validated_def prune_memory_def demo_governor_def demo_record_def demo_validated_def bm_get_def
        bm_contains_def demo_lane_key_def governor_limits validate_lane_policy_def Let_def) (simp add: demo_lane_def)
  from governor_refusal_keeps_lanes [OF s this] this show ?thesis
    by (auto simp: demo_admission_def demo_policy_def prune_memory_def demo_governor_def demo_record_def)
qed



end
