(* ===== verification/Simulation.thy ===== *)
theory Simulation
  imports Prelude
begin

text \<open>
  Sequences of calls, and the locale of a store that answers like another one. A call takes a state to the next state and a
  result; a concrete store simulates an abstract one when related states give the same result and related next states, as long
  as the call is one the concrete store can serve.
\<close>

fun run_calls :: "('s \<Rightarrow> 'c \<Rightarrow> 's \<times> 'r) \<Rightarrow> 's \<Rightarrow> 'c list \<Rightarrow> 's \<times> 'r list" where
  "run_calls call s [] = (s, [])"
| "run_calls call s (c # cs) =
     (let (s', r) = call s c; (s'', rs) = run_calls call s' cs in (s'', r # rs))"

lemma run_calls_Cons [simp]:
  "run_calls call s (c # cs) =
     (fst (run_calls call (fst (call s c)) cs), snd (call s c) # snd (run_calls call (fst (call s c)) cs))"
  by (simp add: split_def Let_def)

declare run_calls.simps(2) [simp del]

lemma run_calls_append:
  "run_calls call s (cs @ ds) =
     (fst (run_calls call (fst (run_calls call s cs)) ds), snd (run_calls call s cs) @ snd (run_calls call (fst (run_calls call s cs)) ds))"
  by (induction cs arbitrary: s) simp_all

text \<open>Every state of a run.\<close>

definition along :: "('s \<Rightarrow> 'c \<Rightarrow> 's \<times> 'r) \<Rightarrow> ('s \<Rightarrow> 'c \<Rightarrow> bool) \<Rightarrow> 's \<Rightarrow> 'c list \<Rightarrow> bool" where
  "along call P s cs \<longleftrightarrow> (\<forall>pre c post. cs = pre @ c # post \<longrightarrow> P (fst (run_calls call s pre)) c)"

lemma along_Nil [simp]: "along call P s []"
  by (simp add: along_def)

lemma along_Cons [simp]: "along call P s (c # cs) \<longleftrightarrow> P s c \<and> along call P (fst (call s c)) cs"
proof
  assume a: "along call P s (c # cs)"
  show "P s c \<and> along call P (fst (call s c)) cs"
  proof
    from a [unfolded along_def, rule_format, of "[]" c cs] show "P s c" by simp
    show "along call P (fst (call s c)) cs"
      unfolding along_def
    proof (intro allI impI)
      fix pre d post
      assume "cs = pre @ d # post"
      with a [unfolded along_def, rule_format, of "c # pre" d post] show "P (fst (run_calls call (fst (call s c)) pre)) d" by simp
    qed
  qed
next
  assume "P s c \<and> along call P (fst (call s c)) cs"
  then show "along call P s (c # cs)"
    unfolding along_def by (auto simp: Cons_eq_append_conv)
qed

locale simulation =
  fixes concrete :: "'t \<Rightarrow> 'c \<Rightarrow> 't \<times> 'r"
    and abstract :: "'s \<Rightarrow> 'c \<Rightarrow> 's \<times> 'r"
    and related :: "'t \<Rightarrow> 's \<Rightarrow> bool"
    and serves :: "'s \<Rightarrow> 'c \<Rightarrow> bool"
  assumes step: "related t s \<Longrightarrow> serves s c \<Longrightarrow>
    related (fst (concrete t c)) (fst (abstract s c)) \<and> snd (concrete t c) = snd (abstract s c)"
begin

lemma simulates:
  assumes "related t s" and "along abstract serves s cs"
  shows "related (fst (run_calls concrete t cs)) (fst (run_calls abstract s cs)) \<and>
    snd (run_calls concrete t cs) = snd (run_calls abstract s cs)"
  using assms
proof (induction cs arbitrary: t s)
  case (Cons c cs)
  from Cons.prems have "related (fst (concrete t c)) (fst (abstract s c))" "snd (concrete t c) = snd (abstract s c)"
    using step [of t s c] by auto
  with Cons.IH [of "fst (concrete t c)" "fst (abstract s c)"] Cons.prems(2) show ?case by simp
qed simp

end

end
