(* ===== verification/Governor_Sql.thy ===== *)
theory Governor_Sql
  imports Governor Simulation
begin

text \<open>
  The SQLite governor of \<^verbatim>\<open>effect/governor.rs\<close>. A table is the map from its primary key to its other columns, an
  \<open>INTEGER\<close> column an \<open>int\<close> and a \<open>TEXT\<close> column a string; a statement is the change of the table it
  describes, and a violated \<open>CHECK\<close> or key constraint is an error. A call runs in one transaction: its changes
  are kept when it succeeds and dropped when it fails. Opening the file, its locks and the journal mode are left
  out, as is a statement that fails for reasons of the file system. The encoders and parsers of the rows are parameters.
\<close>

section \<open>Rows\<close>

definition EFFECT_DISPATCH_GOVERNOR_SCHEMA_VERSION :: u32 where "EFFECT_DISPATCH_GOVERNOR_SCHEMA_VERSION = 1"
definition MAX_LANE_STATE_JSON_BYTES :: nat where "MAX_LANE_STATE_JSON_BYTES = 4096"
definition MAX_ADMISSION_JSON_BYTES :: nat where "MAX_ADMISSION_JSON_BYTES = 8192"

record governor_codec =
  gx_lane :: "lane_state \<Rightarrow> string option"
  gx_parse_lane :: "string \<Rightarrow> lane_state option"
  gx_admission :: "admission_record \<Rightarrow> string option"
  gx_parse_admission :: "string \<Rightarrow> admission_record option"

text \<open>
  The three tables: the metadata rows (singleton, schema version, number of lanes, number of admissions), the lanes with digest and state,
  the admissions with expiry, settlement and body.
\<close>

type_synonym lane_table = "(lane_key, string \<times> string) btree_map"
type_synonym admission_table = "(string \<times> string, int \<times> string option \<times> string) btree_map"

record governor_tables =
  gt_meta :: "(int \<times> int \<times> int \<times> int) list"
  gt_lanes :: lane_table
  gt_admissions :: admission_table

fun settlement_name :: "dispatch_settlement \<Rightarrow> string" where
  "settlement_name Healthy = ''healthy''"
| "settlement_name AvailabilityFailure = ''availability_failure''"
| "settlement_name Abandoned = ''abandoned''"

definition parse_settlement :: "string \<Rightarrow> dispatch_settlement result" where
  "parse_settlement value =
     (if value = ''healthy'' then Inr Healthy
      else if value = ''availability_failure'' then Inr AvailabilityFailure
      else if value = ''abandoned'' then Inr Abandoned
      else Inl (gov_err G_bad_settlement))"

definition sql_time :: "u64 \<Rightarrow> int result" where
  "sql_time v = (if unat v < 2 ^ 63 then Inr (int (unat v)) else Inl (gov_err G_sql_time))"

definition gov_validate_digest :: "string \<Rightarrow> unit result" where
  "gov_validate_digest value =
     (if length value = 64 \<and> list_all (\<lambda>b. is_ascii_digit b \<or> 97 \<le> b \<and> b \<le> 102) (str_bytes value)
      then Inr () else Inl (gov_err G_digest))"

definition validate_lane_state :: "lane_state \<Rightarrow> unit result" where
  "validate_lane_state lane =
     and_then (gov_validate_digest (ln_policy_sha256 lane)) (\<lambda>_.
     if ln_last_observed_at_ms lane = 0 \<or> ln_circuit_epoch lane = 0 \<or>
        ln_consecutive_failures lane > MAX_FAILURE_THRESHOLD then Inl (gov_err G_lane_counters)
     else if (ln_probe_admission_id lane \<noteq> None) \<noteq> (ln_probe_expires_at_ms lane \<noteq> None)
     then Inl (gov_err G_partial_probe)
     else if ln_open_until_ms lane = Some 0 \<or> ln_probe_expires_at_ms lane = Some 0
     then Inl (gov_err G_lane_deadline) else Inr ())"

definition validate_admission_record :: "governor_env \<Rightarrow> admission_record \<Rightarrow> unit result" where
  "validate_admission_record env r =
     and_then (gov_validate_operation (gr_operation r)) (\<lambda>_.
     and_then (policy_validate env (gr_policy r)) (\<lambda>_.
     and_then (gov_validate_digest (gr_policy_sha256 r)) (\<lambda>_.
     and_then (policy_digest env (gr_policy r)) (\<lambda>digest.
     if digest \<noteq> gr_policy_sha256 r then Inl (gov_err G_policy_digest)
     else and_then (ef_validate_application_time (gr_admitted_at_ms r)) (\<lambda>_.
     if gr_expires_at_ms r \<le> gr_admitted_at_ms r \<or> gr_circuit_epoch r = 0 then Inl (gov_err G_admission_timing)
     else (case gr_decision r of
        GdRateLimited retry_at_ms \<Rightarrow> if retry_at_ms < gr_admitted_at_ms r then Inl (gov_err G_retry_precedes) else Inr ()
      | GdCircuitOpen retry_at_ms \<Rightarrow> if retry_at_ms < gr_admitted_at_ms r then Inl (gov_err G_retry_precedes) else Inr ()
      | _ \<Rightarrow> Inr ()))))))"

definition gov_encode_bounded :: "('a \<Rightarrow> string option) \<Rightarrow> 'a \<Rightarrow> nat \<Rightarrow> string result" where
  "gov_encode_bounded ser v maximum =
     and_then (ok_or (gov_err G_encode) (ser v)) (\<lambda>encoded.
     if length encoded > maximum then Inl (gov_err G_too_large) else Inr encoded)"

section \<open>Statements\<close>

text \<open>\<open>bounded_text\<close>: the length of the column is read before the column.\<close>

definition gov_bounded_text :: "string \<Rightarrow> nat \<Rightarrow> string result" where
  "gov_bounded_text text maximum = (if length text \<le> maximum then Inr text else Inl (gov_err G_store))"

definition load_counts :: "governor_tables \<Rightarrow> (int \<times> int) result" where
  "load_counts t =
     (case filter (\<lambda>(singleton, _). singleton = 1) (gt_meta t) of
        (_, _, lanes, admissions) # _ \<Rightarrow> Inr (lanes, admissions)
      | [] \<Rightarrow> Inl (gov_err G_store))"

definition update_counts :: "governor_tables \<Rightarrow> int \<Rightarrow> int \<Rightarrow> governor_tables result" where
  "update_counts t lane_delta admission_delta =
     (let meta = map (\<lambda>(singleton, version, lanes, admissions).
            if singleton = 1 then (singleton, version, lanes + lane_delta, admissions + admission_delta)
            else (singleton, version, lanes, admissions)) (gt_meta t);
          changed = length (filter (\<lambda>(singleton, _). singleton = 1) (gt_meta t))
      in if list_ex (\<lambda>(_, _, lanes, admissions). lanes < 0 \<or> admissions < 0) meta then Inl (gov_err G_store)
      else if changed = 1 then Inr (t\<lparr>gt_meta := meta\<rparr>) else Inl (gov_err G_row_count))"

definition prune_sql :: "governor_tables \<Rightarrow> u64 \<Rightarrow> governor_tables result" where
  "prune_sql t at_ms =
     and_then (sql_time at_ms) (\<lambda>at.
     let kept = filter (\<lambda>(_, expires, _). \<not> expires \<le> at) (gt_admissions t);
         deleted = length (gt_admissions t) - length kept
     in if deleted = 0 then Inr t
        else update_counts (t\<lparr>gt_admissions := kept\<rparr>) 0 (- int deleted))"

definition load_lane :: "governor_codec \<Rightarrow> governor_tables \<Rightarrow> lane_key \<Rightarrow> lane_state option result" where
  "load_lane codec t key =
     (case bm_get (gt_lanes t) key of
        None \<Rightarrow> Inr None
      | Some (digest, state_json) \<Rightarrow>
          and_then (gov_bounded_text state_json MAX_LANE_STATE_JSON_BYTES) (\<lambda>encoded.
          and_then (ok_or (gov_err G_decode) (gx_parse_lane codec encoded)) (\<lambda>lane.
          if digest \<noteq> ln_policy_sha256 lane then Inl (gov_err G_row_differs)
          else and_then (validate_lane_state lane) (\<lambda>_. Inr (Some lane)))))"

definition save_lane :: "governor_codec \<Rightarrow> governor_tables \<Rightarrow> lane_key \<Rightarrow> lane_state \<Rightarrow> governor_tables result" where
  "save_lane codec t key lane =
     and_then (gov_encode_bounded (gx_lane codec) lane MAX_LANE_STATE_JSON_BYTES) (\<lambda>encoded.
     Inr (t\<lparr>gt_lanes := bm_insert key (ln_policy_sha256 lane, encoded) (gt_lanes t)\<rparr>))"

definition load_admission ::
  "governor_env \<Rightarrow> governor_codec \<Rightarrow> governor_tables \<Rightarrow> string \<Rightarrow> string \<Rightarrow> admission_record option result" where
  "load_admission env codec t tenant admission_id =
     (case bm_get (gt_admissions t) (tenant, admission_id) of
        None \<Rightarrow> Inr None
      | Some (expires_at_ms, settlement, admission_json) \<Rightarrow>
          and_then (gov_bounded_text admission_json MAX_ADMISSION_JSON_BYTES) (\<lambda>encoded.
          and_then (ok_or (gov_err G_decode) (gx_parse_admission codec encoded)) (\<lambda>r.
          and_then (validate_admission_record env r) (\<lambda>_.
          and_then (sql_time (gr_expires_at_ms r)) (\<lambda>expires.
          if expires_at_ms \<noteq> expires then Inl (gov_err G_row_differs)
          else and_then (case settlement of None \<Rightarrow> Inr None | Some name \<Rightarrow>
              and_then (parse_settlement name) (\<lambda>x. Inr (Some x))) (\<lambda>column.
          if gr_settlement r \<noteq> None \<and> gr_settlement r \<noteq> column then Inl (gov_err G_row_differs)
          else Inr (Some (r\<lparr>gr_settlement := column\<rparr>))))))))"

definition save_admission ::
  "governor_codec \<Rightarrow> governor_tables \<Rightarrow> string \<Rightarrow> string \<Rightarrow> admission_record \<Rightarrow> governor_tables result" where
  "save_admission codec t tenant admission_id r =
     and_then (gov_encode_bounded (gx_admission codec) r MAX_ADMISSION_JSON_BYTES) (\<lambda>encoded.
     and_then (sql_time (gr_expires_at_ms r)) (\<lambda>expires.
     if bm_contains (gt_admissions t) (tenant, admission_id) \<or> \<not> expires > 0 then Inl (gov_err G_store)
     else Inr (t\<lparr>gt_admissions := bm_insert (tenant, admission_id) (expires, None, encoded) (gt_admissions t)\<rparr>)))"

text \<open>\<open>UPDATE ... SET settlement = ? WHERE ... AND settlement IS NULL\<close>, with the number of rows it changed.\<close>

definition update_settlement ::
  "governor_tables \<Rightarrow> string \<Rightarrow> string \<Rightarrow> dispatch_settlement \<Rightarrow> governor_tables result" where
  "update_settlement t tenant admission_id settlement =
     (case bm_get (gt_admissions t) (tenant, admission_id) of
        Some (_, None, _) \<Rightarrow>
          Inr (t\<lparr>gt_admissions := bm_update (tenant, admission_id)
            (\<lambda>(expires, _, body). (expires, Some (settlement_name settlement), body)) (gt_admissions t)\<rparr>)
      | _ \<Rightarrow> Inl (gov_err G_row_count))"

section \<open>Calls\<close>

definition sql_admit_body ::
  "governor_env \<Rightarrow> governor_codec \<Rightarrow> governor_tables \<Rightarrow> validated_admission \<Rightarrow> (governor_tables \<times> admission_decision) result"
where
  "sql_admit_body env codec t0 v =
     (let tenant = fst (va_lane v) in
     and_then (prune_sql t0 (va_admitted_at_ms v)) (\<lambda>t.
     and_then (load_admission env codec t tenant (va_admission_id v)) (\<lambda>found.
     case found of
       Some existing \<Rightarrow> and_then (validate_duplicate existing v) (\<lambda>_. Inr (t, gr_decision existing))
     | None \<Rightarrow>
         and_then (load_counts t) (\<lambda>(lane_count, admission_count).
         if admission_count \<ge> int MAX_ADMISSIONS then Inl (gov_err G_admissions_full)
         else and_then (load_lane codec t (va_lane v)) (\<lambda>existing_lane.
         if existing_lane = None \<and> lane_count \<ge> int MAX_LANES then Inl (gov_err G_lanes_full)
         else
           let lane = (case existing_lane of Some lane \<Rightarrow> lane | None \<Rightarrow> initial_lane v) in
           and_then (validate_lane_policy lane (va_policy_sha256 v)) (\<lambda>_.
           case decide lane v of
             (_, Inl e) \<Rightarrow> Inl e
           | (lane', Inr (decision, epoch)) \<Rightarrow>
               and_then (save_lane codec t (va_lane v) lane') (\<lambda>t.
               and_then (if existing_lane = None then update_counts t 1 0 else Inr t) (\<lambda>t.
               and_then (gov_admission_record v epoch decision) (\<lambda>r.
               and_then (save_admission codec t tenant (va_admission_id v) r) (\<lambda>t.
               and_then (update_counts t 0 1) (\<lambda>t.
               Inr (t, decision))))))))))))"

definition sql_admit_as ::
  "governor_env \<Rightarrow> governor_codec \<Rightarrow> governor_tables \<Rightarrow> admission_request \<Rightarrow> authority_context \<Rightarrow>
   governor_tables \<times> admission_decision result" where
  "sql_admit_as env codec t request authority =
     (case and_then (validated_new env request authority) (sql_admit_body env codec t) of
        Inl e \<Rightarrow> (t, Inl e)
      | Inr (t', decision) \<Rightarrow> (t', Inr decision))"

definition sql_settle_body ::
  "governor_env \<Rightarrow> governor_codec \<Rightarrow> governor_tables \<Rightarrow> string \<Rightarrow> string \<Rightarrow> dispatch_settlement \<Rightarrow> u64 \<Rightarrow>
   governor_tables result" where
  "sql_settle_body env codec t tenant admission_id settlement settled_at_ms =
     and_then (load_admission env codec t tenant admission_id) (\<lambda>found.
     and_then (ok_or (gov_err G_missing_admission) found) (\<lambda>r.
     and_then (validate_settlement_record r settlement settled_at_ms) (\<lambda>_.
     if gr_settlement r \<noteq> None then Inr t
     else let key = gov_lane_key (gr_operation r) (gr_policy r) tenant in
       and_then (load_lane codec t key) (\<lambda>found_lane.
       and_then (ok_or (gov_err G_missing_lane) found_lane) (\<lambda>lane.
       case apply_settlement lane admission_id r settlement settled_at_ms of
         (_, Inl e) \<Rightarrow> Inl e
       | (lane', Inr _) \<Rightarrow>
           and_then (save_lane codec t key lane') (\<lambda>t.
           update_settlement t tenant admission_id settlement))))))"

definition sql_settle_as ::
  "governor_env \<Rightarrow> governor_codec \<Rightarrow> governor_tables \<Rightarrow> string \<Rightarrow> dispatch_settlement \<Rightarrow> u64 \<Rightarrow> authority_context \<Rightarrow>
   governor_tables \<times> unit result" where
  "sql_settle_as env codec t admission_id settlement settled_at_ms authority =
     (case and_then (validate_settlement admission_id settled_at_ms authority)
        (\<lambda>_. sql_settle_body env codec t (tenant_key authority) admission_id settlement settled_at_ms) of
        Inl e \<Rightarrow> (t, Inl e)
      | Inr t' \<Rightarrow> (t', Inr ()))"

section \<open>Opening\<close>

text \<open>A file with some of the three tables. \<open>length(CAST(x AS BLOB))\<close> counts bytes, \<open>length(x)\<close> of a text counts characters.\<close>

record governor_file =
  gf_meta :: "(int \<times> int \<times> int \<times> int) list option"
  gf_lanes :: "lane_table option"
  gf_admissions :: "admission_table option"

definition invalid_lane_row :: "lane_key \<times> string \<times> string \<Rightarrow> bool" where
  "invalid_lane_row = (\<lambda>((tenant, capability, operation, policy), digest, state_json).
     length tenant > 128 \<or> length capability = 0 \<or> length capability > 128 \<or> length operation = 0 \<or> length operation > 128 \<or>
     length policy = 0 \<or> length policy > MAX_POLICY_ID_BYTES \<or> length (str_chars digest) \<noteq> 64 \<or>
     length state_json > MAX_LANE_STATE_JSON_BYTES)"

definition invalid_admission_row :: "(string \<times> string) \<times> int \<times> string option \<times> string \<Rightarrow> bool" where
  "invalid_admission_row = (\<lambda>((tenant, admission_id), expires, settlement, admission_json).
     length tenant > 128 \<or> length admission_id = 0 \<or> length admission_id > 256 \<or> expires \<le> 0 \<or>
     (case settlement of None \<Rightarrow> False | Some name \<Rightarrow> name \<notin> {''healthy'', ''availability_failure'', ''abandoned''}) \<or>
     length admission_json > MAX_ADMISSION_JSON_BYTES)"

definition validate_store :: "governor_tables \<Rightarrow> unit result" where
  "validate_store t =
     (case gt_meta t of
        [(singleton, version, lanes, admissions)] \<Rightarrow>
          if singleton \<noteq> 1 \<or> version \<noteq> uint EFFECT_DISPATCH_GOVERNOR_SCHEMA_VERSION \<or> lanes < 0 \<or> admissions < 0
          then Inl (gov_err G_store)
          else
            let invalid_lanes = length (filter invalid_lane_row (gt_lanes t));
                invalid_admissions = length (filter invalid_admission_row (gt_admissions t));
                lane_count = length (gt_lanes t);
                admission_count = length (gt_admissions t)
            in if invalid_lanes \<noteq> 0 \<or> invalid_admissions \<noteq> 0 \<or> lanes \<noteq> int lane_count \<or>
                admissions \<noteq> int admission_count \<or> lane_count > MAX_LANES \<or> admission_count > MAX_ADMISSIONS
              then Inl (gov_err G_store) else Inr ()
      | _ \<Rightarrow> Inl (gov_err G_store))"

definition initialize_or_validate :: "governor_file \<Rightarrow> governor_tables result" where
  "initialize_or_validate file =
     (case (gf_meta file, gf_lanes file, gf_admissions file) of
        (None, None, None) \<Rightarrow> Inr \<lparr>gt_meta = [(1, 1, 0, 0)], gt_lanes = [], gt_admissions = []\<rparr>
      | (Some meta, Some lanes, Some admissions) \<Rightarrow>
          let t = \<lparr>gt_meta = meta, gt_lanes = lanes, gt_admissions = admissions\<rparr> in
          and_then (validate_store t) (\<lambda>_. Inr t)
      | _ \<Rightarrow> Inl (gov_err G_store))"

definition validate_existing_store :: "governor_file \<Rightarrow> unit result" where
  "validate_existing_store file =
     (case (gf_meta file, gf_lanes file, gf_admissions file) of
        (None, None, None) \<Rightarrow> Inr ()
      | (Some meta, Some lanes, Some admissions) \<Rightarrow>
          validate_store \<lparr>gt_meta = meta, gt_lanes = lanes, gt_admissions = admissions\<rparr>
      | _ \<Rightarrow> Inl (gov_err G_store))"

section \<open>The abstract governor\<close>

text \<open>The memory governor with failed calls undone: what a transaction promises.\<close>

definition gov_atomic_admit ::
  "governor_env \<Rightarrow> governor_state \<Rightarrow> admission_request \<Rightarrow> authority_context \<Rightarrow> governor_state \<times> admission_decision result" where
  "gov_atomic_admit env s request authority =
     (case gov_admit_as env s request authority of (s', Inr d) \<Rightarrow> (s', Inr d) | (_, Inl e) \<Rightarrow> (s, Inl e))"

definition gov_atomic_settle ::
  "governor_state \<Rightarrow> string \<Rightarrow> dispatch_settlement \<Rightarrow> u64 \<Rightarrow> authority_context \<Rightarrow> governor_state \<times> unit result" where
  "gov_atomic_settle s admission_id settlement now authority =
     (case gov_settle_as s admission_id settlement now authority of (s', Inr u) \<Rightarrow> (s', Inr u) | (_, Inl e) \<Rightarrow> (s, Inl e))"

section \<open>Valid states\<close>

lemma gov_validate_digest_ok: "length b = 32 \<Longrightarrow> gov_validate_digest (lower_hex b) = Inr ()"
  using lower_hex_is_lower_hex [of b]
  by (simp add: gov_validate_digest_def is_lower_hex_byte_def list_all_iff is_ascii_digit_def)

fun lane_key_ok :: "lane_key \<Rightarrow> bool" where
  "lane_key_ok (tenant, capability, operation, policy) \<longleftrightarrow> length tenant \<le> 128 \<and> valid_capability_name capability \<and>
     valid_capability_name operation \<and> valid_capability_name policy"

definition lane_valid :: "lane_key \<Rightarrow> lane_state \<Rightarrow> bool" where
  "lane_valid k l \<longleftrightarrow> validate_lane_state l = Inr () \<and>
     (ln_open_until_ms l = None \<longrightarrow> ln_consecutive_failures l < MAX_FAILURE_THRESHOLD) \<and> lane_key_ok k"

lemma lane_valid_iff:
  "lane_valid k l \<longleftrightarrow> gov_validate_digest (ln_policy_sha256 l) = Inr () \<and> ln_last_observed_at_ms l \<noteq> 0 \<and> ln_circuit_epoch l \<noteq> 0 \<and>
     ln_consecutive_failures l \<le> MAX_FAILURE_THRESHOLD \<and>
     ((ln_probe_admission_id l = None) = (ln_probe_expires_at_ms l = None)) \<and> ln_open_until_ms l \<noteq> Some 0 \<and>
     ln_probe_expires_at_ms l \<noteq> Some 0 \<and> (ln_open_until_ms l = None \<longrightarrow> ln_consecutive_failures l < MAX_FAILURE_THRESHOLD) \<and>
     lane_key_ok k"
  by (auto simp: lane_valid_def validate_lane_state_def and_then_eq_Inr not_less split: if_splits)

definition admission_valid :: "governor_env \<Rightarrow> string \<times> string \<Rightarrow> admission_record \<Rightarrow> bool" where
  "admission_valid env a r \<longleftrightarrow> validate_admission_record env (r\<lparr>gr_settlement := None\<rparr>) = Inr () \<and>
     length (fst a) \<le> 128 \<and> snd a \<noteq> [] \<and> length (snd a) \<le> 256"

definition governor_valid :: "governor_env \<Rightarrow> governor_state \<Rightarrow> bool" where
  "governor_valid env s \<longleftrightarrow> governor_inv s \<and> bm_all lane_valid (gs_lanes s) \<and> bm_all (admission_valid env) (gs_admissions s) \<and>
     length (gs_lanes s) \<le> MAX_LANES \<and> length (gs_admissions s) \<le> MAX_ADMISSIONS"

lemma tenant_key_bound: "valid_authority authority \<Longrightarrow> length (tenant_key authority) \<le> 128"
  by (auto simp: tenant_key_def valid_authority_def valid_tenant_def validate_tenant_id_def split: option.splits if_splits)

lemma gov_names_ok: "gov_validate_operation op = Inr () \<longleftrightarrow> valid_capability_name (eo_capability op) \<and> valid_capability_name (eo_operation op)"
  by (simp add: gov_validate_operation_def and_then_eq_Inr map_err_eq_Inr validate_capability_name_ok)

lemma policy_name_ok: "policy_validate env p = Inr () \<Longrightarrow> valid_capability_name (gp_policy_id p)"
  by (simp add: policy_validate_def and_then_eq_Inr map_err_eq_Inr validate_capability_name_ok)

text \<open>A lane that is valid stays so through decisions and settlements that succeed.\<close>

lemma lane_valid_initial:
  assumes v: "validated_new env request authority = Inr v" and sha: "\<forall>b. length (ge_sha256 env b) = 32"
  shows "lane_valid (va_lane v) (initial_lane v)"
proof -
  note ok = validated_new_ok [OF v]
  obtain b where "va_policy_sha256 v = lower_hex (ge_sha256 env b)"
    using ok(3) by (auto simp: policy_digest_def and_then_eq_Inr dest: sym split: if_splits)
  then have "gov_validate_digest (va_policy_sha256 v) = Inr ()" using sha by (simp add: gov_validate_digest_ok)
  with ok show ?thesis
    using tenant_key_bound [OF ok(1)] policy_name_ok [OF ok(2)]
    by (simp add: lane_valid_iff initial_lane_def gov_lane_key_def gov_names_ok governor_limits)
qed

lemma lane_valid_decide:
  assumes "lane_valid k l" and "lane_ok l" and dec: "decide l v = (l', Inr de)" and "va_admitted_at_ms v \<noteq> 0"
  shows "lane_valid k l'"
proof -
  have probe: "ln_probe_expires_at_ms l' \<noteq> Some 0"
  proof -
    have "checked_add (va_admitted_at_ms v) x \<noteq> Some 0" for x
      using assms(4) by (auto simp: checked_add_Some unat_gt_0)
    with assms(1) dec show ?thesis
      by (auto simp: lane_valid_iff decide_def decide_open_def decide_closed_def observe_def Let_def
          split: if_splits option.splits)
  qed
  have pair: "(ln_probe_admission_id l' = None) = (ln_probe_expires_at_ms l' = None)"
    using decide_lane_ok [OF dec assms(2)] by (auto simp: lane_ok_def)
  from assms(1,4) decide_frame [OF dec] probe pair show ?thesis
    by (simp add: lane_valid_iff)
qed

lemma trip_valid:
  assumes "trip l now duration = (l', Inr ())" and "lane_valid k (l\<lparr>ln_consecutive_failures := 0, ln_open_until_ms := None\<rparr>)"
    and "ln_consecutive_failures l \<le> MAX_FAILURE_THRESHOLD" and "now \<noteq> 0"
  shows "lane_valid k l'"
proof -
  have "checked_add a b \<noteq> Some 0" if "a \<noteq> 0" for a b :: u64
    using that by (auto simp: checked_add_Some unat_gt_0)
  with assms show ?thesis
    by (auto simp: trip_def lane_valid_iff Let_def split: option.splits)
qed

lemma lane_valid_settle:
  assumes valid: "lane_valid k l" and ok: "lane_ok l" and settle: "apply_settlement l i r x now = (l', Inr ())"
    and r: "policy_validate env (gr_policy r) = Inr ()"
    and allow: "gr_decision r = GdAllow \<Longrightarrow> ln_open_until_ms l \<noteq> None \<Longrightarrow> gr_circuit_epoch r < ln_circuit_epoch l"
      "gr_decision r = GdAllow \<or> gr_decision r = GdAllowProbe"
  shows "lane_valid k l'"
proof (cases "ignores l i r")
  case True
  with settle valid show ?thesis by (simp add: apply_settlement_eq)
next
  case False
  define t where "t = max now (ln_last_observed_at_ms l)"
  define m where "m = l\<lparr>ln_last_observed_at_ms := t\<rparr>"
  have eq: "(if gr_decision r = GdAllowProbe then settle_probe m r x t else settle_normal m r x t) = (l', Inr ())"
    using settle False by (simp only: apply_settlement_eq Let_def m_def t_def if_False)
  have t: "t \<noteq> 0" using valid by (auto simp: lane_valid_iff t_def max_def)
  then have m: "lane_valid k m" using valid by (simp add: lane_valid_iff m_def)
  then have reset: "lane_valid k (m\<lparr>ln_consecutive_failures := 0, ln_open_until_ms := None\<rparr>)"
    by (simp add: lane_valid_iff governor_limits)
  have threshold: "gp_failure_threshold (gr_policy r) \<le> MAX_FAILURE_THRESHOLD"
    using policy_validate_ok(5) [OF r] by (simp add: governor_limits word_le_nat_alt)
  show ?thesis
  proof (cases "gr_decision r = GdAllowProbe")
    case True
    with eq have probe: "settle_probe m r x t = (l', Inr ())" by simp
    show ?thesis
    proof (cases x)
      case AvailabilityFailure
      with probe obtain n where n: "trip m t (gp_open_duration_ms (gr_policy r)) = (n, Inr ())"
        "l' = n\<lparr>ln_consecutive_failures := gp_failure_threshold (gr_policy r)\<rparr>"
        by (auto simp: settle_probe_def split: prod.splits sum.splits)
      have "lane_valid k n" by (rule trip_valid [OF n(1) reset _ t]) (use m in \<open>simp add: lane_valid_iff\<close>)
      moreover have "ln_open_until_ms n \<noteq> None" using n(1) by (auto simp: trip_def Let_def split: option.splits)
      ultimately show ?thesis using threshold by (auto simp: n(2) lane_valid_iff)
    next
      case Healthy
      with probe have "l' = m\<lparr>ln_open_until_ms := None, ln_probe_admission_id := None, ln_probe_expires_at_ms := None,
          ln_consecutive_failures := 0\<rparr>" by (simp add: settle_probe_def)
      with m show ?thesis by (simp add: lane_valid_iff governor_limits)
    next
      case Abandoned
      with probe have "l' = m\<lparr>ln_probe_admission_id := None, ln_probe_expires_at_ms := None\<rparr>" by (simp add: settle_probe_def)
      with m show ?thesis by (simp add: lane_valid_iff)
    qed
  next
    case normal: False
    with False allow have closed: "ln_open_until_ms l = None" by (cases "ln_open_until_ms l") (auto simp: ignores_def)
    then have below: "ln_consecutive_failures m < MAX_FAILURE_THRESHOLD" using valid by (simp add: lane_valid_iff m_def)
    from eq normal have st: "settle_normal m r x t = (l', Inr ())" by simp
    show ?thesis
    proof (cases x)
      case AvailabilityFailure
      with st obtain n where n: "unat n = Suc (unat (ln_consecutive_failures m))"
        "(if n \<ge> gp_failure_threshold (gr_policy r)
          then trip (m\<lparr>ln_consecutive_failures := n\<rparr>) t (gp_open_duration_ms (gr_policy r))
          else (m\<lparr>ln_consecutive_failures := n\<rparr>, Inr ())) = (l', Inr ())"
        by (auto simp: settle_normal_def Let_def checked_add_Some split: option.splits)
      have small: "n \<le> MAX_FAILURE_THRESHOLD" using n(1) below by (simp add: word_le_nat_alt word_less_nat_alt)
      show ?thesis
      proof (cases "n \<ge> gp_failure_threshold (gr_policy r)")
        case True
        with n(2) have "trip (m\<lparr>ln_consecutive_failures := n\<rparr>) t (gp_open_duration_ms (gr_policy r)) = (l', Inr ())" by simp
        then show ?thesis by (rule trip_valid) (use reset small t in simp_all)
      next
        case False
        then have "n < MAX_FAILURE_THRESHOLD" using threshold by simp
        moreover have "l' = m\<lparr>ln_consecutive_failures := n\<rparr>" using n(2) False by simp
        ultimately show ?thesis using m small by (simp add: lane_valid_iff)
      qed
    next
      case Healthy
      with st have "l' = m\<lparr>ln_consecutive_failures := 0\<rparr>" by (simp add: settle_normal_def)
      with m show ?thesis by (simp add: lane_valid_iff governor_limits)
    qed (use st m in \<open>simp add: settle_normal_def\<close>)
  qed
qed

lemma decide_retry:
  assumes "decide l v = (l', Inr (d, epoch))" and "gp_window_ms (va_policy v) \<noteq> 0"
  shows "d = GdRateLimited t \<Longrightarrow> va_admitted_at_ms v \<le> t" "d = GdCircuitOpen t \<Longrightarrow> va_admitted_at_ms v \<le> t"
proof -
  have window: "va_admitted_at_ms v \<le> t"
    if "checked_add (fixed_window_start (va_admitted_at_ms v) (gp_window_ms (va_policy v))) (gp_window_ms (va_policy v)) = Some t"
  proof -
    let ?n = "unat (va_admitted_at_ms v)" and ?w = "unat (gp_window_ms (va_policy v))"
    have "0 < ?w" using assms(2) by (simp add: unat_gt_0)
    then have "?w * (?n div ?w) + ?n mod ?w = ?n" "?n mod ?w < ?w" by simp_all
    with that show ?thesis unfolding checked_add_Some fixed_window_start_nat word_le_nat_alt by linarith
  qed
  with assms(1) show "d = GdRateLimited t \<Longrightarrow> va_admitted_at_ms v \<le> t" "d = GdCircuitOpen t \<Longrightarrow> va_admitted_at_ms v \<le> t"
    by (auto simp: decide_def decide_open_def decide_closed_def observe_def Let_def split: if_splits option.splits)
qed

lemma record_valid:
  assumes v: "validated_new env request authority = Inr v" and sha: "\<forall>b. length (ge_sha256 env b) = 32"
    and dec: "decide l v = (l', Inr (d, epoch))" and "ln_circuit_epoch l \<noteq> 0"
    and r: "gov_admission_record v epoch d = Inr r"
  shows "admission_valid env (admission_key v) r"
proof -
  note ok = validated_new_ok [OF v] and rec = record_of_admission [OF r]
  note p = policy_validate_ok [OF ok(2)]
  obtain b where "va_policy_sha256 v = lower_hex (ge_sha256 env b)"
    using ok(3) by (auto simp: policy_digest_def and_then_eq_Inr dest: sym split: if_splits)
  then have digest: "gov_validate_digest (va_policy_sha256 v) = Inr ()" using sha by (simp add: gov_validate_digest_ok)
  have expires: "\<not> gr_expires_at_ms r \<le> va_admitted_at_ms v" using rec(8) p(3,8) by (simp add: word_le_nat_alt)
  have "gp_window_ms (va_policy v) \<noteq> 0" using p(3) by auto
  note retry = decide_retry [OF dec this]
  have "epoch \<noteq> 0" using assms(4) decide_result(1) [OF dec] decide_frame(2) [OF dec] by simp
  moreover have "length (tenant_key authority) \<le> 128" by (rule tenant_key_bound [OF ok(1)])
  moreover have "va_admission_id v \<noteq> [] \<and> length (va_admission_id v) \<le> 256"
    using ok(7) by (auto simp: ef_validate_identity_def MAX_EFFECT_IDENTITY_BYTES_def split: if_splits)
  ultimately show ?thesis
    using ok expires digest retry
    by (cases d) (auto simp: admission_valid_def validate_admission_record_def rec admission_key_def gov_lane_key_def
        ef_validate_application_time_def not_less)
qed

section \<open>Tables and states\<close>

definition lane_row :: "governor_codec \<Rightarrow> string \<times> string \<Rightarrow> lane_state \<Rightarrow> bool" where
  "lane_row codec = (\<lambda>(digest, json) l. digest = ln_policy_sha256 l \<and> gx_lane codec l = Some json \<and>
     gx_parse_lane codec json = Some l \<and> length json \<le> MAX_LANE_STATE_JSON_BYTES)"

definition admission_row :: "governor_codec \<Rightarrow> int \<times> string option \<times> string \<Rightarrow> admission_record \<Rightarrow> bool" where
  "admission_row codec = (\<lambda>(expires, settlement, json) r. sql_time (gr_expires_at_ms r) = Inr expires \<and> 0 < expires \<and>
     settlement = map_option settlement_name (gr_settlement r) \<and> gx_admission codec (r\<lparr>gr_settlement := None\<rparr>) = Some json \<and>
     gx_parse_admission codec json = Some (r\<lparr>gr_settlement := None\<rparr>) \<and> length json \<le> MAX_ADMISSION_JSON_BYTES)"

definition tables_for :: "governor_codec \<Rightarrow> governor_tables \<Rightarrow> governor_state \<Rightarrow> bool" where
  "tables_for codec t s \<longleftrightarrow> gt_meta t = [(1, 1, int (length (gs_lanes s)), int (length (gs_admissions s)))] \<and>
     bm_rel (lane_row codec) (gt_lanes t) (gs_lanes s) \<and> bm_rel (admission_row codec) (gt_admissions t) (gs_admissions s)"

lemma parse_settlement_name [simp]: "parse_settlement (settlement_name x) = Inr x"
  by (cases x) (simp_all add: parse_settlement_def)

lemma load_lane_ok:
  assumes "tables_for codec t s" and "bm_all lane_valid (gs_lanes s)"
  shows "load_lane codec t k = Inr (bm_get (gs_lanes s) k)"
proof -
  have "rel_option (lane_row codec) (bm_get (gt_lanes t) k) (bm_get (gs_lanes s) k)"
    using assms(1) by (intro bm_rel_get) (simp add: tables_for_def)
  moreover have "validate_lane_state l = Inr ()" if "bm_get (gs_lanes s) k = Some l" for l
    using assms(2) that by (auto simp: lane_valid_def dest: bm_allD)
  ultimately show ?thesis
    by (cases "bm_get (gs_lanes s) k") (auto simp: load_lane_def lane_row_def gov_bounded_text_def option_rel_Some2)
qed

lemma load_admission_ok:
  assumes "tables_for codec t s" and "bm_all (admission_valid env) (gs_admissions s)"
  shows "load_admission env codec t tenant i = Inr (bm_get (gs_admissions s) (tenant, i))"
proof -
  have row: "rel_option (admission_row codec) (bm_get (gt_admissions t) (tenant, i)) (bm_get (gs_admissions s) (tenant, i))"
    using assms(1) by (intro bm_rel_get) (simp add: tables_for_def)
  show ?thesis
  proof (cases "bm_get (gs_admissions s) (tenant, i)")
    case None
    with row show ?thesis by (simp add: load_admission_def)
  next
    case (Some r)
    with row obtain expires settlement json where
      t: "bm_get (gt_admissions t) (tenant, i) = Some (expires, settlement, json)" "admission_row codec (expires, settlement, json) r"
      by (auto simp: option_rel_Some2)
    define q where "q = r\<lparr>gr_settlement := None\<rparr>"
    have q: "gr_settlement q = None" "gr_expires_at_ms q = gr_expires_at_ms r" "q\<lparr>gr_settlement := gr_settlement r\<rparr> = r"
      by (simp_all add: q_def)
    have "validate_admission_record env q = Inr ()"
      using assms(2) Some by (auto simp: admission_valid_def q_def dest: bm_allD)
    moreover have "gx_parse_admission codec json = Some q" "sql_time (gr_expires_at_ms q) = Inr expires"
      "settlement = map_option settlement_name (gr_settlement r)" "length json \<le> MAX_ADMISSION_JSON_BYTES"
      using t(2) by (simp_all add: admission_row_def q_def)
    ultimately show ?thesis
      using t(1) q(1,3) Some by (cases "gr_settlement r") (simp_all add: load_admission_def gov_bounded_text_def)
  qed
qed

lemma admission_row_expiry: "admission_row codec row r \<Longrightarrow> fst row = int (unat (gr_expires_at_ms r))"
  by (auto simp: admission_row_def sql_time_def split: if_splits)

lemma prune_admissions: "gs_admissions (prune_memory s t) = filter (\<lambda>(_, r). t < gr_expires_at_ms r) (gs_admissions s)"
  by (simp add: prune_memory_def)

lemma prune_sql_ok:
  assumes rel: "tables_for codec t s" and time: "unat now < 2 ^ 63"
  obtains t' where "prune_sql t now = Inr t'" "tables_for codec t' (prune_memory s now)"
proof -
  have at: "sql_time now = Inr (int (unat now))" using time by (simp only: sql_time_def if_True)
  let ?kept = "filter (\<lambda>(_, expires, _). \<not> expires \<le> int (unat now)) (gt_admissions t)"
  have kept: "bm_rel (admission_row codec) ?kept (gs_admissions (prune_memory s now))"
    unfolding prune_admissions
  proof (rule bm_rel_filter)
    show "bm_rel (admission_row codec) (gt_admissions t) (gs_admissions s)" using rel by (simp add: tables_for_def)
    fix k row r
    assume "admission_row codec row r"
    then show "(\<lambda>(_, expires, _). \<not> expires \<le> int (unat now)) (k, row) = (\<lambda>(_, r). now < gr_expires_at_ms r) (k, r)"
      using admission_row_expiry [of codec row r] by (cases row) (simp add: word_less_nat_alt not_le del: of_nat_unat)
  qed
  have len: "length (gt_admissions t) = length (gs_admissions s)" "length ?kept = length (gs_admissions (prune_memory s now))"
    using rel bm_rel_length [OF kept] bm_rel_length [of "admission_row codec" "gt_admissions t" "gs_admissions s"]
    by (simp_all only: tables_for_def)
  define deleted where "deleted = length (gt_admissions t) - length ?kept"
  have kept_le: "length ?kept \<le> length (gt_admissions t)" by (rule length_filter_le)
  show thesis
  proof (cases "deleted = 0")
    case True
    then have "?kept = gt_admissions t" using kept_le
      by (metis deleted_def diff_is_0_eq filter_True length_filter_less not_le)
    with True that [of t] rel kept len show thesis
      by (simp add: prune_sql_def at deleted_def tables_for_def)
  next
    case False
    let ?t = "t\<lparr>gt_admissions := ?kept, gt_meta := [(1, 1, int (length (gs_lanes s)), int (length (gs_admissions (prune_memory s now))))]\<rparr>"
    have "prune_sql t now = Inr ?t"
      using False rel len kept_le
      by (simp add: prune_sql_def at deleted_def [symmetric] Let_def update_counts_def tables_for_def) (simp add: deleted_def)
    with that [of ?t] kept rel show thesis by (simp add: tables_for_def)
  qed
qed

section \<open>The transactions\<close>

definition lane_fits :: "governor_codec \<Rightarrow> lane_state \<Rightarrow> bool" where
  "lane_fits codec l \<longleftrightarrow> (\<exists>json. lane_row codec (ln_policy_sha256 l, json) l)"

definition admission_fits :: "governor_codec \<Rightarrow> admission_record \<Rightarrow> bool" where
  "admission_fits codec r \<longleftrightarrow> (\<exists>json. gx_admission codec r = Some json \<and> gx_parse_admission codec json = Some r \<and>
     length json \<le> MAX_ADMISSION_JSON_BYTES)"

lemma save_lane_ok:
  assumes "lane_fits codec l"
  obtains json where "save_lane codec t k l = Inr (t\<lparr>gt_lanes := bm_insert k (ln_policy_sha256 l, json) (gt_lanes t)\<rparr>)"
    "lane_row codec (ln_policy_sha256 l, json) l"
  using assms by (auto simp: lane_fits_def lane_row_def save_lane_def gov_encode_bounded_def)

lemma lane_length_insert:
  "bm_wf m \<Longrightarrow> int (length (bm_insert k v m)) = int (length m) + (if bm_contains m k then 0 else 1)"
  by (simp add: bm.length_put bm_contains_def bm.get_None_iff)

text \<open>Storing a lane and a new admission, with the counts.\<close>

lemma sql_store_ok:
  assumes rel: "tables_for codec t s" and wf: "governor_wf s" and lane: "lane_fits codec l" and adm: "admission_fits codec r"
    and r: "gr_settlement r = None" "unat (gr_expires_at_ms r) < 2 ^ 63" "gr_expires_at_ms r \<noteq> 0"
    and fresh: "\<not> bm_contains (gs_admissions s) (tenant, i)"
  obtains t' where "and_then (save_lane codec t k l) (\<lambda>t.
      and_then (if bm_get (gs_lanes s) k = None then update_counts t 1 0 else Inr t) (\<lambda>t.
      and_then (save_admission codec t tenant i r) (\<lambda>t. and_then (update_counts t 0 1) (\<lambda>t. Inr (t, d))))) = Inr (t', d)"
    "tables_for codec t' (put_admission (tenant, i) r (put_lane k l s))"
proof -
  from lane obtain json where sl: "save_lane codec t k l = Inr (t\<lparr>gt_lanes := bm_insert k (ln_policy_sha256 l, json) (gt_lanes t)\<rparr>)"
    "lane_row codec (ln_policy_sha256 l, json) l" by (rule save_lane_ok)
  from adm obtain body where body: "gx_admission codec r = Some body" "gx_parse_admission codec body = Some r"
    "length body \<le> MAX_ADMISSION_JSON_BYTES" by (auto simp: admission_fits_def)
  have expires: "sql_time (gr_expires_at_ms r) = Inr (int (unat (gr_expires_at_ms r)))" "0 < int (unat (gr_expires_at_ms r))"
    using r by (simp_all add: sql_time_def unat_gt_0 del: of_nat_unat)
  let ?row = "(int (unat (gr_expires_at_ms r)), None, body)"
  have "r\<lparr>gr_settlement := None\<rparr> = r" using r(1) by simp
  then have row: "admission_row codec ?row r" using body expires r(1) by (simp only: admission_row_def prod.case option.map)
  have "\<not> bm_contains (gt_admissions t) (tenant, i)"
    using rel fresh bm_rel_contains [of "admission_row codec" "gt_admissions t" "gs_admissions s"] by (simp add: tables_for_def)
  with body expires have sa: "save_admission codec u tenant i r =
      Inr (u\<lparr>gt_admissions := bm_insert (tenant, i) ?row (gt_admissions u)\<rparr>)" if "gt_admissions u = gt_admissions t" for u
    using that by (simp add: save_admission_def gov_encode_bounded_def)
  let ?s = "put_admission (tenant, i) r (put_lane k l s)"
  let ?t = "t\<lparr>gt_lanes := bm_insert k (ln_policy_sha256 l, json) (gt_lanes t),
    gt_meta := [(1, 1, int (length (gs_lanes ?s)), int (length (gs_admissions ?s)))],
    gt_admissions := bm_insert (tenant, i) ?row (gt_admissions t)\<rparr>"
  have len: "int (length (gs_lanes ?s)) = int (length (gs_lanes s)) + (if bm_get (gs_lanes s) k = None then 1 else 0)"
    "int (length (gs_admissions ?s)) = int (length (gs_admissions s)) + 1"
    using wf fresh by (simp_all add: lane_length_insert governor_wf_def bm_contains_def)
  have "tables_for codec ?t ?s"
    using rel sl(2) row by (simp add: tables_for_def bm_rel_insert)
  moreover have "and_then (save_lane codec t k l) (\<lambda>t.
      and_then (if bm_get (gs_lanes s) k = None then update_counts t 1 0 else Inr t) (\<lambda>t.
      and_then (save_admission codec t tenant i r) (\<lambda>t. and_then (update_counts t 0 1) (\<lambda>t. Inr (t, d))))) = Inr (?t, d)"
  proof (cases "bm_get (gs_lanes s) k = None")
    case True
    then show ?thesis
      using rel unfolding sl(1) len by (simp add: update_counts_def tables_for_def sa add.commute)
  next
    case False
    then show ?thesis
      using rel unfolding sl(1) len by (simp add: update_counts_def tables_for_def sa add.commute)
  qed
  ultimately show thesis using that by blast
qed

lemma governor_valid_prune: "governor_valid env s \<Longrightarrow> governor_valid env (prune_memory s now)"
  using length_filter_le [of "\<lambda>(_, r). now < gr_expires_at_ms r" "gs_admissions s"]
  by (simp add: governor_valid_def) (simp add: prune_admissions bm_all_filter governor_inv_def governor_wf_def le_trans [OF length_filter_le])

lemma lane_for_valid:
  assumes "governor_valid env s" and "validated_new env request authority = Inr v" and "\<forall>b. length (ge_sha256 env b) = 32"
  shows "lane_valid (va_lane v) (lane_for s v)"
  using assms lane_valid_initial [OF assms(2,3)]
  by (auto simp: lane_for_def governor_valid_def split: option.split dest: bm_allD)

lemma admit_valid:
  assumes valid: "governor_valid env s0" and v: "validated_new env request authority = Inr v"
    and sha: "\<forall>b. length (ge_sha256 env b) = 32" and admit: "admit_validated s0 v = (s', Inr d)"
  shows "governor_valid env s'"
proof -
  have inv: "governor_inv s'"
    using valid by (intro admit_validated_inv [OF _ admit validated_new_ok(5) [OF v]]) (simp add: governor_valid_def)
  have wf: "governor_wf s0" using valid by (simp add: governor_valid_def governor_inv_def)
  from admit wf show ?thesis
  proof (cases rule: admit_validated_cases)
    case (repeated s r)
    then show ?thesis using governor_valid_prune [OF valid] by simp
  next
    case (recorded s l d' epoch r)
    have s: "governor_valid env s" using governor_valid_prune [OF valid] recorded(1) by simp
    have lane: "lane_valid (va_lane v) (lane_for s v)" by (rule lane_for_valid [OF s v sha])
    have "lane_ok (lane_for s v)" using s by (intro lane_for_ok) (simp add: governor_valid_def)
    with lane have l: "lane_valid (va_lane v) l" by (rule lane_valid_decide [OF _ _ recorded(6) validated_new_ok(4) [OF v]])
    have "admission_valid env (admission_key v) r"
      by (rule record_valid [OF v sha recorded(6) _ recorded(7)]) (use lane in \<open>simp add: lane_valid_iff\<close>)
    moreover have "length (gs_lanes s') \<le> MAX_LANES" "length (gs_admissions s') \<le> MAX_ADMISSIONS"
      using s recorded(4,8,9) by (auto simp: governor_valid_def governor_inv_def governor_wf_def bm.length_put bm_contains_def bm.get_None_iff)
    ultimately show ?thesis
      using s l inv unfolding recorded(4) by (simp add: governor_valid_def bm_all_insert)
  qed simp_all
qed

lemma settle_valid:
  assumes valid: "governor_valid env s" and settle: "gov_settle_as s i x now authority = (s', Inr ())"
  shows "governor_valid env s'"
proof -
  have inv: "governor_inv s'" using valid by (intro gov_settle_inv [OF _ settle]) (simp add: governor_valid_def)
  from settle show ?thesis
  proof (cases rule: gov_settle_cases)
    case (settled r l l' k)
    have adm: "admission_ok s (tenant_key authority, i) r" "admission_valid env (tenant_key authority, i) r"
      using valid settled(2) by (auto simp: governor_valid_def governor_inv_def dest: bm_allD)
    have lane: "lane_valid k l" "lane_ok l" using valid settled(5) by (auto simp: governor_valid_def governor_inv_def dest: bm_allD)
    have "policy_validate env (gr_policy r) = Inr ()"
      using adm(2) by (simp add: admission_valid_def validate_admission_record_def and_then_eq_Inr)
    then have "lane_valid k l'"
    proof (rule lane_valid_settle [OF lane settled(6)])
      show "gr_decision r = GdAllow \<Longrightarrow> ln_open_until_ms l \<noteq> None \<Longrightarrow> gr_circuit_epoch r < ln_circuit_epoch l"
        using adm(1) settled(1,5) by (auto simp: admission_ok_def)
      show "gr_decision r = GdAllow \<or> gr_decision r = GdAllowProbe"
        using settled(3) by (simp add: validate_settlement_record_def split: if_splits)
    qed
    moreover have "length (bm_insert k l' (gs_lanes s)) = length (gs_lanes s)"
      using valid settled(5) by (simp add: governor_valid_def governor_inv_def governor_wf_def bm.length_put bm.get_Some_iff) (auto intro: rev_image_eqI)
    moreover have "bm_all (admission_valid env) (bm_update (tenant_key authority, i) (\<lambda>r. r\<lparr>gr_settlement := Some x\<rparr>) (gs_admissions s))"
      using valid by (intro bm_all_update) (auto simp: governor_valid_def admission_valid_def)
    ultimately show ?thesis
      using valid inv unfolding settled(7) by (simp add: governor_valid_def bm_all_insert) (simp add: bm_update_def)
  qed (use valid in auto)
qed

lemma sql_admit_refines:
  assumes rel: "tables_for codec t s0" and valid: "governor_valid env s0" and sha: "\<forall>b. length (ge_sha256 env b) = 32"
    and time: "unat (gq_admitted_at_ms request) + unat (gp_admission_retention_ms (gq_policy request)) < 2 ^ 63"
    and result: "gov_atomic_admit env s0 request authority = (s', res)"
    and fits: "bm_all (\<lambda>_. lane_fits codec) (gs_lanes s')" "bm_all (\<lambda>_ r. admission_fits codec (r\<lparr>gr_settlement := None\<rparr>)) (gs_admissions s')"
  obtains t' where "sql_admit_as env codec t request authority = (t', res)" "tables_for codec t' s'" "governor_valid env s'"
proof (cases "validated_new env request authority")
  case (Inl e)
  with that [of t] result rel valid show thesis by (auto simp: gov_atomic_admit_def gov_admit_as_def sql_admit_as_def)
next
  case (Inr v)
  note ok = validated_new_ok [OF Inr]
  define s where "s = prune_memory s0 (va_admitted_at_ms v)"
  have "unat (va_admitted_at_ms v) < 2 ^ 63" using time by (simp add: ok)
  with rel obtain t1 where t1: "prune_sql t (va_admitted_at_ms v) = Inr t1" "tables_for codec t1 s"
    unfolding s_def by (rule prune_sql_ok)
  have s: "governor_valid env s" unfolding s_def by (rule governor_valid_prune [OF valid])
  have wf: "governor_wf s0" "governor_wf s" using valid s by (simp_all add: governor_valid_def governor_inv_def)
  have loads: "load_admission env codec t1 (fst (va_lane v)) (va_admission_id v) = Inr (bm_get (gs_admissions s) (admission_key v))"
    "load_lane codec t1 (va_lane v) = Inr (bm_get (gs_lanes s) (va_lane v))"
    "load_counts t1 = Inr (int (length (gs_lanes s)), int (length (gs_admissions s)))"
    using s t1(2) load_admission_ok [OF t1(2), of env] load_lane_ok [OF t1(2)]
    by (simp_all add: admission_key_def governor_valid_def load_counts_def tables_for_def)
  obtain m mres where ad: "admit_validated s0 v = (m, mres)" by force
  have atomic: "(s', res) = (case mres of Inr d \<Rightarrow> (m, Inr d) | Inl e \<Rightarrow> (s0, Inl e))"
    using result by (simp add: gov_atomic_admit_def gov_admit_as_def Inr ad split: sum.splits)
  have body: "sql_admit_as env codec t request authority = (case sql_admit_body env codec t v of Inl e \<Rightarrow> (t, Inl e) | Inr (t', d) \<Rightarrow> (t', Inr d))"
    by (simp add: sql_admit_as_def Inr)
  have sql: "sql_admit_body env codec t v =
      (case bm_get (gs_admissions s) (admission_key v) of
         Some existing \<Rightarrow> and_then (validate_duplicate existing v) (\<lambda>_. Inr (t1, gr_decision existing))
       | None \<Rightarrow>
           if length (gs_admissions s) \<ge> MAX_ADMISSIONS then Inl (gov_err G_admissions_full)
           else if bm_get (gs_lanes s) (va_lane v) = None \<and> length (gs_lanes s) \<ge> MAX_LANES then Inl (gov_err G_lanes_full)
           else and_then (validate_lane_policy (lane_for s v) (va_policy_sha256 v)) (\<lambda>_.
             case decide (lane_for s v) v of
               (_, Inl e) \<Rightarrow> Inl e
             | (lane', Inr (decision, epoch)) \<Rightarrow>
                 and_then (save_lane codec t1 (va_lane v) lane') (\<lambda>t.
                 and_then (if bm_get (gs_lanes s) (va_lane v) = None then update_counts t 1 0 else Inr t) (\<lambda>t.
                 and_then (gov_admission_record v epoch decision) (\<lambda>r.
                 and_then (save_admission codec t (fst (va_lane v)) (va_admission_id v) r) (\<lambda>t.
                 and_then (update_counts t 0 1) (\<lambda>t. Inr (t, decision))))))))"
    unfolding sql_admit_body_def Let_def t1(1) and_then_simps loads lane_for_def
    by (simp only: prod.case of_nat_le_iff)
  show thesis
  proof (cases "bm_get (gs_admissions s) (admission_key v)")
    case (Some r)
    have "admit_validated s0 v = (s, and_then (validate_duplicate r v) (\<lambda>_. Inr (gr_decision r)))"
      using Some by (simp add: admit_validated_def s_def [symmetric] admission_key_def [symmetric] Let_def)
    then have "(m, mres) = (s, and_then (validate_duplicate r v) (\<lambda>_. Inr (gr_decision r)))" using ad by simp
    with that [of t] that [of t1] atomic rel valid s t1(2) show thesis
      by (cases "validate_duplicate r v") (auto simp: body sql Some)
  next
    case None
    note eq = ad [unfolded admit_validated_def, folded s_def, unfolded Let_def, folded lane_for_def put_lane_def
        admission_key_def, unfolded None option.case]
    show thesis
    proof (cases "length (gs_admissions s) \<ge> MAX_ADMISSIONS \<or> bm_get (gs_lanes s) (va_lane v) = None \<and> length (gs_lanes s) \<ge> MAX_LANES")
      case True
      with eq None have "\<exists>e. mres = Inl e \<and> sql_admit_body env codec t v = Inl e"
        by (auto simp: sql bm_contains_def split: if_splits)
      with that [of t] atomic rel valid show thesis by (auto simp: body)
    next
      case room: False
      show thesis
      proof (cases "\<exists>e. validate_lane_policy (lane_for s v) (va_policy_sha256 v) = Inl e \<or> snd (decide (lane_for s v) v) = Inl e")
        case True
        then have "\<exists>e. mres = Inl e \<and> sql_admit_body env codec t v = Inl e"
          using eq None room
          by (cases "validate_lane_policy (lane_for s v) (va_policy_sha256 v)"; cases "decide (lane_for s v) v")
            (auto simp: sql bm_contains_def split: if_splits)
        with that [of t] atomic rel valid show thesis by (auto simp: body)
      next
        case False
        then obtain l d epoch where lane: "validate_lane_policy (lane_for s v) (va_policy_sha256 v) = Inr ()"
          and dec: "decide (lane_for s v) v = (l, Inr (d, epoch))"
          by (cases "validate_lane_policy (lane_for s v) (va_policy_sha256 v)"; cases "decide (lane_for s v) v";
              cases "snd (decide (lane_for s v) v)") auto
        have "gov_admission_record v epoch d \<noteq> Inl e" for e
          using time by (auto simp: gov_admission_record_def ok ok_or_def checked_add_def)
        then obtain r where r: "gov_admission_record v epoch d = Inr r" by (cases "gov_admission_record v epoch d") auto
        note rec = record_of_admission [OF r]
        have m: "m = put_admission (admission_key v) r (put_lane (va_lane v) l s)" "mres = Inr d"
          using eq room lane dec r by (auto simp: bm_contains_def put_lane_def put_admission_def)
        then have s': "s' = m" "res = Inr d" using atomic by simp_all
        have fit: "lane_fits codec l" "admission_fits codec r"
        proof -
          show "lane_fits codec l" using fits(1) by (auto simp: s' m bm_get_insert dest: bm_allD)
          have "admission_fits codec (r\<lparr>gr_settlement := None\<rparr>)" using fits(2) by (auto simp: s' m bm_get_insert dest: bm_allD)
          moreover have "r\<lparr>gr_settlement := None\<rparr> = r" using rec(6) by simp
          ultimately show "admission_fits codec r" by (simp only:)
        qed
        have "unat (gr_expires_at_ms r) < 2 ^ 63" "gr_expires_at_ms r \<noteq> 0"
          using time rec(8) ok(4,8,11) unat_gt_0 [of "gq_admitted_at_ms request"] by auto
        moreover have "\<not> bm_contains (gs_admissions s) (fst (va_lane v), va_admission_id v)"
          using None by (simp add: bm_contains_def admission_key_def)
        ultimately obtain t' where t': "and_then (save_lane codec t1 (va_lane v) l) (\<lambda>t.
            and_then (if bm_get (gs_lanes s) (va_lane v) = None then update_counts t 1 0 else Inr t) (\<lambda>t.
            and_then (save_admission codec t (fst (va_lane v)) (va_admission_id v) r) (\<lambda>t.
            and_then (update_counts t 0 1) (\<lambda>t. Inr (t, d))))) = Inr (t', d)"
          "tables_for codec t' (put_admission (fst (va_lane v), va_admission_id v) r (put_lane (va_lane v) l s))"
          by (rule sql_store_ok [OF t1(2) wf(2) fit rec(6)])
        have "sql_admit_body env codec t v = Inr (t', d)"
          using None room t'(1) by (simp add: sql lane dec r)
        moreover have "governor_valid env m" by (rule admit_valid [OF valid Inr sha]) (simp add: ad m(2))
        ultimately show thesis using that [of t'] t'(2) s' m(1) by (simp add: body admission_key_def)
      qed
    qed
  qed
qed

lemma sql_settle_refines:
  assumes rel: "tables_for codec t s" and valid: "governor_valid env s"
    and result: "gov_atomic_settle s i x now authority = (s', res)"
    and fits: "bm_all (\<lambda>_. lane_fits codec) (gs_lanes s')"
  obtains t' where "sql_settle_as env codec t i x now authority = (t', res)" "tables_for codec t' s'" "governor_valid env s'"
proof -
  note give = that
  let ?tenant = "tenant_key authority"
  obtain m mres where st: "gov_settle_as s i x now authority = (m, mres)" by force
  have atomic: "(s', res) = (case mres of Inr u \<Rightarrow> (m, Inr u) | Inl e \<Rightarrow> (s, Inl e))"
    using result by (cases mres) (auto simp: gov_atomic_settle_def st)
  have valid': "governor_valid env m" if "mres = Inr ()" using settle_valid [OF valid] st that by simp
  note loads = load_admission_ok [OF rel, of env ?tenant i] load_lane_ok [OF rel]
  have adm: "load_admission env codec t ?tenant i = Inr (bm_get (gs_admissions s) (?tenant, i))"
    and lane: "\<And>k. load_lane codec t k = Inr (bm_get (gs_lanes s) k)"
    using valid loads by (simp_all add: governor_valid_def)
  show thesis
  proof (cases "validate_settlement i now authority")
    case (Inl e)
    then have "(m, mres) = (s, Inl e)" using st by (simp add: gov_settle_as_def)
    with that [of t] atomic rel valid Inl show thesis by (simp add: sql_settle_as_def)
  next
    case (Inr u)
    have sql: "sql_settle_as env codec t i x now authority =
        (case sql_settle_body env codec t ?tenant i x now of Inl e \<Rightarrow> (t, Inl e) | Inr t' \<Rightarrow> (t', Inr ()))"
      by (simp add: sql_settle_as_def Inr)
    note eq = st [unfolded gov_settle_as_def Let_def Inr sum.case]
    have fails: thesis if "mres = Inl e" "sql_settle_body env codec t ?tenant i x now = Inl e" for e
      using give [of t] that atomic rel valid by (simp add: sql)
    show thesis
    proof (cases "bm_get (gs_admissions s) (?tenant, i)")
      case None
      show thesis
        by (rule fails [of "gov_err G_missing_admission"], use eq None in simp, simp add: sql_settle_body_def adm None)
    next
      case (Some r)
      note eq = eq [unfolded Some option.case]
      show thesis
      proof (cases "validate_settlement_record r x now")
        case (Inl e)
        show thesis by (rule fails [of e], use eq Inl in simp, simp add: sql_settle_body_def adm Some Inl)
      next
        case r_ok: (Inr w)
        show thesis
        proof (cases "gr_settlement r = None")
          case False
          with eq r_ok have "(m, mres) = (s, Inr ())" by simp
          moreover have "sql_settle_body env codec t ?tenant i x now = Inr t"
            using False r_ok by (simp add: sql_settle_body_def adm Some)
          ultimately show thesis using that [of t] atomic rel valid by (simp add: sql)
        next
          case open_r: True
          define k where "k = gov_lane_key (gr_operation r) (gr_policy r) ?tenant"
          show thesis
          proof (cases "bm_get (gs_lanes s) k")
            case None
            show thesis
              by (rule fails [of "gov_err G_missing_lane"], use eq r_ok open_r None k_def in simp,
                  simp add: sql_settle_body_def adm Some lane k_def [symmetric] r_ok open_r None)
          next
            case l: (Some l)
            obtain l' ar where ap: "apply_settlement l i r x now = (l', ar)" by force
            show thesis
            proof (cases ar)
              case (Inl e)
              show thesis
                by (rule fails [of e], use eq r_ok open_r l ap Inl k_def in simp,
                    simp add: sql_settle_body_def adm Some lane k_def [symmetric] r_ok open_r l ap Inl)
            next
              case (Inr y)
              let ?settled = "bm_update (?tenant, i) (\<lambda>r. r\<lparr>gr_settlement := Some x\<rparr>) (gs_admissions s)"
              have m: "m = (put_lane k l' s)\<lparr>gs_admissions := ?settled\<rparr>" "mres = Inr ()"
                using eq r_ok open_r l ap Inr by (auto simp: k_def [symmetric] put_lane_def)
              then have s': "s' = m" "res = Inr ()" using atomic by simp_all
              have "lane_fits codec l'" using fits by (auto simp: s' m bm_get_insert dest: bm_allD)
              then obtain json where sl:
                "save_lane codec t k l' = Inr (t\<lparr>gt_lanes := bm_insert k (ln_policy_sha256 l', json) (gt_lanes t)\<rparr>)"
                "lane_row codec (ln_policy_sha256 l', json) l'" by (rule save_lane_ok)
              obtain expires body where row: "bm_get (gt_admissions t) (?tenant, i) = Some (expires, None, body)"
                using rel Some open_r bm_rel_get [of "admission_row codec" "gt_admissions t" "gs_admissions s" "(?tenant, i)"]
                by (auto simp: tables_for_def admission_row_def option_rel_Some2)
              let ?t = "t\<lparr>gt_lanes := bm_insert k (ln_policy_sha256 l', json) (gt_lanes t),
                gt_admissions := bm_update (?tenant, i) (\<lambda>(expires, _, body). (expires, Some (settlement_name x), body)) (gt_admissions t)\<rparr>"
              have "sql_settle_body env codec t ?tenant i x now = Inr ?t"
                using r_ok open_r l ap Inr row by (simp add: sql_settle_body_def adm Some lane k_def [symmetric] sl(1) update_settlement_def)
              moreover have "tables_for codec ?t m"
              proof -
                have wf: "bm_wf (gs_lanes s)" "bm_wf (gs_admissions s)"
                  using valid by (simp_all add: governor_valid_def governor_inv_def governor_wf_def)
                have "bm_rel (admission_row codec) (gt_admissions ?t) ?settled"
                  using rel wf(2) by (auto simp: tables_for_def admission_row_def intro!: bm_rel_update)
                moreover have "length (bm_insert k l' (gs_lanes s)) = length (gs_lanes s)"
                  using wf(1) l by (auto simp: bm.length_put bm.get_Some_iff intro: rev_image_eqI)
                moreover have "length ?settled = length (gs_admissions s)" by (simp add: bm_update_def)
                ultimately show ?thesis using rel sl(2) by (simp add: tables_for_def m bm_rel_insert)
              qed
              ultimately show thesis using that [of ?t] s' valid' m(2) by (simp add: sql)
            qed
          qed
        qed
      qed
    qed
  qed
qed

section \<open>Sequences of calls\<close>

fun sql_call :: "governor_env \<Rightarrow> governor_codec \<Rightarrow> governor_tables \<Rightarrow> governor_call \<Rightarrow> governor_tables \<times> admission_decision option result"
where
  "sql_call env codec t (AdmitCall request authority) =
     (let (t', r) = sql_admit_as env codec t request authority in (t', and_then r (\<lambda>d. Inr (Some d))))"
| "sql_call env codec t (SettleCall i x now authority) =
     (let (t', r) = sql_settle_as env codec t i x now authority in (t', and_then r (\<lambda>_. Inr None)))"

fun atomic_call :: "governor_env \<Rightarrow> governor_state \<Rightarrow> governor_call \<Rightarrow> governor_state \<times> admission_decision option result" where
  "atomic_call env s (AdmitCall request authority) =
     (let (s', r) = gov_atomic_admit env s request authority in (s', and_then r (\<lambda>d. Inr (Some d))))"
| "atomic_call env s (SettleCall i x now authority) =
     (let (s', r) = gov_atomic_settle s i x now authority in (s', and_then r (\<lambda>_. Inr None)))"

text \<open>The times an SQLite integer can hold, and states whose encodings fit their columns and are read back.\<close>

fun call_in_range :: "governor_call \<Rightarrow> bool" where
  "call_in_range (AdmitCall request _) \<longleftrightarrow>
     unat (gq_admitted_at_ms request) + unat (gp_admission_retention_ms (gq_policy request)) < 2 ^ 63"
| "call_in_range (SettleCall _ _ _ _) \<longleftrightarrow> True"

definition state_fits :: "governor_codec \<Rightarrow> governor_state \<Rightarrow> bool" where
  "state_fits codec s \<longleftrightarrow> bm_all (\<lambda>_. lane_fits codec) (gs_lanes s) \<and>
     bm_all (\<lambda>_ r. admission_fits codec (r\<lparr>gr_settlement := None\<rparr>)) (gs_admissions s)"

lemma sql_call_refines:
  assumes "tables_for codec t s" and "governor_valid env s" and "\<forall>b. length (ge_sha256 env b) = 32"
    and "call_in_range c" and "state_fits codec (fst (atomic_call env s c))"
  shows "\<exists>t'. sql_call env codec t c = (t', snd (atomic_call env s c)) \<and> tables_for codec t' (fst (atomic_call env s c)) \<and>
    governor_valid env (fst (atomic_call env s c))"
proof (cases c)
  case (AdmitCall request authority)
  obtain s' res where r: "gov_atomic_admit env s request authority = (s', res)" by force
  have "unat (gq_admitted_at_ms request) + unat (gp_admission_retention_ms (gq_policy request)) < 2 ^ 63"
    using assms(4) AdmitCall by simp
  from sql_admit_refines [OF assms(1-3) this r] assms(5) AdmitCall r
  obtain t' where "sql_admit_as env codec t request authority = (t', res)" "tables_for codec t' s'" "governor_valid env s'"
    by (auto simp: state_fits_def)
  then show ?thesis by (simp add: AdmitCall r)
next
  case (SettleCall i x now authority)
  obtain s' res where r: "gov_atomic_settle s i x now authority = (s', res)" by force
  from sql_settle_refines [OF assms(1,2) r] assms(5) SettleCall r
  obtain t' where "sql_settle_as env codec t i x now authority = (t', res)" "tables_for codec t' s'" "governor_valid env s'"
    by (auto simp: state_fits_def)
  then show ?thesis by (simp add: SettleCall r)
qed

text \<open>What the SQLite governor can serve: times in range, and a next state that fits.\<close>

definition sql_serves :: "governor_env \<Rightarrow> governor_codec \<Rightarrow> governor_state \<Rightarrow> governor_call \<Rightarrow> bool" where
  "sql_serves env codec s c \<longleftrightarrow> call_in_range c \<and> state_fits codec (fst (atomic_call env s c))"

interpretation governor_sql: simulation "sql_call env codec" "atomic_call env"
  "\<lambda>t s. tables_for codec t s \<and> governor_valid env s \<and> (\<forall>b. length (ge_sha256 env b) = 32)" "sql_serves env codec" for env codec
  by unfold_locales (use sql_call_refines in \<open>fastforce simp: sql_serves_def\<close>)

section \<open>Opening a store again\<close>

lemma utf8_ascii: "\<forall>b\<in>set bs. b < 128 \<Longrightarrow> utf8_chars bs = bs"
  by (induction bs) auto

lemma digest_chars: "gov_validate_digest d = Inr () \<Longrightarrow> length (str_chars d) = 64"
proof -
  assume "gov_validate_digest d = Inr ()"
  then have "length d = 64" "\<forall>b\<in>set (str_bytes d). b < 128"
    by (auto simp: gov_validate_digest_def list_all_iff is_ascii_digit_def split: if_splits)
  then show ?thesis by (simp add: str_chars_def utf8_ascii) (simp add: str_bytes_def)
qed

lemma name_bounds: "valid_capability_name n \<Longrightarrow> n \<noteq> [] \<and> length n \<le> 64"
  by (auto simp: valid_capability_name_def validate_capability_name_def Let_def split: if_splits)

lemma bm_rel_entry:
  assumes "bm_rel R m n" and "(k, v) \<in> set m" and "bm_wf n"
  shows "\<exists>w. bm_get n k = Some w \<and> R v w"
proof -
  from assms(1,2) obtain w where "(k, w) \<in> set n" "R v w"
    unfolding bm_rel_def by (induction rule: list_all2_induct) auto
  with assms(3) show ?thesis by (auto simp: bm.get_Some_iff)
qed

lemma store_opens:
  assumes rel: "tables_for codec t s" and valid: "governor_valid env s"
  shows "validate_store t = Inr ()"
proof -
  have wf: "bm_wf (gs_lanes s)" "bm_wf (gs_admissions s)" using valid by (simp_all add: governor_valid_def governor_inv_def governor_wf_def)
  have "\<not> invalid_lane_row e" if "e \<in> set (gt_lanes t)" for e
  proof -
    obtain k row where e: "e = (k, row)" by (rule prod.exhaust)
    obtain tenant capability operation policy where k: "k = (tenant, capability, operation, policy)" by (cases k)
    from rel that obtain l where l: "bm_get (gs_lanes s) k = Some l" "lane_row codec row l"
      unfolding e tables_for_def by (metis bm_rel_entry wf(1))
    have "lane_valid k l" using valid l(1) by (auto simp: governor_valid_def dest: bm_allD)
    with l(2) show ?thesis
      using name_bounds [of capability] name_bounds [of operation] name_bounds [of policy] digest_chars [of "ln_policy_sha256 l"]
      by (auto simp: e k invalid_lane_row_def lane_row_def lane_valid_iff MAX_POLICY_ID_BYTES_def)
  qed
  moreover have "\<not> invalid_admission_row e" if "e \<in> set (gt_admissions t)" for e
  proof -
    obtain a row where e: "e = (a, row)" by (rule prod.exhaust)
    from rel that obtain r where r: "bm_get (gs_admissions s) a = Some r" "admission_row codec row r"
      unfolding e tables_for_def by (metis bm_rel_entry wf(2))
    have "admission_valid env a r" using valid r(1) by (auto simp: governor_valid_def dest: bm_allD)
    then show ?thesis using r(2)
      by (cases a; cases "gr_settlement r"; cases "the (gr_settlement r)")
        (auto simp: e invalid_admission_row_def admission_row_def admission_valid_def)
  qed
  moreover have "length (gt_lanes t) = length (gs_lanes s)" "length (gt_admissions t) = length (gs_admissions s)"
    using rel by (auto simp: tables_for_def dest: bm_rel_length)
  ultimately show ?thesis
    using rel valid
    by (simp add: validate_store_def tables_for_def governor_valid_def EFFECT_DISPATCH_GOVERNOR_SCHEMA_VERSION_def filter_empty_conv)
qed

definition new_file :: governor_file where
  "new_file = \<lparr>gf_meta = None, gf_lanes = None, gf_admissions = None\<rparr>"

lemma new_store:
  assumes "initialize_or_validate new_file = Inr t"
  shows "tables_for codec t governor_new" "governor_valid env governor_new"
  using assms by (auto simp: initialize_or_validate_def new_file_def tables_for_def governor_new_def governor_valid_def)
    (simp_all add: governor_inv_new [unfolded governor_new_def])

section \<open>Properties\<close>

text \<open>
  C26: The SQLite governor implements the governor for calls in its range. From a new file on, every sequence of calls in which the time of
  each admission and its retention together stay below 2^63, what an SQLite integer can hold, gets from the SQLite governor the results
  that it gets from the memory governor with failed calls undone, as long as the encodings of lanes and admissions fit their columns and are
  read back; and afterwards the file can be opened again. Beyond that range the two differ: SQLite refuses times that the memory
  governor accepts.
\<close>

theorem governor_sqlite_refines:
  assumes opened: "initialize_or_validate new_file = Inr t" and sha: "\<forall>b. length (ge_sha256 env b) = 32"
    and range: "list_all call_in_range calls"
    and fits: "along (atomic_call env) (\<lambda>s c. state_fits codec (fst (atomic_call env s c))) governor_new calls"
  shows "snd (run_calls (sql_call env codec) t calls) = snd (run_calls (atomic_call env) governor_new calls) \<and>
    validate_store (fst (run_calls (sql_call env codec) t calls)) = Inr ()"
proof -
  have "along (atomic_call env) (sql_serves env codec) s calls"
    if "along (atomic_call env) (\<lambda>s c. state_fits codec (fst (atomic_call env s c))) s calls" for s
    using range that by (induction calls arbitrary: s) (auto simp: sql_serves_def simp del: atomic_call.simps call_in_range.simps)
  from governor_sql.simulates [of codec t governor_new env calls] new_store [OF opened] sha this [OF fits] store_opens
  show ?thesis by blast
qed

definition demo_codec :: governor_codec where
  "demo_codec = \<lparr>gx_lane = (\<lambda>_. Some ''lane''), gx_parse_lane = (\<lambda>_. Some demo_lane),
     gx_admission = (\<lambda>_. Some ''admission''), gx_parse_admission = (\<lambda>_. Some demo_record)\<rparr>"

theorem governor_sqlite_refines_witness:
  "snd (run_calls (sql_call demo_governor_env demo_codec) \<lparr>gt_meta = [(1, 1, 0, 0)], gt_lanes = [], gt_admissions = []\<rparr>
     [AdmitCall (demo_admission ''i'' 15) local_process]) = [Inr (Some GdAllow)]"
proof -
  let ?call = "AdmitCall (demo_admission ''i'' 15) local_process"
  have opened: "initialize_or_validate new_file = Inr \<lparr>gt_meta = [(1, 1, 0, 0)], gt_lanes = [], gt_admissions = []\<rparr>"
    by (simp add: initialize_or_validate_def new_file_def)
  have run: "atomic_call demo_governor_env governor_new ?call = (demo_governor, Inr (Some GdAllow))"
    by (simp add: gov_atomic_admit_def demo_admitted)
  have "demo_record\<lparr>gr_settlement := None\<rparr> = demo_record" by (simp add: demo_record_def)
  then have "state_fits demo_codec demo_governor"
    by (auto simp: state_fits_def bm_all_def bm_get_def demo_governor_def lane_fits_def lane_row_def admission_fits_def demo_codec_def
        MAX_LANE_STATE_JSON_BYTES_def MAX_ADMISSION_JSON_BYTES_def)
  then have "along (atomic_call demo_governor_env) (\<lambda>s c. state_fits demo_codec (fst (atomic_call demo_governor_env s c)))
      governor_new [?call]"
    by (simp add: run del: atomic_call.simps)
  moreover have "list_all call_in_range [?call]" by (simp add: demo_admission_def demo_policy_def)
  moreover have "\<forall>b. length (ge_sha256 demo_governor_env b) = 32" by (simp add: demo_governor_env_def)
  ultimately show ?thesis
    using governor_sqlite_refines [OF opened, of demo_governor_env "[?call]" demo_codec] run by (simp del: atomic_call.simps)
qed

end
