(* ===== verification/Effect_Worker.thy ===== *)
theory Effect_Worker
  imports Effect_Store Governor "HOL-Library.Multiset"
begin

text \<open>
  What \<^verbatim>\<open>effect/executor.rs\<close> and \<^verbatim>\<open>effect/reconciler.rs\<close> share. Both run one asynchronous task per Effect that a sweep
  selected; the task awaits the host's Policy, a Connector, the clock, the Effect engine and the dispatch governor, and
  between two awaits it only computes.

  \<^item> A task is a \<open>worker\<close>: a tree whose nodes are the awaits, with the rest of the task as a function of the
    answer. The answers of everything outside the task are thereby explicit. \<open>run_worker\<close> feeds a task a list of
    events (an await together with its answer), \<open>along_worker\<close> is the assertion that every event a task can
    reach satisfies a condition on the events before it.
  \<^item> \<open>pool_join\<close> is the bounded set of running tasks, in which any of them may finish next.
\<close>

section \<open>Tasks\<close>

text \<open>
  The answer of a future under \<open>isolate_future\<close>, \<open>timeout\<close> and the cancellation branch of \<open>select!\<close>: the call
  itself panicked, the host cancelled first, the future gave a value, it failed or panicked, or it ran out of time.
\<close>

datatype 'x awaited = Aw_refused | Aw_cancelled | Aw_answered 'x | Aw_failed | Aw_timeout

datatype policy_decision = Policy_allow | Policy_deny string

datatype ('p, 'q, 'o, 'a) worker =
    Return 'a
  | Is_cancelled "bool \<Rightarrow> ('p, 'q, 'o, 'a) worker"
  | Now_ms "u64 option \<Rightarrow> ('p, 'q, 'o, 'a) worker"
  | Authorize 'p "policy_decision awaited \<Rightarrow> ('p, 'q, 'o, 'a) worker"
  | Connect 'q "'o awaited \<Rightarrow> ('p, 'q, 'o, 'a) worker"
  | Apply_as string u64 effect_command u64 "effect_command_result result \<Rightarrow> ('p, 'q, 'o, 'a) worker"
  | Admit_as admission_request "admission_decision option \<Rightarrow> ('p, 'q, 'o, 'a) worker"
  | Settle_as string dispatch_settlement u64 "bool \<Rightarrow> ('p, 'q, 'o, 'a) worker"

datatype ('p, 'q, 'o) worker_event =
    Ev_cancelled bool
  | Ev_now "u64 option"
  | Ev_policy 'p "policy_decision awaited"
  | Ev_connect 'q "'o awaited"
  | Ev_apply string u64 effect_command u64 "effect_command_result result"
  | Ev_admit admission_request "admission_decision option"
  | Ev_settle string dispatch_settlement u64 bool

text \<open>One answered await; \<open>None\<close> when the task does not wait for that event.\<close>

fun worker_step :: "('p, 'q, 'o, 'a) worker \<Rightarrow> ('p, 'q, 'o) worker_event \<Rightarrow> ('p, 'q, 'o, 'a) worker option" where
  "worker_step (Is_cancelled k) (Ev_cancelled b) = Some (k b)"
| "worker_step (Now_ms k) (Ev_now t) = Some (k t)"
| "worker_step (Authorize p k) (Ev_policy p' r) = (if p' = p then Some (k r) else None)"
| "worker_step (Connect q k) (Ev_connect q' r) = (if q' = q then Some (k r) else None)"
| "worker_step (Apply_as i v c t k) (Ev_apply i' v' c' t' r) =
     (if i' = i \<and> v' = v \<and> c' = c \<and> t' = t then Some (k r) else None)"
| "worker_step (Admit_as q k) (Ev_admit q' r) = (if q' = q then Some (k r) else None)"
| "worker_step (Settle_as i s t k) (Ev_settle i' s' t' r) = (if i' = i \<and> s' = s \<and> t' = t then Some (k r) else None)"
| "worker_step _ _ = None"

fun run_worker :: "('p, 'q, 'o, 'a) worker \<Rightarrow> ('p, 'q, 'o) worker_event list \<Rightarrow> ('p, 'q, 'o, 'a) worker option" where
  "run_worker w [] = Some w"
| "run_worker w (ev # evs) = Option.bind (worker_step w ev) (\<lambda>w'. run_worker w' evs)"

text \<open>The clock as both consumers read it: a failure, a panic and the time 0 are errors.\<close>

definition trusted_now :: "u64 option \<Rightarrow> u64 result" where
  "trusted_now reading =
     and_then (ok_or (Effect (E_worker X_clock)) reading) (\<lambda>t.
     and_then (ef_validate_application_time t) (\<lambda>_. Inr t))"

text \<open>The arm \<open>Err(HarnessError::EffectConflict { actual, .. })\<close> of the matches on an engine call.\<close>

fun conflict_revision :: "harness_error \<Rightarrow> u64 option" where
  "conflict_revision (EffectConflict _ _ actual) = Some actual"
| "conflict_revision _ = None"

lemma trusted_now_ok: "trusted_now reading = Inr t \<longleftrightarrow> reading = Some t \<and> t \<noteq> 0"
  by (auto simp: trusted_now_def ok_iff ef_validate_application_time_def split: if_splits)

section \<open>Assertions on tasks\<close>

text \<open>
  \<open>along_worker P Q w past\<close>: after the events \<open>past\<close>, every event \<open>w\<close> can still take satisfies \<open>P\<close> with the events
  before it, and every value it can return satisfies \<open>Q\<close> with all events.
\<close>

primrec along_worker ::
  "(('p, 'q, 'o) worker_event list \<Rightarrow> ('p, 'q, 'o) worker_event \<Rightarrow> bool) \<Rightarrow>
   (('p, 'q, 'o) worker_event list \<Rightarrow> 'a \<Rightarrow> bool) \<Rightarrow> ('p, 'q, 'o, 'a) worker \<Rightarrow> ('p, 'q, 'o) worker_event list \<Rightarrow> bool" where
  "along_worker P Q (Return a) past \<longleftrightarrow> Q past a"
| "along_worker P Q (Is_cancelled k) past \<longleftrightarrow>
     (\<forall>b. P past (Ev_cancelled b) \<and> along_worker P Q (k b) (past @ [Ev_cancelled b]))"
| "along_worker P Q (Now_ms k) past \<longleftrightarrow> (\<forall>t. P past (Ev_now t) \<and> along_worker P Q (k t) (past @ [Ev_now t]))"
| "along_worker P Q (Authorize p k) past \<longleftrightarrow>
     (\<forall>r. P past (Ev_policy p r) \<and> along_worker P Q (k r) (past @ [Ev_policy p r]))"
| "along_worker P Q (Connect q k) past \<longleftrightarrow>
     (\<forall>r. P past (Ev_connect q r) \<and> along_worker P Q (k r) (past @ [Ev_connect q r]))"
| "along_worker P Q (Apply_as i v c t k) past \<longleftrightarrow>
     (\<forall>r. P past (Ev_apply i v c t r) \<and> along_worker P Q (k r) (past @ [Ev_apply i v c t r]))"
| "along_worker P Q (Admit_as q k) past \<longleftrightarrow>
     (\<forall>r. P past (Ev_admit q r) \<and> along_worker P Q (k r) (past @ [Ev_admit q r]))"
| "along_worker P Q (Settle_as i s t k) past \<longleftrightarrow>
     (\<forall>r. P past (Ev_settle i s t r) \<and> along_worker P Q (k r) (past @ [Ev_settle i s t r]))"

lemma along_worker_step:
  "along_worker P Q w past \<Longrightarrow> worker_step w ev = Some w' \<Longrightarrow> P past ev \<and> along_worker P Q w' (past @ [ev])"
  by (cases w; cases ev) (auto split: if_splits)

lemma along_worker_run:
  "along_worker P Q w past \<Longrightarrow> run_worker w evs = Some w' \<Longrightarrow> along_worker P Q w' (past @ evs)"
proof (induction evs arbitrary: w past)
  case (Cons ev evs)
  then obtain w1 where "worker_step w ev = Some w1" "run_worker w1 evs = Some w'" by (auto simp: bind_eq_Some_conv)
  with Cons.IH [of w1 "past @ [ev]"] along_worker_step [OF Cons.prems(1)] show ?case by simp
qed simp

lemma run_worker_append:
  "run_worker w (evs @ evs') = Option.bind (run_worker w evs) (\<lambda>w'. run_worker w' evs')"
  by (induction evs arbitrary: w) (auto simp: Option.bind_assoc)

lemma run_worker_snoc:
  "run_worker w evs = Some w' \<Longrightarrow> worker_step w' ev = Some w'' \<Longrightarrow> run_worker w (evs @ [ev]) = Some w''"
  by (simp add: run_worker_append)

lemma along_worker_event:
  assumes "along_worker P Q w []" and "run_worker w (evs @ ev # evs') = Some w'"
  shows "P evs ev"
proof -
  from assms(2) obtain w1 w2 where "run_worker w evs = Some w1" "worker_step w1 ev = Some w2"
    by (auto simp: run_worker_append bind_eq_Some_conv)
  with along_worker_run [OF assms(1), of evs] along_worker_step [of P Q w1 evs ev w2] show ?thesis by simp
qed

lemma along_worker_return:
  "along_worker P Q w [] \<Longrightarrow> run_worker w evs = Some (Return a) \<Longrightarrow> Q evs a"
  using along_worker_run [of P Q w "[]" evs] by fastforce

section \<open>The bounded pool of tasks\<close>

text \<open>
  \<open>po_pending\<close> is the queue of numbered items, \<open>po_running\<close> the tasks of the \<open>JoinSet\<close>, \<open>po_attempts\<close> the numbered results
  so far. The first items are started at once. Whichever task ends next (\<open>choice\<close> modulo the number of running tasks) is
  taken out, its result or, when the task died, the fallback of its item is kept, and one more item is started.
\<close>

record ('p, 'r) pool =
  po_pending :: "(nat \<times> 'p) list"
  po_running :: "(nat \<times> 'p) list"
  po_attempts :: "(nat \<times> 'r) list"

definition pool_start :: "nat \<Rightarrow> 'p list \<Rightarrow> ('p, 'r) pool" where
  "pool_start max_concurrency prepared =
     (let pending = List.enumerate 0 prepared
      in \<lparr>po_pending = drop max_concurrency pending, po_running = take max_concurrency pending, po_attempts = []\<rparr>)"

definition pool_join :: "(nat \<Rightarrow> 'r option) \<Rightarrow> ('p \<Rightarrow> 'r) \<Rightarrow> nat \<Rightarrow> ('p, 'r) pool \<Rightarrow> ('p, 'r) pool" where
  "pool_join outcome fallback choice pool =
     (let i = choice mod length (po_running pool);
          (index, prepared) = po_running pool ! i;
          attempt = (case outcome index of Some a \<Rightarrow> a | None \<Rightarrow> fallback prepared);
          rest = take i (po_running pool) @ drop (Suc i) (po_running pool)
      in \<lparr>po_pending = drop 1 (po_pending pool), po_running = rest @ take 1 (po_pending pool),
          po_attempts = po_attempts pool @ [(index, attempt)]\<rparr>)"

lemma pool_choice: "pr \<noteq> [] \<Longrightarrow> choice mod length pr < length pr"
  by simp

lemma pool_join_lengths:
  assumes "po_running pool \<noteq> []"
  shows "length (po_pending (pool_join outcome fallback choice pool)) + length (po_running (pool_join outcome fallback choice pool)) <
      length (po_pending pool) + length (po_running pool)"
    and "length (po_running (pool_join outcome fallback choice pool)) \<le> length (po_running pool)"
  using pool_choice [OF assms, of choice]
  by (auto simp: pool_join_def Let_def split_def min_def simp del: length_greater_0_conv)

function pool_drain :: "(nat \<Rightarrow> 'r option) \<Rightarrow> ('p \<Rightarrow> 'r) \<Rightarrow> (nat \<Rightarrow> nat) \<Rightarrow> nat \<Rightarrow> ('p, 'r) pool \<Rightarrow> (nat \<times> 'r) list" where
  "pool_drain outcome fallback choice n pool =
     (if po_running pool = [] then po_attempts pool
      else pool_drain outcome fallback choice (Suc n) (pool_join outcome fallback (choice n) pool))"
  by auto

termination
  by (relation "measure (\<lambda>(_, _, _, _, pool). length (po_pending pool) + length (po_running pool))")
    (auto intro: pool_join_lengths)

declare pool_drain.simps [simp del]

definition pool_attempts ::
  "(nat \<Rightarrow> 'r option) \<Rightarrow> ('p \<Rightarrow> 'r) \<Rightarrow> (nat \<Rightarrow> nat) \<Rightarrow> nat \<Rightarrow> 'p list \<Rightarrow> 'r list" where
  "pool_attempts outcome fallback choice max_concurrency prepared =
     map snd (sort_key fst (pool_drain outcome fallback choice 0 (pool_start max_concurrency prepared)))"

section \<open>The pool reports every item once, in order\<close>

definition pool_result :: "(nat \<Rightarrow> 'r option) \<Rightarrow> ('p \<Rightarrow> 'r) \<Rightarrow> nat \<times> 'p \<Rightarrow> nat \<times> 'r" where
  "pool_result outcome fallback = (\<lambda>(i, p). (i, case outcome i of Some a \<Rightarrow> a | None \<Rightarrow> fallback p))"

definition pool_items :: "(nat \<Rightarrow> 'r option) \<Rightarrow> ('p \<Rightarrow> 'r) \<Rightarrow> ('p, 'r) pool \<Rightarrow> (nat \<times> 'r) multiset" where
  "pool_items outcome fallback pool =
     image_mset (pool_result outcome fallback) (mset (po_pending pool) + mset (po_running pool)) + mset (po_attempts pool)"

lemma pool_join_items:
  assumes "po_running pool \<noteq> []"
  shows "pool_items outcome fallback (pool_join outcome fallback choice pool) = pool_items outcome fallback pool"
proof -
  let ?r = "po_running pool" and ?i = "choice mod length (po_running pool)"
  have "mset ?r = add_mset (?r ! ?i) (mset (take ?i ?r @ drop (Suc ?i) ?r))"
    using id_take_nth_drop [OF pool_choice [OF assms], of choice] by (metis mset_append mset.simps(2) union_mset_add_mset_right)
  moreover have "mset (po_pending pool) = mset (take 1 (po_pending pool)) + mset (drop 1 (po_pending pool))"
    by (metis append_take_drop_id mset_append)
  ultimately show ?thesis
    by (simp add: pool_items_def pool_join_def Let_def pool_result_def split_def)
qed

lemma pool_drain_items:
  "po_pending pool = [] \<or> po_running pool \<noteq> [] \<Longrightarrow>
   mset (pool_drain outcome fallback choice n pool) = pool_items outcome fallback pool"
proof (induction outcome fallback choice n pool rule: pool_drain.induct)
  case (1 outcome fallback choice n pool)
  show ?case
  proof (cases "po_running pool = []")
    case False
    have "po_pending (pool_join outcome fallback (choice n) pool) = [] \<or>
        po_running (pool_join outcome fallback (choice n) pool) \<noteq> []"
      by (cases "po_pending pool") (auto simp: pool_join_def Let_def split_def)
    with 1(1) [OF False] False pool_join_items [OF False] show ?thesis by (simp add: pool_drain.simps [of _ _ _ _ pool])
  qed (use 1 in \<open>simp add: pool_drain.simps [of _ _ _ _ pool] pool_items_def\<close>)
qed

lemma pool_attempts_eq:
  assumes "max_concurrency > 0"
  shows "pool_attempts outcome fallback choice max_concurrency prepared =
    map (snd \<circ> pool_result outcome fallback) (List.enumerate 0 prepared)"
proof -
  let ?xs = "List.enumerate 0 prepared"
  have "mset ?xs = mset (drop max_concurrency ?xs) + mset (take max_concurrency ?xs)"
    by (metis add.commute append_take_drop_id mset_append)
  moreover have "mset (pool_drain outcome fallback choice 0 (pool_start max_concurrency prepared)) =
      pool_items outcome fallback (pool_start max_concurrency prepared)"
    by (rule pool_drain_items) (use assms in \<open>cases prepared; auto simp: pool_start_def Let_def enumerate_simps\<close>)
  ultimately have "mset (pool_drain outcome fallback choice 0 (pool_start max_concurrency prepared)) =
      mset (map (pool_result outcome fallback) ?xs)"
    by (simp add: pool_start_def pool_items_def Let_def)
  moreover from mset_eq_setD [OF this] have "set (pool_drain outcome fallback choice 0 (pool_start max_concurrency prepared)) =
      pool_result outcome fallback ` set ?xs" by simp
  moreover have fst: "fst \<circ> pool_result outcome fallback = fst" by (auto simp: pool_result_def)
  moreover have "inj_on fst (set ?xs)" by (auto simp: inj_on_def in_set_enumerate_eq)
  ultimately have "sort_key fst (pool_drain outcome fallback choice 0 (pool_start max_concurrency prepared)) =
      map (pool_result outcome fallback) ?xs"
    by (intro sort_key_inj_key_eq) (simp_all add: inj_on_imageI)
  then show ?thesis by (simp add: pool_attempts_def)
qed

text \<open>The tasks that run at any time.\<close>

definition pool_after :: "(nat \<Rightarrow> 'r option) \<Rightarrow> ('p \<Rightarrow> 'r) \<Rightarrow> nat list \<Rightarrow> ('p, 'r) pool \<Rightarrow> ('p, 'r) pool" where
  "pool_after outcome fallback choices pool =
     fold (\<lambda>choice pool. if po_running pool = [] then pool else pool_join outcome fallback choice pool) choices pool"

lemma pool_running_bound: "length (po_running (pool_after outcome fallback choices pool)) \<le> length (po_running pool)"
proof (induction choices arbitrary: pool)
  case (Cons choice choices)
  from Cons.IH [of "if po_running pool = [] then pool else pool_join outcome fallback choice pool"]
    pool_join_lengths(2) [of pool outcome fallback choice] show ?case
    by (auto simp: pool_after_def split: if_splits)
qed (simp add: pool_after_def)

section \<open>Derived identities\<close>

lemma utf8_chars_ascii: "list_all (\<lambda>b. b < 128) bs \<Longrightarrow> utf8_chars bs = bs"
  by (induction bs) simp_all

lemma printable_identity:
  assumes "list_all (\<lambda>b. 33 \<le> b \<and> b < 127) (str_bytes s)" and "s \<noteq> []" and "length s \<le> 256"
  shows "ef_validate_identity s = Inr ()"
proof -
  have "str_chars s = str_bytes s"
    unfolding str_chars_def by (rule utf8_chars_ascii) (use assms(1) in \<open>auto simp: list_all_iff\<close>)
  moreover obtain c cs where s: "s = c # cs" using assms(2) by (cases s) auto
  ultimately show ?thesis
    using assms(1,3) by (auto simp: ef_validate_identity_def trim_is_empty_def has_control_def is_whitespace_def is_control_def
        MAX_EFFECT_IDENTITY_BYTES_def list_all_iff list_ex_iff str_bytes_def)
qed

lemma prefixed_digest_identity:
  assumes "list_all (\<lambda>b. 33 \<le> b \<and> b < 127) (str_bytes p)" and "length p \<le> 192" and "length bs = 32"
  shows "ef_validate_identity (p @ lower_hex bs) = Inr ()"
proof (rule printable_identity)
  show "list_all (\<lambda>b. 33 \<le> b \<and> b < 127) (str_bytes (p @ lower_hex bs))"
    using assms(1) lower_hex_is_lower_hex [of bs]
    by (fastforce simp: list_all_iff str_bytes_def is_lower_hex_byte_def is_ascii_digit_def)
  show "p @ lower_hex bs \<noteq> []" using assms(3) length_lower_hex [of bs] by (auto simp del: length_lower_hex)
qed (use assms in simp)

end
