(* ===== verification/Executor.thy ===== *)
theory Executor
  imports Effect_Worker
begin

text \<open>
  \<^verbatim>\<open>effect/executor.rs\<close>: the host-driven sweep that turns pending Effects into calls of registered Connectors. For every
  eligible Effect of a page one task resolves the Connector, asks the Policy, claims the Effect under a lease derived from
  the sweep, asks the dispatch governor when one is installed, enters the Connector and records the outcome.

  The Policy, the Connectors, the clock and the cancellation token are outside: their answers are the events of the
  task (\<open>Effect_Worker\<close>). The serialisers of the identities and descriptors and SHA-256 are parameters (\<open>executor_env\<close>).
\<close>

section \<open>Limits, descriptors and the registry\<close>

definition EFFECT_EXECUTOR_API_VERSION :: u32 where "EFFECT_EXECUTOR_API_VERSION = 1"
definition MAX_CONNECTORS :: nat where "MAX_CONNECTORS = 256"
definition MAX_OPERATIONS_PER_CONNECTOR :: nat where "MAX_OPERATIONS_PER_CONNECTOR = 256"
definition MAX_CONNECTOR_DESCRIPTOR_BYTES :: nat where "MAX_CONNECTOR_DESCRIPTOR_BYTES = 65536"
definition MAX_EXECUTOR_SCAN_LIMIT :: nat where "MAX_EXECUTOR_SCAN_LIMIT = 256"
definition MAX_EXECUTOR_CONCURRENCY :: nat where "MAX_EXECUTOR_CONCURRENCY = 64"
definition MIN_POLICY_TIMEOUT_MS :: u64 where "MIN_POLICY_TIMEOUT_MS = 1"
definition MAX_POLICY_TIMEOUT_MS :: u64 where "MAX_POLICY_TIMEOUT_MS = 60000"
definition MIN_EXECUTION_TIMEOUT_MS :: u64 where "MIN_EXECUTION_TIMEOUT_MS = 1"
definition MAX_EXECUTION_TIMEOUT_MS :: u64 where "MAX_EXECUTION_TIMEOUT_MS = 604800000"
definition MIN_LEASE_DURATION_MS :: u64 where "MIN_LEASE_DURATION_MS = 1000"
definition MAX_LEASE_DURATION_MS :: u64 where "MAX_LEASE_DURATION_MS = 604800000"
definition MAX_RETRY_AFTER_MS :: u64 where "MAX_RETRY_AFTER_MS = 604800000"

lemmas executor_limits = EFFECT_EXECUTOR_API_VERSION_def MAX_CONNECTORS_def MAX_OPERATIONS_PER_CONNECTOR_def
  MAX_CONNECTOR_DESCRIPTOR_BYTES_def MAX_EXECUTOR_SCAN_LIMIT_def MAX_EXECUTOR_CONCURRENCY_def
  MIN_POLICY_TIMEOUT_MS_def MAX_POLICY_TIMEOUT_MS_def MIN_EXECUTION_TIMEOUT_MS_def MAX_EXECUTION_TIMEOUT_MS_def
  MIN_LEASE_DURATION_MS_def MAX_LEASE_DURATION_MS_def MAX_RETRY_AFTER_MS_def

datatype idempotency_contract = TargetEnforced | ConnectorEnforced

text \<open>The operations, a \<open>BTreeSet\<close>, are the list of its elements.\<close>

record connector_descriptor =
  cd_capability :: string
  cd_api_version :: u32
  cd_operations :: "string list"
  cd_idempotency :: idempotency_contract

record registered_connector =
  rc_origin :: capability_origin
  rc_descriptor :: connector_descriptor

type_synonym connector_registry = "(string, registered_connector) btree_map"

record execution_identity =
  xi_purpose :: string
  xi_cycle_id :: string
  xi_actor :: actor_identity
  xi_tenant_id :: "string option"
  xi_effect_id :: string
  xi_revision :: u64
  xi_attempt :: u32
  xi_lease_id :: "string option"

record executor_env =
  xe_descriptor :: "connector_descriptor serializer"
  xe_identity :: "execution_identity serializer"
  xe_sha256 :: "bytes \<Rightarrow> bytes"

definition wk_err :: "worker_fault \<Rightarrow> harness_error" where
  "wk_err f = Effect (E_worker f)"

fun descriptor_bound_error :: "bounded_json_error \<Rightarrow> harness_error" where
  "descriptor_bound_error LimitExceeded = wk_err X_descriptor_too_large"
| "descriptor_bound_error CannotEncode = wk_err X_descriptor_encoding"

definition validate_connector_descriptor :: "executor_env \<Rightarrow> connector_descriptor \<Rightarrow> unit result" where
  "validate_connector_descriptor xenv descriptor =
     and_then (map_err (\<lambda>_. wk_err X_name) (validate_capability_name (cd_capability descriptor))) (\<lambda>_.
     if cd_api_version descriptor \<noteq> EFFECT_EXECUTOR_API_VERSION then Inl (wk_err X_api_version)
     else if cd_operations descriptor = [] \<or> length (cd_operations descriptor) > MAX_OPERATIONS_PER_CONNECTOR
     then Inl (wk_err X_operation_count)
     else
     and_then (for_each (\<lambda>operation. map_err (\<lambda>_. wk_err X_name) (validate_capability_name operation))
       (cd_operations descriptor)) (\<lambda>_.
     and_then (map_err descriptor_bound_error
       (bounded_serialized_size (xe_descriptor xenv) descriptor MAX_CONNECTOR_DESCRIPTOR_BYTES)) (\<lambda>_.
     Inr ())))"

text \<open>\<open>provided\<close> is what \<open>connector.descriptor()\<close> returns, \<open>None\<close> when it panics.\<close>

definition ex_register ::
  "executor_env \<Rightarrow> connector_registry \<Rightarrow> capability_origin \<Rightarrow> connector_descriptor option \<Rightarrow> connector_registry result" where
  "ex_register xenv connectors origin provided =
     and_then (validate_capability_origin origin) (\<lambda>_.
     if length connectors \<ge> MAX_CONNECTORS then Inl (wk_err X_registry_full)
     else
     and_then (capture_capability_metadata provided) (\<lambda>descriptor.
     and_then (validate_connector_descriptor xenv descriptor) (\<lambda>_.
     if bm_get connectors (cd_capability descriptor) \<noteq> None
     then Inl (DuplicateCapability (cd_capability descriptor))
     else Inr (bm_insert (cd_capability descriptor) \<lparr>rc_origin = origin, rc_descriptor = descriptor\<rparr> connectors))))"

definition ex_capabilities :: "connector_registry \<Rightarrow> string list" where
  "ex_capabilities connectors = map fst connectors"

definition ex_resolve :: "connector_registry \<Rightarrow> effect_operation \<Rightarrow> registered_connector option" where
  "ex_resolve connectors operation =
     (case bm_get connectors (eo_capability operation) of
        None \<Rightarrow> None
      | Some registered \<Rightarrow>
          if eo_operation operation \<in> set (cd_operations (rc_descriptor registered)) then Some registered else None)"

section \<open>Policies\<close>

record execution_policy_request =
  pq_effect_id :: string
  pq_authority :: authority_context
  pq_operation :: effect_operation
  pq_input :: json
  pq_input_sha256 :: string
  pq_connector_origin :: capability_origin
  pq_idempotency :: idempotency_contract

definition deny_all_authorize :: "execution_policy_request \<Rightarrow> policy_decision" where
  "deny_all_authorize request = Policy_deny ''policy.denied''"

text \<open>The allowlist, a \<open>BTreeSet\<close> of pairs.\<close>

definition allow_list_allow :: "(string \<times> string) set \<Rightarrow> string \<Rightarrow> string \<Rightarrow> (string \<times> string) set result" where
  "allow_list_allow allowed capability operation =
     and_then (map_err (\<lambda>_. wk_err X_name) (validate_capability_name capability)) (\<lambda>_.
     and_then (map_err (\<lambda>_. wk_err X_name) (validate_capability_name operation)) (\<lambda>_.
     Inr (insert (capability, operation) allowed)))"

definition allow_list_authorize :: "(string \<times> string) set \<Rightarrow> execution_policy_request \<Rightarrow> policy_decision" where
  "allow_list_authorize allowed request =
     (if (eo_capability (pq_operation request), eo_operation (pq_operation request)) \<in> allowed
      then Policy_allow else Policy_deny ''policy.denied'')"

section \<open>Configuration\<close>

record executor_config =
  xc_scan_limit :: usize
  xc_max_concurrency :: usize
  xc_policy_timeout_ms :: u64
  xc_governor_timeout_ms :: u64
  xc_governor_retry_after_ms :: u64
  xc_execution_timeout_ms :: u64
  xc_settlement_reserve_ms :: u64
  xc_lease_duration_ms :: u64

definition executor_config_default :: executor_config where
  "executor_config_default = \<lparr>xc_scan_limit = 64, xc_max_concurrency = 8, xc_policy_timeout_ms = 5000,
     xc_governor_timeout_ms = 5000, xc_governor_retry_after_ms = 5000, xc_execution_timeout_ms = 240000,
     xc_settlement_reserve_ms = 30000, xc_lease_duration_ms = 300000\<rparr>"

definition executor_config_validate :: "executor_config \<Rightarrow> unit result" where
  "executor_config_validate config =
     (if \<not> (1 \<le> xc_scan_limit config \<and> xc_scan_limit config \<le> MAX_EXECUTOR_SCAN_LIMIT) then Inl (wk_err X_scan_limit)
      else if \<not> (1 \<le> xc_max_concurrency config \<and> xc_max_concurrency config \<le> MAX_EXECUTOR_CONCURRENCY)
      then Inl (wk_err X_concurrency)
      else if \<not> (MIN_POLICY_TIMEOUT_MS \<le> xc_policy_timeout_ms config \<and> xc_policy_timeout_ms config \<le> MAX_POLICY_TIMEOUT_MS)
      then Inl (wk_err X_policy_timeout)
      else if \<not> (MIN_POLICY_TIMEOUT_MS \<le> xc_governor_timeout_ms config \<and> xc_governor_timeout_ms config \<le> MAX_POLICY_TIMEOUT_MS)
      then Inl (wk_err X_governor_timeout)
      else if xc_governor_retry_after_ms config > MAX_RETRY_AFTER_MS then Inl (wk_err X_governor_retry)
      else if \<not> (MIN_EXECUTION_TIMEOUT_MS \<le> xc_execution_timeout_ms config \<and>
                xc_execution_timeout_ms config \<le> MAX_EXECUTION_TIMEOUT_MS)
      then Inl (wk_err X_execution_timeout)
      else if \<not> (MIN_LEASE_DURATION_MS \<le> xc_lease_duration_ms config \<and> xc_lease_duration_ms config \<le> MAX_LEASE_DURATION_MS)
      then Inl (wk_err X_lease_duration)
      else
      and_then (ok_or (wk_err X_lease_overflow)
        (checked_add (xc_execution_timeout_ms config) (xc_settlement_reserve_ms config))) (\<lambda>required.
      if required \<ge> xc_lease_duration_ms config then Inl (wk_err X_lease_budget) else Inr ()))"

text \<open>The Executor: its Policy and clock answer from outside, the governor is represented by the policy it is used with.\<close>

record executor =
  ex_connectors :: connector_registry
  ex_governor :: "governor_policy option"
  ex_config :: executor_config

definition executor_new :: "connector_registry \<Rightarrow> executor result" where
  "executor_new connectors =
     and_then (executor_config_validate executor_config_default) (\<lambda>_.
     Inr \<lparr>ex_connectors = connectors, ex_governor = None, ex_config = executor_config_default\<rparr>)"

definition with_dispatch_governor :: "governor_env \<Rightarrow> executor \<Rightarrow> governor_policy \<Rightarrow> executor result" where
  "with_dispatch_governor genv ex policy =
     and_then (policy_validate genv policy) (\<lambda>_. Inr (ex\<lparr>ex_governor := Some policy\<rparr>))"

definition with_config :: "executor \<Rightarrow> executor_config \<Rightarrow> executor result" where
  "with_config ex config = and_then (executor_config_validate config) (\<lambda>_. Inr (ex\<lparr>ex_config := config\<rparr>))"

section \<open>Requests, outcomes and reports\<close>

record execution_request =
  xq_effect_id :: string
  xq_authority :: authority_context
  xq_operation :: effect_operation
  xq_idempotency_key :: string
  xq_input :: json
  xq_input_sha256 :: string
  xq_attempt :: u32
  xq_lease_id :: string
  xq_lease_expires_at_ms :: u64

datatype execution_outcome = XoApplied effect_receipt | XoNotApplied string "u64 option" | XoUnknown string

datatype executor_attempt_outcome =
    XaConnectorUnavailable
  | XaPolicyDenied string
  | XaPolicyUnavailable
  | XaCancelledBeforeClaim
  | XaClaimFenced u64
  | XaClaimFailed
  | XaClaimAlreadyCommitted
  | XaClockUnavailableAfterClaim
  | XaGovernorUnavailable u64
  | XaRateLimited u64
  | XaCircuitOpen u64
  | XaApplied
  | XaRejected string
  | XaRetryScheduled string u64
  | XaUnknown string
  | XaSettlementFenced u64
  | XaSettlementFailed
  | XaAttemptFailed

record executor_attempt =
  xt_effect_id :: string
  xt_observed_revision :: u64
  xt_attempt :: u32
  xt_lease_id :: "string option"
  xt_governor_settlement_failed :: bool
  xt_outcome :: executor_attempt_outcome

record executor_run_request =
  xr_cycle_id :: string
  xr_after :: "string option"

record executor_run_report =
  xrr_scanned_at_ms :: u64
  xrr_scanned :: usize
  xrr_eligible :: usize
  xrr_has_more :: bool
  xrr_next_after :: "string option"
  xrr_attempts :: "executor_attempt list"

record prepared_effect =
  pe_snapshot :: effect_snapshot
  pe_attempt :: u32
  pe_lease_id :: string
  pe_claim_command_id :: string

record settlement_context =
  sc_cycle_id :: string
  sc_prepared :: prepared_effect
  sc_claimed :: effect_snapshot
  sc_lease :: effect_lease
  sc_authority :: authority_context

type_synonym executor_task = "(execution_policy_request, execution_request, execution_outcome, executor_attempt) worker"
type_synonym executor_event = "(execution_policy_request, execution_request, execution_outcome) worker_event"

text \<open>The report of an attempt that holds no lease, and of one that does.\<close>

definition base_attempt :: "prepared_effect \<Rightarrow> executor_attempt_outcome \<Rightarrow> executor_attempt" where
  "base_attempt prepared outcome = \<lparr>xt_effect_id = esn_id (pe_snapshot prepared),
     xt_observed_revision = esn_revision (pe_snapshot prepared), xt_attempt = pe_attempt prepared, xt_lease_id = None,
     xt_governor_settlement_failed = False, xt_outcome = outcome\<rparr>"

definition leased_attempt :: "prepared_effect \<Rightarrow> executor_attempt_outcome \<Rightarrow> executor_attempt" where
  "leased_attempt prepared outcome = (base_attempt prepared outcome)\<lparr>xt_lease_id := Some (pe_lease_id prepared)\<rparr>"

section \<open>Identities\<close>

definition execution_digest :: "executor_env \<Rightarrow> execution_identity \<Rightarrow> string result" where
  "execution_digest xenv identity =
     and_then (ok_or (wk_err X_encode_identity) (to_vec (xe_identity xenv) identity)) (\<lambda>encoded.
     Inr (lower_hex (xe_sha256 xenv encoded)))"

definition execution_identities ::
  "executor_env \<Rightarrow> string \<Rightarrow> effect_snapshot \<Rightarrow> u32 \<Rightarrow> authority_context \<Rightarrow> (string \<times> string) result" where
  "execution_identities xenv cycle_id snapshot attempt authority =
     and_then (execution_digest xenv \<lparr>xi_purpose = ''claim'', xi_cycle_id = cycle_id, xi_actor = actor authority,
       xi_tenant_id = tenant_id authority, xi_effect_id = esn_id snapshot, xi_revision = esn_revision snapshot,
       xi_attempt = attempt, xi_lease_id = None\<rparr>) (\<lambda>digest.
     Inr (''executor-lease-'' @ digest, ''executor-claim-'' @ digest))"

definition settlement_command_id ::
  "executor_env \<Rightarrow> string \<Rightarrow> string \<Rightarrow> u64 \<Rightarrow> string \<Rightarrow> string \<Rightarrow> authority_context \<Rightarrow> string result" where
  "settlement_command_id xenv cycle_id effect_id revision lease_id purpose authority =
     and_then (execution_digest xenv \<lparr>xi_purpose = purpose, xi_cycle_id = cycle_id, xi_actor = actor authority,
       xi_tenant_id = tenant_id authority, xi_effect_id = effect_id, xi_revision = revision,
       xi_attempt = 0, xi_lease_id = Some lease_id\<rparr>) (\<lambda>digest.
     Inr (''executor-settle-'' @ digest))"

section \<open>Outcomes\<close>

fun valid_governor_decision :: "admission_decision \<Rightarrow> u64 \<Rightarrow> bool" where
  "valid_governor_decision GdAllow _ = True"
| "valid_governor_decision GdAllowProbe _ = True"
| "valid_governor_decision (GdRateLimited retry_at_ms) admitted_at_ms =
     (retry_at_ms \<ge> admitted_at_ms \<and> is_ok (ef_validate_application_time retry_at_ms))"
| "valid_governor_decision (GdCircuitOpen retry_at_ms) admitted_at_ms =
     (retry_at_ms \<ge> admitted_at_ms \<and> is_ok (ef_validate_application_time retry_at_ms))"

fun connector_outcome_valid :: "execution_outcome \<Rightarrow> u64 \<Rightarrow> bool" where
  "connector_outcome_valid (XoApplied receipt) settled_at_ms = is_ok (ef_validate_receipt receipt settled_at_ms)"
| "connector_outcome_valid (XoNotApplied reason_code retry_after_ms) settled_at_ms =
     (is_ok (validate_capability_name reason_code) \<and> is_none_or retry_after_ms (\<lambda>delay. delay \<le> MAX_RETRY_AFTER_MS))"
| "connector_outcome_valid (XoUnknown reason_code) settled_at_ms = is_ok (validate_capability_name reason_code)"

definition normalize_connector_outcome :: "execution_outcome \<Rightarrow> u64 \<Rightarrow> execution_outcome" where
  "normalize_connector_outcome outcome settled_at_ms =
     (if connector_outcome_valid outcome settled_at_ms then outcome else XoUnknown ''connector.invalid_outcome'')"

fun report_settlement :: "execution_outcome \<Rightarrow> effect_status \<Rightarrow> executor_attempt_outcome" where
  "report_settlement (XoApplied _) (EsApplied _ _) = XaApplied"
| "report_settlement (XoNotApplied reason_code None) (EsRejected _ durable_reason) =
     (if reason_code = durable_reason then XaRejected reason_code else XaSettlementFailed)"
| "report_settlement (XoNotApplied reason_code (Some _)) (EsPending _ not_before_ms) =
     XaRetryScheduled reason_code not_before_ms"
| "report_settlement (XoUnknown reason_code) (EsUnknown _ _ durable_reason) =
     (if reason_code = durable_reason then XaUnknown reason_code else XaSettlementFailed)"
| "report_settlement _ _ = XaSettlementFailed"

text \<open>The outcome and the health signal of the dispatch, read off the answer of the Connector.\<close>

fun connector_reply :: "execution_outcome awaited \<Rightarrow> execution_outcome \<times> dispatch_settlement" where
  "connector_reply Aw_refused = (XoUnknown ''connector.failed'', AvailabilityFailure)"
| "connector_reply Aw_cancelled = (XoUnknown ''executor.cancelled_after_dispatch'', Abandoned)"
| "connector_reply (Aw_answered outcome) = (outcome, Healthy)"
| "connector_reply Aw_failed = (XoUnknown ''connector.failed'', AvailabilityFailure)"
| "connector_reply Aw_timeout = (XoUnknown ''connector.timeout'', AvailabilityFailure)"

definition dispatch_health :: "dispatch_settlement \<Rightarrow> execution_outcome \<Rightarrow> dispatch_settlement" where
  "dispatch_health settlement normalized =
     (if settlement = Healthy \<and> normalized = XoUnknown ''connector.invalid_outcome'' then AvailabilityFailure else settlement)"

section \<open>Settlement\<close>

text \<open>
  A function that awaits takes the rest of its caller as the argument \<open>k\<close>. The answer of an engine call is the last argument
  of \<open>Apply_as\<close>; the authority of every call is the one of the sweep, which the semantics of the events supplies.
\<close>

definition settlement_report ::
  "prepared_effect \<Rightarrow> execution_outcome \<Rightarrow> effect_command_result result \<Rightarrow> executor_attempt" where
  "settlement_report prepared outcome answer =
     leased_attempt prepared
       (case answer of
          Inr res \<Rightarrow> report_settlement outcome (ef_status (esn_effect (ecr_snapshot res)))
        | Inl e \<Rightarrow> (case conflict_revision e of Some actual \<Rightarrow> XaSettlementFenced actual | None \<Rightarrow> XaSettlementFailed))"

definition settle_invalid_outcome ::
  "executor_env \<Rightarrow> settlement_context \<Rightarrow> u64 \<Rightarrow> (executor_attempt \<Rightarrow> executor_task) \<Rightarrow> executor_task" where
  "settle_invalid_outcome xenv ctx settled_at_ms k =
     (let prepared = sc_prepared ctx in
      case settlement_command_id xenv (sc_cycle_id ctx) (esn_id (pe_snapshot prepared)) (esn_revision (sc_claimed ctx))
          (el_id (sc_lease ctx)) ''invalid-outcome'' (sc_authority ctx) of
        Inl _ \<Rightarrow> k (leased_attempt prepared XaSettlementFailed)
      | Inr command_id \<Rightarrow>
          Apply_as (esn_id (pe_snapshot prepared)) (esn_revision (sc_claimed ctx))
            \<lparr>ec_id = command_id, ec_kind = EcRecordUnknown (el_id (sc_lease ctx)) ''connector.invalid_outcome''\<rparr> settled_at_ms
            (\<lambda>answer. k (settlement_report prepared (XoUnknown ''connector.invalid_outcome'') answer)))"

text \<open>The command that records an outcome with its purpose; \<open>None\<close> when the retry time does not fit.\<close>

definition settlement_command ::
  "effect_lease \<Rightarrow> execution_outcome \<Rightarrow> u64 option \<Rightarrow> u64 \<Rightarrow> (string \<times> effect_command_kind) option" where
  "settlement_command lease outcome absolute_retry_at_ms settled_at_ms =
     (case outcome of
        XoApplied receipt \<Rightarrow> Some (''applied'', EcRecordApplied (el_id lease) receipt)
      | XoNotApplied reason_code retry_after_ms \<Rightarrow>
          (case absolute_retry_at_ms of
             Some retry_at_ms \<Rightarrow>
               Some (''not-applied'', EcRecordNotApplied (el_id lease) reason_code (Some (max retry_at_ms settled_at_ms)))
           | None \<Rightarrow>
               (case retry_after_ms of
                  Some delay \<Rightarrow>
                    map_option (\<lambda>value. (''not-applied'', EcRecordNotApplied (el_id lease) reason_code (Some value)))
                      (checked_add settled_at_ms delay)
                | None \<Rightarrow> Some (''not-applied'', EcRecordNotApplied (el_id lease) reason_code None)))
      | XoUnknown reason_code \<Rightarrow> Some (''unknown'', EcRecordUnknown (el_id lease) reason_code))"

definition settle_at ::
  "executor_env \<Rightarrow> settlement_context \<Rightarrow> execution_outcome \<Rightarrow> u64 option \<Rightarrow> u64 \<Rightarrow>
   (executor_attempt \<Rightarrow> executor_task) \<Rightarrow> executor_task" where
  "settle_at xenv ctx outcome absolute_retry_at_ms settled_at_ms k =
     (let prepared = sc_prepared ctx in
      case settlement_command (sc_lease ctx) outcome absolute_retry_at_ms settled_at_ms of
        None \<Rightarrow> settle_invalid_outcome xenv ctx settled_at_ms k
      | Some (purpose, kind) \<Rightarrow>
          (case settlement_command_id xenv (sc_cycle_id ctx) (esn_id (pe_snapshot prepared)) (esn_revision (sc_claimed ctx))
              (el_id (sc_lease ctx)) purpose (sc_authority ctx) of
             Inl _ \<Rightarrow> k (leased_attempt prepared XaSettlementFailed)
           | Inr command_id \<Rightarrow>
               Apply_as (esn_id (pe_snapshot prepared)) (esn_revision (sc_claimed ctx))
                 \<lparr>ec_id = command_id, ec_kind = kind\<rparr> settled_at_ms
                 (\<lambda>answer. k (settlement_report prepared outcome answer))))"

definition settle ::
  "executor_env \<Rightarrow> settlement_context \<Rightarrow> execution_outcome \<Rightarrow> (executor_attempt \<Rightarrow> executor_task) \<Rightarrow> executor_task" where
  "settle xenv ctx outcome k =
     Now_ms (\<lambda>reading. case trusted_now reading of
       Inl _ \<Rightarrow> k (leased_attempt (sc_prepared ctx) XaClockUnavailableAfterClaim)
     | Inr settled_at_ms \<Rightarrow>
         settle_at xenv ctx (normalize_connector_outcome outcome settled_at_ms) None settled_at_ms k)"

fun is_retry_scheduled :: "executor_attempt_outcome \<Rightarrow> bool" where
  "is_retry_scheduled (XaRetryScheduled _ _) = True"
| "is_retry_scheduled _ = False"

definition settle_governor_denial ::
  "executor_env \<Rightarrow> settlement_context \<Rightarrow> string \<Rightarrow> u64 \<Rightarrow> executor_attempt_outcome \<Rightarrow>
   (executor_attempt \<Rightarrow> executor_task) \<Rightarrow> executor_task" where
  "settle_governor_denial xenv ctx reason_code retry_at_ms governed_outcome k =
     Now_ms (\<lambda>reading. case trusted_now reading of
       Inl _ \<Rightarrow> k (leased_attempt (sc_prepared ctx) XaClockUnavailableAfterClaim)
     | Inr settled_at_ms \<Rightarrow>
         settle_at xenv ctx (XoNotApplied reason_code (Some 0)) (Some retry_at_ms) settled_at_ms (\<lambda>attempt.
           k (if is_retry_scheduled (xt_outcome attempt) then attempt\<lparr>xt_outcome := governed_outcome\<rparr> else attempt)))"

text \<open>
  \<open>settle_governor\<close> gives \<open>true\<close> exactly when \<open>settle_as\<close> returned \<open>Ok\<close> in time, which is the answer of \<open>Settle_as\<close>; without a
  governor nothing is settled and nothing failed.
\<close>

definition settle_governor ::
  "bool \<Rightarrow> string \<Rightarrow> dispatch_settlement \<Rightarrow> u64 \<Rightarrow> (bool \<Rightarrow> executor_task) \<Rightarrow> executor_task" where
  "settle_governor governed admission_id settlement settled_at_ms k =
     (if governed then Settle_as admission_id settlement settled_at_ms (\<lambda>ok. k (\<not> ok)) else k False)"

section \<open>One task\<close>

definition execution_request_of ::
  "prepared_effect \<Rightarrow> authority_context \<Rightarrow> effect_lease \<Rightarrow> execution_request" where
  "execution_request_of prepared authority lease =
     \<lparr>xq_effect_id = esn_id (pe_snapshot prepared), xq_authority = authority,
      xq_operation = ef_operation (esn_effect (pe_snapshot prepared)),
      xq_idempotency_key = ef_idempotency_key (esn_effect (pe_snapshot prepared)),
      xq_input = ef_input (esn_effect (pe_snapshot prepared)),
      xq_input_sha256 = ef_input_sha256 (esn_effect (pe_snapshot prepared)),
      xq_attempt = pe_attempt prepared, xq_lease_id = pe_lease_id prepared,
      xq_lease_expires_at_ms = el_expires_at_ms lease\<rparr>"

text \<open>Entering the Connector and recording what it reports.\<close>

definition dispatch_connector :: "executor_env \<Rightarrow> bool \<Rightarrow> settlement_context \<Rightarrow> executor_task" where
  "dispatch_connector xenv governed ctx =
     (let prepared = sc_prepared ctx in
      Connect (execution_request_of prepared (sc_authority ctx) (sc_lease ctx)) (\<lambda>answer.
      let (outcome, settlement) = connector_reply answer in
      Now_ms (\<lambda>reading. case trusted_now reading of
        Inl _ \<Rightarrow> Return ((leased_attempt prepared XaClockUnavailableAfterClaim)\<lparr>xt_governor_settlement_failed := governed\<rparr>)
      | Inr settled_at_ms \<Rightarrow>
          let normalized = normalize_connector_outcome outcome settled_at_ms in
          settle_governor governed (pe_lease_id prepared) (dispatch_health settlement normalized) settled_at_ms (\<lambda>failed.
          settle_at xenv ctx normalized None settled_at_ms (\<lambda>attempt.
          Return (attempt\<lparr>xt_governor_settlement_failed := failed\<rparr>))))))"

text \<open>The last look at the cancellation token before the Connector is entered.\<close>

definition dispatch_unless_cancelled :: "executor_env \<Rightarrow> bool \<Rightarrow> settlement_context \<Rightarrow> executor_task" where
  "dispatch_unless_cancelled xenv governed ctx =
     Is_cancelled (\<lambda>cancelled.
     if cancelled then
       let finish = (\<lambda>failed. settle xenv ctx (XoNotApplied ''executor.cancelled_before_dispatch'' (Some 0)) (\<lambda>attempt.
             Return (attempt\<lparr>xt_governor_settlement_failed := failed\<rparr>))) in
       if governed then
         Now_ms (\<lambda>reading. case trusted_now reading of
           Inl _ \<Rightarrow> finish True
         | Inr settled_at_ms \<Rightarrow>
             settle_governor True (pe_lease_id (sc_prepared ctx)) Abandoned settled_at_ms finish)
       else finish False
     else dispatch_connector xenv governed ctx)"

definition govern_dispatch :: "executor_env \<Rightarrow> executor \<Rightarrow> settlement_context \<Rightarrow> executor_task" where
  "govern_dispatch xenv ex ctx =
     (let prepared = sc_prepared ctx in
      case ex_governor ex of
        None \<Rightarrow> dispatch_unless_cancelled xenv False ctx
      | Some policy \<Rightarrow>
          Now_ms (\<lambda>reading. case trusted_now reading of
            Inl _ \<Rightarrow> Return (leased_attempt prepared XaClockUnavailableAfterClaim)
          | Inr admitted_at_ms \<Rightarrow>
              Admit_as \<lparr>gq_admission_id = pe_lease_id prepared,
                  gq_operation = ef_operation (esn_effect (pe_snapshot prepared)), gq_policy = policy,
                  gq_admitted_at_ms = admitted_at_ms\<rparr> (\<lambda>answer.
              let decision = (case answer of
                    Some decision \<Rightarrow> if valid_governor_decision decision admitted_at_ms then Some decision else None
                  | None \<Rightarrow> None) in
              case decision of
                Some GdAllow \<Rightarrow> dispatch_unless_cancelled xenv True ctx
              | Some GdAllowProbe \<Rightarrow> dispatch_unless_cancelled xenv True ctx
              | Some (GdRateLimited retry_at_ms) \<Rightarrow>
                  settle_governor_denial xenv ctx ''governor.rate_limited'' retry_at_ms (XaRateLimited retry_at_ms) Return
              | Some (GdCircuitOpen retry_at_ms) \<Rightarrow>
                  settle_governor_denial xenv ctx ''governor.circuit_open'' retry_at_ms (XaCircuitOpen retry_at_ms) Return
              | None \<Rightarrow>
                  let retry_at_ms = (case checked_add admitted_at_ms (xc_governor_retry_after_ms (ex_config ex)) of
                        Some t \<Rightarrow> t | None \<Rightarrow> admitted_at_ms) in
                  settle_governor_denial xenv ctx ''governor.unavailable'' retry_at_ms (XaGovernorUnavailable retry_at_ms)
                    Return)))"

text \<open>\<open>saturating_add\<close> of the revision by one.\<close>

definition next_revision :: "u64 \<Rightarrow> u64" where
  "next_revision r = (case checked_add r 1 of Some n \<Rightarrow> n | None \<Rightarrow> r)"

definition claim_and_dispatch ::
  "executor_env \<Rightarrow> executor \<Rightarrow> string \<Rightarrow> prepared_effect \<Rightarrow> authority_context \<Rightarrow> executor_task" where
  "claim_and_dispatch xenv ex cycle_id prepared authority =
     Now_ms (\<lambda>reading. case trusted_now reading of
       Inl _ \<Rightarrow> Return (base_attempt prepared XaClaimFailed)
     | Inr claim_time \<Rightarrow>
         Apply_as (esn_id (pe_snapshot prepared)) (esn_revision (pe_snapshot prepared))
           \<lparr>ec_id = pe_claim_command_id prepared,
            ec_kind = EcClaim (pe_lease_id prepared) (xc_lease_duration_ms (ex_config ex))\<rparr> claim_time (\<lambda>answer.
         case answer of
           Inl e \<Rightarrow>
             Return (leased_attempt prepared
               (case conflict_revision e of Some actual \<Rightarrow> XaClaimFenced actual | None \<Rightarrow> XaClaimFailed))
         | Inr claimed \<Rightarrow>
             if ecr_outcome claimed = EDuplicate then Return (leased_attempt prepared XaClaimAlreadyCommitted)
             else
             case ef_status (esn_effect (ecr_snapshot claimed)) of
               EsClaimed lease \<Rightarrow>
                 if el_id lease \<noteq> pe_lease_id prepared \<or> el_owner lease \<noteq> actor authority \<or>
                    el_attempt lease \<noteq> pe_attempt prepared \<or>
                    esn_revision (ecr_snapshot claimed) \<noteq> next_revision (esn_revision (pe_snapshot prepared))
                 then Return (leased_attempt prepared XaClaimFailed)
                 else
                 let ctx = \<lparr>sc_cycle_id = cycle_id, sc_prepared = prepared, sc_claimed = ecr_snapshot claimed,
                       sc_lease = lease, sc_authority = authority\<rparr> in
                 Is_cancelled (\<lambda>cancelled.
                 if cancelled
                 then settle xenv ctx (XoNotApplied ''executor.cancelled_before_dispatch'' (Some 0)) Return
                 else govern_dispatch xenv ex ctx)
             | _ \<Rightarrow> Return (leased_attempt prepared XaClaimFailed)))"

definition execution_policy_request_of ::
  "prepared_effect \<Rightarrow> authority_context \<Rightarrow> registered_connector \<Rightarrow> execution_policy_request" where
  "execution_policy_request_of prepared authority registered =
     \<lparr>pq_effect_id = esn_id (pe_snapshot prepared), pq_authority = authority,
      pq_operation = ef_operation (esn_effect (pe_snapshot prepared)),
      pq_input = ef_input (esn_effect (pe_snapshot prepared)),
      pq_input_sha256 = ef_input_sha256 (esn_effect (pe_snapshot prepared)),
      pq_connector_origin = rc_origin registered, pq_idempotency = cd_idempotency (rc_descriptor registered)\<rparr>"

definition execute_prepared ::
  "executor_env \<Rightarrow> executor \<Rightarrow> string \<Rightarrow> prepared_effect \<Rightarrow> authority_context \<Rightarrow> executor_task" where
  "execute_prepared xenv ex cycle_id prepared authority =
     (case ex_resolve (ex_connectors ex) (ef_operation (esn_effect (pe_snapshot prepared))) of
        None \<Rightarrow> Return (base_attempt prepared XaConnectorUnavailable)
      | Some registered \<Rightarrow>
          Is_cancelled (\<lambda>cancelled.
          if cancelled then Return (base_attempt prepared XaCancelledBeforeClaim)
          else
          Authorize (execution_policy_request_of prepared authority registered) (\<lambda>answer.
          case answer of
            Aw_refused \<Rightarrow> Return (base_attempt prepared XaPolicyUnavailable)
          | Aw_cancelled \<Rightarrow> Return (base_attempt prepared XaCancelledBeforeClaim)
          | Aw_failed \<Rightarrow> Return (base_attempt prepared XaPolicyUnavailable)
          | Aw_timeout \<Rightarrow> Return (base_attempt prepared XaPolicyUnavailable)
          | Aw_answered decision \<Rightarrow>
              (case decision of
                 Policy_deny reason_code \<Rightarrow>
                   if is_ok (validate_capability_name reason_code)
                   then Return (base_attempt prepared (XaPolicyDenied reason_code))
                   else Return (base_attempt prepared XaPolicyUnavailable)
               | Policy_allow \<Rightarrow>
                   Is_cancelled (\<lambda>cancelled.
                   if cancelled then Return (base_attempt prepared XaCancelledBeforeClaim)
                   else claim_and_dispatch xenv ex cycle_id prepared authority)))))"

section \<open>One sweep\<close>

definition ex_validate_run_request :: "executor_run_request \<Rightarrow> authority_context \<Rightarrow> unit result" where
  "ex_validate_run_request request authority =
     and_then (map_err (\<lambda>_. wk_err X_authority) (authority_validate_current authority)) (\<lambda>_.
     and_then (ef_validate_identity (xr_cycle_id request)) (\<lambda>_.
     case xr_after request of None \<Rightarrow> Inr () | Some after \<Rightarrow> ef_validate_identity after))"

text \<open>The loop over the page: the eligible Effects with the identities of their claims.\<close>

definition prepare_effect ::
  "executor_env \<Rightarrow> string \<Rightarrow> u64 \<Rightarrow> authority_context \<Rightarrow> prepared_effect list \<Rightarrow> effect_snapshot \<Rightarrow> prepared_effect list result" where
  "prepare_effect xenv cycle_id scanned_at_ms authority prepared snapshot =
     (case ef_status (esn_effect snapshot) of
        EsPending next_attempt not_before_ms \<Rightarrow>
          if not_before_ms \<le> scanned_at_ms then
            and_then (execution_identities xenv cycle_id snapshot next_attempt authority) (\<lambda>(lease_id, claim_command_id).
            Inr (prepared @ [\<lparr>pe_snapshot = snapshot, pe_attempt = next_attempt, pe_lease_id = lease_id,
              pe_claim_command_id = claim_command_id\<rparr>]))
          else Inr prepared
      | _ \<Rightarrow> Inl (wk_err X_scan_state))"

definition ex_scan ::
  "executor_env \<Rightarrow> effect_env \<Rightarrow> executor \<Rightarrow> effect_state \<Rightarrow> executor_run_request \<Rightarrow> authority_context \<Rightarrow> u64 option \<Rightarrow>
   (u64 \<times> effect_page \<times> prepared_effect list) result" where
  "ex_scan xenv env ex ledger request authority reading =
     and_then (ex_validate_run_request request authority) (\<lambda>_.
     and_then (executor_config_validate (ex_config ex)) (\<lambda>_.
     and_then (trusted_now reading) (\<lambda>scanned_at_ms.
     and_then (ef_list_as ledger (Some ''pending'') (xr_after request) (xc_scan_limit (ex_config ex)) authority) (\<lambda>page.
     and_then (validate_effect_page env page (xr_after request) (xc_scan_limit (ex_config ex)) authority PsPending) (\<lambda>_.
     and_then (try_fold (prepare_effect xenv (xr_cycle_id request) scanned_at_ms authority) [] (epg_effects page)) (\<lambda>prepared.
     Inr (scanned_at_ms, page, prepared)))))))"

text \<open>
  \<open>outcome i\<close> is what the task of the \<open>i\<close>-th eligible Effect returned, \<open>None\<close> when it panicked or was aborted;
  \<open>choice\<close> is the order in which the tasks end.
\<close>

definition run_once_as ::
  "executor_env \<Rightarrow> effect_env \<Rightarrow> executor \<Rightarrow> effect_state \<Rightarrow> executor_run_request \<Rightarrow> authority_context \<Rightarrow> u64 option \<Rightarrow>
   (nat \<Rightarrow> executor_attempt option) \<Rightarrow> (nat \<Rightarrow> nat) \<Rightarrow> executor_run_report result" where
  "run_once_as xenv env ex ledger request authority reading outcome choice =
     and_then (ex_scan xenv env ex ledger request authority reading) (\<lambda>(scanned_at_ms, page, prepared).
     let attempts = pool_attempts outcome (\<lambda>p. base_attempt p XaAttemptFailed) choice
           (xc_max_concurrency (ex_config ex)) prepared in
     Inr \<lparr>xrr_scanned_at_ms = scanned_at_ms, xrr_scanned = length (epg_effects page), xrr_eligible = length prepared,
       xrr_has_more = epg_has_more page,
       xrr_next_after = (if epg_has_more page then epg_next_cursor page else None),
       xrr_attempts = attempts\<rparr>)"

definition run_once ::
  "executor_env \<Rightarrow> effect_env \<Rightarrow> executor \<Rightarrow> effect_state \<Rightarrow> executor_run_request \<Rightarrow> u64 option \<Rightarrow>
   (nat \<Rightarrow> executor_attempt option) \<Rightarrow> (nat \<Rightarrow> nat) \<Rightarrow> executor_run_report result" where
  "run_once xenv env ex ledger request reading outcome choice =
     run_once_as xenv env ex ledger request local_process reading outcome choice"

section \<open>What one task can do\<close>

text \<open>
  The condition on the events of a task. A Connector is entered at most once, for the immutable content of the Effect, and only
  after the Policy allowed exactly this request, a fresh claim was committed whose lease is the derived one, and the
  governor, if one is installed, admitted the lease. A success is recorded only with the receipt the
  Connector answered, a confirmed absence only before the Connector was entered or on its own word, an uncertain
  outcome only after it was entered.
\<close>

definition entered :: "executor_event set \<Rightarrow> bool" where
  "entered past \<longleftrightarrow> (\<exists>q r. Ev_connect q r \<in> past)"

definition claimed_by ::
  "executor \<Rightarrow> prepared_effect \<Rightarrow> authority_context \<Rightarrow> executor_event set \<Rightarrow> effect_snapshot \<Rightarrow> effect_lease \<Rightarrow> bool" where
  "claimed_by ex prepared authority past claimed lease \<longleftrightarrow>
     (\<exists>t. Ev_apply (esn_id (pe_snapshot prepared)) (esn_revision (pe_snapshot prepared))
        \<lparr>ec_id = pe_claim_command_id prepared,
         ec_kind = EcClaim (pe_lease_id prepared) (xc_lease_duration_ms (ex_config ex))\<rparr> t
        (Inr \<lparr>ecr_snapshot = claimed, ecr_outcome = EApplied\<rparr>) \<in> past) \<and>
     ef_status (esn_effect claimed) = EsClaimed lease \<and> el_id lease = pe_lease_id prepared \<and>
     el_owner lease = actor authority \<and> el_attempt lease = pe_attempt prepared \<and>
     esn_revision claimed = next_revision (esn_revision (pe_snapshot prepared))"

definition policy_allowed :: "executor \<Rightarrow> prepared_effect \<Rightarrow> authority_context \<Rightarrow> executor_event set \<Rightarrow> bool" where
  "policy_allowed ex prepared authority past \<longleftrightarrow>
     (\<exists>registered. ex_resolve (ex_connectors ex) (ef_operation (esn_effect (pe_snapshot prepared))) = Some registered \<and>
        Ev_policy (execution_policy_request_of prepared authority registered) (Aw_answered Policy_allow) \<in> past)"

definition governor_admitted :: "executor \<Rightarrow> prepared_effect \<Rightarrow> executor_event set \<Rightarrow> bool" where
  "governor_admitted ex prepared past \<longleftrightarrow>
     (case ex_governor ex of None \<Rightarrow> True | Some policy \<Rightarrow>
        (\<exists>t d. Ev_admit \<lparr>gq_admission_id = pe_lease_id prepared,
            gq_operation = ef_operation (esn_effect (pe_snapshot prepared)), gq_policy = policy, gq_admitted_at_ms = t\<rparr>
            (Some d) \<in> past \<and> (d = GdAllow \<or> d = GdAllowProbe)))"

definition settled_as_answered :: "executor_event set \<Rightarrow> u64 \<Rightarrow> effect_command_kind \<Rightarrow> bool" where
  "settled_as_answered past t kind \<longleftrightarrow>
     (case kind of
        EcRecordApplied _ receipt \<Rightarrow>
          (\<exists>q. Ev_connect q (Aw_answered (XoApplied receipt)) \<in> past) \<and> ef_validate_receipt receipt t = Inr ()
      | EcRecordNotApplied _ reason_code retry \<Rightarrow>
          \<not> entered past \<and> retry \<noteq> None \<or>
          (\<exists>q after. Ev_connect q (Aw_answered (XoNotApplied reason_code after)) \<in> past \<and> (after = None \<longleftrightarrow> retry = None))
      | EcRecordUnknown _ _ \<Rightarrow> entered past
      | _ \<Rightarrow> False)"

definition task_event_ok ::
  "executor \<Rightarrow> prepared_effect \<Rightarrow> authority_context \<Rightarrow> executor_event list \<Rightarrow> executor_event \<Rightarrow> bool" where
  "task_event_ok ex prepared authority past ev \<longleftrightarrow>
     (case ev of
        Ev_connect q _ \<Rightarrow>
          \<not> entered (set past) \<and> policy_allowed ex prepared authority (set past) \<and> governor_admitted ex prepared (set past) \<and>
          (\<exists>claimed lease. claimed_by ex prepared authority (set past) claimed lease \<and>
             q = execution_request_of prepared authority lease)
      | Ev_apply i v c t _ \<Rightarrow> t \<noteq> 0 \<and> i = esn_id (pe_snapshot prepared) \<and> policy_allowed ex prepared authority (set past) \<and>
          (if v = esn_revision (pe_snapshot prepared) \<and> ec_kind c = EcClaim (pe_lease_id prepared) (xc_lease_duration_ms (ex_config ex))
           then \<not> entered (set past)
           else \<exists>claimed lease. claimed_by ex prepared authority (set past) claimed lease \<and> v = esn_revision claimed \<and>
             settled_as_answered (set past) t (ec_kind c))
      | _ \<Rightarrow> True)"

text \<open>What the returned report says about the durable state.\<close>

definition durable :: "executor_event set \<Rightarrow> (u64 \<Rightarrow> effect_command_kind \<Rightarrow> effect_status \<Rightarrow> bool) \<Rightarrow> bool" where
  "durable past P \<longleftrightarrow> (\<exists>i v c t res. Ev_apply i v c t (Inr res) \<in> past \<and> P t (ec_kind c) (ef_status (esn_effect (ecr_snapshot res))))"

definition denied_until :: "u64 \<Rightarrow> u64 \<Rightarrow> effect_command_kind \<Rightarrow> effect_status \<Rightarrow> bool" where
  "denied_until retry t kind status \<longleftrightarrow> (\<exists>lease_id reason_code n nb.
     kind = EcRecordNotApplied lease_id reason_code (Some (max retry t)) \<and> status = EsPending n nb)"

definition report_ok :: "executor_event list \<Rightarrow> executor_attempt \<Rightarrow> bool" where
  "report_ok past a \<longleftrightarrow>
     (case xt_outcome a of
        XaApplied \<Rightarrow> durable (set past) (\<lambda>t kind status. (\<exists>l receipt. kind = EcRecordApplied l receipt) \<and> (\<exists>n receipt. status = EsApplied n receipt))
      | XaRejected reason_code \<Rightarrow>
          durable (set past) (\<lambda>t kind status. (\<exists>l. kind = EcRecordNotApplied l reason_code None) \<and> (\<exists>n. status = EsRejected n reason_code))
      | XaRetryScheduled reason_code retry_at_ms \<Rightarrow>
          durable (set past) (\<lambda>t kind status. (\<exists>l r. kind = EcRecordNotApplied l reason_code (Some r)) \<and> (\<exists>n. status = EsPending n retry_at_ms))
      | XaUnknown reason_code \<Rightarrow>
          durable (set past) (\<lambda>t kind status. (\<exists>l. kind = EcRecordUnknown l reason_code) \<and> (\<exists>n l. status = EsUnknown n l reason_code))
      | XaRateLimited retry_at_ms \<Rightarrow> \<not> entered (set past) \<and> durable (set past) (denied_until retry_at_ms)
      | XaCircuitOpen retry_at_ms \<Rightarrow> \<not> entered (set past) \<and> durable (set past) (denied_until retry_at_ms)
      | XaGovernorUnavailable retry_at_ms \<Rightarrow> \<not> entered (set past) \<and> durable (set past) (denied_until retry_at_ms)
      | XaSettlementFenced _ \<Rightarrow> True
      | XaSettlementFailed \<Rightarrow> True
      | XaClockUnavailableAfterClaim \<Rightarrow> True
      | _ \<Rightarrow> \<not> entered (set past))"

lemma entered_simps [simp]:
  "entered {} \<longleftrightarrow> False"
  "entered (insert (Ev_connect q r) past) \<longleftrightarrow> True"
  "entered (insert (Ev_cancelled b) past) \<longleftrightarrow> entered past"
  "entered (insert (Ev_now u) past) \<longleftrightarrow> entered past"
  "entered (insert (Ev_policy p d) past) \<longleftrightarrow> entered past"
  "entered (insert (Ev_apply i v c t ans) past) \<longleftrightarrow> entered past"
  "entered (insert (Ev_admit g d') past) \<longleftrightarrow> entered past"
  "entered (insert (Ev_settle s h t' ok) past) \<longleftrightarrow> entered past"
  by (auto simp: entered_def)

lemma task_facts_mono:
  "claimed_by ex prepared authority past claimed lease \<Longrightarrow> claimed_by ex prepared authority (insert ev past) claimed lease"
  "policy_allowed ex prepared authority past \<Longrightarrow> policy_allowed ex prepared authority (insert ev past)"
  "governor_admitted ex prepared past \<Longrightarrow> governor_admitted ex prepared (insert ev past)"
  by (auto simp: claimed_by_def policy_allowed_def governor_admitted_def split: option.splits)

lemma task_event_ok_simps [simp]:
  "task_event_ok ex prepared authority past (Ev_cancelled b)"
  "task_event_ok ex prepared authority past (Ev_now u)"
  "task_event_ok ex prepared authority past (Ev_policy p d)"
  "task_event_ok ex prepared authority past (Ev_admit g d')"
  "task_event_ok ex prepared authority past (Ev_settle s h t' ok)"
  by (simp_all add: task_event_ok_def)

lemma attempt_outcomes [simp]:
  "xt_outcome (leased_attempt prepared outcome) = outcome"
  "xt_outcome (base_attempt prepared outcome) = outcome"
  by (simp_all add: leased_attempt_def base_attempt_def)

lemma report_ok_flag [simp]: "report_ok past (a\<lparr>xt_governor_settlement_failed := b\<rparr>) = report_ok past a"
  by (simp add: report_ok_def)

text \<open>The command that settles, together with the outcome that is reported for it.\<close>

definition settles :: "effect_lease \<Rightarrow> execution_outcome \<Rightarrow> u64 option \<Rightarrow> u64 \<Rightarrow> effect_command_kind \<Rightarrow> execution_outcome \<Rightarrow> bool" where
  "settles lease outcome absolute t kind reported \<longleftrightarrow>
     (\<exists>purpose. settlement_command lease outcome absolute t = Some (purpose, kind)) \<and> reported = outcome \<or>
     settlement_command lease outcome absolute t = None \<and>
     kind = EcRecordUnknown (el_id lease) ''connector.invalid_outcome'' \<and> reported = XoUnknown ''connector.invalid_outcome''"

lemma settle_at_along:
  assumes "\<And>command ans reported purpose. settles (sc_lease ctx) outcome absolute t (ec_kind command) reported \<Longrightarrow>
      settlement_command_id xenv (sc_cycle_id ctx) (esn_id (pe_snapshot (sc_prepared ctx))) (esn_revision (sc_claimed ctx))
        (el_id (sc_lease ctx)) purpose (sc_authority ctx) = Inr (ec_id command) \<Longrightarrow>
      P past (Ev_apply (esn_id (pe_snapshot (sc_prepared ctx))) (esn_revision (sc_claimed ctx)) command t ans) \<and>
      along_worker P Q (k (settlement_report (sc_prepared ctx) reported ans))
        (past @ [Ev_apply (esn_id (pe_snapshot (sc_prepared ctx))) (esn_revision (sc_claimed ctx)) command t ans])"
    and "along_worker P Q (k (leased_attempt (sc_prepared ctx) XaSettlementFailed)) past"
  shows "along_worker P Q (settle_at xenv ctx outcome absolute t k) past"
proof (cases "settlement_command (sc_lease ctx) outcome absolute t")
  case None
  with assms show ?thesis
    by (auto simp: settle_at_def settle_invalid_outcome_def settles_def Let_def split: sum.splits)
next
  case (Some pk)
  then obtain purpose kind where "settlement_command (sc_lease ctx) outcome absolute t = Some (purpose, kind)" by (cases pk) auto
  with assms show ?thesis by (auto simp: settle_at_def settles_def Let_def split: sum.splits)
qed

lemma settles_outcome:
  assumes "settles lease outcome absolute t kind reported"
  obtains receipt where "kind = EcRecordApplied (el_id lease) receipt" "reported = XoApplied receipt" "outcome = reported"
  | reason retry after where "kind = EcRecordNotApplied (el_id lease) reason retry" "reported = XoNotApplied reason after"
      "outcome = reported" "absolute = None \<Longrightarrow> after = None \<longleftrightarrow> retry = None"
      "\<And>r. absolute = Some r \<Longrightarrow> retry = Some (max r t)"
  | reason where "kind = EcRecordUnknown (el_id lease) reason" "reported = XoUnknown reason"
      "outcome = reported \<or> (\<exists>r d. outcome = XoNotApplied r (Some d) \<and> checked_add t d = None \<and> absolute = None)"
  using assms
  by (auto simp: settles_def settlement_command_def split: execution_outcome.splits option.splits)

lemma durable_here:
  "Ev_apply i v c t (Inr res) \<in> past \<Longrightarrow> P t (ec_kind c) (ef_status (esn_effect (ecr_snapshot res))) \<Longrightarrow> durable past P"
  unfolding durable_def by blast

lemma report_ok_settlement:
  assumes "settles lease outcome absolute t (ec_kind command) reported" and "absolute = None"
    and "Ev_apply i v command t ans \<in> set past"
  shows "report_ok past (settlement_report prepared reported ans)"
proof (cases ans)
  case (Inl e)
  then show ?thesis by (simp add: report_ok_def settlement_report_def split: option.splits)
next
  case (Inr res)
  note here = durable_here [OF assms(3) [unfolded Inr]]
  from assms(2) show ?thesis
    by (cases rule: settles_outcome [OF assms(1)]; cases "ef_status (esn_effect (ecr_snapshot res))")
      (auto simp: Inr report_ok_def settlement_report_def intro!: here split: option.splits)
qed

lemma fresh_outcome [simp]: "outcome \<noteq> EDuplicate \<longleftrightarrow> outcome = EApplied"
  by (cases outcome) simp_all

lemma settle_at_ok:
  assumes ctx: "ctx = \<lparr>sc_cycle_id = cycle_id, sc_prepared = prepared, sc_claimed = claimed, sc_lease = lease, sc_authority = authority\<rparr>"
    and claim: "claimed_by ex prepared authority (set past) claimed lease" and policy: "policy_allowed ex prepared authority (set past)"
    and time: "t \<noteq> 0"
    and settled: "\<And>kind reported. settles lease outcome absolute t kind reported \<Longrightarrow> settled_as_answered (set past) t kind"
    and k: "\<And>(command :: effect_command) ans reported. settles lease outcome absolute t (ec_kind command) reported \<Longrightarrow>
      along_worker (task_event_ok ex prepared authority) report_ok (k (settlement_report prepared reported ans))
        (past @ [Ev_apply (esn_id (pe_snapshot prepared)) (esn_revision claimed) command t ans])"
      "along_worker (task_event_ok ex prepared authority) report_ok (k (leased_attempt prepared XaSettlementFailed)) past"
  shows "along_worker (task_event_ok ex prepared authority) report_ok (settle_at xenv ctx outcome absolute t k) past"
proof (rule settle_at_along)
  fix command :: effect_command and ans reported purpose
  assume s: "settles (sc_lease ctx) outcome absolute t (ec_kind command) reported"
  then have s': "settles lease outcome absolute t (ec_kind command) reported" by (simp add: ctx)
  have "\<not> (\<exists>l d. ec_kind command = EcClaim l d)" using s' by (auto elim: settles_outcome)
  with claim policy time settled [OF s'] have
    "task_event_ok ex prepared authority past (Ev_apply (esn_id (pe_snapshot prepared)) (esn_revision claimed) command t ans)"
    unfolding task_event_ok_def by auto
  with k(1) [OF s'] show "task_event_ok ex prepared authority past
      (Ev_apply (esn_id (pe_snapshot (sc_prepared ctx))) (esn_revision (sc_claimed ctx)) command t ans) \<and>
    along_worker (task_event_ok ex prepared authority) report_ok (k (settlement_report (sc_prepared ctx) reported ans))
      (past @ [Ev_apply (esn_id (pe_snapshot (sc_prepared ctx))) (esn_revision (sc_claimed ctx)) command t ans])"
    by (simp add: ctx)
qed (use k(2) in \<open>simp add: ctx\<close>)

lemma connector_settlement_answered:
  assumes "settles lease (normalize_connector_outcome (fst (connector_reply ans)) t) None t kind reported"
    and "Ev_connect q ans \<in> past"
  shows "settled_as_answered past t kind"
proof -
  have "entered past" using assms(2) unfolding entered_def by blast
  with assms show ?thesis
    by (cases ans; cases rule: settles_outcome [OF assms(1)])
      (auto simp: settled_as_answered_def normalize_connector_outcome_def is_ok_def split: if_splits sum.splits)
qed

lemma checked_add_zero: "checked_add t (0 :: u64) = Some t"
  by (simp add: checked_add_Some)

lemma early_settlement_answered:
  assumes "settles lease (XoNotApplied reason (Some 0)) absolute t kind reported" and "\<not> entered past"
  shows "settled_as_answered past t kind"
  using assms(2)
  by (cases rule: settles_outcome [OF assms(1)]) (auto simp: settled_as_answered_def checked_add_zero)

lemma report_ok_lost [simp]:
  "report_ok past (leased_attempt prepared XaSettlementFailed)"
  "report_ok past (leased_attempt prepared XaClockUnavailableAfterClaim)"
  by (simp_all add: report_ok_def)

lemma report_ok_not_entered:
  "\<not> entered (set past) \<Longrightarrow>
   outcome \<in> {XaConnectorUnavailable, XaPolicyUnavailable, XaCancelledBeforeClaim, XaClaimFailed, XaClaimAlreadyCommitted} \<or>
   (\<exists>r. outcome = XaPolicyDenied r) \<or> (\<exists>v. outcome = XaClaimFenced v) \<Longrightarrow>
   report_ok past (base_attempt prepared outcome) \<and> report_ok past (leased_attempt prepared outcome)"
  by (auto simp: report_ok_def)

lemma dispatch_connector_along:
  assumes ctx: "ctx = \<lparr>sc_cycle_id = cycle_id, sc_prepared = prepared, sc_claimed = claimed, sc_lease = lease, sc_authority = authority\<rparr>"
    and claim: "claimed_by ex prepared authority (set past) claimed lease" and policy: "policy_allowed ex prepared authority (set past)"
    and admitted: "governor_admitted ex prepared (set past)" and early: "\<not> entered (set past)"
  shows "along_worker (task_event_ok ex prepared authority) report_ok (dispatch_connector xenv governed ctx) past"
proof -
  let ?q = "execution_request_of prepared authority lease"
  have enter: "task_event_ok ex prepared authority past (Ev_connect ?q ans)" for ans
    using claim policy admitted early unfolding task_event_ok_def by auto
  have settle: "along_worker (task_event_ok ex prepared authority) report_ok
      (settle_at xenv ctx (normalize_connector_outcome (fst (connector_reply ans)) t) None t
        (\<lambda>a. Return (a\<lparr>xt_governor_settlement_failed := failed\<rparr>))) past'"
    if "set past' = insert ev (insert (Ev_now (Some t)) (insert (Ev_connect ?q ans) (set past))) \<or>
        set past' = insert (Ev_now (Some t)) (insert (Ev_connect ?q ans) (set past))" "t \<noteq> 0" for ans t failed past' ev
    by (rule settle_at_ok [OF ctx])
      (use that claim policy in \<open>auto simp: task_facts_mono intro: connector_settlement_answered report_ok_settlement\<close>)
  show ?thesis
    by (auto simp: dispatch_connector_def ctx Let_def split_def settle_governor_def enter trusted_now_ok
        split: sum.splits intro!: settle [unfolded ctx])
qed

lemma settle_early_along:
  assumes ctx: "ctx = \<lparr>sc_cycle_id = cycle_id, sc_prepared = prepared, sc_claimed = claimed, sc_lease = lease, sc_authority = authority\<rparr>"
    and claim: "claimed_by ex prepared authority (set past) claimed lease" and policy: "policy_allowed ex prepared authority (set past)"
    and early: "\<not> entered (set past)"
    and k: "\<And>past' a. report_ok past' a \<Longrightarrow> along_worker (task_event_ok ex prepared authority) report_ok (k a) past'"
  shows "along_worker (task_event_ok ex prepared authority) report_ok
    (settle xenv ctx (XoNotApplied ''executor.cancelled_before_dispatch'' (Some 0)) k) past"
proof -
  have norm: "normalize_connector_outcome (XoNotApplied ''executor.cancelled_before_dispatch'' (Some 0)) t =
      XoNotApplied ''executor.cancelled_before_dispatch'' (Some 0)" for t
    by (simp add: normalize_connector_outcome_def validate_capability_name_def is_ok_def is_none_or_def string_eval MAX_RETRY_AFTER_MS_def)
  have "along_worker (task_event_ok ex prepared authority) report_ok
      (settle_at xenv ctx (XoNotApplied ''executor.cancelled_before_dispatch'' (Some 0)) None t k) (past @ [Ev_now (Some t)])"
    if "t \<noteq> 0" for t
    by (rule settle_at_ok [OF ctx])
      (use that claim policy early in \<open>auto simp: task_facts_mono intro!: early_settlement_answered k intro: report_ok_settlement\<close>)
  then show ?thesis
    by (auto simp: settle_def ctx norm trusted_now_ok split: sum.splits intro: k)
qed

lemma denial_along:
  assumes ctx: "ctx = \<lparr>sc_cycle_id = cycle_id, sc_prepared = prepared, sc_claimed = claimed, sc_lease = lease, sc_authority = authority\<rparr>"
    and claim: "claimed_by ex prepared authority (set past) claimed lease" and policy: "policy_allowed ex prepared authority (set past)"
    and early: "\<not> entered (set past)"
    and governed: "governed_outcome \<in> {XaRateLimited r, XaCircuitOpen r, XaGovernorUnavailable r}"
  shows "along_worker (task_event_ok ex prepared authority) report_ok
    (settle_governor_denial xenv ctx reason r governed_outcome Return) past"
proof -
  have report: "report_ok (past @ [Ev_now u, Ev_apply i v command t ans])
      (let a = settlement_report prepared reported ans in
       if is_retry_scheduled (xt_outcome a) then a\<lparr>xt_outcome := governed_outcome\<rparr> else a)"
    if "settles lease (XoNotApplied reason (Some 0)) (Some r) t (ec_kind command) reported" for i v command t ans reported u
  proof (cases ans)
    case (Inl e)
    then show ?thesis by (simp add: report_ok_def settlement_report_def Let_def split: option.splits)
  next
    case (Inr res)
    have s: "ec_kind command = EcRecordNotApplied (el_id lease) reason (Some (max r t))" "reported = XoNotApplied reason (Some 0)"
      using that by (auto simp: settles_def settlement_command_def)
    have "durable past' (denied_until r)" if "ef_status (esn_effect (ecr_snapshot res)) = EsPending n nb"
      "Ev_apply i v command t (Inr res) \<in> past'" for n nb past'
      by (rule durable_here [OF that(2)]) (use s that in \<open>auto simp: denied_until_def\<close>)
    with governed early show ?thesis
      by (cases "ef_status (esn_effect (ecr_snapshot res))")
        (auto simp: Inr s report_ok_def settlement_report_def Let_def)
  qed
  have "along_worker (task_event_ok ex prepared authority) report_ok
      (settle_at xenv ctx (XoNotApplied reason (Some 0)) (Some r) t (\<lambda>attempt.
        Return (if is_retry_scheduled (xt_outcome attempt) then attempt\<lparr>xt_outcome := governed_outcome\<rparr> else attempt)))
      (past @ [Ev_now (Some t)])" if "t \<noteq> 0" for t
    by (rule settle_at_ok [OF ctx])
      (use that claim policy early report in \<open>auto simp: task_facts_mono Let_def intro: early_settlement_answered\<close>)
  then show ?thesis
    by (auto simp: settle_governor_denial_def ctx trusted_now_ok split: sum.splits)
qed

lemma dispatch_unless_cancelled_along:
  assumes ctx: "ctx = \<lparr>sc_cycle_id = cycle_id, sc_prepared = prepared, sc_claimed = claimed, sc_lease = lease, sc_authority = authority\<rparr>"
    and claim: "claimed_by ex prepared authority (set past) claimed lease" and policy: "policy_allowed ex prepared authority (set past)"
    and admitted: "governor_admitted ex prepared (set past)" and early: "\<not> entered (set past)"
  shows "along_worker (task_event_ok ex prepared authority) report_ok (dispatch_unless_cancelled xenv governed ctx) past"
proof -
  have settle: "along_worker (task_event_ok ex prepared authority) report_ok
      (settle xenv ctx (XoNotApplied ''executor.cancelled_before_dispatch'' (Some 0)) (\<lambda>attempt.
        Return (attempt\<lparr>xt_governor_settlement_failed := failed\<rparr>))) past'"
    if "claimed_by ex prepared authority (set past') claimed lease" "policy_allowed ex prepared authority (set past')"
      "\<not> entered (set past')" for failed past'
    by (rule settle_early_along [OF ctx that]) simp
  have dispatch: "along_worker (task_event_ok ex prepared authority) report_ok (dispatch_connector xenv governed ctx) (past @ [Ev_cancelled False])"
    by (rule dispatch_connector_along [OF ctx]) (use claim policy admitted early in \<open>simp_all add: task_facts_mono\<close>)
  show ?thesis
    using claim policy early dispatch settle
    by (auto simp: dispatch_unless_cancelled_def Let_def settle_governor_def task_facts_mono split: sum.splits)
qed

lemma govern_dispatch_along:
  assumes ctx: "ctx = \<lparr>sc_cycle_id = cycle_id, sc_prepared = prepared, sc_claimed = claimed, sc_lease = lease, sc_authority = authority\<rparr>"
    and claim: "claimed_by ex prepared authority (set past) claimed lease" and policy: "policy_allowed ex prepared authority (set past)"
    and early: "\<not> entered (set past)"
  shows "along_worker (task_event_ok ex prepared authority) report_ok (govern_dispatch xenv ex ctx) past"
proof (cases "ex_governor ex")
  case None
  with dispatch_unless_cancelled_along [OF ctx claim policy _ early] show ?thesis
    by (simp add: govern_dispatch_def governor_admitted_def)
next
  case (Some gp)
  let ?req = "\<lambda>t. \<lparr>gq_admission_id = pe_lease_id prepared, gq_operation = ef_operation (esn_effect (pe_snapshot prepared)),
      gq_policy = gp, gq_admitted_at_ms = t\<rparr>"
  have allowed: "along_worker (task_event_ok ex prepared authority) report_ok (dispatch_unless_cancelled xenv True ctx)
      (past @ [Ev_now u, Ev_admit (?req t) (Some d)])" if "d = GdAllow \<or> d = GdAllowProbe" for u t d
    by (rule dispatch_unless_cancelled_along [OF ctx])
      (use claim policy early that in \<open>auto simp: task_facts_mono governor_admitted_def Some insert_commute\<close>)
  have denied: "along_worker (task_event_ok ex prepared authority) report_ok
      (settle_governor_denial xenv ctx reason r governed_outcome Return) (past @ [Ev_now u, Ev_admit (?req t) ans])"
    if "governed_outcome \<in> {XaRateLimited r, XaCircuitOpen r, XaGovernorUnavailable r}" for reason r governed_outcome u t ans
    by (rule denial_along [OF ctx _ _ _ that]) (use claim policy early in \<open>auto simp: task_facts_mono\<close>)
  show ?thesis
    using allowed denied
    by (auto simp: govern_dispatch_def ctx Some Let_def trusted_now_ok split: sum.splits option.splits admission_decision.splits)
qed

lemma claim_and_dispatch_along:
  assumes policy: "policy_allowed ex prepared authority (set past)" and early: "\<not> entered (set past)"
  shows "along_worker (task_event_ok ex prepared authority) report_ok (claim_and_dispatch xenv ex cycle_id prepared authority) past"
proof -
  let ?claim = "\<lambda>t ans. Ev_apply (esn_id (pe_snapshot prepared)) (esn_revision (pe_snapshot prepared))
      \<lparr>ec_id = pe_claim_command_id prepared, ec_kind = EcClaim (pe_lease_id prepared) (xc_lease_duration_ms (ex_config ex))\<rparr> t ans"
  have event: "task_event_ok ex prepared authority (past @ [Ev_now u]) (?claim t ans)" if "t \<noteq> 0" for u t ans
    using policy early that by (simp add: task_event_ok_def task_facts_mono)
  have held: "along_worker (task_event_ok ex prepared authority) report_ok (Is_cancelled (\<lambda>cancelled.
        if cancelled then settle xenv ctx (XoNotApplied ''executor.cancelled_before_dispatch'' (Some 0)) Return
        else govern_dispatch xenv ex ctx)) (past @ [Ev_now u, ?claim t (Inr res)])"
    if ctx: "ctx = \<lparr>sc_cycle_id = cycle_id, sc_prepared = prepared, sc_claimed = ecr_snapshot res, sc_lease = lease, sc_authority = authority\<rparr>"
      and res: "ecr_outcome res = EApplied" "ef_status (esn_effect (ecr_snapshot res)) = EsClaimed lease" "el_id lease = pe_lease_id prepared"
        "el_owner lease = actor authority" "el_attempt lease = pe_attempt prepared"
        "esn_revision (ecr_snapshot res) = next_revision (esn_revision (pe_snapshot prepared))" for ctx u t res lease
  proof -
    have "res = \<lparr>ecr_snapshot = ecr_snapshot res, ecr_outcome = EApplied\<rparr>" using res(1) by simp
    then have claim: "claimed_by ex prepared authority (insert (?claim t (Inr res)) past') (ecr_snapshot res) lease" for past'
      unfolding claimed_by_def using res by auto
    show ?thesis
      using settle_early_along [OF ctx, of ex "past @ [Ev_now u, ?claim t (Inr res), Ev_cancelled True]" Return xenv]
        govern_dispatch_along [OF ctx, of ex "past @ [Ev_now u, ?claim t (Inr res), Ev_cancelled False]" xenv]
        claim policy early by (auto simp: task_facts_mono)
  qed
  have failed: "report_ok (past @ [Ev_now u, ?claim t ans]) (leased_attempt prepared outcome)"
    if "outcome \<in> {XaClaimFailed, XaClaimAlreadyCommitted} \<or> (\<exists>v. outcome = XaClaimFenced v)" for u t ans outcome
    using that early by (auto intro!: conjunct2 [OF report_ok_not_entered])
  have unread: "report_ok (past @ [Ev_now u]) (base_attempt prepared XaClaimFailed)" for u
    using early by (auto intro!: conjunct1 [OF report_ok_not_entered])
  show ?thesis
    using event held failed unread
    by (auto simp: claim_and_dispatch_def Let_def trusted_now_ok split: sum.splits option.splits effect_status.splits)
qed

lemma execute_prepared_along:
  "along_worker (task_event_ok ex prepared authority) report_ok (execute_prepared xenv ex cycle_id prepared authority) []"
proof (cases "ex_resolve (ex_connectors ex) (ef_operation (esn_effect (pe_snapshot prepared)))")
  case None
  then show ?thesis by (simp add: execute_prepared_def report_ok_def)
next
  case (Some registered)
  have go: "along_worker (task_event_ok ex prepared authority) report_ok (claim_and_dispatch xenv ex cycle_id prepared authority)
      [Ev_cancelled b, Ev_policy (execution_policy_request_of prepared authority registered) (Aw_answered Policy_allow), Ev_cancelled b']" for b b'
    by (rule claim_and_dispatch_along) (use Some in \<open>auto simp: policy_allowed_def\<close>)
  show ?thesis
    using go by (auto simp: execute_prepared_def Some split: awaited.splits policy_decision.splits
        intro!: conjunct1 [OF report_ok_not_entered])
qed

section \<open>The commands of a task are well formed\<close>

definition command_wf :: "u64 \<Rightarrow> effect_command \<Rightarrow> bool" where
  "command_wf t c \<longleftrightarrow> ef_validate_identity (ec_id c) = Inr () \<and>
     (case ec_kind c of
        EcClaim lease_id d \<Rightarrow> ef_validate_identity lease_id = Inr () \<and> ef_validate_lease_duration d = Inr ()
      | EcRecordApplied lease_id receipt \<Rightarrow> ef_validate_receipt receipt t = Inr ()
      | EcRecordNotApplied lease_id reason_code retry_at_ms \<Rightarrow>
          valid_capability_name reason_code \<and> ef_validate_retry_time retry_at_ms t = Inr ()
      | EcRecordUnknown lease_id reason_code \<Rightarrow> valid_capability_name reason_code
      | _ \<Rightarrow> False)"

definition event_wf :: "executor_event list \<Rightarrow> executor_event \<Rightarrow> bool" where
  "event_wf past ev \<longleftrightarrow> (case ev of Ev_apply i v c t ans \<Rightarrow> command_wf t c | _ \<Rightarrow> True)"

lemma event_wf_simps [simp]:
  "event_wf past (Ev_cancelled b)" "event_wf past (Ev_now u)" "event_wf past (Ev_policy p d)" "event_wf past (Ev_connect q r)"
  "event_wf past (Ev_admit g d')" "event_wf past (Ev_settle s h t' ok)" "event_wf past (Ev_apply i v c t ans) \<longleftrightarrow> command_wf t c"
  by (simp_all add: event_wf_def)

lemma settlement_command_id_valid:
  assumes "\<And>b. length (xe_sha256 xenv b) = 32"
    and "settlement_command_id xenv cycle_id effect_id revision lease_id purpose authority = Inr command_id"
  shows "ef_validate_identity command_id = Inr ()"
proof -
  from assms(2) obtain b where "command_id = ''executor-settle-'' @ lower_hex (xe_sha256 xenv b)"
    by (auto simp: settlement_command_id_def execution_digest_def ok_iff)
  with prefixed_digest_identity [of "''executor-settle-''"] assms(1) show ?thesis by (simp add: str_bytes_def)
qed

lemma execution_identities_valid:
  assumes "\<And>b. length (xe_sha256 xenv b) = 32"
    and "execution_identities xenv cycle_id snapshot attempt authority = Inr (lease_id, claim_command_id)"
  shows "ef_validate_identity lease_id = Inr ()" "ef_validate_identity claim_command_id = Inr ()"
proof -
  from assms(2) obtain b where "lease_id = ''executor-lease-'' @ lower_hex (xe_sha256 xenv b)"
    "claim_command_id = ''executor-claim-'' @ lower_hex (xe_sha256 xenv b)"
    by (auto simp: execution_identities_def execution_digest_def ok_iff)
  with prefixed_digest_identity [of "''executor-lease-''"] prefixed_digest_identity [of "''executor-claim-''"] assms(1)
  show "ef_validate_identity lease_id = Inr ()" "ef_validate_identity claim_command_id = Inr ()"
    by (simp_all add: str_bytes_def)
qed

lemma settles_wf:
  assumes "settles lease outcome absolute t kind reported" and "connector_outcome_valid outcome t" and "t \<noteq> 0"
    and "ef_validate_identity i = Inr ()"
  shows "command_wf t \<lparr>ec_id = i, ec_kind = kind\<rparr>"
proof (cases rule: settles_outcome [OF assms(1)])
  case (2 reason retry after)
  have "ef_validate_retry_time retry t = Inr ()"
    using assms(1,3) 2 by (auto simp: settles_def settlement_command_def ef_validate_retry_time_def
        ef_validate_application_time_def word_gt_0 not_less max_def split: option.splits dest: checked_add_le)
  with 2 assms(2,4) show ?thesis by (auto simp: command_wf_def valid_capability_name_def)
next
  case (3 reason)
  have "valid_capability_name ''connector.invalid_outcome''"
    by (simp add: valid_capability_name_def validate_capability_name_def string_eval)
  with assms 3 show ?thesis by (auto simp: command_wf_def valid_capability_name_def settles_def settlement_command_def)
qed (use assms in \<open>auto simp: command_wf_def is_ok_def split: sum.splits\<close>)

lemma normalized_valid: "connector_outcome_valid (normalize_connector_outcome outcome t) t"
  by (auto simp: normalize_connector_outcome_def validate_capability_name_def string_eval is_ok_def)

definition harmless :: "executor_event list \<Rightarrow> executor_attempt \<Rightarrow> bool" where
  "harmless past a \<longleftrightarrow> True"

lemma harmless_simp [simp]: "harmless past a"
  by (simp add: harmless_def)

lemma settle_at_wf:
  assumes "\<And>b. length (xe_sha256 xenv b) = 32" and "t \<noteq> 0"
    and "\<And>lease kind reported i. settles lease outcome absolute t kind reported \<Longrightarrow> ef_validate_identity i = Inr () \<Longrightarrow>
      command_wf t \<lparr>ec_id = i, ec_kind = kind\<rparr>"
    and "\<And>a past'. along_worker event_wf harmless (k a) past'"
  shows "along_worker event_wf harmless (settle_at xenv ctx outcome absolute t k) past"
proof (rule settle_at_along)
  fix command :: effect_command and ans reported purpose
  assume "settles (sc_lease ctx) outcome absolute t (ec_kind command) reported"
    and "settlement_command_id xenv (sc_cycle_id ctx) (esn_id (pe_snapshot (sc_prepared ctx))) (esn_revision (sc_claimed ctx))
        (el_id (sc_lease ctx)) purpose (sc_authority ctx) = Inr (ec_id command)"
  with assms(3) [of _ "ec_kind command" reported "ec_id command"] settlement_command_id_valid [OF assms(1)] assms(4)
  show "event_wf past (Ev_apply (esn_id (pe_snapshot (sc_prepared ctx))) (esn_revision (sc_claimed ctx)) command t ans) \<and>
    along_worker event_wf harmless (k (settlement_report (sc_prepared ctx) reported ans))
      (past @ [Ev_apply (esn_id (pe_snapshot (sc_prepared ctx))) (esn_revision (sc_claimed ctx)) command t ans])"
    by simp
qed (rule assms(4))

lemma settle_wf:
  assumes "\<And>b. length (xe_sha256 xenv b) = 32" and "\<And>a past'. along_worker event_wf harmless (k a) past'"
  shows "along_worker event_wf harmless (settle xenv ctx outcome k) past"
  using assms(2) settles_wf [OF _ normalized_valid]
  by (auto simp: settle_def trusted_now_ok split: sum.splits intro!: settle_at_wf [OF assms(1)])

lemma denial_wf:
  assumes "\<And>b. length (xe_sha256 xenv b) = 32" and "valid_capability_name reason"
  shows "along_worker event_wf harmless (settle_governor_denial xenv ctx reason r oc Return) past"
proof -
  have "connector_outcome_valid (XoNotApplied reason (Some 0)) t" for t
    using assms(2) by (simp add: valid_capability_name_def is_none_or_def MAX_RETRY_AFTER_MS_def)
  from settles_wf [OF _ this] show ?thesis
    by (auto simp: settle_governor_denial_def trusted_now_ok split: sum.splits intro!: settle_at_wf [OF assms(1)])
qed

lemma dispatch_wf:
  assumes sha: "\<And>b. length (xe_sha256 xenv b) = 32"
  shows "along_worker event_wf harmless (dispatch_unless_cancelled xenv governed ctx) past"
proof -
  have settle: "along_worker event_wf harmless (settle_at xenv ctx (normalize_connector_outcome outcome t) None t
      (\<lambda>a. Return (a\<lparr>xt_governor_settlement_failed := failed\<rparr>))) past" if "t \<noteq> 0" for outcome t failed past
    by (rule settle_at_wf [OF sha that settles_wf [OF _ normalized_valid that]]) simp_all
  have "along_worker event_wf harmless (dispatch_connector xenv governed ctx) past" for past
    using settle by (auto simp: dispatch_connector_def Let_def split_def settle_governor_def trusted_now_ok split: sum.splits)
  then show ?thesis
    by (auto simp: dispatch_unless_cancelled_def Let_def settle_governor_def split: sum.splits intro!: settle_wf [OF sha])
qed

lemma denial_reasons:
  "valid_capability_name ''governor.rate_limited''" "valid_capability_name ''governor.circuit_open''"
  "valid_capability_name ''governor.unavailable''"
  by (simp_all add: valid_capability_name_def validate_capability_name_def string_eval)

lemma govern_dispatch_wf:
  assumes sha: "\<And>b. length (xe_sha256 xenv b) = 32"
  shows "along_worker event_wf harmless (govern_dispatch xenv ex ctx) past"
  using dispatch_wf [OF sha] denial_wf [OF sha] denial_reasons
  by (auto simp: govern_dispatch_def Let_def split: option.splits sum.splits admission_decision.splits)

lemma execute_prepared_wf:
  assumes sha: "\<And>b. length (xe_sha256 xenv b) = 32"
    and config: "executor_config_validate (ex_config ex) = Inr ()"
    and ids: "execution_identities xenv cycle_id (pe_snapshot prepared) (pe_attempt prepared) authority =
      Inr (pe_lease_id prepared, pe_claim_command_id prepared)"
  shows "along_worker event_wf harmless (execute_prepared xenv ex cycle_id prepared authority) []"
proof -
  have "command_wf t \<lparr>ec_id = pe_claim_command_id prepared, ec_kind = EcClaim (pe_lease_id prepared) (xc_lease_duration_ms (ex_config ex))\<rparr>" for t
    using config execution_identities_valid [OF sha ids]
    by (auto simp: command_wf_def executor_config_validate_def ef_validate_lease_duration_def executor_limits MIN_EFFECT_LEASE_MS_def
        MAX_EFFECT_LEASE_MS_def split: if_splits)
  then have "along_worker event_wf harmless (claim_and_dispatch xenv ex cycle_id prepared authority) past" for past
    using govern_dispatch_wf [OF sha]
    by (auto simp: claim_and_dispatch_def Let_def split: sum.splits effect_status.splits intro!: settle_wf [OF sha])
  then show ?thesis
    by (auto simp: execute_prepared_def split: option.splits awaited.splits policy_decision.splits)
qed

end
