(* ===== verification/Executor_System.thy ===== *)
theory Executor_System
  imports Executor
begin

text \<open>
  Executors at work on one ledger and one dispatch governor. The tasks of any number of executors and sweeps run
  interleaved, one await at a time, next to every other user of the ledger (hosts that create and cancel, drivers that
  expire leases, reconcilers, other claimants) and of the governor. The engine may answer with an error although its ledger took
  the command, and the governor may change although its answer is late or lost.
\<close>

section \<open>The system\<close>

record executor_worker =
  xw_executor :: executor
  xw_cycle_id :: string
  xw_prepared :: prepared_effect
  xw_authority :: authority_context
  xw_past :: "executor_event list"
  xw_task :: executor_task

record executor_system =
  sy_ledger :: effect_state
  sy_governor :: governor_state
  sy_workers :: "executor_worker list"

definition system_start :: executor_system where
  "system_start = \<lparr>sy_ledger = effect_state_empty, sy_governor = governor_new, sy_workers = []\<rparr>"

definition spawn_prepared ::
  "executor_env \<Rightarrow> executor \<Rightarrow> string \<Rightarrow> prepared_effect \<Rightarrow> authority_context \<Rightarrow> executor_worker" where
  "spawn_prepared xenv ex cycle_id prepared authority =
     \<lparr>xw_executor = ex, xw_cycle_id = cycle_id, xw_prepared = prepared, xw_authority = authority, xw_past = [],
      xw_task = execute_prepared xenv ex cycle_id prepared authority\<rparr>"

text \<open>How the shared services answer an await of a task that runs under \<open>authority\<close>.\<close>

inductive serves ::
  "effect_env \<Rightarrow> governor_env \<Rightarrow> authority_context \<Rightarrow> effect_state \<Rightarrow> governor_state \<Rightarrow> executor_event \<Rightarrow>
   effect_state \<Rightarrow> governor_state \<Rightarrow> bool" for env genv authority ledger gov where
  outside_cancelled: "serves env genv authority ledger gov (Ev_cancelled b) ledger gov"
| outside_now: "serves env genv authority ledger gov (Ev_now reading) ledger gov"
| outside_policy: "serves env genv authority ledger gov (Ev_policy p answer) ledger gov"
| outside_connect: "serves env genv authority ledger gov (Ev_connect q reply) ledger gov"
| engine_ok: "ef_apply_as env ledger i v c t authority = Inr (ledger', res) \<Longrightarrow>
    serves env genv authority ledger gov (Ev_apply i v c t (Inr res)) ledger' gov"
| engine_err: "ef_apply_as env ledger i v c t authority = Inl e \<Longrightarrow>
    serves env genv authority ledger gov (Ev_apply i v c t (Inl e)) ledger gov"
| engine_lost: "ef_apply_as env ledger i v c t authority = Inr (ledger', res) \<Longrightarrow> conflict_revision e = None \<Longrightarrow>
    serves env genv authority ledger gov (Ev_apply i v c t (Inl e)) ledger' gov"
| engine_unavailable: "conflict_revision e = None \<Longrightarrow>
    serves env genv authority ledger gov (Ev_apply i v c t (Inl e)) ledger gov"
| governor_ok: "gov_admit_as genv gov q authority = (gov', Inr d) \<Longrightarrow>
    serves env genv authority ledger gov (Ev_admit q (Some d)) ledger gov'"
| governor_lost: "gov_admit_as genv gov q authority = (gov', r) \<Longrightarrow>
    serves env genv authority ledger gov (Ev_admit q None) ledger gov'"
| governor_unavailable: "serves env genv authority ledger gov (Ev_admit q None) ledger gov"
| settlement_ok: "gov_settle_as gov i s t authority = (gov', Inr ()) \<Longrightarrow>
    serves env genv authority ledger gov (Ev_settle i s t True) ledger gov'"
| settlement_lost: "gov_settle_as gov i s t authority = (gov', r) \<Longrightarrow>
    serves env genv authority ledger gov (Ev_settle i s t False) ledger gov'"
| settlement_unavailable: "serves env genv authority ledger gov (Ev_settle i s t False) ledger gov"

inductive system_step ::
  "executor_env \<Rightarrow> effect_env \<Rightarrow> governor_env \<Rightarrow> executor_system \<Rightarrow> executor_system \<Rightarrow> bool" for xenv env genv where
  ledger_used: "effect_store_step env (sy_ledger sys) ledger' \<Longrightarrow> system_step xenv env genv sys (sys\<lparr>sy_ledger := ledger'\<rparr>)"
| governor_used: "system_step xenv env genv sys (sys\<lparr>sy_governor := gov_call genv (sy_governor sys) call\<rparr>)"
| spawned: "ex_scan xenv env ex (sy_ledger sys) request authority reading = Inr (now, page, prepared) \<Longrightarrow>
    p \<in> set prepared \<Longrightarrow>
    system_step xenv env genv sys
      (sys\<lparr>sy_workers := sy_workers sys @ [spawn_prepared xenv ex (xr_cycle_id request) p authority]\<rparr>)"
| worked: "n < length (sy_workers sys) \<Longrightarrow> w = sy_workers sys ! n \<Longrightarrow> worker_step (xw_task w) ev = Some task' \<Longrightarrow>
    serves env genv (xw_authority w) (sy_ledger sys) (sy_governor sys) ev ledger' gov' \<Longrightarrow>
    system_step xenv env genv sys
      \<lparr>sy_ledger = ledger', sy_governor = gov',
       sy_workers = (sy_workers sys)[n := w\<lparr>xw_past := xw_past w @ [ev], xw_task := task'\<rparr>]\<rparr>"

text \<open>The Connector entries of a task, by tenant, Effect and attempt.\<close>

fun entry_of :: "executor_worker \<Rightarrow> executor_event \<Rightarrow> (string \<times> string \<times> u32) list" where
  "entry_of w (Ev_connect q r) = [(tenant_storage_key (tenant_id (xw_authority w)), xq_effect_id q, xq_attempt q)]"
| "entry_of w _ = []"

definition connector_entries :: "executor_worker \<Rightarrow> (string \<times> string \<times> u32) list" where
  "connector_entries w = concat (map (entry_of w) (xw_past w))"

section \<open>Invariants of the system\<close>

abbreviation ledger_steps :: "effect_env \<Rightarrow> effect_state \<Rightarrow> effect_state \<Rightarrow> bool" where
  "ledger_steps env \<equiv> (effect_store_step env)\<^sup>*\<^sup>*"

abbreviation system_reachable :: "executor_env \<Rightarrow> effect_env \<Rightarrow> governor_env \<Rightarrow> executor_system \<Rightarrow> bool" where
  "system_reachable xenv env genv \<equiv> (system_step xenv env genv)\<^sup>*\<^sup>* system_start"

lemma serves_ledger: "serves env genv authority ledger gov ev ledger' gov' \<Longrightarrow> ledger_steps env ledger ledger'"
  by (induction rule: serves.induct) (auto intro: r_into_rtranclp effect_changed)

lemma system_step_ledger: "system_step xenv env genv sys sys' \<Longrightarrow> ledger_steps env (sy_ledger sys) (sy_ledger sys')"
  by (induction rule: system_step.induct) (auto intro: serves_ledger)

lemma system_ledger: "system_reachable xenv env genv sys \<Longrightarrow> ledger_steps env effect_state_empty (sy_ledger sys)"
proof (induction rule: rtranclp_induct)
  case base
  show ?case by (simp add: system_start_def)
next
  case (step sys sys')
  then show ?case using system_step_ledger rtranclp_trans [of "effect_store_step env"] by metis
qed

text \<open>The ledger once held this snapshot, and is a later state of that ledger.\<close>

definition held_at :: "effect_env \<Rightarrow> effect_state \<Rightarrow> storage_key \<Rightarrow> effect_snapshot \<Rightarrow> bool" where
  "held_at env ledger k s \<longleftrightarrow> (\<exists>old. ledger_steps env effect_state_empty old \<and> bm_get (mes_effects old) k = Some s \<and>
     ledger_steps env old ledger)"

lemma held_at_later: "held_at env ledger k s \<Longrightarrow> ledger_steps env ledger ledger' \<Longrightarrow> held_at env ledger' k s"
  unfolding held_at_def by (meson rtranclp_trans)

lemma held_at_now: "ledger_steps env effect_state_empty ledger \<Longrightarrow> bm_get (mes_effects ledger) k = Some s \<Longrightarrow> held_at env ledger k s"
  unfolding held_at_def by blast

lemma held_at_evolves:
  "held_at env ledger k s \<Longrightarrow> \<exists>current. bm_get (mes_effects ledger) k = Some current \<and> effect_evolves s current"
  unfolding held_at_def by (meson effect_steps_extend)

text \<open>A command that the ledger applied.\<close>

definition applied_at :: "effect_env \<Rightarrow> authority_context \<Rightarrow> u64 \<Rightarrow> effect_command \<Rightarrow> u64 \<Rightarrow> effect_snapshot \<Rightarrow> bool" where
  "applied_at env authority v c t s \<longleftrightarrow> unat (esn_revision s) = Suc (unat v) \<and>
     (\<exists>prev. effect_apply env prev c t authority = Inr (esn_effect s, EApplied) \<and> length (ef_transitions prev) = unat v)"

definition answers_real :: "effect_env \<Rightarrow> effect_state \<Rightarrow> authority_context \<Rightarrow> executor_event \<Rightarrow> bool" where
  "answers_real env ledger authority ev \<longleftrightarrow>
     (case ev of
        Ev_apply i v c t (Inr res) \<Rightarrow> held_at env ledger (store_key i (tenant_id authority)) (ecr_snapshot res) \<and>
          (ecr_outcome res = EApplied \<longrightarrow> applied_at env authority v c t (ecr_snapshot res))
      | _ \<Rightarrow> True)"

definition worker_inv :: "executor_env \<Rightarrow> effect_env \<Rightarrow> effect_state \<Rightarrow> executor_worker \<Rightarrow> bool" where
  "worker_inv xenv env ledger w \<longleftrightarrow>
     run_worker (execute_prepared xenv (xw_executor w) (xw_cycle_id w) (xw_prepared w) (xw_authority w)) (xw_past w) = Some (xw_task w) \<and>
     valid_authority (xw_authority w) \<and> executor_config_validate (ex_config (xw_executor w)) = Inr () \<and>
     execution_identities xenv (xw_cycle_id w) (pe_snapshot (xw_prepared w)) (pe_attempt (xw_prepared w)) (xw_authority w) =
       Inr (pe_lease_id (xw_prepared w), pe_claim_command_id (xw_prepared w)) \<and>
     held_at env ledger (store_key (esn_id (pe_snapshot (xw_prepared w))) (tenant_id (xw_authority w))) (pe_snapshot (xw_prepared w)) \<and>
     list_all (answers_real env ledger (xw_authority w)) (xw_past w)"

lemma answers_real_later: "answers_real env ledger a ev \<Longrightarrow> ledger_steps env ledger ledger' \<Longrightarrow> answers_real env ledger' a ev"
  by (auto simp: answers_real_def intro: held_at_later split: worker_event.splits sum.splits)

lemma worker_inv_later: "worker_inv xenv env ledger w \<Longrightarrow> ledger_steps env ledger ledger' \<Longrightarrow> worker_inv xenv env ledger' w"
  by (auto simp: worker_inv_def list_all_iff intro: held_at_later answers_real_later)

lemma ef_apply_as_applied_at:
  assumes "ledger_steps env effect_state_empty ledger"
    and "ef_apply_as env ledger i v c t authority = Inr (ledger', res)" and "ecr_outcome res = EApplied"
  shows "applied_at env authority v c t (ecr_snapshot res)"
    and "\<exists>current. bm_get (mes_effects ledger) (store_key i (tenant_id authority)) = Some current \<and> esn_revision current = v"
proof -
  from assms(2,3) obtain current e revision where
    facts: "bm_get (mes_effects ledger) (store_key i (tenant_id authority)) = Some current" "esn_revision current = v"
      "effect_apply env (esn_effect current) c t authority = Inr (e, EApplied)" "unat revision = Suc (unat v)"
      "ecr_snapshot res = grown_effect i current revision e"
    by (cases rule: ef_apply_as_okE [OF assms(2)]) auto
  from effect_store_entries [OF assms(1) facts(1)] facts(2) have "length (ef_transitions (esn_effect current)) = unat v"
    by (simp add: effect_entry_ok_def)
  with facts show "applied_at env authority v c t (ecr_snapshot res)" unfolding applied_at_def by auto
  from facts show "\<exists>current. bm_get (mes_effects ledger) (store_key i (tenant_id authority)) = Some current \<and> esn_revision current = v"
    by blast
qed

lemma serves_real:
  assumes "serves env genv authority ledger gov ev ledger' gov'" and "ledger_steps env effect_state_empty ledger"
  shows "answers_real env ledger' authority ev"
  using assms
proof cases
  case (engine_ok i v c t res)
  have later: "ledger_steps env effect_state_empty ledger'"
    using assms(2) effect_changed [OF engine_ok(3)] by (rule rtranclp.rtrancl_into_rtrancl)
  have "bm_get (mes_effects ledger') (store_key i (tenant_id authority)) = Some (ecr_snapshot res)"
    by (cases rule: ef_apply_as_okE [OF engine_ok(3)]) (auto simp: bm_get_insert)
  with held_at_now [OF later] ef_apply_as_applied_at(1) [OF assms(2) engine_ok(3)] engine_ok(1)
  show ?thesis by (auto simp: answers_real_def)
qed (simp_all add: answers_real_def)

lemma prepare_effect_ok:
  assumes "try_fold (prepare_effect xenv cycle_id now authority) acc xs = Inr prepared" and "p \<in> set prepared"
  shows "p \<in> set acc \<or> (pe_snapshot p \<in> set xs \<and> (\<exists>nb. ef_status (esn_effect (pe_snapshot p)) = EsPending (pe_attempt p) nb \<and> nb \<le> now) \<and>
    execution_identities xenv cycle_id (pe_snapshot p) (pe_attempt p) authority = Inr (pe_lease_id p, pe_claim_command_id p))"
  using assms
proof (induction xs arbitrary: acc)
  case (Cons s xs)
  then obtain acc' where acc': "prepare_effect xenv cycle_id now authority acc s = Inr acc'"
    and rest: "try_fold (prepare_effect xenv cycle_id now authority) acc' xs = Inr prepared" by (auto simp: ok_iff)
  from acc' have "p \<in> set acc' \<Longrightarrow> p \<in> set acc \<or> (pe_snapshot p = s \<and>
      (\<exists>nb. ef_status (esn_effect (pe_snapshot p)) = EsPending (pe_attempt p) nb \<and> nb \<le> now) \<and>
      execution_identities xenv cycle_id (pe_snapshot p) (pe_attempt p) authority = Inr (pe_lease_id p, pe_claim_command_id p))"
    by (auto simp: prepare_effect_def ok_iff split: effect_status.splits if_splits)
  with Cons.IH [OF rest Cons.prems(2)] show ?case by auto
qed simp

lemma scan_prepared:
  assumes "ledger_steps env effect_state_empty ledger"
    and scan: "ex_scan xenv env ex ledger request authority reading = Inr (now, page, prepared)" and "p \<in> set prepared"
  shows "worker_inv xenv env ledger (spawn_prepared xenv ex (xr_cycle_id request) p authority)"
proof -
  from scan have list: "ef_list_as ledger (Some ''pending'') (xr_after request) (xc_scan_limit (ex_config ex)) authority = Inr page"
    and config: "executor_config_validate (ex_config ex) = Inr ()"
    and fold: "try_fold (prepare_effect xenv (xr_cycle_id request) now authority) [] (epg_effects page) = Inr prepared"
    by (auto simp: ex_scan_def ok_iff)
  from list have authority: "valid_authority authority"
    and "epg_effects page = take (xc_scan_limit (ex_config ex)) (listed_effects ledger (tenant_id authority) (Some ''pending'') (xr_after request))"
    by (auto simp: ef_list_as_eq ok_iff ef_validate_list_ok ef_page_from_candidates_def Let_def)
  moreover from prepare_effect_ok [OF fold assms(3)] have p: "pe_snapshot p \<in> set (epg_effects page)"
    "execution_identities xenv (xr_cycle_id request) (pe_snapshot p) (pe_attempt p) authority = Inr (pe_lease_id p, pe_claim_command_id p)"
    by auto
  ultimately have "pe_snapshot p \<in> set (listed_effects ledger (tenant_id authority) (Some ''pending'') (xr_after request))"
    by (auto dest: in_set_takeD)
  from listed_effects_entry(1) [OF assms(1) _ this] authority
  have "bm_get (mes_effects ledger) (store_key (esn_id (pe_snapshot p)) (tenant_id authority)) = Some (pe_snapshot p)"
    by (auto simp: valid_authority_def store_key_def)
  with held_at_now [OF assms(1)] p(2) config authority show ?thesis
    by (simp add: worker_inv_def spawn_prepared_def)
qed

lemma worker_inv_step:
  assumes "worker_inv xenv env ledger w" and "worker_step (xw_task w) ev = Some task'"
    and "serves env genv (xw_authority w) ledger gov ev ledger' gov'" and "ledger_steps env effect_state_empty ledger"
  shows "worker_inv xenv env ledger' (w\<lparr>xw_past := xw_past w @ [ev], xw_task := task'\<rparr>)"
  using worker_inv_later [OF assms(1) serves_ledger [OF assms(3)]] serves_real [OF assms(3,4)] run_worker_snoc assms(1,2)
  by (auto simp: worker_inv_def)

lemma system_workers:
  assumes "system_reachable xenv env genv sys" and "w \<in> set (sy_workers sys)"
  shows "worker_inv xenv env (sy_ledger sys) w"
  using assms
proof (induction arbitrary: w rule: rtranclp_induct)
  case base
  then show ?case by (simp add: system_start_def)
next
  case (step sys sys')
  note reach = system_ledger [OF step.hyps(1)]
  from step.hyps(2) show ?case
  proof cases
    case (ledger_used ledger')
    with step.IH step.prems show ?thesis by (auto intro: worker_inv_later)
  next
    case (governor_used call)
    with step.IH step.prems show ?thesis by simp
  next
    case (spawned ex request authority reading now page prepared p)
    with step.IH step.prems scan_prepared [OF reach spawned(2,3)] show ?thesis by auto
  next
    case (worked n v ev task' ledger' gov')
    from worked(2,3) step.IH have "worker_inv xenv env (sy_ledger sys) v" by simp
    from worker_inv_step [OF this worked(4,5) reach] worked step.prems step.IH worker_inv_later [OF _ serves_ledger [OF worked(5)]]
    show ?thesis by (auto dest!: subsetD [OF set_update_subset_insert])
  qed
qed

section \<open>No command is committed twice at a revision\<close>

definition commits_of :: "executor_worker \<Rightarrow> (storage_key \<times> u64) set" where
  "commits_of w = {(store_key i (tenant_id (xw_authority w)), v) | i v c t res.
     Ev_apply i v c t (Inr res) \<in> set (xw_past w) \<and> ecr_outcome res = EApplied}"

lemma worker_answer:
  assumes "worker_inv xenv env ledger w" and "Ev_apply i v c t (Inr res) \<in> set (xw_past w)"
  shows "held_at env ledger (store_key i (tenant_id (xw_authority w))) (ecr_snapshot res)"
    and "ecr_outcome res = EApplied \<Longrightarrow> applied_at env (xw_authority w) v c t (ecr_snapshot res)"
proof -
  have "answers_real env ledger (xw_authority w) (Ev_apply i v c t (Inr res))"
    using assms unfolding worker_inv_def list_all_iff by blast
  then show "held_at env ledger (store_key i (tenant_id (xw_authority w))) (ecr_snapshot res)"
    and "ecr_outcome res = EApplied \<Longrightarrow> applied_at env (xw_authority w) v c t (ecr_snapshot res)"
    by (simp_all add: answers_real_def)
qed

lemma commits_behind:
  assumes "worker_inv xenv env ledger w" and "(k, v) \<in> commits_of w" and "bm_get (mes_effects ledger) k = Some current"
  shows "unat v < unat (esn_revision current)"
proof -
  from assms(2) obtain i c t res where "k = store_key i (tenant_id (xw_authority w))" "Ev_apply i v c t (Inr res) \<in> set (xw_past w)"
    "ecr_outcome res = EApplied" by (auto simp: commits_of_def)
  with worker_answer [OF assms(1) this(2)] have held: "held_at env ledger k (ecr_snapshot res)"
    and "unat (esn_revision (ecr_snapshot res)) = Suc (unat v)" by (auto simp: applied_at_def)
  with held_at_evolves [OF held] assms(3) show ?thesis by (auto simp: effect_evolves_def word_le_nat_alt)
qed

lemma commits_of_step:
  assumes "serves env genv (xw_authority w) ledger gov ev ledger' gov'" and "ledger_steps env effect_state_empty ledger"
    and "(k, v) \<in> commits_of (w\<lparr>xw_past := xw_past w @ [ev], xw_task := task'\<rparr>)"
  shows "(k, v) \<in> commits_of w \<or> (\<exists>current. bm_get (mes_effects ledger) k = Some current \<and> esn_revision current = v)"
  using assms(3) assms(1)
  by (auto simp: commits_of_def elim!: serves.cases dest: ef_apply_as_applied_at(2) [OF assms(2)])

lemma commits_disjoint:
  assumes "system_reachable xenv env genv sys" and "i < length (sy_workers sys)" and "j < length (sy_workers sys)" and "i \<noteq> j"
  shows "commits_of (sy_workers sys ! i) \<inter> commits_of (sy_workers sys ! j) = {}"
  using assms
proof (induction arbitrary: i j rule: rtranclp_induct)
  case base
  then show ?case by (simp add: system_start_def)
next
  case (step sys sys')
  note reach = system_ledger [OF step.hyps(1)] and inv = system_workers [OF step.hyps(1)]
  from step.hyps(2) show ?case
  proof cases
    case (spawned ex request authority reading now page prepared p)
    have "commits_of (spawn_prepared xenv ex (xr_cycle_id request) p authority) = {}"
      by (simp add: commits_of_def spawn_prepared_def)
    with spawned step.IH step.prems show ?thesis by (auto simp: nth_append less_Suc_eq)
  next
    case (worked n w ev task' ledger' gov')
    let ?w' = "w\<lparr>xw_past := xw_past w @ [ev], xw_task := task'\<rparr>"
    have fresh: "commits_of ?w' \<inter> commits_of (sy_workers sys ! m) = {}" if m: "m < length (sy_workers sys)" "m \<noteq> n" for m
    proof (rule ccontr)
      assume "commits_of ?w' \<inter> commits_of (sy_workers sys ! m) \<noteq> {}"
      then obtain k v where kv: "(k, v) \<in> commits_of ?w'" "(k, v) \<in> commits_of (sy_workers sys ! m)" by auto
      from commits_of_step [OF worked(5) reach kv(1)] step.IH [OF m(1) worked(2) m(2)] kv(2) worked(3)
      obtain current where "bm_get (mes_effects (sy_ledger sys)) k = Some current" "esn_revision current = v" by auto
      with commits_behind [OF inv kv(2)] m(1) show False by auto
    qed
    then show ?thesis using worked step.IH step.prems by (cases "i = n"; cases "j = n") (auto simp: Int_commute)
  qed (use step in auto)
qed

section \<open>Attempts and entries\<close>

lemma effect_store_reachable:
  assumes "ledger_steps env effect_state_empty ledger" and "bm_get (mes_effects ledger) k = Some s"
  shows "effect_reachable env (esn_effect s)"
  using assms
  by (rule estore.entry_invariant) (auto simp: effect_born_def effect_grows_def intro: effect_reachable.intros)

lemma claims_distinct:
  assumes reach: "effect_reachable env e" and "i < j" "j < length (ef_transitions e)"
    and "et_kind (ef_transitions e ! i) = EtClaimed l a d" and "et_kind (ef_transitions e ! j) = EtClaimed l' a' d'"
  shows "a \<noteq> a'"
proof
  assume eq: "a = a'"
  let ?f = "claim_attempt \<circ> et_kind" and ?ts = "ef_transitions e"
  have "?ts = take j ?ts @ ?ts ! j # drop (Suc j) ?ts" using assms(3) by (rule id_take_nth_drop)
  then have split: "concat (map ?f ?ts) = concat (map ?f (take j ?ts)) @ ?f (?ts ! j) @ concat (map ?f (drop (Suc j) ?ts))"
    by (metis concat.simps(2) concat_append list.simps(9) map_append)
  have "?ts ! i \<in> set (take j ?ts)" using assms(2,3) by (auto simp: in_set_conv_nth)
  then have "unat a \<in> set (concat (map ?f (take j ?ts)))" using assms(4) by force
  moreover have "unat a \<in> set (?f (?ts ! j))" using assms(5) eq by simp
  ultimately have "\<not> distinct (concat (map ?f ?ts))" unfolding split by auto
  then show False using effect_attempts_in_order [OF reach] by (simp del: upt_Suc)
qed

text \<open>A claim that the ledger applied stands in the history at the position of its revision.\<close>

lemma claim_in_history:
  assumes "applied_at env authority v \<lparr>ec_id = i, ec_kind = EcClaim l d\<rparr> t s" and "ef_status (esn_effect s) = EsClaimed lease"
    and "effect_evolves s current"
  shows "et_kind (ef_transitions (esn_effect current) ! unat v) = EtClaimed l (el_attempt lease) d"
    "unat v < length (ef_transitions (esn_effect current))" "et_actor (ef_transitions (esn_effect current) ! unat v) = actor authority"
proof -
  from assms(1) obtain prev where prev: "effect_apply env prev \<lparr>ec_id = i, ec_kind = EcClaim l d\<rparr> t authority = Inr (esn_effect s, EApplied)"
    "length (ef_transitions prev) = unat v" by (auto simp: applied_at_def)
  from prev(1) obtain tr nxt kind where tr: "effect_apply_kind prev (EcClaim l d) t (actor authority) = Inr (nxt, kind)" "et_kind tr = kind"
    "et_actor tr = actor authority" "ef_transitions (esn_effect s) = ef_transitions prev @ [tr]" "ef_status (esn_effect s) = ef_status nxt"
    by (auto elim!: effect_apply_AppliedE)
  from tr(1,5) assms(2) have "kind = EtClaimed l (el_attempt lease) d" by (auto simp: ok_iff split: effect_status.splits if_splits)
  moreover obtain ts where "ef_transitions (esn_effect current) = ef_transitions (esn_effect s) @ ts"
    using assms(3) by (auto simp: effect_evolves_def)
  ultimately show "et_kind (ef_transitions (esn_effect current) ! unat v) = EtClaimed l (el_attempt lease) d"
    "unat v < length (ef_transitions (esn_effect current))" "et_actor (ef_transitions (esn_effect current) ! unat v) = actor authority"
    using tr prev(2) by (simp_all add: nth_append)
qed

lemma entry_event:
  assumes "x \<in> set (connector_entries w)"
  obtains q r where "Ev_connect q r \<in> set (xw_past w)" "x = (tenant_storage_key (tenant_id (xw_authority w)), xq_effect_id q, xq_attempt q)"
proof -
  from assms obtain ev where "ev \<in> set (xw_past w)" "x \<in> set (entry_of w ev)" by (auto simp: connector_entries_def)
  with that show thesis by (cases ev) auto
qed

lemma worker_event_ok:
  assumes "worker_inv xenv env ledger w" and "xw_past w = before @ ev # after"
  shows "task_event_ok (xw_executor w) (xw_prepared w) (xw_authority w) before ev"
  using assms by (auto simp: worker_inv_def intro: along_worker_event [OF execute_prepared_along])

definition history_claim :: "effect_state \<Rightarrow> executor_worker \<Rightarrow> execution_request \<Rightarrow> effect_snapshot \<Rightarrow> bool" where
  "history_claim ledger w q current \<longleftrightarrow>
     bm_get (mes_effects ledger) (store_key (xq_effect_id q) (tenant_id (xw_authority w))) = Some current \<and>
     (let n = unat (esn_revision (pe_snapshot (xw_prepared w))) in
      n < length (ef_transitions (esn_effect current)) \<and>
      et_kind (ef_transitions (esn_effect current) ! n) =
        EtClaimed (xq_lease_id q) (xq_attempt q) (xc_lease_duration_ms (ex_config (xw_executor w))) \<and>
      et_actor (ef_transitions (esn_effect current) ! n) = actor (xw_authority w))"

lemma entry_claimed:
  assumes inv: "worker_inv xenv env ledger w" and past: "xw_past w = before @ Ev_connect q r # after"
  shows "(store_key (xq_effect_id q) (tenant_id (xw_authority w)), esn_revision (pe_snapshot (xw_prepared w))) \<in> commits_of w"
    and "\<exists>current. history_claim ledger w q current"
proof -
  let ?p = "xw_prepared w" and ?a = "xw_authority w"
  let ?k = "store_key (xq_effect_id q) (tenant_id ?a)"
  from worker_event_ok [OF inv past] obtain claimed lease where
    claim: "claimed_by (xw_executor w) ?p ?a (set before) claimed lease" and q: "q = execution_request_of ?p ?a lease"
    by (auto simp: task_event_ok_def)
  have q_id: "xq_effect_id q = esn_id (pe_snapshot ?p)" "xq_lease_id q = pe_lease_id ?p" "xq_attempt q = pe_attempt ?p"
    by (simp_all add: q execution_request_of_def)
  from claim past obtain t where ev: "Ev_apply (esn_id (pe_snapshot ?p)) (esn_revision (pe_snapshot ?p))
      \<lparr>ec_id = pe_claim_command_id ?p, ec_kind = EcClaim (pe_lease_id ?p) (xc_lease_duration_ms (ex_config (xw_executor w)))\<rparr> t
      (Inr \<lparr>ecr_snapshot = claimed, ecr_outcome = EApplied\<rparr>) \<in> set (xw_past w)"
    by (auto simp: claimed_by_def)
  from ev show "(?k, esn_revision (pe_snapshot ?p)) \<in> commits_of w" unfolding commits_of_def q_id by force
  from worker_answer [OF inv ev] q_id have held: "held_at env ledger ?k claimed"
    and applied: "applied_at env ?a (esn_revision (pe_snapshot ?p)) \<lparr>ec_id = pe_claim_command_id ?p,
      ec_kind = EcClaim (pe_lease_id ?p) (xc_lease_duration_ms (ex_config (xw_executor w)))\<rparr> t claimed" by simp_all
  from held_at_evolves [OF held] obtain current where current: "bm_get (mes_effects ledger) ?k = Some current" "effect_evolves claimed current"
    by blast
  from claim have "ef_status (esn_effect claimed) = EsClaimed lease" "el_attempt lease = pe_attempt ?p" by (simp_all add: claimed_by_def)
  with claim_in_history [OF applied this(1) current(2)] current(1) q_id show "\<exists>current. history_claim ledger w q current"
    unfolding history_claim_def Let_def by auto
qed

lemma single_entry:
  assumes "worker_inv xenv env ledger w"
  shows "length (connector_entries w) \<le> 1"
proof (cases "\<exists>ev \<in> set (xw_past w). entry_of w ev \<noteq> []")
  case False
  then have "connector_entries w = []" by (simp add: connector_entries_def)
  then show ?thesis by simp
next
  case True
  then obtain before ev after where past: "xw_past w = before @ ev # after" and ev: "entry_of w ev \<noteq> []"
    and later: "\<forall>ev \<in> set after. entry_of w ev = []"
    by (rule split_list_last_propE) auto
  then obtain q r where q: "ev = Ev_connect q r" by (cases ev) auto
  from worker_event_ok [OF assms past] have "\<not> entered (set before)" by (simp add: q task_event_ok_def)
  then have "entry_of w e = []" if "e \<in> set before" for e using that by (cases e) (auto simp: entered_def)
  then have "concat (map (entry_of w) before) = []" "concat (map (entry_of w) after) = []" using later by simp_all
  then have "connector_entries w = entry_of w ev" unfolding connector_entries_def past by (simp only: map_append concat_append list.map concat.simps append_Nil append_Nil2)
  then show ?thesis by (simp add: q)
qed

lemma entries_apart:
  assumes reach: "system_reachable xenv env genv sys" and ij: "i < length (sy_workers sys)" "j < length (sy_workers sys)"
    and x: "x \<in> set (connector_entries (sy_workers sys ! i))" "x \<in> set (connector_entries (sy_workers sys ! j))"
  shows "i = j"
proof (rule ccontr)
  assume "i \<noteq> j"
  let ?w = "sy_workers sys ! i" and ?w' = "sy_workers sys ! j"
  note inv = system_workers [OF reach nth_mem [OF ij(1)]] and inv' = system_workers [OF reach nth_mem [OF ij(2)]]
  from x(1) obtain q r where q: "Ev_connect q r \<in> set (xw_past ?w)" "x = (tenant_storage_key (tenant_id (xw_authority ?w)), xq_effect_id q, xq_attempt q)"
    by (rule entry_event)
  from x(2) obtain q' r' where q': "Ev_connect q' r' \<in> set (xw_past ?w')" "x = (tenant_storage_key (tenant_id (xw_authority ?w')), xq_effect_id q', xq_attempt q')"
    by (rule entry_event)
  have k: "store_key (xq_effect_id q) (tenant_id (xw_authority ?w)) = store_key (xq_effect_id q') (tenant_id (xw_authority ?w'))"
    using q(2) q'(2) by (simp add: store_key_def)
  obtain before after where past: "xw_past ?w = before @ Ev_connect q r # after" using q(1) by (metis split_list)
  obtain before' after' where past': "xw_past ?w' = before' @ Ev_connect q' r' # after'" using q'(1) by (metis split_list)
  let ?v = "esn_revision (pe_snapshot (xw_prepared ?w))" and ?v' = "esn_revision (pe_snapshot (xw_prepared ?w'))"
  have "?v \<noteq> ?v'"
    using entry_claimed(1) [OF inv past] entry_claimed(1) [OF inv' past'] k commits_disjoint [OF reach ij \<open>i \<noteq> j\<close>] by auto
  then have v: "unat ?v \<noteq> unat ?v'" by (metis word_unat_eq_iff)
  obtain current where current: "history_claim (sy_ledger sys) ?w q current" using entry_claimed(2) [OF inv past] ..
  moreover obtain current' where "history_claim (sy_ledger sys) ?w' q' current'" using entry_claimed(2) [OF inv' past'] ..
  ultimately have same: "history_claim (sy_ledger sys) ?w' q' current" by (simp add: history_claim_def k)
  have "effect_reachable env (esn_effect current)"
    using effect_store_reachable [OF system_ledger [OF reach]] conjunct1 [OF current [unfolded history_claim_def]] .
  with claims_distinct [of env "esn_effect current"] current same v q(2) q'(2) show False
    unfolding history_claim_def Let_def by (metis nat_neq_iff prod.inject)
qed

section \<open>What stays in the ledger\<close>

lemma effect_apply_terminal: "es_is_terminal (ef_status e) \<Longrightarrow> effect_apply env e command now authority \<noteq> Inr (e', EApplied)"
  using effect_apply_kind_terminal [of e "ec_kind command" now "actor authority"] by (auto elim!: effect_apply_AppliedE)

lemma held_at_terminal:
  assumes "held_at env ledger k s" and "es_is_terminal (ef_status (esn_effect s))"
  shows "\<exists>current. bm_get (mes_effects ledger) k = Some current \<and> ef_status (esn_effect current) = ef_status (esn_effect s)"
proof -
  from assms(1) obtain old where "bm_get (mes_effects old) k = Some s" "ledger_steps env old ledger" by (auto simp: held_at_def)
  from this(2,1) show ?thesis
  proof (rule estore.entry_evolves)
    show "ef_status (esn_effect c) = ef_status (esn_effect s)" if "ef_status (esn_effect b) = ef_status (esn_effect s)" "effect_grows env b c" for b c
      using that assms(2) effect_apply_terminal unfolding effect_grows_def by metis
  qed simp
qed

lemma effect_apply_content:
  assumes "effect_apply env e command now authority = Inr (e', EApplied)"
  shows "ef_input e' = ef_input e" "ef_input_sha256 e' = ef_input_sha256 e"
proof -
  from assms obtain nxt kind t charge where
    kind: "effect_apply_kind e (ec_kind command) now (actor authority) = Inr (nxt, kind)"
    and e': "e' = nxt\<lparr>ef_transitions := ef_transitions nxt @ [t], ef_charge := charge\<rparr>"
    by (auto simp: effect_apply_def ok_iff Let_def split: if_splits)
  from effect_apply_kind_frame(2) [OF kind] obtain st where "nxt = e\<lparr>ef_status := st\<rparr>" by blast
  with e' show "ef_input e' = ef_input e" "ef_input_sha256 e' = ef_input_sha256 e" by simp_all
qed

text \<open>The content a Connector receives is the content of the durable Effect.\<close>

definition same_content :: "execution_request \<Rightarrow> effect \<Rightarrow> bool" where
  "same_content q e \<longleftrightarrow> xq_operation q = ef_operation e \<and> xq_idempotency_key q = ef_idempotency_key e \<and>
     xq_input q = ef_input e \<and> xq_input_sha256 q = ef_input_sha256 e"

lemma held_at_content:
  assumes "held_at env ledger k s" and "same_content q (esn_effect s)" and "bm_get (mes_effects ledger) k = Some current"
  shows "same_content q (esn_effect current)"
proof -
  from assms(1) obtain old where "bm_get (mes_effects old) k = Some s" "ledger_steps env old ledger" by (auto simp: held_at_def)
  from this(2,1) have "\<exists>c. bm_get (mes_effects ledger) k = Some c \<and> same_content q (esn_effect c)"
  proof (rule estore.entry_evolves)
    show "same_content q (esn_effect c)" if "same_content q (esn_effect b)" "effect_grows env b c" for b c
      using that effect_apply_content effect_applied_frame(3,4) by (auto simp: effect_grows_def same_content_def)
  qed (rule assms(2))
  with assms(3) show ?thesis by simp
qed

section \<open>A concrete system\<close>

definition demo_xenv :: executor_env where
  "demo_xenv = \<lparr>xe_descriptor = (\<lambda>_. ([''d''], True)), xe_identity = (\<lambda>_. ([''i''], True)),
     xe_sha256 = (\<lambda>_. replicate 32 CHR 0x00)\<rparr>"

definition demo_executor :: executor where
  "demo_executor = \<lparr>ex_connectors = [(''mail'', \<lparr>rc_origin = BuiltIn, rc_descriptor = \<lparr>cd_capability = ''mail'',
       cd_api_version = 1, cd_operations = [''send''], cd_idempotency = TargetEnforced\<rparr>\<rparr>)],
     ex_governor = None, ex_config = executor_config_default\<rparr>"

definition demo_lease_id :: string where "demo_lease_id = ''executor-lease-'' @ lower_hex (replicate 32 CHR 0x00)"
definition demo_claim_id :: string where "demo_claim_id = ''executor-claim-'' @ lower_hex (replicate 32 CHR 0x00)"
definition demo_settle_id :: string where "demo_settle_id = ''executor-settle-'' @ lower_hex (replicate 32 CHR 0x00)"

definition demo_prepared :: prepared_effect where
  "demo_prepared = \<lparr>pe_snapshot = demo_entry 1 demo_pending, pe_attempt = 1, pe_lease_id = demo_lease_id,
     pe_claim_command_id = demo_claim_id\<rparr>"

definition demo_claim :: effect_command where
  "demo_claim = \<lparr>ec_id = demo_claim_id, ec_kind = EcClaim demo_lease_id 300000\<rparr>"

definition demo_lease :: effect_lease where
  "demo_lease = \<lparr>el_id = demo_lease_id, el_owner = LocalProcess, el_attempt = 1, el_claimed_at_ms = 6, el_expires_at_ms = 300006\<rparr>"

definition demo_claimed :: effect where
  "demo_claimed = demo_pending\<lparr>ef_status := EsClaimed demo_lease,
     ef_transitions := ef_transitions demo_pending @
       [demo_effect_event 2 demo_claim_id (CHR ''N'' # demo_claim_id) 6 (EtClaimed demo_lease_id 1 300000)]\<rparr>"

lemma demo_ids [simp]:
  "ef_validate_identity demo_lease_id = Inr ()" "ef_validate_identity demo_claim_id = Inr ()" "ef_validate_identity demo_settle_id = Inr ()"
  "length demo_claim_id = 79" "length demo_settle_id = 80"
  "demo_claim_id \<noteq> ''create''" "''create'' \<noteq> demo_claim_id" "demo_settle_id \<noteq> ''create''" "''create'' \<noteq> demo_settle_id"
  "demo_settle_id \<noteq> demo_claim_id" "demo_claim_id \<noteq> demo_settle_id"
  by (simp_all add: demo_lease_id_def demo_claim_id_def demo_settle_id_def prefixed_digest_identity str_bytes_def
      del: append_Cons append_Nil)

lemma demo_lease_duration [simp]: "ef_validate_lease_duration 300000 = Inr ()"
  by (simp add: ef_validate_lease_duration_def MIN_EFFECT_LEASE_MS_def MAX_EFFECT_LEASE_MS_def)

lemma demo_dispatch_claimed:
  "effect_apply demo_effect_env demo_pending demo_claim 6 local_process = Inr (demo_claimed, EApplied)"
  by (simp add: demo_claim_def demo_claimed_def demo_lease_def demo_effect_defs effect_eval)

lemma demo_dispatch_claim_new: "effect_recognizes_command demo_effect_env demo_pending demo_claim local_process = Inr False"
  using demo_dispatch_claimed by (auto elim: effect_apply_AppliedE)

lemma demo_ledger_claimed:
  "ef_apply_as demo_effect_env (demo_ledger 1 demo_pending) ''e'' 1 demo_claim 6 local_process =
     Inr (demo_ledger 2 demo_claimed, \<lparr>ecr_snapshot = demo_entry 2 demo_claimed, ecr_outcome = EApplied\<rparr>)"
  by (simp add: effect_store_eval demo_dispatch_claim_new demo_dispatch_claimed checked_add_def)

definition demo_run_request :: executor_run_request where
  "demo_run_request = \<lparr>xr_cycle_id = ''e'', xr_after = None\<rparr>"

definition demo_page :: effect_page where
  "demo_page = \<lparr>epg_effects = [demo_entry 1 demo_pending], epg_next_cursor = Some ''e'', epg_has_more = False\<rparr>"

lemma demo_config [simp]: "executor_config_validate executor_config_default = Inr ()"
  by (simp add: executor_config_validate_def executor_config_default_def executor_limits checked_add_def)

lemma demo_list:
  "ef_list_as (demo_ledger 1 demo_pending) (Some ''pending'') None 64 local_process = Inr demo_page"
  by (simp add: ef_list_as_def ef_validate_list_def ef_validate_status_filter_def MAX_EFFECT_PAGE_def demo_page_def
      ef_page_from_candidates_def usize_saturating_add_def effect_store_eval demo_pending_def)

lemma demo_identities:
  "execution_identities demo_xenv cycle_id s n a = Inr (demo_lease_id, demo_claim_id)"
  "settlement_command_id demo_xenv cycle_id i v l purpose a = Inr demo_settle_id"
  by (simp_all add: execution_identities_def settlement_command_id_def execution_digest_def demo_xenv_def to_vec_def demo_lease_id_def
      demo_claim_id_def demo_settle_id_def)

lemma demo_executor_sel [simp]:
  "ex_config demo_executor = executor_config_default" "ex_governor demo_executor = None"
  "xc_scan_limit executor_config_default = 64" "xc_max_concurrency executor_config_default = 8"
  "xc_lease_duration_ms executor_config_default = 300000"
  by (simp_all add: demo_executor_def executor_config_default_def)

lemma demo_snapshots [simp]:
  "ef_status (esn_effect (demo_entry n demo_pending)) = EsPending 1 5" "ef_status (esn_effect (demo_entry n demo_claimed)) = EsClaimed demo_lease"
  "ef_operation (esn_effect (demo_entry n demo_pending)) = demo_operation"
  "esn_id (demo_entry n e) = ''e''" "esn_revision (demo_entry n e) = n"
  by (simp_all add: demo_entry_def demo_pending_def demo_claimed_def)

lemma demo_prepared_sel [simp]:
  "pe_snapshot demo_prepared = demo_entry 1 demo_pending" "pe_attempt demo_prepared = 1" "pe_lease_id demo_prepared = demo_lease_id"
  "pe_claim_command_id demo_prepared = demo_claim_id"
  by (simp_all add: demo_prepared_def)

lemma demo_scan:
  "ex_scan demo_xenv demo_effect_env demo_executor (demo_ledger 1 demo_pending) demo_run_request local_process (Some 6) =
     Inr (6, demo_page, [demo_prepared])"
proof -
  have "validate_effect_page demo_effect_env demo_page None 64 local_process PsPending = Inr ()"
    using effect_pages_validate [OF demo_ledger_reachable(1), of PsPending None 64 local_process demo_page] demo_list by simp
  moreover have "ex_validate_run_request demo_run_request local_process = Inr ()"
    by (simp add: ex_validate_run_request_def demo_run_request_def ok_iff flip: ef_validate_authority_ok)
  moreover have "xr_after demo_run_request = None" "epg_effects demo_page = [demo_entry 1 demo_pending]"
    by (simp_all add: demo_run_request_def demo_page_def)
  ultimately show ?thesis
    using demo_list
    by (simp add: ex_scan_def trusted_now_def ef_validate_application_time_def prepare_effect_def demo_identities demo_prepared_def)
qed

text \<open>One task of this executor, which has entered its Connector.\<close>

definition demo_policy_request :: execution_policy_request where
  "demo_policy_request = execution_policy_request_of demo_prepared local_process
     \<lparr>rc_origin = BuiltIn, rc_descriptor = \<lparr>cd_capability = ''mail'', cd_api_version = 1, cd_operations = [''send''],
       cd_idempotency = TargetEnforced\<rparr>\<rparr>"

definition demo_before_entry :: "executor_event list" where
  "demo_before_entry = [Ev_cancelled False, Ev_policy demo_policy_request (Aw_answered Policy_allow), Ev_cancelled False, Ev_now (Some 6),
     Ev_apply ''e'' 1 demo_claim 6 (Inr \<lparr>ecr_snapshot = demo_entry 2 demo_claimed, ecr_outcome = EApplied\<rparr>),
     Ev_cancelled False, Ev_cancelled False]"

definition demo_entry_request :: execution_request where
  "demo_entry_request = execution_request_of demo_prepared local_process demo_lease"

definition demo_context :: settlement_context where
  "demo_context = \<lparr>sc_cycle_id = ''e'', sc_prepared = demo_prepared, sc_claimed = demo_entry 2 demo_claimed, sc_lease = demo_lease,
     sc_authority = local_process\<rparr>"

lemma demo_context_sel [simp]: "sc_prepared demo_context = demo_prepared" "sc_claimed demo_context = demo_entry 2 demo_claimed"
  "sc_lease demo_context = demo_lease" "sc_authority demo_context = local_process" "sc_cycle_id demo_context = ''e''"
  by (simp_all add: demo_context_def)

lemma demo_resolve: "ex_resolve (ex_connectors demo_executor) demo_operation = Some \<lparr>rc_origin = BuiltIn, rc_descriptor =
    \<lparr>cd_capability = ''mail'', cd_api_version = 1, cd_operations = [''send''], cd_idempotency = TargetEnforced\<rparr>\<rparr>"
  by (simp add: ex_resolve_def demo_executor_def demo_operation_def bm_get_def)

definition demo_task :: executor_task where
  "demo_task = execute_prepared demo_xenv demo_executor ''e'' demo_prepared local_process"

lemma demo_run_before_entry: "run_worker demo_task demo_before_entry = Some (dispatch_connector demo_xenv False demo_context)"
proof -
  have "el_id demo_lease = demo_lease_id" "el_owner demo_lease = actor local_process" "el_attempt demo_lease = 1"
    by (simp_all add: demo_lease_def local_process_def)
  then show ?thesis
    by (simp add: demo_task_def demo_before_entry_def execute_prepared_def demo_resolve demo_policy_request_def claim_and_dispatch_def
        govern_dispatch_def dispatch_unless_cancelled_def trusted_now_def ef_validate_application_time_def demo_claim_def next_revision_def
        checked_add_def Let_def flip: demo_context_def)
qed

definition demo_receipt :: effect_receipt where
  "demo_receipt = \<lparr>er_source = ''mail'', er_external_id = ''e'', er_observed_at_ms = 7,
     er_response_sha256 = lower_hex (demo_effect_sha256 ''null'')\<rparr>"

definition demo_settle :: effect_command where
  "demo_settle = \<lparr>ec_id = demo_settle_id, ec_kind = EcRecordApplied demo_lease_id demo_receipt\<rparr>"

definition demo_applied :: effect where
  "demo_applied = demo_claimed\<lparr>ef_status := EsApplied 1 demo_receipt,
     ef_transitions := ef_transitions demo_claimed @
       [demo_effect_event 3 demo_settle_id (CHR ''N'' # demo_settle_id) 8 (EtApplied demo_lease_id 1 demo_receipt False)]\<rparr>"

lemma demo_receipt_valid [simp]: "ef_validate_receipt demo_receipt 8 = Inr ()"
  by (simp add: ef_validate_receipt_def demo_receipt_def ef_validate_application_time_def)

lemma demo_settle_applied:
  "effect_apply demo_effect_env demo_claimed demo_settle 8 local_process = Inr (demo_applied, EApplied)"
  by (simp add: demo_settle_def demo_applied_def demo_claimed_def demo_lease_def demo_effect_defs effect_eval active_projected_lease_def)

lemma demo_settle_new: "effect_recognizes_command demo_effect_env demo_claimed demo_settle local_process = Inr False"
  using demo_settle_applied by (auto elim: effect_apply_AppliedE)

lemma demo_ledger_settled:
  "ef_apply_as demo_effect_env (demo_ledger 2 demo_claimed) ''e'' 2 demo_settle 8 local_process =
     Inr (demo_ledger 3 demo_applied, \<lparr>ecr_snapshot = demo_entry 3 demo_applied, ecr_outcome = EApplied\<rparr>)"
  by (simp add: effect_store_eval demo_settle_new demo_settle_applied checked_add_def)

definition demo_after_entry :: "executor_event list" where
  "demo_after_entry = [Ev_now (Some 8),
     Ev_apply ''e'' 2 demo_settle 8 (Inr \<lparr>ecr_snapshot = demo_entry 3 demo_applied, ecr_outcome = EApplied\<rparr>)]"

definition demo_entered :: executor_event where
  "demo_entered = Ev_connect demo_entry_request (Aw_answered (XoApplied demo_receipt))"

lemma demo_run_complete:
  "run_worker (dispatch_connector demo_xenv False demo_context) (demo_entered # demo_after_entry) =
     Some (Return (leased_attempt demo_prepared XaApplied))"
proof -
  have "ef_status (esn_effect (demo_entry 3 demo_applied)) = EsApplied 1 demo_receipt" "el_id demo_lease = demo_lease_id"
    "(leased_attempt demo_prepared XaApplied)\<lparr>xt_governor_settlement_failed := False\<rparr> = leased_attempt demo_prepared XaApplied"
    by (simp_all add: demo_entry_def demo_applied_def demo_lease_def leased_attempt_def base_attempt_def)
  then show ?thesis
    by (simp add: demo_entered_def demo_after_entry_def dispatch_connector_def demo_entry_request_def trusted_now_def
        ef_validate_application_time_def normalize_connector_outcome_def is_ok_def settle_governor_def settle_at_def settlement_command_def
        demo_identities demo_settle_def settlement_report_def)
qed

fun outside :: "executor_event \<Rightarrow> bool" where
  "outside (Ev_apply _ _ _ _ _) = False"
| "outside (Ev_admit _ _) = False"
| "outside (Ev_settle _ _ _ _) = False"
| "outside _ = True"

definition one_worker :: "effect_state \<Rightarrow> executor_worker \<Rightarrow> executor_system" where
  "one_worker ledger w = \<lparr>sy_ledger = ledger, sy_governor = governor_new, sy_workers = [w]\<rparr>"

lemma one_worker_step:
  assumes "worker_step (xw_task w) ev = Some task'" and "serves env genv (xw_authority w) ledger governor_new ev ledger' governor_new"
  shows "system_step xenv env genv (one_worker ledger w) (one_worker ledger' (w\<lparr>xw_past := xw_past w @ [ev], xw_task := task'\<rparr>))"
  using worked [of 0 "one_worker ledger w" w ev task' env genv ledger' governor_new xenv] assms by (simp add: one_worker_def)

lemma one_worker_outside:
  assumes "run_worker (xw_task w) evs = Some task'" and "list_all outside evs"
  shows "(system_step xenv env genv)\<^sup>*\<^sup>* (one_worker ledger w)
    (one_worker ledger (w\<lparr>xw_past := xw_past w @ evs, xw_task := task'\<rparr>))"
  using assms
proof (induction evs arbitrary: w)
  case (Cons ev evs)
  then obtain t1 where t1: "worker_step (xw_task w) ev = Some t1" "run_worker t1 evs = Some task'" by (auto simp: bind_eq_Some_conv)
  have "serves env genv (xw_authority w) ledger governor_new ev ledger governor_new"
    using Cons.prems(2) by (cases ev) (auto intro: serves.intros)
  from one_worker_step [OF t1(1) this] Cons.IH [of "w\<lparr>xw_past := xw_past w @ [ev], xw_task := t1\<rparr>"] t1(2) Cons.prems(2)
  show ?case by (auto intro: converse_rtranclp_into_rtranclp)
next
  case Nil
  then have "w\<lparr>xw_past := xw_past w @ [], xw_task := task'\<rparr> = w" by simp
  then show ?case by simp
qed

definition demo_worker :: "executor_event list \<Rightarrow> executor_task \<Rightarrow> executor_worker" where
  "demo_worker past task = \<lparr>xw_executor = demo_executor, xw_cycle_id = ''e'', xw_prepared = demo_prepared,
     xw_authority = local_process, xw_past = past, xw_task = task\<rparr>"

lemma demo_worker_sel [simp]:
  "xw_past (demo_worker past task) = past" "xw_task (demo_worker past task) = task" "xw_authority (demo_worker past task) = local_process"
  "xw_executor (demo_worker past task) = demo_executor" "xw_prepared (demo_worker past task) = demo_prepared"
  "(demo_worker past task)\<lparr>xw_past := past', xw_task := task'\<rparr> = demo_worker past' task'"
  by (simp_all add: demo_worker_def)

lemma demo_system_spawned:
  "system_reachable demo_xenv demo_effect_env demo_governor_env (one_worker (demo_ledger 1 demo_pending) (demo_worker [] demo_task))"
proof -
  let ?sys = "system_start\<lparr>sy_ledger := demo_ledger 1 demo_pending\<rparr>"
  have "system_step demo_xenv demo_effect_env demo_governor_env system_start ?sys"
    by (rule ledger_used) (simp add: system_start_def effect_created [OF demo_ledger_created])
  moreover have "system_step demo_xenv demo_effect_env demo_governor_env ?sys (one_worker (demo_ledger 1 demo_pending) (demo_worker [] demo_task))"
    using spawned [of demo_xenv demo_effect_env demo_executor ?sys demo_run_request local_process "Some 6" 6 demo_page "[demo_prepared]" demo_prepared demo_governor_env]
      demo_scan by (simp add: system_start_def one_worker_def spawn_prepared_def demo_worker_def demo_task_def demo_run_request_def)
  ultimately show ?thesis by (meson r_into_rtranclp rtranclp.rtrancl_into_rtrancl)
qed

lemma demo_apply_step:
  assumes "worker_step task (Ev_apply i v c t (Inr res)) = Some task'"
    and "ef_apply_as demo_effect_env ledger i v c t local_process = Inr (ledger', res)"
  shows "system_step demo_xenv demo_effect_env demo_governor_env (one_worker ledger (demo_worker past task))
    (one_worker ledger' (demo_worker (past @ [Ev_apply i v c t (Inr res)]) task'))"
  using one_worker_step [of "demo_worker past task" "Ev_apply i v c t (Inr res)" task' demo_effect_env demo_governor_env ledger ledger' demo_xenv]
    assms by (simp add: engine_ok)

lemma demo_system_settled:
  "system_reachable demo_xenv demo_effect_env demo_governor_env
     (one_worker (demo_ledger 3 demo_applied) (demo_worker (demo_before_entry @ demo_entered # demo_after_entry)
        (Return (leased_attempt demo_prepared XaApplied))))"
proof -
  let ?step = "system_step demo_xenv demo_effect_env demo_governor_env"
  let ?claim = "Ev_apply ''e'' 1 demo_claim 6 (Inr \<lparr>ecr_snapshot = demo_entry 2 demo_claimed, ecr_outcome = EApplied\<rparr>)"
  let ?settle = "Ev_apply ''e'' 2 demo_settle 8 (Inr \<lparr>ecr_snapshot = demo_entry 3 demo_applied, ecr_outcome = EApplied\<rparr>)"
  let ?early = "take 4 demo_before_entry" and ?late = "[Ev_cancelled False, Ev_cancelled False, demo_entered, Ev_now (Some 8)]"
  have events: "demo_before_entry @ demo_entered # demo_after_entry = ?early @ ?claim # ?late @ [?settle]"
    by (simp add: demo_before_entry_def demo_after_entry_def)
  have "run_worker demo_task (?early @ ?claim # ?late @ [?settle]) = Some (Return (leased_attempt demo_prepared XaApplied))"
    unfolding events [symmetric] by (simp add: run_worker_append [of _ demo_before_entry] demo_run_before_entry demo_run_complete del: run_worker.simps)
  then obtain t1 t2 t3 where run: "run_worker demo_task ?early = Some t1" "worker_step t1 ?claim = Some t2" "run_worker t2 ?late = Some t3"
    "worker_step t3 ?settle = Some (Return (leased_attempt demo_prepared XaApplied))"
    by (auto simp: run_worker_append [of _ ?early] run_worker_append [of _ ?late] bind_eq_Some_conv simp del: take_Suc_Cons append_Cons)
  have early: "list_all outside ?early" by (simp add: demo_before_entry_def)
  note demo_system_spawned
  also have "?step\<^sup>*\<^sup>* (one_worker (demo_ledger 1 demo_pending) (demo_worker [] demo_task)) (one_worker (demo_ledger 1 demo_pending) (demo_worker ?early t1))"
    using one_worker_outside [of "demo_worker [] demo_task" ?early t1] run(1) early by simp
  also (rtranclp_trans) have "?step (one_worker (demo_ledger 1 demo_pending) (demo_worker ?early t1)) (one_worker (demo_ledger 2 demo_claimed) (demo_worker (?early @ [?claim]) t2))"
    by (rule demo_apply_step [OF run(2) demo_ledger_claimed])
  also (rtranclp.rtrancl_into_rtrancl) have "?step\<^sup>*\<^sup>* (one_worker (demo_ledger 2 demo_claimed) (demo_worker (?early @ [?claim]) t2))
      (one_worker (demo_ledger 2 demo_claimed) (demo_worker (?early @ ?claim # ?late) t3))"
    using one_worker_outside [of "demo_worker (?early @ [?claim]) t2" ?late t3] run(3) by (simp add: demo_entered_def)
  also (rtranclp_trans) have "?step (one_worker (demo_ledger 2 demo_claimed) (demo_worker (?early @ ?claim # ?late) t3))
      (one_worker (demo_ledger 3 demo_applied) (demo_worker ((?early @ ?claim # ?late) @ [?settle]) (Return (leased_attempt demo_prepared XaApplied))))"
    by (rule demo_apply_step [OF run(4) demo_ledger_settled])
  finally (rtranclp.rtrancl_into_rtrancl) show ?thesis unfolding events by simp
qed

section \<open>Sweeps\<close>




section \<open>Properties\<close>

text \<open>
  C8: A Connector is entered at most once per attempt. However the tasks of any number of executors and sweeps interleave with each
  other and with every other user of the ledger, and whatever replies of the engine and the governor are lost, a task enters a
  Connector at most once, and no two tasks enter a Connector for the same attempt of the same Effect of a tenant.
\<close>

theorem executor_dispatch_once:
  assumes "system_reachable xenv env genv sys" and "i < length (sy_workers sys)" and "j < length (sy_workers sys)"
  shows "length (connector_entries (sy_workers sys ! i)) \<le> 1 \<and>
    (set (connector_entries (sy_workers sys ! i)) \<inter> set (connector_entries (sy_workers sys ! j)) \<noteq> {} \<longrightarrow> i = j)"
proof (intro conjI impI)
  show "length (connector_entries (sy_workers sys ! i)) \<le> 1"
    using single_entry [OF system_workers [OF assms(1) nth_mem [OF assms(2)]]] .
  show "i = j" if "set (connector_entries (sy_workers sys ! i)) \<inter> set (connector_entries (sy_workers sys ! j)) \<noteq> {}"
    using that entries_apart [OF assms] by blast
qed

definition demo_finished :: executor_worker where
  "demo_finished = demo_worker (demo_before_entry @ demo_entered # demo_after_entry) (Return (leased_attempt demo_prepared XaApplied))"

lemma demo_finished_entries: "connector_entries demo_finished = [([], ''e'', 1)]"
  by (simp add: connector_entries_def demo_finished_def demo_before_entry_def demo_after_entry_def demo_entered_def demo_entry_request_def
      execution_request_of_def tenant_storage_key_def)

theorem executor_dispatch_once_witness:
  "connector_entries demo_finished = [([], ''e'', 1)] \<and> length (connector_entries demo_finished) \<le> 1"
  using executor_dispatch_once [OF demo_system_settled, of 0 0] demo_finished_entries by (simp add: one_worker_def demo_finished_def)

text \<open>
  C9: No Connector is entered without permission. When a task has entered a Connector, before that a registered Connector
  supported exactly this capability and operation, the Policy allowed exactly this request, the governor (if installed) admitted the
  lease, and the claim was committed by this task: the history of the Effect in the ledger carries it with the lease, the
  attempt and the actor of the entry, and the operation, key and input handed over are those of the durable Effect.
\<close>

theorem executor_dispatch_gated:
  assumes reach: "system_reachable xenv env genv sys" and w: "w \<in> set (sy_workers sys)"
    and past: "xw_past w = before @ Ev_connect q r # after"
  shows "\<not> entered (set before) \<and> policy_allowed (xw_executor w) (xw_prepared w) (xw_authority w) (set before) \<and>
    governor_admitted (xw_executor w) (xw_prepared w) (set before) \<and> xq_authority q = xw_authority w \<and>
    (\<exists>current. history_claim (sy_ledger sys) w q current \<and> same_content q (esn_effect current))"
proof -
  note inv = system_workers [OF reach w]
  from worker_event_ok [OF inv past] obtain lease where
    gate: "\<not> entered (set before)" "policy_allowed (xw_executor w) (xw_prepared w) (xw_authority w) (set before)"
      "governor_admitted (xw_executor w) (xw_prepared w) (set before)" and q: "q = execution_request_of (xw_prepared w) (xw_authority w) lease"
    by (auto simp: task_event_ok_def)
  obtain current where current: "history_claim (sy_ledger sys) w q current" using entry_claimed(2) [OF inv past] ..
  have "held_at env (sy_ledger sys) (store_key (xq_effect_id q) (tenant_id (xw_authority w))) (pe_snapshot (xw_prepared w))"
    using inv by (simp add: worker_inv_def q execution_request_of_def)
  moreover have "same_content q (esn_effect (pe_snapshot (xw_prepared w)))" by (simp add: q execution_request_of_def same_content_def)
  ultimately have "same_content q (esn_effect current)"
    using conjunct1 [OF current [unfolded history_claim_def]] by (rule held_at_content)
  with gate current q show ?thesis by (auto simp: execution_request_of_def)
qed

theorem executor_dispatch_gated_witness:
  "policy_allowed demo_executor demo_prepared local_process (set demo_before_entry) \<and> same_content demo_entry_request demo_applied"
proof -
  have past: "xw_past demo_finished = demo_before_entry @ Ev_connect demo_entry_request (Aw_answered (XoApplied demo_receipt)) # demo_after_entry"
    by (simp add: demo_finished_def demo_entered_def)
  have here: "demo_finished \<in> set (sy_workers (one_worker (demo_ledger 3 demo_applied) demo_finished))" by (simp add: one_worker_def)
  from executor_dispatch_gated [OF demo_system_settled [folded demo_finished_def] here past]
  have gate: "policy_allowed demo_executor demo_prepared local_process (set demo_before_entry)"
    and "\<exists>current. history_claim (demo_ledger 3 demo_applied) demo_finished demo_entry_request current \<and> same_content demo_entry_request (esn_effect current)"
    by (simp_all add: one_worker_def demo_finished_def)
  then obtain current where "history_claim (demo_ledger 3 demo_applied) demo_finished demo_entry_request current"
    "same_content demo_entry_request (esn_effect current)" by blast
  then have "same_content demo_entry_request demo_applied"
    by (auto simp: history_claim_def demo_ledger_def bm_get_def store_key_def tenant_storage_key_def demo_entry_request_def execution_request_of_def
        demo_finished_def demo_entry_def)
  with gate show ?thesis ..
qed

text \<open>
  C10: The outcome is recorded as the Connector reported it. Whatever the engine, the governor, the clock, the Policy and the Connector
  answer, a task records a success only with a receipt its Connector returned and that is valid at the time of the record, a
  confirmed absence after the entry only when the Connector said so (with a retry only when it asked for one), and before the entry
  only with a retry time, and an uncertain outcome only after the entry: a timeout, a panic, an error or a cancellation after
  the entry never becomes a retry.
\<close>

theorem executor_settles_as_answered:
  assumes "run_worker (execute_prepared xenv ex cycle_id prepared authority) (before @ Ev_apply i v c t ans # after) = Some w"
    and "ec_kind c \<noteq> EcClaim (pe_lease_id prepared) (xc_lease_duration_ms (ex_config ex))"
  shows "settled_as_answered (set before) t (ec_kind c) \<and>
    (\<exists>claimed lease. claimed_by ex prepared authority (set before) claimed lease \<and> v = esn_revision claimed)"
  using along_worker_event [OF execute_prepared_along assms(1)] assms(2) by (auto simp: task_event_ok_def)

theorem executor_settles_as_answered_witness:
  "settled_as_answered (set (demo_before_entry @ [demo_entered, Ev_now (Some 8)])) 8 (EcRecordApplied demo_lease_id demo_receipt)"
proof -
  have run: "run_worker (execute_prepared demo_xenv demo_executor ''e'' demo_prepared local_process)
      ((demo_before_entry @ [demo_entered, Ev_now (Some 8)]) @ Ev_apply ''e'' 2 demo_settle 8
        (Inr \<lparr>ecr_snapshot = demo_entry 3 demo_applied, ecr_outcome = EApplied\<rparr>) # []) = Some (Return (leased_attempt demo_prepared XaApplied))"
    using demo_run_before_entry demo_run_complete
    by (simp add: demo_task_def demo_after_entry_def run_worker_append [of _ demo_before_entry] del: run_worker.simps)
  show ?thesis using executor_settles_as_answered [OF run] by (simp add: demo_settle_def)
qed

text \<open>
  C11: Reports are true. When a task of a reachable system ends with \<open>Applied\<close>, its Connector confirmed the effect with a receipt and
  the ledger holds the Effect as applied, for good; when it ends with \<open>Rejected\<close>, the ledger holds it as rejected with
  that reason, for good; and when it ends with any outcome that stands for a refusal before the dispatch (Connector missing, Policy,
  cancellation, claim fenced or taken, rate, circuit, governor), no Connector was entered.
\<close>

theorem executor_report_durable:
  assumes reach: "system_reachable xenv env genv sys" and w: "w \<in> set (sy_workers sys)" and done': "xw_task w = Return a"
  shows "(xt_outcome a = XaApplied \<longrightarrow> (\<exists>current n receipt q receipt'.
      bm_get (mes_effects (sy_ledger sys)) (store_key (esn_id (pe_snapshot (xw_prepared w))) (tenant_id (xw_authority w))) = Some current \<and>
      ef_status (esn_effect current) = EsApplied n receipt \<and> Ev_connect q (Aw_answered (XoApplied receipt')) \<in> set (xw_past w))) \<and>
    (xt_outcome a = XaRejected reason \<longrightarrow> (\<exists>current n.
      bm_get (mes_effects (sy_ledger sys)) (store_key (esn_id (pe_snapshot (xw_prepared w))) (tenant_id (xw_authority w))) = Some current \<and>
      ef_status (esn_effect current) = EsRejected n reason)) \<and>
    (xt_outcome a \<in> {XaConnectorUnavailable, XaPolicyUnavailable, XaCancelledBeforeClaim, XaClaimFailed, XaClaimAlreadyCommitted,
       XaPolicyDenied reason, XaClaimFenced v, XaRateLimited v, XaCircuitOpen v, XaGovernorUnavailable v} \<longrightarrow> connector_entries w = [])"
proof -
  note inv = system_workers [OF reach w]
  from inv have report: "report_ok (xw_past w) a"
    using along_worker_return [OF execute_prepared_along] done' by (auto simp: worker_inv_def)
  let ?k = "store_key (esn_id (pe_snapshot (xw_prepared w))) (tenant_id (xw_authority w))"
  have terminal: "\<exists>current. bm_get (mes_effects (sy_ledger sys)) ?k = Some current \<and> ef_status (esn_effect current) = ef_status (esn_effect (ecr_snapshot res))"
    if "Ev_apply i u c t (Inr res) \<in> set (xw_past w)" "es_is_terminal (ef_status (esn_effect (ecr_snapshot res)))" for i u c t res
  proof -
    from that(1) obtain before after where "xw_past w = before @ Ev_apply i u c t (Inr res) # after" by (metis split_list)
    from worker_event_ok [OF inv this] have "i = esn_id (pe_snapshot (xw_prepared w))" by (simp add: task_event_ok_def)
    with held_at_terminal [OF worker_answer(1) [OF inv that(1)] that(2)] show ?thesis by simp
  qed
  have answered: "\<exists>q. Ev_connect q (Aw_answered (XoApplied receipt)) \<in> set (xw_past w)"
    if "Ev_apply i u c t ans \<in> set (xw_past w)" "ec_kind c = EcRecordApplied l receipt" for i u c t ans l receipt
  proof -
    from that(1) obtain before after where past: "xw_past w = before @ Ev_apply i u c t ans # after" by (metis split_list)
    from worker_event_ok [OF inv past] that(2) past show ?thesis by (auto simp: task_event_ok_def settled_as_answered_def)
  qed
  have entries: "connector_entries w = []" if "\<not> entered (set (xw_past w))"
    using that entry_event [of _ w] by (metis entered_def list.set_intros(1) neq_Nil_conv)
  show ?thesis
  proof (intro conjI impI)
    assume "xt_outcome a = XaApplied"
    with report obtain i u c t res l receipt n receipt' where ev: "Ev_apply i u c t (Inr res) \<in> set (xw_past w)"
      "ec_kind c = EcRecordApplied l receipt" "ef_status (esn_effect (ecr_snapshot res)) = EsApplied n receipt'"
      by (auto simp: report_ok_def durable_def)
    with terminal [OF ev(1)] answered [OF ev(1,2)] show "\<exists>current n receipt q receipt'. bm_get (mes_effects (sy_ledger sys)) ?k = Some current \<and>
      ef_status (esn_effect current) = EsApplied n receipt \<and> Ev_connect q (Aw_answered (XoApplied receipt')) \<in> set (xw_past w)" by auto
  next
    assume "xt_outcome a = XaRejected reason"
    with report obtain i u c t res n where ev: "Ev_apply i u c t (Inr res) \<in> set (xw_past w)"
      "ef_status (esn_effect (ecr_snapshot res)) = EsRejected n reason"
      by (auto simp: report_ok_def durable_def)
    with terminal [OF ev(1)] show "\<exists>current n. bm_get (mes_effects (sy_ledger sys)) ?k = Some current \<and>
      ef_status (esn_effect current) = EsRejected n reason" by auto
  next
    assume "xt_outcome a \<in> {XaConnectorUnavailable, XaPolicyUnavailable, XaCancelledBeforeClaim, XaClaimFailed, XaClaimAlreadyCommitted,
       XaPolicyDenied reason, XaClaimFenced v, XaRateLimited v, XaCircuitOpen v, XaGovernorUnavailable v}"
    with report show "connector_entries w = []" by (intro entries) (auto simp: report_ok_def)
  qed
qed

theorem executor_report_durable_witness:
  "\<exists>n receipt. ef_status demo_applied = EsApplied n receipt"
proof -
  have here: "demo_finished \<in> set (sy_workers (one_worker (demo_ledger 3 demo_applied) demo_finished))" by (simp add: one_worker_def)
  have fin: "xw_task demo_finished = Return (leased_attempt demo_prepared XaApplied)" by (simp add: demo_finished_def)
  from executor_report_durable [OF demo_system_settled [folded demo_finished_def] here fin] obtain current n receipt where
    "bm_get (mes_effects (demo_ledger 3 demo_applied)) (store_key (esn_id (pe_snapshot demo_prepared)) (tenant_id local_process)) = Some current"
    "ef_status (esn_effect current) = EsApplied n receipt" by (auto simp: one_worker_def demo_finished_def)
  then show ?thesis by (auto simp: demo_ledger_def bm_get_def store_key_def tenant_storage_key_def demo_entry_def)
qed

text \<open>
  C13: Every command a task sends is well formed. With a validated configuration and a hash of 32 bytes, the derived identities of leases and
  commands are valid, the lease duration is one the ledger accepts, and the recorded receipts, reasons and retry times
  pass the checks of the ledger at the time of the record: a settlement is never refused for its form.
\<close>

theorem executor_commands_wellformed:
  assumes sha: "\<And>b. length (xe_sha256 xenv b) = 32"
    and reach: "system_reachable xenv env genv sys" and w: "w \<in> set (sy_workers sys)" and ev: "Ev_apply i v c t ans \<in> set (xw_past w)"
  shows "command_wf t c"
proof -
  note inv = system_workers [OF reach w]
  from ev obtain before after where past: "xw_past w = before @ Ev_apply i v c t ans # after" by (metis split_list)
  have "along_worker event_wf harmless (execute_prepared xenv (xw_executor w) (xw_cycle_id w) (xw_prepared w) (xw_authority w)) []"
    by (rule execute_prepared_wf [OF sha]) (use inv in \<open>auto simp: worker_inv_def\<close>)
  moreover have "run_worker (execute_prepared xenv (xw_executor w) (xw_cycle_id w) (xw_prepared w) (xw_authority w))
      (before @ Ev_apply i v c t ans # after) = Some (xw_task w)" using inv past by (simp add: worker_inv_def)
  ultimately have "event_wf before (Ev_apply i v c t ans)" by (rule along_worker_event)
  then show ?thesis by simp
qed

theorem executor_commands_wellformed_witness:
  "command_wf 8 demo_settle"
proof -
  have sha: "length (xe_sha256 demo_xenv b) = 32" for b by (simp add: demo_xenv_def)
  have here: "demo_finished \<in> set (sy_workers (one_worker (demo_ledger 3 demo_applied) demo_finished))" by (simp add: one_worker_def)
  have "Ev_apply ''e'' 2 demo_settle 8 (Inr \<lparr>ecr_snapshot = demo_entry 3 demo_applied, ecr_outcome = EApplied\<rparr>) \<in> set (xw_past demo_finished)"
    by (simp add: demo_finished_def demo_after_entry_def)
  from executor_commands_wellformed [OF sha demo_system_settled [folded demo_finished_def] here this] show ?thesis .
qed



text \<open>
  The lease covers the Connector. Under a validated configuration a lease claimed at \<open>t\<close> ends later than the time-out of the Connector
  and the settlement reserve, counted from the claim; and every limit of a sweep is positive and bounded.
\<close>

theorem executor_lease_budget:
  assumes "executor_config_validate config = Inr ()" and "ef_lease_expiration t (xc_lease_duration_ms config) = Inr expires"
  shows "unat t + unat (xc_execution_timeout_ms config) + unat (xc_settlement_reserve_ms config) < unat expires \<and>
    0 < xc_execution_timeout_ms config \<and> xc_lease_duration_ms config \<le> 604800000 \<and>
    0 < xc_scan_limit config \<and> xc_scan_limit config \<le> 256 \<and> 0 < xc_max_concurrency config \<and> xc_max_concurrency config \<le> 64"
proof -
  from assms(1) obtain required where "checked_add (xc_execution_timeout_ms config) (xc_settlement_reserve_ms config) = Some required"
    "required < xc_lease_duration_ms config" "MIN_EXECUTION_TIMEOUT_MS \<le> xc_execution_timeout_ms config"
    by (auto simp: executor_config_validate_def ok_iff not_le split: if_splits)
  with assms show ?thesis
    by (auto simp: executor_config_validate_def ef_lease_expiration_def ok_iff executor_limits word_less_nat_alt word_le_nat_alt split: if_splits)
qed

theorem executor_lease_budget_witness:
  "unat (6 :: u64) + unat (xc_execution_timeout_ms executor_config_default) + unat (xc_settlement_reserve_ms executor_config_default) < 300006"
proof -
  have "ef_lease_expiration 6 (xc_lease_duration_ms executor_config_default) = Inr 300006"
    by (simp add: ef_lease_expiration_def checked_add_def)
  from executor_lease_budget [OF demo_config this] show ?thesis by simp
qed

text \<open>
  The reserve is not kept behind a governor. The budget counts from the claim, but an installed governor is asked after the claim
  and may take up to \<open>governor_timeout_ms\<close>, which the validation does not include: this configuration is accepted, and when the
  governor uses its time the lease of a claim at time 6 has run out before the Connector is entered, so that no outcome can
  be recorded under it.
\<close>

definition tight_config :: executor_config where
  "tight_config = \<lparr>xc_scan_limit = 1, xc_max_concurrency = 1, xc_policy_timeout_ms = 1, xc_governor_timeout_ms = 60000,
     xc_governor_retry_after_ms = 0, xc_execution_timeout_ms = 900, xc_settlement_reserve_ms = 50, xc_lease_duration_ms = 1000\<rparr>"

theorem executor_governor_outside_budget:
  "executor_config_validate tight_config = Inr () \<and>
   ef_lease_expiration 6 (xc_lease_duration_ms tight_config) = Inr 1006 \<and>
   1006 < 6 + xc_governor_timeout_ms tight_config \<and>
   active_owned_lease (EsClaimed (demo_lease\<lparr>el_expires_at_ms := 1006\<rparr>)) demo_lease_id LocalProcess (6 + xc_governor_timeout_ms tight_config) =
     Inl (Effect E_lease_expired)"
  by (simp add: tight_config_def executor_config_validate_def executor_limits ef_lease_expiration_def checked_add_def active_owned_lease_def demo_lease_def)

text \<open>
  The retry time in the report of a denial can lie before the durable one. The governor refuses until 10, the clock says 20 at the
  settlement: the ledger makes the Effect eligible at 20, and the report says 10.
\<close>

theorem executor_denial_reported_early:
  "effect_apply_kind demo_claimed (EcRecordNotApplied demo_lease_id ''governor.rate_limited'' (Some 20)) 20 LocalProcess =
     Inr (demo_claimed\<lparr>ef_status := EsPending 2 20\<rparr>, EtNotApplied demo_lease_id 1 ''governor.rate_limited'' (Some 20) False) \<and>
   run_worker (settle_governor_denial demo_xenv demo_context ''governor.rate_limited'' 10 (XaRateLimited 10) Return)
     [Ev_now (Some 20), Ev_apply ''e'' 2 \<lparr>ec_id = demo_settle_id, ec_kind = EcRecordNotApplied demo_lease_id ''governor.rate_limited'' (Some 20)\<rparr> 20
        (Inr \<lparr>ecr_snapshot = demo_entry 3 (demo_claimed\<lparr>ef_status := EsPending 2 20\<rparr>), ecr_outcome = EApplied\<rparr>)] =
     Some (Return (leased_attempt demo_prepared (XaRateLimited 10)))"
proof
  have "validate_capability_name ''governor.rate_limited'' = Inr ()" by (simp add: validate_capability_name_def string_eval)
  then show "effect_apply_kind demo_claimed (EcRecordNotApplied demo_lease_id ''governor.rate_limited'' (Some 20)) 20 LocalProcess =
     Inr (demo_claimed\<lparr>ef_status := EsPending 2 20\<rparr>, EtNotApplied demo_lease_id 1 ''governor.rate_limited'' (Some 20) False)"
    by (simp add: demo_claimed_def demo_lease_def effect_eval)
  have "(leased_attempt demo_prepared (XaRetryScheduled r u))\<lparr>xt_outcome := out\<rparr> = leased_attempt demo_prepared out" for r u out
    by (simp add: leased_attempt_def base_attempt_def)
  moreover have "ef_status (esn_effect (demo_entry 3 (demo_claimed\<lparr>ef_status := EsPending 2 20\<rparr>))) = EsPending 2 20" "el_id demo_lease = demo_lease_id"
    by (simp_all add: demo_entry_def demo_lease_def)
  ultimately show "run_worker (settle_governor_denial demo_xenv demo_context ''governor.rate_limited'' 10 (XaRateLimited 10) Return)
     [Ev_now (Some 20), Ev_apply ''e'' 2 \<lparr>ec_id = demo_settle_id, ec_kind = EcRecordNotApplied demo_lease_id ''governor.rate_limited'' (Some 20)\<rparr> 20
        (Inr \<lparr>ecr_snapshot = demo_entry 3 (demo_claimed\<lparr>ef_status := EsPending 2 20\<rparr>), ecr_outcome = EApplied\<rparr>)] =
     Some (Return (leased_attempt demo_prepared (XaRateLimited 10)))"
    by (simp add: settle_governor_denial_def trusted_now_def ef_validate_application_time_def settle_at_def settlement_command_def demo_identities
        settlement_report_def max_def)
qed

end
