(* ===== verification/Reconciler.thy ===== *)
theory Reconciler
  imports Effect_Worker
begin

text \<open>
  \<^verbatim>\<open>effect/reconciler.rs\<close>: the host-driven sweep that settles Effects with an unknown outcome. For every unknown Effect of a page one
  task resolves a read-only Connector, asks the Policy, queries the state of the external system and, when the answer proves what
  happened, records it under the uncertain attempt and its lease. The shape is that of the executor (\<open>Effect_Worker\<close>), without claims
  and without a governor.
\<close>

section \<open>Limits, descriptors and the registry\<close>

definition EFFECT_RECONCILER_API_VERSION :: u32 where "EFFECT_RECONCILER_API_VERSION = 1"
definition RC_MAX_CONNECTORS :: nat where "RC_MAX_CONNECTORS = 256"
definition RC_MAX_OPERATIONS_PER_CONNECTOR :: nat where "RC_MAX_OPERATIONS_PER_CONNECTOR = 256"
definition MAX_DESCRIPTOR_BYTES :: nat where "MAX_DESCRIPTOR_BYTES = 65536"
definition MAX_SCAN_LIMIT :: nat where "MAX_SCAN_LIMIT = 256"
definition MAX_CONCURRENCY :: nat where "MAX_CONCURRENCY = 64"
definition RC_MIN_POLICY_TIMEOUT_MS :: u64 where "RC_MIN_POLICY_TIMEOUT_MS = 1"
definition RC_MAX_POLICY_TIMEOUT_MS :: u64 where "RC_MAX_POLICY_TIMEOUT_MS = 60000"
definition MIN_LOOKUP_TIMEOUT_MS :: u64 where "MIN_LOOKUP_TIMEOUT_MS = 1"
definition MAX_LOOKUP_TIMEOUT_MS :: u64 where "MAX_LOOKUP_TIMEOUT_MS = 604800000"
definition RC_MAX_RETRY_AFTER_MS :: u64 where "RC_MAX_RETRY_AFTER_MS = 604800000"

datatype reconciliation_contract = AuthoritativeReadOnly

record reconciliation_descriptor =
  rd_capability :: string
  rd_api_version :: u32
  rd_operations :: "string list"
  rd_contract :: reconciliation_contract

record registered_reconciliation_connector =
  rr_origin :: capability_origin
  rr_descriptor :: reconciliation_descriptor

type_synonym reconciliation_registry = "(string, registered_reconciliation_connector) btree_map"

datatype reconciliation_outcome = RoApplied effect_receipt | RoNotApplied string "u64 option" | RoStillUnknown string

record reconciliation_identity =
  ri_purpose :: string
  ri_cycle_id :: string
  ri_actor :: actor_identity
  ri_tenant_id :: "string option"
  ri_effect_id :: string
  ri_revision :: u64
  ri_attempt :: u32
  ri_lease_id :: string
  ri_evidence_sha256 :: string

record reconciler_env =
  re_descriptor :: "reconciliation_descriptor serializer"
  re_outcome :: "reconciliation_outcome serializer"
  re_identity :: "reconciliation_identity serializer"
  re_sha256 :: "bytes \<Rightarrow> bytes"

definition rc_err :: "worker_fault \<Rightarrow> harness_error" where
  "rc_err f = Effect (E_worker f)"

fun rc_descriptor_bound_error :: "bounded_json_error \<Rightarrow> harness_error" where
  "rc_descriptor_bound_error LimitExceeded = rc_err X_descriptor_too_large"
| "rc_descriptor_bound_error CannotEncode = rc_err X_descriptor_encoding"

definition rc_validate_descriptor :: "reconciler_env \<Rightarrow> reconciliation_descriptor \<Rightarrow> unit result" where
  "rc_validate_descriptor renv descriptor =
     and_then (map_err (\<lambda>_. rc_err X_name) (validate_capability_name (rd_capability descriptor))) (\<lambda>_.
     if rd_api_version descriptor \<noteq> EFFECT_RECONCILER_API_VERSION then Inl (rc_err X_api_version)
     else if rd_operations descriptor = [] \<or> length (rd_operations descriptor) > RC_MAX_OPERATIONS_PER_CONNECTOR
     then Inl (rc_err X_operation_count)
     else
     and_then (for_each (\<lambda>operation. map_err (\<lambda>_. rc_err X_name) (validate_capability_name operation))
       (rd_operations descriptor)) (\<lambda>_.
     and_then (map_err rc_descriptor_bound_error
       (bounded_serialized_size (re_descriptor renv) descriptor MAX_DESCRIPTOR_BYTES)) (\<lambda>_.
     Inr ())))"

definition rc_register ::
  "reconciler_env \<Rightarrow> reconciliation_registry \<Rightarrow> capability_origin \<Rightarrow> reconciliation_descriptor option \<Rightarrow>
   reconciliation_registry result" where
  "rc_register renv connectors origin provided =
     and_then (validate_capability_origin origin) (\<lambda>_.
     if length connectors \<ge> RC_MAX_CONNECTORS then Inl (rc_err X_registry_full)
     else
     and_then (capture_capability_metadata provided) (\<lambda>descriptor.
     and_then (rc_validate_descriptor renv descriptor) (\<lambda>_.
     if bm_get connectors (rd_capability descriptor) \<noteq> None
     then Inl (DuplicateCapability (rd_capability descriptor))
     else Inr (bm_insert (rd_capability descriptor) \<lparr>rr_origin = origin, rr_descriptor = descriptor\<rparr> connectors))))"

definition rc_capabilities :: "reconciliation_registry \<Rightarrow> string list" where
  "rc_capabilities connectors = map fst connectors"

definition rc_resolve :: "reconciliation_registry \<Rightarrow> effect_operation \<Rightarrow> registered_reconciliation_connector option" where
  "rc_resolve connectors operation =
     (case bm_get connectors (eo_capability operation) of
        None \<Rightarrow> None
      | Some registered \<Rightarrow>
          if eo_operation operation \<in> set (rd_operations (rr_descriptor registered)) then Some registered else None)"

section \<open>Policies and configuration\<close>

record reconciliation_policy_request =
  rp_effect_id :: string
  rp_authority :: authority_context
  rp_operation :: effect_operation
  rp_input :: json
  rp_input_sha256 :: string
  rp_attempt :: u32
  rp_lease_id :: string
  rp_connector_origin :: capability_origin
  rp_contract :: reconciliation_contract

definition rc_deny_all_authorize :: "reconciliation_policy_request \<Rightarrow> policy_decision" where
  "rc_deny_all_authorize request = Policy_deny ''policy.denied''"

definition rc_allow_list_allow :: "(string \<times> string) set \<Rightarrow> string \<Rightarrow> string \<Rightarrow> (string \<times> string) set result" where
  "rc_allow_list_allow allowed capability operation =
     and_then (map_err (\<lambda>_. rc_err X_name) (validate_capability_name capability)) (\<lambda>_.
     and_then (map_err (\<lambda>_. rc_err X_name) (validate_capability_name operation)) (\<lambda>_.
     Inr (insert (capability, operation) allowed)))"

definition rc_allow_list_authorize :: "(string \<times> string) set \<Rightarrow> reconciliation_policy_request \<Rightarrow> policy_decision" where
  "rc_allow_list_authorize allowed request =
     (if (eo_capability (rp_operation request), eo_operation (rp_operation request)) \<in> allowed
      then Policy_allow else Policy_deny ''policy.denied'')"

record reconciler_config =
  rg_scan_limit :: usize
  rg_max_concurrency :: usize
  rg_policy_timeout_ms :: u64
  rg_lookup_timeout_ms :: u64

definition reconciler_config_default :: reconciler_config where
  "reconciler_config_default = \<lparr>rg_scan_limit = 64, rg_max_concurrency = 8, rg_policy_timeout_ms = 5000, rg_lookup_timeout_ms = 60000\<rparr>"

definition reconciler_config_validate :: "reconciler_config \<Rightarrow> unit result" where
  "reconciler_config_validate config =
     (if \<not> (1 \<le> rg_scan_limit config \<and> rg_scan_limit config \<le> MAX_SCAN_LIMIT) then Inl (rc_err X_scan_limit)
      else if \<not> (1 \<le> rg_max_concurrency config \<and> rg_max_concurrency config \<le> MAX_CONCURRENCY) then Inl (rc_err X_concurrency)
      else if \<not> (RC_MIN_POLICY_TIMEOUT_MS \<le> rg_policy_timeout_ms config \<and> rg_policy_timeout_ms config \<le> RC_MAX_POLICY_TIMEOUT_MS)
      then Inl (rc_err X_policy_timeout)
      else if \<not> (MIN_LOOKUP_TIMEOUT_MS \<le> rg_lookup_timeout_ms config \<and> rg_lookup_timeout_ms config \<le> MAX_LOOKUP_TIMEOUT_MS)
      then Inl (rc_err X_execution_timeout)
      else Inr ())"

record reconciler =
  rec_connectors :: reconciliation_registry
  rec_config :: reconciler_config

definition reconciler_new :: "reconciliation_registry \<Rightarrow> reconciler result" where
  "reconciler_new connectors =
     and_then (reconciler_config_validate reconciler_config_default) (\<lambda>_.
     Inr \<lparr>rec_connectors = connectors, rec_config = reconciler_config_default\<rparr>)"

definition rc_with_config :: "reconciler \<Rightarrow> reconciler_config \<Rightarrow> reconciler result" where
  "rc_with_config rc config = and_then (reconciler_config_validate config) (\<lambda>_. Inr (rc\<lparr>rec_config := config\<rparr>))"

section \<open>Requests and reports\<close>

record reconciliation_request =
  rq_effect_id :: string
  rq_authority :: authority_context
  rq_operation :: effect_operation
  rq_idempotency_key :: string
  rq_input :: json
  rq_input_sha256 :: string
  rq_attempt :: u32
  rq_lease_id :: string

datatype reconciler_attempt_outcome =
    RaConnectorUnavailable
  | RaPolicyDenied string
  | RaPolicyUnavailable
  | RaCancelledBeforeLookup
  | RaCancelledDuringLookup
  | RaLookupUnavailable
  | RaInvalidEvidence
  | RaStillUnknown string
  | RaClockUnavailable
  | RaApplied
  | RaRejected string
  | RaRetryScheduled string u64
  | RaAlreadyReconciled
  | RaSettlementFenced u64
  | RaSettlementFailed
  | RaAttemptFailed

record reconciler_attempt =
  ra_effect_id :: string
  ra_observed_revision :: u64
  ra_attempt :: u32
  ra_lease_id :: string
  ra_outcome :: reconciler_attempt_outcome

record reconciler_run_request =
  rrq_cycle_id :: string
  rrq_after :: "string option"

record reconciler_run_report =
  rrp_scanned_at_ms :: u64
  rrp_scanned :: usize
  rrp_has_more :: bool
  rrp_next_after :: "string option"
  rrp_attempts :: "reconciler_attempt list"

record prepared_reconciliation =
  pr_snapshot :: effect_snapshot
  pr_attempt :: u32
  pr_lease_id :: string

type_synonym reconciler_task = "(reconciliation_policy_request, reconciliation_request, reconciliation_outcome, reconciler_attempt) worker"
type_synonym reconciler_event = "(reconciliation_policy_request, reconciliation_request, reconciliation_outcome) worker_event"

definition prepared_try_from :: "effect_snapshot \<Rightarrow> prepared_reconciliation result" where
  "prepared_try_from snapshot =
     (case ef_status (esn_effect snapshot) of
        EsUnknown attempt lease_id _ \<Rightarrow> Inr \<lparr>pr_snapshot = snapshot, pr_attempt = attempt, pr_lease_id = lease_id\<rparr>
      | _ \<Rightarrow> Inl (rc_err X_scan_state))"

definition rc_report :: "prepared_reconciliation \<Rightarrow> reconciler_attempt_outcome \<Rightarrow> reconciler_attempt" where
  "rc_report prepared outcome = \<lparr>ra_effect_id = esn_id (pr_snapshot prepared),
     ra_observed_revision = esn_revision (pr_snapshot prepared), ra_attempt = pr_attempt prepared,
     ra_lease_id = pr_lease_id prepared, ra_outcome = outcome\<rparr>"

section \<open>Evidence\<close>

fun rc_validate_outcome :: "reconciliation_outcome \<Rightarrow> bool" where
  "rc_validate_outcome (RoApplied _) = True"
| "rc_validate_outcome (RoNotApplied reason_code retry_after_ms) =
     (is_ok (validate_capability_name reason_code) \<and> is_none_or retry_after_ms (\<lambda>delay. delay \<le> RC_MAX_RETRY_AFTER_MS))"
| "rc_validate_outcome (RoStillUnknown reason_code) = is_ok (validate_capability_name reason_code)"

definition hex_sha256 :: "reconciler_env \<Rightarrow> bytes \<Rightarrow> string" where
  "hex_sha256 renv b = lower_hex (re_sha256 renv b)"

definition reconciliation_command_id ::
  "reconciler_env \<Rightarrow> string \<Rightarrow> prepared_reconciliation \<Rightarrow> string \<Rightarrow> reconciliation_outcome \<Rightarrow> authority_context \<Rightarrow> string result" where
  "reconciliation_command_id renv cycle_id prepared purpose outcome authority =
     and_then (ok_or (rc_err X_encode_identity) (to_vec (re_outcome renv) outcome)) (\<lambda>evidence.
     let identity = \<lparr>ri_purpose = purpose, ri_cycle_id = cycle_id, ri_actor = actor authority, ri_tenant_id = tenant_id authority,
           ri_effect_id = esn_id (pr_snapshot prepared), ri_revision = esn_revision (pr_snapshot prepared),
           ri_attempt = pr_attempt prepared, ri_lease_id = pr_lease_id prepared, ri_evidence_sha256 = hex_sha256 renv evidence\<rparr> in
     and_then (ok_or (rc_err X_encode_identity) (to_vec (re_identity renv) identity)) (\<lambda>encoded.
     Inr (''reconciler-settle-'' @ hex_sha256 renv encoded)))"

fun rc_report_settlement :: "reconciliation_outcome \<Rightarrow> effect_status \<Rightarrow> reconciler_attempt_outcome" where
  "rc_report_settlement (RoApplied _) (EsApplied _ _) = RaApplied"
| "rc_report_settlement (RoNotApplied reason_code None) (EsRejected _ durable_reason) =
     (if reason_code = durable_reason then RaRejected reason_code else RaSettlementFailed)"
| "rc_report_settlement (RoNotApplied reason_code (Some _)) (EsPending _ not_before_ms) =
     RaRetryScheduled reason_code not_before_ms"
| "rc_report_settlement _ _ = RaSettlementFailed"

section \<open>One task\<close>

text \<open>The command that records the evidence, with its purpose, or the report that ends the task.\<close>

definition reconciliation_command ::
  "prepared_reconciliation \<Rightarrow> reconciliation_outcome \<Rightarrow> u64 \<Rightarrow> reconciler_attempt_outcome + (string \<times> effect_command_kind)" where
  "reconciliation_command prepared outcome settled_at_ms =
     (case outcome of
        RoApplied receipt \<Rightarrow>
          if is_ok (ef_validate_receipt receipt settled_at_ms)
          then Inr (''applied'', EcReconcileApplied (pr_lease_id prepared) (pr_attempt prepared) receipt)
          else Inl RaInvalidEvidence
      | RoNotApplied reason_code retry_after_ms \<Rightarrow>
          (case retry_after_ms of
             Some delay \<Rightarrow>
               (case checked_add settled_at_ms delay of
                  Some value \<Rightarrow>
                    Inr (''not-applied'', EcReconcileNotApplied (pr_lease_id prepared) (pr_attempt prepared) reason_code (Some value))
                | None \<Rightarrow> Inl RaInvalidEvidence)
           | None \<Rightarrow> Inr (''not-applied'', EcReconcileNotApplied (pr_lease_id prepared) (pr_attempt prepared) reason_code None))
      | RoStillUnknown _ \<Rightarrow> Inl RaSettlementFailed)"

definition rc_settle ::
  "reconciler_env \<Rightarrow> string \<Rightarrow> prepared_reconciliation \<Rightarrow> reconciliation_outcome \<Rightarrow> authority_context \<Rightarrow> reconciler_task" where
  "rc_settle renv cycle_id prepared outcome authority =
     Now_ms (\<lambda>reading. case trusted_now reading of
       Inl _ \<Rightarrow> Return (rc_report prepared RaClockUnavailable)
     | Inr settled_at_ms \<Rightarrow>
         (case reconciliation_command prepared outcome settled_at_ms of
            Inl ended \<Rightarrow> Return (rc_report prepared ended)
          | Inr (purpose, kind) \<Rightarrow>
              (case reconciliation_command_id renv cycle_id prepared purpose outcome authority of
                 Inl _ \<Rightarrow> Return (rc_report prepared RaSettlementFailed)
               | Inr command_id \<Rightarrow>
                   Apply_as (esn_id (pr_snapshot prepared)) (esn_revision (pr_snapshot prepared))
                     \<lparr>ec_id = command_id, ec_kind = kind\<rparr> settled_at_ms (\<lambda>answer.
                   case answer of
                     Inr res \<Rightarrow>
                       Return (rc_report prepared
                         (if ecr_outcome res = EDuplicate then RaAlreadyReconciled
                          else rc_report_settlement outcome (ef_status (esn_effect (ecr_snapshot res)))))
                   | Inl e \<Rightarrow>
                       Return (rc_report prepared
                         (case conflict_revision e of Some actual \<Rightarrow> RaSettlementFenced actual | None \<Rightarrow> RaSettlementFailed))))))"

definition reconciliation_request_of ::
  "prepared_reconciliation \<Rightarrow> authority_context \<Rightarrow> reconciliation_request" where
  "reconciliation_request_of prepared authority =
     \<lparr>rq_effect_id = esn_id (pr_snapshot prepared), rq_authority = authority,
      rq_operation = ef_operation (esn_effect (pr_snapshot prepared)),
      rq_idempotency_key = ef_idempotency_key (esn_effect (pr_snapshot prepared)),
      rq_input = ef_input (esn_effect (pr_snapshot prepared)),
      rq_input_sha256 = ef_input_sha256 (esn_effect (pr_snapshot prepared)),
      rq_attempt = pr_attempt prepared, rq_lease_id = pr_lease_id prepared\<rparr>"

definition reconciliation_policy_request_of ::
  "prepared_reconciliation \<Rightarrow> authority_context \<Rightarrow> registered_reconciliation_connector \<Rightarrow> reconciliation_policy_request" where
  "reconciliation_policy_request_of prepared authority registered =
     \<lparr>rp_effect_id = esn_id (pr_snapshot prepared), rp_authority = authority,
      rp_operation = ef_operation (esn_effect (pr_snapshot prepared)),
      rp_input = ef_input (esn_effect (pr_snapshot prepared)),
      rp_input_sha256 = ef_input_sha256 (esn_effect (pr_snapshot prepared)),
      rp_attempt = pr_attempt prepared, rp_lease_id = pr_lease_id prepared,
      rp_connector_origin = rr_origin registered, rp_contract = rd_contract (rr_descriptor registered)\<rparr>"

definition rc_lookup ::
  "reconciler_env \<Rightarrow> string \<Rightarrow> prepared_reconciliation \<Rightarrow> authority_context \<Rightarrow> reconciler_task" where
  "rc_lookup renv cycle_id prepared authority =
     Connect (reconciliation_request_of prepared authority) (\<lambda>answer.
     case answer of
       Aw_refused \<Rightarrow> Return (rc_report prepared RaLookupUnavailable)
     | Aw_cancelled \<Rightarrow> Return (rc_report prepared RaCancelledDuringLookup)
     | Aw_failed \<Rightarrow> Return (rc_report prepared RaLookupUnavailable)
     | Aw_timeout \<Rightarrow> Return (rc_report prepared RaLookupUnavailable)
     | Aw_answered outcome \<Rightarrow>
         if \<not> rc_validate_outcome outcome then Return (rc_report prepared RaInvalidEvidence)
         else
         (case outcome of
            RoStillUnknown reason_code \<Rightarrow> Return (rc_report prepared (RaStillUnknown reason_code))
          | _ \<Rightarrow> rc_settle renv cycle_id prepared outcome authority))"

definition reconcile_prepared ::
  "reconciler_env \<Rightarrow> reconciler \<Rightarrow> string \<Rightarrow> prepared_reconciliation \<Rightarrow> authority_context \<Rightarrow> reconciler_task" where
  "reconcile_prepared renv rc cycle_id prepared authority =
     (case rc_resolve (rec_connectors rc) (ef_operation (esn_effect (pr_snapshot prepared))) of
        None \<Rightarrow> Return (rc_report prepared RaConnectorUnavailable)
      | Some registered \<Rightarrow>
          Is_cancelled (\<lambda>cancelled.
          if cancelled then Return (rc_report prepared RaCancelledBeforeLookup)
          else
          Authorize (reconciliation_policy_request_of prepared authority registered) (\<lambda>answer.
          case answer of
            Aw_refused \<Rightarrow> Return (rc_report prepared RaPolicyUnavailable)
          | Aw_cancelled \<Rightarrow> Return (rc_report prepared RaCancelledBeforeLookup)
          | Aw_failed \<Rightarrow> Return (rc_report prepared RaPolicyUnavailable)
          | Aw_timeout \<Rightarrow> Return (rc_report prepared RaPolicyUnavailable)
          | Aw_answered decision \<Rightarrow>
              (case decision of
                 Policy_deny reason_code \<Rightarrow>
                   if is_ok (validate_capability_name reason_code)
                   then Return (rc_report prepared (RaPolicyDenied reason_code))
                   else Return (rc_report prepared RaPolicyUnavailable)
               | Policy_allow \<Rightarrow>
                   Is_cancelled (\<lambda>cancelled.
                   if cancelled then Return (rc_report prepared RaCancelledBeforeLookup)
                   else rc_lookup renv cycle_id prepared authority)))))"

section \<open>One sweep\<close>

definition rc_validate_run_request :: "reconciler_run_request \<Rightarrow> authority_context \<Rightarrow> unit result" where
  "rc_validate_run_request request authority =
     and_then (map_err (\<lambda>_. rc_err X_authority) (authority_validate_current authority)) (\<lambda>_.
     and_then (ef_validate_identity (rrq_cycle_id request)) (\<lambda>_.
     case rrq_after request of None \<Rightarrow> Inr () | Some after \<Rightarrow> ef_validate_identity after))"

definition rc_scan ::
  "effect_env \<Rightarrow> reconciler \<Rightarrow> effect_state \<Rightarrow> reconciler_run_request \<Rightarrow> authority_context \<Rightarrow> u64 option \<Rightarrow>
   (u64 \<times> effect_page \<times> prepared_reconciliation list) result" where
  "rc_scan env rc ledger request authority reading =
     and_then (rc_validate_run_request request authority) (\<lambda>_.
     and_then (reconciler_config_validate (rec_config rc)) (\<lambda>_.
     and_then (trusted_now reading) (\<lambda>scanned_at_ms.
     and_then (ef_list_as ledger (Some ''unknown'') (rrq_after request) (rg_scan_limit (rec_config rc)) authority) (\<lambda>page.
     and_then (validate_effect_page env page (rrq_after request) (rg_scan_limit (rec_config rc)) authority PsUnknown) (\<lambda>_.
     and_then (try_fold (\<lambda>prepared snapshot. and_then (prepared_try_from snapshot) (\<lambda>p. Inr (prepared @ [p]))) [] (epg_effects page))
       (\<lambda>prepared. Inr (scanned_at_ms, page, prepared)))))))"

definition rc_run_once_as ::
  "effect_env \<Rightarrow> reconciler \<Rightarrow> effect_state \<Rightarrow> reconciler_run_request \<Rightarrow> authority_context \<Rightarrow> u64 option \<Rightarrow>
   (nat \<Rightarrow> reconciler_attempt option) \<Rightarrow> (nat \<Rightarrow> nat) \<Rightarrow> reconciler_run_report result" where
  "rc_run_once_as env rc ledger request authority reading outcome choice =
     and_then (rc_scan env rc ledger request authority reading) (\<lambda>(scanned_at_ms, page, prepared).
     let attempts = pool_attempts outcome (\<lambda>p. rc_report p RaAttemptFailed) choice
           (rg_max_concurrency (rec_config rc)) prepared in
     Inr \<lparr>rrp_scanned_at_ms = scanned_at_ms, rrp_scanned = length (epg_effects page), rrp_has_more = epg_has_more page,
       rrp_next_after = (if epg_has_more page then epg_next_cursor page else None),
       rrp_attempts = attempts\<rparr>)"

definition rc_run_once ::
  "effect_env \<Rightarrow> reconciler \<Rightarrow> effect_state \<Rightarrow> reconciler_run_request \<Rightarrow> u64 option \<Rightarrow>
   (nat \<Rightarrow> reconciler_attempt option) \<Rightarrow> (nat \<Rightarrow> nat) \<Rightarrow> reconciler_run_report result" where
  "rc_run_once env rc ledger request reading outcome choice =
     rc_run_once_as env rc ledger request local_process reading outcome choice"

section \<open>What one task can do\<close>

definition evidence_of :: "reconciler_event set \<Rightarrow> prepared_reconciliation \<Rightarrow> authority_context \<Rightarrow> reconciliation_outcome \<Rightarrow> bool" where
  "evidence_of past prepared authority outcome \<longleftrightarrow>
     Ev_connect (reconciliation_request_of prepared authority) (Aw_answered outcome) \<in> past \<and> rc_validate_outcome outcome"

definition rc_allowed :: "reconciler \<Rightarrow> prepared_reconciliation \<Rightarrow> authority_context \<Rightarrow> reconciler_event set \<Rightarrow> bool" where
  "rc_allowed rc prepared authority past \<longleftrightarrow>
     (\<exists>registered. rc_resolve (rec_connectors rc) (ef_operation (esn_effect (pr_snapshot prepared))) = Some registered \<and>
        Ev_policy (reconciliation_policy_request_of prepared authority registered) (Aw_answered Policy_allow) \<in> past)"

definition changed :: "reconciler_event set \<Rightarrow> bool" where
  "changed past \<longleftrightarrow> (\<exists>i v c t ans. Ev_apply i v c t ans \<in> past)"

definition reconciled_as_answered ::
  "reconciler_event set \<Rightarrow> prepared_reconciliation \<Rightarrow> authority_context \<Rightarrow> u64 \<Rightarrow> effect_command_kind \<Rightarrow> bool" where
  "reconciled_as_answered past prepared authority t kind \<longleftrightarrow>
     (\<exists>receipt. kind = EcReconcileApplied (pr_lease_id prepared) (pr_attempt prepared) receipt \<and>
        evidence_of past prepared authority (RoApplied receipt) \<and> ef_validate_receipt receipt t = Inr ()) \<or>
     (\<exists>reason_code. kind = EcReconcileNotApplied (pr_lease_id prepared) (pr_attempt prepared) reason_code None \<and>
        evidence_of past prepared authority (RoNotApplied reason_code None)) \<or>
     (\<exists>reason_code delay retry_at_ms.
        kind = EcReconcileNotApplied (pr_lease_id prepared) (pr_attempt prepared) reason_code (Some retry_at_ms) \<and>
        evidence_of past prepared authority (RoNotApplied reason_code (Some delay)) \<and> checked_add t delay = Some retry_at_ms)"

definition rc_event_ok ::
  "reconciler \<Rightarrow> prepared_reconciliation \<Rightarrow> authority_context \<Rightarrow> reconciler_event list \<Rightarrow> reconciler_event \<Rightarrow> bool" where
  "rc_event_ok rc prepared authority past ev \<longleftrightarrow>
     (case ev of
        Ev_connect q _ \<Rightarrow> rc_allowed rc prepared authority (set past) \<and> q = reconciliation_request_of prepared authority
      | Ev_apply i v c t _ \<Rightarrow> \<not> changed (set past) \<and> t \<noteq> 0 \<and> i = esn_id (pr_snapshot prepared) \<and>
          v = esn_revision (pr_snapshot prepared) \<and> rc_allowed rc prepared authority (set past) \<and>
          reconciled_as_answered (set past) prepared authority t (ec_kind c)
      | Ev_admit _ _ \<Rightarrow> False
      | Ev_settle _ _ _ _ \<Rightarrow> False
      | _ \<Rightarrow> True)"

definition rc_durable :: "reconciler_event set \<Rightarrow> (effect_command_kind \<Rightarrow> effect_status \<Rightarrow> bool) \<Rightarrow> bool" where
  "rc_durable past P \<longleftrightarrow> (\<exists>i v c t res. Ev_apply i v c t (Inr res) \<in> past \<and> ecr_outcome res = EApplied \<and>
     P (ec_kind c) (ef_status (esn_effect (ecr_snapshot res))))"

definition rc_report_ok :: "reconciler_event list \<Rightarrow> reconciler_attempt \<Rightarrow> bool" where
  "rc_report_ok past a \<longleftrightarrow>
     (case ra_outcome a of
        RaApplied \<Rightarrow> rc_durable (set past) (\<lambda>kind status. (\<exists>l n r. kind = EcReconcileApplied l n r) \<and> (\<exists>n r. status = EsApplied n r))
      | RaRejected reason_code \<Rightarrow>
          rc_durable (set past) (\<lambda>kind status. (\<exists>l n. kind = EcReconcileNotApplied l n reason_code None) \<and> (\<exists>n. status = EsRejected n reason_code))
      | RaRetryScheduled reason_code retry_at_ms \<Rightarrow>
          rc_durable (set past) (\<lambda>kind status. (\<exists>l n r. kind = EcReconcileNotApplied l n reason_code (Some r)) \<and> (\<exists>n. status = EsPending n retry_at_ms))
      | RaAlreadyReconciled \<Rightarrow> (\<exists>i v c t res. Ev_apply i v c t (Inr res) \<in> set past \<and> ecr_outcome res = EDuplicate)
      | RaSettlementFenced _ \<Rightarrow> True
      | RaSettlementFailed \<Rightarrow> True
      | RaAttemptFailed \<Rightarrow> False
      | _ \<Rightarrow> \<not> changed (set past))"

section \<open>Every event and every report of a task\<close>

lemma changed_simps [simp]:
  "changed {} \<longleftrightarrow> False"
  "changed (insert (Ev_connect q r) past) \<longleftrightarrow> changed past"
  "changed (insert (Ev_cancelled b) past) \<longleftrightarrow> changed past"
  "changed (insert (Ev_now u) past) \<longleftrightarrow> changed past"
  "changed (insert (Ev_policy p d) past) \<longleftrightarrow> changed past"
  "changed (insert (Ev_apply i v c t ans) past) \<longleftrightarrow> True"
  unfolding changed_def by (auto, blast)

lemma rc_facts_mono [simp]:
  "rc_allowed rc prepared authority past \<Longrightarrow> rc_allowed rc prepared authority (insert ev past)"
  "evidence_of past prepared authority outcome \<Longrightarrow> evidence_of (insert ev past) prepared authority outcome"
  by (auto simp: rc_allowed_def evidence_of_def)

lemma rc_event_ok_simps [simp]:
  "rc_event_ok rc prepared authority past (Ev_cancelled b)"
  "rc_event_ok rc prepared authority past (Ev_now u)"
  "rc_event_ok rc prepared authority past (Ev_policy p d)"
  by (simp_all add: rc_event_ok_def)

lemma rc_report_outcome [simp]: "ra_outcome (rc_report prepared outcome) = outcome"
  by (simp add: rc_report_def)

lemma rc_report_ok_unchanged:
  "\<not> changed (set past) \<Longrightarrow> outcome \<in> {RaConnectorUnavailable, RaPolicyUnavailable, RaCancelledBeforeLookup, RaCancelledDuringLookup,
     RaLookupUnavailable, RaInvalidEvidence, RaClockUnavailable} \<union> range RaPolicyDenied \<union> range RaStillUnknown \<Longrightarrow>
   rc_report_ok past (rc_report prepared outcome)"
  by (auto simp: rc_report_ok_def)

lemma rc_report_ok_failed [simp]:
  "rc_report_ok past (rc_report prepared RaSettlementFailed)"
  "rc_report_ok past (rc_report prepared (RaSettlementFenced actual))"
  by (simp_all add: rc_report_ok_def)

text \<open>The command is the one of the evidence, under the uncertain attempt.\<close>

lemma reconciliation_command_answered:
  assumes "reconciliation_command prepared outcome t = Inr (purpose, kind)" and "evidence_of past prepared authority outcome"
  shows "reconciled_as_answered past prepared authority t kind"
  using assms
  by (cases outcome)
    (auto simp: reconciliation_command_def reconciled_as_answered_def is_ok_iff split: if_splits option.splits)

lemma reconciliation_command_ended:
  "reconciliation_command prepared outcome t = Inl ended \<Longrightarrow> ended \<in> {RaInvalidEvidence, RaSettlementFailed}"
  by (auto simp: reconciliation_command_def split: reconciliation_outcome.splits if_splits option.splits)

lemma rc_durable_here:
  "Ev_apply i v c t (Inr res) \<in> past \<Longrightarrow> ecr_outcome res = EApplied \<Longrightarrow> P (ec_kind c) (ef_status (esn_effect (ecr_snapshot res))) \<Longrightarrow>
   rc_durable past P"
  unfolding rc_durable_def by blast

lemma rc_settled_report_ok:
  assumes "reconciliation_command prepared outcome t = Inr (purpose, ec_kind c)" and "Ev_apply i v c t (Inr res) \<in> set past"
  shows "rc_report_ok past (rc_report prepared
     (if ecr_outcome res = EDuplicate then RaAlreadyReconciled
      else rc_report_settlement outcome (ef_status (esn_effect (ecr_snapshot res)))))"
proof (cases "ecr_outcome res")
  case EApplied
  note here = rc_durable_here [OF assms(2) EApplied]
  obtain kind where kind: "ec_kind c = kind" by simp
  from assms(1) EApplied show ?thesis
    unfolding kind
    by (cases outcome; cases "ef_status (esn_effect (ecr_snapshot res))")
      (auto simp: reconciliation_command_def rc_report_ok_def kind intro!: here split: if_splits option.splits)
next
  case EDuplicate
  with assms(2) show ?thesis unfolding rc_report_ok_def by simp blast
qed

lemma rc_settle_along:
  assumes "\<not> changed (set past)" and "rc_allowed rc prepared authority (set past)" and "evidence_of (set past) prepared authority outcome"
  shows "along_worker (rc_event_ok rc prepared authority) rc_report_ok (rc_settle renv cycle_id prepared outcome authority) past"
  unfolding rc_settle_def along_worker.simps
proof (intro allI conjI)
  fix reading
  let ?past = "past @ [Ev_now reading]"
  show "along_worker (rc_event_ok rc prepared authority) rc_report_ok
    (case trusted_now reading of
       Inl _ \<Rightarrow> Return (rc_report prepared RaClockUnavailable)
     | Inr settled_at_ms \<Rightarrow>
         (case reconciliation_command prepared outcome settled_at_ms of
            Inl ended \<Rightarrow> Return (rc_report prepared ended)
          | Inr (purpose, kind) \<Rightarrow>
              (case reconciliation_command_id renv cycle_id prepared purpose outcome authority of
                 Inl _ \<Rightarrow> Return (rc_report prepared RaSettlementFailed)
               | Inr command_id \<Rightarrow>
                   Apply_as (esn_id (pr_snapshot prepared)) (esn_revision (pr_snapshot prepared))
                     \<lparr>ec_id = command_id, ec_kind = kind\<rparr> settled_at_ms (\<lambda>answer.
                   case answer of
                     Inr res \<Rightarrow>
                       Return (rc_report prepared
                         (if ecr_outcome res = EDuplicate then RaAlreadyReconciled
                          else rc_report_settlement outcome (ef_status (esn_effect (ecr_snapshot res)))))
                   | Inl e \<Rightarrow>
                       Return (rc_report prepared
                         (case conflict_revision e of Some actual \<Rightarrow> RaSettlementFenced actual | None \<Rightarrow> RaSettlementFailed)))))) ?past"
  proof (cases "trusted_now reading")
    case (Inr t)
    then have t: "t \<noteq> 0" by (simp add: trusted_now_ok)
    show ?thesis
    proof (cases "reconciliation_command prepared outcome t")
      case (Inl ended)
      with reconciliation_command_ended [OF this] assms(1) show ?thesis by (auto simp: \<open>trusted_now reading = Inr t\<close> intro: rc_report_ok_unchanged)
    next
      case (Inr command)
      obtain purpose kind where command: "command = (purpose, kind)" by (cases command)
      have "reconciled_as_answered (set ?past) prepared authority t kind"
        by (rule reconciliation_command_answered [OF Inr [unfolded command]]) (simp add: assms(3))
      then have ev: "rc_event_ok rc prepared authority ?past
          (Ev_apply (esn_id (pr_snapshot prepared)) (esn_revision (pr_snapshot prepared)) \<lparr>ec_id = command_id, ec_kind = kind\<rparr> t ans)" for command_id ans
        using assms(1,2) t by (simp add: rc_event_ok_def)
      have "rc_report_ok (?past @ [Ev_apply i v \<lparr>ec_id = command_id, ec_kind = kind\<rparr> t (Inr res)])
          (rc_report prepared (if ecr_outcome res = EDuplicate then RaAlreadyReconciled
             else rc_report_settlement outcome (ef_status (esn_effect (ecr_snapshot res)))))" for i v command_id res
        by (rule rc_settled_report_ok [where c = "\<lparr>ec_id = command_id, ec_kind = kind\<rparr>" and i = i and v = v and purpose = purpose and res = res and t = t]) (use Inr command in simp_all)
      with ev show ?thesis
        by (simp add: \<open>trusted_now reading = Inr t\<close> Inr command split: sum.split option.split)
    qed
  qed (use assms(1) in \<open>auto intro: rc_report_ok_unchanged\<close>)
qed simp

lemma rc_lookup_along:
  assumes "\<not> changed (set past)" and "rc_allowed rc prepared authority (set past)"
  shows "along_worker (rc_event_ok rc prepared authority) rc_report_ok (rc_lookup renv cycle_id prepared authority) past"
proof -
  let ?q = "reconciliation_request_of prepared authority"
  have settle: "along_worker (rc_event_ok rc prepared authority) rc_report_ok (rc_settle renv cycle_id prepared outcome authority)
      (past @ [Ev_connect ?q (Aw_answered outcome)])" if "rc_validate_outcome outcome" for outcome
    by (rule rc_settle_along) (use assms that in \<open>auto simp: evidence_of_def\<close>)
  from assms show ?thesis
    by (auto simp: rc_lookup_def rc_event_ok_def intro: rc_report_ok_unchanged settle split: awaited.split reconciliation_outcome.split)
qed

lemma reconcile_prepared_along:
  "along_worker (rc_event_ok rc prepared authority) rc_report_ok (reconcile_prepared renv rc cycle_id prepared authority) []"
proof (cases "rc_resolve (rec_connectors rc) (ef_operation (esn_effect (pr_snapshot prepared)))")
  case (Some registered)
  let ?p = "reconciliation_policy_request_of prepared authority registered"
  have lookup: "along_worker (rc_event_ok rc prepared authority) rc_report_ok (rc_lookup renv cycle_id prepared authority)
      [Ev_cancelled b, Ev_policy ?p (Aw_answered Policy_allow), Ev_cancelled b']" for b b'
    by (rule rc_lookup_along) (auto simp: rc_allowed_def Some)
  show ?thesis
    by (auto simp: reconcile_prepared_def Some intro: rc_report_ok_unchanged lookup split: awaited.split policy_decision.split)
qed (auto simp: reconcile_prepared_def intro: rc_report_ok_unchanged)

section \<open>The ledger takes a reconciliation\<close>

text \<open>A reconciliation is applied only to the uncertain attempt it names.\<close>

lemma reconciled_applied:
  assumes "effect_apply env e c t authority = Inr (e', EApplied)" and "ec_kind c = EcReconcileApplied lease_id attempt receipt"
  shows "(\<exists>r. ef_status e = EsUnknown attempt lease_id r) \<and> ef_status e' = EsApplied attempt receipt"
proof -
  from assms(1) obtain nxt kind where "effect_apply_kind e (ec_kind c) t (actor authority) = Inr (nxt, kind)"
    "ef_status e' = ef_status nxt" by (rule effect_apply_AppliedE)
  with assms(2) show ?thesis by (auto simp: ok_iff validate_unknown_ok)
qed

lemma reconciled_not_applied:
  assumes "effect_apply env e c t authority = Inr (e', EApplied)" and "ec_kind c = EcReconcileNotApplied lease_id attempt reason_code retry"
  shows "(\<exists>r. ef_status e = EsUnknown attempt lease_id r) \<and>
    (case retry of None \<Rightarrow> ef_status e' = EsRejected attempt reason_code
     | Some at_ms \<Rightarrow> (\<exists>n. unat n = Suc (unat attempt) \<and> ef_status e' = EsPending n at_ms))"
proof -
  from assms(1) obtain nxt kind where "effect_apply_kind e (ec_kind c) t (actor authority) = Inr (nxt, kind)"
    "ef_status e' = ef_status nxt" by (rule effect_apply_AppliedE)
  with assms(2) show ?thesis by (auto simp: ok_iff validate_unknown_ok settled_not_applied_ok split: option.splits)
qed

text \<open>The status that an answer stands for, for the attempt it is about and the time of the record.\<close>

fun evidence_status :: "u32 \<Rightarrow> u64 \<Rightarrow> reconciliation_outcome \<Rightarrow> effect_status \<Rightarrow> bool" where
  "evidence_status attempt t (RoApplied receipt) status \<longleftrightarrow> status = EsApplied attempt receipt"
| "evidence_status attempt t (RoNotApplied reason_code None) status \<longleftrightarrow> status = EsRejected attempt reason_code"
| "evidence_status attempt t (RoNotApplied reason_code (Some delay)) status \<longleftrightarrow>
     (\<exists>n at_ms. unat n = Suc (unat attempt) \<and> unat at_ms = unat t + unat delay \<and> status = EsPending n at_ms)"
| "evidence_status attempt t (RoStillUnknown reason_code) status \<longleftrightarrow> False"

lemma reconciled_status:
  assumes "effect_apply env e c t authority' = Inr (e', EApplied)" and "reconciled_as_answered past prepared authority t (ec_kind c)"
  shows "(\<exists>r. ef_status e = EsUnknown (pr_attempt prepared) (pr_lease_id prepared) r) \<and>
    (\<exists>outcome. evidence_of past prepared authority outcome \<and> evidence_status (pr_attempt prepared) t outcome (ef_status e'))"
  using assms(2) unfolding reconciled_as_answered_def
proof (elim disjE exE conjE)
  fix receipt
  assume "ec_kind c = EcReconcileApplied (pr_lease_id prepared) (pr_attempt prepared) receipt" "evidence_of past prepared authority (RoApplied receipt)"
  with reconciled_applied [OF assms(1)] show ?thesis by fastforce
next
  fix reason_code
  assume "ec_kind c = EcReconcileNotApplied (pr_lease_id prepared) (pr_attempt prepared) reason_code None"
    "evidence_of past prepared authority (RoNotApplied reason_code None)"
  with reconciled_not_applied [OF assms(1)] show ?thesis by fastforce
next
  fix reason_code delay retry_at_ms
  assume kind: "ec_kind c = EcReconcileNotApplied (pr_lease_id prepared) (pr_attempt prepared) reason_code (Some retry_at_ms)"
    and evidence: "evidence_of past prepared authority (RoNotApplied reason_code (Some delay))"
    and "checked_add t delay = Some retry_at_ms"
  then have "unat retry_at_ms = unat t + unat delay" by (simp add: checked_add_Some)
  with reconciled_not_applied [OF assms(1) kind] have
    "evidence_status (pr_attempt prepared) t (RoNotApplied reason_code (Some delay)) (ef_status e')" by auto
  with evidence reconciled_not_applied [OF assms(1) kind] show ?thesis by blast
qed

section \<open>The scan\<close>

definition prepared_of :: "effect_snapshot \<Rightarrow> prepared_reconciliation \<Rightarrow> bool" where
  "prepared_of s p \<longleftrightarrow> pr_snapshot p = s \<and> (\<exists>r. ef_status (esn_effect s) = EsUnknown (pr_attempt p) (pr_lease_id p) r)"

lemma prepared_fold:
  assumes "list_all (\<lambda>s. es_status_name (ef_status (esn_effect s)) = ''unknown'') xs"
  shows "\<exists>prepared. try_fold (\<lambda>prepared snapshot. and_then (prepared_try_from snapshot) (\<lambda>p. Inr (prepared @ [p]))) acc xs = Inr (acc @ prepared) \<and>
    list_all2 prepared_of xs prepared"
  using assms
proof (induction xs arbitrary: acc)
  case (Cons s xs)
  then obtain n l r where st: "ef_status (esn_effect s) = EsUnknown n l r" by (cases "ef_status (esn_effect s)") auto
  let ?p = "\<lparr>pr_snapshot = s, pr_attempt = n, pr_lease_id = l\<rparr>"
  from Cons.IH [of "acc @ [?p]"] Cons.prems obtain ps where
    "try_fold (\<lambda>prepared snapshot. and_then (prepared_try_from snapshot) (\<lambda>p. Inr (prepared @ [p]))) (acc @ [?p]) xs = Inr (acc @ ?p # ps)"
    "list_all2 prepared_of xs ps" by auto
  moreover have "prepared_of s ?p" "prepared_try_from s = Inr ?p" by (simp_all add: prepared_of_def prepared_try_from_def st)
  ultimately show ?case by (intro exI [of _ "?p # ps"]) simp
qed simp

lemma list_all2_member: "list_all2 P xs ys \<Longrightarrow> y \<in> set ys \<Longrightarrow> \<exists>x\<in>set xs. P x y"
  by (induction rule: list_all2_induct) auto

lemma unknown_listed:
  assumes "(effect_store_step env)\<^sup>*\<^sup>* effect_state_empty ledger" and "valid_authority authority"
  shows "list_all (\<lambda>s. es_status_name (ef_status (esn_effect s)) = ''unknown'')
    (take n (listed_effects ledger (tenant_id authority) (Some ''unknown'') after))"
  using listed_effects_entry(3) [OF assms(1)] assms(2)
  by (fastforce simp: list_all_iff is_none_or_def valid_authority_def dest: in_set_takeD)

lemma rc_scan_total:
  assumes reach: "(effect_store_step env)\<^sup>*\<^sup>* effect_state_empty ledger" and request: "rc_validate_run_request request authority = Inr ()"
    and config: "reconciler_config_validate (rec_config rc) = Inr ()" and time: "t \<noteq> 0"
  obtains page prepared where "rc_scan env rc ledger request authority (Some t) = Inr (t, page, prepared)"
    "list_all2 prepared_of (take (rg_scan_limit (rec_config rc))
       (listed_effects ledger (tenant_id authority) (Some ''unknown'') (rrq_after request))) prepared"
    "length (epg_effects page) = length prepared"
proof -
  let ?limit = "rg_scan_limit (rec_config rc)"
  let ?xs = "listed_effects ledger (tenant_id authority) (Some ''unknown'') (rrq_after request)"
  have authority: "valid_authority authority" using request by (auto simp: rc_validate_run_request_def ok_iff)
  have "case rrq_after request of None \<Rightarrow> True | Some a \<Rightarrow> ef_validate_identity a = Inr ()"
    using request by (auto simp: rc_validate_run_request_def ok_iff split: option.splits)
  moreover have "1 \<le> ?limit" "?limit \<le> MAX_EFFECT_PAGE"
    using config by (auto simp: reconciler_config_validate_def MAX_SCAN_LIMIT_def MAX_EFFECT_PAGE_def split: if_splits)
  ultimately have list: "ef_list_as ledger (Some (ps_name PsUnknown)) (rrq_after request) ?limit authority = Inr (ef_page_from_candidates ?xs ?limit)"
    using authority by (simp add: ef_list_as_eq ef_validate_list_ok ok_iff ef_validate_status_filter_def)
  note page = effect_pages_validate [OF reach list]
  from prepared_fold [OF unknown_listed [OF reach authority, of ?limit "rrq_after request"], of "[]"] obtain prepared where
    "try_fold (\<lambda>prepared snapshot. and_then (prepared_try_from snapshot) (\<lambda>p. Inr (prepared @ [p]))) [] (take ?limit ?xs) = Inr prepared"
    "list_all2 prepared_of (take ?limit ?xs) prepared" by auto
  with that page list request config time list_all2_lengthD show thesis
    by (fastforce simp: rc_scan_def trusted_now_def ef_validate_application_time_def)
qed

lemma rc_scan_prepared:
  assumes reach: "(effect_store_step env)\<^sup>*\<^sup>* effect_state_empty ledger"
    and scan: "rc_scan env rc ledger request authority reading = Inr (now, page, prepared)" and "p \<in> set prepared"
  shows "bm_get (mes_effects ledger) (store_key (esn_id (pr_snapshot p)) (tenant_id authority)) = Some (pr_snapshot p)"
proof -
  from scan have request: "rc_validate_run_request request authority = Inr ()" "reconciler_config_validate (rec_config rc) = Inr ()"
    "trusted_now reading = Inr now" by (auto simp: rc_scan_def ok_iff)
  then have now: "reading = Some now" "now \<noteq> 0" by (simp_all add: trusted_now_ok)
  have valid: "valid_tenant (tenant_id authority)" using request(1) by (auto simp: rc_validate_run_request_def ok_iff valid_authority_def)
  obtain page' prepared' where "rc_scan env rc ledger request authority (Some now) = Inr (now, page', prepared')"
    and "list_all2 prepared_of (take (rg_scan_limit (rec_config rc))
       (listed_effects ledger (tenant_id authority) (Some ''unknown'') (rrq_after request))) prepared'"
    by (rule rc_scan_total [OF reach request(1,2) now(2)])
  with scan now(1) have "list_all2 prepared_of (take (rg_scan_limit (rec_config rc))
       (listed_effects ledger (tenant_id authority) (Some ''unknown'') (rrq_after request))) prepared" by simp
  from list_all2_member [OF this assms(3)] obtain s where "s \<in> set (take (rg_scan_limit (rec_config rc))
       (listed_effects ledger (tenant_id authority) (Some ''unknown'') (rrq_after request)))" "prepared_of s p" ..
  then have "pr_snapshot p \<in> set (listed_effects ledger (tenant_id authority) (Some ''unknown'') (rrq_after request))"
    by (auto simp: prepared_of_def dest: in_set_takeD)
  with listed_effects_entry(1) [OF reach valid] show ?thesis by blast
qed

section \<open>A concrete reconciler\<close>

definition demo_reconciler :: reconciler where
  "demo_reconciler = \<lparr>rec_connectors = [(''mail'', \<lparr>rr_origin = BuiltIn, rr_descriptor = \<lparr>rd_capability = ''mail'', rd_api_version = 1,
       rd_operations = [''send''], rd_contract = AuthoritativeReadOnly\<rparr>\<rparr>)],
     rec_config = reconciler_config_default\<rparr>"

definition demo_renv :: reconciler_env where
  "demo_renv = \<lparr>re_descriptor = (\<lambda>_. ([''d''], True)), re_outcome = (\<lambda>_. ([''o''], True)), re_identity = (\<lambda>_. ([''i''], True)),
     re_sha256 = (\<lambda>_. replicate 32 CHR 0x00)\<rparr>"

definition demo_rc_request :: reconciler_run_request where
  "demo_rc_request = \<lparr>rrq_cycle_id = ''e'', rrq_after = None\<rparr>"

definition demo_uncertain :: prepared_reconciliation where
  "demo_uncertain = \<lparr>pr_snapshot = demo_entry 3 demo_unknown, pr_attempt = 1, pr_lease_id = ''l1''\<rparr>"

definition demo_reconcile_id :: string where
  "demo_reconcile_id = ''reconciler-settle-'' @ lower_hex (replicate 32 CHR 0x00)"

definition demo_evidence :: reconciliation_outcome where
  "demo_evidence = RoNotApplied ''reason'' (Some 900)"

definition demo_reconciliation :: effect_command where
  "demo_reconciliation = \<lparr>ec_id = demo_reconcile_id, ec_kind = EcReconcileNotApplied ''l1'' 1 ''reason'' (Some 3000)\<rparr>"

definition demo_reconciled :: effect where
  "demo_reconciled = demo_unknown\<lparr>ef_status := EsPending 2 3000,
     ef_transitions := ef_transitions demo_unknown @
       [demo_effect_event 4 demo_reconcile_id (CHR ''N'' # demo_reconcile_id) 2100 (EtNotApplied ''l1'' 1 ''reason'' (Some 3000) True)]\<rparr>"

lemma demo_reconcile_ids [simp]:
  "ef_validate_identity demo_reconcile_id = Inr ()" "length demo_reconcile_id = 82"
  "demo_reconcile_id \<noteq> ''create''" "''create'' \<noteq> demo_reconcile_id" "demo_reconcile_id \<noteq> ''take''" "''take'' \<noteq> demo_reconcile_id"
  "demo_reconcile_id \<noteq> ''expire''" "''expire'' \<noteq> demo_reconcile_id"
  by (simp_all add: demo_reconcile_id_def prefixed_digest_identity str_bytes_def del: append_Cons append_Nil)

lemma demo_reconciliation_applied:
  "effect_apply demo_effect_env demo_unknown demo_reconciliation 2100 local_process = Inr (demo_reconciled, EApplied)"
  by (simp add: demo_reconciliation_def demo_reconciled_def demo_effect_defs effect_eval)

lemma demo_commands_new:
  "effect_recognizes_command demo_effect_env demo_taken demo_expire local_process = Inr False"
  "effect_recognizes_command demo_effect_env demo_unknown demo_reconciliation local_process = Inr False"
  using demo_expire_applied demo_reconciliation_applied by (auto elim: effect_apply_AppliedE)

lemma demo_ledger_expired:
  "ef_apply_as demo_effect_env (demo_ledger 2 demo_taken) ''e'' 2 demo_expire 2006 local_process =
     Inr (demo_ledger 3 demo_unknown, \<lparr>ecr_snapshot = demo_entry 3 demo_unknown, ecr_outcome = EApplied\<rparr>)"
  by (simp add: effect_store_eval demo_commands_new demo_expire_applied checked_add_def)

lemma demo_ledger_reconciled:
  "ef_apply_as demo_effect_env (demo_ledger 3 demo_unknown) ''e'' 3 demo_reconciliation 2100 local_process =
     Inr (demo_ledger 4 demo_reconciled, \<lparr>ecr_snapshot = demo_entry 4 demo_reconciled, ecr_outcome = EApplied\<rparr>)"
  by (simp add: effect_store_eval demo_commands_new demo_reconciliation_applied checked_add_def)

lemma demo_ledger_unknown: "(effect_store_step demo_effect_env)\<^sup>*\<^sup>* effect_state_empty (demo_ledger 3 demo_unknown)"
  using demo_ledger_reachable(2) by (rule rtranclp.rtrancl_into_rtrancl) (rule effect_changed [OF demo_ledger_expired])

lemma demo_reconciler_sel [simp]:
  "rec_config demo_reconciler = reconciler_config_default" "rg_scan_limit reconciler_config_default = 64"
  "rg_max_concurrency reconciler_config_default = 8" "reconciler_config_validate reconciler_config_default = Inr ()"
  by (simp_all add: demo_reconciler_def reconciler_config_default_def reconciler_config_validate_def MAX_SCAN_LIMIT_def MAX_CONCURRENCY_def
      RC_MIN_POLICY_TIMEOUT_MS_def RC_MAX_POLICY_TIMEOUT_MS_def MIN_LOOKUP_TIMEOUT_MS_def MAX_LOOKUP_TIMEOUT_MS_def)

lemma demo_uncertain_sel [simp]:
  "pr_snapshot demo_uncertain = demo_entry 3 demo_unknown" "pr_attempt demo_uncertain = 1" "pr_lease_id demo_uncertain = ''l1''"
  "esn_id (demo_entry n e) = ''e''" "esn_revision (demo_entry n e) = n"
  "ef_operation (esn_effect (demo_entry n demo_unknown)) = demo_operation"
  "ef_status (esn_effect (demo_entry n demo_unknown)) = EsUnknown 1 ''l1'' ''lease.expired''"
  "ef_status (esn_effect (demo_entry n demo_reconciled)) = EsPending 2 3000"
  by (simp_all add: demo_uncertain_def demo_entry_def demo_unknown_def demo_taken_def demo_pending_def demo_reconciled_def)

lemma demo_rc_request_ok [simp]: "rc_validate_run_request demo_rc_request local_process = Inr ()" "rrq_cycle_id demo_rc_request = ''e''"
  by (simp_all add: rc_validate_run_request_def demo_rc_request_def ok_iff flip: ef_validate_authority_ok)

definition demo_unknown_page :: effect_page where
  "demo_unknown_page = \<lparr>epg_effects = [demo_entry 3 demo_unknown], epg_next_cursor = Some ''e'', epg_has_more = False\<rparr>"

lemma demo_rc_scan:
  "rc_scan demo_effect_env demo_reconciler (demo_ledger 3 demo_unknown) demo_rc_request local_process (Some 2050) =
     Inr (2050, demo_unknown_page, [demo_uncertain])"
proof -
  have list: "ef_list_as (demo_ledger 3 demo_unknown) (Some ''unknown'') None 64 local_process = Inr demo_unknown_page"
    by (simp add: ef_list_as_def ef_validate_list_def ef_validate_status_filter_def MAX_EFFECT_PAGE_def demo_unknown_page_def
        ef_page_from_candidates_def usize_saturating_add_def effect_store_eval demo_unknown_def)
  have "validate_effect_page demo_effect_env demo_unknown_page None 64 local_process PsUnknown = Inr ()"
    using effect_pages_validate [OF demo_ledger_unknown, of PsUnknown None 64 local_process demo_unknown_page] list by simp
  moreover have "rrq_after demo_rc_request = None" "epg_effects demo_unknown_page = [demo_entry 3 demo_unknown]"
    by (simp_all add: demo_rc_request_def demo_unknown_page_def)
  ultimately show ?thesis
    using list by (simp add: rc_scan_def trusted_now_def ef_validate_application_time_def prepared_try_from_def demo_uncertain_def)
qed

definition demo_before_record :: "reconciler_event list" where
  "demo_before_record = [Ev_cancelled False,
     Ev_policy (reconciliation_policy_request_of demo_uncertain local_process (snd (hd (rec_connectors demo_reconciler)))) (Aw_answered Policy_allow),
     Ev_cancelled False, Ev_connect (reconciliation_request_of demo_uncertain local_process) (Aw_answered demo_evidence), Ev_now (Some 2100)]"

definition demo_record :: reconciler_event where
  "demo_record = Ev_apply ''e'' 3 demo_reconciliation 2100 (Inr \<lparr>ecr_snapshot = demo_entry 4 demo_reconciled, ecr_outcome = EApplied\<rparr>)"

lemma demo_rc_run:
  "run_worker (reconcile_prepared demo_renv demo_reconciler ''e'' demo_uncertain local_process) (demo_before_record @ [demo_record]) =
     Some (Return (rc_report demo_uncertain (RaRetryScheduled ''reason'' 3000)))"
proof -
  have "rc_resolve (rec_connectors demo_reconciler) demo_operation = Some (snd (hd (rec_connectors demo_reconciler)))"
    by (simp add: rc_resolve_def demo_reconciler_def demo_operation_def bm_get_def)
  moreover have "reconciliation_command_id demo_renv ''e'' demo_uncertain purpose outcome local_process = Inr demo_reconcile_id" for purpose outcome
    by (simp add: reconciliation_command_id_def demo_renv_def to_vec_def hex_sha256_def demo_reconcile_id_def)
  moreover have "rc_validate_outcome demo_evidence" by (simp add: demo_evidence_def RC_MAX_RETRY_AFTER_MS_def is_none_or_def)
  ultimately show ?thesis
    by (simp add: demo_before_record_def demo_record_def reconcile_prepared_def rc_lookup_def rc_settle_def demo_evidence_def
        trusted_now_def ef_validate_application_time_def reconciliation_command_def demo_reconciliation_def checked_add_def)
qed

section \<open>Properties\<close>

text \<open>
  C14: A reconciler records only what an authoritative lookup proved. A command is sent only after a registered Connector was found
  for the operation, the Policy allowed the lookup and the Connector gave a valid answer to this very request; the command names the uncertain attempt
  and its lease, carries exactly that answer, and is the only command of its task. When the ledger takes it, however many
  steps of others lie between the scan and the command, the Effect still had the history the scan saw and its uncertain attempt
  was still open, and its new status is the one the answer stands for: applied with the receipt, rejected with the reason, or pending
  for the next attempt at the time of the record plus the delay.
\<close>

theorem reconciler_records_evidence:
  assumes reach: "(effect_store_step env)\<^sup>*\<^sup>* effect_state_empty scanned"
    and scan: "rc_scan env rc scanned request authority reading = Inr (now, page, prepared)" and p: "p \<in> set prepared"
    and run: "run_worker (reconcile_prepared renv rc (rrq_cycle_id request) p authority) (past @ Ev_apply i v c t ans # rest) = Some w"
    and later: "(effect_store_step env)\<^sup>*\<^sup>* scanned ledger"
    and taken: "ef_apply_as env ledger i v c t authority = Inr (ledger', res)" "ecr_outcome res = EApplied"
  shows "rc_allowed rc p authority (set past) \<and> \<not> changed (set past) \<and>
    (\<exists>current. bm_get (mes_effects ledger) (store_key (esn_id (pr_snapshot p)) (tenant_id authority)) = Some current \<and>
       ef_transitions (esn_effect current) = ef_transitions (esn_effect (pr_snapshot p)) \<and>
       (\<exists>r. ef_status (esn_effect current) = EsUnknown (pr_attempt p) (pr_lease_id p) r)) \<and>
    (\<exists>outcome. Ev_connect (reconciliation_request_of p authority) (Aw_answered outcome) \<in> set past \<and> rc_validate_outcome outcome \<and>
       evidence_status (pr_attempt p) t outcome (ef_status (esn_effect (ecr_snapshot res))))"
proof -
  let ?key = "store_key (esn_id (pr_snapshot p)) (tenant_id authority)"
  have "rc_event_ok rc p authority past (Ev_apply i v c t ans)" by (rule along_worker_event [OF reconcile_prepared_along run])
  then have ev: "rc_allowed rc p authority (set past)" "\<not> changed (set past)" "i = esn_id (pr_snapshot p)" "v = esn_revision (pr_snapshot p)"
    "reconciled_as_answered (set past) p authority t (ec_kind c)" by (auto simp: rc_event_ok_def)
  from taken(2) obtain current e revision where
    current: "bm_get (mes_effects ledger) ?key = Some current" "esn_revision current = v"
      "effect_apply env (esn_effect current) c t authority = Inr (e, EApplied)" "ecr_snapshot res = grown_effect i current revision e"
    unfolding ev(3) by (cases rule: ef_apply_as_okE [OF taken(1) [unfolded ev(3)]]) auto
  note held = rc_scan_prepared [OF reach scan p]
  from effect_steps_extend [OF later held] current(1) have "effect_evolves (pr_snapshot p) current" by auto
  moreover have "length (ef_transitions (esn_effect current)) = unat v" "length (ef_transitions (esn_effect (pr_snapshot p))) = unat v"
    using effect_store_entries [OF rtranclp_trans [OF reach later] current(1)] effect_store_entries [OF reach held] current(2) ev(4)
    by (simp_all add: effect_entry_ok_def)
  ultimately have "ef_transitions (esn_effect current) = ef_transitions (esn_effect (pr_snapshot p))" by (auto simp: effect_evolves_def)
  moreover have "esn_effect (ecr_snapshot res) = e" by (simp add: current(4))
  moreover note reconciled_status [OF current(3) ev(5)]
  ultimately show ?thesis using ev(1,2) current(1) unfolding evidence_of_def by blast
qed

theorem reconciler_records_evidence_witness:
  "\<exists>outcome. Ev_connect (reconciliation_request_of demo_uncertain local_process) (Aw_answered outcome) \<in> set demo_before_record \<and> rc_validate_outcome outcome \<and>
     evidence_status 1 2100 outcome (EsPending 2 3000)"
proof -
  have "run_worker (reconcile_prepared demo_renv demo_reconciler (rrq_cycle_id demo_rc_request) demo_uncertain local_process)
      (demo_before_record @ Ev_apply ''e'' 3 demo_reconciliation 2100
         (Inr \<lparr>ecr_snapshot = demo_entry 4 demo_reconciled, ecr_outcome = EApplied\<rparr>) # []) =
    Some (Return (rc_report demo_uncertain (RaRetryScheduled ''reason'' 3000)))"
    using demo_rc_run by (simp add: demo_record_def)
  from reconciler_records_evidence [OF demo_ledger_unknown demo_rc_scan _ this rtranclp.rtrancl_refl demo_ledger_reconciled] show ?thesis by simp
qed

text \<open>
  C15: The report of a reconciliation is true. Applied, rejected and a scheduled retry are reported only when the ledger confirmed that it
  had just taken the corresponding command and holds the corresponding status; already reconciled only when the ledger
  recognised the command; and a task that reports an unavailable Connector or Policy, a denial, a cancellation, a failed or
  invalid lookup, an outcome that is still unknown or a missing clock has sent no command at all. A task that returned never reports itself as died.
\<close>

theorem reconciler_report_true:
  assumes "run_worker (reconcile_prepared renv rc cycle_id prepared authority) evs = Some (Return a)"
  shows "rc_report_ok evs a"
  by (rule along_worker_return [OF reconcile_prepared_along assms])

theorem reconciler_report_true_witness:
  "rc_durable (set (demo_before_record @ [demo_record]))
     (\<lambda>kind status. (\<exists>l n r. kind = EcReconcileNotApplied l n ''reason'' (Some r)) \<and> (\<exists>n. status = EsPending n 3000))"
  using reconciler_report_true [OF demo_rc_run] by (simp add: rc_report_ok_def)

text \<open>
  A reconciliation sweep is exact. On a ledger the operations built, a sweep with a valid request, configuration and clock always
  reports; its attempts are, in the order of the page and whatever the order in which the tasks end, the result of one task for
  every unknown Effect of the page, under the attempt and the lease that are uncertain, the fallback standing for a task that
  died; and at no time are more tasks running than configured.
\<close>

theorem reconciler_sweep_exact:
  assumes reach: "(effect_store_step env)\<^sup>*\<^sup>* effect_state_empty ledger" and request: "rc_validate_run_request request authority = Inr ()"
    and config: "reconciler_config_validate (rec_config rc) = Inr ()" and time: "t \<noteq> 0"
  shows "\<exists>report prepared. rc_run_once_as env rc ledger request authority (Some t) outcome choice = Inr report \<and>
    list_all2 prepared_of (take (rg_scan_limit (rec_config rc))
      (listed_effects ledger (tenant_id authority) (Some ''unknown'') (rrq_after request))) prepared \<and>
    rrp_scanned report = length prepared \<and>
    rrp_attempts report =
      map (\<lambda>(i, p). case outcome i of Some a \<Rightarrow> a | None \<Rightarrow> rc_report p RaAttemptFailed) (List.enumerate 0 prepared) \<and>
    length (po_running (pool_after outcome (\<lambda>p. rc_report p RaAttemptFailed) choices
      (pool_start (rg_max_concurrency (rec_config rc)) prepared))) \<le> rg_max_concurrency (rec_config rc)"
proof -
  obtain page prepared where scan: "rc_scan env rc ledger request authority (Some t) = Inr (t, page, prepared)"
    and prepared: "list_all2 prepared_of (take (rg_scan_limit (rec_config rc))
       (listed_effects ledger (tenant_id authority) (Some ''unknown'') (rrq_after request))) prepared"
    and len: "length (epg_effects page) = length prepared"
    by (rule rc_scan_total [OF reach request config time])
  have "rg_max_concurrency (rec_config rc) > 0" using config by (auto simp: reconciler_config_validate_def split: if_splits)
  note attempts = pool_attempts_eq [OF this, of outcome "\<lambda>p. rc_report p RaAttemptFailed" choice prepared]
  have "length (po_running (pool_after outcome (\<lambda>p. rc_report p RaAttemptFailed) choices
      (pool_start (rg_max_concurrency (rec_config rc)) prepared))) \<le> rg_max_concurrency (rec_config rc)"
    by (rule order_trans [OF pool_running_bound]) (simp add: pool_start_def Let_def)
  with scan prepared len attempts show ?thesis by (auto simp: rc_run_once_as_def pool_result_def split_def comp_def)
qed

theorem reconciler_sweep_exact_witness:
  "\<exists>report. rc_run_once_as demo_effect_env demo_reconciler (demo_ledger 3 demo_unknown) demo_rc_request local_process (Some 2050)
     (\<lambda>_. None) id = Inr report \<and> rrp_attempts report = [rc_report demo_uncertain RaAttemptFailed]"
proof -
  have config: "reconciler_config_validate (rec_config demo_reconciler) = Inr ()" and time: "(2050 :: u64) \<noteq> 0" by simp_all
  from reconciler_sweep_exact [OF demo_ledger_unknown demo_rc_request_ok(1) config time, of "\<lambda>_. None" id] demo_rc_scan show ?thesis
    by (auto simp: rc_run_once_as_def pool_attempts_eq pool_result_def)
qed

end
