(* ===== verification/Skill.thy ===== *)
theory Skill
  imports Kernel Json
begin

text \<open>
  \<^verbatim>\<open>skill/mod.rs\<close>: Skill packages with their digests, the live trust store of publishers and transparency logs, the registry, and the
  resolution of exact dependency graphs.

  \<^item> Versions are values of the \<open>semver\<close> crate: a linear order \<open>'v\<close> with a printer. \<open>Ed25519\<close>, the encoder and SHA-256 are the other
    fields of \<open>skill_env\<close>.
  \<^item> A \<open>SkillTrustStore\<close> is a shared pointer. Its states live in a heap, and a registered Skill keeps the address of the
    store it was verified with, so that a revocation reaches it. The lock of the store is never poisoned, because nothing panics
    while it is held.
\<close>

section \<open>Packages\<close>

definition SKILL_API_VERSION :: string where "SKILL_API_VERSION = ''1''"
definition MAX_DESCRIPTION_BYTES :: usize where "MAX_DESCRIPTION_BYTES = 4096"
definition MAX_INSTRUCTIONS_BYTES :: usize where "MAX_INSTRUCTIONS_BYTES = 1048576"
definition MAX_RESOURCE_BYTES :: usize where "MAX_RESOURCE_BYTES = 1048576"
definition MAX_RESOURCES :: usize where "MAX_RESOURCES = 256"
definition MAX_SKILL_DEPENDENCIES :: usize where "MAX_SKILL_DEPENDENCIES = 256"
definition MAX_SKILL_REQUIRED_TOOLS :: usize where "MAX_SKILL_REQUIRED_TOOLS = 256"
definition MAX_SKILL_PACKAGE_CONTENT_BYTES :: usize where "MAX_SKILL_PACKAGE_CONTENT_BYTES = 2097152"
definition MAX_SKILL_CANONICAL_BYTES :: usize where "MAX_SKILL_CANONICAL_BYTES = 16777216"
definition MAX_SKILL_REGISTRY_CONTENT_BYTES :: usize where "MAX_SKILL_REGISTRY_CONTENT_BYTES = 67108864"
definition MAX_ESTIMATED_TOKENS :: usize where "MAX_ESTIMATED_TOKENS = 262144"
definition MAX_SKILL_TRUST_ANCHORS :: usize where "MAX_SKILL_TRUST_ANCHORS = 4096"
definition MAX_TRANSPARENCY_ENTRY_ID_BYTES :: usize where "MAX_TRANSPARENCY_ENTRY_ID_BYTES = 256"
definition MAX_TRANSPARENCY_CLOCK_SKEW_MS :: u64 where "MAX_TRANSPARENCY_CLOCK_SKEW_MS = 300000"
definition SKILL_SIGNATURE_DOMAIN :: bytes where "SKILL_SIGNATURE_DOMAIN = ''y-harness-skill-v1'' @ [CHR 0x00]"
definition SKILL_TRANSPARENCY_DOMAIN :: bytes where "SKILL_TRANSPARENCY_DOMAIN = ''y-harness-skill-transparency-v1'' @ [CHR 0x00]"

text \<open>\<open>SkillId\<close> is ordered by its name and then its version, as its derived \<open>Ord\<close> does.\<close>

type_synonym 'v skill_id = "string \<times> 'v"

record 'v skill_dependency =
  sd_name :: string
  sd_version :: 'v

definition dependency_id :: "'v skill_dependency \<Rightarrow> 'v skill_id" where
  "dependency_id dependency = (sd_name dependency, sd_version dependency)"

text \<open>\<open>required_tools\<close> is a \<open>BTreeSet\<close>: its elements in order.\<close>

record 'v skill_manifest =
  sm_api_version :: string
  sm_name :: string
  sm_version :: 'v
  sm_description :: string
  sm_estimated_tokens :: usize
  sm_dependencies :: "'v skill_dependency list"
  sm_required_tools :: "string list"

record 'v skill_package =
  sp_manifest :: "'v skill_manifest"
  sp_instructions :: string
  sp_resources :: "(string, string) btree_map"
  sp_content_sha256 :: string

record skill_signature =
  sg_key_id :: string
  sg_ed25519 :: bytes

datatype transparency_requirement = Tr_optional | Tr_required

record publisher_policy =
  pp_not_before_ms :: "u64 option"
  pp_not_after_ms :: "u64 option"
  pp_transparency :: transparency_requirement

record transparency_receipt =
  rt_log_id :: string
  rt_entry_id :: string
  rt_integrated_at_ms :: u64
  rt_ed25519 :: bytes

record 'v signed_skill_package =
  ss_package :: "'v skill_package"
  ss_signature :: skill_signature
  ss_transparency :: "transparency_receipt option"

record key_revocation =
  kr_revoked_at_ms :: u64
  kr_reason_code :: string

record trusted_publisher =
  tp_key :: bytes
  tp_policy :: publisher_policy
  tp_revocation :: "key_revocation option"

record trusted_log =
  lg_key :: bytes
  lg_revocation :: "key_revocation option"

record skill_trust_state =
  tst_publishers :: "(string, trusted_publisher) btree_map"
  tst_logs :: "(string, trusted_log) btree_map"

type_synonym trust_heap = "nat \<Rightarrow> skill_trust_state"

record 'v digest_material =
  dm_manifest :: "'v skill_manifest"
  dm_instructions :: string
  dm_resources :: "(string, string) btree_map"

record transparency_material =
  tm_log_id :: string
  tm_entry_id :: string
  tm_integrated_at_ms :: u64
  tm_content_sha256 :: string
  tm_publisher_key_id :: string
  tm_publisher_signature :: bytes

record 'v skill_env =
  se_version_string :: "'v \<Rightarrow> string"
  se_digest :: "'v digest_material serializer"
  se_receipt :: "transparency_material serializer"
  se_sha256 :: "bytes \<Rightarrow> bytes"
  se_key_valid :: "bytes \<Rightarrow> bool"
  se_key_is_weak :: "bytes \<Rightarrow> bool"
  se_verify_strict :: "bytes \<Rightarrow> bytes \<Rightarrow> bytes \<Rightarrow> bool"

definition sk_err :: "skill_fault \<Rightarrow> 'a result" where
  "sk_err f = Inl (Skill f)"

definition package_id :: "'v skill_package \<Rightarrow> 'v skill_id" where
  "package_id package = (sm_name (sp_manifest package), sm_version (sp_manifest package))"

section \<open>Validation of a package\<close>

definition sk_validate_bounded_text :: "string \<Rightarrow> usize \<Rightarrow> unit result" where
  "sk_validate_bounded_text value maximum =
     (if trim_is_empty value then sk_err S_text_empty
      else if length value > maximum then sk_err S_text_too_long
      else Inr ())"

text \<open>\<open>path.split('/')\<close>.\<close>

fun split_slash :: "string \<Rightarrow> string list" where
  "split_slash [] = [[]]"
| "split_slash (c # cs) =
     (if c = CHR ''/'' then [] # split_slash cs
      else (case split_slash cs of [] \<Rightarrow> [[c]] | w # ws \<Rightarrow> (c # w) # ws))"

definition validate_resource_path :: "string \<Rightarrow> unit result" where
  "validate_resource_path path =
     (if path = [] \<or> CHR 0x5C \<in> set path \<or>
        list_ex (\<lambda>component. component = [] \<or> component = ''.'' \<or> component = ''..'') (split_slash path)
      then sk_err (S_resource_path path) else Inr ())"

definition add_bytes :: "usize \<Rightarrow> usize \<Rightarrow> usize result" where
  "add_bytes sofar n = ok_or (Skill S_byte_overflow) (usize_checked_add sofar n)"

definition validate_package_content_envelope ::
  "'v skill_env \<Rightarrow> 'v skill_manifest \<Rightarrow> string \<Rightarrow> (string, string) btree_map \<Rightarrow> usize result" where
  "validate_package_content_envelope env manifest instructions resources =
     (if length instructions > MAX_INSTRUCTIONS_BYTES \<or> length (sm_description manifest) > MAX_DESCRIPTION_BYTES \<or>
        length (sm_dependencies manifest) > MAX_SKILL_DEPENDENCIES \<or> length (sm_required_tools manifest) > MAX_SKILL_REQUIRED_TOOLS \<or>
        length resources > MAX_RESOURCES \<or> list_ex (\<lambda>content. length content > MAX_RESOURCE_BYTES) (bm_values resources)
      then sk_err S_envelope
      else
      and_then (try_fold add_bytes (length instructions) [length (sm_api_version manifest), length (sm_name manifest),
        length (se_version_string env (sm_version manifest)), length (sm_description manifest)]) (\<lambda>total.
      and_then (try_fold (\<lambda>total dependency. and_then (add_bytes total (length (sd_name dependency))) (\<lambda>total.
        add_bytes total (length (se_version_string env (sd_version dependency))))) total (sm_dependencies manifest)) (\<lambda>total.
      and_then (try_fold (\<lambda>total tool. add_bytes total (length tool)) total (sm_required_tools manifest)) (\<lambda>total.
      and_then (try_fold (\<lambda>total (path, content). and_then (add_bytes total (length path)) (\<lambda>total.
        add_bytes total (length content))) total resources) (\<lambda>total.
      if total > MAX_SKILL_PACKAGE_CONTENT_BYTES then sk_err S_package_too_large else Inr total)))))"

definition computed_sha256 :: "'v skill_env \<Rightarrow> 'v skill_package \<Rightarrow> string result" where
  "computed_sha256 env package =
     and_then (validate_package_content_envelope env (sp_manifest package) (sp_instructions package) (sp_resources package)) (\<lambda>_.
     and_then (ok_or (Skill S_digest_encoding) (to_vec (se_digest env)
       \<lparr>dm_manifest = sp_manifest package, dm_instructions = sp_instructions package, dm_resources = sp_resources package\<rparr>)) (\<lambda>b.
     if length b > MAX_SKILL_CANONICAL_BYTES then sk_err S_canonical_too_large
     else Inr (lower_hex (se_sha256 env b))))"

definition validate_dependency ::
  "('v::linorder) skill_id option \<Rightarrow> 'v skill_dependency \<Rightarrow> 'v skill_id option result" where
  "validate_dependency previous dependency =
     and_then (validate_capability_name (sd_name dependency)) (\<lambda>_.
     if (case previous of None \<Rightarrow> False | Some p \<Rightarrow> p \<ge> dependency_id dependency) then sk_err S_dependencies_unsorted
     else Inr (Some (dependency_id dependency)))"

definition validate_resource :: "string \<times> string \<Rightarrow> unit result" where
  "validate_resource = (\<lambda>(path, content).
     and_then (validate_resource_path path) (\<lambda>_.
     if length content > MAX_RESOURCE_BYTES then sk_err (S_resource_too_long path) else Inr ()))"

definition validate_package :: "('v::linorder) skill_env \<Rightarrow> 'v skill_package \<Rightarrow> unit result" where
  "validate_package env package =
     (let manifest = sp_manifest package in
     if sm_api_version manifest \<noteq> SKILL_API_VERSION then sk_err S_api_version
     else
     and_then (validate_capability_name (sm_name manifest)) (\<lambda>_.
     and_then (sk_validate_bounded_text (sm_description manifest) MAX_DESCRIPTION_BYTES) (\<lambda>_.
     and_then (sk_validate_bounded_text (sp_instructions package) MAX_INSTRUCTIONS_BYTES) (\<lambda>_.
     if sm_estimated_tokens manifest = 0 \<or> sm_estimated_tokens manifest > MAX_ESTIMATED_TOKENS then sk_err S_estimated_tokens
     else if length (sm_dependencies manifest) > MAX_SKILL_DEPENDENCIES then sk_err S_too_many_dependencies
     else if length (sm_required_tools manifest) > MAX_SKILL_REQUIRED_TOOLS then sk_err S_too_many_tools
     else
     and_then (try_fold validate_dependency None (sm_dependencies manifest)) (\<lambda>_.
     and_then (for_each validate_capability_name (sm_required_tools manifest)) (\<lambda>_.
     if length (sp_resources package) > MAX_RESOURCES then sk_err S_too_many_resources
     else
     and_then (for_each validate_resource (sp_resources package)) (\<lambda>_.
     if \<not> is_lower_sha256 (sp_content_sha256 package) then sk_err S_digest_shape
     else
     and_then (computed_sha256 env package) (\<lambda>computed.
     if computed \<noteq> sp_content_sha256 package then sk_err S_digest_mismatch else Inr ()))))))))"

definition seal :: "('v::linorder) skill_env \<Rightarrow> 'v skill_manifest \<Rightarrow> string \<Rightarrow> (string, string) btree_map \<Rightarrow> 'v skill_package result" where
  "seal env manifest instructions resources =
     (let package = \<lparr>sp_manifest = manifest, sp_instructions = instructions, sp_resources = resources, sp_content_sha256 = []\<rparr> in
     and_then (computed_sha256 env package) (\<lambda>digest.
     let package = package\<lparr>sp_content_sha256 := digest\<rparr> in
     and_then (validate_package env package) (\<lambda>_. Inr package)))"

section \<open>Trust anchors\<close>

definition skill_signing_bytes :: "'v skill_package \<Rightarrow> bytes" where
  "skill_signing_bytes package = SKILL_SIGNATURE_DOMAIN @ sp_content_sha256 package"

definition publisher_signing_bytes :: "('v::linorder) skill_env \<Rightarrow> 'v skill_package \<Rightarrow> bytes result" where
  "publisher_signing_bytes env package = and_then (validate_package env package) (\<lambda>_. Inr (skill_signing_bytes package))"

definition transparency_signing_bytes :: "'v skill_env \<Rightarrow> 'v signed_skill_package \<Rightarrow> bytes result" where
  "transparency_signing_bytes env signed_pkg =
     and_then (ok_or (Skill S_no_receipt) (ss_transparency signed_pkg)) (\<lambda>receipt.
     and_then (ok_or (Skill S_receipt_encoding) (to_vec (se_receipt env)
       \<lparr>tm_log_id = rt_log_id receipt, tm_entry_id = rt_entry_id receipt, tm_integrated_at_ms = rt_integrated_at_ms receipt,
        tm_content_sha256 = sp_content_sha256 (ss_package signed_pkg), tm_publisher_key_id = sg_key_id (ss_signature signed_pkg),
        tm_publisher_signature = sg_ed25519 (ss_signature signed_pkg)\<rparr>)) (\<lambda>encoded.
     Inr (SKILL_TRANSPARENCY_DOMAIN @ encoded)))"

definition validate_transparency_receipt_shape :: "transparency_receipt \<Rightarrow> unit result" where
  "validate_transparency_receipt_shape receipt =
     and_then (validate_capability_name (rt_log_id receipt)) (\<lambda>_.
     if rt_entry_id receipt = [] \<or> length (rt_entry_id receipt) > MAX_TRANSPARENCY_ENTRY_ID_BYTES \<or>
       \<not> list_all (\<lambda>b. is_ascii_alphanumeric b \<or> b = 46 \<or> b = 95 \<or> b = 45) (str_bytes (rt_entry_id receipt))
     then sk_err S_entry_id
     else if rt_integrated_at_ms receipt = 0 then sk_err S_integration_time
     else Inr ())"

definition signed_transparency_bytes :: "('v::linorder) skill_env \<Rightarrow> 'v signed_skill_package \<Rightarrow> bytes result" where
  "signed_transparency_bytes env signed_pkg =
     and_then (validate_package env (ss_package signed_pkg)) (\<lambda>_.
     and_then (validate_capability_name (sg_key_id (ss_signature signed_pkg))) (\<lambda>_.
     and_then (ok_or (Skill S_no_receipt) (ss_transparency signed_pkg)) (\<lambda>receipt.
     and_then (validate_transparency_receipt_shape receipt) (\<lambda>_.
     transparency_signing_bytes env signed_pkg))))"

definition u64_saturating_add :: "u64 \<Rightarrow> u64 \<Rightarrow> u64" where
  "u64_saturating_add a b = (case checked_add a b of Some c \<Rightarrow> c | None \<Rightarrow> - 1)"

definition validate_transparency_receipt :: "transparency_receipt \<Rightarrow> u64 \<Rightarrow> unit result" where
  "validate_transparency_receipt receipt observed_at_ms =
     and_then (validate_transparency_receipt_shape receipt) (\<lambda>_.
     if rt_integrated_at_ms receipt > u64_saturating_add observed_at_ms MAX_TRANSPARENCY_CLOCK_SKEW_MS
     then sk_err S_integration_future else Inr ())"

definition validate_publisher_policy :: "publisher_policy \<Rightarrow> unit result" where
  "validate_publisher_policy policy =
     (if pp_not_after_ms policy = Some 0 \<or>
        (case (pp_not_before_ms policy, pp_not_after_ms policy) of
           (Some not_before, Some not_after) \<Rightarrow> not_before \<ge> not_after | _ \<Rightarrow> False)
      then sk_err S_validity_window else Inr ())"

definition validate_verifying_key :: "'v skill_env \<Rightarrow> string \<Rightarrow> bytes \<Rightarrow> bytes result" where
  "validate_verifying_key env i public_key =
     (if \<not> se_key_valid env public_key then sk_err (S_key_invalid i)
      else if se_key_is_weak env public_key then sk_err (S_key_weak i)
      else Inr public_key)"

definition validate_revocation :: "u64 \<Rightarrow> string \<Rightarrow> key_revocation result" where
  "validate_revocation revoked_at_ms reason_code =
     (if revoked_at_ms = 0 then sk_err S_revocation_time
      else
      and_then (validate_capability_name reason_code) (\<lambda>_.
      Inr \<lparr>kr_revoked_at_ms = revoked_at_ms, kr_reason_code = reason_code\<rparr>))"

fun install_revocation :: "key_revocation option \<Rightarrow> key_revocation \<Rightarrow> string \<Rightarrow> key_revocation option result" where
  "install_revocation (Some existing) revocation i =
     (if existing = revocation then Inr (Some existing) else sk_err (S_revocation_differs i))"
| "install_revocation None revocation i = Inr (Some revocation)"

definition validate_anchor_status ::
  "string \<Rightarrow> u64 option \<Rightarrow> u64 option \<Rightarrow> key_revocation option \<Rightarrow> u64 \<Rightarrow> unit result" where
  "validate_anchor_status i not_before_ms not_after_ms revocation observed_at_ms =
     (if (case not_before_ms of Some not_before \<Rightarrow> observed_at_ms < not_before | None \<Rightarrow> False) then sk_err (S_not_valid_yet i)
      else if (case not_after_ms of Some not_after \<Rightarrow> observed_at_ms \<ge> not_after | None \<Rightarrow> False) then sk_err (S_expired i)
      else if (case revocation of Some r \<Rightarrow> observed_at_ms \<ge> kr_revoked_at_ms r | None \<Rightarrow> False) then sk_err (S_revoked i)
      else Inr ())"

section \<open>The trust store\<close>

definition trust_new :: skill_trust_state where
  "trust_new = \<lparr>tst_publishers = [], tst_logs = []\<rparr>"

definition publisher_policy_default :: publisher_policy where
  "publisher_policy_default = \<lparr>pp_not_before_ms = None, pp_not_after_ms = None, pp_transparency = Tr_optional\<rparr>"

definition trust_with_policy ::
  "'v skill_env \<Rightarrow> skill_trust_state \<Rightarrow> string \<Rightarrow> bytes \<Rightarrow> publisher_policy \<Rightarrow> skill_trust_state result" where
  "trust_with_policy env state key_id public_key policy =
     and_then (validate_capability_name key_id) (\<lambda>_.
     and_then (validate_publisher_policy policy) (\<lambda>_.
     and_then (validate_verifying_key env key_id public_key) (\<lambda>key.
     if bm_contains (tst_publishers state) key_id then Inl (DuplicateCapability (''publisher key '' @ key_id))
     else if length (tst_publishers state) \<ge> MAX_SKILL_TRUST_ANCHORS then sk_err S_trust_store_full
     else Inr (state\<lparr>tst_publishers := bm_insert key_id \<lparr>tp_key = key, tp_policy = policy, tp_revocation = None\<rparr> (tst_publishers state)\<rparr>))))"

definition trust_publisher :: "'v skill_env \<Rightarrow> skill_trust_state \<Rightarrow> string \<Rightarrow> bytes \<Rightarrow> skill_trust_state result" where
  "trust_publisher env state key_id public_key = trust_with_policy env state key_id public_key publisher_policy_default"

definition trust_transparency_log :: "'v skill_env \<Rightarrow> skill_trust_state \<Rightarrow> string \<Rightarrow> bytes \<Rightarrow> skill_trust_state result" where
  "trust_transparency_log env state log_id public_key =
     and_then (validate_capability_name log_id) (\<lambda>_.
     and_then (validate_verifying_key env log_id public_key) (\<lambda>key.
     if bm_contains (tst_logs state) log_id then Inl (DuplicateCapability (''transparency log '' @ log_id))
     else if length (tst_logs state) \<ge> MAX_SKILL_TRUST_ANCHORS then sk_err S_trust_store_full
     else Inr (state\<lparr>tst_logs := bm_insert log_id \<lparr>lg_key = key, lg_revocation = None\<rparr> (tst_logs state)\<rparr>)))"

definition revoke_publisher :: "skill_trust_state \<Rightarrow> string \<Rightarrow> u64 \<Rightarrow> string \<Rightarrow> skill_trust_state result" where
  "revoke_publisher state key_id revoked_at_ms reason_code =
     and_then (validate_capability_name key_id) (\<lambda>_.
     and_then (validate_revocation revoked_at_ms reason_code) (\<lambda>revocation.
     and_then (ok_or (Skill (S_not_trusted key_id)) (bm_get (tst_publishers state) key_id)) (\<lambda>publisher.
     and_then (install_revocation (tp_revocation publisher) revocation key_id) (\<lambda>current.
     Inr (state\<lparr>tst_publishers := bm_update key_id (\<lambda>p. p\<lparr>tp_revocation := current\<rparr>) (tst_publishers state)\<rparr>)))))"

definition revoke_transparency_log :: "skill_trust_state \<Rightarrow> string \<Rightarrow> u64 \<Rightarrow> string \<Rightarrow> skill_trust_state result" where
  "revoke_transparency_log state log_id revoked_at_ms reason_code =
     and_then (validate_capability_name log_id) (\<lambda>_.
     and_then (validate_revocation revoked_at_ms reason_code) (\<lambda>revocation.
     and_then (ok_or (Skill (S_not_trusted log_id)) (bm_get (tst_logs state) log_id)) (\<lambda>log.
     and_then (install_revocation (lg_revocation log) revocation log_id) (\<lambda>current.
     Inr (state\<lparr>tst_logs := bm_update log_id (\<lambda>l. l\<lparr>lg_revocation := current\<rparr>) (tst_logs state)\<rparr>)))))"

definition publisher_revocation :: "skill_trust_state \<Rightarrow> string \<Rightarrow> key_revocation option result" where
  "publisher_revocation state key_id =
     and_then (validate_capability_name key_id) (\<lambda>_.
     and_then (ok_or (Skill (S_not_trusted key_id)) (bm_get (tst_publishers state) key_id)) (\<lambda>publisher.
     Inr (tp_revocation publisher)))"

definition transparency_log_revocation :: "skill_trust_state \<Rightarrow> string \<Rightarrow> key_revocation option result" where
  "transparency_log_revocation state log_id =
     and_then (validate_capability_name log_id) (\<lambda>_.
     and_then (ok_or (Skill (S_not_trusted log_id)) (bm_get (tst_logs state) log_id)) (\<lambda>log.
     Inr (lg_revocation log)))"

record verified_transparency =
  vt_log_id :: string
  vt_entry_id :: string
  vt_integrated_at_ms :: u64

record verified_trust =
  vs_publisher_key_id :: string
  vs_transparency :: "verified_transparency option"

definition verify_receipt ::
  "'v skill_env \<Rightarrow> 'v signed_skill_package \<Rightarrow> transparency_receipt \<Rightarrow> trusted_log option \<Rightarrow> u64 \<Rightarrow> verified_transparency result" where
  "verify_receipt env signed_pkg receipt transparency_log observed_at_ms =
     and_then (validate_transparency_receipt receipt observed_at_ms) (\<lambda>_.
     and_then (ok_or (Skill (S_not_trusted (rt_log_id receipt))) transparency_log) (\<lambda>log.
     and_then (validate_anchor_status (rt_log_id receipt) None None (lg_revocation log) observed_at_ms) (\<lambda>_.
     if length (rt_ed25519 receipt) \<noteq> 64 then sk_err S_receipt_length
     else
     and_then (transparency_signing_bytes env signed_pkg) (\<lambda>b.
     if \<not> se_verify_strict env (lg_key log) b (rt_ed25519 receipt) then sk_err S_bad_receipt
     else Inr \<lparr>vt_log_id = rt_log_id receipt, vt_entry_id = rt_entry_id receipt, vt_integrated_at_ms = rt_integrated_at_ms receipt\<rparr>))))"

definition trust_verify ::
  "('v::linorder) skill_env \<Rightarrow> skill_trust_state \<Rightarrow> 'v signed_skill_package \<Rightarrow> u64 \<Rightarrow> verified_trust result" where
  "trust_verify env state signed_pkg observed_at_ms =
     (let key_id = sg_key_id (ss_signature signed_pkg) in
     and_then (validate_package env (ss_package signed_pkg)) (\<lambda>_.
     and_then (validate_capability_name key_id) (\<lambda>_.
     and_then (ok_or (Skill (S_not_trusted key_id)) (bm_get (tst_publishers state) key_id)) (\<lambda>publisher.
     let transparency_log = Option.bind (ss_transparency signed_pkg) (\<lambda>receipt. bm_get (tst_logs state) (rt_log_id receipt)) in
     and_then (validate_anchor_status key_id (pp_not_before_ms (tp_policy publisher)) (pp_not_after_ms (tp_policy publisher))
       (tp_revocation publisher) observed_at_ms) (\<lambda>_.
     if length (sg_ed25519 (ss_signature signed_pkg)) \<noteq> 64 then sk_err S_signature_length
     else if \<not> se_verify_strict env (tp_key publisher) (skill_signing_bytes (ss_package signed_pkg)) (sg_ed25519 (ss_signature signed_pkg))
     then sk_err S_bad_signature
     else
     and_then
       (case ss_transparency signed_pkg of
          Some receipt \<Rightarrow> and_then (verify_receipt env signed_pkg receipt transparency_log observed_at_ms) (\<lambda>v. Inr (Some v))
        | None \<Rightarrow>
            if pp_transparency (tp_policy publisher) = Tr_required then sk_err (S_receipt_required key_id) else Inr None)
       (\<lambda>transparency. Inr \<lparr>vs_publisher_key_id = key_id, vs_transparency = transparency\<rparr>))))))"

definition revalidate_registered :: "skill_trust_state \<Rightarrow> string \<Rightarrow> string option \<Rightarrow> u64 \<Rightarrow> unit result" where
  "revalidate_registered state publisher_key_id transparency_log_id observed_at_ms =
     and_then (ok_or (Skill (S_not_trusted publisher_key_id)) (bm_get (tst_publishers state) publisher_key_id)) (\<lambda>publisher.
     and_then (validate_anchor_status publisher_key_id (pp_not_before_ms (tp_policy publisher)) (pp_not_after_ms (tp_policy publisher))
       (tp_revocation publisher) observed_at_ms) (\<lambda>_.
     if pp_transparency (tp_policy publisher) = Tr_required \<and> transparency_log_id = None
     then sk_err (S_receipt_required publisher_key_id)
     else
     (case transparency_log_id of
        None \<Rightarrow> Inr ()
      | Some log_id \<Rightarrow>
          and_then (ok_or (Skill (S_not_trusted log_id)) (bm_get (tst_logs state) log_id)) (\<lambda>log.
          validate_anchor_status log_id None None (lg_revocation log) observed_at_ms))))"

section \<open>The registry\<close>

record 'v registered_skill =
  rs_id :: "'v skill_id"
  rs_origin :: capability_origin
  rs_package :: "'v skill_package"
  rs_publisher_key_id :: "string option"
  rs_transparency :: "verified_transparency option"
  rs_publisher_trust :: "nat option"

record 'v skill_registry =
  sk_skills :: "('v skill_id, 'v registered_skill) btree_map"
  sk_content_bytes :: usize

definition skill_registry_new :: "'v skill_registry" where
  "skill_registry_new = \<lparr>sk_skills = [], sk_content_bytes = 0\<rparr>"

fun is_external :: "capability_origin \<Rightarrow> bool" where
  "is_external (External _) = True"
| "is_external _ = False"

definition sk_insert ::
  "('v::linorder) skill_env \<Rightarrow> 'v skill_registry \<Rightarrow> capability_origin \<Rightarrow> 'v skill_package \<Rightarrow> string option \<Rightarrow>
   verified_transparency option \<Rightarrow> nat option \<Rightarrow> 'v skill_registry result" where
  "sk_insert env registry origin package publisher_key_id transparency publisher_trust =
     and_then (validate_capability_origin origin) (\<lambda>_.
     and_then (validate_registry_growth (length (sk_skills registry)) 1) (\<lambda>_.
     let i = package_id package in
     if bm_contains (sk_skills registry) i
     then Inl (DuplicateCapability (''skill '' @ fst i @ ''@'' @ se_version_string env (snd i)))
     else
     and_then (validate_package_content_envelope env (sp_manifest package) (sp_instructions package) (sp_resources package)) (\<lambda>package_bytes.
     and_then (ok_or (Skill S_registry_overflow) (usize_checked_add (sk_content_bytes registry) package_bytes)) (\<lambda>next_content_bytes.
     if next_content_bytes > MAX_SKILL_REGISTRY_CONTENT_BYTES then sk_err S_registry_too_large
     else Inr \<lparr>sk_skills = bm_insert i \<lparr>rs_id = i, rs_origin = origin, rs_package = package, rs_publisher_key_id = publisher_key_id,
                  rs_transparency = transparency, rs_publisher_trust = publisher_trust\<rparr> (sk_skills registry),
                sk_content_bytes = next_content_bytes\<rparr>))))"

definition sk_register ::
  "('v::linorder) skill_env \<Rightarrow> 'v skill_registry \<Rightarrow> capability_origin \<Rightarrow> 'v skill_package \<Rightarrow> 'v skill_registry result" where
  "sk_register env registry origin package =
     and_then (validate_capability_origin origin) (\<lambda>_.
     and_then (validate_registry_growth (length (sk_skills registry)) 1) (\<lambda>_.
     if is_external origin then sk_err S_needs_signature
     else
     and_then (validate_package env package) (\<lambda>_.
     sk_insert env registry origin package None None None)))"

definition sk_register_signed_at ::
  "('v::linorder) skill_env \<Rightarrow> trust_heap \<Rightarrow> 'v skill_registry \<Rightarrow> capability_origin \<Rightarrow> 'v signed_skill_package \<Rightarrow> nat \<Rightarrow> u64 \<Rightarrow>
   'v skill_registry result" where
  "sk_register_signed_at env heap registry origin signed_pkg trust observed_at_ms =
     and_then (validate_capability_origin origin) (\<lambda>_.
     and_then (validate_registry_growth (length (sk_skills registry)) 1) (\<lambda>_.
     if \<not> is_external origin then sk_err S_needs_external
     else
     and_then (trust_verify env (heap trust) signed_pkg observed_at_ms) (\<lambda>verified.
     sk_insert env registry origin (ss_package signed_pkg) (Some (vs_publisher_key_id verified)) (vs_transparency verified) (Some trust))))"

definition sk_get :: "('v::linorder) skill_registry \<Rightarrow> 'v skill_id \<Rightarrow> 'v registered_skill option" where
  "sk_get registry i = bm_get (sk_skills registry) i"

definition sk_identities :: "'v skill_registry \<Rightarrow> 'v skill_id list" where
  "sk_identities registry = bm_keys (sk_skills registry)"

section \<open>What the checks of a package mean\<close>

definition package_bytes :: "'v skill_env \<Rightarrow> 'v skill_package \<Rightarrow> nat" where
  "package_bytes env package =
     (let manifest = sp_manifest package in
      length (sp_instructions package) + length (sm_api_version manifest) + length (sm_name manifest) +
      length (se_version_string env (sm_version manifest)) + length (sm_description manifest) +
      (\<Sum>dependency\<leftarrow>sm_dependencies manifest. length (sd_name dependency) + length (se_version_string env (sd_version dependency))) +
      (\<Sum>tool\<leftarrow>sm_required_tools manifest. length tool) +
      (\<Sum>(path, content)\<leftarrow>sp_resources package. length path + length content))"

lemma sk_err_ok [ok_iff]: "sk_err f \<noteq> Inr x" "(if b then sk_err f else m) = Inr x \<longleftrightarrow> \<not> b \<and> m = Inr x"
  by (simp_all add: sk_err_def)

definition fits :: "nat \<Rightarrow> bool" where
  "fits n \<longleftrightarrow> n < 2 ^ 64"

lemma fits_le: "fits n \<Longrightarrow> m \<le> n \<Longrightarrow> fits m"
  by (simp add: fits_def)

lemma add_bytes_ok [ok_iff]: "add_bytes sofar n = Inr m \<longleftrightarrow> m = sofar + n \<and> fits m"
  by (auto simp: add_bytes_def usize_checked_add_def ok_iff fits_def)

text \<open>A loop of checked additions gives the sum, and fails only when the sum does not fit.\<close>

lemma try_fold_bytes:
  assumes "\<And>sofar x m. f sofar x = Inr m \<longleftrightarrow> m = sofar + g x \<and> fits m" and "fits sofar"
  shows "try_fold f sofar xs = Inr m \<longleftrightarrow> m = sofar + (\<Sum>x\<leftarrow>xs. g x) \<and> fits m"
  using assms(2)
proof (induction xs arbitrary: sofar)
  case (Cons x xs)
  show ?case
  proof
    assume "try_fold f sofar (x # xs) = Inr m"
    then have "try_fold f (sofar + g x) xs = Inr m" "fits (sofar + g x)" by (auto simp: ok_iff assms(1))
    from iffD1 [OF Cons.IH [OF this(2)] this(1)] show "m = sofar + (\<Sum>x\<leftarrow>x # xs. g x) \<and> fits m" by (auto simp: add.assoc)
  next
    assume sum: "m = sofar + (\<Sum>x\<leftarrow>x # xs. g x) \<and> fits m"
    have m: "m = (sofar + g x) + (\<Sum>x\<leftarrow>xs. g x)" using conjunct1 [OF sum] by simp
    have "fits m" using sum ..
    then have x: "fits (sofar + g x)" unfolding m by (rule fits_le) simp
    then have "f sofar x = Inr (sofar + g x)" using assms(1) by blast
    moreover have "try_fold f (sofar + g x) xs = Inr m" using Cons.IH [OF x] m \<open>fits m\<close> by blast
    ultimately show "try_fold f sofar (x # xs) = Inr m" by simp
  qed
qed auto

definition envelope_bounds :: "'v skill_package \<Rightarrow> bool" where
  "envelope_bounds package \<longleftrightarrow> length (sp_instructions package) \<le> MAX_INSTRUCTIONS_BYTES \<and>
     length (sm_description (sp_manifest package)) \<le> MAX_DESCRIPTION_BYTES \<and>
     length (sm_dependencies (sp_manifest package)) \<le> MAX_SKILL_DEPENDENCIES \<and>
     length (sm_required_tools (sp_manifest package)) \<le> MAX_SKILL_REQUIRED_TOOLS \<and> length (sp_resources package) \<le> MAX_RESOURCES \<and>
     list_all (\<lambda>content. length content \<le> MAX_RESOURCE_BYTES) (bm_values (sp_resources package))"

lemma add_two_ok: "and_then (add_bytes sofar a) (\<lambda>sofar. add_bytes sofar b) = Inr m \<longleftrightarrow> m = sofar + (a + b) \<and> fits m"
  by (auto simp: ok_iff intro: fits_le)

lemma byte_loops:
  assumes "fits sofar"
  shows "try_fold add_bytes sofar ns = Inr m \<longleftrightarrow> m = sofar + sum_list ns \<and> fits m"
    and "try_fold (\<lambda>sofar dependency. and_then (add_bytes sofar (length (sd_name dependency))) (\<lambda>sofar.
        add_bytes sofar (length (se_version_string env (sd_version dependency))))) sofar ds = Inr m \<longleftrightarrow>
      m = sofar + (\<Sum>d\<leftarrow>ds. length (sd_name d) + length (se_version_string env (sd_version d))) \<and> fits m"
    and "try_fold (\<lambda>sofar tool. add_bytes sofar (length tool)) sofar ts = Inr m \<longleftrightarrow> m = sofar + (\<Sum>t\<leftarrow>ts. length t) \<and> fits m"
    and "try_fold (\<lambda>sofar (path, content). and_then (add_bytes sofar (length path)) (\<lambda>sofar. add_bytes sofar (length content))) sofar rs = Inr m \<longleftrightarrow>
      m = sofar + (\<Sum>(path, content)\<leftarrow>rs. length path + length content) \<and> fits m"
proof -
  show "try_fold add_bytes sofar ns = Inr m \<longleftrightarrow> m = sofar + sum_list ns \<and> fits m"
    using try_fold_bytes [of add_bytes "\<lambda>n. n", OF add_bytes_ok assms] by simp
  show "try_fold (\<lambda>sofar tool. add_bytes sofar (length tool)) sofar ts = Inr m \<longleftrightarrow> m = sofar + (\<Sum>t\<leftarrow>ts. length t) \<and> fits m"
    by (rule try_fold_bytes [OF add_bytes_ok assms])
qed (rule try_fold_bytes [OF _ assms], simp only: add_two_ok split_def)+

lemma envelope_ok:
  "validate_package_content_envelope env (sp_manifest package) (sp_instructions package) (sp_resources package) = Inr n \<longleftrightarrow>
     envelope_bounds package \<and> n = package_bytes env package \<and> n \<le> MAX_SKILL_PACKAGE_CONTENT_BYTES"
proof (cases "envelope_bounds package")
  case True
  then have start: "fits (length (sp_instructions package))" by (simp add: fits_def envelope_bounds_def MAX_INSTRUCTIONS_BYTES_def)
  let ?m = "sp_manifest package"
  define n1 where "n1 = length (sp_instructions package) + sum_list [length (sm_api_version ?m), length (sm_name ?m),
        length (se_version_string env (sm_version ?m)), length (sm_description ?m)]"
  define n2 where "n2 = n1 + (\<Sum>d\<leftarrow>sm_dependencies ?m. length (sd_name d) + length (se_version_string env (sd_version d)))"
  define n3 where "n3 = n2 + (\<Sum>t\<leftarrow>sm_required_tools ?m. length t)"
  define n4 where "n4 = n3 + (\<Sum>(path, content)\<leftarrow>sp_resources package. length path + length content)"
  have "n4 = package_bytes env package" by (simp add: n1_def n2_def n3_def n4_def package_bytes_def Let_def)
  moreover have "validate_package_content_envelope env ?m (sp_instructions package) (sp_resources package) = Inr n \<longleftrightarrow>
      fits n1 \<and> fits n2 \<and> fits n3 \<and> fits n4 \<and> n = n4 \<and> n \<le> MAX_SKILL_PACKAGE_CONTENT_BYTES"
    using True unfolding validate_package_content_envelope_def envelope_bounds_def n4_def n3_def n2_def n1_def
    by (auto simp: ok_iff byte_loops(1) [OF start] byte_loops(2-4) list_all_iff list_ex_iff not_le not_less simp del: try_fold.simps sum_list.Cons)
  moreover have "fits n1 \<and> fits n2 \<and> fits n3 \<and> fits n4" if "n4 \<le> MAX_SKILL_PACKAGE_CONTENT_BYTES"
  proof -
    have "fits n4" using that by (simp add: fits_def MAX_SKILL_PACKAGE_CONTENT_BYTES_def)
    moreover have "n1 \<le> n2" "n2 \<le> n3" "n3 \<le> n4" by (simp_all add: n2_def n3_def n4_def)
    ultimately show ?thesis by (meson fits_le)
  qed
  ultimately show ?thesis using True by auto
next
  case False
  then show ?thesis
    by (auto simp: validate_package_content_envelope_def envelope_bounds_def ok_iff list_all_iff list_ex_iff not_le)
qed

section \<open>Trust anchors are never replaced and never restored\<close>

text \<open>What publishers and logs have in common: the key (and the policy) is fixed, a revocation is final.\<close>

definition anchors_extend ::
  "('a \<Rightarrow> 'f) \<Rightarrow> ('a \<Rightarrow> key_revocation option) \<Rightarrow> (string, 'a) btree_map \<Rightarrow> (string, 'a) btree_map \<Rightarrow> bool" where
  "anchors_extend fixed revocation m m' \<longleftrightarrow>
     (\<forall>k a. bm_get m k = Some a \<longrightarrow>
        (\<exists>a'. bm_get m' k = Some a' \<and> fixed a' = fixed a \<and> (revocation a \<noteq> None \<longrightarrow> revocation a' = revocation a)))"

lemma anchors_extend_refl [simp]: "anchors_extend fixed revocation m m"
  by (simp add: anchors_extend_def)

lemma anchors_extend_trans:
  "anchors_extend fixed revocation m m' \<Longrightarrow> anchors_extend fixed revocation m' m'' \<Longrightarrow> anchors_extend fixed revocation m m''"
  unfolding anchors_extend_def by metis

lemma anchors_extend_insert: "\<not> bm_contains m k \<Longrightarrow> anchors_extend fixed revocation m (bm_insert k a m)"
  by (auto simp: anchors_extend_def bm_get_insert bm_contains_def)

lemma anchors_extend_update:
  assumes "bm_get m k = Some a" and "\<And>b. fixed (f b) = fixed b" and "revocation a \<noteq> None \<longrightarrow> revocation (f a) = revocation a"
  shows "anchors_extend fixed revocation m (bm_update k f m)"
  using assms by (auto simp: anchors_extend_def bm_get_update)

definition trust_extends :: "skill_trust_state \<Rightarrow> skill_trust_state \<Rightarrow> bool" where
  "trust_extends st st' \<longleftrightarrow>
     anchors_extend (\<lambda>p. (tp_key p, tp_policy p)) tp_revocation (tst_publishers st) (tst_publishers st') \<and>
     anchors_extend lg_key lg_revocation (tst_logs st) (tst_logs st')"

lemma trust_extends_refl [simp]: "trust_extends st st"
  by (simp add: trust_extends_def)

lemma trust_extends_trans: "trust_extends st st' \<Longrightarrow> trust_extends st' st'' \<Longrightarrow> trust_extends st st''"
  unfolding trust_extends_def by (meson anchors_extend_trans)

lemma trust_extends_publisher:
  "trust_extends st st' \<Longrightarrow> bm_get (tst_publishers st) k = Some p \<Longrightarrow>
   \<exists>p'. bm_get (tst_publishers st') k = Some p' \<and> tp_key p' = tp_key p \<and> tp_policy p' = tp_policy p \<and>
     (tp_revocation p \<noteq> None \<longrightarrow> tp_revocation p' = tp_revocation p)"
  unfolding trust_extends_def anchors_extend_def by auto

lemma trust_extends_log:
  "trust_extends st st' \<Longrightarrow> bm_get (tst_logs st) k = Some l \<Longrightarrow>
   \<exists>l'. bm_get (tst_logs st') k = Some l' \<and> lg_key l' = lg_key l \<and> (lg_revocation l \<noteq> None \<longrightarrow> lg_revocation l' = lg_revocation l)"
  unfolding trust_extends_def anchors_extend_def by auto

lemma install_revocation_ok:
  "install_revocation current revocation i = Inr r \<longleftrightarrow> r = Some revocation \<and> (current = None \<or> current = Some revocation)"
  by (cases current) (auto simp: ok_iff)

lemma trust_with_policy_extends: "trust_with_policy env st key_id public_key policy = Inr st' \<Longrightarrow> trust_extends st st'"
  by (auto simp: trust_with_policy_def ok_iff trust_extends_def intro: anchors_extend_insert)

lemma trust_transparency_log_extends: "trust_transparency_log env st log_id public_key = Inr st' \<Longrightarrow> trust_extends st st'"
  by (auto simp: trust_transparency_log_def ok_iff trust_extends_def intro: anchors_extend_insert)

lemma revoke_publisher_extends: "revoke_publisher st key_id revoked_at_ms reason_code = Inr st' \<Longrightarrow> trust_extends st st'"
  by (auto simp: revoke_publisher_def ok_iff trust_extends_def install_revocation_ok intro!: anchors_extend_update)

lemma revoke_transparency_log_extends: "revoke_transparency_log st log_id revoked_at_ms reason_code = Inr st' \<Longrightarrow> trust_extends st st'"
  by (auto simp: revoke_transparency_log_def ok_iff trust_extends_def install_revocation_ok intro!: anchors_extend_update)

section \<open>Hosts at work on trust stores and a registry\<close>

inductive skill_step ::
  "('v::linorder) skill_env \<Rightarrow> trust_heap \<times> 'v skill_registry \<Rightarrow> trust_heap \<times> 'v skill_registry \<Rightarrow> bool" for env where
  publisher_trusted: "trust_with_policy env (heap r) key_id public_key policy = Inr st \<Longrightarrow>
    skill_step env (heap, registry) (heap(r := st), registry)"
| log_trusted: "trust_transparency_log env (heap r) log_id public_key = Inr st \<Longrightarrow>
    skill_step env (heap, registry) (heap(r := st), registry)"
| publisher_revoked: "revoke_publisher (heap r) key_id revoked_at_ms reason_code = Inr st \<Longrightarrow>
    skill_step env (heap, registry) (heap(r := st), registry)"
| log_revoked: "revoke_transparency_log (heap r) log_id revoked_at_ms reason_code = Inr st \<Longrightarrow>
    skill_step env (heap, registry) (heap(r := st), registry)"
| skill_registered: "sk_register env registry origin package = Inr registry' \<Longrightarrow>
    skill_step env (heap, registry) (heap, registry')"
| signed_registered: "sk_register_signed_at env heap registry origin signed_pkg r now = Inr registry' \<Longrightarrow>
    skill_step env (heap, registry) (heap, registry')"

definition skill_start :: "trust_heap \<times> 'v skill_registry" where
  "skill_start = (\<lambda>_. trust_new, skill_registry_new)"

lemma skill_step_heap: "skill_step env s s' \<Longrightarrow> trust_extends (fst s r) (fst s' r)"
  by (induction rule: skill_step.induct)
    (auto intro: trust_with_policy_extends trust_transparency_log_extends revoke_publisher_extends revoke_transparency_log_extends)

lemma skill_steps_heap: "(skill_step env)\<^sup>*\<^sup>* s s' \<Longrightarrow> trust_extends (fst s r) (fst s' r)"
  by (induction rule: rtranclp_induct) (auto intro: trust_extends_trans skill_step_heap)

section \<open>Every registered Skill is authentic\<close>

text \<open>The proof of a verified package, under the keys of a trust store.\<close>

definition proof_holds ::
  "'v skill_env \<Rightarrow> skill_trust_state \<Rightarrow> 'v signed_skill_package \<Rightarrow> verified_transparency option \<Rightarrow> bool" where
  "proof_holds env st signed_pkg transparency \<longleftrightarrow>
     (\<exists>publisher. bm_get (tst_publishers st) (sg_key_id (ss_signature signed_pkg)) = Some publisher \<and>
        length (sg_ed25519 (ss_signature signed_pkg)) = 64 \<and>
        se_verify_strict env (tp_key publisher) (skill_signing_bytes (ss_package signed_pkg)) (sg_ed25519 (ss_signature signed_pkg)) \<and>
        (case ss_transparency signed_pkg of
           None \<Rightarrow> transparency = None \<and> pp_transparency (tp_policy publisher) \<noteq> Tr_required
         | Some receipt \<Rightarrow>
             transparency = Some \<lparr>vt_log_id = rt_log_id receipt, vt_entry_id = rt_entry_id receipt,
               vt_integrated_at_ms = rt_integrated_at_ms receipt\<rparr> \<and>
             (\<exists>log b. bm_get (tst_logs st) (rt_log_id receipt) = Some log \<and> transparency_signing_bytes env signed_pkg = Inr b \<and>
                se_verify_strict env (lg_key log) b (rt_ed25519 receipt))))"

lemma trust_verify_proof:
  assumes "trust_verify env st signed_pkg now = Inr verified"
  shows "validate_package env (ss_package signed_pkg) = Inr ()" "vs_publisher_key_id verified = sg_key_id (ss_signature signed_pkg)"
    "proof_holds env st signed_pkg (vs_transparency verified)"
  using assms
  by (auto simp: trust_verify_def ok_iff Let_def proof_holds_def verify_receipt_def split: option.splits)

lemma proof_holds_later:
  assumes "proof_holds env st signed_pkg transparency" and "trust_extends st st'"
  shows "proof_holds env st' signed_pkg transparency"
proof -
  from assms(1) obtain publisher where publisher: "bm_get (tst_publishers st) (sg_key_id (ss_signature signed_pkg)) = Some publisher"
    unfolding proof_holds_def by blast
  obtain publisher' where "bm_get (tst_publishers st') (sg_key_id (ss_signature signed_pkg)) = Some publisher'"
    "tp_key publisher' = tp_key publisher" "tp_policy publisher' = tp_policy publisher"
    using trust_extends_publisher [OF assms(2) publisher] by blast
  with assms(1) publisher trust_extends_log [OF assms(2)] show ?thesis
    unfolding proof_holds_def by (cases "ss_transparency signed_pkg") (auto, metis)
qed

definition authentic :: "('v::linorder) skill_env \<Rightarrow> trust_heap \<Rightarrow> 'v registered_skill \<Rightarrow> bool" where
  "authentic env heap rs \<longleftrightarrow> validate_package env (rs_package rs) = Inr () \<and> rs_id rs = package_id (rs_package rs) \<and>
     (if is_external (rs_origin rs)
      then \<exists>signed_pkg r. ss_package signed_pkg = rs_package rs \<and> rs_publisher_key_id rs = Some (sg_key_id (ss_signature signed_pkg)) \<and>
        rs_publisher_trust rs = Some r \<and> proof_holds env (heap r) signed_pkg (rs_transparency rs)
      else rs_publisher_key_id rs = None \<and> rs_publisher_trust rs = None \<and> rs_transparency rs = None)"

lemma authentic_later: "authentic env heap rs \<Longrightarrow> (\<And>r. trust_extends (heap r) (heap' r)) \<Longrightarrow> authentic env heap' rs"
  unfolding authentic_def by (metis proof_holds_later)

definition skill_inv :: "('v::linorder) skill_env \<Rightarrow> trust_heap \<times> 'v skill_registry \<Rightarrow> bool" where
  "skill_inv env = (\<lambda>(heap, registry). bm_wf (sk_skills registry) \<and>
     length (sk_skills registry) \<le> MAX_CAPABILITY_REGISTRY_ENTRIES \<and>
     sk_content_bytes registry = (\<Sum>rs\<leftarrow>bm_values (sk_skills registry). package_bytes env (rs_package rs)) \<and>
     sk_content_bytes registry \<le> MAX_SKILL_REGISTRY_CONTENT_BYTES \<and>
     bm_all (\<lambda>i rs. rs_id rs = i \<and> authentic env heap rs) (sk_skills registry))"

lemma bm_insert_new:
  fixes f :: "'a \<Rightarrow> nat"
  assumes "bm_wf m" and "\<not> bm_contains m k"
  shows "length (bm_insert k v m) = Suc (length m)" "(\<Sum>x\<leftarrow>bm_values (bm_insert k v m). f x) = f v + (\<Sum>x\<leftarrow>bm_values m. f x)"
  using assms by (induction k v m rule: bm_insert.induct) (auto simp: bm_wf_def bm_contains_def bm_get_def bm_values_def split: if_splits)

lemma sk_insert_inv:
  assumes "sk_insert env registry origin package key transparency trust = Inr registry'" and inv: "skill_inv env (heap, registry)"
    and "authentic env heap \<lparr>rs_id = package_id package, rs_origin = origin, rs_package = package, rs_publisher_key_id = key,
      rs_transparency = transparency, rs_publisher_trust = trust\<rparr>"
  shows "skill_inv env (heap, registry')"
proof -
  let ?rs = "\<lparr>rs_id = package_id package, rs_origin = origin, rs_package = package, rs_publisher_key_id = key,
      rs_transparency = transparency, rs_publisher_trust = trust\<rparr>"
  from assms(1) have facts: "length (sk_skills registry) < MAX_CAPABILITY_REGISTRY_ENTRIES" "\<not> bm_contains (sk_skills registry) (package_id package)"
    "sk_content_bytes registry + package_bytes env package \<le> MAX_SKILL_REGISTRY_CONTENT_BYTES"
    "registry' = \<lparr>sk_skills = bm_insert (package_id package) ?rs (sk_skills registry),
       sk_content_bytes = sk_content_bytes registry + package_bytes env package\<rparr>"
    by (auto simp: sk_insert_def ok_iff Let_def envelope_ok usize_checked_add_def split: if_splits)
  from inv have wf: "bm_wf (sk_skills registry)" by (simp add: skill_inv_def)
  show ?thesis
    using inv assms(3) facts(1,3) bm_insert_new [OF wf facts(2)]
    by (auto simp: skill_inv_def facts(4) bm_wf_insert bm_all_def bm_get_insert)
qed

lemma skill_inv_heap:
  assumes "skill_inv env (heap, registry)" and "trust_extends (heap r) st"
  shows "skill_inv env (heap(r := st), registry)"
proof -
  have "authentic env heap rs \<Longrightarrow> authentic env (heap(r := st)) rs" for rs
    by (rule authentic_later) (use assms(2) in auto)
  with assms(1) show ?thesis unfolding skill_inv_def by (auto elim: bm_all_mono)
qed

lemma skill_step_inv: "skill_step env s s' \<Longrightarrow> skill_inv env s \<Longrightarrow> skill_inv env s'"
proof (induction rule: skill_step.induct)
  case (skill_registered registry origin package registry' heap)
  then have package: "validate_package env package = Inr ()" "\<not> is_external origin"
    "sk_insert env registry origin package None None None = Inr registry'" by (auto simp: sk_register_def ok_iff)
  show ?case
    by (rule sk_insert_inv [OF package(3) skill_registered(2)]) (use package in \<open>simp add: authentic_def\<close>)
next
  case (signed_registered heap registry origin signed_pkg r now registry')
  then obtain verified where verified: "trust_verify env (heap r) signed_pkg now = Inr verified" "is_external origin"
    "sk_insert env registry origin (ss_package signed_pkg) (Some (vs_publisher_key_id verified)) (vs_transparency verified) (Some r) = Inr registry'"
    by (auto simp: sk_register_signed_at_def ok_iff)
  show ?case
    by (rule sk_insert_inv [OF verified(3) signed_registered(2)])
      (use trust_verify_proof [OF verified(1)] verified(2) in \<open>auto simp: authentic_def\<close>)
qed (auto intro: skill_inv_heap trust_with_policy_extends trust_transparency_log_extends revoke_publisher_extends revoke_transparency_log_extends)

lemma skill_reachable_inv: "(skill_step env)\<^sup>*\<^sup>* skill_start s \<Longrightarrow> skill_inv env s"
proof (induction rule: rtranclp_induct)
  case base
  show ?case by (simp add: skill_start_def skill_inv_def skill_registry_new_def bm_wf_def bm_values_def)
qed (auto intro: skill_step_inv)

section \<open>A concrete registry\<close>

definition demo_skill_env :: "nat skill_env" where
  "demo_skill_env = \<lparr>se_version_string = (\<lambda>_. ''1.0.0''), se_digest = (\<lambda>m. ([sm_name (dm_manifest m)], True)),
     se_receipt = (\<lambda>_. ([''r''], True)), se_sha256 = (\<lambda>b. take 32 (b @ replicate 32 CHR 0x00)),
     se_key_valid = (\<lambda>k. True), se_key_is_weak = (\<lambda>k. False), se_verify_strict = (\<lambda>k b s. s = k @ k)\<rparr>"

definition demo_manifest :: "string \<Rightarrow> nat skill_dependency list \<Rightarrow> nat skill_manifest" where
  "demo_manifest name deps = \<lparr>sm_api_version = ''1'', sm_name = name, sm_version = 2, sm_description = ''d'', sm_estimated_tokens = 5,
     sm_dependencies = deps, sm_required_tools = [''send'']\<rparr>"

definition demo_skill :: "string \<Rightarrow> nat skill_dependency list \<Rightarrow> nat skill_package" where
  "demo_skill name deps = \<lparr>sp_manifest = demo_manifest name deps, sp_instructions = ''text'', sp_resources = [(''x/y'', ''z'')],
     sp_content_sha256 = lower_hex (take 32 (name @ replicate 32 CHR 0x00))\<rparr>"

definition demo_key :: bytes where "demo_key = replicate 32 CHR 0x01"

definition demo_signed :: "nat signed_skill_package" where
  "demo_signed = \<lparr>ss_package = demo_skill ''b'' [\<lparr>sd_name = ''a'', sd_version = 2\<rparr>],
     ss_signature = \<lparr>sg_key_id = ''pub'', sg_ed25519 = demo_key @ demo_key\<rparr>, ss_transparency = None\<rparr>"

definition demo_trust :: skill_trust_state where
  "demo_trust = \<lparr>tst_publishers = [(''pub'', \<lparr>tp_key = demo_key, tp_policy = publisher_policy_default, tp_revocation = None\<rparr>)], tst_logs = []\<rparr>"

definition demo_local :: "nat registered_skill" where
  "demo_local = \<lparr>rs_id = (''a'', 2), rs_origin = BuiltIn, rs_package = demo_skill ''a'' [], rs_publisher_key_id = None, rs_transparency = None,
     rs_publisher_trust = None\<rparr>"

definition demo_external :: "nat registered_skill" where
  "demo_external = \<lparr>rs_id = (''b'', 2), rs_origin = External ''x'', rs_package = ss_package demo_signed, rs_publisher_key_id = Some ''pub'',
     rs_transparency = None, rs_publisher_trust = Some 0\<rparr>"

definition demo_registry :: "nat skill_registry" where
  "demo_registry = \<lparr>sk_skills = [((''a'', 2), demo_local), ((''b'', 2), demo_external)], sk_content_bytes = 46\<rparr>"

lemma demo_skill_names [simp]:
  "validate_capability_name ''a'' = Inr ()" "validate_capability_name ''b'' = Inr ()" "validate_capability_name ''send'' = Inr ()"
  "validate_capability_name ''pub'' = Inr ()" "validate_capability_origin (External ''x'') = Inr ()" "validate_capability_origin BuiltIn = Inr ()"
  by (simp_all add: validate_capability_name_def string_eval validate_capability_origin_def MAX_CAPABILITY_ORIGIN_ID_BYTES_def)

lemmas skill_limits = MAX_DESCRIPTION_BYTES_def MAX_INSTRUCTIONS_BYTES_def MAX_RESOURCE_BYTES_def MAX_RESOURCES_def MAX_SKILL_DEPENDENCIES_def
  MAX_SKILL_REQUIRED_TOOLS_def MAX_SKILL_PACKAGE_CONTENT_BYTES_def MAX_SKILL_CANONICAL_BYTES_def MAX_SKILL_REGISTRY_CONTENT_BYTES_def
  MAX_ESTIMATED_TOKENS_def MAX_SKILL_TRUST_ANCHORS_def MAX_CAPABILITY_REGISTRY_ENTRIES_def

lemma demo_skill_valid:
  assumes "name = ''a'' \<and> deps = [] \<or> name = ''b'' \<and> deps = [\<lparr>sd_name = ''a'', sd_version = 2\<rparr>]"
  shows "validate_package demo_skill_env (demo_skill name deps) = Inr ()"
proof -
  have "length (take 32 (name @ replicate 32 CHR 0x00)) = 32" by simp
  from lower_hex_is_lower_sha256 [OF this] have sha: "is_lower_sha256 (sp_content_sha256 (demo_skill name deps))" by (simp add: demo_skill_def)
  have "computed_sha256 demo_skill_env (demo_skill name deps) = Inr (sp_content_sha256 (demo_skill name deps))"
    using assms unfolding computed_sha256_def
    by (auto simp: demo_skill_def demo_manifest_def demo_skill_env_def to_vec_def validate_package_content_envelope_def skill_limits bm_values_def
        add_bytes_def usize_checked_add_def)
  with sha assms show ?thesis
    by (auto simp: validate_package_def demo_skill_def demo_manifest_def SKILL_API_VERSION_def sk_validate_bounded_text_def skill_limits
        validate_dependency_def validate_resource_def validate_resource_path_def trim_is_empty_def string_eval Let_def)
qed

lemma demo_package_bytes:
  "validate_package_content_envelope demo_skill_env (sp_manifest (demo_skill name deps)) (sp_instructions (demo_skill name deps))
     (sp_resources (demo_skill name deps)) = Inr (20 + 6 * length deps)"
  if "name = ''a'' \<and> deps = [] \<or> name = ''b'' \<and> deps = [\<lparr>sd_name = ''a'', sd_version = 2\<rparr>]"
  unfolding envelope_ok using that by (auto simp: envelope_bounds_def package_bytes_def demo_skill_def demo_manifest_def demo_skill_env_def skill_limits
      bm_values_def)

lemma demo_verified:
  "trust_verify demo_skill_env demo_trust demo_signed 7 = Inr \<lparr>vs_publisher_key_id = ''pub'', vs_transparency = None\<rparr>"
proof -
  have "validate_package demo_skill_env (ss_package demo_signed) = Inr ()" by (simp add: demo_signed_def demo_skill_valid)
  then show ?thesis
    by (simp add: trust_verify_def Let_def demo_signed_def demo_trust_def bm_get_def validate_anchor_status_def publisher_policy_default_def
        demo_skill_env_def demo_key_def)
qed

lemma demo_registry_reachable: "(skill_step demo_skill_env)\<^sup>*\<^sup>* skill_start ((\<lambda>_. trust_new)(0 := demo_trust), demo_registry)"
proof -
  let ?empty = "skill_registry_new :: nat skill_registry" and ?heap = "(\<lambda>_. trust_new)(0 := demo_trust)"
  let ?one = "\<lparr>sk_skills = [((''a'', 2), demo_local)], sk_content_bytes = 20\<rparr>"
  have key: "trust_with_policy demo_skill_env ((\<lambda>_. trust_new) 0) ''pub'' demo_key publisher_policy_default = Inr demo_trust"
    by (simp add: trust_with_policy_def validate_publisher_policy_def publisher_policy_default_def validate_verifying_key_def demo_skill_env_def
        trust_new_def bm_contains_def bm_get_def skill_limits demo_trust_def)
  have "sk_register demo_skill_env ?empty BuiltIn (demo_skill ''a'' []) = Inr ?one"
    using demo_package_bytes [of "''a''" "[]"]
    by (simp add: sk_register_def sk_insert_def demo_skill_valid skill_registry_new_def validate_registry_growth_def usize_checked_add_def
        skill_limits bm_contains_def bm_get_def Let_def)
      (simp add: demo_local_def package_id_def demo_skill_def demo_manifest_def)
  note local = skill_registered [OF this, of ?heap]
  have "sk_register_signed_at demo_skill_env ?heap ?one (External ''x'') demo_signed 0 7 = Inr demo_registry"
    using demo_package_bytes [of "''b''" "[\<lparr>sd_name = ''a'', sd_version = 2\<rparr>]"] demo_verified
    by (simp add: sk_register_signed_at_def sk_insert_def validate_registry_growth_def usize_checked_add_def
        skill_limits bm_contains_def bm_get_def Let_def)
      (simp add: demo_external_def demo_registry_def demo_signed_def package_id_def demo_skill_def demo_manifest_def)
  note external = signed_registered [OF this]
  have "skill_step demo_skill_env skill_start (?heap, ?empty)" unfolding skill_start_def by (rule publisher_trusted [OF key])
  with local external show ?thesis by (meson rtranclp.rtrancl_into_rtrancl rtranclp.rtrancl_refl)
qed

section \<open>Properties\<close>

text \<open>
  C19: Only authentic Skills are registered. Whatever hosts do with their trust stores and the registry, every registered package passes the
  validation and is filed under its own identity, a package of external origin carries a signature that verifies under the
  key its publisher still has in the trust store, and a receipt that verifies under the key of a trusted log or a policy that needs
  none; others carry no trust at all; and the registry has at most 4096 packages, whose bytes it counts exactly and never
  above 64 MiB.
\<close>

theorem skill_registry_authentic:
  assumes "(skill_step env)\<^sup>*\<^sup>* skill_start (heap, registry)"
  shows "(\<forall>i rs. sk_get registry i = Some rs \<longrightarrow> rs_id rs = i \<and> authentic env heap rs) \<and>
    length (sk_identities registry) \<le> 4096 \<and> sk_content_bytes registry \<le> 67108864 \<and>
    sk_content_bytes registry = (\<Sum>rs\<leftarrow>bm_values (sk_skills registry). package_bytes env (rs_package rs))"
  using skill_reachable_inv [OF assms]
  by (auto simp: skill_inv_def bm_all_def sk_get_def sk_identities_def bm_keys_def skill_limits)

theorem skill_registry_authentic_witness:
  "authentic demo_skill_env ((\<lambda>_. trust_new)(0 := demo_trust)) demo_external \<and> rs_publisher_key_id demo_external = Some ''pub''"
proof -
  have "sk_get demo_registry (''b'', 2) = Some demo_external" by (simp add: sk_get_def demo_registry_def bm_get_def)
  with skill_registry_authentic [OF demo_registry_reachable] show ?thesis by (auto simp: demo_external_def)
qed

text \<open>
  The digest binds the content. A sealed package validates as it is; and when the hash and the encoder separate the two contents, a
  package that validates with the digest of a sealed one is that package, so that a signature over the digest holds for no other content.
\<close>

theorem skill_digest_binds:
  assumes seal: "seal env manifest instructions resources = Inr package"
    and other: "validate_package env other = Inr ()" "sp_content_sha256 other = sp_content_sha256 package"
    and hash: "\<And>a b. to_vec (se_digest env) \<lparr>dm_manifest = manifest, dm_instructions = instructions, dm_resources = resources\<rparr> = Some a \<Longrightarrow>
      to_vec (se_digest env) \<lparr>dm_manifest = sp_manifest other, dm_instructions = sp_instructions other, dm_resources = sp_resources other\<rparr> = Some b \<Longrightarrow>
      se_sha256 env a = se_sha256 env b \<Longrightarrow> a = b"
    and encoder: "to_vec (se_digest env) \<lparr>dm_manifest = manifest, dm_instructions = instructions, dm_resources = resources\<rparr> =
      to_vec (se_digest env) \<lparr>dm_manifest = sp_manifest other, dm_instructions = sp_instructions other, dm_resources = sp_resources other\<rparr> \<Longrightarrow>
      manifest = sp_manifest other \<and> instructions = sp_instructions other \<and> resources = sp_resources other"
  shows "validate_package env package = Inr () \<and> sp_manifest package = manifest \<and> sp_instructions package = instructions \<and>
    sp_resources package = resources \<and> other = package"
proof -
  from seal obtain a where package: "package = \<lparr>sp_manifest = manifest, sp_instructions = instructions, sp_resources = resources,
        sp_content_sha256 = lower_hex (se_sha256 env a)\<rparr>" "validate_package env package = Inr ()"
    and a: "to_vec (se_digest env) \<lparr>dm_manifest = manifest, dm_instructions = instructions, dm_resources = resources\<rparr> = Some a"
    by (auto simp: seal_def computed_sha256_def ok_iff Let_def)
  from other(1) obtain b where b: "to_vec (se_digest env)
      \<lparr>dm_manifest = sp_manifest other, dm_instructions = sp_instructions other, dm_resources = sp_resources other\<rparr> = Some b"
    "sp_content_sha256 other = lower_hex (se_sha256 env b)"
    by (auto simp: validate_package_def computed_sha256_def ok_iff Let_def)
  from b(2) other(2) package(1) have "se_sha256 env a = se_sha256 env b" by (auto dest: lower_hex_inj)
  from hash [OF a b(1) this] a b(1) encoder have "manifest = sp_manifest other \<and> instructions = sp_instructions other \<and> resources = sp_resources other"
    by simp
  with package other(2) show ?thesis by simp
qed

theorem skill_digest_binds_witness:
  "seal demo_skill_env (demo_manifest ''a'' []) ''text'' [(''x/y'', ''z'')] = Inr (demo_skill ''a'' []) \<and>
   validate_package demo_skill_env (demo_skill ''a'' []) = Inr ()"
proof -
  have valid: "validate_package demo_skill_env (demo_skill ''a'' []) = Inr ()" by (rule demo_skill_valid) simp
  have "computed_sha256 demo_skill_env (demo_skill ''a'' []) = Inr (sp_content_sha256 (demo_skill ''a'' []))"
    using valid by (auto simp: validate_package_def ok_iff Let_def)
  then have seal: "seal demo_skill_env (demo_manifest ''a'' []) ''text'' [(''x/y'', ''z'')] = Inr (demo_skill ''a'' [])"
    using valid by (simp add: seal_def computed_sha256_def demo_skill_def)
  from skill_digest_binds [OF seal valid refl] seal show ?thesis by (simp add: demo_skill_def)
qed

end
