(* ===== verification/Skill_Resolver.thy ===== *)
theory Skill_Resolver
  imports Skill
begin

text \<open>
  The Skill engine of \<^verbatim>\<open>skill/mod.rs\<close>: the resolution of requested Skills into a list with dependencies first, its budget, the
  context blocks, the trust checks that travel with the result, and the reading of single resources.
\<close>

section \<open>Operations\<close>

datatype memory_view = Locator | Overview | Detail

datatype context_source =
    Memory_source string string memory_view "string option"
  | Skill_source string string string
  | Conversation_summary string "string list" usize string string
  | Invocation string string string string

record context_block =
  cb_source :: context_source
  cb_text :: string
  cb_estimated_tokens :: usize

record 'v resolved_skill =
  rv_id :: "'v skill_id"
  rv_content_sha256 :: string
  rv_origin :: capability_origin
  rv_publisher_key_id :: "string option"
  rv_transparency :: "verified_transparency option"

record resolved_skill_trust =
  rk_trust :: nat
  rk_publisher_key_id :: string
  rk_transparency_log_id :: "string option"

record 'v resolved_skill_set =
  rss_skills :: "'v resolved_skill list"
  rss_context :: "context_block list"
  rss_estimated_tokens :: usize
  rss_trust_checks :: "resolved_skill_trust list"

definition resolved_trust_validate :: "trust_heap \<Rightarrow> resolved_skill_trust \<Rightarrow> u64 \<Rightarrow> unit result" where
  "resolved_trust_validate heap check observed_at_ms =
     revalidate_registered (heap (rk_trust check)) (rk_publisher_key_id check) (rk_transparency_log_id check) observed_at_ms"

definition into_context_and_trust :: "'v resolved_skill_set \<Rightarrow> context_block list \<times> resolved_skill_trust list" where
  "into_context_and_trust resolved = (rss_context resolved, rss_trust_checks resolved)"

definition validate_registered_skill_trust :: "trust_heap \<Rightarrow> 'v registered_skill \<Rightarrow> u64 \<Rightarrow> unit result" where
  "validate_registered_skill_trust heap registered observed_at_ms =
     (case (is_external (rs_origin registered), rs_publisher_key_id registered, rs_publisher_trust registered) of
        (True, Some key_id, Some trust) \<Rightarrow>
          revalidate_registered (heap trust) key_id (map_option vt_log_id (rs_transparency registered)) observed_at_ms
      | (True, _, _) \<Rightarrow> sk_err S_no_live_trust
      | (False, None, None) \<Rightarrow> Inr ()
      | _ \<Rightarrow> sk_err S_foreign_trust)"

definition skill_dependencies :: "'v registered_skill \<Rightarrow> 'v skill_id list" where
  "skill_dependencies registered = map dependency_id (sm_dependencies (sp_manifest (rs_package registered)))"

text \<open>
  The depth-first search. \<open>tools\<close> are the names in the Tool registry. As in the Task Graph, a successful visit takes out of
  \<open>visiting\<close> what it put in, so the set is passed down and only the visited Skills and their order are returned.
\<close>

definition skill_usable :: "trust_heap \<Rightarrow> string set \<Rightarrow> u64 \<Rightarrow> 'v registered_skill \<Rightarrow> unit result" where
  "skill_usable heap tools observed_at_ms registered =
     and_then (validate_registered_skill_trust heap registered observed_at_ms) (\<lambda>_.
     for_each (\<lambda>tool. if tool \<notin> tools then sk_err (S_missing_tool tool) else Inr ())
       (sm_required_tools (sp_manifest (rs_package registered))))"

function (sequential) sk_visit ::
  "trust_heap \<Rightarrow> ('v::linorder) skill_registry \<Rightarrow> string set \<Rightarrow> u64 \<Rightarrow> 'v skill_id set \<Rightarrow>
   'v skill_id set \<times> 'v skill_id list \<Rightarrow> 'v skill_id \<Rightarrow> ('v skill_id set \<times> 'v skill_id list) result"
  and sk_visit_dependencies ::
  "trust_heap \<Rightarrow> ('v::linorder) skill_registry \<Rightarrow> string set \<Rightarrow> u64 \<Rightarrow> 'v skill_id set \<Rightarrow>
   'v skill_id set \<times> 'v skill_id list \<Rightarrow> 'v skill_id list \<Rightarrow> ('v skill_id set \<times> 'v skill_id list) result" where
  "sk_visit heap registry tools now visiting seen i =
     (if i \<in> fst seen then Inr seen
      else if i \<in> visiting then sk_err S_cycle
      else
        (case sk_get registry i of
           None \<Rightarrow> sk_err S_not_registered
         | Some registered \<Rightarrow>
             and_then (skill_usable heap tools now registered) (\<lambda>_.
             and_then (sk_visit_dependencies heap registry tools now (insert i visiting) seen (skill_dependencies registered)) (\<lambda>d.
             Inr (insert i (fst d), snd d @ [i])))))"
| "sk_visit_dependencies heap registry tools now visiting seen [] = Inr seen"
| "sk_visit_dependencies heap registry tools now visiting seen (d # ds) =
     and_then (sk_visit heap registry tools now visiting seen d) (\<lambda>d'.
     sk_visit_dependencies heap registry tools now visiting d' ds)"
  by pat_completeness auto
termination
proof (relation "measures [\<lambda>x. case x of
      Inl (_, registry, _, _, visiting, _, _) \<Rightarrow> card (set (sk_identities registry) - visiting)
    | Inr (_, registry, _, _, visiting, _, _) \<Rightarrow> card (set (sk_identities registry) - visiting),
    \<lambda>x. case x of Inl _ \<Rightarrow> 0 | Inr (_, _, _, _, _, _, ds) \<Rightarrow> Suc (length ds)]", goal_cases)
  case (2 heap registry tools now visiting seen i registered)
  then have "i \<in> set (sk_identities registry) - visiting"
    by (force simp: sk_get_def bm_get_def sk_identities_def bm_keys_def dest: map_of_SomeD)
  then have "card (set (sk_identities registry) - insert i visiting) < card (set (sk_identities registry) - visiting)"
    by (intro psubset_card_mono) auto
  then show ?case by simp
qed simp_all

definition resolved_of :: "'v skill_id \<Rightarrow> 'v registered_skill \<Rightarrow> 'v resolved_skill" where
  "resolved_of i registered = \<lparr>rv_id = i, rv_content_sha256 = sp_content_sha256 (rs_package registered), rv_origin = rs_origin registered,
     rv_publisher_key_id = rs_publisher_key_id registered, rv_transparency = rs_transparency registered\<rparr>"

definition block_of :: "'v skill_env \<Rightarrow> 'v skill_id \<Rightarrow> 'v registered_skill \<Rightarrow> context_block" where
  "block_of env i registered = \<lparr>cb_source = Skill_source (fst i) (se_version_string env (snd i)) (sp_content_sha256 (rs_package registered)),
     cb_text = sp_instructions (rs_package registered), cb_estimated_tokens = sm_estimated_tokens (sp_manifest (rs_package registered))\<rparr>"

definition checks_of :: "'v registered_skill \<Rightarrow> resolved_skill_trust list" where
  "checks_of registered =
     (case (rs_publisher_trust registered, rs_publisher_key_id registered) of
        (Some trust, Some publisher_key_id) \<Rightarrow>
          [\<lparr>rk_trust = trust, rk_publisher_key_id = publisher_key_id, rk_transparency_log_id = map_option vt_log_id (rs_transparency registered)\<rparr>]
      | _ \<Rightarrow> [])"

definition resolve_item ::
  "('v::linorder) skill_env \<Rightarrow> 'v skill_registry \<Rightarrow> usize \<Rightarrow> 'v resolved_skill_set \<Rightarrow> 'v skill_id \<Rightarrow> 'v resolved_skill_set result" where
  "resolve_item env registry budget_tokens acc i =
     and_then (ok_or (Skill S_disappeared) (sk_get registry i)) (\<lambda>registered.
     and_then (ok_or (Skill S_token_overflow)
       (usize_checked_add (rss_estimated_tokens acc) (sm_estimated_tokens (sp_manifest (rs_package registered))))) (\<lambda>estimated_tokens.
     if estimated_tokens > budget_tokens then sk_err S_over_budget
     else Inr \<lparr>rss_skills = rss_skills acc @ [resolved_of i registered], rss_context = rss_context acc @ [block_of env i registered],
                rss_estimated_tokens = estimated_tokens, rss_trust_checks = rss_trust_checks acc @ checks_of registered\<rparr>))"

definition sk_resolve ::
  "('v::linorder) skill_env \<Rightarrow> trust_heap \<Rightarrow> 'v skill_registry \<Rightarrow> 'v skill_id list \<Rightarrow> string set \<Rightarrow> usize \<Rightarrow> u64 \<Rightarrow>
   'v resolved_skill_set result" where
  "sk_resolve env heap registry requested tools budget_tokens observed_at_ms =
     and_then (validate_registry_growth 0 (length requested)) (\<lambda>_.
     let roots = remdups_adj (sort requested) in
     and_then (try_fold (sk_visit heap registry tools observed_at_ms {}) ({}, []) roots) (\<lambda>seen.
     try_fold (resolve_item env registry budget_tokens)
       \<lparr>rss_skills = [], rss_context = [], rss_estimated_tokens = 0, rss_trust_checks = []\<rparr> (snd seen)))"

definition read_resource ::
  "trust_heap \<Rightarrow> ('v::linorder) skill_registry \<Rightarrow> 'v skill_id \<Rightarrow> string \<Rightarrow> u64 \<Rightarrow> string result" where
  "read_resource heap registry skill path observed_at_ms =
     and_then (validate_resource_path path) (\<lambda>_.
     and_then (ok_or (Skill S_not_registered) (sk_get registry skill)) (\<lambda>registered.
     and_then (validate_registered_skill_trust heap registered observed_at_ms) (\<lambda>_.
     ok_or (Skill (S_no_resource path)) (bm_get (sp_resources (rs_package registered)) path))))"

section \<open>The search finds the dependencies, in order\<close>

definition skill_depends :: "('v::linorder) skill_registry \<Rightarrow> ('v skill_id \<times> 'v skill_id) set" where
  "skill_depends registry = {(i, d). \<exists>rs. sk_get registry i = Some rs \<and> d \<in> set (skill_dependencies rs)}"

definition skill_closure :: "('v::linorder) skill_registry \<Rightarrow> 'v skill_id set \<Rightarrow> 'v skill_id set" where
  "skill_closure registry roots = (skill_depends registry)\<^sup>* `` roots"

definition dependencies_first :: "('v::linorder) skill_registry \<Rightarrow> 'v skill_id list \<Rightarrow> bool" where
  "dependencies_first registry is \<longleftrightarrow> (\<forall>n<length is. skill_depends registry `` {is ! n} \<subseteq> set (take n is))"

definition usable_in :: "trust_heap \<Rightarrow> ('v::linorder) skill_registry \<Rightarrow> string set \<Rightarrow> u64 \<Rightarrow> 'v skill_id \<Rightarrow> bool" where
  "usable_in heap registry tools now i \<longleftrightarrow> (\<exists>rs. sk_get registry i = Some rs \<and> skill_usable heap tools now rs = Inr ())"

lemma depends_image: "sk_get registry i = Some rs \<Longrightarrow> skill_depends registry `` {i} = set (skill_dependencies rs)"
  by (auto simp: skill_depends_def)

lemma dependencies_first_snoc:
  "dependencies_first registry (is @ [i]) \<longleftrightarrow> dependencies_first registry is \<and> skill_depends registry `` {i} \<subseteq> set is"
  unfolding dependencies_first_def by (auto simp: nth_append less_Suc_eq all_conj_distrib)

lemma closure_Un: "skill_closure registry (A \<union> B) = skill_closure registry A \<union> skill_closure registry B"
  by (auto simp: skill_closure_def)

lemma closure_roots: "A \<subseteq> skill_closure registry A"
  by (auto simp: skill_closure_def)

lemma closure_mono: "A \<subseteq> B \<Longrightarrow> skill_closure registry A \<subseteq> skill_closure registry B"
  by (auto simp: skill_closure_def)

lemma closure_dependencies:
  assumes "sk_get registry i = Some rs"
  shows "skill_closure registry (set (skill_dependencies rs)) \<subseteq> skill_closure registry {i}"
  unfolding skill_closure_def depends_image [OF assms, symmetric] by (auto intro: converse_rtrancl_into_rtrancl)

lemma closure_closed:
  assumes "\<And>i. i \<in> A \<Longrightarrow> skill_depends registry `` {i} \<subseteq> A" and "roots \<subseteq> A"
  shows "skill_closure registry roots \<subseteq> A"
proof -
  have "(i, d) \<in> (skill_depends registry)\<^sup>* \<Longrightarrow> i \<in> A \<Longrightarrow> d \<in> A" for i d
    by (induction rule: rtrancl_induct) (use assms(1) in blast)+
  with assms(2) show ?thesis unfolding skill_closure_def by blast
qed

declare sk_visit.simps [simp del]

text \<open>What the search keeps of its visited Skills.\<close>

definition seen_ok ::
  "trust_heap \<Rightarrow> ('v::linorder) skill_registry \<Rightarrow> string set \<Rightarrow> u64 \<Rightarrow> 'v skill_id set \<times> 'v skill_id list \<Rightarrow> bool" where
  "seen_ok heap registry tools now seen \<longleftrightarrow> fst seen = set (snd seen) \<and> distinct (snd seen) \<and>
     dependencies_first registry (snd seen) \<and> (\<forall>i\<in>fst seen. usable_in heap registry tools now i)"

definition seen_adds ::
  "('v::linorder) skill_registry \<Rightarrow> 'v skill_id set \<Rightarrow> 'v skill_id set \<Rightarrow> 'v skill_id set \<times> 'v skill_id list \<Rightarrow>
   'v skill_id set \<times> 'v skill_id list \<Rightarrow> bool" where
  "seen_adds registry visiting roots seen seen' \<longleftrightarrow> fst seen \<union> roots \<subseteq> fst seen' \<and>
     fst seen' \<subseteq> fst seen \<union> (skill_closure registry roots - visiting)"

lemma sk_visit_sound:
  shows "sk_visit heap registry tools now visiting seen i = Inr seen' \<Longrightarrow> seen_ok heap registry tools now seen \<Longrightarrow>
      seen_ok heap registry tools now seen' \<and> seen_adds registry visiting {i} seen seen'"
    and "sk_visit_dependencies heap registry tools now visiting seen ds = Inr seen' \<Longrightarrow> seen_ok heap registry tools now seen \<Longrightarrow>
      seen_ok heap registry tools now seen' \<and> seen_adds registry visiting (set ds) seen seen'"
proof (induction heap registry tools now visiting seen i and heap registry tools now visiting seen ds arbitrary: seen' and seen'
    rule: sk_visit_sk_visit_dependencies.induct)
  case (1 heap registry tools now visiting seen i)
  show ?case
  proof (cases "i \<in> fst seen")
    case True
    with "1.prems" show ?thesis by (auto simp: sk_visit.simps seen_adds_def)
  next
    case False
    with "1.prems"(1) obtain rs d where rs: "sk_get registry i = Some rs" and i: "i \<notin> visiting"
      and usable: "skill_usable heap tools now rs = Inr ()"
      and d: "sk_visit_dependencies heap registry tools now (insert i visiting) seen (skill_dependencies rs) = Inr d"
      and seen': "seen' = (insert i (fst d), snd d @ [i])"
      by (auto simp: sk_visit.simps [of _ _ _ _ _ _ i] ok_iff split: if_splits option.splits)
    from "1.IH" [OF False i rs usable d "1.prems"(2)] have
      ok: "seen_ok heap registry tools now d" and adds: "seen_adds registry (insert i visiting) (set (skill_dependencies rs)) seen d" by blast+
    have "i \<notin> fst d" using adds False by (auto simp: seen_adds_def)
    moreover have "skill_depends registry `` {i} \<subseteq> fst d" using adds depends_image [OF rs] by (auto simp: seen_adds_def)
    ultimately have "seen_ok heap registry tools now seen'"
      using ok rs usable by (auto simp: seen_ok_def seen' dependencies_first_snoc usable_in_def)
    moreover have "seen_adds registry visiting {i} seen seen'"
      using adds i closure_dependencies [OF rs] closure_roots [of "{i}" registry] unfolding seen_adds_def seen' fst_conv by blast
    ultimately show ?thesis ..
  qed
next
  case (3 heap registry tools now visiting seen d ds)
  from "3.prems"(1) obtain w where w: "sk_visit heap registry tools now visiting seen d = Inr w"
    "sk_visit_dependencies heap registry tools now visiting w ds = Inr seen'" by (auto simp: ok_iff)
  have parts: "skill_closure registry {d} \<subseteq> skill_closure registry (set (d # ds))" "skill_closure registry (set ds) \<subseteq> skill_closure registry (set (d # ds))"
    by (rule closure_mono, simp, blast?)+
  from "3.IH"(1) [OF w(1) "3.prems"(2)] "3.IH"(2) [OF w] have
    "seen_ok heap registry tools now seen'" "seen_adds registry visiting {d} seen w" "seen_adds registry visiting (set ds) w seen'" by blast+
  with parts show ?case unfolding seen_adds_def by (simp add: subset_iff) blast
qed (auto simp: seen_adds_def)

lemma roots_sound:
  assumes "try_fold (sk_visit heap registry tools now {}) ({}, []) roots = Inr seen"
  shows "seen_ok heap registry tools now seen \<and> fst seen = skill_closure registry (set roots)"
proof -
  have start: "seen_ok heap registry tools now ({}, [])" by (simp add: seen_ok_def dependencies_first_def)
  have "seen_ok heap registry tools now seen \<and> seen_adds registry {} (set roots) ({}, []) seen"
    using assms
  proof (induction rule: try_fold_prefix_induct)
    case (snoc xs x t t')
    have parts: "skill_closure registry (set (xs @ [x])) = skill_closure registry (set xs) \<union> skill_closure registry {x}"
      using closure_Un [of registry "set xs" "{x}"] by simp
    from sk_visit_sound(1) [OF snoc.hyps(2)] snoc.IH have "seen_ok heap registry tools now t'" "seen_adds registry {} {x} t t'"
      "seen_adds registry {} (set xs) ({}, []) t" by blast+
    then show ?case unfolding seen_adds_def parts by (simp add: subset_iff) blast
  qed (use start in \<open>simp add: seen_adds_def\<close>)
  moreover have "skill_closure registry (set roots) \<subseteq> fst seen" if ok: "seen_ok heap registry tools now seen" and "set roots \<subseteq> fst seen"
  proof (rule closure_closed [OF _ that(2)])
    fix i
    assume "i \<in> fst seen"
    with ok obtain n where "n < length (snd seen)" "i = snd seen ! n" by (auto simp: seen_ok_def in_set_conv_nth)
    with ok have "skill_depends registry `` {i} \<subseteq> set (take n (snd seen))" unfolding seen_ok_def dependencies_first_def by blast
    also have "\<dots> \<subseteq> fst seen" using ok set_take_subset unfolding seen_ok_def by metis
    finally show "skill_depends registry `` {i} \<subseteq> fst seen" .
  qed
  ultimately show ?thesis by (auto simp: seen_adds_def)
qed

section \<open>The search succeeds whenever it can\<close>

lemma sk_visit_complete:
  assumes "\<And>i. i \<in> R \<Longrightarrow> usable_in heap registry tools now i" and "\<And>i. i \<in> R \<Longrightarrow> skill_depends registry `` {i} \<subseteq> R"
    and "\<And>i. i \<in> R \<Longrightarrow> (i, i) \<notin> (skill_depends registry)\<^sup>+"
  shows "i \<in> R \<Longrightarrow> \<forall>v\<in>visiting. (v, i) \<in> (skill_depends registry)\<^sup>+ \<Longrightarrow>
      \<exists>seen'. sk_visit heap registry tools now visiting seen i = Inr seen'"
    and "set ds \<subseteq> R \<Longrightarrow> \<forall>d\<in>set ds. \<forall>v\<in>visiting. (v, d) \<in> (skill_depends registry)\<^sup>+ \<Longrightarrow>
      \<exists>seen'. sk_visit_dependencies heap registry tools now visiting seen ds = Inr seen'"
  using assms
proof (induction heap registry tools now visiting seen i and heap registry tools now visiting seen ds
    rule: sk_visit_sk_visit_dependencies.induct)
  case (1 heap registry tools now visiting seen i)
  have i: "i \<notin> visiting" using "1.prems"(1,2,5) by blast
  obtain rs where rs: "sk_get registry i = Some rs" "skill_usable heap tools now rs = Inr ()"
    using "1.prems"(1,3) unfolding usable_in_def by blast
  show ?case
  proof (cases "i \<in> fst seen")
    case False
    have deps: "set (skill_dependencies rs) = skill_depends registry `` {i}" by (simp add: depends_image [OF rs(1)])
    have "\<forall>d\<in>set (skill_dependencies rs). \<forall>v\<in>insert i visiting. (v, d) \<in> (skill_depends registry)\<^sup>+"
      using "1.prems"(2) unfolding deps by (auto intro: trancl_into_trancl)
    moreover have "set (skill_dependencies rs) \<subseteq> R" using "1.prems"(1,4) unfolding deps by blast
    ultimately obtain d where "sk_visit_dependencies heap registry tools now (insert i visiting) seen (skill_dependencies rs) = Inr d"
      using "1.IH" [OF False i rs] "1.prems"(3-5) by blast
    with False i rs show ?thesis by (simp add: sk_visit.simps [of _ _ _ _ _ _ i])
  qed (simp add: sk_visit.simps)
next
  case (3 heap registry tools now visiting seen d ds)
  then obtain w where w: "sk_visit heap registry tools now visiting seen d = Inr w" by auto
  from "3.IH"(2) [OF w] "3.prems" show ?case by (simp add: w)
qed simp

lemma roots_complete:
  assumes "\<And>i. i \<in> skill_closure registry (set roots) \<Longrightarrow> usable_in heap registry tools now i"
    and "\<And>i. i \<in> skill_closure registry (set roots) \<Longrightarrow> (i, i) \<notin> (skill_depends registry)\<^sup>+"
  shows "\<exists>seen'. try_fold (sk_visit heap registry tools now {}) seen roots = Inr seen'"
proof -
  have closed: "skill_depends registry `` {i} \<subseteq> skill_closure registry (set roots)" if "i \<in> skill_closure registry (set roots)" for i
    using that unfolding skill_closure_def by (auto intro: rtrancl_into_rtrancl)
  note visit = sk_visit_complete(1) [where R = "skill_closure registry (set roots)" and visiting = "{}", OF assms(1) closed assms(2)]
  have "set rs \<subseteq> skill_closure registry (set roots) \<Longrightarrow> \<exists>seen'. try_fold (sk_visit heap registry tools now {}) seen rs = Inr seen'" for rs seen
  proof (induction rs arbitrary: seen)
    case (Cons r rs)
    then obtain w where "sk_visit heap registry tools now {} seen r = Inr w" using visit [of r seen] by auto
    with Cons show ?case by simp
  qed simp
  then show ?thesis using closure_roots by blast
qed

lemma search_succeeds_iff:
  "(\<exists>seen. try_fold (sk_visit heap registry tools now {}) ({}, []) roots = Inr seen) \<longleftrightarrow>
   (\<forall>i\<in>skill_closure registry (set roots). usable_in heap registry tools now i \<and> (i, i) \<notin> (skill_depends registry)\<^sup>+)"
proof
  assume "\<exists>seen. try_fold (sk_visit heap registry tools now {}) ({}, []) roots = Inr seen"
  then obtain seen where "try_fold (sk_visit heap registry tools now {}) ({}, []) roots = Inr seen" ..
  then have ok: "seen_ok heap registry tools now seen" "fst seen = skill_closure registry (set roots)" using roots_sound by blast+
  let ?is = "snd seen"
  have earlier: "\<exists>m<n. d = ?is ! m" if "n < length ?is" "(?is ! n, d) \<in> skill_depends registry" for n d
  proof -
    have "d \<in> set (take n ?is)" using ok(1) that unfolding seen_ok_def dependencies_first_def by blast
    then show ?thesis using that(1) by (fastforce simp only: in_set_conv_nth length_take nth_take min.absorb2 less_imp_le)
  qed
  have descends: "n < length ?is \<Longrightarrow> \<exists>m<n. d = ?is ! m" if "(i, d) \<in> (skill_depends registry)\<^sup>+" "i = ?is ! n" for i d n
    using that
  proof (induction rule: trancl_induct)
    case (step y z)
    then obtain m where "m < n" "y = ?is ! m" by blast
    with earlier [of m z] step show ?case by (auto intro: less_trans)
  qed (use earlier in blast)
  show "\<forall>i\<in>skill_closure registry (set roots). usable_in heap registry tools now i \<and> (i, i) \<notin> (skill_depends registry)\<^sup>+"
  proof (intro ballI conjI notI)
    fix i
    assume "i \<in> skill_closure registry (set roots)"
    then have i: "i \<in> fst seen" using ok(2) by simp
    then show "usable_in heap registry tools now i" using ok(1) unfolding seen_ok_def by blast
    assume "(i, i) \<in> (skill_depends registry)\<^sup>+"
    moreover obtain n where n: "n < length ?is" "i = ?is ! n" using i ok(1) unfolding seen_ok_def by (metis in_set_conv_nth)
    ultimately obtain m where "m < n" "i = ?is ! m" using descends by blast
    with n ok(1) show False by (auto simp: seen_ok_def nth_eq_iff_index_eq)
  qed
next
  assume "\<forall>i\<in>skill_closure registry (set roots). usable_in heap registry tools now i \<and> (i, i) \<notin> (skill_depends registry)\<^sup>+"
  then show "\<exists>seen. try_fold (sk_visit heap registry tools now {}) ({}, []) roots = Inr seen"
    by (intro roots_complete) auto
qed

section \<open>The budget\<close>

definition skill_tokens :: "('v::linorder) skill_registry \<Rightarrow> 'v skill_id \<Rightarrow> nat" where
  "skill_tokens registry i = (case sk_get registry i of None \<Rightarrow> 0 | Some rs \<Rightarrow> sm_estimated_tokens (sp_manifest (rs_package rs)))"

definition registered_at :: "('v::linorder) skill_registry \<Rightarrow> 'v skill_id \<Rightarrow> 'v registered_skill" where
  "registered_at registry i = the (sk_get registry i)"

lemma resolve_item_ok:
  assumes "sk_get registry i = Some rs" and "budget_tokens < 2 ^ 64"
  shows "resolve_item env registry budget_tokens acc i = Inr acc' \<longleftrightarrow>
    rss_estimated_tokens acc + skill_tokens registry i \<le> budget_tokens \<and>
    acc' = \<lparr>rss_skills = rss_skills acc @ [resolved_of i rs], rss_context = rss_context acc @ [block_of env i rs],
      rss_estimated_tokens = rss_estimated_tokens acc + skill_tokens registry i, rss_trust_checks = rss_trust_checks acc @ checks_of rs\<rparr>"
  using assms by (auto simp: resolve_item_def ok_iff usize_checked_add_def skill_tokens_def split: if_splits)

lemma resolve_items_ok:
  assumes "\<forall>i\<in>set is. sk_get registry i \<noteq> None" and budget: "budget_tokens < 2 ^ 64" and "rss_estimated_tokens acc \<le> budget_tokens"
  shows "try_fold (resolve_item env registry budget_tokens) acc is = Inr acc' \<longleftrightarrow>
    rss_estimated_tokens acc + (\<Sum>i\<leftarrow>is. skill_tokens registry i) \<le> budget_tokens \<and>
    acc' = \<lparr>rss_skills = rss_skills acc @ map (\<lambda>i. resolved_of i (registered_at registry i)) is,
      rss_context = rss_context acc @ map (\<lambda>i. block_of env i (registered_at registry i)) is,
      rss_estimated_tokens = rss_estimated_tokens acc + (\<Sum>i\<leftarrow>is. skill_tokens registry i),
      rss_trust_checks = rss_trust_checks acc @ concat (map (\<lambda>i. checks_of (registered_at registry i)) is)\<rparr>"
  using assms(1,3)
proof (induction "is" arbitrary: acc)
  case (Cons i "is")
  then obtain rs where rs: "sk_get registry i = Some rs" by auto
  let ?acc = "\<lparr>rss_skills = rss_skills acc @ [resolved_of i rs], rss_context = rss_context acc @ [block_of env i rs],
      rss_estimated_tokens = rss_estimated_tokens acc + skill_tokens registry i, rss_trust_checks = rss_trust_checks acc @ checks_of rs\<rparr>"
  have step: "try_fold (resolve_item env registry budget_tokens) acc (i # is) = Inr acc' \<longleftrightarrow>
      rss_estimated_tokens acc + skill_tokens registry i \<le> budget_tokens \<and> try_fold (resolve_item env registry budget_tokens) ?acc is = Inr acc'"
    by (simp add: ok_iff resolve_item_ok [OF rs budget])
  show ?case
  proof (cases "rss_estimated_tokens acc + skill_tokens registry i \<le> budget_tokens")
    case True
    have "rss_estimated_tokens ?acc \<le> budget_tokens" "\<forall>i\<in>set is. sk_get registry i \<noteq> None" using True Cons.prems by simp_all
    from step Cons.IH [OF this(2,1)] True show ?thesis by (simp add: registered_at_def rs add.assoc)
  qed (use step in simp)
qed (auto simp: resolved_skill_set.equality)

lemma usable_registered: "usable_in heap registry tools now i \<Longrightarrow> sk_get registry i \<noteq> None"
  by (auto simp: usable_in_def)

lemma set_roots [simp]: "set (remdups_adj (sort requested)) = set requested"
  by simp

lemma sk_resolve_ok:
  assumes "budget_tokens < 2 ^ 64"
  shows "sk_resolve env heap registry requested tools budget_tokens now = Inr resolved \<longleftrightarrow>
    length requested \<le> MAX_CAPABILITY_REGISTRY_ENTRIES \<and>
    (\<exists>seen. try_fold (sk_visit heap registry tools now {}) ({}, []) (remdups_adj (sort requested)) = Inr seen \<and>
       (\<Sum>i\<leftarrow>snd seen. skill_tokens registry i) \<le> budget_tokens \<and>
       resolved = \<lparr>rss_skills = map (\<lambda>i. resolved_of i (registered_at registry i)) (snd seen),
         rss_context = map (\<lambda>i. block_of env i (registered_at registry i)) (snd seen),
         rss_estimated_tokens = (\<Sum>i\<leftarrow>snd seen. skill_tokens registry i),
         rss_trust_checks = concat (map (\<lambda>i. checks_of (registered_at registry i)) (snd seen))\<rparr>)"
proof -
  have "try_fold (resolve_item env registry budget_tokens)
       \<lparr>rss_skills = [], rss_context = [], rss_estimated_tokens = 0, rss_trust_checks = []\<rparr> (snd seen) = Inr resolved \<longleftrightarrow>
     (\<Sum>i\<leftarrow>snd seen. skill_tokens registry i) \<le> budget_tokens \<and>
     resolved = \<lparr>rss_skills = map (\<lambda>i. resolved_of i (registered_at registry i)) (snd seen),
         rss_context = map (\<lambda>i. block_of env i (registered_at registry i)) (snd seen),
         rss_estimated_tokens = (\<Sum>i\<leftarrow>snd seen. skill_tokens registry i),
         rss_trust_checks = concat (map (\<lambda>i. checks_of (registered_at registry i)) (snd seen))\<rparr>"
    if "try_fold (sk_visit heap registry tools now {}) ({}, []) (remdups_adj (sort requested)) = Inr seen" for seen
  proof -
    have "\<forall>i\<in>set (snd seen). sk_get registry i \<noteq> None"
      using conjunct1 [OF roots_sound [OF that]] usable_registered unfolding seen_ok_def by metis
    from resolve_items_ok [OF this assms, of "\<lparr>rss_skills = [], rss_context = [], rss_estimated_tokens = 0, rss_trust_checks = []\<rparr>"]
    show ?thesis by simp
  qed
  then show ?thesis by (auto simp: sk_resolve_def ok_iff Let_def)
qed

lemma resolved_usable:
  assumes "sk_resolve env heap registry requested tools budget_tokens now = Inr resolved" and "budget_tokens < 2 ^ 64"
    and "i \<in> rv_id ` set (rss_skills resolved)"
  shows "usable_in heap registry tools now i"
proof -
  from assms(1) sk_resolve_ok [OF assms(2)] obtain seen where
    seen: "try_fold (sk_visit heap registry tools now {}) ({}, []) (remdups_adj (sort requested)) = Inr seen"
    and "resolved = \<lparr>rss_skills = map (\<lambda>i. resolved_of i (registered_at registry i)) (snd seen),
         rss_context = map (\<lambda>i. block_of env i (registered_at registry i)) (snd seen),
         rss_estimated_tokens = (\<Sum>i\<leftarrow>snd seen. skill_tokens registry i),
         rss_trust_checks = concat (map (\<lambda>i. checks_of (registered_at registry i)) (snd seen))\<rparr>" by blast
  with assms(3) have "i \<in> set (snd seen)" by (auto simp: resolved_of_def)
  with roots_sound [OF seen] show ?thesis by (simp add: seen_ok_def)
qed

section \<open>A concrete resolution\<close>

definition demo_revoked_heap :: trust_heap where
  "demo_revoked_heap = (\<lambda>_. trust_new)(0 := \<lparr>tst_publishers = [(''pub'', \<lparr>tp_key = demo_key, tp_policy = publisher_policy_default,
     tp_revocation = Some \<lparr>kr_revoked_at_ms = 9, kr_reason_code = ''a''\<rparr>\<rparr>)], tst_logs = []\<rparr>)"

definition demo_heap :: trust_heap where
  "demo_heap = (\<lambda>_. trust_new)(0 := demo_trust)"

definition demo_resolved :: "nat resolved_skill_set" where
  "demo_resolved = \<lparr>rss_skills = [resolved_of (''a'', 2) demo_local, resolved_of (''b'', 2) demo_external],
     rss_context = [block_of demo_skill_env (''a'', 2) demo_local, block_of demo_skill_env (''b'', 2) demo_external],
     rss_estimated_tokens = 10, rss_trust_checks = checks_of demo_external\<rparr>"

lemma demo_gets [simp]: "sk_get demo_registry (''a'', 2) = Some demo_local" "sk_get demo_registry (''b'', 2) = Some demo_external"
  by (simp_all add: sk_get_def demo_registry_def bm_get_def)

lemma demo_packages [simp]:
  "skill_dependencies demo_local = []" "skill_dependencies demo_external = [(''a'', 2)]"
  "sm_required_tools (sp_manifest (rs_package demo_local)) = [''send'']" "sm_required_tools (sp_manifest (rs_package demo_external)) = [''send'']"
  "sm_estimated_tokens (sp_manifest (rs_package demo_local)) = 5" "sm_estimated_tokens (sp_manifest (rs_package demo_external)) = 5"
  by (simp_all add: skill_dependencies_def dependency_id_def demo_local_def demo_external_def demo_signed_def demo_skill_def demo_manifest_def)

lemma demo_live [simp]:
  "validate_registered_skill_trust demo_heap demo_local 7 = Inr ()" "validate_registered_skill_trust demo_heap demo_external 7 = Inr ()"
  by (simp_all add: validate_registered_skill_trust_def demo_local_def demo_external_def demo_heap_def demo_trust_def revalidate_registered_def
      bm_get_def validate_anchor_status_def publisher_policy_default_def)

lemma demo_resolves: "sk_resolve demo_skill_env demo_heap demo_registry [(''b'', 2)] {''send''} 10 7 = Inr demo_resolved"
  by (simp add: sk_resolve_def validate_registry_growth_def usize_checked_add_def MAX_CAPABILITY_REGISTRY_ENTRIES_def sk_visit.simps
      skill_usable_def resolve_item_def demo_resolved_def checks_of_def [of demo_local]) (simp add: demo_local_def)

section \<open>Properties\<close>

text \<open>
  C16: A resolution is exact and ordered. The resolved Skills are the requested ones and everything they depend on, directly or not, and nothing
  else, each once, every dependency before the Skills that need it; each is registered, has live trust and all its Tools; the
  blocks carry the instructions of the Skills in this order, and the tokens are their sum, within the budget.
\<close>

theorem skill_resolution_exact:
  assumes "sk_resolve env heap registry requested tools budget_tokens now = Inr resolved" and "budget_tokens < 2 ^ 64"
  shows "distinct (map rv_id (rss_skills resolved)) \<and>
    set (map rv_id (rss_skills resolved)) = (skill_depends registry)\<^sup>* `` set requested \<and>
    (\<forall>n<length (rss_skills resolved). skill_depends registry `` {rv_id (rss_skills resolved ! n)} \<subseteq> set (take n (map rv_id (rss_skills resolved)))) \<and>
    (\<forall>i\<in>set (map rv_id (rss_skills resolved)). \<exists>rs. sk_get registry i = Some rs \<and> skill_usable heap tools now rs = Inr ()) \<and>
    map cb_text (rss_context resolved) =
      map (\<lambda>s. sp_instructions (rs_package (the (sk_get registry (rv_id s))))) (rss_skills resolved) \<and>
    rss_estimated_tokens resolved = (\<Sum>s\<leftarrow>rss_skills resolved. skill_tokens registry (rv_id s)) \<and>
    rss_estimated_tokens resolved \<le> budget_tokens"
proof -
  from assms(1) sk_resolve_ok [OF assms(2)] obtain seen where
    seen: "try_fold (sk_visit heap registry tools now {}) ({}, []) (remdups_adj (sort requested)) = Inr seen"
    and tokens: "(\<Sum>i\<leftarrow>snd seen. skill_tokens registry i) \<le> budget_tokens"
    and resolved: "resolved = \<lparr>rss_skills = map (\<lambda>i. resolved_of i (registered_at registry i)) (snd seen),
         rss_context = map (\<lambda>i. block_of env i (registered_at registry i)) (snd seen),
         rss_estimated_tokens = (\<Sum>i\<leftarrow>snd seen. skill_tokens registry i),
         rss_trust_checks = concat (map (\<lambda>i. checks_of (registered_at registry i)) (snd seen))\<rparr>" by blast
  have rv: "rv_id (resolved_of i (registered_at registry i)) = i" for i by (simp add: resolved_of_def)
  have ids: "map rv_id (rss_skills resolved) = snd seen" by (simp add: resolved comp_def rv)
  have body: "cb_text (block_of env i (registered_at registry i)) = sp_instructions (rs_package (the (sk_get registry i)))" for i
    by (simp add: block_of_def registered_at_def)
  from roots_sound [OF seen] have ok: "seen_ok heap registry tools now seen" "fst seen = skill_closure registry (set requested)" by simp_all
  show ?thesis
    using ok tokens unfolding ids seen_ok_def dependencies_first_def skill_closure_def usable_in_def
    by (auto simp: resolved comp_def rv body)
qed

theorem skill_resolution_exact_witness:
  "map rv_id (rss_skills demo_resolved) = [(''a'', 2), (''b'', 2)] \<and>
   set (map rv_id (rss_skills demo_resolved)) = (skill_depends demo_registry)\<^sup>* `` {(''b'', 2)}"
  using skill_resolution_exact [OF demo_resolves] by (simp add: demo_resolved_def resolved_of_def)

text \<open>
  C17: A resolution succeeds exactly when it can: at most 4096 Skills are requested, everything they depend on is registered, has live trust and
  its Tools, no Skill among them depends on itself through others, and all of them together fit the budget.
\<close>

theorem skill_resolution_succeeds_iff:
  assumes "budget_tokens < 2 ^ 64"
  shows "(\<exists>resolved. sk_resolve env heap registry requested tools budget_tokens now = Inr resolved) \<longleftrightarrow>
    length requested \<le> 4096 \<and>
    (\<forall>i\<in>(skill_depends registry)\<^sup>* `` set requested.
       (\<exists>rs. sk_get registry i = Some rs \<and> skill_usable heap tools now rs = Inr ()) \<and> (i, i) \<notin> (skill_depends registry)\<^sup>+) \<and>
    (\<Sum>i\<in>(skill_depends registry)\<^sup>* `` set requested. skill_tokens registry i) \<le> budget_tokens"
proof -
  have sum: "(\<Sum>i\<leftarrow>snd seen. skill_tokens registry i) = (\<Sum>i\<in>(skill_depends registry)\<^sup>* `` set requested. skill_tokens registry i)"
    if "try_fold (sk_visit heap registry tools now {}) ({}, []) (remdups_adj (sort requested)) = Inr seen" for seen
    using roots_sound [OF that] by (auto simp: seen_ok_def skill_closure_def sum_list_distinct_conv_sum_set)
  have "(\<exists>resolved. sk_resolve env heap registry requested tools budget_tokens now = Inr resolved) \<longleftrightarrow>
      length requested \<le> MAX_CAPABILITY_REGISTRY_ENTRIES \<and>
      (\<exists>seen. try_fold (sk_visit heap registry tools now {}) ({}, []) (remdups_adj (sort requested)) = Inr seen) \<and>
      (\<Sum>i\<in>(skill_depends registry)\<^sup>* `` set requested. skill_tokens registry i) \<le> budget_tokens"
    unfolding sk_resolve_ok [OF assms] using sum by metis
  then show ?thesis
    unfolding search_succeeds_iff set_roots skill_closure_def usable_in_def by (simp add: MAX_CAPABILITY_REGISTRY_ENTRIES_def)
qed

theorem skill_resolution_succeeds_iff_witness:
  "((''b'', 2), (''b'', 2)) \<notin> (skill_depends demo_registry)\<^sup>+ \<and> (\<Sum>i\<in>(skill_depends demo_registry)\<^sup>* `` {(''b'', 2)}. skill_tokens demo_registry i) \<le> 10"
proof -
  have "(10 :: nat) < 2 ^ 64" by simp
  from skill_resolution_succeeds_iff [OF this, of demo_skill_env demo_heap demo_registry "[(''b'', 2)]" "{''send''}" 7] demo_resolves show ?thesis
    by auto
qed

text \<open>
  C18: A revocation is live and final. Once the key of a publisher is revoked in a trust store, then whatever happens later, from the time of
  the revocation on no package of that publisher is registered with this store, the ones registered with it are in no resolution
  and none of their resources can be read, and the trust checks of resolutions made earlier fail.
\<close>

theorem skill_revocation_final:
  assumes steps: "(skill_step env)\<^sup>*\<^sup>* (heap, registry) (heap', registry')"
    and revoked: "bm_get (tst_publishers (heap r)) key = Some publisher" "tp_revocation publisher = Some revocation"
    and time: "kr_revoked_at_ms revocation \<le> now"
  shows "(\<forall>signed_pkg origin. sg_key_id (ss_signature signed_pkg) = key \<longrightarrow>
      \<not> is_ok (sk_register_signed_at env heap' registry' origin signed_pkg r now)) \<and>
    (\<forall>i rs. sk_get registry' i = Some rs \<and> is_external (rs_origin rs) \<and> rs_publisher_key_id rs = Some key \<and> rs_publisher_trust rs = Some r \<longrightarrow>
      (\<forall>path. \<not> is_ok (read_resource heap' registry' i path now)) \<and>
      (\<forall>requested tools budget_tokens resolved. budget_tokens < 2 ^ 64 \<and>
         sk_resolve env heap' registry' requested tools budget_tokens now = Inr resolved \<longrightarrow> i \<notin> rv_id ` set (rss_skills resolved))) \<and>
    (\<forall>check. rk_trust check = r \<and> rk_publisher_key_id check = key \<longrightarrow> \<not> is_ok (resolved_trust_validate heap' check now))"
proof -
  obtain publisher' where publisher': "bm_get (tst_publishers (heap' r)) key = Some publisher'" "tp_revocation publisher' = Some revocation"
    using trust_extends_publisher [OF skill_steps_heap [OF steps, of r], of key publisher] revoked by auto
  have anchor: "validate_anchor_status i a b (Some revocation) now \<noteq> Inr ()" for i a b
    using time by (auto simp: validate_anchor_status_def sk_err_def)
  have revalidate: "revalidate_registered (heap' r) key log now \<noteq> Inr ()" for log
    using publisher' anchor by (auto simp: revalidate_registered_def ok_iff)
  have dead: "validate_registered_skill_trust heap' rs now \<noteq> Inr ()"
    if "is_external (rs_origin rs)" "rs_publisher_key_id rs = Some key" "rs_publisher_trust rs = Some r" for rs :: "'a registered_skill"
    using that revalidate by (simp add: validate_registered_skill_trust_def)
  show ?thesis
  proof (intro conjI allI impI)
    fix signed_pkg :: "'a signed_skill_package" and origin
    assume "sg_key_id (ss_signature signed_pkg) = key"
    then show "\<not> is_ok (sk_register_signed_at env heap' registry' origin signed_pkg r now)"
      using publisher' anchor by (auto simp: is_ok_iff sk_register_signed_at_def trust_verify_def ok_iff Let_def)
  next
    fix i rs path
    assume "sk_get registry' i = Some rs \<and> is_external (rs_origin rs) \<and> rs_publisher_key_id rs = Some key \<and> rs_publisher_trust rs = Some r"
    with dead show "\<not> is_ok (read_resource heap' registry' i path now)" by (auto simp: is_ok_iff read_resource_def ok_iff)
  next
    fix i rs requested tools budget_tokens resolved
    assume rs: "sk_get registry' i = Some rs \<and> is_external (rs_origin rs) \<and> rs_publisher_key_id rs = Some key \<and> rs_publisher_trust rs = Some r"
      and resolve: "budget_tokens < 2 ^ 64 \<and> sk_resolve env heap' registry' requested tools budget_tokens now = Inr resolved"
    show "i \<notin> rv_id ` set (rss_skills resolved)"
    proof
      assume "i \<in> rv_id ` set (rss_skills resolved)"
      from resolved_usable [OF conjunct2 [OF resolve] conjunct1 [OF resolve] this] rs dead [of rs] show False
        by (auto simp: usable_in_def skill_usable_def ok_iff)
    qed
  next
    fix check :: resolved_skill_trust
    assume "rk_trust check = r \<and> rk_publisher_key_id check = key"
    with revalidate show "\<not> is_ok (resolved_trust_validate heap' check now)" by (auto simp: is_ok_iff resolved_trust_validate_def)
  qed
qed

theorem skill_revocation_final_witness:
  "\<not> is_ok (read_resource demo_revoked_heap demo_registry (''b'', 2) ''x/y'' 9) \<and>
   is_ok (read_resource demo_heap demo_registry (''b'', 2) ''x/y'' 7)"
proof -
  let ?publisher = "\<lparr>tp_key = demo_key, tp_policy = publisher_policy_default, tp_revocation = Some \<lparr>kr_revoked_at_ms = 9, kr_reason_code = ''a''\<rparr>\<rparr>"
  have get: "bm_get (tst_publishers (demo_revoked_heap 0)) ''pub'' = Some ?publisher" by (simp add: demo_revoked_heap_def bm_get_def)
  have revoked: "tp_revocation ?publisher = Some \<lparr>kr_revoked_at_ms = 9, kr_reason_code = ''a''\<rparr>" by simp
  have time: "kr_revoked_at_ms \<lparr>kr_revoked_at_ms = 9, kr_reason_code = ''a''\<rparr> \<le> (9 :: u64)" by simp
  have external: "is_external (rs_origin demo_external)" "rs_publisher_key_id demo_external = Some ''pub''" "rs_publisher_trust demo_external = Some 0"
    by (simp_all add: demo_external_def)
  have "is_ok (read_resource demo_heap demo_registry (''b'', 2) ''x/y'' 7)"
    by (simp add: read_resource_def validate_resource_path_def) (simp add: demo_external_def demo_signed_def demo_skill_def bm_get_def)
  moreover have steps: "(skill_step demo_skill_env)\<^sup>*\<^sup>* (demo_revoked_heap, demo_registry) (demo_revoked_heap, demo_registry)" by simp
  moreover note skill_revocation_final [OF steps get revoked time]
  ultimately show ?thesis using external demo_gets(2) by blast
qed

end
