(* ===== verification/Spec2Isabelle.thy ===== *)
theory Spec2Isabelle
  imports Event_Store Temporal Approval Governor_Sql Executor_System Reconciler Skill_Resolver
begin

text \<open>
  Y-Harness is a runtime for agents. Its durable work is kept in four kinds of objects, each a
  small state machine with its own module under \<^verbatim>\<open>src/src\<close>. A coordinator stores the objects of a kind
  under a revision, an engine puts the rules that span two kinds in front of it, and the temporal driver
  finds the objects whose time has come and moves them on. The events of agent loops are kept in an
  event store with an index of due waits, and the requests for human approval of Tool calls in an inbox. This
  development models the state machines, the modules they stand on, the memory coordinators, the engines, the driver,
  the memory event store, the memory inbox, the governor that admits Effects to their connectors, the executor that
  runs them, the reconciler that settles those whose outcome is unknown, and
  the trust, the registry and the resolution of Skill packages.

  \<^bold>\<open>Parts of the program and the theories that model them.\<close>

  \<^item> \<open>Prelude\<close>: Rust's \<open>Result\<close> and \<open>?\<close> (\<open>and_then\<close>, \<open>map_err\<close>, \<open>ok_or\<close>, \<open>try_fold\<close>, \<open>for_each\<close>),
    \<open>u64\<close> and \<open>u32\<close> as words with \<open>checked_add\<close>, \<open>usize\<close> as a number with its bound written out, UTF-8
    strings as byte lists, lower-case hexadecimal, and \<open>BTreeMap\<close> as a sorted association list with
    the locale \<open>ordered_map\<close>.
  \<^item> \<open>Errors\<close>: one constructor per error the modelled code can return. The kind of a
    \<open>HarnessError\<close> and the condition that raised it are kept; the wording of the message is not.
  \<^item> \<open>Kernel\<close>: identities, authorities, tenants and execution bindings
    (\<^verbatim>\<open>kernel/types.rs\<close>, \<^verbatim>\<open>kernel/registry.rs\<close>).
  \<^item> \<open>Json\<close>: \<^verbatim>\<open>json.rs\<close>, the shape check of untrusted values and the three bounded encoders, which
    interpret the locale \<open>bounded_writer\<close>.
  \<^item> \<open>Event_Log\<close>: what the three event-sourced modules have in common, as locales: a history that
    is replayed (\<open>replay_log\<close>) and a reserve of slots for settling (\<open>settlement_reserve\<close>).
  \<^item> \<open>Leases\<close>: the locale \<open>lease_fence\<close>, the contract of every lease check.
  \<^item> \<open>Workflow\<close>: \<^verbatim>\<open>workflow/mod.rs\<close>, Workflow Runs (start, wait for signal, timer or retry, wake,
    migrate, complete, fail, cancel).
  \<^item> \<open>Handoff\<close>: \<^verbatim>\<open>human_handoff/mod.rs\<close>, Human Handoff cases (queue, claim, renew, release, expire,
    resolve, cancel).
  \<^item> \<open>Effect\<close>: \<^verbatim>\<open>effect/mod.rs\<close>, external Effects (claim, renew, record, expire to unknown,
    reconcile, cancel).
  \<^item> \<open>Task_Graph\<close>: \<^verbatim>\<open>orchestration/mod.rs\<close>, the Task Graph (construction, claims, heartbeats,
    settlement, blocking of dependents, messages, integrity). \<open>Task_Steps\<close> turns its operations into
    steps and \<open>Task_Integrity\<close> proves its validator an invariant.
  \<^item> \<open>Revision_Store\<close>: what the four coordinators have in common: keys of tenant and identity, queries of a
    tenant behind a cursor, and the locale \<open>journal_store\<close> of a store whose entries are born with
    revision 1 and grow by one revision and one transition at a time.
  \<^item> \<open>Workflow_Store\<close>, \<open>Handoff_Store\<close>, \<open>Effect_Store\<close>, \<open>Graph_Store\<close>: the memory coordinators
    (\<^verbatim>\<open>workflow/coordinator.rs\<close>, \<^verbatim>\<open>human_handoff/coordinator.rs\<close>, \<^verbatim>\<open>effect/coordinator.rs\<close>,
    \<^verbatim>\<open>orchestration/coordinator.rs\<close>, with \<^verbatim>\<open>human_handoff/engine.rs\<close> and \<^verbatim>\<open>effect/page.rs\<close>).
  \<^item> \<open>Workflow_Engine\<close>: \<^verbatim>\<open>workflow/engine.rs\<close>, with the interleavings of its callers.
  \<^item> \<open>Governor\<close>: \<^verbatim>\<open>effect/governor.rs\<close>, the admission of Effect dispatches: lanes with fixed windows and circuit breakers, the
    memory governor, and the abstract circuit breaker. \<open>Governor_Sql\<close> is its SQLite implementation with tables as maps;
    it interprets the locale \<open>simulation\<close> of \<open>Simulation\<close>, a store that answers like another one.
  \<^item> \<open>Effect_Worker\<close>: the asynchronous tasks of the executor and the reconciler, as trees whose nodes are the awaits and whose branches are
    their answers, with assertions over all runs of a task, and the bounded pool of running tasks. \<open>Executor\<close>:
    \<^verbatim>\<open>effect/executor.rs\<close>, registry, policies, configuration, the task of one Effect and the sweep. \<open>Executor_System\<close>: the
    tasks of many executors, interleaved with each other and with every other user of one ledger and one governor. \<open>Reconciler\<close>:
    \<^verbatim>\<open>effect/reconciler.rs\<close>, the lookups of unknown outcomes, their evidence, the task of one Effect and the sweep.
  \<^item> \<open>Approval\<close>: \<^verbatim>\<open>approval/mod.rs\<close>, approval records, the memory inbox (submit, read, list, settle, orphan a Turn), the
    handler that polls it, and the decoding of stored rows.
  \<^item> \<open>Wait_Due\<close>: \<^verbatim>\<open>state/wait_due.rs\<close>, the projection of an agent loop's wait, its reducer, the rows and pages
    of due waits and the identities of the commands that settle them.
  \<^item> \<open>Event_Store\<close>: the memory event store of \<^verbatim>\<open>state/mod.rs\<close>, appending and the scan of due waits.
  \<^item> \<open>Temporal\<close>: \<^verbatim>\<open>temporal/mod.rs\<close>, the tick of the driver over the three engines.
  \<^item> \<open>Skill\<close>: \<^verbatim>\<open>skill/mod.rs\<close>, Skill packages and their digests, the shared trust stores of publishers and transparency logs (a heap, so
    that revocations reach what was registered before), and the registry. \<open>Skill_Resolver\<close>: the resolution of exact dependency graphs
    and the reading of resources.

  \<^bold>\<open>How state and operations correspond to the code.\<close> A struct is a record and an enum a datatype
  with the source's variants; a method that mutates \<open>self\<close> and returns a \<open>Result\<close> is a function from
  the old value to an error or the new value and the result. An error leaves the old value, because
  the methods check before they change or work on a copy. Loops over collections are \<open>try_fold\<close>,
  \<open>for_each\<close> or list functions; the depth-first search of \<open>validate_acyclic\<close>, the fixpoint loop of
  \<open>blocked_mutations\<close> and the stack loop of \<open>validate_value_shape\<close> are functions with termination
  proofs, so there is no fuel anywhere.

  \<^bold>\<open>Parameters.\<close> \<open>serde_json\<close> and \<open>sha2\<close> are not part of the repository: encoders and SHA-256 are
  arguments, collected in a record per module (\<open>workflow_env\<close>, \<open>handoff_env\<close>, \<open>effect_env\<close>,
  \<open>graph_env\<close>, \<open>approval_env\<close>, \<open>governor_env\<close>, \<open>governor_codec\<close>, \<open>executor_env\<close>,
  \<open>reconciler_env\<close>, \<open>skill_env\<close>, the last with the versions of \<open>semver\<close> and the checks of \<open>ed25519_dalek\<close>). Theorems use of them at most that a digest has 32 bytes, that it separates two
  given inputs, that an encoding fits a limit, or how much one transition adds to an encoding, and say so in their hypotheses. Random identities
  (\<open>TaskLeaseId::generate\<close>, \<open>TaskMessageId::generate\<close>) and the clock are arguments of the operations
  that use them.

  \<^bold>\<open>What the lemmas show.\<close> For the event-sourced modules: every applied command is a step of an
  abstract life cycle; a replay of the stored history always succeeds and gives the stored
  projection, so the validation inside \<open>apply\<close> never rejects and reading back a stored object
  returns it; repeated commands are duplicates; terminal objects stay as they are; owners and
  leases exclude each other; attempts of an Effect are numbered without gaps, every command is the labelled step of the attempt protocol it names, and an
  unknown outcome needs a reconciliation; an open Run can always be cancelled, because the reserve of transitions and the
  reserve of bytes both suffice, and an open case whose cancelled form fits. For the Task Graph: every
  operation moves each Task along its life cycle, a live lease cannot be taken away and a stale one
  not used, a failure blocks exactly the Tasks that can never run, a claim takes eligible
  Tasks of the highest priority, then the smallest identity, pages of messages lose nothing, the cycle check is exact, and
  every graph reachable from \<open>TaskGraph::new\<close> passes \<open>validate_integrity\<close>, charge included.

  For the coordinators: of the callers that observed one revision at most one is
  applied, the repetition of a committed command is a duplicate however late it comes, every stored object is valid
  and its revision counts its transitions, a tenant sees and changes only its own objects, pages list
  exactly the next objects in order and their cursors resume behind them, and at most one Effect exists per
  idempotency key. For the Workflow engine: in every interleaving a completed Run has a Task Graph whose
  Tasks are all completed. For agent loop waits: the reducer follows the life cycle of a wait, the identity of a
  maintenance command is the same for two due waits exactly when their fences are, the positions, versions, recovery charges, live waits and the
  due index of the event store are what its journal determines, and a scan returns exactly the due waits. For the driver: a tick on stores the engines built always
  answers, its attempts change only what the scan observed, and ticks that follow their cursors
  visit every object. For approvals: a settlement is final and never the requester's own, the handler reports only
  decisions that were given and ends once there is one, an abandoned Turn can be orphaned, the bounded selection of pending requests is
  the sorted one, and rows are read back as they were written or refused. For the governor: no window of a lane
  exceeds its limit, nothing passes while a circuit is open or another probe is out, every call is the step of the abstract circuit breaker it is labelled
  with, so that every failure of the current epoch counts, repetitions get the first answer and settlements count once, a refused admission whose
  retention overflows leaves a lane that admits nothing any more, and for times within an SQLite integer the SQLite governor answers like the memory
  governor with failed calls undone.
  For the executor: in every interleaving and with lost replies an attempt enters a Connector at most once, and only after registration,
  Policy, claim and governor; an uncertain answer is never retried; reports are what the ledger holds; the commands of a task
  are well formed, and a sweep reports every due Effect of its page once.
  For the reconciler: an unknown Effect changes only with the valid answer of an allowed lookup, on the history the scan saw and under the uncertain
  attempt, and gets the status the answer stands for; reports are true, and a sweep
  reports every unknown Effect of its page once. For Skills: every registered package is valid, external ones are signed by a trusted
  publisher, a revocation is final and takes effect on everything registered before, and a resolution succeeds exactly when it can and gives
  the dependency closure, dependencies first.

  \<^bold>\<open>Bounds.\<close> The limits are the source's constants. Sequence numbers, attempts and expiry times are
  words and every addition on them is the checked one of the source.

  \<^bold>\<open>What is not modelled.\<close> The SQLite and PostgreSQL stores other than the governor's (their tables hold the encoded objects, and the
  queries are SQL text), and of the governor's the settings of the connection; the State Engine that replays Threads from events, and with it the settling of
  agent loop waits by the driver; of the memory event store the creation of streams from others, names, lineages and
  snapshots; the content checks of events, which are a parameter of \<open>Event_Store\<close>; the Effect engine, whose methods
  each are one call of the coordinator; the Task Graph
  runner, which drives external programs; model adapters, transports, the protocol server, the command
  line and terminal clients, the fetching of Skills over HTTPS, and the domain packs.
\<close>

end
